(* ===== verification/Wisp_Prelude.thy ===== *)
theory Wisp_Prelude
  imports Main "HOL-Library.Word" "HOL-Library.Char_ord" "HOL-Library.List_Lexorder"
begin

text \<open>
  Shared vocabulary of the MailWisp development: the Go value types the code uses
  (byte strings, \<^verbatim>\<open>time.Time\<close>, \<^verbatim>\<open>context.Context\<close>, \<^verbatim>\<open>error\<close>), the functions of
  the packages \<^verbatim>\<open>strings\<close> and \<^verbatim>\<open>errors\<close> it calls, the sentinel errors of all
  packages under \<^verbatim>\<open>internal/\<close>, the theorem collections, and the list lemmas used by
  more than one component.

  A Go \<^verbatim>\<open>string\<close> or \<^verbatim>\<open>[]byte\<close> is a \<^typ>\<open>char list\<close>: a HOL character is one byte.
  A \<^verbatim>\<open>time.Time\<close> (always converted to UTC by the code) and a \<^verbatim>\<open>time.Duration\<close> are
  integers counting nanoseconds.
\<close>

section \<open>Collections\<close>

named_theorems go_string \<open>unfolding of the string helpers\<close>
named_theorems go_case \<open>case splits on results and options\<close>

lemmas result_splits [go_case] = sum.splits option.splits if_splits prod.splits

section \<open>Values\<close>

type_synonym bytes = "char list"
type_synonym time = int
type_synonym duration = int

text \<open>The zero \<^verbatim>\<open>time.Time\<close>: January 1 of year 1, in nanoseconds relative to 1970.\<close>

definition zero_time :: time where
  "zero_time = - 62135596800 * 1000000000"

definition is_zero_time :: "time \<Rightarrow> bool" where
  "is_zero_time t \<longleftrightarrow> t = zero_time"

definition max_int64 :: int where
  "max_int64 = 2 ^ 63 - 1"

text \<open>The wrap-around of \<^verbatim>\<open>int64\<close> arithmetic.\<close>

definition wrap64 :: "int \<Rightarrow> int" where
  "wrap64 n = (n + 2 ^ 63) mod 2 ^ 64 - 2 ^ 63"

lemma wrap64_id: "- (2 ^ 63) \<le> n \<Longrightarrow> n \<le> max_int64 \<Longrightarrow> wrap64 n = n"
  by (simp add: wrap64_def max_int64_def)

definition max_uint32 :: int where
  "max_uint32 = 2 ^ 32 - 1"

section \<open>Errors\<close>

text \<open>
  One constructor per sentinel error of the program; \<^verbatim>\<open>errors.Is\<close> looks through the
  \<^verbatim>\<open>fmt.Errorf("...: %w", err)\<close> wrappers, so a wrapped error is the same value here.
  An error without a sentinel is \<open>OtherError\<close> with its text.
\<close>

datatype go_error =
    ErrInvalidToken | ErrUnauthenticated | ErrForbidden
  | ErrCapabilityNotFound | ErrCapabilityKIDConflict | ErrCapabilitySubjectUnavailable
  | ErrCapabilityLifetime | ErrCapabilityAlreadyRotated
  | ErrBrowserSessionDisabled | ErrCSRF
  | ErrInvalidDelivery | ErrInboxNotFound | ErrContentTooLarge
  | ErrInboxMessageQuotaExceeded | ErrInboxStorageQuotaExceeded | ErrInsufficientStorage
  | ErrInvalidKey | ErrContentCorrupt | ErrInconsistentContent
  | ErrContentMetadataConflict
  | ErrDataTooLarge | ErrDataLineTooLong | ErrCommandLineTooLong
  | ErrMessageTooLarge | ErrHeaderTooLarge | ErrTooManyHeaders | ErrTooManyParts
  | ErrNestingTooDeep | ErrPartTooLarge | ErrDecodedContentTooLarge
  | ErrStaleParseClaim
  | MailboxErrInboxNotFound | ErrMessageNotFound | ErrAddressConflict
  | ErrInvalidDomain | ErrInvalidLifetime | ErrInvalidLocalPart
  | ErrDailyCreateQuotaExceeded | ErrInvalidClientAddress | ErrServiceActive | ErrServerClosed
  | ErrInvalidAccount | ErrAccountConflict | ErrLoginFailed | ErrPermanentUnsupported
  | ErrInvalidRequest | ErrAddressMismatch | ErrInvalidAddressName | ErrMessageIDNotFound
  | EOF | ErrNetClosed | ErrNotExist | ErrClosedPipe | ErrNoSpace
  | ContextCanceled | DeadlineExceeded
  | OtherError string

type_synonym 'a result = "go_error + 'a"

fun is_ok :: "'a result \<Rightarrow> bool" where
  "is_ok (Inr _) = True"
| "is_ok (Inl _) = False"

text \<open>A context is \<^verbatim>\<open>nil\<close>, or live with \<^verbatim>\<open>ctx.Err()\<close> given.\<close>

datatype ctx = NilCtx | Ctx "go_error option"

fun ctx_err :: "ctx \<Rightarrow> go_error option" where
  "ctx_err NilCtx = None"
| "ctx_err (Ctx e) = e"

section \<open>Package strings\<close>

definition has_prefix :: "string \<Rightarrow> string \<Rightarrow> bool" where
  "has_prefix s p \<longleftrightarrow> take (length p) s = p"

definition has_suffix :: "string \<Rightarrow> string \<Rightarrow> bool" where
  "has_suffix s p \<longleftrightarrow> has_prefix (rev s) (rev p)"

definition trim_prefix :: "string \<Rightarrow> string \<Rightarrow> string" where
  "trim_prefix s p = (if has_prefix s p then drop (length p) s else s)"

fun index_byte :: "string \<Rightarrow> char \<Rightarrow> nat option" where
  "index_byte [] b = None"
| "index_byte (c # s) b = (if c = b then Some 0 else map_option Suc (index_byte s b))"

text \<open>\<^verbatim>\<open>strings.Cut\<close> at a one-byte separator: before, after, found.\<close>

definition cut :: "string \<Rightarrow> char \<Rightarrow> string \<times> string \<times> bool" where
  "cut s b = (case index_byte s b of
      None \<Rightarrow> (s, [], False)
    | Some i \<Rightarrow> (take i s, drop (Suc i) s, True))"

text \<open>\<^verbatim>\<open>strings.Split\<close> at a one-byte separator: never empty.\<close>

fun split_on :: "char \<Rightarrow> string \<Rightarrow> string list" where
  "split_on b [] = [[]]"
| "split_on b (c # s) =
     (if c = b then [] # split_on b s
      else case split_on b s of t # ts \<Rightarrow> (c # t) # ts | [] \<Rightarrow> [[c]])"

lemma split_on_nonempty [simp]: "split_on b s \<noteq> []"
  by (cases s) (auto split: list.splits)

lemma split_on_none: "b \<notin> set s \<Longrightarrow> split_on b s = [s]"
  by (induction s) auto

lemma split_on_append: "b \<notin> set s \<Longrightarrow> split_on b (s @ b # r) = s # split_on b r"
  by (induction s) auto

fun contains_str :: "string \<Rightarrow> string \<Rightarrow> bool" where
  "contains_str [] p = (p = [])"
| "contains_str (c # s) p = (has_prefix (c # s) p \<or> contains_str s p)"

text \<open>
  The length in bytes of the white-space rune a string starts with (0 if none): the runes
  of \<^verbatim>\<open>unicode.IsSpace\<close> in UTF-8.
\<close>

definition ascii_space :: "char \<Rightarrow> bool" where
  "ascii_space c \<longleftrightarrow> of_char c \<in> {9, 10, 11, 12, 13, 32 :: nat}"

fun space_len :: "string \<Rightarrow> nat" where
  "space_len [] = 0"
| "space_len (a # s) =
     (if ascii_space a then 1
      else case map of_char (take 2 s) of
          (b :: nat) # t \<Rightarrow>
            if of_char a = (0xC2 :: nat) then (if b = 0x85 \<or> b = 0xA0 then 2 else 0)
            else (case t of
                c # _ \<Rightarrow>
                  if of_char a = (0xE1 :: nat) \<and> b = 0x9A \<and> c = 0x80 then 3
                  else if of_char a = (0xE2 :: nat) \<and> b = 0x80 \<and>
                          ((0x80 \<le> c \<and> c \<le> 0x8A) \<or> c = 0xA8 \<or> c = 0xA9 \<or> c = 0xAF) then 3
                  else if of_char a = (0xE2 :: nat) \<and> b = 0x81 \<and> c = 0x9F then 3
                  else if of_char a = (0xE3 :: nat) \<and> b = 0x80 \<and> c = 0x80 then 3
                  else 0
              | [] \<Rightarrow> 0)
        | [] \<Rightarrow> 0)"

function trim_left_space :: "string \<Rightarrow> string" where
  "trim_left_space s =
     (if space_len s = 0 then s else trim_left_space (drop (space_len s) s))"
  by pat_completeness auto
termination
proof (relation "measure length")
  show "wf (measure length)" by simp
next
  fix s :: string
  assume "space_len s \<noteq> 0"
  then show "(drop (space_len s) s, s) \<in> measure length" by (cases s) auto
qed

declare trim_left_space.simps [simp del]

text \<open>
  A white-space rune at the end of a string is found the way \<^verbatim>\<open>utf8.DecodeLastRune\<close>
  finds it: the last one, two or three bytes are exactly such a rune.
\<close>

definition last_space_len :: "string \<Rightarrow> nat" where
  "last_space_len s =
     (if s = [] then 0
      else if ascii_space (last s) then 1
      else if length s \<ge> 2 \<and> space_len (drop (length s - 2) s) = 2 then 2
      else if length s \<ge> 3 \<and> space_len (drop (length s - 3) s) = 3 then 3
      else 0)"

function trim_right_space :: "string \<Rightarrow> string" where
  "trim_right_space s =
     (if last_space_len s = 0 then s
      else trim_right_space (take (length s - last_space_len s) s))"
  by pat_completeness auto
termination
proof (relation "measure length")
  show "wf (measure length)" by simp
next
  fix s :: string
  assume "last_space_len s \<noteq> 0"
  then show "(take (length s - last_space_len s) s, s) \<in> measure length"
    by (auto simp: last_space_len_def split: if_splits)
qed

declare trim_right_space.simps [simp del]

definition trim_space :: "string \<Rightarrow> string" where
  "trim_space s = trim_right_space (trim_left_space s)"

text \<open>\<^verbatim>\<open>strings.Fields\<close>: the maximal runs between white-space runes.\<close>

function fields_acc :: "string \<Rightarrow> string \<Rightarrow> string list" where
  "fields_acc acc s =
     (if s = [] then (if acc = [] then [] else [acc])
      else if space_len s = 0 then fields_acc (acc @ [hd s]) (tl s)
      else (if acc = [] then [] else [acc]) @ fields_acc [] (drop (space_len s) s))"
  by pat_completeness auto
termination
proof (relation "measure (\<lambda>(acc, s). length s)")
  show "wf (measure (\<lambda>(acc, s). length (s :: string)))" by simp
next
  fix acc s :: string
  assume "s \<noteq> []"
  then show "((acc @ [hd s], tl s), (acc, s)) \<in> measure (\<lambda>(acc, s). length s)" by (cases s) auto
next
  fix acc s :: string
  assume "s \<noteq> []" "space_len s \<noteq> 0"
  then show "(([], drop (space_len s) s), (acc, s)) \<in> measure (\<lambda>(acc, s). length s)"
    by (cases s) auto
qed

declare fields_acc.simps [simp del]

definition fields :: "string \<Rightarrow> string list" where
  "fields s = fields_acc [] s"

definition lower_char :: "char \<Rightarrow> char" where
  "lower_char c = (if 65 \<le> (of_char c :: nat) \<and> of_char c \<le> (90 :: nat)
     then char_of (of_char c + 32 :: nat) else c)"

definition upper_char :: "char \<Rightarrow> char" where
  "upper_char c = (if 97 \<le> (of_char c :: nat) \<and> of_char c \<le> (122 :: nat)
     then char_of (of_char c - 32 :: nat) else c)"

text \<open>
  \<^verbatim>\<open>strings.ToLower\<close> and \<^verbatim>\<open>strings.ToUpper\<close>: exact on ASCII, and exact on the
  runes outside ASCII that map into it (the Kelvin sign and the dotted capital I to lower
  case; the dotless i and the long s to upper case). Other runes are left as they are: the
  code only compares the results with ASCII constants or rejects them afterwards.
\<close>

fun to_lower :: "string \<Rightarrow> string" where
  "to_lower [] = []"
| "to_lower (a # s) =
     (case map of_char s of
        (b :: nat) # c # _ \<Rightarrow>
          if of_char a = (0xE2 :: nat) \<and> b = 0x84 \<and> c = 0xAA then CHR ''k'' # to_lower (drop 2 s)
          else if of_char a = (0xC4 :: nat) \<and> b = 0xB0 then CHR ''i'' # to_lower (drop 1 s)
          else lower_char a # to_lower s
      | [b] \<Rightarrow> if of_char a = (0xC4 :: nat) \<and> b = 0xB0 then CHR ''i'' # to_lower (drop 1 s)
          else lower_char a # to_lower s
      | [] \<Rightarrow> [lower_char a])"

fun to_upper :: "string \<Rightarrow> string" where
  "to_upper [] = []"
| "to_upper (a # s) =
     (case map of_char s of
        (b :: nat) # _ \<Rightarrow>
          if of_char a = (0xC4 :: nat) \<and> b = 0xB1 then CHR ''I'' # to_upper (drop 1 s)
          else if of_char a = (0xC5 :: nat) \<and> b = 0xBF then CHR ''S'' # to_upper (drop 1 s)
          else upper_char a # to_upper s
      | [] \<Rightarrow> [upper_char a])"

text \<open>ASCII-only equality under case folding, for constants without k and s.\<close>

definition equal_fold_ascii :: "string \<Rightarrow> string \<Rightarrow> bool" where
  "equal_fold_ascii s t \<longleftrightarrow> map lower_char s = map lower_char t"

definition is_ascii :: "char \<Rightarrow> bool" where
  "is_ascii c \<longleftrightarrow> of_char c < (128 :: nat)"

definition in_range :: "char \<Rightarrow> char \<Rightarrow> char \<Rightarrow> bool" where
  "in_range lo hi c \<longleftrightarrow> (of_char lo :: nat) \<le> of_char c \<and> (of_char c :: nat) \<le> of_char hi"

lemmas [go_string] = has_prefix_def has_suffix_def trim_prefix_def cut_def

lemma has_prefix_iff: "has_prefix s p \<longleftrightarrow> (\<exists>t. s = p @ t)"
  by (metis append_eq_conv_conj append_take_drop_id has_prefix_def)

lemma has_prefix_append [simp]: "has_prefix (p @ t) p"
  by (simp add: has_prefix_def)

lemma has_prefix_simps [simp]:
  "has_prefix s []" "\<not> has_prefix [] (d # p)" "has_prefix (c # s) (d # p) \<longleftrightarrow> c = d \<and> has_prefix s p"
  by (auto simp: has_prefix_def)

lemma trim_prefix_append [simp]: "trim_prefix (p @ t) p = t"
  by (simp add: trim_prefix_def)

lemma index_byte_Some_iff:
  "index_byte s b = Some i \<longleftrightarrow> i < length s \<and> s ! i = b \<and> b \<notin> set (take i s)"
proof (induction s arbitrary: i)
  case (Cons c s)
  then show ?case by (cases i) auto
qed simp

lemma index_byte_None_iff: "index_byte s b = None \<longleftrightarrow> b \<notin> set s"
  by (induction s) auto

lemma index_byte_append: "b \<notin> set s \<Longrightarrow> index_byte (s @ b # t) b = Some (length s)"
  by (induction s) auto

lemma index_byte_split: "index_byte s b = Some i \<Longrightarrow> s = take i s @ b # drop (Suc i) s"
  by (metis id_take_nth_drop index_byte_Some_iff)

lemma cut_found: "b \<notin> set s \<Longrightarrow> cut (s @ b # t) b = (s, t, True)"
  by (simp add: cut_def index_byte_append)

lemma cut_not_found: "b \<notin> set s \<Longrightarrow> cut s b = (s, [], False)"
  by (simp add: cut_def index_byte_None_iff [THEN iffD2])

subsection \<open>Strings without white space at their ends\<close>

definition plain_char :: "char \<Rightarrow> bool" where
  "plain_char c \<longleftrightarrow> is_ascii c \<and> \<not> ascii_space c"

lemma space_len_plain: "plain_char a \<Longrightarrow> space_len (a # s) = 0"
  by (auto simp: plain_char_def is_ascii_def split: list.splits)

lemma trim_left_plain: "s = [] \<or> plain_char (hd s) \<Longrightarrow> trim_left_space s = s"
  by (cases s; subst trim_left_space.simps) (auto simp: space_len_plain simp del: space_len.simps(2))

lemma trim_left_blank: "trim_left_space (CHR '' '' # s) = trim_left_space s"
  by (subst trim_left_space.simps) (simp add: ascii_space_def)

lemma space_len_last:
  assumes "plain_char y"
  shows "space_len [x, y] \<noteq> 2" "space_len [x, z, y] \<noteq> 3"
  using assms by (auto simp: plain_char_def is_ascii_def)

lemma last_space_len_plain:
  assumes "s \<noteq> []" "plain_char (last s)"
  shows "last_space_len s = 0"
proof -
  obtain u y where s: "s = u @ [y]" using assms(1) by (metis append_butlast_last_id)
  with assms(2) have y: "plain_char y" by simp
  show ?thesis
  proof (cases u rule: rev_cases)
    case Nil
    with s y show ?thesis by (simp add: last_space_len_def plain_char_def)
  next
    case (snoc v x)
    show ?thesis
    proof (cases v rule: rev_cases)
      case Nil
      with s snoc y space_len_last(1) [OF y, of x] show ?thesis
        by (simp add: last_space_len_def plain_char_def del: space_len.simps)
    next
      case (snoc v' z)
      with s \<open>u = v @ [x]\<close> y space_len_last(1) [OF y, of x] space_len_last(2) [OF y, of z x] show ?thesis
        by (simp add: last_space_len_def plain_char_def del: space_len.simps)
    qed
  qed
qed

lemma trim_space_plain:
  assumes "s = [] \<or> plain_char (hd s) \<and> plain_char (last s)"
  shows "trim_space s = s"
proof -
  have "trim_left_space s = s" using assms trim_left_plain by blast
  moreover have "last_space_len s = 0"
    using assms last_space_len_plain [of s] by (cases "s = []") (simp_all add: last_space_len_def)
  ultimately show ?thesis by (simp add: trim_space_def trim_right_space.simps [of s])
qed

lemma trim_space_blank:
  assumes "s = [] \<or> plain_char (hd s) \<and> plain_char (last s)"
  shows "trim_space (CHR '' '' # s) = s"
  using trim_space_plain [OF assms] by (simp add: trim_space_def trim_left_blank)

lemma fields_acc_plain: "list_all plain_char s \<Longrightarrow> fields_acc acc s = (if acc @ s = [] then [] else [acc @ s])"
proof (induction s arbitrary: acc)
  case Nil
  then show ?case by (simp add: fields_acc.simps [of acc "[]"])
next
  case (Cons a s)
  then show ?case by (subst fields_acc.simps) (simp add: space_len_plain del: space_len.simps)
qed

lemma fields_plain: "list_all plain_char s \<Longrightarrow> s \<noteq> [] \<Longrightarrow> fields s = [s]"
  by (simp add: fields_def fields_acc_plain)

section \<open>Package io\<close>

text \<open>
  \<^verbatim>\<open>io.ReadFull(r, buf)\<close> with \<^verbatim>\<open>len(buf) = n\<close> on a source that still holds the bytes
  \<open>r\<close>: the bytes and what is left, \<^verbatim>\<open>io.EOF\<close> when nothing could be read, and
  \<^verbatim>\<open>io.ErrUnexpectedEOF\<close> when the source ran short.
\<close>

definition read_full :: "nat \<Rightarrow> bytes \<Rightarrow> (bytes \<times> bytes) result" where
  "read_full n r = (if n \<le> length r then Inr (take n r, drop n r)
     else if r = [] then Inl EOF else Inl (OtherError ''unexpected EOF''))"

lemma read_full_Inr: "read_full n r = Inr (b, r') \<longleftrightarrow> n \<le> length r \<and> b = take n r \<and> r' = drop n r"
  by (auto simp: read_full_def)

end
