(* ===== verification/Wisp_Codec.thy ===== *)
theory Wisp_Codec
  imports Wisp_Prelude
begin

text \<open>
  The encodings of the Go standard library that the program relies on, as executable
  functions with their round trips: \<^verbatim>\<open>encoding/hex\<close>, \<^verbatim>\<open>encoding/base64\<close>
  (\<^verbatim>\<open>RawURLEncoding\<close>, lenient and \<^verbatim>\<open>Strict\<close>), \<^verbatim>\<open>encoding/base32\<close> without padding,
  \<^verbatim>\<open>strconv.FormatInt\<close> and \<^verbatim>\<open>strconv.ParseInt\<close> in base 10, and big-endian integers of
  \<^verbatim>\<open>encoding/binary\<close>.
\<close>

section \<open>Hexadecimal\<close>

definition hex_digit :: "nat \<Rightarrow> char" where
  "hex_digit n = ''0123456789abcdef'' ! n"

definition hex_val :: "char \<Rightarrow> nat option" where
  "hex_val c =
     (if in_range CHR ''0'' CHR ''9'' c then Some (of_char c - 48)
      else if in_range CHR ''a'' CHR ''f'' c then Some (of_char c - 87)
      else if in_range CHR ''A'' CHR ''F'' c then Some (of_char c - 55)
      else None)"

fun hex_encode :: "bytes \<Rightarrow> string" where
  "hex_encode [] = []"
| "hex_encode (b # bs) = hex_digit (of_char b div 16) # hex_digit (of_char b mod 16) # hex_encode bs"

fun hex_decode :: "string \<Rightarrow> bytes option" where
  "hex_decode [] = Some []"
| "hex_decode [_] = None"
| "hex_decode (x # y # s) =
     (case (hex_val x, hex_val y) of
        (Some h, Some l) \<Rightarrow> map_option (Cons (char_of (16 * h + l))) (hex_decode s)
      | _ \<Rightarrow> None)"

definition lower_hex_char :: "char \<Rightarrow> bool" where
  "lower_hex_char c \<longleftrightarrow> in_range CHR ''0'' CHR ''9'' c \<or> in_range CHR ''a'' CHR ''f'' c"

lemma hex_digit_table:
  "list_all (\<lambda>n. hex_val (hex_digit n) = Some n \<and> lower_hex_char (hex_digit n)) [0..<16]"
  by code_simp

lemma hex_digit_val [simp]: "n < 16 \<Longrightarrow> hex_val (hex_digit n) = Some n"
  using hex_digit_table by (simp add: list_all_iff)

lemma hex_digit_lower [simp]: "n < 16 \<Longrightarrow> lower_hex_char (hex_digit n)"
  using hex_digit_table by (simp add: list_all_iff)

lemma length_hex_encode [simp]: "length (hex_encode bs) = 2 * length bs"
  by (induction bs) auto

lemma byte_div_16 [simp]: "(of_char (b :: char) :: nat) div 16 < 16"
  using nat_of_char_less_256 [of b] by linarith

lemma hex_encode_lower [simp]: "list_all lower_hex_char (hex_encode bs)"
  by (induction bs) auto

lemma hex_decode_encode [simp]: "hex_decode (hex_encode bs) = Some bs"
proof (induction bs)
  case (Cons b bs)
  have "16 * ((of_char b :: nat) div 16) + of_char b mod 16 = of_char b" by simp
  with Cons show ?case by simp
qed simp

lemma hex_decode_length: "hex_decode s = Some bs \<Longrightarrow> length s = 2 * length bs"
  by (induction s arbitrary: bs rule: hex_decode.induct) (auto split: option.splits)

lemma hex_digit_code:
  "list_all (\<lambda>n. hex_digit n = char_of (if n < 10 then 48 + n else 87 + n)) [0..<16]"
  by code_simp

lemma lower_hex_val:
  assumes "lower_hex_char c"
  obtains v where "hex_val c = Some v" "v < 16" "hex_digit v = c"
proof (cases "in_range CHR ''0'' CHR ''9'' c")
  case True
  let ?v = "of_char c - 48 :: nat"
  from True have v: "48 + ?v = of_char c" "?v < 10" by (auto simp: in_range_def)
  then have "hex_digit ?v = char_of (48 + ?v)" using hex_digit_code by (simp add: list_all_iff)
  then show thesis using that [of ?v] True v by (simp add: hex_val_def)
next
  case False
  let ?v = "of_char c - 87 :: nat"
  from False assms have r: "in_range CHR ''a'' CHR ''f'' c" by (simp add: lower_hex_char_def)
  then have v: "87 + ?v = of_char c" "10 \<le> ?v" "?v < 16" by (auto simp: in_range_def)
  then have "hex_digit ?v = char_of (87 + ?v)" using hex_digit_code by (simp add: list_all_iff)
  then show thesis using that [of ?v] False r v by (simp add: hex_val_def)
qed

lemma hex_encode_decode:
  "list_all lower_hex_char s \<Longrightarrow> hex_decode s = Some bs \<Longrightarrow> hex_encode bs = s"
proof (induction s arbitrary: bs rule: hex_decode.induct)
  case (3 x y s)
  from "3.prems"(1) obtain h l where
    h: "hex_val x = Some h" "h < 16" "hex_digit h = x" and
    l: "hex_val y = Some l" "l < 16" "hex_digit l = y"
    by (auto elim!: lower_hex_val)
  with "3.prems"(2) obtain cs where cs: "hex_decode s = Some cs" "bs = char_of (16 * h + l) # cs"
    by auto
  have n: "(16 * h + l) mod 256 = 16 * h + l" using h l by simp
  have "(of_char (char_of (16 * h + l) :: char) :: nat) = 16 * h + l"
    unfolding of_char_of n ..
  moreover have "hex_encode cs = s" using "3.IH" h l cs "3.prems"(1) by simp
  ultimately show ?case using cs h l by simp
qed auto

lemma hex_decode_total:
  "list_all lower_hex_char s \<Longrightarrow> even (length s) \<Longrightarrow> \<exists>bs. hex_decode s = Some bs"
proof (induction s rule: hex_decode.induct)
  case (3 x y s)
  then show ?case by (auto elim!: lower_hex_val)
qed auto

section \<open>Base64, raw URL alphabet\<close>

definition b64_alphabet :: string where
  "b64_alphabet = ''ABCDEFGHIJKLMNOPQRSTUVWXYZabcdefghijklmnopqrstuvwxyz0123456789-_''"

definition b64_char :: "nat \<Rightarrow> char" where
  "b64_char n = b64_alphabet ! n"

definition b64_val :: "char \<Rightarrow> nat option" where
  "b64_val c =
     (if in_range CHR ''A'' CHR ''Z'' c then Some (of_char c - 65)
      else if in_range CHR ''a'' CHR ''z'' c then Some (of_char c - 71)
      else if in_range CHR ''0'' CHR ''9'' c then Some (of_char c + 4)
      else if c = CHR ''-'' then Some 62
      else if c = CHR ''_'' then Some 63
      else None)"

fun b64_digits :: "bytes \<Rightarrow> nat list" where
  "b64_digits [] = []"
| "b64_digits [a] = [of_char a div 4, (of_char a mod 4) * 16]"
| "b64_digits [a, b] =
     [of_char a div 4, (of_char a mod 4) * 16 + of_char b div 16, (of_char b mod 16) * 4]"
| "b64_digits (a # b # c # s) =
     [of_char a div 4, (of_char a mod 4) * 16 + of_char b div 16,
      (of_char b mod 16) * 4 + of_char c div 64, of_char c mod 64] @ b64_digits s"

fun b64_undigits :: "bool \<Rightarrow> nat list \<Rightarrow> bytes option" where
  "b64_undigits strict [] = Some []"
| "b64_undigits strict [x] = None"
| "b64_undigits strict [x, y] =
     (if strict \<and> y mod 16 \<noteq> 0 then None else Some [char_of (x * 4 + y div 16)])"
| "b64_undigits strict [x, y, z] =
     (if strict \<and> z mod 4 \<noteq> 0 then None
      else Some [char_of (x * 4 + y div 16), char_of ((y mod 16) * 16 + z div 4)])"
| "b64_undigits strict (x # y # z # w # r) =
     map_option (\<lambda>bs. char_of (x * 4 + y div 16) # char_of ((y mod 16) * 16 + z div 4) #
                     char_of ((z mod 4) * 64 + w) # bs)
       (b64_undigits strict r)"

definition b64_encode :: "bytes \<Rightarrow> string" where
  "b64_encode bs = map b64_char (b64_digits bs)"

text \<open>The decoder skips line breaks, as Go's does.\<close>

definition b64_decode :: "bool \<Rightarrow> string \<Rightarrow> bytes option" where
  "b64_decode strict s =
     Option.bind (those (map b64_val (filter (\<lambda>c. c \<noteq> CHR 10 \<and> c \<noteq> CHR 13) s)))
       (b64_undigits strict)"

lemma b64_table:
  "list_all (\<lambda>n. b64_val (b64_char n) = Some n \<and> b64_char n \<noteq> CHR 10 \<and> b64_char n \<noteq> CHR 13) [0..<64]"
  by code_simp

lemma b64_char_val [simp]: "n < 64 \<Longrightarrow> b64_val (b64_char n) = Some n"
  using b64_table by (simp add: list_all_iff)

lemma b64_char_no_break [simp]: "n < 64 \<Longrightarrow> b64_char n \<noteq> CHR 10" "n < 64 \<Longrightarrow> b64_char n \<noteq> CHR 13"
  using b64_table by (simp_all add: list_all_iff)

lemma b64_char_code:
  "list_all (\<lambda>n. b64_char n = char_of (if n < 26 then 65 + n else if n < 52 then 71 + n
     else if n < 62 then n - 4 else if n = 62 then 45 else 95)) [0..<64]"
  by code_simp

lemma b64_val_char: "b64_val c = Some v \<Longrightarrow> v < 64 \<and> b64_char v = c"
proof -
  assume v: "b64_val c = Some v"
  have "(v < 26 \<and> 65 + v = of_char c) \<or> (26 \<le> v \<and> v < 52 \<and> 71 + v = of_char c) \<or>
        (52 \<le> v \<and> v < 62 \<and> v - 4 = of_char c) \<or> (v = 62 \<and> c = CHR ''-'') \<or> (v = 63 \<and> c = CHR ''_'')"
    using v by (auto simp: b64_val_def in_range_def split: if_splits)
  moreover have "v < 64 \<Longrightarrow> b64_char v = char_of (if v < 26 then 65 + v else if v < 52 then 71 + v
     else if v < 62 then v - 4 else if v = 62 then 45 else 95)"
    using b64_char_code by (simp add: list_all_iff)
  moreover have "char_of (45 :: nat) = CHR ''-''" "char_of (95 :: nat) = CHR ''_''" by code_simp+
  ultimately show ?thesis by auto
qed

lemma byte_digits_less [simp]:
  "(of_char (a :: char) :: nat) div 4 < 64"
  "((of_char (a :: char) :: nat) mod 4) * 16 < 64"
  "((of_char (a :: char) :: nat) mod 16) * 4 < 64"
  "((of_char (a :: char) :: nat) mod 4) * 16 + of_char (b :: char) div 16 < 64"
  "((of_char (a :: char) :: nat) mod 16) * 4 + of_char (b :: char) div 64 < 64"
proof -
  note a = nat_of_char_less_256 [of a] and b = nat_of_char_less_256 [of b]
  show "(of_char a :: nat) div 4 < 64" using a by linarith
  show "((of_char a :: nat) mod 4) * 16 < 64" "((of_char a :: nat) mod 16) * 4 < 64" by simp_all
  have "(of_char b :: nat) div 16 < 16" "(of_char a :: nat) mod 4 < 4" by simp_all
  then show "((of_char a :: nat) mod 4) * 16 + of_char b div 16 < 64" by linarith
  have "(of_char b :: nat) div 64 < 4" "(of_char a :: nat) mod 16 < 16" using b by (linarith, simp)
  then show "((of_char a :: nat) mod 16) * 4 + of_char b div 64 < 64" by linarith
qed

lemma b64_digits_less: "d \<in> set (b64_digits bs) \<Longrightarrow> d < 64"
  by (induction bs rule: b64_digits.induct) auto

lemma length_b64_digits: "length (b64_digits bs) = (4 * length bs + 2) div 3"
  by (induction bs rule: b64_digits.induct) auto

lemma length_b64_encode: "length (b64_encode bs) = (4 * length bs + 2) div 3"
  by (simp add: b64_encode_def length_b64_digits)

lemma char_of_join [simp]:
  "char_of ((of_char (a :: char) :: nat) div 4 * 4 + of_char a mod 4) = a"
  "char_of ((of_char (a :: char) :: nat) div 16 * 16 + of_char a mod 16) = a"
  "char_of ((of_char (a :: char) :: nat) div 64 * 64 + of_char a mod 64) = a"
  "char_of ((of_char (a :: char) :: nat) mod 16 + of_char a div 16 * 16) = a"
  by (simp_all del: div_mult_self_is_m add: div_mult_mod_eq)

lemma b64_undigits_digits [simp]: "b64_undigits strict (b64_digits bs) = Some bs"
proof (induction bs rule: b64_digits.induct)
  case (2 a)
  show ?case by simp
next
  case (3 a b)
  have "((of_char a :: nat) mod 4 * 16 + of_char b div 16) div 16 = of_char a mod 4"
       "((of_char a :: nat) mod 4 * 16 + of_char b div 16) mod 16 = of_char b div 16" by simp_all
  then show ?case by simp
next
  case (4 a b c s)
  have e: "((of_char a :: nat) mod 4 * 16 + of_char b div 16) div 16 = of_char a mod 4"
       "((of_char a :: nat) mod 4 * 16 + of_char b div 16) mod 16 = of_char b div 16"
       by simp_all
  have "(of_char c :: nat) div 64 < 4" using nat_of_char_less_256 [of c] by linarith
  then have "((of_char b :: nat) mod 16 * 4 + of_char c div 64) div 4 = of_char b mod 16"
       "((of_char b :: nat) mod 16 * 4 + of_char c div 64) mod 4 = of_char c div 64"
    by simp_all
  with e 4 show ?case by simp
qed simp

lemma those_map_Some: "(\<And>x. x \<in> set xs \<Longrightarrow> f (g x) = Some x) \<Longrightarrow> those (map f (map g xs)) = Some xs"
  by (induction xs) auto

lemma b64_encode_no_break [simp]:
  "filter (\<lambda>c. c \<noteq> CHR 10 \<and> c \<noteq> CHR 13) (b64_encode bs) = b64_encode bs"
  by (auto simp: b64_encode_def filter_id_conv dest: b64_digits_less)

lemma b64_decode_encode [simp]: "b64_decode strict (b64_encode bs) = Some bs"
proof -
  have "those (map b64_val (b64_encode bs)) = Some (b64_digits bs)"
    unfolding b64_encode_def by (rule those_map_Some) (simp add: b64_digits_less)
  then show ?thesis by (simp only: b64_decode_def b64_encode_no_break) simp
qed

lemma those_Some_vals:
  "those (map b64_val s) = Some ds \<Longrightarrow> map b64_char ds = s \<and> (\<forall>d \<in> set ds. d < 64)"
  by (induction s arbitrary: ds) (auto split: option.splits dest: b64_val_char)

lemma digits_fit:
  assumes "x < 64" "y < 64" "z < 64" "w < (64 :: nat)"
  shows "(x * 4 + y div 16) mod 256 = x * 4 + y div 16"
    and "((y mod 16) * 16 + z div 4) mod 256 = (y mod 16) * 16 + z div 4"
    and "((z mod 4) * 64 + w) mod 256 = (z mod 4) * 64 + w"
    and "y div 16 < 4" and "z div 4 < 16"
proof -
  show y: "y div 16 < 4" and z: "z div 4 < 16" using assms by linarith+
  have "y mod 16 < 16" "z mod 4 < 4" by simp_all
  with y z assms have "x * 4 + y div 16 < 256" "(y mod 16) * 16 + z div 4 < 256" "(z mod 4) * 64 + w < 256"
    by linarith+
  then show "(x * 4 + y div 16) mod 256 = x * 4 + y div 16"
    and "((y mod 16) * 16 + z div 4) mod 256 = (y mod 16) * 16 + z div 4"
    and "((z mod 4) * 64 + w) mod 256 = (z mod 4) * 64 + w" by simp_all
qed

lemma b64_digits_undigits:
  "b64_undigits strict ds = Some bs \<Longrightarrow> strict \<Longrightarrow> \<forall>d \<in> set ds. d < 64 \<Longrightarrow> b64_digits bs = ds"
proof (induction strict ds arbitrary: bs rule: b64_undigits.induct)
  case (3 strict x y)
  then have y: "y mod 16 = 0" and bs: "bs = [char_of (x * 4 + y div 16)]" by (auto split: if_splits)
  have n: "(x * 4 + y div 16) mod 256 = x * 4 + y div 16" using digits_fit(1) [of x y 0 0] "3.prems" by simp
  have "(x * 4 + y div 16) div 4 = x" "(x * 4 + y div 16) mod 4 * 16 = y"
    using "3.prems"(3) y by auto
  then show ?case unfolding bs b64_digits.simps of_char_of n by simp
next
  case (4 strict x y z)
  then have z: "z mod 4 = 0"
    and bs: "bs = [char_of (x * 4 + y div 16), char_of ((y mod 16) * 16 + z div 4)]"
    by (auto split: if_splits)
  have n: "(x * 4 + y div 16) mod 256 = x * 4 + y div 16"
       "((y mod 16) * 16 + z div 4) mod 256 = (y mod 16) * 16 + z div 4"
    using digits_fit [of x y z 0] "4.prems" by simp_all
  have zz: "z div 4 < 16" and yy: "y div 16 < 4" using digits_fit(4,5) [of x y z 0] "4.prems" by simp_all
  have "(x * 4 + y div 16) div 4 = x" "(x * 4 + y div 16) mod 4 = y div 16"
       "((y mod 16) * 16 + z div 4) div 16 = y mod 16" "((y mod 16) * 16 + z div 4) mod 16 = z div 4"
    using zz yy by auto
  moreover have "z div 4 * 4 = z" using z by presburger
  ultimately show ?case unfolding bs b64_digits.simps of_char_of n by simp
next
  case (5 strict x y z w r)
  then obtain cs where r: "b64_undigits strict r = Some cs"
    and bs: "bs = char_of (x * 4 + y div 16) # char_of ((y mod 16) * 16 + z div 4) #
                     char_of ((z mod 4) * 64 + w) # cs" by auto
  have n: "(x * 4 + y div 16) mod 256 = x * 4 + y div 16"
       "((y mod 16) * 16 + z div 4) mod 256 = (y mod 16) * 16 + z div 4"
       "((z mod 4) * 64 + w) mod 256 = (z mod 4) * 64 + w"
    using digits_fit [of x y z w] "5.prems" by simp_all
  have zz: "z div 4 < 16" and yy: "y div 16 < 4" and ww: "w < 64"
    using digits_fit(4,5) [of x y z w] "5.prems" by simp_all
  have "(x * 4 + y div 16) div 4 = x" "(x * 4 + y div 16) mod 4 = y div 16"
       "((y mod 16) * 16 + z div 4) div 16 = y mod 16" "((y mod 16) * 16 + z div 4) mod 16 = z div 4"
       "((z mod 4) * 64 + w) div 64 = z mod 4" "((z mod 4) * 64 + w) mod 64 = w"
    using zz yy ww by auto
  moreover have "b64_digits cs = r" using "5.IH" r "5.prems"(2,3) by simp
  ultimately show ?case unfolding bs b64_digits.simps of_char_of n by simp
qed auto

text \<open>
  Strict decoding of a string without line breaks accepts only the canonical encoding of its
  result: this is what makes a token plaintext unique.
\<close>

lemma b64_encode_decode_strict:
  assumes "b64_decode True s = Some bs" and "CHR 10 \<notin> set s" and "CHR 13 \<notin> set s"
  shows "b64_encode bs = s"
proof -
  have "filter (\<lambda>c. c \<noteq> CHR 10 \<and> c \<noteq> CHR 13) s = s" using assms(2,3) by (auto simp: filter_id_conv)
  with assms(1) obtain ds where ds: "those (map b64_val s) = Some ds" "b64_undigits True ds = Some bs"
    by (auto simp: b64_decode_def bind_eq_Some_conv)
  from those_Some_vals [OF ds(1)] b64_digits_undigits [OF ds(2) TrueI] show ?thesis
    by (simp add: b64_encode_def)
qed

section \<open>Decimal integers\<close>

fun nat_digits :: "nat \<Rightarrow> string" where
  "nat_digits n = (if n < 10 then [char_of (48 + n)] else nat_digits (n div 10) @ [char_of (48 + n mod 10)])"

declare nat_digits.simps [simp del]

text \<open>\<^verbatim>\<open>strconv.FormatInt(v, 10)\<close>, also \<^verbatim>\<open>strconv.Itoa\<close> and the verb \<^verbatim>\<open>%d\<close>.\<close>

definition format_int :: "int \<Rightarrow> string" where
  "format_int v = (if v < 0 then CHR ''-'' # nat_digits (nat (- v)) else nat_digits (nat v))"

definition is_digit :: "char \<Rightarrow> bool" where
  "is_digit c \<longleftrightarrow> in_range CHR ''0'' CHR ''9'' c"

fun digits_value :: "nat \<Rightarrow> string \<Rightarrow> nat option" where
  "digits_value acc [] = Some acc"
| "digits_value acc (c # s) =
     (if is_digit c then digits_value (10 * acc + (of_char c - 48)) s else None)"

text \<open>\<^verbatim>\<open>strconv.ParseInt(s, 10, 64)\<close>: an optional sign, at least one digit, in range.\<close>

definition parse_int64 :: "string \<Rightarrow> int option" where
  "parse_int64 s =
     (let neg = (s \<noteq> [] \<and> hd s = CHR ''-'');
          t = (if s \<noteq> [] \<and> (hd s = CHR ''-'' \<or> hd s = CHR ''+'') then tl s else s)
      in if t = [] then None
         else case digits_value 0 t of
             None \<Rightarrow> None
           | Some n \<Rightarrow>
               if neg then (if int n \<le> 2 ^ 63 then Some (- int n) else None)
               else (if int n < 2 ^ 63 then Some (int n) else None))"

lemma digit_char: "n < 10 \<Longrightarrow> is_digit (char_of (48 + n)) \<and> (of_char (char_of (48 + n) :: char) :: nat) = 48 + n"
  by (simp add: is_digit_def in_range_def)

lemma digits_value_append:
  "digits_value acc (s @ t) = Option.bind (digits_value acc s) (\<lambda>a. digits_value a t)"
  by (induction s arbitrary: acc) auto

lemma digits_value_nat_digits [simp]: "digits_value 0 (nat_digits n) = Some n"
proof (induction n rule: nat_digits.induct)
  case (1 n)
  show ?case
  proof (cases "n < 10")
    case True
    then show ?thesis using digit_char [of n] by (subst nat_digits.simps) simp
  next
    case False
    with 1 have "digits_value 0 (nat_digits (n div 10)) = Some (n div 10)" by simp
    with False digit_char [of "n mod 10"] show ?thesis
      by (subst nat_digits.simps) (simp add: digits_value_append)
  qed
qed

lemma nat_digits_are_digits: "list_all is_digit (nat_digits n)"
proof (induction n rule: nat_digits.induct)
  case (1 n)
  then show ?case
    using digit_char [of n] digit_char [of "n mod 10"] by (subst nat_digits.simps) auto
qed

lemma nat_digits_nonempty [simp]: "nat_digits n \<noteq> []"
  by (subst nat_digits.simps) simp

lemma hd_nat_digits: "is_digit (hd (nat_digits n))"
  using nat_digits_are_digits [of n] nat_digits_nonempty [of n] by (cases "nat_digits n") auto

lemma sign_not_digit [simp]: "\<not> is_digit CHR ''-''" "\<not> is_digit CHR ''+''" "\<not> is_digit CHR 0x00"
  by (simp_all add: is_digit_def in_range_def)

lemma parse_format_nat: "0 \<le> v \<Longrightarrow> v < 2 ^ 63 \<Longrightarrow> parse_int64 (format_int v) = Some v"
proof -
  assume v: "0 \<le> v" "v < 2 ^ 63"
  have "hd (nat_digits (nat v)) \<noteq> CHR ''-''" "hd (nat_digits (nat v)) \<noteq> CHR ''+''"
    using hd_nat_digits [of "nat v"] by auto
  with v show ?thesis by (auto simp: parse_int64_def format_int_def Let_def)
qed

lemma length_nat_digits_bound: "n < 10 ^ k \<Longrightarrow> 0 < k \<Longrightarrow> length (nat_digits n) \<le> k"
proof (induction k arbitrary: n)
  case (Suc k)
  show ?case
  proof (cases "n < 10")
    case True
    then show ?thesis by (subst nat_digits.simps) simp
  next
    case False
    then have k: "0 < k" using Suc.prems by (cases k) auto
    have "n div 10 < 10 ^ k" using Suc.prems by (simp add: div_less_iff_less_mult mult.commute)
    then have "length (nat_digits (n div 10)) \<le> k" using Suc.IH k by simp
    with False show ?thesis by (subst nat_digits.simps) simp
  qed
qed simp

section \<open>Big-endian integers\<close>

definition be32_encode :: "32 word \<Rightarrow> bytes" where
  "be32_encode w = map (\<lambda>i. char_of (unat w div 256 ^ (3 - i))) [0..<4]"

definition be_nat :: "bytes \<Rightarrow> nat" where
  "be_nat bs = foldl (\<lambda>n b. 256 * n + of_char b) 0 bs"

definition be32_decode :: "bytes \<Rightarrow> 32 word" where
  "be32_decode bs = word_of_nat (be_nat bs)"

definition be64_encode :: "64 word \<Rightarrow> bytes" where
  "be64_encode w = map (\<lambda>i. char_of (unat w div 256 ^ (7 - i))) [0..<8]"

definition be64_decode :: "bytes \<Rightarrow> 64 word" where
  "be64_decode bs = word_of_nat (be_nat bs)"

lemma length_be32 [simp]: "length (be32_encode w) = 4"
  by (simp add: be32_encode_def)

lemma length_be64 [simp]: "length (be64_encode w) = 8"
  by (simp add: be64_encode_def)

lemma be_nat_digits:
  "foldl (\<lambda>n b. 256 * n + of_char b) (v div 256 ^ k) (map (\<lambda>i. char_of (v div 256 ^ (k - 1 - i))) [0..<k]) = (v :: nat)"
proof (induction k)
  case (Suc k)
  have upt: "[0..<Suc k] = 0 # map Suc [0..<k]"
    by (metis map_Suc_upt upt_conv_Cons zero_less_Suc)
  have step: "256 * (v div 256 ^ Suc k) + (v div 256 ^ k) mod 256 = v div 256 ^ k"
    by (metis div_mult2_eq mult.commute mult_div_mod_eq power_Suc)
  have "map (\<lambda>i. char_of (v div 256 ^ (Suc k - 1 - i)) :: char) [0..<Suc k] =
        char_of (v div 256 ^ k) # map (\<lambda>i. char_of (v div 256 ^ (k - 1 - i))) [0..<k]"
    unfolding upt by (simp add: comp_def)
  then show ?case using Suc step by simp
qed simp

lemma be32_roundtrip [simp]: "be32_decode (be32_encode w) = w"
proof -
  have "unat w < 256 ^ 4" using unsigned_less [of w] by simp
  then have "be_nat (be32_encode w) = unat w"
    using be_nat_digits [of "unat w" 4] by (simp add: be_nat_def be32_encode_def)
  then show ?thesis by (simp add: be32_decode_def)
qed

lemma be64_roundtrip [simp]: "be64_decode (be64_encode w) = w"
proof -
  have "unat w < 256 ^ 8" using unsigned_less [of w] by simp
  then have "be_nat (be64_encode w) = unat w"
    using be_nat_digits [of "unat w" 8] by (simp add: be_nat_def be64_encode_def)
  then show ?thesis by (simp add: be64_decode_def)
qed

section \<open>Base32, lower case, no padding\<close>

text \<open>
  \<^verbatim>\<open>strings.ToLower(base32.StdEncoding.WithPadding(NoPadding).EncodeToString(b))\<close>: the bits
  of the input in groups of five, the last group filled with zeros.
\<close>

definition byte_bits :: "char \<Rightarrow> bool list" where
  "byte_bits c = map (\<lambda>i. odd ((of_char c :: nat) div 2 ^ (7 - i))) [0..<8]"

fun group5 :: "bool list \<Rightarrow> bool list list" where
  "group5 (a # b # c # d # e # r) = [a, b, c, d, e] # group5 r"
| "group5 [] = []"
| "group5 r = [r @ replicate (5 - length r) False]"

definition bits_value :: "bool list \<Rightarrow> nat" where
  "bits_value bs = foldl (\<lambda>n b. 2 * n + (if b then 1 else 0)) 0 bs"

definition b32_lower :: "bytes \<Rightarrow> string" where
  "b32_lower bs = map (\<lambda>g. ''abcdefghijklmnopqrstuvwxyz234567'' ! bits_value g)
     (group5 (concat (map byte_bits bs)))"

lemma bits_value_less: "length bs = n \<Longrightarrow> bits_value bs < 2 ^ n"
proof (induction bs arbitrary: n rule: rev_induct)
  case (snoc b bs)
  then have "bits_value bs < 2 ^ length bs" by simp
  then show ?case using snoc.prems by (auto simp: bits_value_def)
qed (simp add: bits_value_def)

lemma group5_length: "g \<in> set (group5 bs) \<Longrightarrow> length g = 5"
  by (induction bs rule: group5.induct) auto

lemma b32_table:
  "list_all (\<lambda>n. let c = ''abcdefghijklmnopqrstuvwxyz234567'' ! n in
     in_range CHR ''a'' CHR ''z'' c \<or> in_range CHR ''0'' CHR ''9'' c) [0..<32]"
  by code_simp

lemma b32_lower_chars:
  "c \<in> set (b32_lower bs) \<Longrightarrow> in_range CHR ''a'' CHR ''z'' c \<or> in_range CHR ''0'' CHR ''9'' c"
proof -
  assume "c \<in> set (b32_lower bs)"
  then obtain g where g: "g \<in> set (group5 (concat (map byte_bits bs)))"
    "c = ''abcdefghijklmnopqrstuvwxyz234567'' ! bits_value g"
    by (auto simp only: b32_lower_def set_map image_iff)
  have "bits_value g < 32" using bits_value_less [of g 5] group5_length [OF g(1)] by simp
  then show ?thesis using b32_table unfolding g(2) by (simp only: list_all_iff Let_def) simp
qed

lemma length_group5: "length (group5 bs) = (length bs + 4) div 5"
  by (induction bs rule: group5.induct) auto

lemma length_byte_bits: "length (concat (map byte_bits bs)) = 8 * length bs"
  by (induction bs) (auto simp: byte_bits_def)

lemma length_b32_lower: "length (b32_lower bs) = (8 * length bs + 4) div 5"
  by (simp add: b32_lower_def length_group5 length_byte_bits)

end
