(* ===== verification/Lmtp_Reader.thy ===== *)
theory Lmtp_Reader
  imports Wisp_Codec
begin

text \<open>
  Line reading and DATA decoding of \<^verbatim>\<open>internal/lmtp/data_reader.go\<close>.

  The connection is the list of bytes still to come together with the error that follows
  them. \<^verbatim>\<open>bufio.Reader.ReadLine\<close> is modelled with its buffer (32 KiB, as in
  \<^verbatim>\<open>server.go\<close>): long lines arrive in fragments, and a carriage return at the end of a full
  buffer is put back. The specification side is \<open>next_line\<close>, which cuts at the line feed.
\<close>

section \<open>The connection and bufio.ReadLine\<close>

datatype net_error = NetEOF | NetClosed | NetFailure string

fun net_err :: "net_error \<Rightarrow> go_error" where
  "net_err NetEOF = EOF"
| "net_err NetClosed = ErrNetClosed"
| "net_err (NetFailure s) = OtherError s"

abbreviation (input) LF :: char where "LF \<equiv> CHR 10"
abbreviation (input) CR :: char where "CR \<equiv> CHR 13"

definition readerBufferBytes :: nat where
  "readerBufferBytes = 32 * 1024"

definition strip_cr :: "bytes \<Rightarrow> bytes" where
  "strip_cr l = (if l \<noteq> [] \<and> last l = CR then butlast l else l)"

text \<open>One call of \<^verbatim>\<open>ReadLine\<close>: the fragment, whether the line continues, and what is left.\<close>

definition read_line_frag :: "net_error \<Rightarrow> bytes \<Rightarrow> (bytes \<times> bool) result \<times> bytes" where
  "read_line_frag e inp =
     (case index_byte (take readerBufferBytes inp) LF of
        Some i \<Rightarrow> (Inr (strip_cr (take i inp), False), drop (Suc i) inp)
      | None \<Rightarrow>
          if readerBufferBytes \<le> length inp then
            (let line = take readerBufferBytes inp in
             if last line = CR then (Inr (butlast line, True), drop (readerBufferBytes - 1) inp)
             else (Inr (line, True), drop readerBufferBytes inp))
          else if inp = [] then (Inl (net_err e), [])
          else (Inr (inp, False), []))"

lemma read_line_frag_shrinks:
  "read_line_frag e inp = (Inr (f, c), rest) \<Longrightarrow> length rest < length inp"
proof -
  assume r: "read_line_frag e inp = (Inr (f, c), rest)"
  show ?thesis
  proof (cases "index_byte (take readerBufferBytes inp) LF")
    case None
    with r show ?thesis
      by (auto simp: read_line_frag_def readerBufferBytes_def Let_def split: if_splits)
  next
    case (Some i)
    then have "i < length inp" by (auto simp: index_byte_Some_iff)
    with r Some show ?thesis by (auto simp: read_line_frag_def)
  qed
qed

section \<open>readLimitedLine\<close>

function read_limited_loop :: "nat \<Rightarrow> net_error \<Rightarrow> bytes \<Rightarrow> bool \<Rightarrow> bytes \<Rightarrow> string result \<times> bytes" where
  "read_limited_loop limit e buffer overLimit inp =
     (case read_line_frag e inp of
        (Inl err, rest) \<Rightarrow> (Inl err, rest)
      | (Inr (fragment, continued), rest) \<Rightarrow>
          let overLimit' = (overLimit \<or> length buffer + length fragment > limit);
              buffer' = (if overLimit' then buffer else buffer @ fragment)
          in if \<not> continued
             then (if overLimit' then (Inl ErrCommandLineTooLong, rest) else (Inr buffer', rest))
             else read_limited_loop limit e buffer' overLimit' rest)"
  by pat_completeness auto
termination
  by (relation "measure (\<lambda>(l, e, b, o', inp). length inp)") (auto dest: read_line_frag_shrinks [OF sym])

declare read_limited_loop.simps [simp del]

definition readLimitedLine :: "nat \<Rightarrow> net_error \<Rightarrow> bytes \<Rightarrow> string result \<times> bytes" where
  "readLimitedLine limit e inp = read_limited_loop limit e [] False inp"

text \<open>The specification: the bytes before the first line feed, without a final carriage return.\<close>

definition next_line :: "bytes \<Rightarrow> (bytes \<times> bytes) option" where
  "next_line inp = (case index_byte inp LF of
      None \<Rightarrow> None
    | Some i \<Rightarrow> Some (strip_cr (take i inp), drop (Suc i) inp))"

lemma strip_cr_append:
  "b \<noteq> [] \<or> a = [] \<or> last a \<noteq> CR \<Longrightarrow> strip_cr (a @ b) = a @ strip_cr b"
  by (auto simp: strip_cr_def butlast_append)

lemma index_byte_take: "index_byte s b = Some i \<Longrightarrow> index_byte (take n s) b = (if i < n then Some i else None)"
proof (cases "i < n")
  case True
  assume "index_byte s b = Some i"
  with True show ?thesis by (auto simp: index_byte_Some_iff min_def)
next
  case False
  assume "index_byte s b = Some i"
  then have "b \<notin> set (take i s)" by (simp add: index_byte_Some_iff)
  moreover have "set (take n s) \<subseteq> set (take i s)" using False by (intro set_take_subset_set_take) simp
  ultimately have "b \<notin> set (take n s)" by blast
  with False show ?thesis by (simp add: index_byte_None_iff)
qed

lemma index_byte_drop: "index_byte s b = Some i \<Longrightarrow> n \<le> i \<Longrightarrow> index_byte (drop n s) b = Some (i - n)"
proof -
  assume i: "index_byte s b = Some i" and n: "n \<le> i"
  have "take (i - n) (drop n s) = drop n (take i s)" using n by (simp add: drop_take)
  then have "set (take (i - n) (drop n s)) \<subseteq> set (take i s)" by (metis set_drop_subset)
  with i n show ?thesis by (auto simp: index_byte_Some_iff)
qed

lemma read_limited_loop_spec:
  assumes "next_line inp = Some (line, rest)" and "\<not> over \<Longrightarrow> length buffer \<le> limit"
  shows "read_limited_loop limit e buffer over inp =
     ((if over \<or> length buffer + length line > limit then Inl ErrCommandLineTooLong
       else Inr (buffer @ line)), rest)"
  using assms
proof (induction limit e buffer over inp arbitrary: line rule: read_limited_loop.induct)
  case (1 limit e buffer over inp)
  from "1.prems"(1) obtain i where i: "index_byte inp LF = Some i"
    and line: "line = strip_cr (take i inp)" and rest: "rest = drop (Suc i) inp"
    by (auto simp: next_line_def split: option.splits)
  show ?case
  proof (cases "i < readerBufferBytes")
    case True
    then have "read_line_frag e inp = (Inr (line, False), rest)"
      by (simp add: read_line_frag_def index_byte_take [OF i] line rest)
    then show ?thesis by (subst read_limited_loop.simps) (simp add: Let_def)
  next
    case False
    let ?N = readerBufferBytes
    from i have il: "i < length inp" by (simp add: index_byte_Some_iff)
    define k where "k = (if last (take ?N inp) = CR then ?N - 1 else ?N)"
    have N: "0 < ?N" by (simp add: readerBufferBytes_def)
    have k: "k \<le> i" "k \<le> ?N" using False by (auto simp: k_def)
    have frag: "read_line_frag e inp = (Inr (take k inp, True), drop k inp)"
      using False il index_byte_take [OF i, of ?N]
      by (auto simp: read_line_frag_def k_def Let_def butlast_take)
    have nl: "next_line (drop k inp) = Some (strip_cr (take (i - k) (drop k inp)), rest)"
      using index_byte_drop [OF i k(1)] k(1) by (simp add: next_line_def rest)
    have split: "take i inp = take k inp @ take (i - k) (drop k inp)"
      using k(1) by (metis le_add_diff_inverse take_add)
    have "take (i - k) (drop k inp) \<noteq> [] \<or> take k inp = [] \<or> last (take k inp) \<noteq> CR"
    proof (cases "k = ?N")
      case True
      then show ?thesis by (auto simp: k_def split: if_splits)
    next
      case neq: False
      then have "k = ?N - 1" by (auto simp: k_def)
      then have "k < i" using False N by simp
      then show ?thesis using il by auto
    qed
    then have ln: "line = take k inp @ strip_cr (take (i - k) (drop k inp))"
      unfolding line split by (rule strip_cr_append)
    let ?over = "over \<or> length buffer + length (take k inp) > limit"
    have "read_limited_loop limit e buffer over inp =
        read_limited_loop limit e (if ?over then buffer else buffer @ take k inp) ?over (drop k inp)"
      by (subst read_limited_loop.simps) (simp add: frag Let_def)
    also have "\<dots> = ((if ?over \<or> length (if ?over then buffer else buffer @ take k inp) +
          length (strip_cr (take (i - k) (drop k inp))) > limit then Inl ErrCommandLineTooLong
       else Inr ((if ?over then buffer else buffer @ take k inp) @ strip_cr (take (i - k) (drop k inp)))), rest)"
      by (rule "1.IH" [OF frag [symmetric] refl refl refl refl _ nl]) simp_all
    finally show ?thesis unfolding ln by auto
  qed
qed

lemma readLimitedLine_spec:
  assumes "next_line inp = Some (line, rest)"
  shows "readLimitedLine limit e inp =
     ((if length line > limit then Inl ErrCommandLineTooLong else Inr line), rest)"
  using read_limited_loop_spec [OF assms, of False "[]" limit e] by (simp add: readLimitedLine_def)

lemma read_limited_loop_shrinks:
  "read_limited_loop limit e buffer over inp = (r, rest) \<Longrightarrow>
     (r = Inl (net_err e) \<and> length rest \<le> length inp) \<or> length rest < length inp"
proof (induction limit e buffer over inp rule: read_limited_loop.induct)
  case (1 limit e buffer over inp)
  show ?case
  proof (cases "read_line_frag e inp")
    case (Pair f rest')
    show ?thesis
    proof (cases f)
      case (Inl err)
      with Pair have "err = net_err e \<and> rest' = []"
        by (auto simp: read_line_frag_def Let_def split: option.splits if_splits)
      with Inl Pair "1.prems" show ?thesis by (subst (asm) read_limited_loop.simps) auto
    next
      case (Inr p)
      obtain frag cont where p: "p = (frag, cont)" by (cases p)
      have sh: "length rest' < length inp" using read_line_frag_shrinks Pair Inr p by blast
      show ?thesis
      proof (cases cont)
        case False
        with "1.prems" Pair Inr p sh show ?thesis
          by (subst (asm) read_limited_loop.simps) (auto simp: Let_def split: if_splits)
      next
        case True
        let ?over = "over \<or> length buffer + length frag > limit"
        have "read_limited_loop limit e (if ?over then buffer else buffer @ frag) ?over rest' = (r, rest)"
          using "1.prems" Pair Inr p True by (subst (asm) read_limited_loop.simps) (simp add: Let_def)
        from "1.IH" [OF Pair [symmetric] Inr p [symmetric] refl refl _ this] True sh
        show ?thesis by (auto simp: p)
      qed
    qed
  qed
qed

lemma readLimitedLine_shrinks:
  "readLimitedLine limit e inp = (r, rest) \<Longrightarrow> r \<noteq> Inl (net_err e) \<Longrightarrow> length rest < length inp"
  using read_limited_loop_shrinks [of limit e "[]" False inp r rest] by (auto simp: readLimitedLine_def)

lemma readLimitedLine_le: "readLimitedLine limit e inp = (r, rest) \<Longrightarrow> length rest \<le> length inp"
  using read_limited_loop_shrinks [of limit e "[]" False inp r rest] by (auto simp: readLimitedLine_def)

lemma net_err_not_too_long [simp]: "net_err e \<noteq> ErrCommandLineTooLong" "ErrCommandLineTooLong \<noteq> net_err e"
  by (cases e; simp)+

section \<open>dataReader\<close>

record data_reader =
  dr_input :: bytes
  dr_net :: net_error
  dr_maxBytes :: int
  dr_maxLine :: nat
  dr_written :: int
  dr_pending :: bytes
  dr_ended :: bool
  dr_terminal :: "go_error option"

definition newDataReader :: "bytes \<Rightarrow> net_error \<Rightarrow> int \<Rightarrow> nat \<Rightarrow> data_reader" where
  "newDataReader inp e maxBytes maxLineBytes =
     \<lparr>dr_input = inp, dr_net = e, dr_maxBytes = maxBytes, dr_maxLine = maxLineBytes, dr_written = 0,
      dr_pending = [], dr_ended = False, dr_terminal = None\<rparr>"

definition unstuff :: "string \<Rightarrow> string" where
  "unstuff line =
     (if length line \<ge> 2 \<and> line ! 0 = CHR ''.'' \<and> line ! 1 = CHR ''.'' then tl line else line)"

definition crlf :: bytes where "crlf = [CR, LF]"

text \<open>\<^verbatim>\<open>Read(buffer)\<close> with \<^verbatim>\<open>len(buffer) = n\<close>: the copied bytes, the error, the new state.\<close>

definition data_read :: "nat \<Rightarrow> data_reader \<Rightarrow> bytes \<times> go_error option \<times> data_reader" where
  "data_read n r =
     (if n = 0 then ([], None, r)
      else if dr_pending r \<noteq> [] then
        (take n (dr_pending r), None, r\<lparr>dr_pending := drop n (dr_pending r)\<rparr>)
      else case dr_terminal r of
          Some e \<Rightarrow> ([], Some e, r)
        | None \<Rightarrow>
            if dr_ended r then ([], Some EOF, r)
            else case readLimitedLine (dr_maxLine r) (dr_net r) (dr_input r) of
                (Inl err, rest) \<Rightarrow>
                  (let e = (if err = ErrCommandLineTooLong then ErrDataLineTooLong else err)
                   in ([], Some e, r\<lparr>dr_input := rest, dr_terminal := Some e\<rparr>))
              | (Inr line, rest) \<Rightarrow>
                  if line = ''.'' then ([], Some EOF, r\<lparr>dr_input := rest, dr_ended := True\<rparr>)
                  else let line' = unstuff line;
                           decodedBytes = int (length line') + 2 in
                    if decodedBytes > dr_maxBytes r - dr_written r then
                      ([], Some ErrDataTooLarge, r\<lparr>dr_input := rest, dr_terminal := Some ErrDataTooLarge\<rparr>)
                    else let pending = line' @ crlf in
                      (take n pending, None,
                       r\<lparr>dr_input := rest, dr_written := dr_written r + decodedBytes,
                         dr_pending := drop n pending\<rparr>))"

text \<open>The loop of \<^verbatim>\<open>drain\<close> over the connection: the error it stopped at, if any, and the rest.\<close>

function drain_loop :: "nat \<Rightarrow> net_error \<Rightarrow> bytes \<Rightarrow> unit result \<times> bytes" where
  "drain_loop maxLine e inp =
     (case readLimitedLine maxLine e inp of
        (Inl err, rest) \<Rightarrow>
          if err = ErrCommandLineTooLong then drain_loop maxLine e rest else (Inl err, rest)
      | (Inr line, rest) \<Rightarrow> if line = ''.'' then (Inr (), rest) else drain_loop maxLine e rest)"
  by pat_completeness auto
termination
  by (relation "measure (\<lambda>(m, e, inp). length inp)")
    (auto dest!: readLimitedLine_shrinks [OF sym])

declare drain_loop.simps [simp del]

definition data_drain :: "data_reader \<Rightarrow> unit result \<times> data_reader" where
  "data_drain r =
     (if dr_ended r then (Inr (), r)
      else case drain_loop (dr_maxLine r) (dr_net r) (dr_input r) of
          (Inr _, rest) \<Rightarrow> (Inr (), r\<lparr>dr_input := rest, dr_ended := True\<rparr>)
        | (Inl e, rest) \<Rightarrow> (Inl e, r\<lparr>dr_input := rest\<rparr>))"

text \<open>
  A consumer reads with buffers of the given sizes until one read fails: what it got, the error,
  the reader afterwards.
\<close>

fun data_reads :: "nat list \<Rightarrow> data_reader \<Rightarrow> bytes \<times> go_error option \<times> data_reader" where
  "data_reads [] r = ([], None, r)"
| "data_reads (n # ns) r =
     (case data_read n r of
        (c, Some e, r') \<Rightarrow> (c, Some e, r')
      | (c, None, r') \<Rightarrow> (case data_reads ns r' of (cs, e, r'') \<Rightarrow> (c @ cs, e, r'')))"

section \<open>What the reader delivers, line by line\<close>

text \<open>
  The reference decoding of a whole DATA section: the content, the error that ends it
  (\<^verbatim>\<open>io.EOF\<close> at the terminating dot), and the rest of the connection.
\<close>

function data_decode :: "int \<Rightarrow> nat \<Rightarrow> net_error \<Rightarrow> int \<Rightarrow> bytes \<Rightarrow> bytes \<times> go_error \<times> bytes" where
  "data_decode maxBytes maxLine e written inp =
     (case readLimitedLine maxLine e inp of
        (Inl err, rest) \<Rightarrow> ([], if err = ErrCommandLineTooLong then ErrDataLineTooLong else err, rest)
      | (Inr line, rest) \<Rightarrow>
          if line = ''.'' then ([], EOF, rest)
          else let n = int (length (unstuff line)) + 2 in
            if n > maxBytes - written then ([], ErrDataTooLarge, rest)
            else (case data_decode maxBytes maxLine e (written + n) rest of
                (c, err, rest') \<Rightarrow> (unstuff line @ crlf @ c, err, rest')))"
  by pat_completeness auto
termination
  by (relation "measure (\<lambda>(b, m, e, w, inp). length inp)")
    (auto dest!: readLimitedLine_shrinks [OF sym])

declare data_decode.simps [simp del]

text \<open>What is still to be delivered by a reader in an arbitrary state.\<close>

definition data_future :: "data_reader \<Rightarrow> bytes \<times> go_error \<times> bytes" where
  "data_future r =
     (case dr_terminal r of
        Some e \<Rightarrow> (dr_pending r, e, dr_input r)
      | None \<Rightarrow>
          if dr_ended r then (dr_pending r, EOF, dr_input r)
          else (case data_decode (dr_maxBytes r) (dr_maxLine r) (dr_net r) (dr_written r) (dr_input r) of
              (c, e, rest) \<Rightarrow> (dr_pending r @ c, e, rest)))"

lemma take_drop_assoc: "take n p @ drop n p @ c = p @ c"
  by (metis append.assoc append_take_drop_id)

lemma data_read_future:
  assumes "data_read n r = (c, None, r')"
  shows "data_future r = (case data_future r' of (cs, e, rest) \<Rightarrow> (c @ cs, e, rest))"
proof (cases "n = 0 \<or> dr_pending r \<noteq> []")
  case True
  with assms show ?thesis
    by (auto simp: data_read_def data_future_def take_drop_assoc split: if_splits option.splits prod.splits)
next
  case False
  with assms obtain line rest where
    t: "dr_terminal r = None" "\<not> dr_ended r"
    and l: "readLimitedLine (dr_maxLine r) (dr_net r) (dr_input r) = (Inr line, rest)" "line \<noteq> ''.''"
    and b: "\<not> int (length (unstuff line)) + 2 > dr_maxBytes r - dr_written r"
    and c: "c = take n (unstuff line @ crlf)"
    and r': "r' = r\<lparr>dr_input := rest, dr_written := dr_written r + (int (length (unstuff line)) + 2),
         dr_pending := drop n (unstuff line @ crlf)\<rparr>"
    by (auto simp: data_read_def Let_def split: if_splits option.splits sum.splits prod.splits)
  have "data_future r = (case data_decode (dr_maxBytes r) (dr_maxLine r) (dr_net r)
      (dr_written r + (int (length (unstuff line)) + 2)) rest of
      (cs, e, rest') \<Rightarrow> (unstuff line @ crlf @ cs, e, rest'))"
    using False t l b by (simp add: data_future_def data_decode.simps [of "dr_maxBytes r" "dr_maxLine r" "dr_net r" "dr_written r" "dr_input r"] Let_def split: prod.splits)
  moreover have "data_future r' = (case data_decode (dr_maxBytes r) (dr_maxLine r) (dr_net r)
      (dr_written r + (int (length (unstuff line)) + 2)) rest of
      (cs, e, rest') \<Rightarrow> (drop n (unstuff line @ crlf) @ cs, e, rest'))"
    using t by (simp add: data_future_def r')
  moreover have "c @ drop n (unstuff line @ crlf) @ cs = unstuff line @ crlf @ cs" for cs
    unfolding c by (simp only: take_drop_assoc append_assoc)
  ultimately show ?thesis by (auto split: prod.splits)
qed

lemma data_read_stop:
  assumes "data_read n r = (c, Some e, r')"
  shows "c = [] \<and> data_future r = ([], e, dr_input r') \<and> dr_pending r' = [] \<and>
     (dr_terminal r' = Some e \<or> dr_ended r' \<and> e = EOF)"
proof -
  from assms have n: "n \<noteq> 0" "dr_pending r = []" by (auto simp: data_read_def split: if_splits)
  show ?thesis
  proof (cases "dr_terminal r = None \<and> \<not> dr_ended r")
    case False
    with assms n show ?thesis
      by (auto simp: data_read_def data_future_def split: option.splits)
  next
    case True
    with assms n show ?thesis
      by (auto simp: data_read_def data_future_def data_decode.simps [of "dr_maxBytes r" "dr_maxLine r" "dr_net r" "dr_written r" "dr_input r"] Let_def
          split: sum.splits prod.splits if_splits)
  qed
qed

text \<open>
  The content a consumer collects does not depend on how it reads: until it fails it is a prefix
  of the reference content, and when it fails it is exactly that content and that error.
\<close>

lemma data_reads_future:
  "data_reads ns r = (c, e, r') \<Longrightarrow>
     (case e of
        Some err \<Rightarrow> data_future r = (c, err, dr_input r') \<and> dr_pending r' = [] \<and>
                    (dr_terminal r' = Some err \<or> dr_ended r' \<and> err = EOF)
      | None \<Rightarrow> data_future r = (case data_future r' of (cs, err, rest) \<Rightarrow> (c @ cs, err, rest)))"
proof (induction ns arbitrary: r c)
  case Nil
  then show ?case by (auto split: prod.splits)
next
  case (Cons n ns)
  obtain c1 e1 r1 where d: "data_read n r = (c1, e1, r1)" by (cases "data_read n r") auto
  show ?case
  proof (cases e1)
    case (Some err)
    with d Cons.prems have "c = c1" "e = Some err" "r' = r1" by auto
    with data_read_stop [of n r c1 err r1] d Some show ?thesis by simp
  next
    case None
    with d have d': "data_read n r = (c1, None, r1)" by simp
    obtain c2 where c2: "data_reads ns r1 = (c2, e, r')" "c = c1 @ c2"
      using Cons.prems d' by (auto split: prod.splits)
    from Cons.IH [OF c2(1)] data_read_future [OF d'] show ?thesis
      by (auto simp: c2(2) split: option.splits prod.splits)
  qed
qed

text \<open>Reads with non-empty buffers make progress, so enough of them reach the end.\<close>

lemma data_reads_finish:
  "(\<forall>n \<in> set ns. 0 < n) \<Longrightarrow> length (fst (data_future r)) < length ns \<Longrightarrow>
     \<exists>c err r'. data_reads ns r = (c, Some err, r')"
proof (induction ns arbitrary: r)
  case (Cons n ns)
  obtain c1 e1 r1 where d: "data_read n r = (c1, e1, r1)" by (cases "data_read n r") auto
  show ?case
  proof (cases e1)
    case None
    with d have d': "data_read n r = (c1, None, r1)" by simp
    have "c1 \<noteq> []" using d' Cons.prems(1)
      by (auto simp: data_read_def crlf_def Let_def split: if_splits option.splits sum.splits prod.splits)
    moreover have "length (fst (data_future r)) = length c1 + length (fst (data_future r1))"
      using data_read_future [OF d'] by (auto split: prod.splits)
    ultimately have "length (fst (data_future r1)) < length ns" using Cons.prems(2)
      by (cases c1) auto
    with Cons.IH [of r1] Cons.prems(1) obtain c2 err r' where "data_reads ns r1 = (c2, Some err, r')" by auto
    with d' show ?thesis by simp
  qed (use d in simp)
qed simp

lemma data_decode_bound:
  "data_decode mb ml e w inp = (c, err, rest) \<Longrightarrow> w \<le> mb \<Longrightarrow> int (length c) \<le> mb - w"
proof (induction mb ml e w inp arbitrary: c rule: data_decode.induct)
  case (1 mb ml e w inp)
  obtain x rest' where rl: "readLimitedLine ml e inp = (x, rest')" by (cases "readLimitedLine ml e inp")
  show ?case
  proof (cases "\<exists>line. x = Inr line \<and> line \<noteq> ''.'' \<and> int (length (unstuff line)) + 2 \<le> mb - w")
    case True
    then obtain line where l: "x = Inr line" "line \<noteq> ''.''" "int (length (unstuff line)) + 2 \<le> mb - w" by blast
    obtain c1 where c1: "data_decode mb ml e (w + (int (length (unstuff line)) + 2)) rest' = (c1, err, rest)"
      "c = unstuff line @ crlf @ c1"
      using "1.prems"(1) rl l by (subst (asm) data_decode.simps) (auto simp: Let_def split: prod.splits)
    from "1.IH" [OF rl [symmetric] l(1) l(2) refl _ c1(1)] l(3) show ?thesis
      by (simp add: c1(2) crlf_def)
  next
    case False
    then have "c = []"
      using "1.prems"(1) rl by (subst (asm) data_decode.simps) (auto simp: Let_def split: sum.splits if_splits prod.splits)
    with "1.prems"(2) show ?thesis by simp
  qed
qed

section \<open>Resynchronisation\<close>

lemma next_line_shrinks: "next_line inp = Some (l, rest) \<Longrightarrow> length rest < length inp"
  by (auto simp: next_line_def index_byte_Some_iff split: option.splits)

text \<open>The rest of a connection after its first line that is a single dot.\<close>

function skip_dot :: "bytes \<Rightarrow> bytes option" where
  "skip_dot inp = (case next_line inp of
      None \<Rightarrow> None
    | Some (l, rest) \<Rightarrow> if l = ''.'' then Some rest else skip_dot rest)"
  by pat_completeness auto
termination
  by (relation "measure length") (auto dest!: next_line_shrinks)

declare skip_dot.simps [simp del]

lemma skip_dot_cases:
  assumes "skip_dot inp = Some rest"
  obtains l r where "next_line inp = Some (l, r)" "l = ''.'' \<and> r = rest \<or> l \<noteq> ''.'' \<and> skip_dot r = Some rest"
  using assms that by (subst (asm) skip_dot.simps) (auto split: option.splits if_splits)

lemma drain_loop_skip:
  "1 \<le> ml \<Longrightarrow> skip_dot inp = Some rest \<Longrightarrow> drain_loop ml e inp = (Inr (), rest)"
proof (induction ml e inp rule: drain_loop.induct)
  case (1 ml e inp)
  from "1.prems"(2) obtain l r where nl: "next_line inp = Some (l, r)"
    and c: "l = ''.'' \<and> r = rest \<or> l \<noteq> ''.'' \<and> skip_dot r = Some rest" by (rule skip_dot_cases)
  note rl = readLimitedLine_spec [OF nl, of ml e]
  show ?case
  proof (cases "ml < length l")
    case True
    with c "1.prems"(1) have "skip_dot r = Some rest" by auto
    with "1.IH"(1) [OF rl [symmetric], of ErrCommandLineTooLong] True rl "1.prems"(1) show ?thesis
      by (subst drain_loop.simps) simp
  next
    case False
    with "1.IH"(2) [OF rl [symmetric], of l] c rl "1.prems"(1) show ?thesis
      by (subst drain_loop.simps) auto
  qed
qed

definition reader_sync :: "data_reader \<Rightarrow> bytes \<Rightarrow> bool" where
  "reader_sync r rest \<longleftrightarrow> 1 \<le> dr_maxLine r \<and>
     (if dr_ended r then dr_input r = rest else skip_dot (dr_input r) = Some rest)"

lemma data_read_sync:
  assumes "reader_sync r rest" and "data_read n r = (c, e, r')"
  shows "reader_sync r' rest"
proof (cases "n = 0 \<or> dr_pending r \<noteq> [] \<or> dr_terminal r \<noteq> None \<or> dr_ended r")
  case True
  with assms show ?thesis
    by (auto simp: data_read_def reader_sync_def split: if_splits option.splits)
next
  case False
  with assms(1) have "skip_dot (dr_input r) = Some rest" by (auto simp: reader_sync_def)
  then obtain l t where nl: "next_line (dr_input r) = Some (l, t)"
    and cs: "l = ''.'' \<and> t = rest \<or> l \<noteq> ''.'' \<and> skip_dot t = Some rest" by (rule skip_dot_cases)
  from assms(1) have "1 \<le> dr_maxLine r" by (simp add: reader_sync_def)
  with False cs assms(2) readLimitedLine_spec [OF nl, of "dr_maxLine r" "dr_net r"] show ?thesis
    by (auto simp: data_read_def reader_sync_def Let_def split: if_splits)
qed

lemma data_reads_sync: "reader_sync r rest \<Longrightarrow> data_reads ns r = (c, e, r') \<Longrightarrow> reader_sync r' rest"
proof (induction ns arbitrary: r c)
  case (Cons n ns)
  obtain c1 e1 r1 where d: "data_read n r = (c1, e1, r1)" by (cases "data_read n r") auto
  have "reader_sync r1 rest" using data_read_sync [OF Cons.prems(1) d] .
  with Cons d show ?case by (auto split: option.splits prod.splits)
qed simp

lemma data_drain_sync:
  assumes "reader_sync r rest"
  shows "\<exists>r'. data_drain r = (Inr (), r') \<and> dr_input r' = rest \<and> dr_ended r'"
  using assms drain_loop_skip [of "dr_maxLine r" "dr_input r" rest "dr_net r"]
  by (auto simp: data_drain_def reader_sync_def split: if_splits)

text \<open>
  After a DATA section the connection is positioned exactly behind the terminating dot line,
  however much of it the consumer read, with whatever buffers, and whether it stopped early, hit a
  size or line limit, or reached the end: the following commands are never taken from message content.
\<close>

theorem data_resynchronises:
  assumes "1 \<le> maxLine" and "skip_dot inp = Some rest"
    and "data_reads ns (newDataReader inp e maxBytes maxLine) = (c, err, r)"
  shows "\<exists>r'. data_drain r = (Inr (), r') \<and> dr_input r' = rest"
proof -
  have "reader_sync (newDataReader inp e maxBytes maxLine) rest"
    using assms(1,2) by (simp add: reader_sync_def newDataReader_def)
  from data_drain_sync [OF data_reads_sync [OF this assms(3)]] show ?thesis by blast
qed

section \<open>The wire form and its round trip\<close>

definition wire_line :: "bytes \<Rightarrow> bytes" where
  "wire_line l = (if l \<noteq> [] \<and> hd l = CHR ''.'' then CHR ''.'' # l else l) @ crlf"

definition wire_lines :: "bytes list \<Rightarrow> bytes" where
  "wire_lines ls = concat (map wire_line ls)"

definition plain_lines :: "bytes list \<Rightarrow> bytes" where
  "plain_lines ls = concat (map (\<lambda>l. l @ crlf) ls)"

definition wire_ok :: "nat \<Rightarrow> bytes \<Rightarrow> bool" where
  "wire_ok maxLine l \<longleftrightarrow> LF \<notin> set l \<and> length (wire_line l) \<le> maxLine + 2"

lemma next_line_crlf: "LF \<notin> set l \<Longrightarrow> next_line (l @ crlf @ rest) = Some (l, rest)"
proof -
  assume "LF \<notin> set l"
  then have "index_byte ((l @ [CR]) @ LF # rest) LF = Some (length (l @ [CR]))"
    by (intro index_byte_append) simp
  then show ?thesis by (simp add: next_line_def crlf_def strip_cr_def)
qed

lemma unstuff_stuffed:
  "unstuff (if l \<noteq> [] \<and> hd l = CHR ''.'' then CHR ''.'' # l else l) = l"
  by (cases l) (auto simp: unstuff_def)

lemma stuffed_not_dot: "(if l \<noteq> [] \<and> hd l = CHR ''.'' then CHR ''.'' # l else l) \<noteq> ''.''"
  by (cases l) auto

lemma data_decode_line:
  assumes "wire_ok ml l" and "int (length l) + 2 \<le> mb - w"
  shows "data_decode mb ml e w (wire_line l @ inp) =
     (case data_decode mb ml e (w + (int (length l) + 2)) inp of (c, err, rest) \<Rightarrow> (l @ crlf @ c, err, rest))"
proof -
  let ?l = "if l \<noteq> [] \<and> hd l = CHR ''.'' then CHR ''.'' # l else l"
  have "LF \<notin> set ?l" using assms(1) by (auto simp: wire_ok_def)
  then have "next_line (wire_line l @ inp) = Some (?l, inp)" using next_line_crlf [of ?l inp] by (simp add: wire_line_def)
  moreover have "\<not> length ?l > ml" using assms(1) by (simp add: wire_ok_def wire_line_def crlf_def)
  ultimately have "readLimitedLine ml e (wire_line l @ inp) = (Inr ?l, inp)"
    using readLimitedLine_spec by presburger
  then show ?thesis using assms(2) stuffed_not_dot [of l] unstuff_stuffed [of l]
    by (subst data_decode.simps) (simp only: prod.case sum.case if_False Let_def, simp add: not_less)
qed

lemma data_decode_lines:
  assumes "\<forall>l \<in> set ls. wire_ok ml l" and "int (length (plain_lines ls)) \<le> mb - w"
  shows "data_decode mb ml e w (wire_lines ls @ inp) =
     (case data_decode mb ml e (w + int (length (plain_lines ls))) inp of
        (c, err, rest) \<Rightarrow> (plain_lines ls @ c, err, rest))"
  using assms
proof (induction ls arbitrary: w)
  case Nil
  then show ?case by (simp add: wire_lines_def plain_lines_def)
next
  case (Cons l ls)
  have p: "plain_lines (l # ls) = l @ crlf @ plain_lines ls" and w: "wire_lines (l # ls) @ inp = wire_line l @ (wire_lines ls @ inp)"
    by (simp_all add: plain_lines_def wire_lines_def)
  have len: "int (length (plain_lines (l # ls))) = int (length l) + 2 + int (length (plain_lines ls))"
    by (simp add: p crlf_def)
  with Cons.prems have b: "int (length l) + 2 \<le> mb - w" "int (length (plain_lines ls)) \<le> mb - (w + (int (length l) + 2))"
    by auto
  have ih: "data_decode mb ml e (w + (int (length l) + 2)) (wire_lines ls @ inp) =
     (case data_decode mb ml e (w + (int (length l) + 2) + int (length (plain_lines ls))) inp of
        (c, err, rest) \<Rightarrow> (plain_lines ls @ c, err, rest))"
    using Cons.IH [OF _ b(2)] Cons.prems(1) by simp
  have "wire_ok ml l" using Cons.prems(1) by simp
  from data_decode_line [OF this b(1), of e "wire_lines ls @ inp"] ih
  have "data_decode mb ml e w (wire_lines (l # ls) @ inp) =
     (case data_decode mb ml e (w + (int (length l) + 2) + int (length (plain_lines ls))) inp of
        (c, err, rest) \<Rightarrow> (plain_lines (l # ls) @ c, err, rest))"
    by (simp only: w p) (simp split: prod.splits)
  moreover have "w + (int (length l) + 2) + int (length (plain_lines ls)) = w + int (length (plain_lines (l # ls)))"
    by (simp only: len add.assoc)
  ultimately show ?case by simp
qed

lemma data_decode_end: "1 \<le> ml \<Longrightarrow> data_decode mb ml e w (''.'' @ crlf @ rest) = ([], EOF, rest)"
proof -
  assume ml: "1 \<le> ml"
  have "next_line (''.'' @ crlf @ rest) = Some (''.'', rest)" by (rule next_line_crlf) simp
  then have "readLimitedLine ml e (''.'' @ crlf @ rest) = (Inr ''.'', rest)"
    using readLimitedLine_spec [of "''.'' @ crlf @ rest" "''.''" rest ml e] ml by simp
  then show ?thesis by (subst data_decode.simps) simp
qed

lemma data_decode_cut_dot: "1 \<le> ml \<Longrightarrow> data_decode mb ml e w ''.'' = ([], EOF, [])"
proof -
  assume ml: "1 \<le> ml"
  have "read_line_frag e ''.'' = (Inr (''.'', False), [])"
    by (simp add: read_line_frag_def readerBufferBytes_def)
  then have "readLimitedLine ml e ''.'' = (Inr ''.'', [])"
    using ml by (simp add: readLimitedLine_def read_limited_loop.simps Let_def)
  then show ?thesis by (subst data_decode.simps) simp
qed

lemma readLimitedLine_nil [simp]: "readLimitedLine ml e [] = (Inl (net_err e), [])"
  by (simp add: readLimitedLine_def read_limited_loop.simps read_line_frag_def readerBufferBytes_def)

lemma data_decode_nil: "data_decode mb ml NetEOF w [] = ([], EOF, [])"
  by (subst data_decode.simps) simp

lemma drain_loop_nil: "drain_loop ml e [] = (Inl (net_err e), [])"
  by (subst drain_loop.simps) simp

lemma net_err_EOF_iff [simp]: "net_err e = EOF \<longleftrightarrow> e = NetEOF"
  by (cases e) auto

lemma data_reads_net: "data_reads ns r = (c, e, r') \<Longrightarrow> dr_net r' = dr_net r"
proof (induction ns arbitrary: r c)
  case (Cons n ns)
  obtain c1 e1 r1 where d: "data_read n r = (c1, e1, r1)" by (cases "data_read n r") auto
  then have "dr_net r1 = dr_net r"
    by (auto simp: data_read_def Let_def split: if_splits option.splits sum.splits prod.splits)
  with Cons d show ?case by (auto split: option.splits prod.splits)
qed simp

lemma readLimitedLine_errors:
  "readLimitedLine ml e inp = (Inl err, rest) \<Longrightarrow> err = net_err e \<or> err = ErrCommandLineTooLong"
proof -
  have "read_limited_loop ml e buffer over inp = (Inl err, rest) \<Longrightarrow> err = net_err e \<or> err = ErrCommandLineTooLong"
    for buffer over
  proof (induction ml e buffer over inp rule: read_limited_loop.induct)
    case (1 limit e buffer over inp)
    obtain f rest' where f: "read_line_frag e inp = (f, rest')" by (cases "read_line_frag e inp")
    show ?case
    proof (cases f)
      case (Inl err')
      with f have "err' = net_err e"
        by (auto simp: read_line_frag_def Let_def split: option.splits if_splits)
      with Inl f "1.prems" show ?thesis by (subst (asm) read_limited_loop.simps) auto
    next
      case (Inr p)
      obtain frag cont where p: "p = (frag, cont)" by (cases p)
      note ih = "1.IH" [OF f [symmetric] Inr p [symmetric] refl refl]
      from "1.prems" f Inr p ih show ?thesis
        by (subst (asm) read_limited_loop.simps [of limit e buffer over inp]) (auto simp: Let_def split: if_splits)
    qed
  qed
  then show "readLimitedLine ml e inp = (Inl err, rest) \<Longrightarrow> err = net_err e \<or> err = ErrCommandLineTooLong"
    by (simp add: readLimitedLine_def)
qed

lemma data_reads_terminal:
  "(dr_terminal r = Some EOF \<longrightarrow> dr_net r = NetEOF) \<Longrightarrow> data_reads ns r = (c, e, r') \<Longrightarrow>
     dr_terminal r' = Some EOF \<longrightarrow> dr_net r' = NetEOF"
proof (induction ns arbitrary: r c)
  case (Cons n ns)
  obtain c1 e1 r1 where d: "data_read n r = (c1, e1, r1)" by (cases "data_read n r") auto
  then have "dr_terminal r1 = Some EOF \<longrightarrow> dr_net r1 = NetEOF" using Cons.prems(1)
    by (auto simp: data_read_def Let_def dest: readLimitedLine_errors split: if_splits option.splits sum.splits prod.splits)
  with Cons d show ?case by (auto split: option.splits prod.splits)
qed simp

lemma readLimitedLine_net: "readLimitedLine ml e inp = (Inl err, rest) \<Longrightarrow> err \<noteq> ErrCommandLineTooLong \<Longrightarrow> rest = []"
proof -
  have "read_limited_loop ml e buffer over inp = (Inl err, rest) \<Longrightarrow> err \<noteq> ErrCommandLineTooLong \<Longrightarrow> rest = []"
    for buffer over
  proof (induction ml e buffer over inp rule: read_limited_loop.induct)
    case (1 limit e buffer over inp)
    obtain f rest' where f: "read_line_frag e inp = (f, rest')" by (cases "read_line_frag e inp")
    show ?case
    proof (cases f)
      case (Inl err')
      with f have "rest' = []"
        by (auto simp: read_line_frag_def Let_def split: option.splits if_splits)
      with Inl f "1.prems" show ?thesis by (subst (asm) read_limited_loop.simps) auto
    next
      case (Inr p)
      obtain frag cont where p: "p = (frag, cont)" by (cases p)
      note ih = "1.IH" [OF f [symmetric] Inr p [symmetric] refl refl]
      from "1.prems" f Inr p ih show ?thesis
        by (subst (asm) read_limited_loop.simps [of limit e buffer over inp]) (auto simp: Let_def split: if_splits)
    qed
  qed
  then show "readLimitedLine ml e inp = (Inl err, rest) \<Longrightarrow> err \<noteq> ErrCommandLineTooLong \<Longrightarrow> rest = []"
    by (simp add: readLimitedLine_def)
qed

lemma fst_data_drain:
  "fst (data_drain r) = (if dr_ended r then Inr () else fst (drain_loop (dr_maxLine r) (dr_net r) (dr_input r)))"
  by (auto simp: data_drain_def split: prod.splits sum.splits)

text \<open>Whether \<^verbatim>\<open>drain\<close> finds the end of the message does not depend on how much was read before.\<close>

lemma data_read_drain:
  assumes "data_read n r = (c, e, r')"
  shows "fst (data_drain r') = fst (data_drain r)"
proof (cases "n = 0 \<or> dr_pending r \<noteq> [] \<or> dr_terminal r \<noteq> None \<or> dr_ended r")
  case True
  with assms show ?thesis
    by (auto simp: data_read_def fst_data_drain split: if_splits option.splits)
next
  case False
  obtain x rest where rl: "readLimitedLine (dr_maxLine r) (dr_net r) (dr_input r) = (x, rest)"
    by (cases "readLimitedLine (dr_maxLine r) (dr_net r) (dr_input r)")
  note dl = drain_loop.simps [of "dr_maxLine r" "dr_net r" "dr_input r"]
  show ?thesis
  proof (cases "\<exists>err. x = Inl err \<and> err \<noteq> ErrCommandLineTooLong")
    case True
    then obtain err where err: "x = Inl err" "err \<noteq> ErrCommandLineTooLong" by blast
    then have "rest = []" "err = net_err (dr_net r)"
      using readLimitedLine_net readLimitedLine_errors rl by blast+
    with err False assms rl show ?thesis
      by (auto simp: data_read_def fst_data_drain dl drain_loop_nil Let_def)
  next
    case no: False
    with False assms rl show ?thesis
      by (auto simp: data_read_def fst_data_drain dl Let_def split: sum.splits if_splits)
  qed
qed

lemma data_reads_drain: "data_reads ns r = (c, e, r') \<Longrightarrow> fst (data_drain r') = fst (data_drain r)"
proof (induction ns arbitrary: r c)
  case (Cons n ns)
  obtain c1 e1 r1 where d: "data_read n r = (c1, e1, r1)" by (cases "data_read n r") auto
  from Cons d data_read_drain [OF d] show ?case by (auto split: option.splits prod.splits)
qed simp

lemma drain_loop_lines: "\<forall>l \<in> set ls. wire_ok ml l \<Longrightarrow> drain_loop ml e (wire_lines ls @ inp) = drain_loop ml e inp"
proof (induction ls)
  case (Cons l ls)
  let ?l = "if l \<noteq> [] \<and> hd l = CHR ''.'' then CHR ''.'' # l else l"
  have "LF \<notin> set ?l" using Cons.prems by (auto simp: wire_ok_def)
  then have "next_line (wire_lines (l # ls) @ inp) = Some (?l, wire_lines ls @ inp)"
    using next_line_crlf [of ?l "wire_lines ls @ inp"] by (simp add: wire_line_def wire_lines_def)
  from readLimitedLine_spec [OF this, of ml e] stuffed_not_dot [of l] Cons
  show ?case by (subst drain_loop.simps) (auto simp del: list.map concat.simps split: if_splits)
qed (simp add: wire_lines_def)

text \<open>
  C26. The transparency round trip of DATA: a message whose lines are sent dot-stuffed and terminated
  by a dot line is delivered to the consumer byte for byte, lines ended by CRLF, for every choice of
  read buffers; the consumer then sees \<^verbatim>\<open>io.EOF\<close>, and the connection holds what followed the message.
  Reads with non-empty buffers reach that end after at most one read per byte and one more.
\<close>

theorem data_roundtrip:
  assumes "1 \<le> maxLine" and "\<forall>l \<in> set ls. wire_ok maxLine l" and "int (length (plain_lines ls)) \<le> maxBytes"
    and "\<forall>n \<in> set ns. 0 < n" and "length (plain_lines ls) < length ns"
  shows "\<exists>r. data_reads ns (newDataReader (wire_lines ls @ ''.'' @ crlf @ rest) e maxBytes maxLine)
     = (plain_lines ls, Some EOF, r) \<and> dr_input r = rest"
proof -
  let ?r = "newDataReader (wire_lines ls @ ''.'' @ crlf @ rest) e maxBytes maxLine"
  have f: "data_future ?r = (plain_lines ls, EOF, rest)"
    using data_decode_lines [of ls maxLine maxBytes 0 e "''.'' @ crlf @ rest"] data_decode_end [OF assms(1)] assms(2,3)
    by (simp add: data_future_def newDataReader_def)
  then obtain c err r where d: "data_reads ns ?r = (c, Some err, r)"
    using data_reads_finish [of ns ?r] assms(4,5) by auto
  from data_reads_future [OF d] f d show ?thesis by auto
qed

text \<open>
  No consumer ever receives more than the configured number of bytes from one DATA section.
\<close>

theorem data_bounded:
  assumes "0 \<le> maxBytes" and "data_reads ns (newDataReader inp e maxBytes maxLine) = (c, err, r)"
  shows "int (length c) \<le> maxBytes"
proof -
  let ?r = "newDataReader inp e maxBytes maxLine"
  obtain cs e' rest where f: "data_future ?r = (cs, e', rest)" by (cases "data_future ?r") auto
  then have "data_decode maxBytes maxLine e 0 inp = (cs, e', rest)"
    by (auto simp: data_future_def newDataReader_def split: prod.splits)
  from data_decode_bound [OF this] assms(1) have "int (length cs) \<le> maxBytes" by simp
  moreover have "length c \<le> length cs"
    using data_reads_future [OF assms(2)] f by (auto split: option.splits prod.splits)
  ultimately show ?thesis by simp
qed

text \<open>
  C37. A connection closed by the sender in the middle of DATA, before the terminating dot line, looks
  to the consumer like a complete message: it gets the lines sent so far and a regular \<^verbatim>\<open>io.EOF\<close>, the
  same result as for the finished message. Only the later \<^verbatim>\<open>drain\<close> reports the loss, after the
  consumer has stored what it read.
\<close>

theorem truncated_data_accepted:
  assumes "\<forall>l \<in> set ls. wire_ok maxLine l" and "int (length (plain_lines ls)) \<le> maxBytes"
    and "\<forall>n \<in> set ns. 0 < n" and "length (plain_lines ls) < length ns"
  shows "\<exists>r. data_reads ns (newDataReader (wire_lines ls) NetEOF maxBytes maxLine)
     = (plain_lines ls, Some EOF, r) \<and> fst (data_drain r) = Inl EOF"
proof -
  let ?r = "newDataReader (wire_lines ls) NetEOF maxBytes maxLine"
  have f: "data_future ?r = (plain_lines ls, EOF, [])"
    using data_decode_lines [of ls maxLine maxBytes 0 NetEOF "[]"] data_decode_nil assms(1,2)
    by (simp add: data_future_def newDataReader_def)
  then obtain c err r where d: "data_reads ns ?r = (c, Some err, r)"
    using data_reads_finish [of ns ?r] assms(3,4) by auto
  with data_reads_future [OF d] f have "c = plain_lines ls" "err = EOF" by auto
  moreover have "fst (data_drain r) = Inl EOF"
    using data_reads_drain [OF d] drain_loop_lines [OF assms(1), of NetEOF "[]"]
    by (simp add: fst_data_drain newDataReader_def drain_loop_nil)
  ultimately show ?thesis using d by auto
qed

text \<open>
  A connection that is lost right after the first byte of a dot-stuffed line (so that its last
  bytes are a lone dot without a line ending) is taken for a finished message even by \<^verbatim>\<open>drain\<close>, so the
  session goes on to acknowledge it.
\<close>

theorem truncated_dot_acknowledged:
  assumes "1 \<le> maxLine" and "\<forall>l \<in> set ls. wire_ok maxLine l" and "int (length (plain_lines ls)) \<le> maxBytes"
    and "\<forall>n \<in> set ns. 0 < n" and "length (plain_lines ls) < length ns" and "e \<noteq> NetEOF"
  shows "\<exists>r. data_reads ns (newDataReader (wire_lines ls @ ''.'') e maxBytes maxLine)
     = (plain_lines ls, Some EOF, r) \<and> data_drain r = (Inr (), r)"
proof -
  let ?r = "newDataReader (wire_lines ls @ ''.'') e maxBytes maxLine"
  have f: "data_future ?r = (plain_lines ls, EOF, [])"
    using data_decode_lines [of ls maxLine maxBytes 0 e "''.''"] data_decode_cut_dot [OF assms(1)] assms(2,3)
    by (simp add: data_future_def newDataReader_def)
  then obtain c err r where d: "data_reads ns ?r = (c, Some err, r)"
    using data_reads_finish [of ns ?r] assms(4,5) by auto
  from data_reads_future [OF d] f d have "c = plain_lines ls" "err = EOF" by auto
  moreover have "dr_terminal r \<noteq> Some EOF"
    using data_reads_terminal [OF _ d] assms(6) data_reads_net [OF d] by (auto simp: newDataReader_def)
  then have "dr_ended r" using data_reads_future [OF d] \<open>err = EOF\<close> by auto
  ultimately show ?thesis using d by (auto simp: data_drain_def)
qed

section \<open>Witnesses\<close>

lemma sample_lines_ok: "\<forall>l \<in> set [''Subject: x'', [], ''.hidden'', ''body'']. wire_ok 64 l"
  by (simp add: wire_ok_def wire_line_def crlf_def)

lemma sample_wire_skip: "skip_dot (''a'' @ crlf @ ''.'' @ crlf @ ''NOOP'') = Some ''NOOP''"
proof -
  have "next_line (''a'' @ crlf @ (''.'' @ crlf @ ''NOOP'')) = Some (''a'', ''.'' @ crlf @ ''NOOP'')"
    by (rule next_line_crlf) simp
  moreover have "next_line (''.'' @ crlf @ ''NOOP'') = Some (''.'', ''NOOP'')"
    by (rule next_line_crlf) simp
  ultimately show ?thesis by (simp add: skip_dot.simps)
qed

theorem data_resynchronises_witness:
  "\<exists>r'. data_drain (snd (snd (data_reads [1] (newDataReader (''a'' @ crlf @ ''.'' @ crlf @ ''NOOP'') NetEOF 100 64))))
     = (Inr (), r') \<and> dr_input r' = ''NOOP''"
  using data_resynchronises [OF _ sample_wire_skip, of 64 "[1]" NetEOF 100] by (metis one_le_numeral prod.collapse)

theorem data_roundtrip_witness:
  "\<exists>r. data_reads (replicate 60 7)
      (newDataReader (wire_lines [''Subject: x'', [], ''.hidden'', ''body''] @ ''.'' @ crlf @ ''QUIT'') NetEOF 100 64)
     = (plain_lines [''Subject: x'', [], ''.hidden'', ''body''], Some EOF, r) \<and> dr_input r = ''QUIT''"
  by (rule data_roundtrip) (use sample_lines_ok in \<open>simp_all add: plain_lines_def crlf_def\<close>)

theorem data_bounded_witness:
  "int (length (fst (data_reads [3, 3] (newDataReader (''abcdef'' @ crlf) NetEOF 10 64)))) \<le> 10"
  using data_bounded [of 10 "[3, 3]" "''abcdef'' @ crlf" NetEOF 64] by (metis prod.collapse zero_le_numeral)

theorem truncated_data_accepted_witness:
  "\<exists>r. data_reads (replicate 20 7) (newDataReader (wire_lines [''Subject: x'']) NetEOF 100 64)
     = (plain_lines [''Subject: x''], Some EOF, r) \<and> fst (data_drain r) = Inl EOF"
  by (rule truncated_data_accepted) (simp_all add: wire_ok_def wire_line_def plain_lines_def crlf_def)

theorem truncated_dot_acknowledged_witness:
  "\<exists>r. data_reads (replicate 20 7) (newDataReader (wire_lines [''Subject: x''] @ ''.'') NetClosed 100 64)
     = (plain_lines [''Subject: x''], Some EOF, r) \<and> data_drain r = (Inr (), r)"
  by (rule truncated_dot_acknowledged) (simp_all add: wire_ok_def wire_line_def plain_lines_def crlf_def)

end
