(* ===== verification/Message_Delivery.thy ===== *)
theory Message_Delivery
  imports Wisp_Codec
begin

text \<open>
  Package \<^verbatim>\<open>internal/message\<close> without the receiver: inbox local parts
  (\<^verbatim>\<open>address.go\<close>), content references and delivery validation (\<^verbatim>\<open>delivery.go\<close>). The UUID
  package is a parameter \<open>canon\<close>: \<^verbatim>\<open>uuid.Parse\<close> followed by \<^verbatim>\<open>String\<close>, \<open>None\<close> when parsing
  fails.
\<close>

section \<open>Local parts\<close>

definition local_char :: "char \<Rightarrow> bool" where
  "local_char c \<longleftrightarrow> in_range CHR ''a'' CHR ''z'' c \<or> in_range CHR ''0'' CHR ''9'' c \<or>
     c = CHR ''.'' \<or> c = CHR ''_'' \<or> c = CHR ''-''"

definition local_edge_char :: "char \<Rightarrow> bool" where
  "local_edge_char c \<longleftrightarrow> c = CHR ''.'' \<or> c = CHR ''_'' \<or> c = CHR ''-''"

fun local_loop :: "nat \<Rightarrow> nat \<Rightarrow> string \<Rightarrow> bool" where
  "local_loop n index [] = True"
| "local_loop n index (c # s) =
     (if \<not> local_char c then False
      else if (index = 0 \<or> index = n - 1) \<and> local_edge_char c then False
      else local_loop n (Suc index) s)"

fun no_double_dot :: "string \<Rightarrow> bool" where
  "no_double_dot (a # b # s) = (if a = CHR ''.'' \<and> b = CHR ''.'' then False else no_double_dot (b # s))"
| "no_double_dot _ = True"

definition ValidInboxLocalPart :: "string \<Rightarrow> bool" where
  "ValidInboxLocalPart localPart =
     (if length localPart < 1 \<or> length localPart > 64 then False
      else local_loop (length localPart) 0 localPart \<and> no_double_dot localPart)"

section \<open>Content references and deliveries\<close>

record content_ref =
  cr_key :: string
  cr_size :: int

record content_deletion =
  cd_content :: content_ref
  cd_generation :: int

record delivery =
  dl_content :: content_ref
  dl_sender :: string
  dl_recipients :: "string list"
  dl_received :: time

record stored_message =
  sm_id :: string
  sm_inbox :: string

text \<open>\<^verbatim>\<open>ContentRef.Validate\<close>: every failure wraps \<^verbatim>\<open>ErrInvalidDelivery\<close>.\<close>

definition content_ref_validate :: "content_ref \<Rightarrow> unit result" where
  "content_ref_validate r =
     (if \<not> has_prefix (cr_key r) ''sha256/'' then Inl ErrInvalidDelivery
      else let digest = trim_prefix (cr_key r) ''sha256/'' in
        if length digest \<noteq> 64 \<or> to_lower digest \<noteq> digest then Inl ErrInvalidDelivery
        else case hex_decode digest of
            None \<Rightarrow> Inl ErrInvalidDelivery
          | Some decoded \<Rightarrow>
              if length decoded \<noteq> 64 div 2 then Inl ErrInvalidDelivery
              else if cr_size r < 0 then Inl ErrInvalidDelivery
              else Inr ())"

text \<open>The recipient loop of \<^verbatim>\<open>validateEnvelope\<close> with its set of seen recipients.\<close>

fun validate_recipients :: "(string \<Rightarrow> string option) \<Rightarrow> string set \<Rightarrow> string list \<Rightarrow> unit result" where
  "validate_recipients canon seen [] = Inr ()"
| "validate_recipients canon seen (r # rs) =
     (if canon r = None then Inl ErrInvalidDelivery
      else if r \<in> seen then Inl ErrInvalidDelivery
      else validate_recipients canon (insert r seen) rs)"

definition validateEnvelope :: "(string \<Rightarrow> string option) \<Rightarrow> string \<Rightarrow> string list \<Rightarrow> unit result" where
  "validateEnvelope canon envelopeSender recipients =
     (if length envelopeSender > 320 then Inl ErrInvalidDelivery
      else if recipients = [] then Inl ErrInvalidDelivery
      else validate_recipients canon {} recipients)"

definition delivery_validate :: "(string \<Rightarrow> string option) \<Rightarrow> delivery \<Rightarrow> unit result" where
  "delivery_validate canon d =
     (case content_ref_validate (dl_content d) of
        Inl e \<Rightarrow> Inl e
      | Inr _ \<Rightarrow>
          if is_zero_time (dl_received d) then Inl ErrInvalidDelivery
          else validateEnvelope canon (dl_sender d) (dl_recipients d))"

section \<open>Lemmas\<close>

lemma lower_hex_ascii: "lower_hex_char c \<Longrightarrow> (of_char c :: nat) < 128"
  by (auto simp: lower_hex_char_def in_range_def)

lemma lower_hex_lower: "lower_hex_char c \<Longrightarrow> lower_char c = c"
  by (auto simp: lower_hex_char_def in_range_def lower_char_def)

lemma to_lower_ascii: "list_all is_ascii s \<Longrightarrow> to_lower s = map lower_char s"
proof (induction s rule: to_lower.induct)
  case (2 a s)
  then show ?case
    by (cases s; cases "tl s") (auto simp: is_ascii_def split: list.splits)
qed simp

lemma to_lower_hex: "list_all lower_hex_char s \<Longrightarrow> to_lower s = s"
proof -
  assume s: "list_all lower_hex_char s"
  then have "list_all is_ascii s" by (auto simp: list_all_iff is_ascii_def lower_hex_ascii)
  then have "to_lower s = map lower_char s" by (rule to_lower_ascii)
  also have "\<dots> = s" using s by (auto simp: list_all_iff lower_hex_lower intro: map_idI)
  finally show ?thesis .
qed

lemma hex_decode_hex_chars: "hex_decode s = Some b \<Longrightarrow> list_all (\<lambda>c. hex_val c \<noteq> None) s"
  by (induction s arbitrary: b rule: hex_decode.induct) (auto split: option.splits)

lemma hex_char_lower_fixed: "hex_val c \<noteq> None \<Longrightarrow> lower_char c = c \<Longrightarrow> lower_hex_char c"
proof -
  assume h: "hex_val c \<noteq> None" and l: "lower_char c = c"
  show ?thesis
  proof (cases "in_range CHR ''A'' CHR ''F'' c")
    case True
    then have r: "65 \<le> (of_char c :: nat)" "(of_char c :: nat) \<le> 70" by (auto simp: in_range_def)
    then have "(of_char (lower_char c) :: nat) = of_char c + 32" by (simp add: lower_char_def)
    with l show ?thesis by simp
  next
    case False
    with h show ?thesis by (auto simp: hex_val_def lower_hex_char_def split: if_splits)
  qed
qed

text \<open>The key format that \<^verbatim>\<open>Validate\<close> and the path function of the content store both demand.\<close>

lemma digest_format_iff:
  "length dg = 64 \<and> to_lower dg = dg \<and> (\<exists>b. hex_decode dg = Some b) \<longleftrightarrow>
   length dg = 64 \<and> list_all lower_hex_char dg"
proof (intro iffI conjI; elim conjE exE)
  fix b assume l: "to_lower dg = dg" and h: "hex_decode dg = Some b"
  from hex_decode_hex_chars [OF h] have hv: "list_all (\<lambda>c. hex_val c \<noteq> None) dg" .
  then have "list_all is_ascii dg"
    by (auto simp: list_all_iff is_ascii_def hex_val_def in_range_def split: if_splits)
  then have "map lower_char dg = dg" using l to_lower_ascii by simp
  then have "\<forall>c \<in> set dg. lower_char c = c" by (metis map_eq_conv map_idI list.map_ident map_idI)
  with hv show "list_all lower_hex_char dg" by (auto simp: list_all_iff hex_char_lower_fixed)
next
  assume "length dg = 64" "list_all lower_hex_char dg"
  then show "\<exists>b. hex_decode dg = Some b" by (intro hex_decode_total) simp_all
qed (auto simp: to_lower_hex)

lemma content_ref_validate_ok:
  "content_ref_validate r = Inr () \<longleftrightarrow>
     (\<exists>dg. cr_key r = ''sha256/'' @ dg \<and> length dg = 64 \<and> list_all lower_hex_char dg) \<and> 0 \<le> cr_size r"
proof -
  have half: "length b = 32" if "hex_decode dg = Some b" "length dg = 64" for dg b
    using hex_decode_length [OF that(1)] that(2) by simp
  have "content_ref_validate r = Inr () \<longleftrightarrow>
     (\<exists>dg. cr_key r = ''sha256/'' @ dg \<and> length dg = 64 \<and> to_lower dg = dg \<and> (\<exists>b. hex_decode dg = Some b)) \<and>
     0 \<le> cr_size r"
    by (auto simp: content_ref_validate_def has_prefix_iff trim_prefix_def Let_def half
        split: if_splits option.splits)
  then show ?thesis using digest_format_iff by metis
qed

lemma content_ref_validate_error: "content_ref_validate r = Inl e \<Longrightarrow> e = ErrInvalidDelivery"
  by (auto simp: content_ref_validate_def Let_def split: if_splits option.splits)

lemma validate_recipients_ok:
  "validate_recipients canon seen rs = Inr () \<longleftrightarrow>
     (\<forall>r \<in> set rs. canon r \<noteq> None) \<and> distinct rs \<and> set rs \<inter> seen = {}"
  by (induction rs arbitrary: seen) auto

lemma validate_recipients_error:
  "validate_recipients canon seen rs = Inl e \<Longrightarrow> e = ErrInvalidDelivery"
  by (induction rs arbitrary: seen) (auto split: if_splits)

lemma validateEnvelope_ok:
  "validateEnvelope canon s rs = Inr () \<longleftrightarrow>
     length s \<le> 320 \<and> rs \<noteq> [] \<and> (\<forall>r \<in> set rs. canon r \<noteq> None) \<and> distinct rs"
  by (auto simp: validateEnvelope_def validate_recipients_ok)

lemma validateEnvelope_error: "validateEnvelope canon s rs = Inl e \<Longrightarrow> e = ErrInvalidDelivery"
  by (auto simp: validateEnvelope_def validate_recipients_error split: if_splits)

lemma delivery_validate_ok:
  "delivery_validate canon d = Inr () \<longleftrightarrow>
     content_ref_validate (dl_content d) = Inr () \<and> \<not> is_zero_time (dl_received d) \<and>
     validateEnvelope canon (dl_sender d) (dl_recipients d) = Inr ()"
  by (auto simp: delivery_validate_def split: sum.splits if_splits)

lemma local_loop_iff:
  "local_loop n i s \<longleftrightarrow> list_all local_char s \<and>
     (\<forall>j < length s. i + j = 0 \<or> i + j = n - 1 \<longrightarrow> \<not> local_edge_char (s ! j))"
proof (induction s arbitrary: i)
  case (Cons c s)
  show ?case
    by (simp add: Cons.IH) (auto simp: All_less_Suc2)
qed simp

lemma no_double_dot_iff: "no_double_dot s \<longleftrightarrow> (\<nexists>u v. s = u @ ''..'' @ v)"
proof (induction s rule: no_double_dot.induct)
  case (1 a b s)
  show ?case
  proof (cases "a = CHR ''.'' \<and> b = CHR ''.''")
    case True
    then have "a # b # s = [] @ ''..'' @ s" by simp
    then show ?thesis using True by (metis no_double_dot.simps(1))
  next
    case False
    have "(\<exists>u v. a # b # s = u @ ''..'' @ v) \<longleftrightarrow> (\<exists>u v. b # s = u @ ''..'' @ v)"
    proof
      assume "\<exists>u v. a # b # s = u @ ''..'' @ v"
      then obtain u v where "a # b # s = u @ ''..'' @ v" by blast
      with False show "\<exists>u v. b # s = u @ ''..'' @ v" by (cases u) auto
    next
      assume "\<exists>u v. b # s = u @ ''..'' @ v"
      then obtain u v where "b # s = u @ ''..'' @ v" by blast
      then have "a # b # s = (a # u) @ ''..'' @ v" by simp
      then show "\<exists>u v. a # b # s = u @ ''..'' @ v" by blast
    qed
    with 1 False show ?thesis by auto
  qed
qed (auto simp: Cons_eq_append_conv)

lemma ValidInboxLocalPart_iff:
  "ValidInboxLocalPart s \<longleftrightarrow> 1 \<le> length s \<and> length s \<le> 64 \<and> list_all local_char s \<and>
     \<not> local_edge_char (hd s) \<and> \<not> local_edge_char (last s) \<and> (\<nexists>u v. s = u @ ''..'' @ v)"
proof (cases "s = []")
  case False
  then have "(\<forall>j < length s. j = 0 \<or> j = length s - 1 \<longrightarrow> \<not> local_edge_char (s ! j)) \<longleftrightarrow>
      \<not> local_edge_char (hd s) \<and> \<not> local_edge_char (last s)"
    by (auto simp: hd_conv_nth last_conv_nth dest: spec [of _ "length s - 1"])
  with False show ?thesis
    by (auto simp: ValidInboxLocalPart_def local_loop_iff no_double_dot_iff Suc_le_eq)
qed (simp add: ValidInboxLocalPart_def)

end
