(* ===== verification/Lmtp_Session.thy ===== *)
theory Lmtp_Session
  imports Lmtp_Reader Message_Delivery
begin

text \<open>
  The LMTP protocol boundary: \<^verbatim>\<open>internal/lmtp/session.go\<close> and \<^verbatim>\<open>server.go\<close>.

  A session owns a connection: the bytes still to come, the lines flushed to the client, and a
  schedule that says which of its deadline and write operations fail. The two interfaces the server
  is built over, \<^verbatim>\<open>InboxResolver\<close> and \<^verbatim>\<open>MessageReceiver\<close>, are the fields of a \<open>backend\<close> over a
  world \<open>'w\<close>. The receiver consumes the DATA section through reads of the sizes \<open>be_reads\<close>
  gives and then acts on what these reads delivered. \<^verbatim>\<open>run\<close> is a total function: every command
  consumes input.
\<close>

section \<open>Options and server construction (server.go)\<close>

record options =
  op_hostname :: string
  op_maxMessage :: int
  op_maxCommand :: int
  op_maxDataLine :: int
  op_maxRecipients :: int
  op_maxSessions :: int
  op_sessionTimeout :: duration
  op_deliveryTimeout :: duration

definition second :: duration where "second = 1000000000"

definition DefaultOptions :: "string \<Rightarrow> options" where
  "DefaultOptions hostname =
     \<lparr>op_hostname = hostname, op_maxMessage = 25 * 2 ^ 20, op_maxCommand = 4 * 2 ^ 10,
      op_maxDataLine = 64 * 2 ^ 10, op_maxRecipients = 100, op_maxSessions = 64,
      op_sessionTimeout = 5 * 60 * second, op_deliveryTimeout = 30 * second\<rparr>"

text \<open>\<^verbatim>\<open>NewServer\<close>; the flags say whether the interface arguments are non-nil.\<close>

definition NewServer :: "options \<Rightarrow> bool \<Rightarrow> bool \<Rightarrow> bool \<Rightarrow> options result" where
  "NewServer o' resolver receiver logger =
     (if trim_space (op_hostname o') = [] then Inl (OtherError ''LMTP hostname is required'')
      else if op_maxMessage o' \<le> 0 \<or> op_maxCommand o' \<le> 0 \<or> op_maxDataLine o' \<le> 0
        then Inl (OtherError ''LMTP byte limits must be positive'')
      else if op_maxRecipients o' \<le> 0 \<or> op_maxSessions o' \<le> 0
        then Inl (OtherError ''LMTP concurrency limits must be positive'')
      else if op_sessionTimeout o' \<le> 0 \<or> op_deliveryTimeout o' \<le> 0
        then Inl (OtherError ''LMTP timeouts must be positive'')
      else if op_sessionTimeout o' < op_deliveryTimeout o'
        then Inl (OtherError ''LMTP session timeout must not be shorter than delivery timeout'')
      else if \<not> resolver then Inl (OtherError ''LMTP inbox resolver is required'')
      else if \<not> receiver then Inl (OtherError ''LMTP message receiver is required'')
      else if \<not> logger then Inl (OtherError ''LMTP logger is required'')
      else Inr o')"

section \<open>Command syntax\<close>

definition splitCommand :: "string \<Rightarrow> string \<times> string" where
  "splitCommand line0 =
     (let line = trim_space line0 in
      if line = [] then ([], [])
      else case cut line CHR '' '' of
          (verb, argument, found) \<Rightarrow>
            if \<not> found then (to_upper verb, []) else (to_upper verb, trim_space argument))"

definition address_char_ok :: "char \<Rightarrow> bool" where
  "address_char_ok c \<longleftrightarrow>
     \<not> ((of_char c :: nat) \<le> 32 \<or> (of_char c :: nat) \<ge> 127 \<or> c = CHR ''<'' \<or> c = CHR ''>'')"

definition canonicalAddress :: "string \<Rightarrow> bool \<Rightarrow> string + string" where
  "canonicalAddress address allowEmpty =
     (if address = [] \<and> allowEmpty then Inr []
      else if length address < 3 \<or> length address > 320 \<or> length (filter (\<lambda>c. c = CHR ''@'') address) \<noteq> 1
        then Inl ''invalid envelope address''
      else case cut address CHR ''@'' of
          (localPart, domain, _) \<Rightarrow>
            if localPart = [] \<or> domain = [] \<or> has_prefix localPart ''.'' \<or> has_suffix localPart ''.'' \<or>
               contains_str localPart ''..''
              then Inl ''invalid envelope address''
            else if \<not> list_all address_char_ok address
              then Inl ''SMTPUTF8 and control characters are not supported''
            else Inr (to_lower address))"

definition parsePath :: "string \<Rightarrow> string \<Rightarrow> bool \<Rightarrow> string + (string \<times> string list)" where
  "parsePath argument prefix allowEmpty =
     (if length argument < length prefix \<or> \<not> equal_fold_ascii (take (length prefix) argument) prefix
        then Inl (''expected '' @ prefix @ ''<address>'')
      else let remainder = trim_space (drop (length prefix) argument) in
        if \<not> has_prefix remainder ''<'' then Inl ''path must start with <''
        else case index_byte remainder CHR ''>'' of
            None \<Rightarrow> Inl ''path must end with >''
          | Some closing \<Rightarrow>
              (case canonicalAddress (drop 1 (take closing remainder)) allowEmpty of
                 Inl e \<Rightarrow> Inl e
               | Inr address \<Rightarrow> Inr (address, Wisp_Prelude.fields (trim_space (drop (Suc closing) remainder)))))"

text \<open>The parameter loop of \<^verbatim>\<open>parseMailFrom\<close>: declared size, SIZE seen, BODY seen.\<close>

fun mail_parameters :: "string list \<Rightarrow> int \<Rightarrow> bool \<Rightarrow> bool \<Rightarrow> string + int" where
  "mail_parameters [] declaredSize hasSize hasBody = Inr declaredSize"
| "mail_parameters (parameter # rest) declaredSize hasSize hasBody =
     (case cut parameter CHR ''='' of
        (name, value, hasValue) \<Rightarrow>
          if to_upper name = ''SIZE'' then
            (if hasSize then Inl ''SIZE must not be repeated''
             else if \<not> hasValue then Inl ''SIZE requires a value''
             else case parse_int64 value of
                 None \<Rightarrow> Inl ''SIZE must be a non-negative integer''
               | Some parsed \<Rightarrow>
                   if parsed < 0 then Inl ''SIZE must be a non-negative integer''
                   else mail_parameters rest parsed True hasBody)
          else if to_upper name = ''BODY'' then
            (if hasBody then Inl ''BODY must not be repeated''
             else if \<not> hasValue \<or> (to_upper value \<noteq> ''7BIT'' \<and> to_upper value \<noteq> ''8BITMIME'')
               then Inl ''unsupported BODY parameter''
             else mail_parameters rest declaredSize hasSize True)
          else Inl ''unsupported MAIL parameter'')"

definition parseMailFrom :: "string \<Rightarrow> string + (string \<times> int)" where
  "parseMailFrom argument =
     (case parsePath argument ''FROM:'' True of
        Inl e \<Rightarrow> Inl e
      | Inr (address, parameters) \<Rightarrow>
          (case mail_parameters parameters 0 False False of
             Inl e \<Rightarrow> Inl e
           | Inr declaredSize \<Rightarrow> Inr (address, declaredSize)))"

definition parseRecipient :: "string \<Rightarrow> string + string" where
  "parseRecipient argument =
     (case parsePath argument ''TO:'' False of
        Inl e \<Rightarrow> Inl e
      | Inr (address, parameters) \<Rightarrow>
          if parameters \<noteq> [] then Inl ''unsupported RCPT parameter'' else Inr address)"

section \<open>Classification of delivery errors\<close>

definition classifyDeliveryError :: "go_error option \<Rightarrow> int \<times> string \<times> string" where
  "classifyDeliveryError err =
     (case err of
        None \<Rightarrow> (250, ''2.1.5'', ''delivered'')
      | Some e \<Rightarrow>
          if e = ErrDataTooLarge \<or> e = ErrContentTooLarge then (552, ''5.3.4'', ''message too large'')
          else if e = ErrDataLineTooLong then (554, ''5.6.0'', ''message line too long'')
          else if e = ErrInboxNotFound then (550, ''5.1.1'', ''recipient no longer available'')
          else if e = ErrInboxMessageQuotaExceeded then (552, ''5.2.2'', ''recipient message quota exceeded'')
          else if e = ErrInboxStorageQuotaExceeded then (552, ''5.2.2'', ''recipient storage quota exceeded'')
          else if e = ErrInsufficientStorage then (452, ''4.3.1'', ''insufficient system storage'')
          else if e = ErrInvalidDelivery then (554, ''5.6.0'', ''invalid delivery'')
          else (451, ''4.3.0'', ''temporary delivery failure''))"

definition quotaRejectionReason :: "go_error option \<Rightarrow> string" where
  "quotaRejectionReason err =
     (if err = Some ErrInboxMessageQuotaExceeded then ''messages''
      else if err = Some ErrInboxStorageQuotaExceeded then ''storage_bytes''
      else [])"

section \<open>Sessions\<close>

datatype lmtp_metric =
    ObserveLMTPDelivery int
  | ObserveLMTPQuotaRejected string
  | ObserveLMTPStorageRejected string

record recipient =
  rc_address :: string
  rc_inbox :: string

text \<open>\<^verbatim>\<open>recipientSet\<close> is a map that may be nil: \<open>None\<close>; writing to a nil map panics.\<close>

record 'w session =
  ss_in :: bytes
  ss_net :: net_error
  ss_out :: "string list"
  ss_ops :: nat
  ss_fail :: "nat \<Rightarrow> go_error option"
  ss_ctx :: ctx
  ss_metrics :: "lmtp_metric list option"
  ss_world :: 'w
  ss_greeted :: bool
  ss_mailSet :: bool
  ss_sender :: string
  ss_declaredSize :: int
  ss_recipients :: "recipient list"
  ss_recipientSet :: "string set option"

record 'w backend =
  be_resolve :: "'w \<Rightarrow> string \<Rightarrow> int \<Rightarrow> string result \<times> 'w"
  be_capacity :: "'w \<Rightarrow> unit result \<times> 'w"
  be_reads :: "'w \<Rightarrow> string \<Rightarrow> string list \<Rightarrow> nat list"
  be_receive :: "'w \<Rightarrow> string \<Rightarrow> string list \<Rightarrow> bytes \<times> go_error option \<Rightarrow> unit result \<times> 'w"

datatype outcome = Continue | Return "go_error option" | Panic

definition observe :: "lmtp_metric \<Rightarrow> 'w session \<Rightarrow> 'w session" where
  "observe ev s = s\<lparr>ss_metrics := map_option (\<lambda>l. l @ [ev]) (ss_metrics s)\<rparr>"

definition reply :: "int \<Rightarrow> string \<Rightarrow> string \<Rightarrow> 'w session \<Rightarrow> go_error option \<times> 'w session" where
  "reply code enhanced msg s =
     (case ss_fail s (ss_ops s) of
        Some e \<Rightarrow> (Some e, s\<lparr>ss_ops := Suc (ss_ops s)\<rparr>)
      | None \<Rightarrow> (None, s\<lparr>ss_ops := Suc (ss_ops s),
          ss_out := ss_out s @ [format_int code @ '' '' @ enhanced @ '' '' @ msg @ crlf]\<rparr>))"

text \<open>The recurring \<^verbatim>\<open>if err := s.reply(...); err != nil { return err }; continue\<close>.\<close>

definition reply_continue :: "int \<Rightarrow> string \<Rightarrow> string \<Rightarrow> 'w session \<Rightarrow> outcome \<times> 'w session" where
  "reply_continue code enhanced msg s =
     (case reply code enhanced msg s of
        (Some e, s') \<Rightarrow> (Return (Some e), s')
      | (None, s') \<Rightarrow> (Continue, s'))"

definition capability_lines :: "options \<Rightarrow> string list" where
  "capability_lines o' =
     (let ls = [op_hostname o', ''8BITMIME'', ''PIPELINING'', ''SIZE '' @ format_int (op_maxMessage o'),
                ''ENHANCEDSTATUSCODES'']
      in map (\<lambda>i. ''250'' @ (if i = length ls - 1 then '' '' else ''-'') @ ls ! i @ crlf) [0..<length ls])"

definition lhlo_capabilities :: "options \<Rightarrow> 'w session \<Rightarrow> go_error option \<times> 'w session" where
  "lhlo_capabilities o' s =
     (case ss_fail s (ss_ops s) of
        Some e \<Rightarrow> (Some e, s\<lparr>ss_ops := Suc (ss_ops s)\<rparr>)
      | None \<Rightarrow> (None, s\<lparr>ss_ops := Suc (ss_ops s), ss_out := ss_out s @ capability_lines o'\<rparr>))"

definition resetTransaction :: "'w session \<Rightarrow> 'w session" where
  "resetTransaction s =
     s\<lparr>ss_mailSet := False, ss_sender := [], ss_declaredSize := 0, ss_recipients := [],
       ss_recipientSet := None\<rparr>"

text \<open>The per-recipient reply loop at the end of DATA.\<close>

fun reply_each :: "int \<Rightarrow> string \<Rightarrow> string \<Rightarrow> recipient list \<Rightarrow> 'w session \<Rightarrow> go_error option \<times> 'w session" where
  "reply_each code enhanced msg [] s = (None, s)"
| "reply_each code enhanced msg (r # rs) s =
     (case reply code enhanced (rc_address r @ '' '' @ msg) s of
        (Some e, s') \<Rightarrow> (Some e, s')
      | (None, s') \<Rightarrow> reply_each code enhanced msg rs s')"

fun err_of :: "'a result \<Rightarrow> go_error option" where
  "err_of (Inl e) = Some e"
| "err_of (Inr _) = None"

definition observe_delivery :: "go_error option \<Rightarrow> 'w session \<Rightarrow> 'w session" where
  "observe_delivery receiveErr s =
     (let s1 = observe (ObserveLMTPDelivery (fst (classifyDeliveryError receiveErr))) s;
          s2 = (if quotaRejectionReason receiveErr \<noteq> []
                then observe (ObserveLMTPQuotaRejected (quotaRejectionReason receiveErr)) s1 else s1)
      in if receiveErr = Some ErrInsufficientStorage
         then observe (ObserveLMTPStorageRejected ''capacity'') s2 else s2)"

definition receiveData :: "options \<Rightarrow> 'w backend \<Rightarrow> 'w session \<Rightarrow> go_error option \<times> 'w session" where
  "receiveData o' be s =
     (let inboxIDs = map rc_inbox (ss_recipients s);
          data = newDataReader (ss_in s) (ss_net s) (op_maxMessage o') (nat (op_maxDataLine o'))
      in case data_reads (be_reads be (ss_world s) (ss_sender s) inboxIDs) data of
          (content, readErr, data1) \<Rightarrow>
            (case be_receive be (ss_world s) (ss_sender s) inboxIDs (content, readErr) of
               (received, w') \<Rightarrow>
                 (let receiveErr = err_of received in
                  case (if \<not> dr_ended data1 then data_drain data1 else (Inr (), data1)) of
                    (Inl drainErr, data2) \<Rightarrow>
                      (Some drainErr, s\<lparr>ss_in := dr_input data2, ss_world := w'\<rparr>)
                  | (Inr _, data2) \<Rightarrow>
                      (case classifyDeliveryError receiveErr of
                         (code, enhanced, msg) \<Rightarrow>
                           (let s1 = observe_delivery receiveErr
                                  (s\<lparr>ss_in := dr_input data2, ss_world := w'\<rparr>)
                            in case reply_each code enhanced msg (ss_recipients s1) s1 of
                                 (Some e, s2) \<Rightarrow> (Some e, s2)
                               | (None, s2) \<Rightarrow> (None, resetTransaction s2))))))"

section \<open>Commands\<close>

definition cmd_LHLO :: "options \<Rightarrow> string \<Rightarrow> 'w session \<Rightarrow> outcome \<times> 'w session" where
  "cmd_LHLO o' argument s =
     (if trim_space argument = [] then reply_continue 501 ''5.5.4'' ''LHLO requires a hostname'' s
      else case lhlo_capabilities o' ((resetTransaction s)\<lparr>ss_greeted := True\<rparr>) of
          (Some e, s') \<Rightarrow> (Return (Some e), s')
        | (None, s') \<Rightarrow> (Continue, s'))"

definition cmd_MAIL :: "options \<Rightarrow> string \<Rightarrow> 'w session \<Rightarrow> outcome \<times> 'w session" where
  "cmd_MAIL o' argument s =
     (if \<not> ss_greeted s then reply_continue 503 ''5.5.1'' ''Send LHLO first'' s
      else if ss_mailSet s then reply_continue 503 ''5.5.1'' ''Nested MAIL command'' s
      else case parseMailFrom argument of
          Inl msg \<Rightarrow> reply_continue 501 ''5.5.4'' msg s
        | Inr (sender, declaredSize) \<Rightarrow>
            if declaredSize > op_maxMessage o'
            then reply_continue 552 ''5.3.4'' ''Declared message size exceeds fixed maximum'' s
            else reply_continue 250 ''2.1.0'' ''Sender OK''
              (s\<lparr>ss_sender := sender, ss_declaredSize := declaredSize, ss_mailSet := True,
                 ss_recipientSet := Some {}\<rparr>))"

definition cmd_RCPT :: "options \<Rightarrow> 'w backend \<Rightarrow> string \<Rightarrow> 'w session \<Rightarrow> outcome \<times> 'w session" where
  "cmd_RCPT o' be argument s =
     (if \<not> ss_greeted s \<or> \<not> ss_mailSet s then reply_continue 503 ''5.5.1'' ''Need MAIL before RCPT'' s
      else case parseRecipient argument of
          Inl msg \<Rightarrow> reply_continue 501 ''5.5.4'' msg s
        | Inr addr \<Rightarrow>
            (case be_resolve be (ss_world s) addr (ss_declaredSize s) of
               (resolved, w') \<Rightarrow>
                 (let s1 = s\<lparr>ss_world := w'\<rparr> in
                  case resolved of
                    Inl e \<Rightarrow>
                      if e = ErrInboxNotFound then reply_continue 550 ''5.1.1'' ''Recipient address rejected'' s1
                      else if quotaRejectionReason (Some e) \<noteq> []
                        then reply_continue 552 ''5.2.2'' ''Recipient Inbox quota exceeded''
                               (observe (ObserveLMTPQuotaRejected (quotaRejectionReason (Some e))) s1)
                      else reply_continue 451 ''4.3.0'' ''Temporary recipient lookup failure'' s1
                  | Inr inboxID \<Rightarrow>
                      if (case ss_recipientSet s1 of None \<Rightarrow> False | Some R \<Rightarrow> inboxID \<in> R)
                        then reply_continue 250 ''2.1.5'' ''Recipient OK'' s1
                      else if int (length (ss_recipients s1)) \<ge> op_maxRecipients o'
                        then reply_continue 452 ''4.5.3'' ''Too many recipients'' s1
                      else case ss_recipientSet s1 of
                          None \<Rightarrow> (Panic, s1)
                        | Some R \<Rightarrow>
                            reply_continue 250 ''2.1.5'' ''Recipient OK''
                              (s1\<lparr>ss_recipientSet := Some (insert inboxID R),
                                 ss_recipients := ss_recipients s1 @ [\<lparr>rc_address = addr, rc_inbox = inboxID\<rparr>]\<rparr>))))"

definition cmd_DATA :: "options \<Rightarrow> 'w backend \<Rightarrow> string \<Rightarrow> 'w session \<Rightarrow> outcome \<times> 'w session" where
  "cmd_DATA o' be argument s =
     (if \<not> ss_mailSet s \<or> ss_recipients s = [] then reply_continue 503 ''5.5.1'' ''Need MAIL and RCPT before DATA'' s
      else if trim_space argument \<noteq> [] then reply_continue 501 ''5.5.4'' ''DATA does not accept parameters'' s
      else case be_capacity be (ss_world s) of
          (Inl e, w') \<Rightarrow>
            (let s1 = s\<lparr>ss_world := w'\<rparr> in
             if e = ErrInsufficientStorage
             then reply_continue 452 ''4.3.1'' ''Insufficient system storage''
                    (observe (ObserveLMTPStorageRejected ''capacity'') s1)
             else reply_continue 451 ''4.3.0'' ''Temporary storage check failure''
                    (observe (ObserveLMTPStorageRejected ''check_error'') s1))
        | (Inr _, w') \<Rightarrow>
            (case reply 354 ''2.0.0'' ''End data with <CR><LF>.<CR><LF>'' (s\<lparr>ss_world := w'\<rparr>) of
               (Some e, s1) \<Rightarrow> (Return (Some e), s1)
             | (None, s1) \<Rightarrow>
                 (case receiveData o' be s1 of
                    (Some e, s2) \<Rightarrow> (Return (Some e), s2)
                  | (None, s2) \<Rightarrow> (Continue, s2))))"

text \<open>The cases of the switch of \<^verbatim>\<open>run\<close> without arguments; QUIT returns the result of its reply.\<close>

definition cmd_other :: "string \<Rightarrow> 'w session \<Rightarrow> outcome \<times> 'w session" where
  "cmd_other verb s =
     (if verb = ''RSET'' then reply_continue 250 ''2.0.0'' ''Reset state'' (resetTransaction s)
      else if verb = ''NOOP'' then reply_continue 250 ''2.0.0'' ''OK'' s
      else if verb = ''QUIT'' then (case reply 221 ''2.0.0'' ''Bye'' s of (e, s') \<Rightarrow> (Return e, s'))
      else if verb = ''HELO'' \<or> verb = ''EHLO'' then reply_continue 500 ''5.5.1'' ''Use LHLO for LMTP'' s
      else if verb = ''VRFY'' then reply_continue 252 ''2.5.2'' ''Cannot verify user'' s
      else reply_continue 500 ''5.5.1'' ''Command unrecognized'' s)"

definition session_command :: "options \<Rightarrow> 'w backend \<Rightarrow> string \<Rightarrow> 'w session \<Rightarrow> outcome \<times> 'w session" where
  "session_command o' be line s =
     (case splitCommand line of
        (verb, argument) \<Rightarrow>
          if verb = ''LHLO'' then cmd_LHLO o' argument s
          else if verb = ''MAIL'' then cmd_MAIL o' argument s
          else if verb = ''RCPT'' then cmd_RCPT o' be argument s
          else if verb = ''DATA'' then cmd_DATA o' be argument s
          else cmd_other verb s)"

text \<open>One iteration of the loop of \<^verbatim>\<open>run\<close>: deadline, line, command.\<close>

definition session_step :: "options \<Rightarrow> 'w backend \<Rightarrow> 'w session \<Rightarrow> outcome \<times> 'w session" where
  "session_step o' be s0 =
     (let s = s0\<lparr>ss_ops := Suc (ss_ops s0)\<rparr> in
      case ss_fail s0 (ss_ops s0) of
        Some e \<Rightarrow> (Return (Some e), s)
      | None \<Rightarrow>
          (case readLimitedLine (nat (op_maxCommand o')) (ss_net s) (ss_in s) of
             (Inl e, rest) \<Rightarrow>
               (let s1 = s\<lparr>ss_in := rest\<rparr> in
                if e = ErrCommandLineTooLong then reply_continue 500 ''5.5.2'' ''Command line too long'' s1
                else if e = EOF \<or> e = ErrNetClosed \<or> ctx_err (ss_ctx s1) \<noteq> None then (Return None, s1)
                else (Return (Some e), s1))
           | (Inr line, rest) \<Rightarrow> session_command o' be line (s\<lparr>ss_in := rest\<rparr>)))"

section \<open>Framing\<close>

text \<open>Two session states that differ at most in what was written and observed.\<close>

definition io_only :: "'w session \<Rightarrow> 'w session \<Rightarrow> bool" where
  "io_only s s' \<longleftrightarrow> s' = s\<lparr>ss_ops := ss_ops s', ss_out := ss_out s', ss_metrics := ss_metrics s'\<rparr>"

lemma io_only_refl [simp]: "io_only s s"
  by (simp add: io_only_def)

lemma io_only_trans: "io_only a b \<Longrightarrow> io_only b c \<Longrightarrow> io_only a c"
  unfolding io_only_def by (cases a; cases b; cases c) simp

lemma io_only_fields:
  assumes "io_only s s'"
  shows "ss_in s' = ss_in s" "ss_net s' = ss_net s" "ss_fail s' = ss_fail s" "ss_ctx s' = ss_ctx s"
    "ss_world s' = ss_world s" "ss_greeted s' = ss_greeted s" "ss_mailSet s' = ss_mailSet s"
    "ss_sender s' = ss_sender s" "ss_declaredSize s' = ss_declaredSize s"
    "ss_recipients s' = ss_recipients s" "ss_recipientSet s' = ss_recipientSet s"
  using assms unfolding io_only_def by (cases s; cases s'; simp)+

lemma reply_io: "reply c e t s = (x, s') \<Longrightarrow> io_only s s'"
  by (auto simp: reply_def io_only_def split: option.splits)

lemma reply_continue_io: "reply_continue c e t s = (x, s') \<Longrightarrow> io_only s s'"
  by (auto simp: reply_continue_def dest: reply_io split: prod.splits option.splits)

lemma reply_continue_outcome: "reply_continue c e t s = (x, s') \<Longrightarrow> x \<noteq> Panic"
  by (auto simp: reply_continue_def split: prod.splits option.splits)

lemma lhlo_io: "lhlo_capabilities o' s = (x, s') \<Longrightarrow> io_only s s'"
  by (auto simp: lhlo_capabilities_def io_only_def split: option.splits)

lemma observe_io [simp]: "io_only s (observe ev s)"
  by (simp add: observe_def io_only_def)

lemma observe_delivery_io [simp]: "io_only s (observe_delivery e s)"
proof -
  have "io_only s (observe b (observe a s))" for a b by (rule io_only_trans [OF observe_io observe_io])
  moreover have "io_only s (observe c (observe b (observe a s)))" for a b c
    by (rule io_only_trans [OF calculation observe_io])
  ultimately show ?thesis by (simp add: observe_delivery_def Let_def)
qed

lemma reply_each_io: "reply_each c e t rs s = (x, s') \<Longrightarrow> io_only s s'"
proof (induction rs arbitrary: s)
  case (Cons r rs)
  then show ?case
    by (auto split: prod.splits option.splits dest: reply_io intro: io_only_trans)
qed simp

lemma reset_fields [simp]:
  "ss_in (resetTransaction s) = ss_in s" "ss_world (resetTransaction s) = ss_world s"
  "ss_greeted (resetTransaction s) = ss_greeted s" "ss_mailSet (resetTransaction s) = False"
  "ss_recipients (resetTransaction s) = []" "ss_recipientSet (resetTransaction s) = None"
  "ss_declaredSize (resetTransaction s) = 0" "ss_sender (resetTransaction s) = []"
  "ss_out (resetTransaction s) = ss_out s" "ss_net (resetTransaction s) = ss_net s"
  "ss_metrics (resetTransaction s) = ss_metrics s"
  by (simp_all add: resetTransaction_def)

section \<open>Every command consumes input\<close>

lemma data_reads_le: "data_reads ns r = (c, e, r') \<Longrightarrow> length (dr_input r') \<le> length (dr_input r)"
proof (induction ns arbitrary: r c)
  case (Cons n ns)
  obtain c1 e1 r1 where d: "data_read n r = (c1, e1, r1)" by (cases "data_read n r") auto
  then have "length (dr_input r1) \<le> length (dr_input r)"
    by (auto simp: data_read_def Let_def dest: readLimitedLine_le split: if_splits option.splits sum.splits prod.splits)
  moreover have "length (dr_input r') \<le> length (dr_input r1)"
  proof (cases e1)
    case None
    with Cons.prems d obtain c2 where "data_reads ns r1 = (c2, e, r')" by (auto split: prod.splits)
    then show ?thesis by (rule Cons.IH)
  next
    case (Some err)
    with Cons.prems d show ?thesis by auto
  qed
  ultimately show ?case by simp
qed simp

lemma drain_loop_le: "drain_loop ml e inp = (x, rest) \<Longrightarrow> length rest \<le> length inp"
proof (induction ml e inp rule: drain_loop.induct)
  case (1 ml e inp)
  obtain y r where rl: "readLimitedLine ml e inp = (y, r)" by (cases "readLimitedLine ml e inp")
  with readLimitedLine_le have "length r \<le> length inp" by blast
  with 1 rl show ?case
    by (subst (asm) (3) drain_loop.simps) (fastforce split: sum.splits if_splits)
qed

lemma data_drain_le: "data_drain r = (x, r') \<Longrightarrow> length (dr_input r') \<le> length (dr_input r)"
  by (auto simp: data_drain_def dest: drain_loop_le split: if_splits prod.splits sum.splits)

lemma receiveData_le: "receiveData o' be s = (x, s') \<Longrightarrow> length (ss_in s') \<le> length (ss_in s)"
proof -
  assume r: "receiveData o' be s = (x, s')"
  let ?ids = "map rc_inbox (ss_recipients s)"
  let ?d = "newDataReader (ss_in s) (ss_net s) (op_maxMessage o') (nat (op_maxDataLine o'))"
  obtain c re d1 where d1: "data_reads (be_reads be (ss_world s) (ss_sender s) ?ids) ?d = (c, re, d1)"
    by (cases "data_reads (be_reads be (ss_world s) (ss_sender s) ?ids) ?d") auto
  obtain rv w' where rv: "be_receive be (ss_world s) (ss_sender s) ?ids (c, re) = (rv, w')"
    by (cases "be_receive be (ss_world s) (ss_sender s) ?ids (c, re)")
  obtain y d2 where d2: "(if \<not> dr_ended d1 then data_drain d1 else (Inr (), d1)) = (y, d2)"
    by (cases "if \<not> dr_ended d1 then data_drain d1 else (Inr (), d1)")
  have "length (dr_input d2) \<le> length (ss_in s)"
    using data_reads_le [OF d1] d2 data_drain_le [of d1 y d2]
    by (auto simp: newDataReader_def split: if_splits)
  moreover have "ss_in s' = dr_input d2"
    using r d1 rv d2
    by (auto simp: receiveData_def Let_def io_only_fields [OF observe_delivery_io] io_only_fields(1) [OF reply_each_io]
        split: prod.splits sum.splits option.splits)
  ultimately show ?thesis by simp
qed

text \<open>What each command can do to the session, up to output and metrics.\<close>

lemma cmd_LHLO_effect:
  assumes "cmd_LHLO o' argument s = (x, s')"
  shows "x \<noteq> Panic \<and> (io_only s s' \<or> io_only ((resetTransaction s)\<lparr>ss_greeted := True\<rparr>) s')"
  using assms
  by (auto simp: cmd_LHLO_def dest: reply_continue_io reply_continue_outcome lhlo_io
      split: if_splits prod.splits option.splits)

lemma cmd_MAIL_effect:
  assumes "cmd_MAIL o' argument s = (x, s')"
  shows "x \<noteq> Panic \<and> (io_only s s' \<or>
     (\<exists>sender n. ss_greeted s \<and> \<not> ss_mailSet s \<and> parseMailFrom argument = Inr (sender, n) \<and> n \<le> op_maxMessage o' \<and>
        io_only (s\<lparr>ss_sender := sender, ss_declaredSize := n, ss_mailSet := True, ss_recipientSet := Some {}\<rparr>) s'))"
  using assms
  by (auto simp: cmd_MAIL_def dest: reply_continue_io reply_continue_outcome
      split: if_splits sum.splits)

definition add_recipient :: "string \<Rightarrow> string \<Rightarrow> string set \<Rightarrow> 'w session \<Rightarrow> 'w session" where
  "add_recipient addr inboxID R s =
     s\<lparr>ss_recipientSet := Some (insert inboxID R),
       ss_recipients := ss_recipients s @ [\<lparr>rc_address = addr, rc_inbox = inboxID\<rparr>]\<rparr>"

lemma cmd_RCPT_effect:
  assumes "cmd_RCPT o' be argument s = (x, s')"
  shows "io_only s s' \<and> x \<noteq> Panic \<or>
     (ss_greeted s \<and> ss_mailSet s \<and> (\<exists>addr r w'. parseRecipient argument = Inr addr \<and>
        be_resolve be (ss_world s) addr (ss_declaredSize s) = (r, w') \<and>
        (io_only (s\<lparr>ss_world := w'\<rparr>) s' \<and> x \<noteq> Panic \<or>
         ss_recipientSet s = None \<and> s' = s\<lparr>ss_world := w'\<rparr> \<or>
         (\<exists>inboxID R. r = Inr inboxID \<and> ss_recipientSet s = Some R \<and> inboxID \<notin> R \<and> x \<noteq> Panic \<and>
            int (length (ss_recipients s)) < op_maxRecipients o' \<and>
            io_only (add_recipient addr inboxID R (s\<lparr>ss_world := w'\<rparr>)) s'))))"
proof (cases "ss_greeted s \<and> ss_mailSet s \<and> (\<exists>addr. parseRecipient argument = Inr addr)")
  case False
  with assms show ?thesis
    by (auto simp: cmd_RCPT_def dest: reply_continue_io reply_continue_outcome split: if_splits sum.splits)
next
  case True
  then obtain addr where p: "parseRecipient argument = Inr addr" by blast
  obtain r w' where r: "be_resolve be (ss_world s) addr (ss_declaredSize s) = (r, w')"
    by (cases "be_resolve be (ss_world s) addr (ss_declaredSize s)")
  have ob: "io_only (s\<lparr>ss_world := w'\<rparr>) s'" if "reply_continue a b c (observe ev (s\<lparr>ss_world := w'\<rparr>)) = (x, s')"
    for a b c ev using io_only_trans [OF observe_io reply_continue_io [OF that]] .
  note q = reply_continue_io reply_continue_outcome
  show ?thesis
  proof (cases r)
    case (Inl e)
    with assms True p r have "io_only (s\<lparr>ss_world := w'\<rparr>) s' \<and> x \<noteq> Panic"
      by (auto simp: cmd_RCPT_def Let_def dest: q ob split: if_splits)
    with True p r show ?thesis by auto
  next
    case (Inr inboxID)
    with assms True p r have "io_only (s\<lparr>ss_world := w'\<rparr>) s' \<and> x \<noteq> Panic \<or>
       ss_recipientSet s = None \<and> s' = s\<lparr>ss_world := w'\<rparr> \<or>
       (\<exists>R. ss_recipientSet s = Some R \<and> inboxID \<notin> R \<and> x \<noteq> Panic \<and>
            int (length (ss_recipients s)) < op_maxRecipients o' \<and>
            io_only (add_recipient addr inboxID R (s\<lparr>ss_world := w'\<rparr>)) s')"
      by (cases "ss_recipientSet s") (auto simp: cmd_RCPT_def Let_def add_recipient_def dest: q split: if_splits)
    with True p r Inr show ?thesis by auto
  qed
qed

lemma cmd_DATA_effect:
  assumes "cmd_DATA o' be argument s = (x, s')"
  shows "x \<noteq> Panic \<and> (io_only s s' \<or>
     (\<exists>r w'. be_capacity be (ss_world s) = (r, w') \<and>
       (io_only (s\<lparr>ss_world := w'\<rparr>) s' \<or>
        (ss_mailSet s \<and> ss_recipients s \<noteq> [] \<and> r = Inr () \<and>
          (\<exists>e s1. io_only (s\<lparr>ss_world := w'\<rparr>) s1 \<and> receiveData o' be s1 = (e, s') \<and>
             x = (case e of None \<Rightarrow> Continue | Some e \<Rightarrow> Return (Some e)))))))"
proof (cases "ss_mailSet s \<and> ss_recipients s \<noteq> [] \<and> trim_space argument = []")
  case False
  with assms show ?thesis
    by (auto simp: cmd_DATA_def dest: reply_continue_io reply_continue_outcome split: if_splits)
next
  case True
  obtain r w' where r: "be_capacity be (ss_world s) = (r, w')" by (cases "be_capacity be (ss_world s)")
  have ob: "io_only (s\<lparr>ss_world := w'\<rparr>) s'" if "reply_continue a b c (observe ev (s\<lparr>ss_world := w'\<rparr>)) = (x, s')"
    for a b c ev using io_only_trans [OF observe_io reply_continue_io [OF that]] .
  show ?thesis
  proof (cases r)
    case (Inl e)
    with assms True r have "io_only (s\<lparr>ss_world := w'\<rparr>) s' \<and> x \<noteq> Panic"
      by (auto simp: cmd_DATA_def Let_def dest: reply_continue_outcome ob split: if_splits)
    with r show ?thesis by auto
  next
    case (Inr u)
    obtain e1 s1 where p: "reply 354 ''2.0.0'' ''End data with <CR><LF>.<CR><LF>'' (s\<lparr>ss_world := w'\<rparr>) = (e1, s1)"
      by (cases "reply 354 ''2.0.0'' ''End data with <CR><LF>.<CR><LF>'' (s\<lparr>ss_world := w'\<rparr>)")
    have io: "io_only (s\<lparr>ss_world := w'\<rparr>) s1" using reply_io [OF p] .
    show ?thesis
    proof (cases e1)
      case (Some e)
      with assms True r Inr p have "s' = s1 \<and> x = Return (Some e)" by (auto simp: cmd_DATA_def)
      with io r show ?thesis by auto
    next
      case None
      obtain e2 s2 where d: "receiveData o' be s1 = (e2, s2)" by (cases "receiveData o' be s1")
      with assms True r Inr p None have "s' = s2 \<and> x = (case e2 of None \<Rightarrow> Continue | Some e \<Rightarrow> Return (Some e))"
        by (auto simp: cmd_DATA_def split: option.splits)
      with True io r Inr d show ?thesis by (auto split: option.splits)
    qed
  qed
qed

lemma cmd_other_effect:
  assumes "cmd_other verb s = (x, s')"
  shows "x \<noteq> Panic \<and> (io_only s s' \<or> io_only (resetTransaction s) s')"
proof -
  have q: "io_only t s'" "x \<noteq> Panic" if "reply_continue c b d t = (x, s')" for c b d t
    using that reply_continue_io reply_continue_outcome by blast+
  have r: "io_only s s' \<and> x \<noteq> Panic" if "(case reply c b d s of (e, s') \<Rightarrow> (Return e, s')) = (x, s')" for c b d
    using that by (auto dest: reply_io split: prod.splits)
  consider "verb = ''RSET''" | "verb = ''NOOP''" | "verb = ''QUIT''" | "verb = ''HELO'' \<or> verb = ''EHLO''"
    | "verb = ''VRFY''"
    | "verb \<noteq> ''RSET''" "verb \<noteq> ''NOOP''" "verb \<noteq> ''QUIT''" "verb \<noteq> ''HELO''" "verb \<noteq> ''EHLO''" "verb \<noteq> ''VRFY''" by satx
  then show ?thesis
  proof cases
    case 1
    with assms have "reply_continue 250 ''2.0.0'' ''Reset state'' (resetTransaction s) = (x, s')" by (simp add: cmd_other_def)
    with q show ?thesis by blast
  next
    case 2
    with assms have "reply_continue 250 ''2.0.0'' ''OK'' s = (x, s')" by (simp add: cmd_other_def)
    with q show ?thesis by blast
  next
    case 3
    with assms have "(case reply 221 ''2.0.0'' ''Bye'' s of (e, s') \<Rightarrow> (Return e, s')) = (x, s')" by (simp add: cmd_other_def)
    with r show ?thesis by blast
  next
    case 4
    with assms have "reply_continue 500 ''5.5.1'' ''Use LHLO for LMTP'' s = (x, s')" by (auto simp: cmd_other_def)
    with q show ?thesis by blast
  next
    case 5
    with assms have "reply_continue 252 ''2.5.2'' ''Cannot verify user'' s = (x, s')" by (simp add: cmd_other_def)
    with q show ?thesis by blast
  next
    case 6
    with assms have "reply_continue 500 ''5.5.1'' ''Command unrecognized'' s = (x, s')" by (simp add: cmd_other_def)
    with q show ?thesis by blast
  qed
qed

lemma session_command_cases:
  assumes "session_command o' be line s = (x, s')"
  obtains (Lhlo) a where "cmd_LHLO o' a s = (x, s')"
    | (Mail) a where "cmd_MAIL o' a s = (x, s')"
    | (Rcpt) a where "cmd_RCPT o' be a s = (x, s')"
    | (Data) a where "cmd_DATA o' be a s = (x, s')"
    | (Other) v where "cmd_other v s = (x, s')"
proof -
  obtain verb a where sp: "splitCommand line = (verb, a)" by (cases "splitCommand line")
  show thesis
    using assms sp that unfolding session_command_def by (simp split: if_split_asm)
qed

lemma session_command_le:
  assumes "session_command o' be line s = (x, s')"
  shows "length (ss_in s') \<le> length (ss_in s)"
  using assms
proof (cases rule: session_command_cases)
  case (Lhlo a)
  from cmd_LHLO_effect [OF this] show ?thesis by (auto dest!: io_only_fields(1))
next
  case (Mail a)
  from cmd_MAIL_effect [OF this] show ?thesis by (auto dest!: io_only_fields(1))
next
  case (Rcpt a)
  from cmd_RCPT_effect [OF this] show ?thesis by (auto simp: add_recipient_def dest!: io_only_fields(1))
next
  case (Data a)
  from cmd_DATA_effect [OF this] show ?thesis by (auto dest!: io_only_fields(1) receiveData_le)
next
  case (Other v)
  from cmd_other_effect [OF this] show ?thesis by (auto dest!: io_only_fields(1))
qed

section \<open>The session loop\<close>

lemma reply_continue_in: "reply_continue c e t s = (x, s') \<Longrightarrow> ss_in s' = ss_in s"
  by (drule reply_continue_io) (rule io_only_fields(1))

lemma session_step_shrinks:
  assumes "session_step o' be s = (Continue, s')"
  shows "length (ss_in s') < length (ss_in s)"
proof -
  obtain r rest where rl: "readLimitedLine (nat (op_maxCommand o')) (ss_net s) (ss_in s) = (r, rest)"
    by (cases "readLimitedLine (nat (op_maxCommand o')) (ss_net s) (ss_in s)")
  show ?thesis
  proof (cases r)
    case (Inl e)
    with assms rl have "e = ErrCommandLineTooLong" and "ss_in s' = rest"
      by (auto simp: session_step_def Let_def dest: reply_continue_in split: option.splits if_splits)
    with rl Inl show ?thesis using readLimitedLine_shrinks by (metis net_err_not_too_long(2) sum.inject(1))
  next
    case (Inr line)
    with assms rl have "length (ss_in s') \<le> length rest"
      by (auto simp: session_step_def Let_def dest: session_command_le split: option.splits)
    moreover have "length rest < length (ss_in s)" using readLimitedLine_shrinks [OF rl] Inr by simp
    ultimately show ?thesis by simp
  qed
qed

function session_loop :: "options \<Rightarrow> 'w backend \<Rightarrow> 'w session \<Rightarrow> outcome \<times> 'w session" where
  "session_loop o' be s =
     (case session_step o' be s of
        (Continue, s') \<Rightarrow> session_loop o' be s'
      | (out, s') \<Rightarrow> (out, s'))"
  by pat_completeness auto
termination
  by (relation "measure (\<lambda>(o', be, s). length (ss_in s))") (auto dest: session_step_shrinks [OF sym])

declare session_loop.simps [simp del]

definition session_run :: "options \<Rightarrow> 'w backend \<Rightarrow> 'w session \<Rightarrow> outcome \<times> 'w session" where
  "session_run o' be s =
     (case reply 220 ''2.0.0'' (op_hostname o' @ '' MailWisp LMTP ready'') s of
        (Some e, s') \<Rightarrow> (Return (Some e), s')
      | (None, s') \<Rightarrow> session_loop o' be s')"

text \<open>The session that \<^verbatim>\<open>serveConnection\<close> builds for an accepted connection.\<close>

definition new_session :: "bytes \<Rightarrow> net_error \<Rightarrow> (nat \<Rightarrow> go_error option) \<Rightarrow> ctx \<Rightarrow> bool \<Rightarrow> 'w \<Rightarrow> 'w session" where
  "new_session inp net wfail ctx metrics w =
     \<lparr>ss_in = inp, ss_net = net, ss_out = [], ss_ops = 0, ss_fail = wfail, ss_ctx = ctx,
      ss_metrics = (if metrics then Some [] else None), ss_world = w, ss_greeted = False,
      ss_mailSet = False, ss_sender = [], ss_declaredSize = 0, ss_recipients = [],
      ss_recipientSet = None\<rparr>"

section \<open>Envelope addresses\<close>

lemma address_char_ascii: "address_char_ok c \<Longrightarrow> is_ascii c"
  by (simp add: address_char_ok_def is_ascii_def)

lemma canonicalAddress_ok:
  assumes "canonicalAddress a allowEmpty = Inr b" and "a \<noteq> []"
  shows "b = map lower_char a" "3 \<le> length a" "length a \<le> 320" "list_all address_char_ok a"
    "length (filter (\<lambda>c. c = CHR ''@'') a) = 1"
proof -
  have ok: "list_all address_char_ok a \<and> 3 \<le> length a \<and> length a \<le> 320 \<and>
      length (filter (\<lambda>c. c = CHR ''@'') a) = 1 \<and> b = to_lower a"
    using assms by (auto simp: canonicalAddress_def not_less split: if_splits prod.splits)
  then have "list_all address_char_ok a" by simp
  then have "list_all is_ascii a" by (rule list.pred_mono_strong) (rule address_char_ascii)
  with ok show "b = map lower_char a" "3 \<le> length a" "length a \<le> 320" "list_all address_char_ok a"
    "length (filter (\<lambda>c. c = CHR ''@'') a) = 1" by (simp_all add: to_lower_ascii)
qed

lemma canonicalAddress_length: "canonicalAddress a allowEmpty = Inr b \<Longrightarrow> length b \<le> 320"
proof (cases "a = []")
  case True
  assume "canonicalAddress a allowEmpty = Inr b"
  with True show ?thesis by (auto simp: canonicalAddress_def split: if_splits)
next
  case False
  assume "canonicalAddress a allowEmpty = Inr b"
  from canonicalAddress_ok [OF this False] show ?thesis by simp
qed

lemma parseMailFrom_ok:
  assumes "parseMailFrom arg = Inr (sender, n)"
  shows "length sender \<le> 320 \<and> 0 \<le> n"
proof -
  have params: "mail_parameters ps d hs hb = Inr n \<Longrightarrow> 0 \<le> d \<Longrightarrow> 0 \<le> n" for ps d hs hb
  proof (induction ps arbitrary: d hs hb)
    case (Cons p ps)
    obtain name v hv where c: "cut p CHR ''='' = (name, v, hv)" by (cases "cut p CHR ''=''") auto
    show ?case
    proof (cases "to_upper name = ''SIZE''")
      case True
      with Cons.prems c obtain k where "mail_parameters ps k True hb = Inr n" "0 \<le> k"
        by (simp split: if_split_asm option.split_asm)
      with Cons.IH show ?thesis by blast
    next
      case False
      with Cons.prems(1) c have "mail_parameters ps d hs True = Inr n"
        by (simp split: if_split_asm)
      with Cons.IH Cons.prems(2) show ?thesis by blast
    qed
  qed simp
  obtain ps where p: "parsePath arg ''FROM:'' True = Inr (sender, ps)" and "mail_parameters ps 0 False False = Inr n"
    using assms by (auto simp: parseMailFrom_def split: sum.splits)
  with params have "0 \<le> n" by blast
  moreover have "length sender \<le> 320"
    using p by (auto simp: parsePath_def Let_def dest: canonicalAddress_length split: if_splits option.splits sum.splits)
  ultimately show ?thesis by simp
qed

section \<open>The session invariant\<close>

definition session_inv :: "options \<Rightarrow> 'w session \<Rightarrow> bool" where
  "session_inv o' s \<longleftrightarrow>
     (ss_mailSet s \<longrightarrow> ss_greeted s) \<and>
     ss_recipientSet s = (if ss_mailSet s then Some (set (map rc_inbox (ss_recipients s))) else None) \<and>
     (ss_recipients s \<noteq> [] \<longrightarrow> ss_mailSet s) \<and>
     distinct (map rc_inbox (ss_recipients s)) \<and>
     int (length (ss_recipients s)) \<le> op_maxRecipients o' \<and>
     length (ss_sender s) \<le> 320 \<and> 0 \<le> ss_declaredSize s \<and> ss_declaredSize s \<le> op_maxMessage o'"

definition options_ok :: "options \<Rightarrow> bool" where
  "options_ok o' \<longleftrightarrow> trim_space (op_hostname o') \<noteq> [] \<and> 0 < op_maxMessage o' \<and> 0 < op_maxCommand o' \<and>
     0 < op_maxDataLine o' \<and> 0 < op_maxRecipients o' \<and> 0 < op_maxSessions o' \<and>
     0 < op_deliveryTimeout o' \<and> op_deliveryTimeout o' \<le> op_sessionTimeout o'"

lemma session_inv_io: "session_inv o' s \<Longrightarrow> io_only s s' \<Longrightarrow> session_inv o' s'"
  by (simp add: session_inv_def io_only_fields)

lemma session_inv_world: "session_inv o' (s\<lparr>ss_world := w\<rparr>) = session_inv o' s"
  by (simp add: session_inv_def)

lemma session_inv_reset: "options_ok o' \<Longrightarrow> session_inv o' (resetTransaction s)"
  by (simp add: session_inv_def options_ok_def)

lemma session_inv_add:
  assumes "session_inv o' s" "ss_mailSet s" "ss_recipientSet s = Some R" "inboxID \<notin> R"
    "int (length (ss_recipients s)) < op_maxRecipients o'"
  shows "session_inv o' (add_recipient addr inboxID R s)"
  using assms by (simp add: session_inv_def add_recipient_def)

text \<open>The run of \<^verbatim>\<open>receiveData\<close> with its intermediate values.\<close>

abbreviation data_reader_of :: "options \<Rightarrow> 'w session \<Rightarrow> data_reader" where
  "data_reader_of o' s \<equiv>
     newDataReader (ss_in s) (ss_net s) (op_maxMessage o') (nat (op_maxDataLine o'))"

abbreviation reads_of :: "'w backend \<Rightarrow> 'w session \<Rightarrow> nat list" where
  "reads_of be s \<equiv> be_reads be (ss_world s) (ss_sender s) (map rc_inbox (ss_recipients s))"

lemma receiveData_cases:
  assumes "receiveData o' be s = (x, s')"
  obtains (Lost) content readErr d1 received w' drainErr d2 where
      "data_reads (reads_of be s) (data_reader_of o' s) = (content, readErr, d1)"
      "be_receive be (ss_world s) (ss_sender s) (map rc_inbox (ss_recipients s)) (content, readErr) = (received, w')"
      "data_drain d1 = (Inl drainErr, d2)"
      "x = Some drainErr" "s' = s\<lparr>ss_in := dr_input d2, ss_world := w'\<rparr>"
    | (Replied) content readErr d1 received w' d2 s1 s2 code enhanced msg where
      "data_reads (reads_of be s) (data_reader_of o' s) = (content, readErr, d1)"
      "be_receive be (ss_world s) (ss_sender s) (map rc_inbox (ss_recipients s)) (content, readErr) = (received, w')"
      "data_drain d1 = (Inr (), d2)"
      "classifyDeliveryError (err_of received) = (code, enhanced, msg)"
      "s1 = observe_delivery (err_of received) (s\<lparr>ss_in := dr_input d2, ss_world := w'\<rparr>)"
      "reply_each code enhanced msg (ss_recipients s) s1 = (x, s2)"
      "s' = (case x of None \<Rightarrow> resetTransaction s2 | Some e \<Rightarrow> s2)"
proof -
  let ?ids = "map rc_inbox (ss_recipients s)"
  obtain c re d1 where d1: "data_reads (reads_of be s) (data_reader_of o' s) = (c, re, d1)"
    by (cases "data_reads (reads_of be s) (data_reader_of o' s)") auto
  obtain rv w' where rv: "be_receive be (ss_world s) (ss_sender s) ?ids (c, re) = (rv, w')"
    by (cases "be_receive be (ss_world s) (ss_sender s) ?ids (c, re)")
  obtain y d2 where d2: "data_drain d1 = (y, d2)" by (cases "data_drain d1")
  then have d2': "(if \<not> dr_ended d1 then data_drain d1 else (Inr (), d1)) = (y, d2)"
    by (auto simp: data_drain_def)
  show thesis
  proof (cases y)
    case (Inl e)
    then show thesis using assms d1 rv d2' d2 Lost [OF d1 rv, of e d2]
      by (simp add: receiveData_def Let_def split del: if_split)
  next
    case (Inr u)
    obtain code enhanced msg where cl: "classifyDeliveryError (err_of rv) = (code, enhanced, msg)"
      by (cases "classifyDeliveryError (err_of rv)") auto
    let ?s1 = "observe_delivery (err_of rv) (s\<lparr>ss_in := dr_input d2, ss_world := w'\<rparr>)"
    have rs: "ss_recipients ?s1 = ss_recipients s"
      by (simp add: io_only_fields(10) [OF observe_delivery_io])
    obtain e s2 where ea: "reply_each code enhanced msg (ss_recipients s) ?s1 = (e, s2)"
      by (cases "reply_each code enhanced msg (ss_recipients s) ?s1")
    with assms d1 rv d2' Inr cl rs have "x = e" "s' = (case x of None \<Rightarrow> resetTransaction s2 | Some e \<Rightarrow> s2)"
      by (auto simp: receiveData_def Let_def split: option.splits split del: if_split)
    with ea d2 Inr show thesis using Replied [OF d1 rv _ cl refl] by auto
  qed
qed

lemma receiveData_inv:
  assumes "options_ok o'" "session_inv o' s" "receiveData o' be s = (x, s')"
  shows "session_inv o' s'"
  using assms(3)
proof (cases rule: receiveData_cases)
  case (Lost content readErr d1 received w' drainErr d2)
  with assms(2) show ?thesis by (simp add: session_inv_def)
next
  case (Replied content readErr d1 received w' d2 s1 s2 code enhanced msg)
  have "session_inv o' (s\<lparr>ss_in := dr_input d2, ss_world := w'\<rparr>)" using assms(2) by (simp add: session_inv_def)
  with Replied(5) have "session_inv o' s1" using session_inv_io observe_delivery_io by blast
  with Replied(6) have "session_inv o' s2" using session_inv_io reply_each_io by blast
  with Replied(7) assms(1) show ?thesis by (auto simp: session_inv_reset split: option.splits)
qed

lemma session_command_inv:
  assumes ok: "options_ok o'" and inv: "session_inv o' s" and c: "session_command o' be line s = (x, s')"
  shows "session_inv o' s' \<and> x \<noteq> Panic"
  using c
proof (cases rule: session_command_cases)
  case (Lhlo a)
  have "session_inv o' ((resetTransaction s)\<lparr>ss_greeted := True\<rparr>)"
    using session_inv_reset [OF ok, of s] by (simp add: session_inv_def)
  with cmd_LHLO_effect [OF Lhlo] inv show ?thesis using session_inv_io by blast
next
  case (Mail a)
  have m: "session_inv o' (s\<lparr>ss_sender := sender, ss_declaredSize := n, ss_mailSet := True, ss_recipientSet := Some {}\<rparr>)"
    if "ss_greeted s" "\<not> ss_mailSet s" "parseMailFrom a = Inr (sender, n)" "n \<le> op_maxMessage o'" for sender n
    using inv that parseMailFrom_ok [OF that(3)] by (auto simp: session_inv_def)
  with cmd_MAIL_effect [OF Mail] inv show ?thesis using session_inv_io by blast
next
  case (Rcpt a)
  have some: "ss_mailSet s \<Longrightarrow> ss_recipientSet s \<noteq> None" using inv by (simp add: session_inv_def)
  have add: "session_inv o' (add_recipient addr i R (s\<lparr>ss_world := w\<rparr>))"
    if "ss_mailSet s" "ss_recipientSet s = Some R" "i \<notin> R" "int (length (ss_recipients s)) < op_maxRecipients o'" for addr i R w
    using session_inv_add [of o' "s\<lparr>ss_world := w\<rparr>"] inv that by (simp add: session_inv_world)
  from cmd_RCPT_effect [OF Rcpt] show ?thesis
  proof (elim disjE conjE exE)
    assume "io_only s s'" "x \<noteq> Panic"
    then show ?thesis using inv session_inv_io by blast
  next
    fix w' assume "io_only (s\<lparr>ss_world := w'\<rparr>) s'" "x \<noteq> Panic"
    then show ?thesis using inv session_inv_io session_inv_world by metis
  next
    assume "ss_mailSet s" "ss_recipientSet s = None"
    then show ?thesis using some by simp
  next
    fix addr i R w'
    assume "ss_mailSet s" "ss_recipientSet s = Some R" "i \<notin> R" "x \<noteq> Panic"
      "int (length (ss_recipients s)) < op_maxRecipients o'"
      "io_only (add_recipient addr i R (s\<lparr>ss_world := w'\<rparr>)) s'"
    then show ?thesis using add session_inv_io by blast
  qed
next
  case (Data a)
  from cmd_DATA_effect [OF Data] show ?thesis
    using inv receiveData_inv [OF ok] session_inv_io session_inv_world by metis
next
  case (Other v)
  from cmd_other_effect [OF Other] show ?thesis using inv session_inv_io session_inv_reset [OF ok] by blast
qed

lemma session_inv_ops: "session_inv o' (s\<lparr>ss_ops := n, ss_in := i\<rparr>) = session_inv o' s"
  "session_inv o' (s\<lparr>ss_ops := n\<rparr>) = session_inv o' s"
  by (simp_all add: session_inv_def)

lemma session_step_inv:
  assumes ok: "options_ok o'" and inv: "session_inv o' s" and c: "session_step o' be s = (x, s')"
  shows "session_inv o' s' \<and> x \<noteq> Panic"
proof -
  have q: "session_inv o' s' \<and> x \<noteq> Panic"
    if "reply_continue a b d (s\<lparr>ss_ops := n, ss_in := i\<rparr>) = (x, s')" for a b d n i
    using session_inv_io [OF _ reply_continue_io [OF that]] reply_continue_outcome [OF that] inv
    by (simp add: session_inv_ops)
  have m: "session_inv o' s' \<and> x \<noteq> Panic"
    if "session_command o' be line (s\<lparr>ss_ops := n, ss_in := i\<rparr>) = (x, s')" for line n i
    using session_command_inv [OF ok _ that] inv by (simp add: session_inv_ops)
  show ?thesis using c inv
    by (auto simp: session_step_def Let_def session_inv_ops q m
        split: option.split_asm prod.split_asm sum.split_asm if_split_asm dest: q m)
qed

lemma session_loop_inv:
  "options_ok o' \<Longrightarrow> session_inv o' s \<Longrightarrow> session_loop o' be s = (x, s') \<Longrightarrow>
     session_inv o' s' \<and> x \<noteq> Panic \<and> x \<noteq> Continue"
proof (induction o' be s rule: session_loop.induct)
  case (1 o' be s)
  obtain y t where st: "session_step o' be s = (y, t)" by (cases "session_step o' be s")
  note inv = session_step_inv [OF "1.prems"(1,2) st]
  show ?case
  proof (cases y)
    case Continue
    with "1.prems"(3) st have "session_loop o' be t = (x, s')" by (subst (asm) session_loop.simps) simp
    with "1.IH" [OF st [symmetric]] Continue inv "1.prems"(1) show ?thesis by simp
  next
    case (Return e)
    with "1.prems"(3) st inv show ?thesis by (subst (asm) session_loop.simps) auto
  next
    case Panic
    with inv show ?thesis by simp
  qed
qed

section \<open>Sessions over a world with an invariant\<close>

definition request_ok :: "options \<Rightarrow> string \<Rightarrow> string list \<Rightarrow> bool" where
  "request_ok o' sender ids \<longleftrightarrow>
     length sender \<le> 320 \<and> ids \<noteq> [] \<and> distinct ids \<and> int (length ids) \<le> op_maxRecipients o'"

lemma session_request_ok:
  "session_inv o' s \<Longrightarrow> ss_recipients s \<noteq> [] \<Longrightarrow> request_ok o' (ss_sender s) (map rc_inbox (ss_recipients s))"
  by (simp add: session_inv_def request_ok_def)

text \<open>
  What a session needs of the services behind it: an invariant of their world that the resolver, the
  capacity check and the receiver keep, the receiver only for requests a session can make.
\<close>

locale lmtp_world =
  fixes lopt :: options and be :: "'w backend" and good :: "'w \<Rightarrow> bool"
  assumes resolve_keeps: "good w \<Longrightarrow> be_resolve be w addr n = (r, w') \<Longrightarrow> good w'"
    and capacity_keeps: "good w \<Longrightarrow> be_capacity be w = (u, w') \<Longrightarrow> good w'"
    and receive_keeps: "good w \<Longrightarrow> request_ok lopt sender ids \<Longrightarrow>
          be_receive be w sender ids d = (u, w') \<Longrightarrow> good w'"
begin

lemma receiveData_keeps:
  assumes "session_inv lopt s" "ss_recipients s \<noteq> []" "good (ss_world s)" "receiveData lopt be s = (x, s')"
  shows "good (ss_world s')"
  using assms(4)
proof (cases rule: receiveData_cases)
  case (Lost content readErr d1 received w' drainErr d2)
  with receive_keeps [OF assms(3) session_request_ok [OF assms(1,2)]] show ?thesis by simp
next
  case (Replied content readErr d1 received w' d2 s1 s2 code enhanced msg)
  have "good w'" using receive_keeps [OF assms(3) session_request_ok [OF assms(1,2)] Replied(2)] .
  moreover have "ss_world s2 = w'"
    using io_only_fields(5) [OF reply_each_io [OF Replied(6)]] Replied(5) by (simp add: io_only_fields(5) [OF observe_delivery_io])
  ultimately show ?thesis using Replied(7) by (auto split: option.splits)
qed

lemma session_command_keeps:
  assumes inv: "session_inv lopt s" and good: "good (ss_world s)" and c: "session_command lopt be line s = (x, s')"
  shows "good (ss_world s')"
  using c
proof (cases rule: session_command_cases)
  case (Lhlo a)
  from cmd_LHLO_effect [OF Lhlo] good show ?thesis by (auto dest!: io_only_fields(5))
next
  case (Mail a)
  from cmd_MAIL_effect [OF Mail] good show ?thesis by (auto dest!: io_only_fields(5))
next
  case (Rcpt a)
  from cmd_RCPT_effect [OF Rcpt] good show ?thesis
    by (auto simp: add_recipient_def dest!: io_only_fields(5) resolve_keeps [OF good])
next
  case (Data a)
  from cmd_DATA_effect [OF Data] show ?thesis
  proof (elim conjE disjE exE)
    assume "io_only s s'"
    with good show ?thesis by (simp add: io_only_fields(5))
  next
    fix r w' assume "be_capacity be (ss_world s) = (r, w')" "io_only (s\<lparr>ss_world := w'\<rparr>) s'"
    then show ?thesis using capacity_keeps [OF good] io_only_fields(5) by fastforce
  next
    fix r w' e s1
    assume cap: "be_capacity be (ss_world s) = (r, w')" and rs: "ss_recipients s \<noteq> []"
      and io: "io_only (s\<lparr>ss_world := w'\<rparr>) s1" and rd: "receiveData lopt be s1 = (e, s')"
    have "session_inv lopt s1" using session_inv_io [OF _ io] inv session_inv_world by metis
    moreover have "ss_recipients s1 \<noteq> []" "ss_world s1 = w'" using rs io_only_fields [OF io] by simp_all
    ultimately show ?thesis using receiveData_keeps [OF _ _ _ rd] capacity_keeps [OF good cap] by simp
  qed
next
  case (Other v)
  from cmd_other_effect [OF Other] good show ?thesis by (auto dest!: io_only_fields(5))
qed

lemma session_step_keeps:
  assumes inv: "session_inv lopt s" and good: "good (ss_world s)" and c: "session_step lopt be s = (x, s')"
  shows "good (ss_world s')"
proof -
  have q: "good (ss_world s')" if "reply_continue a b d (s\<lparr>ss_ops := n, ss_in := i\<rparr>) = (x, s')" for a b d n i
    using io_only_fields(5) [OF reply_continue_io [OF that]] good by simp
  have m: "good (ss_world s')" if "session_command lopt be line (s\<lparr>ss_ops := n, ss_in := i\<rparr>) = (x, s')" for line n i
    using session_command_keeps [OF _ _ that] inv good by (simp add: session_inv_ops)
  show ?thesis using c good
    by (auto simp: session_step_def Let_def split: option.split_asm prod.split_asm sum.split_asm if_split_asm dest: q m)
qed

lemma session_loop_keeps:
  assumes ok: "options_ok lopt"
  shows "session_inv lopt s \<Longrightarrow> good (ss_world s) \<Longrightarrow> session_loop lopt be s = (x, s') \<Longrightarrow> good (ss_world s')"
proof (induction "length (ss_in s)" arbitrary: s rule: less_induct)
  case less
  obtain y t where st: "session_step lopt be s = (y, t)" by (cases "session_step lopt be s")
  note inv = session_step_inv [OF ok less.prems(1) st]
  note gd = session_step_keeps [OF less.prems(1,2) st]
  show ?case
  proof (cases y)
    case Continue
    with less.prems(3) st have "session_loop lopt be t = (x, s')" by (subst (asm) session_loop.simps) simp
    then show ?thesis using less.hyps session_step_shrinks st Continue inv gd by blast
  qed (use less.prems(3) st gd in \<open>subst (asm) session_loop.simps, simp\<close>)+
qed

lemma session_run_keeps:
  assumes ok: "options_ok lopt" and "good w" and "session_run lopt be (new_session inp net wfail ctx metrics w) = (x, s')"
  shows "good (ss_world s')"
proof -
  let ?s = "new_session inp net wfail ctx metrics w"
  obtain e s1 where r: "reply 220 ''2.0.0'' (op_hostname lopt @ '' MailWisp LMTP ready'') ?s = (e, s1)"
    by (cases "reply 220 ''2.0.0'' (op_hostname lopt @ '' MailWisp LMTP ready'') ?s")
  have io: "io_only ?s s1" by (rule reply_io [OF r])
  have "session_inv lopt ?s" using ok by (simp add: session_inv_def new_session_def options_ok_def)
  then have "session_inv lopt s1" using session_inv_io io by blast
  moreover have "ss_world s1 = w" using io_only_fields(5) [OF io] by (simp add: new_session_def)
  ultimately show ?thesis using session_loop_keeps [OF ok] assms(2,3) r
    by (auto simp: session_run_def split: option.splits)
qed

end

section \<open>Properties of sessions\<close>

lemma reply_each_out:
  "reply_each code enhanced msg rs s = (None, s') \<Longrightarrow>
     ss_out s' = ss_out s @ map (\<lambda>r. format_int code @ '' '' @ enhanced @ '' '' @ (rc_address r @ '' '' @ msg) @ crlf) rs"
proof (induction rs arbitrary: s)
  case (Cons r rs)
  obtain e s1 where r: "reply code enhanced (rc_address r @ '' '' @ msg) s = (e, s1)"
    by (cases "reply code enhanced (rc_address r @ '' '' @ msg) s")
  with Cons.prems have e: "e = None" and rest: "reply_each code enhanced msg rs s1 = (None, s')"
    by (auto split: option.splits)
  from r e have "ss_out s1 = ss_out s @ [format_int code @ '' '' @ enhanced @ '' '' @ (rc_address r @ '' '' @ msg) @ crlf]"
    by (auto simp: reply_def split: option.splits)
  with Cons.IH [OF rest] show ?case by simp
qed simp

lemma observe_delivery_out [simp]: "ss_out (observe_delivery e s) = ss_out s"
  by (simp add: observe_delivery_def observe_def Let_def)

text \<open>
  C16. A session never panics (in particular it never writes to a nil recipient set) and always
  terminates with a result, whatever the client sends, whatever the resolver and the receiver answer
  and whichever writes fail. At the end the envelope still satisfies the session invariant: recipients
  only inside a MAIL transaction after LHLO, pairwise different Inboxes, at most \<^verbatim>\<open>MaxRecipients\<close> of
  them, a sender of at most 320 bytes, and a declared size within the message limit.
\<close>

theorem session_run_safe:
  assumes "options_ok o'"
  shows "\<exists>e s'. session_run o' be (new_session inp net wfail ctx metrics w) = (Return e, s') \<and> session_inv o' s'"
proof -
  let ?s = "new_session inp net wfail ctx metrics w"
  obtain e s1 where r: "reply 220 ''2.0.0'' (op_hostname o' @ '' MailWisp LMTP ready'') ?s = (e, s1)"
    by (cases "reply 220 ''2.0.0'' (op_hostname o' @ '' MailWisp LMTP ready'') ?s")
  have "session_inv o' ?s" using assms by (simp add: session_inv_def new_session_def options_ok_def)
  then have inv: "session_inv o' s1" using session_inv_io reply_io [OF r] by blast
  obtain x s' where l: "session_loop o' be s1 = (x, s')" by (cases "session_loop o' be s1")
  with session_loop_inv [OF assms inv l] inv r show ?thesis
    by (cases x; cases e) (auto simp: session_run_def)
qed

lemma receiveData_replies:
  assumes "receiveData o' be s = (None, s')"
  shows "\<exists>content readErr d1 received code enhanced msg.
     data_reads (reads_of be s) (data_reader_of o' s) = (content, readErr, d1) \<and>
     be_receive be (ss_world s) (ss_sender s) (map rc_inbox (ss_recipients s)) (content, readErr) = (received, ss_world s') \<and>
     classifyDeliveryError (err_of received) = (code, enhanced, msg) \<and>
     (code = 250 \<longleftrightarrow> received = Inr ()) \<and>
     ss_out s' = ss_out s @ map (\<lambda>r. format_int code @ '' '' @ enhanced @ '' '' @ (rc_address r @ '' '' @ msg) @ crlf) (ss_recipients s) \<and>
     \<not> ss_mailSet s' \<and> ss_recipients s' = []"
  using assms
proof (cases rule: receiveData_cases)
  case (Replied content readErr d1 received w' d2 s1 s2 code enhanced msg)
  have w: "ss_world s' = w'"
    using io_only_fields(5) [OF reply_each_io [OF Replied(6)]] Replied(5,7)
    by (simp add: io_only_fields(5) [OF observe_delivery_io])
  have c: "code = 250 \<longleftrightarrow> received = Inr ()"
    using Replied(4) by (cases received) (auto simp: classifyDeliveryError_def split: if_splits)
  have "ss_out s' = ss_out s @ map (\<lambda>r. format_int code @ '' '' @ enhanced @ '' '' @ (rc_address r @ '' '' @ msg) @ crlf) (ss_recipients s)"
    using reply_each_out [OF Replied(6)] Replied(5,7) by simp
  with Replied(1,2,4,7) w c show ?thesis by auto
qed simp

text \<open>
  DATA answers with exactly one reply per accepted recipient, in the order of the RCPT commands,
  all with the code the delivery result is classified to, and then the transaction is reset. The code
  is 250 exactly when the receiver reported success for exactly the content the DATA reader delivered,
  so a client is never told that a message was delivered which was not.
\<close>

theorem data_replies:
  assumes "receiveData o' be s = (None, s')"
  shows "\<exists>content readErr d1 received code enhanced msg.
     data_reads (reads_of be s) (data_reader_of o' s) = (content, readErr, d1) \<and>
     be_receive be (ss_world s) (ss_sender s) (map rc_inbox (ss_recipients s)) (content, readErr) = (received, ss_world s') \<and>
     classifyDeliveryError (err_of received) = (code, enhanced, msg) \<and>
     (code = 250 \<longleftrightarrow> received = Inr ()) \<and>
     ss_out s' = ss_out s @ map (\<lambda>r. format_int code @ '' '' @ enhanced @ '' '' @ (rc_address r @ '' '' @ msg) @ crlf) (ss_recipients s) \<and>
     \<not> ss_mailSet s' \<and> ss_recipients s' = []"
  using assms by (rule receiveData_replies)

text \<open>
  When the client sends a terminated DATA section, the session resumes reading commands right
  behind its terminating dot line, whatever the receiver read of it and whether it accepted the
  message: no line of a message is ever executed as a command.
\<close>

theorem session_data_in_sync:
  assumes "options_ok o'" and "skip_dot (ss_in s) = Some rest" and "receiveData o' be s = (x, s')"
  shows "ss_in s' = rest"
proof -
  have sync: "reader_sync (data_reader_of o' s) rest"
    using assms(1,2) by (simp add: reader_sync_def newDataReader_def options_ok_def Suc_le_eq)
  have drain: "dr_input d2 = rest \<and> y = Inr ()"
    if "data_reads (reads_of be s) (data_reader_of o' s) = (content, readErr, d1)" "data_drain d1 = (y, d2)"
    for content readErr d1 y d2
    using data_drain_sync [OF data_reads_sync [OF sync that(1)]] that(2) by auto
  from assms(3) show ?thesis
  proof (cases rule: receiveData_cases)
    case (Lost content readErr d1 received w' drainErr d2)
    with drain [OF Lost(1,3)] show ?thesis by simp
  next
    case (Replied content readErr d1 received w' d2 s1 s2 code enhanced msg)
    have "ss_in s2 = dr_input d2"
      using io_only_fields(1) [OF reply_each_io [OF Replied(6)]] Replied(5)
      by (simp add: io_only_fields(1) [OF observe_delivery_io])
    with drain [OF Replied(1,3)] Replied(7) show ?thesis by (auto split: option.splits)
  qed
qed

text \<open>
  \<^verbatim>\<open>NewServer\<close> accepts exactly the options the session relies on, given its three
  collaborators; the default options pass for every host name that is not blank.
\<close>

theorem NewServer_accepts:
  "(NewServer o' True True True = Inr o' \<longleftrightarrow> options_ok o') \<and>
   (options_ok (DefaultOptions h) \<longleftrightarrow> trim_space h \<noteq> [])"
  by (auto simp: NewServer_def options_ok_def DefaultOptions_def second_def)

section \<open>The syntax of MAIL and RCPT\<close>

lemma digit_plain: "is_digit c \<Longrightarrow> plain_char c"
  by (auto simp: is_digit_def in_range_def plain_char_def is_ascii_def ascii_space_def)

lemma format_int_plain: "0 \<le> n \<Longrightarrow> list_all plain_char (format_int n) \<and> format_int n \<noteq> []"
  using nat_digits_are_digits [of "nat n"] by (auto simp: format_int_def list_all_iff intro: digit_plain)

lemma canonicalAddress_chars: "canonicalAddress a e = Inr b \<Longrightarrow> list_all address_char_ok a"
  using canonicalAddress_ok(4) by (cases "a = []") auto

lemma address_char_gt: "list_all address_char_ok a \<Longrightarrow> CHR ''>'' \<notin> set a"
  by (auto simp: list_all_iff address_char_ok_def)

lemma parsePath_spec:
  assumes "canonicalAddress a allowEmpty = Inr b" and "equal_fold_ascii p prefix" "length p = length prefix"
    and "rest = [] \<or> plain_char (last rest)"
  shows "parsePath (p @ ''<'' @ a @ ''>'' @ rest) prefix allowEmpty = Inr (b, Wisp_Prelude.fields (trim_space rest))"
proof -
  let ?r = "''<'' @ a @ ''>'' @ rest"
  have hd: "plain_char (hd ?r) \<and> plain_char (last ?r)"
    using assms(4) by (auto simp: plain_char_def is_ascii_def ascii_space_def)
  then have t: "trim_space ?r = ?r" by (intro trim_space_plain) simp
  have "CHR ''>'' \<notin> set (CHR ''<'' # a)"
    using address_char_gt [OF canonicalAddress_chars [OF assms(1)]] by simp
  from index_byte_append [OF this, of rest] have i: "index_byte ?r CHR ''>'' = Some (Suc (length a))" by simp
  have "take (length prefix) (p @ ?r) = p" "drop (length prefix) (p @ ?r) = ?r" using assms(3) by simp_all
  with assms(1,2,3) t i show ?thesis
    by (simp add: parsePath_def Let_def)
qed

lemma size_parameter:
  assumes "0 \<le> n" "n < 2 ^ 63"
  shows "mail_parameters [''SIZE='' @ format_int n] 0 False False = Inr n"
proof -
  have "cut (''SIZE'' @ CHR ''='' # format_int n) CHR ''='' = (''SIZE'', format_int n, True)"
    by (rule cut_found) simp
  moreover have "to_upper ''SIZE'' = ''SIZE''" by code_simp
  ultimately show ?thesis using parse_format_nat [OF assms] assms by simp
qed

lemma splitCommand_spec:
  assumes "list_all plain_char verb" "verb \<noteq> []" "arg \<noteq> []" "plain_char (hd arg)" "plain_char (last arg)"
  shows "splitCommand (verb @ CHR '' '' # arg) = (to_upper verb, arg)"
proof -
  have "CHR '' '' \<notin> set verb" using assms(1) by (auto simp: list_all_iff plain_char_def ascii_space_def)
  then have c: "cut (verb @ CHR '' '' # arg) CHR '' '' = (verb, arg, True)" by (rule cut_found)
  have "trim_space (verb @ CHR '' '' # arg) = verb @ CHR '' '' # arg"
    using assms by (intro trim_space_plain) (cases verb; auto simp: list_all_iff)
  moreover have "trim_space arg = arg" using assms by (intro trim_space_plain) simp
  ultimately show ?thesis using c assms(2) by (simp add: splitCommand_def Let_def)
qed

text \<open>
  The MAIL command a client prints for a sender and a size is read back as that sender, in lower
  case, and that size: command splitting, path syntax, address canonicalisation and the SIZE parameter
  are inverse to printing for every address the canonicalisation accepts and every size that fits
  an \<^verbatim>\<open>int64\<close>. The empty reverse path is included.
\<close>

theorem mail_command_roundtrip:
  assumes "canonicalAddress a True = Inr b" and "0 \<le> n" and "n < 2 ^ 63"
  shows "splitCommand (''MAIL FROM:<'' @ a @ ''> SIZE='' @ format_int n) =
           (''MAIL'', ''FROM:<'' @ a @ ''> SIZE='' @ format_int n) \<and>
         parseMailFrom (''FROM:<'' @ a @ ''> SIZE='' @ format_int n) = Inr (b, n)"
proof -
  have f: "list_all plain_char (format_int n)" "format_int n \<noteq> []" using format_int_plain [OF assms(2)] by auto
  then have l: "plain_char (last (format_int n))" by (auto simp: list_all_iff)
  have sz: "list_all plain_char (''SIZE='' @ format_int n)"
    using f by (simp add: plain_char_def is_ascii_def ascii_space_def)
  have t: "trim_space (CHR '' '' # ''SIZE='' @ format_int n) = ''SIZE='' @ format_int n"
    using l f by (intro trim_space_blank) (simp add: plain_char_def is_ascii_def ascii_space_def)
  have fl: "Wisp_Prelude.fields (trim_space (CHR '' '' # ''SIZE='' @ format_int n)) = [''SIZE='' @ format_int n]"
    unfolding t by (rule fields_plain [OF sz]) simp
  have "parsePath (''FROM:'' @ ''<'' @ a @ ''>'' @ (CHR '' '' # ''SIZE='' @ format_int n)) ''FROM:'' True =
      Inr (b, [''SIZE='' @ format_int n])"
    using parsePath_spec [OF assms(1), of "''FROM:''" "''FROM:''" "CHR '' '' # ''SIZE='' @ format_int n"] l f fl
    by (simp add: equal_fold_ascii_def)
  then have "parseMailFrom (''FROM:<'' @ a @ ''> SIZE='' @ format_int n) = Inr (b, n)"
    using size_parameter [OF assms(2,3)] by (simp add: parseMailFrom_def)
  moreover have "splitCommand (''MAIL'' @ CHR '' '' # (''FROM:<'' @ a @ ''> SIZE='' @ format_int n)) =
      (to_upper ''MAIL'', ''FROM:<'' @ a @ ''> SIZE='' @ format_int n)"
    using l f by (intro splitCommand_spec) (simp_all add: plain_char_def is_ascii_def ascii_space_def)
  moreover have "to_upper ''MAIL'' = ''MAIL''" by code_simp
  ultimately show ?thesis by simp
qed

section \<open>Admission of sessions\<close>

text \<open>
  \<^verbatim>\<open>Serve\<close>: the semaphore channel holds one slot per running session; \<open>sv_accepting\<close> ends with the
  first failed \<^verbatim>\<open>Accept\<close>, after which the deferred \<^verbatim>\<open>sessions.Wait()\<close> delays the return until
  every session has ended. The step relation interleaves the accept loop with ending sessions.
\<close>

record serve_state =
  sv_active :: nat
  sv_accepting :: bool
  sv_returned :: bool
  sv_opened :: nat
  sv_closed :: nat
  sv_rejected :: nat

definition serve_init :: serve_state where
  "serve_init = \<lparr>sv_active = 0, sv_accepting = True, sv_returned = False, sv_opened = 0, sv_closed = 0, sv_rejected = 0\<rparr>"

inductive serve_step :: "options \<Rightarrow> serve_state \<Rightarrow> serve_state \<Rightarrow> bool" for o' where
  admit: "sv_accepting s \<Longrightarrow> int (sv_active s) < op_maxSessions o' \<Longrightarrow>
    serve_step o' s (s\<lparr>sv_active := Suc (sv_active s), sv_opened := Suc (sv_opened s)\<rparr>)"
| reject: "sv_accepting s \<Longrightarrow> \<not> int (sv_active s) < op_maxSessions o' \<Longrightarrow>
    serve_step o' s (s\<lparr>sv_rejected := Suc (sv_rejected s)\<rparr>)"
| session_end: "0 < sv_active s \<Longrightarrow>
    serve_step o' s (s\<lparr>sv_active := sv_active s - 1, sv_closed := Suc (sv_closed s)\<rparr>)"
| accept_fails: "sv_accepting s \<Longrightarrow> serve_step o' s (s\<lparr>sv_accepting := False\<rparr>)"
| serve_return: "\<not> sv_accepting s \<Longrightarrow> sv_active s = 0 \<Longrightarrow> \<not> sv_returned s \<Longrightarrow>
    serve_step o' s (s\<lparr>sv_returned := True\<rparr>)"

inductive_cases serve_stepE: "serve_step o' s s'"

lemma serve_invariant:
  assumes "(serve_step o')\<^sup>*\<^sup>* serve_init s" and "options_ok o'"
  shows "int (sv_active s) \<le> op_maxSessions o' \<and> sv_opened s = sv_closed s + sv_active s \<and>
    (sv_returned s \<longrightarrow> sv_active s = 0 \<and> \<not> sv_accepting s)"
  using assms(1)
proof (induction rule: rtranclp_induct)
  case base
  then show ?case using assms(2) by (simp add: serve_init_def options_ok_def)
next
  case (step s t)
  from step.hyps(2) step.IH show ?case by (cases rule: serve_stepE) auto
qed

text \<open>
  The server never runs more than \<^verbatim>\<open>MaxSessions\<close> sessions at once, it turns a connection away
  only while all slots are taken, every opened session is counted as closed or still running, and
  \<^verbatim>\<open>Serve\<close> returns only after the last session has ended.
\<close>

theorem serve_bounded:
  assumes "(serve_step o')\<^sup>*\<^sup>* serve_init s" and "options_ok o'"
  shows "int (sv_active s) \<le> op_maxSessions o' \<and> sv_opened s = sv_closed s + sv_active s \<and>
    (sv_returned s \<longrightarrow> sv_opened s = sv_closed s) \<and>
    (\<forall>t. serve_step o' s t \<longrightarrow> sv_rejected t \<noteq> sv_rejected s \<longrightarrow> int (sv_active s) = op_maxSessions o')"
proof -
  note inv = serve_invariant [OF assms]
  have "int (sv_active s) = op_maxSessions o'" if "serve_step o' s t" "sv_rejected t \<noteq> sv_rejected s" for t
    using that inv by (cases rule: serve_stepE) auto
  with inv show ?thesis by auto
qed

section \<open>Concrete sessions\<close>

lemma default_options_ok: "options_ok (DefaultOptions ''mx'')"
proof -
  have "trim_space ''mx'' = ''mx''" by (rule trim_space_plain) (simp add: plain_char_def is_ascii_def ascii_space_def)
  then show ?thesis by (simp add: options_ok_def DefaultOptions_def second_def)
qed

lemma reply_each_ok: "\<forall>n. ss_fail s n = None \<Longrightarrow> \<exists>s'. reply_each code enhanced msg rs s = (None, s')"
proof (induction rs arbitrary: s)
  case (Cons r rs)
  obtain s1 where r: "reply code enhanced (rc_address r @ '' '' @ msg) s = (None, s1)"
    using Cons.prems by (simp add: reply_def)
  have "ss_fail s1 = ss_fail s" using io_only_fields(3) [OF reply_io [OF r]] .
  with Cons r show ?case by simp
qed simp

text \<open>On a working connection a terminated DATA section is always answered.\<close>

lemma receiveData_answers:
  assumes "options_ok o'" "skip_dot (ss_in s) = Some rest" "\<forall>n. ss_fail s n = None"
  shows "\<exists>s'. receiveData o' be s = (None, s')"
proof -
  obtain x s' where r: "receiveData o' be s = (x, s')" by (cases "receiveData o' be s")
  have sync: "reader_sync (data_reader_of o' s) rest"
    using assms(1,2) by (simp add: reader_sync_def newDataReader_def options_ok_def Suc_le_eq)
  from r have "x = None"
  proof (cases rule: receiveData_cases)
    case (Lost content readErr d1 received w' drainErr d2)
    with data_drain_sync [OF data_reads_sync [OF sync Lost(1)]] show ?thesis by simp
  next
    case (Replied content readErr d1 received w' d2 s1 s2 code enhanced msg)
    have "ss_fail s1 = ss_fail s" using Replied(5) by (simp add: io_only_fields(3) [OF observe_delivery_io])
    with reply_each_ok [of s1 code enhanced msg "ss_recipients s"] assms(3) Replied(6) show ?thesis by auto
  qed
  with r show ?thesis by blast
qed

text \<open>A backend that knows one Inbox and counts the messages it accepts.\<close>

definition sample_backend :: "nat backend" where
  "sample_backend =
     \<lparr>be_resolve = (\<lambda>w addr n. (if addr = ''a@b'' then Inr ''i1'' else Inl ErrInboxNotFound, w)),
      be_capacity = (\<lambda>w. (Inr (), w)),
      be_reads = (\<lambda>w sender ids. [64, 64]),
      be_receive = (\<lambda>w sender ids (content, err). (Inr (), Suc w))\<rparr>"

definition sample_session :: "nat session" where
  "sample_session = (new_session (''a'' @ crlf @ ''.'' @ crlf @ ''NOOP'') NetEOF (\<lambda>_. None) (Ctx None) True 0)
     \<lparr>ss_greeted := True, ss_mailSet := True, ss_recipients := [\<lparr>rc_address = ''a@b'', rc_inbox = ''i1''\<rparr>],
      ss_recipientSet := Some {''i1''}\<rparr>"

lemma sample_session_in: "skip_dot (ss_in sample_session) = Some ''NOOP''" "\<forall>n. ss_fail sample_session n = None"
  using sample_wire_skip by (simp_all add: sample_session_def new_session_def)

theorem session_run_safe_witness:
  "\<exists>e s'. session_run (DefaultOptions ''mx'') sample_backend
      (new_session (''LHLO x'' @ crlf) NetEOF (\<lambda>_. None) (Ctx None) True 0) = (Return e, s') \<and>
    session_inv (DefaultOptions ''mx'') s'"
  by (rule session_run_safe) (rule default_options_ok)

theorem data_replies_witness:
  "\<exists>s' content readErr d1 received code enhanced msg.
     receiveData (DefaultOptions ''mx'') sample_backend sample_session = (None, s') \<and>
     be_receive sample_backend 0 [] [''i1''] (content, readErr) = (received, ss_world s') \<and>
     classifyDeliveryError (err_of received) = (code, enhanced, msg) \<and>
     ss_out s' = [format_int code @ '' '' @ enhanced @ '' '' @ (''a@b'' @ '' '' @ msg) @ crlf] \<and> ss_recipients s' = []"
proof -
  obtain s' where r: "receiveData (DefaultOptions ''mx'') sample_backend sample_session = (None, s')"
    using receiveData_answers [OF default_options_ok sample_session_in] by blast
  from data_replies [OF r] show ?thesis using r
    by (simp add: sample_session_def new_session_def) blast
qed

theorem session_data_in_sync_witness:
  "\<exists>x s'. receiveData (DefaultOptions ''mx'') sample_backend sample_session = (x, s') \<and> ss_in s' = ''NOOP''"
  using session_data_in_sync [OF default_options_ok sample_session_in(1), of sample_backend]
  by (metis surj_pair)

lemma sample_address: "canonicalAddress ''Bob@Example.org'' True = Inr ''bob@example.org''"
  by (simp add: canonicalAddress_def cut_def has_suffix_def address_char_ok_def to_lower_ascii is_ascii_def
      lower_char_def del: to_lower.simps) (simp add: char_of_def bit_numeral_rec bit_Suc_0_iff)

theorem mail_command_roundtrip_witness:
  "parseMailFrom (''FROM:<'' @ ''Bob@Example.org'' @ ''> SIZE='' @ format_int 2048) = Inr (''bob@example.org'', 2048)"
  using mail_command_roundtrip [OF sample_address, of 2048] by simp

theorem serve_bounded_witness:
  "int (sv_active (serve_init\<lparr>sv_active := 1, sv_opened := 1\<rparr>)) \<le> op_maxSessions (DefaultOptions ''mx'')"
proof -
  have "serve_step (DefaultOptions ''mx'') serve_init (serve_init\<lparr>sv_active := 1, sv_opened := 1\<rparr>)"
    using serve_step.admit [of serve_init "DefaultOptions ''mx''"]
    by (simp add: serve_init_def DefaultOptions_def)
  then have "(serve_step (DefaultOptions ''mx''))\<^sup>*\<^sup>* serve_init (serve_init\<lparr>sv_active := 1, sv_opened := 1\<rparr>)" by blast
  from serve_bounded [OF this default_options_ok] show ?thesis by blast
qed

end
