(* ===== verification/Mail_Model.thy ===== *)
theory Mail_Model
  imports Wisp_Prelude
begin

text \<open>
  The data of package \<^verbatim>\<open>internal/mail\<close> (\<^verbatim>\<open>model.go\<close>, \<^verbatim>\<open>limits.go\<close>): parsed messages,
  attachment metadata, warnings, and the resource limits of the parser with their
  validation.
\<close>

definition ParserRevision :: int where "ParserRevision = 1"

record address =
  addr_name :: string
  addr_address :: string

record attachment =
  att_part_path :: string
  att_file_name :: string
  att_content_type :: string
  att_disposition :: string
  att_content_id :: string
  att_size :: int

datatype warning_code =
    WarningUnknownCharset | WarningUnknownTransferEncoding | WarningMalformedContentType
  | WarningMalformedDisposition | WarningInvalidSubject | WarningInvalidAddress
  | WarningInvalidDate | WarningTextTruncated | WarningHTMLTruncated
  | WarningFilenameNormalized | WarningListTruncated

record warning =
  warn_code :: warning_code
  warn_part :: string
  warn_detail :: string

record parsed_message =
  p_subject :: string
  p_message_id :: string
  p_from :: "address list"
  p_to :: "address list"
  p_cc :: "address list"
  p_date :: "time option"
  p_text :: string
  p_html :: string
  p_attachments :: "attachment list"
  p_warnings :: "warning list"

definition empty_parsed :: parsed_message where
  "empty_parsed = \<lparr>p_subject = [], p_message_id = [], p_from = [], p_to = [], p_cc = [],
     p_date = None, p_text = [], p_html = [], p_attachments = [], p_warnings = []\<rparr>"

record limits =
  MaxRawBytes :: int
  MaxHeaderBytes :: int
  MaxTotalHeaderBytes :: int
  MaxHeaders :: int
  MaxParts :: int
  MaxDepth :: int
  MaxDecodedBytes :: int
  MaxPartBytes :: int
  MaxTextBytes :: int
  MaxHTMLBytes :: int
  MaxSubjectBytes :: int
  MaxFilenameBytes :: int
  MaxAddresses :: int
  MaxWarnings :: int

definition DefaultLimits :: limits where
  "DefaultLimits = \<lparr>
     MaxRawBytes = 25 * 2 ^ 20, MaxHeaderBytes = 64 * 2 ^ 10, MaxTotalHeaderBytes = 2 ^ 20,
     MaxHeaders = 1000, MaxParts = 100, MaxDepth = 10, MaxDecodedBytes = 32 * 2 ^ 20,
     MaxPartBytes = 25 * 2 ^ 20, MaxTextBytes = 512 * 2 ^ 10, MaxHTMLBytes = 2 ^ 20,
     MaxSubjectBytes = 998, MaxFilenameBytes = 255, MaxAddresses = 100, MaxWarnings = 100\<rparr>"

fun first_nonpositive :: "(string \<times> int) list \<Rightarrow> string option" where
  "first_nonpositive [] = None"
| "first_nonpositive ((name, v) # r) = (if v \<le> 0 then Some name else first_nonpositive r)"

definition limits_validate :: "limits \<Rightarrow> unit result" where
  "limits_validate l =
     (case first_nonpositive
        [(''MaxRawBytes'', MaxRawBytes l), (''MaxHeaderBytes'', MaxHeaderBytes l),
         (''MaxTotalHeaderBytes'', MaxTotalHeaderBytes l), (''MaxDecodedBytes'', MaxDecodedBytes l),
         (''MaxPartBytes'', MaxPartBytes l)] of
        Some name \<Rightarrow> Inl (OtherError (''mail parser '' @ name @ '' must be positive''))
      | None \<Rightarrow>
     (case first_nonpositive
        [(''MaxHeaders'', MaxHeaders l), (''MaxParts'', MaxParts l), (''MaxDepth'', MaxDepth l),
         (''MaxTextBytes'', MaxTextBytes l), (''MaxHTMLBytes'', MaxHTMLBytes l),
         (''MaxSubjectBytes'', MaxSubjectBytes l), (''MaxFilenameBytes'', MaxFilenameBytes l),
         (''MaxAddresses'', MaxAddresses l), (''MaxWarnings'', MaxWarnings l)] of
        Some name \<Rightarrow> Inl (OtherError (''mail parser '' @ name @ '' must be positive''))
      | None \<Rightarrow>
          if MaxHeaderBytes l > MaxTotalHeaderBytes l
          then Inl (OtherError ''mail parser MaxHeaderBytes must not exceed MaxTotalHeaderBytes'')
          else if MaxPartBytes l > MaxDecodedBytes l
          then Inl (OtherError ''mail parser MaxPartBytes must not exceed MaxDecodedBytes'')
          else Inr ()))"

lemma limits_validate_ok:
  "limits_validate l = Inr () \<longleftrightarrow>
     0 < MaxRawBytes l \<and> 0 < MaxHeaderBytes l \<and> 0 < MaxTotalHeaderBytes l \<and> 0 < MaxDecodedBytes l \<and>
     0 < MaxPartBytes l \<and> 0 < MaxHeaders l \<and> 0 < MaxParts l \<and> 0 < MaxDepth l \<and> 0 < MaxTextBytes l \<and>
     0 < MaxHTMLBytes l \<and> 0 < MaxSubjectBytes l \<and> 0 < MaxFilenameBytes l \<and> 0 < MaxAddresses l \<and>
     0 < MaxWarnings l \<and> MaxHeaderBytes l \<le> MaxTotalHeaderBytes l \<and> MaxPartBytes l \<le> MaxDecodedBytes l"
  by (auto simp: limits_validate_def split: if_splits option.splits)

lemma default_limits_valid: "limits_validate DefaultLimits = Inr ()"
  by (simp add: limits_validate_ok DefaultLimits_def)

end
