(* ===== verification/Db_Core.thy ===== *)
theory Db_Core
  imports Mail_Model
begin

text \<open>
  The relational state of MailWisp and the way repository code runs SQL on it.

  Tables are lists of row records with the columns of \<^verbatim>\<open>migrations/*.sql\<close> that the code
  reads or writes. A statement maps a database to rows or an SQL error and a new database.
  A transaction threads statements; a fault schedule \<open>nat \<Rightarrow> fault\<close> says which of its
  statements the driver fails, counted in program order with \<^verbatim>\<open>BeginTx\<close> as number 0. A failed
  transaction is rolled back, which is what the deferred \<^verbatim>\<open>Rollback\<close> of every repository
  method does. \<open>LostAck\<close> on the commit is the case in which PostgreSQL committed but the
  client was told of an error.
\<close>

section \<open>Rows and tables\<close>

record inbox_row =
  ib_id :: string
  ib_address :: string
  ib_status :: string
  ib_expires :: time
  ib_created :: time
  ib_updated :: time

record content_row =
  mc_key :: string
  mc_size :: int
  mc_created :: time
  mc_parse_status :: string
  mc_parse_attempts :: int
  mc_available_at :: time
  mc_lease_token :: "string option"
  mc_lease_until :: "time option"
  mc_error_code :: "string option"
  mc_updated :: time

record message_row =
  ms_id :: string
  ms_inbox :: string
  ms_content :: string
  ms_sender :: string
  ms_received :: time
  ms_seen :: "time option"

record parse_row =
  pr_key :: string
  pr_revision :: int
  pr_parsed :: parsed_message
  pr_parsed_at :: time

record capability_row =
  cp_id :: string
  cp_inbox :: string
  cp_kid :: string
  cp_digest :: bytes
  cp_scope_mask :: int
  cp_created :: time
  cp_expires :: time
  cp_last_used :: "time option"
  cp_revoked :: "time option"
  cp_rotated_from :: "string option"

record deletion_row =
  dq_key :: string
  dq_size :: int
  dq_generation :: int
  dq_enqueued :: time

record quota_row =
  qt_digest :: bytes
  qt_bucket :: int
  qt_used :: int
  qt_updated :: time

record db =
  inboxes :: "inbox_row list"
  mail_contents :: "content_row list"
  messages :: "message_row list"
  content_parses :: "parse_row list"
  capabilities :: "capability_row list"
  deletion_queue :: "deletion_row list"
  create_quotas :: "quota_row list"

definition empty_db :: db where
  "empty_db = \<lparr>inboxes = [], mail_contents = [], messages = [], content_parses = [],
     capabilities = [], deletion_queue = [], create_quotas = []\<rparr>"

section \<open>Statements, faults and transactions\<close>

datatype sql_error =
    UniqueViolation string
  | ForeignKeyViolation string
  | CheckViolation string
  | DriverError go_error

datatype fault = NoFault | Fail go_error | LostAck go_error

text \<open>
  Statements and transactions over a state \<open>'s\<close>: the tables above, or those together with
  the tables of the compatibility adapters.
\<close>

type_synonym ('s, 'a) stmt_on = "'s \<Rightarrow> sql_error + ('a \<times> 's)"
type_synonym ('s, 'a) tx_on = "(nat \<Rightarrow> fault) \<Rightarrow> nat \<times> 's \<Rightarrow> 'a result \<times> nat \<times> 's"
type_synonym 'a stmt = "(db, 'a) stmt_on"
type_synonym 'a tx = "(db, 'a) tx_on"

fun fault_error :: "fault \<Rightarrow> go_error option" where
  "fault_error NoFault = None"
| "fault_error (Fail e) = Some e"
| "fault_error (LostAck e) = Some e"

text \<open>One statement inside a transaction; \<open>f\<close> is what the code makes of its error.\<close>

fun stmt :: "(sql_error \<Rightarrow> go_error) \<Rightarrow> ('s, 'a) stmt_on \<Rightarrow> ('s, 'a) tx_on" where
  "stmt f q flt (n, d) =
     (case fault_error (flt n) of
        Some e \<Rightarrow> (Inl (f (DriverError e)), Suc n, d)
      | None \<Rightarrow> (case q d of
            Inl e \<Rightarrow> (Inl (f e), Suc n, d)
          | Inr (x, d') \<Rightarrow> (Inr x, Suc n, d')))"

definition tx_return :: "'a \<Rightarrow> ('s, 'a) tx_on" where
  "tx_return x flt s = (Inr x, s)"

definition tx_fail :: "go_error \<Rightarrow> ('s, 'a) tx_on" where
  "tx_fail e flt s = (Inl e, s)"

definition tx_bind :: "('s, 'a) tx_on \<Rightarrow> ('a \<Rightarrow> ('s, 'b) tx_on) \<Rightarrow> ('s, 'b) tx_on" where
  "tx_bind m k flt s = (case m flt s of (Inl e, s') \<Rightarrow> (Inl e, s') | (Inr x, s') \<Rightarrow> k x flt s')"

fun tx_map :: "('a \<Rightarrow> ('s, 'b) tx_on) \<Rightarrow> 'a list \<Rightarrow> ('s, 'b list) tx_on" where
  "tx_map f [] = tx_return []"
| "tx_map f (x # xs) = tx_bind (f x) (\<lambda>y. tx_bind (tx_map f xs) (\<lambda>ys. tx_return (y # ys)))"

definition run_tx :: "('s, 'a) tx_on \<Rightarrow> (nat \<Rightarrow> fault) \<Rightarrow> 's \<Rightarrow> 'a result \<times> 's" where
  "run_tx body flt d =
     (case fault_error (flt 0) of
        Some e \<Rightarrow> (Inl e, d)
      | None \<Rightarrow> (case body flt (1, d) of
            (Inl e, _) \<Rightarrow> (Inl e, d)
          | (Inr x, n, d') \<Rightarrow>
              (case flt n of
                 NoFault \<Rightarrow> (Inr x, d')
               | Fail e \<Rightarrow> (Inl e, d)
               | LostAck e \<Rightarrow> (Inl e, d'))))"

text \<open>A statement outside a transaction commits by itself.\<close>

definition run_stmt :: "(sql_error \<Rightarrow> go_error) \<Rightarrow> ('s, 'a) stmt_on \<Rightarrow> fault \<Rightarrow> 's \<Rightarrow> 'a result \<times> 's" where
  "run_stmt f q flt d =
     (case flt of
        Fail e \<Rightarrow> (Inl (f (DriverError e)), d)
      | NoFault \<Rightarrow> (case q d of Inl e \<Rightarrow> (Inl (f e), d) | Inr (x, d') \<Rightarrow> (Inr x, d'))
      | LostAck e \<Rightarrow> (case q d of Inl e' \<Rightarrow> (Inl (f e'), d) | Inr (x, d') \<Rightarrow> (Inl (f (DriverError e)), d')))"

text \<open>The plain wrapping \<^verbatim>\<open>fmt.Errorf("...: %w", err)\<close> of a statement's error.\<close>

fun sql_wrap :: "sql_error \<Rightarrow> go_error" where
  "sql_wrap (DriverError e) = e"
| "sql_wrap (UniqueViolation c) = OtherError (''unique violation: '' @ c)"
| "sql_wrap (ForeignKeyViolation c) = OtherError (''foreign key violation: '' @ c)"
| "sql_wrap (CheckViolation c) = OtherError (''check violation: '' @ c)"

definition query :: "('s \<Rightarrow> 'a) \<Rightarrow> ('s, 'a) stmt_on" where
  "query f d = Inr (f d, d)"

section \<open>Success and failure of transactions\<close>

named_theorems tx_simps \<open>success conditions of statements and transactions\<close>

lemma stmt_Inr [tx_simps]:
  "stmt f q flt s = (Inr x, s') \<longleftrightarrow>
     fault_error (flt (fst s)) = None \<and> q (snd s) = Inr (x, snd s') \<and> fst s' = Suc (fst s)"
  by (cases s; cases s') (auto split: option.splits sum.splits)

lemma stmt_Inl [tx_simps]:
  "stmt f q flt s = (Inl e, s') \<longleftrightarrow>
     ((\<exists>g. fault_error (flt (fst s)) = Some g \<and> e = f (DriverError g)) \<or>
      (fault_error (flt (fst s)) = None \<and> (\<exists>g. q (snd s) = Inl g \<and> e = f g))) \<and>
     s' = (Suc (fst s), snd s)"
  by (cases s; cases s') (auto split: option.splits sum.splits)

lemma tx_return_eq [tx_simps]: "tx_return x flt s = (r, s') \<longleftrightarrow> r = Inr x \<and> s' = s"
  by (auto simp: tx_return_def)

lemma tx_fail_eq [tx_simps]: "tx_fail e flt s = (r, s') \<longleftrightarrow> r = Inl e \<and> s' = s"
  by (auto simp: tx_fail_def)

lemma tx_bind_Inr [tx_simps]:
  "tx_bind m k flt s = (Inr y, s') \<longleftrightarrow> (\<exists>x s1. m flt s = (Inr x, s1) \<and> k x flt s1 = (Inr y, s'))"
  by (auto simp: tx_bind_def split: prod.splits sum.splits)

lemma query_Inr [tx_simps]: "query f d = Inr (x, d') \<longleftrightarrow> x = f d \<and> d' = d"
  by (auto simp: query_def)

lemma query_Inl [tx_simps]: "query f d \<noteq> Inl e"
  by (simp add: query_def)

text \<open>
  A transaction leaves the database either as it was or as its body left it after running to the
  end, whatever the fault schedule; success implies the latter.
\<close>

lemma run_tx_cases:
  assumes "run_tx body flt d = (r, d')"
  obtains (Unchanged) "d' = d" "\<exists>e. r = Inl e"
    | (Done) x n where "body flt (1, d) = (Inr x, n, d')" "r = Inr x \<or> (\<exists>e. r = Inl e)"
  using assms that
  by (auto simp: run_tx_def split: option.splits prod.splits sum.splits fault.splits)

lemma run_tx_Inr:
  "run_tx body flt d = (Inr x, d') \<Longrightarrow> \<exists>n. body flt (1, d) = (Inr x, n, d')"
  by (auto simp: run_tx_def split: option.splits prod.splits sum.splits fault.splits)

lemma run_tx_no_fault:
  assumes "body (\<lambda>_. NoFault) (1, d) = (Inr x, n, d')"
  shows "run_tx body (\<lambda>_. NoFault) d = (Inr x, d')"
  using assms by (simp add: run_tx_def)

lemma run_stmt_cases:
  assumes "run_stmt f q flt d = (r, d')"
  obtains (Unchanged) "d' = d" "\<exists>e. r = Inl e"
    | (Done) x where "q d = Inr (x, d')" "r = Inr x \<or> (\<exists>e. r = Inl e)"
  using assms that by (auto simp: run_stmt_def split: fault.splits sum.splits)

text \<open>
  An invariant of the tables that the body of a transaction keeps is kept by the transaction.
\<close>

locale db_invariant =
  fixes inv :: "'s \<Rightarrow> bool"
begin

definition keeps :: "('s, 'a) tx_on \<Rightarrow> bool" where
  "keeps m \<longleftrightarrow> (\<forall>flt n d x n' d'. inv d \<longrightarrow> m flt (n, d) = (Inr x, n', d') \<longrightarrow> inv d')"

lemma keepsI:
  "(\<And>flt n d x n' d'. inv d \<Longrightarrow> m flt (n, d) = (Inr x, n', d') \<Longrightarrow> inv d') \<Longrightarrow> keeps m"
  unfolding keeps_def by blast

lemma run_tx_keeps:
  assumes "keeps body" and "inv d" and "run_tx body flt d = (r, d')"
  shows "inv d'"
  using assms(3)
proof (cases rule: run_tx_cases)
  case Unchanged
  with assms(2) show ?thesis by simp
next
  case (Done x n)
  with assms(1,2) show ?thesis unfolding keeps_def by blast
qed

lemma run_stmt_keeps:
  assumes "\<And>x d'. q d = Inr (x, d') \<Longrightarrow> inv d'" and "inv d" and "run_stmt f q flt d = (r, d')"
  shows "inv d'"
  using assms(3)
proof (cases rule: run_stmt_cases)
  case Unchanged
  with assms(2) show ?thesis by simp
next
  case (Done x)
  with assms(1) show ?thesis by blast
qed

end

section \<open>Lookups\<close>

definition find_inbox :: "db \<Rightarrow> string \<Rightarrow> inbox_row option" where
  "find_inbox d i = find (\<lambda>r. ib_id r = i) (inboxes d)"

definition find_content :: "db \<Rightarrow> string \<Rightarrow> content_row option" where
  "find_content d k = find (\<lambda>r. mc_key r = k) (mail_contents d)"

text \<open>The recurring condition \<^verbatim>\<open>status = 'active' AND expires_at > now()\<close>.\<close>

definition inbox_live :: "time \<Rightarrow> inbox_row \<Rightarrow> bool" where
  "inbox_live now r \<longleftrightarrow> ib_status r = ''active'' \<and> ib_expires r > now"

lemma find_SomeD: "find P xs = Some x \<Longrightarrow> x \<in> set xs \<and> P x"
  by (induction xs) (auto split: if_splits)

lemma find_keyed:
  "distinct (map f xs) \<Longrightarrow> find (\<lambda>r. f r = k) xs = Some x \<longleftrightarrow> x \<in> set xs \<and> f x = k"
proof (induction xs)
  case (Cons a xs)
  then show ?case by (auto simp: image_iff)
qed simp

lemma find_keyed_None: "find (\<lambda>r. f r = k) xs = None \<longleftrightarrow> k \<notin> f ` set xs"
  by (auto simp: find_None_iff)

end
