(* ===== verification/Mime_Text.thy ===== *)
theory Mime_Text
  imports Mail_Model
begin

text \<open>
  \<^verbatim>\<open>internal/mail/normalize.go\<close>: how texts of a message are cut and cleaned before they are stored, over
  UTF-8 as package \<^verbatim>\<open>unicode/utf8\<close> defines it. PostgreSQL stores a text only if it is valid UTF-8 without a NUL
  byte; the lemmas show which functions guarantee that.
\<close>

section \<open>UTF-8\<close>

text \<open>The number of bytes of the rune a string starts with, 0 if it does not start with one.\<close>

abbreviation ord :: "char \<Rightarrow> nat" where "ord c \<equiv> of_char c"

definition cont_byte :: "char \<Rightarrow> bool" where
  "cont_byte b \<longleftrightarrow> 0x80 \<le> ord b \<and> ord b \<le> 0xBF"

definition two_bytes :: "char \<Rightarrow> char \<Rightarrow> bool" where
  "two_bytes a b \<longleftrightarrow> 0xC2 \<le> ord a \<and> ord a \<le> 0xDF \<and> cont_byte b"

definition three_bytes :: "char \<Rightarrow> char \<Rightarrow> char \<Rightarrow> bool" where
  "three_bytes a b c \<longleftrightarrow>
     (ord a = 0xE0 \<and> 0xA0 \<le> ord b \<and> ord b \<le> 0xBF \<or> 0xE1 \<le> ord a \<and> ord a \<le> 0xEF \<and> ord a \<noteq> 0xED \<and> cont_byte b \<or>
      ord a = 0xED \<and> 0x80 \<le> ord b \<and> ord b \<le> 0x9F) \<and> cont_byte c"

definition four_bytes :: "char \<Rightarrow> char \<Rightarrow> char \<Rightarrow> char \<Rightarrow> bool" where
  "four_bytes a b c e \<longleftrightarrow>
     (ord a = 0xF0 \<and> 0x90 \<le> ord b \<and> ord b \<le> 0xBF \<or> 0xF1 \<le> ord a \<and> ord a \<le> 0xF3 \<and> cont_byte b \<or>
      ord a = 0xF4 \<and> 0x80 \<le> ord b \<and> ord b \<le> 0x8F) \<and> cont_byte c \<and> cont_byte e"

fun rune_len :: "string \<Rightarrow> nat" where
  "rune_len [] = 0"
| "rune_len (a # s) =
     (if is_ascii a then 1
      else case s of
          [] \<Rightarrow> 0
        | b # t \<Rightarrow>
            if two_bytes a b then 2
            else (case t of
                [] \<Rightarrow> 0
              | c # u \<Rightarrow>
                  if three_bytes a b c then 3
                  else (case u of [] \<Rightarrow> 0 | e # _ \<Rightarrow> if four_bytes a b c e then 4 else 0)))"

text \<open>The runes of a string, its invalid bytes left out.\<close>

fun runes :: "string \<Rightarrow> string list" where
  "runes [] = []"
| "runes (a # s) =
     (if rune_len (a # s) = 0 then runes s else take (rune_len (a # s)) (a # s) # runes (drop (rune_len (a # s) - 1) s))"

definition ToValidUTF8 :: "string \<Rightarrow> string" where
  "ToValidUTF8 s = concat (runes s)"

definition ValidString :: "string \<Rightarrow> bool" where
  "ValidString s \<longleftrightarrow> concat (runes s) = s"

definition is_rune :: "string \<Rightarrow> bool" where
  "is_rune r \<longleftrightarrow> r \<noteq> [] \<and> rune_len r = length r"

lemma rune_len_le: "rune_len s \<le> length s"
  by (cases s) (auto split: list.splits)

lemma rune_prefix:
  assumes "rune_len s \<noteq> 0"
  obtains a t where "s = a # t" "rune_len s = 1" "is_ascii a"
  | a b t where "s = a # b # t" "rune_len s = 2" "\<not> is_ascii a" "two_bytes a b"
  | a b c t where "s = a # b # c # t" "rune_len s = 3" "\<not> is_ascii a" "\<not> two_bytes a b" "three_bytes a b c"
  | a b c e t where "s = a # b # c # e # t" "rune_len s = 4" "\<not> is_ascii a" "\<not> two_bytes a b" "\<not> three_bytes a b c" "four_bytes a b c e"
  using assms by (cases s) (auto split: if_splits list.splits)

lemma rune_cases:
  assumes "is_rune r"
  obtains a where "r = [a]" "is_ascii a"
  | a b where "r = [a, b]" "\<not> is_ascii a" "two_bytes a b"
  | a b c where "r = [a, b, c]" "\<not> is_ascii a" "\<not> two_bytes a b" "three_bytes a b c"
  | a b c e where "r = [a, b, c, e]" "\<not> is_ascii a" "\<not> two_bytes a b" "\<not> three_bytes a b c" "four_bytes a b c e"
proof -
  have r: "rune_len r \<noteq> 0" "rune_len r = length r" using assms by (auto simp: is_rune_def)
  from r(1) show ?thesis by (cases r rule: rune_prefix) (use that r(2) in \<open>auto simp del: rune_len.simps\<close>)
qed

lemma is_rune_take: "rune_len s \<noteq> 0 \<Longrightarrow> is_rune (take (rune_len s) s)"
  by (erule rune_prefix) (auto simp: is_rune_def)

lemma rune_len_append: "is_rune r \<Longrightarrow> rune_len (r @ s) = length r"
  by (erule rune_cases) auto

lemma runes_append: "is_rune r \<Longrightarrow> runes (r @ s) = r # runes s"
  using rune_len_append [of r s] by (cases r) (auto simp: is_rune_def simp del: rune_len.simps)

lemma runes_concat: "list_all is_rune rs \<Longrightarrow> runes (concat rs) = rs"
  by (induction rs) (auto simp: runes_append)

lemma runes_are_runes: "list_all is_rune (runes s)"
proof (induction s rule: runes.induct)
  case (2 a s)
  then show ?case using is_rune_take [of "a # s"] by (simp del: rune_len.simps)
qed simp

lemma ValidString_concat: "list_all is_rune rs \<Longrightarrow> ValidString (concat rs)"
  by (simp add: ValidString_def runes_concat)

lemma ValidString_iff: "ValidString s \<longleftrightarrow> (\<exists>rs. list_all is_rune rs \<and> s = concat rs)"
  using runes_are_runes [of s] by (metis ValidString_concat ValidString_def)

lemma ToValidUTF8_valid: "ValidString (ToValidUTF8 s)"
  unfolding ToValidUTF8_def by (rule ValidString_concat) (rule runes_are_runes)

lemma ToValidUTF8_id: "ValidString s \<Longrightarrow> ToValidUTF8 s = s"
  by (simp add: ValidString_def ToValidUTF8_def)

lemma ValidString_append: "ValidString s \<Longrightarrow> ValidString t \<Longrightarrow> ValidString (s @ t)"
  unfolding ValidString_iff by (metis concat_append list_all_append)

lemma ascii_rune: "is_ascii a \<Longrightarrow> is_rune [a]"
  by (simp add: is_rune_def)

lemma ValidString_ascii: "list_all is_ascii s \<Longrightarrow> ValidString s"
proof -
  assume "list_all is_ascii s"
  then have "list_all is_rune (map (\<lambda>a. [a]) s)" by (auto simp: list_all_iff ascii_rune)
  from ValidString_concat [OF this] show ?thesis by simp
qed

section \<open>Trimming\<close>

abbreviation space_rune :: "string \<Rightarrow> bool" where "space_rune r \<equiv> space_len r = length r"

lemma rune_bytes:
  "two_bytes a b \<Longrightarrow> \<not> ascii_space a \<and> ord a \<notin> {0xE1, 0xE2, 0xE3} \<and> cont_byte b"
  "three_bytes a b c \<Longrightarrow> \<not> ascii_space a \<and> ord a \<noteq> 0xC2 \<and> cont_byte b \<and> cont_byte c"
  "four_bytes a b c e \<Longrightarrow> \<not> ascii_space a \<and> ord a \<notin> {0xC2, 0xE1, 0xE2, 0xE3} \<and> cont_byte b \<and> cont_byte c \<and> cont_byte e"
  by (auto simp: two_bytes_def three_bytes_def four_bytes_def cont_byte_def ascii_space_def)

lemma cont_space: "cont_byte x \<Longrightarrow> space_len (x # s) = 0"
  by (auto simp: cont_byte_def ascii_space_def split: list.splits)

lemma cont_not_space: "cont_byte x \<Longrightarrow> \<not> ascii_space x"
  by (auto simp: cont_byte_def ascii_space_def)

lemma lead_space: "two_bytes a b \<Longrightarrow> space_len (x # a # t) \<noteq> 3"
  by (auto simp: two_bytes_def split: list.splits)

lemma space_len_rune:
  assumes "is_rune r"
  shows "space_len (r @ s) = (if space_rune r then length r else 0)"
  using assms
proof (cases r rule: rune_cases)
  case (1 a)
  then show ?thesis
    using space_len_plain [of a s] space_len_plain [of a "[]"] by (cases "ascii_space a") (auto simp: plain_char_def simp del: space_len.simps(2) intro: space_len.simps(2) [THEN trans])
next
  case (2 a b)
  then show ?thesis using rune_bytes(1) [OF 2(3)] by (simp split: list.split)
next
  case (3 a b c)
  then show ?thesis using rune_bytes(2) [OF 3(4)] by simp
next
  case (4 a b c e)
  then show ?thesis using rune_bytes(3) [OF 4(5)] by simp
qed

lemma last_space_len_rune:
  assumes "is_rune r"
  shows "last_space_len (s @ r) = (if space_rune r then length r else 0)"
  using assms
proof (cases r rule: rune_cases)
  case (1 a)
  show ?thesis
  proof (cases "ascii_space a")
    case True
    then show ?thesis using 1 by (simp add: last_space_len_def)
  next
    case False
    then have "plain_char a" using 1 by (simp add: plain_char_def)
    then show ?thesis using last_space_len_plain [of "s @ [a]"] space_len_plain [of a "[]"] 1 by simp
  qed
next
  case (2 a b)
  note b = rune_bytes(1) [OF 2(3)]
  have "\<not> (3 \<le> length (s @ [a, b]) \<and> space_len (drop (length (s @ [a, b]) - 3) (s @ [a, b])) = 3)"
    using lead_space [OF 2(3)] by (cases s rule: rev_cases) (auto simp del: space_len.simps)
  then show ?thesis using 2(1) b cont_not_space [of b] space_len_rune [OF assms, of "[]"] by (auto simp: last_space_len_def simp del: space_len.simps)
next
  case (3 a b c)
  note b = rune_bytes(2) [OF 3(4)]
  show ?thesis
    using 3(1) b cont_not_space [of c] cont_space [of b "[c]"] space_len_rune [OF assms, of "[]"] by (auto simp: last_space_len_def simp del: space_len.simps)
next
  case (4 a b c e)
  note b = rune_bytes(3) [OF 4(5)]
  have "space_len [a, b, c, e] = 0" using b by simp
  then show ?thesis
    using 4(1) b cont_not_space [of e] cont_space [of c "[e]"] cont_space [of b "[c, e]"] by (auto simp: last_space_len_def simp del: space_len.simps)
qed

text \<open>An ASCII byte occurs in a rune only if it is the rune.\<close>

lemma cont_not_ascii: "cont_byte x \<Longrightarrow> \<not> is_ascii x"
  by (simp add: cont_byte_def is_ascii_def)

lemma ascii_in_rune:
  assumes "is_rune r" and "a \<in> set r" and "is_ascii a"
  shows "r = [a]"
  using assms(1)
proof (cases r rule: rune_cases)
  case (2 x b)
  then show ?thesis using assms(2,3) rune_bytes(1) [of x b] cont_not_ascii by auto
next
  case (3 x b c)
  then show ?thesis using assms(2,3) rune_bytes(2) [of x b c] cont_not_ascii by auto
next
  case (4 x b c e)
  then show ?thesis using assms(2,3) rune_bytes(3) [of x b c e] cont_not_ascii by auto
qed (use assms(2) in simp)

lemma trim_left_runes: "list_all is_rune rs \<Longrightarrow> trim_left_space (concat rs) = concat (dropWhile space_rune rs)"
proof (induction rs)
  case Nil
  show ?case by (subst trim_left_space.simps) simp
next
  case (Cons r rs)
  then have r: "space_len (r @ concat rs) = (if space_rune r then length r else 0)" "r \<noteq> []" using space_len_rune by (auto simp: is_rune_def)
  show ?case using Cons r by (subst trim_left_space.simps) auto
qed

lemma trim_right_runes: "list_all is_rune rs \<Longrightarrow> trim_right_space (concat rs) = concat (rev (dropWhile space_rune (rev rs)))"
proof (induction rs rule: rev_induct)
  case Nil
  show ?case by (subst trim_right_space.simps) (simp add: last_space_len_def)
next
  case (snoc r rs)
  then have r: "last_space_len (concat rs @ r) = (if space_rune r then length r else 0)" "r \<noteq> []" using last_space_len_rune by (auto simp: is_rune_def)
  show ?case using snoc r by (subst trim_right_space.simps) auto
qed

lemma trim_space_runes:
  assumes "list_all is_rune rs"
  shows "\<exists>ts. trim_space (concat rs) = concat ts \<and> set ts \<subseteq> set rs \<and> list_all is_rune ts"
proof -
  let ?l = "dropWhile space_rune rs" and ?t = "rev (dropWhile space_rune (rev (dropWhile space_rune rs)))"
  have sub: "set ?t \<subseteq> set rs" by (auto dest!: set_dropWhileD)
  have "list_all is_rune ?l" using assms by (auto simp: list_all_iff dest!: set_dropWhileD)
  then have "trim_space (concat rs) = concat ?t" by (simp add: trim_space_def trim_left_runes [OF assms] trim_right_runes)
  moreover have "list_all is_rune ?t" using sub assms by (auto simp: list_all_iff)
  ultimately show ?thesis using sub by blast
qed

text \<open>A text PostgreSQL accepts.\<close>

definition storable :: "string \<Rightarrow> bool" where
  "storable s \<longleftrightarrow> ValidString s \<and> CHR 0x00 \<notin> set s"

lemma storable_trim: "storable s \<Longrightarrow> storable (trim_space s)"
proof -
  assume s: "storable s"
  then obtain rs where rs: "list_all is_rune rs" "s = concat rs" by (auto simp: storable_def ValidString_iff)
  obtain ts where "trim_space s = concat ts" "set ts \<subseteq> set rs" "list_all is_rune ts" using trim_space_runes [OF rs(1)] rs(2) by auto
  then show ?thesis using s rs(2) ValidString_concat by (auto simp: storable_def)
qed

lemma storable_append: "storable s \<Longrightarrow> storable t \<Longrightarrow> storable (s @ t)"
  by (auto simp: storable_def ValidString_append)

lemma storable_Nil [simp]: "storable []"
  by (simp add: storable_def ValidString_def)

section \<open>Normalisation\<close>

definition cleanHeaderValue :: "string \<Rightarrow> string" where
  "cleanHeaderValue v = trim_space (concat (filter (\<lambda>r. r \<notin> {[CHR 0x0D], [CHR 0x0A], [CHR 0x00]}) (runes v)))"

definition normalizeBodyText :: "bytes \<Rightarrow> string" where
  "normalizeBodyText v = trim_space (filter (\<lambda>c. c \<noteq> CHR 0x00) (ToValidUTF8 v))"

function truncate_loop :: "string \<Rightarrow> string" where
  "truncate_loop v = (if ValidString v then v else truncate_loop (butlast v))"
  by pat_completeness auto
termination
proof (relation "measure length")
  fix v assume "\<not> ValidString v"
  then show "(butlast v, v) \<in> measure length" by (cases v) (auto simp: ValidString_def)
qed simp

declare truncate_loop.simps [simp del]

definition truncateUTF8 :: "string \<Rightarrow> int \<Rightarrow> string" where
  "truncateUTF8 v maxBytes = (if maxBytes \<le> 0 \<or> int (length v) \<le> maxBytes then v else truncate_loop (take (nat maxBytes) v))"

text \<open>\<^verbatim>\<open>unicode.IsControl\<close>: the C0 and C1 controls and DEL.\<close>

definition is_control :: "string \<Rightarrow> bool" where
  "is_control r \<longleftrightarrow>
     (case r of
        [a] \<Rightarrow> ord a < 0x20 \<or> ord a = 0x7F
      | [a, b] \<Rightarrow> ord a = 0xC2 \<and> 0x80 \<le> ord b \<and> ord b \<le> 0x9F
      | _ \<Rightarrow> False)"

definition filename_rune :: "string \<Rightarrow> string" where
  "filename_rune r = (if r = ''/'' \<or> r = [CHR 0x5C] then ''_'' else if is_control r then [] else r)"

definition trim_set :: "char set \<Rightarrow> string \<Rightarrow> string" where
  "trim_set cs s = rev (dropWhile (\<lambda>c. c \<in> cs) (rev (dropWhile (\<lambda>c. c \<in> cs) s)))"

definition normalizeFilename :: "string \<Rightarrow> int \<Rightarrow> string \<times> bool" where
  "normalizeFilename original maxBytes =
     (let value = trim_set {CHR '' '', CHR ''.''} (concat (map filename_rune (runes original))) in
      if value = [] \<or> value = ''.'' \<or> value = ''..'' then ([], original \<noteq> [])
      else let value' = truncateUTF8 value maxBytes in (value', value' \<noteq> original))"

definition remainingPreviewBytes :: "string \<Rightarrow> int \<Rightarrow> int" where
  "remainingPreviewBytes existing maxBytes =
     (let remaining = maxBytes - int (length existing);
          remaining' = (if existing \<noteq> [] \<and> remaining > 0 then remaining - 1 else remaining) in
      if remaining' < 0 then 0 else remaining')"

definition appendPreview :: "string \<Rightarrow> string \<Rightarrow> int \<Rightarrow> string" where
  "appendPreview existing v maxBytes =
     (if v = [] \<or> int (length existing) \<ge> maxBytes then existing
      else let existing' = (if existing \<noteq> [] then existing @ [CHR 0x0A] else existing);
               remaining = maxBytes - int (length existing') in
        if remaining \<le> 0 then truncateUTF8 existing' maxBytes else existing' @ truncateUTF8 v remaining)"

section \<open>What the functions guarantee\<close>

lemma truncate_loop_props: "ValidString (truncate_loop v) \<and> (\<exists>t. v = truncate_loop v @ t)"
proof (induction v rule: truncate_loop.induct)
  case (1 v)
  show ?case
  proof (cases "ValidString v")
    case True
    then show ?thesis by (simp add: truncate_loop.simps [of v])
  next
    case False
    then have ne: "v \<noteq> []" by (auto simp: ValidString_def)
    have "truncate_loop v = truncate_loop (butlast v)" using False by (simp add: truncate_loop.simps [of v])
    moreover obtain t where "butlast v = truncate_loop (butlast v) @ t" using 1 False by blast
    then have "v = truncate_loop (butlast v) @ t @ [last v]" using ne by (metis append_assoc append_butlast_last_id)
    ultimately show ?thesis using 1 False by metis
  qed
qed

lemma truncate_prefix: "\<exists>t. v = truncateUTF8 v n @ t"
proof (cases "n \<le> 0 \<or> int (length v) \<le> n")
  case False
  obtain t where "take (nat n) v = truncate_loop (take (nat n) v) @ t" using truncate_loop_props by blast
  then have "v = truncate_loop (take (nat n) v) @ t @ drop (nat n) v" by (metis append_assoc append_take_drop_id)
  then show ?thesis using False by (auto simp: truncateUTF8_def)
qed (simp add: truncateUTF8_def)

lemma truncate_length: "0 < n \<Longrightarrow> int (length (truncateUTF8 v n)) \<le> n"
proof -
  assume n: "0 < n"
  obtain t where "take (nat n) v = truncate_loop (take (nat n) v) @ t" using truncate_loop_props by blast
  then have "length (truncate_loop (take (nat n) v)) \<le> nat n" by (metis length_append le_add1 length_take min.bounded_iff order_trans)
  then have "int (length (truncate_loop (take (nat n) v))) \<le> n" using n by linarith
  then show ?thesis using n by (auto simp: truncateUTF8_def)
qed

lemma truncate_valid: "ValidString v \<Longrightarrow> ValidString (truncateUTF8 v n)"
  using truncate_loop_props by (simp add: truncateUTF8_def)

lemma truncate_set: "set (truncateUTF8 v n) \<subseteq> set v"
  using truncate_prefix [of v n] by (metis Un_upper1 set_append)

lemma storable_truncate: "storable v \<Longrightarrow> storable (truncateUTF8 v n)"
  using truncate_valid [of v n] truncate_set [of v n] by (auto simp: storable_def)

lemma runes_sub_valid: "set rs \<subseteq> set (runes v) \<Longrightarrow> ValidString (concat rs)"
  using runes_are_runes [of v] by (intro ValidString_concat) (auto simp: list_all_iff)

lemma ascii_in_concat:
  assumes "set rs \<subseteq> set (runes v)" and "is_ascii a" and "a \<in> set (concat rs)"
  shows "[a] \<in> set rs"
proof -
  obtain r where r: "r \<in> set rs" "a \<in> set r" using assms(3) by auto
  then have "is_rune r" using assms(1) runes_are_runes [of v] by (auto simp: list_all_iff)
  then show ?thesis using ascii_in_rune [OF _ r(2) assms(2)] r(1) by simp
qed

lemma clean_storable: "storable (cleanHeaderValue v)"
proof -
  let ?rs = "filter (\<lambda>r. r \<notin> {[CHR 0x0D], [CHR 0x0A], [CHR 0x00]}) (runes v)"
  have "CHR 0x00 \<notin> set (concat ?rs)"
    using ascii_in_concat [of ?rs v "CHR 0x00"] by (auto simp: is_ascii_def)
  then have "storable (concat ?rs)" using runes_sub_valid [of ?rs v] by (auto simp: storable_def)
  then show ?thesis unfolding cleanHeaderValue_def by (rule storable_trim)
qed

lemma filter_concat_runes:
  assumes "is_ascii a" and "list_all is_rune rs"
  shows "filter (\<lambda>c. c \<noteq> a) (concat rs) = concat (filter (\<lambda>r. r \<noteq> [a]) rs)"
  using assms(2)
proof (induction rs)
  case (Cons r rs)
  have "a \<notin> set r" if "r \<noteq> [a]" using ascii_in_rune [of r a] assms(1) Cons.prems that by auto
  then have "filter (\<lambda>c. c \<noteq> a) r = (if r = [a] then [] else r)" by (simp add: filter_id_conv) metis
  then show ?case using Cons by simp
qed simp

lemma body_storable: "storable (normalizeBodyText v)"
proof -
  have eq: "filter (\<lambda>c. c \<noteq> CHR 0x00) (ToValidUTF8 v) = concat (filter (\<lambda>r. r \<noteq> [CHR 0x00]) (runes v))"
    unfolding ToValidUTF8_def by (rule filter_concat_runes) (simp_all add: is_ascii_def runes_are_runes)
  have "storable (filter (\<lambda>c. c \<noteq> CHR 0x00) (ToValidUTF8 v))"
    using runes_sub_valid [of "filter (\<lambda>r. r \<noteq> [CHR 0x00]) (runes v)" v] by (auto simp: storable_def eq [symmetric])
  then show ?thesis unfolding normalizeBodyText_def by (rule storable_trim)
qed

lemma append_preview_length:
  assumes "0 < n" and "int (length existing) \<le> n"
  shows "int (length (appendPreview existing v n)) \<le> n"
proof -
  let ?e = "if existing \<noteq> [] then existing @ [CHR 0x0A] else existing"
  show ?thesis
    using assms truncate_length [of n ?e] truncate_length [of "n - int (length ?e)" v] by (auto simp: appendPreview_def Let_def)
qed

lemma newline_storable: "storable [CHR 0x0A]"
  using ValidString_ascii [of "[CHR 0x0A]"] by (simp add: storable_def is_ascii_def)

lemma append_preview_storable:
  assumes "storable existing" and "storable v"
  shows "storable (appendPreview existing v n)"
proof -
  let ?e = "if existing \<noteq> [] then existing @ [CHR 0x0A] else existing"
  have "storable ?e" using assms(1) newline_storable storable_append by simp
  then show ?thesis unfolding appendPreview_def Let_def using assms storable_append storable_truncate by simp
qed

text \<open>Trimming a set of ASCII characters drops whole runes.\<close>

lemma dropWhile_runes:
  assumes "\<forall>a \<in> cs. is_ascii a" and "list_all is_rune rs"
  shows "dropWhile (\<lambda>c. c \<in> cs) (concat rs) = concat (dropWhile (\<lambda>r. \<exists>a \<in> cs. r = [a]) rs)"
  using assms(2)
proof (induction rs)
  case (Cons r rs)
  obtain a t where r: "r = a # t" using Cons.prems by (cases r) (auto simp: is_rune_def)
  show ?case
  proof (cases "a \<in> cs")
    case True
    then have "r = [a]" using ascii_in_rune [of r a] assms(1) Cons.prems r by auto
    then show ?thesis using Cons True by auto
  next
    case False
    then show ?thesis using r by auto
  qed
qed simp

lemma dropWhile_runes_right:
  assumes "\<forall>a \<in> cs. is_ascii a" and "list_all is_rune rs"
  shows "rev (dropWhile (\<lambda>c. c \<in> cs) (rev (concat rs))) = concat (rev (dropWhile (\<lambda>r. \<exists>a \<in> cs. r = [a]) (rev rs)))"
  using assms(2)
proof (induction rs rule: rev_induct)
  case (snoc r rs)
  obtain a t where r: "r = t @ [a]" using snoc.prems by (cases r rule: rev_cases) (auto simp: is_rune_def)
  show ?case
  proof (cases "a \<in> cs")
    case True
    then have "r = [a]" using ascii_in_rune [of r a] assms(1) snoc.prems r by auto
    then show ?thesis using snoc True by auto
  next
    case False
    then show ?thesis using r by auto
  qed
qed simp

lemma trim_set_runes:
  assumes "\<forall>a \<in> cs. is_ascii a" and "list_all is_rune rs"
  shows "\<exists>ts. trim_set cs (concat rs) = concat ts \<and> set ts \<subseteq> set rs \<and> list_all is_rune ts"
proof -
  let ?P = "\<lambda>r. \<exists>a \<in> cs. r = [a]" let ?l = "dropWhile ?P rs" let ?t = "rev (dropWhile ?P (rev ?l))"
  have l: "list_all is_rune ?l" using assms(2) by (auto simp: list_all_iff dest: set_dropWhileD)
  have "trim_set cs (concat rs) = concat ?t"
    unfolding trim_set_def dropWhile_runes [OF assms] by (rule dropWhile_runes_right [OF assms(1) l])
  moreover have "set ?t \<subseteq> set rs" by (auto dest!: set_dropWhileD)
  ultimately show ?thesis using assms(2) by (metis (no_types, lifting) list_all_iff subsetD)
qed

lemma runes_valid_append: "ValidString s \<Longrightarrow> runes (s @ t) = runes s @ runes t"
proof -
  have "list_all is_rune rs \<Longrightarrow> runes (concat rs @ t) = rs @ runes t" for rs by (induction rs) (auto simp: runes_append)
  moreover assume "ValidString s"
  then obtain rs where "list_all is_rune rs" "s = concat rs" by (auto simp: ValidString_iff)
  ultimately show ?thesis by (simp add: runes_concat)
qed

lemma truncate_runes: "ValidString v \<Longrightarrow> set (runes (truncateUTF8 v n)) \<subseteq> set (runes v)"
  using truncate_prefix [of v n] truncate_valid [of v n] runes_valid_append [of "truncateUTF8 v n"] by (metis Un_upper1 set_append)

lemma trim_set_hd: "trim_set cs s \<noteq> [] \<Longrightarrow> hd (trim_set cs s) \<notin> cs"
proof -
  assume ne: "trim_set cs s \<noteq> []"
  let ?l = "dropWhile (\<lambda>c. c \<in> cs) s"
  have "\<exists>t. ?l = trim_set cs s @ t"
    unfolding trim_set_def by (metis rev_append rev_rev_ident takeWhile_dropWhile_id)
  then obtain t where t: "?l = trim_set cs s @ t" by blast
  then have "?l \<noteq> []" using ne by (metis Nil_is_append_conv)
  from hd_dropWhile [OF this] show ?thesis using t ne by simp
qed

definition filename_ok :: "string \<Rightarrow> bool" where
  "filename_ok name \<longleftrightarrow> storable name \<and> name \<notin> {''.'', ''..''} \<and>
     (\<forall>r \<in> set (runes name). r \<noteq> ''/'' \<and> r \<noteq> [CHR 0x5C] \<and> \<not> is_control r)"

lemma filename_runes:
  "r \<in> set (filter (\<lambda>r. r \<noteq> []) (map filename_rune (runes v))) \<Longrightarrow> is_rune r \<and> r \<noteq> ''/'' \<and> r \<noteq> [CHR 0x5C] \<and> \<not> is_control r"
proof -
  assume "r \<in> set (filter (\<lambda>r. r \<noteq> []) (map filename_rune (runes v)))"
  then obtain q where q: "q \<in> set (runes v)" "r = filename_rune q" "r \<noteq> []" by auto
  have "is_rune q" using q(1) runes_are_runes [of v] by (auto simp: list_all_iff)
  then show ?thesis using q(2,3) ascii_rune [of "CHR ''_''"] by (auto simp: filename_rune_def is_control_def is_ascii_def split: if_splits)
qed

lemma control_NUL: "is_control [CHR 0x00]"
  by (simp add: is_control_def)

lemma normalizeFilename_ok:
  assumes "0 < n" and "normalizeFilename original n = (name, changed)"
  shows "filename_ok name \<and> int (length name) \<le> n"
proof (cases "name = []")
  case True
  then show ?thesis using assms(1) by (simp add: filename_ok_def)
next
  case False
  let ?cs = "{CHR '' '', CHR ''.''}" and ?qs = "filter (\<lambda>r. r \<noteq> []) (map filename_rune (runes original))"
  define v where "v = trim_set ?cs (concat (map filename_rune (runes original)))"
  have name: "name = truncateUTF8 v n" "v \<noteq> []" using assms(2) False by (auto simp: normalizeFilename_def v_def Let_def split: if_splits)
  have "concat xs = concat (filter (\<lambda>r. r \<noteq> []) xs)" for xs :: "string list" by (induction xs) auto
  then have "concat (map filename_rune (runes original)) = concat ?qs" .
  moreover have "list_all is_rune ?qs" using filename_runes unfolding list_all_iff by blast
  ultimately obtain ts where ts: "v = concat ts" "set ts \<subseteq> set ?qs" "list_all is_rune ts"
    using trim_set_runes [of ?cs ?qs] by (auto simp: v_def is_ascii_def)
  have valid: "ValidString v" using ts(1,3) ValidString_concat by simp
  have sub: "set (runes name) \<subseteq> set ?qs" using truncate_runes [OF valid, of n] runes_concat [OF ts(3)] ts(2) unfolding name(1) ts(1) by (metis order_trans)
  have "hd v \<noteq> CHR ''.''" using trim_set_hd [of ?cs] name(2) by (auto simp: v_def)
  moreover obtain t where "v = name @ t" using truncate_prefix [of v n] name(1) by metis
  ultimately have dots: "name \<notin> {''.'', ''..''}" by auto
  have nv: "ValidString name" using truncate_valid [OF valid] name(1) by simp
  have "CHR 0x00 \<notin> set name"
  proof
    assume "CHR 0x00 \<in> set name"
    then have "CHR 0x00 \<in> set (concat (runes name))" using nv by (simp add: ValidString_def)
    then have "[CHR 0x00] \<in> set (runes name)" using ascii_in_concat [of "runes name" name "CHR 0x00"] by (simp add: is_ascii_def)
    then have "[CHR 0x00] \<in> set ?qs" using sub by blast
    then show False using filename_runes control_NUL by blast
  qed
  moreover have "\<forall>r \<in> set (runes name). r \<noteq> ''/'' \<and> r \<noteq> [CHR 0x5C] \<and> \<not> is_control r" using sub filename_runes by blast
  ultimately show ?thesis using nv dots truncate_length [OF assms(1)] name(1) by (simp add: filename_ok_def storable_def)
qed

end
