(* ===== verification/Parse_Table.thy ===== *)
theory Parse_Table
  imports Db_Core Mime_Text Wisp_Codec
begin

text \<open>
  The constraints of table \<^verbatim>\<open>mail_content_parses\<close> (\<^verbatim>\<open>migrations/000002\<close>) on one row. The bounds on the JSON columns
  are on the text PostgreSQL prints for a \<^verbatim>\<open>jsonb\<close> value, so that text is defined here: the elements as
  \<^verbatim>\<open>marshalJSONArray\<close> writes them, the keys of an object in the order in which \<^verbatim>\<open>jsonb\<close> keeps them (shorter keys
  first, then bytewise), a colon and a comma each followed by a blank.
\<close>

section \<open>The text of a JSON value\<close>

text \<open>\<^verbatim>\<open>encoding/json\<close> writes each byte that is not part of valid UTF-8 as the replacement character.\<close>

fun json_utf8 :: "string \<Rightarrow> string" where
  "json_utf8 [] = []"
| "json_utf8 (a # s) =
     (if rune_len (a # s) = 0 then [CHR 0xEF, CHR 0xBF, CHR 0xBD] @ json_utf8 s
      else take (rune_len (a # s)) (a # s) @ json_utf8 (drop (rune_len (a # s) - 1) s))"

definition json_escape :: "char \<Rightarrow> string" where
  "json_escape c =
     (if c = CHR 0x22 \<or> c = CHR 0x5C then [CHR 0x5C, c]
      else if c = CHR 0x08 then CHR 0x5C # ''b''
      else if c = CHR 0x0C then CHR 0x5C # ''f''
      else if c = CHR 0x0A then CHR 0x5C # ''n''
      else if c = CHR 0x0D then CHR 0x5C # ''r''
      else if c = CHR 0x09 then CHR 0x5C # ''t''
      else if ord c < 0x20 then CHR 0x5C # ''u00'' @ hex_encode [c]
      else [c])"

definition json_string :: "string \<Rightarrow> string" where
  "json_string s = [CHR 0x22] @ concat (map json_escape (json_utf8 s)) @ [CHR 0x22]"

fun comma_list :: "string list \<Rightarrow> string" where
  "comma_list [] = []"
| "comma_list [x] = x"
| "comma_list (x # y # xs) = x @ '', '' @ comma_list (y # xs)"

definition json_object :: "(string \<times> string) list \<Rightarrow> string" where
  "json_object fs = ''{'' @ comma_list (map (\<lambda>(k, v). json_string k @ '': '' @ v) fs) @ ''}''"

definition json_array :: "string list \<Rightarrow> string" where
  "json_array xs = ''['' @ comma_list xs @ '']''"

section \<open>The elements of the columns\<close>

fun warning_text :: "warning_code \<Rightarrow> string" where
  "warning_text WarningUnknownCharset = ''unknown_charset''"
| "warning_text WarningUnknownTransferEncoding = ''unknown_transfer_encoding''"
| "warning_text WarningMalformedContentType = ''malformed_content_type''"
| "warning_text WarningMalformedDisposition = ''malformed_content_disposition''"
| "warning_text WarningInvalidSubject = ''invalid_subject''"
| "warning_text WarningInvalidAddress = ''invalid_address''"
| "warning_text WarningInvalidDate = ''invalid_date''"
| "warning_text WarningTextTruncated = ''text_truncated''"
| "warning_text WarningHTMLTruncated = ''html_truncated''"
| "warning_text WarningFilenameNormalized = ''filename_normalized''"
| "warning_text WarningListTruncated = ''warning_list_truncated''"

definition address_json :: "address \<Rightarrow> string" where
  "address_json a = json_object [(''name'', json_string (addr_name a)), (''address'', json_string (addr_address a))]"

definition attachment_json :: "attachment \<Rightarrow> string" where
  "attachment_json a = json_object
     [(''file_name'', json_string (att_file_name a)), (''part_path'', json_string (att_part_path a)),
      (''content_id'', json_string (att_content_id a)), (''size_bytes'', format_int (att_size a)),
      (''disposition'', json_string (att_disposition a)), (''content_type'', json_string (att_content_type a))]"

definition warning_json :: "warning \<Rightarrow> string" where
  "warning_json w = json_object
     [(''code'', json_string (warning_text (warn_code w))), (''detail'', json_string (warn_detail w)), (''part_path'', json_string (warn_part w))]"

text \<open>The strings of a message that reach a JSON column.\<close>

definition json_strings :: "parsed_message \<Rightarrow> string list" where
  "json_strings r =
     concat (map (\<lambda>a. [addr_name a, addr_address a]) (p_from r @ p_to r @ p_cc r)) @
     concat (map (\<lambda>a. [att_part_path a, att_file_name a, att_content_type a, att_disposition a, att_content_id a]) (p_attachments r)) @
     concat (map (\<lambda>w. [warn_part w, warn_detail w]) (p_warnings r))"

section \<open>The constraints\<close>

text \<open>
  PostgreSQL takes a text column only as valid UTF-8 without a NUL, and a \<^verbatim>\<open>jsonb\<close> string only without a NUL:
  otherwise the statement fails before any constraint is looked at.
\<close>

definition encodable :: "parsed_message \<Rightarrow> bool" where
  "encodable r \<longleftrightarrow> storable (p_subject r) \<and> storable (p_message_id r) \<and> storable (p_text r) \<and> storable (p_html r) \<and>
     list_all (\<lambda>s. CHR 0x00 \<notin> set s) (json_strings r)"

definition json_fits :: "parsed_message \<Rightarrow> bool" where
  "json_fits r \<longleftrightarrow>
     length (json_array (map address_json (p_from r))) \<le> 131072 \<and>
     length (json_array (map address_json (p_to r))) \<le> 131072 \<and>
     length (json_array (map address_json (p_cc r))) \<le> 131072 \<and>
     length (json_array (map attachment_json (p_attachments r))) \<le> 262144 \<and>
     length (json_array (map warning_json (p_warnings r))) \<le> 65536"

definition parse_checks :: "parse_row \<Rightarrow> bool" where
  "parse_checks row \<longleftrightarrow> (let r = pr_parsed row in
     0 < pr_revision row \<and>
     length (p_subject r) \<le> 998 \<and> length (p_message_id r) \<le> 998 \<and> length (p_text r) \<le> 524288 \<and> length (p_html r) \<le> 1048576 \<and>
     length (p_from r) \<le> 100 \<and> length (p_to r) \<le> 100 \<and> length (p_cc r) \<le> 100 \<and>
     length (p_attachments r) \<le> 100 \<and> length (p_warnings r) \<le> 100 \<and> json_fits r)"

definition parse_row_ok :: "parse_row \<Rightarrow> bool" where
  "parse_row_ok row \<longleftrightarrow> encodable (pr_parsed row) \<and> parse_checks row"

section \<open>How long the texts are\<close>

lemma json_escape_length: "1 \<le> length (json_escape c)"
  by (simp add: json_escape_def)

lemma json_utf8_length: "length s \<le> length (json_utf8 s)"
proof (induction s rule: json_utf8.induct)
  case (2 a s)
  have "rune_len (a # s) \<le> Suc (length s)" using rune_len_le [of "a # s"] by simp
  then show ?case using 2 by (auto simp del: rune_len.simps)
qed simp

lemma json_string_length: "length s \<le> length (json_string s)"
proof -
  have "length t \<le> length (concat (map json_escape t))" for t
    by (induction t) (use json_escape_length in \<open>auto intro: add_le_mono [of 1, simplified]\<close>)
  then show ?thesis using json_utf8_length [of s] by (simp add: json_string_def) (meson le_SucI le_trans)
qed

lemma comma_list_length: "sum_list (map length xs) \<le> length (comma_list xs)"
  by (induction xs rule: comma_list.induct) auto

lemma attachment_json_length: "length (att_content_type a) \<le> length (attachment_json a)"
  using json_string_length [of "att_content_type a"] by (simp add: attachment_json_def json_object_def)

text \<open>The column of the attachments is at least as long as the media types in it.\<close>

lemma attachments_json_length: "sum_list (map (\<lambda>a. length (att_content_type a)) as) \<le> length (json_array (map attachment_json as))"
proof -
  have "sum_list (map (\<lambda>a. length (att_content_type a)) as) \<le> sum_list (map length (map attachment_json as))"
    unfolding map_map comp_def by (rule sum_list_mono) (rule attachment_json_length)
  also have "\<dots> \<le> length (comma_list (map attachment_json as))" by (rule comma_list_length)
  finally show ?thesis by (simp add: json_array_def)
qed

lemma empty_parsed_ok: "0 < pr_revision row \<Longrightarrow> pr_parsed row = empty_parsed \<Longrightarrow> parse_row_ok row"
  by (simp add: parse_row_ok_def encodable_def parse_checks_def json_fits_def json_strings_def json_array_def empty_parsed_def)

end
