(* ===== verification/Db_Schema.thy ===== *)
theory Db_Schema
  imports Parse_Table Message_Delivery
begin

text \<open>
  The constraints of \<^verbatim>\<open>migrations/*.sql\<close> as an invariant \<open>db_wf\<close> of the database, one
  predicate per table, and the rules by which repository transactions keep an invariant: through
  every statement, every composition of statements, and every fault schedule.
\<close>

section \<open>Table constraints\<close>

definition key_valid :: "string \<Rightarrow> bool" where
  "key_valid k \<longleftrightarrow> has_prefix k ''sha256/'' \<and> length (drop 7 k) = 64 \<and> list_all lower_hex_char (drop 7 k)"

definition parse_lease_valid :: "content_row \<Rightarrow> bool" where
  "parse_lease_valid c \<longleftrightarrow>
     (mc_parse_status c = ''processing'' \<and> mc_lease_token c \<noteq> None \<and> mc_lease_until c \<noteq> None) \<or>
     (mc_parse_status c \<noteq> ''processing'' \<and> mc_lease_token c = None \<and> mc_lease_until c = None)"

definition parse_terminal_valid :: "content_row \<Rightarrow> bool" where
  "parse_terminal_valid c \<longleftrightarrow>
     (mc_parse_status c = ''parsed'' \<and> mc_error_code c = None) \<or>
     (mc_parse_status c = ''failed'' \<and> mc_error_code c \<noteq> None) \<or>
     mc_parse_status c \<in> {''pending'', ''processing''}"

definition content_row_ok :: "content_row \<Rightarrow> bool" where
  "content_row_ok c \<longleftrightarrow> key_valid (mc_key c) \<and> 0 \<le> mc_size c \<and> 0 \<le> mc_parse_attempts c \<and>
     parse_lease_valid c \<and> parse_terminal_valid c"

definition capability_row_ok :: "capability_row \<Rightarrow> bool" where
  "capability_row_ok c \<longleftrightarrow> length (cp_digest c) = 32 \<and> 0 < cp_scope_mask c \<and> cp_scope_mask c \<le> 31 \<and>
     cp_created c < cp_expires c \<and>
     (case cp_last_used c of None \<Rightarrow> True | Some t \<Rightarrow> cp_created c \<le> t) \<and>
     (case cp_revoked c of None \<Rightarrow> True | Some t \<Rightarrow> cp_created c \<le> t)"

definition wf_inboxes :: "db \<Rightarrow> bool" where
  "wf_inboxes d \<longleftrightarrow> distinct (map ib_id (inboxes d)) \<and> distinct (map ib_address (inboxes d))"

definition wf_contents :: "db \<Rightarrow> bool" where
  "wf_contents d \<longleftrightarrow> distinct (map mc_key (mail_contents d)) \<and> list_all content_row_ok (mail_contents d)"

definition wf_messages :: "db \<Rightarrow> bool" where
  "wf_messages d \<longleftrightarrow> distinct (map ms_id (messages d)) \<and>
     list_all (\<lambda>m. ms_inbox m \<in> ib_id ` set (inboxes d) \<and> ms_content m \<in> mc_key ` set (mail_contents d) \<and>
                   length (ms_sender m) \<le> 320) (messages d)"

definition wf_parses :: "db \<Rightarrow> bool" where
  "wf_parses d \<longleftrightarrow> distinct (map pr_key (content_parses d)) \<and>
     list_all (\<lambda>p. pr_key p \<in> mc_key ` set (mail_contents d) \<and> parse_row_ok p) (content_parses d)"

definition wf_capabilities :: "db \<Rightarrow> bool" where
  "wf_capabilities d \<longleftrightarrow> distinct (map cp_id (capabilities d)) \<and> distinct (map cp_kid (capabilities d)) \<and>
     distinct (List.map_filter cp_rotated_from (capabilities d)) \<and>
     list_all (\<lambda>c. cp_inbox c \<in> ib_id ` set (inboxes d) \<and> capability_row_ok c) (capabilities d)"

definition wf_queue :: "db \<Rightarrow> bool" where
  "wf_queue d \<longleftrightarrow> distinct (map dq_key (deletion_queue d)) \<and>
     list_all (\<lambda>q. key_valid (dq_key q) \<and> 0 \<le> dq_size q \<and> 0 < dq_generation q) (deletion_queue d)"

definition wf_quotas :: "db \<Rightarrow> bool" where
  "wf_quotas d \<longleftrightarrow> distinct (map (\<lambda>q. (qt_digest q, qt_bucket q)) (create_quotas d)) \<and>
     list_all (\<lambda>q. 0 < qt_used q) (create_quotas d)"

definition db_wf :: "db \<Rightarrow> bool" where
  "db_wf d \<longleftrightarrow> wf_inboxes d \<and> wf_contents d \<and> wf_messages d \<and> wf_parses d \<and> wf_capabilities d \<and>
     wf_queue d \<and> wf_quotas d"

lemmas wf_tables = wf_inboxes_def wf_contents_def wf_messages_def wf_parses_def wf_capabilities_def
  wf_queue_def wf_quotas_def

lemma db_wf_empty: "db_wf empty_db"
  by (simp add: db_wf_def wf_tables empty_db_def List.map_filter_simps)

text \<open>An update of one table only has to respect that table's constraints and what refers to it.\<close>

lemma db_wf_queue: "db_wf d \<Longrightarrow> wf_queue (d\<lparr>deletion_queue := q\<rparr>) \<Longrightarrow> db_wf (d\<lparr>deletion_queue := q\<rparr>)"
  by (simp add: db_wf_def wf_tables)

lemma db_wf_messages: "db_wf d \<Longrightarrow> wf_messages (d\<lparr>messages := m\<rparr>) \<Longrightarrow> db_wf (d\<lparr>messages := m\<rparr>)"
  by (simp add: db_wf_def wf_tables)

lemma db_wf_capabilities:
  "db_wf d \<Longrightarrow> wf_capabilities (d\<lparr>capabilities := c\<rparr>) \<Longrightarrow> db_wf (d\<lparr>capabilities := c\<rparr>)"
  by (simp add: db_wf_def wf_tables)

lemma db_wf_quotas: "db_wf d \<Longrightarrow> wf_quotas (d\<lparr>create_quotas := q\<rparr>) \<Longrightarrow> db_wf (d\<lparr>create_quotas := q\<rparr>)"
  by (simp add: db_wf_def wf_tables)

section \<open>Invariants through transactions\<close>

context db_invariant
begin

lemma keeps_return: "keeps (tx_return x)"
  by (rule keepsI) (simp add: tx_simps)

lemma keeps_fail: "keeps (tx_fail e)"
  by (rule keepsI) (simp add: tx_simps)

lemma keeps_bind:
  assumes "keeps m" and "\<And>x. keeps (k x)"
  shows "keeps (tx_bind m k)"
proof (rule keepsI)
  fix flt n d x n' d'
  assume d: "inv d" and b: "tx_bind m k flt (n, d) = (Inr x, n', d')"
  obtain y s1 where m: "m flt (n, d) = (Inr y, s1)" and k: "k y flt s1 = (Inr x, n', d')"
    using b by (auto simp: tx_bind_Inr)
  obtain n1 d1 where s1: "s1 = (n1, d1)" by (cases s1)
  have "inv d1" using assms(1) d m unfolding s1 keeps_def by blast
  then show "inv d'" using assms(2) k unfolding s1 keeps_def by blast
qed

lemma keeps_stmt:
  assumes "\<And>d x d'. inv d \<Longrightarrow> q d = Inr (x, d') \<Longrightarrow> inv d'"
  shows "keeps (stmt f q)"
proof (rule keepsI)
  fix flt n d x n' d'
  assume "inv d" "stmt f q flt (n, d) = (Inr x, n', d')"
  then show "inv d'" using assms by (auto simp: stmt_Inr simp del: stmt.simps)
qed

lemma keeps_query: "keeps (stmt f (query g))"
  by (rule keeps_stmt) (auto simp: query_def)

lemma keeps_map: "(\<And>x. keeps (f x)) \<Longrightarrow> keeps (tx_map f xs)"
  by (induction xs) (auto intro: keeps_bind keeps_return)

lemmas keeps_rules = keeps_bind keeps_return keeps_fail keeps_query keeps_map

end

interpretation wf: db_invariant db_wf .

section \<open>Rows by key\<close>

lemma wf_find_content: "db_wf d \<Longrightarrow> find_content d k = Some c \<longleftrightarrow> c \<in> set (mail_contents d) \<and> mc_key c = k"
  by (simp add: find_content_def find_keyed db_wf_def wf_contents_def)

lemma wf_find_inbox: "db_wf d \<Longrightarrow> find_inbox d i = Some r \<longleftrightarrow> r \<in> set (inboxes d) \<and> ib_id r = i"
  by (simp add: find_inbox_def find_keyed db_wf_def wf_inboxes_def)

lemma key_valid_ref: "content_ref_validate \<lparr>cr_key = k, cr_size = n\<rparr> = Inr () \<longleftrightarrow> key_valid k \<and> 0 \<le> n"
proof -
  have "(\<exists>dg. k = ''sha256/'' @ dg \<and> length dg = 64 \<and> list_all lower_hex_char dg) \<longleftrightarrow> key_valid k"
    by (auto simp: key_valid_def has_prefix_iff)
  then show ?thesis by (simp add: content_ref_validate_ok)
qed

section \<open>Usage of an Inbox\<close>

text \<open>The rows of \<^verbatim>\<open>messages JOIN mail_contents\<close> for one Inbox: their number and total size.\<close>

definition inbox_sizes :: "db \<Rightarrow> string \<Rightarrow> int list" where
  "inbox_sizes d i =
     concat (map (\<lambda>m. map mc_size (filter (\<lambda>c. mc_key c = ms_content m) (mail_contents d)))
       (filter (\<lambda>m. ms_inbox m = i) (messages d)))"

definition inbox_count :: "db \<Rightarrow> string \<Rightarrow> int" where
  "inbox_count d i = int (length (inbox_sizes d i))"

definition inbox_storage :: "db \<Rightarrow> string \<Rightarrow> int" where
  "inbox_storage d i = sum_list (inbox_sizes d i)"

lemma filter_key_singleton:
  "distinct (map f xs) \<Longrightarrow> x \<in> set xs \<Longrightarrow> filter (\<lambda>y. f y = f x) xs = [x]"
proof (induction xs)
  case (Cons a xs)
  show ?case
  proof (cases "x = a")
    case True
    with Cons.prems have "filter (\<lambda>y. f y = f x) xs = []" by (auto simp: filter_empty_conv) (metis image_eqI)
    with True show ?thesis by simp
  next
    case False
    with Cons show ?thesis by (auto simp: image_iff)
  qed
qed simp

lemma inbox_sizes_nonneg: "db_wf d \<Longrightarrow> n \<in> set (inbox_sizes d i) \<Longrightarrow> 0 \<le> n"
  by (auto simp: inbox_sizes_def db_wf_def wf_contents_def list_all_iff content_row_ok_def)

lemma inbox_storage_nonneg: "db_wf d \<Longrightarrow> 0 \<le> inbox_storage d i"
  unfolding inbox_storage_def by (rule sum_list_nonneg) (rule inbox_sizes_nonneg)

end
