(* ===== verification/Content_Store.thy ===== *)
theory Content_Store
  imports Db_Schema "HOL-Library.Sublist"
begin

text \<open>
  \<^verbatim>\<open>internal/contentstore/store.go\<close>: the content-addressed object store.

  The state has the directory entries a reader sees (\<open>st_objects\<close>, by path relative to the objects
  root) and those that survive a crash (\<open>st_durable\<close>); \<^verbatim>\<open>fsync\<close> of a directory copies the first to
  the second for the entries of that directory. \<^verbatim>\<open>put\<close> is cut into the stages between which other
  goroutines can run: staging the bytes, preparing the object directory, linking, and finishing.
  The environment of a call gives the answers of the operating system (free space, temporary name,
  the failure of any operation) and when the context is cancelled. SHA-256 is a parameter. An \<^verbatim>\<open>fsync\<close> of
  the staging file that succeeds has no effect on the model: an object that is in its directory has its bytes.
\<close>

section \<open>State\<close>

datatype store_op =
    OpAbs | OpFreeSpace | OpCreateTemp | OpChmod | OpWrite | OpSync | OpClose | OpLink | OpStat
  | OpRemoveStaging | OpOpenRoot | OpOpenObject | OpReadObject | OpRemoveObject
  | OpReadDir | OpInfo string | OpPrune string | OpMkdir "string list" | OpSyncDir "string list" | OpSyncLinked

record stage_entry =
  se_name :: string
  se_isDir :: bool
  se_modTime :: time
  se_data :: bytes

record store_options =
  so_maxBytes :: int
  so_minFreeBytes :: int

record store =
  st_root :: "string list"
  st_maxBytes :: int
  st_minFreeBytes :: int
  st_reserved :: int
  st_objects :: "string \<Rightarrow> bytes option"
  st_durable :: "string \<Rightarrow> bytes option"
  st_staging :: "stage_entry list"
  st_leases :: nat

record store_env =
  sv_flt :: "store_op \<Rightarrow> go_error option"
  sv_available :: int
  sv_temp :: string
  sv_now :: time
  sv_ctx :: "nat \<Rightarrow> go_error option"
  sv_cancel :: "(nat \<times> bool) option"

definition digestBytes :: nat where
  "digestBytes = 32"

definition digestHexLength :: nat where
  "digestHexLength = digestBytes * 2"

section \<open>Keys and paths\<close>

definition relativePathForKey :: "string \<Rightarrow> string result" where
  "relativePathForKey key =
     (if \<not> has_prefix key ''sha256/'' then Inl ErrInvalidKey
      else let digest = trim_prefix key ''sha256/'' in
        if length digest \<noteq> digestHexLength \<or> to_lower digest \<noteq> digest then Inl ErrInvalidKey
        else case hex_decode digest of
            None \<Rightarrow> Inl ErrInvalidKey
          | Some decoded \<Rightarrow>
              if length decoded \<noteq> digestBytes then Inl ErrInvalidKey
              else Inr (take 2 digest @ ''/'' @ take 2 (drop 2 digest) @ ''/'' @ digest))"

text \<open>Paths as component lists; the directory of an object path and \<^verbatim>\<open>filepath.Dir\<close> of an absolute path.\<close>

definition objectsRoot :: "store \<Rightarrow> string list" where
  "objectsRoot s = st_root s @ [''objects'', ''sha256'']"

definition stagingRoot :: "store \<Rightarrow> string list" where
  "stagingRoot s = st_root s @ [''staging'']"

definition object_dir :: "string \<Rightarrow> string" where
  "object_dir p = take 5 p"

definition object_dir_path :: "store \<Rightarrow> string \<Rightarrow> string list" where
  "object_dir_path s p = objectsRoot s @ [take 2 p, take 2 (drop 3 p)]"

definition isWithinRoot :: "string list \<Rightarrow> string list \<Rightarrow> bool" where
  "isWithinRoot root candidate \<longleftrightarrow> prefix root candidate"

text \<open>The loop of \<^verbatim>\<open>syncDirectoryTree\<close>; the second result lists the directories synced.\<close>

function syncDirectoryTree :: "(store_op \<Rightarrow> go_error option) \<Rightarrow> string list \<Rightarrow> string list \<Rightarrow> unit result \<times> string list list" where
  "syncDirectoryTree flt root current =
     (case flt (OpSyncDir current) of
        Some e \<Rightarrow> (Inl e, [])
      | None \<Rightarrow>
          if current = root then (Inr (), [current])
          else let parent = butlast current in
            if parent = current \<or> \<not> isWithinRoot root parent
            then (Inl (OtherError ''directory tree escapes content store root''), [current])
            else case syncDirectoryTree flt root parent of (r, ds) \<Rightarrow> (r, current # ds))"
  by pat_completeness auto

termination
proof (relation "measure (\<lambda>(flt, root, current). length current)", goal_cases)
  case (2 flt root current)
  then show ?case by (cases current) auto
qed simp

declare syncDirectoryTree.simps [simp del]

definition sync_objects :: "string \<Rightarrow> store \<Rightarrow> store" where
  "sync_objects dir s = s\<lparr>st_durable := (\<lambda>p. if object_dir p = dir then st_objects s p else st_durable s p)\<rparr>"

section \<open>Opening\<close>

fun mkdirs :: "(store_op \<Rightarrow> go_error option) \<Rightarrow> string list list \<Rightarrow> unit result" where
  "mkdirs flt [] = Inr ()"
| "mkdirs flt (d # ds) = (case flt (OpMkdir d) of Some e \<Rightarrow> Inl e | None \<Rightarrow> mkdirs flt ds)"

text \<open>\<open>abspath\<close> is \<^verbatim>\<open>filepath.Abs\<close>; \<open>objs\<close> and \<open>staged\<close> are what the directories already hold.\<close>

definition Open :: "(string \<Rightarrow> string list result) \<Rightarrow> (store_op \<Rightarrow> go_error option) \<Rightarrow> string \<Rightarrow> store_options \<Rightarrow>
    (string \<Rightarrow> bytes option) \<Rightarrow> stage_entry list \<Rightarrow> store result" where
  "Open abspath flt root opts objs staged =
     (if trim_space root = [] then Inl (OtherError ''content store root is required'')
      else if so_maxBytes opts \<le> 0 then Inl (OtherError ''content store max bytes must be positive'')
      else if so_minFreeBytes opts < 0 then Inl (OtherError ''content store minimum free bytes must not be negative'')
      else case abspath root of
          Inl e \<Rightarrow> Inl e
        | Inr absoluteRoot \<Rightarrow>
            let s = \<lparr>st_root = absoluteRoot, st_maxBytes = so_maxBytes opts, st_minFreeBytes = so_minFreeBytes opts,
                     st_reserved = 0, st_objects = objs, st_durable = objs, st_staging = staged, st_leases = 0\<rparr>
            in case mkdirs flt [st_root s, objectsRoot s, stagingRoot s] of
                 Inl e \<Rightarrow> Inl e
               | Inr _ \<Rightarrow>
                   (case fst (syncDirectoryTree flt (st_root s) (stagingRoot s)) of
                      Inl e \<Rightarrow> Inl e
                    | Inr _ \<Rightarrow>
                        (case fst (syncDirectoryTree flt (st_root s) (objectsRoot s)) of
                           Inl e \<Rightarrow> Inl e
                         | Inr _ \<Rightarrow> Inr s)))"

section \<open>Capacity\<close>

definition isDiskFull :: "go_error \<Rightarrow> bool" where
  "isDiskFull e \<longleftrightarrow> e = ErrNoSpace"

definition wrapStorageError :: "go_error \<Rightarrow> go_error" where
  "wrapStorageError e = (if isDiskFull e then ErrInsufficientStorage else e)"

definition checkCapacityLocked :: "store_env \<Rightarrow> nat \<Rightarrow> int \<Rightarrow> store \<Rightarrow> unit result" where
  "checkCapacityLocked env k requested s =
     (case sv_flt env OpFreeSpace of
        Some e \<Rightarrow> Inl e
      | None \<Rightarrow>
          (case sv_ctx env k of
             Some e \<Rightarrow> Inl e
           | None \<Rightarrow>
               if st_minFreeBytes s < 0 \<or> requested < 0 \<or> st_reserved s < 0
               then Inl (OtherError ''content capacity accounting invariant violated'')
               else let availableBytes = (if sv_available env \<le> max_int64 then sv_available env else max_int64) in
                 if availableBytes < st_minFreeBytes s \<or> st_reserved s > availableBytes - st_minFreeBytes s \<or>
                    requested > availableBytes - st_minFreeBytes s - st_reserved s
                 then Inl ErrInsufficientStorage else Inr ()))"

definition store_CheckCapacity :: "ctx \<Rightarrow> store_env \<Rightarrow> store \<Rightarrow> unit result" where
  "store_CheckCapacity ctx env s =
     (if ctx = NilCtx then Inl (OtherError ''content capacity context is required'')
      else case sv_ctx env 0 of Some e \<Rightarrow> Inl e | None \<Rightarrow> checkCapacityLocked env 1 (st_maxBytes s) s)"

definition reserve :: "ctx \<Rightarrow> store_env \<Rightarrow> store \<Rightarrow> unit result \<times> store" where
  "reserve ctx env s =
     (if ctx = NilCtx then (Inl (OtherError ''content capacity context is required''), s)
      else case sv_ctx env 1 of
          Some e \<Rightarrow> (Inl e, s)
        | None \<Rightarrow>
            (case checkCapacityLocked env 2 (st_maxBytes s) s of
               Inl e \<Rightarrow> (Inl e, s)
             | Inr _ \<Rightarrow> (Inr (), s\<lparr>st_reserved := wrap64 (st_reserved s + st_maxBytes s)\<rparr>)))"

definition release :: "store \<Rightarrow> store" where
  "release s = s\<lparr>st_reserved := wrap64 (st_reserved s - st_maxBytes s)\<rparr>"

section \<open>Reading and verifying\<close>

text \<open>
  A reader is the bytes it delivers and the error that ends them (\<open>EOF\<close> at a regular end). The
  \<^verbatim>\<open>contextReader\<close> replaces the rest of the stream, from the read at which the context is found
  cancelled or timed out, by the context's error.
\<close>

type_synonym byte_source = "bytes \<times> go_error"

definition ctx_error :: "bool \<Rightarrow> go_error" where
  "ctx_error timed_out = (if timed_out then DeadlineExceeded else ContextCanceled)"

fun contextReader :: "(nat \<times> bool) option \<Rightarrow> byte_source \<Rightarrow> byte_source" where
  "contextReader None src = src"
| "contextReader (Some (n, timed_out)) (content, end') =
     (if n \<le> length content then (take n content, ctx_error timed_out) else (content, end'))"

definition OpenContent :: "(store_op \<Rightarrow> go_error option) \<Rightarrow> content_ref \<Rightarrow> store \<Rightarrow> bytes result" where
  "OpenContent flt ref s =
     (case relativePathForKey (cr_key ref) of
        Inl e \<Rightarrow> Inl e
      | Inr relativePath \<Rightarrow>
          (case flt OpOpenRoot of
             Some e \<Rightarrow> Inl e
           | None \<Rightarrow>
               (case flt OpOpenObject of
                  Some e \<Rightarrow> Inl e
                | None \<Rightarrow> (case st_objects s relativePath of None \<Rightarrow> Inl ErrNotExist | Some b \<Rightarrow> Inr b))))"

definition OpenRaw :: "ctx \<Rightarrow> (store_op \<Rightarrow> go_error option) \<Rightarrow> content_ref \<Rightarrow> store \<Rightarrow> bytes result" where
  "OpenRaw ctx flt ref s =
     (if ctx = NilCtx then Inl (OtherError ''content open context is required'')
      else case ctx_err ctx of Some e \<Rightarrow> Inl e | None \<Rightarrow> OpenContent flt ref s)"

definition object_key :: "(bytes \<Rightarrow> bytes) \<Rightarrow> bytes \<Rightarrow> string" where
  "object_key sha256 content = ''sha256/'' @ hex_encode (sha256 content)"

definition Verify :: "(bytes \<Rightarrow> bytes) \<Rightarrow> store_env \<Rightarrow> content_ref \<Rightarrow> store \<Rightarrow> unit result" where
  "Verify sha256 env ref s =
     (if cr_size ref < 0 then Inl ErrContentCorrupt
      else case OpenContent (sv_flt env) ref s of
          Inl e \<Rightarrow> Inl e
        | Inr file \<Rightarrow>
            (case contextReader (sv_cancel env) (file, (case sv_flt env OpReadObject of None \<Rightarrow> EOF | Some e \<Rightarrow> e)) of
               (content, end') \<Rightarrow>
                 if end' \<noteq> EOF then Inl end'
                 else if int (length content) \<noteq> cr_size ref then Inl ErrContentCorrupt
                 else if cr_key ref \<noteq> object_key sha256 content then Inl ErrContentCorrupt
                 else Inr ()))"

section \<open>Writing\<close>

text \<open>
  \<^verbatim>\<open>io.CopyBuffer\<close> of the \<^verbatim>\<open>LimitReader\<close> with limit \<^verbatim>\<open>maxBytes+1\<close>: what is written, or the error.
\<close>

definition put_copy :: "store_env \<Rightarrow> int \<Rightarrow> byte_source \<Rightarrow> bytes result" where
  "put_copy env maxBytes src =
     (let limit = wrap64 (maxBytes + 1) in
      if limit \<le> 0 then Inr []
      else case contextReader (sv_cancel env) src of (content, end') \<Rightarrow>
        (case sv_flt env OpWrite of
           Some e \<Rightarrow> Inl e
         | None \<Rightarrow>
             if int (length content) \<ge> limit then Inr (take (nat limit) content)
             else if end' = EOF then Inr content else Inl end'))"

definition stage_name :: "store_env \<Rightarrow> string" where
  "stage_name env = ''content-'' @ sv_temp env @ ''.stage''"

definition remove_staging :: "store_env \<Rightarrow> store \<Rightarrow> store" where
  "remove_staging env s = s\<lparr>st_staging := filter (\<lambda>x. se_name x \<noteq> stage_name env) (st_staging s)\<rparr>"

text \<open>The deferred clean-up of \<^verbatim>\<open>put\<close>: the staging file (unless it is kept) and the reservation.\<close>

definition put_abort :: "store_env \<Rightarrow> store \<Rightarrow> store" where
  "put_abort env s = release (remove_staging env s)"

text \<open>
  Stage 1: reserve space and stream the source into a synced, closed staging file. \<^verbatim>\<open>os.CreateTemp\<close> tries
  random names; \<open>sv_temp\<close> is the last one tried, and the call fails if that one is taken too.
\<close>

definition put_stage :: "ctx \<Rightarrow> byte_source option \<Rightarrow> store_env \<Rightarrow> store \<Rightarrow> bytes result \<times> store" where
  "put_stage ctx source env s =
     (case source of
        None \<Rightarrow> (Inl (OtherError ''content source is required''), s)
      | Some src \<Rightarrow>
          (case sv_ctx env 0 of
             Some e \<Rightarrow> (Inl e, s)
           | None \<Rightarrow>
               (case reserve ctx env s of
                  (Inl e, s1) \<Rightarrow> (Inl e, s1)
                | (Inr _, s1) \<Rightarrow>
                    (case sv_flt env OpCreateTemp of
                       Some e \<Rightarrow> (Inl (wrapStorageError e), release s1)
                     | None \<Rightarrow>
                         if stage_name env \<in> se_name ` set (st_staging s1) then (Inl (OtherError ''file exists''), release s1)
                         else let staged = (\<lambda>b. s1\<lparr>st_staging := st_staging s1 @
                               [\<lparr>se_name = stage_name env, se_isDir = False, se_modTime = sv_now env, se_data = b\<rparr>]\<rparr>)
                         in case sv_flt env OpChmod of
                              Some e \<Rightarrow> (Inl e, put_abort env (staged []))
                            | None \<Rightarrow>
                                (case put_copy env (st_maxBytes s1) src of
                                   Inl e \<Rightarrow> (Inl (wrapStorageError e), put_abort env (staged []))
                                 | Inr content \<Rightarrow>
                                     if int (length content) > st_maxBytes s1
                                     then (Inl ErrContentTooLarge, put_abort env (staged content))
                                     else case sv_ctx env 3 of
                                         Some e \<Rightarrow> (Inl e, put_abort env (staged content))
                                       | None \<Rightarrow>
                                           (case sv_flt env OpSync of
                                              Some e \<Rightarrow> (Inl (wrapStorageError e), put_abort env (staged content))
                                            | None \<Rightarrow>
                                                (case sv_flt env OpClose of
                                                   Some e \<Rightarrow> (Inl (wrapStorageError e), put_abort env (staged content))
                                                 | None \<Rightarrow> (Inr content, staged content))))))))"

text \<open>Stage 2: create and sync the directories above the object's path.\<close>

definition put_prepare :: "(bytes \<Rightarrow> bytes) \<Rightarrow> store_env \<Rightarrow> bytes \<Rightarrow> store \<Rightarrow> string result \<times> store" where
  "put_prepare sha256 env content s =
     (case relativePathForKey (object_key sha256 content) of
        Inl e \<Rightarrow> (Inl e, put_abort env s)
      | Inr p \<Rightarrow>
          (case sv_flt env (OpMkdir (object_dir_path s p)) of
             Some e \<Rightarrow> (Inl (wrapStorageError e), put_abort env s)
           | None \<Rightarrow>
               (case syncDirectoryTree (sv_flt env) (objectsRoot s) (object_dir_path s p) of
                  (Inl e, ds) \<Rightarrow>
                    (Inl (wrapStorageError e), put_abort env (if object_dir_path s p \<in> set ds then sync_objects (object_dir p) s else s))
                | (Inr _, _) \<Rightarrow> (Inr p, sync_objects (object_dir p) s))))"

text \<open>Stage 3: \<^verbatim>\<open>os.Link\<close>, which installs the object or finds the path taken.\<close>

datatype link_result = Linked | LinkExists | LinkFailed go_error

definition put_link :: "store_env \<Rightarrow> string \<Rightarrow> bytes \<Rightarrow> store \<Rightarrow> link_result \<times> store" where
  "put_link env p content s =
     (case sv_flt env OpLink of
        Some e \<Rightarrow> (LinkFailed e, s)
      | None \<Rightarrow>
          (case st_objects s p of
             Some _ \<Rightarrow> (LinkExists, s)
           | None \<Rightarrow> (Linked, s\<lparr>st_objects := (st_objects s)(p \<mapsto> content)\<rparr>)))"

text \<open>
  Stage 4: make the link durable or verify the existing object, then remove the staging file. The second sync of
  the object directory can fail on its own (\<open>OpSyncLinked\<close>): then the object stays linked and not durable, and the
  staging file is kept.
\<close>

definition put_cleanup :: "store_env \<Rightarrow> content_ref \<Rightarrow> store \<Rightarrow> content_ref result \<times> store" where
  "put_cleanup env ref s =
     (case sv_flt env OpRemoveStaging of
        Some e \<Rightarrow>
          if e = ErrNotExist then
            (case sv_flt env (OpSyncDir (stagingRoot s)) of
               Some e \<Rightarrow> (Inl (wrapStorageError e), put_abort env s)
             | None \<Rightarrow> (Inr ref, put_abort env s))
          else (Inl e, release s)
      | None \<Rightarrow>
          (case sv_flt env (OpSyncDir (stagingRoot s)) of
             Some e \<Rightarrow> (Inl (wrapStorageError e), put_abort env s)
           | None \<Rightarrow> (Inr ref, put_abort env s)))"

definition put_finish :: "(bytes \<Rightarrow> bytes) \<Rightarrow> store_env \<Rightarrow> string \<Rightarrow> bytes \<Rightarrow> link_result \<Rightarrow> store \<Rightarrow> content_ref result \<times> store" where
  "put_finish sha256 env p content linkErr s =
     (let ref = \<lparr>cr_key = object_key sha256 content, cr_size = int (length content)\<rparr> in
      case linkErr of
        Linked \<Rightarrow>
          (case sv_flt env OpSyncLinked of
             Some e \<Rightarrow> (Inl (wrapStorageError e), release s)
           | None \<Rightarrow> put_cleanup env ref (sync_objects (object_dir p) s))
      | LinkExists \<Rightarrow>
          (case sv_flt env OpStat of
             Some e \<Rightarrow> (Inl e, put_abort env s)
           | None \<Rightarrow>
               (case st_objects s p of
                  None \<Rightarrow> (Inl ErrNotExist, put_abort env s)
                | Some b \<Rightarrow>
                    if length b \<noteq> length content then (Inl ErrContentCorrupt, put_abort env s)
                    else case Verify sha256 env ref s of
                        Inl e \<Rightarrow> (Inl e, put_abort env s)
                      | Inr _ \<Rightarrow> put_cleanup env ref s))
      | LinkFailed e \<Rightarrow> (Inl (wrapStorageError e), put_abort env s))"

definition put :: "(bytes \<Rightarrow> bytes) \<Rightarrow> ctx \<Rightarrow> byte_source option \<Rightarrow> store_env \<Rightarrow> store \<Rightarrow> content_ref result \<times> store" where
  "put sha256 ctx source env s =
     (case put_stage ctx source env s of
        (Inl e, s1) \<Rightarrow> (Inl e, s1)
      | (Inr content, s1) \<Rightarrow>
          (case put_prepare sha256 env content s1 of
             (Inl e, s2) \<Rightarrow> (Inl e, s2)
           | (Inr p, s2) \<Rightarrow>
               (case put_link env p content s2 of
                  (l, s3) \<Rightarrow> put_finish sha256 env p content l s3)))"

text \<open>
  \<^verbatim>\<open>lifecycleMu\<close> is held for reading by every write from before its first byte until the caller releases the
  lease; \<open>st_leases\<close> counts the holders. \<^verbatim>\<open>Delete\<close> and \<^verbatim>\<open>DeleteUnreferenced\<close> take it for writing: they
  run only while no lease is held.
\<close>

definition release_lease :: "store \<Rightarrow> store" where
  "release_lease s = s\<lparr>st_leases := st_leases s - 1\<rparr>"

definition PutLeased :: "(bytes \<Rightarrow> bytes) \<Rightarrow> ctx \<Rightarrow> byte_source option \<Rightarrow> store_env \<Rightarrow> store \<Rightarrow> content_ref result \<times> store" where
  "PutLeased sha256 ctx source env s =
     (case put sha256 ctx source env (s\<lparr>st_leases := Suc (st_leases s)\<rparr>) of
        (Inl e, s') \<Rightarrow> (Inl e, release_lease s')
      | (Inr ref, s') \<Rightarrow> (Inr ref, s'))"

definition Put :: "(bytes \<Rightarrow> bytes) \<Rightarrow> ctx \<Rightarrow> byte_source option \<Rightarrow> store_env \<Rightarrow> store \<Rightarrow> content_ref result \<times> store" where
  "Put sha256 ctx source env s =
     (case PutLeased sha256 ctx source env s of
        (Inl e, s') \<Rightarrow> (Inl e, s')
      | (Inr ref, s') \<Rightarrow> (Inr ref, release_lease s'))"

section \<open>Deleting\<close>

definition deleteLocked :: "store_env \<Rightarrow> content_ref \<Rightarrow> store \<Rightarrow> unit result \<times> store" where
  "deleteLocked env ref s =
     (case relativePathForKey (cr_key ref) of
        Inl e \<Rightarrow> (Inl e, s)
      | Inr p \<Rightarrow>
          (case sv_flt env OpRemoveObject of
             Some e \<Rightarrow> (if e = ErrNotExist then Inr () else Inl e, s)
           | None \<Rightarrow>
               (case st_objects s p of
                  None \<Rightarrow> (Inr (), s)
                | Some _ \<Rightarrow>
                    let s1 = s\<lparr>st_objects := (st_objects s)(p := None)\<rparr>
                    in case sv_flt env (OpSyncDir (object_dir_path s p)) of
                         Some e \<Rightarrow> (Inl e, s1)
                       | None \<Rightarrow> (Inr (), sync_objects (object_dir p) s1))))"

definition Delete :: "store_env \<Rightarrow> content_ref \<Rightarrow> store \<Rightarrow> unit result \<times> store" where
  "Delete env ref s = deleteLocked env ref s"

text \<open>\<open>referenced\<close> is the callback: the database's answer at the time of the call, or its error.\<close>

definition DeleteUnreferenced :: "store_env \<Rightarrow> content_ref \<Rightarrow> (string \<Rightarrow> bool result) option \<Rightarrow> store \<Rightarrow> bool result \<times> store" where
  "DeleteUnreferenced env ref referenced s =
     (case referenced of
        None \<Rightarrow> (Inl (OtherError ''content reference check is required''), s)
      | Some check \<Rightarrow>
          (case check (cr_key ref) of
             Inl e \<Rightarrow> (Inl e, s)
           | Inr retained \<Rightarrow>
               if retained then (Inr False, s)
               else case deleteLocked env ref s of
                   (Inl e, s') \<Rightarrow> (Inl e, s')
                 | (Inr _, s') \<Rightarrow> (Inr True, s')))"

section \<open>Pruning\<close>

fun prune_loop :: "store_env \<Rightarrow> time \<Rightarrow> nat \<Rightarrow> int \<Rightarrow> stage_entry list \<Rightarrow> store \<Rightarrow> (int \<times> go_error option) \<times> store" where
  "prune_loop env cutoff k removed [] s = ((removed, None), s)"
| "prune_loop env cutoff k removed (x # xs) s =
     (case sv_ctx env k of
        Some e \<Rightarrow> ((removed, Some e), s)
      | None \<Rightarrow>
          if se_isDir x \<or> \<not> has_prefix (se_name x) ''content-'' \<or> \<not> has_suffix (se_name x) ''.stage''
          then prune_loop env cutoff (Suc k) removed xs s
          else case sv_flt env (OpInfo (se_name x)) of
              Some e \<Rightarrow> ((removed, Some e), s)
            | None \<Rightarrow>
                if \<not> se_modTime x < cutoff then prune_loop env cutoff (Suc k) removed xs s
                else (case sv_flt env (OpPrune (se_name x)) of
                        None \<Rightarrow> prune_loop env cutoff (Suc k) (removed + 1) xs
                          (s\<lparr>st_staging := filter (\<lambda>y. se_name y \<noteq> se_name x) (st_staging s)\<rparr>)
                      | Some e \<Rightarrow>
                          if e = ErrNotExist then prune_loop env cutoff (Suc k) (removed + 1) xs s
                          else ((removed, Some e), s)))"

definition PruneStaging :: "store_env \<Rightarrow> time \<Rightarrow> store \<Rightarrow> (int \<times> go_error option) \<times> store" where
  "PruneStaging env cutoff s =
     (case sv_flt env OpReadDir of
        Some e \<Rightarrow> ((0, Some e), s)
      | None \<Rightarrow>
          (case prune_loop env cutoff 0 0 (st_staging s) s of
             ((removed, Some e), s') \<Rightarrow> ((removed, Some e), s')
           | ((removed, None), s') \<Rightarrow>
               if removed > 0 then
                 (case sv_flt env (OpSyncDir (stagingRoot s')) of
                    Some e \<Rightarrow> ((removed, Some e), s')
                  | None \<Rightarrow> ((removed, None), s'))
               else ((removed, None), s')))"

text \<open>
  After a crash the directories show their durable entries, the staging files remain, nothing is reserved
  and no lease is held.
\<close>

definition crash :: "store \<Rightarrow> store" where
  "crash s = s\<lparr>st_objects := st_durable s, st_reserved := 0, st_leases := 0\<rparr>"

section \<open>Paths\<close>

definition object_path :: "string \<Rightarrow> string" where
  "object_path key = (let digest = drop 7 key in take 2 digest @ ''/'' @ take 2 (drop 2 digest) @ ''/'' @ digest)"

lemma relativePathForKey_Inr: "relativePathForKey key = Inr p \<longleftrightarrow> key_valid key \<and> p = object_path key"
proof (cases "has_prefix key ''sha256/''")
  case True
  then obtain dg where k: "key = ''sha256/'' @ dg" by (auto simp: has_prefix_iff)
  have half: "hex_decode dg = Some b \<Longrightarrow> length dg = 64 \<Longrightarrow> length b = 32" for b
    using hex_decode_length [of dg b] by simp
  have "relativePathForKey key = Inr p \<longleftrightarrow>
      (length dg = 64 \<and> to_lower dg = dg \<and> (\<exists>b. hex_decode dg = Some b)) \<and> p = object_path key"
    using half by (auto simp: k relativePathForKey_def object_path_def digestHexLength_def digestBytes_def Let_def
        trim_prefix_def has_prefix_def split: option.splits if_splits)
  then show ?thesis unfolding digest_format_iff by (simp add: k key_valid_def)
qed (simp add: relativePathForKey_def key_valid_def)

lemma relativePathForKey_valid: "key_valid key \<Longrightarrow> relativePathForKey key = Inr (object_path key)"
  by (simp add: relativePathForKey_Inr)

lemma relativePathForKey_Inl: "relativePathForKey key = Inl e \<Longrightarrow> e = ErrInvalidKey"
  by (auto simp: relativePathForKey_def Let_def split: if_splits option.splits)

lemma object_path_inj: "key_valid k \<Longrightarrow> key_valid k' \<Longrightarrow> object_path k = object_path k' \<Longrightarrow> k = k'"
proof -
  assume k: "key_valid k" "key_valid k'" and eq: "object_path k = object_path k'"
  obtain d d' where d: "k = ''sha256/'' @ d" "k' = ''sha256/'' @ d'" "length d = 64" "length d' = 64"
    using k by (auto simp: key_valid_def has_prefix_iff)
  have "drop 6 (object_path k) = d" "drop 6 (object_path k') = d'" using d by (simp_all add: object_path_def)
  with eq d show ?thesis by simp
qed

lemma object_key_valid: "length (sha256 b) = 32 \<Longrightarrow> key_valid (object_key sha256 b)"
  by (simp add: object_key_def key_valid_def)

section \<open>The directory walk\<close>

text \<open>
  \<^verbatim>\<open>syncDirectoryTree\<close> terminates on every pair of paths. It succeeds exactly when the leaf lies
  under the root and every directory from the leaf up to the root could be synced, and then it has synced
  precisely those directories, from the leaf upwards; it never leaves the root.
\<close>

theorem syncDirectoryTree_spec:
  "(fst (syncDirectoryTree flt root leaf) = Inr () \<longleftrightarrow>
      prefix root leaf \<and> (\<forall>d. prefix root d \<longrightarrow> prefix d leaf \<longrightarrow> flt (OpSyncDir d) = None)) \<and>
   (fst (syncDirectoryTree flt root leaf) = Inr () \<longrightarrow>
      set (snd (syncDirectoryTree flt root leaf)) = {d. prefix root d \<and> prefix d leaf}) \<and>
   (\<forall>d \<in> set (snd (syncDirectoryTree flt root leaf)). d = leaf \<or> prefix root d)"
proof (induction flt root leaf rule: syncDirectoryTree.induct)
  case (1 flt root current)
  show ?case
  proof (cases "flt (OpSyncDir current) \<noteq> None \<or> current = root")
    case True
    then show ?thesis by (subst (1 2 3 4) syncDirectoryTree.simps) (auto split: option.splits dest: prefix_order.antisym)
  next
    case False
    then have f: "flt (OpSyncDir current) = None" "current \<noteq> root" by auto
    show ?thesis
    proof (cases "butlast current = current \<or> \<not> isWithinRoot root (butlast current)")
      case True
      then have "\<not> prefix root current"
        using f(2) by (cases current rule: rev_cases) (auto simp: isWithinRoot_def)
      then show ?thesis using f True by (subst (1 2 3 4) syncDirectoryTree.simps) (auto simp: Let_def)
    next
      case nest: False
      then have p: "prefix root (butlast current)" by (simp add: isWithinRoot_def)
      obtain xs x where c: "current = xs @ [x]" using nest by (cases current rule: rev_cases) auto
      obtain r ds where rec: "syncDirectoryTree flt root xs = (r, ds)" by fastforce
      have unf: "syncDirectoryTree flt root current = (r, current # ds)"
        using f nest rec by (subst syncDirectoryTree.simps) (simp add: Let_def c)
      have IH: "(r = Inr () \<longleftrightarrow> (\<forall>d. prefix root d \<longrightarrow> prefix d xs \<longrightarrow> flt (OpSyncDir d) = None)) \<and>
          (r = Inr () \<longrightarrow> set ds = {d. prefix root d \<and> prefix d xs}) \<and> (\<forall>d \<in> set ds. d = xs \<or> prefix root d)"
        using "1.IH" [OF f refl nest] p by (simp add: c rec)
      have pc: "prefix root current" "\<And>d. prefix d current \<longleftrightarrow> d = current \<or> prefix d xs"
        using p by (auto simp: c)
      show ?thesis unfolding unf fst_conv snd_conv using IH pc f(1) p c by auto
    qed
  qed
qed

section \<open>Capacity accounting\<close>

lemma reserve_Inr:
  assumes "reserve ctx env s = (Inr (), s')"
  shows "ctx \<noteq> NilCtx" "0 \<le> st_reserved s" "0 \<le> st_minFreeBytes s" "0 \<le> st_maxBytes s"
    "st_reserved s + st_maxBytes s + st_minFreeBytes s \<le> min (sv_available env) max_int64"
    "s' = s\<lparr>st_reserved := st_reserved s + st_maxBytes s\<rparr>"
proof -
  show c: "ctx \<noteq> NilCtx" "0 \<le> st_reserved s" "0 \<le> st_minFreeBytes s" "0 \<le> st_maxBytes s"
    and b: "st_reserved s + st_maxBytes s + st_minFreeBytes s \<le> min (sv_available env) max_int64"
    using assms by (auto simp: reserve_def checkCapacityLocked_def Let_def split: if_splits option.splits sum.splits)
  have "s' = s\<lparr>st_reserved := wrap64 (st_reserved s + st_maxBytes s)\<rparr>"
    using assms by (auto simp: reserve_def split: if_splits option.splits sum.splits)
  moreover have "wrap64 (st_reserved s + st_maxBytes s) = st_reserved s + st_maxBytes s"
    using b c by (intro wrap64_id) auto
  ultimately show "s' = s\<lparr>st_reserved := st_reserved s + st_maxBytes s\<rparr>" by simp
qed

lemma reserve_Inl: "reserve ctx env s = (Inl e, s') \<Longrightarrow> s' = s"
  by (auto simp: reserve_def split: if_splits option.splits sum.splits)

lemma release_reserved:
  "reserve ctx env s = (Inr (), s') \<Longrightarrow> st_reserved t = st_reserved s' \<Longrightarrow> st_maxBytes t = st_maxBytes s \<Longrightarrow>
     release t = t\<lparr>st_reserved := st_reserved s\<rparr>"
  using reserve_Inr [of ctx env s s'] by (simp add: release_def wrap64_id max_int64_def)

text \<open>
  Admission control keeps the free-space floor: when \<^verbatim>\<open>reserve\<close> grants a write, the bytes reserved by
  all writes in flight together with the configured floor fit into the free space it was told of, the
  counter does not overflow, and releasing the reservation restores it exactly; a refusal changes nothing.
\<close>

theorem reserve_keeps_floor:
  assumes "reserve ctx env s = (r, s')"
  shows "case r of
      Inr _ \<Rightarrow> st_reserved s' = st_reserved s + st_maxBytes s \<and>
        st_reserved s' + st_minFreeBytes s \<le> sv_available env \<and> st_reserved s' \<le> max_int64 \<and> release s' = s
    | Inl _ \<Rightarrow> s' = s"
proof (cases r)
  case (Inl e)
  with assms reserve_Inl show ?thesis by fastforce
next
  case (Inr u)
  then have r: "reserve ctx env s = (Inr (), s')" using assms by simp
  show ?thesis using reserve_Inr [OF r] release_reserved [OF r, of s'] Inr by simp
qed

section \<open>What a write leaves behind\<close>

text \<open>The part of the state a failed or finished write leaves as it was.\<close>

definition store_frame :: "store \<Rightarrow> store \<Rightarrow> bool" where
  "store_frame s s' \<longleftrightarrow> st_root s' = st_root s \<and> st_maxBytes s' = st_maxBytes s \<and> st_minFreeBytes s' = st_minFreeBytes s"

definition grows :: "(string \<Rightarrow> bytes option) \<Rightarrow> (string \<Rightarrow> bytes option) \<Rightarrow> bool" where
  "grows m m' \<longleftrightarrow> (\<forall>p b. m p = Some b \<longrightarrow> m' p = Some b)"

lemma grows_refl [simp]: "grows m m"
  by (simp add: grows_def)

lemma store_frame_refl [simp]: "store_frame s s"
  by (simp add: store_frame_def)

lemma put_abort_fields [simp]:
  "st_objects (put_abort env s) = st_objects s" "st_durable (put_abort env s) = st_durable s"
  "store_frame s (put_abort env s)" "st_reserved (put_abort env s) = wrap64 (st_reserved s - st_maxBytes s)"
  "st_objects (release s) = st_objects s" "st_durable (release s) = st_durable s"
  "store_frame s (release s)" "st_reserved (release s) = wrap64 (st_reserved s - st_maxBytes s)"
  by (simp_all add: put_abort_def release_def remove_staging_def store_frame_def)

text \<open>A staged write is the previous state with one reservation and one staging file more.\<close>

definition staged :: "store_env \<Rightarrow> bytes \<Rightarrow> store \<Rightarrow> store" where
  "staged env b s = s\<lparr>st_reserved := st_reserved s + st_maxBytes s,
     st_staging := st_staging s @ [\<lparr>se_name = stage_name env, se_isDir = False, se_modTime = sv_now env, se_data = b\<rparr>]\<rparr>"

definition fresh_temp :: "store_env \<Rightarrow> store \<Rightarrow> bool" where
  "fresh_temp env s \<longleftrightarrow> stage_name env \<notin> se_name ` set (st_staging s)"

lemma put_stage_Inr:
  assumes "put_stage ctx source env s = (Inr content, s')"
  obtains src where "source = Some src" "put_copy env (st_maxBytes s) src = Inr content"
    "int (length content) \<le> st_maxBytes s" "s' = staged env content s" "reserve ctx env s = (Inr (), s\<lparr>st_reserved := st_reserved s + st_maxBytes s\<rparr>)"
    "fresh_temp env s"
proof -
  from assms obtain src s1 where src: "source = Some src" and res: "reserve ctx env s = (Inr (), s1)"
    by (auto simp: put_stage_def split: option.splits prod.splits sum.splits)
  note s1 = reserve_Inr(6) [OF res]
  have "put_copy env (st_maxBytes s) src = Inr content" "int (length content) \<le> st_maxBytes s" "s' = staged env content s" "fresh_temp env s"
    using assms src res s1 by (auto simp: put_stage_def Let_def staged_def fresh_temp_def split: option.splits sum.splits if_splits)
  with src res s1 that show thesis by blast
qed

lemma remove_staged:
  "fresh_temp env s \<Longrightarrow> remove_staging env (staged env b s) = s\<lparr>st_reserved := st_reserved s + st_maxBytes s\<rparr>"
proof -
  assume "fresh_temp env s"
  then have "filter (\<lambda>x. se_name x \<noteq> stage_name env) (st_staging s) = st_staging s"
    unfolding fresh_temp_def filter_id_conv by force
  then show ?thesis by (simp add: remove_staging_def staged_def)
qed

lemma put_stage_Inl:
  assumes "put_stage ctx source env s = (Inl e, s')"
  shows "s' = s"
proof -
  let ?s1 = "s\<lparr>st_reserved := st_reserved s + st_maxBytes s\<rparr>"
  show ?thesis
  proof (cases "\<exists>u. reserve ctx env s = (Inr (), u)")
    case True
    then obtain u where res: "reserve ctx env s = (Inr (), u)" by blast
    have u: "u = ?s1" by (rule reserve_Inr(6) [OF res])
    have rel: "release ?s1 = s" using release_reserved [OF res, of ?s1] u by simp
    have ab: "put_abort env (?s1\<lparr>st_staging := st_staging s @
        [\<lparr>se_name = stage_name env, se_isDir = False, se_modTime = sv_now env, se_data = b\<rparr>]\<rparr>) = s"
      if "fresh_temp env s" for b
      using rel remove_staged [OF that, of b] by (simp add: put_abort_def staged_def)
    show ?thesis
    proof (cases "fresh_temp env s")
      case True
      then have n: "stage_name env \<notin> se_name ` set (st_staging s)" by (simp add: fresh_temp_def)
      show ?thesis using assms res n
        by (auto simp: put_stage_def Let_def u rel ab [OF True] split: option.splits sum.splits if_splits)
    next
      case False
      then show ?thesis using assms res
        by (auto simp: put_stage_def Let_def u rel fresh_temp_def split: option.splits)
    qed
  next
    case False
    then show ?thesis using assms
      by (auto simp: put_stage_def split: option.splits prod.splits sum.splits dest: reserve_Inl)
  qed
qed

lemma contextReader_EOF: "contextReader c (b, e) = (content, EOF) \<Longrightarrow> content = b \<and> e = EOF"
  by (cases c) (auto simp: ctx_error_def split: if_splits)

lemma hex_encode_inj: "hex_encode a = hex_encode b \<Longrightarrow> a = b"
  by (metis hex_decode_encode option.inject)

lemma Verify_Inr:
  assumes "Verify sha256 env ref s = Inr ()"
  shows "key_valid (cr_key ref)" "\<exists>b. st_objects s (object_path (cr_key ref)) = Some b \<and> int (length b) = cr_size ref \<and>
     cr_key ref = object_key sha256 b"
proof -
  from assms obtain p b where p: "relativePathForKey (cr_key ref) = Inr p" and b: "st_objects s p = Some b"
    and o: "OpenContent (sv_flt env) ref s = Inr b"
    by (auto simp: Verify_def OpenContent_def split: if_splits sum.splits option.splits)
  obtain content end' where c: "contextReader (sv_cancel env) (b, (case sv_flt env OpReadObject of None \<Rightarrow> EOF | Some e \<Rightarrow> e)) = (content, end')"
    by fastforce
  have e: "end' = EOF" "int (length content) = cr_size ref" "cr_key ref = object_key sha256 content"
    using assms o c by (auto simp: Verify_def split: if_splits)
  have "content = b" using contextReader_EOF [of "sv_cancel env" b _ content] c e(1) by simp
  moreover have "key_valid (cr_key ref)" "p = object_path (cr_key ref)" using p by (simp_all add: relativePathForKey_Inr)
  ultimately show "key_valid (cr_key ref)" "\<exists>b. st_objects s (object_path (cr_key ref)) = Some b \<and> int (length b) = cr_size ref \<and>
     cr_key ref = object_key sha256 b" using b e by auto
qed

lemma Verify_quiet:
  assumes "sv_flt env = (\<lambda>_. None)" "sv_cancel env = None" "key_valid (object_key sha256 b)"
    and "st_objects s (object_path (object_key sha256 b)) = Some b"
  shows "Verify sha256 env \<lparr>cr_key = object_key sha256 b, cr_size = int (length b)\<rparr> s = Inr ()"
  using assms by (simp add: Verify_def OpenContent_def relativePathForKey_valid)

text \<open>A write stopped before its staging file is kept leaves only what its stages did to the objects.\<close>

definition objects_of :: "store \<Rightarrow> store \<Rightarrow> store" where
  "objects_of s t = s\<lparr>st_objects := st_objects t, st_durable := st_durable t\<rparr>"

lemma abort_staged:
  assumes "fresh_temp env s" "reserve ctx env s = (Inr (), u)"
  shows "put_abort env (objects_of (staged env b s) t) = objects_of s t"
proof -
  have "release (objects_of (s\<lparr>st_reserved := st_reserved s + st_maxBytes s\<rparr>) t) = objects_of s t"
    using release_reserved [OF assms(2), of "objects_of (s\<lparr>st_reserved := st_reserved s + st_maxBytes s\<rparr>) t"]
      reserve_Inr(6) [OF assms(2)] by (simp add: objects_of_def)
  moreover have "remove_staging env (objects_of (staged env b s) t) = objects_of (s\<lparr>st_reserved := st_reserved s + st_maxBytes s\<rparr>) t"
    using arg_cong [OF remove_staged [OF assms(1), of b], of st_staging]
    by (simp add: objects_of_def remove_staging_def staged_def)
  ultimately show ?thesis by (simp add: put_abort_def)
qed

definition linked :: "string \<Rightarrow> bytes \<Rightarrow> store \<Rightarrow> store" where
  "linked p content s = s\<lparr>st_objects := (st_objects s)(p \<mapsto> content)\<rparr>"

text \<open>What any write, successful or not, may have done to the object directory.\<close>

definition put_effect :: "(bytes \<Rightarrow> bytes) \<Rightarrow> store \<Rightarrow> store \<Rightarrow> bool" where
  "put_effect sha256 s t \<longleftrightarrow> t = s \<or>
     (\<exists>content. let key = object_key sha256 content; p = object_path key; t1 = sync_objects (object_dir p) s in
        key_valid key \<and> (t = t1 \<or> st_objects s p = None \<and> (t = linked p content t1 \<or> t = sync_objects (object_dir p) (linked p content t1))))"

lemma objects_of_simps [simp]:
  "st_objects (objects_of s t) = st_objects t" "st_durable (objects_of s t) = st_durable t"
  "st_root (objects_of s t) = st_root s" "st_maxBytes (objects_of s t) = st_maxBytes s" "st_minFreeBytes (objects_of s t) = st_minFreeBytes s"
  "st_reserved (objects_of s t) = st_reserved s" "st_staging (objects_of s t) = st_staging s"
  "st_leases (objects_of s t) = st_leases s"
  by (simp_all add: objects_of_def)

lemma objects_of_step:
  "sync_objects d (objects_of s t) = objects_of s (sync_objects d t)"
  "linked p c (objects_of s t) = objects_of s (linked p c t)"
  "sync_objects d (staged env b s) = objects_of (staged env b s) (sync_objects d s)"
  "objects_of s s = s"
  by (simp_all add: objects_of_def sync_objects_def linked_def staged_def cong: if_cong)

lemma put_prepare_Inr:
  assumes "put_prepare sha256 env content (staged env content s) = (Inr p, s2)"
  shows "key_valid (object_key sha256 content)" "p = object_path (object_key sha256 content)"
    "s2 = objects_of (staged env content s) (sync_objects (object_dir p) s)"
  using assms
  by (auto simp: put_prepare_def relativePathForKey_Inr objects_of_step split: sum.splits option.splits prod.splits)

lemma put_prepare_Inl:
  assumes "put_prepare sha256 env content (staged env content s) = (Inl e, s2)"
  shows "\<exists>t. put_effect sha256 s t \<and> s2 = put_abort env (objects_of (staged env content s) t)"
proof -
  have s: "staged env content s = objects_of (staged env content s) s" by (simp add: objects_of_def staged_def)
  show ?thesis using assms
    by (auto simp: put_prepare_def relativePathForKey_Inr put_effect_def Let_def objects_of_step
        split: sum.splits option.splits prod.splits if_splits intro: s [THEN arg_cong, of "put_abort env"])
qed

text \<open>The last stage on the state the earlier stages left: \<open>t\<close> is the state of the object directory.\<close>

lemma put_cleanup_result:
  assumes "put_cleanup env ref u = (r, s')"
  shows "(s' = put_abort env u \<and> (r = Inr ref \<or> (\<exists>e. r = Inl e))) \<or> (s' = release u \<and> (\<exists>e. r = Inl e))"
  using assms by (auto simp: put_cleanup_def split: option.splits if_splits)

lemma release_staged:
  assumes "reserve ctx env s = (Inr (), u)"
  shows "\<exists>x. release (objects_of (staged env b s) t) = (objects_of s t)\<lparr>st_staging := st_staging s @ [x]\<rparr>"
proof -
  have "st_reserved (objects_of (staged env b s) t) = st_reserved u" "st_maxBytes (objects_of (staged env b s) t) = st_maxBytes s"
    using reserve_Inr(6) [OF assms] by (simp_all add: staged_def)
  from release_reserved [OF assms this]
  have "release (objects_of (staged env b s) t) = (objects_of s t)\<lparr>st_staging := st_staging s @
      [\<lparr>se_name = stage_name env, se_isDir = False, se_modTime = sv_now env, se_data = b\<rparr>]\<rparr>"
    by (simp add: objects_of_def staged_def)
  then show ?thesis by blast
qed

lemma put_cases:
  assumes "put sha256 ctx source env s = (r, s')"
  obtains (Failed) e t x where "r = Inl e" "put_effect sha256 s t"
      "s' = objects_of s t \<or> s' = (objects_of s t)\<lparr>st_staging := st_staging s @ [x]\<rparr>"
    | (Stored) src content p b where "source = Some src" "put_copy env (st_maxBytes s) src = Inr content"
      "int (length content) \<le> st_maxBytes s" "key_valid (object_key sha256 content)" "p = object_path (object_key sha256 content)"
      "r = Inr \<lparr>cr_key = object_key sha256 content, cr_size = int (length content)\<rparr>"
      "(st_objects s p = None \<and> b = content \<and> s' = objects_of s (sync_objects (object_dir p) (linked p content (sync_objects (object_dir p) s)))) \<or>
       (st_objects s p = Some b \<and> length b = length content \<and> object_key sha256 b = object_key sha256 content \<and>
        s' = objects_of s (sync_objects (object_dir p) s))"
proof -
  obtain r1 s1 where stage: "put_stage ctx source env s = (r1, s1)" by fastforce
  show thesis
  proof (cases r1)
    case (Inl e)
    then have "r = Inl e" "s' = s" using assms stage put_stage_Inl by (auto simp: put_def)
    then show thesis using Failed [of e s] by (simp add: put_effect_def objects_of_step)
  next
    case (Inr content)
    from put_stage_Inr [OF stage [unfolded Inr]] obtain src where src: "source = Some src"
      "put_copy env (st_maxBytes s) src = Inr content" "int (length content) \<le> st_maxBytes s"
      and s1: "s1 = staged env content s" and res: "reserve ctx env s = (Inr (), s\<lparr>st_reserved := st_reserved s + st_maxBytes s\<rparr>)" and fr: "fresh_temp env s" .
    note ab = abort_staged [OF fr res]
    let ?key = "object_key sha256 content"
    let ?p = "object_path ?key"
    let ?t = "sync_objects (object_dir ?p) s"
    let ?ref = "\<lparr>cr_key = ?key, cr_size = int (length content)\<rparr>"
    obtain r2 s2 where prep: "put_prepare sha256 env content s1 = (r2, s2)" by fastforce
    show thesis
    proof (cases r2)
      case (Inl e)
      with put_prepare_Inl prep s1 ab obtain t where "put_effect sha256 s t" "s2 = objects_of s t" by metis
      moreover have "r = Inl e" "s' = s2" using assms stage Inr prep Inl by (auto simp: put_def)
      ultimately show thesis using Failed by blast
    next
      case (Inr p)
      note pr = put_prepare_Inr [OF prep [unfolded Inr s1]]
      obtain l s3 where link: "put_link env p content s2 = (l, s3)" by fastforce
      have fin: "put_finish sha256 env p content l s3 = (r, s')"
        using assms stage prep link \<open>r1 = Inr content\<close> Inr by (simp add: put_def)
      have eff: "put_effect sha256 s ?t" using pr(1) by (auto simp: put_effect_def Let_def)
      show thesis
      proof (cases l)
        case Linked
        let ?l = "linked ?p content ?t"
        have n: "st_objects s ?p = None" and s3: "s3 = objects_of (staged env content s) ?l"
          using link pr Linked
          by (auto simp: put_link_def linked_def objects_of_def sync_objects_def split: option.splits)
        have effs: "put_effect sha256 s ?l" "put_effect sha256 s (sync_objects (object_dir ?p) ?l)"
          using pr(1) n unfolding put_effect_def Let_def by metis+
        show thesis
        proof (cases "sv_flt env OpSyncLinked")
          case (Some e)
          then have "r = Inl (wrapStorageError e)" "s' = release s3" using fin Linked by (simp_all add: put_finish_def Let_def)
          then show thesis using release_staged [OF res, of content ?l] effs(1) s3 Failed by metis
        next
          case None
          then have c: "put_cleanup env ?ref (objects_of (staged env content s) (sync_objects (object_dir ?p) ?l)) = (r, s')"
            using fin Linked by (simp add: put_finish_def Let_def s3 pr(2) objects_of_step)
          from put_cleanup_result [OF c] show thesis
            using ab release_staged [OF res, of content "sync_objects (object_dir ?p) ?l"] effs(2) Failed
              Stored [OF src pr(1) refl, of content] n by metis
        qed
      next
        case LinkExists
        have s3: "s3 = objects_of (staged env content s) ?t"
          using link pr LinkExists by (auto simp: put_link_def split: option.splits)
        obtain b where b: "st_objects s ?p = Some b"
          using link pr LinkExists by (auto simp: put_link_def sync_objects_def split: option.splits)
        show thesis
        proof (cases "\<exists>e. (r, s') = (Inl e, put_abort env s3)")
          case True
          then show thesis using Failed eff ab s3 by blast
        next
          case False
          then have v: "Verify sha256 env ?ref s3 = Inr ()" "length b = length content"
            and c: "put_cleanup env ?ref s3 = (r, s')"
            using fin LinkExists b
            by (auto simp: put_finish_def Let_def s3 pr(2) sync_objects_def split: option.splits if_splits sum.splits)
          from Verify_Inr(2) [OF v(1)] b have k: "object_key sha256 b = ?key" by (simp add: s3 sync_objects_def)
          from put_cleanup_result [OF c] show thesis
            using ab release_staged [OF res, of content ?t] eff Failed s3
              Stored [OF src pr(1) refl, of b] b k v(2) by metis
        qed
      next
        case (LinkFailed e)
        have "s3 = objects_of (staged env content s) ?t"
          using link pr LinkFailed by (auto simp: put_link_def split: option.splits)
        moreover have "r = Inl (wrapStorageError e)" "s' = put_abort env s3"
          using fin LinkFailed by (simp_all add: put_finish_def Let_def)
        ultimately show thesis using Failed eff ab by blast
      qed
    qed
  qed
qed

section \<open>Guarantees of a write\<close>

definition store_ok :: "(bytes \<Rightarrow> bytes) \<Rightarrow> store \<Rightarrow> bool" where
  "store_ok sha256 s \<longleftrightarrow> (\<forall>p b. st_objects s p = Some b \<or> st_durable s p = Some b \<longrightarrow>
     key_valid (object_key sha256 b) \<and> p = object_path (object_key sha256 b))"

text \<open>The content of a reference is present, and will be after a crash.\<close>

definition durable_ref :: "(bytes \<Rightarrow> bytes) \<Rightarrow> store \<Rightarrow> string \<Rightarrow> int \<Rightarrow> bool" where
  "durable_ref sha256 s key n \<longleftrightarrow> key_valid key \<and> (\<exists>b. st_objects s (object_path key) = Some b \<and> st_durable s (object_path key) = Some b \<and>
     object_key sha256 b = key \<and> int (length b) = n)"

lemma put_copy_whole:
  assumes "put_copy env maxBytes (raw, e) = Inr content" "int (length content) \<le> maxBytes" "0 < maxBytes" "maxBytes < max_int64"
  shows "content = raw \<and> e = EOF"
proof -
  have w: "wrap64 (maxBytes + 1) = maxBytes + 1" using assms(3,4) by (intro wrap64_id) auto
  obtain c end' where c: "contextReader (sv_cancel env) (raw, e) = (c, end')" by fastforce
  have "\<not> int (length c) \<ge> maxBytes + 1"
    using assms(1-3) c by (auto simp: put_copy_def w Let_def min_def split: option.splits if_splits)
  then have "content = c" "end' = EOF" using assms(1,3) c by (auto simp: put_copy_def w Let_def split: option.splits if_splits)
  with contextReader_EOF c show ?thesis by blast
qed

lemma put_effect_keeps:
  assumes "put_effect sha256 s t"
  shows "grows (st_objects s) (st_objects t)" "durable_ref sha256 s key n \<Longrightarrow> durable_ref sha256 t key n"
    "store_ok sha256 s \<Longrightarrow> store_ok sha256 t"
  using assms by (auto simp: put_effect_def Let_def grows_def durable_ref_def store_ok_def sync_objects_def linked_def split: if_splits)

lemma objects_of_refs: "durable_ref sha256 (objects_of s t) key n = durable_ref sha256 t key n"
  "store_ok sha256 (objects_of s t) = store_ok sha256 t"
  "durable_ref sha256 (u\<lparr>st_staging := x\<rparr>) key n = durable_ref sha256 u key n"
  "store_ok sha256 (u\<lparr>st_staging := x\<rparr>) = store_ok sha256 u"
  by (simp_all add: durable_ref_def store_ok_def)

lemma put_Stored_effect:
  assumes "key_valid (object_key sha256 content)" "p = object_path (object_key sha256 content)"
    and "(st_objects s p = None \<and> b = content \<and> s' = objects_of s (sync_objects (object_dir p) (linked p content (sync_objects (object_dir p) s)))) \<or>
       (st_objects s p = Some b \<and> length b = length content \<and> object_key sha256 b = object_key sha256 content \<and>
        s' = objects_of s (sync_objects (object_dir p) s))"
  shows "\<exists>t. put_effect sha256 s t \<and> s' = objects_of s t"
    "durable_ref sha256 s' (object_key sha256 content) (int (length content))"
proof -
  show "\<exists>t. put_effect sha256 s t \<and> s' = objects_of s t"
    using assms by (auto simp: put_effect_def Let_def)
  show "durable_ref sha256 s' (object_key sha256 content) (int (length content))"
    using assms by (auto simp: durable_ref_def sync_objects_def linked_def)
qed

lemma put_keeps:
  assumes "put sha256 ctx source env s = (r, s')"
  shows "store_frame s s'" "st_reserved s' = st_reserved s" "grows (st_objects s) (st_objects s')"
    "durable_ref sha256 s key n \<Longrightarrow> durable_ref sha256 s' key n" "store_ok sha256 s \<Longrightarrow> store_ok sha256 s'"
    "st_staging s' = st_staging s \<or> (\<exists>x e. st_staging s' = st_staging s @ [x] \<and> r = Inl e)" "st_leases s' = st_leases s"
proof -
  obtain t where t: "put_effect sha256 s t" and s': "s' = objects_of s t \<or>
      (\<exists>x e. s' = (objects_of s t)\<lparr>st_staging := st_staging s @ [x]\<rparr> \<and> r = Inl e)"
    using assms by (cases rule: put_cases) (blast, metis put_Stored_effect(1))
  from put_effect_keeps [OF t] s' show "store_frame s s'" "st_reserved s' = st_reserved s" "grows (st_objects s) (st_objects s')"
    "durable_ref sha256 s key n \<Longrightarrow> durable_ref sha256 s' key n" "store_ok sha256 s \<Longrightarrow> store_ok sha256 s'"
    "st_staging s' = st_staging s \<or> (\<exists>x e. st_staging s' = st_staging s @ [x] \<and> r = Inl e)" "st_leases s' = st_leases s"
    by (auto simp: store_frame_def objects_of_refs)
qed

lemma put_Inr:
  assumes "put sha256 ctx source env s = (Inr ref, s')"
  shows "\<exists>src content. source = Some src \<and> put_copy env (st_maxBytes s) src = Inr content \<and>
     int (length content) \<le> st_maxBytes s \<and> ref = \<lparr>cr_key = object_key sha256 content, cr_size = int (length content)\<rparr> \<and>
     durable_ref sha256 s' (cr_key ref) (cr_size ref)"
  using assms by (cases rule: put_cases) (use put_Stored_effect(2) in fastforce)+

text \<open>
  C4. A successful \<^verbatim>\<open>put\<close> of a source that delivers \<open>raw\<close> has stored exactly \<open>raw\<close>: the reference
  carries its digest and its length, the length is within the limit, the source ended regularly, and the object directory
  durably holds an object with that digest and length, which \<^verbatim>\<open>Verify\<close> accepts also after a crash.
\<close>

theorem put_stores_durably:
  assumes "put sha256 ctx (Some (raw, e)) env s = (Inr ref, s')"
    and "0 < st_maxBytes s" "st_maxBytes s < max_int64"
    and "sv_flt quiet = (\<lambda>_. None)" "sv_cancel quiet = None"
  shows "e = EOF \<and> ref = \<lparr>cr_key = object_key sha256 raw, cr_size = int (length raw)\<rparr> \<and> int (length raw) \<le> st_maxBytes s \<and>
    Verify sha256 quiet ref s' = Inr () \<and> Verify sha256 quiet ref (crash s') = Inr ()"
proof -
  obtain content where c: "put_copy env (st_maxBytes s) (raw, e) = Inr content" "int (length content) \<le> st_maxBytes s"
    and ref: "ref = \<lparr>cr_key = object_key sha256 content, cr_size = int (length content)\<rparr>"
    and d: "durable_ref sha256 s' (cr_key ref) (cr_size ref)" using put_Inr [OF assms(1)] by blast
  have raw: "content = raw" "e = EOF" using put_copy_whole [OF c assms(2,3)] by auto
  from d obtain b where b: "key_valid (cr_key ref)" "st_objects s' (object_path (cr_key ref)) = Some b"
    "st_durable s' (object_path (cr_key ref)) = Some b" "object_key sha256 b = cr_key ref" "int (length b) = cr_size ref"
    unfolding durable_ref_def by blast
  have v: "Verify sha256 quiet ref u = Inr ()" if "st_objects u (object_path (cr_key ref)) = Some b" for u
    using Verify_quiet [OF assms(4,5), of sha256 b u] that b by (cases ref) simp
  have "Verify sha256 quiet ref s' = Inr ()" "Verify sha256 quiet ref (crash s') = Inr ()"
    using b by (simp_all add: v crash_def)
  with raw c ref show ?thesis by simp
qed

text \<open>
  No write damages the store: whatever fails, in whatever order, every object visible before \<^verbatim>\<open>put\<close> is
  visible with the same bytes after it, every durable reference stays durable, object names stay the digests of their bytes,
  the reservation is given back, and a staging file is left behind only by a failed write, at most one.
\<close>

theorem put_keeps_store:
  assumes "put sha256 ctx source env s = (r, s')" and "store_ok sha256 s"
  shows "store_ok sha256 s' \<and> st_reserved s' = st_reserved s \<and> grows (st_objects s) (st_objects s') \<and>
    (\<forall>key n. durable_ref sha256 s key n \<longrightarrow> durable_ref sha256 s' key n) \<and>
    (st_staging s' = st_staging s \<or> (\<exists>x e. st_staging s' = st_staging s @ [x] \<and> r = Inl e))"
  using put_keeps [OF assms(1)] assms(2) by blast

section \<open>Writes that succeed\<close>

definition quiet_env :: "store_env \<Rightarrow> bool" where
  "quiet_env env \<longleftrightarrow> sv_flt env = (\<lambda>_. None) \<and> sv_ctx env = (\<lambda>_. None) \<and> sv_cancel env = None"

definition has_room :: "store_env \<Rightarrow> store \<Rightarrow> bool" where
  "has_room env s \<longleftrightarrow> 0 \<le> st_minFreeBytes s \<and> 0 \<le> st_reserved s \<and> 0 < st_maxBytes s \<and>
     st_reserved s + st_maxBytes s + st_minFreeBytes s \<le> min (sv_available env) max_int64"

lemma reserve_room:
  "quiet_env env \<Longrightarrow> has_room env s \<Longrightarrow> ctx \<noteq> NilCtx \<Longrightarrow> reserve ctx env s = (Inr (), s\<lparr>st_reserved := st_reserved s + st_maxBytes s\<rparr>)"
  by (auto simp: reserve_def checkCapacityLocked_def quiet_env_def has_room_def Let_def wrap64_id min_def split: if_splits)

lemma has_room_bound: "has_room env s \<Longrightarrow> st_maxBytes s < max_int64 \<Longrightarrow> wrap64 (st_maxBytes s + 1) = st_maxBytes s + 1"
  by (simp add: has_room_def wrap64_id)

lemma put_stage_quiet:
  assumes "quiet_env env" "has_room env s" "ctx \<noteq> NilCtx" "st_maxBytes s < max_int64" "fresh_temp env s"
  shows "put_stage ctx (Some (raw, EOF)) env s =
     (if int (length raw) \<le> st_maxBytes s then (Inr raw, staged env raw s) else (Inl ErrContentTooLarge, s))"
proof -
  note res = reserve_room [OF assms(1-3)]
  have m: "0 < st_maxBytes s" using assms(2) by (simp add: has_room_def)
  have cp: "put_copy env (st_maxBytes s) (raw, EOF) =
      Inr (if int (length raw) \<le> st_maxBytes s then raw else take (nat (st_maxBytes s + 1)) raw)"
    using assms(1) m by (simp add: put_copy_def has_room_bound [OF assms(2,4)] quiet_env_def)
  show ?thesis
  proof (cases "int (length raw) \<le> st_maxBytes s")
    case True
    then show ?thesis using assms(1,5) cp by (simp add: put_stage_def res quiet_env_def staged_def fresh_temp_def)
  next
    case False
    then have "\<exists>s'. put_stage ctx (Some (raw, EOF)) env s = (Inl ErrContentTooLarge, s')"
      using assms(1,5) cp m by (simp add: put_stage_def res quiet_env_def min_def fresh_temp_def)
    with put_stage_Inl False show ?thesis by fastforce
  qed
qed

lemma syncDirectoryTree_quiet:
  assumes "flt = (\<lambda>_. None)" "prefix root leaf"
  shows "fst (syncDirectoryTree flt root leaf) = Inr ()"
  using assms
proof (induction flt root leaf rule: syncDirectoryTree.induct)
  case (1 flt root current)
  show ?case
  proof (cases "current = root")
    case True
    then show ?thesis using "1.prems"(1) by (subst syncDirectoryTree.simps) simp
  next
    case False
    then obtain xs x where c: "current = xs @ [x]" "prefix root xs"
      using "1.prems"(2) by (cases current rule: rev_cases) auto
    then have "fst (syncDirectoryTree flt root xs) = Inr ()"
      using "1.IH" [OF _ False refl] "1.prems"(1) by (simp add: isWithinRoot_def)
    with c False "1.prems"(1) show ?thesis
      by (subst syncDirectoryTree.simps) (auto simp: isWithinRoot_def Let_def split: prod.splits)
  qed
qed

lemma put_prepare_quiet:
  assumes "quiet_env env" "key_valid (object_key sha256 content)"
  shows "put_prepare sha256 env content s =
     (Inr (object_path (object_key sha256 content)), sync_objects (object_dir (object_path (object_key sha256 content))) s)"
proof -
  let ?p = "object_path (object_key sha256 content)"
  have "fst (syncDirectoryTree (sv_flt env) (objectsRoot s) (object_dir_path s ?p)) = Inr ()"
    using assms(1) by (intro syncDirectoryTree_quiet) (simp_all add: quiet_env_def object_dir_path_def)
  then show ?thesis using assms
    by (auto simp: put_prepare_def relativePathForKey_valid quiet_env_def split: prod.splits sum.splits)
qed

text \<open>
  When nothing fails and there is room, \<^verbatim>\<open>put\<close> accepts every source within the size limit and
  refuses every longer one as too large without leaving a trace.
\<close>

theorem put_accepts:
  assumes "quiet_env env" "has_room env s" "ctx \<noteq> NilCtx" "st_maxBytes s < max_int64" "fresh_temp env s"
    and "length (sha256 raw) = 32"
    and "\<And>b. st_objects s (object_path (object_key sha256 raw)) = Some b \<Longrightarrow> b = raw"
  shows "if int (length raw) \<le> st_maxBytes s
    then \<exists>s'. put sha256 ctx (Some (raw, EOF)) env s = (Inr \<lparr>cr_key = object_key sha256 raw, cr_size = int (length raw)\<rparr>, s')
    else put sha256 ctx (Some (raw, EOF)) env s = (Inl ErrContentTooLarge, s)"
proof (cases "int (length raw) \<le> st_maxBytes s")
  case True
  let ?p = "object_path (object_key sha256 raw)"
  let ?s2 = "sync_objects (object_dir ?p) (staged env raw s)"
  have kv: "key_valid (object_key sha256 raw)" using assms(6) by (simp add: object_key_valid)
  have p: "put sha256 ctx (Some (raw, EOF)) env s =
      (case put_link env ?p raw ?s2 of (l, s3) \<Rightarrow> put_finish sha256 env ?p raw l s3)"
    using True by (simp add: put_def put_stage_quiet [OF assms(1-5)] put_prepare_quiet [OF assms(1) kv])
  have cl: "\<exists>s'. put_cleanup env ref u = (Inr ref, s')" for ref u
    using assms(1) by (simp add: put_cleanup_def quiet_env_def)
  show ?thesis
  proof (cases "st_objects s ?p")
    case None
    then have "put_link env ?p raw ?s2 = (Linked, linked ?p raw ?s2)"
      using assms(1) by (simp add: put_link_def quiet_env_def sync_objects_def staged_def linked_def)
    with True p cl assms(1) show ?thesis by (simp add: put_finish_def quiet_env_def Let_def)
  next
    case (Some b)
    then have b: "b = raw" by (rule assms(7))
    have o: "st_objects ?s2 ?p = Some raw" using Some b by (simp add: sync_objects_def staged_def)
    then have "put_link env ?p raw ?s2 = (LinkExists, ?s2)" using assms(1) by (simp add: put_link_def quiet_env_def)
    moreover have "Verify sha256 env \<lparr>cr_key = object_key sha256 raw, cr_size = int (length raw)\<rparr> ?s2 = Inr ()"
      using assms(1) kv o by (intro Verify_quiet) (simp_all add: quiet_env_def)
    ultimately show ?thesis using True p cl assms(1) o by (simp add: put_finish_def quiet_env_def Let_def)
  qed
next
  case False
  then show ?thesis by (simp add: put_def put_stage_quiet [OF assms(1-5)])
qed

section \<open>Two writers of the same content\<close>

text \<open>
  Two deliveries of the same bytes interleaved: the second has synced the object directory when the first links
  the object, finds the object in place, and returns before the first has synced the directory again.
\<close>

definition racing_puts :: "(bytes \<Rightarrow> bytes) \<Rightarrow> ctx \<Rightarrow> bytes \<Rightarrow> store_env \<Rightarrow> store_env \<Rightarrow> store \<Rightarrow> content_ref result \<times> store" where
  "racing_puts sha256 ctx raw first second s =
     (case put_stage ctx (Some (raw, EOF)) second s of
        (Inl e, s1) \<Rightarrow> (Inl e, s1)
      | (Inr c2, s1) \<Rightarrow>
          (case put_prepare sha256 second c2 s1 of
             (Inl e, s2) \<Rightarrow> (Inl e, s2)
           | (Inr p2, s2) \<Rightarrow>
               (case put_stage ctx (Some (raw, EOF)) first s2 of
                  (Inl e, s3) \<Rightarrow> (Inl e, s3)
                | (Inr c1, s3) \<Rightarrow>
                    (case put_prepare sha256 first c1 s3 of
                       (Inl e, s4) \<Rightarrow> (Inl e, s4)
                     | (Inr p1, s4) \<Rightarrow>
                         (case put_link first p1 c1 s4 of
                            (_, s5) \<Rightarrow>
                              (case put_link second p2 c2 s5 of
                                 (l, s6) \<Rightarrow> put_finish sha256 second p2 c2 l s6))))))"

text \<open>
  C39. An acknowledged write can be lost: in that interleaving, with no failure at all, the second writer
  gets its reference although the object it found is not yet durable, and after a crash the object is gone.
\<close>

theorem racing_put_not_durable:
  assumes "quiet_env first" "quiet_env second" "ctx \<noteq> NilCtx" "has_room second s" "has_room first (staged second raw s)"
    and "st_maxBytes s < max_int64" "fresh_temp second s" "fresh_temp first (staged second raw s)"
    and "length (sha256 raw) = 32" "int (length raw) \<le> st_maxBytes s"
    and "st_objects s (object_path (object_key sha256 raw)) = None"
  shows "\<exists>s'. racing_puts sha256 ctx raw first second s = (Inr \<lparr>cr_key = object_key sha256 raw, cr_size = int (length raw)\<rparr>, s') \<and>
    st_objects s' (object_path (object_key sha256 raw)) = Some raw \<and>
    st_objects (crash s') (object_path (object_key sha256 raw)) = None"
proof -
  let ?key = "object_key sha256 raw"
  let ?p = "object_path ?key"
  let ?sy = "sync_objects (object_dir ?p)"
  let ?u = "?sy (staged second raw s)"
  have kv: "key_valid ?key" using assms(9) by (simp add: object_key_valid)
  have u: "has_room first ?u" "st_maxBytes ?u < max_int64" "fresh_temp first ?u" "int (length raw) \<le> st_maxBytes ?u"
    using assms(5,6,8,10) by (simp_all add: has_room_def fresh_temp_def sync_objects_def staged_def)
  let ?v = "linked ?p raw (?sy (staged first raw ?u))"
  have o: "st_objects ?v ?p = Some raw" "st_durable ?v ?p = None"
    using assms(11) by (simp_all add: linked_def sync_objects_def staged_def)
  have l1: "put_link first ?p raw (?sy (staged first raw ?u)) = (Linked, ?v)"
    using assms(1,11) by (simp add: put_link_def quiet_env_def linked_def sync_objects_def staged_def)
  have l2: "put_link second ?p raw ?v = (LinkExists, ?v)" using assms(2) o by (simp add: put_link_def quiet_env_def)
  have v: "Verify sha256 second \<lparr>cr_key = ?key, cr_size = int (length raw)\<rparr> ?v = Inr ()"
    using assms(2) kv o by (intro Verify_quiet) (simp_all add: quiet_env_def)
  have f: "put_finish sha256 second ?p raw LinkExists ?v = (Inr \<lparr>cr_key = ?key, cr_size = int (length raw)\<rparr>, put_abort second ?v)"
    using assms(2) o v by (simp add: put_finish_def quiet_env_def put_cleanup_def Let_def)
  have "racing_puts sha256 ctx raw first second s = (Inr \<lparr>cr_key = ?key, cr_size = int (length raw)\<rparr>, put_abort second ?v)"
    using assms(10) u(4)
    by (simp add: racing_puts_def put_stage_quiet [OF assms(2,4,3,6,7)] put_prepare_quiet [OF assms(2) kv]
        put_stage_quiet [OF assms(1) u(1) assms(3) u(2,3)] put_prepare_quiet [OF assms(1) kv] l1 l2 f)
  with o show ?thesis by (simp add: crash_def)
qed

section \<open>Deleting and pruning\<close>

lemma deleteLocked_effect:
  assumes "deleteLocked env ref s = (r, s')"
  shows "s' = s \<or> (key_valid (cr_key ref) \<and>
    (let s1 = s\<lparr>st_objects := (st_objects s)(object_path (cr_key ref) := None)\<rparr> in
       s' = s1 \<or> s' = sync_objects (object_dir (object_path (cr_key ref))) s1))"
  using assms
  by (auto simp: deleteLocked_def relativePathForKey_Inr Let_def split: sum.splits option.splits if_splits)

lemma deleteLocked_keeps:
  assumes "deleteLocked env ref s = (r, s')"
  shows "store_ok sha256 s \<Longrightarrow> store_ok sha256 s'" "store_frame s s'" "st_reserved s' = st_reserved s" "st_staging s' = st_staging s" "st_leases s' = st_leases s"
    "key_valid key \<Longrightarrow> key \<noteq> cr_key ref \<Longrightarrow> durable_ref sha256 s key n \<Longrightarrow> durable_ref sha256 s' key n"
proof -
  from deleteLocked_effect [OF assms] consider "s' = s" | (del) s1 where "key_valid (cr_key ref)"
      "s1 = s\<lparr>st_objects := (st_objects s)(object_path (cr_key ref) := None)\<rparr>"
      "s' = s1 \<or> s' = sync_objects (object_dir (object_path (cr_key ref))) s1" by (auto simp: Let_def)
  note cs = this
  show "store_ok sha256 s \<Longrightarrow> store_ok sha256 s'"
    by (rule cs) (auto simp: store_ok_def sync_objects_def split: if_splits)
  show "store_frame s s'" "st_reserved s' = st_reserved s" "st_staging s' = st_staging s" "st_leases s' = st_leases s"
    by (rule cs; auto simp: store_frame_def sync_objects_def)+
  assume k: "key_valid key" "key \<noteq> cr_key ref" "durable_ref sha256 s key n"
  show "durable_ref sha256 s' key n"
  proof (rule cs)
    assume "s' = s" with k show ?thesis by simp
  next
    fix s1 assume d: "key_valid (cr_key ref)"
      "s1 = s\<lparr>st_objects := (st_objects s)(object_path (cr_key ref) := None)\<rparr>"
      "s' = s1 \<or> s' = sync_objects (object_dir (object_path (cr_key ref))) s1"
    have "object_path key \<noteq> object_path (cr_key ref)" using object_path_inj [OF k(1) d(1)] k(2) by blast
    with k(3) d show ?thesis by (auto simp: durable_ref_def sync_objects_def)
  qed
qed

definition abandoned :: "time \<Rightarrow> stage_entry \<Rightarrow> bool" where
  "abandoned cutoff x \<longleftrightarrow> \<not> se_isDir x \<and> has_prefix (se_name x) ''content-'' \<and> has_suffix (se_name x) ''.stage'' \<and> se_modTime x < cutoff"

lemma prune_loop_quiet:
  assumes "sv_flt env = (\<lambda>_. None)" "sv_ctx env = (\<lambda>_. None)"
  shows "prune_loop env cutoff k removed xs s =
     ((removed + int (length (filter (abandoned cutoff) xs)), None),
      s\<lparr>st_staging := filter (\<lambda>y. se_name y \<notin> se_name ` set (filter (abandoned cutoff) xs)) (st_staging s)\<rparr>)"
  using assms(1,2)
proof (induction xs arbitrary: k removed s)
  case (Cons x xs)
  have "(\<lambda>y. se_name y \<notin> se_name ` set (filter (abandoned cutoff) xs) \<and> se_name y \<noteq> se_name x) =
      (\<lambda>y. se_name y \<notin> insert (se_name x) (se_name ` set (filter (abandoned cutoff) xs)))" by auto
  then show ?case using Cons by (auto simp: abandoned_def)
qed simp

text \<open>
  \<^verbatim>\<open>PruneStaging\<close> removes exactly the abandoned staging files: regular files named like one, last
  modified before the cut-off. Staging files of running writes, other files and all objects stay, and the number it
  reports is the number of files removed.
\<close>

theorem PruneStaging_exact:
  assumes "sv_flt env = (\<lambda>_. None)" "sv_ctx env = (\<lambda>_. None)" and "distinct (map se_name (st_staging s))"
  shows "PruneStaging env cutoff s =
    ((int (length (filter (abandoned cutoff) (st_staging s))), None),
     s\<lparr>st_staging := filter (\<lambda>x. \<not> abandoned cutoff x) (st_staging s)\<rparr>)"
proof -
  have "filter (\<lambda>y. se_name y \<notin> se_name ` set (filter (abandoned cutoff) (st_staging s))) (st_staging s) =
      filter (\<lambda>x. \<not> abandoned cutoff x) (st_staging s)"
  proof (rule filter_cong [OF refl])
    fix y assume y: "y \<in> set (st_staging s)"
    have "y = x" if "x \<in> set (st_staging s)" "se_name y = se_name x" for x
      using that y assms(3) by (auto simp: distinct_map inj_on_def)
    with y show "se_name y \<notin> se_name ` set (filter (abandoned cutoff) (st_staging s)) \<longleftrightarrow> \<not> abandoned cutoff y" by auto
  qed
  then show ?thesis using assms(1) by (simp add: PruneStaging_def prune_loop_quiet [OF assms(1,2)])
qed

section \<open>Concrete instances\<close>

definition sample_sha :: "bytes \<Rightarrow> bytes" where
  "sample_sha b = take 32 (b @ replicate 32 CHR ''x'')"

definition sample_store :: store where
  "sample_store = \<lparr>st_root = [''data''], st_maxBytes = 10, st_minFreeBytes = 5, st_reserved = 0,
     st_objects = (\<lambda>_. None), st_durable = (\<lambda>_. None),
     st_staging = [\<lparr>se_name = ''content-1.stage'', se_isDir = False, se_modTime = 3, se_data = []\<rparr>], st_leases = 0\<rparr>"

definition sample_senv :: "string \<Rightarrow> store_env" where
  "sample_senv t = \<lparr>sv_flt = (\<lambda>_. None), sv_available = 100, sv_temp = t, sv_now = 7, sv_ctx = (\<lambda>_. None), sv_cancel = None\<rparr>"

lemma sample_sha_length [simp]: "length (sample_sha b) = 32"
  by (simp add: sample_sha_def)

lemma sample_senv_quiet: "quiet_env (sample_senv t)" "sv_flt (sample_senv t) = (\<lambda>_. None)" "sv_cancel (sample_senv t) = None"
  "sv_ctx (sample_senv t) = (\<lambda>_. None)"
  by (simp_all add: sample_senv_def quiet_env_def)

lemma sample_store_room: "has_room (sample_senv t) sample_store" "st_maxBytes sample_store < max_int64"
  "has_room (sample_senv t) (staged (sample_senv u) b sample_store)"
  by (simp_all add: has_room_def sample_store_def sample_senv_def staged_def max_int64_def)

lemma sample_store_fresh: "fresh_temp (sample_senv ''2'') sample_store"
  "fresh_temp (sample_senv ''3'') (staged (sample_senv ''2'') b sample_store)"
  by (simp_all add: fresh_temp_def sample_store_def sample_senv_def stage_name_def staged_def)

lemma sample_put: "\<exists>s'. put sample_sha (Ctx None) (Some (''abc'', EOF)) (sample_senv ''2'') sample_store =
   (Inr \<lparr>cr_key = object_key sample_sha ''abc'', cr_size = 3\<rparr>, s')"
proof -
  have put: "put sample_sha (Ctx None) (Some (''abc'', EOF)) (sample_senv ''2'') sample_store =
      (let p = object_path (object_key sample_sha ''abc'') in
       case put_link (sample_senv ''2'') p ''abc'' (sync_objects (object_dir p) (staged (sample_senv ''2'') ''abc'' sample_store)) of
         (l, s3) \<Rightarrow> put_finish sample_sha (sample_senv ''2'') p ''abc'' l s3)"
    using put_stage_quiet [OF sample_senv_quiet(1) sample_store_room(1) _ sample_store_room(2) sample_store_fresh(1), of "Ctx None" "''abc''"]
      put_prepare_quiet [OF sample_senv_quiet(1), of sample_sha "''abc''"] object_key_valid [of sample_sha "''abc''"]
    by (simp add: put_def Let_def sample_store_def)
  show ?thesis unfolding put
    by (simp add: put_link_def put_finish_def put_cleanup_def Let_def sample_senv_quiet sync_objects_def staged_def sample_store_def)
qed

theorem syncDirectoryTree_spec_witness:
  "set (snd (syncDirectoryTree (\<lambda>_. None) [''data''] [''data'', ''objects''])) =
    {d. prefix [''data''] d \<and> prefix d [''data'', ''objects'']}"
  using syncDirectoryTree_spec [of "\<lambda>_. None" "[''data'']" "[''data'', ''objects'']"] by simp

theorem reserve_keeps_floor_witness:
  "st_reserved (snd (reserve (Ctx None) (sample_senv ''2'') sample_store)) = 10"
proof -
  have "reserve (Ctx None) (sample_senv ''2'') sample_store =
      (Inr (), sample_store\<lparr>st_reserved := st_reserved sample_store + st_maxBytes sample_store\<rparr>)"
    by (rule reserve_room [OF sample_senv_quiet(1) sample_store_room(1)]) simp
  from reserve_keeps_floor [OF this] this show ?thesis by (simp add: sample_store_def)
qed

theorem put_stores_durably_witness:
  "\<exists>ref s'. put sample_sha (Ctx None) (Some (''abc'', EOF)) (sample_senv ''2'') sample_store = (Inr ref, s') \<and>
     Verify sample_sha (sample_senv []) ref (crash s') = Inr ()"
proof -
  obtain s' where "put sample_sha (Ctx None) (Some (''abc'', EOF)) (sample_senv ''2'') sample_store =
     (Inr \<lparr>cr_key = object_key sample_sha ''abc'', cr_size = 3\<rparr>, s')" using sample_put by blast
  from put_stores_durably [OF this _ sample_store_room(2) sample_senv_quiet(2,3)] this
  show ?thesis by (auto simp: sample_store_def)
qed

theorem put_keeps_store_witness:
  "store_ok sample_sha (snd (put sample_sha (Ctx None) (Some (''abc'', EOF)) (sample_senv ''2'') sample_store))"
proof -
  have "store_ok sample_sha sample_store" by (simp add: store_ok_def sample_store_def)
  from put_keeps_store [OF _ this] show ?thesis by (metis prod.collapse)
qed

theorem put_accepts_witness:
  "put sample_sha (Ctx None) (Some (replicate 11 CHR ''a'', EOF)) (sample_senv ''2'') sample_store = (Inl ErrContentTooLarge, sample_store)"
  using put_accepts [OF sample_senv_quiet(1) sample_store_room(1) _ sample_store_room(2) sample_store_fresh(1), of "Ctx None" sample_sha "replicate 11 CHR ''a''"]
  by (simp add: sample_store_def)

theorem racing_put_not_durable_witness:
  "\<exists>s'. racing_puts sample_sha (Ctx None) ''abc'' (sample_senv ''3'') (sample_senv ''2'') sample_store =
      (Inr \<lparr>cr_key = object_key sample_sha ''abc'', cr_size = 3\<rparr>, s') \<and>
    st_objects (crash s') (object_path (object_key sample_sha ''abc'')) = None"
  using racing_put_not_durable [OF sample_senv_quiet(1) sample_senv_quiet(1) _ sample_store_room(1,3,2) sample_store_fresh,
      where ctx = "Ctx None" and ?sha256.0 = sample_sha and raw = "''abc''"]
  by (auto simp: sample_store_def)

theorem PruneStaging_exact_witness:
  "st_staging (snd (PruneStaging (sample_senv []) 5 sample_store)) = []"
  using PruneStaging_exact [OF sample_senv_quiet(2,4), of sample_store "[]" 5]
  by (simp add: sample_store_def abandoned_def has_prefix_def has_suffix_def)

end
