(* ===== verification/Delivery_Repository.thy ===== *)
theory Delivery_Repository
  imports Db_Schema
begin

text \<open>
  \<^verbatim>\<open>internal/postgres/delivery_repository.go\<close>: recipient resolution with quotas and the delivery
  transaction. \<open>canon\<close> stands for \<^verbatim>\<open>uuid.Parse\<close> and printing (the UUID package), \<open>now\<close> for the
  transaction's \<^verbatim>\<open>now()\<close>, and \<open>newid\<close> for the identifiers \<^verbatim>\<open>uuidv7()\<close> generates.
\<close>

section \<open>Limits\<close>

record delivery_limits =
  li_messages :: int
  li_storage :: int

text \<open>\<^verbatim>\<open>NewDeliveryRepositoryWithLimits\<close>; the flag says whether the pool is non-nil.\<close>

definition NewDeliveryRepositoryWithLimits :: "bool \<Rightarrow> delivery_limits \<Rightarrow> delivery_limits result" where
  "NewDeliveryRepositoryWithLimits pool lim =
     (if \<not> pool then Inl (OtherError ''postgres pool is required'')
      else if li_messages lim \<le> 0 \<or> li_storage lim \<le> 0 then Inl (OtherError ''delivery Inbox limits must be positive'')
      else Inr lim)"

section \<open>Statements\<close>

text \<open>\<^verbatim>\<open>INSERT INTO mail_contents ... ON CONFLICT DO NOTHING\<close>: the number of rows inserted.\<close>

definition new_content_row :: "time \<Rightarrow> string \<Rightarrow> int \<Rightarrow> content_row" where
  "new_content_row now k n =
     \<lparr>mc_key = k, mc_size = n, mc_created = now, mc_parse_status = ''pending'', mc_parse_attempts = 0,
      mc_available_at = now, mc_lease_token = None, mc_lease_until = None, mc_error_code = None,
      mc_updated = now\<rparr>"

definition sql_insert_content :: "time \<Rightarrow> string \<Rightarrow> int \<Rightarrow> nat stmt" where
  "sql_insert_content now k n d =
     (if \<not> key_valid k then Inl (CheckViolation ''mail_contents_key_valid'')
      else if n < 0 then Inl (CheckViolation ''mail_contents_size_valid'')
      else if find_content d k \<noteq> None then Inr (0, d)
      else Inr (1, d\<lparr>mail_contents := mail_contents d @ [new_content_row now k n]\<rparr>))"

definition sql_content_size :: "string \<Rightarrow> int stmt" where
  "sql_content_size k d =
     (case find_content d k of
        None \<Rightarrow> Inl (DriverError (OtherError ''no rows in result set''))
      | Some c \<Rightarrow> Inr (mc_size c, d))"

text \<open>\<^verbatim>\<open>INSERT INTO messages ... RETURNING id\<close> with its key, foreign keys and check.\<close>

definition sql_insert_message :: "(string \<Rightarrow> string option) \<Rightarrow> string \<Rightarrow> string \<Rightarrow> string \<Rightarrow> string \<Rightarrow> time \<Rightarrow> string stmt" where
  "sql_insert_message canon mid inboxID k sender received d =
     (case canon inboxID of
        None \<Rightarrow> Inl (DriverError (OtherError ''invalid input syntax for type uuid''))
      | Some i \<Rightarrow>
          if length sender > 320 then Inl (CheckViolation ''messages_envelope_sender_size'')
          else if mid \<in> ms_id ` set (messages d) then Inl (UniqueViolation ''messages_pkey'')
          else if i \<notin> ib_id ` set (inboxes d) then Inl (ForeignKeyViolation ''messages_inbox_id_fkey'')
          else if k \<notin> mc_key ` set (mail_contents d) then Inl (ForeignKeyViolation ''messages_content_key_fkey'')
          else Inr (mid, d\<lparr>messages := messages d @
            [\<lparr>ms_id = mid, ms_inbox = i, ms_content = k, ms_sender = sender, ms_received = received,
              ms_seen = None\<rparr>]\<rparr>))"

fun mapDeliveryError :: "sql_error \<Rightarrow> go_error" where
  "mapDeliveryError (ForeignKeyViolation c) = ErrInboxNotFound"
| "mapDeliveryError e = sql_wrap e"

section \<open>Resolution\<close>

definition live_by_address :: "time \<Rightarrow> string \<Rightarrow> db \<Rightarrow> inbox_row option" where
  "live_by_address now addr d = find (\<lambda>r. ib_address r = addr \<and> inbox_live now r) (inboxes d)"

definition resolveInbox :: "time \<Rightarrow> string \<Rightarrow> fault \<Rightarrow> db \<Rightarrow> string result" where
  "resolveInbox now addr flt d =
     (case run_stmt sql_wrap (query (live_by_address now addr)) flt d of
        (Inl e, _) \<Rightarrow> Inl e
      | (Inr None, _) \<Rightarrow> Inl ErrInboxNotFound
      | (Inr (Some r), _) \<Rightarrow> Inr (ib_id r))"

definition ResolveInboxForDelivery :: "delivery_limits option \<Rightarrow> time \<Rightarrow> string \<Rightarrow> int \<Rightarrow> fault \<Rightarrow> db \<Rightarrow> string result" where
  "ResolveInboxForDelivery lim now addr declaredSize flt d =
     (if declaredSize < 0 then Inl ErrInvalidDelivery
      else case lim of
          None \<Rightarrow> resolveInbox now addr flt d
        | Some l \<Rightarrow>
            (case run_stmt sql_wrap (query (\<lambda>d. map_option
                (\<lambda>r. (ib_id r, inbox_count d (ib_id r), inbox_storage d (ib_id r)))
                (live_by_address now addr d))) flt d of
               (Inl e, _) \<Rightarrow> Inl e
             | (Inr None, _) \<Rightarrow> Inl ErrInboxNotFound
             | (Inr (Some (inboxID, messageCount, storageBytes)), _) \<Rightarrow>
                 if messageCount \<ge> li_messages l then Inl ErrInboxMessageQuotaExceeded
                 else if storageBytes \<ge> li_storage l \<or> declaredSize > li_storage l - storageBytes
                   then Inl ErrInboxStorageQuotaExceeded
                 else Inr inboxID))"

definition ResolveInbox :: "delivery_limits option \<Rightarrow> time \<Rightarrow> string \<Rightarrow> fault \<Rightarrow> db \<Rightarrow> string result" where
  "ResolveInbox lim now addr flt d = ResolveInboxForDelivery lim now addr 0 flt d"

section \<open>The delivery transaction\<close>

fun parse_uuids :: "(string \<Rightarrow> string option) \<Rightarrow> string list \<Rightarrow> string list result" where
  "parse_uuids canon [] = Inr []"
| "parse_uuids canon (r # rs) =
     (case canon r of
        None \<Rightarrow> Inl ErrInvalidDelivery
      | Some u \<Rightarrow> (case parse_uuids canon rs of Inl e \<Rightarrow> Inl e | Inr us \<Rightarrow> Inr (u # us)))"

text \<open>
  The live rows among the recipients, in the order of the statement. Its \<^verbatim>\<open>FOR UPDATE\<close> has no counterpart: a transaction runs here alone on
  the tables from its first statement to its commit, which is what the row locks are there to ensure for the quotas of an Inbox.
\<close>

definition locked_recipients :: "time \<Rightarrow> string set \<Rightarrow> db \<Rightarrow> string list" where
  "locked_recipients now uuids d =
     sort (map ib_id (filter (\<lambda>r. ib_id r \<in> uuids \<and> inbox_live now r) (inboxes d)))"

text \<open>The usage rows of the recipients, as the map \<^verbatim>\<open>byInbox\<close>; absent rows are zero usage.\<close>

definition recipient_usage :: "string set \<Rightarrow> db \<Rightarrow> string \<Rightarrow> int \<times> int" where
  "recipient_usage uuids d i = (if i \<in> uuids then (inbox_count d i, inbox_storage d i) else (0, 0))"

fun check_quotas :: "delivery_limits \<Rightarrow> int \<Rightarrow> (string \<Rightarrow> int \<times> int) \<Rightarrow> string list \<Rightarrow> unit result" where
  "check_quotas l sz use [] = Inr ()"
| "check_quotas l sz use (r # rs) =
     (if fst (use r) \<ge> li_messages l then Inl ErrInboxMessageQuotaExceeded
      else if sz > li_storage l - snd (use r) then Inl ErrInboxStorageQuotaExceeded
      else check_quotas l sz use rs)"

definition lift_result :: "'a result \<Rightarrow> 'a tx" where
  "lift_result r = (case r of Inl e \<Rightarrow> tx_fail e | Inr x \<Rightarrow> tx_return x)"

definition lockAndCheckDeliveryRecipients ::
  "(string \<Rightarrow> string option) \<Rightarrow> delivery_limits option \<Rightarrow> time \<Rightarrow> delivery \<Rightarrow> unit tx" where
  "lockAndCheckDeliveryRecipients canon lim now dl =
     tx_bind (lift_result (parse_uuids canon (dl_recipients dl))) (\<lambda>us.
     tx_bind (stmt sql_wrap (query (locked_recipients now (set us)))) (\<lambda>locked.
     if length locked \<noteq> length (dl_recipients dl) then tx_fail ErrInboxNotFound
     else case lim of
         None \<Rightarrow> tx_return ()
       | Some l \<Rightarrow>
           tx_bind (stmt sql_wrap (query (recipient_usage (set us)))) (\<lambda>use.
             lift_result (check_quotas l (cr_size (dl_content dl)) use (dl_recipients dl)))))"

definition delivery_content_tx :: "time \<Rightarrow> content_ref \<Rightarrow> unit tx" where
  "delivery_content_tx now ref =
     tx_bind (stmt sql_wrap (sql_insert_content now (cr_key ref) (cr_size ref))) (\<lambda>rows.
       if rows = 0 then
         tx_bind (stmt sql_wrap (sql_content_size (cr_key ref))) (\<lambda>existing.
           if existing \<noteq> cr_size ref then tx_fail ErrContentMetadataConflict else tx_return ())
       else tx_return ())"

definition delivery_insert_tx :: "(string \<Rightarrow> string option) \<Rightarrow> (nat \<Rightarrow> string) \<Rightarrow> delivery \<Rightarrow> nat \<times> string \<Rightarrow> stored_message tx" where
  "delivery_insert_tx canon newid dl = (\<lambda>(i, inboxID).
     tx_bind (stmt mapDeliveryError
         (sql_insert_message canon (newid i) inboxID (cr_key (dl_content dl)) (dl_sender dl) (dl_received dl)))
       (\<lambda>mid. tx_return \<lparr>sm_id = mid, sm_inbox = inboxID\<rparr>))"

definition delivery_tx :: "(string \<Rightarrow> string option) \<Rightarrow> delivery_limits option \<Rightarrow> time \<Rightarrow> (nat \<Rightarrow> string) \<Rightarrow> delivery \<Rightarrow> stored_message list tx" where
  "delivery_tx canon lim now newid dl =
     tx_bind (lockAndCheckDeliveryRecipients canon lim now dl) (\<lambda>_.
     tx_bind (delivery_content_tx now (dl_content dl)) (\<lambda>_.
     tx_map (delivery_insert_tx canon newid dl) (enumerate 0 (dl_recipients dl))))"

definition CommitDelivery :: "(string \<Rightarrow> string option) \<Rightarrow> delivery_limits option \<Rightarrow> time \<Rightarrow> (nat \<Rightarrow> string) \<Rightarrow>
    delivery \<Rightarrow> (nat \<Rightarrow> fault) \<Rightarrow> db \<Rightarrow> stored_message list result \<times> db" where
  "CommitDelivery canon lim now newid dl flt d =
     (case delivery_validate canon dl of
        Inl e \<Rightarrow> (Inl e, d)
      | Inr _ \<Rightarrow> run_tx (delivery_tx canon lim now newid dl) flt d)"

section \<open>Schema constraints are kept\<close>

lemma new_content_row_ok: "key_valid k \<Longrightarrow> 0 \<le> n \<Longrightarrow> content_row_ok (new_content_row now k n)"
  by (simp add: new_content_row_def content_row_ok_def parse_lease_valid_def parse_terminal_valid_def)

lemma sql_insert_content_wf:
  assumes "db_wf d" and "sql_insert_content now k n d = Inr (x, d')"
  shows "db_wf d'"
proof (cases "find_content d k")
  case None
  then have "k \<notin> mc_key ` set (mail_contents d)" by (simp add: find_content_def find_keyed_None)
  moreover have "d' = d\<lparr>mail_contents := mail_contents d @ [new_content_row now k n]\<rparr>" "key_valid k" "0 \<le> n"
    using assms(2) None by (auto simp: sql_insert_content_def split: if_splits)
  moreover have "mc_key (new_content_row now k n) = k" by (simp add: new_content_row_def)
  ultimately show ?thesis using assms(1) new_content_row_ok [of k n now]
    by (auto simp: db_wf_def wf_tables list_all_iff)
next
  case (Some c)
  with assms show ?thesis by (auto simp: sql_insert_content_def split: if_splits)
qed

lemma sql_insert_message_wf:
  assumes "db_wf d" and "sql_insert_message canon mid i k sender received d = Inr (x, d')"
  shows "db_wf d'"
  using assms by (auto simp: sql_insert_message_def db_wf_def wf_tables split: option.splits if_splits)

lemma sql_content_size_wf: "db_wf d \<Longrightarrow> sql_content_size k d = Inr (x, d') \<Longrightarrow> db_wf d'"
  by (auto simp: sql_content_size_def split: option.splits)

lemma keeps_lift: "wf.keeps (lift_result r)"
  by (auto simp: lift_result_def wf.keeps_return wf.keeps_fail split: sum.splits)

lemma keeps_insert_content: "wf.keeps (stmt f (sql_insert_content now k n))"
  by (rule wf.keeps_stmt) (rule sql_insert_content_wf)

lemma keeps_insert_message: "wf.keeps (stmt f (sql_insert_message canon mid i k sender received))"
  by (rule wf.keeps_stmt) (rule sql_insert_message_wf)

lemma keeps_content_size: "wf.keeps (stmt f (sql_content_size k))"
  by (rule wf.keeps_stmt) (rule sql_content_size_wf)

lemma delivery_tx_wf: "wf.keeps (delivery_tx canon lim now newid dl)"
proof -
  have l: "wf.keeps (lockAndCheckDeliveryRecipients canon lim now dl)"
    unfolding lockAndCheckDeliveryRecipients_def
    by (auto intro!: wf.keeps_rules keeps_lift split: option.splits)
  have c: "wf.keeps (delivery_content_tx now (dl_content dl))"
    unfolding delivery_content_tx_def
    by (auto intro!: wf.keeps_rules keeps_insert_content keeps_content_size)
  have i: "wf.keeps (delivery_insert_tx canon newid dl x)" for x
    unfolding delivery_insert_tx_def
    by (cases x) (auto intro!: wf.keeps_rules keeps_insert_message)
  show ?thesis unfolding delivery_tx_def by (intro wf.keeps_rules l c i)
qed

section \<open>What a committed delivery does\<close>

definition delivery_rows :: "(string \<Rightarrow> string option) \<Rightarrow> (nat \<Rightarrow> string) \<Rightarrow> delivery \<Rightarrow> (nat \<times> string) list \<Rightarrow> message_row list" where
  "delivery_rows canon newid dl xs =
     map (\<lambda>(i, r). \<lparr>ms_id = newid i, ms_inbox = the (canon r), ms_content = cr_key (dl_content dl),
        ms_sender = dl_sender dl, ms_received = dl_received dl, ms_seen = None\<rparr>) xs"

definition delivered :: "(string \<Rightarrow> string option) \<Rightarrow> time \<Rightarrow> (nat \<Rightarrow> string) \<Rightarrow> delivery \<Rightarrow> db \<Rightarrow> db" where
  "delivered canon now newid dl d =
     d\<lparr>mail_contents := mail_contents d @
         (if find_content d (cr_key (dl_content dl)) = None
          then [new_content_row now (cr_key (dl_content dl)) (cr_size (dl_content dl))] else []),
       messages := messages d @ delivery_rows canon newid dl (enumerate 0 (dl_recipients dl))\<rparr>"

definition stored_of :: "(nat \<Rightarrow> string) \<Rightarrow> (nat \<times> string) list \<Rightarrow> stored_message list" where
  "stored_of newid xs = map (\<lambda>(i, r). \<lparr>sm_id = newid i, sm_inbox = r\<rparr>) xs"

lemma delivery_insert_effect:
  assumes "delivery_insert_tx canon newid dl (i, r) flt (n, d) = (Inr st, n', d')"
  shows "d' = d\<lparr>messages := messages d @ delivery_rows canon newid dl [(i, r)]\<rparr>"
    "st = \<lparr>sm_id = newid i, sm_inbox = r\<rparr>" "canon r \<noteq> None" "newid i \<notin> ms_id ` set (messages d)"
    "the (canon r) \<in> ib_id ` set (inboxes d)"
  using assms
  by (auto simp: delivery_insert_tx_def tx_bind_Inr tx_return_eq stmt_Inr sql_insert_message_def delivery_rows_def
      simp del: stmt.simps split: option.splits if_splits)

lemma delivery_inserts_effect:
  "tx_map (delivery_insert_tx canon newid dl) xs flt (n, d) = (Inr st, n', d') \<Longrightarrow>
     d' = d\<lparr>messages := messages d @ delivery_rows canon newid dl xs\<rparr> \<and> st = stored_of newid xs"
proof (induction xs arbitrary: n d st)
  case Nil
  then show ?case by (simp add: tx_return_eq delivery_rows_def stored_of_def)
next
  case (Cons x xs)
  obtain i r where x: "x = (i, r)" by (cases x)
  from Cons.prems obtain y n1 d1 ys where y: "delivery_insert_tx canon newid dl (i, r) flt (n, d) = (Inr y, n1, d1)"
    and ys: "tx_map (delivery_insert_tx canon newid dl) xs flt (n1, d1) = (Inr ys, n', d')" and st: "st = y # ys"
    by (auto simp: x tx_bind_Inr tx_return_eq)
  from Cons.IH [OF ys] delivery_insert_effect(1,2) [OF y] show ?case
    by (simp add: st x delivery_rows_def stored_of_def)
qed

lemma delivery_content_effect:
  assumes "delivery_content_tx now ref flt (n, d) = (Inr u, n', d')"
  shows "d' = d\<lparr>mail_contents := mail_contents d @
      (if find_content d (cr_key ref) = None then [new_content_row now (cr_key ref) (cr_size ref)] else [])\<rparr>"
    "\<And>c. find_content d (cr_key ref) = Some c \<Longrightarrow> mc_size c = cr_size ref"
  using assms
  by (auto simp: delivery_content_tx_def tx_bind_Inr tx_return_eq tx_fail_eq stmt_Inr sql_insert_content_def sql_content_size_def
      simp del: stmt.simps split: option.splits if_splits)

lemma lift_result_Inr: "lift_result r flt s = (Inr x, s') \<longleftrightarrow> r = Inr x \<and> s' = s"
  by (auto simp: lift_result_def tx_return_eq tx_fail_eq split: sum.splits)

lemma lock_effect:
  assumes "lockAndCheckDeliveryRecipients canon lim now dl flt (n, d) = (Inr u, n', d')"
  shows "d' = d" "\<exists>us. parse_uuids canon (dl_recipients dl) = Inr us \<and>
     length (locked_recipients now (set us) d) = length (dl_recipients dl) \<and>
     (\<forall>l. lim = Some l \<longrightarrow> check_quotas l (cr_size (dl_content dl)) (recipient_usage (set us) d) (dl_recipients dl) = Inr ())"
  using assms
  by (auto simp: lockAndCheckDeliveryRecipients_def tx_bind_Inr tx_return_eq tx_fail_eq stmt_Inr query_Inr lift_result_Inr
      simp del: stmt.simps split: option.splits if_splits)

lemma delivery_tx_effect:
  assumes "delivery_tx canon lim now newid dl flt (n, d) = (Inr st, n', d')"
  shows "d' = delivered canon now newid dl d" "st = stored_of newid (enumerate 0 (dl_recipients dl))"
    "\<exists>us. parse_uuids canon (dl_recipients dl) = Inr us \<and>
     length (locked_recipients now (set us) d) = length (dl_recipients dl) \<and>
     (\<forall>l. lim = Some l \<longrightarrow> check_quotas l (cr_size (dl_content dl)) (recipient_usage (set us) d) (dl_recipients dl) = Inr ())"
    "\<And>c. find_content d (cr_key (dl_content dl)) = Some c \<Longrightarrow> mc_size c = cr_size (dl_content dl)"
proof -
  from assms obtain n1 d1 n2 d2 u v where
    l: "lockAndCheckDeliveryRecipients canon lim now dl flt (n, d) = (Inr u, n1, d1)" and
    c: "delivery_content_tx now (dl_content dl) flt (n1, d1) = (Inr v, n2, d2)" and
    i: "tx_map (delivery_insert_tx canon newid dl) (enumerate 0 (dl_recipients dl)) flt (n2, d2) = (Inr st, n', d')"
    by (auto simp: delivery_tx_def tx_bind_Inr)
  note d1 = lock_effect(1) [OF l]
  from delivery_content_effect(1) [OF c] delivery_inserts_effect [OF i]
  show "d' = delivered canon now newid dl d" "st = stored_of newid (enumerate 0 (dl_recipients dl))"
    by (simp_all add: d1 delivered_def)
  from lock_effect(2) [OF l] show "\<exists>us. parse_uuids canon (dl_recipients dl) = Inr us \<and>
     length (locked_recipients now (set us) d) = length (dl_recipients dl) \<and>
     (\<forall>l. lim = Some l \<longrightarrow> check_quotas l (cr_size (dl_content dl)) (recipient_usage (set us) d) (dl_recipients dl) = Inr ())" .
  show "\<And>c. find_content d (cr_key (dl_content dl)) = Some c \<Longrightarrow> mc_size c = cr_size (dl_content dl)"
    using delivery_content_effect(2) [OF c] by (simp add: d1)
qed

section \<open>Quotas\<close>

definition within_limits :: "delivery_limits \<Rightarrow> db \<Rightarrow> bool" where
  "within_limits l d \<longleftrightarrow> (\<forall>i. inbox_count d i \<le> li_messages l \<and> inbox_storage d i \<le> li_storage l)"

definition message_sizes :: "db \<Rightarrow> message_row \<Rightarrow> int list" where
  "message_sizes d m = map mc_size (filter (\<lambda>c. mc_key c = ms_content m) (mail_contents d))"

lemma inbox_sizes_alt:
  "inbox_sizes d i = concat (map (message_sizes d) (filter (\<lambda>m. ms_inbox m = i) (messages d)))"
  by (simp add: inbox_sizes_def message_sizes_def [abs_def])

lemma message_sizes_old:
  assumes "db_wf d" and "m \<in> set (messages d)"
  shows "message_sizes (delivered canon now newid dl d) m = message_sizes d m"
proof -
  have "ms_content m \<in> mc_key ` set (mail_contents d)"
    using assms by (auto simp: db_wf_def wf_messages_def list_all_iff)
  then have "find_content d (cr_key (dl_content dl)) = None \<Longrightarrow> ms_content m \<noteq> cr_key (dl_content dl)"
    by (auto simp: find_content_def find_keyed_None)
  then show ?thesis
    by (cases "find_content d (cr_key (dl_content dl))") (auto simp: message_sizes_def delivered_def new_content_row_def)
qed

lemma message_sizes_new:
  assumes "db_wf d" and "ms_content m = cr_key (dl_content dl)"
    and "\<And>c. find_content d (cr_key (dl_content dl)) = Some c \<Longrightarrow> mc_size c = cr_size (dl_content dl)"
  shows "message_sizes (delivered canon now newid dl d) m = [cr_size (dl_content dl)]"
proof (cases "find_content d (cr_key (dl_content dl))")
  case None
  then have "filter (\<lambda>c. mc_key c = cr_key (dl_content dl)) (mail_contents d) = []"
    by (auto simp: find_content_def find_None_iff filter_empty_conv)
  with None assms(2) show ?thesis by (simp add: message_sizes_def delivered_def new_content_row_def)
next
  case (Some c)
  with wf_find_content [OF assms(1)] have c: "c \<in> set (mail_contents d)" "mc_key c = cr_key (dl_content dl)" by auto
  have "filter (\<lambda>y. mc_key y = mc_key c) (mail_contents d) = [c]"
    using assms(1) c(1) by (intro filter_key_singleton) (simp_all add: db_wf_def wf_contents_def)
  with c(2) assms(2,3) Some show ?thesis by (simp add: message_sizes_def delivered_def)
qed

lemma length_filter_delivery_rows:
  assumes "\<forall>r \<in> set rs. canon r = Some r" and "distinct rs"
  shows "length (filter (\<lambda>m. ms_inbox m = i) (delivery_rows canon newid dl (enumerate n rs))) = (if i \<in> set rs then 1 else 0)"
  using assms
proof (induction rs arbitrary: n)
  case (Cons r rs)
  have c: "delivery_rows canon newid dl (enumerate n (r # rs)) =
      delivery_rows canon newid dl [(n, r)] @ delivery_rows canon newid dl (enumerate (Suc n) rs)"
    by (simp add: delivery_rows_def)
  have h: "filter (\<lambda>m. ms_inbox m = i) (delivery_rows canon newid dl [(n, r)]) =
      (if r = i then delivery_rows canon newid dl [(n, r)] else [])"
    using Cons.prems(1) by (auto simp: delivery_rows_def)
  have "length (delivery_rows canon newid dl [(n, r)]) = 1" by (simp add: delivery_rows_def)
  with Cons.IH [of "Suc n"] Cons.prems show ?case unfolding c filter_append length_append h by auto
qed (simp add: delivery_rows_def)

lemma inbox_sizes_delivered:
  assumes wf: "db_wf d" and sz: "\<And>c. find_content d (cr_key (dl_content dl)) = Some c \<Longrightarrow> mc_size c = cr_size (dl_content dl)"
    and rs: "\<forall>r \<in> set (dl_recipients dl). canon r = Some r" "distinct (dl_recipients dl)"
  shows "inbox_sizes (delivered canon now newid dl d) i =
     inbox_sizes d i @ (if i \<in> set (dl_recipients dl) then [cr_size (dl_content dl)] else [])"
proof -
  let ?d = "delivered canon now newid dl d"
  let ?new = "filter (\<lambda>m. ms_inbox m = i) (delivery_rows canon newid dl (enumerate 0 (dl_recipients dl)))"
  have ms: "filter (\<lambda>m. ms_inbox m = i) (messages ?d) = filter (\<lambda>m. ms_inbox m = i) (messages d) @ ?new"
    by (simp add: delivered_def)
  have old: "map (message_sizes ?d) (filter (\<lambda>m. ms_inbox m = i) (messages d)) =
      map (message_sizes d) (filter (\<lambda>m. ms_inbox m = i) (messages d))"
    by (rule map_cong) (auto simp: message_sizes_old [OF wf])
  have "map (message_sizes ?d) ?new = map (\<lambda>_. [cr_size (dl_content dl)]) ?new"
    by (rule map_cong) (auto simp: delivery_rows_def intro!: message_sizes_new [OF wf _ sz])
  also have "\<dots> = replicate (length ?new) [cr_size (dl_content dl)]" by (simp add: map_replicate_const)
  finally have new: "map (message_sizes ?d) ?new = (if i \<in> set (dl_recipients dl) then [[cr_size (dl_content dl)]] else [])"
    using length_filter_delivery_rows [OF rs, of i newid dl 0] by simp
  show ?thesis unfolding inbox_sizes_alt ms map_append old new by simp
qed

lemma parse_uuids_canonical: "\<forall>r \<in> set rs. canon r = Some r \<Longrightarrow> parse_uuids canon rs = Inr rs"
  by (induction rs) auto

lemma check_quotas_ok:
  "check_quotas l n use rs = Inr () \<longleftrightarrow> (\<forall>r \<in> set rs. fst (use r) < li_messages l \<and> n \<le> li_storage l - snd (use r))"
  by (induction rs) (auto simp: not_le not_less)

lemma delivered_within:
  assumes "db_wf d" and "within_limits l d" and rs: "\<forall>r \<in> set (dl_recipients dl). canon r = Some r" "distinct (dl_recipients dl)"
    and tx: "delivery_tx canon (Some l) now newid dl flt (n, d) = (Inr st, n', d')"
  shows "within_limits l d'"
proof -
  note e = delivery_tx_effect [OF tx]
  have "check_quotas l (cr_size (dl_content dl)) (recipient_usage (set (dl_recipients dl)) d) (dl_recipients dl) = Inr ()"
    using e(3) by (simp add: parse_uuids_canonical [OF rs(1)])
  then have q: "inbox_count d r < li_messages l" "cr_size (dl_content dl) \<le> li_storage l - inbox_storage d r"
    if "r \<in> set (dl_recipients dl)" for r
    using that by (auto simp: check_quotas_ok recipient_usage_def)
  have "inbox_sizes d' i = inbox_sizes d i @ (if i \<in> set (dl_recipients dl) then [cr_size (dl_content dl)] else [])" for i
    unfolding e(1) by (rule inbox_sizes_delivered [OF assms(1) e(4) rs])
  then have u: "inbox_count d' i = inbox_count d i + (if i \<in> set (dl_recipients dl) then 1 else 0)"
    "inbox_storage d' i = inbox_storage d i + (if i \<in> set (dl_recipients dl) then cr_size (dl_content dl) else 0)" for i
    by (simp_all add: inbox_count_def inbox_storage_def)
  show ?thesis unfolding within_limits_def
  proof
    fix i
    show "inbox_count d' i \<le> li_messages l \<and> inbox_storage d' i \<le> li_storage l"
      using assms(2) q [of i] by (auto simp: u within_limits_def)
  qed
qed

section \<open>Properties\<close>

lemma CommitDelivery_effect:
  assumes "db_wf d" and "CommitDelivery canon lim now newid dl flt d = (r, d')"
  shows "db_wf d' \<and>
    ((d' = d \<and> \<not> is_ok r) \<or>
     (d' = delivered canon now newid dl d \<and>
      (is_ok r \<longrightarrow> r = Inr (stored_of newid (enumerate 0 (dl_recipients dl))))))"
proof (cases "delivery_validate canon dl")
  case (Inl e)
  with assms show ?thesis by (auto simp: CommitDelivery_def)
next
  case (Inr u)
  with assms(2) have tx: "run_tx (delivery_tx canon lim now newid dl) flt d = (r, d')" by (simp add: CommitDelivery_def)
  have "db_wf d'" using wf.run_tx_keeps [OF delivery_tx_wf assms(1) tx] .
  moreover from tx have "(d' = d \<and> \<not> is_ok r) \<or> (d' = delivered canon now newid dl d \<and>
      (is_ok r \<longrightarrow> r = Inr (stored_of newid (enumerate 0 (dl_recipients dl)))))"
  proof (cases rule: run_tx_cases)
    case Unchanged
    then show ?thesis by auto
  next
    case (Done x n)
    from delivery_tx_effect(1,2) [OF Done(1)] Done(2) show ?thesis by auto
  qed
  ultimately show ?thesis by blast
qed

text \<open>
  C3. A delivery is committed for all of its recipients or for none: under every fault schedule
  (any statement failing, the commit failing, or the acknowledgement of the commit lost) the database
  is afterwards either unchanged or extended by exactly one message per recipient and the content's
  row, and it satisfies the schema constraints. Success is reported only in the second case, with
  the identifiers of the stored messages.
\<close>

theorem CommitDelivery_atomic:
  assumes "db_wf d" and "CommitDelivery canon lim now newid dl flt d = (r, d')"
  shows "db_wf d' \<and>
    ((d' = d \<and> \<not> is_ok r) \<or>
     (d' = delivered canon now newid dl d \<and>
      (is_ok r \<longrightarrow> r = Inr (stored_of newid (enumerate 0 (dl_recipients dl))))))"
  using assms by (rule CommitDelivery_effect)

lemma CommitDelivery_limits:
  assumes "db_wf d" and "within_limits l d" and "\<forall>r \<in> set (dl_recipients dl). canon r = Some r"
    and "CommitDelivery canon (Some l) now newid dl flt d = (r, d')"
  shows "within_limits l d'"
proof (cases "delivery_validate canon dl")
  case (Inl e)
  with assms show ?thesis by (simp add: CommitDelivery_def)
next
  case (Inr u)
  then have "distinct (dl_recipients dl)" by (simp add: delivery_validate_ok validateEnvelope_ok)
  moreover from Inr assms(4) have "run_tx (delivery_tx canon (Some l) now newid dl) flt d = (r, d')" by (simp add: CommitDelivery_def)
  then show ?thesis
  proof (cases rule: run_tx_cases)
    case Unchanged
    with assms(2) show ?thesis by simp
  next
    case (Done x n)
    from delivered_within [OF assms(1,2,3) calculation Done(1)] show ?thesis .
  qed
qed

text \<open>
  C5. Inbox quotas are never exceeded: with limits enforced, a delivery to canonical recipient
  identifiers keeps every Inbox within its message and storage limit, whatever fails on the way.
\<close>

theorem CommitDelivery_within_limits:
  assumes "db_wf d" and "within_limits l d" and "\<forall>r \<in> set (dl_recipients dl). canon r = Some r"
    and "CommitDelivery canon (Some l) now newid dl flt d = (r, d')"
  shows "within_limits l d'"
  using assms by (rule CommitDelivery_limits)

section \<open>A resolved delivery succeeds\<close>

lemma delivery_inserts_run:
  assumes "\<forall>x \<in> set xs. canon (snd x) = Some (snd x) \<and> snd x \<in> ib_id ` set (inboxes d)"
    and "cr_key (dl_content dl) \<in> mc_key ` set (mail_contents d)" and "length (dl_sender dl) \<le> 320"
    and "distinct (map (newid \<circ> fst) xs)" and "\<forall>x \<in> set xs. newid (fst x) \<notin> ms_id ` set (messages d)"
  shows "\<exists>n'. tx_map (delivery_insert_tx canon newid dl) xs (\<lambda>_. NoFault) (n, d) =
     (Inr (stored_of newid xs), n', d\<lparr>messages := messages d @ delivery_rows canon newid dl xs\<rparr>)"
  using assms
proof (induction xs arbitrary: n d)
  case Nil
  then show ?case by (simp add: tx_return_def stored_of_def delivery_rows_def)
next
  case (Cons x xs)
  obtain i r where x: "x = (i, r)" by (cases x)
  let ?d = "d\<lparr>messages := messages d @ delivery_rows canon newid dl [(i, r)]\<rparr>"
  have one: "delivery_insert_tx canon newid dl (i, r) (\<lambda>_. NoFault) (n, d) = (Inr \<lparr>sm_id = newid i, sm_inbox = r\<rparr>, Suc n, ?d)"
    using Cons.prems by (simp add: x delivery_insert_tx_def tx_bind_def tx_return_def sql_insert_message_def delivery_rows_def)
  have "\<exists>n'. tx_map (delivery_insert_tx canon newid dl) xs (\<lambda>_. NoFault) (Suc n, ?d) =
     (Inr (stored_of newid xs), n', ?d\<lparr>messages := messages ?d @ delivery_rows canon newid dl xs\<rparr>)"
  proof (rule Cons.IH)
    show "\<forall>x \<in> set xs. newid (fst x) \<notin> ms_id ` set (messages ?d)"
      using Cons.prems(4,5) by (auto simp: x delivery_rows_def) (metis fst_conv image_eqI)
  qed (use Cons.prems in \<open>simp_all add: x\<close>)
  then show ?case using one by (auto simp: x tx_bind_def tx_return_def stored_of_def delivery_rows_def)
qed

lemma resolve_live:
  assumes "ResolveInboxForDelivery (Some l) now addr declared NoFault d = Inr r"
  shows "\<exists>row \<in> set (inboxes d). ib_id row = r \<and> ib_address row = addr \<and> inbox_live now row"
    "inbox_count d r < li_messages l" "declared \<le> li_storage l - inbox_storage d r"
proof -
  obtain row where "live_by_address now addr d = Some row" "r = ib_id row"
    and q: "inbox_count d r < li_messages l" "declared \<le> li_storage l - inbox_storage d r"
    using assms by (auto simp: ResolveInboxForDelivery_def run_stmt_def query_def split: if_splits option.splits)
  then show "\<exists>row \<in> set (inboxes d). ib_id row = r \<and> ib_address row = addr \<and> inbox_live now row"
    by (auto simp: live_by_address_def dest: find_SomeD)
  show "inbox_count d r < li_messages l" "declared \<le> li_storage l - inbox_storage d r" using q by auto
qed

lemma locked_recipients_all:
  assumes "db_wf d" and "distinct rs" and "\<forall>r \<in> set rs. \<exists>row \<in> set (inboxes d). ib_id row = r \<and> inbox_live now row"
  shows "length (locked_recipients now (set rs) d) = length rs"
proof -
  let ?rows = "filter (\<lambda>r. ib_id r \<in> set rs \<and> inbox_live now r) (inboxes d)"
  have d: "distinct (map ib_id (inboxes d))" using assms(1) by (simp add: db_wf_def wf_inboxes_def)
  then have "distinct (map ib_id ?rows)" by (simp add: distinct_map_filter)
  then have "length (map ib_id ?rows) = card (set (map ib_id ?rows))" by (simp only: distinct_card)
  also have "set (map ib_id ?rows) = set rs"
  proof
    show "set (map ib_id ?rows) \<subseteq> set rs" by auto
    show "set rs \<subseteq> set (map ib_id ?rows)"
    proof
      fix r assume "r \<in> set rs"
      with assms(3) obtain row where "row \<in> set (inboxes d)" "ib_id row = r" "inbox_live now row" by blast
      with \<open>r \<in> set rs\<close> have "row \<in> set ?rows" by simp
      with \<open>ib_id row = r\<close> show "r \<in> set (map ib_id ?rows)" by force
    qed
  qed
  also have "card (set rs) = length rs" using assms(2) by (rule distinct_card)
  finally show ?thesis by (simp add: locked_recipients_def)
qed

lemma lock_run:
  assumes "db_wf d" and "distinct (dl_recipients dl)" and "\<forall>r \<in> set (dl_recipients dl). canon r = Some r"
    and "\<forall>r \<in> set (dl_recipients dl). \<exists>row \<in> set (inboxes d). ib_id row = r \<and> inbox_live now row"
    and "\<forall>r \<in> set (dl_recipients dl). inbox_count d r < li_messages l \<and> cr_size (dl_content dl) \<le> li_storage l - inbox_storage d r"
  shows "\<exists>n'. lockAndCheckDeliveryRecipients canon (Some l) now dl (\<lambda>_. NoFault) (n, d) = (Inr (), n', d)"
proof -
  have "check_quotas l (cr_size (dl_content dl)) (recipient_usage (set (dl_recipients dl)) d) (dl_recipients dl) = Inr ()"
    using assms(5) by (auto simp: check_quotas_ok recipient_usage_def)
  then show ?thesis using locked_recipients_all [OF assms(1,2,4)] parse_uuids_canonical [OF assms(3)]
    by (simp add: lockAndCheckDeliveryRecipients_def tx_bind_def lift_result_def tx_return_def query_def)
qed

lemma content_run:
  assumes "key_valid (cr_key ref)" "0 \<le> cr_size ref" "\<And>c. find_content d (cr_key ref) = Some c \<Longrightarrow> mc_size c = cr_size ref"
  shows "\<exists>n'. delivery_content_tx now ref (\<lambda>_. NoFault) (n, d) = (Inr (), n',
     d\<lparr>mail_contents := mail_contents d @
        (if find_content d (cr_key ref) = None then [new_content_row now (cr_key ref) (cr_size ref)] else [])\<rparr>)"
  using assms
  by (cases "find_content d (cr_key ref)")
    (auto simp: delivery_content_tx_def tx_bind_def tx_return_def sql_insert_content_def sql_content_size_def)

text \<open>
  C27. The recipient check before DATA is sufficient: when every recipient was resolved against the quotas for the declared size and the
  message is not larger, the delivery transaction succeeds on the same state and has exactly its effect, provided that the delivery passes its own
  validation, the recipients are the canonical identifiers that the resolution returned, a content row that already has the key records
  the size of the message (another size is the conflict that \<^verbatim>\<open>ErrContentMetadataConflict\<close> reports), the generated identifiers are new, and nothing fails.
\<close>

theorem resolved_delivery_succeeds:
  assumes "db_wf d" and "delivery_validate canon dl = Inr ()"
    and "\<forall>r \<in> set (dl_recipients dl). canon r = Some r \<and>
           (\<exists>addr. ResolveInboxForDelivery (Some l) now addr declared NoFault d = Inr r)"
    and "cr_size (dl_content dl) \<le> declared"
    and "\<forall>c. find_content d (cr_key (dl_content dl)) = Some c \<longrightarrow> mc_size c = cr_size (dl_content dl)"
    and "inj newid" and "range newid \<inter> ms_id ` set (messages d) = {}"
  shows "CommitDelivery canon (Some l) now newid dl (\<lambda>_. NoFault) d =
     (Inr (stored_of newid (enumerate 0 (dl_recipients dl))), delivered canon now newid dl d)"
proof -
  let ?xs = "enumerate 0 (dl_recipients dl)"
  have val: "content_ref_validate (dl_content dl) = Inr ()" "distinct (dl_recipients dl)" "length (dl_sender dl) \<le> 320"
    using assms(2) by (auto simp: delivery_validate_ok validateEnvelope_ok)
  have key: "key_valid (cr_key (dl_content dl))" "0 \<le> cr_size (dl_content dl)"
    using val(1) key_valid_ref by (cases "dl_content dl"; simp)+
  have live: "\<exists>row \<in> set (inboxes d). ib_id row = r \<and> inbox_live now row" "inbox_count d r < li_messages l"
    "cr_size (dl_content dl) \<le> li_storage l - inbox_storage d r" if r: "r \<in> set (dl_recipients dl)" for r
  proof -
    obtain addr where a: "ResolveInboxForDelivery (Some l) now addr declared NoFault d = Inr r" using assms(3) r by blast
    from resolve_live [OF a] assms(4) show "\<exists>row \<in> set (inboxes d). ib_id row = r \<and> inbox_live now row"
      "inbox_count d r < li_messages l" "cr_size (dl_content dl) \<le> li_storage l - inbox_storage d r" by auto
  qed
  obtain n1 where lock: "lockAndCheckDeliveryRecipients canon (Some l) now dl (\<lambda>_. NoFault) (1, d) = (Inr (), n1, d)"
    using lock_run [OF assms(1) val(2)] assms(3) live by metis
  let ?d1 = "d\<lparr>mail_contents := mail_contents d @ (if find_content d (cr_key (dl_content dl)) = None
      then [new_content_row now (cr_key (dl_content dl)) (cr_size (dl_content dl))] else [])\<rparr>"
  obtain n2 where cont: "delivery_content_tx now (dl_content dl) (\<lambda>_. NoFault) (n1, d) = (Inr (), n2, ?d1)"
    using content_run [OF key, of d now n1] assms(5) by blast
  have k: "cr_key (dl_content dl) \<in> mc_key ` set (mail_contents ?d1)"
    by (cases "find_content d (cr_key (dl_content dl))")
      (auto simp: new_content_row_def find_content_def dest!: find_SomeD intro: rev_image_eqI)
  have "distinct (map newid [0..<0 + length (dl_recipients dl)])"
    using assms(6) by (simp add: distinct_map inj_on_def)
  then have ids: "distinct (map (newid \<circ> fst) ?xs)" unfolding map_map [symmetric] map_fst_enumerate .
  have "\<exists>n'. tx_map (delivery_insert_tx canon newid dl) ?xs (\<lambda>_. NoFault) (n2, ?d1) =
     (Inr (stored_of newid ?xs), n', ?d1\<lparr>messages := messages ?d1 @ delivery_rows canon newid dl ?xs\<rparr>)"
  proof (rule delivery_inserts_run [OF _ k val(3) ids])
    show "\<forall>x \<in> set ?xs. canon (snd x) = Some (snd x) \<and> snd x \<in> ib_id ` set (inboxes ?d1)"
    proof
      fix x assume "x \<in> set ?xs"
      then have "snd x \<in> set (dl_recipients dl)" by (metis list.set_map image_eqI map_snd_enumerate)
      then show "canon (snd x) = Some (snd x) \<and> snd x \<in> ib_id ` set (inboxes ?d1)"
        using assms(3) live(1) [of "snd x"] by (auto intro: rev_image_eqI)
    qed
    show "\<forall>x \<in> set ?xs. newid (fst x) \<notin> ms_id ` set (messages ?d1)" using assms(7) by auto
  qed
  then show ?thesis using assms(2) lock cont
    by (auto simp: CommitDelivery_def delivery_tx_def tx_bind_def delivered_def intro: run_tx_no_fault)
qed

section \<open>Concrete deliveries\<close>

definition sample_key :: string where
  "sample_key = ''sha256/'' @ replicate 64 CHR ''a''"

definition sample_canon :: "string \<Rightarrow> string option" where
  "sample_canon s = (if s = ''i1'' then Some s else None)"

definition sample_db :: db where
  "sample_db = empty_db\<lparr>inboxes := [\<lparr>ib_id = ''i1'', ib_address = ''a@b'', ib_status = ''active'',
     ib_expires = 100, ib_created = 0, ib_updated = 0\<rparr>]\<rparr>"

definition sample_delivery :: delivery where
  "sample_delivery = \<lparr>dl_content = \<lparr>cr_key = sample_key, cr_size = 5\<rparr>, dl_sender = [],
     dl_recipients = [''i1''], dl_received = 10\<rparr>"

definition sample_limits :: delivery_limits where
  "sample_limits = \<lparr>li_messages = 1, li_storage = 100\<rparr>"

definition sample_newid :: "nat \<Rightarrow> string" where
  "sample_newid n = replicate n CHR ''m''"

lemma sample_key_valid: "key_valid sample_key"
  by (simp add: key_valid_def sample_key_def lower_hex_char_def in_range_def list_all_iff)

lemma sample_db_wf: "db_wf sample_db"
  by (simp add: db_wf_def wf_tables sample_db_def empty_db_def List.map_filter_simps)

lemma sample_delivery_valid: "delivery_validate sample_canon sample_delivery = Inr ()"
  using key_valid_ref [of sample_key 5] sample_key_valid
  by (simp add: delivery_validate_ok validateEnvelope_ok sample_delivery_def sample_canon_def is_zero_time_def zero_time_def)

lemma sample_within: "within_limits sample_limits sample_db"
  by (simp add: within_limits_def inbox_count_def inbox_storage_def inbox_sizes_def sample_db_def empty_db_def sample_limits_def)

lemma sample_resolves: "ResolveInboxForDelivery (Some sample_limits) 20 ''a@b'' 50 NoFault sample_db = Inr ''i1''"
  by (simp add: ResolveInboxForDelivery_def run_stmt_def query_def live_by_address_def inbox_live_def
      inbox_count_def inbox_storage_def inbox_sizes_def sample_db_def empty_db_def sample_limits_def)

theorem CommitDelivery_atomic_witness:
  "db_wf (snd (CommitDelivery sample_canon None 20 sample_newid sample_delivery (\<lambda>_. NoFault) sample_db))"
  using CommitDelivery_atomic [OF sample_db_wf] by (metis prod.collapse)

theorem CommitDelivery_within_limits_witness:
  "within_limits sample_limits
     (snd (CommitDelivery sample_canon (Some sample_limits) 20 sample_newid sample_delivery (\<lambda>_. NoFault) sample_db))"
proof -
  have "\<forall>r \<in> set (dl_recipients sample_delivery). sample_canon r = Some r"
    by (simp add: sample_delivery_def sample_canon_def)
  from CommitDelivery_within_limits [OF sample_db_wf sample_within this] show ?thesis by (metis prod.collapse)
qed

theorem resolved_delivery_succeeds_witness:
  "CommitDelivery sample_canon (Some sample_limits) 20 sample_newid sample_delivery (\<lambda>_. NoFault) sample_db =
     (Inr [\<lparr>sm_id = [], sm_inbox = ''i1''\<rparr>], delivered sample_canon 20 sample_newid sample_delivery sample_db)"
proof -
  have "\<forall>r \<in> set (dl_recipients sample_delivery). sample_canon r = Some r \<and>
      (\<exists>addr. ResolveInboxForDelivery (Some sample_limits) 20 addr 50 NoFault sample_db = Inr r)"
    using sample_resolves by (auto simp: sample_delivery_def sample_canon_def)
  moreover have "inj sample_newid"
    by (rule injI) (metis length_replicate sample_newid_def)
  ultimately show ?thesis
    using resolved_delivery_succeeds [OF sample_db_wf sample_delivery_valid, of sample_limits 20 50 sample_newid]
    by (simp add: sample_delivery_def stored_of_def sample_newid_def [of 0] sample_db_def empty_db_def find_content_def)
qed

end
