(* ===== verification/Message_Receiver.thy ===== *)
theory Message_Receiver
  imports Lmtp_Session Content_Store Delivery_Repository
begin

text \<open>
  \<^verbatim>\<open>internal/message/receiver.go\<close>: a delivery stores the raw bytes first and then commits the
  metadata, holding the store's lease in between. With the content store and the delivery repository this is
  the backend of the LMTP server; the locale \<open>lmtp_world\<close> is interpreted on it here, so what is proved
  of sessions over an abstract backend holds for the server as it is composed in \<^verbatim>\<open>internal/app\<close>.
\<close>

section \<open>Receiving\<close>

record receipt =
  rt_content :: content_ref
  rt_messages :: "stored_message list"

text \<open>What the outside decides in one call: the store's environment, the database's faults, identifiers and clocks.\<close>

record receive_env =
  re_store :: store_env
  re_flt :: "nat \<Rightarrow> fault"
  re_newid :: "nat \<Rightarrow> string"
  re_now :: time
  re_dbnow :: time

definition NewReceiver :: "bool \<Rightarrow> bool \<Rightarrow> unit result" where
  "NewReceiver hasContentStore hasRepository =
     (if \<not> hasContentStore then Inl (OtherError ''message content store is required'')
      else if \<not> hasRepository then Inl (OtherError ''message delivery repository is required'')
      else Inr ())"

definition receiver_CheckCapacity :: "ctx \<Rightarrow> store_env \<Rightarrow> store \<Rightarrow> unit result" where
  "receiver_CheckCapacity ctx env s = store_CheckCapacity ctx env s"

definition Receive :: "(bytes \<Rightarrow> bytes) \<Rightarrow> (string \<Rightarrow> string option) \<Rightarrow> delivery_limits option \<Rightarrow> ctx \<Rightarrow> string \<Rightarrow> string list \<Rightarrow>
    byte_source option \<Rightarrow> receive_env \<Rightarrow> store \<times> db \<Rightarrow> receipt result \<times> store \<times> db" where
  "Receive sha256 canon lim ctx sender recipients raw env w =
     (case w of (s, d) \<Rightarrow>
       if raw = None then (Inl ErrInvalidDelivery, s, d)
       else case validateEnvelope canon sender recipients of
          Inl e \<Rightarrow> (Inl e, s, d)
        | Inr _ \<Rightarrow>
            (case PutLeased sha256 ctx raw (re_store env) s of
               (Inl e, s1) \<Rightarrow> (Inl e, s1, d)
             | (Inr content, s1) \<Rightarrow>
                 let delivery = \<lparr>dl_content = content, dl_sender = sender, dl_recipients = recipients, dl_received = re_now env\<rparr>
                 in case delivery_validate canon delivery of
                      Inl e \<Rightarrow> (Inl e, release_lease s1, d)
                    | Inr _ \<Rightarrow>
                        (case CommitDelivery canon lim (re_dbnow env) (re_newid env) delivery (re_flt env) d of
                           (Inl e, d1) \<Rightarrow> (Inl e, release_lease s1, d1)
                         | (Inr stored, d1) \<Rightarrow>
                             (Inr \<lparr>rt_content = content, rt_messages = stored\<rparr>, release_lease s1, d1))))"

section \<open>The invariant of store and database\<close>

text \<open>Every content row has its object, durably, with the digest and size of the row.\<close>

definition contents_stored :: "(bytes \<Rightarrow> bytes) \<Rightarrow> store \<Rightarrow> db \<Rightarrow> bool" where
  "contents_stored sha256 s d \<longleftrightarrow> (\<forall>c \<in> set (mail_contents d). durable_ref sha256 s (mc_key c) (mc_size c))"

definition mail_ok :: "(bytes \<Rightarrow> bytes) \<Rightarrow> store \<Rightarrow> db \<Rightarrow> bool" where
  "mail_ok sha256 s d \<longleftrightarrow> store_ok sha256 s \<and> db_wf d \<and> contents_stored sha256 s d"

lemma durable_ref_leases [simp]: "durable_ref sha256 (s\<lparr>st_leases := n\<rparr>) k m = durable_ref sha256 s k m"
  "store_ok sha256 (s\<lparr>st_leases := n\<rparr>) = store_ok sha256 s" "fresh_temp env (s\<lparr>st_leases := n\<rparr>) = fresh_temp env s"
  by (simp_all add: durable_ref_def store_ok_def fresh_temp_def)

lemma release_lease_refs [simp]: "durable_ref sha256 (release_lease s) k m = durable_ref sha256 s k m"
  "store_ok sha256 (release_lease s) = store_ok sha256 s" "contents_stored sha256 (release_lease s) d = contents_stored sha256 s d"
  "st_leases (release_lease s) = st_leases s - 1"
  by (simp_all add: release_lease_def contents_stored_def)

lemma PutLeased_keeps:
  assumes "PutLeased sha256 ctx source env s = (r, s')"
  shows "durable_ref sha256 s key n \<Longrightarrow> durable_ref sha256 s' key n" "store_ok sha256 s \<Longrightarrow> store_ok sha256 s'"
    "st_leases s' = (if is_ok r then Suc (st_leases s) else st_leases s)"
    "contents_stored sha256 s d \<Longrightarrow> contents_stored sha256 s' d"
    "r = Inr ref \<Longrightarrow> durable_ref sha256 s' (cr_key ref) (cr_size ref)"
    "st_staging s' = st_staging s \<or> (\<exists>x e. st_staging s' = st_staging s @ [x] \<and> r = Inl e)"
proof -
  let ?s = "s\<lparr>st_leases := Suc (st_leases s)\<rparr>"
  obtain q u where p: "put sha256 ctx source env ?s = (q, u)" by fastforce
  have eq: "r = q \<and> s' = (if is_ok q then u else release_lease u)"
    using assms p by (cases q) (auto simp: PutLeased_def)
  note k = put_keeps [OF p]
  show d: "durable_ref sha256 s key n \<Longrightarrow> durable_ref sha256 s' key n" for key n using k(4) eq by auto
  show "store_ok sha256 s \<Longrightarrow> store_ok sha256 s'" "st_leases s' = (if is_ok r then Suc (st_leases s) else st_leases s)"
    using k(5,7) eq by auto
  show "contents_stored sha256 s d \<Longrightarrow> contents_stored sha256 s' d" using d by (simp add: contents_stored_def)
  show "r = Inr ref \<Longrightarrow> durable_ref sha256 s' (cr_key ref) (cr_size ref)"
    using put_Inr [of sha256 ctx source env ?s ref u] p eq by auto
  show "st_staging s' = st_staging s \<or> (\<exists>x e. st_staging s' = st_staging s @ [x] \<and> r = Inl e)"
    using k(6) eq by (auto simp: release_lease_def)
qed

text \<open>Committing a delivery whose content is durable keeps every row backed by its object.\<close>

lemma CommitDelivery_stored:
  assumes "db_wf d" "contents_stored sha256 s d" "durable_ref sha256 s (cr_key (dl_content dl)) (cr_size (dl_content dl))"
    and "CommitDelivery canon lim now newid dl flt d = (r, d')"
  shows "db_wf d'" "contents_stored sha256 s d'"
proof -
  from CommitDelivery_effect [OF assms(1,4)]
  show "db_wf d'" "contents_stored sha256 s d'"
    using assms(2,3) by (auto simp: contents_stored_def delivered_def new_content_row_def)
qed

lemma Receive_keeps:
  assumes "mail_ok sha256 s d"
    and "Receive sha256 canon lim ctx sender ids raw env (s, d) = (r, s', d')"
  shows "mail_ok sha256 s' d'" "st_leases s' = st_leases s"
    "st_staging s' = st_staging s \<or> (\<exists>x e. st_staging s' = st_staging s @ [x] \<and> r = Inl e)"
proof -
  obtain q s1 where p: "PutLeased sha256 ctx raw (re_store env) s = (q, s1)" by fastforce
  note k = PutLeased_keeps [OF p]
  have "mail_ok sha256 s' d' \<and> st_leases s' = st_leases s \<and>
     (st_staging s' = st_staging s \<or> (\<exists>x e. st_staging s' = st_staging s @ [x] \<and> r = Inl e))"
  proof (cases "raw = None \<or> (\<exists>e. validateEnvelope canon sender ids = Inl e)")
    case True
    then show ?thesis using assms(1,2) by (auto simp: Receive_def split: if_splits)
  next
    case False
    then have v: "validateEnvelope canon sender ids = Inr ()" "raw \<noteq> None"
      by (cases "validateEnvelope canon sender ids"; auto)+
    show ?thesis
    proof (cases q)
      case (Inl e)
      then show ?thesis using assms(1,2) v p k by (auto simp: Receive_def mail_ok_def)
    next
      case (Inr ref)
      let ?dl = "\<lparr>dl_content = ref, dl_sender = sender, dl_recipients = ids, dl_received = re_now env\<rparr>"
      have st: "store_ok sha256 s1" "contents_stored sha256 s1 d" "durable_ref sha256 s1 (cr_key ref) (cr_size ref)"
        "st_leases s1 = Suc (st_leases s)" "st_staging s1 = st_staging s"
        using k Inr assms(1) by (auto simp: mail_ok_def)
      obtain c d1 where cm: "CommitDelivery canon lim (re_dbnow env) (re_newid env) ?dl (re_flt env) d = (c, d1)" by fastforce
      have "db_wf d1" "contents_stored sha256 s1 d1"
        using CommitDelivery_stored [OF _ st(2) _ cm] assms(1) st(3) by (auto simp: mail_ok_def)
      then show ?thesis using assms(1,2) v p Inr st cm
        by (auto simp: Receive_def Let_def mail_ok_def release_lease_def contents_stored_def split: sum.splits)
    qed
  qed
  then show "mail_ok sha256 s' d'" "st_leases s' = st_leases s"
    "st_staging s' = st_staging s \<or> (\<exists>x e. st_staging s' = st_staging s @ [x] \<and> r = Inl e)" by auto
qed

lemma Receive_Inr:
  assumes "mail_ok sha256 s d"
    and "Receive sha256 canon lim ctx sender ids (Some (raw, e)) env (s, d) = (Inr rc, s', d')"
    and "0 < st_maxBytes s" "st_maxBytes s < max_int64"
  shows "e = EOF \<and> rt_content rc = \<lparr>cr_key = object_key sha256 raw, cr_size = int (length raw)\<rparr> \<and>
    durable_ref sha256 s' (object_key sha256 raw) (int (length raw)) \<and>
    d' = delivered canon (re_dbnow env) (re_newid env)
      \<lparr>dl_content = rt_content rc, dl_sender = sender, dl_recipients = ids, dl_received = re_now env\<rparr> d \<and>
    rt_messages rc = stored_of (re_newid env) (enumerate 0 ids)"
proof -
  from assms(2) obtain ref s1 msgs where p: "PutLeased sha256 ctx (Some (raw, e)) (re_store env) s = (Inr ref, s1)"
    and cm: "CommitDelivery canon lim (re_dbnow env) (re_newid env)
      \<lparr>dl_content = ref, dl_sender = sender, dl_recipients = ids, dl_received = re_now env\<rparr> (re_flt env) d = (Inr msgs, d')"
    and rc: "rc = \<lparr>rt_content = ref, rt_messages = msgs\<rparr>" "s' = release_lease s1"
    by (auto simp: Receive_def Let_def split: sum.splits prod.splits)
  let ?s = "s\<lparr>st_leases := Suc (st_leases s)\<rparr>"
  have q: "put sha256 ctx (Some (raw, e)) (re_store env) ?s = (Inr ref, s1)"
    using p by (auto simp: PutLeased_def split: sum.splits prod.splits)
  from put_Inr [OF q] obtain content where c: "put_copy (re_store env) (st_maxBytes s) (raw, e) = Inr content"
    "int (length content) \<le> st_maxBytes s" "ref = \<lparr>cr_key = object_key sha256 content, cr_size = int (length content)\<rparr>" by auto
  have "content = raw" "e = EOF" using put_copy_whole [OF c(1,2) assms(3,4)] by auto
  moreover have "durable_ref sha256 s1 (cr_key ref) (cr_size ref)" using PutLeased_keeps(5) [OF p] by simp
  ultimately show ?thesis using CommitDelivery_effect [OF _ cm] assms(1) rc c(3)
    by (auto simp: mail_ok_def is_ok.simps delivered_def)
qed

section \<open>The backend of the LMTP server\<close>

record world_env =
  we_ctx :: ctx
  we_flt :: fault
  we_now :: time
  we_capacity :: store_env
  we_reads :: "nat list"
  we_receive :: receive_env

record world =
  wd_store :: store
  wd_db :: db
  wd_tick :: nat
  wd_env :: "nat \<Rightarrow> world_env"

definition world_now :: "world \<Rightarrow> world_env" where
  "world_now w = wd_env w (wd_tick w)"

definition tick :: "world \<Rightarrow> world" where
  "tick w = w\<lparr>wd_tick := Suc (wd_tick w)\<rparr>"

text \<open>
  The end the receiver sees of the DATA reader. When it stopped reading before the end, the delivery context had
  expired.
\<close>

fun source_end :: "go_error option \<Rightarrow> go_error" where
  "source_end (Some e) = e"
| "source_end None = DeadlineExceeded"

definition lmtp_receive :: "(bytes \<Rightarrow> bytes) \<Rightarrow> (string \<Rightarrow> string option) \<Rightarrow> delivery_limits option \<Rightarrow>
    world \<Rightarrow> string \<Rightarrow> string list \<Rightarrow> bytes \<times> go_error option \<Rightarrow> unit result \<times> world" where
  "lmtp_receive sha256 canon lim w sender ids data =
     (case Receive sha256 canon lim (we_ctx (world_now w)) sender ids (Some (fst data, source_end (snd data)))
            (we_receive (world_now w)) (wd_store w, wd_db w) of
        (r, s', d') \<Rightarrow> (case r of Inl e \<Rightarrow> Inl e | Inr _ \<Rightarrow> Inr (), (tick w)\<lparr>wd_store := s', wd_db := d'\<rparr>))"

definition lmtp_backend :: "(bytes \<Rightarrow> bytes) \<Rightarrow> (string \<Rightarrow> string option) \<Rightarrow> delivery_limits option \<Rightarrow> world backend" where
  "lmtp_backend sha256 canon lim =
     \<lparr>be_resolve = (\<lambda>w addr n. (ResolveInboxForDelivery lim (we_now (world_now w)) addr n (we_flt (world_now w)) (wd_db w), tick w)),
      be_capacity = (\<lambda>w. (receiver_CheckCapacity (we_ctx (world_now w)) (we_capacity (world_now w)) (wd_store w), tick w)),
      be_reads = (\<lambda>w _ _. we_reads (world_now w)),
      be_receive = lmtp_receive sha256 canon lim\<rparr>"

definition world_ok :: "(bytes \<Rightarrow> bytes) \<Rightarrow> world \<Rightarrow> bool" where
  "world_ok sha256 w \<longleftrightarrow> mail_ok sha256 (wd_store w) (wd_db w)"

lemma lmtp_receive_keeps:
  "world_ok sha256 w \<Longrightarrow> lmtp_receive sha256 canon lim w sender ids data = (u, w') \<Longrightarrow> world_ok sha256 w'"
  using Receive_keeps(1) by (fastforce simp: lmtp_receive_def world_ok_def tick_def split: prod.splits)

interpretation mail: lmtp_world o' "lmtp_backend sha256 canon lim" "world_ok sha256" for o' sha256 canon lim
proof unfold_locales
  fix w addr n r w'
  assume "world_ok sha256 w" "be_resolve (lmtp_backend sha256 canon lim) w addr n = (r, w')"
  then show "world_ok sha256 w'" by (auto simp: lmtp_backend_def world_ok_def tick_def)
next
  fix w u w'
  assume "world_ok sha256 w" "be_capacity (lmtp_backend sha256 canon lim) w = (u, w')"
  then show "world_ok sha256 w'" by (auto simp: lmtp_backend_def world_ok_def tick_def)
next
  fix w sender ids d u w'
  assume "world_ok sha256 w" "be_receive (lmtp_backend sha256 canon lim) w sender ids d = (u, w')"
  then show "world_ok sha256 w'" using lmtp_receive_keeps by (simp add: lmtp_backend_def)
qed

section \<open>The server end to end\<close>

text \<open>
  C6. Whatever a client sends to the LMTP server, and whatever fails below it (the disk, the database at any
  statement, lost commit acknowledgements, cancelled contexts), after the session every content row of the
  database still has its object durably in the store with the recorded digest and size, the store's names are the digests
  of their bytes and the database satisfies its constraints.
\<close>

theorem lmtp_session_keeps_mail:
  assumes "options_ok o'" and "world_ok sha256 w"
    and "session_run o' (lmtp_backend sha256 canon lim) (new_session inp net wfail ctx metrics w) = (x, s')"
  shows "world_ok sha256 (ss_world s')"
  using assms by (rule mail.session_run_keeps)

text \<open>
  C1. A 250 reply to DATA is a promise kept: when the server answers the recipients of a DATA section with 250, the
  decoded section had come to its end, and the database has gained exactly one message per recipient, all for the
  same content row, whose object durably holds bytes with the digest and the length of the decoded section.
\<close>

theorem acknowledged_mail_is_stored:
  assumes "world_ok sha256 (ss_world s)" "0 < st_maxBytes (wd_store (ss_world s))" "st_maxBytes (wd_store (ss_world s)) < max_int64"
    and "receiveData o' (lmtp_backend sha256 canon lim) s = (None, s')"
  shows "\<exists>raw readErr d1 code enhanced msg.
    data_reads (reads_of (lmtp_backend sha256 canon lim) s) (data_reader_of o' s) = (raw, readErr, d1) \<and>
    ss_out s' = ss_out s @ map (\<lambda>r. format_int code @ '' '' @ enhanced @ '' '' @ (rc_address r @ '' '' @ msg) @ crlf) (ss_recipients s) \<and>
    (code = 250 \<longrightarrow> readErr = Some EOF \<and>
       (\<exists>now newid received. wd_db (ss_world s') = delivered canon now newid
          \<lparr>dl_content = \<lparr>cr_key = object_key sha256 raw, cr_size = int (length raw)\<rparr>, dl_sender = ss_sender s,
           dl_recipients = map rc_inbox (ss_recipients s), dl_received = received\<rparr> (wd_db (ss_world s))) \<and>
       durable_ref sha256 (wd_store (ss_world s')) (object_key sha256 raw) (int (length raw)))"
proof -
  let ?be = "lmtp_backend sha256 canon lim"
  let ?w = "ss_world s"
  obtain raw readErr d1 received code enhanced msg where
    reads: "data_reads (reads_of ?be s) (data_reader_of o' s) = (raw, readErr, d1)"
    and rcv: "be_receive ?be ?w (ss_sender s) (map rc_inbox (ss_recipients s)) (raw, readErr) = (received, ss_world s')"
    and code: "code = 250 \<longleftrightarrow> received = Inr ()"
    and out: "ss_out s' = ss_out s @ map (\<lambda>r. format_int code @ '' '' @ enhanced @ '' '' @ (rc_address r @ '' '' @ msg) @ crlf) (ss_recipients s)"
    using receiveData_replies [OF assms(4)] by blast
  let ?env = "we_receive (world_now ?w)"
  have "readErr = Some EOF \<and> (\<exists>now newid received. wd_db (ss_world s') = delivered canon now newid
          \<lparr>dl_content = \<lparr>cr_key = object_key sha256 raw, cr_size = int (length raw)\<rparr>, dl_sender = ss_sender s,
           dl_recipients = map rc_inbox (ss_recipients s), dl_received = received\<rparr> (wd_db (ss_world s))) \<and>
       durable_ref sha256 (wd_store (ss_world s')) (object_key sha256 raw) (int (length raw))" if "code = 250"
  proof -
    from that code rcv obtain rc s1 db1 where r: "Receive sha256 canon lim (we_ctx (world_now ?w)) (ss_sender s)
        (map rc_inbox (ss_recipients s)) (Some (raw, source_end readErr)) ?env (wd_store ?w, wd_db ?w) = (Inr rc, s1, db1)"
      and w: "ss_world s' = (tick ?w)\<lparr>wd_store := s1, wd_db := db1\<rparr>"
      by (auto simp: lmtp_backend_def lmtp_receive_def split: prod.splits sum.splits)
    have w': "wd_store (ss_world s') = s1" "wd_db (ss_world s') = db1" by (simp_all add: w)
    from Receive_Inr [OF assms(1) [unfolded world_ok_def] r assms(2,3)] w' show ?thesis
      by (cases readErr) auto
  qed
  with reads out show ?thesis by blast
qed

section \<open>Concrete instances\<close>

definition sample_receive_env :: receive_env where
  "sample_receive_env = \<lparr>re_store = sample_senv ''2'', re_flt = (\<lambda>_. NoFault), re_newid = sample_newid, re_now = 10, re_dbnow = 20\<rparr>"

definition sample_world :: world where
  "sample_world = \<lparr>wd_store = sample_store, wd_db = sample_db, wd_tick = 0,
     wd_env = (\<lambda>_. \<lparr>we_ctx = Ctx None, we_flt = NoFault, we_now = 20, we_capacity = sample_senv ''2'', we_reads = [64, 64],
       we_receive = sample_receive_env\<rparr>)\<rparr>"

lemma sample_world_ok: "world_ok sample_sha sample_world"
  using sample_db_wf by (simp add: world_ok_def mail_ok_def sample_world_def contents_stored_def sample_db_def empty_db_def
      store_ok_def sample_store_def)

theorem lmtp_session_keeps_mail_witness:
  "world_ok sample_sha (ss_world (snd (session_run (DefaultOptions ''mx'') (lmtp_backend sample_sha sample_canon None)
     (new_session (''LHLO x'' @ crlf) NetEOF (\<lambda>_. None) (Ctx None) True sample_world))))"
  using lmtp_session_keeps_mail [OF default_options_ok sample_world_ok] by (metis prod.collapse)

definition sample_mail_session :: "world session" where
  "sample_mail_session = (new_session (''a'' @ crlf @ ''.'' @ crlf @ ''NOOP'') NetEOF (\<lambda>_. None) (Ctx None) True sample_world)
     \<lparr>ss_greeted := True, ss_mailSet := True, ss_recipients := [\<lparr>rc_address = ''a@b'', rc_inbox = ''i1''\<rparr>],
      ss_recipientSet := Some {''i1''}\<rparr>"

lemma sample_mail_session_in: "skip_dot (ss_in sample_mail_session) = Some ''NOOP''" "\<forall>n. ss_fail sample_mail_session n = None"
  using sample_wire_skip by (simp_all add: sample_mail_session_def new_session_def)

theorem acknowledged_mail_is_stored_witness:
  "\<exists>s' code enhanced msg. receiveData (DefaultOptions ''mx'') (lmtp_backend sample_sha sample_canon None) sample_mail_session = (None, s') \<and>
     ss_out s' = [format_int code @ '' '' @ enhanced @ '' '' @ (''a@b'' @ '' '' @ msg) @ crlf]"
proof -
  let ?be = "lmtp_backend sample_sha sample_canon None"
  obtain s' where r: "receiveData (DefaultOptions ''mx'') ?be sample_mail_session = (None, s')"
    using receiveData_answers [OF default_options_ok sample_mail_session_in] by blast
  have w: "world_ok sample_sha (ss_world sample_mail_session)" "0 < st_maxBytes (wd_store (ss_world sample_mail_session))"
    "st_maxBytes (wd_store (ss_world sample_mail_session)) < max_int64"
    using sample_world_ok by (simp_all add: sample_mail_session_def new_session_def sample_world_def sample_store_def max_int64_def)
  from acknowledged_mail_is_stored [OF w r] r show ?thesis by (auto simp: sample_mail_session_def new_session_def)
qed

end
