(* ===== verification/Mailbox_Repository.thy ===== *)
theory Mailbox_Repository
  imports Delivery_Repository "HOL-Library.Product_Lexorder"
begin

text \<open>
  \<^verbatim>\<open>internal/postgres/mailbox_repository.go\<close> with the types of \<^verbatim>\<open>internal/mailbox/model.go\<close>: the
  Inbox lifecycle, ownership-scoped message access, and the durable queue of content deletions.
  \<open>canon\<close> is the cast of a string to a UUID, \<open>now\<close> the transaction time and \<open>clock\<close> the
  \<^verbatim>\<open>clock_timestamp()\<close> of a statement. Message identifiers are compared as canonical UUID texts,
  whose order is the order of the UUIDs.
\<close>

section \<open>Types (mailbox/model.go)\<close>

record inbox =
  in_id :: string
  in_address :: string
  in_status :: string
  in_expires :: time
  in_created :: time

record new_inbox =
  ni_address :: string
  ni_expires :: time
  ni_created :: time

record message_summary =
  su_id :: string
  su_sender :: string
  su_subject :: string
  su_preview :: string
  su_received :: time
  su_status :: string
  su_size :: int
  su_has_attachments :: bool
  su_seen :: bool

record message_detail = message_summary +
  de_message_id :: string
  de_from :: "address list"
  de_to :: "address list"
  de_cc :: "address list"
  de_sent_at :: "time option"
  de_text :: string
  de_html :: string
  de_attachments :: "attachment list"
  de_warnings :: "warning list"

record message_cursor =
  cu_received :: time
  cu_id :: string

record page =
  pg_limit :: int
  pg_offset :: int
  pg_before :: "message_cursor option"

record message_page =
  mp_items :: "message_summary list"
  mp_total :: nat
  mp_unread :: nat

section \<open>Statement helpers\<close>

text \<open>The cast \<^verbatim>\<open>$n::uuid\<close> of a string parameter.\<close>

definition with_uuid :: "(string \<Rightarrow> string option) \<Rightarrow> string \<Rightarrow> (string \<Rightarrow> ('s, 'a) stmt_on) \<Rightarrow> ('s, 'a) stmt_on" where
  "with_uuid canon s k d =
     (case canon s of
        None \<Rightarrow> Inl (DriverError (OtherError ''invalid input syntax for type uuid''))
      | Some u \<Rightarrow> k u d)"

definition live_inbox :: "time \<Rightarrow> string \<Rightarrow> db \<Rightarrow> inbox_row option" where
  "live_inbox now i d = find (\<lambda>r. ib_id r = i \<and> inbox_live now r) (inboxes d)"

definition inbox_of :: "inbox_row \<Rightarrow> inbox" where
  "inbox_of r = \<lparr>in_id = ib_id r, in_address = ib_address r, in_status = ib_status r,
     in_expires = ib_expires r, in_created = ib_created r\<rparr>"

section \<open>CreateInbox and GetInbox\<close>

definition address_canonical :: "string \<Rightarrow> bool" where
  "address_canonical a \<longleftrightarrow> to_lower a = a \<and> hd (a @ ''x'') \<noteq> CHR '' '' \<and> last (''x'' @ a) \<noteq> CHR '' '' \<and>
     3 \<le> length a \<and> length a \<le> 320"

definition sql_insert_inbox :: "string \<Rightarrow> new_inbox \<Rightarrow> inbox stmt" where
  "sql_insert_inbox newid c d =
     (if \<not> address_canonical (ni_address c) then Inl (CheckViolation ''inboxes_address_canonical'')
      else if newid \<in> ib_id ` set (inboxes d) then Inl (UniqueViolation ''inboxes_pkey'')
      else if ni_address c \<in> ib_address ` set (inboxes d) then Inl (UniqueViolation ''inboxes_address_key'')
      else let row = \<lparr>ib_id = newid, ib_address = ni_address c, ib_status = ''active'',
                      ib_expires = ni_expires c, ib_created = ni_created c, ib_updated = ni_created c\<rparr>
           in Inr (inbox_of row, d\<lparr>inboxes := inboxes d @ [row]\<rparr>))"

fun create_inbox_error :: "sql_error \<Rightarrow> go_error" where
  "create_inbox_error (UniqueViolation c) =
     (if c = ''inboxes_address_key'' then ErrAddressConflict else sql_wrap (UniqueViolation c))"
| "create_inbox_error e = sql_wrap e"

definition CreateInbox :: "string \<Rightarrow> new_inbox \<Rightarrow> fault \<Rightarrow> db \<Rightarrow> inbox result \<times> db" where
  "CreateInbox newid candidate flt d = run_stmt create_inbox_error (sql_insert_inbox newid candidate) flt d"

definition GetInbox :: "(string \<Rightarrow> string option) \<Rightarrow> time \<Rightarrow> string \<Rightarrow> fault \<Rightarrow> db \<Rightarrow> inbox result" where
  "GetInbox canon now inboxID flt d =
     (case run_stmt sql_wrap (with_uuid canon inboxID (\<lambda>i. query (live_inbox now i))) flt d of
        (Inl e, _) \<Rightarrow> Inl e
      | (Inr None, _) \<Rightarrow> Inl MailboxErrInboxNotFound
      | (Inr (Some r), _) \<Rightarrow> Inr (inbox_of r))"

section \<open>Deletion\<close>

text \<open>
  \<^verbatim>\<open>DELETE FROM inboxes\<close> with its cascades to messages and capabilities; capabilities of other
  Inboxes that were rotated from a deleted one have the reference set to null.
\<close>

definition drop_rotation :: "string set \<Rightarrow> capability_row \<Rightarrow> capability_row" where
  "drop_rotation gone c =
     (case cp_rotated_from c of
        None \<Rightarrow> c
      | Some x \<Rightarrow> if x \<in> gone then c\<lparr>cp_rotated_from := None\<rparr> else c)"

definition sql_delete_inboxes :: "string set \<Rightarrow> nat stmt" where
  "sql_delete_inboxes ids d =
     (let gone = cp_id ` set (filter (\<lambda>c. cp_inbox c \<in> ids) (capabilities d)) in
      Inr (length (filter (\<lambda>r. ib_id r \<in> ids) (inboxes d)),
        d\<lparr>inboxes := filter (\<lambda>r. ib_id r \<notin> ids) (inboxes d),
          messages := filter (\<lambda>m. ms_inbox m \<notin> ids) (messages d),
          capabilities := map (drop_rotation gone) (filter (\<lambda>c. cp_inbox c \<notin> ids) (capabilities d))\<rparr>))"

text \<open>Distinct contents referenced by the messages of some Inboxes, ordered by key.\<close>

definition owned_contents :: "string set \<Rightarrow> db \<Rightarrow> content_ref list" where
  "owned_contents ids d =
     map (\<lambda>c. \<lparr>cr_key = mc_key c, cr_size = mc_size c\<rparr>)
       (sort_key mc_key (filter (\<lambda>c. list_ex (\<lambda>m. ms_inbox m \<in> ids \<and> ms_content m = mc_key c) (messages d))
         (mail_contents d)))"

definition sql_delete_unreferenced :: "string \<Rightarrow> nat stmt" where
  "sql_delete_unreferenced k d =
     (if k \<in> mc_key ` set (mail_contents d) \<and> \<not> list_ex (\<lambda>m. ms_content m = k) (messages d)
      then Inr (1, d\<lparr>mail_contents := filter (\<lambda>c. mc_key c \<noteq> k) (mail_contents d),
                     content_parses := filter (\<lambda>p. pr_key p \<noteq> k) (content_parses d)\<rparr>)
      else Inr (0, d))"

definition requeue :: "time \<Rightarrow> content_ref \<Rightarrow> deletion_row \<Rightarrow> deletion_row" where
  "requeue clock ref q =
     (if dq_key q = cr_key ref
      then q\<lparr>dq_size := cr_size ref, dq_generation := dq_generation q + 1, dq_enqueued := clock\<rparr> else q)"

definition sql_enqueue_deletion :: "time \<Rightarrow> time \<Rightarrow> content_ref \<Rightarrow> unit stmt" where
  "sql_enqueue_deletion now clock ref d =
     (if \<not> key_valid (cr_key ref) \<or> cr_size ref < 0 then Inl (CheckViolation ''content_deletion_queue'')
      else if list_ex (\<lambda>q. dq_key q = cr_key ref) (deletion_queue d)
      then Inr ((), d\<lparr>deletion_queue := map (requeue clock ref) (deletion_queue d)\<rparr>)
      else Inr ((), d\<lparr>deletion_queue := deletion_queue d @
          [\<lparr>dq_key = cr_key ref, dq_size = cr_size ref, dq_generation = 1, dq_enqueued = now\<rparr>]\<rparr>))"

definition enqueueContentDeletion :: "time \<Rightarrow> time \<Rightarrow> content_ref \<Rightarrow> unit tx" where
  "enqueueContentDeletion now clock ref = stmt sql_wrap (sql_enqueue_deletion now clock ref)"

text \<open>The loop over candidate contents: delete the unreferenced ones and queue their objects.\<close>

fun orphan_loop :: "time \<Rightarrow> time \<Rightarrow> content_ref list \<Rightarrow> content_ref list tx" where
  "orphan_loop now clock [] = tx_return []"
| "orphan_loop now clock (ref # refs) =
     tx_bind (stmt sql_wrap (sql_delete_unreferenced (cr_key ref))) (\<lambda>rows.
       if rows = 1 then
         tx_bind (enqueueContentDeletion now clock ref) (\<lambda>_.
           tx_bind (orphan_loop now clock refs) (\<lambda>orphans. tx_return (ref # orphans)))
       else orphan_loop now clock refs)"

definition DeleteInbox_tx :: "(string \<Rightarrow> string option) \<Rightarrow> time \<Rightarrow> time \<Rightarrow> string \<Rightarrow> content_ref list tx" where
  "DeleteInbox_tx canon now clock inboxID =
     tx_bind (stmt sql_wrap (with_uuid canon inboxID (\<lambda>i. query (live_inbox now i)))) (\<lambda>locked.
       case locked of
         None \<Rightarrow> tx_fail MailboxErrInboxNotFound
       | Some row \<Rightarrow>
           tx_bind (stmt sql_wrap (with_uuid canon inboxID (\<lambda>i. query (owned_contents {i})))) (\<lambda>refs.
           tx_bind (stmt sql_wrap (sql_delete_inboxes {ib_id row})) (\<lambda>rows.
             if rows \<noteq> 1 then tx_fail MailboxErrInboxNotFound
             else orphan_loop now clock refs)))"

definition DeleteInbox :: "(string \<Rightarrow> string option) \<Rightarrow> time \<Rightarrow> time \<Rightarrow> string \<Rightarrow> (nat \<Rightarrow> fault) \<Rightarrow> db \<Rightarrow> content_ref list result \<times> db" where
  "DeleteInbox canon now clock inboxID flt d = run_tx (DeleteInbox_tx canon now clock inboxID) flt d"

text \<open>
  The expiry sweep: \<open>lock_free\<close> is the outcome of the advisory lock, \<open>skip\<close> the rows other
  transactions hold locked.
\<close>

definition expired_batch :: "time \<Rightarrow> string set \<Rightarrow> nat \<Rightarrow> db \<Rightarrow> string list" where
  "expired_batch now skip n d =
     take n (map ib_id (sort_key (\<lambda>r. (ib_expires r, ib_id r))
       (filter (\<lambda>r. ib_expires r \<le> now \<and> ib_id r \<notin> skip) (inboxes d))))"

definition Cleanup_tx :: "time \<Rightarrow> time \<Rightarrow> bool \<Rightarrow> string set \<Rightarrow> nat \<Rightarrow> (nat \<times> content_ref list) tx" where
  "Cleanup_tx now clock lock_free skip batchSize =
     tx_bind (stmt sql_wrap (query (\<lambda>_. lock_free))) (\<lambda>locked.
       if \<not> locked then tx_return (0, [])
       else
         tx_bind (stmt sql_wrap (query (expired_batch now skip batchSize))) (\<lambda>ids.
           if ids = [] then tx_return (0, [])
           else
             tx_bind (stmt sql_wrap (query (owned_contents (set ids)))) (\<lambda>refs.
             tx_bind (stmt sql_wrap (sql_delete_inboxes (set ids))) (\<lambda>rows.
             tx_bind (orphan_loop now clock refs) (\<lambda>orphans. tx_return (rows, orphans))))))"

definition CleanupExpiredInboxes :: "time \<Rightarrow> time \<Rightarrow> bool \<Rightarrow> string set \<Rightarrow> int \<Rightarrow> (nat \<Rightarrow> fault) \<Rightarrow> db \<Rightarrow>
    (nat \<times> content_ref list) result \<times> db" where
  "CleanupExpiredInboxes now clock lock_free skip batchSize flt d =
     (if batchSize \<le> 0 \<or> batchSize > 1000
      then (Inl (OtherError ''cleanup batch size must be between 1 and 1000''), d)
      else run_tx (Cleanup_tx now clock lock_free skip (nat batchSize)) flt d)"

text \<open>The content of one owned message of a live Inbox.\<close>

definition owned_message :: "time \<Rightarrow> string \<Rightarrow> string \<Rightarrow> db \<Rightarrow> (message_row \<times> content_row) option" where
  "owned_message now i mid d =
     (case find (\<lambda>m. ms_id m = mid \<and> ms_inbox m = i) (messages d) of
        None \<Rightarrow> None
      | Some m \<Rightarrow>
          if live_inbox now i d = None then None
          else map_option (Pair m) (find_content d (ms_content m)))"

definition ref_of :: "content_row \<Rightarrow> content_ref" where
  "ref_of c = \<lparr>cr_key = mc_key c, cr_size = mc_size c\<rparr>"

definition sql_delete_message :: "string \<Rightarrow> unit stmt" where
  "sql_delete_message mid d = Inr ((), d\<lparr>messages := filter (\<lambda>m. ms_id m \<noteq> mid) (messages d)\<rparr>)"

definition with_uuids :: "(string \<Rightarrow> string option) \<Rightarrow> string \<Rightarrow> string \<Rightarrow> (string \<Rightarrow> string \<Rightarrow> ('s, 'a) stmt_on) \<Rightarrow> ('s, 'a) stmt_on" where
  "with_uuids canon a b k = with_uuid canon a (\<lambda>u. with_uuid canon b (\<lambda>v. k u v))"

definition DeleteMessage_tx :: "(string \<Rightarrow> string option) \<Rightarrow> time \<Rightarrow> time \<Rightarrow> string \<Rightarrow> string \<Rightarrow> content_ref option tx" where
  "DeleteMessage_tx canon now clock inboxID messageID =
     tx_bind (stmt sql_wrap (with_uuids canon inboxID messageID (\<lambda>i m. query (owned_message now i m)))) (\<lambda>found.
       case found of
         None \<Rightarrow> tx_fail ErrMessageNotFound
       | Some (m, c) \<Rightarrow>
           tx_bind (stmt sql_wrap (with_uuid canon messageID sql_delete_message)) (\<lambda>_.
           tx_bind (stmt sql_wrap (sql_delete_unreferenced (mc_key c))) (\<lambda>rows.
             if rows = 1 then
               tx_bind (enqueueContentDeletion now clock (ref_of c)) (\<lambda>_. tx_return (Some (ref_of c)))
             else tx_return None)))"

definition DeleteMessage :: "(string \<Rightarrow> string option) \<Rightarrow> time \<Rightarrow> time \<Rightarrow> string \<Rightarrow> string \<Rightarrow> (nat \<Rightarrow> fault) \<Rightarrow> db \<Rightarrow>
    content_ref option result \<times> db" where
  "DeleteMessage canon now clock inboxID messageID flt d =
     run_tx (DeleteMessage_tx canon now clock inboxID messageID) flt d"

section \<open>Message access\<close>

text \<open>The preview: runs of white space become one blank, then 240 characters of UTF-8.\<close>

definition preview_space :: "char \<Rightarrow> bool" where
  "preview_space c \<longleftrightarrow> c \<in> {CHR 10, CHR 13, CHR 9, CHR '' ''}"

fun collapse_space :: "string \<Rightarrow> string" where
  "collapse_space [] = []"
| "collapse_space (c # s) =
     (if preview_space c
      then (case s of
              e # _ \<Rightarrow> if preview_space e then collapse_space s else CHR '' '' # collapse_space s
            | [] \<Rightarrow> [CHR '' ''])
      else c # collapse_space s)"

definition continuation_byte :: "char \<Rightarrow> bool" where
  "continuation_byte c \<longleftrightarrow> 128 \<le> (of_char c :: nat) \<and> (of_char c :: nat) < 192"

fun left_chars :: "nat \<Rightarrow> string \<Rightarrow> string" where
  "left_chars n [] = []"
| "left_chars n (c # s) =
     (if continuation_byte c then c # left_chars n s
      else case n of 0 \<Rightarrow> [] | Suc m \<Rightarrow> c # left_chars m s)"

definition message_parse :: "message_row \<Rightarrow> db \<Rightarrow> parsed_message" where
  "message_parse m d =
     (case find (\<lambda>p. pr_key p = ms_content m) (content_parses d) of
        None \<Rightarrow> empty_parsed
      | Some p \<Rightarrow> pr_parsed p)"

definition summary_of :: "db \<Rightarrow> message_row \<Rightarrow> content_row \<Rightarrow> message_summary" where
  "summary_of d m c =
     \<lparr>su_id = ms_id m, su_sender = ms_sender m, su_subject = p_subject (message_parse m d),
      su_preview = left_chars 240 (collapse_space (p_text (message_parse m d))),
      su_received = ms_received m, su_status = mc_parse_status c, su_size = mc_size c,
      su_has_attachments = (p_attachments (message_parse m d) \<noteq> []), su_seen = (ms_seen m \<noteq> None)\<rparr>"

definition detail_of :: "db \<Rightarrow> message_row \<Rightarrow> content_row \<Rightarrow> message_detail" where
  "detail_of d m c =
     (let p = message_parse m d in
      message_summary.extend (summary_of d m c)
        (message_detail.fields (p_message_id p) (p_from p) (p_to p) (p_cc p) (p_date p) (p_text p) (p_html p)
           (p_attachments p) (p_warnings p)))"

definition list_rows :: "time \<Rightarrow> string \<Rightarrow> db \<Rightarrow> message_row list" where
  "list_rows now i d = (if live_inbox now i d = None then [] else filter (\<lambda>m. ms_inbox m = i) (messages d))"

definition newest_first :: "message_row list \<Rightarrow> message_row list" where
  "newest_first ms = rev (sort_key (\<lambda>m. (ms_received m, ms_id m)) ms)"

definition before_cursor :: "message_cursor option \<Rightarrow> message_row \<Rightarrow> bool" where
  "before_cursor b m =
     (case b of None \<Rightarrow> True | Some c \<Rightarrow> (ms_received m, ms_id m) < (cu_received c, cu_id c))"

definition page_valid :: "page \<Rightarrow> bool" where
  "page_valid p \<longleftrightarrow> \<not> (pg_limit p \<le> 0 \<or> pg_offset p < 0 \<or>
     (case pg_before p of
        None \<Rightarrow> False
      | Some c \<Rightarrow> pg_offset p \<noteq> 0 \<or> cu_id c = [] \<or> is_zero_time (cu_received c)))"

definition page_rows :: "time \<Rightarrow> string \<Rightarrow> page \<Rightarrow> db \<Rightarrow> message_summary list" where
  "page_rows now i p d =
     take (nat (pg_limit p)) (drop (nat (pg_offset p))
       (List.map_filter (\<lambda>m. map_option (summary_of d m) (find_content d (ms_content m)))
         (newest_first (filter (before_cursor (pg_before p)) (list_rows now i d)))))"

definition canon_cursor :: "(string \<Rightarrow> string option) \<Rightarrow> page \<Rightarrow> page option" where
  "canon_cursor canon p =
     (case pg_before p of
        None \<Rightarrow> Some p
      | Some c \<Rightarrow> map_option (\<lambda>u. p\<lparr>pg_before := Some (c\<lparr>cu_id := u\<rparr>)\<rparr>) (canon (cu_id c)))"

text \<open>Two statements outside a transaction: each has its own fault and its own snapshot.\<close>

definition ListMessages :: "(string \<Rightarrow> string option) \<Rightarrow> time \<Rightarrow> string \<Rightarrow> page \<Rightarrow> fault \<Rightarrow> db \<Rightarrow> fault \<Rightarrow> db \<Rightarrow> message_page result" where
  "ListMessages canon now inboxID p flt1 d1 flt2 d2 =
     (if \<not> page_valid p then Inl (OtherError ''message page is invalid'')
      else case run_stmt sql_wrap (with_uuid canon inboxID (\<lambda>i. query (\<lambda>d.
             (length (list_rows now i d), length (filter (\<lambda>m. ms_seen m = None) (list_rows now i d)))))) flt1 d1 of
          (Inl e, _) \<Rightarrow> Inl e
        | (Inr (total_count, unread), _) \<Rightarrow>
            (case run_stmt sql_wrap (with_uuid canon inboxID (\<lambda>i d. case canon_cursor canon p of
                 None \<Rightarrow> Inl (DriverError (OtherError ''invalid input syntax for type uuid''))
               | Some q \<Rightarrow> query (page_rows now i q) d)) flt2 d2 of
               (Inl e, _) \<Rightarrow> Inl e
             | (Inr items, _) \<Rightarrow> Inr \<lparr>mp_items = items, mp_total = total_count, mp_unread = unread\<rparr>))"

definition GetMessage :: "(string \<Rightarrow> string option) \<Rightarrow> time \<Rightarrow> string \<Rightarrow> string \<Rightarrow> fault \<Rightarrow> db \<Rightarrow> message_detail result" where
  "GetMessage canon now inboxID messageID flt d =
     (case run_stmt sql_wrap (with_uuids canon inboxID messageID
         (\<lambda>i m. query (\<lambda>d. map_option (\<lambda>(row, c). detail_of d row c) (owned_message now i m d)))) flt d of
        (Inl e, _) \<Rightarrow> Inl e
      | (Inr None, _) \<Rightarrow> Inl ErrMessageNotFound
      | (Inr (Some x), _) \<Rightarrow> Inr x)"

definition sql_mark_seen :: "time \<Rightarrow> string \<Rightarrow> string \<Rightarrow> time \<Rightarrow> nat stmt" where
  "sql_mark_seen now i mid seenAt d =
     (let hit = (\<lambda>m. ms_id m = mid \<and> ms_inbox m = i \<and> live_inbox now i d \<noteq> None) in
      Inr (length (filter hit (messages d)),
        d\<lparr>messages := map (\<lambda>m. if hit m
            then m\<lparr>ms_seen := (case ms_seen m of None \<Rightarrow> Some seenAt | Some t \<Rightarrow> Some t)\<rparr> else m) (messages d)\<rparr>))"

definition MarkMessageSeen :: "(string \<Rightarrow> string option) \<Rightarrow> time \<Rightarrow> string \<Rightarrow> string \<Rightarrow> time \<Rightarrow> fault \<Rightarrow> db \<Rightarrow> unit result \<times> db" where
  "MarkMessageSeen canon now inboxID messageID seenAt flt d =
     (case run_stmt sql_wrap (with_uuids canon inboxID messageID (\<lambda>i m. sql_mark_seen now i m seenAt)) flt d of
        (Inl e, d') \<Rightarrow> (Inl e, d')
      | (Inr rows, d') \<Rightarrow> (if rows \<noteq> 1 then (Inl ErrMessageNotFound, d') else (Inr (), d')))"

definition GetMessageContent :: "(string \<Rightarrow> string option) \<Rightarrow> time \<Rightarrow> string \<Rightarrow> string \<Rightarrow> fault \<Rightarrow> db \<Rightarrow> content_ref result" where
  "GetMessageContent canon now inboxID messageID flt d =
     (case run_stmt sql_wrap (with_uuids canon inboxID messageID (\<lambda>i m. query (owned_message now i m))) flt d of
        (Inl e, _) \<Rightarrow> Inl e
      | (Inr None, _) \<Rightarrow> Inl ErrMessageNotFound
      | (Inr (Some (m, c)), _) \<Rightarrow> Inr (ref_of c))"

section \<open>The deletion queue\<close>

definition deletion_of :: "deletion_row \<Rightarrow> content_deletion" where
  "deletion_of q = \<lparr>cd_content = \<lparr>cr_key = dq_key q, cr_size = dq_size q\<rparr>, cd_generation = dq_generation q\<rparr>"

definition ListContentDeletions :: "int \<Rightarrow> fault \<Rightarrow> db \<Rightarrow> content_deletion list result" where
  "ListContentDeletions limit flt d =
     (if limit \<le> 0 \<or> limit > 1000 then Inl (OtherError ''content deletion limit must be between 1 and 1000'')
      else fst (run_stmt sql_wrap (query (\<lambda>d. map deletion_of (take (nat limit)
        (sort_key (\<lambda>q. (dq_enqueued q, dq_key q)) (deletion_queue d))))) flt d))"

definition ContentReferenced :: "string \<Rightarrow> fault \<Rightarrow> db \<Rightarrow> bool result" where
  "ContentReferenced k flt d = fst (run_stmt sql_wrap (query (\<lambda>d. find_content d k \<noteq> None)) flt d)"

definition sql_acknowledge :: "string \<Rightarrow> int \<Rightarrow> nat stmt" where
  "sql_acknowledge k g d =
     Inr (length (filter (\<lambda>q. dq_key q = k \<and> dq_generation q = g) (deletion_queue d)),
       d\<lparr>deletion_queue := filter (\<lambda>q. \<not> (dq_key q = k \<and> dq_generation q = g)) (deletion_queue d)\<rparr>)"

definition AcknowledgeContentDeletion :: "string \<Rightarrow> int \<Rightarrow> fault \<Rightarrow> db \<Rightarrow> bool result \<times> db" where
  "AcknowledgeContentDeletion k generation flt d =
     (if generation \<le> 0 then (Inl (OtherError ''content deletion generation must be positive''), d)
      else case run_stmt sql_wrap (sql_acknowledge k generation) flt d of
          (Inl e, d') \<Rightarrow> (Inl e, d')
        | (Inr rows, d') \<Rightarrow> (Inr (rows = 1), d'))"

definition CountContentDeletions :: "fault \<Rightarrow> db \<Rightarrow> nat result" where
  "CountContentDeletions flt d = fst (run_stmt sql_wrap (query (\<lambda>d. length (deletion_queue d))) flt d)"

section \<open>Schema constraints are kept\<close>

lemma with_uuid_Inr: "with_uuid canon s k d = Inr (x, d') \<longleftrightarrow> (\<exists>u. canon s = Some u \<and> k u d = Inr (x, d'))"
  by (auto simp: with_uuid_def split: option.splits)

lemma with_uuids_Inr:
  "with_uuids canon a b k d = Inr (x, d') \<longleftrightarrow> (\<exists>u v. canon a = Some u \<and> canon b = Some v \<and> k u v d = Inr (x, d'))"
  by (auto simp: with_uuids_def with_uuid_Inr)

lemma sql_insert_inbox_wf:
  assumes "db_wf d" "sql_insert_inbox newid c d = Inr (x, d')"
  shows "db_wf d'"
  using assms
  by (auto simp: sql_insert_inbox_def Let_def db_wf_def wf_tables list_all_iff split: if_splits)

lemma drop_rotation_keys:
  "cp_id (drop_rotation g c) = cp_id c" "cp_kid (drop_rotation g c) = cp_kid c"
  "cp_inbox (drop_rotation g c) = cp_inbox c" "capability_row_ok (drop_rotation g c) = capability_row_ok c"
  by (auto simp: drop_rotation_def capability_row_ok_def split: option.splits)

lemma drop_rotation_from:
  "cp_rotated_from (drop_rotation g c) =
     (case cp_rotated_from c of None \<Rightarrow> None | Some x \<Rightarrow> if x \<in> g then None else Some x)"
  by (auto simp: drop_rotation_def split: option.splits)

lemma drop_rotation_refs:
  "set (List.map_filter cp_rotated_from (map (drop_rotation g) cs)) \<subseteq> set (List.map_filter cp_rotated_from cs)"
  by (induction cs) (auto simp: List.map_filter_simps drop_rotation_from split: option.splits)

lemma drop_rotation_distinct:
  "distinct (List.map_filter cp_rotated_from cs) \<Longrightarrow> distinct (List.map_filter cp_rotated_from (map (drop_rotation g) cs))"
proof (induction cs)
  case (Cons c cs)
  then show ?case using drop_rotation_refs [of g cs]
    by (auto simp: List.map_filter_simps drop_rotation_from split: option.splits)
qed (simp add: List.map_filter_simps)

lemma map_filter_filter_distinct:
  "distinct (List.map_filter f xs) \<Longrightarrow> distinct (List.map_filter f (filter P xs))"
proof (induction xs)
  case (Cons x xs)
  have "set (List.map_filter f (filter P xs)) \<subseteq> set (List.map_filter f xs)"
    by (auto simp: List.map_filter_def)
  with Cons show ?case by (auto simp: List.map_filter_simps split: option.splits)
qed simp

lemma sql_delete_inboxes_wf:
  assumes "db_wf d" "sql_delete_inboxes ids d = Inr (x, d')"
  shows "db_wf d'"
proof -
  let ?g = "cp_id ` set (filter (\<lambda>c. cp_inbox c \<in> ids) (capabilities d))"
  let ?cs = "filter (\<lambda>c. cp_inbox c \<notin> ids) (capabilities d)"
  have d': "d' = d\<lparr>inboxes := filter (\<lambda>r. ib_id r \<notin> ids) (inboxes d),
      messages := filter (\<lambda>m. ms_inbox m \<notin> ids) (messages d),
      capabilities := map (drop_rotation ?g) ?cs\<rparr>"
    using assms(2) by (simp add: sql_delete_inboxes_def Let_def)
  have ids: "map cp_id (map (drop_rotation ?g) ?cs) = map cp_id ?cs" "map cp_kid (map (drop_rotation ?g) ?cs) = map cp_kid ?cs"
    by (simp_all add: drop_rotation_keys)
  have "wf_capabilities d" using assms(1) by (simp add: db_wf_def)
  moreover from this have "distinct (List.map_filter cp_rotated_from (map (drop_rotation ?g) ?cs))"
    by (intro drop_rotation_distinct map_filter_filter_distinct) (simp add: wf_capabilities_def)
  ultimately have "wf_capabilities d'"
    by (auto simp: wf_capabilities_def d' list_all_iff drop_rotation_keys distinct_map_filter comp_def)
  moreover have "wf_inboxes d' \<and> wf_contents d' \<and> wf_messages d' \<and> wf_parses d' \<and> wf_queue d' \<and> wf_quotas d'"
    using assms(1) by (auto simp: d' db_wf_def wf_tables distinct_map_filter list_all_iff)
  ultimately show ?thesis by (simp add: db_wf_def)
qed

lemma sql_delete_unreferenced_wf:
  assumes "db_wf d" "sql_delete_unreferenced k d = Inr (x, d')"
  shows "db_wf d'"
proof (cases "k \<in> mc_key ` set (mail_contents d) \<and> \<not> list_ex (\<lambda>m. ms_content m = k) (messages d)")
  case True
  then have d': "d' = d\<lparr>mail_contents := filter (\<lambda>c. mc_key c \<noteq> k) (mail_contents d),
      content_parses := filter (\<lambda>p. pr_key p \<noteq> k) (content_parses d)\<rparr>"
    using assms(2) by (simp add: sql_delete_unreferenced_def)
  have nk: "ms_content m \<noteq> k" if "m \<in> set (messages d)" for m using True that by (auto simp: list_ex_iff)
  have img: "x \<in> mc_key ` set (filter (\<lambda>c. mc_key c \<noteq> k) (mail_contents d))"
    if "x \<in> mc_key ` set (mail_contents d)" "x \<noteq> k" for x
    using that by auto
  have "wf_messages d'"
    using assms(1) nk img by (auto simp: d' db_wf_def wf_messages_def list_all_iff simp del: set_filter)
  moreover have "wf_parses d'"
    using assms(1) by (auto simp: d' db_wf_def wf_parses_def distinct_map_filter list_all_iff intro!: img [simplified])
  moreover have "wf_inboxes d' \<and> wf_contents d' \<and> wf_capabilities d' \<and> wf_queue d' \<and> wf_quotas d'"
    using assms(1) by (auto simp: d' db_wf_def wf_tables distinct_map_filter list_all_iff)
  ultimately show ?thesis by (simp add: db_wf_def)
next
  case False
  with assms show ?thesis by (auto simp: sql_delete_unreferenced_def)
qed

lemma requeue_key [simp]: "dq_key (requeue clock ref q) = dq_key q"
  by (simp add: requeue_def)

lemma sql_enqueue_deletion_wf:
  assumes "db_wf d" "sql_enqueue_deletion now clock ref d = Inr (x, d')"
  shows "db_wf d'"
proof -
  have q: "wf_queue d" using assms(1) by (simp add: db_wf_def)
  have ref: "key_valid (cr_key ref)" "0 \<le> cr_size ref"
    using assms(2) by (auto simp: sql_enqueue_deletion_def split: if_splits)
  show ?thesis
  proof (cases "list_ex (\<lambda>q. dq_key q = cr_key ref) (deletion_queue d)")
    case True
    have "map dq_key (map (requeue clock ref) (deletion_queue d)) = map dq_key (deletion_queue d)" by simp
    moreover have "0 < dq_generation (requeue clock ref r) \<and> 0 \<le> dq_size (requeue clock ref r)"
      if "0 < dq_generation r" "0 \<le> dq_size r" for r
      using that ref by (simp add: requeue_def)
    ultimately have "wf_queue (d\<lparr>deletion_queue := map (requeue clock ref) (deletion_queue d)\<rparr>)"
      using q by (simp add: wf_queue_def list_all_iff del: map_map)
    with True assms show ?thesis by (auto simp: sql_enqueue_deletion_def intro: db_wf_queue split: if_splits)
  next
    case False
    then have "wf_queue (d\<lparr>deletion_queue := deletion_queue d @
          [\<lparr>dq_key = cr_key ref, dq_size = cr_size ref, dq_generation = 1, dq_enqueued = now\<rparr>]\<rparr>)"
      using q ref by (auto simp: wf_queue_def list_ex_iff)
    with False assms show ?thesis by (auto simp: sql_enqueue_deletion_def intro: db_wf_queue split: if_splits)
  qed
qed

lemma sql_delete_message_wf: "db_wf d \<Longrightarrow> sql_delete_message mid d = Inr (x, d') \<Longrightarrow> db_wf d'"
  by (auto simp: sql_delete_message_def db_wf_def wf_tables distinct_map_filter list_all_iff)

definition seen_update :: "time \<Rightarrow> message_row \<Rightarrow> message_row" where
  "seen_update t m = m\<lparr>ms_seen := (case ms_seen m of None \<Rightarrow> Some t | Some u \<Rightarrow> Some u)\<rparr>"

lemma seen_update_keys [simp]:
  "ms_id (seen_update t m) = ms_id m" "ms_inbox (seen_update t m) = ms_inbox m"
  "ms_content (seen_update t m) = ms_content m" "ms_sender (seen_update t m) = ms_sender m"
  "ms_received (seen_update t m) = ms_received m"
  by (simp_all add: seen_update_def)

lemma sql_mark_seen_effect:
  assumes "sql_mark_seen now i mid t d = Inr (n, d')"
  shows "\<exists>hit. d' = d\<lparr>messages := map (\<lambda>m. if hit m then seen_update t m else m) (messages d)\<rparr> \<and>
     n = length (filter hit (messages d)) \<and> (\<forall>m. hit m \<longleftrightarrow> ms_id m = mid \<and> ms_inbox m = i \<and> live_inbox now i d \<noteq> None)"
  using assms unfolding sql_mark_seen_def seen_update_def Let_def
  by (intro exI [of _ "\<lambda>m. ms_id m = mid \<and> ms_inbox m = i \<and> live_inbox now i d \<noteq> None"]) simp

lemma sql_mark_seen_wf:
  assumes "db_wf d" "sql_mark_seen now i mid t d = Inr (x, d')"
  shows "db_wf d'"
proof -
  obtain hit where d': "d' = d\<lparr>messages := map (\<lambda>m. if hit m then seen_update t m else m) (messages d)\<rparr>"
    using sql_mark_seen_effect [OF assms(2)] by blast
  let ?f = "\<lambda>m. if hit m then seen_update t m else m"
  have k: "ms_id (?f m) = ms_id m" "ms_inbox (?f m) = ms_inbox m" "ms_content (?f m) = ms_content m"
    "ms_sender (?f m) = ms_sender m" for m by simp_all
  have "map ms_id (map ?f (messages d)) = map ms_id (messages d)" by (simp add: k)
  moreover have "list_all P (map ?f (messages d)) = list_all (\<lambda>m. P (?f m)) (messages d)" for P
    by (simp add: list.pred_map comp_def)
  ultimately have "wf_messages d'" using assms(1)
    by (simp add: d' db_wf_def wf_messages_def k del: map_map)
  then show ?thesis using db_wf_messages [OF assms(1)] by (simp add: d')
qed

lemma sql_acknowledge_wf: "db_wf d \<Longrightarrow> sql_acknowledge k g d = Inr (x, d') \<Longrightarrow> db_wf d'"
  by (auto simp: sql_acknowledge_def db_wf_def wf_tables distinct_map_filter list_all_iff)

section \<open>What deletion does\<close>

definition unreferenced :: "db \<Rightarrow> string \<Rightarrow> bool" where
  "unreferenced d k \<longleftrightarrow> k \<in> mc_key ` set (mail_contents d) \<and> \<not> list_ex (\<lambda>m. ms_content m = k) (messages d)"

text \<open>The database after the contents with keys \<open>ks\<close> were deleted, up to the deletion queue.\<close>

definition drop_contents :: "string set \<Rightarrow> db \<Rightarrow> db" where
  "drop_contents ks d = d\<lparr>mail_contents := filter (\<lambda>c. mc_key c \<notin> ks) (mail_contents d),
     content_parses := filter (\<lambda>p. pr_key p \<notin> ks) (content_parses d)\<rparr>"

abbreviation queue_keys :: "db \<Rightarrow> string set" where
  "queue_keys d \<equiv> dq_key ` set (deletion_queue d)"

lemma sql_enqueue_effect:
  assumes "sql_enqueue_deletion now clock ref d = Inr (u, d')"
  shows "\<exists>q. d' = d\<lparr>deletion_queue := q\<rparr> \<and> dq_key ` set q = insert (cr_key ref) (queue_keys d)"
proof (cases "list_ex (\<lambda>q. dq_key q = cr_key ref) (deletion_queue d)")
  case True
  then have "d' = d\<lparr>deletion_queue := map (requeue clock ref) (deletion_queue d)\<rparr>"
    and "cr_key ref \<in> queue_keys d"
    using assms by (auto simp: sql_enqueue_deletion_def list_ex_iff intro: rev_image_eqI split: if_splits)
  then show ?thesis by (intro exI [of _ "map (requeue clock ref) (deletion_queue d)"]) (auto simp: image_image)
next
  case False
  let ?q = "deletion_queue d @ [\<lparr>dq_key = cr_key ref, dq_size = cr_size ref, dq_generation = 1, dq_enqueued = now\<rparr>]"
  from False assms have "d' = d\<lparr>deletion_queue := ?q\<rparr>" by (simp add: sql_enqueue_deletion_def split: if_splits)
  then show ?thesis by (intro exI [of _ ?q]) simp
qed

lemma drop_contents_queue: "drop_contents ks (d\<lparr>deletion_queue := q\<rparr>) = (drop_contents ks d)\<lparr>deletion_queue := q\<rparr>"
  by (simp add: drop_contents_def)

lemma drop_contents_drop: "drop_contents A (drop_contents B d) = drop_contents (B \<union> A) d"
  by (simp add: drop_contents_def conj_commute)

lemma unreferenced_drop: "k \<notin> ks \<Longrightarrow> unreferenced (drop_contents ks d) k = unreferenced d k"
  by (auto simp: unreferenced_def drop_contents_def)

lemma unreferenced_queue [simp]: "unreferenced (d\<lparr>deletion_queue := q\<rparr>) k = unreferenced d k"
  by (simp add: unreferenced_def)

lemma orphan_loop_effect:
  assumes "orphan_loop now clock refs flt (n, d) = (Inr os, n', d')" and "distinct (map cr_key refs)"
  shows "os = filter (\<lambda>r. unreferenced d (cr_key r)) refs \<and>
    (\<exists>q. d' = (drop_contents (cr_key ` set os) d)\<lparr>deletion_queue := q\<rparr> \<and>
         dq_key ` set q = queue_keys d \<union> cr_key ` set os)"
  using assms
proof (induction refs arbitrary: n d os)
  case Nil
  then show ?case by (auto simp: tx_return_eq drop_contents_def intro!: exI [of _ "deletion_queue d"])
next
  case (Cons r rs)
  show ?case
  proof (cases "unreferenced d (cr_key r)")
    case False
    then have "sql_delete_unreferenced (cr_key r) d = Inr (0, d)"
      by (auto simp: sql_delete_unreferenced_def unreferenced_def)
    with Cons.prems(1) have "orphan_loop now clock rs flt (Suc n, d) = (Inr os, n', d')"
      by (auto simp: tx_bind_Inr stmt_Inr simp del: stmt.simps)
    moreover have "distinct (map cr_key rs)" using Cons.prems(2) by simp
    ultimately have
      "os = filter (\<lambda>r. unreferenced d (cr_key r)) rs \<and>
       (\<exists>q. d' = (drop_contents (cr_key ` set os) d)\<lparr>deletion_queue := q\<rparr> \<and>
         dq_key ` set q = queue_keys d \<union> cr_key ` set os)" by (rule Cons.IH)
    moreover have "filter (\<lambda>r. unreferenced d (cr_key r)) (r # rs) = filter (\<lambda>r. unreferenced d (cr_key r)) rs"
      using False by simp
    ultimately show ?thesis by metis
  next
    case True
    let ?d1 = "drop_contents {cr_key r} d"
    have del: "sql_delete_unreferenced (cr_key r) d = Inr (1, ?d1)"
      using True by (simp add: sql_delete_unreferenced_def unreferenced_def drop_contents_def)
    from Cons.prems(1) del obtain n1 d2 os' where
      e: "sql_enqueue_deletion now clock r ?d1 = Inr ((), d2)" and
      l: "orphan_loop now clock rs flt (n1, d2) = (Inr os', n', d')" and os: "os = r # os'"
      by (auto simp: tx_bind_Inr stmt_Inr tx_return_eq enqueueContentDeletion_def simp del: stmt.simps)
    obtain q where d2: "d2 = ?d1\<lparr>deletion_queue := q\<rparr>" and q: "dq_key ` set q = insert (cr_key r) (queue_keys d)"
      using sql_enqueue_effect [OF e] by (auto simp: drop_contents_def)
    have nr: "cr_key x \<noteq> cr_key r" if "x \<in> set rs" for x using Cons.prems(2) that by simp (metis image_eqI)
    obtain q' where os': "os' = filter (\<lambda>r. unreferenced d2 (cr_key r)) rs"
      and d': "d' = (drop_contents (cr_key ` set os') d2)\<lparr>deletion_queue := q'\<rparr>"
      and q': "dq_key ` set q' = queue_keys d2 \<union> cr_key ` set os'"
      using Cons.IH [OF l] Cons.prems(2) by auto
    have "os' = filter (\<lambda>r. unreferenced d (cr_key r)) rs"
      unfolding os' by (rule filter_cong) (simp_all add: d2 unreferenced_drop nr)
    moreover have "d' = (drop_contents (cr_key ` set os) d)\<lparr>deletion_queue := q'\<rparr>"
      by (simp add: d' d2 os drop_contents_queue drop_contents_drop)
    moreover have "dq_key ` set q' = queue_keys d \<union> cr_key ` set os"
      using q' q by (auto simp: d2 os)
    ultimately show ?thesis using True by (auto simp: os)
  qed
qed

lemma owned_contents_keys: "distinct (map mc_key (mail_contents d)) \<Longrightarrow> distinct (map cr_key (owned_contents ids d))"
  by (simp add: owned_contents_def comp_def) (metis (no_types, lifting) distinct_map_filter distinct_map distinct_sort set_sort)

lemma owned_contents_set:
  "set (owned_contents ids d) = ref_of ` {c \<in> set (mail_contents d). \<exists>m \<in> set (messages d). ms_inbox m \<in> ids \<and> ms_content m = mc_key c}"
  by (auto simp: owned_contents_def ref_of_def list_ex_iff)

definition contents_referenced :: "db \<Rightarrow> bool" where
  "contents_referenced d \<longleftrightarrow> list_all (\<lambda>c. list_ex (\<lambda>m. ms_content m = mc_key c) (messages d)) (mail_contents d)"

text \<open>
  Deleting some Inboxes together with the contents nobody else refers to: the rows of other Inboxes
  stay, exactly the contents referenced only from the deleted Inboxes go, and all of these are queued.
\<close>

definition purged :: "string set \<Rightarrow> content_ref list \<Rightarrow> db \<Rightarrow> db \<Rightarrow> bool" where
  "purged ids os d d' \<longleftrightarrow>
     inboxes d' = filter (\<lambda>r. ib_id r \<notin> ids) (inboxes d) \<and>
     messages d' = filter (\<lambda>m. ms_inbox m \<notin> ids) (messages d) \<and>
     set os = ref_of ` {c \<in> set (mail_contents d). \<forall>m \<in> set (messages d). ms_content m = mc_key c \<longrightarrow> ms_inbox m \<in> ids} \<and>
     mail_contents d' = filter (\<lambda>c. mc_key c \<notin> cr_key ` set os) (mail_contents d) \<and>
     queue_keys d' = queue_keys d \<union> cr_key ` set os"

lemma purge_effect:
  assumes "db_wf d" "contents_referenced d" "sql_delete_inboxes ids d = Inr (rows, d1)"
    "orphan_loop now clock (owned_contents ids d) flt (n, d1) = (Inr os, n', d')"
  shows "purged ids os d d'"
proof -
  have d1: "inboxes d1 = filter (\<lambda>r. ib_id r \<notin> ids) (inboxes d)" "messages d1 = filter (\<lambda>m. ms_inbox m \<notin> ids) (messages d)"
    "mail_contents d1 = mail_contents d" "deletion_queue d1 = deletion_queue d"
    using assms(3) by (auto simp: sql_delete_inboxes_def Let_def)
  have ks: "distinct (map cr_key (owned_contents ids d))"
    using assms(1) by (intro owned_contents_keys) (simp add: db_wf_def wf_contents_def)
  from orphan_loop_effect [OF assms(4) ks] obtain q where
    os: "os = filter (\<lambda>r. unreferenced d1 (cr_key r)) (owned_contents ids d)"
    and d': "d' = (drop_contents (cr_key ` set os) d1)\<lparr>deletion_queue := q\<rparr>"
    and q: "dq_key ` set q = queue_keys d1 \<union> cr_key ` set os" by auto
  have ref: "\<exists>m \<in> set (messages d). ms_content m = mc_key c" if "c \<in> set (mail_contents d)" for c
    using assms(2) that by (auto simp: contents_referenced_def list_all_iff list_ex_iff)
  have un: "unreferenced d1 (mc_key c) \<longleftrightarrow> (\<forall>m \<in> set (messages d). ms_content m = mc_key c \<longrightarrow> ms_inbox m \<in> ids)"
    if "c \<in> set (mail_contents d)" for c
    using that by (auto simp: unreferenced_def d1 list_ex_iff)
  have "set os = {r \<in> set (owned_contents ids d). unreferenced d1 (cr_key r)}" unfolding os by simp
  also have "\<dots> = ref_of ` {c \<in> set (mail_contents d). (\<exists>m \<in> set (messages d). ms_inbox m \<in> ids \<and> ms_content m = mc_key c) \<and>
      unreferenced d1 (mc_key c)}"
    unfolding owned_contents_set by (auto simp: ref_of_def)
  also have "{c \<in> set (mail_contents d). (\<exists>m \<in> set (messages d). ms_inbox m \<in> ids \<and> ms_content m = mc_key c) \<and> unreferenced d1 (mc_key c)} =
      {c \<in> set (mail_contents d). \<forall>m \<in> set (messages d). ms_content m = mc_key c \<longrightarrow> ms_inbox m \<in> ids}"
    using un ref by blast
  finally show ?thesis unfolding purged_def d' using q by (simp add: drop_contents_def d1)
qed

lemma purged_referenced:
  assumes "purged ids os d d'"
  shows "contents_referenced d'"
  unfolding contents_referenced_def list_all_iff list_ex_iff
proof
  fix c assume "c \<in> set (mail_contents d')"
  then have c: "c \<in> set (mail_contents d)" "mc_key c \<notin> cr_key ` set os" using assms by (auto simp: purged_def)
  have "ref_of c \<notin> set os" using c(2) by (auto simp: ref_of_def) (metis content_ref.select_convs(1) image_eqI)
  with c(1) assms have "\<not> (\<forall>m \<in> set (messages d). ms_content m = mc_key c \<longrightarrow> ms_inbox m \<in> ids)"
    unfolding purged_def by blast
  then show "\<exists>m \<in> set (messages d'). ms_content m = mc_key c" using assms by (auto simp: purged_def)
qed

lemma keeps_delete_inboxes: "wf.keeps (stmt f (sql_delete_inboxes ids))"
  by (rule wf.keeps_stmt) (rule sql_delete_inboxes_wf)

lemma keeps_delete_unreferenced: "wf.keeps (stmt f (sql_delete_unreferenced k))"
  by (rule wf.keeps_stmt) (rule sql_delete_unreferenced_wf)

lemma keeps_enqueue: "wf.keeps (enqueueContentDeletion now clock ref)"
  unfolding enqueueContentDeletion_def by (rule wf.keeps_stmt) (rule sql_enqueue_deletion_wf)

lemma keeps_uuid_query: "wf.keeps (stmt f (with_uuid canon s (\<lambda>i. query (g i))))"
  by (rule wf.keeps_stmt) (auto simp: with_uuid_Inr query_def)

lemma keeps_orphan_loop: "wf.keeps (orphan_loop now clock refs)"
proof (induction refs)
  case (Cons r rs)
  have k: "wf.keeps (if b then tx_bind (enqueueContentDeletion now clock r)
      (\<lambda>_. tx_bind (orphan_loop now clock rs) (\<lambda>orphans. tx_return (r # orphans))) else orphan_loop now clock rs)" for b
    using Cons by (simp add: wf.keeps_bind wf.keeps_return keeps_enqueue)
  show ?case unfolding orphan_loop.simps by (intro wf.keeps_bind keeps_delete_unreferenced k)
qed (simp add: wf.keeps_return)

lemma DeleteInbox_tx_wf: "wf.keeps (DeleteInbox_tx canon now clock inboxID)"
proof -
  have a: "wf.keeps (if b then tx_fail e else orphan_loop now clock refs)" for b e refs
    by (simp add: wf.keeps_fail keeps_orphan_loop)
  have "wf.keeps (case x of None \<Rightarrow> tx_fail MailboxErrInboxNotFound | Some row \<Rightarrow>
      tx_bind (stmt sql_wrap (with_uuid canon inboxID (\<lambda>i. query (owned_contents {i})))) (\<lambda>refs.
      tx_bind (stmt sql_wrap (sql_delete_inboxes {ib_id row})) (\<lambda>rows.
        if rows \<noteq> 1 then tx_fail MailboxErrInboxNotFound else orphan_loop now clock refs)))" for x
    by (cases x) (simp_all only: option.case wf.keeps_fail wf.keeps_bind keeps_uuid_query keeps_delete_inboxes a)
  then show ?thesis unfolding DeleteInbox_tx_def by (intro wf.keeps_bind keeps_uuid_query)
qed

lemma live_inbox_id: "live_inbox now i d = Some row \<Longrightarrow> ib_id row = i \<and> inbox_live now row \<and> row \<in> set (inboxes d)"
  by (auto simp: live_inbox_def dest: find_SomeD)

lemma DeleteInbox_tx_effect:
  assumes "db_wf d" "contents_referenced d" "DeleteInbox_tx canon now clock inboxID flt (n, d) = (Inr os, n', d')"
  shows "\<exists>i. canon inboxID = Some i \<and> live_inbox now i d \<noteq> None \<and> purged {i} os d d'"
proof -
  from assms(3) obtain i row n1 d1 rows where i: "canon inboxID = Some i" and row: "live_inbox now i d = Some row"
    and del: "sql_delete_inboxes {ib_id row} d = Inr (rows, d1)"
    and l: "orphan_loop now clock (owned_contents {i} d) flt (n1, d1) = (Inr os, n', d')"
    by (auto simp: DeleteInbox_tx_def tx_bind_Inr stmt_Inr tx_fail_eq with_uuid_Inr query_Inr simp del: stmt.simps
        split: option.splits if_splits) (metis)
  have "ib_id row = i" using live_inbox_id [OF row] by simp
  with del l have "purged {i} os d d'" using purge_effect [OF assms(1,2)] by metis
  with i row show ?thesis by auto
qed

lemma DeleteInbox_effect:
  assumes "db_wf d" and "contents_referenced d" and "DeleteInbox canon now clock inboxID flt d = (r, d')"
  shows "db_wf d' \<and> contents_referenced d' \<and>
    ((d' = d \<and> \<not> is_ok r) \<or>
     (\<exists>i os. canon inboxID = Some i \<and> live_inbox now i d \<noteq> None \<and> purged {i} os d d' \<and> (is_ok r \<longrightarrow> r = Inr os)))"
proof -
  have tx: "run_tx (DeleteInbox_tx canon now clock inboxID) flt d = (r, d')" using assms(3) by (simp add: DeleteInbox_def)
  have wf: "db_wf d'" using wf.run_tx_keeps [OF DeleteInbox_tx_wf assms(1) tx] .
  from tx show ?thesis
  proof (cases rule: run_tx_cases)
    case Unchanged
    with assms wf show ?thesis by auto
  next
    case (Done os n)
    from DeleteInbox_tx_effect [OF assms(1,2) Done(1)] obtain i where
      i: "canon inboxID = Some i" "live_inbox now i d \<noteq> None" "purged {i} os d d'" by blast
    moreover have "is_ok r \<longrightarrow> r = Inr os" using Done(2) by auto
    ultimately show ?thesis using wf purged_referenced [OF i(3)] by blast
  qed
qed

text \<open>
  C25. Deleting an Inbox removes that Inbox with its messages and nothing of any other Inbox. The
  contents it returns are exactly those that no other Inbox's message refers to; their metadata is
  removed and every one of them is on the durable deletion queue, in the same commit. Under any fault
  the database is either unchanged or in that state, and no content row is left without a message.
\<close>

theorem DeleteInbox_spec:
  assumes "db_wf d" and "contents_referenced d" and "DeleteInbox canon now clock inboxID flt d = (r, d')"
  shows "db_wf d' \<and> contents_referenced d' \<and>
    ((d' = d \<and> \<not> is_ok r) \<or>
     (\<exists>i os. canon inboxID = Some i \<and> live_inbox now i d \<noteq> None \<and> purged {i} os d d' \<and> (is_ok r \<longrightarrow> r = Inr os)))"
  using assms by (rule DeleteInbox_effect)

lemma Cleanup_tx_wf: "wf.keeps (Cleanup_tx now clock lock_free skip batchSize)"
proof -
  have a: "wf.keeps (if ids = [] then tx_return (0, []) else
      tx_bind (stmt sql_wrap (query (owned_contents (set ids)))) (\<lambda>refs.
      tx_bind (stmt sql_wrap (sql_delete_inboxes (set ids))) (\<lambda>rows.
      tx_bind (orphan_loop now clock refs) (\<lambda>orphans. tx_return (rows, orphans)))))" for ids
    by (simp add: wf.keeps_bind wf.keeps_return wf.keeps_query keeps_delete_inboxes keeps_orphan_loop)
  then show ?thesis unfolding Cleanup_tx_def
    by (intro wf.keeps_bind wf.keeps_query) (simp add: wf.keeps_bind wf.keeps_return wf.keeps_query a)
qed

lemma expired_batch_props:
  assumes "db_wf d"
  shows "distinct (expired_batch now skip n d)" "length (expired_batch now skip n d) \<le> n"
    "i \<in> set (expired_batch now skip n d) \<Longrightarrow> \<exists>row \<in> set (inboxes d). ib_id row = i \<and> ib_expires row \<le> now"
    "length (expired_batch now skip n d) < n \<Longrightarrow>
       set (expired_batch now skip n d) = ib_id ` {r \<in> set (inboxes d). ib_expires r \<le> now \<and> ib_id r \<notin> skip}"
proof -
  let ?rows = "filter (\<lambda>r. ib_expires r \<le> now \<and> ib_id r \<notin> skip) (inboxes d)"
  let ?s = "sort_key (\<lambda>r. (ib_expires r, ib_id r)) ?rows"
  have "distinct (map ib_id ?rows)" using assms by (simp add: db_wf_def wf_inboxes_def distinct_map_filter)
  then have ds: "distinct (map ib_id ?s)" by (simp add: distinct_map)
  then show "distinct (expired_batch now skip n d)" unfolding expired_batch_def by (rule distinct_take)
  show "length (expired_batch now skip n d) \<le> n" by (simp add: expired_batch_def)
  have "set (expired_batch now skip n d) \<subseteq> set (map ib_id ?s)" unfolding expired_batch_def by (rule set_take_subset)
  then show "i \<in> set (expired_batch now skip n d) \<Longrightarrow> \<exists>row \<in> set (inboxes d). ib_id row = i \<and> ib_expires row \<le> now"
    by auto
  assume "length (expired_batch now skip n d) < n"
  then have "expired_batch now skip n d = map ib_id ?s" by (simp add: expired_batch_def)
  then show "set (expired_batch now skip n d) = ib_id ` {r \<in> set (inboxes d). ib_expires r \<le> now \<and> ib_id r \<notin> skip}"
    by simp
qed

lemma count_by_id:
  assumes "distinct (map f xs)" "distinct ids" "set ids \<subseteq> f ` set xs"
  shows "length (filter (\<lambda>r. f r \<in> set ids) xs) = length ids"
proof -
  let ?ys = "filter (\<lambda>r. f r \<in> set ids) xs"
  have "distinct (map f ?ys)" using assms(1) by (rule distinct_map_filter)
  then have "length ?ys = card (set (map f ?ys))" by (metis distinct_card length_map)
  also have "set (map f ?ys) = set ids" using assms(3) by auto
  finally show ?thesis using assms(2) by (simp add: distinct_card)
qed

lemma Cleanup_tx_effect:
  assumes "db_wf d" "contents_referenced d" "Cleanup_tx now clock lock_free skip b flt (n, d) = (Inr (rows, os), n', d')"
  shows "d' = d \<and> rows = 0 \<and> os = [] \<and> (lock_free \<longrightarrow> expired_batch now skip b d = []) \<or>
    lock_free \<and> purged (set (expired_batch now skip b d)) os d d' \<and> rows = length (expired_batch now skip b d)"
proof (cases "lock_free \<and> expired_batch now skip b d \<noteq> []")
  case False
  with assms(3) show ?thesis
    by (auto simp: Cleanup_tx_def tx_bind_Inr stmt_Inr tx_return_eq query_Inr simp del: stmt.simps split: if_splits)
next
  case True
  let ?ids = "expired_batch now skip b d"
  from True assms(3) obtain n1 d1 n2 where del: "sql_delete_inboxes (set ?ids) d = Inr (rows, d1)"
    and l: "orphan_loop now clock (owned_contents (set ?ids) d) flt (n1, d1) = (Inr os, n2, d')"
    by (auto simp: Cleanup_tx_def tx_bind_Inr stmt_Inr tx_return_eq query_Inr simp del: stmt.simps split: if_splits)
  have "rows = length (filter (\<lambda>r. ib_id r \<in> set ?ids) (inboxes d))" using del by (simp add: sql_delete_inboxes_def Let_def)
  also have "\<dots> = length ?ids"
  proof (rule count_by_id)
    show "distinct (map ib_id (inboxes d))" using assms(1) by (simp add: db_wf_def wf_inboxes_def)
    show "distinct ?ids" by (rule expired_batch_props(1) [OF assms(1)])
    show "set ?ids \<subseteq> ib_id ` set (inboxes d)" using expired_batch_props(3) [OF assms(1)] by blast
  qed
  finally show ?thesis using True purge_effect [OF assms(1,2) del l] by simp
qed

lemma CleanupExpiredInboxes_effect:
  assumes "db_wf d" and "contents_referenced d"
    and "CleanupExpiredInboxes now clock lock_free skip batchSize flt d = (r, d')"
  shows "db_wf d' \<and> contents_referenced d' \<and>
    (d' = d \<or> (\<exists>ids os. distinct ids \<and> length ids \<le> nat batchSize \<and>
        (\<forall>i \<in> set ids. \<exists>row \<in> set (inboxes d). ib_id row = i \<and> ib_expires row \<le> now) \<and>
        purged (set ids) os d d' \<and> (is_ok r \<longrightarrow> r = Inr (length ids, os)))) \<and>
    (\<forall>n os. lock_free \<and> r = Inr (n, os) \<and> int n < batchSize \<longrightarrow>
        (\<forall>row \<in> set (inboxes d'). ib_expires row \<le> now \<longrightarrow> ib_id row \<in> skip))"
proof (cases "batchSize \<le> 0 \<or> batchSize > 1000")
  case True
  with assms show ?thesis by (auto simp: CleanupExpiredInboxes_def)
next
  case False
  with assms(3) have tx: "run_tx (Cleanup_tx now clock lock_free skip (nat batchSize)) flt d = (r, d')"
    by (simp add: CleanupExpiredInboxes_def)
  have wf: "db_wf d'" using wf.run_tx_keeps [OF Cleanup_tx_wf assms(1) tx] .
  let ?ids = "expired_batch now skip (nat batchSize) d"
  note b = expired_batch_props [OF assms(1), where now = now and skip = skip and n = "nat batchSize"]
  from tx show ?thesis
  proof (cases rule: run_tx_cases)
    case Unchanged
    with assms wf show ?thesis by auto
  next
    case (Done x n)
    obtain rows os where x: "x = (rows, os)" by (cases x)
    have r: "is_ok r \<longrightarrow> r = Inr (rows, os)" using Done(2) x by auto
    from Cleanup_tx_effect [OF assms(1,2)] Done(1) x
    consider (Idle) "d' = d" "rows = 0" "lock_free \<longrightarrow> ?ids = []"
      | (Ran) "lock_free" "purged (set ?ids) os d d'" "rows = length ?ids" by blast
    then show ?thesis
    proof cases
      case Idle
      have "ib_id row \<in> skip" if "lock_free" "row \<in> set (inboxes d')" "ib_expires row \<le> now" for row
        using b(4) Idle that False by auto
      with Idle assms wf show ?thesis by blast
    next
      case Ran
      have left: "ib_id row \<in> skip" if "int rows < batchSize" "row \<in> set (inboxes d')" "ib_expires row \<le> now" for row
      proof -
        have "length ?ids < nat batchSize" using that(1) Ran(3) by simp
        with b(4) have "set ?ids = ib_id ` {r \<in> set (inboxes d). ib_expires r \<le> now \<and> ib_id r \<notin> skip}" by blast
        moreover have "row \<in> set (inboxes d)" "ib_id row \<notin> set ?ids" using Ran(2) that(2) by (auto simp: purged_def)
        ultimately show ?thesis using that(3) by blast
      qed
      have "(\<forall>n os. lock_free \<and> r = Inr (n, os) \<and> int n < batchSize \<longrightarrow>
          (\<forall>row \<in> set (inboxes d'). ib_expires row \<le> now \<longrightarrow> ib_id row \<in> skip))"
        using left r by auto
      moreover have "\<exists>ids os. distinct ids \<and> length ids \<le> nat batchSize \<and>
        (\<forall>i \<in> set ids. \<exists>row \<in> set (inboxes d). ib_id row = i \<and> ib_expires row \<le> now) \<and>
        purged (set ids) os d d' \<and> (is_ok r \<longrightarrow> r = Inr (length ids, os))"
        using b(1,2,3) Ran r by blast
      ultimately show ?thesis using wf purged_referenced [OF Ran(2)] by blast
    qed
  qed
qed

text \<open>
  The expiry sweep deletes only Inboxes that have expired, at most a batch of them, with exactly
  the contents nobody else refers to, all of which it queues. A sweep that gets the advisory lock and
  reports fewer deletions than the batch size leaves no expired Inbox behind except those another
  transaction holds locked, so the caller's loop may stop there.
\<close>

theorem CleanupExpiredInboxes_spec:
  assumes "db_wf d" and "contents_referenced d"
    and "CleanupExpiredInboxes now clock lock_free skip batchSize flt d = (r, d')"
  shows "db_wf d' \<and> contents_referenced d' \<and>
    (d' = d \<or> (\<exists>ids os. distinct ids \<and> length ids \<le> nat batchSize \<and>
        (\<forall>i \<in> set ids. \<exists>row \<in> set (inboxes d). ib_id row = i \<and> ib_expires row \<le> now) \<and>
        purged (set ids) os d d' \<and> (is_ok r \<longrightarrow> r = Inr (length ids, os)))) \<and>
    (\<forall>n os. lock_free \<and> r = Inr (n, os) \<and> int n < batchSize \<longrightarrow>
        (\<forall>row \<in> set (inboxes d'). ib_expires row \<le> now \<longrightarrow> ib_id row \<in> skip))"
  using assms by (rule CleanupExpiredInboxes_effect)

lemma keeps_uuids_query: "wf.keeps (stmt f (with_uuids canon a b (\<lambda>i m. query (g i m))))"
  by (rule wf.keeps_stmt) (auto simp: with_uuids_Inr query_def)

lemma keeps_delete_message: "wf.keeps (stmt f (with_uuid canon s sql_delete_message))"
  by (rule wf.keeps_stmt) (auto simp: with_uuid_Inr intro: sql_delete_message_wf)

lemma DeleteMessage_tx_wf: "wf.keeps (DeleteMessage_tx canon now clock inboxID messageID)"
proof -
  have a: "wf.keeps (if b then tx_bind (enqueueContentDeletion now clock r) (\<lambda>_. tx_return (Some r)) else tx_return None)" for b r
    by (simp add: wf.keeps_bind wf.keeps_return keeps_enqueue)
  have "wf.keeps (case x of None \<Rightarrow> tx_fail ErrMessageNotFound | Some (m, c) \<Rightarrow>
      tx_bind (stmt sql_wrap (with_uuid canon messageID sql_delete_message)) (\<lambda>_.
      tx_bind (stmt sql_wrap (sql_delete_unreferenced (mc_key c))) (\<lambda>rows.
        if rows = 1 then tx_bind (enqueueContentDeletion now clock (ref_of c)) (\<lambda>_. tx_return (Some (ref_of c)))
        else tx_return None)))" for x :: "(message_row \<times> content_row) option"
    by (cases x) (auto simp only: option.case prod.case intro!: wf.keeps_fail wf.keeps_bind keeps_delete_message keeps_delete_unreferenced a)
  then show ?thesis unfolding DeleteMessage_tx_def by (intro wf.keeps_bind keeps_uuids_query)
qed

lemma owned_message_props:
  assumes "owned_message now i mid d = Some (m, c)"
  shows "m \<in> set (messages d)" "ms_id m = mid" "ms_inbox m = i" "live_inbox now i d \<noteq> None"
    "c \<in> set (mail_contents d)" "mc_key c = ms_content m"
  using assms by (auto simp: owned_message_def find_content_def dest!: find_SomeD split: option.splits if_splits)

text \<open>What remains after one message and possibly its content were deleted.\<close>

definition message_removed :: "message_row \<Rightarrow> content_ref option \<Rightarrow> db \<Rightarrow> db \<Rightarrow> bool" where
  "message_removed m orphan d d' \<longleftrightarrow>
     inboxes d' = inboxes d \<and> messages d' = filter (\<lambda>x. ms_id x \<noteq> ms_id m) (messages d) \<and>
     (case orphan of
        None \<Rightarrow> mail_contents d' = mail_contents d \<and> deletion_queue d' = deletion_queue d \<and>
          (\<exists>x \<in> set (messages d'). ms_content x = ms_content m)
      | Some r \<Rightarrow> cr_key r = ms_content m \<and> (\<forall>x \<in> set (messages d'). ms_content x \<noteq> cr_key r) \<and>
          mail_contents d' = filter (\<lambda>c. mc_key c \<noteq> cr_key r) (mail_contents d) \<and>
          queue_keys d' = insert (cr_key r) (queue_keys d))"

lemma DeleteMessage_tx_effect:
  assumes "db_wf d" "DeleteMessage_tx canon now clock inboxID messageID flt (n, d) = (Inr res, n', d')"
  shows "\<exists>i mid m c. canon inboxID = Some i \<and> canon messageID = Some mid \<and>
    owned_message now i mid d = Some (m, c) \<and> message_removed m res d d'"
proof -
  let ?d1 = "\<lambda>mid. d\<lparr>messages := filter (\<lambda>m. ms_id m \<noteq> mid) (messages d)\<rparr>"
  from assms(2) obtain i mid m c rows d2 n2 where ids: "canon inboxID = Some i" "canon messageID = Some mid"
    and own: "owned_message now i mid d = Some (m, c)"
    and del: "sql_delete_unreferenced (mc_key c) (?d1 mid) = Inr (rows, d2)"
    and rest: "(if rows = 1 then tx_bind (enqueueContentDeletion now clock (ref_of c)) (\<lambda>_. tx_return (Some (ref_of c)))
        else tx_return None) flt (n2, d2) = (Inr res, n', d')"
    by (auto simp: DeleteMessage_tx_def tx_bind_Inr stmt_Inr tx_fail_eq with_uuids_Inr with_uuid_Inr query_Inr sql_delete_message_def
        simp del: stmt.simps split: option.splits) metis
  note p = owned_message_props [OF own]
  have "message_removed m res d d'"
  proof (cases "unreferenced (?d1 mid) (mc_key c)")
    case True
    then have d2: "rows = 1" "d2 = drop_contents {mc_key c} (?d1 mid)"
      using del by (auto simp: sql_delete_unreferenced_def unreferenced_def drop_contents_def)
    with rest have e: "sql_enqueue_deletion now clock (ref_of c) d2 = Inr ((), d')" "res = Some (ref_of c)"
      by (auto simp: tx_bind_Inr stmt_Inr tx_return_eq enqueueContentDeletion_def simp del: stmt.simps)
    from sql_enqueue_effect [OF e(1)] obtain q where "d' = d2\<lparr>deletion_queue := q\<rparr>"
      "dq_key ` set q = insert (mc_key c) (queue_keys d)" by (auto simp: d2 drop_contents_def ref_of_def)
    with True e(2) p show ?thesis
      by (auto simp: message_removed_def d2 drop_contents_def ref_of_def unreferenced_def list_ex_iff)
  next
    case False
    then have "rows = 0" "d2 = ?d1 mid" using del by (auto simp: sql_delete_unreferenced_def unreferenced_def)
    with rest have "res = None" "d' = ?d1 mid" by (auto simp: tx_return_eq)
    moreover have "\<exists>x \<in> set (messages (?d1 mid)). ms_content x = ms_content m"
    proof -
      have "mc_key c \<in> mc_key ` set (mail_contents d)" using p(5) by simp
      with False show ?thesis unfolding p(6) [symmetric] by (auto simp: unreferenced_def list_ex_iff)
    qed
    ultimately show ?thesis using p by (auto simp: message_removed_def)
  qed
  with ids own show ?thesis by blast
qed

lemma message_removed_referenced:
  assumes "contents_referenced d" "message_removed m orphan d d'" "db_wf d" "m \<in> set (messages d)"
  shows "contents_referenced d'"
  unfolding contents_referenced_def list_all_iff list_ex_iff
proof
  fix c assume c: "c \<in> set (mail_contents d')"
  then have "c \<in> set (mail_contents d)" using assms(2) by (auto simp: message_removed_def split: option.splits)
  then obtain x where x: "x \<in> set (messages d)" "ms_content x = mc_key c"
    using assms(1) by (auto simp: contents_referenced_def list_all_iff list_ex_iff)
  show "\<exists>x \<in> set (messages d'). ms_content x = mc_key c"
  proof (cases "ms_content m = mc_key c")
    case True
    with c assms(2) show ?thesis by (auto simp: message_removed_def split: option.splits)
  next
    case False
    show ?thesis
    proof (cases "ms_id x = ms_id m")
      case True
      have "distinct (map ms_id (messages d))" using assms(3) by (simp add: db_wf_def wf_messages_def)
      with True x(1) assms(4) have "x = m" by (auto simp: distinct_map inj_on_def)
      with x(2) False show ?thesis by simp
    next
      case False
      with x assms(2) show ?thesis by (auto simp: message_removed_def)
    qed
  qed
qed

lemma DeleteMessage_effect:
  assumes "db_wf d" and "contents_referenced d" and "DeleteMessage canon now clock inboxID messageID flt d = (r, d')"
  shows "db_wf d' \<and> contents_referenced d' \<and>
    ((d' = d \<and> \<not> is_ok r) \<or>
     (\<exists>i mid m c orphan. canon inboxID = Some i \<and> canon messageID = Some mid \<and>
        owned_message now i mid d = Some (m, c) \<and> message_removed m orphan d d' \<and> (is_ok r \<longrightarrow> r = Inr orphan)))"
proof -
  have tx: "run_tx (DeleteMessage_tx canon now clock inboxID messageID) flt d = (r, d')"
    using assms(3) by (simp add: DeleteMessage_def)
  have wf: "db_wf d'" using wf.run_tx_keeps [OF DeleteMessage_tx_wf assms(1) tx] .
  from tx show ?thesis
  proof (cases rule: run_tx_cases)
    case Unchanged
    with assms wf show ?thesis by auto
  next
    case (Done x n)
    from DeleteMessage_tx_effect [OF assms(1) Done(1)] obtain i mid m c where
      p: "canon inboxID = Some i" "canon messageID = Some mid" "owned_message now i mid d = Some (m, c)"
        "message_removed m x d d'" by blast
    moreover have "is_ok r \<longrightarrow> r = Inr x" using Done(2) by auto
    moreover have "contents_referenced d'"
      using message_removed_referenced [OF assms(2) p(4) assms(1) owned_message_props(1) [OF p(3)]] .
    ultimately show ?thesis using wf by blast
  qed
qed

text \<open>
  Deleting a message removes exactly that message, only if it belongs to the given live Inbox. Its
  content is removed and queued exactly when no other message refers to it; otherwise it stays.
  Under any fault the database is unchanged or in that state.
\<close>

theorem DeleteMessage_spec:
  assumes "db_wf d" and "contents_referenced d" and "DeleteMessage canon now clock inboxID messageID flt d = (r, d')"
  shows "db_wf d' \<and> contents_referenced d' \<and>
    ((d' = d \<and> \<not> is_ok r) \<or>
     (\<exists>i mid m c orphan. canon inboxID = Some i \<and> canon messageID = Some mid \<and>
        owned_message now i mid d = Some (m, c) \<and> message_removed m orphan d d' \<and> (is_ok r \<longrightarrow> r = Inr orphan)))"
  using assms by (rule DeleteMessage_effect)

section \<open>Deliveries keep every content referenced\<close>

lemma delivered_referenced:
  assumes "contents_referenced d" "dl_recipients dl \<noteq> []"
  shows "contents_referenced (delivered canon now newid dl d)"
  unfolding contents_referenced_def list_all_iff list_ex_iff
proof
  let ?rows = "delivery_rows canon newid dl (enumerate 0 (dl_recipients dl))"
  fix c assume "c \<in> set (mail_contents (delivered canon now newid dl d))"
  then consider (Old) "c \<in> set (mail_contents d)" | (New) "mc_key c = cr_key (dl_content dl)"
    by (auto simp: delivered_def new_content_row_def split: if_splits)
  then show "\<exists>m \<in> set (messages (delivered canon now newid dl d)). ms_content m = mc_key c"
  proof cases
    case Old
    then show ?thesis using assms(1) by (auto simp: contents_referenced_def list_all_iff list_ex_iff delivered_def)
  next
    case New
    obtain r rs where "dl_recipients dl = r # rs" using assms(2) by (cases "dl_recipients dl") auto
    then have "\<exists>m \<in> set ?rows. ms_content m = mc_key c" using New by (simp add: delivery_rows_def)
    then show ?thesis by (auto simp: delivered_def)
  qed
qed

section \<open>The deletion queue\<close>

lemma ack_keeps:
  assumes "AcknowledgeContentDeletion k g flt d = (r, d')" "q \<in> set (deletion_queue d)" "\<not> (dq_key q = k \<and> dq_generation q = g)"
  shows "q \<in> set (deletion_queue d')"
proof -
  have "d' = d \<or> (\<exists>n. sql_acknowledge k g d = Inr (n, d'))"
    using assms(1)
    by (auto simp: AcknowledgeContentDeletion_def run_stmt_def split: if_splits fault.splits sum.splits prod.splits)
  with assms(2,3) show ?thesis by (auto simp: sql_acknowledge_def)
qed

text \<open>
  An orphaning event is never lost to a stale acknowledgement: if a content is queued again (its
  generation rises) after a worker listed it, then acknowledging the listed generation keeps the key
  on the queue, whatever the outcome of the acknowledgement statement.
\<close>

theorem stale_acknowledgement_keeps_work:
  assumes "q \<in> set (deletion_queue d)" and "cr_key ref = dq_key q"
    and "sql_enqueue_deletion now clock ref d = Inr ((), d1)"
    and "AcknowledgeContentDeletion (dq_key q) (dq_generation q) flt d1 = (r, d2)"
  shows "\<exists>q' \<in> set (deletion_queue d2). dq_key q' = dq_key q \<and> dq_generation q < dq_generation q'"
proof -
  have "list_ex (\<lambda>q. dq_key q = cr_key ref) (deletion_queue d)" using assms(1,2) by (auto simp: list_ex_iff)
  then have "d1 = d\<lparr>deletion_queue := map (requeue clock ref) (deletion_queue d)\<rparr>"
    using assms(3) by (simp add: sql_enqueue_deletion_def split: if_splits)
  then have "requeue clock ref q \<in> set (deletion_queue d1)" using assms(1) by simp
  moreover have g: "dq_generation (requeue clock ref q) = dq_generation q + 1" using assms(2) by (simp add: requeue_def)
  ultimately have "requeue clock ref q \<in> set (deletion_queue d2)" using ack_keeps [OF assms(4)] by simp
  with g show ?thesis by (intro bexI [of _ "requeue clock ref q"]) simp_all
qed

section \<open>Ownership\<close>

text \<open>
  Reading a message, its content or marking it as seen needs the message to belong to the given
  Inbox and that Inbox to be live: every other combination is answered with
  \<^verbatim>\<open>ErrMessageNotFound\<close> and changes nothing, so a foreign and a missing message look the same.
\<close>

theorem message_access_owned:
  assumes "canon inboxID = Some i" and "canon messageID = Some mid"
    and "\<nexists>m. m \<in> set (messages d) \<and> ms_id m = mid \<and> ms_inbox m = i \<and> live_inbox now i d \<noteq> None"
  shows "GetMessage canon now inboxID messageID NoFault d = Inl ErrMessageNotFound \<and>
    GetMessageContent canon now inboxID messageID NoFault d = Inl ErrMessageNotFound \<and>
    MarkMessageSeen canon now inboxID messageID seenAt NoFault d = (Inl ErrMessageNotFound, d)"
proof -
  have none: "owned_message now i mid d = None"
  proof (rule ccontr)
    assume "owned_message now i mid d \<noteq> None"
    then obtain m c where "owned_message now i mid d = Some (m, c)" by auto
    from owned_message_props [OF this] assms(3) show False by blast
  qed
  have "filter (\<lambda>m. ms_id m = mid \<and> ms_inbox m = i \<and> live_inbox now i d \<noteq> None) (messages d) = []"
    using assms(3) by (auto simp: filter_empty_conv)
  moreover have "map (\<lambda>m. if ms_id m = mid \<and> ms_inbox m = i \<and> live_inbox now i d \<noteq> None then f m else m) (messages d) = messages d" for f
    using assms(3) by (intro map_idI) auto
  ultimately have "sql_mark_seen now i mid seenAt d = Inr (0, d)" unfolding sql_mark_seen_def Let_def by simp
  then show ?thesis using assms(1,2) none
    by (simp add: GetMessage_def GetMessageContent_def MarkMessageSeen_def run_stmt_def with_uuids_def with_uuid_def query_def)
qed

section \<open>Concrete mailboxes\<close>

definition sample_mail_db :: db where
  "sample_mail_db = delivered sample_canon 20 sample_newid sample_delivery sample_db"

lemma sample_mail_db_wf: "db_wf sample_mail_db"
proof -
  have "content_row_ok (new_content_row 20 sample_key 5)" by (rule new_content_row_ok) (simp_all add: sample_key_valid)
  then show ?thesis
    by (simp add: sample_mail_db_def delivered_def db_wf_def wf_tables sample_db_def empty_db_def List.map_filter_simps
        find_content_def delivery_rows_def sample_delivery_def sample_canon_def new_content_row_def)
qed

lemma sample_mail_db_referenced: "contents_referenced sample_mail_db"
  unfolding sample_mail_db_def
  by (rule delivered_referenced) (simp_all add: contents_referenced_def sample_db_def empty_db_def sample_delivery_def)

theorem DeleteInbox_spec_witness:
  "contents_referenced (snd (DeleteInbox sample_canon 30 31 ''i1'' (\<lambda>_. NoFault) sample_mail_db))"
  using DeleteInbox_spec [OF sample_mail_db_wf sample_mail_db_referenced] by (metis prod.collapse)

theorem CleanupExpiredInboxes_spec_witness:
  "contents_referenced (snd (CleanupExpiredInboxes 200 201 True {} 10 (\<lambda>_. NoFault) sample_mail_db))"
  using CleanupExpiredInboxes_spec [OF sample_mail_db_wf sample_mail_db_referenced] by (metis prod.collapse)

theorem DeleteMessage_spec_witness:
  "contents_referenced (snd (DeleteMessage Some 30 31 ''i1'' [] (\<lambda>_. NoFault) sample_mail_db))"
  using DeleteMessage_spec [OF sample_mail_db_wf sample_mail_db_referenced] by (metis prod.collapse)

theorem stale_acknowledgement_keeps_work_witness:
  "\<exists>q' \<in> set (deletion_queue (snd (AcknowledgeContentDeletion sample_key 1 NoFault
      (empty_db\<lparr>deletion_queue := [\<lparr>dq_key = sample_key, dq_size = 5, dq_generation = 2, dq_enqueued = 8\<rparr>]\<rparr>)))).
     dq_key q' = sample_key \<and> 1 < dq_generation q'"
proof -
  let ?q = "\<lparr>dq_key = sample_key, dq_size = 5, dq_generation = 1, dq_enqueued = 7\<rparr>"
  have "sql_enqueue_deletion 8 8 \<lparr>cr_key = sample_key, cr_size = 5\<rparr> (empty_db\<lparr>deletion_queue := [?q]\<rparr>) =
      Inr ((), empty_db\<lparr>deletion_queue := [\<lparr>dq_key = sample_key, dq_size = 5, dq_generation = 2, dq_enqueued = 8\<rparr>]\<rparr>)"
    using sample_key_valid by (simp add: sql_enqueue_deletion_def requeue_def empty_db_def)
  from stale_acknowledgement_keeps_work [OF _ _ this, of ?q NoFault] show ?thesis
    by (simp add: empty_db_def) (metis prod.collapse)
qed

theorem message_access_owned_witness:
  "GetMessage Some 30 ''i1'' ''m'' NoFault sample_db = Inl ErrMessageNotFound"
  using message_access_owned [of Some "''i1''" "''i1''" "''m''" "''m''" sample_db 30 0]
  by (simp add: sample_db_def empty_db_def)

end
