(* ===== verification/Retention.thy ===== *)
theory Retention
  imports Message_Receiver Mailbox_Repository
begin

text \<open>
  \<^verbatim>\<open>internal/jobs/retention.go\<close>: the retention sweep deletes expired Inboxes in bounded transactions and
  then works off one page of the deletion queue, removing each object under the store's lifecycle lock after a
  fresh look at the database.
\<close>

section \<open>Configuration\<close>

record retention_options =
  rn_batchSize :: int
  rn_interval :: duration
  rn_timeout :: duration

definition NewRetentionSweeper :: "bool \<Rightarrow> bool \<Rightarrow> bool \<Rightarrow> int \<Rightarrow> retention_options result" where
  "NewRetentionSweeper hasRepository hasContent hasLogger batchSize =
     (if \<not> hasRepository \<or> \<not> hasContent \<or> \<not> hasLogger
      then Inl (OtherError ''retention repository, content store, and logger are required'')
      else if batchSize \<le> 0 \<or> batchSize > 1000 then Inl (OtherError ''retention batch size must be between 1 and 1000'')
      else Inr \<lparr>rn_batchSize = batchSize, rn_interval = 0, rn_timeout = 0\<rparr>)"

definition NewRetention :: "bool \<Rightarrow> bool \<Rightarrow> bool \<Rightarrow> retention_options \<Rightarrow> retention_options result" where
  "NewRetention hasRepository hasContent hasLogger options =
     (case NewRetentionSweeper hasRepository hasContent hasLogger (rn_batchSize options) of
        Inl e \<Rightarrow> Inl e
      | Inr retention \<Rightarrow>
          if rn_interval options \<le> 0 \<or> rn_timeout options \<le> 0 \<or> rn_timeout options \<ge> rn_interval options
          then Inl (OtherError ''retention timeout must be positive and shorter than interval'')
          else Inr (retention\<lparr>rn_interval := rn_interval options, rn_timeout := rn_timeout options\<rparr>))"

section \<open>The sweep\<close>

record cleanup_env =
  cl_now :: time
  cl_clock :: time
  cl_lock_free :: bool
  cl_skip :: "string set"
  cl_flt :: "nat \<Rightarrow> fault"

text \<open>What the outside decides during one sweep; the page's entries are answered by key.\<close>

record sweep_env =
  sw_cleanup :: "nat \<Rightarrow> cleanup_env"
  sw_ctx :: "nat \<Rightarrow> go_error option"
  sw_list :: fault
  sw_referenced :: "string \<Rightarrow> fault"
  sw_store :: "string \<Rightarrow> store_env"
  sw_ack :: "string \<Rightarrow> fault"
  sw_count :: fault

record retention_summary =
  rs_inboxes :: nat
  rs_content :: nat
  rs_pending :: nat

definition cleanup_call :: "cleanup_env \<Rightarrow> int \<Rightarrow> db \<Rightarrow> (nat \<times> content_ref list) result \<times> db" where
  "cleanup_call e batch d = CleanupExpiredInboxes (cl_now e) (cl_clock e) (cl_lock_free e) (cl_skip e) batch (cl_flt e) d"

lemma orphan_loop_inboxes:
  "orphan_loop now clock refs flt (n, d) = (Inr os, n', d') \<Longrightarrow> inboxes d' = inboxes d"
proof (induction refs arbitrary: n d os)
  case (Cons r rs)
  then show ?case
    by (auto simp: tx_simps enqueueContentDeletion_def sql_delete_unreferenced_def sql_enqueue_deletion_def Let_def
        simp del: stmt.simps split: if_splits)
qed (simp add: tx_return_eq)

text \<open>A full batch takes Inboxes away, so the loop over batches ends.\<close>

lemma cleanup_call_shrinks:
  assumes "cleanup_call e batch d = (Inr (n, os), d')" and "\<not> int n < batch"
  shows "length (inboxes d') < length (inboxes d)"
proof -
  from assms have b: "0 < batch" and tx: "run_tx (Cleanup_tx (cl_now e) (cl_clock e) (cl_lock_free e) (cl_skip e) (nat batch)) (cl_flt e) d = (Inr (n, os), d')"
    by (auto simp: cleanup_call_def CleanupExpiredInboxes_def split: if_splits)
  have n: "0 < n" using b assms(2) by linarith
  obtain k where "Cleanup_tx (cl_now e) (cl_clock e) (cl_lock_free e) (cl_skip e) (nat batch) (cl_flt e) (1, d) = (Inr (n, os), k, d')"
    using run_tx_Inr [OF tx] by blast
  then obtain ids m refs d1 m' where q: "sql_delete_inboxes (set ids) d = Inr (n, d1)"
    and l: "orphan_loop (cl_now e) (cl_clock e) refs (cl_flt e) (m, d1) = (Inr os, m', d')"
    using n by (auto simp: Cleanup_tx_def tx_simps simp del: stmt.simps split: if_splits)
  have "inboxes d' = filter (\<lambda>r. ib_id r \<notin> set ids) (inboxes d)" "n = length (filter (\<lambda>r. ib_id r \<in> set ids) (inboxes d))"
    using orphan_loop_inboxes [OF l] q by (auto simp: sql_delete_inboxes_def Let_def)
  moreover have "length (inboxes d) = length (filter (\<lambda>r. ib_id r \<in> set ids) (inboxes d)) + length (filter (\<lambda>r. ib_id r \<notin> set ids) (inboxes d))"
    by (rule sum_length_filter_compl [symmetric])
  ultimately show ?thesis using n by simp
qed

function sweep_cleanup :: "sweep_env \<Rightarrow> int \<Rightarrow> nat \<Rightarrow> nat \<Rightarrow> db \<Rightarrow> (nat \<times> go_error option) \<times> db" where
  "sweep_cleanup env batch i gone d =
     (case cleanup_call (sw_cleanup env i) batch d of
        (Inl e, d') \<Rightarrow> ((gone, Some e), d')
      | (Inr (deleted, os), d') \<Rightarrow>
          if int deleted < batch then ((gone + deleted, None), d')
          else case sw_ctx env i of
              Some e \<Rightarrow> ((gone + deleted, Some e), d')
            | None \<Rightarrow> sweep_cleanup env batch (Suc i) (gone + deleted) d')"
  by pat_completeness auto

termination
  by (relation "measure (\<lambda>(env, batch, i, gone, d). length (inboxes d))") (auto, metis cleanup_call_shrinks)

declare sweep_cleanup.simps [simp del]

fun sweep_page :: "sweep_env \<Rightarrow> content_deletion list \<Rightarrow> nat \<Rightarrow> go_error list \<Rightarrow> store \<times> db \<Rightarrow> (nat \<times> go_error list) \<times> store \<times> db" where
  "sweep_page env [] count errs (s, d) = ((count, errs), s, d)"
| "sweep_page env (x # xs) count errs (s, d) =
     (let key = cr_key (cd_content x) in
      case DeleteUnreferenced (sw_store env key) (cd_content x) (Some (\<lambda>k. ContentReferenced k (sw_referenced env key) d)) s of
        (Inl e, s') \<Rightarrow> sweep_page env xs count (errs @ [e]) (s', d)
      | (Inr deleted, s') \<Rightarrow>
          (case AcknowledgeContentDeletion key (cd_generation x) (sw_ack env key) d of
             (Inl e, d') \<Rightarrow> sweep_page env xs count (errs @ [e]) (s', d')
           | (Inr acknowledged, d') \<Rightarrow>
               sweep_page env xs (if deleted \<and> acknowledged then Suc count else count) errs (s', d')))"

text \<open>The joined error is the list of its parts; an empty list is no error.\<close>

definition Sweep :: "sweep_env \<Rightarrow> int \<Rightarrow> store \<times> db \<Rightarrow> (retention_summary \<times> go_error list) \<times> store \<times> db" where
  "Sweep env batch w =
     (case w of (s, d) \<Rightarrow>
       (case sweep_cleanup env batch 0 0 d of
          ((gone, Some e), d1) \<Rightarrow> ((\<lparr>rs_inboxes = gone, rs_content = 0, rs_pending = 0\<rparr>, [e]), s, d1)
        | ((gone, None), d1) \<Rightarrow>
            (case ListContentDeletions batch (sw_list env) d1 of
               Inl e \<Rightarrow> ((\<lparr>rs_inboxes = gone, rs_content = 0, rs_pending = 0\<rparr>, [e]), s, d1)
             | Inr deletions \<Rightarrow>
                 (case sweep_page env deletions 0 [] (s, d1) of
                    ((count, errs), s', d') \<Rightarrow>
                      (case CountContentDeletions (sw_count env) d' of
                         Inl e \<Rightarrow> ((\<lparr>rs_inboxes = gone, rs_content = count, rs_pending = 0\<rparr>, errs @ [e]), s', d')
                       | Inr pending \<Rightarrow> ((\<lparr>rs_inboxes = gone, rs_content = count, rs_pending = pending\<rparr>, errs), s', d'))))))"

text \<open>The observation \<^verbatim>\<open>runSweep\<close> makes of a sweep: the result label and the counts.\<close>

definition runSweep :: "sweep_env \<Rightarrow> int \<Rightarrow> bool \<Rightarrow> store \<times> db \<Rightarrow> (string \<times> retention_summary) option \<times> store \<times> db" where
  "runSweep env batch hasMetrics w =
     (case Sweep env batch w of
        ((summary, errs), w') \<Rightarrow>
          (if \<not> hasMetrics then None else Some (if errs \<noteq> [] then ''error'' else ''success'', summary), w'))"

section \<open>Safety of the sweep\<close>

definition mail_state_ok :: "(bytes \<Rightarrow> bytes) \<Rightarrow> store \<Rightarrow> db \<Rightarrow> bool" where
  "mail_state_ok sha256 s d \<longleftrightarrow> mail_ok sha256 s d \<and> contents_referenced d"

lemma contents_subset_stored:
  "contents_stored sha256 s d \<Longrightarrow> set (mail_contents d') \<subseteq> set (mail_contents d) \<Longrightarrow> contents_stored sha256 s d'"
  by (auto simp: contents_stored_def)

lemma mail_state_db:
  assumes "mail_state_ok sha256 s d" "db_wf d'" "contents_referenced d'" "set (mail_contents d') \<subseteq> set (mail_contents d)"
  shows "mail_state_ok sha256 s d'"
  using assms contents_subset_stored by (auto simp: mail_state_ok_def mail_ok_def)

lemma cleanup_keeps:
  assumes "mail_state_ok sha256 s d" "CleanupExpiredInboxes now clock lock_free skip batch flt d = (r, d')"
  shows "mail_state_ok sha256 s d'"
proof -
  have d: "db_wf d" "contents_referenced d" using assms(1) by (auto simp: mail_state_ok_def mail_ok_def)
  from CleanupExpiredInboxes_effect [OF d assms(2)] have "db_wf d'" "contents_referenced d'"
    "d' = d \<or> (\<exists>ids os. purged (set ids) os d d')" by blast+
  then show ?thesis using assms(1) by (intro mail_state_db [OF assms(1)]) (auto simp: purged_def)
qed

lemma sweep_cleanup_keeps:
  "mail_state_ok sha256 s d \<Longrightarrow> sweep_cleanup env batch i gone d = (r, d') \<Longrightarrow> mail_state_ok sha256 s d'"
proof (induction env batch i gone d rule: sweep_cleanup.induct)
  case (1 env batch i gone d)
  obtain q d1 where c: "cleanup_call (sw_cleanup env i) batch d = (q, d1)" by fastforce
  then have ok: "mail_state_ok sha256 s d1" using cleanup_keeps "1.prems"(1) by (auto simp: cleanup_call_def)
  show ?case
  proof (cases q)
    case (Inl e)
    with "1.prems"(2) c ok show ?thesis by (subst (asm) sweep_cleanup.simps) simp
  next
    case (Inr p)
    obtain n os where p: "p = (n, os)" by fastforce
    note unf = "1.prems"(2) [unfolded sweep_cleanup.simps [of env batch i gone d]]
    show ?thesis using unf c Inr p ok "1.IH" [OF c [symmetric] _ p [symmetric]]
      by (auto split: if_splits option.splits)
  qed
qed

lemma ContentReferenced_False: "ContentReferenced k flt d = Inr False \<Longrightarrow> k \<notin> mc_key ` set (mail_contents d)"
  by (auto simp: ContentReferenced_def run_stmt_def query_def find_content_def find_None_iff split: fault.splits)

lemma DeleteUnreferenced_keeps:
  assumes "mail_state_ok sha256 s d"
    and "DeleteUnreferenced env ref (Some (\<lambda>k. ContentReferenced k flt d)) s = (r, s')"
  shows "mail_state_ok sha256 s' d"
proof -
  consider "s' = s" | q where "ContentReferenced (cr_key ref) flt d = Inr False" "deleteLocked env ref s = (q, s')"
    using assms(2) by (auto simp: DeleteUnreferenced_def split: sum.splits if_splits prod.splits)
  then show ?thesis
  proof cases
    case 1
    with assms(1) show ?thesis by simp
  next
    case (2 q)
    note k = deleteLocked_keeps [OF 2(2)]
    have "durable_ref sha256 s' (mc_key c) (mc_size c)" if "c \<in> set (mail_contents d)" for c
    proof -
      have "durable_ref sha256 s (mc_key c) (mc_size c)"
        using assms(1) that by (auto simp: mail_state_ok_def mail_ok_def contents_stored_def)
      moreover have "mc_key c \<noteq> cr_key ref" using that ContentReferenced_False [OF 2(1)] by (metis imageI)
      ultimately show ?thesis using k(6) by (auto simp: durable_ref_def)
    qed
    then show ?thesis using assms(1) k(1) by (auto simp: mail_state_ok_def mail_ok_def contents_stored_def)
  qed
qed

lemma acknowledge_effect:
  assumes "AcknowledgeContentDeletion k g flt d = (r, d')"
  shows "d' = d \<or> d' = d\<lparr>deletion_queue := filter (\<lambda>q. \<not> (dq_key q = k \<and> dq_generation q = g)) (deletion_queue d)\<rparr>"
  using assms by (auto simp: AcknowledgeContentDeletion_def run_stmt_def sql_acknowledge_def split: if_splits fault.splits)

lemma acknowledge_keeps:
  assumes "mail_state_ok sha256 s d" "AcknowledgeContentDeletion k g flt d = (r, d')"
  shows "mail_state_ok sha256 s d'"
proof -
  let ?d = "d\<lparr>deletion_queue := filter (\<lambda>q. \<not> (dq_key q = k \<and> dq_generation q = g)) (deletion_queue d)\<rparr>"
  have "db_wf d" using assms(1) by (simp add: mail_state_ok_def mail_ok_def)
  then have "db_wf ?d"
    by (intro db_wf_queue) (auto simp: db_wf_def wf_queue_def list_all_iff distinct_map inj_on_def)
  then have "mail_state_ok sha256 s ?d"
    using assms(1) by (auto simp: mail_state_ok_def mail_ok_def contents_stored_def contents_referenced_def)
  with assms(1) acknowledge_effect [OF assms(2)] show ?thesis by auto
qed

lemma sweep_page_keeps:
  "mail_state_ok sha256 s d \<Longrightarrow> sweep_page env xs count errs (s, d) = (r, s', d') \<Longrightarrow> mail_state_ok sha256 s' d'"
proof (induction xs arbitrary: count errs s d)
  case (Cons x xs)
  let ?key = "cr_key (cd_content x)"
  obtain q s1 where del: "DeleteUnreferenced (sw_store env ?key) (cd_content x) (Some (\<lambda>k. ContentReferenced k (sw_referenced env ?key) d)) s = (q, s1)"
    by fastforce
  obtain a d1 where ack: "AcknowledgeContentDeletion ?key (cd_generation x) (sw_ack env ?key) d = (a, d1)" by fastforce
  note ok1 = DeleteUnreferenced_keeps [OF Cons.prems(1) del]
  note ok2 = acknowledge_keeps [OF ok1 ack]
  show ?case using Cons.prems(2) del ack Cons.IH [OF ok1] Cons.IH [OF ok2]
    by (auto simp: Let_def split: sum.splits)
qed simp

text \<open>
  C17. A retention sweep never takes content away from a message: under any failures of the database and the disk,
  after \<^verbatim>\<open>Sweep\<close> every remaining content row still has its object durably in the store and is still
  referenced by a message, and the schema constraints hold.
\<close>

theorem Sweep_keeps_mail:
  assumes "mail_state_ok sha256 s d" and "Sweep env batch (s, d) = (r, s', d')"
  shows "mail_state_ok sha256 s' d'"
proof -
  obtain t e d1 where c: "sweep_cleanup env batch 0 0 d = ((t, e), d1)" by (metis prod.exhaust)
  note ok = sweep_cleanup_keeps [OF assms(1) c]
  show ?thesis using assms(2) c ok sweep_page_keeps [OF ok]
    by (auto simp: Sweep_def split: option.splits sum.splits prod.splits)
qed

section \<open>Progress of the sweep\<close>

lemma sweep_cleanup_done:
  assumes "db_wf d" "contents_referenced d" "\<And>i. cl_lock_free (sw_cleanup env i) \<and> cl_skip (sw_cleanup env i) = {} \<and> cl_now (sw_cleanup env i) = now"
    and "sweep_cleanup env batch i gone d = ((n, None), d1)"
  shows "\<forall>row \<in> set (inboxes d1). now < ib_expires row"
  using assms(1,2,4,3)
proof (induction env batch i gone d rule: sweep_cleanup.induct)
  case (1 env batch i gone d)
  obtain q d2 where c: "cleanup_call (sw_cleanup env i) batch d = (q, d2)" by fastforce
  note e = CleanupExpiredInboxes_effect [OF "1.prems"(1,2) c [unfolded cleanup_call_def]]
  note unf = "1.prems"(3) [unfolded sweep_cleanup.simps [of env batch i gone d]]
  show ?case
  proof (cases q)
    case (Inl err)
    with unf c show ?thesis by simp
  next
    case (Inr p)
    obtain m os where p: "p = (m, os)" by fastforce
    show ?thesis
    proof (cases "int m < batch")
      case True
      then have "d1 = d2" using unf c Inr p by simp
      with e Inr p True "1.prems"(4) [of i] show ?thesis by force
    next
      case False
      then have "sweep_cleanup env batch (Suc i) (gone + m) d2 = ((n, None), d1)"
        using unf c Inr p by (auto split: option.splits)
      moreover have "sw_ctx env i = None" using unf c Inr p False by (auto split: option.splits)
      ultimately show ?thesis using "1.IH" [OF c [symmetric] Inr p [symmetric] False] e "1.prems"(4) by blast
    qed
  qed
qed

lemma sweep_cleanup_wf:
  assumes "db_wf d" "contents_referenced d" "sweep_cleanup env batch i gone d = (r, d1)"
  shows "db_wf d1"
  using assms
proof (induction env batch i gone d rule: sweep_cleanup.induct)
  case (1 env batch i gone d)
  obtain q d2 where c: "cleanup_call (sw_cleanup env i) batch d = (q, d2)" by fastforce
  note e = CleanupExpiredInboxes_effect [OF "1.prems"(1,2) c [unfolded cleanup_call_def]]
  note unf = "1.prems"(3) [unfolded sweep_cleanup.simps [of env batch i gone d]]
  show ?case
  proof (cases q)
    case (Inr p)
    obtain m os where p: "p = (m, os)" by fastforce
    show ?thesis using unf c Inr p e "1.IH" [OF c [symmetric] Inr p [symmetric]]
      by (auto split: if_splits option.splits)
  qed (use unf c e in simp)
qed

definition quiet_sweep :: "sweep_env \<Rightarrow> bool" where
  "quiet_sweep env \<longleftrightarrow> sw_list env = NoFault \<and> sw_count env = NoFault \<and> sw_referenced env = (\<lambda>_. NoFault) \<and> sw_ack env = (\<lambda>_. NoFault) \<and>
     (\<forall>k. sv_flt (sw_store env k) = (\<lambda>_. None))"

lemma DeleteUnreferenced_quiet:
  assumes "sv_flt env = (\<lambda>_. None)" "key_valid (cr_key ref)"
  shows "\<exists>b s'. DeleteUnreferenced env ref (Some (\<lambda>k. ContentReferenced k NoFault d)) s = (Inr b, s') \<and>
     (cr_key ref \<notin> mc_key ` set (mail_contents d) \<longrightarrow> b \<and> st_objects s' (object_path (cr_key ref)) = None) \<and>
     (\<forall>p. st_objects s p = None \<longrightarrow> st_objects s' p = None)"
proof (cases "cr_key ref \<in> mc_key ` set (mail_contents d)")
  case True
  then have "find_content d (cr_key ref) \<noteq> None" unfolding find_content_def by (metis find_keyed_None)
  then show ?thesis using True
    by (auto simp: DeleteUnreferenced_def ContentReferenced_def run_stmt_def query_def)
next
  case False
  then have "find_content d (cr_key ref) = None" unfolding find_content_def by (metis find_keyed_None)
  then show ?thesis using assms False
    by (auto simp: DeleteUnreferenced_def ContentReferenced_def run_stmt_def query_def deleteLocked_def
        relativePathForKey_valid Let_def sync_objects_def split: option.splits)
qed

definition queue_page :: "int \<Rightarrow> db \<Rightarrow> deletion_row list" where
  "queue_page batch d = take (nat batch) (sort_key (\<lambda>q. (dq_enqueued q, dq_key q)) (deletion_queue d))"

lemma queue_page_subset: "set (queue_page batch d) \<subseteq> set (deletion_queue d)"
  unfolding queue_page_def by (metis set_sort set_take_subset)

lemma sweep_page_clears:
  assumes "quiet_sweep env"
  shows "(\<forall>q \<in> set qs. 0 < dq_generation q \<and> key_valid (dq_key q)) \<Longrightarrow>
    \<exists>n s' d'. sweep_page env (map deletion_of qs) count errs (s, d) = ((n, errs), s', d') \<and>
      d' = d\<lparr>deletion_queue := filter (\<lambda>x. \<forall>q \<in> set qs. \<not> (dq_key x = dq_key q \<and> dq_generation x = dq_generation q)) (deletion_queue d)\<rparr> \<and>
      (\<forall>q \<in> set qs. dq_key q \<notin> mc_key ` set (mail_contents d) \<longrightarrow> st_objects s' (object_path (dq_key q)) = None) \<and>
      (\<forall>p. st_objects s p = None \<longrightarrow> st_objects s' p = None)"
proof (induction qs arbitrary: count s d)
  case (Cons q qs)
  let ?ref = "\<lparr>cr_key = dq_key q, cr_size = dq_size q\<rparr>"
  have q: "0 < dq_generation q" "key_valid (cr_key ?ref)" using Cons.prems by auto
  have e: "sv_flt (sw_store env k) = (\<lambda>_. None)" "sw_referenced env k = NoFault" "sw_ack env k = NoFault" for k
    using assms by (simp_all add: quiet_sweep_def)
  from DeleteUnreferenced_quiet [OF e(1) q(2), of "dq_key q" d s] obtain b s1 where
    del: "DeleteUnreferenced (sw_store env (dq_key q)) ?ref (Some (\<lambda>k. ContentReferenced k NoFault d)) s = (Inr b, s1)"
    and gone: "dq_key q \<notin> mc_key ` set (mail_contents d) \<longrightarrow> st_objects s1 (object_path (dq_key q)) = None"
    and mono: "\<forall>p. st_objects s p = None \<longrightarrow> st_objects s1 p = None" by auto
  let ?d1 = "d\<lparr>deletion_queue := filter (\<lambda>x. \<not> (dq_key x = dq_key q \<and> dq_generation x = dq_generation q)) (deletion_queue d)\<rparr>"
  obtain a where ack: "AcknowledgeContentDeletion (dq_key q) (dq_generation q) NoFault d = (Inr a, ?d1)"
    using q(1) by (simp add: AcknowledgeContentDeletion_def run_stmt_def sql_acknowledge_def)
  from Cons.IH [of "if b \<and> a then Suc count else count" s1 ?d1] Cons.prems obtain n s' d' where
    r: "sweep_page env (map deletion_of qs) (if b \<and> a then Suc count else count) errs (s1, ?d1) = ((n, errs), s', d')"
    and d': "d' = ?d1\<lparr>deletion_queue := filter (\<lambda>x. \<forall>q \<in> set qs. \<not> (dq_key x = dq_key q \<and> dq_generation x = dq_generation q)) (deletion_queue ?d1)\<rparr>"
    and rest: "\<forall>q \<in> set qs. dq_key q \<notin> mc_key ` set (mail_contents d) \<longrightarrow> st_objects s' (object_path (dq_key q)) = None"
      "\<forall>p. st_objects s1 p = None \<longrightarrow> st_objects s' p = None" by auto
  have "sweep_page env (map deletion_of (q # qs)) count errs (s, d) = ((n, errs), s', d')"
    using r del ack e by (simp add: deletion_of_def)
  moreover have "d' = d\<lparr>deletion_queue := filter (\<lambda>x. \<forall>q \<in> set (q # qs). \<not> (dq_key x = dq_key q \<and> dq_generation x = dq_generation q)) (deletion_queue d)\<rparr>"
    unfolding d' by (simp add: conj_commute)
  ultimately show ?case using rest gone mono by (intro exI [of _ n] exI [of _ s'] exI [of _ d']) auto
qed simp

lemma queue_page_filter:
  assumes "db_wf d"
  shows "filter (\<lambda>x. \<forall>q \<in> set (queue_page batch d). \<not> (dq_key x = dq_key q \<and> dq_generation x = dq_generation q)) (deletion_queue d) =
    filter (\<lambda>x. x \<notin> set (queue_page batch d)) (deletion_queue d)"
proof (rule filter_cong [OF refl])
  fix x assume x: "x \<in> set (deletion_queue d)"
  have "distinct (map dq_key (deletion_queue d))" using assms by (simp add: db_wf_def wf_queue_def)
  then have "q = x" if "q \<in> set (queue_page batch d)" "dq_key x = dq_key q" for q
    using that x queue_page_subset [of batch d] by (auto simp: distinct_map inj_on_def)
  then show "(\<forall>q \<in> set (queue_page batch d). \<not> (dq_key x = dq_key q \<and> dq_generation x = dq_generation q)) \<longleftrightarrow> x \<notin> set (queue_page batch d)"
    by blast
qed

lemma ListContentDeletions_page:
  "0 < batch \<Longrightarrow> batch \<le> 1000 \<Longrightarrow> ListContentDeletions batch NoFault d = Inr (map deletion_of (queue_page batch d))"
  by (simp add: ListContentDeletions_def run_stmt_def query_def queue_page_def)

text \<open>
  C28. A sweep that is not disturbed makes progress: once its clean-up phase is through, no expired Inbox is left, exactly the
  first page of the deletion queue (in order of enqueueing) has been worked off and acknowledged, the objects of
  that page which no content row names are gone from the store, and the number reported as pending is the length of
  the remaining queue.
\<close>

theorem Sweep_progress:
  assumes "db_wf d" "contents_referenced d" "0 < batch" "batch \<le> 1000" "quiet_sweep env"
    and "\<And>i. cl_lock_free (sw_cleanup env i) \<and> cl_skip (sw_cleanup env i) = {} \<and> cl_now (sw_cleanup env i) = now"
    and "sweep_cleanup env batch 0 0 d = ((gone, None), d1)"
  shows "\<exists>n s' d'. Sweep env batch (s, d) = ((\<lparr>rs_inboxes = gone, rs_content = n, rs_pending = length (deletion_queue d')\<rparr>, []), s', d') \<and>
    (\<forall>row \<in> set (inboxes d'). now < ib_expires row) \<and>
    deletion_queue d' = filter (\<lambda>q. q \<notin> set (queue_page batch d1)) (deletion_queue d1) \<and>
    (\<forall>q \<in> set (queue_page batch d1). dq_key q \<notin> mc_key ` set (mail_contents d') \<longrightarrow> st_objects s' (object_path (dq_key q)) = None)"
proof -
  have wf: "db_wf d1" by (rule sweep_cleanup_wf [OF assms(1,2,7)])
  then have "\<forall>q \<in> set (queue_page batch d1). 0 < dq_generation q \<and> key_valid (dq_key q)"
    using queue_page_subset [of batch d1] by (auto simp: db_wf_def wf_queue_def list_all_iff)
  from sweep_page_clears [OF assms(5) this, of 0 "[]" s d1] obtain n s' d' where
    p: "sweep_page env (map deletion_of (queue_page batch d1)) 0 [] (s, d1) = ((n, []), s', d')"
    and d': "d' = d1\<lparr>deletion_queue := filter (\<lambda>q. q \<notin> set (queue_page batch d1)) (deletion_queue d1)\<rparr>"
    and o: "\<forall>q \<in> set (queue_page batch d1). dq_key q \<notin> mc_key ` set (mail_contents d1) \<longrightarrow> st_objects s' (object_path (dq_key q)) = None"
    unfolding queue_page_filter [OF wf] by blast
  have "Sweep env batch (s, d) = ((\<lparr>rs_inboxes = gone, rs_content = n, rs_pending = length (deletion_queue d')\<rparr>, []), s', d')"
    using assms(3,4,5,7) p
    by (simp add: Sweep_def ListContentDeletions_page CountContentDeletions_def run_stmt_def query_def quiet_sweep_def)
  moreover have "\<forall>row \<in> set (inboxes d'). now < ib_expires row"
    using sweep_cleanup_done [OF assms(1,2,6,7)] by (simp add: d')
  ultimately show ?thesis using d' o by auto
qed

lemma sweep_page_stuck:
  assumes "\<And>q. q \<in> set qs \<Longrightarrow> \<exists>e. DeleteUnreferenced (sw_store env (dq_key q)) \<lparr>cr_key = dq_key q, cr_size = dq_size q\<rparr>
      (Some (\<lambda>k. ContentReferenced k (sw_referenced env (dq_key q)) d)) s = (Inl e, s)"
  shows "\<exists>errs'. sweep_page env (map deletion_of qs) count errs (s, d) = ((count, errs @ errs'), s, d) \<and> length errs' = length qs"
  using assms
proof (induction qs arbitrary: errs)
  case (Cons q qs)
  from Cons.prems [of q] obtain e where e: "DeleteUnreferenced (sw_store env (dq_key q)) \<lparr>cr_key = dq_key q, cr_size = dq_size q\<rparr>
      (Some (\<lambda>k. ContentReferenced k (sw_referenced env (dq_key q)) d)) s = (Inl e, s)" by auto
  from Cons.IH [of "errs @ [e]"] Cons.prems obtain errs' where
    "sweep_page env (map deletion_of qs) count (errs @ [e]) (s, d) = ((count, (errs @ [e]) @ errs'), s, d)" "length errs' = length qs" by auto
  then show ?case using e by (intro exI [of _ "e # errs'"]) (simp add: deletion_of_def [of q])
qed simp

text \<open>
  Objects that cannot be deleted starve the rest of the queue: if every object of the first page fails, the sweep
  leaves store, database and queue exactly as they were, so the next sweep meets the same page again and nothing
  behind it is ever tried, however many objects could be deleted there.
\<close>

theorem Sweep_starves:
  assumes "0 < batch" "batch \<le> 1000" "sw_list env = NoFault" "sw_count env = NoFault" "sweep_cleanup env batch 0 0 d = ((0, None), d)"
    and "\<And>q. q \<in> set (queue_page batch d) \<Longrightarrow> \<exists>e. DeleteUnreferenced (sw_store env (dq_key q)) \<lparr>cr_key = dq_key q, cr_size = dq_size q\<rparr>
      (Some (\<lambda>k. ContentReferenced k (sw_referenced env (dq_key q)) d)) s = (Inl e, s)"
  shows "\<exists>errs. ((\<lambda>w. snd (Sweep env batch w)) ^^ n) (s, d) = (s, d) \<and>
    Sweep env batch (s, d) = ((\<lparr>rs_inboxes = 0, rs_content = 0, rs_pending = length (deletion_queue d)\<rparr>, errs), s, d)"
proof -
  from sweep_page_stuck [OF assms(6), of "queue_page batch d" 0 "[]"] obtain errs where
    "sweep_page env (map deletion_of (queue_page batch d)) 0 [] (s, d) = ((0, errs), s, d)" by auto
  then have "Sweep env batch (s, d) = ((\<lparr>rs_inboxes = 0, rs_content = 0, rs_pending = length (deletion_queue d)\<rparr>, errs), s, d)"
    using assms(1-5) by (simp add: Sweep_def ListContentDeletions_page CountContentDeletions_def run_stmt_def query_def)
  moreover from this have "((\<lambda>w. snd (Sweep env batch w)) ^^ n) (s, d) = (s, d)" by (induction n) auto
  ultimately show ?thesis by blast
qed

section \<open>Concrete instances\<close>

definition sample_sweep_env :: "(store_op \<Rightarrow> go_error option) \<Rightarrow> sweep_env" where
  "sample_sweep_env flt = \<lparr>sw_cleanup = (\<lambda>_. \<lparr>cl_now = 50, cl_clock = 50, cl_lock_free = True, cl_skip = {}, cl_flt = (\<lambda>_. NoFault)\<rparr>),
     sw_ctx = (\<lambda>_. None), sw_list = NoFault, sw_referenced = (\<lambda>_. NoFault),
     sw_store = (\<lambda>_. (sample_senv ''2'')\<lparr>sv_flt := flt\<rparr>), sw_ack = (\<lambda>_. NoFault), sw_count = NoFault\<rparr>"

definition sample_queue_db :: db where
  "sample_queue_db = empty_db\<lparr>deletion_queue := [\<lparr>dq_key = sample_key, dq_size = 5, dq_generation = 1, dq_enqueued = 7\<rparr>]\<rparr>"

lemma sample_queue_db_ok: "db_wf sample_queue_db" "contents_referenced sample_queue_db"
  using sample_key_valid
  by (simp_all add: db_wf_def wf_tables sample_queue_db_def empty_db_def List.map_filter_simps contents_referenced_def)

lemma sample_sweep_cleanup: "sweep_cleanup (sample_sweep_env flt) 10 0 0 sample_queue_db = ((0, None), sample_queue_db)"
  by (subst sweep_cleanup.simps)
    (simp add: cleanup_call_def sample_sweep_env_def CleanupExpiredInboxes_def run_tx_def Cleanup_tx_def tx_bind_def query_def
      expired_batch_def sample_queue_db_def empty_db_def tx_return_def)

theorem Sweep_keeps_mail_witness:
  "mail_state_ok sample_sha (fst (snd (Sweep (sample_sweep_env (\<lambda>_. None)) 10 (sample_store, sample_queue_db))))
     (snd (snd (Sweep (sample_sweep_env (\<lambda>_. None)) 10 (sample_store, sample_queue_db))))"
proof -
  have "mail_state_ok sample_sha sample_store sample_queue_db"
    using sample_queue_db_ok by (simp add: mail_state_ok_def mail_ok_def contents_stored_def store_ok_def sample_store_def
        sample_queue_db_def empty_db_def)
  from Sweep_keeps_mail [OF this, of "sample_sweep_env (\<lambda>_. None)" 10] show ?thesis by (metis prod.collapse)
qed

theorem Sweep_progress_witness:
  "\<exists>n s' d'. Sweep (sample_sweep_env (\<lambda>_. None)) 10 (sample_store, sample_queue_db) =
     ((\<lparr>rs_inboxes = 0, rs_content = n, rs_pending = 0\<rparr>, []), s', d')"
proof -
  have "quiet_sweep (sample_sweep_env (\<lambda>_. None))" by (simp add: quiet_sweep_def sample_sweep_env_def)
  from Sweep_progress [OF sample_queue_db_ok _ _ this _ sample_sweep_cleanup, of 50 sample_store]
  show ?thesis by (auto simp: sample_sweep_env_def queue_page_def sample_queue_db_def empty_db_def)
qed

theorem Sweep_starves_witness:
  "\<exists>errs. Sweep (sample_sweep_env (\<lambda>_. Some (OtherError ''EIO''))) 10 (sample_store, sample_queue_db) =
     ((\<lparr>rs_inboxes = 0, rs_content = 0, rs_pending = 1\<rparr>, errs), sample_store, sample_queue_db)"
proof -
  let ?env = "sample_sweep_env (\<lambda>_. Some (OtherError ''EIO''))"
  have "\<exists>e. DeleteUnreferenced (sw_store ?env (dq_key q)) \<lparr>cr_key = dq_key q, cr_size = dq_size q\<rparr>
      (Some (\<lambda>k. ContentReferenced k (sw_referenced ?env (dq_key q)) sample_queue_db)) sample_store = (Inl e, sample_store)"
    if "q \<in> set (queue_page 10 sample_queue_db)" for q
    using that sample_key_valid
    by (simp add: queue_page_def sample_queue_db_def empty_db_def DeleteUnreferenced_def ContentReferenced_def run_stmt_def query_def
        find_content_def sample_sweep_env_def deleteLocked_def relativePathForKey_valid)
  from Sweep_starves [OF _ _ _ _ sample_sweep_cleanup this, of 1]
  show ?thesis by (auto simp: sample_sweep_env_def sample_queue_db_def)
qed

end
