(* ===== verification/Content_Lifecycle.thy ===== *)
theory Content_Lifecycle
  imports Retention
begin

text \<open>
  The life of raw content across the components: deliveries, deletions, the retention sweep and crashes as
  the steps of one transition system over store and database.

  Writes run concurrently, because \<^verbatim>\<open>PutLeased\<close> holds \<^verbatim>\<open>lifecycleMu\<close> only for reading: the four stages of \<^verbatim>\<open>put\<close>
  (staging, preparing the object directory, linking, finishing) are separate steps, and any number of writers can be
  between them. Staging is one step because it touches only the writer's own file and, under \<^verbatim>\<open>capacityMu\<close>, the
  reservation. The other steps are a transaction each, taken one after the other; the removal of a queued object, possible only while no
  lease is held because it takes \<^verbatim>\<open>lifecycleMu\<close> for writing; an acknowledgement; pruning; and a crash at any point.
  Each writer has its own environment, which decides what fails.

  Two fields are not in the program: \<open>lc_unsynced\<close> has the objects whose writer failed to sync the directory after
  linking, and \<open>lc_lost\<close> those that a crash found linked and not durable.
\<close>

datatype phase =
    Staged bytes
  | Prepared string bytes
  | LinkTried string bytes link_result
  | Stored delivery
  | Finished delivery

record lifecycle =
  lc_store :: store
  lc_db :: db
  lc_flight :: "(store_env \<times> phase) list"
  lc_unsynced :: "string list"
  lc_lost :: "string list"

fun pending_link :: "store_env \<times> phase \<Rightarrow> string list" where
  "pending_link (env, LinkTried p content Linked) = [p]"
| "pending_link _ = []"

text \<open>The objects that some writer has linked and not yet, or not successfully, synced.\<close>

definition unsettled :: "lifecycle \<Rightarrow> string list" where
  "unsettled x = lc_unsynced x @ concat (map pending_link (lc_flight x))"

definition drop_nth :: "nat \<Rightarrow> 'a list \<Rightarrow> 'a list" where
  "drop_nth i xs = take i xs @ drop (Suc i) xs"

definition take_lease :: "store \<Rightarrow> store" where
  "take_lease s = s\<lparr>st_leases := Suc (st_leases s)\<rparr>"

definition staged_file :: "store_env \<Rightarrow> bytes \<Rightarrow> store \<Rightarrow> bool" where
  "staged_file env content s \<longleftrightarrow> (\<exists>e \<in> set (st_staging s). se_name e = stage_name env \<and> se_data e = content)"

inductive lifecycle_step :: "(bytes \<Rightarrow> bytes) \<Rightarrow> (string \<Rightarrow> string option) \<Rightarrow> delivery_limits option \<Rightarrow> lifecycle \<Rightarrow> lifecycle \<Rightarrow> bool"
  for sha256 canon lim where
  stage_ok: "put_stage ctx (Some src) env (take_lease (lc_store x)) = (Inr content, s') \<Longrightarrow>
     lifecycle_step sha256 canon lim x (x\<lparr>lc_store := s', lc_flight := lc_flight x @ [(env, Staged content)]\<rparr>)"
| stage_failed: "put_stage ctx (Some src) env (take_lease (lc_store x)) = (Inl e, s') \<Longrightarrow>
     lifecycle_step sha256 canon lim x (x\<lparr>lc_store := release_lease s'\<rparr>)"
| prepare_ok: "i < length (lc_flight x) \<Longrightarrow> lc_flight x ! i = (env, Staged content) \<Longrightarrow>
     put_prepare sha256 env content (lc_store x) = (Inr p, s') \<Longrightarrow>
     lifecycle_step sha256 canon lim x (x\<lparr>lc_store := s', lc_flight := (lc_flight x)[i := (env, Prepared p content)]\<rparr>)"
| prepare_failed: "i < length (lc_flight x) \<Longrightarrow> lc_flight x ! i = (env, Staged content) \<Longrightarrow>
     put_prepare sha256 env content (lc_store x) = (Inl e, s') \<Longrightarrow>
     lifecycle_step sha256 canon lim x (x\<lparr>lc_store := release_lease s', lc_flight := drop_nth i (lc_flight x)\<rparr>)"
| link: "i < length (lc_flight x) \<Longrightarrow> lc_flight x ! i = (env, Prepared p content) \<Longrightarrow>
     staged_file env content (lc_store x) \<or> sv_flt env OpLink \<noteq> None \<Longrightarrow>
     put_link env p content (lc_store x) = (l, s') \<Longrightarrow>
     lifecycle_step sha256 canon lim x (x\<lparr>lc_store := s', lc_flight := (lc_flight x)[i := (env, LinkTried p content l)]\<rparr>)"
| put_done: "i < length (lc_flight x) \<Longrightarrow> lc_flight x ! i = (env, LinkTried p content l) \<Longrightarrow>
     put_finish sha256 env p content l (lc_store x) = (Inr (dl_content dl), s') \<Longrightarrow>
     lifecycle_step sha256 canon lim x (x\<lparr>lc_store := s', lc_flight := (lc_flight x)[i := (env, Stored dl)]\<rparr>)"
| put_failed: "i < length (lc_flight x) \<Longrightarrow> lc_flight x ! i = (env, LinkTried p content l) \<Longrightarrow>
     put_finish sha256 env p content l (lc_store x) = (Inl e, s') \<Longrightarrow>
     lifecycle_step sha256 canon lim x (x\<lparr>lc_store := release_lease s', lc_flight := drop_nth i (lc_flight x),
       lc_unsynced := (if l = Linked \<and> sv_flt env OpSyncLinked \<noteq> None then p # lc_unsynced x else lc_unsynced x)\<rparr>)"
| invalid: "i < length (lc_flight x) \<Longrightarrow> lc_flight x ! i = (env, Stored dl) \<Longrightarrow> delivery_validate canon dl \<noteq> Inr () \<Longrightarrow>
     lifecycle_step sha256 canon lim x (x\<lparr>lc_flight := (lc_flight x)[i := (env, Finished dl)]\<rparr>)"
| commit: "i < length (lc_flight x) \<Longrightarrow> lc_flight x ! i = (env, Stored dl) \<Longrightarrow>
     CommitDelivery canon lim now newid dl flt (lc_db x) = (r, d') \<Longrightarrow>
     lifecycle_step sha256 canon lim x (x\<lparr>lc_db := d', lc_flight := (lc_flight x)[i := (env, Finished dl)]\<rparr>)"
| finish: "i < length (lc_flight x) \<Longrightarrow> lc_flight x ! i = (env, Finished dl) \<Longrightarrow>
     lifecycle_step sha256 canon lim x
       (x\<lparr>lc_store := release_lease (lc_store x), lc_flight := drop_nth i (lc_flight x)\<rparr>)"
| delete_inbox: "DeleteInbox canon now clock inboxID flt (lc_db x) = (r1, d') \<Longrightarrow>
     lifecycle_step sha256 canon lim x (x\<lparr>lc_db := d'\<rparr>)"
| cleanup: "CleanupExpiredInboxes now clock lock_free skip batch flt (lc_db x) = (r2, d') \<Longrightarrow>
     lifecycle_step sha256 canon lim x (x\<lparr>lc_db := d'\<rparr>)"
| delete_message: "DeleteMessage canon now clock inboxID messageID flt (lc_db x) = (r3, d') \<Longrightarrow>
     lifecycle_step sha256 canon lim x (x\<lparr>lc_db := d'\<rparr>)"
| remove_object: "st_leases (lc_store x) = 0 \<Longrightarrow>
     DeleteUnreferenced env ref (Some (\<lambda>k. ContentReferenced k f (lc_db x))) (lc_store x) = (r4, s') \<Longrightarrow>
     lifecycle_step sha256 canon lim x (x\<lparr>lc_store := s'\<rparr>)"
| acknowledge: "AcknowledgeContentDeletion key generation f (lc_db x) = (r5, d') \<Longrightarrow>
     lifecycle_step sha256 canon lim x (x\<lparr>lc_db := d'\<rparr>)"
| prune: "PruneStaging env cutoff (lc_store x) = (r6, s') \<Longrightarrow> lifecycle_step sha256 canon lim x (x\<lparr>lc_store := s'\<rparr>)"
| process_crash: "lifecycle_step sha256 canon lim x (x\<lparr>lc_store := crash (lc_store x), lc_flight := [], lc_unsynced := [],
     lc_lost := lc_lost x @ filter (\<lambda>p. st_durable (lc_store x) p \<noteq> st_objects (lc_store x) p) (unsettled x)\<rparr>)"

inductive_cases lifecycle_stepE: "lifecycle_step sha256 canon lim x y"

section \<open>The invariant\<close>

definition present_ref :: "(bytes \<Rightarrow> bytes) \<Rightarrow> store \<Rightarrow> string \<Rightarrow> int \<Rightarrow> bool" where
  "present_ref sha256 s key n \<longleftrightarrow> key_valid key \<and>
     (\<exists>b. st_objects s (object_path key) = Some b \<and> object_key sha256 b = key \<and> int (length b) = n)"

fun phase_ok :: "(bytes \<Rightarrow> bytes) \<Rightarrow> store \<Rightarrow> store_env \<times> phase \<Rightarrow> bool" where
  "phase_ok sha256 s (env, Staged content) \<longleftrightarrow> True"
| "phase_ok sha256 s (env, Prepared p content) \<longleftrightarrow> key_valid (object_key sha256 content) \<and> p = object_path (object_key sha256 content)"
| "phase_ok sha256 s (env, LinkTried p content l) \<longleftrightarrow> key_valid (object_key sha256 content) \<and> p = object_path (object_key sha256 content) \<and>
     (l = Linked \<longrightarrow> st_objects s p = Some content)"
| "phase_ok sha256 s (env, Stored dl) \<longleftrightarrow> present_ref sha256 s (cr_key (dl_content dl)) (cr_size (dl_content dl))"
| "phase_ok sha256 s (env, Finished dl) \<longleftrightarrow> present_ref sha256 s (cr_key (dl_content dl)) (cr_size (dl_content dl))"

text \<open>Every visible object is durable, except those in the list.\<close>

definition settled_but :: "string list \<Rightarrow> store \<Rightarrow> bool" where
  "settled_but ps s \<longleftrightarrow> (\<forall>p b. st_objects s p = Some b \<longrightarrow> st_durable s p = Some b \<or> p \<in> set ps)"

definition rows_stored :: "(bytes \<Rightarrow> bytes) \<Rightarrow> string list \<Rightarrow> store \<Rightarrow> db \<Rightarrow> bool" where
  "rows_stored sha256 lost s d \<longleftrightarrow> (\<forall>c \<in> set (mail_contents d).
     object_path (mc_key c) \<in> set lost \<or> present_ref sha256 s (mc_key c) (mc_size c))"

definition db_ok :: "db \<Rightarrow> bool" where
  "db_ok d \<longleftrightarrow> db_wf d \<and> contents_referenced d"

definition lifecycle_ok :: "(bytes \<Rightarrow> bytes) \<Rightarrow> lifecycle \<Rightarrow> bool" where
  "lifecycle_ok sha256 x \<longleftrightarrow> db_ok (lc_db x) \<and> store_ok sha256 (lc_store x) \<and> st_leases (lc_store x) = length (lc_flight x) \<and>
     list_all (phase_ok sha256 (lc_store x)) (lc_flight x) \<and> settled_but (unsettled x) (lc_store x) \<and>
     rows_stored sha256 (lc_lost x) (lc_store x) (lc_db x)"

subsection \<open>What the stages of a write do\<close>

text \<open>A step of a writer that only syncs, removes staging files or releases the reservation.\<close>

definition syncs :: "store \<Rightarrow> store \<Rightarrow> bool" where
  "syncs s s' \<longleftrightarrow> st_objects s' = st_objects s \<and> st_leases s' = st_leases s \<and>
     (\<forall>p. st_durable s' p = st_durable s p \<or> st_durable s' p = st_objects s p)"

lemma put_abort_leases [simp]: "st_leases (put_abort env s) = st_leases s" "st_leases (release s) = st_leases s"
  by (simp_all add: put_abort_def release_def remove_staging_def)

lemma sync_objects_fields [simp]:
  "st_objects (sync_objects d s) = st_objects s" "st_leases (sync_objects d s) = st_leases s"
  "st_durable (sync_objects d s) p = (if object_dir p = d then st_objects s p else st_durable s p)"
  by (simp_all add: sync_objects_def)

lemma put_stage_syncs: "put_stage ctx (Some src) env s = (r, s') \<Longrightarrow> syncs s s'"
proof (cases r)
  case (Inl e)
  assume "put_stage ctx (Some src) env s = (r, s')"
  then have "s' = s" using Inl put_stage_Inl by blast
  then show ?thesis by (simp add: syncs_def)
next
  case (Inr content)
  assume "put_stage ctx (Some src) env s = (r, s')"
  with Inr show ?thesis by (auto elim!: put_stage_Inr simp: syncs_def staged_def)
qed

lemma put_prepare_syncs:
  assumes "put_prepare sha256 env content s = (r, s')"
  shows "syncs s s'" and "r = Inr p \<Longrightarrow> key_valid (object_key sha256 content) \<and> p = object_path (object_key sha256 content)"
  using assms by (auto simp: put_prepare_def syncs_def relativePathForKey_Inr split: sum.splits option.splits prod.splits if_splits)

lemma put_cleanup_syncs: "put_cleanup env ref s = (r, s') \<Longrightarrow> syncs s s' \<and> st_durable s' = st_durable s \<and> (r = Inr ref' \<longrightarrow> ref' = ref)"
  by (auto simp: put_cleanup_def syncs_def split: option.splits if_splits)

lemma put_finish_Linked:
  assumes "put_finish sha256 env p content Linked s = (r, s')"
  shows "syncs s s'" and "sv_flt env OpSyncLinked = None \<Longrightarrow> st_durable s' p = st_objects s' p"
    and "r = Inr ref \<Longrightarrow> sv_flt env OpSyncLinked = None \<and> ref = \<lparr>cr_key = object_key sha256 content, cr_size = int (length content)\<rparr>"
proof -
  let ?ref = "\<lparr>cr_key = object_key sha256 content, cr_size = int (length content)\<rparr>"
  consider e where "sv_flt env OpSyncLinked = Some e" "r = Inl (wrapStorageError e)" "s' = release s"
    | "sv_flt env OpSyncLinked = None" "put_cleanup env ?ref (sync_objects (object_dir p) s) = (r, s')"
    using assms by (auto simp: put_finish_def Let_def split: option.splits)
  then show "syncs s s'" "sv_flt env OpSyncLinked = None \<Longrightarrow> st_durable s' p = st_objects s' p"
    "r = Inr ref \<Longrightarrow> sv_flt env OpSyncLinked = None \<and> ref = ?ref"
    by (cases; force simp: syncs_def dest!: put_cleanup_syncs [where ref' = ref])+
qed

lemma put_finish_other:
  assumes "put_finish sha256 env p content l s = (r, s')" and "l \<noteq> Linked"
  shows "syncs s s'" and "r = Inr ref \<Longrightarrow> present_ref sha256 s (cr_key ref) (cr_size ref)"
proof -
  let ?ref = "\<lparr>cr_key = object_key sha256 content, cr_size = int (length content)\<rparr>"
  consider e where "r = Inl e" "s' = put_abort env s"
    | "Verify sha256 env ?ref s = Inr ()" "put_cleanup env ?ref s = (r, s')"
    using assms by (auto simp: put_finish_def Let_def split: link_result.splits option.splits sum.splits if_splits)
  note cs = this
  show "syncs s s'" by (rule cs) (auto simp: syncs_def dest!: put_cleanup_syncs)
  assume r: "r = Inr ref"
  show "present_ref sha256 s (cr_key ref) (cr_size ref)"
  proof (rule cs)
    assume v: "Verify sha256 env ?ref s = Inr ()" and c: "put_cleanup env ?ref s = (r, s')"
    have "ref = ?ref" using put_cleanup_syncs [OF c, of ref] r by simp
    with Verify_Inr [OF v] show ?thesis by (auto simp: present_ref_def)
  qed (use r in simp)
qed

subsection \<open>Steps that keep the invariant\<close>

lemma syncs_keeps:
  assumes "syncs s s'"
  shows "store_ok sha256 s \<Longrightarrow> store_ok sha256 s'" "present_ref sha256 s' = present_ref sha256 s" "phase_ok sha256 s' = phase_ok sha256 s"
    "settled_but ps s \<Longrightarrow> settled_but ps s'" "rows_stored sha256 lost s' d = rows_stored sha256 lost s d"
proof -
  have o: "st_objects s' = st_objects s" and d: "\<And>p. st_durable s' p = st_durable s p \<or> st_durable s' p = st_objects s p"
    using assms by (auto simp: syncs_def)
  show "store_ok sha256 s \<Longrightarrow> store_ok sha256 s'" unfolding store_ok_def o using d by metis
  show p: "present_ref sha256 s' = present_ref sha256 s" by (simp add: present_ref_def o fun_eq_iff)
  show "phase_ok sha256 s' = phase_ok sha256 s"
  proof
    show "phase_ok sha256 s' f = phase_ok sha256 s f" for f by (cases "(sha256, s, f)" rule: phase_ok.cases) (simp_all add: p o)
  qed
  show "settled_but ps s \<Longrightarrow> settled_but ps s'" unfolding settled_but_def o using d by metis
  show "rows_stored sha256 lost s' d = rows_stored sha256 lost s d" by (simp add: rows_stored_def p)
qed

lemma lease_fields [simp]:
  "st_objects (take_lease s) = st_objects s" "st_durable (take_lease s) = st_durable s" "st_leases (take_lease s) = Suc (st_leases s)"
  "st_objects (release_lease s) = st_objects s" "st_durable (release_lease s) = st_durable s" "st_leases (release_lease s) = st_leases s - 1"
  by (simp_all add: take_lease_def release_lease_def)

text \<open>Only the objects and their durability matter to the invariant.\<close>

lemma same_objects:
  assumes "st_objects s' = st_objects s" "st_durable s' = st_durable s"
  shows "store_ok sha256 s' = store_ok sha256 s" "present_ref sha256 s' = present_ref sha256 s" "phase_ok sha256 s' = phase_ok sha256 s"
    "settled_but ps s' = settled_but ps s" "rows_stored sha256 lost s' d = rows_stored sha256 lost s d"
proof -
  show p: "present_ref sha256 s' = present_ref sha256 s" by (simp add: present_ref_def assms fun_eq_iff)
  show "store_ok sha256 s' = store_ok sha256 s" "settled_but ps s' = settled_but ps s" by (simp_all add: store_ok_def settled_but_def assms)
  show "phase_ok sha256 s' = phase_ok sha256 s"
  proof
    show "phase_ok sha256 s' f = phase_ok sha256 s f" for f by (cases "(sha256, s, f)" rule: phase_ok.cases) (simp_all add: p assms)
  qed
  show "rows_stored sha256 lost s' d = rows_stored sha256 lost s d" by (simp add: rows_stored_def p)
qed

lemmas lease_keeps [simp] =
  same_objects [of "take_lease s" s, OF lease_fields(1,2)] same_objects [of "release_lease s" s, OF lease_fields(4,5)] for s

lemma drop_nth_facts:
  assumes "i < length xs"
  shows "length (drop_nth i xs) = length xs - 1" "list_all P xs \<Longrightarrow> list_all P (drop_nth i xs)"
    "set (concat (map f xs)) = set (f (xs ! i)) \<union> set (concat (map f (drop_nth i xs)))"
proof -
  show "length (drop_nth i xs) = length xs - 1" using assms by (simp add: drop_nth_def)
  show "list_all P xs \<Longrightarrow> list_all P (drop_nth i xs)" by (auto simp: drop_nth_def list_all_iff dest: in_set_takeD in_set_dropD)
  have "concat (map f xs) = concat (map f (take i xs @ xs ! i # drop (Suc i) xs))" using assms by (simp add: id_take_nth_drop [symmetric])
  then show "set (concat (map f xs)) = set (f (xs ! i)) \<union> set (concat (map f (drop_nth i xs)))" by (auto simp: drop_nth_def)
qed

lemma update_facts:
  assumes "i < length xs"
  shows "list_all P xs \<Longrightarrow> P y \<Longrightarrow> list_all P (xs[i := y])"
    "set (concat (map f xs)) \<subseteq> set (f (xs ! i)) \<union> set (concat (map f (xs[i := y])))" "set (f y) \<subseteq> set (concat (map f (xs[i := y])))"
proof -
  have u: "xs[i := y] = take i xs @ y # drop (Suc i) xs" using assms by (simp add: upd_conv_take_nth_drop)
  show "list_all P xs \<Longrightarrow> P y \<Longrightarrow> list_all P (xs[i := y])" unfolding u by (auto simp: list_all_iff dest: in_set_takeD in_set_dropD)
  show "set (f y) \<subseteq> set (concat (map f (xs[i := y])))" unfolding u by auto
  have "concat (map f xs) = concat (map f (take i xs @ xs ! i # drop (Suc i) xs))" using assms by (simp add: id_take_nth_drop [symmetric])
  then show "set (concat (map f xs)) \<subseteq> set (f (xs ! i)) \<union> set (concat (map f (xs[i := y])))" unfolding u by auto
qed

lemma settled_mono: "settled_but ps s \<Longrightarrow> set ps \<subseteq> set qs \<Longrightarrow> settled_but qs s"
  by (auto simp: settled_but_def)

lemma settled_one: "settled_but ps s \<Longrightarrow> set ps \<subseteq> insert p (set qs) \<Longrightarrow> st_durable s p = st_objects s p \<Longrightarrow> settled_but qs s"
  unfolding settled_but_def by (metis insertE subsetD)

lemma unsettled_simps [simp]:
  "unsettled (x\<lparr>lc_store := s\<rparr>) = unsettled x" "unsettled (x\<lparr>lc_db := d\<rparr>) = unsettled x"
  by (simp_all add: unsettled_def)

lemma step_update:
  assumes "lifecycle_ok sha256 x" and "i < length (lc_flight x)" and "syncs (lc_store x) s'" and "phase_ok sha256 (lc_store x) f"
    and "settled_but (unsettled (x\<lparr>lc_flight := (lc_flight x)[i := f]\<rparr>)) s'"
  shows "lifecycle_ok sha256 (x\<lparr>lc_store := s', lc_flight := (lc_flight x)[i := f]\<rparr>)"
proof -
  note k = syncs_keeps [OF assms(3)]
  have "list_all (phase_ok sha256 s') ((lc_flight x)[i := f])"
    using assms(1,4) by (intro update_facts(1) [OF assms(2)]) (simp_all add: lifecycle_ok_def k(3))
  then show ?thesis using assms k by (simp add: lifecycle_ok_def unsettled_def syncs_def)
qed

lemma step_drop:
  assumes "lifecycle_ok sha256 x" and "i < length (lc_flight x)" and "syncs (lc_store x) s'"
    and "settled_but (us @ concat (map pending_link (drop_nth i (lc_flight x)))) s'"
  shows "lifecycle_ok sha256 (x\<lparr>lc_store := release_lease s', lc_flight := drop_nth i (lc_flight x), lc_unsynced := us\<rparr>)"
proof -
  note k = syncs_keeps [OF assms(3)]
  have "list_all (phase_ok sha256 s') (drop_nth i (lc_flight x))"
    using assms(1) by (intro drop_nth_facts(2) [OF assms(2)]) (simp add: lifecycle_ok_def k(3))
  then show ?thesis using assms k drop_nth_facts(1) [OF assms(2)] by (simp add: lifecycle_ok_def unsettled_def syncs_def)
qed

lemma step_db:
  assumes "lifecycle_ok sha256 x" and "db_ok d'" and "rows_stored sha256 (lc_lost x) (lc_store x) d'"
  shows "lifecycle_ok sha256 (x\<lparr>lc_db := d'\<rparr>)"
  using assms by (simp add: lifecycle_ok_def)

lemma rows_subset: "rows_stored sha256 lost s d \<Longrightarrow> set (mail_contents d') \<subseteq> set (mail_contents d) \<Longrightarrow> rows_stored sha256 lost s d'"
  by (auto simp: rows_stored_def)

text \<open>The transactions.\<close>

lemma commit_keeps:
  assumes "db_ok d" "rows_stored sha256 lost s d" "present_ref sha256 s (cr_key (dl_content dl)) (cr_size (dl_content dl))"
    and "CommitDelivery canon lim now newid dl flt d = (r, d')"
  shows "db_ok d'" "rows_stored sha256 lost s d'"
proof -
  have d: "db_wf d" "contents_referenced d" using assms(1) by (auto simp: db_ok_def)
  note eff = CommitDelivery_effect [OF d(1) assms(4)]
  show "rows_stored sha256 lost s d'" using eff assms(2,3) by (auto simp: rows_stored_def delivered_def new_content_row_def)
  have "contents_referenced d'"
  proof (cases "d' = d")
    case False
    then have "d' = delivered canon now newid dl d" using eff by auto
    moreover have "dl_recipients dl \<noteq> []"
      using assms(4) False by (auto simp: CommitDelivery_def delivery_validate_ok validateEnvelope_ok split: sum.splits)
    ultimately show ?thesis using delivered_referenced d(2) by blast
  qed (use d in simp)
  then show "db_ok d'" using eff by (auto simp: db_ok_def)
qed

lemma deletion_keeps:
  assumes "db_ok d"
  shows "DeleteInbox canon now clock inboxID flt d = (r, d') \<Longrightarrow> db_ok d' \<and> set (mail_contents d') \<subseteq> set (mail_contents d)"
    and "DeleteMessage canon now clock inboxID messageID flt d = (q, d') \<Longrightarrow> db_ok d' \<and> set (mail_contents d') \<subseteq> set (mail_contents d)"
    and "CleanupExpiredInboxes now clock lock_free skip batch flt d = (p, d') \<Longrightarrow> db_ok d' \<and> set (mail_contents d') \<subseteq> set (mail_contents d)"
    and "AcknowledgeContentDeletion k g f d = (a, d') \<Longrightarrow> db_ok d' \<and> set (mail_contents d') \<subseteq> set (mail_contents d)"
proof -
  have d: "db_wf d" "contents_referenced d" using assms by (auto simp: db_ok_def)
  show "db_ok d' \<and> set (mail_contents d') \<subseteq> set (mail_contents d)" if "DeleteInbox canon now clock inboxID flt d = (r, d')"
    using DeleteInbox_effect [OF d that] by (auto simp: db_ok_def purged_def)
  show "db_ok d' \<and> set (mail_contents d') \<subseteq> set (mail_contents d)" if "DeleteMessage canon now clock inboxID messageID flt d = (q, d')"
    using DeleteMessage_effect [OF d that] by (auto simp: db_ok_def message_removed_def split: option.splits)
  show "db_ok d' \<and> set (mail_contents d') \<subseteq> set (mail_contents d)" if "CleanupExpiredInboxes now clock lock_free skip batch flt d = (p, d')"
    using CleanupExpiredInboxes_effect [OF d that] by (auto simp: db_ok_def purged_def)
  let ?d = "d\<lparr>deletion_queue := filter (\<lambda>q. \<not> (dq_key q = k \<and> dq_generation q = g)) (deletion_queue d)\<rparr>"
  have "db_wf ?d" using d(1) by (intro db_wf_queue) (auto simp: db_wf_def wf_queue_def list_all_iff distinct_map inj_on_def)
  then have "db_ok ?d" using d(2) by (auto simp: db_ok_def contents_referenced_def)
  then show "db_ok d' \<and> set (mail_contents d') \<subseteq> set (mail_contents d)" if "AcknowledgeContentDeletion k g f d = (a, d')"
    using acknowledge_effect [OF that] assms by auto
qed

text \<open>The removal of an object that no row needs.\<close>

lemma removal_keeps:
  assumes "DeleteUnreferenced env ref (Some (\<lambda>k. ContentReferenced k f d)) s = (r, s')"
    and "store_ok sha256 s" "settled_but ps s" "rows_stored sha256 lost s d" "db_ok d"
  shows "store_ok sha256 s' \<and> settled_but ps s' \<and> rows_stored sha256 lost s' d \<and> st_leases s' = st_leases s"
proof -
  consider "s' = s" | q where "ContentReferenced (cr_key ref) f d = Inr False" "deleteLocked env ref s = (q, s')"
    using assms(1) by (auto simp: DeleteUnreferenced_def split: sum.splits if_splits prod.splits)
  then show ?thesis
  proof cases
    case (2 q)
    note k = deleteLocked_keeps [OF 2(2)] and e = deleteLocked_effect [OF 2(2)]
    let ?p = "object_path (cr_key ref)"
    have o: "st_objects s' p = st_objects s p" if "p \<noteq> ?p" for p
      using e that by (auto simp: Let_def)
    have b: "st_objects s' p = Some b \<Longrightarrow> st_objects s p = Some b" "st_durable s' p = st_durable s p \<or> st_durable s' p = st_objects s' p" for p b
      using e by (auto simp: Let_def split: if_splits)
    have "settled_but ps s'" unfolding settled_but_def using assms(3) b by (metis settled_but_def)
    moreover have "present_ref sha256 s' (mc_key c) n" if c: "c \<in> set (mail_contents d)" "present_ref sha256 s (mc_key c) n" for c n
    proof -
      have "mc_key c \<noteq> cr_key ref" using c(1) ContentReferenced_False [OF 2(1)] by (metis imageI)
      moreover have "key_valid (mc_key c)" using c(2) by (simp add: present_ref_def)
      moreover have "s' = s \<or> key_valid (cr_key ref)" using e by auto
      ultimately have "s' = s \<or> object_path (mc_key c) \<noteq> ?p" using object_path_inj by blast
      then show ?thesis using c(2) o by (auto simp: present_ref_def)
    qed
    ultimately show ?thesis using k(1) [OF assms(2)] k(5) assms(4) by (auto simp: rows_stored_def)
  qed (use assms in simp)
qed

lemma prune_loop_frame:
  "prune_loop env cutoff k removed xs s = (r, s') \<Longrightarrow> st_objects s' = st_objects s \<and> st_durable s' = st_durable s \<and> st_leases s' = st_leases s"
proof (induction xs arbitrary: k removed s)
  case (Cons x xs)
  show ?case using Cons.prems by (auto split: option.splits if_splits dest!: Cons.IH)
qed simp

lemma prune_frame:
  "PruneStaging env cutoff s = (r, s') \<Longrightarrow> st_objects s' = st_objects s \<and> st_durable s' = st_durable s \<and> st_leases s' = st_leases s"
  by (auto simp: PruneStaging_def split: option.splits prod.splits if_splits dest!: prune_loop_frame)

lemma crash_keeps:
  assumes "lifecycle_ok sha256 x"
  shows "lifecycle_ok sha256 (x\<lparr>lc_store := crash (lc_store x), lc_flight := [], lc_unsynced := [],
     lc_lost := lc_lost x @ filter (\<lambda>p. st_durable (lc_store x) p \<noteq> st_objects (lc_store x) p) (unsettled x)\<rparr>)"
proof -
  let ?s = "lc_store x" and ?lost = "lc_lost x @ filter (\<lambda>p. st_durable (lc_store x) p \<noteq> st_objects (lc_store x) p) (unsettled x)"
  have ok: "store_ok sha256 ?s" "settled_but (unsettled x) ?s" "rows_stored sha256 (lc_lost x) ?s (lc_db x)" "db_ok (lc_db x)"
    using assms by (simp_all add: lifecycle_ok_def)
  have "object_path k \<in> set ?lost \<or> present_ref sha256 (crash ?s) k n" if "present_ref sha256 ?s k n" for k n
    using that ok(2) by (auto simp: present_ref_def settled_but_def crash_def)
  then have "rows_stored sha256 ?lost (crash ?s) (lc_db x)" using ok(3) unfolding rows_stored_def by (metis Un_iff set_append)
  moreover have "store_ok sha256 (crash ?s)" using ok(1) by (auto simp: store_ok_def crash_def)
  ultimately show ?thesis using ok(4) by (simp add: lifecycle_ok_def unsettled_def settled_but_def crash_def)
qed

text \<open>The writers.\<close>

lemma link_keeps:
  assumes "lifecycle_ok sha256 x" "i < length (lc_flight x)" "lc_flight x ! i = (env, Prepared p content)"
    and "put_link env p content (lc_store x) = (l, s')"
  shows "lifecycle_ok sha256 (x\<lparr>lc_store := s', lc_flight := (lc_flight x)[i := (env, LinkTried p content l)]\<rparr>)"
proof -
  let ?fl = "(lc_flight x)[i := (env, LinkTried p content l)]"
  have ph: "phase_ok sha256 (lc_store x) (env, Prepared p content)"
    using assms(1-3) by (metis lifecycle_ok_def list_all_length)
  note u = update_facts(2,3) [OF assms(2), of pending_link "(env, LinkTried p content l)", unfolded assms(3)]
  have set: "set (unsettled x) \<subseteq> set (unsettled (x\<lparr>lc_flight := ?fl\<rparr>))" using u(1) by (auto simp: unsettled_def)
  have sb: "settled_but (unsettled (x\<lparr>lc_flight := ?fl\<rparr>)) (lc_store x)"
    using assms(1) set by (auto simp: lifecycle_ok_def elim: settled_mono)
  show ?thesis
  proof (cases "l = Linked")
    case False
    then have "s' = lc_store x" using assms(4) by (auto simp: put_link_def split: option.splits)
    then show ?thesis using step_update [OF assms(1,2), of "lc_store x" "(env, LinkTried p content l)"] ph sb False
      by (simp add: syncs_def)
  next
    case True
    then have n: "st_objects (lc_store x) p = None" and s': "s' = linked p content (lc_store x)"
      using assms(4) by (auto simp: put_link_def linked_def split: option.splits)
    have o: "st_objects s' = (st_objects (lc_store x))(p \<mapsto> content)" "st_durable s' = st_durable (lc_store x)" "st_leases s' = st_leases (lc_store x)"
      by (simp_all add: s' linked_def)
    have pr: "present_ref sha256 (lc_store x) k m \<Longrightarrow> present_ref sha256 s' k m" for k m
      using n by (auto simp: present_ref_def o)
    have old: "phase_ok sha256 s' f" if "phase_ok sha256 (lc_store x) f" for f
      using that n pr by (cases "(sha256, lc_store x, f)" rule: phase_ok.cases) (auto simp: o)
    have "list_all (phase_ok sha256 s') ?fl"
      using assms(1) ph True by (intro update_facts(1) [OF assms(2)]) (auto simp: lifecycle_ok_def list_all_iff o intro: old)
    moreover have "store_ok sha256 s'" using assms(1) ph by (auto simp: lifecycle_ok_def store_ok_def o)
    moreover have "p \<in> set (unsettled (x\<lparr>lc_flight := ?fl\<rparr>))" using u(2) True by (auto simp: unsettled_def)
    then have "settled_but (unsettled (x\<lparr>lc_flight := ?fl\<rparr>)) s'" using sb by (auto simp: settled_but_def o)
    moreover have "rows_stored sha256 (lc_lost x) s' (lc_db x)" using assms(1) pr by (auto simp: lifecycle_ok_def rows_stored_def)
    ultimately show ?thesis using assms(1) by (simp add: lifecycle_ok_def unsettled_def o)
  qed
qed

lemma finish_put_keeps:
  assumes "lifecycle_ok sha256 x" "i < length (lc_flight x)" "lc_flight x ! i = (env, LinkTried p content l)"
    and "put_finish sha256 env p content l (lc_store x) = (r, s')"
  shows "r = Inr (dl_content dl) \<Longrightarrow> lifecycle_ok sha256 (x\<lparr>lc_store := s', lc_flight := (lc_flight x)[i := (env, Stored dl)]\<rparr>)"
    and "lifecycle_ok sha256 (x\<lparr>lc_store := release_lease s', lc_flight := drop_nth i (lc_flight x),
       lc_unsynced := (if l = Linked \<and> sv_flt env OpSyncLinked \<noteq> None then p # lc_unsynced x else lc_unsynced x)\<rparr>)"
proof -
  have ph: "phase_ok sha256 (lc_store x) (env, LinkTried p content l)" using assms(1-3) by (metis lifecycle_ok_def list_all_length)
  have sy: "syncs (lc_store x) s'" using put_finish_Linked(1) put_finish_other(1) assms(4) by blast
  have sb: "settled_but (unsettled x) s'" using assms(1) syncs_keeps(4) [OF sy] by (simp add: lifecycle_ok_def)
  let ?us = "if l = Linked \<and> sv_flt env OpSyncLinked \<noteq> None then p # lc_unsynced x else lc_unsynced x"
  have dur: "st_durable s' p = st_objects s' p" if "l = Linked" "sv_flt env OpSyncLinked = None"
    using put_finish_Linked(2) that assms(4) by metis
  show "lifecycle_ok sha256 (x\<lparr>lc_store := release_lease s', lc_flight := drop_nth i (lc_flight x), lc_unsynced := ?us\<rparr>)"
  proof (rule step_drop [OF assms(1,2) sy])
    have sub: "set (unsettled x) \<subseteq> set (pending_link (env, LinkTried p content l)) \<union> set (lc_unsynced x @ concat (map pending_link (drop_nth i (lc_flight x))))"
      using drop_nth_facts(3) [OF assms(2), of pending_link] unfolding assms(3) by (auto simp: unsettled_def)
    show "settled_but (?us @ concat (map pending_link (drop_nth i (lc_flight x)))) s'"
    proof (cases "l = Linked \<and> sv_flt env OpSyncLinked = None")
      case True
      then show ?thesis using sub settled_one [OF sb _ dur] by auto
    next
      case False
      then have "set (unsettled x) \<subseteq> set (?us @ concat (map pending_link (drop_nth i (lc_flight x))))" using sub by (cases l) auto
      then show ?thesis by (rule settled_mono [OF sb])
    qed
  qed
  assume r: "r = Inr (dl_content dl)"
  show "lifecycle_ok sha256 (x\<lparr>lc_store := s', lc_flight := (lc_flight x)[i := (env, Stored dl)]\<rparr>)"
  proof (rule step_update [OF assms(1,2) sy])
    note sub = update_facts(2) [OF assms(2), of pending_link "(env, Stored dl)", unfolded assms(3)]
    show "settled_but (unsettled (x\<lparr>lc_flight := (lc_flight x)[i := (env, Stored dl)]\<rparr>)) s'"
    proof (cases "l = Linked")
      case True
      then have "st_durable s' p = st_objects s' p" using dur put_finish_Linked(3) assms(4) r by metis
      then show ?thesis using sub True by (intro settled_one [OF sb]) (auto simp: unsettled_def)
    next
      case False
      then show ?thesis using sub by (intro settled_mono [OF sb], cases l) (auto simp: unsettled_def)
    qed
    show "phase_ok sha256 (lc_store x) (env, Stored dl)"
    proof (cases "l = Linked")
      case True
      then have "dl_content dl = \<lparr>cr_key = object_key sha256 content, cr_size = int (length content)\<rparr>"
        using put_finish_Linked(3) assms(4) r by metis
      then show ?thesis using ph True by (auto simp: present_ref_def)
    next
      case False
      then show ?thesis using put_finish_other(2) [OF assms(4)] r by simp
    qed
  qed
qed

lemma silent_update:
  assumes "lifecycle_ok sha256 x" "i < length (lc_flight x)" "lc_flight x ! i = (env, f)"
    and "phase_ok sha256 (lc_store x) (env, g)" "pending_link (env, f) = []" "syncs (lc_store x) s'"
  shows "lifecycle_ok sha256 (x\<lparr>lc_store := s', lc_flight := (lc_flight x)[i := (env, g)]\<rparr>)"
proof (rule step_update [OF assms(1,2,6,4)])
  have "settled_but (unsettled x) s'" using assms(1) syncs_keeps(4) [OF assms(6)] by (simp add: lifecycle_ok_def)
  then show "settled_but (unsettled (x\<lparr>lc_flight := (lc_flight x)[i := (env, g)]\<rparr>)) s'"
    using update_facts(2) [OF assms(2), of pending_link "(env, g)"] assms(3,5) by (elim settled_mono) (auto simp: unsettled_def)
qed

lemma silent_drop:
  assumes "lifecycle_ok sha256 x" "i < length (lc_flight x)" "lc_flight x ! i = (env, f)" "pending_link (env, f) = []" "syncs (lc_store x) s'"
  shows "lifecycle_ok sha256 (x\<lparr>lc_store := release_lease s', lc_flight := drop_nth i (lc_flight x)\<rparr>)"
proof -
  have "settled_but (unsettled x) s'" using assms(1) syncs_keeps(4) [OF assms(5)] by (simp add: lifecycle_ok_def)
  then have "settled_but (lc_unsynced x @ concat (map pending_link (drop_nth i (lc_flight x)))) s'"
    using drop_nth_facts(3) [OF assms(2), of pending_link] assms(3,4) by (elim settled_mono) (auto simp: unsettled_def)
  from step_drop [OF assms(1,2,5) this] show ?thesis by (simp add: lifecycle_ok_def unsettled_def)
qed

lemma flight_phase: "lifecycle_ok sha256 x \<Longrightarrow> i < length (lc_flight x) \<Longrightarrow> phase_ok sha256 (lc_store x) (lc_flight x ! i)"
  by (simp add: lifecycle_ok_def list_all_length)

lemma syncs_refl: "syncs s s"
  by (simp add: syncs_def)

lemma lifecycle_step_ok:
  assumes "lifecycle_step sha256 canon lim x y" and ok: "lifecycle_ok sha256 x"
  shows "lifecycle_ok sha256 y"
  using assms(1)
proof (cases rule: lifecycle_step.cases)
  case (stage_ok ctx src env content s')
  note k = put_stage_syncs [OF stage_ok(2)]
  show ?thesis using ok syncs_keeps [OF k] k unfolding stage_ok(1)
    by (simp add: lifecycle_ok_def unsettled_def syncs_def)
next
  case (stage_failed ctx src env e s')
  then have "s' = take_lease (lc_store x)" using put_stage_Inl by blast
  then show ?thesis using ok unfolding stage_failed(1) by (simp add: lifecycle_ok_def)
next
  case (prepare_ok i env content p s')
  show ?thesis unfolding prepare_ok(1)
    using silent_update [OF ok prepare_ok(2,3) _ _ put_prepare_syncs(1) [OF prepare_ok(4)]] put_prepare_syncs(2) [OF prepare_ok(4)] by simp
next
  case (prepare_failed i env content e s')
  show ?thesis unfolding prepare_failed(1)
    using silent_drop [OF ok prepare_failed(2,3) _ put_prepare_syncs(1) [OF prepare_failed(4)]] by simp
next
  case (link i env p content l s')
  then show ?thesis using link_keeps [OF ok] by blast
next
  case (put_done i env p content l dl s')
  then show ?thesis using finish_put_keeps(1) [OF ok] by blast
next
  case (put_failed i env p content l e s')
  then show ?thesis using finish_put_keeps(2) [OF ok] by blast
next
  case (invalid i env dl)
  then show ?thesis using silent_update [OF ok invalid(2,3) _ _ syncs_refl, of "Finished dl"] flight_phase [OF ok invalid(2)] by simp
next
  case (commit i env dl now newid flt r d')
  have "present_ref sha256 (lc_store x) (cr_key (dl_content dl)) (cr_size (dl_content dl))"
    using flight_phase [OF ok commit(2)] commit(3) by simp
  note k = commit_keeps [OF _ _ this commit(4), of "lc_lost x"]
  have "lifecycle_ok sha256 (x\<lparr>lc_db := d'\<rparr>)" using ok k by (intro step_db) (simp_all add: lifecycle_ok_def)
  then show ?thesis
    using silent_update [of sha256 "x\<lparr>lc_db := d'\<rparr>" i env "Stored dl" "Finished dl", OF _ _ _ _ _ syncs_refl] flight_phase [OF ok commit(2)] commit(1-3) by simp
next
  case (finish i env dl)
  then show ?thesis using silent_drop [OF ok finish(2,3) _ syncs_refl] by simp
next
  case (delete_inbox now clock inboxID flt r1 d')
  then show ?thesis using ok deletion_keeps(1) [OF _ delete_inbox(2)] by (auto simp: lifecycle_ok_def elim: rows_subset)
next
  case (cleanup now clock lock_free skip batch flt r2 d')
  then show ?thesis using ok deletion_keeps(3) [OF _ cleanup(2)] by (auto simp: lifecycle_ok_def elim: rows_subset)
next
  case (delete_message now clock inboxID messageID flt r3 d')
  then show ?thesis using ok deletion_keeps(2) [OF _ delete_message(2)] by (auto simp: lifecycle_ok_def elim: rows_subset)
next
  case (remove_object env ref f r4 s')
  then have "lc_flight x = []" using ok by (simp add: lifecycle_ok_def)
  then show ?thesis using ok removal_keeps [OF remove_object(3), of sha256 "unsettled x" "lc_lost x"] unfolding remove_object(1)
    by (auto simp: lifecycle_ok_def)
next
  case (acknowledge key generation f r5 d')
  then show ?thesis using ok deletion_keeps(4) [OF _ acknowledge(2)] by (auto simp: lifecycle_ok_def elim: rows_subset)
next
  case (prune env cutoff r6 s')
  then show ?thesis using ok prune_frame [OF prune(2)] same_objects [of s' "lc_store x"] unfolding prune(1) by (simp add: lifecycle_ok_def)
next
  case process_crash
  then show ?thesis using crash_keeps [OF ok] by simp
qed

lemma lifecycle_run_ok:
  "(lifecycle_step sha256 canon lim)\<^sup>*\<^sup>* x y \<Longrightarrow> lifecycle_ok sha256 x \<Longrightarrow> lifecycle_ok sha256 y"
  by (induction rule: rtranclp_induct) (auto dest: lifecycle_step_ok)

section \<open>No mail is lost\<close>

text \<open>
  C2. Committed mail is lost only where a crash falls between linking and syncing: in every state that concurrent writes, deliveries, deletions,
  retention sweeps, acknowledgements, pruning and crashes can reach from a sound one, under any failures, with the stages of the writes
  interleaved in any order and the transactions one after the other, every message has its content row, every content row is
  referenced by a message, and the row's object is in the store and passes \<^verbatim>\<open>Verify\<close> against the recorded digest and size,
  also right after a crash. The exceptions are exactly these: an object that some writer has linked but not yet synced (or failed to sync) need
  not survive a crash, and an object that an earlier crash found in that state may be gone.
\<close>

theorem no_mail_lost:
  assumes "lifecycle_ok sha256 x" and "(lifecycle_step sha256 canon lim)\<^sup>*\<^sup>* x y"
    and "m \<in> set (messages (lc_db y))" and "sv_flt quiet = (\<lambda>_. None)" "sv_cancel quiet = None"
  shows "contents_referenced (lc_db y) \<and> (\<exists>c \<in> set (mail_contents (lc_db y)). mc_key c = ms_content m \<and>
    (object_path (mc_key c) \<in> set (lc_lost y) \<or>
     Verify sha256 quiet \<lparr>cr_key = mc_key c, cr_size = mc_size c\<rparr> (lc_store y) = Inr () \<and>
     (object_path (mc_key c) \<in> set (unsettled y) \<or>
      Verify sha256 quiet \<lparr>cr_key = mc_key c, cr_size = mc_size c\<rparr> (crash (lc_store y)) = Inr ())))"
proof -
  have ok: "lifecycle_ok sha256 y" by (rule lifecycle_run_ok [OF assms(2,1)])
  then obtain c where c: "c \<in> set (mail_contents (lc_db y))" "mc_key c = ms_content m"
    using assms(3) by (auto simp: lifecycle_ok_def db_ok_def db_wf_def wf_messages_def list_all_iff)
  have "object_path (mc_key c) \<in> set (lc_lost y) \<or> present_ref sha256 (lc_store y) (mc_key c) (mc_size c)"
    using ok c(1) by (auto simp: lifecycle_ok_def rows_stored_def)
  moreover have "Verify sha256 quiet \<lparr>cr_key = mc_key c, cr_size = mc_size c\<rparr> (lc_store y) = Inr () \<and>
      (object_path (mc_key c) \<in> set (unsettled y) \<or> Verify sha256 quiet \<lparr>cr_key = mc_key c, cr_size = mc_size c\<rparr> (crash (lc_store y)) = Inr ())"
    if "present_ref sha256 (lc_store y) (mc_key c) (mc_size c)"
  proof -
    obtain b where b: "key_valid (mc_key c)" "st_objects (lc_store y) (object_path (mc_key c)) = Some b"
      "object_key sha256 b = mc_key c" "int (length b) = mc_size c" using \<open>present_ref _ _ _ _\<close> by (auto simp: present_ref_def)
    have v: "Verify sha256 quiet \<lparr>cr_key = mc_key c, cr_size = mc_size c\<rparr> u = Inr ()" if "st_objects u (object_path (mc_key c)) = Some b" for u
      using Verify_quiet [OF assms(4,5), of sha256 b u] that b by simp
    have "st_durable (lc_store y) (object_path (mc_key c)) = Some b \<or> object_path (mc_key c) \<in> set (unsettled y)"
      using ok b(2) by (auto simp: lifecycle_ok_def settled_but_def)
    then show ?thesis using v b(2) by (auto simp: crash_def)
  qed
  ultimately show ?thesis using c ok by (auto simp: lifecycle_ok_def db_ok_def)
qed

section \<open>Concrete instances\<close>

definition sample_full :: lifecycle where
  "sample_full = (let key = object_key sample_sha ''abc'' in
     \<lparr>lc_store = sample_store\<lparr>st_objects := [object_path key \<mapsto> ''abc''], st_durable := [object_path key \<mapsto> ''abc'']\<rparr>,
      lc_db = sample_db\<lparr>mail_contents := [new_content_row 20 key 3],
        messages := [\<lparr>ms_id = ''m1'', ms_inbox = ''i1'', ms_content = key, ms_sender = [], ms_received = 10, ms_seen = None\<rparr>]\<rparr>,
      lc_flight = [], lc_unsynced = [], lc_lost = []\<rparr>)"

lemma sample_full_ok: "lifecycle_ok sample_sha sample_full"
proof -
  let ?key = "object_key sample_sha ''abc''"
  have k: "key_valid ?key" by (rule object_key_valid) simp
  have "content_row_ok (new_content_row 20 ?key 3)" using k by (intro new_content_row_ok) simp_all
  then have "db_wf (lc_db sample_full)"
    by (simp add: sample_full_def Let_def db_wf_def wf_tables sample_db_def empty_db_def List.map_filter_simps new_content_row_def)
  moreover have "store_ok sample_sha (lc_store sample_full)"
    using k by (simp add: sample_full_def Let_def store_ok_def sample_store_def)
  moreover have "rows_stored sample_sha [] (lc_store sample_full) (lc_db sample_full)" "settled_but [] (lc_store sample_full)"
    using k by (simp_all add: sample_full_def Let_def rows_stored_def present_ref_def new_content_row_def settled_but_def)
  moreover have "contents_referenced (lc_db sample_full)"
    by (simp add: sample_full_def Let_def contents_referenced_def new_content_row_def)
  ultimately show ?thesis
    by (simp add: lifecycle_ok_def db_ok_def unsettled_def) (simp add: sample_full_def Let_def sample_store_def rows_stored_def settled_but_def)
qed

text \<open>A second writer stages the same bytes, prepares the directory, finds the object linked, is done; then the process crashes.\<close>

definition second_delivery :: delivery where
  "second_delivery = \<lparr>dl_content = \<lparr>cr_key = object_key sample_sha ''abc'', cr_size = 3\<rparr>, dl_sender = [], dl_recipients = [''i1''], dl_received = 10\<rparr>"

lemma second_writer_run:
  "\<exists>y. (lifecycle_step sample_sha Some None)\<^sup>*\<^sup>* sample_full y \<and> lc_flight y = [(sample_senv ''2'', Stored second_delivery)] \<and>
     lc_db y = lc_db sample_full \<and> lc_lost y = [] \<and> lc_unsynced y = []"
proof -
  let ?env = "sample_senv ''2''" and ?key = "object_key sample_sha ''abc''"
  let ?p = "object_path ?key" and ?step = "lifecycle_step sample_sha Some None" and ?s = "take_lease (lc_store sample_full)"
  let ?s1 = "staged ?env ''abc'' ?s"
  let ?s2 = "sync_objects (object_dir ?p) ?s1"
  have k: "key_valid ?key" by (rule object_key_valid) simp
  have st: "has_room ?env ?s" "st_maxBytes ?s < max_int64" "fresh_temp ?env ?s" "st_maxBytes ?s = 10" "lc_flight sample_full = []"
    "lc_lost sample_full = []" "lc_unsynced sample_full = []"
    by (simp_all add: sample_full_def Let_def take_lease_def has_room_def fresh_temp_def sample_store_def sample_senv_def max_int64_def stage_name_def)
  have "put_stage (Ctx None) (Some (''abc'', EOF)) ?env ?s = (Inr ''abc'', ?s1)"
    using put_stage_quiet [OF sample_senv_quiet(1) st(1) _ st(2,3), of "Ctx None" "''abc''"] st(4) by simp
  from lifecycle_step.stage_ok [of _ _ _ sample_full, OF this]
  have 1: "?step sample_full (sample_full\<lparr>lc_store := ?s1, lc_flight := [(?env, Staged ''abc'')]\<rparr>)" by (simp add: st)
  have 2: "?step (sample_full\<lparr>lc_store := ?s1, lc_flight := [(?env, Staged ''abc'')]\<rparr>)
      (sample_full\<lparr>lc_store := ?s2, lc_flight := [(?env, Prepared ?p ''abc'')]\<rparr>)"
    using lifecycle_step.prepare_ok [of 0 "sample_full\<lparr>lc_store := ?s1, lc_flight := [(?env, Staged ''abc'')]\<rparr>" ?env "''abc''" sample_sha ?p ?s2]
      put_prepare_quiet [OF sample_senv_quiet(1), of sample_sha "''abc''"] k by simp
  have o: "st_objects ?s2 ?p = Some ''abc''" by (simp add: sample_full_def Let_def staged_def)
  have f: "staged_file ?env ''abc'' ?s2" by (simp add: staged_file_def sync_objects_def staged_def)
  have 3: "?step (sample_full\<lparr>lc_store := ?s2, lc_flight := [(?env, Prepared ?p ''abc'')]\<rparr>)
      (sample_full\<lparr>lc_store := ?s2, lc_flight := [(?env, LinkTried ?p ''abc'' LinkExists)]\<rparr>)"
    using lifecycle_step.link [of 0 "sample_full\<lparr>lc_store := ?s2, lc_flight := [(?env, Prepared ?p ''abc'')]\<rparr>" ?env ?p "''abc''" LinkExists ?s2] f o
    by (simp add: put_link_def sample_senv_quiet)
  have v: "Verify sample_sha ?env \<lparr>cr_key = ?key, cr_size = 3\<rparr> ?s2 = Inr ()"
    using Verify_quiet [OF sample_senv_quiet(2,3) k o] by simp
  have "put_finish sample_sha ?env ?p ''abc'' LinkExists ?s2 = (Inr (dl_content second_delivery), put_abort ?env ?s2)"
    using o v by (simp add: put_finish_def put_cleanup_def sample_senv_quiet second_delivery_def)
  then have 4: "?step (sample_full\<lparr>lc_store := ?s2, lc_flight := [(?env, LinkTried ?p ''abc'' LinkExists)]\<rparr>)
      (sample_full\<lparr>lc_store := put_abort ?env ?s2, lc_flight := [(?env, Stored second_delivery)]\<rparr>)"
    using lifecycle_step.put_done [of 0 "sample_full\<lparr>lc_store := ?s2, lc_flight := [(?env, LinkTried ?p ''abc'' LinkExists)]\<rparr>" ?env ?p "''abc''" LinkExists
        sample_sha second_delivery "put_abort ?env ?s2"] by simp
  from 1 2 3 4 have "?step\<^sup>*\<^sup>* sample_full (sample_full\<lparr>lc_store := put_abort ?env ?s2, lc_flight := [(?env, Stored second_delivery)]\<rparr>)"
    by (meson rtranclp.rtrancl_into_rtrancl rtranclp.rtrancl_refl)
  then show ?thesis by (intro exI conjI) (assumption, simp_all add: st)
qed

theorem no_mail_lost_witness:
  "\<exists>y :: lifecycle. (lifecycle_step sample_sha Some None)\<^sup>*\<^sup>* sample_full y \<and> lc_flight y = [] \<and> messages (lc_db y) \<noteq> [] \<and>
     (\<exists>c \<in> set (mail_contents (lc_db y)).
       Verify sample_sha (sample_senv []) \<lparr>cr_key = mc_key c, cr_size = mc_size c\<rparr> (lc_store y) = Inr ())"
proof -
  obtain y where y: "(lifecycle_step sample_sha Some None)\<^sup>*\<^sup>* sample_full y" "lc_flight y = [(sample_senv ''2'', Stored second_delivery)]"
    "lc_db y = lc_db sample_full" "lc_lost y = []" "lc_unsynced y = []" using second_writer_run by blast
  define z where "z = y\<lparr>lc_store := crash (lc_store y), lc_flight := [], lc_unsynced := [],
     lc_lost := lc_lost y @ filter (\<lambda>p. st_durable (lc_store y) p \<noteq> st_objects (lc_store y) p) (unsettled y)\<rparr>"
  have run: "(lifecycle_step sample_sha Some None)\<^sup>*\<^sup>* sample_full z"
    using y(1) lifecycle_step.process_crash [of sample_sha Some None y] unfolding z_def by (rule rtranclp.rtrancl_into_rtrancl)
  have l: "lc_lost z = []" "lc_db z = lc_db sample_full" "lc_flight z = []" using y by (simp_all add: z_def unsettled_def)
  have m: "hd (messages (lc_db z)) \<in> set (messages (lc_db z))" "messages (lc_db z) \<noteq> []" by (simp_all add: l sample_full_def Let_def)
  from no_mail_lost [OF sample_full_ok run m(1) sample_senv_quiet(2,3) [of "[]"]] obtain c where
    "c \<in> set (mail_contents (lc_db z))" "Verify sample_sha (sample_senv []) \<lparr>cr_key = mc_key c, cr_size = mc_size c\<rparr> (lc_store z) = Inr ()"
    unfolding l(1) by auto
  with run l(3) m(2) show ?thesis by blast
qed

end
