(* ===== verification/Parse_Queue.thy ===== *)
theory Parse_Queue
  imports Mailbox_Repository
begin

text \<open>
  \<^verbatim>\<open>internal/postgres/content_parse_repository.go\<close>: the durable queue of content to parse. A worker
  owns a row through a lease token; every outcome it reports is fenced by that token.
\<close>

section \<open>Claims\<close>

record parse_claim =
  pq_content :: content_ref
  pq_token :: string
  pq_attempt :: int

definition validParseErrorCode :: "string \<Rightarrow> bool" where
  "validParseErrorCode value =
     (if length value = 0 \<or> length value > 64 \<or> \<not> in_range CHR ''a'' CHR ''z'' (hd value) then False
      else list_all (\<lambda>c. in_range CHR ''a'' CHR ''z'' c \<or> in_range CHR ''0'' CHR ''9'' c \<or> c = CHR ''_'') (tl value))"

definition validateParseClaim :: "(string \<Rightarrow> string option) \<Rightarrow> parse_claim \<Rightarrow> unit result" where
  "validateParseClaim canon claim =
     (case content_ref_validate (pq_content claim) of
        Inl e \<Rightarrow> Inl e
      | Inr _ \<Rightarrow>
          if canon (pq_token claim) = None then Inl (OtherError ''content parse lease token must be a UUID'')
          else if pq_attempt claim \<le> 0 then Inl (OtherError ''content parse attempt must be positive'')
          else Inr ())"

section \<open>Statements\<close>

text \<open>Rows that are due: pending ones, and processing ones whose lease has run out.\<close>

definition claimable :: "time \<Rightarrow> content_row \<Rightarrow> bool" where
  "claimable now c \<longleftrightarrow> (mc_parse_status c = ''pending'' \<and> mc_available_at c \<le> now) \<or>
     (mc_parse_status c = ''processing'' \<and> (case mc_lease_until c of None \<Rightarrow> False | Some t \<Rightarrow> t \<le> now))"

definition claim_candidate :: "time \<Rightarrow> string set \<Rightarrow> db \<Rightarrow> content_row option" where
  "claim_candidate now locked d =
     (case sort_key (\<lambda>c. (mc_available_at c, mc_created c, mc_key c))
        (filter (\<lambda>c. claimable now c \<and> mc_key c \<notin> locked) (mail_contents d)) of
        [] \<Rightarrow> None
      | c # _ \<Rightarrow> Some c)"

definition update_content :: "string \<Rightarrow> (content_row \<Rightarrow> content_row) \<Rightarrow> db \<Rightarrow> db" where
  "update_content k f d = d\<lparr>mail_contents := map (\<lambda>c. if mc_key c = k then f c else c) (mail_contents d)\<rparr>"

definition claimed_row :: "time \<Rightarrow> string \<Rightarrow> duration \<Rightarrow> content_row \<Rightarrow> content_row" where
  "claimed_row now token micros c = c\<lparr>mc_parse_status := ''processing'', mc_parse_attempts := mc_parse_attempts c + 1,
     mc_lease_token := Some token, mc_lease_until := Some (now + micros * 1000), mc_updated := now\<rparr>"

definition sql_claim :: "time \<Rightarrow> string set \<Rightarrow> string \<Rightarrow> duration \<Rightarrow> content_row option stmt" where
  "sql_claim now locked token micros d =
     (case claim_candidate now locked d of
        None \<Rightarrow> Inr (None, d)
      | Some c \<Rightarrow> Inr (Some (claimed_row now token micros c), update_content (mc_key c) (claimed_row now token micros) d))"

text \<open>The fence in the \<^verbatim>\<open>WHERE\<close> clause of every outcome.\<close>

definition owns :: "string \<Rightarrow> string \<Rightarrow> content_row \<Rightarrow> bool" where
  "owns k token c \<longleftrightarrow> mc_key c = k \<and> mc_parse_status c = ''processing'' \<and> mc_lease_token c = Some token"

definition sql_fenced :: "string \<Rightarrow> string \<Rightarrow> (content_row \<Rightarrow> content_row) \<Rightarrow> nat stmt" where
  "sql_fenced k token f d =
     (if list_all (\<lambda>c. owns k token c \<longrightarrow> content_row_ok (f c)) (mail_contents d)
      then Inr (length (filter (owns k token) (mail_contents d)),
        d\<lparr>mail_contents := map (\<lambda>c. if owns k token c then f c else c) (mail_contents d)\<rparr>)
      else Inl (CheckViolation ''mail_contents''))"

definition parsed_row :: "time \<Rightarrow> content_row \<Rightarrow> content_row" where
  "parsed_row parsedAt c = c\<lparr>mc_parse_status := ''parsed'', mc_lease_token := None, mc_lease_until := None,
     mc_error_code := None, mc_updated := parsedAt\<rparr>"

definition finished_row :: "time \<Rightarrow> string \<Rightarrow> string option \<Rightarrow> time \<Rightarrow> bool \<Rightarrow> content_row \<Rightarrow> content_row" where
  "finished_row now status code availableAt decrement c = c\<lparr>mc_parse_status := status,
     mc_parse_attempts := (if decrement then max (mc_parse_attempts c - 1) 0 else mc_parse_attempts c),
     mc_available_at := availableAt, mc_lease_token := None, mc_lease_until := None, mc_error_code := code, mc_updated := now\<rparr>"

text \<open>The row of the result: PostgreSQL refuses texts it cannot encode, then rows that violate a constraint.\<close>

definition sql_upsert_parse :: "parse_row \<Rightarrow> unit stmt" where
  "sql_upsert_parse row d =
     (if \<not> encodable (pr_parsed row) then Inl (DriverError (OtherError ''invalid text representation''))
      else if \<not> parse_checks row then Inl (CheckViolation ''mail_content_parses'')
      else if pr_key row \<notin> mc_key ` set (mail_contents d) then Inl (ForeignKeyViolation ''mail_content_parses_content_key_fkey'')
      else if pr_key row \<in> pr_key ` set (content_parses d)
        then Inr ((), d\<lparr>content_parses := map (\<lambda>p. if pr_key p = pr_key row then row else p) (content_parses d)\<rparr>)
      else Inr ((), d\<lparr>content_parses := content_parses d @ [row]\<rparr>))"

section \<open>Operations\<close>

definition ClaimContent :: "time \<Rightarrow> string set \<Rightarrow> string \<Rightarrow> duration \<Rightarrow> fault \<Rightarrow> db \<Rightarrow> parse_claim option result \<times> db" where
  "ClaimContent now locked token leaseDuration flt d =
     (if leaseDuration \<le> 0 then (Inl (OtherError ''content parse lease duration must be positive''), d)
      else case run_stmt sql_wrap (sql_claim now locked token (leaseDuration div 1000)) flt d of
          (Inl e, d') \<Rightarrow> (Inl e, d')
        | (Inr None, d') \<Rightarrow> (Inr None, d')
        | (Inr (Some c), d') \<Rightarrow>
            (Inr (Some \<lparr>pq_content = \<lparr>cr_key = mc_key c, cr_size = mc_size c\<rparr>, pq_token = token, pq_attempt = mc_parse_attempts c\<rparr>), d'))"

definition complete_tx :: "(string \<Rightarrow> string option) \<Rightarrow> parse_claim \<Rightarrow> parse_row \<Rightarrow> unit tx" where
  "complete_tx canon claim row =
     tx_bind (stmt sql_wrap (with_uuid canon (pq_token claim) (\<lambda>token. sql_fenced (cr_key (pq_content claim)) token (parsed_row (pr_parsed_at row))))) (\<lambda>rows.
       if rows \<noteq> 1 then tx_fail ErrStaleParseClaim
       else stmt sql_wrap (sql_upsert_parse row))"

definition CompleteContent :: "(string \<Rightarrow> string option) \<Rightarrow> parse_claim \<Rightarrow> int \<Rightarrow> parsed_message \<Rightarrow> time \<Rightarrow> (nat \<Rightarrow> fault) \<Rightarrow> db \<Rightarrow> unit result \<times> db" where
  "CompleteContent canon claim revision parsed parsedAt flt d =
     (case validateParseClaim canon claim of
        Inl e \<Rightarrow> (Inl e, d)
      | Inr _ \<Rightarrow>
          if revision \<le> 0 then (Inl (OtherError ''parser revision must be positive''), d)
          else if is_zero_time parsedAt then (Inl (OtherError ''parsed time is required''), d)
          else run_tx (complete_tx canon claim \<lparr>pr_key = cr_key (pq_content claim), pr_revision = revision,
                 pr_parsed = parsed, pr_parsed_at = parsedAt\<rparr>) flt d)"

definition finishClaim :: "(string \<Rightarrow> string option) \<Rightarrow> time \<Rightarrow> parse_claim \<Rightarrow> string \<Rightarrow> string \<Rightarrow> time \<Rightarrow> bool \<Rightarrow> fault \<Rightarrow> db \<Rightarrow> unit result \<times> db" where
  "finishClaim canon now claim status code availableAt decrement flt d =
     (case validateParseClaim canon claim of
        Inl e \<Rightarrow> (Inl e, d)
      | Inr _ \<Rightarrow>
          if status \<noteq> ''pending'' \<and> status \<noteq> ''failed'' then (Inl (OtherError ''invalid content parse finish status''), d)
          else if status = ''failed'' \<and> code = [] then (Inl (OtherError ''terminal content parse failure code is required''), d)
          else if code \<noteq> [] \<and> \<not> validParseErrorCode code then (Inl (OtherError ''invalid content parse error code''), d)
          else
            let errorCode = (if code \<noteq> [] then Some code else None) in
            case run_stmt sql_wrap (with_uuid canon (pq_token claim) (\<lambda>token. sql_fenced (cr_key (pq_content claim)) token
                   (finished_row now status errorCode availableAt decrement))) flt d of
              (Inl e, d') \<Rightarrow> (Inl e, d')
            | (Inr rows, d') \<Rightarrow> (if rows \<noteq> 1 then (Inl ErrStaleParseClaim, d') else (Inr (), d')))"

definition RetryContent :: "(string \<Rightarrow> string option) \<Rightarrow> time \<Rightarrow> parse_claim \<Rightarrow> string \<Rightarrow> time \<Rightarrow> fault \<Rightarrow> db \<Rightarrow> unit result \<times> db" where
  "RetryContent canon now claim code availableAt flt d =
     (if is_zero_time availableAt then (Inl (OtherError ''content parse retry time is required''), d)
      else finishClaim canon now claim ''pending'' code availableAt False flt d)"

definition FailContent :: "(string \<Rightarrow> string option) \<Rightarrow> time \<Rightarrow> parse_claim \<Rightarrow> string \<Rightarrow> time \<Rightarrow> fault \<Rightarrow> db \<Rightarrow> unit result \<times> db" where
  "FailContent canon now claim code failedAt flt d =
     (if is_zero_time failedAt then (Inl (OtherError ''content parse failure time is required''), d)
      else finishClaim canon now claim ''failed'' code failedAt False flt d)"

definition ReleaseContent :: "(string \<Rightarrow> string option) \<Rightarrow> time \<Rightarrow> parse_claim \<Rightarrow> time \<Rightarrow> fault \<Rightarrow> db \<Rightarrow> unit result \<times> db" where
  "ReleaseContent canon now claim availableAt flt d =
     (if is_zero_time availableAt then (Inl (OtherError ''content parse release time is required''), d)
      else finishClaim canon now claim ''pending'' [] availableAt True flt d)"

section \<open>What a worker may report\<close>

text \<open>The four outcomes of the \<^verbatim>\<open>jobs.ParseQueue\<close> interface, dispatched to the repository.\<close>

datatype parse_report =
    Completed int parsed_message time
  | Retried string time
  | Failed string time
  | Released time

fun report :: "(string \<Rightarrow> string option) \<Rightarrow> time \<Rightarrow> parse_claim \<Rightarrow> parse_report \<Rightarrow> (nat \<Rightarrow> fault) \<Rightarrow> db \<Rightarrow> unit result \<times> db" where
  "report canon now claim (Completed revision parsed at) flt d = CompleteContent canon claim revision parsed at flt d"
| "report canon now claim (Retried code at) flt d = RetryContent canon now claim code at (flt 0) d"
| "report canon now claim (Failed code at) flt d = FailContent canon now claim code at (flt 0) d"
| "report canon now claim (Released at) flt d = ReleaseContent canon now claim at (flt 0) d"

fun report_valid :: "parse_report \<Rightarrow> bool" where
  "report_valid (Completed revision parsed at) \<longleftrightarrow> 0 < revision \<and> \<not> is_zero_time at"
| "report_valid (Retried code at) \<longleftrightarrow> \<not> is_zero_time at \<and> (code = [] \<or> validParseErrorCode code)"
| "report_valid (Failed code at) \<longleftrightarrow> \<not> is_zero_time at \<and> validParseErrorCode code"
| "report_valid (Released at) \<longleftrightarrow> \<not> is_zero_time at"

text \<open>Whether the table takes the result a report carries.\<close>

fun report_fits :: "string \<Rightarrow> parse_report \<Rightarrow> bool" where
  "report_fits k (Completed revision parsed at) \<longleftrightarrow>
     parse_row_ok \<lparr>pr_key = k, pr_revision = revision, pr_parsed = parsed, pr_parsed_at = at\<rparr>"
| "report_fits k _ \<longleftrightarrow> True"

text \<open>The row a report leaves behind; \<open>now\<close> is the clock of the database.\<close>

fun reported_row :: "time \<Rightarrow> parse_report \<Rightarrow> content_row \<Rightarrow> content_row" where
  "reported_row now (Completed revision parsed at) = parsed_row at"
| "reported_row now (Retried code at) = finished_row now ''pending'' (if code = [] then None else Some code) at False"
| "reported_row now (Failed code at) = finished_row now ''failed'' (Some code) at False"
| "reported_row now (Released at) = finished_row now ''pending'' None at True"

fun reported_parses :: "string \<Rightarrow> parse_report \<Rightarrow> parse_row list \<Rightarrow> parse_row list" where
  "reported_parses k (Completed revision parsed at) ps =
     (let row = \<lparr>pr_key = k, pr_revision = revision, pr_parsed = parsed, pr_parsed_at = at\<rparr> in
      if k \<in> pr_key ` set ps then map (\<lambda>p. if pr_key p = k then row else p) ps else ps @ [row])"
| "reported_parses k _ ps = ps"

definition reported :: "time \<Rightarrow> string \<Rightarrow> parse_report \<Rightarrow> db \<Rightarrow> db" where
  "reported now k rep d = d\<lparr>mail_contents := map (\<lambda>c. if mc_key c = k then reported_row now rep c else c) (mail_contents d),
     content_parses := reported_parses k rep (content_parses d)\<rparr>"

text \<open>A claim is current while its content row still carries its lease token.\<close>

definition claim_current :: "(string \<Rightarrow> string option) \<Rightarrow> parse_claim \<Rightarrow> db \<Rightarrow> bool" where
  "claim_current canon claim d \<longleftrightarrow>
     (case canon (pq_token claim) of None \<Rightarrow> False | Some token \<Rightarrow> list_ex (owns (cr_key (pq_content claim)) token) (mail_contents d))"

section \<open>Fencing\<close>

lemma validParseErrorCode_nonempty: "validParseErrorCode code \<Longrightarrow> code \<noteq> []"
  by (auto simp: validParseErrorCode_def)

lemma sql_fenced_stale:
  assumes "\<not> list_ex (owns k token) (mail_contents d)"
  shows "sql_fenced k token f d = Inr (0, d)"
proof -
  have none: "\<forall>c\<in>set (mail_contents d). \<not> owns k token c" using assms by (simp add: list_ex_iff)
  then have "map (\<lambda>c. if owns k token c then f c else c) (mail_contents d) = mail_contents d"
    by (intro map_idI) simp
  moreover have "filter (owns k token) (mail_contents d) = []" using none by (simp add: filter_empty_conv)
  ultimately show ?thesis using none by (simp add: sql_fenced_def list_all_iff)
qed

lemma fenced_stmt_stale:
  assumes "\<not> claim_current canon claim d" and "validateParseClaim canon claim = Inr ()"
  shows "with_uuid canon (pq_token claim) (\<lambda>token. sql_fenced (cr_key (pq_content claim)) token f) d = Inr (0, d)"
  using assms by (auto simp: with_uuid_def claim_current_def validateParseClaim_def sql_fenced_stale split: option.splits sum.splits)

lemma sql_fenced_owner:
  assumes "wf_contents d" and "list_ex (owns k token) (mail_contents d)"
    and "\<And>c. c \<in> set (mail_contents d) \<Longrightarrow> owns k token c \<Longrightarrow> content_row_ok (f c)"
  shows "sql_fenced k token f d = Inr (1, update_content k f d)"
proof -
  obtain c where c: "c \<in> set (mail_contents d)" "owns k token c" using assms(2) by (auto simp: list_ex_iff)
  have dist: "distinct (map mc_key (mail_contents d))" using assms(1) by (simp add: wf_contents_def)
  have same: "owns k token x \<longleftrightarrow> mc_key x = k" if "x \<in> set (mail_contents d)" for x
    using that c dist by (auto simp: owns_def distinct_map dest: inj_onD)
  have "filter (owns k token) (mail_contents d) = filter (\<lambda>x. mc_key x = k) (mail_contents d)"
    using same by (intro filter_cong) auto
  also have "\<dots> = [c]" using filter_key_singleton[OF dist c(1)] c(2) by (simp add: owns_def)
  finally have "length (filter (owns k token) (mail_contents d)) = 1" by simp
  moreover have "map (\<lambda>x. if owns k token x then f x else x) (mail_contents d) =
      map (\<lambda>x. if mc_key x = k then f x else x) (mail_contents d)"
    using same by (intro map_cong) auto
  ultimately show ?thesis using assms(3) by (simp add: sql_fenced_def update_content_def list_all_iff)
qed

lemma report_stale:
  assumes "\<not> claim_current canon claim d"
  shows "snd (report canon now claim rep flt d) = d \<and> (\<exists>e. fst (report canon now claim rep flt d) = Inl e)"
proof (cases "validateParseClaim canon claim")
  case (Inl e)
  then show ?thesis
    by (cases rep) (auto simp: CompleteContent_def RetryContent_def FailContent_def ReleaseContent_def finishClaim_def)
next
  case (Inr u)
  note stale = fenced_stmt_stale[OF assms, simplified Inr, simplified]
  have fin: "snd (finishClaim canon now claim status code at dec f d) = d \<and>
      (\<exists>e. fst (finishClaim canon now claim status code at dec f d) = Inl e)" for status code at dec f
    using stale Inr by (cases f) (auto simp: finishClaim_def Let_def run_stmt_def)
  have tx: "\<exists>e s'. complete_tx canon claim row f (n, d) = (Inl e, s')" for row f n
    using stale Inr by (cases "fault_error (f n)") (auto simp: complete_tx_def tx_bind_def tx_fail_def)
  have "snd (CompleteContent canon claim rev parsed at f d) = d \<and>
      (\<exists>e. fst (CompleteContent canon claim rev parsed at f d) = Inl e)" for rev parsed at f
    using tx[of "\<lparr>pr_key = cr_key (pq_content claim), pr_revision = rev, pr_parsed = parsed, pr_parsed_at = at\<rparr>" f 1] Inr
    by (auto simp: CompleteContent_def run_tx_def split: option.splits)
  then show ?thesis using fin
    by (cases rep) (auto simp: RetryContent_def FailContent_def ReleaseContent_def)
qed

lemma report_stale_error:
  assumes "\<not> claim_current canon claim d" and "validateParseClaim canon claim = Inr ()" and "report_valid rep"
  shows "fst (report canon now claim rep (\<lambda>_. NoFault) d) = Inl ErrStaleParseClaim"
  using fenced_stmt_stale[OF assms(1,2)] assms(2,3) validParseErrorCode_nonempty
  by (cases rep) (auto simp: CompleteContent_def RetryContent_def FailContent_def ReleaseContent_def finishClaim_def
      Let_def run_stmt_def run_tx_def complete_tx_def tx_bind_def tx_fail_def)

section \<open>Exact effect of a current claim\<close>

lemma db_wf_update_content:
  assumes "db_wf d" and "\<And>c. c \<in> set (mail_contents d) \<Longrightarrow> mc_key c = k \<Longrightarrow> mc_key (f c) = k \<and> content_row_ok (f c)"
  shows "db_wf (update_content k f d)"
proof -
  let ?g = "\<lambda>c. if mc_key c = k then f c else c"
  have keys: "map mc_key (map ?g (mail_contents d)) = map mc_key (mail_contents d)"
    using assms(2) by (auto simp: comp_def)
  then have img: "mc_key ` set (map ?g (mail_contents d)) = mc_key ` set (mail_contents d)"
    by (metis set_map)
  have "list_all content_row_ok (map ?g (mail_contents d))"
    using assms by (auto simp: list_all_iff db_wf_def wf_contents_def)
  then show ?thesis
    using assms(1) img arg_cong[OF keys, of distinct]
    by (simp add: db_wf_def wf_tables update_content_def del: set_map map_map list.map_comp)
qed

lemma update_content_keys:
  assumes "\<And>c. mc_key (f c) = mc_key c"
  shows "mc_key ` set (mail_contents (update_content k f d)) = mc_key ` set (mail_contents d)"
proof -
  have "map mc_key (mail_contents (update_content k f d)) = map mc_key (mail_contents d)"
    using assms by (simp add: update_content_def comp_def)
  then show ?thesis by (metis set_map)
qed

lemma reported_row_key [simp]: "mc_key (reported_row now rep c) = mc_key c"
  by (cases rep) (simp_all add: parsed_row_def finished_row_def)

lemma reported_row_ok:
  assumes "content_row_ok c" and "report_valid rep"
  shows "content_row_ok (reported_row now rep c)"
  using assms by (cases rep) (auto simp: content_row_ok_def parse_lease_valid_def parse_terminal_valid_def parsed_row_def finished_row_def)

lemma reported_parses_wf:
  assumes "wf_parses d" and "k \<in> mc_key ` set (mail_contents d)" and "report_fits k rep"
  shows "distinct (map pr_key (reported_parses k rep (content_parses d))) \<and>
    (\<forall>p \<in> set (reported_parses k rep (content_parses d)). pr_key p \<in> mc_key ` set (mail_contents d) \<and> parse_row_ok p)"
proof (cases rep)
  case (Completed revision parsed at)
  let ?row = "\<lparr>pr_key = k, pr_revision = revision, pr_parsed = parsed, pr_parsed_at = at\<rparr>"
  have keys: "map pr_key (map (\<lambda>p. if pr_key p = k then ?row else p) ps) = map pr_key ps" for ps :: "parse_row list"
    by (auto simp: comp_def)
  then have "distinct (map pr_key (map (\<lambda>p. if pr_key p = k then ?row else p) (content_parses d)))"
    using assms(1) by (simp add: wf_parses_def del: map_map)
  then show ?thesis using assms Completed by (auto simp: wf_parses_def list_all_iff Let_def)
qed (use assms in \<open>auto simp: wf_parses_def list_all_iff\<close>)

lemma reported_update: "reported now k rep d =
    (update_content k (reported_row now rep) d)\<lparr>content_parses := reported_parses k rep (content_parses d)\<rparr>"
  by (simp add: reported_def update_content_def)

lemma reported_wf:
  assumes "db_wf d" and "report_valid rep" and "k \<in> mc_key ` set (mail_contents d)" and "report_fits k rep"
  shows "db_wf (reported now k rep d)"
proof -
  let ?d = "update_content k (reported_row now rep) d"
  have "db_wf ?d" using assms(1,2)
    by (intro db_wf_update_content) (auto intro!: reported_row_ok simp: db_wf_def wf_contents_def list_all_iff)
  moreover have "mc_key ` set (mail_contents ?d) = mc_key ` set (mail_contents d)"
    by (rule update_content_keys) simp
  moreover have "wf_parses d" using assms(1) by (simp add: db_wf_def)
  moreover note reported_parses_wf[OF calculation(3) assms(3,4)]
  ultimately have "wf_parses (?d\<lparr>content_parses := reported_parses k rep (content_parses d)\<rparr>)"
    by (simp add: wf_parses_def list_all_iff)
  with \<open>db_wf ?d\<close> show ?thesis by (simp add: reported_update db_wf_def wf_tables)
qed

lemma fenced_stmt_current:
  assumes "db_wf d" and "claim_current canon claim d" and "\<And>c. content_row_ok c \<Longrightarrow> content_row_ok (f c)"
  shows "with_uuid canon (pq_token claim) (\<lambda>token. sql_fenced (cr_key (pq_content claim)) token f) d =
    Inr (1, update_content (cr_key (pq_content claim)) f d)"
proof -
  obtain token where t: "canon (pq_token claim) = Some token" "list_ex (owns (cr_key (pq_content claim)) token) (mail_contents d)"
    using assms(2) by (auto simp: claim_current_def split: option.splits)
  have "wf_contents d" using assms(1) by (simp add: db_wf_def)
  then have "sql_fenced (cr_key (pq_content claim)) token f d = Inr (1, update_content (cr_key (pq_content claim)) f d)"
    using t(2) assms(3) by (intro sql_fenced_owner) (auto simp: wf_contents_def list_all_iff)
  then show ?thesis using t(1) by (simp add: with_uuid_def)
qed

lemma claim_current_key:
  "claim_current canon claim d \<Longrightarrow> cr_key (pq_content claim) \<in> mc_key ` set (mail_contents d)"
  by (auto simp: claim_current_def list_ex_iff owns_def intro: rev_image_eqI split: option.splits)

lemma finishClaim_current:
  assumes "db_wf d" and "claim_current canon claim d" and "validateParseClaim canon claim = Inr ()"
    and "status = ''pending'' \<or> status = ''failed'' \<and> code \<noteq> []" and "code = [] \<or> validParseErrorCode code"
  shows "finishClaim canon now claim status code at dec flt d =
    (case flt of
       NoFault \<Rightarrow> (Inr (), update_content (cr_key (pq_content claim)) (finished_row now status (if code = [] then None else Some code) at dec) d)
     | Fail e \<Rightarrow> (Inl e, d)
     | LostAck e \<Rightarrow> (Inl e, update_content (cr_key (pq_content claim)) (finished_row now status (if code = [] then None else Some code) at dec) d))"
proof -
  have "content_row_ok (finished_row now status (if code = [] then None else Some code) at dec c)" if "content_row_ok c" for c
    using that assms(4) by (auto simp: content_row_ok_def finished_row_def parse_lease_valid_def parse_terminal_valid_def)
  note st = fenced_stmt_current[OF assms(1,2) this]
  show ?thesis using st assms(3-5) by (cases "code = []"; cases flt) (auto simp: finishClaim_def Let_def run_stmt_def)
qed

lemma complete_tx_current:
  assumes "db_wf d" and "claim_current canon claim d" and "pr_key row = cr_key (pq_content claim)"
    and "complete_tx canon claim row flt (n, d) = (Inr u, n', d')"
  shows "d' = reported now (cr_key (pq_content claim)) (Completed (pr_revision row) (pr_parsed row) (pr_parsed_at row)) d" and "parse_row_ok row"
proof -
  let ?k = "cr_key (pq_content claim)" and ?d = "update_content (cr_key (pq_content claim)) (parsed_row (pr_parsed_at row)) d"
  have "content_row_ok (parsed_row (pr_parsed_at row) c)" if "content_row_ok c" for c
    using that by (auto simp: content_row_ok_def parsed_row_def parse_lease_valid_def parse_terminal_valid_def)
  note st = fenced_stmt_current[OF assms(1,2) this]
  have "sql_upsert_parse row ?d = Inr ((), d')"
    using assms(4) st by (auto simp: complete_tx_def tx_bind_Inr stmt_Inr simp del: stmt.simps split: if_splits)
  moreover have "row = \<lparr>pr_key = ?k, pr_revision = pr_revision row, pr_parsed = pr_parsed row, pr_parsed_at = pr_parsed_at row\<rparr>"
    using assms(3) by (cases row) simp
  ultimately show "d' = reported now ?k (Completed (pr_revision row) (pr_parsed row) (pr_parsed_at row)) d" and "parse_row_ok row"
    using assms(3) by (auto simp: sql_upsert_parse_def parse_row_ok_def reported_update update_content_def Let_def split: if_splits)
qed

lemma report_cases:
  assumes "db_wf d" and "report canon now claim rep flt d = (r, d')"
  obtains (Unchanged) "d' = d" "\<exists>e. r = Inl e"
    | (Done) "claim_current canon claim d" "report_valid rep" "report_fits (cr_key (pq_content claim)) rep" "d' = reported now (cr_key (pq_content claim)) rep d"
        "r = Inr () \<or> (\<exists>e. r = Inl e)"
proof (cases "claim_current canon claim d \<and> validateParseClaim canon claim = Inr () \<and> report_valid rep")
  case False
  then consider (stale) "\<not> claim_current canon claim d" | (claim) e where "validateParseClaim canon claim = Inl e"
    | (rep) "validateParseClaim canon claim = Inr ()" "\<not> report_valid rep"
    by (cases "validateParseClaim canon claim") auto
  then have "d' = d \<and> (\<exists>e. r = Inl e)"
  proof cases
    case stale
    then show ?thesis using report_stale[OF stale, of now rep flt] assms(2) by simp
  next
    case (claim e)
    then have "(r = Inl e \<or> (\<exists>e'. r = Inl e')) \<and> d' = d" using assms(2)
      by (cases rep) (simp_all add: CompleteContent_def RetryContent_def FailContent_def ReleaseContent_def finishClaim_def split: if_splits, auto)
    then show ?thesis by blast
  next
    case rep
    then show ?thesis using assms(2)
      by (cases rep) (auto simp: CompleteContent_def RetryContent_def FailContent_def ReleaseContent_def finishClaim_def split: if_splits)
  qed
  then show ?thesis using Unchanged by blast
next
  case True
  note fin = finishClaim_current[OF assms(1)]
  have res: "d' = d \<and> (\<exists>e. r = Inl e) \<or>
      d' = reported now (cr_key (pq_content claim)) rep d \<and> report_fits (cr_key (pq_content claim)) rep \<and> (r = Inr () \<or> (\<exists>e. r = Inl e))"
  proof (cases rep)
    case (Completed revision parsed at)
    then have "run_tx (complete_tx canon claim \<lparr>pr_key = cr_key (pq_content claim), pr_revision = revision,
        pr_parsed = parsed, pr_parsed_at = at\<rparr>) flt d = (r, d')"
      using True assms(2) by (simp add: CompleteContent_def)
    then show ?thesis
    proof (cases rule: run_tx_cases)
      case (Done u n)
      then show ?thesis using complete_tx_current[OF assms(1) _ _ Done(1)] True Completed by auto
    qed blast
  qed (use True assms(2) validParseErrorCode_nonempty in \<open>auto simp: RetryContent_def FailContent_def ReleaseContent_def fin
        reported_def update_content_def split: fault.splits\<close>)
  show ?thesis using res Unchanged Done True by blast
qed

lemma report_current:
  assumes "db_wf d" and "claim_current canon claim d" and "validateParseClaim canon claim = Inr ()" and "report_valid rep"
    and "report_fits (cr_key (pq_content claim)) rep"
  shows "report canon now claim rep (\<lambda>_. NoFault) d = (Inr (), reported now (cr_key (pq_content claim)) rep d)"
proof (cases rep)
  case (Completed revision parsed at)
  let ?row = "\<lparr>pr_key = cr_key (pq_content claim), pr_revision = revision, pr_parsed = parsed, pr_parsed_at = at\<rparr>"
  have ok: "content_row_ok (parsed_row at c)" if "content_row_ok c" for c
    using that by (auto simp: content_row_ok_def parsed_row_def parse_lease_valid_def parse_terminal_valid_def)
  have "cr_key (pq_content claim) \<in> mc_key ` set (mail_contents (update_content (cr_key (pq_content claim)) (parsed_row at) d))"
    using claim_current_key[OF assms(2)] by (subst update_content_keys) (simp_all add: parsed_row_def)
  then have "\<exists>n d'. complete_tx canon claim ?row (\<lambda>_. NoFault) (1, d) = (Inr (), n, d')"
    using fenced_stmt_current[OF assms(1,2) ok] assms(5) Completed
    by (auto simp: complete_tx_def tx_bind_def sql_upsert_parse_def parse_row_ok_def)
  then obtain n d' where tx: "complete_tx canon claim ?row (\<lambda>_. NoFault) (1, d) = (Inr (), n, d')" by blast
  have "d' = reported now (cr_key (pq_content claim)) rep d"
    using complete_tx_current(1)[OF assms(1,2) _ tx] Completed by simp
  then show ?thesis using run_tx_no_fault[of "complete_tx canon claim ?row", OF tx] assms(3,4) Completed by (simp add: CompleteContent_def)
qed (use assms(3,4) finishClaim_current[OF assms(1,2,3)] validParseErrorCode_nonempty in
  \<open>auto simp: RetryContent_def FailContent_def ReleaseContent_def reported_def update_content_def\<close>)

text \<open>A result the table does not take is refused, and the claim stays as it was.\<close>

lemma report_unfit:
  assumes "db_wf d" and "\<not> report_fits (cr_key (pq_content claim)) rep"
  shows "\<exists>e. report canon now claim rep flt d = (Inl e, d)"
proof -
  obtain r d' where rp: "report canon now claim rep flt d = (r, d')" by fastforce
  show ?thesis by (rule report_cases[OF assms(1) rp]) (use rp assms(2) in auto)
qed

section \<open>Claiming\<close>

lemma sort_key_Cons_min:
  assumes "sort_key f xs = x # ys"
  shows "x \<in> set xs" and "\<And>y. y \<in> set xs \<Longrightarrow> f x \<le> f y"
proof -
  have eq: "set (x # ys) = set xs" by (metis assms set_sort)
  then show "x \<in> set xs" by auto
  fix y assume "y \<in> set xs"
  then have "y \<in> set (x # ys)" using eq by simp
  moreover have "sorted (map f (x # ys))" by (metis assms sorted_sort_key)
  ultimately show "f x \<le> f y" by auto
qed

lemma claim_candidate_Some:
  assumes "claim_candidate now locked d = Some c"
  shows "c \<in> set (mail_contents d)" and "claimable now c" and "mc_key c \<notin> locked"
    and "\<And>x. x \<in> set (mail_contents d) \<Longrightarrow> claimable now x \<Longrightarrow> mc_key x \<notin> locked \<Longrightarrow>
      (mc_available_at c, mc_created c, mc_key c) \<le> (mc_available_at x, mc_created x, mc_key x)"
proof -
  let ?f = "\<lambda>c. (mc_available_at c, mc_created c, mc_key c)"
  let ?xs = "filter (\<lambda>c. claimable now c \<and> mc_key c \<notin> locked) (mail_contents d)"
  obtain ys where "sort_key ?f ?xs = c # ys"
    using assms by (auto simp: claim_candidate_def split: list.splits)
  note m = sort_key_Cons_min[OF this]
  show "c \<in> set (mail_contents d)" and "claimable now c" and "mc_key c \<notin> locked" using m(1) by simp_all
  show "?f c \<le> ?f x" if "x \<in> set (mail_contents d)" "claimable now x" "mc_key x \<notin> locked" for x
    using that m(2)[of x] by simp
qed

lemma claimed_row_ok: "content_row_ok c \<Longrightarrow> content_row_ok (claimed_row now token micros c)"
  by (auto simp: content_row_ok_def claimed_row_def parse_lease_valid_def parse_terminal_valid_def)

lemma claimed_row_key [simp]: "mc_key (claimed_row now token micros c) = mc_key c"
  by (simp add: claimed_row_def)

lemma ClaimContent_Some:
  assumes "ClaimContent now locked token lease flt d = (Inr (Some claim), d')"
  obtains c where "0 < lease" and "claim_candidate now locked d = Some c"
    and "claim = \<lparr>pq_content = \<lparr>cr_key = mc_key c, cr_size = mc_size c\<rparr>, pq_token = token, pq_attempt = mc_parse_attempts c + 1\<rparr>"
    and "d' = update_content (mc_key c) (claimed_row now token (lease div 1000)) d"
  using assms that
  by (auto simp: ClaimContent_def run_stmt_def sql_claim_def claimed_row_def split: if_splits fault.splits option.splits sum.splits prod.splits)

lemma ClaimContent_wf:
  assumes "db_wf d" and "ClaimContent now locked token lease flt d = (r, d')"
  shows "db_wf d'"
proof -
  have up: "db_wf (update_content (mc_key c) (claimed_row now token (lease div 1000)) d)" if "claim_candidate now locked d = Some c" for c
    using assms(1) by (intro db_wf_update_content) (auto intro!: claimed_row_ok simp: db_wf_def wf_contents_def list_all_iff)
  show ?thesis using assms up
    by (auto simp: ClaimContent_def run_stmt_def sql_claim_def split: if_splits fault.splits option.splits sum.splits prod.splits)
qed

lemma ClaimContent_current:
  assumes "db_wf d" and "ClaimContent now locked token lease flt d = (Inr (Some claim), d')" and "canon token = Some token"
  shows "claim_current canon claim d'" and "validateParseClaim canon claim = Inr ()"
proof -
  obtain c where c: "claim_candidate now locked d = Some c"
    "claim = \<lparr>pq_content = \<lparr>cr_key = mc_key c, cr_size = mc_size c\<rparr>, pq_token = token, pq_attempt = mc_parse_attempts c + 1\<rparr>"
    "d' = update_content (mc_key c) (claimed_row now token (lease div 1000)) d"
    using ClaimContent_Some[OF assms(2)] by metis
  note mem = claim_candidate_Some(1)[OF c(1)]
  then have "claimed_row now token (lease div 1000) c \<in> set (mail_contents d')"
    unfolding c(3) update_content_def by force
  moreover have "owns (mc_key c) token (claimed_row now token (lease div 1000) c)" by (simp add: owns_def claimed_row_def)
  ultimately show "claim_current canon claim d'" using c(2) assms(3) by (auto simp: claim_current_def list_ex_iff)
  have "content_row_ok c" using mem assms(1) by (auto simp: db_wf_def wf_contents_def list_all_iff)
  then have "content_ref_validate \<lparr>cr_key = mc_key c, cr_size = mc_size c\<rparr> = Inr ()" "0 \<le> mc_parse_attempts c"
    by (auto simp: content_row_ok_def key_valid_ref)
  then show "validateParseClaim canon claim = Inr ()" using c(2) assms(3) by (simp add: validateParseClaim_def)
qed

lemma reported_not_current: "\<not> claim_current canon claim (reported now (cr_key (pq_content claim)) rep d)"
proof -
  have "\<not> owns k token (reported_row now rep c)" for k token and c :: content_row
    by (cases rep) (auto simp: owns_def parsed_row_def finished_row_def)
  moreover have "\<not> owns k token c" if "mc_key c \<noteq> k" for k token and c :: content_row using that by (simp add: owns_def)
  ultimately have "\<not> list_ex (owns k token) (mail_contents (reported now k rep d))" for k token
    by (auto simp: list_ex_iff reported_def)
  then show ?thesis by (simp add: claim_current_def split: option.splits)
qed

lemma takeover_not_current:
  assumes "ClaimContent now locked token lease flt d = (Inr (Some b), d')"
    and "cr_key (pq_content a) = cr_key (pq_content b)" and "canon (pq_token a) \<noteq> Some token"
  shows "\<not> claim_current canon a d'"
proof -
  obtain c :: content_row where c: "b = \<lparr>pq_content = \<lparr>cr_key = mc_key c, cr_size = mc_size c\<rparr>, pq_token = token, pq_attempt = mc_parse_attempts c + 1\<rparr>"
    "d' = update_content (mc_key c) (claimed_row now token (lease div 1000)) d"
    using ClaimContent_Some[OF assms(1)] by metis
  have "\<not> owns (mc_key c) u x" if "x \<in> set (mail_contents d')" "u \<noteq> token" for u x
    using that by (auto simp: c(2) update_content_def owns_def claimed_row_def)
  then show ?thesis using assms(2,3) c(1) by (auto simp: claim_current_def list_ex_iff split: option.splits)
qed

section \<open>Properties\<close>

text \<open>
  C31. The lease token fences the parse queue: once a worker has claimed a content row, whatever a worker with another
  token reports for that content is refused with \<^verbatim>\<open>ErrStaleParseClaim\<close> and changes nothing, while
  the report of the claiming worker succeeds and has its effect, provided that the table \<^verbatim>\<open>mail_content_parses\<close> takes
  the result it carries; a result that violates a constraint of that table is refused and changes nothing.
\<close>

theorem lost_lease_is_fenced:
  assumes "db_wf d" and "ClaimContent now locked token lease flt d = (Inr (Some b), d1)" and "canon token = Some token"
    and "cr_key (pq_content a) = cr_key (pq_content b)" and "canon (pq_token a) \<noteq> Some token"
  shows "(\<exists>e. report canon t a rep flt' d1 = (Inl e, d1)) \<and>
    (validateParseClaim canon a = Inr () \<and> report_valid rep \<longrightarrow>
       report canon t a rep (\<lambda>_. NoFault) d1 = (Inl ErrStaleParseClaim, d1)) \<and>
    (report_valid rep \<and> report_fits (cr_key (pq_content b)) rep \<longrightarrow>
       report canon t b rep (\<lambda>_. NoFault) d1 = (Inr (), reported t (cr_key (pq_content b)) rep d1)) \<and>
    (\<not> report_fits (cr_key (pq_content b)) rep \<longrightarrow> (\<exists>e. report canon t b rep flt' d1 = (Inl e, d1)))"
proof -
  have stale: "\<not> claim_current canon a d1" using assms(2,4,5) by (rule takeover_not_current)
  show ?thesis
    using report_stale[OF stale, of t rep flt'] report_stale[OF stale, of t rep "\<lambda>_. NoFault"] report_stale_error[OF stale, of rep t]
      report_current[OF ClaimContent_wf[OF assms(1,2)] ClaimContent_current[where canon = canon, OF assms(1-3)], of rep t]
      report_unfit[OF ClaimContent_wf[OF assms(1,2)], of b rep canon t flt']
    by (auto simp: prod_eq_iff)
qed

text \<open>
  Reports refine one atomic update: whatever the driver does, a report either fails and leaves the database alone,
  or the claim was current and exactly that content row (and, for a completed parse, its parse row) is updated. The
  schema's constraints are kept, and a claim that was reported is no longer current, so it cannot be reported twice.
\<close>

theorem parse_report_atomic:
  assumes "db_wf d" and "report canon now claim rep flt d = (r, d')"
  shows "db_wf d' \<and>
    ((d' = d \<and> (\<exists>e. r = Inl e)) \<or>
     (claim_current canon claim d \<and> report_valid rep \<and> report_fits (cr_key (pq_content claim)) rep \<and> d' = reported now (cr_key (pq_content claim)) rep d \<and>
      \<not> claim_current canon claim d'))"
proof (rule report_cases[OF assms])
  assume "d' = d" "\<exists>e. r = Inl e"
  then show ?thesis using assms(1) by simp
next
  assume a: "claim_current canon claim d" "report_valid rep" "report_fits (cr_key (pq_content claim)) rep"
    "d' = reported now (cr_key (pq_content claim)) rep d"
  show ?thesis using reported_wf[OF assms(1) a(2) claim_current_key[OF a(1)] a(3), of now]
      reported_not_current[of canon claim now rep d] a by simp
qed

section \<open>Concrete instances\<close>

definition queue_db :: db where
  "queue_db = empty_db\<lparr>mail_contents := [new_content_row 20 sample_key 5]\<rparr>"

definition queue_claim :: "string \<Rightarrow> parse_claim" where
  "queue_claim token = \<lparr>pq_content = \<lparr>cr_key = sample_key, cr_size = 5\<rparr>, pq_token = token, pq_attempt = 1\<rparr>"

lemma queue_db_wf: "db_wf queue_db"
proof -
  have "content_row_ok (new_content_row 20 sample_key 5)" using sample_key_valid by (intro new_content_row_ok) simp_all
  then show ?thesis
    by (simp add: queue_db_def db_wf_def wf_tables empty_db_def List.map_filter_simps)
qed

lemma queue_claimed:
  "ClaimContent 30 {} token 1000000 NoFault queue_db =
     (Inr (Some (queue_claim token)), update_content sample_key (claimed_row 30 token 1000) queue_db)"
  by (simp add: ClaimContent_def run_stmt_def sql_claim_def claim_candidate_def claimable_def queue_db_def new_content_row_def
      empty_db_def claimed_row_def queue_claim_def)

theorem lost_lease_is_fenced_witness:
  "fst (report Some 40 (queue_claim ''a'') (Released 40) (\<lambda>_. NoFault) (update_content sample_key (claimed_row 30 ''b'' 1000) queue_db)) =
     Inl ErrStaleParseClaim \<and>
   report Some 40 (queue_claim ''b'') (Released 40) (\<lambda>_. NoFault) (update_content sample_key (claimed_row 30 ''b'' 1000) queue_db) =
     (Inr (), reported 40 sample_key (Released 40) (update_content sample_key (claimed_row 30 ''b'' 1000) queue_db))"
proof -
  have v: "validateParseClaim Some (queue_claim ''a'') = Inr ()"
    using ClaimContent_current(2)[OF queue_db_wf queue_claimed, of Some "''a''"] by simp
  have r: "report_valid (Released 40)" by (simp add: is_zero_time_def zero_time_def)
  show ?thesis
    using lost_lease_is_fenced[where canon = Some and a = "queue_claim ''a''" and t = 40 and rep = "Released 40",
        OF queue_db_wf queue_claimed[of "''b''"]] v r
    by (simp add: queue_claim_def)
qed

theorem parse_report_atomic_witness:
  "db_wf (snd (report Some 40 (queue_claim ''b'') (Released 40) (\<lambda>_. NoFault) (update_content sample_key (claimed_row 30 ''b'' 1000) queue_db)))"
  by (rule conjunct1[OF parse_report_atomic[OF ClaimContent_wf[OF queue_db_wf queue_claimed] prod.collapse[symmetric]]])

end
