(* ===== verification/Parser_Worker.thy ===== *)
theory Parser_Worker
  imports Parse_Queue Content_Store
begin

text \<open>
  \<^verbatim>\<open>internal/jobs/parser.go\<close>: the worker that claims content, parses it behind a verifying reader and
  reports the outcome to the queue. The MIME parser is any program that reads from the verifier and returns; it is a
  value of the datatype \<open>reader_program\<close>, which the worker runs.
\<close>

section \<open>Options\<close>

record parser_options =
  po_Workers :: int
  po_PollInterval :: duration
  po_ParseTimeout :: duration
  po_LeaseDuration :: duration
  po_MaxAttempts :: int
  po_RetryBase :: duration
  po_RetryMax :: duration

definition NewParserWorker :: "bool \<Rightarrow> bool \<Rightarrow> bool \<Rightarrow> bool \<Rightarrow> parser_options \<Rightarrow> parser_options result" where
  "NewParserWorker has_queue has_source has_parser has_logger opts =
     (if \<not> has_queue then Inl (OtherError ''content parse queue is required'')
      else if \<not> has_source then Inl (OtherError ''raw content source is required'')
      else if \<not> has_parser then Inl (OtherError ''MIME parser is required'')
      else if \<not> has_logger then Inl (OtherError ''parser worker logger is required'')
      else if po_Workers opts \<le> 0 \<or> po_Workers opts > 64 then Inl (OtherError ''parser worker count must be between 1 and 64'')
      else if po_PollInterval opts \<le> 0 \<or> po_ParseTimeout opts \<le> 0 \<or> po_LeaseDuration opts \<le> 0
        then Inl (OtherError ''parser worker durations must be positive'')
      else if po_LeaseDuration opts \<le> po_ParseTimeout opts then Inl (OtherError ''parser lease duration must exceed parse timeout'')
      else if po_MaxAttempts opts \<le> 0 \<or> po_MaxAttempts opts > 100 then Inl (OtherError ''parser max attempts must be between 1 and 100'')
      else if po_RetryBase opts \<le> 0 \<or> po_RetryMax opts < po_RetryBase opts then Inl (OtherError ''parser retry bounds are invalid'')
      else Inr opts)"

text \<open>
  The doubling loop of \<^verbatim>\<open>retryDelay\<close> on 64-bit durations; \<open>fuel\<close> counts the iterations that remain
  until \<^verbatim>\<open>current\<close> reaches \<^verbatim>\<open>attempt\<close>.
\<close>

fun retry_loop :: "parser_options \<Rightarrow> nat \<Rightarrow> duration \<Rightarrow> duration" where
  "retry_loop opts 0 delay = (if delay > po_RetryMax opts then po_RetryMax opts else delay)"
| "retry_loop opts (Suc fuel) delay =
     (if delay < po_RetryMax opts then
        if delay > po_RetryMax opts div 2 then po_RetryMax opts else retry_loop opts fuel (wrap64 (delay * 2))
      else if delay > po_RetryMax opts then po_RetryMax opts else delay)"

definition retryDelay :: "parser_options \<Rightarrow> int \<Rightarrow> duration" where
  "retryDelay opts attempt = retry_loop opts (nat (attempt - 1)) (po_RetryBase opts)"

text \<open>\<^verbatim>\<open>idleDelay\<close>, with the outcome of the random draw below its exclusive bound.\<close>

definition idleDelay :: "parser_options \<Rightarrow> (int \<Rightarrow> int option) \<Rightarrow> duration" where
  "idleDelay opts draw =
     (let jitterLimit = po_PollInterval opts div 5 in
      if jitterLimit \<le> 0 then po_PollInterval opts
      else case draw (jitterLimit + 1) of None \<Rightarrow> po_PollInterval opts | Some jitter \<Rightarrow> po_PollInterval opts + jitter)"

section \<open>Errors\<close>

text \<open>An error chain as far as \<^verbatim>\<open>errors.Is\<close> and \<^verbatim>\<open>errors.As\<close> look at it.\<close>

datatype parse_error = RawSourceError go_error | RawContentCorruptError | PlainError go_error

fun error_is :: "parse_error \<Rightarrow> go_error \<Rightarrow> bool" where
  "error_is (RawSourceError e) t \<longleftrightarrow> e = t"
| "error_is RawContentCorruptError t \<longleftrightarrow> False"
| "error_is (PlainError e) t \<longleftrightarrow> e = t"

definition classifyParseError :: "parse_error \<Rightarrow> go_error option \<Rightarrow> string \<times> bool" where
  "classifyParseError err contextErr =
     (if contextErr = Some DeadlineExceeded \<or> error_is err DeadlineExceeded then (''parse_timeout'', False)
      else if error_is err ErrMessageTooLarge then (''message_too_large'', True)
      else if error_is err ErrHeaderTooLarge then (''header_too_large'', True)
      else if error_is err ErrTooManyHeaders then (''too_many_headers'', True)
      else if error_is err ErrTooManyParts then (''too_many_parts'', True)
      else if error_is err ErrNestingTooDeep then (''nesting_too_deep'', True)
      else if error_is err ErrPartTooLarge then (''part_too_large'', True)
      else if error_is err ErrDecodedContentTooLarge then (''decoded_content_too_large'', True)
      else case err of
          RawSourceError _ \<Rightarrow> (''content_unavailable'', False)
        | RawContentCorruptError \<Rightarrow> (''content_corrupt'', True)
        | PlainError _ \<Rightarrow> (''invalid_mime'', True))"

section \<open>The verifying reader\<close>

text \<open>
  An opened object: the bytes still to come, the error after them, and the sizes at which the file hands out its next
  reads (at least one byte each; full buffers when the list is empty).
\<close>

record raw_source =
  rs_rest :: bytes
  rs_end :: go_error
  rs_caps :: "nat list"

definition source_read :: "nat \<Rightarrow> raw_source \<Rightarrow> (bytes \<times> go_error option) \<times> raw_source" where
  "source_read n src =
     (if n = 0 then (([], None), src)
      else if rs_rest src = [] then (([], Some (rs_end src)), src)
      else let k = (case rs_caps src of [] \<Rightarrow> n | c # _ \<Rightarrow> min n (max 1 c)) in
        ((take k (rs_rest src), None), src\<lparr>rs_rest := drop k (rs_rest src), rs_caps := tl (rs_caps src)\<rparr>))"

definition rawSourceReader_Read :: "nat \<Rightarrow> raw_source \<Rightarrow> (bytes \<times> parse_error option) \<times> raw_source" where
  "rawSourceReader_Read n src =
     (case source_read n src of
        ((chunk, None), src') \<Rightarrow> ((chunk, None), src')
      | ((chunk, Some e), src') \<Rightarrow> ((chunk, Some (if e \<noteq> EOF then RawSourceError e else PlainError EOF)), src'))"

record raw_verifier =
  rv_source :: raw_source
  rv_expected :: content_ref
  rv_hashed :: bytes
  rv_read :: int
  rv_verified :: bool
  rv_err :: "parse_error option"

definition newRawVerifier :: "raw_source \<Rightarrow> content_ref \<Rightarrow> raw_verifier" where
  "newRawVerifier src expected = \<lparr>rv_source = src, rv_expected = expected, rv_hashed = [], rv_read = 0, rv_verified = False, rv_err = None\<rparr>"

definition verifier_verify :: "(bytes \<Rightarrow> bytes) \<Rightarrow> raw_verifier \<Rightarrow> parse_error option \<times> raw_verifier" where
  "verifier_verify sha256 v =
     (if rv_verified v then (rv_err v, v)
      else
        let v' = v\<lparr>rv_verified := True\<rparr> in
        if rv_read v \<noteq> cr_size (rv_expected v) then (Some RawContentCorruptError, v')
        else if cr_key (rv_expected v) \<noteq> object_key sha256 (rv_hashed v) then (Some RawContentCorruptError, v')
        else (None, v'))"

definition verifier_Read :: "(bytes \<Rightarrow> bytes) \<Rightarrow> nat \<Rightarrow> raw_verifier \<Rightarrow> (bytes \<times> parse_error option) \<times> raw_verifier" where
  "verifier_Read sha256 n v =
     (case rv_err v of
        Some e \<Rightarrow> (([], Some e), v)
      | None \<Rightarrow>
          (case rawSourceReader_Read n (rv_source v) of
             ((chunk, err), src) \<Rightarrow>
               let v1 = v\<lparr>rv_source := src, rv_read := rv_read v + int (length chunk), rv_hashed := rv_hashed v @ chunk\<rparr> in
               if err = Some (PlainError EOF) then
                 (case verifier_verify sha256 v1 of
                    (Some e, v2) \<Rightarrow> ((chunk, Some e), v2\<lparr>rv_err := Some e\<rparr>)
                  | (None, v2) \<Rightarrow> ((chunk, err), v2\<lparr>rv_err := None\<rparr>))
               else ((chunk, err), v1)))"

text \<open>\<^verbatim>\<open>finish\<close> drains what the parser left; \<open>ctxerr i\<close> is \<^verbatim>\<open>ctx.Err()\<close> in iteration \<open>i\<close>.\<close>

lemma source_read_shrinks:
  assumes "source_read n src = ((chunk, None), src')" and "0 < n"
  shows "length (rs_rest src') < length (rs_rest src)"
  using assms by (auto simp: source_read_def Let_def split: if_splits list.splits)

lemma verifier_Read_shrinks:
  assumes "verifier_Read sha256 n v = ((chunk, None), v')" and "0 < n"
  shows "length (rs_rest (rv_source v')) < length (rs_rest (rv_source v))"
  using assms source_read_shrinks[of n "rv_source v"]
  by (auto simp: verifier_Read_def rawSourceReader_Read_def Let_def split: option.splits prod.splits if_splits)

function finish_loop :: "(bytes \<Rightarrow> bytes) \<Rightarrow> (nat \<Rightarrow> go_error option) \<Rightarrow> nat \<Rightarrow> raw_verifier \<Rightarrow> parse_error option \<times> raw_verifier" where
  "finish_loop sha256 ctxerr i v =
     (case ctxerr i of
        Some e \<Rightarrow> (Some (PlainError e), v)
      | None \<Rightarrow>
          (case verifier_Read sha256 32768 v of
             ((_, Some e), v') \<Rightarrow> (if error_is e EOF then (None, v') else (Some e, v'))
           | ((_, None), v') \<Rightarrow> finish_loop sha256 ctxerr (Suc i) v'))"
  by pat_completeness auto
termination
  by (relation "measure (\<lambda>(sha256, ctxerr, i, v). length (rs_rest (rv_source v)))")
    (auto dest: verifier_Read_shrinks[OF sym])

declare finish_loop.simps [simp del]

definition verifier_finish :: "(bytes \<Rightarrow> bytes) \<Rightarrow> (nat \<Rightarrow> go_error option) \<Rightarrow> raw_verifier \<Rightarrow> parse_error option \<times> raw_verifier" where
  "verifier_finish sha256 ctxerr v = (if rv_verified v then (rv_err v, v) else finish_loop sha256 ctxerr 0 v)"

section \<open>One claim\<close>

datatype 'r reader_program =
    Return "parse_error + 'r"
  | ReadThen nat "bytes \<times> parse_error option \<Rightarrow> 'r reader_program"

primrec run_reader :: "(bytes \<Rightarrow> bytes) \<Rightarrow> 'r reader_program \<Rightarrow> raw_verifier \<Rightarrow> (parse_error + 'r) \<times> raw_verifier" where
  "run_reader sha256 (Return r) = (\<lambda>v. (r, v))"
| "run_reader sha256 (ReadThen n k) = (\<lambda>v. case verifier_Read sha256 n v of (result, v') \<Rightarrow> run_reader sha256 (k result) v')"

record parser_env =
  pe_now :: time
  pe_locked :: "string set"
  pe_token :: string
  pe_claim_fault :: fault
  pe_parse_ctx :: ctx
  pe_open_fault :: "store_op \<Rightarrow> go_error option"
  pe_read_fault :: "(nat \<times> go_error) option"
  pe_caps :: "nat list"
  pe_finish_ctx :: "nat \<Rightarrow> go_error option"
  pe_close_error :: "go_error option"
  pe_parse_ctx_err :: "go_error option"
  pe_ctx_err :: "go_error option"
  pe_clock :: time
  pe_report_fault :: "nat \<Rightarrow> fault"

text \<open>The file \<^verbatim>\<open>OpenRaw\<close> returned, with the read error the environment injects.\<close>

definition source_of :: "parser_env \<Rightarrow> bytes \<Rightarrow> raw_source" where
  "source_of env content =
     (case pe_read_fault env of
        None \<Rightarrow> \<lparr>rs_rest = content, rs_end = EOF, rs_caps = pe_caps env\<rparr>
      | Some (k, e) \<Rightarrow> \<lparr>rs_rest = take k content, rs_end = e, rs_caps = pe_caps env\<rparr>)"

definition parseClaim :: "(bytes \<Rightarrow> bytes) \<Rightarrow> parsed_message reader_program \<Rightarrow> parser_env \<Rightarrow> store \<Rightarrow> parse_claim \<Rightarrow> parse_error + parsed_message" where
  "parseClaim sha256 parser env s claim =
     (case OpenRaw (pe_parse_ctx env) (pe_open_fault env) (pq_content claim) s of
        Inl e \<Rightarrow> Inl (RawSourceError e)
      | Inr content \<Rightarrow>
          (case run_reader sha256 parser (newRawVerifier (source_of env content) (pq_content claim)) of
             (Inl parseErr, _) \<Rightarrow> Inl parseErr
           | (Inr parsed, v) \<Rightarrow>
               (case verifier_finish sha256 (pe_finish_ctx env) v of
                  (Some parseErr, _) \<Rightarrow> Inl parseErr
                | (None, _) \<Rightarrow>
                    (case pe_close_error env of
                       Some closeErr \<Rightarrow> Inl (RawSourceError closeErr)
                     | None \<Rightarrow> Inr parsed))))"

text \<open>The part of \<^verbatim>\<open>processNext\<close> after the claim: parse, then release, complete, fail or retry.\<close>

definition processClaim :: "(bytes \<Rightarrow> bytes) \<Rightarrow> (string \<Rightarrow> string option) \<Rightarrow> parser_options \<Rightarrow> parsed_message reader_program \<Rightarrow> parser_env \<Rightarrow> store \<Rightarrow> parse_claim \<Rightarrow> db \<Rightarrow>
    (go_error option \<times> string) \<times> db" where
  "processClaim sha256 canon opts parser env s claim d =
     (let outcome = parseClaim sha256 parser env s claim in
      case pe_ctx_err env of
        Some e \<Rightarrow>
          (case ReleaseContent canon (pe_now env) claim (pe_clock env) (pe_report_fault env 0) d of
             (_, d') \<Rightarrow> ((Some e, ''canceled''), d'))
      | None \<Rightarrow>
          (case outcome of
             Inr parsed \<Rightarrow>
               (case CompleteContent canon claim ParserRevision parsed (pe_clock env) (pe_report_fault env) d of
                  (Inl e, d') \<Rightarrow> ((Some e, ''error''), d')
                | (Inr _, d') \<Rightarrow> ((None, ''success''), d'))
           | Inl parseErr \<Rightarrow>
               (case classifyParseError parseErr (pe_parse_ctx_err env) of
                  (code, permanent) \<Rightarrow>
                    if permanent \<or> pq_attempt claim \<ge> po_MaxAttempts opts then
                      (case FailContent canon (pe_now env) claim code (pe_clock env) (pe_report_fault env 0) d of
                         (Inl e, d') \<Rightarrow> ((Some e, ''error''), d')
                       | (Inr _, d') \<Rightarrow> ((None, ''failed''), d'))
                    else
                      (case RetryContent canon (pe_now env) claim code (pe_clock env + retryDelay opts (pq_attempt claim)) (pe_report_fault env 0) d of
                         (Inl e, d') \<Rightarrow> ((Some e, ''error''), d')
                       | (Inr _, d') \<Rightarrow> ((None, ''retry''), d')))))"

definition processNext :: "(bytes \<Rightarrow> bytes) \<Rightarrow> (string \<Rightarrow> string option) \<Rightarrow> parser_options \<Rightarrow> parsed_message reader_program \<Rightarrow> parser_env \<Rightarrow> store \<Rightarrow> db \<Rightarrow>
    (bool \<times> go_error option \<times> string option) \<times> db" where
  "processNext sha256 canon opts parser env s d =
     (case ClaimContent (pe_now env) (pe_locked env) (pe_token env) (po_LeaseDuration opts) (pe_claim_fault env) d of
        (Inl e, d1) \<Rightarrow> ((False, Some e, None), d1)
      | (Inr None, d1) \<Rightarrow> ((False, None, None), d1)
      | (Inr (Some claim), d1) \<Rightarrow>
          (case processClaim sha256 canon opts parser env s claim d1 of
             ((err, result), d2) \<Rightarrow> ((True, err, Some result), d2)))"

section \<open>Retry delays\<close>

lemma retry_loop_min:
  assumes "0 < delay" and "delay \<le> po_RetryMax opts" and "po_RetryMax opts \<le> max_int64"
  shows "retry_loop opts n delay = min (delay * 2 ^ n) (po_RetryMax opts)"
  using assms(1,2)
proof (induction n arbitrary: delay)
  case (Suc n)
  have pow: "1 \<le> (2::int) ^ n" by simp
  consider (stop) "delay = po_RetryMax opts" | (last) "delay < po_RetryMax opts" "delay > po_RetryMax opts div 2"
    | (double) "delay < po_RetryMax opts" "delay \<le> po_RetryMax opts div 2"
    using Suc.prems by linarith
  then show ?case
  proof cases
    case stop
    have "delay * 1 \<le> delay * 2 ^ Suc n" using Suc.prems(1) by (intro mult_left_mono one_le_power) simp_all
    then show ?thesis using stop by simp
  next
    case last
    have "delay * 2 * 1 \<le> delay * 2 * 2 ^ n" using Suc.prems(1) pow by (intro mult_left_mono) simp_all
    then have "po_RetryMax opts \<le> delay * 2 ^ Suc n" using last(2) by simp
    then show ?thesis using last by simp
  next
    case double
    then have "wrap64 (delay * 2) = delay * 2"
      using Suc.prems assms(3) by (intro wrap64_id) (simp_all add: max_int64_def)
    then show ?thesis using double Suc.IH[of "delay * 2"] Suc.prems by (simp add: mult.assoc)
  qed
qed simp

lemma retryDelay_min:
  assumes "NewParserWorker a b c l opts = Inr opts'" and "po_RetryMax opts \<le> max_int64"
  shows "retryDelay opts attempt = min (po_RetryBase opts * 2 ^ nat (attempt - 1)) (po_RetryMax opts)"
  unfolding retryDelay_def using assms by (intro retry_loop_min) (auto simp: NewParserWorker_def split: if_splits)

section \<open>What the verifier guarantees\<close>

text \<open>\<open>content\<close> is what the file delivers from its start, \<open>e\<close> the error behind it.\<close>

definition matches :: "(bytes \<Rightarrow> bytes) \<Rightarrow> content_ref \<Rightarrow> bytes \<Rightarrow> bool" where
  "matches sha256 ref content \<longleftrightarrow> int (length content) = cr_size ref \<and> object_key sha256 content = cr_key ref"

definition verifier_ok :: "(bytes \<Rightarrow> bytes) \<Rightarrow> content_ref \<Rightarrow> bytes \<Rightarrow> raw_verifier \<Rightarrow> bool" where
  "verifier_ok sha256 ref content v \<longleftrightarrow> rv_expected v = ref \<and> rv_hashed v @ rs_rest (rv_source v) = content \<and>
     rv_read v = int (length (rv_hashed v)) \<and>
     (if rv_verified v then rs_rest (rv_source v) = [] \<and> rv_err v = (if matches sha256 ref content then None else Some RawContentCorruptError)
      else rv_err v = None)"

lemma verifier_ok_new: "verifier_ok sha256 ref (rs_rest src) (newRawVerifier src ref)"
  by (simp add: verifier_ok_def newRawVerifier_def)

lemma source_read_split:
  assumes "source_read n src = ((chunk, err), src')"
  shows "chunk @ rs_rest src' = rs_rest src" and "err = None \<or> (rs_rest src = [] \<and> chunk = [])"
  using assms by (auto simp: source_read_def Let_def split: if_splits)

lemma verifier_Read_cases:
  assumes "verifier_ok sha256 ref content v" and "verifier_Read sha256 n v = ((chunk, err), v')"
  shows "verifier_ok sha256 ref content v'"
    and "err = Some e \<Longrightarrow> error_is e EOF \<Longrightarrow> rv_verified v' \<and> rv_err v' = None"
proof -
  have "verifier_ok sha256 ref content v' \<and> (\<forall>e. err = Some e \<longrightarrow> error_is e EOF \<longrightarrow> rv_verified v' \<and> rv_err v' = None)"
  proof (cases "rv_err v")
    case (Some x)
    then have "x = RawContentCorruptError" using assms(1) by (auto simp: verifier_ok_def split: if_splits)
    then show ?thesis using Some assms by (auto simp: verifier_Read_def)
  next
    case None
    obtain c r src' where rd: "source_read n (rv_source v) = ((c, r), src')" by (metis prod.exhaust)
    note sp = source_read_split[OF rd]
    show ?thesis
    proof (cases "r = Some EOF")
      case True
      then have "rs_rest (rv_source v) = []" "c = []" "rs_rest src' = []" using sp by auto
      then show ?thesis using assms None rd True
        by (auto simp: verifier_ok_def verifier_Read_def rawSourceReader_Read_def verifier_verify_def Let_def matches_def split: if_splits)
    next
      case False
      then have "verifier_Read sha256 n v = ((c, map_option (\<lambda>x. RawSourceError x) r),
          v\<lparr>rv_source := src', rv_read := rv_read v + int (length c), rv_hashed := rv_hashed v @ c\<rparr>)"
        using None rd by (cases r) (auto simp: verifier_Read_def rawSourceReader_Read_def Let_def)
      then show ?thesis using assms sp None False
        by (auto simp: verifier_ok_def split: if_splits)
    qed
  qed
  then show "verifier_ok sha256 ref content v'"
    and "err = Some e \<Longrightarrow> error_is e EOF \<Longrightarrow> rv_verified v' \<and> rv_err v' = None" by blast+
qed

lemma run_reader_ok:
  "verifier_ok sha256 ref content v \<Longrightarrow> run_reader sha256 p v = (r, v') \<Longrightarrow> verifier_ok sha256 ref content v'"
proof (induction p arbitrary: v)
  case (ReadThen n k)
  obtain res v1 where rd: "verifier_Read sha256 n v = (res, v1)" by (cases "verifier_Read sha256 n v")
  have "verifier_ok sha256 ref content v1" using verifier_Read_cases(1)[OF ReadThen.prems(1)] rd by (cases res) simp
  then show ?case using ReadThen.IH[OF rangeI, of v1 res] ReadThen.prems(2) rd by simp
qed simp

lemma finish_loop_ok:
  "verifier_ok sha256 ref content v \<Longrightarrow> finish_loop sha256 ctxerr i v = (None, v') \<Longrightarrow> matches sha256 ref content"
proof (induction sha256 ctxerr i v rule: finish_loop.induct)
  case (1 sha256 ctxerr i v)
  obtain c r v1 where rd: "verifier_Read sha256 32768 v = ((c, r), v1)" by (metis prod.exhaust)
  have cx: "ctxerr i = None" using 1(3) by (subst (asm) finish_loop.simps) (auto split: option.splits)
  show ?case
  proof (cases r)
    case None
    have "finish_loop sha256 ctxerr i v = finish_loop sha256 ctxerr (Suc i) v1"
      using cx rd None by (subst finish_loop.simps) simp
    then show ?thesis using 1(1)[OF cx rd[symmetric] refl None verifier_Read_cases(1)[OF 1(2) rd]] 1(3) by simp
  next
    case (Some e)
    then have "error_is e EOF" using 1(3) cx rd by (subst (asm) finish_loop.simps) (auto split: if_splits)
    then have "rv_verified v1" "rv_err v1 = None" using verifier_Read_cases(2)[OF 1(2) rd Some] by blast+
    then show ?thesis using verifier_Read_cases(1)[OF 1(2) rd] by (auto simp: verifier_ok_def split: if_splits)
  qed
qed

lemma verifier_finish_ok:
  assumes "verifier_ok sha256 ref content v" and "verifier_finish sha256 ctxerr v = (None, v')"
  shows "matches sha256 ref content"
proof (cases "rv_verified v")
  case True
  then show ?thesis using assms by (auto simp: verifier_finish_def verifier_ok_def split: if_splits)
next
  case False
  then show ?thesis using finish_loop_ok[OF assms(1)] assms(2) by (simp add: verifier_finish_def)
qed

section \<open>Progress of the queue\<close>

text \<open>The claims a content row can still cost when no worker is disturbed.\<close>

definition parse_rank :: "parser_options \<Rightarrow> content_row \<Rightarrow> nat" where
  "parse_rank opts c = (if mc_parse_status c \<in> {''parsed'', ''failed''} then 0 else nat (max 1 (po_MaxAttempts opts - mc_parse_attempts c)))"

definition parse_work :: "parser_options \<Rightarrow> db \<Rightarrow> nat" where
  "parse_work opts d = sum_list (map (parse_rank opts) (mail_contents d))"

lemma sum_list_strict:
  fixes f g :: "'a \<Rightarrow> nat"
  assumes "\<forall>x\<in>set xs. f x \<le> g x" and "x \<in> set xs" and "f x < g x"
  shows "sum_list (map f xs) < sum_list (map g xs)"
  using assms
proof (induction xs)
  case (Cons a xs)
  have le: "sum_list (map f xs) \<le> sum_list (map g xs)" using Cons.prems(1) by (intro sum_list_mono) simp
  show ?case
  proof (cases "x = a")
    case True
    then show ?thesis using le Cons.prems(3) by simp
  next
    case False
    then have "sum_list (map f xs) < sum_list (map g xs)" using Cons by simp
    then show ?thesis using Cons.prems(1) by (simp add: add_le_less_mono)
  qed
qed simp

lemma classify_code: "validParseErrorCode (fst (classifyParseError err cerr))"
  by (cases err) (auto simp: classifyParseError_def validParseErrorCode_def in_range_def)

text \<open>The report the worker sends for a claim when its context is live.\<close>

definition worker_report :: "(bytes \<Rightarrow> bytes) \<Rightarrow> parser_options \<Rightarrow> parsed_message reader_program \<Rightarrow> parser_env \<Rightarrow> store \<Rightarrow> parse_claim \<Rightarrow> parse_report" where
  "worker_report sha256 opts parser env s claim =
     (case parseClaim sha256 parser env s claim of
        Inr parsed \<Rightarrow> Completed ParserRevision parsed (pe_clock env)
      | Inl err \<Rightarrow>
          (case classifyParseError err (pe_parse_ctx_err env) of
             (code, permanent) \<Rightarrow>
               if permanent \<or> pq_attempt claim \<ge> po_MaxAttempts opts then Failed code (pe_clock env)
               else Retried code (pe_clock env + retryDelay opts (pq_attempt claim))))"

lemma processClaim_report:
  assumes "pe_ctx_err env = None"
  shows "\<exists>result. processClaim sha256 canon opts parser env s claim d =
    (case report canon (pe_now env) claim (worker_report sha256 opts parser env s claim) (pe_report_fault env) d of
       (Inl e, d') \<Rightarrow> ((Some e, ''error''), d')
     | (Inr _, d') \<Rightarrow> ((None, result), d'))"
  using assms by (auto simp: processClaim_def worker_report_def Let_def split: sum.splits prod.splits)

lemma processClaim_wf:
  assumes "db_wf d" and "processClaim sha256 canon opts parser env s claim d = (r, d')"
  shows "db_wf d'"
proof -
  have rep: "db_wf d''" if "report canon (pe_now env) claim rep (pe_report_fault env) d = (r', d'')" for rep r' d''
    by (rule report_cases[OF assms(1) that]) (simp_all add: assms(1) reported_wf claim_current_key)
  show ?thesis
  proof (cases "pe_ctx_err env")
    case None
    let ?rep = "worker_report sha256 opts parser env s claim"
    obtain r' d'' where rp: "report canon (pe_now env) claim ?rep (pe_report_fault env) d = (r', d'')" by fastforce
    obtain result where "processClaim sha256 canon opts parser env s claim d =
        (case (r', d'') of (Inl e, d') \<Rightarrow> ((Some e, ''error''), d') | (Inr _, d') \<Rightarrow> ((None, result), d'))"
      using processClaim_report[OF None, of sha256 canon opts parser s claim d] unfolding rp by blast
    then have "d' = d''" using assms(2) by (cases r') simp_all
    then show ?thesis using rep[OF rp] by simp
  next
    case (Some e)
    then show ?thesis using assms(2) rep[of "Released (pe_clock env)"]
      by (auto simp: processClaim_def Let_def split: prod.splits)
  qed
qed

lemma worker_report_valid:
  assumes "NewParserWorker a b c l opts = Inr opts'" and "zero_time < pe_clock env" and "po_RetryMax opts \<le> max_int64"
  shows "report_valid (worker_report sha256 opts parser env s claim)"
proof -
  have pos: "0 \<le> retryDelay opts n" for n
    using assms(1) unfolding retryDelay_min[OF assms(1,3)] by (auto simp: NewParserWorker_def split: if_splits)
  have later: "zero_time < pe_clock env + retryDelay opts n" for n
    using assms(2) pos[of n] by linarith
  show ?thesis
  proof (cases "parseClaim sha256 parser env s claim")
    case (Inr parsed)
    then show ?thesis using assms(2) by (simp add: worker_report_def is_zero_time_def ParserRevision_def)
  next
    case (Inl err)
    have "validParseErrorCode (fst (classifyParseError err (pe_parse_ctx_err env)))" by (rule classify_code)
    then show ?thesis using Inl assms(2) later[of "pq_attempt claim"]
      by (simp add: worker_report_def is_zero_time_def case_prod_unfold)
  qed
qed

text \<open>What one undisturbed claim makes of a content row.\<close>

definition parse_outcome :: "(bytes \<Rightarrow> bytes) \<Rightarrow> parser_options \<Rightarrow> parser_env \<Rightarrow> content_row \<Rightarrow> content_row \<Rightarrow> db \<Rightarrow> bool" where
  "parse_outcome sha256 opts env c c' d' \<longleftrightarrow> mc_key c' = mc_key c \<and> mc_size c' = mc_size c \<and> mc_parse_attempts c' = mc_parse_attempts c + 1 \<and>
     mc_lease_token c' = None \<and>
     (mc_parse_status c' = ''parsed'' \<and> mc_error_code c' = None \<and>
        (\<exists>p. \<lparr>pr_key = mc_key c, pr_revision = ParserRevision, pr_parsed = p, pr_parsed_at = pe_clock env\<rparr> \<in> set (content_parses d')) \<or>
      mc_parse_status c' = ''failed'' \<and> mc_error_code c' \<noteq> None \<or>
      mc_parse_status c' = ''pending'' \<and> mc_parse_attempts c + 1 < po_MaxAttempts opts \<and>
        mc_available_at c' = pe_clock env + min (po_RetryBase opts * 2 ^ nat (mc_parse_attempts c)) (po_RetryMax opts))"

lemma reported_outcome:
  assumes "NewParserWorker a b q l opts = Inr opts'" and "po_RetryMax opts \<le> max_int64"
    and "pq_attempt claim = mc_parse_attempts c + 1" and "mc_key c = cr_key (pq_content claim)"
    and "content_parses d' = reported_parses (mc_key c) (worker_report sha256 opts parser env s claim) ps"
  shows "parse_outcome sha256 opts env c
    (reported_row now (worker_report sha256 opts parser env s claim) (claimed_row now token micros c)) d'"
proof (cases "parseClaim sha256 parser env s claim")
  case (Inr parsed)
  then show ?thesis using assms(5)
    by (auto simp: parse_outcome_def worker_report_def parsed_row_def claimed_row_def Let_def split: if_splits intro!: exI[of _ parsed])
next
  case (Inl err)
  obtain code permanent where cl: "classifyParseError err (pe_parse_ctx_err env) = (code, permanent)" by fastforce
  have "code \<noteq> []" using classify_code[of err "pe_parse_ctx_err env"] cl validParseErrorCode_nonempty by simp
  then show ?thesis using Inl cl assms(3) retryDelay_min[OF assms(1,2)]
    by (auto simp: parse_outcome_def worker_report_def finished_row_def claimed_row_def)
qed

lemma outcome_rank:
  assumes "parse_outcome sha256 opts env c c' d'" and "mc_parse_status c \<notin> {''parsed'', ''failed''}"
  shows "parse_rank opts c' < parse_rank opts c"
  using assms by (auto simp: parse_outcome_def parse_rank_def)

text \<open>Whether table \<^verbatim>\<open>mail_content_parses\<close> takes what the parser made of a claim.\<close>

definition result_fits :: "(bytes \<Rightarrow> bytes) \<Rightarrow> parsed_message reader_program \<Rightarrow> parser_env \<Rightarrow> store \<Rightarrow> parse_claim \<Rightarrow> bool" where
  "result_fits sha256 parser env s claim \<longleftrightarrow>
     (case parseClaim sha256 parser env s claim of
        Inl _ \<Rightarrow> True
      | Inr parsed \<Rightarrow> parse_row_ok \<lparr>pr_key = cr_key (pq_content claim), pr_revision = ParserRevision,
          pr_parsed = parsed, pr_parsed_at = pe_clock env\<rparr>)"

lemma worker_report_fits:
  "report_fits (cr_key (pq_content claim)) (worker_report sha256 opts parser env s claim) = result_fits sha256 parser env s claim"
  by (simp add: worker_report_def result_fits_def split: sum.split prod.split)

text \<open>The claim an undisturbed worker gets for its candidate, and what the claim does to the queue.\<close>

definition claim_of :: "parser_env \<Rightarrow> content_row \<Rightarrow> parse_claim" where
  "claim_of env c = \<lparr>pq_content = \<lparr>cr_key = mc_key c, cr_size = mc_size c\<rparr>, pq_token = pe_token env, pq_attempt = mc_parse_attempts c + 1\<rparr>"

definition claimed_db :: "parser_options \<Rightarrow> parser_env \<Rightarrow> content_row \<Rightarrow> db \<Rightarrow> db" where
  "claimed_db opts env c d = update_content (mc_key c) (claimed_row (pe_now env) (pe_token env) (po_LeaseDuration opts div 1000)) d"

definition undisturbed :: "(string \<Rightarrow> string option) \<Rightarrow> parser_env \<Rightarrow> bool" where
  "undisturbed canon env \<longleftrightarrow> canon (pe_token env) = Some (pe_token env) \<and> pe_claim_fault env = NoFault \<and>
     pe_report_fault env = (\<lambda>_. NoFault) \<and> pe_ctx_err env = None \<and> zero_time < pe_clock env"

lemma claim_made:
  assumes "NewParserWorker True True True True opts = Inr opts" and "undisturbed canon env"
    and "claim_candidate (pe_now env) (pe_locked env) d = Some c"
  shows "ClaimContent (pe_now env) (pe_locked env) (pe_token env) (po_LeaseDuration opts) (pe_claim_fault env) d =
    (Inr (Some (claim_of env c)), claimed_db opts env c d)"
proof -
  have "0 < po_LeaseDuration opts" using assms(1) by (auto simp: NewParserWorker_def split: if_splits)
  then show ?thesis using assms(2,3)
    by (simp add: undisturbed_def ClaimContent_def run_stmt_def sql_claim_def claimed_row_def claim_of_def claimed_db_def)
qed

lemma processNext_report:
  assumes "db_wf d" and "NewParserWorker True True True True opts = Inr opts" and "po_RetryMax opts \<le> max_int64"
    and "undisturbed canon env" and "claim_candidate (pe_now env) (pe_locked env) d = Some c"
    and "processNext sha256 canon opts parser env s d = ((worked, err, result), d')"
  shows "worked" and "db_wf (claimed_db opts env c d)"
    and "result_fits sha256 parser env s (claim_of env c) \<Longrightarrow> err = None \<and>
      d' = reported (pe_now env) (mc_key c) (worker_report sha256 opts parser env s (claim_of env c)) (claimed_db opts env c d) \<and> db_wf d'"
    and "\<not> result_fits sha256 parser env s (claim_of env c) \<Longrightarrow> err \<noteq> None \<and> result = Some ''error'' \<and> d' = claimed_db opts env c d"
proof -
  let ?claim = "claim_of env c" and ?d1 = "claimed_db opts env c d" and ?rep = "worker_report sha256 opts parser env s (claim_of env c)"
  note u = assms(4) [unfolded undisturbed_def]
  note cl = claim_made[OF assms(2,4,5)]
  show wf1: "db_wf ?d1" by (rule ClaimContent_wf[OF assms(1) cl])
  have key: "cr_key (pq_content ?claim) = mc_key c" by (simp add: claim_of_def)
  have valid: "report_valid ?rep" using u by (intro worker_report_valid[OF assms(2) _ assms(3)]) simp
  have cur: "claim_current canon ?claim ?d1" and ok: "validateParseClaim canon ?claim = Inr ()"
    using ClaimContent_current[where canon = canon, OF assms(1) cl] u by blast+
  obtain r where pc: "processClaim sha256 canon opts parser env s ?claim ?d1 =
      (case report canon (pe_now env) ?claim ?rep (pe_report_fault env) ?d1 of
         (Inl e, d') \<Rightarrow> ((Some e, ''error''), d') | (Inr _, d') \<Rightarrow> ((None, r), d'))"
    using processClaim_report[of env sha256 canon opts parser s ?claim ?d1] u by auto
  have run: "processNext sha256 canon opts parser env s d = (case processClaim sha256 canon opts parser env s ?claim ?d1 of
      ((err, result), d2) \<Rightarrow> ((True, err, Some result), d2))" by (simp add: processNext_def cl)
  show "worked" using assms(6) unfolding run by (simp split: prod.splits)
  {
    assume fits: "result_fits sha256 parser env s ?claim"
    then have rep: "report canon (pe_now env) ?claim ?rep (\<lambda>_. NoFault) ?d1 = (Inr (), reported (pe_now env) (mc_key c) ?rep ?d1)"
      using report_current[OF wf1 cur ok valid, of "pe_now env"] worker_report_fits[of ?claim] key by simp
    have "db_wf (reported (pe_now env) (mc_key c) ?rep ?d1)"
      using reported_wf[OF wf1 valid claim_current_key[OF cur]] worker_report_fits[of ?claim sha256 opts parser env s] fits key by simp
    then show "err = None \<and> d' = reported (pe_now env) (mc_key c) ?rep ?d1 \<and> db_wf d'"
      using assms(6) u unfolding run pc by (simp add: rep)
  }
  assume unfit: "\<not> result_fits sha256 parser env s ?claim"
  then obtain e where "report canon (pe_now env) ?claim ?rep (pe_report_fault env) ?d1 = (Inl e, ?d1)"
    using report_unfit[OF wf1, of ?claim ?rep canon "pe_now env" "pe_report_fault env"] worker_report_fits[of ?claim sha256 opts parser env s] by blast
  then show "err \<noteq> None \<and> result = Some ''error'' \<and> d' = ?d1" using assms(6) unfolding run pc by auto
qed

section \<open>Properties\<close>

text \<open>
  C32. Nothing unverified is ever parsed: the worker has a parse result to report only if the bytes it read up to the end of
  the file have the size and the SHA-256 digest of the content reference, whatever the MIME parser reads and in which
  portions the file delivers, and the result is what the parser returned for these bytes.
\<close>

theorem parsed_content_is_verified:
  assumes "parseClaim sha256 parser env s claim = Inr parsed"
  shows "\<exists>stored. OpenContent (pe_open_fault env) (pq_content claim) s = Inr stored \<and>
    (let src = source_of env stored in
       object_key sha256 (rs_rest src) = cr_key (pq_content claim) \<and> int (length (rs_rest src)) = cr_size (pq_content claim) \<and>
       fst (run_reader sha256 parser (newRawVerifier src (pq_content claim))) = Inr parsed)"
proof -
  obtain stored where st: "OpenRaw (pe_parse_ctx env) (pe_open_fault env) (pq_content claim) s = Inr stored"
    using assms by (auto simp: parseClaim_def split: sum.splits)
  let ?src = "source_of env stored"
  obtain v v' where run: "run_reader sha256 parser (newRawVerifier ?src (pq_content claim)) = (Inr parsed, v)"
    and fin: "verifier_finish sha256 (pe_finish_ctx env) v = (None, v')"
    using assms st by (auto simp: parseClaim_def split: sum.splits prod.splits option.splits)
  have "matches sha256 (pq_content claim) (rs_rest ?src)"
    by (rule verifier_finish_ok[OF run_reader_ok[OF verifier_ok_new run] fin])
  moreover have "OpenContent (pe_open_fault env) (pq_content claim) s = Inr stored"
    using st by (auto simp: OpenRaw_def split: if_splits option.splits)
  ultimately show ?thesis using run by (auto simp: matches_def Let_def)
qed

text \<open>
  C33. The parse queue drains: when a worker that is not disturbed claims a content row and the table takes the parser's result,
  the row is afterwards parsed, failed with an error code, or waiting for a retry after the exponential delay and below the attempt
  limit; the number of claims the queue can still cost strictly decreases, and the schema's constraints hold, those of
  \<^verbatim>\<open>mail_content_parses\<close> included. When the result violates a constraint of that table, the worker ends with an error, and only the claim
  itself is left in the database.
\<close>

theorem processNext_progress:
  assumes "db_wf d" and "NewParserWorker True True True True opts = Inr opts" and "po_RetryMax opts \<le> max_int64"
    and "undisturbed canon env" and "claim_candidate (pe_now env) (pe_locked env) d = Some c"
    and "processNext sha256 canon opts parser env s d = ((worked, err, result), d')"
  shows "worked \<and> db_wf d' \<and>
    (if result_fits sha256 parser env s (claim_of env c)
     then err = None \<and> parse_work opts d' < parse_work opts d \<and> (\<exists>c' \<in> set (mail_contents d'). parse_outcome sha256 opts env c c' d')
     else err \<noteq> None \<and> result = Some ''error'' \<and> d' = claimed_db opts env c d)"
proof (cases "result_fits sha256 parser env s (claim_of env c)")
  case False
  then show ?thesis using processNext_report[OF assms] by simp
next
  case True
  let ?k = "mc_key c" and ?rep = "worker_report sha256 opts parser env s (claim_of env c)"
  let ?new = "\<lambda>x. reported_row (pe_now env) ?rep (claimed_row (pe_now env) (pe_token env) (po_LeaseDuration opts div 1000) x)"
  note r = processNext_report(1)[OF assms] processNext_report(3)[OF assms True]
  then have d': "d' = reported (pe_now env) ?k ?rep (claimed_db opts env c d)" by blast
  have rows: "mail_contents d' = map (\<lambda>x. if mc_key x = ?k then ?new x else x) (mail_contents d)"
    by (auto simp: d' reported_def claimed_db_def update_content_def)
  note cand = claim_candidate_Some[OF assms(5)]
  have out: "parse_outcome sha256 opts env c (?new c) d'"
    by (rule reported_outcome[OF assms(2,3)]) (simp_all add: d' reported_def claimed_db_def update_content_def claim_of_def)
  have less: "parse_rank opts (?new c) < parse_rank opts c"
    using cand(2) by (intro outcome_rank[OF out]) (auto simp: claimable_def)
  have only: "x = c" if "x \<in> set (mail_contents d)" "mc_key x = ?k" for x
    using that cand(1) assms(1) by (auto simp: db_wf_def wf_contents_def distinct_map dest: inj_onD)
  have "parse_work opts d' < parse_work opts d"
    unfolding parse_work_def rows map_map comp_def
    by (rule sum_list_strict[OF _ cand(1)]) (use only less in \<open>auto intro: less_imp_le\<close>)
  moreover have "?new c \<in> set (mail_contents d')" using cand(1) unfolding rows by force
  ultimately show ?thesis using out r True by auto
qed

text \<open>
  A message whose parse result the table refuses is parsed again and again: however often its content has been tried, beyond the attempt
  limit too, the worker's report fails, the row is neither parsed nor failed nor given a retry time but stays in process with one attempt more,
  and when the lease has run out it is due again.
\<close>

theorem refused_result_never_settles:
  assumes "db_wf d" and "NewParserWorker True True True True opts = Inr opts" and "po_RetryMax opts \<le> max_int64"
    and "undisturbed canon env" and "claim_candidate (pe_now env) (pe_locked env) d = Some c"
    and "\<not> result_fits sha256 parser env s (claim_of env c)"
  shows "\<exists>e d'. processNext sha256 canon opts parser env s d = ((True, Some e, Some ''error''), d') \<and> db_wf d' \<and> content_parses d' = content_parses d \<and>
    (\<exists>c' \<in> set (mail_contents d'). mc_key c' = mc_key c \<and> mc_parse_status c' = ''processing'' \<and> mc_parse_attempts c' = mc_parse_attempts c + 1 \<and>
       (\<forall>later \<ge> pe_now env + po_LeaseDuration opts. claimable later c'))"
proof -
  obtain worked err result d' where run: "processNext sha256 canon opts parser env s d = ((worked, err, result), d')" by (metis prod.exhaust)
  note r = processNext_report(1,2)[OF assms(1-5) run] processNext_report(4)[OF assms(1-5) run assms(6)]
  let ?c = "claimed_row (pe_now env) (pe_token env) (po_LeaseDuration opts div 1000) c"
  have "?c \<in> set (mail_contents d')"
    using claim_candidate_Some(1)[OF assms(5)] r(3) by (force simp: claimed_db_def update_content_def)
  moreover have "content_parses d' = content_parses d" using r(3) by (simp add: claimed_db_def update_content_def)
  moreover have "claimable later ?c" if "pe_now env + po_LeaseDuration opts \<le> later" for later
    using that by (simp add: claimable_def claimed_row_def)
  ultimately show ?thesis using run r by (auto simp: claimed_row_def intro!: bexI[of _ ?c])
qed

text \<open>
  Retry delays double from \<^verbatim>\<open>RetryBase\<close> up to the cap \<^verbatim>\<open>RetryMax\<close>, and the 64-bit duration
  never overflows on the way.
\<close>

theorem retryDelay_exact:
  assumes "NewParserWorker True True True True opts = Inr opts" and "po_RetryMax opts \<le> max_int64"
  shows "retryDelay opts attempt = min (po_RetryBase opts * 2 ^ nat (attempt - 1)) (po_RetryMax opts)"
  using assms by (rule retryDelay_min)

section \<open>Concrete instances\<close>

definition sample_parser_options :: parser_options where
  "sample_parser_options = \<lparr>po_Workers = 2, po_PollInterval = 1000000000, po_ParseTimeout = 30000000000, po_LeaseDuration = 60000000000,
     po_MaxAttempts = 5, po_RetryBase = 1000000000, po_RetryMax = 60000000000\<rparr>"

definition sample_parser :: "parsed_message reader_program" where
  "sample_parser = ReadThen 2 (\<lambda>_. ReadThen 8 (\<lambda>_. ReadThen 8 (\<lambda>_. Return (Inr empty_parsed))))"

definition sample_parser_env :: parser_env where
  "sample_parser_env = \<lparr>pe_now = 30, pe_locked = {}, pe_token = ''t'', pe_claim_fault = NoFault, pe_parse_ctx = Ctx None,
     pe_open_fault = (\<lambda>_. None), pe_read_fault = None, pe_caps = [1], pe_finish_ctx = (\<lambda>_. None), pe_close_error = None,
     pe_parse_ctx_err = None, pe_ctx_err = None, pe_clock = 40, pe_report_fault = (\<lambda>_. NoFault)\<rparr>"

definition sample_parse_store :: store where
  "sample_parse_store = sample_store\<lparr>st_objects := [object_path (object_key sample_sha ''abc'') \<mapsto> ''abc'']\<rparr>"

definition sample_parse_claim :: parse_claim where
  "sample_parse_claim = \<lparr>pq_content = \<lparr>cr_key = object_key sample_sha ''abc'', cr_size = 3\<rparr>, pq_token = ''t'', pq_attempt = 1\<rparr>"

lemma sample_options_valid: "NewParserWorker True True True True sample_parser_options = Inr sample_parser_options"
  by (simp add: NewParserWorker_def sample_parser_options_def)

lemma sample_parseClaim: "parseClaim sample_sha sample_parser sample_parser_env sample_parse_store sample_parse_claim = Inr empty_parsed"
proof -
  have "relativePathForKey (object_key sample_sha ''abc'') = Inr (object_path (object_key sample_sha ''abc''))"
    by (rule relativePathForKey_valid, rule object_key_valid) simp
  then show ?thesis
    by (simp add: parseClaim_def sample_parse_claim_def sample_parser_env_def sample_parse_store_def OpenRaw_def OpenContent_def
        sample_parser_def newRawVerifier_def source_of_def verifier_Read_def rawSourceReader_Read_def source_read_def Let_def
        verifier_finish_def verifier_verify_def)
qed

theorem parsed_content_is_verified_witness:
  "\<exists>stored. OpenContent (pe_open_fault sample_parser_env) (pq_content sample_parse_claim) sample_parse_store = Inr stored \<and>
     object_key sample_sha (rs_rest (source_of sample_parser_env stored)) = cr_key (pq_content sample_parse_claim)"
  using parsed_content_is_verified[OF sample_parseClaim] by (auto simp: Let_def)

lemma sample_undisturbed: "undisturbed Some sample_parser_env"
  by (simp add: undisturbed_def sample_parser_env_def zero_time_def)

lemma sample_candidate:
  "claim_candidate (pe_now sample_parser_env) (pe_locked sample_parser_env) queue_db = Some (new_content_row 20 sample_key 5)"
  by (simp add: claim_candidate_def claimable_def queue_db_def new_content_row_def empty_db_def sample_parser_env_def)

lemma sample_retry_max: "po_RetryMax sample_parser_options \<le> max_int64"
  by (simp add: sample_parser_options_def max_int64_def)

theorem processNext_progress_witness:
  "parse_work sample_parser_options (snd (processNext sample_sha Some sample_parser_options sample_parser sample_parser_env sample_store queue_db)) <
     parse_work sample_parser_options queue_db"
proof -
  obtain worked err result d' where run:
    "processNext sample_sha Some sample_parser_options sample_parser sample_parser_env sample_store queue_db = ((worked, err, result), d')"
    by (metis prod.exhaust)
  have "parseClaim sample_sha sample_parser sample_parser_env sample_store (claim_of sample_parser_env (new_content_row 20 sample_key 5)) = Inl (RawSourceError ErrNotExist)"
    using sample_key_valid
    by (simp add: parseClaim_def claim_of_def sample_parser_env_def OpenRaw_def OpenContent_def relativePathForKey_valid new_content_row_def sample_store_def)
  then have "result_fits sample_sha sample_parser sample_parser_env sample_store (claim_of sample_parser_env (new_content_row 20 sample_key 5))"
    by (simp add: result_fits_def)
  then show ?thesis
    using processNext_progress[OF queue_db_wf sample_options_valid sample_retry_max sample_undisturbed sample_candidate run] by (simp add: run)
qed

text \<open>A result with a media type that alone exceeds the column of the attachments.\<close>

definition huge_parsed :: parsed_message where
  "huge_parsed = empty_parsed\<lparr>p_attachments := [\<lparr>att_part_path = ''0'', att_file_name = ''a'', att_content_type = replicate 262145 CHR ''x'',
     att_disposition = [], att_content_id = [], att_size = 3\<rparr>]\<rparr>"

definition huge_parser :: "parsed_message reader_program" where
  "huge_parser = ReadThen 2 (\<lambda>_. ReadThen 8 (\<lambda>_. ReadThen 8 (\<lambda>_. Return (Inr huge_parsed))))"

definition sample_parse_db :: db where
  "sample_parse_db = empty_db\<lparr>mail_contents := [new_content_row 20 (object_key sample_sha ''abc'') 3]\<rparr>"

theorem refused_result_never_settles_witness:
  "\<exists>e d'. processNext sample_sha Some sample_parser_options huge_parser sample_parser_env sample_parse_store sample_parse_db = ((True, Some e, Some ''error''), d') \<and>
     content_parses d' = []"
proof -
  let ?c = "new_content_row 20 (object_key sample_sha ''abc'') 3"
  have k: "key_valid (object_key sample_sha ''abc'')" by (rule object_key_valid) simp
  have "content_row_ok ?c" using k by (intro new_content_row_ok) simp_all
  then have wf: "db_wf sample_parse_db" by (simp add: sample_parse_db_def db_wf_def wf_tables empty_db_def List.map_filter_simps)
  have cand: "claim_candidate (pe_now sample_parser_env) (pe_locked sample_parser_env) sample_parse_db = Some ?c"
    by (simp add: claim_candidate_def claimable_def sample_parse_db_def new_content_row_def empty_db_def sample_parser_env_def)
  have cl: "claim_of sample_parser_env ?c = sample_parse_claim"
    by (simp add: claim_of_def sample_parse_claim_def new_content_row_def sample_parser_env_def)
  have "parseClaim sample_sha huge_parser sample_parser_env sample_parse_store sample_parse_claim = Inr huge_parsed"
    using relativePathForKey_valid[OF k]
    by (simp add: parseClaim_def sample_parse_claim_def sample_parser_env_def sample_parse_store_def OpenRaw_def OpenContent_def
        huge_parser_def newRawVerifier_def source_of_def verifier_Read_def rawSourceReader_Read_def source_read_def Let_def
        verifier_finish_def verifier_verify_def)
  moreover have "262144 < length (json_array (map attachment_json (p_attachments huge_parsed)))"
    using attachments_json_length[of "p_attachments huge_parsed"] by (simp add: huge_parsed_def)
  ultimately have "\<not> result_fits sample_sha huge_parser sample_parser_env sample_parse_store (claim_of sample_parser_env ?c)"
    by (simp add: result_fits_def cl parse_row_ok_def parse_checks_def json_fits_def)
  from refused_result_never_settles[OF wf sample_options_valid sample_retry_max sample_undisturbed cand this]
  show ?thesis by (auto simp: sample_parse_db_def empty_db_def)
qed

theorem retryDelay_exact_witness: "retryDelay sample_parser_options 3 = 4000000000"
  using retryDelay_exact[OF sample_options_valid, of 3] by (simp add: sample_parser_options_def max_int64_def)

end
