(* ===== verification/Auth_Token.thy ===== *)
theory Auth_Token
  imports Wisp_Codec
begin

text \<open>
  The opaque token grammar of \<^verbatim>\<open>internal/auth/token.go\<close>: generation from a random
  source, strict parsing, canonical encoding and the domain-separated digest that is
  persisted instead of the plaintext. The hash function is a parameter: every statement
  holds for SHA-256 and for any other function.
\<close>

section \<open>Data\<close>

definition tokenPrefix :: string where "tokenPrefix = ''wisp_''"
definition tokenVersion :: string where "tokenVersion = ''v1''"
definition kidBytes :: nat where "kidBytes = 12"
definition kidEncodedBytes :: nat where "kidEncodedBytes = 24"
definition secretBytes :: nat where "secretBytes = 32"
definition secretEncodedBytes :: nat where "secretEncodedBytes = 43"
definition digestDomain :: bytes where "digestDomain = ''mailwisp-token-v1'' @ [CHR 0x00]"

definition TokenPersonalAccess :: string where "TokenPersonalAccess = ''pat''"
definition TokenCapability :: string where "TokenCapability = ''cap''"
definition TokenSession :: string where "TokenSession = ''ses''"
definition TokenWebhookSecret :: string where "TokenWebhookSecret = ''whsec''"

lemmas token_consts [simp] = tokenPrefix_def tokenVersion_def kidBytes_def kidEncodedBytes_def
  secretBytes_def secretEncodedBytes_def TokenPersonalAccess_def TokenCapability_def
  TokenSession_def TokenWebhookSecret_def

record token =
  tokenType :: string
  kid :: string
  secret :: bytes

section \<open>Operations\<close>

definition token_type_valid :: "string \<Rightarrow> bool" where
  "token_type_valid t \<longleftrightarrow> t = TokenPersonalAccess \<or> t = TokenCapability \<or> t = TokenSession \<or> t = TokenWebhookSecret"

definition isLowerHex :: "string \<Rightarrow> bool" where
  "isLowerHex value \<longleftrightarrow> (if length value \<noteq> kidEncodedBytes then False else list_all lower_hex_char value)"

definition base64url_char :: "char \<Rightarrow> bool" where
  "base64url_char c \<longleftrightarrow> in_range CHR ''A'' CHR ''Z'' c \<or> in_range CHR ''a'' CHR ''z'' c \<or>
     in_range CHR ''0'' CHR ''9'' c \<or> c = CHR ''-'' \<or> c = CHR ''_''"

definition isBase64URL :: "string \<Rightarrow> bool" where
  "isBase64URL value \<longleftrightarrow> (if length value \<noteq> secretEncodedBytes then False else list_all base64url_char value)"

text \<open>The random source is \<^verbatim>\<open>nil\<close> or the bytes it will deliver; what is left is returned too.\<close>

definition generateToken :: "string \<Rightarrow> bytes option \<Rightarrow> (token \<times> bytes) result" where
  "generateToken tokType random =
     (if \<not> token_type_valid tokType then Inl ErrInvalidToken
      else case random of
          None \<Rightarrow> Inl (OtherError ''token random source is required'')
        | Some r \<Rightarrow>
            (case read_full kidBytes r of
               Inl e \<Rightarrow> Inl e
             | Inr (k, r1) \<Rightarrow>
                 (case read_full secretBytes r1 of
                    Inl e \<Rightarrow> Inl e
                  | Inr (s, r2) \<Rightarrow>
                      Inr (\<lparr>tokenType = tokType, kid = hex_encode k, secret = s\<rparr>, r2))))"

definition ParseToken :: "string \<Rightarrow> token result" where
  "ParseToken plaintext =
     (if \<not> has_prefix plaintext tokenPrefix then Inl ErrInvalidToken
      else let remainder = trim_prefix plaintext tokenPrefix in
        case index_byte remainder CHR ''_'' of
          None \<Rightarrow> Inl ErrInvalidToken
        | Some 0 \<Rightarrow> Inl ErrInvalidToken
        | Some typeEnd \<Rightarrow>
            let tokType = take typeEnd remainder in
            if \<not> token_type_valid tokType then Inl ErrInvalidToken
            else let remainder1 = drop (typeEnd + 1) remainder;
                     versionPrefix = tokenVersion @ ''_'' in
              if \<not> has_prefix remainder1 versionPrefix then Inl ErrInvalidToken
              else let remainder2 = trim_prefix remainder1 versionPrefix in
                if length remainder2 \<noteq> kidEncodedBytes + 1 + secretEncodedBytes \<or>
                   remainder2 ! kidEncodedBytes \<noteq> CHR ''_'' then Inl ErrInvalidToken
                else let k = take kidEncodedBytes remainder2 in
                  if \<not> isLowerHex k then Inl ErrInvalidToken
                  else let encodedSecret = drop (kidEncodedBytes + 1) remainder2 in
                    if \<not> isBase64URL encodedSecret then Inl ErrInvalidToken
                    else case b64_decode True encodedSecret of
                        None \<Rightarrow> Inl ErrInvalidToken
                      | Some decodedSecret \<Rightarrow>
                          if length decodedSecret \<noteq> secretBytes then Inl ErrInvalidToken
                          else Inr \<lparr>tokenType = tokType, kid = k, secret = decodedSecret\<rparr>)"

definition token_encode :: "token \<Rightarrow> string result" where
  "token_encode t =
     (if \<not> token_type_valid (tokenType t) \<or> length (kid t) \<noteq> kidEncodedBytes \<or> \<not> isLowerHex (kid t)
      then Inl ErrInvalidToken
      else let encodedSecret = b64_encode (secret t) in
        if length encodedSecret \<noteq> secretEncodedBytes then Inl ErrInvalidToken
        else Inr (tokenPrefix @ tokenType t @ ''_'' @ tokenVersion @ ''_'' @ kid t @ ''_'' @ encodedSecret))"

text \<open>The bytes written to the hash, and the digest.\<close>

definition digest_input :: "token \<Rightarrow> bytes" where
  "digest_input t = digestDomain @ tokenType t @ [CHR 0x00] @ kid t @ [CHR 0x00] @ secret t"

definition token_digest :: "(bytes \<Rightarrow> bytes) \<Rightarrow> token \<Rightarrow> bytes result" where
  "token_digest sha256 t =
     (if \<not> token_type_valid (tokenType t) \<or> length (kid t) \<noteq> kidEncodedBytes \<or> \<not> isLowerHex (kid t)
      then Inl ErrInvalidToken
      else Inr (sha256 (digest_input t)))"

definition EqualDigest :: "bytes \<Rightarrow> bytes \<Rightarrow> bool" where
  "EqualDigest first second \<longleftrightarrow> first = second"

section \<open>Well-formed tokens and the round trip\<close>

text \<open>A Go \<^verbatim>\<open>Token\<close> holds an array of 32 bytes; the rest is what the grammar demands.\<close>

definition wf_token :: "token \<Rightarrow> bool" where
  "wf_token t \<longleftrightarrow> token_type_valid (tokenType t) \<and> isLowerHex (kid t) \<and> length (secret t) = secretBytes"

lemma isLowerHex_iff: "isLowerHex k \<longleftrightarrow> length k = 24 \<and> list_all lower_hex_char k"
  by (simp add: isLowerHex_def)

lemma isBase64URL_iff: "isBase64URL v \<longleftrightarrow> length v = 43 \<and> list_all base64url_char v"
  by (simp add: isBase64URL_def)

lemma base64url_char_no_break: "base64url_char c \<Longrightarrow> c \<noteq> CHR 10 \<and> c \<noteq> CHR 13"
  by (auto simp: base64url_char_def in_range_def)

lemma b64_val_base64url: "b64_val c \<noteq> None \<longleftrightarrow> base64url_char c"
  by (simp add: b64_val_def base64url_char_def)

lemma b64_encode_isBase64URL: "length bs = 32 \<Longrightarrow> isBase64URL (b64_encode bs)"
proof -
  assume l: "length bs = 32"
  have "base64url_char (b64_char d)" if "d < 64" for d
    using that b64_val_base64url [of "b64_char d"] by simp
  then have "list_all base64url_char (b64_encode bs)"
    by (auto simp: b64_encode_def list_all_iff dest: b64_digits_less)
  with l show ?thesis by (simp add: isBase64URL_def length_b64_encode)
qed

lemma token_type_no_underscore: "token_type_valid t \<Longrightarrow> CHR ''_'' \<notin> set t \<and> t \<noteq> []"
  by (auto simp: token_type_valid_def)

lemma encode_of_wf:
  "wf_token t \<Longrightarrow> token_encode t =
     Inr (''wisp_'' @ tokenType t @ ''_'' @ ''v1'' @ ''_'' @ kid t @ ''_'' @ b64_encode (secret t))"
  by (auto simp: token_encode_def wf_token_def isLowerHex_iff length_b64_encode Let_def)

lemma parse_of_parts:
  assumes "wf_token t"
  shows "ParseToken (''wisp_'' @ tokenType t @ ''_'' @ ''v1'' @ ''_'' @ kid t @ ''_'' @ b64_encode (secret t)) = Inr t"
proof -
  let ?tail = "kid t @ CHR ''_'' # b64_encode (secret t)"
  from assms have ty: "token_type_valid (tokenType t)" and k: "isLowerHex (kid t)" and s: "length (secret t) = 32"
    by (auto simp: wf_token_def)
  from k have lk: "length (kid t) = 24" by (simp add: isLowerHex_iff)
  from token_type_no_underscore [OF ty] obtain c r where cr: "tokenType t = c # r" by (cases "tokenType t") auto
  have idx: "index_byte (tokenType t @ CHR ''_'' # ''v1_'' @ ?tail) CHR ''_'' = Some (Suc (length r))"
    using index_byte_append [of "CHR ''_''" "tokenType t" "''v1_'' @ ?tail"] token_type_no_underscore [OF ty] cr by simp
  have len: "length (b64_encode (secret t)) = 43" using s by (simp add: length_b64_encode)
  have "''wisp_'' @ tokenType t @ ''_'' @ ''v1'' @ ''_'' @ kid t @ ''_'' @ b64_encode (secret t)
     = ''wisp_'' @ (tokenType t @ CHR ''_'' # ''v1_'' @ ?tail)" by simp
  moreover have "ParseToken (''wisp_'' @ (tokenType t @ CHR ''_'' # ''v1_'' @ ?tail)) = Inr t"
    using ty k s lk len b64_encode_isBase64URL [OF s] cr idx
    by (simp add: ParseToken_def trim_prefix_def nth_append Let_def)
  ultimately show ?thesis by simp
qed

lemma ParseToken_Inr:
  assumes "ParseToken s = Inr t"
  shows "wf_token t \<and> s = ''wisp_'' @ tokenType t @ ''_'' @ ''v1'' @ ''_'' @ kid t @ ''_'' @ b64_encode (secret t)"
proof -
  from assms obtain rem where s: "s = ''wisp_'' @ rem"
    by (auto simp: ParseToken_def has_prefix_iff split: if_splits)
  have tp: "has_prefix s ''wisp_''" "trim_prefix s ''wisp_'' = rem" by (simp_all add: s trim_prefix_def)
  from assms tp obtain i where i: "index_byte rem CHR ''_'' = Some (Suc i)"
    by (auto simp: ParseToken_def Let_def split: option.splits nat.splits)
  define ty where "ty = take (Suc i) rem"
  define r1 where "r1 = drop (Suc (Suc i)) rem"
  have rem: "rem = ty @ CHR ''_'' # r1" using index_byte_split [OF i] by (simp add: ty_def r1_def)
  from assms have vp: "has_prefix r1 ''v1_''" and vty: "token_type_valid ty"
    by (auto simp: ParseToken_def tp i Let_def ty_def r1_def split: if_splits)
  from vp obtain r2 where r1: "r1 = ''v1_'' @ r2" by (auto simp: has_prefix_iff)
  have tv: "trim_prefix r1 ''v1_'' = r2" by (simp add: r1 trim_prefix_def)
  define k where "k = take 24 r2"
  define e where "e = drop 25 r2"
  from assms have c: "length r2 = 68" "r2 ! 24 = CHR ''_''" "isLowerHex k" "isBase64URL e"
    by (auto simp: ParseToken_def tp i Let_def k_def e_def r1_def [symmetric] tv split: if_splits)
  from assms obtain ds where ds: "b64_decode True e = Some ds" "length ds = 32"
      "t = \<lparr>tokenType = ty, kid = k, secret = ds\<rparr>"
    by (auto simp: ParseToken_def tp i Let_def k_def e_def ty_def r1_def [symmetric] tv split: if_splits option.splits)
  have r2: "r2 = k @ CHR ''_'' # e"
    using c id_take_nth_drop [of 24 r2] by (simp add: k_def e_def)
  have "CHR 10 \<notin> set e" "CHR 13 \<notin> set e"
    using c(4) base64url_char_no_break by (auto simp: isBase64URL_iff list_all_iff)
  with ds(1) have "b64_encode ds = e" by (rule b64_encode_decode_strict)
  then show ?thesis using s rem r1 r2 c vty ds by (simp add: wf_token_def)
qed

text \<open>
  The canonical grammar is exact: a plaintext parses to a token if and only if the token is
  well formed and the plaintext is its encoding. In particular every accepted plaintext is the
  only one for its token, and encoding then parsing is the identity.
\<close>

theorem ParseToken_iff_encode: "ParseToken s = Inr t \<longleftrightarrow> wf_token t \<and> token_encode t = Inr s"
proof
  assume "ParseToken s = Inr t"
  from ParseToken_Inr [OF this] encode_of_wf [of t] show "wf_token t \<and> token_encode t = Inr s" by simp
next
  assume "wf_token t \<and> token_encode t = Inr s"
  with encode_of_wf [of t] parse_of_parts [of t] show "ParseToken s = Inr t" by (metis sum.inject(2))
qed

text \<open>
  Generation consumes exactly 44 bytes of the random source and produces a well-formed token
  whose key identifier is the hexadecimal form of the first 12 bytes and whose secret is the
  next 32; a shorter source, a missing source or an unknown type is an error.
\<close>

theorem generateToken_spec:
  "generateToken ty random = Inr (t, rest) \<longleftrightarrow>
     (\<exists>r. random = Some r \<and> token_type_valid ty \<and> 44 \<le> length r \<and> rest = drop 44 r \<and>
          t = \<lparr>tokenType = ty, kid = hex_encode (take 12 r), secret = take 32 (drop 12 r)\<rparr> \<and>
          wf_token t)"
  by (auto simp: generateToken_def read_full_def wf_token_def isLowerHex_iff
      split: option.splits if_splits)

text \<open>
  The digest input separates every field: two well-formed tokens that feed the same bytes to
  the hash are equal, so a digest collision is a collision of the hash function itself.
\<close>

theorem digest_input_inj:
  assumes "wf_token t" and "wf_token u"
  shows "digest_input t = digest_input u \<longleftrightarrow> t = u"
proof
  assume eq: "digest_input t = digest_input u"
  have no0: "CHR 0x00 \<notin> set (tokenType v)" if "wf_token v" for v
    using that by (auto simp: wf_token_def token_type_valid_def)
  have "cut (tokenType t @ CHR 0x00 # kid t @ CHR 0x00 # secret t) CHR 0x00
      = cut (tokenType u @ CHR 0x00 # kid u @ CHR 0x00 # secret u) CHR 0x00"
    using eq by (simp add: digest_input_def)
  then have ty: "tokenType t = tokenType u" and r: "kid t @ CHR 0x00 # secret t = kid u @ CHR 0x00 # secret u"
    using no0 assms(1,2) by (simp_all add: cut_found)
  have "length (kid t) = length (kid u)"
    using assms(1,2) by (simp add: wf_token_def isLowerHex_iff)
  with r have "kid t = kid u" "secret t = secret u" by auto
  with ty show "t = u" by simp
qed simp

definition sample_token :: token where
  "sample_token = \<lparr>tokenType = TokenCapability, kid = replicate 24 CHR ''a'', secret = replicate 32 CHR ''x''\<rparr>"

lemma sample_token_wf [simp]: "wf_token sample_token"
  by code_simp

theorem digest_input_inj_witness:
  "wf_token sample_token \<and> wf_token (sample_token\<lparr>tokenType := TokenSession\<rparr>) \<and>
   digest_input sample_token \<noteq> digest_input (sample_token\<lparr>tokenType := TokenSession\<rparr>)"
proof -
  have u: "wf_token (sample_token\<lparr>tokenType := TokenSession\<rparr>)" by code_simp
  have "sample_token \<noteq> sample_token\<lparr>tokenType := TokenSession\<rparr>" by (simp add: sample_token_def)
  then show ?thesis using digest_input_inj [OF sample_token_wf u] u by simp
qed

end
