(* ===== verification/Auth_Scope.thy ===== *)
theory Auth_Scope
  imports Wisp_Prelude
begin

unbundle bit_operations_syntax

text \<open>
  Capability scopes of \<^verbatim>\<open>internal/auth/scope.go\<close>: single bits of a \<^verbatim>\<open>uint32\<close>, sets of
  scopes as bit masks, and the sorted scope names shown to clients.
\<close>

type_synonym scope = "32 word"
type_synonym scope_set = "32 word"

definition ScopeInboxRead :: scope where "ScopeInboxRead = 1"
definition ScopeInboxDelete :: scope where "ScopeInboxDelete = 2"
definition ScopeMessageRead :: scope where "ScopeMessageRead = 4"
definition ScopeMessageUpdate :: scope where "ScopeMessageUpdate = 8"
definition ScopeMessageDelete :: scope where "ScopeMessageDelete = 16"

lemmas scope_consts = ScopeInboxRead_def ScopeInboxDelete_def ScopeMessageRead_def
  ScopeMessageUpdate_def ScopeMessageDelete_def

definition allCapabilityScopes :: scope where
  "allCapabilityScopes = ScopeInboxRead OR ScopeInboxDelete OR ScopeMessageRead OR ScopeMessageUpdate OR
     ScopeMessageDelete"

text \<open>The guard both loops use: a non-zero known mask with one bit set.\<close>

definition bad_scope :: "scope \<Rightarrow> bool" where
  "bad_scope s \<longleftrightarrow> s = 0 \<or> s AND allCapabilityScopes \<noteq> s \<or> s AND (s - 1) \<noteq> 0"

fun new_scope_loop :: "scope list \<Rightarrow> scope_set \<Rightarrow> scope_set result" where
  "new_scope_loop [] acc =
     (if acc = 0 then Inl (OtherError ''at least one capability scope is required'') else Inr acc)"
| "new_scope_loop (s # ss) acc =
     (if bad_scope s then Inl (OtherError ''invalid capability scope'') else new_scope_loop ss (acc OR s))"

definition NewScopeSet :: "scope list \<Rightarrow> scope_set result" where
  "NewScopeSet scopes = new_scope_loop scopes 0"

definition ScopeSetFromMask :: "32 word \<Rightarrow> scope_set result" where
  "ScopeSetFromMask m =
     (if m = 0 \<or> m AND allCapabilityScopes \<noteq> m
      then Inl (OtherError ''invalid capability scope mask'') else Inr m)"

fun scopes_has :: "scope_set \<Rightarrow> scope list \<Rightarrow> bool" where
  "scopes_has s [] = True"
| "scopes_has s (r # rs) = (if bad_scope r \<or> s AND r \<noteq> r then False else scopes_has s rs)"

definition scope_table :: "(scope \<times> string) list" where
  "scope_table =
     [(ScopeInboxRead, ''inbox:read''), (ScopeInboxDelete, ''inbox:delete''),
      (ScopeMessageRead, ''message:read''), (ScopeMessageUpdate, ''message:update''),
      (ScopeMessageDelete, ''message:delete'')]"

text \<open>The source ranges over a map in any order and sorts the names afterwards.\<close>

definition scope_names :: "scope_set \<Rightarrow> string list" where
  "scope_names s = sort (map snd (filter (\<lambda>(scope, name). scopes_has s [scope]) scope_table))"

section \<open>Lemmas\<close>

definition all_scopes :: "scope list" where
  "all_scopes = [ScopeInboxRead, ScopeInboxDelete, ScopeMessageRead, ScopeMessageUpdate, ScopeMessageDelete]"

lemma allCapabilityScopes_31: "allCapabilityScopes = 31"
  by (simp add: allCapabilityScopes_def scope_consts)

lemma masked_less: "(s :: 32 word) AND 31 = s \<Longrightarrow> unat s < 32"
proof -
  assume "s AND 31 = s"
  then have "s \<le> 31" by (metis word_and_le1)
  then have "unat s \<le> unat (31 :: 32 word)" by (simp only: word_le_nat_alt)
  then show ?thesis by simp
qed

lemma good_scope_table:
  "list_all (\<lambda>n. let s = word_of_nat n :: 32 word in
      \<not> (s = 0 \<or> s AND (s - 1) \<noteq> 0) \<longrightarrow> s = 1 \<or> s = 2 \<or> s = 4 \<or> s = 8 \<or> s = 16) [0..<32]"
  by code_simp

lemma bad_scope_iff: "bad_scope s \<longleftrightarrow> s \<notin> set all_scopes"
proof (rule iffI, rule_tac [2] ccontr)
  assume "bad_scope s"
  then show "s \<notin> set all_scopes"
    by (auto simp: bad_scope_def all_scopes_def scope_consts allCapabilityScopes_31)
next
  assume n: "s \<notin> set all_scopes" and g: "\<not> bad_scope s"
  then have "unat s < 32" using masked_less by (simp add: bad_scope_def allCapabilityScopes_31)
  then have "unat s \<in> set [0..<32]" by simp
  with good_scope_table have "let t = word_of_nat (unat s) :: 32 word in
      \<not> (t = 0 \<or> t AND (t - 1) \<noteq> 0) \<longrightarrow> t = 1 \<or> t = 2 \<or> t = 4 \<or> t = 8 \<or> t = 16"
    unfolding list_all_iff by (rule bspec)
  with g n show False by (simp add: bad_scope_def all_scopes_def scope_consts)
qed

lemma scope_is_bit: "s \<in> set all_scopes \<Longrightarrow> \<exists>k < 5. s = 2 ^ k"
  by (auto simp: all_scopes_def scope_consts intro: exI [of _ 0] exI [of _ "Suc 0"] exI [of _ 2] exI [of _ 3] exI [of _ 4])

lemma and_single_bit:
  assumes "k < 32"
  shows "((x :: 32 word) AND 2 ^ k = 2 ^ k) \<longleftrightarrow> bit x k"
proof
  assume e: "x AND 2 ^ k = 2 ^ k"
  with assms have "bit (x AND 2 ^ k) k" by (simp add: bit_simps)
  then show "bit x k" by (simp add: bit_simps)
next
  assume "bit x k"
  with assms show "x AND 2 ^ k = 2 ^ k" by (intro bit_word_eqI) (auto simp: bit_simps)
qed

lemma single_bit_or:
  assumes "s \<in> set all_scopes"
  shows "(x OR y) AND s = s \<longleftrightarrow> x AND s = s \<or> y AND s = s"
proof -
  from scope_is_bit [OF assms] obtain k where "k < 5" "s = 2 ^ k" by blast
  then show ?thesis by (simp add: and_single_bit bit_simps)
qed

lemma single_bit_self:
  assumes "s \<in> set all_scopes" "t \<in> set all_scopes"
  shows "s AND t = t \<longleftrightarrow> s = t"
  using assms by (auto simp: all_scopes_def scope_consts)

lemma new_scope_loop_Inr:
  "new_scope_loop ss acc = Inr set' \<Longrightarrow>
     set ss \<subseteq> set all_scopes \<and> set' \<noteq> 0 \<and>
     (\<forall>t \<in> set all_scopes. set' AND t = t \<longleftrightarrow> acc AND t = t \<or> t \<in> set ss)"
proof (induction ss arbitrary: acc)
  case Nil
  then show ?case by (auto split: if_splits)
next
  case (Cons s ss)
  from Cons.prems have s: "s \<in> set all_scopes" and r: "new_scope_loop ss (acc OR s) = Inr set'"
    by (auto simp: bad_scope_iff split: if_splits)
  from Cons.IH [OF r] s show ?case by (auto simp: single_bit_or single_bit_self)
qed

lemma scopes_has_iff: "scopes_has s rs \<longleftrightarrow> set rs \<subseteq> set all_scopes \<and> (\<forall>r \<in> set rs. s AND r = r)"
  by (induction rs) (auto simp: bad_scope_iff)

lemma new_scope_loop_total:
  "set ss \<subseteq> set all_scopes \<Longrightarrow> (acc \<noteq> 0 \<or> ss \<noteq> []) \<Longrightarrow> \<exists>r. new_scope_loop ss acc = Inr r"
proof (induction ss arbitrary: acc)
  case (Cons s ss)
  then have s: "s \<in> set all_scopes" "\<not> bad_scope s" by (auto simp: bad_scope_iff)
  then have "(acc OR s) AND s = s" "s \<noteq> 0"
    using single_bit_or [of s acc s] by (auto simp: all_scopes_def scope_consts)
  then have "acc OR s \<noteq> 0" by (metis bit.conj_zero_left)
  with Cons s show ?case by auto
qed auto

lemma new_scope_loop_masked:
  "new_scope_loop ss acc = Inr r \<Longrightarrow> acc AND 31 = acc \<Longrightarrow> r AND 31 = r"
proof (induction ss arbitrary: acc)
  case (Cons s ss)
  then have "s AND 31 = s" by (auto simp: bad_scope_def allCapabilityScopes_31 split: if_splits)
  with Cons show ?case by (auto simp: bit.conj_disj_distrib2 split: if_splits)
qed (auto split: if_splits)

text \<open>
  A scope set built by \<^verbatim>\<open>NewScopeSet\<close> grants exactly the scopes it was built from: it is
  refused unless the list is non-empty and holds only the five defined scopes, and then
  \<^verbatim>\<open>Has\<close> answers true for a request precisely when every requested scope was given.
\<close>

theorem NewScopeSet_grants:
  "case NewScopeSet scopes of
     Inl _ \<Rightarrow> \<not> (scopes \<noteq> [] \<and> set scopes \<subseteq> set all_scopes)
   | Inr s \<Rightarrow> scopes \<noteq> [] \<and> set scopes \<subseteq> set all_scopes \<and> ScopeSetFromMask s = Inr s \<and>
       (\<forall>required. scopes_has s required = (set required \<subseteq> set scopes))"
proof (cases "NewScopeSet scopes")
  case (Inl e)
  then show ?thesis using new_scope_loop_total [of scopes 0] by (auto simp: NewScopeSet_def)
next
  case (Inr s)
  then have l: "new_scope_loop scopes 0 = Inr s" by (simp add: NewScopeSet_def)
  from new_scope_loop_Inr [OF this] have
    sub: "set scopes \<subseteq> set all_scopes" and nz: "s \<noteq> 0" and
    bits: "\<forall>t \<in> set all_scopes. s AND t = t \<longleftrightarrow> t \<in> set scopes"
    by (auto simp: all_scopes_def scope_consts)
  have "s AND 31 = s" using new_scope_loop_masked [OF l] by simp
  moreover have "\<forall>required. scopes_has s required = (set required \<subseteq> set scopes)"
    using sub bits by (auto simp: scopes_has_iff)
  ultimately show ?thesis using Inr sub nz l
    by (auto simp: ScopeSetFromMask_def allCapabilityScopes_31)
qed

end
