(* ===== verification/Capability_Service.thy ===== *)
theory Capability_Service
  imports Auth_Token Auth_Scope
begin

text \<open>
  \<^verbatim>\<open>internal/auth/capability.go\<close>: issuing, authenticating, rotating and revoking Inbox capabilities
  over the interface \<^verbatim>\<open>CapabilityRepository\<close>. The interface is the record \<open>cap_repo\<close> over a
  store \<open>'d\<close>; the environment \<open>'e\<close> of a call carries what the call cannot decide itself
  (generated identifiers, failures). The locale \<open>capability_store\<close> states what a repository
  promises; the life cycle of a capability is proved in it.
\<close>

section \<open>Types\<close>

record new_capability =
  nc_inbox :: string
  nc_kid :: string
  nc_digest :: bytes
  nc_scopes :: scope_set
  nc_created :: time
  nc_expires :: time

record replacement_capability =
  rp_kid :: string
  rp_digest :: bytes
  rp_created :: time

record capability_record =
  ca_id :: string
  ca_inbox :: string
  ca_kid :: string
  ca_digest :: bytes
  ca_scopes :: scope_set
  ca_created :: time
  ca_expires :: time
  ca_last_used :: "time option"
  ca_revoked :: "time option"
  ca_inbox_active :: bool
  ca_inbox_expires :: "time option"

record ('e, 'd) cap_repo =
  cr_create :: "new_capability \<Rightarrow> 'e \<Rightarrow> 'd \<Rightarrow> capability_record result \<times> 'd"
  cr_find :: "string \<Rightarrow> 'e \<Rightarrow> 'd \<Rightarrow> capability_record result"
  cr_rotate :: "string \<Rightarrow> replacement_capability \<Rightarrow> time \<Rightarrow> 'e \<Rightarrow> 'd \<Rightarrow> capability_record result \<times> 'd"
  cr_revoke :: "string \<Rightarrow> time \<Rightarrow> 'e \<Rightarrow> 'd \<Rightarrow> unit result \<times> 'd"

record issued_capability =
  is_id :: string
  is_inbox :: string
  is_kid :: string
  is_plaintext :: string
  is_scopes :: scope_set
  is_expires :: time

record principal =
  pc_credential :: string
  pc_inbox :: string
  pc_kid :: string
  pc_scopes :: scope_set
  pc_expires :: time

definition maxKIDGenerationAttempts :: nat where
  "maxKIDGenerationAttempts = 3"

definition issuedCapability :: "capability_record \<Rightarrow> string \<Rightarrow> issued_capability" where
  "issuedCapability r plaintext =
     \<lparr>is_id = ca_id r, is_inbox = ca_inbox r, is_kid = ca_kid r, is_plaintext = plaintext,
      is_scopes = ca_scopes r, is_expires = ca_expires r\<rparr>"

definition principalFromRecord :: "capability_record \<Rightarrow> principal" where
  "principalFromRecord r =
     \<lparr>pc_credential = ca_id r, pc_inbox = ca_inbox r, pc_kid = ca_kid r, pc_scopes = ca_scopes r,
      pc_expires = ca_expires r\<rparr>"

section \<open>Operations\<close>

text \<open>
  The retry loops draw a fresh token per attempt: \<open>rnd i\<close> is what the random source delivers to
  attempt \<open>i\<close>, \<open>env i\<close> the environment of its repository call and \<open>clock i\<close> the time it reads.
\<close>

fun issue_loop :: "(bytes \<Rightarrow> bytes) \<Rightarrow> ('e, 'd) cap_repo \<Rightarrow> new_capability \<Rightarrow> (nat \<Rightarrow> bytes) \<Rightarrow> (nat \<Rightarrow> 'e) \<Rightarrow>
    nat \<Rightarrow> nat \<Rightarrow> 'd \<Rightarrow> issued_capability result \<times> 'd" where
  "issue_loop sha256 R c rnd env i 0 d = (Inl ErrCapabilityKIDConflict, d)"
| "issue_loop sha256 R c rnd env i (Suc n) d =
     (case generateToken TokenCapability (Some (rnd i)) of
        Inl e \<Rightarrow> (Inl e, d)
      | Inr (token, _) \<Rightarrow>
          (case token_digest sha256 token of
             Inl e \<Rightarrow> (Inl e, d)
           | Inr digest \<Rightarrow>
               (case cr_create R (c\<lparr>nc_kid := kid token, nc_digest := digest\<rparr>) (env i) d of
                  (Inl e, d') \<Rightarrow>
                    if e = ErrCapabilityKIDConflict then issue_loop sha256 R c rnd env (Suc i) n d' else (Inl e, d')
                | (Inr record', d') \<Rightarrow>
                    (case token_encode token of
                       Inl e \<Rightarrow> (Inl e, d')
                     | Inr encoded \<Rightarrow> (Inr (issuedCapability record' encoded), d')))))"

definition Issue :: "(bytes \<Rightarrow> bytes) \<Rightarrow> (string \<Rightarrow> string option) \<Rightarrow> ('e, 'd) cap_repo \<Rightarrow> ctx \<Rightarrow> string \<Rightarrow> scope_set \<Rightarrow> time \<Rightarrow>
    time \<Rightarrow> (nat \<Rightarrow> bytes) \<Rightarrow> (nat \<Rightarrow> 'e) \<Rightarrow> 'd \<Rightarrow> issued_capability result \<times> 'd" where
  "Issue sha256 canon R ctx inboxID scopes expiresAt now rnd env d =
     (if ctx = NilCtx then (Inl (OtherError ''capability issue context is required''), d)
      else if canon inboxID = None then (Inl ErrCapabilitySubjectUnavailable, d)
      else case ScopeSetFromMask scopes of
          Inl e \<Rightarrow> (Inl e, d)
        | Inr _ \<Rightarrow>
            if is_zero_time expiresAt \<or> \<not> expiresAt > now then (Inl ErrCapabilityLifetime, d)
            else issue_loop sha256 R
              \<lparr>nc_inbox = inboxID, nc_kid = [], nc_digest = [], nc_scopes = scopes, nc_created = now, nc_expires = expiresAt\<rparr>
              rnd env 0 maxKIDGenerationAttempts d)"

definition cap_resolve :: "(bytes \<Rightarrow> bytes) \<Rightarrow> ('e, 'd) cap_repo \<Rightarrow> ctx \<Rightarrow> string \<Rightarrow> time \<Rightarrow> 'e \<Rightarrow> 'd \<Rightarrow> capability_record result" where
  "cap_resolve sha256 R ctx plaintext now env d =
     (if ctx = NilCtx then Inl ErrUnauthenticated
      else case ParseToken plaintext of
          Inl _ \<Rightarrow> Inl ErrUnauthenticated
        | Inr token \<Rightarrow>
            if tokenType token \<noteq> TokenCapability then Inl ErrUnauthenticated
            else case cr_find R (kid token) env d of
                Inl e \<Rightarrow> if e = ErrCapabilityNotFound then Inl ErrUnauthenticated else Inl e
              | Inr record' \<Rightarrow>
                  (case token_digest sha256 token of
                     Inl _ \<Rightarrow> Inl ErrUnauthenticated
                   | Inr digest \<Rightarrow>
                       if \<not> EqualDigest digest (ca_digest record') then Inl ErrUnauthenticated
                       else if ca_revoked record' \<noteq> None \<or> \<not> now < ca_expires record' \<or> \<not> ca_inbox_active record'
                         then Inl ErrUnauthenticated
                       else if (case ca_inbox_expires record' of None \<Rightarrow> False | Some t \<Rightarrow> \<not> now < t)
                         then Inl ErrUnauthenticated
                       else Inr record'))"

definition Authenticate :: "(bytes \<Rightarrow> bytes) \<Rightarrow> ('e, 'd) cap_repo \<Rightarrow> ctx \<Rightarrow> string \<Rightarrow> scope list \<Rightarrow> time \<Rightarrow> 'e \<Rightarrow> 'd \<Rightarrow> principal result" where
  "Authenticate sha256 R ctx plaintext required now env d =
     (case cap_resolve sha256 R ctx plaintext now env d of
        Inl e \<Rightarrow> Inl e
      | Inr record' \<Rightarrow>
          if \<not> scopes_has (ca_scopes record') required then Inl ErrForbidden
          else Inr (principalFromRecord record'))"

fun rotate_loop :: "(bytes \<Rightarrow> bytes) \<Rightarrow> ('e, 'd) cap_repo \<Rightarrow> string \<Rightarrow> (nat \<Rightarrow> bytes) \<Rightarrow> (nat \<Rightarrow> time) \<Rightarrow> (nat \<Rightarrow> 'e) \<Rightarrow>
    nat \<Rightarrow> nat \<Rightarrow> 'd \<Rightarrow> issued_capability result \<times> 'd" where
  "rotate_loop sha256 R currentID rnd clock env i 0 d = (Inl ErrCapabilityKIDConflict, d)"
| "rotate_loop sha256 R currentID rnd clock env i (Suc n) d =
     (case generateToken TokenCapability (Some (rnd i)) of
        Inl e \<Rightarrow> (Inl e, d)
      | Inr (token, _) \<Rightarrow>
          (case token_digest sha256 token of
             Inl e \<Rightarrow> (Inl e, d)
           | Inr digest \<Rightarrow>
               (case cr_rotate R currentID \<lparr>rp_kid = kid token, rp_digest = digest, rp_created = clock i\<rparr> (clock i) (env i) d of
                  (Inl e, d') \<Rightarrow>
                    if e = ErrCapabilityKIDConflict then rotate_loop sha256 R currentID rnd clock env (Suc i) n d' else (Inl e, d')
                | (Inr record', d') \<Rightarrow>
                    (case token_encode token of
                       Inl e \<Rightarrow> (Inl e, d')
                     | Inr encoded \<Rightarrow> (Inr (issuedCapability record' encoded), d')))))"

definition Rotate :: "(bytes \<Rightarrow> bytes) \<Rightarrow> ('e, 'd) cap_repo \<Rightarrow> ctx \<Rightarrow> string \<Rightarrow> time \<Rightarrow> 'e \<Rightarrow>
    (nat \<Rightarrow> bytes) \<Rightarrow> (nat \<Rightarrow> time) \<Rightarrow> (nat \<Rightarrow> 'e) \<Rightarrow> 'd \<Rightarrow> issued_capability result \<times> 'd" where
  "Rotate sha256 R ctx plaintext now env0 rnd clock env d =
     (case cap_resolve sha256 R ctx plaintext now env0 d of
        Inl e \<Rightarrow> (Inl e, d)
      | Inr record' \<Rightarrow> rotate_loop sha256 R (ca_id record') rnd clock env 0 maxKIDGenerationAttempts d)"

definition Revoke :: "(bytes \<Rightarrow> bytes) \<Rightarrow> ('e, 'd) cap_repo \<Rightarrow> ctx \<Rightarrow> string \<Rightarrow> time \<Rightarrow> 'e \<Rightarrow> time \<Rightarrow> 'e \<Rightarrow> 'd \<Rightarrow> unit result \<times> 'd" where
  "Revoke sha256 R ctx plaintext now env0 later env d =
     (case cap_resolve sha256 R ctx plaintext now env0 d of
        Inl e \<Rightarrow> (Inl e, d)
      | Inr record' \<Rightarrow> cr_revoke R (ca_id record') later env d)"

section \<open>What authentication checks\<close>

lemma cap_resolve_Inr:
  "cap_resolve sha256 R ctx plaintext now env d = Inr r \<longleftrightarrow>
     ctx \<noteq> NilCtx \<and> (\<exists>t. ParseToken plaintext = Inr t \<and> tokenType t = TokenCapability \<and>
       cr_find R (kid t) env d = Inr r \<and> token_digest sha256 t = Inr (ca_digest r) \<and>
       ca_revoked r = None \<and> now < ca_expires r \<and> ca_inbox_active r \<and>
       (\<forall>x. ca_inbox_expires r = Some x \<longrightarrow> now < x))"
  by (auto simp: cap_resolve_def EqualDigest_def split: sum.splits if_splits option.splits)

lemma generateToken_capability:
  assumes "generateToken TokenCapability (Some r) = Inr (t, rest)"
  shows "wf_token t" "tokenType t = TokenCapability"
  using assms by (auto simp: generateToken_def read_full_def wf_token_def isLowerHex_iff token_type_valid_def split: if_splits)

lemma wf_token_encode: "wf_token t \<Longrightarrow> token_encode t = Inr s \<Longrightarrow> ParseToken s = Inr t"
  using encode_of_wf [of t] parse_of_parts [of t] by (metis sum.inject(2))

lemma wf_token_digest: "wf_token t \<Longrightarrow> token_digest sha256 t = Inr (sha256 (digest_input t))"
  by (simp add: token_digest_def wf_token_def isLowerHex_iff)

text \<open>A successful loop ends with a repository call that stored the token's own digest.\<close>

lemma issue_loop_Inr:
  assumes "issue_loop sha256 R c rnd env i n d = (Inr iss, d')"
    and "\<And>j x d1. cr_create R x (env j) d = (Inl ErrCapabilityKIDConflict, d1) \<Longrightarrow> d1 = d"
  shows "\<exists>t j r. wf_token t \<and> tokenType t = TokenCapability \<and> token_encode t = Inr (is_plaintext iss) \<and>
     cr_create R (c\<lparr>nc_kid := kid t, nc_digest := sha256 (digest_input t)\<rparr>) (env j) d = (Inr r, d') \<and>
     iss = issuedCapability r (is_plaintext iss)"
  using assms(1)
proof (induction n arbitrary: i)
  case (Suc n)
  from Suc.prems obtain t rest where g: "generateToken TokenCapability (Some (rnd i)) = Inr (t, rest)"
    by (auto split: sum.splits)
  note wf = generateToken_capability [OF g]
  note dg = wf_token_digest [OF wf(1), of sha256]
  obtain x d1 where c: "cr_create R (c\<lparr>nc_kid := kid t, nc_digest := sha256 (digest_input t)\<rparr>) (env i) d = (x, d1)"
    by (cases "cr_create R (c\<lparr>nc_kid := kid t, nc_digest := sha256 (digest_input t)\<rparr>) (env i) d")
  show ?case
  proof (cases x)
    case (Inl e)
    with Suc.prems g dg c have e: "e = ErrCapabilityKIDConflict"
      and l: "issue_loop sha256 R c rnd env (Suc i) n d1 = (Inr iss, d')" by (auto split: if_splits)
    have "d1 = d" using assms(2) c Inl e by blast
    with l have "issue_loop sha256 R c rnd env (Suc i) n d = (Inr iss, d')" by simp
    then show ?thesis by (rule Suc.IH)
  next
    case (Inr r)
    with Suc.prems g dg c obtain s where s: "token_encode t = Inr s" "iss = issuedCapability r s" "d' = d1"
      by (auto split: sum.splits)
    have "is_plaintext iss = s" using s(2) by (simp add: issuedCapability_def)
    with wf c Inr s show ?thesis by (intro exI [of _ t] exI [of _ i] exI [of _ r]) simp
  qed
qed simp

lemma rotate_loop_Inr:
  assumes "rotate_loop sha256 R cur rnd clock env i n d = (Inr iss, d')"
    and "\<And>j rp ts d1. cr_rotate R cur rp ts (env j) d = (Inl ErrCapabilityKIDConflict, d1) \<Longrightarrow> d1 = d"
  shows "\<exists>t j r. wf_token t \<and> tokenType t = TokenCapability \<and> token_encode t = Inr (is_plaintext iss) \<and>
     cr_rotate R cur \<lparr>rp_kid = kid t, rp_digest = sha256 (digest_input t), rp_created = clock j\<rparr> (clock j) (env j) d = (Inr r, d') \<and>
     iss = issuedCapability r (is_plaintext iss)"
  using assms(1)
proof (induction n arbitrary: i)
  case (Suc n)
  from Suc.prems obtain t rest where g: "generateToken TokenCapability (Some (rnd i)) = Inr (t, rest)"
    by (auto split: sum.splits)
  note wf = generateToken_capability [OF g]
  note dg = wf_token_digest [OF wf(1), of sha256]
  let ?rp = "\<lparr>rp_kid = kid t, rp_digest = sha256 (digest_input t), rp_created = clock i\<rparr>"
  obtain x d1 where c: "cr_rotate R cur ?rp (clock i) (env i) d = (x, d1)"
    by (cases "cr_rotate R cur ?rp (clock i) (env i) d")
  show ?case
  proof (cases x)
    case (Inl e)
    with Suc.prems g dg c have e: "e = ErrCapabilityKIDConflict" and
      l: "rotate_loop sha256 R cur rnd clock env (Suc i) n d1 = (Inr iss, d')" by (auto split: if_splits)
    have "d1 = d" using assms(2) c Inl e by blast
    with l have "rotate_loop sha256 R cur rnd clock env (Suc i) n d = (Inr iss, d')" by simp
    then show ?thesis by (rule Suc.IH)
  next
    case (Inr r)
    with Suc.prems g dg c obtain s where s: "token_encode t = Inr s" "iss = issuedCapability r s" "d' = d1"
      by (auto split: sum.splits)
    have "is_plaintext iss = s" using s(2) by (simp add: issuedCapability_def)
    with wf c Inr s show ?thesis by (intro exI [of _ t] exI [of _ i] exI [of _ r]) simp
  qed
qed simp

section \<open>The repository contract\<close>

text \<open>
  \<open>quiet\<close> is an environment in which a lookup does not fail, \<open>env_ok\<close> the environments whose failures
  are failures of the store (not the service's own sentinel errors) and whose identifiers are canonical, \<open>good\<close> the store's
  invariant. A capability never outlives its Inbox; a stored capability is found again with the same data;
  rotation revokes the credential it replaces and stores the replacement for the same Inbox, scopes
  and expiry; revocation is permanent; a key conflict changes nothing.
\<close>

locale capability_store =
  fixes R :: "('e, 'd) cap_repo" and quiet :: 'e and env_ok :: "'e \<Rightarrow> bool" and good :: "'d \<Rightarrow> bool"
  assumes expiry_bound: "good d \<Longrightarrow> cr_find R k quiet d = Inr f \<Longrightarrow> ca_inbox_expires f = Some x \<Longrightarrow> ca_expires f \<le> x"
    and create_conflict: "env_ok e \<Longrightarrow> cr_create R c e d = (Inl ErrCapabilityKIDConflict, d') \<Longrightarrow> d' = d"
    and create_find: "good d \<Longrightarrow> env_ok e \<Longrightarrow> cr_create R c e d = (Inr r, d') \<Longrightarrow>
        good d' \<and> ca_scopes r = nc_scopes c \<and> ca_expires r = nc_expires c \<and>
        (\<exists>f. cr_find R (nc_kid c) quiet d' = Inr f \<and> ca_digest f = nc_digest c \<and> ca_revoked f = None \<and>
             ca_inbox_active f \<and> ca_inbox f = ca_inbox r \<and> ca_scopes f = nc_scopes c \<and> ca_expires f = nc_expires c)"
    and rotate_conflict: "env_ok e \<Longrightarrow> cr_rotate R cur rp ts e d = (Inl ErrCapabilityKIDConflict, d') \<Longrightarrow> d' = d"
    and rotate_find: "good d \<Longrightarrow> env_ok e \<Longrightarrow> cr_find R k quiet d = Inr old \<Longrightarrow>
        cr_rotate R (ca_id old) rp ts e d = (Inr r, d') \<Longrightarrow>
        good d' \<and> (\<exists>old'. cr_find R k quiet d' = Inr old' \<and> ca_revoked old' \<noteq> None) \<and>
        (\<exists>f. cr_find R (rp_kid rp) quiet d' = Inr f \<and> ca_digest f = rp_digest rp \<and> ca_revoked f = None \<and>
          ca_inbox_active f \<and> ca_inbox f = ca_inbox old \<and> ca_scopes f = ca_scopes old \<and> ca_expires f = ca_expires old)"
    and revoke_find: "good d \<Longrightarrow> cr_find R k quiet d = Inr old \<Longrightarrow>
        cr_revoke R (ca_id old) ts e d = (Inr (), d') \<Longrightarrow>
        good d' \<and> (\<exists>old'. cr_find R k quiet d' = Inr old' \<and> ca_revoked old' \<noteq> None)"
begin

lemma revoked_rejected:
  assumes "ParseToken plaintext = Inr t" "cr_find R (kid t) quiet d = Inr old" "ca_revoked old \<noteq> None"
  shows "Authenticate sha256 R ctx plaintext required now quiet d = Inl ErrUnauthenticated"
  using assms by (auto simp: Authenticate_def cap_resolve_def split: sum.splits)

lemma found_authenticates:
  assumes "wf_token t" "tokenType t = TokenCapability" "token_encode t = Inr plaintext" "good d"
    and "cr_find R (kid t) quiet d = Inr f" "ca_digest f = sha256 (digest_input t)" "ca_revoked f = None" "ca_inbox_active f"
    and "now < ca_expires f" "ctx \<noteq> NilCtx" "scopes_has (ca_scopes f) required"
  shows "Authenticate sha256 R ctx plaintext required now quiet d = Inr (principalFromRecord f)"
proof -
  have "cap_resolve sha256 R ctx plaintext now quiet d = Inr f"
    unfolding cap_resolve_Inr
    using assms wf_token_encode [OF assms(1,3)] wf_token_digest [OF assms(1), of sha256] expiry_bound [OF assms(4,5)]
    by fastforce
  with assms(11) show ?thesis by (simp add: Authenticate_def)
qed

lemma issued_authenticates:
  assumes "good d" and "\<And>j. env_ok (env j)"
    and "Issue sha256 canon R ctx inboxID scopes expiresAt now rnd env d = (Inr iss, d')"
    and "ctx' \<noteq> NilCtx" and "later < expiresAt" and "scopes_has scopes required"
  shows "good d' \<and> (\<exists>p. Authenticate sha256 R ctx' (is_plaintext iss) required later quiet d' = Inr p \<and>
     pc_inbox p = is_inbox iss \<and> pc_scopes p = scopes \<and> pc_expires p = expiresAt)"
proof -
  let ?c = "\<lparr>nc_inbox = inboxID, nc_kid = [], nc_digest = [], nc_scopes = scopes, nc_created = now, nc_expires = expiresAt\<rparr>"
  have "issue_loop sha256 R ?c rnd env 0 maxKIDGenerationAttempts d = (Inr iss, d')"
    using assms(3) by (auto simp: Issue_def split: if_splits sum.splits)
  moreover have "\<And>j x d1. cr_create R x (env j) d = (Inl ErrCapabilityKIDConflict, d1) \<Longrightarrow> d1 = d"
    using create_conflict assms(2) by blast
  ultimately obtain t j r where t: "wf_token t" "tokenType t = TokenCapability" "token_encode t = Inr (is_plaintext iss)"
    and c: "cr_create R (?c\<lparr>nc_kid := kid t, nc_digest := sha256 (digest_input t)\<rparr>) (env j) d = (Inr r, d')"
    and iss: "iss = issuedCapability r (is_plaintext iss)" using issue_loop_Inr by metis
  from create_find [OF assms(1) assms(2) c] obtain f where g: "good d'"
    and f: "cr_find R (kid t) quiet d' = Inr f" "ca_digest f = sha256 (digest_input t)" "ca_revoked f = None"
      "ca_inbox_active f" "ca_inbox f = ca_inbox r" "ca_scopes f = scopes" "ca_expires f = expiresAt" by auto
  have "Authenticate sha256 R ctx' (is_plaintext iss) required later quiet d' = Inr (principalFromRecord f)"
    using found_authenticates [where ?sha256.0 = sha256, OF t g f(1-4)] f(6,7) assms(4-6) by simp
  moreover have "is_inbox iss = ca_inbox r" using iss by (metis issuedCapability_def issued_capability.select_convs(2))
  ultimately show ?thesis using g f by (simp add: principalFromRecord_def)
qed

lemma rotated_lifecycle:
  assumes "good d" and "\<And>j. env_ok (env j)"
    and "Rotate sha256 R ctx plaintext now quiet rnd clock env d = (Inr iss, d')"
    and old: "Authenticate sha256 R ctx plaintext required now quiet d = Inr p"
    and "ctx' \<noteq> NilCtx" and "later < pc_expires p"
  shows "good d' \<and>
     (\<forall>req t. Authenticate sha256 R ctx' plaintext req t quiet d' = Inl ErrUnauthenticated) \<and>
     (\<exists>p'. Authenticate sha256 R ctx' (is_plaintext iss) required later quiet d' = Inr p' \<and>
        pc_inbox p' = pc_inbox p \<and> pc_scopes p' = pc_scopes p \<and> pc_expires p' = pc_expires p)"
proof -
  from old obtain r0 where r0: "cap_resolve sha256 R ctx plaintext now quiet d = Inr r0"
    and sc: "scopes_has (ca_scopes r0) required" and p: "p = principalFromRecord r0"
    by (auto simp: Authenticate_def split: sum.splits if_splits)
  from r0 obtain t0 where t0: "ParseToken plaintext = Inr t0" "cr_find R (kid t0) quiet d = Inr r0"
    by (auto simp: cap_resolve_Inr)
  have "rotate_loop sha256 R (ca_id r0) rnd clock env 0 maxKIDGenerationAttempts d = (Inr iss, d')"
    using assms(3) r0 by (simp add: Rotate_def)
  moreover have "\<And>j rp ts d1. cr_rotate R (ca_id r0) rp ts (env j) d = (Inl ErrCapabilityKIDConflict, d1) \<Longrightarrow> d1 = d"
    using rotate_conflict assms(2) by blast
  ultimately obtain t j r where t: "wf_token t" "tokenType t = TokenCapability" "token_encode t = Inr (is_plaintext iss)"
    and c: "cr_rotate R (ca_id r0) \<lparr>rp_kid = kid t, rp_digest = sha256 (digest_input t), rp_created = clock j\<rparr> (clock j) (env j) d = (Inr r, d')"
    using rotate_loop_Inr by metis
  from rotate_find [OF assms(1) assms(2) t0(2) c] obtain old' f where g: "good d'"
    and o: "cr_find R (kid t0) quiet d' = Inr old'" "ca_revoked old' \<noteq> None"
    and f: "cr_find R (kid t) quiet d' = Inr f" "ca_digest f = sha256 (digest_input t)" "ca_revoked f = None"
      "ca_inbox_active f" "ca_inbox f = ca_inbox r0" "ca_scopes f = ca_scopes r0" "ca_expires f = ca_expires r0" by auto
  have "Authenticate sha256 R ctx' (is_plaintext iss) required later quiet d' = Inr (principalFromRecord f)"
    using found_authenticates [where ?sha256.0 = sha256, OF t g f(1-4)] f(6,7) assms(5,6) sc p by (simp add: principalFromRecord_def)
  moreover have "\<forall>req u. Authenticate sha256 R ctx' plaintext req u quiet d' = Inl ErrUnauthenticated"
    using revoked_rejected [OF t0(1) o] by blast
  ultimately show ?thesis using g f p by (simp add: principalFromRecord_def)
qed

lemma revoked_lifecycle:
  assumes "good d" and "Revoke sha256 R ctx plaintext now quiet later e d = (Inr (), d')"
  shows "good d' \<and> (\<forall>req t. Authenticate sha256 R ctx' plaintext req t quiet d' = Inl ErrUnauthenticated)"
proof -
  from assms(2) obtain r0 where r0: "cap_resolve sha256 R ctx plaintext now quiet d = Inr r0"
    and rv: "cr_revoke R (ca_id r0) later e d = (Inr (), d')"
    by (auto simp: Revoke_def split: sum.splits)
  from r0 obtain t0 where t0: "ParseToken plaintext = Inr t0" "cr_find R (kid t0) quiet d = Inr r0"
    by (auto simp: cap_resolve_Inr)
  from revoke_find [OF assms(1) t0(2) rv] revoked_rejected [OF t0(1)] show ?thesis by blast
qed

end

text \<open>
  Authentication is sound: a plaintext is accepted only if it is the encoding of a capability token
  whose digest is the stored one under its key identifier, the credential is neither revoked nor
  expired, its Inbox is active and not expired, and every required scope was granted; the
  principal carries exactly the stored Inbox and scopes. Everything else is an error, and all
  credential failures are the same error.
\<close>

theorem Authenticate_sound:
  assumes "Authenticate sha256 R ctx plaintext required now env d = Inr p"
  shows "\<exists>t r. ParseToken plaintext = Inr t \<and> tokenType t = TokenCapability \<and> cr_find R (kid t) env d = Inr r \<and>
    ca_digest r = sha256 (digest_input t) \<and> ca_revoked r = None \<and> now < ca_expires r \<and> ca_inbox_active r \<and>
    (\<forall>x. ca_inbox_expires r = Some x \<longrightarrow> now < x) \<and> scopes_has (ca_scopes r) required \<and>
    p = principalFromRecord r"
proof -
  from assms obtain r where r: "cap_resolve sha256 R ctx plaintext now env d = Inr r"
    and s: "scopes_has (ca_scopes r) required" "p = principalFromRecord r"
    by (auto simp: Authenticate_def split: sum.splits if_splits)
  from r obtain t where t: "ParseToken plaintext = Inr t" "tokenType t = TokenCapability" "cr_find R (kid t) env d = Inr r"
    "token_digest sha256 t = Inr (ca_digest r)" "ca_revoked r = None" "now < ca_expires r" "ca_inbox_active r"
    "\<forall>x. ca_inbox_expires r = Some x \<longrightarrow> now < x" unfolding cap_resolve_Inr by blast
  have "ca_digest r = sha256 (digest_input t)"
    using t(4) wf_token_digest [of t sha256] ParseToken_Inr [OF t(1)] by simp
  with t s show ?thesis by blast
qed

end
