(* ===== verification/Browser_Session.thy ===== *)
theory Browser_Session
  imports Capability_Service
begin

text \<open>
  \<^verbatim>\<open>internal/auth/session.go\<close>: encrypted browser cookies with a double-submit CSRF token. The AEAD cipher and the
  UUID library are parameters; what the code relies on is stated where a property needs it.
\<close>

section \<open>Types\<close>

record aead =
  ae_nonce_size :: nat
  ae_seal :: "bytes \<Rightarrow> bytes \<Rightarrow> bytes"
  ae_open :: "bytes \<Rightarrow> bytes \<Rightarrow> bytes option"

record uuid_lib =
  ul_parse :: "string \<Rightarrow> bytes option"
  ul_string :: "bytes \<Rightarrow> string"

record browser_session =
  bs_cookie :: string
  bs_csrf :: string
  bs_expires :: time

definition browserSessionVersion :: char where "browserSessionVersion = CHR 0x01"
definition csrfBytes :: nat where "csrfBytes = 32"
definition expiryTextBytes :: nat where "expiryTextBytes = 20"
definition sessionPlaintextBytes :: nat where "sessionPlaintextBytes = 1 + 16 + expiryTextBytes + 4 + 32"
definition csrfDigestDomain :: bytes where "csrfDigestDomain = ''mailwisp-browser-csrf-v1'' @ [CHR 0x00]"

definition second_ns :: duration where "second_ns = 1000000000"

definition digestCSRF :: "(bytes \<Rightarrow> bytes) \<Rightarrow> bytes \<Rightarrow> bytes" where
  "digestCSRF sha256 csrf = sha256 (csrfDigestDomain @ csrf)"

text \<open>The construction of a manager; \<open>new_aead\<close> is AES-256-GCM for a 32-byte key.\<close>

definition NewBrowserSessionManager :: "(bytes \<Rightarrow> aead result) \<Rightarrow> bytes \<Rightarrow> duration \<Rightarrow> (aead \<times> duration) result" where
  "NewBrowserSessionManager new_aead key lifetime =
     (if length key = 0 then Inl ErrBrowserSessionDisabled
      else if length key \<noteq> 32 then Inl (OtherError ''browser session key must contain exactly 32 bytes'')
      else if lifetime \<le> 0 \<or> lifetime > 7 * 24 * 3600 * second_ns
        then Inl (OtherError ''browser session lifetime must be between 1ns and 168h'')
      else case new_aead key of Inl e \<Rightarrow> Inl e | Inr a \<Rightarrow> Inr (a, lifetime))"

section \<open>Issue\<close>

definition session_plaintext :: "(bytes \<Rightarrow> bytes) \<Rightarrow> bytes \<Rightarrow> time \<Rightarrow> scope_set \<Rightarrow> bytes \<Rightarrow> bytes" where
  "session_plaintext sha256 inboxUUID expiresAt scopes csrf =
     (let expiryText = format_int (expiresAt div second_ns) in
      [browserSessionVersion] @ inboxUUID @ replicate (expiryTextBytes - length expiryText) (CHR 0x00) @ expiryText @
      be32_encode scopes @ digestCSRF sha256 csrf)"

definition session_Issue :: "(bytes \<Rightarrow> bytes) \<Rightarrow> aead \<Rightarrow> uuid_lib \<Rightarrow> duration \<Rightarrow> ctx \<Rightarrow> principal \<Rightarrow> time \<Rightarrow> bytes \<Rightarrow> browser_session result" where
  "session_Issue sha256 A U lifetime ctx p now random =
     (if ctx = NilCtx then Inl ErrUnauthenticated
      else case ctx_err ctx of
          Some e \<Rightarrow> Inl e
        | None \<Rightarrow>
            (case ul_parse U (pc_inbox p) of
               None \<Rightarrow> Inl ErrUnauthenticated
             | Some inboxUUID \<Rightarrow>
                 if pc_scopes p = 0 then Inl ErrUnauthenticated
                 else if is_zero_time (pc_expires p) \<or> \<not> now < pc_expires p then Inl ErrUnauthenticated
                 else
                   let expiresAt = (if pc_expires p < now + lifetime then pc_expires p else now + lifetime) in
                   (case read_full csrfBytes random of
                      Inl e \<Rightarrow> Inl e
                    | Inr (csrf, random1) \<Rightarrow>
                        (case read_full (ae_nonce_size A) random1 of
                           Inl e \<Rightarrow> Inl e
                         | Inr (nonce, _) \<Rightarrow>
                             let sealed = nonce @ ae_seal A nonce (session_plaintext sha256 inboxUUID expiresAt (pc_scopes p) csrf) in
                             Inr \<lparr>bs_cookie = b64_encode sealed, bs_csrf = b64_encode csrf, bs_expires = expiresAt\<rparr>))))"

section \<open>Authenticate\<close>

definition session_Authenticate :: "(bytes \<Rightarrow> bytes) \<Rightarrow> aead \<Rightarrow> uuid_lib \<Rightarrow> ctx \<Rightarrow> string \<Rightarrow> string \<Rightarrow> bool \<Rightarrow> scope list \<Rightarrow> time \<Rightarrow> principal result" where
  "session_Authenticate sha256 A U ctx cookieValue csrfToken requireCSRF required now =
     (if ctx = NilCtx \<or> cookieValue = [] then Inl ErrUnauthenticated
      else case ctx_err ctx of
          Some e \<Rightarrow> Inl e
        | None \<Rightarrow>
            (case b64_decode True cookieValue of
               None \<Rightarrow> Inl ErrUnauthenticated
             | Some sealed \<Rightarrow>
                 if length sealed \<le> ae_nonce_size A then Inl ErrUnauthenticated
                 else
                   let nonce = take (ae_nonce_size A) sealed in
                   (case ae_open A nonce (drop (ae_nonce_size A) sealed) of
                      None \<Rightarrow> Inl ErrUnauthenticated
                    | Some plaintext \<Rightarrow>
                        if length plaintext \<noteq> sessionPlaintextBytes \<or> hd plaintext \<noteq> browserSessionVersion then Inl ErrUnauthenticated
                        else (case parse_int64 (dropWhile (\<lambda>c. c = CHR 0x00) (take 20 (drop 17 plaintext))) of
                            None \<Rightarrow> Inl ErrUnauthenticated
                          | Some expiryUnix \<Rightarrow>
                              if expiryUnix \<le> 0 then Inl ErrUnauthenticated
                              else
                                let expiresAt = expiryUnix * second_ns in
                                if \<not> now < expiresAt then Inl ErrUnauthenticated
                                else (case ScopeSetFromMask (be32_decode (take 4 (drop 37 plaintext))) of
                                    Inl _ \<Rightarrow> Inl ErrUnauthenticated
                                  | Inr scopes \<Rightarrow>
                                      if \<not> scopes_has scopes required then Inl ErrForbidden
                                      else
                                        (let principal = \<lparr>pc_credential = [], pc_inbox = ul_string U (take 16 (drop 1 plaintext)),
                                               pc_kid = ''browser-session'', pc_scopes = scopes, pc_expires = expiresAt\<rparr> in
                                         if requireCSRF then
                                           (case b64_decode True csrfToken of
                                              None \<Rightarrow> Inl ErrCSRF
                                            | Some csrf \<Rightarrow>
                                                if length csrf \<noteq> csrfBytes then Inl ErrCSRF
                                                else if digestCSRF sha256 csrf \<noteq> drop 41 plaintext then Inl ErrCSRF
                                                else Inr principal)
                                         else Inr principal))))))"

section \<open>The round trip\<close>

lemma dropWhile_pad: "(\<forall>c \<in> set s. c \<noteq> x) \<Longrightarrow> dropWhile (\<lambda>c. c = x) (replicate n x @ s) = s"
  by (induction n) (simp_all add: dropWhile_eq_self_iff)

lemma format_int_digits: "0 \<le> v \<Longrightarrow> \<forall>c \<in> set (format_int v). c \<noteq> CHR 0x00"
  using nat_digits_are_digits[of "nat v"] by (auto simp: format_int_def list_all_iff is_digit_def in_range_def)

lemma b64_encode_Nil: "b64_encode bs = [] \<longleftrightarrow> bs = []"
proof
  assume "b64_encode bs = []"
  then have "(4 * length bs + 2) div 3 = 0" using length_b64_encode[of bs] by simp
  then show "bs = []" by (simp add: div_eq_0_iff)
qed (simp add: b64_encode_def)

text \<open>The layout of a session's plaintext.\<close>

lemma session_plaintext_parts:
  fixes scopes :: scope_set and csrf :: bytes
  assumes "length u = 16" and "0 \<le> expiresAt div second_ns" and "expiresAt div second_ns < 2 ^ 63" and "\<And>b. length (sha256 b) = 32"
  defines "pt \<equiv> session_plaintext sha256 u expiresAt scopes csrf"
  shows "length pt = sessionPlaintextBytes" and "hd pt = browserSessionVersion" and "take 16 (drop 1 pt) = u"
    and "parse_int64 (dropWhile (\<lambda>c. c = CHR 0x00) (take 20 (drop 17 pt))) = Some (expiresAt div second_ns)"
    and "be32_decode (take 4 (drop 37 pt)) = scopes" and "drop 41 pt = digestCSRF sha256 csrf"
proof -
  let ?t = "format_int (expiresAt div second_ns)"
  define pad where "pad = replicate (expiryTextBytes - length ?t) (CHR 0x00 :: char) @ ?t"
  have "expiresAt div second_ns < 10 ^ 20" using assms(3) by simp
  then have "nat (expiresAt div second_ns) < 10 ^ 20" by (simp add: nat_less_iff)
  then have "length ?t \<le> 20" using assms(2) length_nat_digits_bound[of "nat (expiresAt div second_ns)" 20] by (simp add: format_int_def)
  then have pad: "length pad = 20" by (simp add: pad_def expiryTextBytes_def)
  have pt: "pt = browserSessionVersion # u @ pad @ be32_encode scopes @ digestCSRF sha256 csrf"
    by (simp add: pt_def session_plaintext_def pad_def Let_def)
  show "length pt = sessionPlaintextBytes" using assms(1,4) pad by (simp add: pt sessionPlaintextBytes_def expiryTextBytes_def digestCSRF_def)
  show "hd pt = browserSessionVersion" by (simp add: pt)
  show "take 16 (drop 1 pt) = u" using assms(1) by (simp add: pt)
  have "take 20 (drop 17 pt) = pad" using assms(1) pad by (simp add: pt)
  moreover have "dropWhile (\<lambda>c. c = CHR 0x00) pad = ?t"
    unfolding pad_def by (rule dropWhile_pad) (rule format_int_digits[OF assms(2)])
  ultimately show "parse_int64 (dropWhile (\<lambda>c. c = CHR 0x00) (take 20 (drop 17 pt))) = Some (expiresAt div second_ns)"
    using parse_format_nat[OF assms(2,3)] by simp
  have "take 4 (drop 37 pt) = be32_encode scopes" using assms(1) pad by (simp add: pt)
  then show "be32_decode (take 4 (drop 37 pt)) = scopes" by simp
  show "drop 41 pt = digestCSRF sha256 csrf" using assms(1) pad by (simp add: pt)
qed

lemma session_Issue_Inr:
  assumes "session_Issue sha256 A U lifetime ctx p now random = Inr bs"
  obtains u csrf nonce where "ul_parse U (pc_inbox p) = Some u" and "length csrf = csrfBytes" and "length nonce = ae_nonce_size A"
    and "now < pc_expires p" and "bs_expires bs = min (pc_expires p) (now + lifetime)" and "bs_csrf bs = b64_encode csrf"
    and "bs_cookie bs = b64_encode (nonce @ ae_seal A nonce (session_plaintext sha256 u (bs_expires bs) (pc_scopes p) csrf))"
proof -
  obtain u where u: "ul_parse U (pc_inbox p) = Some u"
    using assms by (auto simp: session_Issue_def Let_def split: if_splits option.splits)
  obtain csrf r1 where c: "read_full csrfBytes random = Inr (csrf, r1)"
    using assms by (auto simp: session_Issue_def Let_def split: if_splits option.splits sum.splits prod.splits)
  obtain nonce r2 where n: "read_full (ae_nonce_size A) r1 = Inr (nonce, r2)"
    using assms u c by (auto simp: session_Issue_def Let_def split: if_splits option.splits sum.splits prod.splits)
  have len: "length csrf = csrfBytes" "length nonce = ae_nonce_size A" using c n by (auto simp: read_full_Inr)
  have "now < pc_expires p" and
    "bs = \<lparr>bs_cookie = b64_encode (nonce @ ae_seal A nonce (session_plaintext sha256 u (min (pc_expires p) (now + lifetime)) (pc_scopes p) csrf)),
      bs_csrf = b64_encode csrf, bs_expires = min (pc_expires p) (now + lifetime)\<rparr>"
    using assms u c n by (auto simp: session_Issue_def Let_def min_def split: if_splits option.splits)
  then show thesis using that[OF u len] by simp
qed

section \<open>Properties\<close>

text \<open>
  A browser session carries its principal: given an AEAD cipher that opens what it sealed, the issued cookie with its
  CSRF token authenticates as the same Inbox with the same scopes, up to the second at which the session expires, and a
  session never outlives the capability it was exchanged for or the configured lifetime. A mutating request is refused
  with \<^verbatim>\<open>ErrCSRF\<close> unless its CSRF token is 32 bytes with the digest the cookie holds.
\<close>

theorem session_roundtrip:
  assumes "session_Issue sha256 A U lifetime ctx p now random = Inr bs"
    and "\<And>n x. ae_open A n (ae_seal A n x) = Some x" and "\<And>n x. ae_seal A n x \<noteq> []"
    and "\<forall>s b. ul_parse U s = Some b \<longrightarrow> length b = 16" and "\<And>b. length (sha256 b) = 32"
    and "ScopeSetFromMask (pc_scopes p) = Inr (pc_scopes p)" and "scopes_has (pc_scopes p) required"
    and "0 < later" and "later < bs_expires bs div second_ns * second_ns" and "bs_expires bs div second_ns < 2 ^ 63"
  shows "\<exists>u csrf. ul_parse U (pc_inbox p) = Some u \<and> b64_decode True (bs_csrf bs) = Some csrf \<and>
    session_Authenticate sha256 A U (Ctx None) (bs_cookie bs) (bs_csrf bs) True required later =
      Inr \<lparr>pc_credential = [], pc_inbox = ul_string U u, pc_kid = ''browser-session'', pc_scopes = pc_scopes p,
           pc_expires = bs_expires bs div second_ns * second_ns\<rparr> \<and>
    bs_expires bs div second_ns * second_ns \<le> pc_expires p \<and> bs_expires bs \<le> now + lifetime \<and>
    (\<forall>token. session_Authenticate sha256 A U (Ctx None) (bs_cookie bs) token True required later \<noteq> Inl ErrCSRF \<longrightarrow>
       (\<exists>c. b64_decode True token = Some c \<and> length c = csrfBytes \<and> digestCSRF sha256 c = digestCSRF sha256 csrf))"
proof -
  obtain u csrf nonce where i: "ul_parse U (pc_inbox p) = Some u" "length csrf = csrfBytes" "length nonce = ae_nonce_size A"
    "bs_expires bs = min (pc_expires p) (now + lifetime)" "bs_csrf bs = b64_encode csrf"
    "bs_cookie bs = b64_encode (nonce @ ae_seal A nonce (session_plaintext sha256 u (bs_expires bs) (pc_scopes p) csrf))"
    by (rule session_Issue_Inr[OF assms(1)]) blast
  let ?pt = "session_plaintext sha256 u (bs_expires bs) (pc_scopes p) csrf" and ?unix = "bs_expires bs div second_ns"
  have pos: "0 < ?unix" using assms(8,9) by (smt (verit) mult_nonneg_nonpos2 second_ns_def)
  note parts = session_plaintext_parts[where ?sha256.0 = sha256 and scopes = "pc_scopes p" and csrf = csrf, OF assms(4)[rule_format, OF i(1)] less_imp_le[OF pos] assms(10) assms(5)]
  have ne: "bs_cookie bs \<noteq> []" using i(6) assms(3) by (simp add: b64_encode_Nil)
  have auth: "session_Authenticate sha256 A U (Ctx None) (bs_cookie bs) token True required later =
      (case b64_decode True token of
         None \<Rightarrow> Inl ErrCSRF
       | Some c \<Rightarrow>
           if length c \<noteq> csrfBytes then Inl ErrCSRF
           else if digestCSRF sha256 c \<noteq> digestCSRF sha256 csrf then Inl ErrCSRF
           else Inr \<lparr>pc_credential = [], pc_inbox = ul_string U u, pc_kid = ''browser-session'', pc_scopes = pc_scopes p,
                  pc_expires = ?unix * second_ns\<rparr>)" for token
    using ne assms(2,3,6,7,9) pos parts i(3)
    by (simp add: session_Authenticate_def i(6) Let_def split: option.split)
  have "?unix * second_ns \<le> bs_expires bs" by (simp add: second_ns_def)
  then show ?thesis using i(1,2,4,5) auth by (intro exI[of _ u] exI[of _ csrf]) (auto split: option.splits if_splits)
qed

section \<open>Concrete instances\<close>

definition sample_aead :: aead where
  "sample_aead = \<lparr>ae_nonce_size = 12, ae_seal = (\<lambda>n x. CHR ''t'' # x), ae_open = (\<lambda>n s. case s of [] \<Rightarrow> None | c # x \<Rightarrow> Some x)\<rparr>"

definition sample_uuid_lib :: uuid_lib where
  "sample_uuid_lib = \<lparr>ul_parse = (\<lambda>s. if length s = 16 then Some s else None), ul_string = (\<lambda>b. b)\<rparr>"

definition sample_principal :: principal where
  "sample_principal = \<lparr>pc_credential = [], pc_inbox = replicate 16 CHR ''i'', pc_kid = [], pc_scopes = 1, pc_expires = 5000000000\<rparr>"

definition sample_bs :: "browser_session result" where
  "sample_bs = session_Issue (\<lambda>_. replicate 32 CHR ''d'') sample_aead sample_uuid_lib 3000000000 (Ctx None) sample_principal 1000000000
     (replicate 44 CHR ''r'')"

theorem session_roundtrip_witness:
  "\<exists>bs p. sample_bs = Inr bs \<and>
     session_Authenticate (\<lambda>_. replicate 32 CHR ''d'') sample_aead sample_uuid_lib (Ctx None) (bs_cookie bs) (bs_csrf bs) True [ScopeInboxRead] 2000000000 = Inr p \<and>
     pc_inbox p = pc_inbox sample_principal"
proof -
  obtain bs where bs: "sample_bs = Inr bs" "bs_expires bs = 4000000000"
    by (simp add: sample_bs_def session_Issue_def sample_principal_def sample_uuid_lib_def sample_aead_def Let_def read_full_def csrfBytes_def
        is_zero_time_def zero_time_def)
  have aead: "ae_open sample_aead n (ae_seal sample_aead n x) = Some x" "ae_seal sample_aead n x \<noteq> []" for n x
    by (simp_all add: sample_aead_def)
  have uuid: "\<forall>t b. ul_parse sample_uuid_lib t = Some b \<longrightarrow> length b = 16"
    by (auto simp: sample_uuid_lib_def split: if_splits)
  have sc: "ScopeSetFromMask (pc_scopes sample_principal) = Inr (pc_scopes sample_principal)" "scopes_has (pc_scopes sample_principal) [ScopeInboxRead]"
    by (simp_all add: sample_principal_def ScopeSetFromMask_def allCapabilityScopes_31 scopes_has_iff all_scopes_def scope_consts)
  have t: "(0::int) < 2000000000" "2000000000 < bs_expires bs div second_ns * second_ns" "bs_expires bs div second_ns < 2 ^ 63"
    using bs(2) by (simp_all add: second_ns_def)
  obtain p where "session_Authenticate (\<lambda>_. replicate 32 CHR ''d'') sample_aead sample_uuid_lib (Ctx None) (bs_cookie bs) (bs_csrf bs) True
      [ScopeInboxRead] 2000000000 = Inr p" "pc_inbox p = pc_inbox sample_principal"
    using session_roundtrip[OF bs(1)[unfolded sample_bs_def] aead uuid length_replicate sc t]
    by (auto simp: sample_uuid_lib_def split: if_splits)
  then show ?thesis using bs(1) by blast
qed

end
