(* ===== verification/Capability_Repository.thy ===== *)
theory Capability_Repository
  imports Capability_Service Db_Schema
begin

text \<open>
  \<^verbatim>\<open>internal/postgres/inbox_capability_repository.go\<close>, and the proof that it is a
  \<open>capability_store\<close>: the life cycle lemmas of the capability service hold on the database model.
\<close>

section \<open>Validation and hydration\<close>

definition validCapabilityKID :: "string \<Rightarrow> bool" where
  "validCapabilityKID k \<longleftrightarrow> (if length k \<noteq> 24 then False else list_all lower_hex_char k)"

definition validateNewCapability :: "(string \<Rightarrow> string option) \<Rightarrow> new_capability \<Rightarrow> unit result" where
  "validateNewCapability canon c =
     (if canon (nc_inbox c) = None then Inl ErrCapabilitySubjectUnavailable
      else if \<not> validCapabilityKID (nc_kid c) then Inl (OtherError ''invalid capability KID'')
      else case ScopeSetFromMask (nc_scopes c) of
          Inl e \<Rightarrow> Inl e
        | Inr _ \<Rightarrow>
            if is_zero_time (nc_created c) \<or> is_zero_time (nc_expires c) \<or> \<not> nc_expires c > nc_created c
            then Inl ErrCapabilityLifetime else Inr ())"

definition validateReplacementCapability :: "replacement_capability \<Rightarrow> time \<Rightarrow> unit result" where
  "validateReplacementCapability rp rotatedAt =
     (if \<not> validCapabilityKID (rp_kid rp) then Inl (OtherError ''invalid replacement capability KID'')
      else if is_zero_time (rp_created rp) \<or> is_zero_time rotatedAt \<or> rp_created rp \<noteq> rotatedAt
        then Inl (OtherError ''replacement capability creation and rotation times must match'')
      else Inr ())"

definition scopeSetFromDatabase :: "int \<Rightarrow> scope_set result" where
  "scopeSetFromDatabase mask' =
     (if mask' \<le> 0 \<or> mask' > max_uint32 then Inl (OtherError ''persisted capability scope mask is invalid'')
      else ScopeSetFromMask (word_of_int mask'))"

text \<open>The record built from a row; the Inbox state is filled in by the caller.\<close>

definition hydrateCapabilityRecord :: "capability_row \<Rightarrow> bool \<Rightarrow> time option \<Rightarrow> capability_record result" where
  "hydrateCapabilityRecord row active inboxExpires =
     (if length (cp_digest row) \<noteq> 32 then Inl (OtherError ''persisted capability digest has invalid length'')
      else if cp_scope_mask row \<le> 0 \<or> cp_scope_mask row > max_uint32
        then Inl (OtherError ''persisted capability scope mask is invalid'')
      else case scopeSetFromDatabase (cp_scope_mask row) of
          Inl e \<Rightarrow> Inl e
        | Inr scopes \<Rightarrow>
            Inr \<lparr>ca_id = cp_id row, ca_inbox = cp_inbox row, ca_kid = cp_kid row, ca_digest = cp_digest row,
                 ca_scopes = scopes, ca_created = cp_created row, ca_expires = cp_expires row,
                 ca_last_used = cp_last_used row, ca_revoked = cp_revoked row,
                 ca_inbox_active = active, ca_inbox_expires = inboxExpires\<rparr>)"

fun mapCapabilityWriteError :: "sql_error \<Rightarrow> go_error" where
  "mapCapabilityWriteError (UniqueViolation c) =
     (if c = ''inbox_capabilities_kid_key'' then ErrCapabilityKIDConflict
      else if c = ''inbox_capabilities_rotated_from_id_key'' then ErrCapabilityAlreadyRotated
      else sql_wrap (UniqueViolation c))"
| "mapCapabilityWriteError e = sql_wrap e"

section \<open>Statements\<close>

definition sql_insert_capability :: "capability_row \<Rightarrow> capability_row stmt" where
  "sql_insert_capability row d =
     (if \<not> capability_row_ok row then Inl (CheckViolation ''inbox_capabilities'')
      else if cp_id row \<in> cp_id ` set (capabilities d) then Inl (UniqueViolation ''inbox_capabilities_pkey'')
      else if cp_kid row \<in> cp_kid ` set (capabilities d) then Inl (UniqueViolation ''inbox_capabilities_kid_key'')
      else if cp_rotated_from row \<noteq> None \<and> cp_rotated_from row \<in> cp_rotated_from ` set (capabilities d)
        then Inl (UniqueViolation ''inbox_capabilities_rotated_from_id_key'')
      else if cp_inbox row \<notin> ib_id ` set (inboxes d) then Inl (ForeignKeyViolation ''inbox_capabilities_inbox_id_fkey'')
      else Inr (row, d\<lparr>capabilities := capabilities d @ [row]\<rparr>))"

definition cap_row :: "string \<Rightarrow> string \<Rightarrow> string \<Rightarrow> bytes \<Rightarrow> int \<Rightarrow> time \<Rightarrow> time \<Rightarrow> string option \<Rightarrow> capability_row" where
  "cap_row cid inbox k digest mask' created expires rotated =
     \<lparr>cp_id = cid, cp_inbox = inbox, cp_kid = k, cp_digest = digest, cp_scope_mask = mask', cp_created = created,
      cp_expires = expires, cp_last_used = None, cp_revoked = None, cp_rotated_from = rotated\<rparr>"

text \<open>\<^verbatim>\<open>INSERT ... SELECT ... FROM inboxes WHERE ... RETURNING\<close>: no row when the Inbox does not qualify.\<close>

definition sql_create_capability :: "(string \<Rightarrow> string option) \<Rightarrow> string \<Rightarrow> new_capability \<Rightarrow> capability_row option stmt" where
  "sql_create_capability canon newid c d =
     (case canon (nc_inbox c) of
        None \<Rightarrow> Inl (DriverError (OtherError ''invalid input syntax for type uuid''))
      | Some i \<Rightarrow>
          (case find (\<lambda>r. ib_id r = i \<and> ib_status r = ''active'' \<and> ib_expires r > nc_created c \<and> nc_expires c \<le> ib_expires r) (inboxes d) of
             None \<Rightarrow> Inr (None, d)
           | Some _ \<Rightarrow>
               (case sql_insert_capability (cap_row newid i (nc_kid c) (nc_digest c) (uint (nc_scopes c))
                    (nc_created c) (nc_expires c) None) d of
                  Inl e \<Rightarrow> Inl e
                | Inr (row, d') \<Rightarrow> Inr (Some row, d'))))"

definition cap_by :: "(capability_row \<Rightarrow> bool) \<Rightarrow> db \<Rightarrow> (capability_row \<times> inbox_row) option" where
  "cap_by P d =
     (case find P (capabilities d) of
        None \<Rightarrow> None
      | Some c \<Rightarrow> map_option (Pair c) (find_inbox d (cp_inbox c)))"

section \<open>Operations\<close>

record cap_env =
  en_newid :: string
  en_flt :: "nat \<Rightarrow> fault"

definition mapUnavailableInbox :: "(string \<Rightarrow> string option) \<Rightarrow> new_capability \<Rightarrow> fault \<Rightarrow> db \<Rightarrow> go_error" where
  "mapUnavailableInbox canon c flt d =
     (case run_stmt sql_wrap (\<lambda>d. case canon (nc_inbox c) of
          None \<Rightarrow> Inl (DriverError (OtherError ''invalid input syntax for type uuid''))
        | Some i \<Rightarrow> query (\<lambda>d. find_inbox d i) d) flt d of
        (Inl e, _) \<Rightarrow> e
      | (Inr None, _) \<Rightarrow> ErrCapabilitySubjectUnavailable
      | (Inr (Some r), _) \<Rightarrow>
          if ib_status r = ''active'' then
            (if \<not> ib_expires r > nc_created c then ErrCapabilitySubjectUnavailable
             else if nc_expires c > ib_expires r then ErrCapabilityLifetime
             else ErrCapabilitySubjectUnavailable)
          else ErrCapabilitySubjectUnavailable)"

definition CreateCapability :: "(string \<Rightarrow> string option) \<Rightarrow> new_capability \<Rightarrow> cap_env \<Rightarrow> db \<Rightarrow> capability_record result \<times> db" where
  "CreateCapability canon c e d =
     (case validateNewCapability canon c of
        Inl err \<Rightarrow> (Inl err, d)
      | Inr _ \<Rightarrow>
          (case run_stmt mapCapabilityWriteError (sql_create_capability canon (en_newid e) c) (en_flt e 0) d of
             (Inl err, d') \<Rightarrow> (Inl err, d')
           | (Inr None, d') \<Rightarrow> (Inl (mapUnavailableInbox canon c (en_flt e 1) d'), d')
           | (Inr (Some row), d') \<Rightarrow> (hydrateCapabilityRecord row True None, d')))"

definition FindCapabilityByKID :: "string \<Rightarrow> cap_env \<Rightarrow> db \<Rightarrow> capability_record result" where
  "FindCapabilityByKID k e d =
     (if \<not> validCapabilityKID k then Inl ErrCapabilityNotFound
      else case run_stmt sql_wrap (query (cap_by (\<lambda>c. cp_kid c = k))) (en_flt e 0) d of
          (Inl err, _) \<Rightarrow> Inl err
        | (Inr None, _) \<Rightarrow> Inl ErrCapabilityNotFound
        | (Inr (Some (c, r)), _) \<Rightarrow> hydrateCapabilityRecord c (ib_status r = ''active'') (Some (ib_expires r)))"

definition sql_revoke_current :: "string \<Rightarrow> time \<Rightarrow> unit stmt" where
  "sql_revoke_current cid t d =
     (if list_ex (\<lambda>c. cp_id c = cid \<and> cp_revoked c = None \<and> t < cp_created c) (capabilities d)
      then Inl (CheckViolation ''inbox_capabilities_revoked_valid'')
      else Inr ((), d\<lparr>capabilities := map (\<lambda>c. if cp_id c = cid \<and> cp_revoked c = None
          then c\<lparr>cp_revoked := Some t\<rparr> else c) (capabilities d)\<rparr>))"

definition cast_uuid :: "(string \<Rightarrow> string option) \<Rightarrow> string \<Rightarrow> (string \<Rightarrow> 'a stmt) \<Rightarrow> 'a stmt" where
  "cast_uuid canon s k d =
     (case canon s of
        None \<Rightarrow> Inl (DriverError (OtherError ''invalid input syntax for type uuid''))
      | Some u \<Rightarrow> k u d)"

definition rotate_tx :: "(string \<Rightarrow> string option) \<Rightarrow> string \<Rightarrow> string \<Rightarrow> replacement_capability \<Rightarrow> time \<Rightarrow> capability_record tx" where
  "rotate_tx canon newid currentID rp rotatedAt =
     tx_bind (stmt sql_wrap (cast_uuid canon currentID (\<lambda>cid. query (cap_by (\<lambda>c. cp_id c = cid))))) (\<lambda>found.
       case found of
         None \<Rightarrow> tx_fail ErrCapabilityNotFound
       | Some (cur, r) \<Rightarrow>
           if cp_revoked cur \<noteq> None then tx_fail ErrCapabilityAlreadyRotated
           else if ib_status r \<noteq> ''active'' \<or> \<not> rotatedAt < cp_expires cur \<or> \<not> rotatedAt < ib_expires r
             then tx_fail ErrUnauthenticated
           else case scopeSetFromDatabase (cp_scope_mask cur) of
               Inl e \<Rightarrow> tx_fail e
             | Inr scopes \<Rightarrow>
                 tx_bind (stmt sql_wrap (cast_uuid canon currentID (\<lambda>cid. sql_revoke_current cid rotatedAt))) (\<lambda>_.
                 tx_bind (stmt mapCapabilityWriteError (cast_uuid canon (cp_inbox cur) (\<lambda>i. cast_uuid canon currentID (\<lambda>cid.
                     sql_insert_capability (cap_row newid i (rp_kid rp) (rp_digest rp) (uint scopes)
                       (rp_created rp) (cp_expires cur) (Some cid)))))) (\<lambda>row.
                   case hydrateCapabilityRecord row True (Some (ib_expires r)) of
                     Inl e \<Rightarrow> tx_fail e
                   | Inr created \<Rightarrow> tx_return created)))"

definition RotateCapability :: "(string \<Rightarrow> string option) \<Rightarrow> string \<Rightarrow> replacement_capability \<Rightarrow> time \<Rightarrow> cap_env \<Rightarrow> db \<Rightarrow>
    capability_record result \<times> db" where
  "RotateCapability canon currentID rp rotatedAt e d =
     (if canon currentID = None then (Inl ErrCapabilityNotFound, d)
      else case validateReplacementCapability rp rotatedAt of
          Inl err \<Rightarrow> (Inl err, d)
        | Inr _ \<Rightarrow> run_tx (rotate_tx canon (en_newid e) currentID rp rotatedAt) (en_flt e) d)"

definition sql_revoke :: "string \<Rightarrow> time \<Rightarrow> nat stmt" where
  "sql_revoke cid t d =
     (if list_ex (\<lambda>c. cp_id c = cid \<and> cp_revoked c = None \<and> t < cp_created c) (capabilities d)
      then Inl (CheckViolation ''inbox_capabilities_revoked_valid'')
      else Inr (length (filter (\<lambda>c. cp_id c = cid) (capabilities d)),
        d\<lparr>capabilities := map (\<lambda>c. if cp_id c = cid
            then c\<lparr>cp_revoked := (case cp_revoked c of None \<Rightarrow> Some t | Some u \<Rightarrow> Some u)\<rparr> else c) (capabilities d)\<rparr>))"

definition RevokeCapability :: "(string \<Rightarrow> string option) \<Rightarrow> string \<Rightarrow> time \<Rightarrow> cap_env \<Rightarrow> db \<Rightarrow> unit result \<times> db" where
  "RevokeCapability canon cid revokedAt e d =
     (if canon cid = None then (Inl ErrCapabilityNotFound, d)
      else if is_zero_time revokedAt then (Inl (OtherError ''capability revocation time is required''), d)
      else case run_stmt sql_wrap (cast_uuid canon cid (\<lambda>u. sql_revoke u revokedAt)) (en_flt e 0) d of
          (Inl err, d') \<Rightarrow> (Inl err, d')
        | (Inr rows, d') \<Rightarrow> (if rows \<noteq> 1 then (Inl ErrCapabilityNotFound, d') else (Inr (), d')))"

definition pg_cap_repo :: "(string \<Rightarrow> string option) \<Rightarrow> (cap_env, db) cap_repo" where
  "pg_cap_repo canon =
     \<lparr>cr_create = CreateCapability canon, cr_find = FindCapabilityByKID, cr_rotate = RotateCapability canon,
      cr_revoke = RevokeCapability canon\<rparr>"

section \<open>Scopes and rows\<close>

lemma mask_scope: "0 < m \<Longrightarrow> m \<le> 31 \<Longrightarrow> ScopeSetFromMask (word_of_int m) = Inr (word_of_int m)"
proof -
  assume m: "0 < m" "m \<le> 31"
  then have "m \<in> {1, 2, 3, 4, 5, 6, 7, 8, 9, 10, 11, 12, 13, 14, 15, 16, 17, 18, 19, 20, 21, 22, 23, 24, 25,
      26, 27, 28, 29, 30, 31}" by (simp; presburger)
  then show ?thesis by (auto simp: ScopeSetFromMask_def allCapabilityScopes_31)
qed

lemma scope_mask: "ScopeSetFromMask s = Inr t \<Longrightarrow> t = s \<and> 0 < uint s \<and> uint s \<le> 31"
proof -
  assume "ScopeSetFromMask s = Inr t"
  then have s: "t = s" "s \<noteq> 0" "s AND 31 = s"
    by (auto simp: ScopeSetFromMask_def allCapabilityScopes_31 split: if_splits)
  have "unat s < 32" using masked_less [OF s(3)] .
  moreover have "unat s \<noteq> 0" using s(2) by (simp add: unat_eq_zero)
  moreover have "uint s = int (unat s)" by simp
  ultimately show ?thesis using s(1) by linarith
qed

definition cap_record :: "capability_row \<Rightarrow> bool \<Rightarrow> time option \<Rightarrow> capability_record" where
  "cap_record row active x =
     \<lparr>ca_id = cp_id row, ca_inbox = cp_inbox row, ca_kid = cp_kid row, ca_digest = cp_digest row,
      ca_scopes = word_of_int (cp_scope_mask row), ca_created = cp_created row, ca_expires = cp_expires row,
      ca_last_used = cp_last_used row, ca_revoked = cp_revoked row, ca_inbox_active = active, ca_inbox_expires = x\<rparr>"

lemma scopeSetFromDatabase_ok: "0 < m \<Longrightarrow> m \<le> 31 \<Longrightarrow> scopeSetFromDatabase m = Inr (word_of_int m)"
  by (simp add: scopeSetFromDatabase_def mask_scope max_uint32_def)

lemma hydrate_ok: "capability_row_ok c \<Longrightarrow> hydrateCapabilityRecord c a x = Inr (cap_record c a x)"
  by (simp add: hydrateCapabilityRecord_def capability_row_ok_def cap_record_def scopeSetFromDatabase_ok max_uint32_def)

definition cap_good :: "(string \<Rightarrow> string option) \<Rightarrow> db \<Rightarrow> bool" where
  "cap_good canon d \<longleftrightarrow> db_wf d \<and> (\<forall>s u. canon s = Some u \<longrightarrow> canon u = Some u) \<and>
     (\<forall>c \<in> set (capabilities d). canon (cp_id c) = Some (cp_id c) \<and> canon (cp_inbox c) = Some (cp_inbox c) \<and>
        (\<forall>r \<in> set (inboxes d). ib_id r = cp_inbox c \<longrightarrow> cp_expires c \<le> ib_expires r))"

definition cap_env_ok :: "(string \<Rightarrow> string option) \<Rightarrow> cap_env \<Rightarrow> bool" where
  "cap_env_ok canon e \<longleftrightarrow> canon (en_newid e) = Some (en_newid e) \<and>
     (\<forall>n. fault_error (en_flt e n) \<noteq> Some ErrCapabilityKIDConflict)"

definition cap_quiet :: cap_env where
  "cap_quiet = \<lparr>en_newid = [], en_flt = \<lambda>_. NoFault\<rparr>"

lemma cap_by_unique:
  assumes "db_wf d" and "distinct (map f (capabilities d))"
  shows "cap_by (\<lambda>c. f c = k) d = Some (c, r) \<longleftrightarrow>
     c \<in> set (capabilities d) \<and> f c = k \<and> r \<in> set (inboxes d) \<and> ib_id r = cp_inbox c"
proof -
  have "cap_by (\<lambda>c. f c = k) d = Some (c, r) \<longleftrightarrow>
     find (\<lambda>c. f c = k) (capabilities d) = Some c \<and> find_inbox d (cp_inbox c) = Some r"
    by (auto simp: cap_by_def split: option.splits)
  then show ?thesis unfolding find_keyed [OF assms(2)] wf_find_inbox [OF assms(1)] by simp
qed

lemma FindCapabilityByKID_quiet:
  assumes "db_wf d"
  shows "FindCapabilityByKID k cap_quiet d = Inr f \<longleftrightarrow>
    (\<exists>c r. validCapabilityKID k \<and> c \<in> set (capabilities d) \<and> cp_kid c = k \<and> r \<in> set (inboxes d) \<and>
       ib_id r = cp_inbox c \<and> f = cap_record c (ib_status r = ''active'') (Some (ib_expires r)))"
proof -
  have dist: "distinct (map cp_kid (capabilities d))" using assms by (simp add: db_wf_def wf_capabilities_def)
  have ok: "\<And>c. c \<in> set (capabilities d) \<Longrightarrow> capability_row_ok c"
    using assms by (auto simp: db_wf_def wf_capabilities_def list_all_iff)
  show ?thesis
  proof (cases "cap_by (\<lambda>c. cp_kid c = k) d")
    case None
    then have "\<not> (\<exists>c r. c \<in> set (capabilities d) \<and> cp_kid c = k \<and> r \<in> set (inboxes d) \<and> ib_id r = cp_inbox c)"
      using cap_by_unique [OF assms dist] by (metis option.distinct(1))
    with None show ?thesis
      by (auto simp: FindCapabilityByKID_def run_stmt_def cap_quiet_def query_def)
  next
    case (Some p)
    obtain c r where p: "p = (c, r)" by (cases p)
    with Some have cr: "\<And>c' r'. (c' \<in> set (capabilities d) \<and> cp_kid c' = k \<and> r' \<in> set (inboxes d) \<and> ib_id r' = cp_inbox c')
        \<longleftrightarrow> c' = c \<and> r' = r" using cap_by_unique [OF assms dist, of k] by fastforce
    then have "hydrateCapabilityRecord c (ib_status r = ''active'') (Some (ib_expires r)) =
      Inr (cap_record c (ib_status r = ''active'') (Some (ib_expires r)))" using ok hydrate_ok by blast
    with Some p have "FindCapabilityByKID k cap_quiet d =
        (if validCapabilityKID k then Inr (cap_record c (ib_status r = ''active'') (Some (ib_expires r)))
         else Inl ErrCapabilityNotFound)"
      by (simp add: FindCapabilityByKID_def run_stmt_def cap_quiet_def query_def)
    with cr show ?thesis by (metis Inl_Inr_False sum.inject(2))
  qed
qed

lemma sql_insert_capability_Inr:
  "sql_insert_capability row d = Inr (row', d') \<longleftrightarrow> capability_row_ok row \<and> cp_id row \<notin> cp_id ` set (capabilities d) \<and>
     cp_kid row \<notin> cp_kid ` set (capabilities d) \<and>
     (cp_rotated_from row = None \<or> cp_rotated_from row \<notin> cp_rotated_from ` set (capabilities d)) \<and>
     cp_inbox row \<in> ib_id ` set (inboxes d) \<and> row' = row \<and> d' = d\<lparr>capabilities := capabilities d @ [row]\<rparr>"
  by (auto simp: sql_insert_capability_def split: if_splits)

lemma map_filter_append: "List.map_filter f (xs @ ys) = List.map_filter f xs @ List.map_filter f ys"
  by (simp add: List.map_filter_def)

lemma insert_capability_good:
  assumes "cap_good canon d" and "sql_insert_capability row d = Inr (row', d')"
    and "canon (cp_id row) = Some (cp_id row)" "canon (cp_inbox row) = Some (cp_inbox row)"
    and "\<And>r. r \<in> set (inboxes d) \<Longrightarrow> ib_id r = cp_inbox row \<Longrightarrow> cp_expires row \<le> ib_expires r"
  shows "cap_good canon d'"
proof -
  have "distinct (List.map_filter cp_rotated_from (capabilities d @ [row]))"
    using assms(1,2)
    by (auto simp: cap_good_def db_wf_def wf_capabilities_def sql_insert_capability_Inr map_filter_append List.map_filter_def
        split: option.splits) (metis image_eqI)
  then have "db_wf d'" using assms(1,2)
    by (auto simp: cap_good_def sql_insert_capability_Inr intro!: db_wf_capabilities)
      (auto simp: db_wf_def wf_capabilities_def)
  then show ?thesis using assms by (auto simp: cap_good_def sql_insert_capability_Inr)
qed

section \<open>The repository keeps the contract\<close>

lemma pg_expiry_bound:
  assumes "cap_good canon d" and "FindCapabilityByKID k cap_quiet d = Inr f" and "ca_inbox_expires f = Some x"
  shows "ca_expires f \<le> x"
  using assms by (auto simp: FindCapabilityByKID_quiet cap_good_def cap_record_def)

lemma scope_errors: "ScopeSetFromMask s \<noteq> Inl ErrCapabilityKIDConflict"
  by (simp add: ScopeSetFromMask_def)

lemma hydrate_errors: "hydrateCapabilityRecord c a x \<noteq> Inl ErrCapabilityKIDConflict"
  by (auto simp: hydrateCapabilityRecord_def scopeSetFromDatabase_def ScopeSetFromMask_def split: sum.splits if_splits)

lemma sql_create_capability_Inr:
  assumes "sql_create_capability canon newid c d = Inr (Some row, d')"
  shows "\<exists>i b. canon (nc_inbox c) = Some i \<and> b \<in> set (inboxes d) \<and> ib_id b = i \<and> ib_status b = ''active'' \<and>
    nc_expires c \<le> ib_expires b \<and> sql_insert_capability row d = Inr (row, d') \<and>
    row = cap_row newid i (nc_kid c) (nc_digest c) (uint (nc_scopes c)) (nc_created c) (nc_expires c) None"
proof -
  from assms obtain i b where i: "canon (nc_inbox c) = Some i"
    and b: "find (\<lambda>r. ib_id r = i \<and> ib_status r = ''active'' \<and> ib_expires r > nc_created c \<and> nc_expires c \<le> ib_expires r) (inboxes d) = Some b"
    and ins: "sql_insert_capability (cap_row newid i (nc_kid c) (nc_digest c) (uint (nc_scopes c))
         (nc_created c) (nc_expires c) None) d = Inr (row, d')"
    by (auto simp: sql_create_capability_def split: option.splits sum.splits)
  from ins have "row = cap_row newid i (nc_kid c) (nc_digest c) (uint (nc_scopes c)) (nc_created c) (nc_expires c) None"
    by (simp add: sql_insert_capability_Inr)
  with i find_SomeD [OF b] ins show ?thesis by blast
qed

lemma pg_create_conflict:
  assumes "cap_env_ok canon e" and "CreateCapability canon c e d = (Inl ErrCapabilityKIDConflict, d')"
  shows "d' = d"
proof -
  have "\<And>n err. en_flt e n = LostAck err \<Longrightarrow> err \<noteq> ErrCapabilityKIDConflict"
    using assms(1) unfolding cap_env_ok_def by (metis fault_error.simps(3))
  moreover have "\<And>d1. sql_create_capability canon (en_newid e) c d = Inr (None, d1) \<Longrightarrow> d1 = d"
    by (auto simp: sql_create_capability_def split: option.splits sum.splits)
  ultimately show ?thesis using assms(2)
    by (auto simp: CreateCapability_def run_stmt_def hydrate_errors split: sum.splits option.splits fault.splits prod.splits)
qed

lemma pg_create_find:
  assumes "cap_good canon d" and "cap_env_ok canon e" and "CreateCapability canon c e d = (Inr r, d')"
  shows "cap_good canon d' \<and> ca_scopes r = nc_scopes c \<and> ca_expires r = nc_expires c \<and>
     (\<exists>f. FindCapabilityByKID (nc_kid c) cap_quiet d' = Inr f \<and> ca_digest f = nc_digest c \<and> ca_revoked f = None \<and>
        ca_inbox_active f \<and> ca_inbox f = ca_inbox r \<and> ca_scopes f = nc_scopes c \<and> ca_expires f = nc_expires c)"
proof -
  from assms(3) obtain row where v: "validateNewCapability canon c = Inr ()"
    and q: "sql_create_capability canon (en_newid e) c d = Inr (Some row, d')"
    and h: "hydrateCapabilityRecord row True None = Inr r"
    by (auto simp: CreateCapability_def run_stmt_def split: sum.splits option.splits fault.splits prod.splits)
  from sql_create_capability_Inr [OF q] obtain i b where i: "canon (nc_inbox c) = Some i"
    and b: "b \<in> set (inboxes d)" "ib_id b = i" "ib_status b = ''active''" "nc_expires c \<le> ib_expires b"
    and ins: "sql_insert_capability row d = Inr (row, d')"
    and row: "row = cap_row (en_newid e) i (nc_kid c) (nc_digest c) (uint (nc_scopes c)) (nc_created c) (nc_expires c) None" by blast
  have dist: "\<And>b'. b' \<in> set (inboxes d) \<Longrightarrow> ib_id b' = i \<Longrightarrow> b' = b"
    using assms(1) b(1,2) by (auto simp: cap_good_def db_wf_def wf_inboxes_def distinct_map inj_on_def)
  have g: "cap_good canon d'"
  proof (rule insert_capability_good [OF assms(1) ins])
    show "canon (cp_id row) = Some (cp_id row)" using assms(2) by (simp add: row cap_row_def cap_env_ok_def)
    show "canon (cp_inbox row) = Some (cp_inbox row)" using assms(1) i by (simp add: row cap_row_def cap_good_def)
    show "\<And>r. r \<in> set (inboxes d) \<Longrightarrow> ib_id r = cp_inbox row \<Longrightarrow> cp_expires row \<le> ib_expires r"
      using dist b(4) by (auto simp: row cap_row_def)
  qed
  from ins have d': "row \<in> set (capabilities d')" "inboxes d' = inboxes d" "capability_row_ok row"
    by (auto simp: sql_insert_capability_Inr)
  have k: "validCapabilityKID (nc_kid c)" using v by (auto simp: validateNewCapability_def split: if_splits)
  have "FindCapabilityByKID (nc_kid c) cap_quiet d' = Inr (cap_record row True (Some (ib_expires b)))"
    unfolding FindCapabilityByKID_quiet [OF g [unfolded cap_good_def, THEN conjunct1]]
    using d' k b by (intro exI [of _ row] exI [of _ b]) (simp add: row cap_row_def)
  moreover have "r = cap_record row True None" using h hydrate_ok [OF d'(3)] by simp
  ultimately show ?thesis using g by (simp add: cap_record_def row cap_row_def)
qed

text \<open>Marking credentials revoked changes no other column.\<close>

lemma revoke_rows_good:
  assumes "cap_good canon d" and f: "\<And>c. c \<in> set (capabilities d) \<Longrightarrow> \<exists>t. f c = c\<lparr>cp_revoked := t\<rparr>"
    and ok: "\<And>c. c \<in> set (capabilities d) \<Longrightarrow> capability_row_ok (f c)"
  shows "cap_good canon (d\<lparr>capabilities := map f (capabilities d)\<rparr>)"
proof -
  have eq: "\<And>c. c \<in> set (capabilities d) \<Longrightarrow> cp_id (f c) = cp_id c \<and> cp_kid (f c) = cp_kid c \<and>
      cp_rotated_from (f c) = cp_rotated_from c \<and> cp_inbox (f c) = cp_inbox c \<and> cp_expires (f c) = cp_expires c"
    using f by fastforce
  have m: "map (cp_id \<circ> f) (capabilities d) = map cp_id (capabilities d)"
    "map (cp_kid \<circ> f) (capabilities d) = map cp_kid (capabilities d)" using eq by auto
  have "distinct (map (cp_id \<circ> f) (capabilities d))" "distinct (map (cp_kid \<circ> f) (capabilities d))"
    unfolding m using assms(1) by (auto simp: cap_good_def db_wf_def wf_capabilities_def)
  moreover have "List.map_filter cp_rotated_from (map f xs) = List.map_filter cp_rotated_from xs"
    if "set xs \<subseteq> set (capabilities d)" for xs
    using that eq by (induction xs) (auto simp: List.map_filter_simps split: option.splits)
  ultimately have "db_wf (d\<lparr>capabilities := map f (capabilities d)\<rparr>)" using assms(1) ok eq
    by (intro db_wf_capabilities) (auto simp: cap_good_def db_wf_def wf_capabilities_def list_all_iff)
  with assms(1) eq show ?thesis by (auto simp: cap_good_def)
qed

lemma capability_ok: "cap_good canon d \<Longrightarrow> c \<in> set (capabilities d) \<Longrightarrow> capability_row_ok c"
  by (auto simp: cap_good_def db_wf_def wf_capabilities_def list_all_iff)

lemma sql_revoke_current_good:
  assumes "cap_good canon d" and "sql_revoke_current cid t d = Inr (x, d')"
  shows "cap_good canon d'"
proof -
  have d': "d' = d\<lparr>capabilities := map (\<lambda>c. if cp_id c = cid \<and> cp_revoked c = None
      then c\<lparr>cp_revoked := Some t\<rparr> else c) (capabilities d)\<rparr>"
    and le: "\<And>c. c \<in> set (capabilities d) \<Longrightarrow> cp_id c = cid \<Longrightarrow> cp_revoked c = None \<Longrightarrow> cp_created c \<le> t"
    using assms(2) by (auto simp: sql_revoke_current_def list_ex_iff split: if_splits)
  show ?thesis unfolding d'
  proof (rule revoke_rows_good [OF assms(1)])
    fix c assume c: "c \<in> set (capabilities d)"
    show "\<exists>t'. (if cp_id c = cid \<and> cp_revoked c = None then c\<lparr>cp_revoked := Some t\<rparr> else c) = c\<lparr>cp_revoked := t'\<rparr>"
      by (cases "cp_id c = cid \<and> cp_revoked c = None") (auto intro: exI [of _ "cp_revoked c"])
    show "capability_row_ok (if cp_id c = cid \<and> cp_revoked c = None then c\<lparr>cp_revoked := Some t\<rparr> else c)"
      using capability_ok [OF assms(1) c] le [OF c] by (auto simp: capability_row_ok_def split: option.splits)
  qed
qed

lemma sql_revoke_good:
  assumes "cap_good canon d" and "sql_revoke cid t d = Inr (n, d')"
  shows "cap_good canon d'"
proof -
  let ?f = "\<lambda>c. if cp_id c = cid
      then c\<lparr>cp_revoked := (case cp_revoked c of None \<Rightarrow> Some t | Some u \<Rightarrow> Some u)\<rparr> else c"
  have d': "d' = d\<lparr>capabilities := map ?f (capabilities d)\<rparr>"
    and le: "\<And>c. c \<in> set (capabilities d) \<Longrightarrow> cp_id c = cid \<Longrightarrow> cp_revoked c = None \<Longrightarrow> cp_created c \<le> t"
    using assms(2) by (auto simp: sql_revoke_def list_ex_iff split: if_splits)
  show ?thesis unfolding d'
  proof (rule revoke_rows_good [OF assms(1)])
    fix c assume c: "c \<in> set (capabilities d)"
    show "\<exists>t'. ?f c = c\<lparr>cp_revoked := t'\<rparr>"
      by (cases "cp_id c = cid") (auto intro: exI [of _ "cp_revoked c"])
    show "capability_row_ok (?f c)"
      using capability_ok [OF assms(1) c] le [OF c] by (simp add: capability_row_ok_def split: option.splits)
  qed
qed

lemma pg_rotate_conflict:
  assumes "cap_env_ok canon e" and "RotateCapability canon cur rp ts e d = (Inl ErrCapabilityKIDConflict, d')"
  shows "d' = d"
proof -
  have "\<And>n err. en_flt e n = LostAck err \<Longrightarrow> err \<noteq> ErrCapabilityKIDConflict"
    using assms(1) unfolding cap_env_ok_def by (metis fault_error.simps(3))
  with assms(2) show ?thesis
    by (auto simp: RotateCapability_def run_tx_def split: sum.splits option.splits fault.splits prod.splits if_splits)
qed

lemma case_result_Inr:
  "(case h of Inl e \<Rightarrow> tx_fail e | Inr c \<Rightarrow> tx_return c) flt s = (Inr x, s') \<longleftrightarrow> h = Inr x \<and> s' = s"
  by (auto simp: tx_simps split: sum.splits)

text \<open>What a successful rotation did, statement by statement.\<close>

lemma rotate_tx_Inr:
  assumes "rotate_tx canon newid cur rp t flt (n, d) = (Inr x, n', d')"
  shows "\<exists>cid c r i d1 row. canon cur = Some cid \<and> cap_by (\<lambda>c. cp_id c = cid) d = Some (c, r) \<and>
     cp_revoked c = None \<and> ib_status r = ''active'' \<and> canon (cp_inbox c) = Some i \<and>
     sql_revoke_current cid t d = Inr ((), d1) \<and> sql_insert_capability row d1 = Inr (row, d') \<and>
     (\<exists>scopes. scopeSetFromDatabase (cp_scope_mask c) = Inr scopes \<and>
       row = cap_row newid i (rp_kid rp) (rp_digest rp) (uint scopes) (rp_created rp) (cp_expires c) (Some cid))"
proof -
  from assms obtain cid found n1 where q: "canon cur = Some cid" "found = cap_by (\<lambda>c. cp_id c = cid) d"
    and found: "(case found of
         None \<Rightarrow> tx_fail ErrCapabilityNotFound
       | Some (cur', r) \<Rightarrow>
           if cp_revoked cur' \<noteq> None then tx_fail ErrCapabilityAlreadyRotated
           else if ib_status r \<noteq> ''active'' \<or> \<not> t < cp_expires cur' \<or> \<not> t < ib_expires r
             then tx_fail ErrUnauthenticated
           else case scopeSetFromDatabase (cp_scope_mask cur') of
               Inl e \<Rightarrow> tx_fail e
             | Inr scopes \<Rightarrow>
                 tx_bind (stmt sql_wrap (cast_uuid canon cur (\<lambda>cid. sql_revoke_current cid t))) (\<lambda>_.
                 tx_bind (stmt mapCapabilityWriteError (cast_uuid canon (cp_inbox cur') (\<lambda>i. cast_uuid canon cur (\<lambda>cid.
                     sql_insert_capability (cap_row newid i (rp_kid rp) (rp_digest rp) (uint scopes)
                       (rp_created rp) (cp_expires cur') (Some cid)))))) (\<lambda>row.
                   case hydrateCapabilityRecord row True (Some (ib_expires r)) of
                     Inl e \<Rightarrow> tx_fail e
                   | Inr created \<Rightarrow> tx_return created))) flt (n1, d) = (Inr x, n', d')"
    by (auto simp: rotate_tx_def tx_simps cast_uuid_def simp del: stmt.simps split: option.splits)
  obtain c r where cr: "found = Some (c, r)" using found by (cases found) (auto simp: tx_simps)
  obtain scopes where sc: "scopeSetFromDatabase (cp_scope_mask c) = Inr scopes"
    using found cr by (auto simp: tx_simps split: if_splits sum.splits)
  have act: "cp_revoked c = None" "ib_status r = ''active''"
    using found cr by (auto simp: tx_simps split: if_splits)
  from found cr sc act q(1) obtain i d1 row where
    "sql_revoke_current cid t d = Inr ((), d1)" "canon (cp_inbox c) = Some i"
    and ins: "sql_insert_capability (cap_row newid i (rp_kid rp) (rp_digest rp) (uint scopes)
       (rp_created rp) (cp_expires c) (Some cid)) d1 = Inr (row, d')"
    by (auto simp: tx_simps case_result_Inr cast_uuid_def simp del: stmt.simps split: if_splits option.splits)
  moreover from ins have "row = cap_row newid i (rp_kid rp) (rp_digest rp) (uint scopes) (rp_created rp) (cp_expires c) (Some cid)"
    by (simp add: sql_insert_capability_Inr)
  ultimately show ?thesis using q cr sc act by (metis (no_types, lifting))
qed

lemma pg_find_id:
  assumes "cap_good canon d" and "FindCapabilityByKID k cap_quiet d = Inr old"
  obtains c b where "validCapabilityKID k" "c \<in> set (capabilities d)" "cp_kid c = k" "canon (ca_id old) = Some (cp_id c)"
    "b \<in> set (inboxes d)" "ib_id b = cp_inbox c" "old = cap_record c (ib_status b = ''active'') (Some (ib_expires b))"
  using assms FindCapabilityByKID_quiet [of d k old] by (fastforce simp: cap_good_def cap_record_def)

lemma find_row:
  assumes "cap_good canon d" "validCapabilityKID k" "c \<in> set (capabilities d)" "cp_kid c = k" "b \<in> set (inboxes d)" "ib_id b = cp_inbox c"
  shows "FindCapabilityByKID k cap_quiet d = Inr (cap_record c (ib_status b = ''active'') (Some (ib_expires b)))"
  using assms FindCapabilityByKID_quiet [of d k] by (auto simp: cap_good_def)

lemma cap_by_id:
  assumes "cap_good canon d" "c \<in> set (capabilities d)" "cap_by (\<lambda>c'. cp_id c' = cp_id c) d = Some (c', r)"
  shows "c' = c" "r \<in> set (inboxes d)" "ib_id r = cp_inbox c"
proof -
  have wf: "db_wf d" and dist: "distinct (map cp_id (capabilities d))"
    using assms(1) by (auto simp: cap_good_def db_wf_def wf_capabilities_def)
  have "c' \<in> set (capabilities d) \<and> cp_id c' = cp_id c \<and> r \<in> set (inboxes d) \<and> ib_id r = cp_inbox c'"
    using assms(3) unfolding cap_by_unique [OF wf dist] .
  moreover from this have "c' = c" using dist assms(2) by (auto simp: distinct_map inj_on_def)
  ultimately show "c' = c" "r \<in> set (inboxes d)" "ib_id r = cp_inbox c" by auto
qed

lemma pg_rotate_find:
  assumes "cap_good canon d" and "cap_env_ok canon e" and "FindCapabilityByKID k cap_quiet d = Inr old"
    and "RotateCapability canon (ca_id old) rp ts e d = (Inr r, d')"
  shows "cap_good canon d' \<and> (\<exists>old'. FindCapabilityByKID k cap_quiet d' = Inr old' \<and> ca_revoked old' \<noteq> None) \<and>
    (\<exists>f. FindCapabilityByKID (rp_kid rp) cap_quiet d' = Inr f \<and> ca_digest f = rp_digest rp \<and> ca_revoked f = None \<and>
      ca_inbox_active f \<and> ca_inbox f = ca_inbox old \<and> ca_scopes f = ca_scopes old \<and> ca_expires f = ca_expires old)"
proof -
  from pg_find_id [OF assms(1,3)] obtain c b where kv: "validCapabilityKID k" and c: "c \<in> set (capabilities d)" "cp_kid c = k"
    and cid: "canon (ca_id old) = Some (cp_id c)" and b: "b \<in> set (inboxes d)" "ib_id b = cp_inbox c"
    and old: "old = cap_record c (ib_status b = ''active'') (Some (ib_expires b))" .
  have rpv: "validCapabilityKID (rp_kid rp)"
    using assms(4) by (auto simp: RotateCapability_def validateReplacementCapability_def split: if_splits)
  from assms(4) obtain n where "rotate_tx canon (en_newid e) (ca_id old) rp ts (en_flt e) (1, d) = (Inr r, n, d')"
    by (auto simp: RotateCapability_def split: if_splits sum.splits dest: run_tx_Inr)
  from rotate_tx_Inr [OF this] cid obtain c' b' i d1 row scopes where
    cb: "cap_by (\<lambda>c'. cp_id c' = cp_id c) d = Some (c', b')" and act: "cp_revoked c' = None" "ib_status b' = ''active''"
    and i: "canon (cp_inbox c') = Some i" and rv: "sql_revoke_current (cp_id c) ts d = Inr ((), d1)"
    and ins: "sql_insert_capability row d1 = Inr (row, d')" and sc: "scopeSetFromDatabase (cp_scope_mask c') = Inr scopes"
    and row: "row = cap_row (en_newid e) i (rp_kid rp) (rp_digest rp) (uint scopes) (rp_created rp) (cp_expires c') (Some (cp_id c))"
    by auto
  note c' = cap_by_id [OF assms(1) c(1) cb]
  have ok: "capability_row_ok c" using capability_ok [OF assms(1) c(1)] .
  have i': "i = cp_inbox c" using assms(1) c(1) i c'(1) by (auto simp: cap_good_def)
  have sc': "scopes = word_of_int (cp_scope_mask c)"
    using sc ok c'(1) by (simp add: capability_row_ok_def scopeSetFromDatabase_ok)
  have b': "b' = b" using assms(1) b c'(2,3) by (auto simp: cap_good_def db_wf_def wf_inboxes_def distinct_map inj_on_def)
  have d1: "d1 = d\<lparr>capabilities := map (\<lambda>c'. if cp_id c' = cp_id c \<and> cp_revoked c' = None
      then c'\<lparr>cp_revoked := Some ts\<rparr> else c') (capabilities d)\<rparr>"
    using rv by (auto simp: sql_revoke_current_def split: if_splits)
  note g1 = sql_revoke_current_good [OF assms(1) rv]
  have g: "cap_good canon d'"
  proof (rule insert_capability_good [OF g1 ins])
    show "canon (cp_id row) = Some (cp_id row)" using assms(2) by (simp add: row cap_row_def cap_env_ok_def)
    show "canon (cp_inbox row) = Some (cp_inbox row)" using assms(1) c(1) by (simp add: row cap_row_def cap_good_def i')
    show "\<And>r. r \<in> set (inboxes d1) \<Longrightarrow> ib_id r = cp_inbox row \<Longrightarrow> cp_expires row \<le> ib_expires r"
      using assms(1) c(1) by (auto simp: row cap_row_def cap_good_def i' c'(1) d1)
  qed
  have d': "d' = d1\<lparr>capabilities := capabilities d1 @ [row]\<rparr>" using ins by (simp add: sql_insert_capability_Inr)
  let ?c = "c\<lparr>cp_revoked := Some ts\<rparr>"
  have "?c \<in> set (capabilities d')" using c(1) act(1) c'(1) by (auto simp: d' d1 intro: rev_image_eqI)
  then have "FindCapabilityByKID k cap_quiet d' = Inr (cap_record ?c (ib_status b = ''active'') (Some (ib_expires b)))"
    using find_row [OF g kv, of ?c b] c b by (simp add: d' d1)
  moreover have "FindCapabilityByKID (rp_kid rp) cap_quiet d' = Inr (cap_record row (ib_status b = ''active'') (Some (ib_expires b)))"
    using find_row [OF g rpv, of row b] b by (simp add: d' d1 row cap_row_def i')
  ultimately show ?thesis using g act b' by (simp add: cap_record_def row cap_row_def old i' sc' c'(1))
qed

lemma pg_revoke_find:
  assumes "cap_good canon d" and "FindCapabilityByKID k cap_quiet d = Inr old"
    and "RevokeCapability canon (ca_id old) ts e d = (Inr (), d')"
  shows "cap_good canon d' \<and> (\<exists>old'. FindCapabilityByKID k cap_quiet d' = Inr old' \<and> ca_revoked old' \<noteq> None)"
proof -
  from pg_find_id [OF assms(1,2)] obtain c b where kv: "validCapabilityKID k" and c: "c \<in> set (capabilities d)" "cp_kid c = k"
    and cid: "canon (ca_id old) = Some (cp_id c)" and b: "b \<in> set (inboxes d)" "ib_id b = cp_inbox c" .
  from assms(3) cid have q: "sql_revoke (cp_id c) ts d = Inr (1, d')"
    by (auto simp: RevokeCapability_def run_stmt_def cast_uuid_def split: if_splits sum.splits option.splits fault.splits prod.splits)
  note g = sql_revoke_good [OF assms(1) q]
  let ?c = "c\<lparr>cp_revoked := (case cp_revoked c of None \<Rightarrow> Some ts | Some u \<Rightarrow> Some u)\<rparr>"
  have d': "d' = d\<lparr>capabilities := map (\<lambda>c'. if cp_id c' = cp_id c
      then c'\<lparr>cp_revoked := (case cp_revoked c' of None \<Rightarrow> Some ts | Some u \<Rightarrow> Some u)\<rparr> else c') (capabilities d)\<rparr>"
    using q by (auto simp: sql_revoke_def split: if_splits)
  have "?c \<in> set (capabilities d')" using c(1) by (auto simp: d' intro: rev_image_eqI)
  then have "FindCapabilityByKID k cap_quiet d' = Inr (cap_record ?c (ib_status b = ''active'') (Some (ib_expires b)))"
    using find_row [OF g kv, of ?c b] c b by (simp add: d')
  with g show ?thesis by (simp add: cap_record_def split: option.splits)
qed

interpretation pg: capability_store "pg_cap_repo canon" cap_quiet "cap_env_ok canon" "cap_good canon" for canon
  by (unfold_locales; unfold pg_cap_repo_def cap_repo.simps)
    (rule pg_expiry_bound pg_create_conflict pg_create_find pg_rotate_conflict pg_rotate_find pg_revoke_find; assumption)+

section \<open>Life cycle of a credential\<close>

text \<open>
  A capability that \<^verbatim>\<open>Issue\<close> returned authenticates: on the database it left, until the requested
  expiry and for every scope set within the granted scopes, its plaintext is accepted for the Inbox it was
  issued for; neither the store nor a retry after a key conflict can have recorded anything else.
\<close>

theorem issued_capability_authenticates:
  assumes "cap_good canon d" and "\<And>j. cap_env_ok canon (env j)"
    and "Issue sha256 canon (pg_cap_repo canon) ctx inboxID scopes expiresAt now rnd env d = (Inr iss, d')"
    and "ctx' \<noteq> NilCtx" and "later < expiresAt" and "scopes_has scopes required"
  shows "cap_good canon d' \<and>
    (\<exists>p. Authenticate sha256 (pg_cap_repo canon) ctx' (is_plaintext iss) required later cap_quiet d' = Inr p \<and>
       pc_inbox p = is_inbox iss \<and> pc_scopes p = scopes \<and> pc_expires p = expiresAt)"
  using assms by (rule pg.issued_authenticates)

text \<open>
  C7. Rotation replaces a credential: after a successful \<^verbatim>\<open>Rotate\<close> the old plaintext is rejected forever
  with the uniform authentication error, and the new one authenticates with the same Inbox, scopes
  and expiry as the old one had.
\<close>

theorem rotation_replaces_credential:
  assumes "cap_good canon d" and "\<And>j. cap_env_ok canon (env j)"
    and "Rotate sha256 (pg_cap_repo canon) ctx plaintext now cap_quiet rnd clock env d = (Inr iss, d')"
    and "Authenticate sha256 (pg_cap_repo canon) ctx plaintext required now cap_quiet d = Inr p"
    and "ctx' \<noteq> NilCtx" and "later < pc_expires p"
  shows "cap_good canon d' \<and>
    (\<forall>req t. Authenticate sha256 (pg_cap_repo canon) ctx' plaintext req t cap_quiet d' = Inl ErrUnauthenticated) \<and>
    (\<exists>p'. Authenticate sha256 (pg_cap_repo canon) ctx' (is_plaintext iss) required later cap_quiet d' = Inr p' \<and>
       pc_inbox p' = pc_inbox p \<and> pc_scopes p' = pc_scopes p \<and> pc_expires p' = pc_expires p)"
  using assms by (rule pg.rotated_lifecycle)

text \<open>
  Revocation is effective and permanent: after a successful \<^verbatim>\<open>Revoke\<close> the plaintext is rejected at
  every later time and for every scope.
\<close>

theorem revocation_is_permanent:
  assumes "cap_good canon d"
    and "Revoke sha256 (pg_cap_repo canon) ctx plaintext now cap_quiet later e d = (Inr (), d')"
  shows "cap_good canon d' \<and>
    (\<forall>req t. Authenticate sha256 (pg_cap_repo canon) ctx' plaintext req t cap_quiet d' = Inl ErrUnauthenticated)"
  using assms by (rule pg.revoked_lifecycle)

definition cap_canon :: "string \<Rightarrow> string option" where
  "cap_canon s = (if s \<in> {''i1'', ''c1'', ''c2''} then Some s else None)"

definition cap_sha :: "bytes \<Rightarrow> bytes" where
  "cap_sha b = take 32 (rev b)"

definition cap_db :: db where
  "cap_db = empty_db\<lparr>inboxes := [\<lparr>ib_id = ''i1'', ib_address = ''a@b'', ib_status = ''active'',
     ib_expires = 100, ib_created = 0, ib_updated = 0\<rparr>]\<rparr>"

definition cap_sample_env :: "string \<Rightarrow> cap_env" where
  "cap_sample_env i = \<lparr>en_newid = i, en_flt = \<lambda>_. NoFault\<rparr>"

definition sample_issue :: "issued_capability result \<times> db" where
  "sample_issue = Issue cap_sha cap_canon (pg_cap_repo cap_canon) (Ctx None) ''i1'' 1 50 10 (\<lambda>_. replicate 44 CHR ''x'')
     (\<lambda>_. cap_sample_env ''c1'') cap_db"

definition sample_rotate :: "issued_capability result \<times> db" where
  "sample_rotate = (case sample_issue of
       (Inr iss, d) \<Rightarrow> Rotate cap_sha (pg_cap_repo cap_canon) (Ctx None) (is_plaintext iss) 20 cap_quiet
         (\<lambda>_. replicate 44 CHR ''y'') (\<lambda>_. 20) (\<lambda>_. cap_sample_env ''c2'') d
     | (Inl e, d) \<Rightarrow> (Inl e, d))"

definition sample_revoke :: "unit result \<times> db" where
  "sample_revoke = (case sample_issue of
       (Inr iss, d) \<Rightarrow> Revoke cap_sha (pg_cap_repo cap_canon) (Ctx None) (is_plaintext iss) 20 cap_quiet 21 (cap_sample_env []) d
     | (Inl e, d) \<Rightarrow> (Inl e, d))"

lemma not_isl_pair: "\<not> isl (fst p) \<Longrightarrow> \<exists>x d. p = (Inr x, d)"
  by (cases p; cases "fst p") auto

lemma sample_issue_Inr: "\<exists>x d. sample_issue = (Inr x, d)"
  by (rule not_isl_pair) code_simp

lemma sample_rotate_Inr: "\<exists>x d. sample_rotate = (Inr x, d)"
  by (rule not_isl_pair) code_simp

lemma sample_revoke_Inr: "\<exists>x d. sample_revoke = (Inr x, d)"
  by (rule not_isl_pair) code_simp


lemma cap_db_good: "cap_good cap_canon cap_db"
  by (auto simp: cap_good_def db_wf_def wf_tables cap_db_def empty_db_def List.map_filter_simps cap_canon_def split: if_splits)

lemma cap_sample_env_ok: "i \<in> {''c1'', ''c2''} \<Longrightarrow> cap_env_ok cap_canon (cap_sample_env i)"
  by (auto simp: cap_env_ok_def cap_sample_env_def cap_canon_def)

theorem issued_capability_authenticates_witness:
  "\<exists>iss d p. sample_issue = (Inr iss, d) \<and> cap_good cap_canon d \<and>
     Authenticate cap_sha (pg_cap_repo cap_canon) (Ctx None) (is_plaintext iss) [1] 20 cap_quiet d = Inr p"
proof -
  obtain iss d where i: "sample_issue = (Inr iss, d)"
    using sample_issue_Inr by auto
  have s: "scopes_has (1::32 word) [1]" by code_simp
  have e: "cap_env_ok cap_canon (cap_sample_env ''c1'')" by (rule cap_sample_env_ok) simp
  show ?thesis
    using issued_capability_authenticates [OF cap_db_good e i [unfolded sample_issue_def], of "Ctx None" 20 "[1]"] s i by auto
qed

lemma sample_issued_good:
  assumes "sample_issue = (Inr iss, d)"
  shows "cap_good cap_canon d"
proof -
  have e: "cap_env_ok cap_canon (cap_sample_env ''c1'')" by (rule cap_sample_env_ok) simp
  have s: "scopes_has (1::32 word) [1]" by code_simp
  show ?thesis
    using pg.issued_authenticates [OF cap_db_good e assms [unfolded sample_issue_def], of "Ctx None" 20 "[1]"] s by auto
qed

lemma sample_authenticates:
  "(case sample_issue of (Inr iss, d) \<Rightarrow>
      (case Authenticate cap_sha (pg_cap_repo cap_canon) (Ctx None) (is_plaintext iss) [1] 20 cap_quiet d of
         Inr p \<Rightarrow> pc_inbox p = ''i1'' \<and> pc_expires p = 50 | Inl _ \<Rightarrow> False) | _ \<Rightarrow> False)"
  by code_simp

theorem rotation_replaces_credential_witness:
  "\<exists>iss d new d' p'. sample_issue = (Inr iss, d) \<and> sample_rotate = (Inr new, d') \<and>
     Authenticate cap_sha (pg_cap_repo cap_canon) (Ctx None) (is_plaintext iss) [1] 20 cap_quiet d' = Inl ErrUnauthenticated \<and>
     Authenticate cap_sha (pg_cap_repo cap_canon) (Ctx None) (is_plaintext new) [1] 49 cap_quiet d' = Inr p'"
proof -
  obtain iss d where i: "sample_issue = (Inr iss, d)"
    using sample_issue_Inr by auto
  obtain new d' where r: "sample_rotate = (Inr new, d')"
    using sample_rotate_Inr by auto
  obtain p where p: "Authenticate cap_sha (pg_cap_repo cap_canon) (Ctx None) (is_plaintext iss) [1] 20 cap_quiet d = Inr p"
    "pc_expires p = 50" using sample_authenticates unfolding i by (auto split: sum.splits)
  have e: "cap_env_ok cap_canon (cap_sample_env ''c2'')" by (rule cap_sample_env_ok) simp
  have "Rotate cap_sha (pg_cap_repo cap_canon) (Ctx None) (is_plaintext iss) 20 cap_quiet
         (\<lambda>_. replicate 44 CHR ''y'') (\<lambda>_. 20) (\<lambda>_. cap_sample_env ''c2'') d = (Inr new, d')"
    using r unfolding sample_rotate_def i by simp
  from rotation_replaces_credential [OF sample_issued_good [OF i] e this p(1), of "Ctx None" 49] p(2)
  obtain p' where "Authenticate cap_sha (pg_cap_repo cap_canon) (Ctx None) (is_plaintext iss) [1] 20 cap_quiet d' = Inl ErrUnauthenticated"
    "Authenticate cap_sha (pg_cap_repo cap_canon) (Ctx None) (is_plaintext new) [1] 49 cap_quiet d' = Inr p'" by auto
  with i r show ?thesis by blast
qed

theorem revocation_is_permanent_witness:
  "\<exists>iss d d'. sample_issue = (Inr iss, d) \<and> sample_revoke = (Inr (), d') \<and>
     Authenticate cap_sha (pg_cap_repo cap_canon) (Ctx None) (is_plaintext iss) [1] 22 cap_quiet d' = Inl ErrUnauthenticated"
proof -
  obtain iss d where i: "sample_issue = (Inr iss, d)"
    using sample_issue_Inr by auto
  obtain d' where r: "sample_revoke = (Inr (), d')"
    using sample_revoke_Inr by auto
  have "Revoke cap_sha (pg_cap_repo cap_canon) (Ctx None) (is_plaintext iss) 20 cap_quiet 21 (cap_sample_env []) d = (Inr (), d')"
    using r unfolding sample_revoke_def i by simp
  from revocation_is_permanent [OF sample_issued_good [OF i] this, of "Ctx None"]
  have "Authenticate cap_sha (pg_cap_repo cap_canon) (Ctx None) (is_plaintext iss) [1] 22 cap_quiet d' = Inl ErrUnauthenticated" by blast
  with i r show ?thesis by blast
qed

theorem Authenticate_sound_witness:
  "\<exists>iss d t. sample_issue = (Inr iss, d) \<and> ParseToken (is_plaintext iss) = Inr t \<and> tokenType t = TokenCapability"
proof -
  obtain iss d where i: "sample_issue = (Inr iss, d)"
    using sample_issue_Inr by auto
  obtain p where p: "Authenticate cap_sha (pg_cap_repo cap_canon) (Ctx None) (is_plaintext iss) [1] 20 cap_quiet d = Inr p"
    using sample_authenticates unfolding i by (auto split: sum.splits)
  from Authenticate_sound [OF p] i show ?thesis by blast
qed

end
