(* ===== verification/Mailbox_Service.thy ===== *)
theory Mailbox_Service
  imports Capability_Repository Mailbox_Repository Content_Store
begin

text \<open>
  \<^verbatim>\<open>internal/mailbox/service.go\<close>: creation of an Inbox with its owner capability, ownership-scoped access, and
  the keyset pagination of message lists, over the repositories and the content store.
\<close>

section \<open>Construction\<close>

record mailbox_options =
  mo_PublicDomains :: "string list"
  mo_DefaultTTL :: duration
  mo_MaxTTL :: duration
  mo_has_parser :: bool

record mailbox_service =
  sv_domains :: "string list"
  sv_default_ttl :: duration
  sv_max_ttl :: duration
  sv_has_parser :: bool

fun public_domains :: "string list \<Rightarrow> string list \<Rightarrow> string list result" where
  "public_domains domains [] = Inr domains"
| "public_domains domains (d # ds) =
     (let domain = to_lower (trim_space d) in
      if domain = [] then Inl (OtherError ''public Inbox domain is empty'')
      else if domain \<in> set domains then Inl (OtherError (''duplicate public Inbox domain '' @ domain))
      else public_domains (domains @ [domain]) ds)"

definition NewMailboxService :: "bool \<Rightarrow> bool \<Rightarrow> bool \<Rightarrow> mailbox_options \<Rightarrow> mailbox_service result" where
  "NewMailboxService has_repository has_issuer has_content opts =
     (if \<not> has_repository \<or> \<not> has_issuer \<or> \<not> has_content
      then Inl (OtherError ''mailbox repository, capability issuer, and content reader are required'')
      else if mo_PublicDomains opts = [] then Inl (OtherError ''at least one public Inbox domain is required'')
      else if mo_DefaultTTL opts \<le> 0 \<or> mo_MaxTTL opts \<le> 0 \<or> mo_DefaultTTL opts > mo_MaxTTL opts
      then Inl (OtherError ''Inbox TTL range is invalid'')
      else case public_domains [] (mo_PublicDomains opts) of
          Inl e \<Rightarrow> Inl e
        | Inr domains \<Rightarrow> Inr \<lparr>sv_domains = domains, sv_default_ttl = mo_DefaultTTL opts, sv_max_ttl = mo_MaxTTL opts,
            sv_has_parser = mo_has_parser opts\<rparr>)"

section \<open>Creating an Inbox\<close>

record create_request =
  cq_domain :: string
  cq_local :: string
  cq_lifetime :: duration

record created_inbox =
  ci_inbox :: inbox
  ci_capability :: issued_capability

text \<open>What the calls of one \<^verbatim>\<open>Create\<close> cannot decide: randomness, generated identifiers, clocks and failures.\<close>

record create_env =
  ce_now :: time
  ce_random :: "nat \<Rightarrow> bytes"
  ce_newid :: "nat \<Rightarrow> string"
  ce_fault :: "nat \<Rightarrow> fault"
  ce_ctx :: ctx
  ce_issue_now :: time
  ce_issue_random :: "nat \<Rightarrow> bytes"
  ce_issue_env :: "nat \<Rightarrow> cap_env"
  ce_delete_now :: time
  ce_delete_clock :: time
  ce_delete_fault :: "nat \<Rightarrow> fault"

definition maxAddressGenerationAttempts :: nat where
  "maxAddressGenerationAttempts = 5"

definition generateLocalPart :: "bytes \<Rightarrow> string result" where
  "generateLocalPart random = (case read_full 12 random of Inl e \<Rightarrow> Inl e | Inr (entropy, _) \<Rightarrow> Inr (b32_lower entropy))"

fun create_loop :: "create_env \<Rightarrow> string \<Rightarrow> string \<Rightarrow> time \<Rightarrow> nat \<Rightarrow> nat \<Rightarrow> db \<Rightarrow> inbox result \<times> db" where
  "create_loop env localPart domain expiresAt i 0 d = (Inl ErrAddressConflict, d)"
| "create_loop env localPart domain expiresAt i (Suc attempts) d =
     (case (if localPart = [] then generateLocalPart (ce_random env i) else Inr localPart) of
        Inl e \<Rightarrow> (Inl e, d)
      | Inr candidate \<Rightarrow>
          (case CreateInbox (ce_newid env i) \<lparr>ni_address = candidate @ ''@'' @ domain, ni_expires = expiresAt, ni_created = ce_now env\<rparr>
                  (ce_fault env i) d of
             (Inl e, d') \<Rightarrow>
               if e = ErrAddressConflict then create_loop env localPart domain expiresAt (Suc i) attempts d' else (Inl e, d')
           | (Inr inbox, d') \<Rightarrow> if in_id inbox = [] then (Inl ErrAddressConflict, d') else (Inr inbox, d')))"

definition Create :: "(bytes \<Rightarrow> bytes) \<Rightarrow> (string \<Rightarrow> string option) \<Rightarrow> mailbox_service \<Rightarrow> create_env \<Rightarrow> create_request \<Rightarrow> db \<Rightarrow> created_inbox result \<times> db" where
  "Create sha256 canon sv env request d =
     (let domain0 = to_lower (trim_space (cq_domain request));
          domain = (if domain0 = [] then hd (sv_domains sv) else domain0) in
      if domain \<notin> set (sv_domains sv) then (Inl ErrInvalidDomain, d)
      else
        let lifetime = (if cq_lifetime request = 0 then sv_default_ttl sv else cq_lifetime request) in
        if lifetime \<le> 0 \<or> lifetime > sv_max_ttl sv then (Inl ErrInvalidLifetime, d)
        else
          let expiresAt = ce_now env + lifetime; localPart = to_lower (trim_space (cq_local request)) in
          if localPart \<noteq> [] \<and> \<not> ValidInboxLocalPart localPart then (Inl ErrInvalidLocalPart, d)
          else
            case create_loop env localPart domain expiresAt 0 (if localPart \<noteq> [] then 1 else maxAddressGenerationAttempts) d of
              (Inl e, d1) \<Rightarrow> (Inl e, d1)
            | (Inr inbox, d1) \<Rightarrow>
                (case NewScopeSet [ScopeInboxRead, ScopeInboxDelete, ScopeMessageRead, ScopeMessageUpdate, ScopeMessageDelete] of
                   Inl e \<Rightarrow> (Inl e, d1)
                 | Inr scopes \<Rightarrow>
                     (case Issue sha256 canon (pg_cap_repo canon) (ce_ctx env) (in_id inbox) scopes expiresAt (ce_issue_now env)
                             (ce_issue_random env) (ce_issue_env env) d1 of
                        (Inr capability, d2) \<Rightarrow> (Inr \<lparr>ci_inbox = inbox, ci_capability = capability\<rparr>, d2)
                      | (Inl e, d2) \<Rightarrow>
                          (case DeleteInbox canon (ce_delete_now env) (ce_delete_clock env) (in_id inbox) (ce_delete_fault env) d2 of
                             (_, d3) \<Rightarrow> (Inl e, d3)))))"

section \<open>Access\<close>

definition service_Get :: "(string \<Rightarrow> string option) \<Rightarrow> time \<Rightarrow> string \<Rightarrow> fault \<Rightarrow> db \<Rightarrow> inbox result" where
  "service_Get canon now inboxID flt d = GetInbox canon now inboxID flt d"

definition service_Delete :: "(string \<Rightarrow> string option) \<Rightarrow> time \<Rightarrow> time \<Rightarrow> string \<Rightarrow> (nat \<Rightarrow> fault) \<Rightarrow> db \<Rightarrow> unit result \<times> db" where
  "service_Delete canon now clock inboxID flt d =
     (case DeleteInbox canon now clock inboxID flt d of (Inl e, d') \<Rightarrow> (Inl e, d') | (Inr _, d') \<Rightarrow> (Inr (), d'))"

definition service_DeleteMessage :: "(string \<Rightarrow> string option) \<Rightarrow> time \<Rightarrow> time \<Rightarrow> string \<Rightarrow> string \<Rightarrow> (nat \<Rightarrow> fault) \<Rightarrow> db \<Rightarrow> unit result \<times> db" where
  "service_DeleteMessage canon now clock inboxID messageID flt d =
     (case DeleteMessage canon now clock inboxID messageID flt d of (Inl e, d') \<Rightarrow> (Inl e, d') | (Inr _, d') \<Rightarrow> (Inr (), d'))"

definition service_MarkMessageSeen :: "(string \<Rightarrow> string option) \<Rightarrow> time \<Rightarrow> time \<Rightarrow> string \<Rightarrow> string \<Rightarrow> fault \<Rightarrow> db \<Rightarrow> unit result \<times> db" where
  "service_MarkMessageSeen canon now wall inboxID messageID flt d = MarkMessageSeen canon now inboxID messageID wall flt d"

definition service_OpenSource :: "(string \<Rightarrow> string option) \<Rightarrow> time \<Rightarrow> ctx \<Rightarrow> (store_op \<Rightarrow> go_error option) \<Rightarrow> store \<Rightarrow> string \<Rightarrow> string \<Rightarrow> fault \<Rightarrow> db \<Rightarrow> (bytes \<times> int) result" where
  "service_OpenSource canon now ctx sflt s inboxID messageID flt d =
     (case GetMessageContent canon now inboxID messageID flt d of
        Inl e \<Rightarrow> Inl e
      | Inr ref \<Rightarrow> (case OpenRaw ctx sflt ref s of Inl e \<Rightarrow> Inl e | Inr content \<Rightarrow> Inr (content, cr_size ref)))"

record attachment_source =
  as_stream :: bytes
  as_file_name :: string
  as_content_type :: string
  as_size :: int

text \<open>\<open>open_part\<close> is \<^verbatim>\<open>mail.Parser.OpenAttachment\<close> on the opened raw message.\<close>

definition service_OpenAttachment :: "mailbox_service \<Rightarrow> (bytes \<Rightarrow> string \<Rightarrow> bytes result) \<Rightarrow> (string \<Rightarrow> string option) \<Rightarrow> time \<Rightarrow> ctx \<Rightarrow> (store_op \<Rightarrow> go_error option) \<Rightarrow> store \<Rightarrow>
    string \<Rightarrow> string \<Rightarrow> string \<Rightarrow> fault \<Rightarrow> fault \<Rightarrow> db \<Rightarrow> attachment_source result" where
  "service_OpenAttachment sv open_part canon now ctx sflt s inboxID messageID partPath flt1 flt2 d =
     (if \<not> sv_has_parser sv then Inl (OtherError ''attachment parser is not configured'')
      else case GetMessage canon now inboxID messageID flt1 d of
          Inl e \<Rightarrow> Inl e
        | Inr detail \<Rightarrow>
            (case find (\<lambda>a. att_part_path a = partPath) (de_attachments detail) of
               None \<Rightarrow> Inl ErrMessageNotFound
             | Some selected \<Rightarrow>
                 (case GetMessageContent canon now inboxID messageID flt2 d of
                    Inl e \<Rightarrow> Inl e
                  | Inr ref \<Rightarrow>
                      (case OpenRaw ctx sflt ref s of
                         Inl e \<Rightarrow> Inl e
                       | Inr raw \<Rightarrow>
                           (case open_part raw (att_part_path selected) of
                              Inl e \<Rightarrow> Inl e
                            | Inr stream \<Rightarrow> Inr \<lparr>as_stream = stream, as_file_name = att_file_name selected,
                                as_content_type = att_content_type selected, as_size = att_size selected\<rparr>)))))"

section \<open>Pages\<close>

record cursor_page =
  cpg_limit :: int
  cpg_before :: "message_cursor option"

record cursor_message_page =
  cmp_items :: "message_summary list"
  cmp_next :: "message_cursor option"

definition service_ListMessages :: "(string \<Rightarrow> string option) \<Rightarrow> time \<Rightarrow> string \<Rightarrow> cursor_page \<Rightarrow> fault \<Rightarrow> db \<Rightarrow> fault \<Rightarrow> db \<Rightarrow> cursor_message_page result" where
  "service_ListMessages canon now inboxID request flt1 d1 flt2 d2 =
     (let limit0 = (if cpg_limit request \<le> 0 then 50 else cpg_limit request); limit = (if limit0 > 100 then 100 else limit0) in
      if (case cpg_before request of None \<Rightarrow> False | Some c \<Rightarrow> cu_id c = [] \<or> is_zero_time (cu_received c))
      then Inl (OtherError ''message cursor is invalid'')
      else case ListMessages canon now inboxID \<lparr>pg_limit = limit + 1, pg_offset = 0, pg_before = cpg_before request\<rparr> flt1 d1 flt2 d2 of
          Inl e \<Rightarrow> Inl e
        | Inr p \<Rightarrow>
            if int (length (mp_items p)) > limit then
              (let items = take (nat limit) (mp_items p); last_item = last items in
               Inr \<lparr>cmp_items = items, cmp_next = Some \<lparr>cu_received = su_received last_item, cu_id = su_id last_item\<rparr>\<rparr>)
            else Inr \<lparr>cmp_items = mp_items p, cmp_next = None\<rparr>)"

definition service_ListMessagePage :: "(string \<Rightarrow> string option) \<Rightarrow> time \<Rightarrow> string \<Rightarrow> int \<Rightarrow> int \<Rightarrow> fault \<Rightarrow> db \<Rightarrow> fault \<Rightarrow> db \<Rightarrow> message_page result" where
  "service_ListMessagePage canon now inboxID limit offset flt1 d1 flt2 d2 =
     (if limit \<le> 0 \<or> limit > 200 \<or> offset < 0 then Inl (OtherError ''message page is invalid'')
      else ListMessages canon now inboxID \<lparr>pg_limit = limit, pg_offset = offset, pg_before = None\<rparr> flt1 d1 flt2 d2)"

section \<open>Keyset pagination\<close>

definition row_key :: "message_row \<Rightarrow> time \<times> string" where
  "row_key m = (ms_received m, ms_id m)"

definition item_key :: "message_summary \<Rightarrow> time \<times> string" where
  "item_key s = (su_received s, su_id s)"

definition before_key :: "message_cursor option \<Rightarrow> time \<times> string \<Rightarrow> bool" where
  "before_key b k = (case b of None \<Rightarrow> True | Some c \<Rightarrow> k < (cu_received c, cu_id c))"

text \<open>The message keys of an Inbox, newest first: what a complete listing has to show.\<close>

definition inbox_keys :: "time \<Rightarrow> string \<Rightarrow> db \<Rightarrow> (time \<times> string) list" where
  "inbox_keys now i d = map row_key (newest_first (list_rows now i d))"

definition listable :: "(string \<Rightarrow> string option) \<Rightarrow> time \<Rightarrow> string \<Rightarrow> db \<Rightarrow> bool" where
  "listable canon now i d \<longleftrightarrow> db_wf d \<and>
     (\<forall>m \<in> set (list_rows now i d). canon (ms_id m) = Some (ms_id m) \<and> ms_id m \<noteq> [] \<and> \<not> is_zero_time (ms_received m))"

fun list_walk :: "nat \<Rightarrow> (string \<Rightarrow> string option) \<Rightarrow> (nat \<Rightarrow> time) \<Rightarrow> string \<Rightarrow> int \<Rightarrow> (nat \<Rightarrow> db) \<Rightarrow> nat \<Rightarrow> message_cursor option \<Rightarrow> message_summary list result option" where
  "list_walk 0 canon now inboxID limit ds j b = None"
| "list_walk (Suc fuel) canon now inboxID limit ds j b =
     (case service_ListMessages canon (now j) inboxID \<lparr>cpg_limit = limit, cpg_before = b\<rparr> NoFault (ds j) NoFault (ds j) of
        Inl e \<Rightarrow> Some (Inl e)
      | Inr p \<Rightarrow>
          (case cmp_next p of
             None \<Rightarrow> Some (Inr (cmp_items p))
           | Some c \<Rightarrow>
               (case list_walk fuel canon now inboxID limit ds (Suc j) (Some c) of
                  None \<Rightarrow> None
                | Some (Inl e) \<Rightarrow> Some (Inl e)
                | Some (Inr rest) \<Rightarrow> Some (Inr (cmp_items p @ rest)))))"

lemma row_key_before: "before_cursor b = (\<lambda>m. before_key b (row_key m))"
  by (rule ext) (simp add: before_cursor_def before_key_def row_key_def split: option.splits)

lemma newest_first_filter: "newest_first (filter P ms) = filter P (newest_first ms)"
  by (simp only: newest_first_def filter_sort[symmetric] rev_filter)

lemma set_newest_first [simp]: "set (newest_first ms) = set ms"
  by (simp add: newest_first_def)

lemma inbox_keys_descending:
  assumes "db_wf d"
  shows "sorted_wrt (>) (inbox_keys now i d)"
proof -
  let ?rows = "list_rows now i d"
  have "distinct (map ms_id ?rows)"
    using assms by (auto simp: list_rows_def db_wf_def wf_messages_def distinct_map filter_map intro: inj_on_subset)
  then have "distinct (map row_key ?rows)"
    by (auto simp: distinct_map row_key_def inj_on_def)
  then have "distinct (map row_key (sort_key row_key ?rows))"
    by (metis (no_types) distinct_map distinct_sort set_sort)
  moreover have "sorted (map row_key (sort_key row_key ?rows))" by simp
  ultimately have "sorted_wrt (<) (map row_key (sort_key row_key ?rows))"
    by (simp add: strict_sorted_iff)
  then show ?thesis
    by (simp add: inbox_keys_def newest_first_def rev_map[symmetric] sorted_wrt_rev row_key_def[abs_def])
qed

lemma page_rows_keys:
  assumes "db_wf d"
  shows "map item_key (page_rows now i \<lparr>pg_limit = l, pg_offset = 0, pg_before = b\<rparr> d) =
    take (nat l) (filter (before_key b) (inbox_keys now i d))"
proof -
  let ?rows = "newest_first (filter (before_cursor b) (list_rows now i d))"
  have "\<exists>c. find_content d (ms_content m) = Some c" if "m \<in> set ?rows" for m
    using that assms wf_find_content[of d]
    by (fastforce simp: list_rows_def db_wf_def wf_messages_def list_all_iff split: if_splits)
  then have "map item_key (List.map_filter (\<lambda>m. map_option (summary_of d m) (find_content d (ms_content m))) ms) = map row_key ms"
    if "set ms \<subseteq> set ?rows" for ms
    using that by (induction ms) (fastforce simp: List.map_filter_simps item_key_def row_key_def summary_of_def)+
  then have "map item_key (List.map_filter (\<lambda>m. map_option (summary_of d m) (find_content d (ms_content m))) ?rows) = map row_key ?rows"
    by simp
  moreover have "map row_key ?rows = filter (before_key b) (inbox_keys now i d)"
    by (simp add: newest_first_filter inbox_keys_def filter_map comp_def row_key_before)
  ultimately show ?thesis by (simp add: page_rows_def take_map[symmetric])
qed

lemma descending_last:
  fixes xs :: "'a :: linorder list"
  assumes "sorted_wrt (>) xs" and "k \<in> set xs"
  shows "last xs \<le> k"
proof -
  have ne: "xs \<noteq> []" using assms(2) by auto
  have "sorted_wrt (>) (butlast xs @ [last xs])" "k \<in> set (butlast xs @ [last xs])" using assms ne by simp_all
  then show ?thesis unfolding sorted_wrt_append by (auto simp: less_imp_le)
qed

lemma descending_rest:
  fixes ks :: "'a :: linorder list"
  assumes "sorted_wrt (>) ks" and "0 < n" and "n < length ks"
  shows "filter (\<lambda>k. k < last (take n ks)) ks = drop n ks"
proof -
  have split: "ks = take n ks @ drop n ks" by simp
  have srt: "sorted_wrt (>) (take n ks @ drop n ks)" using assms(1) by simp
  have ne: "take n ks \<noteq> []" using assms(2,3) by auto
  have "\<not> k < last (take n ks)" if "k \<in> set (take n ks)" for k
    using descending_last[OF _ that] srt[unfolded sorted_wrt_append] by (simp add: not_less)
  then have "filter (\<lambda>k. k < last (take n ks)) (take n ks) = []" by (simp add: filter_empty_conv)
  moreover have "filter (\<lambda>k. k < last (take n ks)) (drop n ks) = drop n ks"
  proof (rule filter_True, rule ballI)
    fix k assume "k \<in> set (drop n ks)"
    moreover have "\<forall>x \<in> set (take n ks). \<forall>y \<in> set (drop n ks). y < x" using srt[unfolded sorted_wrt_append] by blast
    ultimately show "k < last (take n ks)" using last_in_set[OF ne] by blast
  qed
  ultimately have "filter (\<lambda>k. k < last (take n ks)) (take n ks @ drop n ks) = drop n ks" by (simp only: filter_append append_Nil)
  then show ?thesis by simp
qed

lemma service_page:
  assumes "listable canon now i d" and "canon inboxID = Some i" and "0 < limit" and "limit \<le> 100"
    and "\<And>c. b = Some c \<Longrightarrow> canon (cu_id c) = Some (cu_id c) \<and> cu_id c \<noteq> [] \<and> \<not> is_zero_time (cu_received c)"
  obtains p where "service_ListMessages canon now inboxID \<lparr>cpg_limit = limit, cpg_before = b\<rparr> NoFault d NoFault d = Inr p"
    and "map item_key (cmp_items p) = take (nat limit) (filter (before_key b) (inbox_keys now i d))"
    and "if int (length (filter (before_key b) (inbox_keys now i d))) > limit
      then \<exists>c. cmp_next p = Some c \<and> (cu_received c, cu_id c) = last (take (nat limit) (filter (before_key b) (inbox_keys now i d)))
      else cmp_next p = None"
proof -
  let ?pg = "\<lparr>pg_limit = limit + 1, pg_offset = 0, pg_before = b\<rparr>" and ?ks = "filter (before_key b) (inbox_keys now i d)"
  let ?items = "page_rows now i ?pg d"
  have valid: "page_valid ?pg" using assms(3,5) by (auto simp: page_valid_def split: option.splits)
  have cc: "canon_cursor canon ?pg = Some ?pg" using assms(5) by (auto simp: canon_cursor_def split: option.splits)
  have ls: "\<exists>t u. ListMessages canon now inboxID ?pg NoFault d NoFault d = Inr \<lparr>mp_items = ?items, mp_total = t, mp_unread = u\<rparr>"
    using valid cc assms(2) by (simp add: ListMessages_def run_stmt_def with_uuid_def query_def)
  have keys: "map item_key ?items = take (nat (limit + 1)) ?ks"
    by (rule page_rows_keys) (use assms(1) in \<open>simp add: listable_def\<close>)
  have len: "int (length ?items) > limit \<longleftrightarrow> int (length ?ks) > limit"
    using arg_cong[OF keys, of length] assms(3) by (simp add: min_def split: if_splits)
  have ok: "\<not> (case b of None \<Rightarrow> False | Some c \<Rightarrow> cu_id c = [] \<or> is_zero_time (cu_received c))"
    using assms(5) by (auto split: option.splits)
  show thesis
  proof (cases "int (length ?ks) > limit")
    case True
    let ?sel = "take (nat limit) ?items"
    have sel: "map item_key ?sel = take (nat limit) ?ks"
      using keys assms(3) by (simp add: take_map[symmetric] min_def)
    have "?sel \<noteq> []" using len True assms(3) by auto
    then have lst: "item_key (last ?sel) = last (take (nat limit) ?ks)" by (metis sel last_map)
    show thesis
      by (rule that[of "\<lparr>cmp_items = ?sel, cmp_next = Some \<lparr>cu_received = su_received (last ?sel), cu_id = su_id (last ?sel)\<rparr>\<rparr>"])
        (use ls True len sel lst assms(3,4) ok in \<open>auto simp: service_ListMessages_def Let_def item_key_def[abs_def]\<close>)
  next
    case False
    have "map item_key ?items = take (nat limit) ?ks" using keys False assms(3) by (simp add: nat_le_iff)
    then show thesis
      by (intro that[of "\<lparr>cmp_items = ?items, cmp_next = None\<rparr>"])
        (use ls False len assms(3,4) ok in \<open>auto simp: service_ListMessages_def Let_def\<close>)
  qed
qed

lemma before_key_less: "k < k' \<Longrightarrow> before_key b k' \<Longrightarrow> before_key b k"
  by (cases b) (simp_all only: before_key_def option.case less_trans)

lemma before_key_Some: "before_key (Some c) = (\<lambda>k. k < (cu_received c, cu_id c))"
  by (rule ext) (simp only: before_key_def option.case)

lemma next_keys:
  assumes "sorted_wrt (>) (inbox_keys now i d)" and "0 < limit"
    and "int (length (filter (before_key b) (inbox_keys now i d))) > limit"
    and "(cu_received c, cu_id c) = last (take (nat limit) (filter (before_key b) (inbox_keys now i d)))"
  shows "filter (before_key (Some c)) (inbox_keys now i d) = drop (nat limit) (filter (before_key b) (inbox_keys now i d))"
proof -
  let ?ks = "filter (before_key b) (inbox_keys now i d)"
  have ne: "take (nat limit) ?ks \<noteq> []" using assms(2,3) by auto
  have "last (take (nat limit) ?ks) \<in> set ?ks" using last_in_set[OF ne] by (meson in_set_takeD)
  then have "before_key b (cu_received c, cu_id c)" using assms(4) by simp
  then have "k < last (take (nat limit) ?ks) \<Longrightarrow> before_key b k" for k unfolding assms(4) by (rule before_key_less[rotated])
  then have "filter (before_key (Some c)) (inbox_keys now i d) = filter (\<lambda>k. k < last (take (nat limit) ?ks)) ?ks"
    unfolding before_key_Some assms(4) filter_filter by (intro filter_cong) blast+
  then show ?thesis
    using descending_rest[of ?ks "nat limit"] sorted_wrt_filter[OF assms(1)] assms(2,3) by simp
qed

lemma next_cursor_valid:
  assumes "listable canon now i d" and "0 < limit" and "int (length (filter (before_key b) (inbox_keys now i d))) > limit"
    and "(cu_received c, cu_id c) = last (take (nat limit) (filter (before_key b) (inbox_keys now i d)))"
  shows "canon (cu_id c) = Some (cu_id c) \<and> cu_id c \<noteq> [] \<and> \<not> is_zero_time (cu_received c)" and "before_key b (cu_received c, cu_id c)"
proof -
  let ?ks = "filter (before_key b) (inbox_keys now i d)"
  have ne: "take (nat limit) ?ks \<noteq> []" using assms(2,3) by auto
  have mem: "(cu_received c, cu_id c) \<in> set ?ks" using last_in_set[OF ne] assms(4) by (metis in_set_takeD)
  then obtain m where "m \<in> set (list_rows now i d)" "row_key m = (cu_received c, cu_id c)"
    by (auto simp: inbox_keys_def)
  then show "canon (cu_id c) = Some (cu_id c) \<and> cu_id c \<noteq> [] \<and> \<not> is_zero_time (cu_received c)"
    using assms(1) by (auto simp: listable_def row_key_def)
  show "before_key b (cu_received c, cu_id c)" using mem by simp
qed

lemma list_walk_snapshots:
  assumes "\<And>j. listable canon (now j) i (ds j)" and "canon inboxID = Some i" and "0 < limit" and "limit \<le> 100"
    and "\<And>c. b = Some c \<Longrightarrow> canon (cu_id c) = Some (cu_id c) \<and> cu_id c \<noteq> [] \<and> \<not> is_zero_time (cu_received c)"
    and "list_walk fuel canon now inboxID limit ds j b = Some r"
  shows "\<exists>items. r = Inr items \<and> sorted_wrt (>) (map item_key items) \<and> (\<forall>k \<in> set (map item_key items). before_key b k) \<and>
    (\<forall>k. (\<forall>j. k \<in> set (inbox_keys (now j) i (ds j))) \<longrightarrow> before_key b k \<longrightarrow> k \<in> set (map item_key items))"
  using assms(5,6)
proof (induction fuel arbitrary: j b r)
  case (Suc fuel)
  let ?ks = "filter (before_key b) (inbox_keys (now j) i (ds j))"
  have desc: "sorted_wrt (>) (inbox_keys (now j) i (ds j))" using assms(1)[of j] by (simp add: listable_def inbox_keys_descending)
  have dk: "sorted_wrt (>) (take (nat limit) ?ks)" using sorted_wrt_filter[OF desc] by (simp add: sorted_wrt_take)
  obtain p where p: "service_ListMessages canon (now j) inboxID \<lparr>cpg_limit = limit, cpg_before = b\<rparr> NoFault (ds j) NoFault (ds j) = Inr p"
    and items: "map item_key (cmp_items p) = take (nat limit) ?ks"
    and nxt: "if int (length ?ks) > limit then \<exists>c. cmp_next p = Some c \<and> (cu_received c, cu_id c) = last (take (nat limit) ?ks)
      else cmp_next p = None"
    using service_page[OF assms(1)[of j] assms(2-4) Suc.prems(1)] by metis
  have sub: "\<forall>k \<in> set (take (nat limit) ?ks). before_key b k" using set_take_subset by fastforce
  show ?case
  proof (cases "int (length ?ks) > limit")
    case False
    then have "cmp_next p = None" "take (nat limit) ?ks = ?ks" using nxt by simp_all
    moreover from this(1) have "r = Inr (cmp_items p)" using Suc.prems(2) p by simp
    ultimately have r: "r = Inr (cmp_items p)" and e: "map item_key (cmp_items p) = ?ks" using items by simp_all
    have "k \<in> set ?ks" if "\<forall>j. k \<in> set (inbox_keys (now j) i (ds j))" "before_key b k" for k using that by simp
    moreover have "before_key b k" if "k \<in> set ?ks" for k using that by simp
    ultimately show ?thesis using r sorted_wrt_filter[OF desc, of "before_key b"] unfolding e[symmetric] by blast
  next
    case True
    then obtain c where c: "cmp_next p = Some c" "(cu_received c, cu_id c) = last (take (nat limit) ?ks)" using nxt by auto
    note cv = next_cursor_valid[OF assms(1)[of j] assms(3) True c(2)]
    obtain r' where r': "list_walk fuel canon now inboxID limit ds (Suc j) (Some c) = Some r'"
      using Suc.prems(2) p c(1) by (auto split: option.splits)
    obtain rest where rest: "r' = Inr rest" "sorted_wrt (>) (map item_key rest)" "\<forall>k \<in> set (map item_key rest). before_key (Some c) k"
      "\<forall>k. (\<forall>j. k \<in> set (inbox_keys (now j) i (ds j))) \<longrightarrow> before_key (Some c) k \<longrightarrow> k \<in> set (map item_key rest)"
      using Suc.IH[OF _ r'] cv(1) by auto
    have r: "r = Inr (cmp_items p @ rest)" using Suc.prems(2) p c(1) r' rest(1) by simp
    have low: "(cu_received c, cu_id c) \<le> k" if "k \<in> set (take (nat limit) ?ks)" for k
      unfolding c(2) by (rule descending_last[OF dk that])
    have below: "k < (cu_received c, cu_id c)" if "k \<in> set (map item_key rest)" for k
      using rest(3) that by (auto simp: before_key_def)
    have "sorted_wrt (>) (map item_key (cmp_items p @ rest))"
      unfolding map_append items sorted_wrt_append using dk rest(2) low below by (meson less_le_trans)
    moreover have "before_key b k" if "k \<in> set (map item_key rest)" for k
      using below[OF that] cv(2) by (rule before_key_less)
    moreover have "k \<in> set (map item_key (cmp_items p @ rest))"
      if "\<forall>j. k \<in> set (inbox_keys (now j) i (ds j))" "before_key b k" for k
    proof -
      have "k \<in> set ?ks" using that by simp
      then have "k \<in> set (take (nat limit) ?ks) \<or> k \<in> set (drop (nat limit) ?ks)" by (metis append_take_drop_id set_append UnE)
      then show ?thesis
      proof
        assume "k \<in> set (take (nat limit) ?ks)"
        then show ?thesis unfolding map_append set_append items by (rule UnI1)
      next
        assume "k \<in> set (drop (nat limit) ?ks)"
        then have "k \<in> set (filter (before_key (Some c)) (inbox_keys (now j) i (ds j)))"
          unfolding next_keys[OF desc assms(3) True c(2)] .
        then have "before_key (Some c) k" by simp
        then show ?thesis using rest(4) that(1) unfolding map_append set_append by blast
      qed
    qed
    moreover have "\<forall>k \<in> set (map item_key (cmp_items p)). before_key b k" unfolding items by (rule sub)
    ultimately show ?thesis using r by (intro exI[of _ "cmp_items p @ rest"]) auto
  qed
qed simp

lemma list_walk_terminates:
  assumes "listable canon now i d" and "canon inboxID = Some i" and "0 < limit" and "limit \<le> 100"
    and "\<And>c. b = Some c \<Longrightarrow> canon (cu_id c) = Some (cu_id c) \<and> cu_id c \<noteq> [] \<and> \<not> is_zero_time (cu_received c)"
    and "length (filter (before_key b) (inbox_keys now i d)) < fuel"
  shows "\<exists>items. list_walk fuel canon (\<lambda>_. now) inboxID limit (\<lambda>_. d) j b = Some (Inr items) \<and>
    map item_key items = filter (before_key b) (inbox_keys now i d)"
  using assms(5,6)
proof (induction fuel arbitrary: j b)
  case (Suc fuel)
  let ?ks = "filter (before_key b) (inbox_keys now i d)"
  have desc: "sorted_wrt (>) (inbox_keys now i d)" using assms(1) by (simp add: listable_def inbox_keys_descending)
  obtain p where p: "service_ListMessages canon now inboxID \<lparr>cpg_limit = limit, cpg_before = b\<rparr> NoFault d NoFault d = Inr p"
    and items: "map item_key (cmp_items p) = take (nat limit) ?ks"
    and nxt: "if int (length ?ks) > limit then \<exists>c. cmp_next p = Some c \<and> (cu_received c, cu_id c) = last (take (nat limit) ?ks)
      else cmp_next p = None"
    using service_page[OF assms(1-4) Suc.prems(1)] by metis
  show ?case
  proof (cases "int (length ?ks) > limit")
    case False
    then show ?thesis using p items nxt by simp
  next
    case True
    then obtain c where c: "cmp_next p = Some c" "(cu_received c, cu_id c) = last (take (nat limit) ?ks)" using nxt by auto
    have rest: "filter (before_key (Some c)) (inbox_keys now i d) = drop (nat limit) ?ks"
      by (rule next_keys[OF desc assms(3) True c(2)])
    have "length (drop (nat limit) ?ks) < fuel" using Suc.prems(2) True assms(3) by simp
    then obtain items' where w: "list_walk fuel canon (\<lambda>_. now) inboxID limit (\<lambda>_. d) (Suc j) (Some c) = Some (Inr items')"
      "map item_key items' = drop (nat limit) ?ks"
      using Suc.IH[of "Some c" "Suc j"] next_cursor_valid(1)[OF assms(1,3) True c(2)] rest by auto
    then show ?thesis using p c(1) items by (auto simp: append_take_drop_id)
  qed
qed simp

section \<open>Creating an Inbox\<close>

lemma CreateCapability_frame:
  assumes "CreateCapability canon c e d = (r, d')"
  shows "inboxes d' = inboxes d" and "r = Inr rec \<Longrightarrow> canon (nc_inbox c) = Some (ca_inbox rec)"
proof -
  have sql: "inboxes d1 = inboxes d \<and> (\<forall>row. x = Some row \<longrightarrow> canon (nc_inbox c) = Some (cp_inbox row))"
    if "sql_create_capability canon newid c d = Inr (x, d1)" for newid x d1
    using that by (auto simp: sql_create_capability_def sql_insert_capability_def cap_row_def split: option.splits if_splits)
  have hyd: "hydrateCapabilityRecord row a t = Inr rec \<Longrightarrow> ca_inbox rec = cp_inbox row" for row a t
    by (auto simp: hydrateCapabilityRecord_def split: sum.splits if_splits)
  show "inboxes d' = inboxes d" and "r = Inr rec \<Longrightarrow> canon (nc_inbox c) = Some (ca_inbox rec)"
    using assms sql hyd
    by (auto simp: CreateCapability_def run_stmt_def split: sum.splits fault.splits option.splits prod.splits)
qed

lemma issue_loop_frame:
  assumes "issue_loop sha256 (pg_cap_repo canon) c rnd env i n d = (r, d')"
  shows "inboxes d' = inboxes d \<and> (\<forall>iss. r = Inr iss \<longrightarrow> canon (nc_inbox c) = Some (is_inbox iss))"
  using assms
proof (induction n arbitrary: i d)
  case (Suc n)
  show ?case
  proof (cases "generateToken TokenCapability (Some (rnd i))")
    case (Inr tr)
    obtain token rest where tr: "tr = (token, rest)" by fastforce
    show ?thesis
    proof (cases "token_digest sha256 token")
      case (Inl e)
      then show ?thesis using Suc.prems Inr tr by auto
    next
      case digest: (Inr digest)
      obtain q d1 where q: "CreateCapability canon (c\<lparr>nc_kid := kid token, nc_digest := digest\<rparr>) (env i) d = (q, d1)" by fastforce
      note fr = CreateCapability_frame[OF q]
      show ?thesis
      proof (cases q)
        case (Inl e)
        then show ?thesis using Suc.prems Suc.IH[of "Suc i" d1] Inr tr digest q fr(1)
          by (auto simp: pg_cap_repo_def split: if_splits)
      next
        case rec: (Inr rec)
        then show ?thesis using Suc.prems Inr tr digest q fr(1) fr(2)[OF rec]
          by (auto simp: pg_cap_repo_def issuedCapability_def split: sum.splits)
      qed
    qed
  qed (use Suc.prems in auto)
qed auto

lemma Issue_frame:
  assumes "Issue sha256 canon (pg_cap_repo canon) ctx inboxID scopes expiresAt now rnd env d = (r, d')"
  shows "inboxes d' = inboxes d \<and> (\<forall>iss. r = Inr iss \<longrightarrow> canon inboxID = Some (is_inbox iss))"
  using assms issue_loop_frame by (fastforce simp: Issue_def split: if_splits sum.splits)

text \<open>What one call cannot fake: generated identifiers are canonical and non-empty, and no driver error is an address conflict.\<close>

definition create_env_ok :: "(string \<Rightarrow> string option) \<Rightarrow> create_env \<Rightarrow> bool" where
  "create_env_ok canon env \<longleftrightarrow> (\<forall>j. canon (ce_newid env j) = Some (ce_newid env j)) \<and>
     (\<forall>j. fault_error (ce_fault env j) \<noteq> Some ErrAddressConflict) \<and> (\<forall>j. cap_env_ok canon (ce_issue_env env j))"

definition new_inbox_row :: "string \<Rightarrow> string \<Rightarrow> time \<Rightarrow> time \<Rightarrow> inbox_row" where
  "new_inbox_row newid addr expiresAt now = \<lparr>ib_id = newid, ib_address = addr, ib_status = ''active'', ib_expires = expiresAt,
     ib_created = now, ib_updated = now\<rparr>"

lemma generated_local_valid:
  assumes "generateLocalPart random = Inr l"
  shows "ValidInboxLocalPart l"
proof -
  let ?e = "take 12 random"
  have e: "length ?e = 12" "l = b32_lower ?e"
    using assms by (auto simp: generateLocalPart_def read_full_Inr split: sum.splits)
  have len: "length l = 20" using e by (simp add: length_b32_lower)
  have ch: "in_range CHR ''a'' CHR ''z'' c \<or> in_range CHR ''0'' CHR ''9'' c" if "c \<in> set l" for c
    using b32_lower_chars that e(2) by blast
  have plain: "local_char c \<and> \<not> local_edge_char c \<and> c \<noteq> CHR ''.''" if "c \<in> set l" for c
    using ch[OF that] by (auto simp: local_char_def local_edge_char_def in_range_def)
  have "l \<noteq> []" using len by auto
  then have "\<not> local_edge_char (hd l)" "\<not> local_edge_char (last l)" using plain by simp_all
  moreover have "\<nexists>u v. l = u @ ''..'' @ v" using plain by fastforce
  ultimately show ?thesis using len plain by (simp add: ValidInboxLocalPart_iff list_all_iff)
qed

lemma create_loop_Inr:
  assumes "create_loop env localPart domain expiresAt i n d = (Inr inbox, d')"
    and "\<forall>j. fault_error (ce_fault env j) \<noteq> Some ErrAddressConflict" and "localPart \<noteq> [] \<Longrightarrow> ValidInboxLocalPart localPart"
  shows "\<exists>j l. ValidInboxLocalPart l \<and> (localPart \<noteq> [] \<longrightarrow> l = localPart) \<and>
    inbox = inbox_of (new_inbox_row (ce_newid env j) (l @ ''@'' @ domain) expiresAt (ce_now env)) \<and>
    sql_insert_inbox (ce_newid env j) \<lparr>ni_address = l @ ''@'' @ domain, ni_expires = expiresAt, ni_created = ce_now env\<rparr> d = Inr (inbox, d') \<and>
    d' = d\<lparr>inboxes := inboxes d @ [new_inbox_row (ce_newid env j) (l @ ''@'' @ domain) expiresAt (ce_now env)]\<rparr>"
  using assms(1)
proof (induction n arbitrary: i)
  case (Suc n)
  obtain l where l: "(if localPart = [] then generateLocalPart (ce_random env i) else Inr localPart) = Inr l"
    using Suc.prems by (auto split: sum.splits)
  then have valid: "ValidInboxLocalPart l" "localPart \<noteq> [] \<longrightarrow> l = localPart"
    using assms(3) generated_local_valid by (auto split: if_splits)
  let ?ni = "\<lparr>ni_address = l @ ''@'' @ domain, ni_expires = expiresAt, ni_created = ce_now env\<rparr>"
  obtain q d1 where q: "CreateInbox (ce_newid env i) ?ni (ce_fault env i) d = (q, d1)" by fastforce
  show ?case
  proof (cases q)
    case (Inl e)
    then have "e = ErrAddressConflict" and rec: "create_loop env localPart domain expiresAt (Suc i) n d1 = (Inr inbox, d')"
      using Suc.prems l q by (auto split: if_splits)
    moreover have "d1 = d"
      using q Inl \<open>e = ErrAddressConflict\<close> assms(2)[rule_format, of i]
      by (cases "ce_fault env i") (auto simp: CreateInbox_def run_stmt_def split: sum.splits)
    ultimately show ?thesis using Suc.IH[of "Suc i"] by simp
  next
    case (Inr ib)
    then have ib: "inbox = ib" "d' = d1" using Suc.prems l q by (auto split: if_splits)
    have "sql_insert_inbox (ce_newid env i) ?ni d = Inr (ib, d1)"
      using q Inr by (auto simp: CreateInbox_def run_stmt_def split: fault.splits sum.splits)
    then show ?thesis using ib valid
      by (auto simp: sql_insert_inbox_def Let_def new_inbox_row_def split: if_splits intro!: exI[of _ i] exI[of _ l])
  qed
qed simp

lemma find_append: "find P (xs @ ys) = (case find P xs of None \<Rightarrow> find P ys | Some x \<Rightarrow> Some x)"
  by (induction xs) simp_all

lemma cap_good_new_inbox:
  assumes "cap_good canon d" and "sql_insert_inbox newid c d = Inr (x, d')"
  shows "cap_good canon d'"
proof -
  have wf: "db_wf d" "db_wf d'" using assms sql_insert_inbox_wf by (auto simp: cap_good_def)
  have "cp_inbox c \<in> ib_id ` set (inboxes d)" if "c \<in> set (capabilities d)" for c
    using that wf(1) by (auto simp: db_wf_def wf_capabilities_def list_all_iff)
  then show ?thesis using assms wf(2)
    by (fastforce simp: cap_good_def sql_insert_inbox_def Let_def split: if_splits)
qed

lemma owner_scopes:
  "NewScopeSet [ScopeInboxRead, ScopeInboxDelete, ScopeMessageRead, ScopeMessageUpdate, ScopeMessageDelete] = Inr 31"
  "set required \<subseteq> set all_scopes \<Longrightarrow> scopes_has 31 required"
proof -
  show "NewScopeSet [ScopeInboxRead, ScopeInboxDelete, ScopeMessageRead, ScopeMessageUpdate, ScopeMessageDelete] = Inr 31"
    by code_simp
  show "scopes_has 31 required" if "set required \<subseteq> set all_scopes"
    using that by (auto simp: scopes_has_iff all_scopes_def scope_consts)
qed

lemma Create_Inr:
  assumes "Create sha256 canon sv env request d = (Inr created, d')"
    and "\<forall>j. fault_error (ce_fault env j) \<noteq> Some ErrAddressConflict"
  obtains l domain lifetime j d1 where "domain \<in> set (sv_domains sv)" and "0 < lifetime" and "lifetime \<le> sv_max_ttl sv" and "ValidInboxLocalPart l"
    and "ci_inbox created = inbox_of (new_inbox_row (ce_newid env j) (l @ ''@'' @ domain) (ce_now env + lifetime) (ce_now env))"
    and "sql_insert_inbox (ce_newid env j) \<lparr>ni_address = l @ ''@'' @ domain, ni_expires = ce_now env + lifetime, ni_created = ce_now env\<rparr> d =
      Inr (ci_inbox created, d1)"
    and "d1 = d\<lparr>inboxes := inboxes d @ [new_inbox_row (ce_newid env j) (l @ ''@'' @ domain) (ce_now env + lifetime) (ce_now env)]\<rparr>"
    and "Issue sha256 canon (pg_cap_repo canon) (ce_ctx env) (in_id (ci_inbox created)) 31 (ce_now env + lifetime) (ce_issue_now env)
      (ce_issue_random env) (ce_issue_env env) d1 = (Inr (ci_capability created), d')"
proof -
  define domain where "domain = (let d0 = to_lower (trim_space (cq_domain request)) in if d0 = [] then hd (sv_domains sv) else d0)"
  define lifetime where "lifetime = (if cq_lifetime request = 0 then sv_default_ttl sv else cq_lifetime request)"
  define loc where "loc = to_lower (trim_space (cq_local request))"
  have guards: "domain \<in> set (sv_domains sv)" "0 < lifetime" "lifetime \<le> sv_max_ttl sv" "loc \<noteq> [] \<Longrightarrow> ValidInboxLocalPart loc"
    using assms(1) by (auto simp: Create_def Let_def domain_def lifetime_def loc_def split: if_splits)
  then have g4: "(to_lower (trim_space (cq_local request)) \<noteq> [] \<and> \<not> ValidInboxLocalPart (to_lower (trim_space (cq_local request)))) = False"
    unfolding loc_def by blast
  let ?loop = "create_loop env loc domain (ce_now env + lifetime) 0 (if loc \<noteq> [] then 1 else maxAddressGenerationAttempts) d"
  obtain q d1 where q: "?loop = (q, d1)" by fastforce
  have body: "Create sha256 canon sv env request d =
     (case q of
        Inl e \<Rightarrow> (Inl e, d1)
      | Inr inbox \<Rightarrow>
          (case Issue sha256 canon (pg_cap_repo canon) (ce_ctx env) (in_id inbox) 31 (ce_now env + lifetime) (ce_issue_now env)
             (ce_issue_random env) (ce_issue_env env) d1 of
             (Inr capability, d2) \<Rightarrow> (Inr \<lparr>ci_inbox = inbox, ci_capability = capability\<rparr>, d2)
           | (Inl e, d2) \<Rightarrow>
               (case DeleteInbox canon (ce_delete_now env) (ce_delete_clock env) (in_id inbox) (ce_delete_fault env) d2 of
                  (_, d3) \<Rightarrow> (Inl e, d3))))"
    unfolding Create_def Let_def owner_scopes(1) g4
    using guards(1-3) q[unfolded domain_def Let_def lifetime_def loc_def]
    by (simp add: domain_def lifetime_def loc_def Let_def split: sum.splits)
  then obtain inbox where inbox: "q = Inr inbox" using assms(1) by (cases q) auto
  then have iss: "Issue sha256 canon (pg_cap_repo canon) (ce_ctx env) (in_id inbox) 31 (ce_now env + lifetime) (ce_issue_now env)
      (ce_issue_random env) (ce_issue_env env) d1 = (Inr (ci_capability created), d')" and "ci_inbox created = inbox"
    using assms(1) body by (auto split: prod.splits sum.splits)
  then show thesis
    using that[OF guards(1-3)] create_loop_Inr[OF q[unfolded inbox] assms(2) guards(4)] by blast
qed

text \<open>
  C30. A created Inbox is usable at once: its address has a valid local part under an allowlisted domain, its lifetime is
  positive and within the configured maximum, and until it expires mail for the address resolves to it, the service
  returns it, and the returned capability authenticates as its owner for every scope.
\<close>

theorem created_inbox_is_usable:
  assumes "cap_good canon d" and "create_env_ok canon env"
    and "Create sha256 canon sv env request d = (Inr created, d')"
    and "ctx' \<noteq> NilCtx" and "later < in_expires (ci_inbox created)" and "set required \<subseteq> set all_scopes"
  shows "cap_good canon d' \<and>
    (\<exists>l domain. in_address (ci_inbox created) = l @ ''@'' @ domain \<and> ValidInboxLocalPart l \<and> domain \<in> set (sv_domains sv)) \<and>
    ce_now env < in_expires (ci_inbox created) \<and> in_expires (ci_inbox created) \<le> ce_now env + sv_max_ttl sv \<and>
    ResolveInbox None later (in_address (ci_inbox created)) NoFault d' = Inr (in_id (ci_inbox created)) \<and>
    service_Get canon later (in_id (ci_inbox created)) NoFault d' = Inr (ci_inbox created) \<and>
    (\<exists>p. Authenticate sha256 (pg_cap_repo canon) ctx' (is_plaintext (ci_capability created)) required later cap_quiet d' = Inr p \<and>
       pc_inbox p = in_id (ci_inbox created) \<and> pc_expires p = in_expires (ci_inbox created))"
proof -
  have nf: "\<forall>j. fault_error (ce_fault env j) \<noteq> Some ErrAddressConflict" and cn: "\<And>j. canon (ce_newid env j) = Some (ce_newid env j)"
    and ce: "\<And>j. cap_env_ok canon (ce_issue_env env j)" using assms(2) by (auto simp: create_env_ok_def)
  obtain l domain lifetime j d1 where c: "domain \<in> set (sv_domains sv)" "0 < lifetime" "lifetime \<le> sv_max_ttl sv" "ValidInboxLocalPart l"
    and ib: "ci_inbox created = inbox_of (new_inbox_row (ce_newid env j) (l @ ''@'' @ domain) (ce_now env + lifetime) (ce_now env))"
    and ins: "sql_insert_inbox (ce_newid env j) \<lparr>ni_address = l @ ''@'' @ domain, ni_expires = ce_now env + lifetime, ni_created = ce_now env\<rparr> d =
      Inr (ci_inbox created, d1)"
    and d1: "d1 = d\<lparr>inboxes := inboxes d @ [new_inbox_row (ce_newid env j) (l @ ''@'' @ domain) (ce_now env + lifetime) (ce_now env)]\<rparr>"
    and iss: "Issue sha256 canon (pg_cap_repo canon) (ce_ctx env) (in_id (ci_inbox created)) 31 (ce_now env + lifetime) (ce_issue_now env)
      (ce_issue_random env) (ce_issue_env env) d1 = (Inr (ci_capability created), d')"
    by (rule Create_Inr[OF assms(3) nf]) blast
  let ?row = "new_inbox_row (ce_newid env j) (l @ ''@'' @ domain) (ce_now env + lifetime) (ce_now env)"
  have exp: "later < ce_now env + lifetime" using assms(5) ib by (simp add: inbox_of_def new_inbox_row_def)
  note auth = pg.issued_authenticates[OF cap_good_new_inbox[OF assms(1) ins] ce iss assms(4) exp owner_scopes(2)[OF assms(6)]]
  have fr: "inboxes d' = inboxes d @ [?row]" "is_inbox (ci_capability created) = ce_newid env j"
    using Issue_frame[OF iss] cn[of j] ib by (auto simp: d1 inbox_of_def new_inbox_row_def)
  have fresh: "ce_newid env j \<notin> ib_id ` set (inboxes d)" "l @ ''@'' @ domain \<notin> ib_address ` set (inboxes d)"
    using ins by (auto simp: sql_insert_inbox_def Let_def split: if_splits)
  have live: "live_inbox later (ce_newid env j) d' = Some ?row" "live_by_address later (l @ ''@'' @ domain) d' = Some ?row"
    using fresh exp by (auto simp: live_inbox_def live_by_address_def fr(1) find_append inbox_live_def new_inbox_row_def
        dest!: find_SomeD split: option.splits) (metis rev_image_eqI)+
  have "ResolveInbox None later (in_address (ci_inbox created)) NoFault d' = Inr (in_id (ci_inbox created))"
    using live(2) ib by (simp add: ResolveInbox_def ResolveInboxForDelivery_def resolveInbox_def run_stmt_def query_def inbox_of_def new_inbox_row_def)
  moreover have "service_Get canon later (in_id (ci_inbox created)) NoFault d' = Inr (ci_inbox created)"
    using live(1) ib cn[of j] by (simp add: service_Get_def GetInbox_def run_stmt_def with_uuid_def query_def inbox_of_def new_inbox_row_def)
  ultimately show ?thesis using auth fr(2) c ib by (auto simp: inbox_of_def new_inbox_row_def)
qed

text \<open>
  C29. Keyset pagination neither skips nor repeats: following the cursors through any sequence of database snapshots, the
  walk never fails, lists messages strictly newest first without repetition, and shows every message that is in the
  Inbox throughout, also when other messages arrive or are deleted between the pages. On an unchanged Inbox the walk
  ends after finitely many pages with exactly the messages of the Inbox.
\<close>

theorem pagination_complete:
  assumes "\<And>j. listable canon (now j) i (ds j)" and "canon inboxID = Some i" and "0 < limit" and "limit \<le> 100"
  shows "(list_walk fuel canon now inboxID limit ds 0 None = Some r \<longrightarrow>
      (\<exists>items. r = Inr items \<and> sorted_wrt (>) (map item_key items) \<and>
         (\<forall>k. (\<forall>j. k \<in> set (inbox_keys (now j) i (ds j))) \<longrightarrow> k \<in> set (map item_key items)))) \<and>
    (\<exists>items. list_walk (Suc (length (inbox_keys (now 0) i (ds 0)))) canon (\<lambda>_. now 0) inboxID limit (\<lambda>_. ds 0) 0 None = Some (Inr items) \<and>
       map item_key items = inbox_keys (now 0) i (ds 0))"
proof -
  have none: "before_key None = (\<lambda>_. True)" by (rule ext) (simp add: before_key_def)
  have "\<exists>items. list_walk (Suc (length (inbox_keys (now 0) i (ds 0)))) canon (\<lambda>_. now 0) inboxID limit (\<lambda>_. ds 0) 0 None = Some (Inr items) \<and>
       map item_key items = inbox_keys (now 0) i (ds 0)"
    using list_walk_terminates[OF assms(1)[of 0] assms(2-4), of None "Suc (length (inbox_keys (now 0) i (ds 0)))" 0] by (simp add: none)
  moreover have "\<exists>items. r = Inr items \<and> sorted_wrt (>) (map item_key items) \<and>
         (\<forall>k. (\<forall>j. k \<in> set (inbox_keys (now j) i (ds j))) \<longrightarrow> k \<in> set (map item_key items))"
    if "list_walk fuel canon now inboxID limit ds 0 None = Some r"
    using list_walk_snapshots[OF assms _ that] by (simp add: none)
  ultimately show ?thesis by blast
qed

section \<open>Concrete instances\<close>

definition sample_service :: mailbox_service where
  "sample_service = \<lparr>sv_domains = [''b''], sv_default_ttl = 50, sv_max_ttl = 100, sv_has_parser = False\<rparr>"

definition sample_create_env :: create_env where
  "sample_create_env = \<lparr>ce_now = 10, ce_random = (\<lambda>_. replicate 12 CHR ''x''), ce_newid = (\<lambda>_. ''i1''), ce_fault = (\<lambda>_. NoFault),
     ce_ctx = Ctx None, ce_issue_now = 11, ce_issue_random = (\<lambda>_. replicate 44 CHR ''x''), ce_issue_env = (\<lambda>_. cap_sample_env ''c1''),
     ce_delete_now = 12, ce_delete_clock = 12, ce_delete_fault = (\<lambda>_. NoFault)\<rparr>"

definition sample_created :: "created_inbox result \<times> db" where
  "sample_created = Create cap_sha cap_canon sample_service sample_create_env \<lparr>cq_domain = [], cq_local = ''abc'', cq_lifetime = 0\<rparr> empty_db"

definition sample_created_db :: db where
  "sample_created_db = empty_db\<lparr>inboxes := [new_inbox_row ''i1'' ''abc@b'' 60 10]\<rparr>"

definition sample_owner_issue :: "issued_capability result \<times> db" where
  "sample_owner_issue = Issue cap_sha cap_canon (pg_cap_repo cap_canon) (Ctx None) ''i1'' 31 60 11 (\<lambda>_. replicate 44 CHR ''x'')
     (\<lambda>_. cap_sample_env ''c1'') sample_created_db"

lemma sample_request_parts:
  "to_lower (trim_space ''abc'') = ''abc''" "to_lower (trim_space []) = []" "ValidInboxLocalPart ''abc''" "address_canonical ''abc@b''"
  by code_simp+

lemma sample_owner_issue_Inr: "\<exists>x d. sample_owner_issue = (Inr x, d)"
  by (rule not_isl_pair) code_simp

lemma sample_created_db_good: "cap_good cap_canon sample_created_db"
  by (auto simp: cap_good_def db_wf_def wf_tables sample_created_db_def empty_db_def List.map_filter_simps cap_canon_def new_inbox_row_def
      sample_request_parts split: if_splits)

lemma cap_good_wf: "cap_good canon d \<Longrightarrow> db_wf d"
  by (simp add: cap_good_def)

lemma sample_owner_good:
  assumes "sample_owner_issue = (Inr iss, d)"
  shows "cap_good cap_canon d"
proof -
  have e: "cap_env_ok cap_canon (cap_sample_env ''c1'')" by (rule cap_sample_env_ok) simp
  have s: "scopes_has (31 :: 32 word) [1]" by code_simp
  show ?thesis
    using pg.issued_authenticates [OF sample_created_db_good e assms [unfolded sample_owner_issue_def], of "Ctx None" 20 "[1]"] s by auto
qed

lemma sample_created_Inr: "\<exists>c d. sample_created = (Inr c, d) \<and> in_expires (ci_inbox c) = 60"
proof -
  obtain x d where "sample_owner_issue = (Inr x, d)" using sample_owner_issue_Inr by blast
  then have "sample_created = (Inr \<lparr>ci_inbox = inbox_of (new_inbox_row ''i1'' ''abc@b'' 60 10), ci_capability = x\<rparr>, d)"
    by (simp add: sample_created_def Create_def sample_service_def sample_create_env_def Let_def sample_request_parts owner_scopes(1)
        CreateInbox_def run_stmt_def sql_insert_inbox_def inbox_of_def new_inbox_row_def sample_owner_issue_def sample_created_db_def empty_db_def)
  then show ?thesis by (intro exI conjI) (assumption, simp add: inbox_of_def new_inbox_row_def)
qed

theorem created_inbox_is_usable_witness:
  "\<exists>c d p. sample_created = (Inr c, d) \<and>
     Authenticate cap_sha (pg_cap_repo cap_canon) (Ctx None) (is_plaintext (ci_capability c)) [ScopeMessageRead] 20 cap_quiet d = Inr p \<and>
     pc_inbox p = in_id (ci_inbox c)"
proof -
  obtain c d where c: "sample_created = (Inr c, d)" "in_expires (ci_inbox c) = 60"
    using sample_created_Inr by blast
  have good: "cap_good cap_canon empty_db" "create_env_ok cap_canon sample_create_env"
    using cap_sample_env_ok[of "''c1''"] db_wf_empty
    by (auto simp: cap_good_def empty_db_def cap_canon_def create_env_ok_def sample_create_env_def split: if_splits)
  show ?thesis
    using created_inbox_is_usable[OF good c(1)[unfolded sample_created_def], of "Ctx None" 20 "[ScopeMessageRead]"] c
    by (auto simp: all_scopes_def)
qed

definition sample_list_db :: db where
  "sample_list_db = sample_mail_db\<lparr>messages :=
     [\<lparr>ms_id = ''m1'', ms_inbox = ''i1'', ms_content = sample_key, ms_sender = [], ms_received = 10, ms_seen = None\<rparr>,
      \<lparr>ms_id = ''m2'', ms_inbox = ''i1'', ms_content = sample_key, ms_sender = [], ms_received = 10, ms_seen = None\<rparr>]\<rparr>"

lemma sample_listable: "listable Some 12 ''i1'' sample_list_db"
proof -
  have rows: "''i1'' \<in> ib_id ` set (inboxes sample_mail_db)" "sample_key \<in> mc_key ` set (mail_contents sample_mail_db)"
    by (simp_all add: sample_mail_db_def delivered_def sample_db_def empty_db_def find_content_def sample_delivery_def new_content_row_def)
  have "db_wf sample_list_db" unfolding sample_list_db_def
    by (rule db_wf_messages[OF sample_mail_db_wf]) (use rows in \<open>simp add: wf_messages_def\<close>)
  then show ?thesis
    by (auto simp: listable_def list_rows_def sample_list_db_def is_zero_time_def zero_time_def)
qed

theorem pagination_complete_witness:
  "\<exists>items. list_walk (Suc (length (inbox_keys 12 ''i1'' sample_list_db))) Some (\<lambda>_. 12) ''i1'' 1 (\<lambda>_. sample_list_db) 0 None = Some (Inr items) \<and>
     map item_key items = inbox_keys 12 ''i1'' sample_list_db"
  using pagination_complete[where now = "\<lambda>_. 12" and ds = "\<lambda>_. sample_list_db" and inboxID = "''i1''" and limit = 1, OF sample_listable]
  by simp

end
