(* ===== verification/Message_Cursor.thy ===== *)
theory Message_Cursor
  imports Browser_Session Mailbox_Service
begin

text \<open>
  \<^verbatim>\<open>internal/httpapi/message_cursor.go\<close>: the opaque text form of a message cursor, a version byte, the time in
  microseconds and the 16 bytes of a version 7 UUID in unpadded URL-safe base64.
\<close>

definition messageCursorVersion :: char where "messageCursorVersion = CHR 0x01"
definition messageCursorBytes :: nat where "messageCursorBytes = 1 + 8 + 16"
definition minimumCursorTime :: time where "minimumCursorTime = - 62135596800 * second_ns"
definition maximumCursorTime :: time where "maximumCursorTime = 253402300799 * second_ns + 999999000"

text \<open>The test both directions apply to the time of a cursor.\<close>

definition cursor_time_invalid :: "time \<Rightarrow> bool" where
  "cursor_time_invalid t \<longleftrightarrow> is_zero_time t \<or> t < minimumCursorTime \<or> t > maximumCursorTime"

definition encodeMessageCursor :: "uuid_lib \<Rightarrow> (bytes \<Rightarrow> nat) \<Rightarrow> message_cursor \<Rightarrow> string result" where
  "encodeMessageCursor U version cursor =
     (case ul_parse U (cu_id cursor) of
        None \<Rightarrow> Inl (OtherError ''message cursor ID is invalid'')
      | Some identifier \<Rightarrow>
          if version identifier \<noteq> 7 then Inl (OtherError ''message cursor ID is invalid'')
          else
            let receivedAt = cu_received cursor - cu_received cursor mod 1000 in
            if cursor_time_invalid receivedAt then Inl (OtherError ''message cursor time is invalid'')
            else Inr (b64_encode ([messageCursorVersion] @ be64_encode (word_of_int (receivedAt div 1000)) @ identifier)))"

definition decodeMessageCursor :: "uuid_lib \<Rightarrow> (bytes \<Rightarrow> nat) \<Rightarrow> string \<Rightarrow> message_cursor option result" where
  "decodeMessageCursor U version raw =
     (if raw = [] then Inr None
      else case b64_decode False raw of
          None \<Rightarrow> Inl (OtherError ''message cursor is invalid'')
        | Some payload \<Rightarrow>
            if length payload \<noteq> messageCursorBytes \<or> hd payload \<noteq> messageCursorVersion then Inl (OtherError ''message cursor is invalid'')
            else
              let unixMicros = sint (be64_decode (take 8 (drop 1 payload))); receivedAt = unixMicros * 1000 in
              if cursor_time_invalid receivedAt then Inl (OtherError ''message cursor time is invalid'')
              else
                let identifier = drop 9 payload in
                if version identifier \<noteq> 7 then Inl (OtherError ''message cursor ID is invalid'')
                else Inr (Some \<lparr>cu_received = receivedAt, cu_id = ul_string U identifier\<rparr>))"

text \<open>
  Cursors survive the trip through a client: the text form of a page boundary is read back as the same boundary, for
  every time PostgreSQL can store (a multiple of a microsecond) and every canonical identifier; and a cursor that is
  read is always one that the listing service accepts.
\<close>

theorem cursor_roundtrip:
  assumes "\<forall>s b. ul_parse U s = Some b \<longrightarrow> length b = 16" and "\<forall>b. ul_string U b \<noteq> []"
  shows "(encodeMessageCursor U version c = Inr raw \<longrightarrow>
      (\<exists>b. ul_parse U (cu_id c) = Some b \<and>
         decodeMessageCursor U version raw = Inr (Some \<lparr>cu_received = cu_received c - cu_received c mod 1000, cu_id = ul_string U b\<rparr>) \<and>
         (cu_received c mod 1000 = 0 \<and> ul_string U b = cu_id c \<longrightarrow> decodeMessageCursor U version raw = Inr (Some c)))) \<and>
    (decodeMessageCursor U version text' = Inr (Some c') \<longrightarrow> cu_id c' \<noteq> [] \<and> \<not> is_zero_time (cu_received c'))"
proof -
  have fwd: "\<exists>b. ul_parse U (cu_id c) = Some b \<and>
      decodeMessageCursor U version raw = Inr (Some \<lparr>cu_received = cu_received c - cu_received c mod 1000, cu_id = ul_string U b\<rparr>)"
    if enc: "encodeMessageCursor U version c = Inr raw"
  proof -
    let ?t = "cu_received c - cu_received c mod 1000"
    obtain b where b: "ul_parse U (cu_id c) = Some b" "version b = 7" "\<not> cursor_time_invalid ?t"
      "raw = b64_encode ([messageCursorVersion] @ be64_encode (word_of_int (?t div 1000)) @ b)"
      using enc by (auto simp: encodeMessageCursor_def Let_def split: option.splits if_splits)
    have len: "length b = 16" using assms(1) b(1) by blast
    have "- (2 ^ 63) \<le> ?t div 1000" "?t div 1000 < 2 ^ 63"
      using b(3) by (auto simp: cursor_time_invalid_def minimumCursorTime_def maximumCursorTime_def second_ns_def)
    then have sint: "sint (word_of_int (?t div 1000) :: 64 word) = ?t div 1000"
      by (simp add: signed_of_int signed_take_bit_int_eq_self)
    have "?t div 1000 * 1000 = ?t" by (simp add: minus_mod_eq_mult_div)
    moreover have "raw \<noteq> []" by (simp add: b(4) b64_encode_Nil)
    ultimately show ?thesis using b sint len
      by (simp add: decodeMessageCursor_def Let_def messageCursorBytes_def)
  qed
  have "cu_id c' \<noteq> [] \<and> \<not> is_zero_time (cu_received c')" if "decodeMessageCursor U version text' = Inr (Some c')"
    using that assms(2) by (auto simp: decodeMessageCursor_def Let_def cursor_time_invalid_def split: option.splits if_splits)
  then show ?thesis using fwd by auto
qed

definition cursor_uuid_lib :: uuid_lib where
  "cursor_uuid_lib = \<lparr>ul_parse = (\<lambda>s. if length s = 16 then Some s else None), ul_string = (\<lambda>b. if b = [] then ''?'' else b)\<rparr>"

definition sample_cursor :: message_cursor where
  "sample_cursor = \<lparr>cu_received = 5000, cu_id = replicate 16 CHR ''m''\<rparr>"

theorem cursor_roundtrip_witness:
  "\<exists>raw. encodeMessageCursor cursor_uuid_lib (\<lambda>_. 7) sample_cursor = Inr raw \<and>
     decodeMessageCursor cursor_uuid_lib (\<lambda>_. 7) raw = Inr (Some sample_cursor)"
proof -
  obtain raw where raw: "encodeMessageCursor cursor_uuid_lib (\<lambda>_. 7) sample_cursor = Inr raw"
    by (simp add: encodeMessageCursor_def cursor_uuid_lib_def sample_cursor_def cursor_time_invalid_def is_zero_time_def zero_time_def
        minimumCursorTime_def maximumCursorTime_def second_ns_def Let_def)
  have u: "\<forall>s b. ul_parse cursor_uuid_lib s = Some b \<longrightarrow> length b = 16" "\<forall>b. ul_string cursor_uuid_lib b \<noteq> []"
    by (auto simp: cursor_uuid_lib_def split: if_splits)
  show ?thesis using cursor_roundtrip[OF u, of "\<lambda>_. 7" sample_cursor raw] raw
    by (auto simp: cursor_uuid_lib_def sample_cursor_def split: if_splits)
qed

end
