(* ===== verification/Net_Addr.thy ===== *)
theory Net_Addr
  imports Wisp_Codec
begin

text \<open>
  The parts of the package \<^verbatim>\<open>net\<close> the HTTP server and the configuration use: \<^verbatim>\<open>ParseIP\<close>,
  \<^verbatim>\<open>ParseCIDR\<close>, \<^verbatim>\<open>IPNet.Contains\<close> and \<^verbatim>\<open>SplitHostPort\<close>. An address is its 16 bytes, an
  IPv4 address the mapped form, as \<^verbatim>\<open>net.IP\<close> has it. A zone makes both parsers fail, so
  every text with a percent sign is refused.
\<close>

unbundle bit_operations_syntax

section \<open>Addresses\<close>

text \<open>The loop over the fields of a dotted address: value and number of digits of the current field.\<close>

fun parseIPv4Fields :: "nat \<Rightarrow> nat \<Rightarrow> bytes \<Rightarrow> string \<Rightarrow> bytes option" where
  "parseIPv4Fields v n acc [] = (if length acc < 3 then None else Some (acc @ [char_of v]))"
| "parseIPv4Fields v n acc (c # s) =
     (if is_digit c then
        (if n = 1 \<and> v = 0 then None
         else if v * 10 + (of_char c - 48) > 255 then None
         else parseIPv4Fields (v * 10 + (of_char c - 48)) (Suc n) acc s)
      else if c = CHR ''.'' then
        (if n = 0 \<or> s = [] \<or> length acc = 3 then None else parseIPv4Fields 0 0 (acc @ [char_of v]) s)
      else None)"

definition hex_value :: "string \<Rightarrow> nat" where
  "hex_value s = foldl (\<lambda>acc c. acc * 16 + the (hex_val c)) 0 s"

text \<open>
  One round of the loop over the groups of an IPv6 address: the position of the ellipsis,
  the bytes so far and the rest of the text; the flag says that the loop goes on.
\<close>

definition parseIPv6Group :: "nat option \<Rightarrow> bytes \<Rightarrow> string \<Rightarrow> ((nat option \<times> bytes \<times> string) \<times> bool) option" where
  "parseIPv6Group ell acc s =
     (let h = takeWhile (\<lambda>c. hex_val c \<noteq> None) s; r = drop (length h) s;
          acc' = acc @ [char_of (hex_value h div 256), char_of (hex_value h mod 256)] in
      if h = [] \<or> 4 < length h then None
      else if r \<noteq> [] \<and> hd r = CHR ''.'' then
        (if (ell = None \<and> length acc \<noteq> 12) \<or> 12 < length acc then None
         else map_option (\<lambda>f. ((ell, acc @ f, []), False)) (parseIPv4Fields 0 0 [] s))
      else if r = [] then Some ((ell, acc', []), False)
      else if hd r \<noteq> CHR '':'' \<or> tl r = [] then None
      else if hd (tl r) = CHR '':'' then
        (if ell \<noteq> None then None else Some ((Some (length acc'), acc', tl (tl r)), tl (tl r) \<noteq> []))
      else Some ((ell, acc', tl r), True))"

lemma parseIPv6Group_continues: "parseIPv6Group ell acc s = Some ((ell', acc', s'), True) \<Longrightarrow> length acc' = length acc + 2"
  by (auto simp: parseIPv6Group_def Let_def split: if_splits)

function parseIPv6Groups :: "nat option \<Rightarrow> bytes \<Rightarrow> string \<Rightarrow> (nat option \<times> bytes \<times> string) option" where
  "parseIPv6Groups ell acc s =
     (if 16 \<le> length acc then Some (ell, acc, s)
      else case parseIPv6Group ell acc s of
          None \<Rightarrow> None
        | Some ((ell', acc', s'), goes_on) \<Rightarrow> if goes_on then parseIPv6Groups ell' acc' s' else Some (ell', acc', s'))"
  by pat_completeness auto
termination
  by (relation "measure (\<lambda>(ell, acc, s). 16 - length acc)") (auto dest: parseIPv6Group_continues)

declare parseIPv6Groups.simps [simp del]

definition parseIPv6 :: "string \<Rightarrow> bytes option" where
  "parseIPv6 s =
     (let lead = (take 2 s = ''::''); rest = (if lead then drop 2 s else s) in
      if lead \<and> rest = [] then Some (replicate 16 (CHR 0x00))
      else case parseIPv6Groups (if lead then Some 0 else None) [] rest of
          None \<Rightarrow> None
        | Some (ell, ip, r) \<Rightarrow>
            if r \<noteq> [] then None
            else case ell of
                None \<Rightarrow> if length ip < 16 then None else Some ip
              | Some e \<Rightarrow> if 16 \<le> length ip then None
                          else Some (take e ip @ replicate (16 - length ip) (CHR 0x00) @ drop e ip))"

definition v4InV6Prefix :: bytes where
  "v4InV6Prefix = replicate 10 (CHR 0x00) @ [CHR 0xFF, CHR 0xFF]"

text \<open>\<^verbatim>\<open>netip.ParseAddr\<close> without zones; the flag tells an IPv4 address.\<close>

definition ParseAddr :: "string \<Rightarrow> (bool \<times> bytes) option" where
  "ParseAddr s =
     (if CHR 0x25 \<in> set s then None
      else case dropWhile (\<lambda>c. c \<noteq> CHR ''.'' \<and> c \<noteq> CHR '':'') s of
          [] \<Rightarrow> None
        | c # _ \<Rightarrow> if c = CHR ''.'' then map_option (\<lambda>f. (True, v4InV6Prefix @ f)) (parseIPv4Fields 0 0 [] s)
                  else map_option (Pair False) (parseIPv6 s))"

definition ParseIP :: "string \<Rightarrow> bytes option" where
  "ParseIP s = map_option snd (ParseAddr s)"

definition To4 :: "bytes \<Rightarrow> bytes option" where
  "To4 ip = (if length ip = 4 then Some ip
     else if length ip = 16 \<and> take 12 ip = v4InV6Prefix then Some (drop 12 ip) else None)"

section \<open>Networks\<close>

record ipnet =
  nt_ip :: bytes
  nt_mask :: bytes

text \<open>\<^verbatim>\<open>net.CIDRMask\<close>: the bytes of the mask, most significant bits first.\<close>

definition CIDRMask :: "nat \<Rightarrow> nat \<Rightarrow> bytes" where
  "CIDRMask ones bits = map (\<lambda>i. char_of (256 - 2 ^ (8 - min 8 (ones - 8 * i)) :: nat)) [0..<bits div 8]"

definition and_byte :: "char \<Rightarrow> char \<Rightarrow> char" where
  "and_byte a b = char_of (unat ((word_of_nat (of_char a) :: 8 word) AND word_of_nat (of_char b)))"

text \<open>\<^verbatim>\<open>IP.Mask\<close> for a mask of 4 bytes on a mapped address or of 16 bytes.\<close>

definition ip_Mask :: "bytes \<Rightarrow> bytes \<Rightarrow> bytes" where
  "ip_Mask ip m = map2 and_byte (if length m = 4 \<and> length ip = 16 \<and> take 12 ip = v4InV6Prefix then drop 12 ip else ip) m"

text \<open>\<^verbatim>\<open>dtoi\<close>: decimal digits only, below the bound \<^verbatim>\<open>0xFFFFFF\<close>.\<close>

definition prefix_bits :: "string \<Rightarrow> nat option" where
  "prefix_bits s = (if s = [] then None else
     case digits_value 0 s of None \<Rightarrow> None | Some n \<Rightarrow> if n < 0xFFFFFF then Some n else None)"

definition ParseCIDR :: "string \<Rightarrow> ipnet option" where
  "ParseCIDR s =
     (case cut s (CHR ''/'') of (addr, mask', found) \<Rightarrow>
        if \<not> found then None
        else case ParseAddr addr of
            None \<Rightarrow> None
          | Some (v4, ip) \<Rightarrow>
              let bits = (if v4 then 32 else 128) in
              (case prefix_bits mask' of
                 None \<Rightarrow> None
               | Some n \<Rightarrow> if n > bits then None
                   else Some \<lparr>nt_ip = ip_Mask ip (CIDRMask n bits), nt_mask = CIDRMask n bits\<rparr>))"

definition Contains :: "ipnet \<Rightarrow> bytes \<Rightarrow> bool" where
  "Contains n ip =
     (let nn = (case To4 (nt_ip n) of Some x \<Rightarrow> x | None \<Rightarrow> nt_ip n);
          m = (if length (nt_mask n) = 16 \<and> length nn = 4 then drop 12 (nt_mask n) else nt_mask n);
          x = (case To4 ip of Some y \<Rightarrow> y | None \<Rightarrow> ip)
      in length m = length nn \<and> length x = length nn \<and> map2 and_byte nn m = map2 and_byte x m)"

section \<open>Host and port\<close>

definition last_index :: "string \<Rightarrow> char \<Rightarrow> nat option" where
  "last_index s c = map_option (\<lambda>i. length s - Suc i) (index_byte (rev s) c)"

definition SplitHostPort :: "string \<Rightarrow> (string \<times> string) option" where
  "SplitHostPort hp =
     (case last_index hp CHR '':'' of
        None \<Rightarrow> None
      | Some i \<Rightarrow>
          if hd hp = CHR ''['' then
            (case index_byte hp CHR '']'' of
               None \<Rightarrow> None
             | Some e \<Rightarrow>
                 if e + 1 \<noteq> i then None
                 else if CHR ''['' \<in> set (drop 1 hp) \<or> CHR '']'' \<in> set (drop (e + 1) hp) then None
                 else Some (drop 1 (take e hp), drop (i + 1) hp))
          else if CHR '':'' \<in> set (take i hp) \<or> CHR ''['' \<in> set hp \<or> CHR '']'' \<in> set hp then None
          else Some (take i hp, drop (i + 1) hp))"

section \<open>Facts\<close>

lemma parseIPv4Fields_length: "parseIPv4Fields v n acc s = Some ip \<Longrightarrow> length acc \<le> 3 \<Longrightarrow> length ip = 4"
  by (induction v n acc s rule: parseIPv4Fields.induct) (auto split: if_splits)

lemma parseIPv6Group_ends:
  "parseIPv6Group ell acc s = Some ((ell', acc', s'), False) \<Longrightarrow> length acc \<le> 14 \<Longrightarrow> length acc' \<le> 16"
  by (auto simp: parseIPv6Group_def Let_def dest!: parseIPv4Fields_length split: if_splits)

lemma parseIPv6Groups_length:
  "parseIPv6Groups ell acc s = Some (ell', ip, r) \<Longrightarrow> even (length acc) \<Longrightarrow> length acc \<le> 16 \<Longrightarrow> length ip \<le> 16"
proof (induction ell acc s rule: parseIPv6Groups.induct)
  case (1 ell acc s)
  show ?case
  proof (cases "16 \<le> length acc")
    case True
    then show ?thesis using "1.prems" by (simp add: parseIPv6Groups.simps)
  next
    case False
    with "1.prems"(2) have room: "length acc \<le> 14" by presburger
    obtain e a t g where round: "parseIPv6Group ell acc s = Some ((e, a, t), g)"
      and next': "if g then parseIPv6Groups e a t = Some (ell', ip, r) else (e, a, t) = (ell', ip, r)"
      using "1.prems"(1) False by (subst (asm) parseIPv6Groups.simps) (auto split: option.splits if_splits)
    show ?thesis
    proof (cases g)
      case True
      then have "length a = length acc + 2" using parseIPv6Group_continues round by simp
      then show ?thesis
        using "1.IH" [OF False round refl refl refl True] next' True "1.prems"(2) room by simp
    next
      case False
      then show ?thesis using parseIPv6Group_ends [of ell acc s e a t] round next' room by simp
    qed
  qed
qed

lemma ParseIP_length: "ParseIP s = Some ip \<Longrightarrow> length ip = 16"
  by (auto simp: ParseIP_def ParseAddr_def parseIPv6_def Let_def v4InV6Prefix_def
      dest!: parseIPv4Fields_length parseIPv6Groups_length split: if_splits list.splits option.splits prod.splits)

text \<open>The dotted form of an address is read back.\<close>

definition dotted :: "nat \<Rightarrow> nat \<Rightarrow> nat \<Rightarrow> nat \<Rightarrow> string" where
  "dotted a b c d = nat_digits a @ ''.'' @ nat_digits b @ ''.'' @ nat_digits c @ ''.'' @ nat_digits d"

lemma parseIPv4Fields_digit:
  "x < 10 \<Longrightarrow> v * 10 + x \<le> 255 \<Longrightarrow> \<not> (n = 1 \<and> v = 0) \<Longrightarrow>
    parseIPv4Fields v n acc (char_of (48 + x) # s) = parseIPv4Fields (v * 10 + x) (Suc n) acc s"
  using digit_char [of x] by auto

lemma nat_digits_small:
  "n < 10 \<Longrightarrow> nat_digits n = [char_of (48 + n)]"
  "10 \<le> n \<Longrightarrow> n < 100 \<Longrightarrow> nat_digits n = [char_of (48 + n div 10), char_of (48 + n mod 10)]"
  "100 \<le> n \<Longrightarrow> n < 1000 \<Longrightarrow> nat_digits n = [char_of (48 + n div 100), char_of (48 + n div 10 mod 10), char_of (48 + n mod 10)]"
  by (simp_all add: nat_digits.simps [of n] nat_digits.simps [of "n div 10"] nat_digits.simps [of "n div 100"]
      div_mult2_eq [symmetric]) linarith

lemma parseIPv4Fields_number:
  assumes "n \<le> 255"
  shows "\<exists>k. 0 < k \<and> parseIPv4Fields 0 0 acc (nat_digits n @ s) = parseIPv4Fields n k acc s"
proof -
  consider "n < 10" | "10 \<le> n" "n < 100" | "100 \<le> n" by linarith
  then show ?thesis
  proof cases
    case 1
    then show ?thesis by (intro exI [of _ "Suc 0"]) (simp add: nat_digits_small parseIPv4Fields_digit del: parseIPv4Fields.simps)
  next
    case 2
    then have "n div 10 < 10" "n mod 10 < 10" "n div 10 * 10 + n mod 10 = n" "n div 10 \<le> 255" "n div 10 \<noteq> 0" by auto
    then show ?thesis using 2 assms
      by (intro exI [of _ "Suc (Suc 0)"]) (simp add: nat_digits_small parseIPv4Fields_digit del: parseIPv4Fields.simps)
  next
    case 3
    have q: "n div 100 = n div 10 div 10" by (simp add: div_mult2_eq [symmetric])
    have "n div 100 < 10" "n div 100 * 10 + n div 10 mod 10 = n div 10" "n div 10 * 10 + n mod 10 = n"
      "n div 100 \<noteq> 0" "n div 10 \<noteq> 0" "n div 10 \<le> 255" "n div 100 \<le> 255"
      using 3 assms unfolding q by simp_all
    then show ?thesis using 3 assms
      by (intro exI [of _ "Suc (Suc (Suc 0))"]) (simp add: nat_digits_small parseIPv4Fields_digit del: parseIPv4Fields.simps)
  qed
qed

lemma parseIPv4Fields_dot:
  assumes "n \<le> 255" "length acc < 3" "s \<noteq> []"
  shows "parseIPv4Fields 0 0 acc (nat_digits n @ CHR ''.'' # s) = parseIPv4Fields 0 0 (acc @ [char_of n]) s"
  using parseIPv4Fields_number [OF assms(1), of acc "CHR ''.'' # s"] assms(2,3) by (auto simp: is_digit_def in_range_def)

lemma ParseIP_dotted:
  assumes "a \<le> 255" "b \<le> 255" "c \<le> 255" "d \<le> 255"
  shows "ParseIP (dotted a b c d) = Some (v4InV6Prefix @ map char_of [a, b, c, d])"
proof -
  have fields: "parseIPv4Fields 0 0 [] (dotted a b c d) = Some (map char_of [a, b, c, d])"
    using parseIPv4Fields_number [OF assms(4), of "[char_of a, char_of b, char_of c]" "[]"] assms
    by (auto simp: dotted_def parseIPv4Fields_dot)
  have digits: "\<forall>c \<in> set (nat_digits n). c \<noteq> CHR ''.'' \<and> c \<noteq> CHR '':'' \<and> c \<noteq> CHR 0x25" for n
    using nat_digits_are_digits [of n] by (force simp: list_all_iff is_digit_def in_range_def)
  have skip: "dropWhile (\<lambda>c. c \<noteq> CHR ''.'' \<and> c \<noteq> CHR '':'') (dotted a b c d) = drop (length (nat_digits a)) (dotted a b c d)"
    unfolding dotted_def using digits [of a] by (simp add: dropWhile_append2)
  have "CHR 0x25 \<notin> set (dotted a b c d)" using digits by (auto simp: dotted_def)
  moreover have "drop (length (nat_digits a)) (dotted a b c d) = CHR ''.'' # drop (Suc (length (nat_digits a))) (dotted a b c d)"
    by (simp add: dotted_def)
  ultimately show ?thesis using fields skip by (simp add: ParseIP_def ParseAddr_def)
qed

end
