(* ===== verification/Duration_Text.thy ===== *)
theory Duration_Text
  imports Wisp_Codec
begin

text \<open>
  \<^verbatim>\<open>time.ParseDuration\<close> and \<^verbatim>\<open>Duration.String\<close>, which the configuration uses for its defaults and
  values. The arithmetic is on unsigned 64-bit integers. The one step in floating point, the
  contribution of a fraction (\<^verbatim>\<open>float64(f) * (float64(unit) / scale)\<close>), is the parameter \<open>frac\<close>.
\<close>

section \<open>Parsing\<close>

definition unit_ns :: "string \<Rightarrow> nat option" where
  "unit_ns = map_of
     [(''ns'', 1), (''us'', 1000), ([CHR 0xC2, CHR 0xB5, CHR ''s''], 1000), ([CHR 0xCE, CHR 0xBC, CHR ''s''], 1000),
      (''ms'', 1000000), (''s'', 1000000000), (''m'', 60 * 1000000000), (''h'', 3600 * 1000000000)]"

fun leadingInt :: "nat \<Rightarrow> string \<Rightarrow> (nat \<times> string) option" where
  "leadingInt x [] = Some (x, [])"
| "leadingInt x (c # s) =
     (if \<not> is_digit c then Some (x, c # s)
      else if x > 2 ^ 63 div 10 then None
      else if x * 10 + (of_char c - 48) > 2 ^ 63 then None
      else leadingInt (x * 10 + (of_char c - 48)) s)"

text \<open>Digits beyond the range are dropped; the scale counts the digits that were used.\<close>

fun leadingFraction :: "nat \<Rightarrow> nat \<Rightarrow> bool \<Rightarrow> string \<Rightarrow> nat \<times> nat \<times> string" where
  "leadingFraction x scale overflow [] = (x, scale, [])"
| "leadingFraction x scale overflow (c # s) =
     (if \<not> is_digit c then (x, scale, c # s)
      else if overflow \<or> x > (2 ^ 63 - 1) div 10 \<or> x * 10 + (of_char c - 48) > 2 ^ 63 then leadingFraction x scale True s
      else leadingFraction (x * 10 + (of_char c - 48)) (scale * 10) False s)"

definition unit_char :: "char \<Rightarrow> bool" where
  "unit_char c \<longleftrightarrow> c \<noteq> CHR ''.'' \<and> \<not> is_digit c"

text \<open>One round of the loop: a number with its unit, in nanoseconds, and the rest of the text.\<close>

definition duration_part :: "(nat \<Rightarrow> nat \<Rightarrow> nat \<Rightarrow> nat) \<Rightarrow> string \<Rightarrow> (nat \<times> string) option" where
  "duration_part frac s =
     (if \<not> (hd s = CHR ''.'' \<or> is_digit (hd s)) then None
      else case leadingInt 0 s of
          None \<Rightarrow> None
        | Some (v, s1) \<Rightarrow>
            let (f, scale, s2) = (if s1 \<noteq> [] \<and> hd s1 = CHR ''.'' then leadingFraction 0 1 False (tl s1) else (0, 1, s1));
                post = (s1 \<noteq> [] \<and> hd s1 = CHR ''.'' \<and> length s2 \<noteq> length (tl s1));
                u = takeWhile unit_char s2; rest = dropWhile unit_char s2 in
            if length s1 = length s \<and> \<not> post then None
            else if u = [] then None
            else case unit_ns u of
                None \<Rightarrow> None
              | Some ns \<Rightarrow>
                  if v > 2 ^ 63 div ns then None
                  else let v' = (if f > 0 then (v * ns + frac f ns scale) mod 2 ^ 64 else v * ns) in
                    if f > 0 \<and> v' > 2 ^ 63 then None else Some (v', rest))"

lemma leadingInt_length: "leadingInt x s = Some (v, r) \<Longrightarrow> length r \<le> length s"
  by (induction x s rule: leadingInt.induct) (auto split: if_splits)

lemma leadingFraction_length: "leadingFraction x k b s = (v, k', r) \<Longrightarrow> length r \<le> length s"
  by (induction x k b s rule: leadingFraction.induct) (force split: if_splits)+

lemma duration_part_progress: "duration_part frac s = Some (v, rest) \<Longrightarrow> length rest < length s"
proof -
  assume ok: "duration_part frac s = Some (v, rest)"
  obtain v0 s1 where int: "leadingInt 0 s = Some (v0, s1)"
    using ok by (auto simp: duration_part_def split: if_splits option.splits)
  define s2 where "s2 = (if s1 \<noteq> [] \<and> hd s1 = CHR ''.'' then snd (snd (leadingFraction 0 1 False (tl s1))) else s1)"
  have "takeWhile unit_char s2 \<noteq> []" and "rest = dropWhile unit_char s2"
    using ok int by (auto simp: duration_part_def Let_def s2_def split: if_splits option.splits prod.splits)
  then have "length rest < length s2"
    by (metis length_greater_0_conv less_add_same_cancel2 length_append takeWhile_dropWhile_id)
  also have "length s2 \<le> length s1"
    using leadingFraction_length [of 0 1 False "tl s1"]
    by (cases "leadingFraction 0 1 False (tl s1)") (fastforce simp: s2_def)
  also have "length s1 \<le> length s" by (rule leadingInt_length [OF int])
  finally show ?thesis .
qed

function duration_loop :: "(nat \<Rightarrow> nat \<Rightarrow> nat \<Rightarrow> nat) \<Rightarrow> nat \<Rightarrow> string \<Rightarrow> nat option" where
  "duration_loop frac d s =
     (if s = [] then Some d
      else case duration_part frac s of
          None \<Rightarrow> None
        | Some (v, rest) \<Rightarrow> if (d + v) mod 2 ^ 64 > 2 ^ 63 then None else duration_loop frac ((d + v) mod 2 ^ 64) rest)"
  by pat_completeness auto
termination
  by (relation "measure (\<lambda>(frac, d, s). length s)") (auto dest: duration_part_progress)

declare duration_loop.simps [simp del]

definition ParseDuration :: "(nat \<Rightarrow> nat \<Rightarrow> nat \<Rightarrow> nat) \<Rightarrow> string \<Rightarrow> duration option" where
  "ParseDuration frac s =
     (let signed = (s \<noteq> [] \<and> (hd s = CHR ''-'' \<or> hd s = CHR ''+'')); neg = (signed \<and> hd s = CHR ''-'');
          t = (if signed then tl s else s) in
      if t = ''0'' then Some 0
      else if t = [] then None
      else case duration_loop frac 0 t of
          None \<Rightarrow> None
        | Some d \<Rightarrow> if neg then Some (- int d) else if d > 2 ^ 63 - 1 then None else Some (int d))"

section \<open>Printing\<close>

fun strip_zeros :: "nat \<Rightarrow> nat \<Rightarrow> nat \<times> nat" where
  "strip_zeros v 0 = (v, 0)"
| "strip_zeros v (Suc p) = (if v mod 10 = 0 then strip_zeros (v div 10) p else (v, Suc p))"

text \<open>\<^verbatim>\<open>fmtFrac\<close>: the fraction of \<open>v / 10 ^ p\<close> without trailing zeros.\<close>

definition fmtFrac :: "nat \<Rightarrow> nat \<Rightarrow> string" where
  "fmtFrac v p =
     (case strip_zeros (v mod 10 ^ p) p of (w, q) \<Rightarrow>
        if q = 0 then []
        else CHR ''.'' # replicate (q - length (nat_digits w)) CHR ''0'' @ nat_digits w)"

definition duration_string :: "duration \<Rightarrow> string" where
  "duration_string d =
     (let u = nat \<bar>d\<bar>; sign = (if d < 0 then ''-'' else []) in
      if u = 0 then ''0s''
      else if u < 1000 then sign @ nat_digits u @ ''ns''
      else if u < 1000000 then sign @ nat_digits (u div 1000) @ fmtFrac u 3 @ [CHR 0xC2, CHR 0xB5, CHR ''s'']
      else if u < 1000000000 then sign @ nat_digits (u div 1000000) @ fmtFrac u 6 @ ''ms''
      else let secs = u div 1000000000; mins = secs div 60; hours = mins div 60 in
        sign @ (if hours > 0 then nat_digits hours @ ''h'' else []) @ (if mins > 0 then nat_digits (mins mod 60) @ ''m'' else [])
          @ nat_digits (secs mod 60) @ fmtFrac u 9 @ ''s'')"

section \<open>Round trip\<close>

lemma digits_value_ge: "digits_value x ds = Some n \<Longrightarrow> x \<le> n"
  by (induction x ds rule: digits_value.induct) (fastforce split: if_splits)+

lemma leadingInt_digits:
  "digits_value x ds = Some n \<Longrightarrow> n \<le> 2 ^ 63 \<Longrightarrow> \<not> is_digit c \<Longrightarrow> leadingInt x (ds @ c # s) = Some (n, c # s)"
proof (induction x ds rule: digits_value.induct)
  case (2 acc d ds)
  from "2.prems"(1) have step: "is_digit d" "digits_value (10 * acc + (of_char d - 48)) ds = Some n"
    by (auto split: if_splits)
  from digits_value_ge [OF step(2)] "2.prems"(2) have "10 * acc + (of_char d - 48) \<le> 2 ^ 63" by simp
  then show ?case using step "2.IH" "2.prems" by (simp add: mult.commute)
qed simp

lemma duration_part_whole:
  assumes "unit_ns u = Some ns" "list_all unit_char u" "u \<noteq> []" "n \<le> 2 ^ 63 div ns" "n \<le> 2 ^ 63"
    and "rest = [] \<or> is_digit (hd rest)"
  shows "duration_part frac (nat_digits n @ u @ rest) = Some (n * ns, rest)"
proof -
  obtain c u' where u: "u = c # u'" using assms(3) by (cases u) auto
  have c: "\<not> is_digit c" "c \<noteq> CHR ''.''" using assms(2) u by (auto simp: unit_char_def)
  have int: "leadingInt 0 (nat_digits n @ u @ rest) = Some (n, u @ rest)"
    using leadingInt_digits [of 0 "nat_digits n" n c "u' @ rest"] assms(5) c u by simp
  have hd: "is_digit (hd (nat_digits n @ u @ rest))" using hd_nat_digits [of n] by simp
  have split: "takeWhile unit_char (u @ rest) = u \<and> dropWhile unit_char (u @ rest) = rest"
    using assms(2,6) by (cases rest) (auto simp: list_all_iff unit_char_def)
  show ?thesis
    using int hd split assms(1,4) c u by (simp add: duration_part_def Let_def)
qed

lemma duration_loop_part:
  "duration_part frac s = Some (v, rest) \<Longrightarrow> s \<noteq> [] \<Longrightarrow> d + v \<le> 2 ^ 63 \<Longrightarrow> duration_loop frac d s = duration_loop frac (d + v) rest"
  by (subst duration_loop.simps) simp

lemma duration_loop_Nil [simp]: "duration_loop frac d [] = Some d"
  by (simp add: duration_loop.simps)

lemma unit_ns_time [simp]: "unit_ns ''h'' = Some 3600000000000" "unit_ns ''m'' = Some 60000000000" "unit_ns ''s'' = Some 1000000000"
  by (simp_all add: unit_ns_def)

lemma unit_chars_time [simp]: "unit_char CHR ''h''" "unit_char CHR ''m''" "unit_char CHR ''s''"
  by (simp_all add: unit_char_def is_digit_def in_range_def)

lemma duration_loop_whole:
  assumes "unit_ns u = Some ns" "list_all unit_char u" "u \<noteq> []" "d + n * ns < 2 ^ 63" "rest = [] \<or> is_digit (hd rest)"
  shows "duration_loop frac d (nat_digits n @ u @ rest) = duration_loop frac (d + n * ns) rest"
proof -
  have "0 < ns" using assms(1) by (auto simp: unit_ns_def split: if_splits)
  then have "n \<le> n * ns" by simp
  then have "n \<le> 2 ^ 63" using assms(4) by linarith
  moreover have "n \<le> 2 ^ 63 div ns" using assms(4) \<open>0 < ns\<close> by (simp add: less_eq_div_iff_mult_less_eq)
  ultimately show ?thesis
    using duration_part_whole [OF assms(1-3) _ _ assms(5), of n frac] duration_loop_part assms(4) by simp
qed

lemma strip_zeros_0 [simp]: "strip_zeros 0 p = (0, 0)"
  by (induction p) auto

lemma duration_roundtrip:
  assumes "0 < k" "k * 1000000000 < 2 ^ 63"
  shows "ParseDuration frac (duration_string (int k * 1000000000)) = Some (int k * 1000000000)"
proof -
  define m h where "m = k div 60" and "h = m div 60"
  have parts: "h * 3600000000000 + m mod 60 * 60000000000 + k mod 60 * 1000000000 = k * 1000000000"
  proof -
    have "k = 60 * m + k mod 60" "m = 60 * h + m mod 60" by (simp_all add: m_def h_def)
    then show ?thesis by linarith
  qed
  have u: "nat (int k * 1000000000) = k * 1000000000" by (simp add: nat_mult_distrib)
  have str: "duration_string (int k * 1000000000) =
      (if h > 0 then nat_digits h @ ''h'' else []) @ (if m > 0 then nat_digits (m mod 60) @ ''m'' else []) @ nat_digits (k mod 60) @ ''s''"
    using assms(1) by (simp add: duration_string_def u fmtFrac_def Let_def m_def h_def)
  let ?M = "nat_digits (m mod 60) @ ''m'' @ nat_digits (k mod 60) @ ''s''"
  have dig: "is_digit (hd (nat_digits x @ ys))" for x ys using hd_nat_digits [of x] by simp
  have S: "duration_loop frac d (nat_digits (k mod 60) @ ''s'') = Some (d + k mod 60 * 1000000000)" if "d + k mod 60 * 1000000000 < 2 ^ 63" for d
    using duration_loop_whole [of "''s''" 1000000000 d "k mod 60" "[]" frac] that by simp
  have M: "duration_loop frac d ?M = Some (d + m mod 60 * 60000000000 + k mod 60 * 1000000000)"
    if "d + m mod 60 * 60000000000 + k mod 60 * 1000000000 < 2 ^ 63" for d
    using duration_loop_whole [of "''m''" 60000000000 d "m mod 60" "nat_digits (k mod 60) @ ''s''" frac] that S dig by simp
  have H: "duration_loop frac 0 (nat_digits h @ ''h'' @ ?M) = Some (k * 1000000000)"
    using duration_loop_whole [of "''h''" 3600000000000 0 h ?M frac] M [of "h * 3600000000000"] parts assms(2) dig by simp
  have loop: "duration_loop frac 0 (duration_string (int k * 1000000000)) = Some (k * 1000000000)"
    using H M [of 0] S [of 0] parts assms(2) unfolding str by (auto simp: h_def m_def)
  have first: "is_digit (hd (duration_string (int k * 1000000000)))" unfolding str using dig by auto
  have long: "2 \<le> length (duration_string (int k * 1000000000))"
    unfolding str by (cases "nat_digits (k mod 60)") auto
  have "hd (duration_string (int k * 1000000000)) \<noteq> CHR ''-''" "hd (duration_string (int k * 1000000000)) \<noteq> CHR ''+''"
    "duration_string (int k * 1000000000) \<noteq> ''0''" "duration_string (int k * 1000000000) \<noteq> []"
    using first long by auto
  then show ?thesis using loop assms(2) by (simp add: ParseDuration_def)
qed

end
