(* ===== verification/Wisp_Config.thy ===== *)
theory Wisp_Config
  imports Net_Addr Duration_Text
begin

text \<open>
  \<^verbatim>\<open>internal/config/config.go\<close>: the settings of the process, how they are read from the environment
  (\<^verbatim>\<open>Load\<close>) and which combinations are refused (\<^verbatim>\<open>Validate\<close>).

  The environment variables are the function \<open>ev_getenv\<close>, the files of secrets the function
  \<open>ev_file\<close>. \<open>ev_frac\<close> is the floating-point step of \<^verbatim>\<open>time.ParseDuration\<close>, and \<open>ev_userinfo\<close> is
  \<^verbatim>\<open>net/url\<close>: the text of a connection URL with its password replaced, if it is a URL with a user name.
\<close>

section \<open>Settings\<close>

record http_config =
  hc_Addr :: string
  hc_ReadHeaderTimeout :: duration
  hc_ReadTimeout :: duration
  hc_WriteTimeout :: duration
  hc_IdleTimeout :: duration
  hc_MaxHeaderBytes :: int
  hc_ReadinessTimeout :: duration
  hc_HeavyReadConcurrency :: int
  hc_CreateRatePerMinute :: int
  hc_CreateRateBurst :: int
  hc_TrustedProxyCIDRs :: "string list"

record inbox_config =
  ic_PublicDomains :: "string list"
  ic_DefaultTTL :: duration
  ic_MaxTTL :: duration
  ic_MaxMessages :: int
  ic_MaxStorageBytes :: int

record quota_config =
  qc_DailyLimit :: int
  qc_HMACKey :: bytes

record compat_config =
  cc_DuckMailEnabled :: bool
  cc_YYDSEnabled :: bool
  cc_CloudflareTempEnabled :: bool
  cc_CloudflareLegacyPathsEnabled :: bool

record browser_config =
  bc_Key :: bytes
  bc_Lifetime :: duration

record cleanup_config =
  kc_BatchSize :: int
  kc_Interval :: duration
  kc_Timeout :: duration

record lmtp_config =
  lc_Addr :: string
  lc_Hostname :: string
  lc_MaxMessageBytes :: int
  lc_MaxCommandBytes :: int
  lc_MaxDataLineBytes :: int
  lc_MaxRecipients :: int
  lc_MaxSessions :: int
  lc_SessionTimeout :: duration
  lc_DeliveryTimeout :: duration

record parser_config =
  pc_Workers :: int
  pc_PollInterval :: duration
  pc_ParseTimeout :: duration
  pc_LeaseDuration :: duration
  pc_MaxAttempts :: int
  pc_RetryBase :: duration
  pc_RetryMax :: duration

record postgres_config =
  dc_DSN :: string
  dc_MinConnections :: int
  dc_MaxConnections :: int
  dc_ConnectTimeout :: duration

record content_config =
  nc_Root :: string
  nc_MaxBytes :: int
  nc_MinFreeBytes :: int

record config =
  cfg_HTTP :: http_config
  cfg_LMTP :: lmtp_config
  cfg_Parser :: parser_config
  cfg_Postgres :: postgres_config
  cfg_Content :: content_config
  cfg_Inbox :: inbox_config
  cfg_CreateQuota :: quota_config
  cfg_Compatibility :: compat_config
  cfg_BrowserSession :: browser_config
  cfg_Cleanup :: cleanup_config
  cfg_LogLevel :: int
  cfg_ShutdownTimeout :: duration

abbreviation seconds :: "int \<Rightarrow> duration" where "seconds n \<equiv> n * 1000000000"
abbreviation minutes :: "int \<Rightarrow> duration" where "minutes n \<equiv> seconds (n * 60)"
abbreviation hours :: "int \<Rightarrow> duration" where "hours n \<equiv> seconds (n * 3600)"

section \<open>Validation\<close>

text \<open>An error of \<^verbatim>\<open>Validate\<close>: its text, or the text and the quoted value.\<close>

datatype config_error =
    Rejected string
  | InvalidCIDR string
  | InvalidPublicDomain string
  | DuplicatePublicDomain string

definition reject :: "bool \<Rightarrow> string \<Rightarrow> config_error list" where
  "reject bad text' = (if bad then [Rejected text'] else [])"

text \<open>
  A byte outside ASCII starts or continues a rune outside the allowed ranges, so checking bytes
  is checking runes.
\<close>

definition domain_char :: "char \<Rightarrow> bool" where
  "domain_char c \<longleftrightarrow> in_range CHR ''a'' CHR ''z'' c \<or> in_range CHR ''0'' CHR ''9'' c \<or> c = CHR ''-''"

definition valid_label :: "string \<Rightarrow> bool" where
  "valid_label label \<longleftrightarrow> label \<noteq> [] \<and> length label \<le> 63 \<and> hd label \<noteq> CHR ''-'' \<and> last label \<noteq> CHR ''-'' \<and> list_all domain_char label"

definition validDomain :: "string \<Rightarrow> bool" where
  "validDomain domain \<longleftrightarrow>
     \<not> (length domain < 3 \<or> length domain > 253 \<or> has_prefix domain ''.'' \<or> has_suffix domain ''.'') \<and>
     list_all valid_label (split_on CHR ''.'' domain)"

fun domain_errors :: "string set \<Rightarrow> string list \<Rightarrow> config_error list" where
  "domain_errors seen [] = []"
| "domain_errors seen (d # ds) =
     (if \<not> validDomain d then InvalidPublicDomain d # domain_errors seen ds
      else (if d \<in> seen then [DuplicatePublicDomain d] else []) @ domain_errors (insert d seen) ds)"

definition validate_http :: "http_config \<Rightarrow> config_error list" where
  "validate_http h =
     reject (trim_space (hc_Addr h) = []) ''MAILWISP_HTTP_ADDR must not be empty'' @
     reject (hc_ReadHeaderTimeout h \<le> 0) ''MAILWISP_READ_HEADER_TIMEOUT must be positive'' @
     reject (hc_ReadTimeout h \<le> 0) ''MAILWISP_READ_TIMEOUT must be positive'' @
     reject (hc_WriteTimeout h \<le> 0) ''MAILWISP_WRITE_TIMEOUT must be positive'' @
     reject (hc_IdleTimeout h \<le> 0) ''MAILWISP_IDLE_TIMEOUT must be positive'' @
     reject (hc_MaxHeaderBytes h < 8192 \<or> hc_MaxHeaderBytes h > 4194304) ''MAILWISP_MAX_HEADER_BYTES must be between 8192 and 4194304'' @
     reject (hc_ReadinessTimeout h \<le> 0 \<or> hc_ReadinessTimeout h > seconds 10) ''MAILWISP_READINESS_TIMEOUT must be between 1ns and 10s'' @
     reject (hc_HeavyReadConcurrency h \<le> 0 \<or> hc_HeavyReadConcurrency h > 128) ''MAILWISP_HEAVY_READ_CONCURRENCY must be between 1 and 128'' @
     reject (hc_CreateRatePerMinute h \<le> 0 \<or> hc_CreateRatePerMinute h > 10000) ''MAILWISP_CREATE_RATE_PER_MINUTE must be between 1 and 10000'' @
     reject (hc_CreateRateBurst h \<le> 0 \<or> hc_CreateRateBurst h > hc_CreateRatePerMinute h)
       ''MAILWISP_CREATE_RATE_BURST must be positive and not exceed MAILWISP_CREATE_RATE_PER_MINUTE'' @
     map InvalidCIDR (filter (\<lambda>cidr. ParseCIDR cidr = None) (hc_TrustedProxyCIDRs h))"

definition validate_lmtp :: "lmtp_config \<Rightarrow> config_error list" where
  "validate_lmtp l =
     reject (trim_space (lc_Addr l) = []) ''MAILWISP_LMTP_ADDR must not be empty'' @
     reject (trim_space (lc_Hostname l) = [] \<or> list_ex (\<lambda>c. c \<in> {CHR 0x0D, CHR 0x0A, CHR 0x09, CHR '' ''}) (lc_Hostname l))
       ''MAILWISP_LMTP_HOSTNAME must be a non-empty hostname without whitespace'' @
     reject (lc_MaxMessageBytes l \<le> 0) ''MAILWISP_LMTP_MAX_MESSAGE_BYTES must be positive'' @
     reject (lc_MaxCommandBytes l < 512 \<or> lc_MaxCommandBytes l > 65536) ''MAILWISP_LMTP_MAX_COMMAND_BYTES must be between 512 and 65536'' @
     reject (lc_MaxDataLineBytes l < 998 \<or> lc_MaxDataLineBytes l > 1048576) ''MAILWISP_LMTP_MAX_DATA_LINE_BYTES must be between 998 and 1048576'' @
     reject (lc_MaxRecipients l \<le> 0 \<or> lc_MaxRecipients l > 1000) ''MAILWISP_LMTP_MAX_RECIPIENTS must be between 1 and 1000'' @
     reject (lc_MaxSessions l \<le> 0 \<or> lc_MaxSessions l > 10000) ''MAILWISP_LMTP_MAX_SESSIONS must be between 1 and 10000'' @
     reject (lc_SessionTimeout l \<le> 0 \<or> lc_DeliveryTimeout l \<le> 0) ''MAILWISP_LMTP timeouts must be positive'' @
     reject (lc_SessionTimeout l < lc_DeliveryTimeout l)
       ''MAILWISP_LMTP_SESSION_TIMEOUT must not be shorter than MAILWISP_LMTP_DELIVERY_TIMEOUT''"

definition validate_parser :: "parser_config \<Rightarrow> config_error list" where
  "validate_parser p =
     reject (pc_Workers p \<le> 0 \<or> pc_Workers p > 64) ''MAILWISP_PARSER_WORKERS must be between 1 and 64'' @
     reject (pc_PollInterval p < 100000000 \<or> pc_PollInterval p > minutes 1) ''MAILWISP_PARSER_POLL_INTERVAL must be between 100ms and 1m'' @
     reject (pc_ParseTimeout p \<le> 0 \<or> pc_ParseTimeout p > minutes 5) ''MAILWISP_PARSER_TIMEOUT must be between 1ns and 5m'' @
     reject (pc_LeaseDuration p \<le> pc_ParseTimeout p \<or> pc_LeaseDuration p > minutes 10)
       ''MAILWISP_PARSER_LEASE_DURATION must exceed parser timeout and be at most 10m'' @
     reject (pc_MaxAttempts p \<le> 0 \<or> pc_MaxAttempts p > 100) ''MAILWISP_PARSER_MAX_ATTEMPTS must be between 1 and 100'' @
     reject (pc_RetryBase p \<le> 0 \<or> pc_RetryMax p < pc_RetryBase p \<or> pc_RetryMax p > hours 24)
       ''MAILWISP_PARSER_RETRY_BASE and MAILWISP_PARSER_RETRY_MAX must define a positive range up to 24h''"

definition validate_postgres :: "postgres_config \<Rightarrow> config_error list" where
  "validate_postgres d =
     reject (trim_space (dc_DSN d) = []) ''MAILWISP_POSTGRES_DSN must not be empty'' @
     reject (dc_MinConnections d < 0) ''MAILWISP_POSTGRES_MIN_CONNECTIONS must not be negative'' @
     reject (dc_MaxConnections d \<le> 0 \<or> dc_MaxConnections d > 1000) ''MAILWISP_POSTGRES_MAX_CONNECTIONS must be between 1 and 1000'' @
     reject (dc_MinConnections d > dc_MaxConnections d)
       ''MAILWISP_POSTGRES_MIN_CONNECTIONS must not exceed MAILWISP_POSTGRES_MAX_CONNECTIONS'' @
     reject (dc_ConnectTimeout d \<le> 0) ''MAILWISP_POSTGRES_CONNECT_TIMEOUT must be positive''"

definition validate_content :: "lmtp_config \<Rightarrow> content_config \<Rightarrow> config_error list" where
  "validate_content l n =
     reject (trim_space (nc_Root n) = []) ''MAILWISP_CONTENT_ROOT must not be empty'' @
     reject (nc_MaxBytes n < lc_MaxMessageBytes l \<or> nc_MaxBytes n > 2 ^ 50)
       ''MAILWISP_CONTENT_MAX_BYTES must be at least MAILWISP_LMTP_MAX_MESSAGE_BYTES and at most 1125899906842624'' @
     reject (nc_MinFreeBytes n < lc_MaxMessageBytes l \<or> nc_MinFreeBytes n > 2 ^ 50)
       ''MAILWISP_CONTENT_MIN_FREE_BYTES must be at least MAILWISP_LMTP_MAX_MESSAGE_BYTES and at most 1125899906842624''"

definition validate_inbox :: "lmtp_config \<Rightarrow> inbox_config \<Rightarrow> config_error list" where
  "validate_inbox l i =
     reject (ic_PublicDomains i = []) ''MAILWISP_PUBLIC_DOMAINS must contain at least one domain'' @
     domain_errors {} (ic_PublicDomains i) @
     reject (ic_DefaultTTL i \<le> 0 \<or> ic_MaxTTL i \<le> 0 \<or> ic_DefaultTTL i > ic_MaxTTL i)
       ''MAILWISP_INBOX_DEFAULT_TTL and MAILWISP_INBOX_MAX_TTL must define a positive ordered range'' @
     reject (ic_MaxMessages i \<le> 0 \<or> ic_MaxMessages i > 1000000) ''MAILWISP_INBOX_MAX_MESSAGES must be between 1 and 1000000'' @
     reject (ic_MaxStorageBytes i < lc_MaxMessageBytes l \<or> ic_MaxStorageBytes i > 2 ^ 50)
       ''MAILWISP_INBOX_MAX_STORAGE_BYTES must be at least MAILWISP_LMTP_MAX_MESSAGE_BYTES and at most 1125899906842624''"

definition validate_access :: "quota_config \<Rightarrow> compat_config \<Rightarrow> browser_config \<Rightarrow> config_error list" where
  "validate_access q c b =
     reject (qc_DailyLimit q \<le> 0 \<or> qc_DailyLimit q > 1000000) ''MAILWISP_CREATE_DAILY_LIMIT must be between 1 and 1000000'' @
     reject (length (qc_HMACKey q) \<noteq> 0 \<and> length (qc_HMACKey q) \<noteq> 32) ''MAILWISP_CREATE_QUOTA_HMAC_KEY must decode to exactly 32 bytes'' @
     reject (cc_CloudflareLegacyPathsEnabled c \<and> \<not> cc_CloudflareTempEnabled c)
       ''MAILWISP_CLOUDFLARE_LEGACY_PATHS_ENABLED requires MAILWISP_CLOUDFLARE_TEMP_ENABLED'' @
     reject (length (bc_Key b) \<noteq> 0 \<and> length (bc_Key b) \<noteq> 32) ''MAILWISP_BROWSER_SESSION_KEY must decode to exactly 32 bytes'' @
     reject (bc_Lifetime b \<le> 0 \<or> bc_Lifetime b > hours (7 * 24)) ''MAILWISP_BROWSER_SESSION_LIFETIME must be between 1ns and 168h''"

definition validate_cleanup :: "duration \<Rightarrow> cleanup_config \<Rightarrow> config_error list" where
  "validate_cleanup shutdown k =
     reject (shutdown \<le> 0) ''MAILWISP_SHUTDOWN_TIMEOUT must be positive'' @
     reject (kc_BatchSize k \<le> 0 \<or> kc_BatchSize k > 1000) ''MAILWISP_CLEANUP_BATCH_SIZE must be between 1 and 1000'' @
     reject (kc_Interval k < 0 \<or> kc_Interval k > hours 24) ''MAILWISP_CLEANUP_INTERVAL must be between 0 and 24h'' @
     reject (kc_Interval k > 0 \<and> (kc_Timeout k \<le> 0 \<or> kc_Timeout k \<ge> kc_Interval k))
       ''MAILWISP_CLEANUP_TIMEOUT must be positive and shorter than MAILWISP_CLEANUP_INTERVAL''"

definition Validate :: "config \<Rightarrow> config_error list" where
  "Validate c =
     validate_http (cfg_HTTP c) @ validate_lmtp (cfg_LMTP c) @ validate_parser (cfg_Parser c) @
     validate_postgres (cfg_Postgres c) @ validate_content (cfg_LMTP c) (cfg_Content c) @
     validate_inbox (cfg_LMTP c) (cfg_Inbox c) @
     validate_access (cfg_CreateQuota c) (cfg_Compatibility c) (cfg_BrowserSession c) @
     validate_cleanup (cfg_ShutdownTimeout c) (cfg_Cleanup c)"

section \<open>The environment\<close>

record env_source =
  ev_getenv :: "string \<Rightarrow> string"
  ev_file :: "string \<Rightarrow> bytes result"
  ev_frac :: "nat \<Rightarrow> nat \<Rightarrow> nat \<Rightarrow> nat"
  ev_userinfo :: "string \<Rightarrow> string \<Rightarrow> string option"

definition env_var :: "env_source \<Rightarrow> string \<Rightarrow> string" where
  "env_var ev name = trim_space (ev_getenv ev (''MAILWISP_'' @ name))"

definition env_value :: "env_source \<Rightarrow> string \<Rightarrow> string \<Rightarrow> string" where
  "env_value ev name fallback = (if env_var ev name \<noteq> [] then env_var ev name else fallback)"

definition commaSeparated :: "env_source \<Rightarrow> string \<Rightarrow> string \<Rightarrow> string list" where
  "commaSeparated ev name fallback =
     filter (\<lambda>v. v \<noteq> []) (map (\<lambda>part. to_lower (trim_space part)) (split_on CHR '','' (env_value ev name fallback)))"

definition env_duration :: "env_source \<Rightarrow> string \<Rightarrow> duration \<Rightarrow> duration" where
  "env_duration ev name fallback =
     (case ParseDuration (ev_frac ev) (env_value ev name (duration_string fallback)) of None \<Rightarrow> 0 | Some d \<Rightarrow> d)"

definition env_integer :: "env_source \<Rightarrow> string \<Rightarrow> int \<Rightarrow> int" where
  "env_integer ev name fallback =
     (case parse_int64 (env_value ev name (format_int fallback)) of None \<Rightarrow> 0 | Some n \<Rightarrow> n)"

definition env_integer32 :: "env_source \<Rightarrow> string \<Rightarrow> int \<Rightarrow> int" where
  "env_integer32 ev name fallback =
     (case parse_int64 (env_value ev name (format_int fallback)) of
        None \<Rightarrow> 0 | Some n \<Rightarrow> if - (2 ^ 31) \<le> n \<and> n < 2 ^ 31 then n else 0)"

definition ParseBool :: "string \<Rightarrow> bool option" where
  "ParseBool s =
     (if s \<in> set [''1'', ''t'', ''T'', ''true'', ''TRUE'', ''True''] then Some True
      else if s \<in> set [''0'', ''f'', ''F'', ''false'', ''FALSE'', ''False''] then Some False else None)"

definition parseBoolean :: "env_source \<Rightarrow> string \<Rightarrow> bool \<Rightarrow> bool result" where
  "parseBoolean ev name fallback =
     (case ParseBool (env_value ev name (if fallback then ''true'' else ''false'')) of
        None \<Rightarrow> Inl (OtherError (''MAILWISP_'' @ name @ '': invalid syntax''))
      | Some b \<Rightarrow> Inr b)"

text \<open>Base64 with the standard alphabet and padding; line breaks are skipped.\<close>

definition b64std_val :: "char \<Rightarrow> nat option" where
  "b64std_val c = (if c = CHR ''+'' then Some 62 else if c = CHR ''/'' then Some 63
     else if c = CHR ''-'' \<or> c = CHR ''_'' then None else b64_val c)"

definition b64std_decode :: "bool \<Rightarrow> string \<Rightarrow> bytes option" where
  "b64std_decode strict s =
     (let t = filter (\<lambda>c. c \<noteq> CHR 10 \<and> c \<noteq> CHR 13) s;
          pad = (if has_suffix t ''=='' then 2 else if has_suffix t ''='' then 1 else 0) in
      if length t mod 4 \<noteq> 0 then None
      else Option.bind (those (map b64std_val (take (length t - pad) t))) (b64_undigits strict))"

text \<open>The loop over the two encodings: the first that decodes decides.\<close>

definition decode_key :: "string \<Rightarrow> string \<Rightarrow> string \<Rightarrow> bytes result" where
  "decode_key name malformed raw =
     (case (case b64_decode True raw of Some d \<Rightarrow> Some d | None \<Rightarrow> b64std_decode True raw) of
        None \<Rightarrow> Inl (OtherError (name @ malformed))
      | Some decoded \<Rightarrow>
          if length decoded \<noteq> 32 then Inl (OtherError (name @ '' must decode to exactly 32 bytes'')) else Inr decoded)"

definition decodeSecretKey :: "env_source \<Rightarrow> string \<Rightarrow> bytes result" where
  "decodeSecretKey ev name =
     (if env_var ev name = [] then Inr []
      else decode_key (''MAILWISP_'' @ name) '' must be base64 or base64url'' (env_var ev name))"

definition readConfiguredFile :: "env_source \<Rightarrow> string \<Rightarrow> nat \<Rightarrow> bytes result" where
  "readConfiguredFile ev path maxBytes = map_sum id (take (maxBytes + 1)) (ev_file ev path)"

definition secretKeyFromEnvironment :: "env_source \<Rightarrow> string \<Rightarrow> bytes result" where
  "secretKeyFromEnvironment ev name =
     (let keyFile = env_var ev (name @ ''_FILE''); keyValue = env_var ev name; label = ''MAILWISP_'' @ name @ ''_FILE'' in
      if keyFile \<noteq> [] \<and> keyValue \<noteq> []
        then Inl (OtherError (''MAILWISP_'' @ name @ '' and '' @ label @ '' must not both be configured''))
      else if keyFile = [] then decodeSecretKey ev name
      else case readConfiguredFile ev keyFile 4096 of
          Inl e \<Rightarrow> Inl e
        | Inr raw \<Rightarrow>
            if length raw > 4096 then Inl (OtherError (label @ '' must not exceed 4096 bytes''))
            else if trim_space raw = [] then Inl (OtherError (label @ '' must not be empty''))
            else decode_key label '' must contain base64 or base64url'' (trim_space raw))"

text \<open>\<^verbatim>\<open>slog.Level.UnmarshalText\<close>: a name with an optional offset.\<close>

definition level_of_name :: "string \<Rightarrow> int option" where
  "level_of_name = map_of [(''DEBUG'', -4), (''INFO'', 0), (''WARN'', 4), (''ERROR'', 8)]"

definition parseLogLevel :: "string \<Rightarrow> int result" where
  "parseLogLevel raw =
     (let name = takeWhile (\<lambda>c. c \<noteq> CHR ''+'' \<and> c \<noteq> CHR ''-'') raw; rest = drop (length name) raw in
      case (if rest = [] then Some 0 else parse_int64 rest) of
        None \<Rightarrow> Inl (OtherError ''MAILWISP_LOG_LEVEL: invalid offset'')
      | Some offset \<Rightarrow>
          (case level_of_name (to_upper name) of
             None \<Rightarrow> Inl (OtherError ''MAILWISP_LOG_LEVEL: unknown name'')
           | Some l \<Rightarrow> Inr (wrap64 (l + offset))))"

definition postgresDSNWithPasswordFile :: "env_source \<Rightarrow> string \<Rightarrow> string \<Rightarrow> string result" where
  "postgresDSNWithPasswordFile ev dsn passwordFile =
     (if passwordFile = [] then Inr dsn
      else case readConfiguredFile ev passwordFile 4096 of
          Inl e \<Rightarrow> Inl e
        | Inr passwordBytes \<Rightarrow>
            let password = trim_space passwordBytes in
            if password = [] \<or> length passwordBytes > 4096 \<or> CHR 0x00 \<in> set password
              then Inl (OtherError ''MAILWISP_POSTGRES_PASSWORD_FILE must contain 1 to 4096 non-NUL bytes'')
            else case ev_userinfo ev dsn password of
                None \<Rightarrow> Inl (OtherError ''MAILWISP_POSTGRES_DSN must be a URL with a username when password file is configured'')
              | Some url \<Rightarrow> Inr url)"

section \<open>Loading\<close>

definition load_http :: "env_source \<Rightarrow> http_config" where
  "load_http ev =
     \<lparr>hc_Addr = env_value ev ''HTTP_ADDR'' '':8080'',
      hc_ReadHeaderTimeout = env_duration ev ''READ_HEADER_TIMEOUT'' (seconds 5),
      hc_ReadTimeout = env_duration ev ''READ_TIMEOUT'' (seconds 10),
      hc_WriteTimeout = env_duration ev ''WRITE_TIMEOUT'' (seconds 15),
      hc_IdleTimeout = env_duration ev ''IDLE_TIMEOUT'' (seconds 60),
      hc_MaxHeaderBytes = env_integer ev ''MAX_HEADER_BYTES'' 1048576,
      hc_ReadinessTimeout = env_duration ev ''READINESS_TIMEOUT'' (seconds 2),
      hc_HeavyReadConcurrency = env_integer ev ''HEAVY_READ_CONCURRENCY'' 4,
      hc_CreateRatePerMinute = env_integer ev ''CREATE_RATE_PER_MINUTE'' 12,
      hc_CreateRateBurst = env_integer ev ''CREATE_RATE_BURST'' 4,
      hc_TrustedProxyCIDRs = commaSeparated ev ''TRUSTED_PROXY_CIDRS'' ''127.0.0.1/32,::1/128''\<rparr>"

definition load_lmtp :: "env_source \<Rightarrow> lmtp_config" where
  "load_lmtp ev =
     \<lparr>lc_Addr = env_value ev ''LMTP_ADDR'' ''127.0.0.1:2525'',
      lc_Hostname = env_value ev ''LMTP_HOSTNAME'' ''mailwisp.local'',
      lc_MaxMessageBytes = env_integer ev ''LMTP_MAX_MESSAGE_BYTES'' (25 * 2 ^ 20),
      lc_MaxCommandBytes = env_integer ev ''LMTP_MAX_COMMAND_BYTES'' 4096,
      lc_MaxDataLineBytes = env_integer ev ''LMTP_MAX_DATA_LINE_BYTES'' 65536,
      lc_MaxRecipients = env_integer ev ''LMTP_MAX_RECIPIENTS'' 100,
      lc_MaxSessions = env_integer ev ''LMTP_MAX_SESSIONS'' 64,
      lc_SessionTimeout = env_duration ev ''LMTP_SESSION_TIMEOUT'' (minutes 5),
      lc_DeliveryTimeout = env_duration ev ''LMTP_DELIVERY_TIMEOUT'' (seconds 30)\<rparr>"

definition load_parser :: "env_source \<Rightarrow> parser_config" where
  "load_parser ev =
     \<lparr>pc_Workers = env_integer ev ''PARSER_WORKERS'' 2,
      pc_PollInterval = env_duration ev ''PARSER_POLL_INTERVAL'' (seconds 1),
      pc_ParseTimeout = env_duration ev ''PARSER_TIMEOUT'' (seconds 30),
      pc_LeaseDuration = env_duration ev ''PARSER_LEASE_DURATION'' (minutes 1),
      pc_MaxAttempts = env_integer ev ''PARSER_MAX_ATTEMPTS'' 5,
      pc_RetryBase = env_duration ev ''PARSER_RETRY_BASE'' (seconds 5),
      pc_RetryMax = env_duration ev ''PARSER_RETRY_MAX'' (minutes 5)\<rparr>"

definition load_postgres :: "env_source \<Rightarrow> string \<Rightarrow> postgres_config" where
  "load_postgres ev dsn =
     \<lparr>dc_DSN = dsn,
      dc_MinConnections = env_integer32 ev ''POSTGRES_MIN_CONNECTIONS'' 1,
      dc_MaxConnections = env_integer32 ev ''POSTGRES_MAX_CONNECTIONS'' 10,
      dc_ConnectTimeout = env_duration ev ''POSTGRES_CONNECT_TIMEOUT'' (seconds 5)\<rparr>"

definition load_content :: "env_source \<Rightarrow> content_config" where
  "load_content ev =
     \<lparr>nc_Root = env_value ev ''CONTENT_ROOT'' ''./data/content'',
      nc_MaxBytes = env_integer ev ''CONTENT_MAX_BYTES'' (25 * 2 ^ 20),
      nc_MinFreeBytes = env_integer ev ''CONTENT_MIN_FREE_BYTES'' (2 ^ 30)\<rparr>"

definition load_inbox :: "env_source \<Rightarrow> inbox_config" where
  "load_inbox ev =
     \<lparr>ic_PublicDomains = commaSeparated ev ''PUBLIC_DOMAINS'' ''mailwisp.local'',
      ic_DefaultTTL = env_duration ev ''INBOX_DEFAULT_TTL'' (hours 24),
      ic_MaxTTL = env_duration ev ''INBOX_MAX_TTL'' (hours (7 * 24)),
      ic_MaxMessages = env_integer ev ''INBOX_MAX_MESSAGES'' 500,
      ic_MaxStorageBytes = env_integer ev ''INBOX_MAX_STORAGE_BYTES'' (256 * 2 ^ 20)\<rparr>"

definition load_cleanup :: "env_source \<Rightarrow> cleanup_config" where
  "load_cleanup ev =
     \<lparr>kc_BatchSize = env_integer ev ''CLEANUP_BATCH_SIZE'' 100,
      kc_Interval = env_duration ev ''CLEANUP_INTERVAL'' (minutes 5),
      kc_Timeout = env_duration ev ''CLEANUP_TIMEOUT'' (minutes 2)\<rparr>"

datatype load_error = LoadFailed go_error | ConfigInvalid "config_error list"

definition load_settings :: "env_source \<Rightarrow> config result" where
  "load_settings ev =
     (case parseLogLevel (env_value ev ''LOG_LEVEL'' ''info'') of Inl e \<Rightarrow> Inl e | Inr logLevel \<Rightarrow>
      case parseBoolean ev ''DUCKMAIL_ENABLED'' False of Inl e \<Rightarrow> Inl e | Inr duckMailEnabled \<Rightarrow>
      case parseBoolean ev ''YYDS_ENABLED'' False of Inl e \<Rightarrow> Inl e | Inr yydsEnabled \<Rightarrow>
      case parseBoolean ev ''CLOUDFLARE_TEMP_ENABLED'' False of Inl e \<Rightarrow> Inl e | Inr cloudflareTempEnabled \<Rightarrow>
      case parseBoolean ev ''CLOUDFLARE_LEGACY_PATHS_ENABLED'' False of Inl e \<Rightarrow> Inl e | Inr cloudflareLegacyPathsEnabled \<Rightarrow>
      case postgresDSNWithPasswordFile ev (env_value ev ''POSTGRES_DSN'' []) (env_var ev ''POSTGRES_PASSWORD_FILE'') of
        Inl e \<Rightarrow> Inl e | Inr postgresDSN \<Rightarrow>
      case secretKeyFromEnvironment ev ''BROWSER_SESSION_KEY'' of Inl e \<Rightarrow> Inl e | Inr browserSessionKey \<Rightarrow>
      case secretKeyFromEnvironment ev ''CREATE_QUOTA_HMAC_KEY'' of Inl e \<Rightarrow> Inl e | Inr createQuotaKey \<Rightarrow>
      Inr \<lparr>cfg_HTTP = load_http ev, cfg_LMTP = load_lmtp ev, cfg_Parser = load_parser ev,
           cfg_Postgres = load_postgres ev postgresDSN, cfg_Content = load_content ev, cfg_Inbox = load_inbox ev,
           cfg_CreateQuota = \<lparr>qc_DailyLimit = env_integer ev ''CREATE_DAILY_LIMIT'' 100, qc_HMACKey = createQuotaKey\<rparr>,
           cfg_Compatibility = \<lparr>cc_DuckMailEnabled = duckMailEnabled, cc_YYDSEnabled = yydsEnabled,
             cc_CloudflareTempEnabled = cloudflareTempEnabled, cc_CloudflareLegacyPathsEnabled = cloudflareLegacyPathsEnabled\<rparr>,
           cfg_BrowserSession = \<lparr>bc_Key = browserSessionKey, bc_Lifetime = env_duration ev ''BROWSER_SESSION_LIFETIME'' (hours 12)\<rparr>,
           cfg_Cleanup = load_cleanup ev, cfg_LogLevel = logLevel,
           cfg_ShutdownTimeout = env_duration ev ''SHUTDOWN_TIMEOUT'' (seconds 10)\<rparr>)"

definition Load :: "env_source \<Rightarrow> load_error + config" where
  "Load ev =
     (case load_settings ev of
        Inl e \<Rightarrow> Inl (LoadFailed e)
      | Inr cfg \<Rightarrow> if Validate cfg \<noteq> [] then Inl (ConfigInvalid (Validate cfg)) else Inr cfg)"

section \<open>What validation guarantees\<close>

lemma reject_Nil [simp]: "reject bad t = [] \<longleftrightarrow> \<not> bad"
  by (simp add: reject_def)

lemma domain_errors_Nil: "domain_errors seen ds = [] \<longleftrightarrow> list_all validDomain ds \<and> distinct ds \<and> set ds \<inter> seen = {}"
  by (induction ds arbitrary: seen) auto

lemmas validate_defs = validate_http_def validate_lmtp_def validate_parser_def validate_postgres_def validate_content_def
  validate_inbox_def validate_access_def validate_cleanup_def

lemma Validate_parts:
  "Validate c = [] \<longleftrightarrow>
     validate_http (cfg_HTTP c) = [] \<and> validate_lmtp (cfg_LMTP c) = [] \<and> validate_parser (cfg_Parser c) = [] \<and>
     validate_postgres (cfg_Postgres c) = [] \<and> validate_content (cfg_LMTP c) (cfg_Content c) = [] \<and>
     validate_inbox (cfg_LMTP c) (cfg_Inbox c) = [] \<and>
     validate_access (cfg_CreateQuota c) (cfg_Compatibility c) (cfg_BrowserSession c) = [] \<and>
     validate_cleanup (cfg_ShutdownTimeout c) (cfg_Cleanup c) = []"
  by (simp add: Validate_def)

lemma Load_settings: "Load ev = Inr c \<longleftrightarrow> load_settings ev = Inr c \<and> Validate c = []"
  by (auto simp: Load_def split: sum.splits)

lemma load_settings_parts:
  assumes "load_settings ev = Inr c"
  shows "cfg_HTTP c = load_http ev" "cfg_LMTP c = load_lmtp ev" "cfg_Parser c = load_parser ev"
    "cfg_Postgres c = load_postgres ev (dc_DSN (cfg_Postgres c))" "cfg_Content c = load_content ev" "cfg_Inbox c = load_inbox ev"
    "qc_DailyLimit (cfg_CreateQuota c) = env_integer ev ''CREATE_DAILY_LIMIT'' 100"
    "bc_Lifetime (cfg_BrowserSession c) = env_duration ev ''BROWSER_SESSION_LIFETIME'' (hours 12)"
    "cfg_Cleanup c = load_cleanup ev" "cfg_ShutdownTimeout c = env_duration ev ''SHUTDOWN_TIMEOUT'' (seconds 10)"
  using assms by (auto simp: load_settings_def load_postgres_def split: sum.splits)

section \<open>Malformed numbers\<close>

text \<open>
  The readers of numbers turn a malformed value into zero; it is validation that refuses zero. The
  settings below are those where it does, with their defaults; three more take zero.
\<close>

definition strict_durations :: "(string \<times> duration) list" where
  "strict_durations =
     [(''READ_HEADER_TIMEOUT'', seconds 5), (''READ_TIMEOUT'', seconds 10), (''WRITE_TIMEOUT'', seconds 15),
      (''IDLE_TIMEOUT'', seconds 60), (''READINESS_TIMEOUT'', seconds 2), (''LMTP_SESSION_TIMEOUT'', minutes 5),
      (''LMTP_DELIVERY_TIMEOUT'', seconds 30), (''PARSER_POLL_INTERVAL'', seconds 1), (''PARSER_TIMEOUT'', seconds 30),
      (''PARSER_LEASE_DURATION'', minutes 1), (''PARSER_RETRY_BASE'', seconds 5), (''PARSER_RETRY_MAX'', minutes 5),
      (''POSTGRES_CONNECT_TIMEOUT'', seconds 5), (''INBOX_DEFAULT_TTL'', hours 24), (''INBOX_MAX_TTL'', hours (7 * 24)),
      (''BROWSER_SESSION_LIFETIME'', hours 12), (''SHUTDOWN_TIMEOUT'', seconds 10)]"

definition strict_integers :: "(string \<times> int) list" where
  "strict_integers =
     [(''MAX_HEADER_BYTES'', 1048576), (''HEAVY_READ_CONCURRENCY'', 4), (''CREATE_RATE_PER_MINUTE'', 12), (''CREATE_RATE_BURST'', 4),
      (''LMTP_MAX_MESSAGE_BYTES'', 25 * 2 ^ 20), (''LMTP_MAX_COMMAND_BYTES'', 4096), (''LMTP_MAX_DATA_LINE_BYTES'', 65536),
      (''LMTP_MAX_RECIPIENTS'', 100), (''LMTP_MAX_SESSIONS'', 64), (''PARSER_WORKERS'', 2), (''PARSER_MAX_ATTEMPTS'', 5),
      (''POSTGRES_MAX_CONNECTIONS'', 10), (''CONTENT_MAX_BYTES'', 25 * 2 ^ 20), (''CONTENT_MIN_FREE_BYTES'', 2 ^ 30),
      (''INBOX_MAX_MESSAGES'', 500), (''INBOX_MAX_STORAGE_BYTES'', 256 * 2 ^ 20), (''CREATE_DAILY_LIMIT'', 100),
      (''CLEANUP_BATCH_SIZE'', 100)]"

definition duration_ok :: "env_source \<Rightarrow> string \<times> duration \<Rightarrow> bool" where
  "duration_ok ev = (\<lambda>(name, fallback). \<exists>d > 0. ParseDuration (ev_frac ev) (env_value ev name (duration_string fallback)) = Some d)"

definition integer_ok :: "env_source \<Rightarrow> string \<times> int \<Rightarrow> bool" where
  "integer_ok ev = (\<lambda>(name, fallback). \<exists>n > 0. parse_int64 (env_value ev name (format_int fallback)) = Some n)"

lemma env_duration_pos: "0 < env_duration ev name d \<Longrightarrow> duration_ok ev (name, d)"
  by (auto simp: env_duration_def duration_ok_def split: option.splits)

lemma env_integer_pos: "0 < env_integer ev name d \<Longrightarrow> integer_ok ev (name, d)"
  by (auto simp: env_integer_def integer_ok_def split: option.splits)

lemma env_integer32_pos: "0 < env_integer32 ev name d \<Longrightarrow> integer_ok ev (name, d)"
  by (auto simp: env_integer32_def integer_ok_def split: option.splits if_splits)

lemma Load_valid:
  assumes "Load ev = Inr c"
  shows "validate_http (load_http ev) = []" "validate_lmtp (load_lmtp ev) = []" "validate_parser (load_parser ev) = []"
    "validate_postgres (load_postgres ev (dc_DSN (cfg_Postgres c))) = []" "validate_content (load_lmtp ev) (load_content ev) = []"
    "validate_inbox (load_lmtp ev) (load_inbox ev) = []"
    "validate_access (cfg_CreateQuota c) (cfg_Compatibility c) (cfg_BrowserSession c) = []"
    "validate_cleanup (cfg_ShutdownTimeout c) (load_cleanup ev) = []"
  using assms load_settings_parts [of ev c] by (simp_all add: Load_settings Validate_parts)

lemma loaded_http:
  assumes "Load ev = Inr c"
  shows "0 < env_duration ev ''READ_HEADER_TIMEOUT'' (seconds 5)" "0 < env_duration ev ''READ_TIMEOUT'' (seconds 10)"
    "0 < env_duration ev ''WRITE_TIMEOUT'' (seconds 15)" "0 < env_duration ev ''IDLE_TIMEOUT'' (seconds 60)"
    "0 < env_duration ev ''READINESS_TIMEOUT'' (seconds 2)" "0 < env_integer ev ''MAX_HEADER_BYTES'' 1048576"
    "0 < env_integer ev ''HEAVY_READ_CONCURRENCY'' 4" "0 < env_integer ev ''CREATE_RATE_PER_MINUTE'' 12"
    "0 < env_integer ev ''CREATE_RATE_BURST'' 4"
  using Load_valid [OF assms] by (simp_all add: validate_http_def load_http_def)

lemma loaded_lmtp:
  assumes "Load ev = Inr c"
  shows "0 < env_integer ev ''LMTP_MAX_MESSAGE_BYTES'' (25 * 2 ^ 20)" "0 < env_integer ev ''LMTP_MAX_COMMAND_BYTES'' 4096"
    "0 < env_integer ev ''LMTP_MAX_DATA_LINE_BYTES'' 65536" "0 < env_integer ev ''LMTP_MAX_RECIPIENTS'' 100"
    "0 < env_integer ev ''LMTP_MAX_SESSIONS'' 64" "0 < env_duration ev ''LMTP_SESSION_TIMEOUT'' (minutes 5)"
    "0 < env_duration ev ''LMTP_DELIVERY_TIMEOUT'' (seconds 30)"
  using Load_valid [OF assms] by (simp_all add: validate_lmtp_def load_lmtp_def)

lemma loaded_parser:
  assumes "Load ev = Inr c"
  shows "0 < env_integer ev ''PARSER_WORKERS'' 2" "0 < env_duration ev ''PARSER_POLL_INTERVAL'' (seconds 1)"
    "0 < env_duration ev ''PARSER_TIMEOUT'' (seconds 30)" "0 < env_duration ev ''PARSER_LEASE_DURATION'' (minutes 1)"
    "0 < env_integer ev ''PARSER_MAX_ATTEMPTS'' 5" "0 < env_duration ev ''PARSER_RETRY_BASE'' (seconds 5)"
    "0 < env_duration ev ''PARSER_RETRY_MAX'' (minutes 5)"
  using Load_valid [OF assms] by (simp_all add: validate_parser_def load_parser_def)

lemma loaded_pg:
  assumes "Load ev = Inr c"
  shows "0 < env_integer32 ev ''POSTGRES_MAX_CONNECTIONS'' 10" "0 < env_duration ev ''POSTGRES_CONNECT_TIMEOUT'' (seconds 5)"
  using Load_valid(4) [OF assms] by (simp_all add: validate_postgres_def load_postgres_def)

lemma loaded_content:
  assumes "Load ev = Inr c"
  shows "0 < env_integer ev ''CONTENT_MAX_BYTES'' (25 * 2 ^ 20)" "0 < env_integer ev ''CONTENT_MIN_FREE_BYTES'' (2 ^ 30)"
  using Load_valid [OF assms] loaded_lmtp(1) [OF assms] by (simp_all add: validate_content_def load_content_def load_lmtp_def)

lemma loaded_inbox:
  assumes "Load ev = Inr c"
  shows "0 < env_duration ev ''INBOX_DEFAULT_TTL'' (hours 24)" "0 < env_duration ev ''INBOX_MAX_TTL'' (hours (7 * 24))"
    "0 < env_integer ev ''INBOX_MAX_MESSAGES'' 500" "0 < env_integer ev ''INBOX_MAX_STORAGE_BYTES'' (256 * 2 ^ 20)"
  using Load_valid [OF assms] loaded_lmtp(1) [OF assms] by (simp_all add: validate_inbox_def load_inbox_def load_lmtp_def)

lemma loaded_rest:
  assumes "Load ev = Inr c"
  shows "0 < env_integer ev ''CREATE_DAILY_LIMIT'' 100" "0 < env_duration ev ''BROWSER_SESSION_LIFETIME'' (hours 12)"
    "0 < env_duration ev ''SHUTDOWN_TIMEOUT'' (seconds 10)" "0 < env_integer ev ''CLEANUP_BATCH_SIZE'' 100"
  using Load_valid(7,8) [OF assms] load_settings_parts(7,8,10) [of ev c] assms
    by (simp_all add: Load_settings validate_access_def validate_cleanup_def load_cleanup_def)

lemma lenient_settings:
  assumes "Load ev = Inr c"
  shows "cfg_Cleanup c = load_cleanup ev" and "dc_MinConnections (cfg_Postgres c) = env_integer32 ev ''POSTGRES_MIN_CONNECTIONS'' 1"
    and "0 < kc_Interval (cfg_Cleanup c) \<Longrightarrow> 0 < kc_Timeout (cfg_Cleanup c)"
proof -
  have l: "load_settings ev = Inr c" using assms by (simp add: Load_settings)
  then show c: "cfg_Cleanup c = load_cleanup ev" "dc_MinConnections (cfg_Postgres c) = env_integer32 ev ''POSTGRES_MIN_CONNECTIONS'' 1"
    using load_settings_parts(9) [OF l] arg_cong [OF load_settings_parts(4) [OF l], of dc_MinConnections] by (simp_all add: load_postgres_def)
  show "0 < kc_Interval (cfg_Cleanup c) \<Longrightarrow> 0 < kc_Timeout (cfg_Cleanup c)"
    using Load_valid(8) [OF assms] unfolding c(1) by (auto simp: validate_cleanup_def reject_def split: if_splits)
qed

text \<open>
  C36. Malformed numbers in a loaded configuration: in all numeric settings but three, every text that was read is a well-formed
  positive duration or integer. The three are the minimum of database connections and the interval and timeout of the clean-up: a text
  that is not well-formed and positive there is accepted only where the value in force is 0 (no minimum) or the clean-up is off; and a
  malformed interval is always read as off.
\<close>

theorem loaded_numbers_well_formed:
  assumes "Load ev = Inr c"
  shows "list_all (duration_ok ev) strict_durations \<and> list_all (integer_ok ev) strict_integers \<and>
    (dc_MinConnections (cfg_Postgres c) \<noteq> 0 \<longrightarrow> integer_ok ev (''POSTGRES_MIN_CONNECTIONS'', 1)) \<and>
    (kc_Interval (cfg_Cleanup c) \<noteq> 0 \<longrightarrow>
       duration_ok ev (''CLEANUP_INTERVAL'', minutes 5) \<and> duration_ok ev (''CLEANUP_TIMEOUT'', minutes 2)) \<and>
    (ParseDuration (ev_frac ev) (env_value ev ''CLEANUP_INTERVAL'' (duration_string (minutes 5))) = None \<longrightarrow>
       kc_Interval (cfg_Cleanup c) = 0)"
proof -
  note l = lenient_settings [OF assms]
  have pos: "0 \<le> dc_MinConnections (cfg_Postgres c)" "0 \<le> kc_Interval (cfg_Cleanup c)"
    using Load_valid(4,8) [OF assms] unfolding l(1,2) by (auto simp: validate_postgres_def validate_cleanup_def load_postgres_def reject_def split: if_splits)
  have "dc_MinConnections (cfg_Postgres c) \<noteq> 0 \<longrightarrow> integer_ok ev (''POSTGRES_MIN_CONNECTIONS'', 1)"
    using pos(1) unfolding l(2) by (auto intro: env_integer32_pos)
  moreover have "kc_Interval (cfg_Cleanup c) \<noteq> 0 \<longrightarrow>
      duration_ok ev (''CLEANUP_INTERVAL'', minutes 5) \<and> duration_ok ev (''CLEANUP_TIMEOUT'', minutes 2)"
    using pos(2) l(3) unfolding l(1) by (auto simp: load_cleanup_def intro: env_duration_pos)
  moreover have "ParseDuration (ev_frac ev) (env_value ev ''CLEANUP_INTERVAL'' (duration_string (minutes 5))) = None \<longrightarrow> kc_Interval (cfg_Cleanup c) = 0"
    unfolding l(1) by (simp add: load_cleanup_def env_duration_def)
  moreover have "list_all (duration_ok ev) strict_durations \<and> list_all (integer_ok ev) strict_integers"
    unfolding strict_durations_def strict_integers_def list.pred_inject
    using loaded_http(1-5) [OF assms, THEN env_duration_pos] loaded_lmtp(6,7) [OF assms, THEN env_duration_pos]
      loaded_parser(2-4,6,7) [OF assms, THEN env_duration_pos] loaded_pg(2) [OF assms, THEN env_duration_pos]
      loaded_inbox(1,2) [OF assms, THEN env_duration_pos] loaded_rest(2,3) [OF assms, THEN env_duration_pos]
      loaded_http(6-9) [OF assms, THEN env_integer_pos] loaded_lmtp(1-5) [OF assms, THEN env_integer_pos]
      loaded_parser(1,5) [OF assms, THEN env_integer_pos] loaded_pg(1) [OF assms, THEN env_integer32_pos]
      loaded_content [OF assms, THEN env_integer_pos] loaded_inbox(3,4) [OF assms, THEN env_integer_pos]
      loaded_rest(1,4) [OF assms, THEN env_integer_pos]
    by simp
  ultimately show ?thesis by blast
qed

section \<open>Defaults\<close>

lemma env_value_unset [simp]: "env_var ev name = [] \<Longrightarrow> env_value ev name d = d"
  by (simp add: env_value_def)

lemma env_duration_unset:
  assumes "env_var ev name = []" "0 < d" "d < 2 ^ 63" "d mod 1000000000 = 0"
  shows "env_duration ev name d = d"
proof -
  obtain k where k: "d = int k * 1000000000"
    using assms(2,4) by (metis dvd_div_mult_self int_nat_eq mod_0_imp_dvd less_le pos_imp_zdiv_nonneg_iff zero_less_numeral)
  have "int (k * 1000000000) < int (2 ^ 63)" using assms(3) k by simp
  then have "k * 1000000000 < 2 ^ 63" by (subst (asm) of_nat_less_iff)
  moreover have "0 < k" using assms(2) k by simp
  ultimately show ?thesis
    using duration_roundtrip [of k "ev_frac ev"] k assms(1) by (simp add: env_duration_def)
qed

lemma env_integer_unset:
  "env_var ev name = [] \<Longrightarrow> 0 \<le> n \<Longrightarrow> n < 2 ^ 63 \<Longrightarrow> env_integer ev name n = n"
  by (simp add: env_integer_def parse_format_nat)

lemma env_integer32_unset:
  "env_var ev name = [] \<Longrightarrow> 0 \<le> n \<Longrightarrow> n < 2 ^ 31 \<Longrightarrow> env_integer32 ev name n = n"
  by (simp add: env_integer32_def parse_format_nat)

lemmas unset_values = env_duration_unset env_integer_unset env_integer32_unset

definition default_config :: "string \<Rightarrow> config" where
  "default_config dsn =
     \<lparr>cfg_HTTP = \<lparr>hc_Addr = '':8080'', hc_ReadHeaderTimeout = seconds 5, hc_ReadTimeout = seconds 10, hc_WriteTimeout = seconds 15,
        hc_IdleTimeout = minutes 1, hc_MaxHeaderBytes = 1048576, hc_ReadinessTimeout = seconds 2, hc_HeavyReadConcurrency = 4,
        hc_CreateRatePerMinute = 12, hc_CreateRateBurst = 4, hc_TrustedProxyCIDRs = [''127.0.0.1/32'', ''::1/128'']\<rparr>,
      cfg_LMTP = \<lparr>lc_Addr = ''127.0.0.1:2525'', lc_Hostname = ''mailwisp.local'', lc_MaxMessageBytes = 26214400,
        lc_MaxCommandBytes = 4096, lc_MaxDataLineBytes = 65536, lc_MaxRecipients = 100, lc_MaxSessions = 64,
        lc_SessionTimeout = minutes 5, lc_DeliveryTimeout = seconds 30\<rparr>,
      cfg_Parser = \<lparr>pc_Workers = 2, pc_PollInterval = seconds 1, pc_ParseTimeout = seconds 30, pc_LeaseDuration = minutes 1,
        pc_MaxAttempts = 5, pc_RetryBase = seconds 5, pc_RetryMax = minutes 5\<rparr>,
      cfg_Postgres = \<lparr>dc_DSN = dsn, dc_MinConnections = 1, dc_MaxConnections = 10, dc_ConnectTimeout = seconds 5\<rparr>,
      cfg_Content = \<lparr>nc_Root = ''./data/content'', nc_MaxBytes = 26214400, nc_MinFreeBytes = 1073741824\<rparr>,
      cfg_Inbox = \<lparr>ic_PublicDomains = [''mailwisp.local''], ic_DefaultTTL = hours 24, ic_MaxTTL = hours 168,
        ic_MaxMessages = 500, ic_MaxStorageBytes = 268435456\<rparr>,
      cfg_CreateQuota = \<lparr>qc_DailyLimit = 100, qc_HMACKey = []\<rparr>,
      cfg_Compatibility = \<lparr>cc_DuckMailEnabled = False, cc_YYDSEnabled = False, cc_CloudflareTempEnabled = False,
        cc_CloudflareLegacyPathsEnabled = False\<rparr>,
      cfg_BrowserSession = \<lparr>bc_Key = [], bc_Lifetime = hours 12\<rparr>,
      cfg_Cleanup = \<lparr>kc_BatchSize = 100, kc_Interval = minutes 5, kc_Timeout = minutes 2\<rparr>,
      cfg_LogLevel = 0, cfg_ShutdownTimeout = seconds 10\<rparr>"

lemma to_lower_plain: "list_all (\<lambda>c. is_ascii c \<and> lower_char c = c) s \<Longrightarrow> to_lower s = s"
proof (induction s rule: to_lower.induct)
  case (2 a s)
  then show ?case by (auto simp: is_ascii_def split: list.splits)
qed simp

lemmas literal_text = trim_space_plain to_lower_plain plain_char_def is_ascii_def ascii_space_def lower_char_def

lemma default_domains:
  "filter (\<lambda>v. v \<noteq> []) (map (\<lambda>part. to_lower (trim_space part)) (split_on CHR '','' ''mailwisp.local'')) = [''mailwisp.local'']"
  by (simp add: literal_text del: to_lower.simps)

lemma default_proxies:
  "filter (\<lambda>v. v \<noteq> []) (map (\<lambda>part. to_lower (trim_space part)) (split_on CHR '','' ''127.0.0.1/32,::1/128'')) = [''127.0.0.1/32'', ''::1/128'']"
  by (simp add: literal_text del: to_lower.simps)

lemma default_level: "parseLogLevel ''info'' = Inr 0"
  by (simp add: parseLogLevel_def level_of_name_def upper_char_def wrap64_def char_of_def bit_0)

lemma default_texts:
  "trim_space '':8080'' \<noteq> []" "trim_space ''127.0.0.1:2525'' \<noteq> []" "trim_space ''mailwisp.local'' \<noteq> []" "trim_space ''./data/content'' \<noteq> []"
  by (simp_all add: literal_text)

lemma default_domain_valid: "validDomain ''mailwisp.local''"
  by (simp add: validDomain_def valid_label_def domain_char_def in_range_def has_suffix_def)

lemma default_cidr4: "ParseCIDR ''127.0.0.1/32'' \<noteq> None"
  by (simp add: ParseCIDR_def cut_def ParseAddr_def prefix_bits_def is_digit_def in_range_def)

lemma default_cidr6: "ParseCIDR ''::1/128'' \<noteq> None"
  by (simp add: ParseCIDR_def cut_def ParseAddr_def parseIPv6_def parseIPv6Groups.simps [of _ "[]"] parseIPv6Group_def
      hex_val_def prefix_bits_def is_digit_def in_range_def Let_def)

lemmas default_valid_texts = default_texts default_domain_valid default_cidr4 default_cidr6

lemma default_config_valid: "trim_space dsn \<noteq> [] \<Longrightarrow> Validate (default_config dsn) = []"
  by (simp add: Validate_def validate_defs default_config_def default_valid_texts)

lemma default_flag: "env_var ev name = [] \<Longrightarrow> parseBoolean ev name False = Inr False"
  by (simp add: parseBoolean_def ParseBool_def)

definition only_dsn :: "string \<Rightarrow> env_source \<Rightarrow> bool" where
  "only_dsn dsn ev \<longleftrightarrow> (\<forall>name. env_var ev name = (if name = ''POSTGRES_DSN'' then dsn else []))"

lemma only_dsn_unset: "only_dsn dsn ev \<Longrightarrow> name \<noteq> ''POSTGRES_DSN'' \<Longrightarrow> env_var ev name = []"
  by (simp add: only_dsn_def)

lemma default_key: "only_dsn dsn ev \<Longrightarrow> name \<noteq> ''POSTGRES_DSN'' \<Longrightarrow> name @ ''_FILE'' \<noteq> ''POSTGRES_DSN'' \<Longrightarrow> secretKeyFromEnvironment ev name = Inr []"
  by (simp add: secretKeyFromEnvironment_def decodeSecretKey_def only_dsn_unset)

lemma load_settings_default:
  assumes "only_dsn dsn ev"
  shows "load_settings ev = Inr (default_config dsn)"
proof -
  note u = only_dsn_unset [OF assms]
  have dsn: "env_value ev ''POSTGRES_DSN'' [] = dsn" using assms by (simp add: only_dsn_def env_value_def)
  have "load_http ev = cfg_HTTP (default_config dsn)"
    by (simp add: load_http_def default_config_def u unset_values commaSeparated_def default_proxies del: filter.simps list.map split_on.simps)
  moreover have "load_lmtp ev = cfg_LMTP (default_config dsn)" "load_parser ev = cfg_Parser (default_config dsn)"
    "load_postgres ev dsn = cfg_Postgres (default_config dsn)" "load_content ev = cfg_Content (default_config dsn)"
    "load_cleanup ev = cfg_Cleanup (default_config dsn)"
    by (simp_all add: load_lmtp_def load_parser_def load_postgres_def load_content_def load_cleanup_def default_config_def u unset_values)
  moreover have "load_inbox ev = cfg_Inbox (default_config dsn)"
    by (simp add: load_inbox_def default_config_def u unset_values commaSeparated_def default_domains del: filter.simps list.map split_on.simps)
  ultimately show ?thesis
    by (simp add: load_settings_def u unset_values default_level default_flag default_key [OF assms] postgresDSNWithPasswordFile_def dsn)
       (simp add: default_config_def)
qed

text \<open>
  With no setting but the connection string, loading succeeds and gives the documented defaults.
\<close>

theorem Load_defaults:
  assumes "only_dsn dsn ev" and "trim_space dsn \<noteq> []"
  shows "Load ev = Inr (default_config dsn)"
  using assms load_settings_default default_config_valid by (simp add: Load_settings)

section \<open>Secret keys\<close>

text \<open>Base64 with padding, as the usual tools print it.\<close>

definition b64std_char :: "nat \<Rightarrow> char" where
  "b64std_char n = (if n = 62 then CHR ''+'' else if n = 63 then CHR ''/'' else b64_char n)"

definition b64std_encode :: "bytes \<Rightarrow> string" where
  "b64std_encode bs = map b64std_char (b64_digits bs) @ replicate ((4 - length (b64_digits bs) mod 4) mod 4) CHR ''=''"

lemma b64std_table:
  "list_all (\<lambda>n. b64std_val (b64std_char n) = Some n \<and> b64std_char n \<notin> {CHR 10, CHR 13, CHR ''=''}) [0..<64]"
  by code_simp

lemma b64std_char_val: "n < 64 \<Longrightarrow> b64std_val (b64std_char n) = Some n \<and> b64std_char n \<notin> {CHR 10, CHR 13, CHR ''=''}"
  using b64std_table by (simp add: list_all_iff)

lemma those_None: "None \<in> set xs \<Longrightarrow> those xs = None"
  by (induction xs) (auto split: option.splits)

lemma b64std_encode_key: "length k = 32 \<Longrightarrow> b64std_encode k = map b64std_char (b64_digits k) @ ''=''"
  by (simp add: b64std_encode_def length_b64_digits)

lemma b64std_decode_key:
  assumes "length k = 32"
  shows "b64std_decode strict (b64std_encode k) = Some k"
proof -
  let ?d = "map b64std_char (b64_digits k)"
  have ch: "\<forall>c \<in> set ?d. c \<notin> {CHR 10, CHR 13, CHR ''=''}" using b64std_char_val b64_digits_less by auto
  have len: "length ?d = 43" using assms by (simp add: length_b64_digits)
  have clean: "filter (\<lambda>c. c \<noteq> CHR 10 \<and> c \<noteq> CHR 13) (?d @ ''='') = ?d @ ''=''" using ch by (auto simp: filter_id_conv)
  have "last ?d \<in> set ?d" using len by (intro last_in_set) auto
  then have l: "last ?d \<noteq> CHR ''=''" using ch by blast
  obtain ds x where d: "?d = ds @ [x]" using len by (cases ?d rule: rev_cases) auto
  have suf: "\<not> has_suffix (?d @ ''='') ''==''" "has_suffix (?d @ ''='') ''=''"
    using l unfolding d by (simp_all add: has_suffix_def)
  have vals: "those (map b64std_val ?d) = Some (b64_digits k)"
    using b64std_char_val b64_digits_less by (intro those_map_Some) blast
  show ?thesis
    unfolding b64std_encode_key [OF assms] b64std_decode_def clean Let_def using suf len vals by simp
qed

lemma b64_decode_padded: "CHR ''='' \<in> set s \<Longrightarrow> b64_decode strict s = None"
proof -
  assume "CHR ''='' \<in> set s"
  moreover have "b64_val CHR ''='' = None" by (simp add: b64_val_def in_range_def)
  ultimately have "None \<in> set (map b64_val (filter (\<lambda>c. c \<noteq> CHR 10 \<and> c \<noteq> CHR 13) s))" by (force simp: image_iff)
  then show ?thesis by (simp add: b64_decode_def those_None)
qed

text \<open>
  A key of 32 bytes is read back from the environment, in base64url without padding and in standard
  base64 with padding.
\<close>

theorem secret_key_roundtrip:
  assumes "length k = 32" and "env_var ev (name @ ''_FILE'') = []"
    and "env_var ev name = b64_encode k \<or> env_var ev name = b64std_encode k"
  shows "secretKeyFromEnvironment ev name = Inr k"
proof -
  have "(case b64_decode True (env_var ev name) of Some d \<Rightarrow> Some d | None \<Rightarrow> b64std_decode True (env_var ev name)) = Some k"
    using assms(1,3) b64std_decode_key [OF assms(1), of True] b64_decode_padded [of "b64std_encode k" True]
    by (auto simp: b64std_encode_key)
  moreover have "env_var ev name \<noteq> []"
    using assms(1,3) by (auto simp: b64std_encode_key b64_encode_def dest!: arg_cong [of _ _ length] simp: length_b64_digits)
  ultimately show ?thesis
    using assms(1,2) by (simp add: secretKeyFromEnvironment_def decodeSecretKey_def decode_key_def)
qed

section \<open>Witnesses\<close>

definition sample_env :: "(string \<times> string) list \<Rightarrow> env_source" where
  "sample_env settings =
     \<lparr>ev_getenv = (\<lambda>n. case map_of settings n of None \<Rightarrow> [] | Some v \<Rightarrow> v), ev_file = (\<lambda>_. Inl ErrNotExist),
      ev_frac = (\<lambda>f u s. f * u div s), ev_userinfo = (\<lambda>_ _. None)\<rparr>"

definition sample_dsn :: string where
  "sample_dsn = ''postgres://localhost/mailwisp''"

lemma trim_sample_dsn: "trim_space sample_dsn = sample_dsn"
  by (simp add: sample_dsn_def literal_text)

lemma trim_space_Nil [simp]: "trim_space [] = []"
  by (simp add: trim_space_plain)

lemma sample_only_dsn: "only_dsn sample_dsn (sample_env [(''MAILWISP_POSTGRES_DSN'', sample_dsn)])"
  by (simp add: only_dsn_def env_var_def sample_env_def trim_sample_dsn)

lemma sample_dsn_given: "trim_space sample_dsn \<noteq> []"
  by (simp add: trim_sample_dsn) (simp add: sample_dsn_def)

theorem Load_defaults_witness:
  "Load (sample_env [(''MAILWISP_POSTGRES_DSN'', sample_dsn)]) = Inr (default_config sample_dsn)"
  using sample_only_dsn sample_dsn_given by (rule Load_defaults)

lemma sample_Load: "Load (sample_env [(''MAILWISP_POSTGRES_DSN'', sample_dsn)]) = Inr (default_config sample_dsn)"
  using sample_only_dsn sample_dsn_given load_settings_default default_config_valid by (simp add: Load_settings)

theorem loaded_numbers_well_formed_witness:
  "list_all (duration_ok (sample_env [(''MAILWISP_POSTGRES_DSN'', sample_dsn)])) strict_durations \<and>
   duration_ok (sample_env [(''MAILWISP_POSTGRES_DSN'', sample_dsn)]) (''CLEANUP_TIMEOUT'', minutes 2)"
  using loaded_numbers_well_formed [OF sample_Load] by (simp add: default_config_def)

lemma b64_val_plain: "b64_val c = Some n \<Longrightarrow> plain_char c"
  by (auto simp: b64_val_def in_range_def plain_char_def is_ascii_def ascii_space_def split: if_splits)

lemma trim_b64_encode: "trim_space (b64_encode k) = b64_encode k"
proof (rule trim_space_plain)
  have "\<forall>c \<in> set (b64_encode k). plain_char c"
    using b64_val_plain [OF b64_char_val] b64_digits_less by (auto simp: b64_encode_def)
  then show "b64_encode k = [] \<or> plain_char (hd (b64_encode k)) \<and> plain_char (last (b64_encode k))"
    by (cases "b64_encode k = []") auto
qed

definition zero_key :: bytes where
  "zero_key = replicate 32 (CHR 0x00)"

lemma sample_key_env:
  "env_var (sample_env [(''MAILWISP_KEY'', b64_encode zero_key)]) ''KEY'' = b64_encode zero_key"
  "env_var (sample_env [(''MAILWISP_KEY'', b64_encode zero_key)]) (''KEY'' @ ''_FILE'') = []"
  by (simp_all add: env_var_def sample_env_def trim_b64_encode)

theorem secret_key_roundtrip_witness:
  "secretKeyFromEnvironment (sample_env [(''MAILWISP_KEY'', b64_encode zero_key)]) ''KEY'' = Inr zero_key"
  using sample_key_env by (intro secret_key_roundtrip) (simp_all add: zero_key_def)

end
