(* ===== verification/Compat_Tables.thy ===== *)
theory Compat_Tables
  imports Mailbox_Service Wisp_Config
begin

text \<open>
  The tables of the compatibility adapters, \<^verbatim>\<open>migrations/000004\<close> and \<^verbatim>\<open>000005\<close>, beside the tables of the
  mailbox, and how an operation on the mailbox tables acts on them: the foreign keys are
  \<^verbatim>\<open>ON DELETE CASCADE\<close>, so a row whose Inbox or message disappears disappears with it.

  Identity values are drawn by PostgreSQL and are an input of the statements, as generated
  UUIDs are; the primary key rejects a value that is in use.
\<close>

section \<open>Tables\<close>

record credential_row =
  cd_inbox :: string
  cd_hash :: string
  cd_created :: time
  cd_updated :: time

record cf_inbox_row =
  fi_id :: int
  fi_inbox :: string

record cf_message_row =
  fm_id :: int
  fm_inbox :: string
  fm_message :: string

record compat_db =
  cm_db :: db
  cm_credentials :: "credential_row list"
  cm_inbox_ids :: "cf_inbox_row list"
  cm_message_ids :: "cf_message_row list"

definition empty_compat :: compat_db where
  "empty_compat = \<lparr>cm_db = empty_db, cm_credentials = [], cm_inbox_ids = [], cm_message_ids = []\<rparr>"

section \<open>Cascades\<close>

abbreviation inbox_keys_of :: "db \<Rightarrow> string set" where
  "inbox_keys_of d \<equiv> ib_id ` set (inboxes d)"

abbreviation message_keys_of :: "db \<Rightarrow> string set" where
  "message_keys_of d \<equiv> ms_id ` set (messages d)"

definition cascade :: "db \<Rightarrow> compat_db \<Rightarrow> compat_db" where
  "cascade d' c =
     \<lparr>cm_db = d',
      cm_credentials = filter (\<lambda>r. cd_inbox r \<in> inbox_keys_of d') (cm_credentials c),
      cm_inbox_ids = filter (\<lambda>r. fi_inbox r \<in> inbox_keys_of d') (cm_inbox_ids c),
      cm_message_ids = filter (\<lambda>r. fm_inbox r \<in> inbox_keys_of d' \<and> fm_message r \<in> message_keys_of d') (cm_message_ids c)\<rparr>"

definition on_db :: "(db \<Rightarrow> 'a \<times> db) \<Rightarrow> compat_db \<Rightarrow> 'a \<times> compat_db" where
  "on_db f c = (case f (cm_db c) of (x, d') \<Rightarrow> (x, cascade d' c))"

definition lift_stmt :: "'a stmt \<Rightarrow> (compat_db, 'a) stmt_on" where
  "lift_stmt q c = (case q (cm_db c) of Inl e \<Rightarrow> Inl e | Inr (x, d') \<Rightarrow> Inr (x, cascade d' c))"

section \<open>Constraints\<close>

definition digit_string :: "string \<Rightarrow> bool" where
  "digit_string s \<longleftrightarrow> s \<noteq> [] \<and> list_all is_digit s"

definition b64std_string :: "string \<Rightarrow> bool" where
  "b64std_string s \<longleftrightarrow> s \<noteq> [] \<and> list_all (\<lambda>c. b64std_val c \<noteq> None) s"

text \<open>The regular expression of \<^verbatim>\<open>duckmail_credentials_password_hash_valid\<close>, split at its separators.\<close>

definition hash_valid :: "string \<Rightarrow> bool" where
  "hash_valid h \<longleftrightarrow> length h \<le> 512 \<and>
     (case split_on CHR ''$'' h of
        [e, alg, ver, params, salt, key] \<Rightarrow>
          e = [] \<and> alg = ''argon2id'' \<and> ver = ''v=19'' \<and> b64std_string salt \<and> b64std_string key \<and>
          (case split_on CHR '','' params of
             [m, t, p] \<Rightarrow> has_prefix m ''m='' \<and> digit_string (drop 2 m) \<and> has_prefix t ''t='' \<and> digit_string (drop 2 t) \<and>
               has_prefix p ''p='' \<and> digit_string (drop 2 p)
           | _ \<Rightarrow> False)
      | _ \<Rightarrow> False)"

definition wf_credentials :: "compat_db \<Rightarrow> bool" where
  "wf_credentials c \<longleftrightarrow> distinct (map cd_inbox (cm_credentials c)) \<and>
     list_all (\<lambda>r. cd_inbox r \<in> inbox_keys_of (cm_db c) \<and> hash_valid (cd_hash r)) (cm_credentials c)"

definition wf_inbox_ids :: "compat_db \<Rightarrow> bool" where
  "wf_inbox_ids c \<longleftrightarrow> distinct (map fi_id (cm_inbox_ids c)) \<and> distinct (map fi_inbox (cm_inbox_ids c)) \<and>
     list_all (\<lambda>r. fi_inbox r \<in> inbox_keys_of (cm_db c) \<and> 0 < fi_id r) (cm_inbox_ids c)"

text \<open>
  No constraint ties the two foreign keys of a message identifier together; that the Inbox of the row
  is the Inbox of the message is an invariant of the code.
\<close>

definition wf_message_ids :: "compat_db \<Rightarrow> bool" where
  "wf_message_ids c \<longleftrightarrow> distinct (map fm_id (cm_message_ids c)) \<and> distinct (map fm_message (cm_message_ids c)) \<and>
     list_all (\<lambda>r. fm_inbox r \<in> inbox_keys_of (cm_db c) \<and> 0 < fm_id r \<and>
       list_ex (\<lambda>m. ms_id m = fm_message r \<and> ms_inbox m = fm_inbox r) (messages (cm_db c))) (cm_message_ids c)"

definition compat_wf :: "compat_db \<Rightarrow> bool" where
  "compat_wf c \<longleftrightarrow> db_wf (cm_db c) \<and> wf_credentials c \<and> wf_inbox_ids c \<and> wf_message_ids c"

lemma compat_wf_empty: "compat_wf empty_compat"
  using db_wf_empty
  by (simp add: compat_wf_def empty_compat_def wf_credentials_def wf_inbox_ids_def wf_message_ids_def)

lemma cm_db_cascade [simp]: "cm_db (cascade d' c) = d'"
  by (simp add: cascade_def)

text \<open>An operation that neither moves a message to another Inbox nor breaks the mailbox tables keeps the invariant.\<close>

definition messages_stay :: "db \<Rightarrow> db \<Rightarrow> bool" where
  "messages_stay d d' \<longleftrightarrow> (\<forall>m \<in> set (messages d). \<forall>m' \<in> set (messages d'). ms_id m' = ms_id m \<longrightarrow> ms_inbox m' = ms_inbox m)"

lemma message_id_row:
  assumes "compat_wf c" and "r \<in> set (cm_message_ids c)"
  obtains m where "m \<in> set (messages (cm_db c))" and "ms_id m = fm_message r" and "ms_inbox m = fm_inbox r"
    and "fm_inbox r \<in> inbox_keys_of (cm_db c)" and "0 < fm_id r"
  using assms by (auto simp: compat_wf_def wf_message_ids_def list_all_iff list_ex_iff)

lemma cascade_wf:
  assumes "compat_wf c" and "db_wf d'" and "messages_stay (cm_db c) d'"
  shows "compat_wf (cascade d' c)"
proof -
  have "wf_credentials (cascade d' c)" "wf_inbox_ids (cascade d' c)"
    using assms(1) by (auto simp: compat_wf_def wf_credentials_def wf_inbox_ids_def cascade_def list_all_iff distinct_map_filter)
  moreover have "wf_message_ids (cascade d' c)"
    unfolding wf_message_ids_def list_all_iff
  proof (intro conjI ballI)
    fix r assume r: "r \<in> set (cm_message_ids (cascade d' c))"
    then obtain m' where m': "m' \<in> set (messages d')" "ms_id m' = fm_message r" by (auto simp: cascade_def)
    obtain m where m: "m \<in> set (messages (cm_db c))" "ms_id m = fm_message r" "ms_inbox m = fm_inbox r"
      using message_id_row [OF assms(1), of r] r by (auto simp: cascade_def)
    have "ms_inbox m' = fm_inbox r" using assms(3) m m' by (auto simp: messages_stay_def)
    then show "list_ex (\<lambda>m. ms_id m = fm_message r \<and> ms_inbox m = fm_inbox r) (messages (cm_db (cascade d' c)))"
      using m' by (auto simp: list_ex_iff)
    show "fm_inbox r \<in> inbox_keys_of (cm_db (cascade d' c))" "0 < fm_id r"
      using r assms(1) by (auto simp: compat_wf_def wf_message_ids_def list_all_iff cascade_def)
  qed (use assms(1) in \<open>auto simp: compat_wf_def wf_message_ids_def cascade_def distinct_map_filter\<close>)
  ultimately show ?thesis using assms(2) by (simp add: compat_wf_def)
qed

lemma cascade_keeps:
  assumes "compat_wf c" and "inbox_keys_of (cm_db c) \<subseteq> inbox_keys_of d'" and "message_keys_of (cm_db c) \<subseteq> message_keys_of d'"
  shows "cascade d' c = c\<lparr>cm_db := d'\<rparr>"
proof -
  have "filter (\<lambda>r. cd_inbox r \<in> inbox_keys_of d') (cm_credentials c) = cm_credentials c"
    "filter (\<lambda>r. fi_inbox r \<in> inbox_keys_of d') (cm_inbox_ids c) = cm_inbox_ids c"
    using assms(1,2) by (auto simp: compat_wf_def wf_credentials_def wf_inbox_ids_def list_all_iff intro!: filter_True)
  moreover have "filter (\<lambda>r. fm_inbox r \<in> inbox_keys_of d' \<and> fm_message r \<in> message_keys_of d') (cm_message_ids c) = cm_message_ids c"
  proof (intro filter_True ballI)
    fix r assume "r \<in> set (cm_message_ids c)"
    then obtain m where "m \<in> set (messages (cm_db c))" "ms_id m = fm_message r" "fm_inbox r \<in> inbox_keys_of (cm_db c)"
      using message_id_row [OF assms(1)] by metis
    then have "fm_inbox r \<in> inbox_keys_of (cm_db c)" "fm_message r \<in> message_keys_of (cm_db c)" by force+
    then show "fm_inbox r \<in> inbox_keys_of d' \<and> fm_message r \<in> message_keys_of d'" using assms(2,3) by blast
  qed
  ultimately show ?thesis by (simp add: cascade_def)
qed

end
