(* ===== verification/Duck_Mail.thy ===== *)
theory Duck_Mail
  imports Compat_Tables
begin

text \<open>
  The DuckMail adapter: password hashes (\<^verbatim>\<open>internal/duckmail/password.go\<close>), the account repository
  (\<^verbatim>\<open>internal/postgres/duckmail_repository.go\<close>) and the service (\<^verbatim>\<open>internal/duckmail/service.go\<close>).

  \<^verbatim>\<open>argon2.IDKey\<close> is a parameter; that it returns as many bytes as asked for is a hypothesis of the lemmas
  that need it. Which of a free slot and a cancelled context the \<^verbatim>\<open>select\<close> of \<^verbatim>\<open>withKDF\<close> takes is part of
  the environment.
\<close>

section \<open>Passwords\<close>

text \<open>Password, salt, time, memory, threads and the length of the key.\<close>

type_synonym argon2 = "bytes \<Rightarrow> bytes \<Rightarrow> int \<Rightarrow> int \<Rightarrow> int \<Rightarrow> nat \<Rightarrow> bytes"

definition passwordMemoryKiB :: int where "passwordMemoryKiB = 19 * 1024"
definition passwordIterations :: int where "passwordIterations = 2"
definition passwordParallelism :: int where "passwordParallelism = 1"
definition passwordSaltBytes :: nat where "passwordSaltBytes = 16"
definition passwordKeyBytes :: nat where "passwordKeyBytes = 32"

lemmas password_constants = passwordMemoryKiB_def passwordIterations_def passwordParallelism_def passwordSaltBytes_def passwordKeyBytes_def

text \<open>\<^verbatim>\<open>base64.RawStdEncoding\<close>\<close>

definition rawstd_encode :: "bytes \<Rightarrow> string" where
  "rawstd_encode bs = map b64std_char (b64_digits bs)"

definition rawstd_decode :: "bool \<Rightarrow> string \<Rightarrow> bytes option" where
  "rawstd_decode strict s =
     Option.bind (those (map b64std_val (filter (\<lambda>c. c \<noteq> CHR 10 \<and> c \<noteq> CHR 13) s))) (b64_undigits strict)"

definition hashPassword :: "argon2 \<Rightarrow> bytes \<Rightarrow> string \<Rightarrow> string result" where
  "hashPassword idkey random password =
     (case read_full passwordSaltBytes random of
        Inl e \<Rightarrow> Inl e
      | Inr (salt, _) \<Rightarrow>
          let key = idkey password salt passwordIterations passwordMemoryKiB passwordParallelism passwordKeyBytes in
          Inr (''$argon2id$v='' @ format_int 19 @ ''$m='' @ format_int passwordMemoryKiB @ '',t='' @ format_int passwordIterations @
               '',p='' @ format_int passwordParallelism @ ''$'' @ rawstd_encode salt @ ''$'' @ rawstd_encode key))"

definition parseParameter :: "string \<Rightarrow> string \<Rightarrow> int option" where
  "parseParameter raw pre =
     (if \<not> has_prefix raw pre then None
      else case parse_int64 (trim_prefix raw pre) of None \<Rightarrow> None | Some v \<Rightarrow> if v > 0 then Some v else None)"

definition verifyPassword :: "argon2 \<Rightarrow> string \<Rightarrow> string \<Rightarrow> bool" where
  "verifyPassword idkey encoded password =
     (case split_on CHR ''$'' encoded of
        [_, alg, ver, params, rawSalt, rawKey] \<Rightarrow>
          if alg \<noteq> ''argon2id'' \<or> ver \<noteq> ''v=19'' then False
          else (case split_on CHR '','' params of
              [m, t, p] \<Rightarrow>
                if parseParameter m ''m='' \<noteq> Some passwordMemoryKiB then False
                else if parseParameter t ''t='' \<noteq> Some passwordIterations then False
                else if parseParameter p ''p='' \<noteq> Some passwordParallelism then False
                else (case rawstd_decode True rawSalt of
                    None \<Rightarrow> False
                  | Some salt \<Rightarrow>
                      if length salt \<noteq> passwordSaltBytes then False
                      else (case rawstd_decode True rawKey of
                          None \<Rightarrow> False
                        | Some want \<Rightarrow>
                            if length want \<noteq> passwordKeyBytes then False
                            else idkey password salt passwordIterations passwordMemoryKiB passwordParallelism passwordKeyBytes = want))
            | _ \<Rightarrow> False)
      | _ \<Rightarrow> False)"

section \<open>The account repository\<close>

record new_account =
  na_address :: string
  na_hash :: string
  na_created :: time
  na_expires :: time

record duck_account =
  da_inbox :: inbox
  da_hash :: string

definition sql_insert_credential :: "string \<Rightarrow> string \<Rightarrow> time \<Rightarrow> (compat_db, unit) stmt_on" where
  "sql_insert_credential inboxID hash t c =
     (if \<not> hash_valid hash then Inl (CheckViolation ''duckmail_credentials_password_hash_valid'')
      else if inboxID \<in> cd_inbox ` set (cm_credentials c) then Inl (UniqueViolation ''duckmail_credentials_pkey'')
      else if inboxID \<notin> inbox_keys_of (cm_db c) then Inl (ForeignKeyViolation ''duckmail_credentials_inbox_id_fkey'')
      else Inr ((), c\<lparr>cm_credentials := cm_credentials c @ [\<lparr>cd_inbox = inboxID, cd_hash = hash, cd_created = t, cd_updated = t\<rparr>]\<rparr>))"

fun create_account_error :: "sql_error \<Rightarrow> go_error" where
  "create_account_error (UniqueViolation _) = ErrAccountConflict"
| "create_account_error e = sql_wrap e"

definition create_account_tx :: "string \<Rightarrow> new_account \<Rightarrow> (compat_db, inbox) tx_on" where
  "create_account_tx newid a =
     tx_bind (stmt create_account_error
         (lift_stmt (sql_insert_inbox newid \<lparr>ni_address = na_address a, ni_expires = na_expires a, ni_created = na_created a\<rparr>))) (\<lambda>inbox.
     tx_bind (stmt sql_wrap (sql_insert_credential (in_id inbox) (na_hash a) (na_created a))) (\<lambda>_.
       tx_return inbox))"

definition repo_CreateAccount :: "string \<Rightarrow> new_account \<Rightarrow> (nat \<Rightarrow> fault) \<Rightarrow> compat_db \<Rightarrow> inbox result \<times> compat_db" where
  "repo_CreateAccount newid a flt c = run_tx (create_account_tx newid a) flt c"

definition account_rows :: "time \<Rightarrow> string \<Rightarrow> compat_db \<Rightarrow> duck_account list" where
  "account_rows now address c =
     List.map_filter (\<lambda>cr.
       case find_inbox (cm_db c) (cd_inbox cr) of
         None \<Rightarrow> None
       | Some r \<Rightarrow>
           if ib_address r = address \<and> inbox_live now r then Some \<lparr>da_inbox = inbox_of r, da_hash = cd_hash cr\<rparr> else None)
       (cm_credentials c)"

definition FindAccountByAddress :: "time \<Rightarrow> string \<Rightarrow> fault \<Rightarrow> compat_db \<Rightarrow> duck_account result" where
  "FindAccountByAddress now address flt c =
     (case fst (run_stmt sql_wrap (query (account_rows now address)) flt c) of
        Inl e \<Rightarrow> Inl e
      | Inr [] \<Rightarrow> Inl ErrLoginFailed
      | Inr (a # _) \<Rightarrow> Inr a)"

section \<open>The service\<close>

record duck_options =
  dk_PublicDomains :: "string list"
  dk_DefaultTTL :: duration
  dk_MaxTTL :: duration

record duck_service =
  ds_domains :: "string list"
  ds_defaultTTL :: duration
  ds_maxTTL :: duration
  ds_dummyHash :: string

definition NewDuckService :: "argon2 \<Rightarrow> bytes \<Rightarrow> bool \<Rightarrow> bool \<Rightarrow> bool \<Rightarrow> duck_options \<Rightarrow> duck_service result" where
  "NewDuckService idkey random repository mailboxes issuer opts =
     (if \<not> repository \<or> \<not> mailboxes \<or> \<not> issuer
      then Inl (OtherError ''DuckMail repository, mailbox service, and capability issuer are required'')
      else if dk_PublicDomains opts = [] \<or> dk_DefaultTTL opts \<le> 0 \<or> dk_MaxTTL opts < dk_DefaultTTL opts
      then Inl (OtherError ''DuckMail options are invalid'')
      else case hashPassword idkey random ''mailwisp-dummy-password'' of
          Inl e \<Rightarrow> Inl e
        | Inr dummyHash \<Rightarrow>
            Inr \<lparr>ds_domains = map (\<lambda>d. to_lower (trim_space d)) (dk_PublicDomains opts),
                 ds_defaultTTL = dk_DefaultTTL opts, ds_maxTTL = dk_MaxTTL opts, ds_dummyHash = dummyHash\<rparr>)"

definition validateAddress :: "duck_service \<Rightarrow> string \<Rightarrow> string option" where
  "validateAddress sv raw =
     (let address = to_lower (trim_space raw) in
      case cut address CHR ''@'' of (local, domain, found) \<Rightarrow>
        if \<not> found \<or> length local < 3 \<or> \<not> ValidInboxLocalPart local then None
        else if domain \<notin> set (ds_domains sv) then None
        else Some address)"

record duck_env =
  du_ctx :: ctx
  du_kdf :: "go_error option"
  du_random :: bytes
  du_now :: time
  du_newid :: string
  du_txflt :: "nat \<Rightarrow> fault"
  du_flt :: fault
  du_db_now :: time
  du_issue_now :: time
  du_issue_random :: "nat \<Rightarrow> bytes"
  du_issue_env :: "nat \<Rightarrow> cap_env"

record account_request =
  ar_address :: string
  ar_password :: string
  ar_expires_in :: "int option"

definition account_lifetime :: "duck_service \<Rightarrow> int option \<Rightarrow> duration result" where
  "account_lifetime sv expiresIn =
     (case expiresIn of
        None \<Rightarrow> Inr (ds_defaultTTL sv)
      | Some n \<Rightarrow>
          if n = 0 \<or> n = - 1 then Inl ErrPermanentUnsupported
          else if n < 0 \<or> n > ds_maxTTL sv div seconds 1 then Inl ErrInvalidAccount
          else Inr (seconds n))"

definition withKDF :: "duck_env \<Rightarrow> 'a result \<Rightarrow> 'a result" where
  "withKDF env operation = (case du_kdf env of None \<Rightarrow> operation | Some e \<Rightarrow> Inl e)"

definition duck_CreateAccount :: "argon2 \<Rightarrow> duck_service \<Rightarrow> duck_env \<Rightarrow> account_request \<Rightarrow> compat_db \<Rightarrow> inbox result \<times> compat_db" where
  "duck_CreateAccount idkey sv env rq c =
     (if du_ctx env = NilCtx then (Inl (OtherError ''DuckMail account context is required''), c)
      else case validateAddress sv (ar_address rq) of
          None \<Rightarrow> (Inl ErrInvalidAccount, c)
        | Some address \<Rightarrow>
            if length (ar_password rq) < 6 \<or> length (ar_password rq) > 128 then (Inl ErrInvalidAccount, c)
            else case account_lifetime sv (ar_expires_in rq) of
                Inl e \<Rightarrow> (Inl e, c)
              | Inr lifetime \<Rightarrow>
                  (case withKDF env (hashPassword idkey (du_random env) (ar_password rq)) of
                     Inl e \<Rightarrow> (Inl e, c)
                   | Inr hash \<Rightarrow>
                       repo_CreateAccount (du_newid env)
                         \<lparr>na_address = address, na_hash = hash, na_created = du_now env, na_expires = du_now env + lifetime\<rparr>
                         (du_txflt env) c))"

definition duck_Login :: "argon2 \<Rightarrow> (bytes \<Rightarrow> bytes) \<Rightarrow> (string \<Rightarrow> string option) \<Rightarrow> duck_service \<Rightarrow> duck_env \<Rightarrow> string \<Rightarrow> string \<Rightarrow> compat_db \<Rightarrow>
    issued_capability result \<times> compat_db" where
  "duck_Login idkey sha256 canon sv env address password c =
     (if du_ctx env = NilCtx then (Inl (OtherError ''DuckMail login context is required''), c)
      else let normalized = to_lower (trim_space address) in
        case FindAccountByAddress (du_db_now env) normalized (du_flt env) c of
          Inl e \<Rightarrow>
            (case withKDF env (Inr (verifyPassword idkey (ds_dummyHash sv) password)) of
               Inl kdfErr \<Rightarrow> (Inl kdfErr, c)
             | Inr _ \<Rightarrow> if e = ErrLoginFailed then (Inl ErrLoginFailed, c) else (Inl e, c))
        | Inr account \<Rightarrow>
            (case withKDF env (Inr (verifyPassword idkey (da_hash account) password)) of
               Inl e \<Rightarrow> (Inl e, c)
             | Inr verified \<Rightarrow>
                 if \<not> verified then (Inl ErrLoginFailed, c)
                 else case NewScopeSet [ScopeInboxRead, ScopeInboxDelete, ScopeMessageRead, ScopeMessageUpdate, ScopeMessageDelete] of
                     Inl e \<Rightarrow> (Inl e, c)
                   | Inr scopes \<Rightarrow>
                       on_db (Issue sha256 canon (pg_cap_repo canon) (du_ctx env) (in_id (da_inbox account)) scopes
                         (in_expires (da_inbox account)) (du_issue_now env) (du_issue_random env) (du_issue_env env)) c))"

section \<open>Passwords verify\<close>

lemma rawstd_chars: "ch \<in> set (rawstd_encode bs) \<Longrightarrow> b64std_val ch \<noteq> None \<and> ch \<notin> {CHR 10, CHR 13, CHR ''$''}"
proof -
  assume "ch \<in> set (rawstd_encode bs)"
  then obtain n where n: "ch = b64std_char n" "n < 64" using b64_digits_less by (auto simp: rawstd_encode_def)
  have "list_all (\<lambda>n. b64std_char n \<noteq> CHR ''$'') [0..<64]" by code_simp
  then show ?thesis using b64std_char_val [OF n(2)] n by (auto simp: list_all_iff)
qed

lemma rawstd_decode_encode [simp]: "rawstd_decode strict (rawstd_encode bs) = Some bs"
proof -
  have "filter (\<lambda>c. c \<noteq> CHR 10 \<and> c \<noteq> CHR 13) (rawstd_encode bs) = rawstd_encode bs"
    using rawstd_chars by (intro filter_True) blast
  moreover have "those (map b64std_val (rawstd_encode bs)) = Some (b64_digits bs)"
    unfolding rawstd_encode_def using b64std_char_val b64_digits_less by (intro those_map_Some) blast
  ultimately show ?thesis by (simp add: rawstd_decode_def)
qed

lemma format_int_no_other: "0 \<le> v \<Longrightarrow> \<not> is_digit ch \<Longrightarrow> ch \<notin> set (format_int v)"
  using nat_digits_are_digits [of "nat v"] by (auto simp: format_int_def list_all_iff)

lemma parameter_roundtrip:
  "0 < v \<Longrightarrow> v < 2 ^ 63 \<Longrightarrow> parseParameter (p @ format_int v) p = Some v"
  by (simp add: parseParameter_def parse_format_nat)

lemma password_separators: "\<not> is_digit CHR ''$''" "\<not> is_digit CHR '',''"
  by (simp_all add: is_digit_def in_range_def)

text \<open>The fourth field of a hash.\<close>

definition hash_parameters :: string where
  "hash_parameters = ''m='' @ format_int passwordMemoryKiB @ '',t='' @ format_int passwordIterations @ '',p='' @ format_int passwordParallelism"

lemma split_parameters:
  "split_on CHR '','' hash_parameters = [''m='' @ format_int passwordMemoryKiB, ''t='' @ format_int passwordIterations, ''p='' @ format_int passwordParallelism]"
proof -
  have n: "CHR '','' \<notin> set (''m='' @ format_int passwordMemoryKiB)" "CHR '','' \<notin> set (''t='' @ format_int passwordIterations)"
    "CHR '','' \<notin> set (''p='' @ format_int passwordParallelism)"
    using format_int_no_other [OF _ password_separators(2)] by (simp_all add: password_constants)
  show ?thesis
    using split_on_append [OF n(1), of "''t='' @ format_int passwordIterations @ '',p='' @ format_int passwordParallelism"]
      split_on_append [OF n(2), of "''p='' @ format_int passwordParallelism"] split_on_none [OF n(3)]
    by (simp add: hash_parameters_def)
qed

lemma parameters_no_dollar: "CHR ''$'' \<notin> set hash_parameters"
  using format_int_no_other [OF _ password_separators(1)] by (simp add: hash_parameters_def password_constants)

lemma format_version: "format_int 19 = ''19''"
  by code_simp

lemma hashPassword_text:
  "hashPassword idkey random password = Inr h \<longleftrightarrow>
     16 \<le> length random \<and>
     h = ''$argon2id$v=19$'' @ hash_parameters @ ''$'' @ rawstd_encode (take 16 random) @ ''$'' @
       rawstd_encode (idkey password (take 16 random) passwordIterations passwordMemoryKiB passwordParallelism passwordKeyBytes)"
  by (auto simp: hashPassword_def read_full_def format_version hash_parameters_def passwordSaltBytes_def Let_def)

lemma split_hash:
  assumes "CHR ''$'' \<notin> set s" "CHR ''$'' \<notin> set k"
  shows "split_on CHR ''$'' (''$argon2id$v=19$'' @ hash_parameters @ ''$'' @ s @ ''$'' @ k) = [[], ''argon2id'', ''v=19'', hash_parameters, s, k]"
  using split_on_append [OF parameters_no_dollar, of "s @ ''$'' @ k"] split_on_append [OF assms(1), of k] split_on_none [OF assms(2)] by simp

lemma rawstd_no_dollar: "CHR ''$'' \<notin> set (rawstd_encode b)"
  using rawstd_chars by blast

lemma verify_hash:
  assumes "hashPassword idkey random password = Inr h" and "\<And>p s t m n k. length (idkey p s t m n k) = k"
  shows "verifyPassword idkey h p' \<longleftrightarrow>
    idkey p' (take 16 random) passwordIterations passwordMemoryKiB passwordParallelism passwordKeyBytes =
    idkey password (take 16 random) passwordIterations passwordMemoryKiB passwordParallelism passwordKeyBytes"
proof -
  define s where "s = take 16 random"
  define k where "k = idkey password s passwordIterations passwordMemoryKiB passwordParallelism passwordKeyBytes"
  have h: "16 \<le> length random" "h = ''$argon2id$v=19$'' @ hash_parameters @ ''$'' @ rawstd_encode s @ ''$'' @ rawstd_encode k"
    using assms(1) by (simp_all add: hashPassword_text s_def k_def)
  have split: "split_on CHR ''$'' h = [[], ''argon2id'', ''v=19'', hash_parameters, rawstd_encode s, rawstd_encode k]"
    unfolding h(2) by (intro split_hash rawstd_no_dollar)
  have len: "length s = passwordSaltBytes" "length k = passwordKeyBytes" using h(1) assms(2) by (simp_all add: s_def k_def passwordSaltBytes_def)
  have par: "parseParameter (''m='' @ format_int passwordMemoryKiB) ''m='' = Some passwordMemoryKiB"
    "parseParameter (''t='' @ format_int passwordIterations) ''t='' = Some passwordIterations"
    "parseParameter (''p='' @ format_int passwordParallelism) ''p='' = Some passwordParallelism"
    by (rule parameter_roundtrip; simp add: password_constants)+
  show ?thesis
    unfolding verifyPassword_def split split_parameters list.case par using len by (simp add: s_def k_def)
qed

lemma digit_string_format: "0 \<le> v \<Longrightarrow> digit_string (format_int v)"
  using nat_digits_are_digits [of "nat v"] by (simp add: digit_string_def format_int_def)

lemma rawstd_string: "bs \<noteq> [] \<Longrightarrow> b64std_string (rawstd_encode bs)"
  using rawstd_chars [of _ bs] length_b64_digits [of bs] by (cases bs) (auto simp: b64std_string_def list_all_iff rawstd_encode_def)

lemma length_format_int: "0 \<le> v \<Longrightarrow> v < 10 ^ k \<Longrightarrow> 0 < k \<Longrightarrow> length (format_int v) \<le> k"
  using length_nat_digits_bound [of "nat v" k] by (simp add: format_int_def nat_less_iff)

lemma hash_is_valid:
  assumes "hashPassword idkey random password = Inr h" and "\<And>p s t m n k. length (idkey p s t m n k) = k"
  shows "hash_valid h"
proof -
  define s where "s = take 16 random"
  define k where "k = idkey password s passwordIterations passwordMemoryKiB passwordParallelism passwordKeyBytes"
  have h: "16 \<le> length random" "h = ''$argon2id$v=19$'' @ hash_parameters @ ''$'' @ rawstd_encode s @ ''$'' @ rawstd_encode k"
    using assms(1) by (simp_all add: hashPassword_text s_def k_def)
  have split: "split_on CHR ''$'' h = [[], ''argon2id'', ''v=19'', hash_parameters, rawstd_encode s, rawstd_encode k]"
    unfolding h(2) by (intro split_hash rawstd_no_dollar)
  have len: "length s = 16" "length k = 32" using h(1) assms(2) by (simp_all add: s_def k_def passwordKeyBytes_def)
  have "length (rawstd_encode s) = 22" "length (rawstd_encode k) = 43"
    using len by (simp_all add: rawstd_encode_def length_b64_digits)
  moreover have "length hash_parameters \<le> 100"
    using length_format_int [of passwordMemoryKiB 10] length_format_int [of passwordIterations 10] length_format_int [of passwordParallelism 10]
    by (simp add: hash_parameters_def password_constants)
  ultimately have "length h \<le> 512" by (simp add: h(2))
  moreover have "s \<noteq> []" "k \<noteq> []" using len by auto
  ultimately show ?thesis
    unfolding hash_valid_def split split_parameters list.case
    by (simp add: rawstd_string digit_string_format password_constants)
qed

section \<open>Accounts\<close>

lemma create_account_tx_Inr:
  "create_account_tx newid a flt s = (Inr inbox, s') \<longleftrightarrow>
     (\<exists>c1. lift_stmt (sql_insert_inbox newid \<lparr>ni_address = na_address a, ni_expires = na_expires a, ni_created = na_created a\<rparr>) (snd s) = Inr (inbox, c1) \<and>
       sql_insert_credential (in_id inbox) (na_hash a) (na_created a) c1 = Inr ((), snd s') \<and>
       fault_error (flt (fst s)) = None \<and> fault_error (flt (Suc (fst s))) = None \<and> fst s' = Suc (Suc (fst s)))"
  unfolding create_account_tx_def tx_simps by (cases s'; cases s) (auto simp: tx_simps)

text \<open>A created account: a new Inbox row with its address and one credential row, everything else as before.\<close>

lemma repo_CreateAccount_cases:
  assumes "compat_wf c" and "repo_CreateAccount newid a flt c = (r, c')"
  obtains (Unchanged) e where "r = Inl e" and "c' = c"
  | (Created) d' where "sql_insert_inbox newid \<lparr>ni_address = na_address a, ni_expires = na_expires a, ni_created = na_created a\<rparr> (cm_db c) =
        Inr (inbox_of (new_inbox_row newid (na_address a) (na_expires a) (na_created a)), d')"
      and "c' = c\<lparr>cm_db := d', cm_credentials := cm_credentials c @
        [\<lparr>cd_inbox = newid, cd_hash = na_hash a, cd_created = na_created a, cd_updated = na_created a\<rparr>]\<rparr>"
      and "r = Inr (inbox_of (new_inbox_row newid (na_address a) (na_expires a) (na_created a))) \<or> (\<exists>e. r = Inl e)"
      and "hash_valid (na_hash a)" and "newid \<notin> cd_inbox ` set (cm_credentials c)"
proof -
  let ?q = "sql_insert_inbox newid \<lparr>ni_address = na_address a, ni_expires = na_expires a, ni_created = na_created a\<rparr>"
  from assms(2)[unfolded repo_CreateAccount_def] show ?thesis
  proof (cases rule: run_tx_cases)
    case Unchanged
    then show ?thesis using that(1) by auto
  next
    case (Done x n)
    then obtain c1 where c1: "lift_stmt ?q c = Inr (x, c1)" "sql_insert_credential (in_id x) (na_hash a) (na_created a) c1 = Inr ((), c')"
      by (auto simp: create_account_tx_Inr)
    then obtain d' where d': "?q (cm_db c) = Inr (x, d')" "c1 = cascade d' c" by (auto simp: lift_stmt_def split: sum.splits)
    have x: "x = inbox_of (new_inbox_row newid (na_address a) (na_expires a) (na_created a))"
      and ib: "inboxes d' = inboxes (cm_db c) @ [new_inbox_row newid (na_address a) (na_expires a) (na_created a)]" "messages d' = messages (cm_db c)"
      using d'(1) by (auto simp: sql_insert_inbox_def new_inbox_row_def Let_def split: if_splits)
    have "cascade d' c = c\<lparr>cm_db := d'\<rparr>" using ib by (intro cascade_keeps [OF assms(1)]) auto
    then show ?thesis
      using that(2) [of d'] d' c1(2) x Done
      by (auto simp: sql_insert_credential_def inbox_of_def new_inbox_row_def split: if_splits)
  qed
qed

lemma repo_CreateAccount_wf:
  assumes "compat_wf c" and "repo_CreateAccount newid a flt c = (r, c')"
  shows "compat_wf c'"
  using assms
proof (cases rule: repo_CreateAccount_cases)
  case (Created d')
  have d': "inboxes d' = inboxes (cm_db c) @ [new_inbox_row newid (na_address a) (na_expires a) (na_created a)]" "messages d' = messages (cm_db c)"
    using Created(1) by (auto simp: sql_insert_inbox_def new_inbox_row_def Let_def split: if_splits)
  have "compat_wf (cascade d' c)"
    using sql_insert_inbox_wf [OF _ Created(1)] assms(1) d' by (intro cascade_wf) (auto simp: compat_wf_def messages_stay_def db_wf_def wf_messages_def distinct_map inj_on_def)
  moreover have "cascade d' c = c\<lparr>cm_db := d'\<rparr>" using d' by (intro cascade_keeps [OF assms(1)]) auto
  ultimately show ?thesis
    using Created(2,4,5) d' by (auto simp: compat_wf_def wf_credentials_def wf_inbox_ids_def wf_message_ids_def new_inbox_row_def)
qed (simp add: assms(1))

lemma account_found:
  assumes "compat_wf c" and "repo_CreateAccount newid a flt c = (Inr inbox, c')" and "now < na_expires a"
  shows "account_rows now (na_address a) c' = [\<lparr>da_inbox = inbox, da_hash = na_hash a\<rparr>]"
  using assms(1,2)
proof (cases rule: repo_CreateAccount_cases)
  case (Created d')
  let ?row = "new_inbox_row newid (na_address a) (na_expires a) (na_created a)"
  have d': "inboxes d' = inboxes (cm_db c) @ [?row]" "newid \<notin> inbox_keys_of (cm_db c)" "na_address a \<notin> ib_address ` set (inboxes (cm_db c))"
    using Created(1) by (auto simp: sql_insert_inbox_def new_inbox_row_def Let_def split: if_splits)
  have old: "(case find_inbox d' (cd_inbox cr) of None \<Rightarrow> None
      | Some r \<Rightarrow> if ib_address r = na_address a \<and> inbox_live now r then Some \<lparr>da_inbox = inbox_of r, da_hash = cd_hash cr\<rparr> else None) = None"
    if "cr \<in> set (cm_credentials c)" for cr
  proof -
    have "cd_inbox cr \<in> inbox_keys_of (cm_db c)" using that assms(1) by (auto simp: compat_wf_def wf_credentials_def list_all_iff)
    then obtain r where "find_inbox (cm_db c) (cd_inbox cr) = Some r" "r \<in> set (inboxes (cm_db c))"
      using find_Some_iff2 unfolding find_inbox_def by (metis (mono_tags, lifting) find_SomeD find_None_iff imageE not_None_eq)
    moreover from this(2) have "ib_address r \<noteq> na_address a" using d'(3) by force
    ultimately show ?thesis using d'(1) by (auto simp: find_inbox_def find_append)
  qed
  have new: "find_inbox d' newid = Some ?row"
    using d' by (auto simp: find_inbox_def find_append new_inbox_row_def split: option.splits dest: find_SomeD)
  have "List.map_filter f xs = []" if "\<forall>x \<in> set xs. f x = None" for f xs
    using that by (induction xs) (auto simp: List.map_filter_simps)
  then show ?thesis
    using Created(2,3) old new assms(3) unfolding account_rows_def
    by (auto simp: map_filter_def inbox_live_def new_inbox_row_def)
qed simp

lemma owner_scope_set:
  "NewScopeSet [ScopeInboxRead, ScopeInboxDelete, ScopeMessageRead, ScopeMessageUpdate, ScopeMessageDelete] = Inr 31"
  by (rule owner_scopes(1))

text \<open>
  C34. A DuckMail account can be logged into with its password and with no other: after \<^verbatim>\<open>CreateAccount\<close> succeeded,
  while the account lives, an undisturbed \<^verbatim>\<open>Login\<close> with any spelling of its address issues a capability for all
  scopes of exactly that Inbox and until exactly its expiry if the password derives the same key, and
  otherwise fails with \<^verbatim>\<open>ErrLoginFailed\<close> and changes nothing. Account creation keeps the
  invariant of the tables.
\<close>

theorem duck_account_login:
  assumes "compat_wf c" and "\<And>p s t m n k. length (idkey p s t m n k) = k"
    and "duck_CreateAccount idkey sv env rq c = (Inr inbox, c')"
    and "to_lower (trim_space address) = to_lower (trim_space (ar_address rq))"
    and "du_ctx env' \<noteq> NilCtx" and "du_kdf env' = None" and "du_flt env' = NoFault" and "du_db_now env' < in_expires inbox"
  defines "key \<equiv> \<lambda>p. idkey p (take 16 (du_random env)) passwordIterations passwordMemoryKiB passwordParallelism passwordKeyBytes"
  shows "compat_wf c' \<and> in_address inbox = to_lower (trim_space (ar_address rq)) \<and>
    duck_Login idkey sha256 canon sv' env' address password c' =
      (if key password = key (ar_password rq)
       then on_db (Issue sha256 canon (pg_cap_repo canon) (du_ctx env') (in_id inbox) 31 (in_expires inbox)
         (du_issue_now env') (du_issue_random env') (du_issue_env env')) c'
       else (Inl ErrLoginFailed, c'))"
proof -
  obtain lifetime hash where hash: "hashPassword idkey (du_random env) (ar_password rq) = Inr hash"
    and repo: "repo_CreateAccount (du_newid env) \<lparr>na_address = to_lower (trim_space (ar_address rq)), na_hash = hash,
      na_created = du_now env, na_expires = du_now env + lifetime\<rparr> (du_txflt env) c = (Inr inbox, c')"
    using assms(3) by (auto simp: duck_CreateAccount_def validateAddress_def withKDF_def Let_def split: if_splits option.splits sum.splits prod.splits)
  have inbox: "in_address inbox = to_lower (trim_space (ar_address rq))" "in_expires inbox = du_now env + lifetime"
    using assms(1) repo by (cases rule: repo_CreateAccount_cases; simp add: inbox_of_def new_inbox_row_def)+
  have "account_rows (du_db_now env') (to_lower (trim_space (ar_address rq))) c' = [\<lparr>da_inbox = inbox, da_hash = hash\<rparr>]"
    using account_found [OF assms(1) repo, of "du_db_now env'"] assms(8) inbox by simp
  then have "FindAccountByAddress (du_db_now env') (to_lower (trim_space address)) NoFault c' = Inr \<lparr>da_inbox = inbox, da_hash = hash\<rparr>"
    by (simp add: FindAccountByAddress_def run_stmt_def query_def assms(4))
  then have "duck_Login idkey sha256 canon sv' env' address password c' =
      (if key password = key (ar_password rq)
       then on_db (Issue sha256 canon (pg_cap_repo canon) (du_ctx env') (in_id inbox) 31 (in_expires inbox)
         (du_issue_now env') (du_issue_random env') (du_issue_env env')) c'
       else (Inl ErrLoginFailed, c'))"
    unfolding duck_Login_def owner_scope_set using verify_hash [OF hash assms(2), of password] assms(5-7)
    by (simp add: withKDF_def key_def)
  then show ?thesis using repo_CreateAccount_wf [OF assms(1) repo] inbox by blast
qed

text \<open>
  C35. Every token \<^verbatim>\<open>Login\<close> hands out is earned: there is a live Inbox with the given address and a DuckMail
  credential whose hash the password satisfies, and the token is for that Inbox.
\<close>

theorem duck_login_sound:
  assumes "duck_Login idkey sha256 canon sv env address password c = (Inr issued, c')"
  shows "\<exists>r cr. r \<in> set (inboxes (cm_db c)) \<and> ib_address r = to_lower (trim_space address) \<and> inbox_live (du_db_now env) r \<and>
    cr \<in> set (cm_credentials c) \<and> cd_inbox cr = ib_id r \<and> verifyPassword idkey (cd_hash cr) password \<and>
    canon (ib_id r) = Some (is_inbox issued)"
proof -
  obtain account where find: "FindAccountByAddress (du_db_now env) (to_lower (trim_space address)) (du_flt env) c = Inr account"
    and verified: "verifyPassword idkey (da_hash account) password"
    and issue: "on_db (Issue sha256 canon (pg_cap_repo canon) (du_ctx env) (in_id (da_inbox account)) 31
      (in_expires (da_inbox account)) (du_issue_now env) (du_issue_random env) (du_issue_env env)) c = (Inr issued, c')"
    using assms unfolding duck_Login_def owner_scope_set
    by (auto simp: withKDF_def Let_def split: if_splits option.splits sum.splits)
  have "account \<in> set (account_rows (du_db_now env) (to_lower (trim_space address)) c)"
    using find by (auto simp: FindAccountByAddress_def run_stmt_def query_def split: fault.splits sum.splits list.splits prod.splits)
  then obtain cr r where r: "cr \<in> set (cm_credentials c)" "find_inbox (cm_db c) (cd_inbox cr) = Some r" "ib_address r = to_lower (trim_space address)"
    "inbox_live (du_db_now env) r" "account = \<lparr>da_inbox = inbox_of r, da_hash = cd_hash cr\<rparr>"
    by (auto simp: account_rows_def map_filter_def split: option.splits if_splits)
  have "canon (ib_id r) = Some (is_inbox issued)"
    using issue r(5) Issue_frame [of sha256 canon "du_ctx env"] by (auto simp: on_db_def inbox_of_def split: prod.splits)
  moreover have "r \<in> set (inboxes (cm_db c))" "ib_id r = cd_inbox cr" using r(2) by (auto simp: find_inbox_def dest: find_SomeD)
  ultimately show ?thesis using r verified by (intro exI [of _ r] exI [of _ cr]) simp
qed

section \<open>A concrete account\<close>

definition sample_idkey :: argon2 where
  "sample_idkey p s t m n k = take k (p @ replicate k CHR ''x'')"

definition sample_duck :: duck_service where
  "sample_duck = \<lparr>ds_domains = [''b''], ds_defaultTTL = 50, ds_maxTTL = 100, ds_dummyHash = []\<rparr>"

definition sample_duck_env :: duck_env where
  "sample_duck_env = \<lparr>du_ctx = Ctx None, du_kdf = None, du_random = replicate 16 CHR ''r'', du_now = 10, du_newid = ''i1'',
     du_txflt = (\<lambda>_. NoFault), du_flt = NoFault, du_db_now = 20, du_issue_now = 11, du_issue_random = (\<lambda>_. replicate 44 CHR ''x''),
     du_issue_env = (\<lambda>_. cap_sample_env ''c1'')\<rparr>"

definition sample_account_request :: account_request where
  "sample_account_request = \<lparr>ar_address = ''abc@b'', ar_password = ''secret'', ar_expires_in = None\<rparr>"

lemma sample_idkey_length: "length (sample_idkey p s t m n k) = k"
  by (simp add: sample_idkey_def)

lemma sample_account_created:
  obtains inbox c where "duck_CreateAccount sample_idkey sample_duck sample_duck_env sample_account_request empty_compat = (Inr inbox, c)"
    and "in_expires inbox = 60" and "in_id inbox = ''i1''" and "cm_db c = sample_created_db"
proof -
  obtain h where h: "hashPassword sample_idkey (replicate 16 CHR ''r'') ''secret'' = Inr h" by (auto simp: hashPassword_text)
  have "hash_valid h" by (rule hash_is_valid [OF h sample_idkey_length])
  moreover have "validateAddress sample_duck ''abc@b'' = Some ''abc@b''" by code_simp
  ultimately show ?thesis
    using h that
    by (simp add: duck_CreateAccount_def sample_account_request_def sample_duck_env_def sample_duck_def account_lifetime_def withKDF_def
        repo_CreateAccount_def run_tx_def create_account_tx_def tx_bind_def tx_return_def lift_stmt_def sql_insert_inbox_def sample_request_parts
        empty_compat_def empty_db_def sql_insert_credential_def cascade_def inbox_of_def Let_def sample_created_db_def new_inbox_row_def)
qed

theorem duck_account_login_witness:
  "\<exists>inbox c. duck_CreateAccount sample_idkey sample_duck sample_duck_env sample_account_request empty_compat = (Inr inbox, c) \<and>
     duck_Login sample_idkey cap_sha cap_canon sample_duck sample_duck_env ''abc@b'' ''secret'' c =
       on_db (Issue cap_sha cap_canon (pg_cap_repo cap_canon) (Ctx None) ''i1'' 31 60 11 (\<lambda>_. replicate 44 CHR ''x'') (\<lambda>_. cap_sample_env ''c1'')) c \<and>
     duck_Login sample_idkey cap_sha cap_canon sample_duck sample_duck_env ''abc@b'' ''wrong!'' c = (Inl ErrLoginFailed, c)"
proof -
  obtain inbox c where c: "duck_CreateAccount sample_idkey sample_duck sample_duck_env sample_account_request empty_compat = (Inr inbox, c)"
    "in_expires inbox = 60" "in_id inbox = ''i1''" "cm_db c = sample_created_db" by (rule sample_account_created)
  note login = duck_account_login [OF compat_wf_empty sample_idkey_length c(1), of "''abc@b''" sample_duck_env cap_sha cap_canon sample_duck]
  show ?thesis
    using login [of "''secret''"] login [of "''wrong!''"] c
    by (simp add: sample_duck_env_def sample_account_request_def sample_idkey_def passwordKeyBytes_def numeral_eq_Suc)
qed


theorem duck_login_sound_witness:
  "\<exists>c issued c' r. duck_Login sample_idkey cap_sha cap_canon sample_duck sample_duck_env ''abc@b'' ''secret'' c = (Inr issued, c') \<and>
     r \<in> set (inboxes (cm_db c)) \<and> ib_address r = ''abc@b'' \<and> cap_canon (ib_id r) = Some (is_inbox issued)"
proof -
  obtain inbox c where c: "duck_CreateAccount sample_idkey sample_duck sample_duck_env sample_account_request empty_compat = (Inr inbox, c)"
    "in_expires inbox = 60" "in_id inbox = ''i1''" "cm_db c = sample_created_db" by (rule sample_account_created)
  obtain issued d where i: "sample_owner_issue = (Inr issued, d)" using sample_owner_issue_Inr by blast
  obtain h where h: "hashPassword sample_idkey (replicate 16 CHR ''r'') ''secret'' = Inr h" by (auto simp: hashPassword_text)
  have plain: "to_lower (trim_space ''abc@b'') = ''abc@b''" by code_simp
  have "account_rows 20 ''abc@b'' c = [\<lparr>da_inbox = inbox, da_hash = h\<rparr>]"
    using account_found [OF compat_wf_empty, of "''i1''" "\<lparr>na_address = ''abc@b'', na_hash = h, na_created = 10, na_expires = 60\<rparr>" "\<lambda>_. NoFault" inbox c 20]
      c(1) h plain
    by (auto simp: duck_CreateAccount_def sample_account_request_def sample_duck_env_def sample_duck_def account_lifetime_def withKDF_def
        validateAddress_def Let_def split: if_splits prod.splits)
  then have "duck_Login sample_idkey cap_sha cap_canon sample_duck sample_duck_env ''abc@b'' ''secret'' c = (Inr issued, cascade d c)"
    using i c(2-4) verify_hash [OF h sample_idkey_length, of "''secret''"]
    unfolding duck_Login_def owner_scope_set plain FindAccountByAddress_def
    by (simp add: sample_duck_env_def run_stmt_def query_def withKDF_def on_db_def sample_owner_issue_def)
  with duck_login_sound [OF this] plain show ?thesis by auto
qed

end
