(* ===== verification/Compat_Services.thy ===== *)
theory Compat_Services
  imports Duck_Mail
begin

text \<open>
  The YYDS adapter (\<^verbatim>\<open>internal/yyds/service.go\<close>) and the Cloudflare Temp Email adapter
  (\<^verbatim>\<open>internal/cloudflaretemp/service.go\<close> over \<^verbatim>\<open>internal/postgres/cloudflare_temp_repository.go\<close>).

  Statements that commit by themselves may be separated by the work of other sessions: \<open>ie_other n\<close> is
  what happened to the tables before statement \<open>n\<close>.
\<close>

section \<open>YYDS\<close>

record yyds_service =
  ys_domains :: "string list"

fun nonempty_domains :: "string list \<Rightarrow> string list option" where
  "nonempty_domains [] = Some []"
| "nonempty_domains (d # ds) =
     (let domain = to_lower (trim_space d) in
      if domain = [] then None else map_option (Cons domain) (nonempty_domains ds))"

definition NewYYDSService :: "bool \<Rightarrow> bool \<Rightarrow> string list \<Rightarrow> yyds_service result" where
  "NewYYDSService mailboxes credentials domains =
     (if \<not> mailboxes \<or> \<not> credentials \<or> domains = []
      then Inl (OtherError ''YYDS mailbox, credential service, and domains are required'')
      else case nonempty_domains domains of
          None \<Rightarrow> Inl (OtherError ''YYDS domain is empty'')
        | Some normalized \<Rightarrow> Inr \<lparr>ys_domains = normalized\<rparr>)"

record yyds_request =
  yr_address :: string
  yr_local :: string
  yr_domain :: string

text \<open>The local part and domain a request names, or \<^verbatim>\<open>ErrInvalidRequest\<close>.\<close>

definition yyds_names :: "yyds_request \<Rightarrow> (string \<times> string) result" where
  "yyds_names rq =
     (let localPart = to_lower (trim_space (yr_local rq)); domain = to_lower (trim_space (yr_domain rq));
          address = to_lower (trim_space (yr_address rq)) in
      case (if address = [] then Inr (localPart, domain)
            else case cut address CHR ''@'' of (addressLocal0, addressDomain, found) \<Rightarrow>
              let addressLocal = (if \<not> found then address else addressLocal0) in
              if found \<and> (addressLocal = [] \<or> addressDomain = [] \<or> CHR ''@'' \<in> set addressDomain) then Inl ErrInvalidRequest
              else if (localPart \<noteq> [] \<and> localPart \<noteq> addressLocal) \<or> (found \<and> domain \<noteq> [] \<and> domain \<noteq> addressDomain)
                then Inl ErrInvalidRequest
              else Inr (addressLocal, if found then addressDomain else domain)) of
        Inl e \<Rightarrow> Inl e
      | Inr (l, dmn) \<Rightarrow> if l \<noteq> [] \<and> \<not> ValidInboxLocalPart l then Inl ErrInvalidRequest else Inr (l, dmn))"

definition yyds_CreateAccount :: "(bytes \<Rightarrow> bytes) \<Rightarrow> (string \<Rightarrow> string option) \<Rightarrow> mailbox_service \<Rightarrow> create_env \<Rightarrow> yyds_request \<Rightarrow> compat_db \<Rightarrow>
    created_inbox result \<times> compat_db" where
  "yyds_CreateAccount sha256 canon mb env rq c =
     (case yyds_names rq of
        Inl e \<Rightarrow> (Inl e, c)
      | Inr (l, domain) \<Rightarrow> on_db (Create sha256 canon mb env \<lparr>cq_domain = domain, cq_local = l, cq_lifetime = 0\<rparr>) c)"

text \<open>
  \<^verbatim>\<open>strings.EqualFold\<close> against a text of ASCII bytes: the runes outside ASCII that fold into it are the
  Kelvin sign and the long s.
\<close>

fun fold_ascii :: "string \<Rightarrow> string" where
  "fold_ascii [] = []"
| "fold_ascii (a # s) =
     (case map of_char s of
        (b :: nat) # c # _ \<Rightarrow>
          if of_char a = (0xE2 :: nat) \<and> b = 0x84 \<and> c = 0xAA then CHR ''k'' # fold_ascii (drop 2 s)
          else if of_char a = (0xC5 :: nat) \<and> b = 0xBF then CHR ''s'' # fold_ascii (drop 1 s)
          else lower_char a # fold_ascii s
      | [b] \<Rightarrow> if of_char a = (0xC5 :: nat) \<and> b = 0xBF then CHR ''s'' # fold_ascii (drop 1 s) else lower_char a # fold_ascii s
      | [] \<Rightarrow> [lower_char a])"

record refresh_env =
  rf_ctx :: ctx
  rf_auth_now :: time
  rf_auth_env :: cap_env
  rf_get_now :: time
  rf_get_flt :: fault
  rf_get_db :: db
  rf_now :: time
  rf_env :: cap_env
  rf_random :: "nat \<Rightarrow> bytes"
  rf_clock :: "nat \<Rightarrow> time"
  rf_rotate_env :: "nat \<Rightarrow> cap_env"

text \<open>The capability is checked on \<open>d\<close>, the Inbox read from \<open>rf_get_db\<close> and the rotation run on \<open>c\<close>.\<close>

definition RefreshToken :: "(bytes \<Rightarrow> bytes) \<Rightarrow> (string \<Rightarrow> string option) \<Rightarrow> refresh_env \<Rightarrow> string \<Rightarrow> string \<Rightarrow> db \<Rightarrow> compat_db \<Rightarrow>
    (issued_capability \<times> inbox) result \<times> compat_db" where
  "RefreshToken sha256 canon env plaintext address d c =
     (case Authenticate sha256 (pg_cap_repo canon) (rf_ctx env) plaintext [ScopeInboxRead] (rf_auth_now env) (rf_auth_env env) d of
        Inl e \<Rightarrow> (Inl e, c)
      | Inr p \<Rightarrow>
          (case service_Get canon (rf_get_now env) (pc_inbox p) (rf_get_flt env) (rf_get_db env) of
             Inl e \<Rightarrow> (Inl e, c)
           | Inr inbox \<Rightarrow>
               if fold_ascii (trim_space address) \<noteq> fold_ascii (in_address inbox) then (Inl ErrAddressMismatch, c)
               else (case on_db (Rotate sha256 (pg_cap_repo canon) (rf_ctx env) plaintext (rf_now env) (rf_env env)
                           (rf_random env) (rf_clock env) (rf_rotate_env env)) c of
                   (Inl e, c') \<Rightarrow> (Inl e, c')
                 | (Inr rotated, c') \<Rightarrow> (Inr (rotated, inbox), c'))))"

section \<open>Cloudflare Temp Email: identifiers\<close>

record id_env =
  ie_newid :: int
  ie_flt :: "nat \<Rightarrow> fault"
  ie_other :: "nat \<Rightarrow> compat_db \<Rightarrow> compat_db"

definition inbox_id_of :: "string \<Rightarrow> compat_db \<Rightarrow> int option" where
  "inbox_id_of i c = map_option fi_id (find (\<lambda>r. fi_inbox r = i) (cm_inbox_ids c))"

definition sql_insert_inbox_id :: "int \<Rightarrow> string \<Rightarrow> (compat_db, int option) stmt_on" where
  "sql_insert_inbox_id newid i c =
     (if newid \<le> 0 then Inl (CheckViolation ''cloudflare_temp_inbox_ids_positive'')
      else if i \<in> fi_inbox ` set (cm_inbox_ids c) then Inr (None, c)
      else if newid \<in> fi_id ` set (cm_inbox_ids c) then Inl (UniqueViolation ''cloudflare_temp_inbox_ids_pkey'')
      else if i \<notin> inbox_keys_of (cm_db c) then Inl (ForeignKeyViolation ''cloudflare_temp_inbox_ids_inbox_id_fkey'')
      else Inr (Some newid, c\<lparr>cm_inbox_ids := cm_inbox_ids c @ [\<lparr>fi_id = newid, fi_inbox = i\<rparr>]\<rparr>))"

definition EnsureInboxID :: "(string \<Rightarrow> string option) \<Rightarrow> id_env \<Rightarrow> string \<Rightarrow> compat_db \<Rightarrow> int result \<times> compat_db" where
  "EnsureInboxID canon env inboxID c =
     (case run_stmt sql_wrap (with_uuid canon inboxID (\<lambda>i. query (inbox_id_of i))) (ie_flt env 0) (ie_other env 0 c) of
        (Inl e, c1) \<Rightarrow> (Inl e, c1)
      | (Inr (Some n), c1) \<Rightarrow> (Inr n, c1)
      | (Inr None, c1) \<Rightarrow>
     (case run_stmt sql_wrap (with_uuid canon inboxID (sql_insert_inbox_id (ie_newid env))) (ie_flt env 1) (ie_other env 1 c1) of
        (Inl e, c2) \<Rightarrow> (Inl e, c2)
      | (Inr (Some n), c2) \<Rightarrow> (Inr n, c2)
      | (Inr None, c2) \<Rightarrow>
     (case run_stmt sql_wrap (with_uuid canon inboxID (\<lambda>i. query (inbox_id_of i))) (ie_flt env 2) (ie_other env 2 c2) of
        (Inl e, c3) \<Rightarrow> (Inl e, c3)
      | (Inr (Some n), c3) \<Rightarrow> (Inr n, c3)
      | (Inr None, c3) \<Rightarrow> (Inl (OtherError ''no rows in result set''), c3))))"

definition message_id_of :: "string \<Rightarrow> string \<Rightarrow> compat_db \<Rightarrow> int option" where
  "message_id_of i m c = map_option fm_id (find (\<lambda>r. fm_inbox r = i \<and> fm_message r = m) (cm_message_ids c))"

definition sql_insert_message_id :: "int \<Rightarrow> string \<Rightarrow> string \<Rightarrow> (compat_db, int option) stmt_on" where
  "sql_insert_message_id newid i m c =
     (if \<not> list_ex (\<lambda>x. ms_id x = m \<and> ms_inbox x = i) (messages (cm_db c)) then Inr (None, c)
      else if newid \<le> 0 then Inl (CheckViolation ''cloudflare_temp_message_ids_positive'')
      else if m \<in> fm_message ` set (cm_message_ids c) then Inr (None, c)
      else if newid \<in> fm_id ` set (cm_message_ids c) then Inl (UniqueViolation ''cloudflare_temp_message_ids_pkey'')
      else if i \<notin> inbox_keys_of (cm_db c) then Inl (ForeignKeyViolation ''cloudflare_temp_message_ids_inbox_id_fkey'')
      else Inr (Some newid, c\<lparr>cm_message_ids := cm_message_ids c @ [\<lparr>fm_id = newid, fm_inbox = i, fm_message = m\<rparr>]\<rparr>))"

definition ensureCloudflareTempMessageID :: "(string \<Rightarrow> string option) \<Rightarrow> int \<Rightarrow> string \<Rightarrow> string \<Rightarrow> (compat_db, int) tx_on" where
  "ensureCloudflareTempMessageID canon newid inboxID messageID =
     tx_bind (stmt sql_wrap (with_uuids canon inboxID messageID (\<lambda>i m. query (message_id_of i m)))) (\<lambda>found.
       case found of Some n \<Rightarrow> tx_return n | None \<Rightarrow>
     tx_bind (stmt sql_wrap (with_uuids canon inboxID messageID (sql_insert_message_id newid))) (\<lambda>inserted.
       case inserted of Some n \<Rightarrow> tx_return n | None \<Rightarrow>
     tx_bind (stmt sql_wrap (with_uuids canon inboxID messageID (\<lambda>i m. query (message_id_of i m)))) (\<lambda>again.
       case again of Some n \<Rightarrow> tx_return n | None \<Rightarrow> tx_fail ErrMessageIDNotFound)))"

definition EnsureMessageIDs :: "(string \<Rightarrow> string option) \<Rightarrow> (nat \<Rightarrow> int) \<Rightarrow> string \<Rightarrow> string list \<Rightarrow> (nat \<Rightarrow> fault) \<Rightarrow> compat_db \<Rightarrow>
    (string \<rightharpoonup> int) result \<times> compat_db" where
  "EnsureMessageIDs canon newid inboxID messageIDs flt c =
     (if messageIDs = [] then (Inr Map.empty, c)
      else case run_tx (tx_map (\<lambda>(k, m). ensureCloudflareTempMessageID canon (newid k) inboxID m) (enumerate 0 messageIDs)) flt c of
          (Inl e, c') \<Rightarrow> (Inl e, c')
        | (Inr ids, c') \<Rightarrow> (Inr (map_of (rev (zip messageIDs ids))), c'))"

definition FindMessageID :: "(string \<Rightarrow> string option) \<Rightarrow> string \<Rightarrow> int \<Rightarrow> fault \<Rightarrow> compat_db \<Rightarrow> string result" where
  "FindMessageID canon inboxID compatibilityID flt c =
     (if compatibilityID \<le> 0 then Inl ErrMessageIDNotFound
      else case fst (run_stmt sql_wrap (with_uuid canon inboxID (\<lambda>i. query (\<lambda>c.
          find (\<lambda>r. fm_id r = compatibilityID \<and> fm_inbox r = i \<and>
            list_ex (\<lambda>m. ms_id m = fm_message r \<and> ms_inbox m = fm_inbox r) (messages (cm_db c))) (cm_message_ids c)))) flt c) of
          Inl e \<Rightarrow> Inl e
        | Inr None \<Rightarrow> Inl ErrMessageIDNotFound
        | Inr (Some r) \<Rightarrow> Inr (fm_message r))"

section \<open>Cloudflare Temp Email: the service\<close>

record cf_service =
  fs_domains :: "string list"

fun distinct_domains :: "string list \<Rightarrow> string list \<Rightarrow> string list result" where
  "distinct_domains seen [] = Inr seen"
| "distinct_domains seen (d # ds) =
     (let domain = to_lower (trim_space d) in
      if domain = [] then Inl (OtherError ''Cloudflare Temp Email domain is empty'')
      else if domain \<in> set seen then Inl (OtherError (''duplicate Cloudflare Temp Email domain '' @ domain))
      else distinct_domains (seen @ [domain]) ds)"

definition NewCloudflareTempService :: "bool \<Rightarrow> bool \<Rightarrow> string list \<Rightarrow> cf_service result" where
  "NewCloudflareTempService mailboxes ids domains =
     (if \<not> mailboxes \<or> \<not> ids \<or> domains = []
      then Inl (OtherError ''Cloudflare Temp Email mailbox service, ID repository, and domains are required'')
      else case distinct_domains [] domains of Inl e \<Rightarrow> Inl e | Inr normalized \<Rightarrow> Inr \<lparr>fs_domains = normalized\<rparr>)"

definition normalizeAddressName :: "string \<Rightarrow> string" where
  "normalizeAddressName name =
     filter (\<lambda>c. in_range CHR ''a'' CHR ''z'' c \<or> in_range CHR ''0'' CHR ''9'' c) (to_lower (trim_space name))"

record created_address =
  ad_inbox :: inbox
  ad_capability :: issued_capability
  ad_id :: int

record cf_create_env =
  fe_create :: create_env
  fe_ids :: id_env
  fe_delete_now :: time
  fe_delete_clock :: time
  fe_delete_flt :: "nat \<Rightarrow> fault"

text \<open>The error of a failed compensation is joined to the first, hence a list.\<close>

definition CreateAddress :: "(bytes \<Rightarrow> bytes) \<Rightarrow> (string \<Rightarrow> string option) \<Rightarrow> mailbox_service \<Rightarrow> cf_create_env \<Rightarrow> string \<Rightarrow> string \<Rightarrow> compat_db \<Rightarrow>
    (go_error list + created_address) \<times> compat_db" where
  "CreateAddress sha256 canon mb env name domain c =
     (let localPart = normalizeAddressName name in
      if trim_space name \<noteq> [] \<and> localPart = [] then (Inl [ErrInvalidAddressName], c)
      else case on_db (Create sha256 canon mb (fe_create env) \<lparr>cq_domain = domain, cq_local = localPart, cq_lifetime = 0\<rparr>) c of
          (Inl e, c1) \<Rightarrow> (Inl [e], c1)
        | (Inr created, c1) \<Rightarrow>
            (case EnsureInboxID canon (fe_ids env) (in_id (ci_inbox created)) c1 of
               (Inl e, c2) \<Rightarrow>
                 (case on_db (service_Delete canon (fe_delete_now env) (fe_delete_clock env) (in_id (ci_inbox created)) (fe_delete_flt env)) c2 of
                    (Inl cleanup, c3) \<Rightarrow> (Inl [e, cleanup], c3)
                  | (Inr _, c3) \<Rightarrow> (Inl [e], c3))
             | (Inr addressID, c2) \<Rightarrow>
                 (Inr \<lparr>ad_inbox = ci_inbox created, ad_capability = ci_capability created, ad_id = addressID\<rparr>, c2)))"

section \<open>Stable identifiers\<close>

lemma inbox_id_row:
  assumes "compat_wf c"
  shows "inbox_id_of i c = Some n \<longleftrightarrow> \<lparr>fi_id = n, fi_inbox = i\<rparr> \<in> set (cm_inbox_ids c)"
proof
  assume "inbox_id_of i c = Some n"
  then obtain r where "r \<in> set (cm_inbox_ids c)" "fi_inbox r = i" "fi_id r = n" by (auto simp: inbox_id_of_def dest!: find_SomeD)
  then show "\<lparr>fi_id = n, fi_inbox = i\<rparr> \<in> set (cm_inbox_ids c)" by (metis cf_inbox_row.surjective unit.exhaust)
next
  assume r: "\<lparr>fi_id = n, fi_inbox = i\<rparr> \<in> set (cm_inbox_ids c)"
  then obtain r' where r': "find (\<lambda>r. fi_inbox r = i) (cm_inbox_ids c) = Some r'"
    using find_None_iff [of "\<lambda>r. fi_inbox r = i" "cm_inbox_ids c"] by fastforce
  moreover have "r' = \<lparr>fi_id = n, fi_inbox = i\<rparr>"
    using find_SomeD [OF r'] r assms by (auto simp: compat_wf_def wf_inbox_ids_def distinct_map inj_on_def)
  ultimately show "inbox_id_of i c = Some n" by (simp add: inbox_id_of_def)
qed

lemma sql_insert_inbox_id_wf:
  assumes "compat_wf c" and "sql_insert_inbox_id newid i c = Inr (r, c')"
  shows "compat_wf c' \<and> (\<forall>n. r = Some n \<longrightarrow> inbox_id_of i c' = Some n)"
proof (cases r)
  case None
  then show ?thesis using assms by (auto simp: sql_insert_inbox_id_def split: if_splits)
next
  case (Some n)
  then have c': "c' = c\<lparr>cm_inbox_ids := cm_inbox_ids c @ [\<lparr>fi_id = newid, fi_inbox = i\<rparr>]\<rparr>" "n = newid" "0 < newid"
    "i \<notin> fi_inbox ` set (cm_inbox_ids c)" "newid \<notin> fi_id ` set (cm_inbox_ids c)" "i \<in> inbox_keys_of (cm_db c)"
    using assms(2) by (auto simp: sql_insert_inbox_id_def split: if_splits)
  then have "compat_wf c'"
    using assms(1) by (auto simp: compat_wf_def wf_credentials_def wf_inbox_ids_def wf_message_ids_def)
  then show ?thesis using c' Some inbox_id_row [of c' i n] by simp
qed

definition other_keeps :: "id_env \<Rightarrow> bool" where
  "other_keeps env \<longleftrightarrow> (\<forall>k c. compat_wf c \<longrightarrow> compat_wf (ie_other env k c))"

lemma uuid_query:
  "run_stmt f (with_uuid canon u (\<lambda>i. query (g i))) flt c = (r, c') \<Longrightarrow>
     c' = c \<and> (\<forall>x. r = Inr x \<longrightarrow> (\<exists>i. canon u = Some i \<and> x = g i c))"
  by (auto simp: run_stmt_def with_uuid_def query_def split: fault.splits option.splits)

lemma uuid_insert:
  assumes "compat_wf c" and "run_stmt f (with_uuid canon u (sql_insert_inbox_id newid)) flt c = (r, c')"
  shows "compat_wf c' \<and> (\<forall>n. r = Inr (Some n) \<longrightarrow> (\<exists>i. canon u = Some i \<and> inbox_id_of i c' = Some n))"
  using assms sql_insert_inbox_id_wf [OF assms(1)]
  by (auto simp: run_stmt_def with_uuid_def split: fault.splits option.splits sum.splits; metis)

lemma EnsureInboxID_sound:
  assumes "compat_wf c" and "other_keeps env" and "EnsureInboxID canon env inboxID c = (r, c')"
  shows "compat_wf c' \<and> (\<forall>n. r = Inr n \<longrightarrow> (\<exists>i. canon inboxID = Some i \<and> inbox_id_of i c' = Some n))"
proof -
  have keep: "compat_wf (ie_other env k x)" if "compat_wf x" for k x using assms(2) that by (simp add: other_keeps_def)
  let ?find = "with_uuid canon inboxID (\<lambda>i. query (inbox_id_of i))"
  obtain r1 c1 where s1: "run_stmt sql_wrap ?find (ie_flt env 0) (ie_other env 0 c) = (r1, c1)" by fastforce
  note f1 = uuid_query [OF s1]
  have w1: "compat_wf c1" using f1 keep [OF assms(1)] by simp
  obtain r2 c2 where s2: "run_stmt sql_wrap (with_uuid canon inboxID (sql_insert_inbox_id (ie_newid env))) (ie_flt env 1) (ie_other env 1 c1) = (r2, c2)" by fastforce
  note f2 = uuid_insert [OF keep [OF w1] s2]
  obtain r3 c3 where s3: "run_stmt sql_wrap ?find (ie_flt env 2) (ie_other env 2 c2) = (r3, c3)" by fastforce
  note f3 = uuid_query [OF s3]
  have w3: "compat_wf c3" using f3 keep f2 by simp
  show ?thesis
    using assms(3) f1 f2 f3 w1 w3 unfolding EnsureInboxID_def s1 s2 s3 prod.case
    by (auto simp: s2 s3 split: sum.splits option.splits)
qed

lemma message_id_row_iff:
  assumes "compat_wf c"
  shows "message_id_of i m c = Some n \<longleftrightarrow> \<lparr>fm_id = n, fm_inbox = i, fm_message = m\<rparr> \<in> set (cm_message_ids c)"
proof
  assume "message_id_of i m c = Some n"
  then obtain r where "r \<in> set (cm_message_ids c)" "fm_inbox r = i" "fm_message r = m" "fm_id r = n"
    by (auto simp: message_id_of_def dest!: find_SomeD)
  then show "\<lparr>fm_id = n, fm_inbox = i, fm_message = m\<rparr> \<in> set (cm_message_ids c)" by (metis cf_message_row.surjective unit.exhaust)
next
  assume r: "\<lparr>fm_id = n, fm_inbox = i, fm_message = m\<rparr> \<in> set (cm_message_ids c)"
  then obtain r' where r': "find (\<lambda>r. fm_inbox r = i \<and> fm_message r = m) (cm_message_ids c) = Some r'"
    using find_None_iff [of "\<lambda>r. fm_inbox r = i \<and> fm_message r = m" "cm_message_ids c"] by fastforce
  moreover have "r' = \<lparr>fm_id = n, fm_inbox = i, fm_message = m\<rparr>"
    using find_SomeD [OF r'] r assms by (auto simp: compat_wf_def wf_message_ids_def distinct_map inj_on_def)
  ultimately show "message_id_of i m c = Some n" by (simp add: message_id_of_def)
qed

text \<open>Assigning identifiers only adds rows.\<close>

definition ids_grow :: "compat_db \<Rightarrow> compat_db \<Rightarrow> bool" where
  "ids_grow c c' \<longleftrightarrow> compat_wf c' \<and> cm_db c' = cm_db c \<and> set (cm_message_ids c) \<subseteq> set (cm_message_ids c')"

lemma ids_grow_trans: "ids_grow c c1 \<Longrightarrow> ids_grow c1 c2 \<Longrightarrow> ids_grow c c2"
  by (auto simp: ids_grow_def)

lemma sql_insert_message_id_grows:
  assumes "compat_wf c" and "sql_insert_message_id newid i m c = Inr (r, c')"
  shows "ids_grow c c' \<and> (\<forall>n. r = Some n \<longrightarrow> \<lparr>fm_id = n, fm_inbox = i, fm_message = m\<rparr> \<in> set (cm_message_ids c'))"
proof (cases r)
  case None
  then show ?thesis using assms by (auto simp: sql_insert_message_id_def ids_grow_def split: if_splits)
next
  case (Some n)
  then have c': "c' = c\<lparr>cm_message_ids := cm_message_ids c @ [\<lparr>fm_id = newid, fm_inbox = i, fm_message = m\<rparr>]\<rparr>" "n = newid" "0 < newid"
    "m \<notin> fm_message ` set (cm_message_ids c)" "newid \<notin> fm_id ` set (cm_message_ids c)" "i \<in> inbox_keys_of (cm_db c)"
    "list_ex (\<lambda>x. ms_id x = m \<and> ms_inbox x = i) (messages (cm_db c))"
    using assms(2) by (auto simp: sql_insert_message_id_def split: if_splits)
  then have "compat_wf c'"
    using assms(1) by (simp add: compat_wf_def wf_credentials_def wf_inbox_ids_def wf_message_ids_def)
  then show ?thesis using c' Some by (auto simp: ids_grow_def)
qed

lemma stmt_uuids:
  assumes "stmt f (with_uuids canon a b q) flt s = (Inr x, s')"
  shows "\<exists>u v. canon a = Some u \<and> canon b = Some v \<and> q u v (snd s) = Inr (x, snd s')"
  using assms by (auto simp: stmt_Inr with_uuids_Inr simp del: stmt.simps)

lemma ensure_one:
  assumes "compat_wf c" and "ensureCloudflareTempMessageID canon newid inboxID messageID flt (k, c) = (Inr n, s')"
  shows "ids_grow c (snd s') \<and> (\<exists>i m. canon inboxID = Some i \<and> canon messageID = Some m \<and>
    \<lparr>fm_id = n, fm_inbox = i, fm_message = m\<rparr> \<in> set (cm_message_ids (snd s')))"
proof -
  obtain found s1 where s1: "stmt sql_wrap (with_uuids canon inboxID messageID (\<lambda>i m. query (message_id_of i m))) flt (k, c) = (Inr found, s1)"
    and rest: "(case found of Some n \<Rightarrow> tx_return n | None \<Rightarrow>
     tx_bind (stmt sql_wrap (with_uuids canon inboxID messageID (sql_insert_message_id newid))) (\<lambda>inserted.
       case inserted of Some n \<Rightarrow> tx_return n | None \<Rightarrow>
     tx_bind (stmt sql_wrap (with_uuids canon inboxID messageID (\<lambda>i m. query (message_id_of i m)))) (\<lambda>again.
       case again of Some n \<Rightarrow> tx_return n | None \<Rightarrow> tx_fail ErrMessageIDNotFound))) flt s1 = (Inr n, s')"
    using assms(2) unfolding ensureCloudflareTempMessageID_def tx_bind_Inr [where s = "(k, c)"] by blast
  obtain i m where im: "canon inboxID = Some i" "canon messageID = Some m" and f: "found = message_id_of i m c" "snd s1 = c"
    using stmt_uuids [OF s1] by (auto simp: tx_simps)
  have row: "message_id_of i m x = Some n \<Longrightarrow> \<lparr>fm_id = n, fm_inbox = i, fm_message = m\<rparr> \<in> set (cm_message_ids x)" if "compat_wf x" for x n
    using message_id_row_iff [OF that] by simp
  show ?thesis
  proof (cases found)
    case (Some x)
    then show ?thesis using f rest im row [OF assms(1)] assms(1) by (auto simp: tx_simps ids_grow_def)
  next
    case None
    then obtain ins s2 where s2: "stmt sql_wrap (with_uuids canon inboxID messageID (sql_insert_message_id newid)) flt s1 = (Inr ins, s2)"
      and rest': "(case ins of Some n \<Rightarrow> tx_return n | None \<Rightarrow>
        tx_bind (stmt sql_wrap (with_uuids canon inboxID messageID (\<lambda>i m. query (message_id_of i m)))) (\<lambda>again.
          case again of Some n \<Rightarrow> tx_return n | None \<Rightarrow> tx_fail ErrMessageIDNotFound)) flt s2 = (Inr n, s')"
      using rest unfolding None option.case tx_bind_Inr [where s = s1] by blast
    have ins: "sql_insert_message_id newid i m c = Inr (ins, snd s2)" using stmt_uuids [OF s2] im f(2) by auto
    note g = sql_insert_message_id_grows [OF assms(1) ins]
    then have w: "compat_wf (snd s2)" by (simp add: ids_grow_def)
    show ?thesis
    proof (cases ins)
      case (Some x)
      then show ?thesis using g im rest' by (auto simp: tx_simps)
    next
      case None
      then obtain again s3 where s3: "stmt sql_wrap (with_uuids canon inboxID messageID (\<lambda>i m. query (message_id_of i m))) flt s2 = (Inr again, s3)"
        and last: "(case again of Some n \<Rightarrow> tx_return n | None \<Rightarrow> tx_fail ErrMessageIDNotFound) flt s3 = (Inr n, s')"
        using rest' unfolding None option.case tx_bind_Inr [where s = s2] by blast
      have "again = message_id_of i m (snd s2)" "snd s3 = snd s2" using stmt_uuids [OF s3] im by (auto simp: tx_simps)
      moreover from last have "again = Some n" "s' = s3" by (cases again; simp add: tx_simps)+
      ultimately show ?thesis using g im row [OF w, of n] by auto
    qed
  qed
qed

lemma ensure_all:
  assumes "compat_wf c"
    and "tx_map (\<lambda>(k, m). ensureCloudflareTempMessageID canon (newid k) inboxID m) (enumerate j mids) flt (k, c) = (Inr ids, s')"
  shows "ids_grow c (snd s') \<and> length ids = length mids \<and> (\<forall>(mid, n) \<in> set (zip mids ids). \<exists>i m. canon inboxID = Some i \<and> canon mid = Some m \<and>
    \<lparr>fm_id = n, fm_inbox = i, fm_message = m\<rparr> \<in> set (cm_message_ids (snd s')))"
  using assms
proof (induction mids arbitrary: j k c ids s')
  case Nil
  then show ?case by (auto simp: tx_simps ids_grow_def)
next
  case (Cons mid mids)
  obtain n s1 ns where one: "ensureCloudflareTempMessageID canon (newid j) inboxID mid flt (k, c) = (Inr n, s1)"
    and more: "tx_map (\<lambda>(k, m). ensureCloudflareTempMessageID canon (newid k) inboxID m) (enumerate (Suc j) mids) flt s1 = (Inr ns, s')"
    and ids: "ids = n # ns"
    using Cons.prems(2) by (auto simp: tx_simps)
  note o = ensure_one [OF Cons.prems(1) one]
  then have w: "compat_wf (snd s1)" by (simp add: ids_grow_def)
  have more': "tx_map (\<lambda>(k, m). ensureCloudflareTempMessageID canon (newid k) inboxID m) (enumerate (Suc j) mids) flt (fst s1, snd s1) = (Inr ns, s')"
    using more by simp
  note rec = Cons.IH [OF w more']
  have sub: "set (cm_message_ids (snd s1)) \<subseteq> set (cm_message_ids (snd s'))" using rec by (simp add: ids_grow_def)
  show ?case
    using o rec ids_grow_trans [of c "snd s1" "snd s'"] sub unfolding ids by auto
qed

lemma FindMessageID_row:
  assumes "compat_wf c" and "\<lparr>fm_id = n, fm_inbox = i, fm_message = m\<rparr> \<in> set (cm_message_ids c)" and "canon inboxID = Some j"
  shows "FindMessageID canon inboxID n NoFault c = (if j = i then Inr m else Inl ErrMessageIDNotFound)"
proof -
  let ?P = "\<lambda>r. fm_id r = n \<and> fm_inbox r = j \<and> list_ex (\<lambda>m. ms_id m = fm_message r \<and> ms_inbox m = fm_inbox r) (messages (cm_db c))"
  have pos: "0 < n" using message_id_row [OF assms(1,2)] by auto
  have uniq: "r = \<lparr>fm_id = n, fm_inbox = i, fm_message = m\<rparr>" if "r \<in> set (cm_message_ids c)" "fm_id r = n" for r
    using that assms(1,2) by (auto simp: compat_wf_def wf_message_ids_def distinct_map inj_on_def)
  have ex: "list_ex (\<lambda>x. ms_id x = m \<and> ms_inbox x = i) (messages (cm_db c))"
    using assms(1,2) by (auto simp: compat_wf_def wf_message_ids_def list_all_iff)
  have "find ?P (cm_message_ids c) = (if j = i then Some \<lparr>fm_id = n, fm_inbox = i, fm_message = m\<rparr> else None)"
  proof (cases "find ?P (cm_message_ids c)")
    case None
    then have "\<not> ?P \<lparr>fm_id = n, fm_inbox = i, fm_message = m\<rparr>" using assms(2) unfolding find_None_iff by blast
    then show ?thesis using None ex by simp
  next
    case (Some r)
    have P: "r \<in> set (cm_message_ids c)" "fm_id r = n" "fm_inbox r = j" using find_SomeD [OF Some] by blast+
    have r: "r = \<lparr>fm_id = n, fm_inbox = i, fm_message = m\<rparr>" by (rule uniq [OF P(1,2)])
    then have "j = i" using P(3) by simp
    then show ?thesis using Some r by simp
  qed
  then show ?thesis using pos assms(3) by (simp add: FindMessageID_def run_stmt_def with_uuid_def query_def)
qed

lemma FindMessageID_gone:
  assumes "compat_wf c" and "n \<notin> fm_id ` set (cm_message_ids c)" and "canon inboxID \<noteq> None"
  shows "FindMessageID canon inboxID n NoFault c = Inl ErrMessageIDNotFound"
proof -
  have "find (\<lambda>r. fm_id r = n \<and> fm_inbox r = i \<and> list_ex (\<lambda>m. ms_id m = fm_message r \<and> ms_inbox m = fm_inbox r) (messages (cm_db c)))
      (cm_message_ids c) = None" for i
    using assms(2) unfolding find_None_iff by blast
  then show ?thesis using assms(3) by (auto simp: FindMessageID_def run_stmt_def with_uuid_def query_def)
qed

text \<open>Whatever the mailbox does afterwards, a recorded identifier resolves to its message while that exists.\<close>

lemma FindMessageID_later:
  assumes w: "compat_wf c'" and row: "\<lparr>fm_id = n, fm_inbox = i, fm_message = m\<rparr> \<in> set (cm_message_ids c')"
    and im: "canon inboxID = Some i" and d': "db_wf d'" "messages_stay (cm_db c') d'"
  shows "FindMessageID canon inboxID n NoFault (cascade d' c') =
    (if i \<in> inbox_keys_of d' \<and> m \<in> message_keys_of d' then Inr m else Inl ErrMessageIDNotFound)"
proof -
  have w': "compat_wf (cascade d' c')" by (rule cascade_wf [OF w d'])
  show ?thesis
  proof (cases "i \<in> inbox_keys_of d' \<and> m \<in> message_keys_of d'")
    case True
    then have "\<lparr>fm_id = n, fm_inbox = i, fm_message = m\<rparr> \<in> set (cm_message_ids (cascade d' c'))" using row by (simp add: cascade_def)
    then show ?thesis using FindMessageID_row [OF w', where canon = canon and inboxID = inboxID] im True by simp
  next
    case False
    have "n \<notin> fm_id ` set (cm_message_ids (cascade d' c'))"
    proof
      assume "n \<in> fm_id ` set (cm_message_ids (cascade d' c'))"
      then obtain r where r: "r \<in> set (cm_message_ids c')" "fm_id r = n" "fm_inbox r \<in> inbox_keys_of d'" "fm_message r \<in> message_keys_of d'"
        by (auto simp: cascade_def)
      have "r = \<lparr>fm_id = n, fm_inbox = i, fm_message = m\<rparr>"
        using r(1,2) row w by (auto simp: compat_wf_def wf_message_ids_def distinct_map inj_on_def)
      then show False using r(3,4) False by simp
    qed
    then show ?thesis using FindMessageID_gone [OF w'] im False by auto
  qed
qed

text \<open>
  Message identifiers are positive, stable and private: after \<^verbatim>\<open>EnsureMessageIDs\<close> every given message has an
  identifier that resolves to it for its own Inbox and to nothing for every other Inbox. Whatever the mailbox does
  afterwards, the identifier resolves to the same message while the message and its Inbox exist and to nothing once one
  of them is gone. Identifiers assigned before keep their meaning, and the mailbox tables do not change.
\<close>

theorem cf_message_ids_stable:
  assumes "compat_wf c" and "EnsureMessageIDs canon newid inboxID messageIDs flt c = (Inr ids, c')" and "messageID \<in> set messageIDs"
  shows "ids_grow c c' \<and>
    (\<exists>n i m. ids messageID = Some n \<and> 0 < n \<and> canon inboxID = Some i \<and> canon messageID = Some m \<and>
      (\<forall>u j. canon u = Some j \<longrightarrow> FindMessageID canon u n NoFault c' = (if j = i then Inr m else Inl ErrMessageIDNotFound)) \<and>
      (\<forall>d'. db_wf d' \<and> messages_stay (cm_db c') d' \<longrightarrow>
        FindMessageID canon inboxID n NoFault (cascade d' c') =
          (if i \<in> inbox_keys_of d' \<and> m \<in> message_keys_of d' then Inr m else Inl ErrMessageIDNotFound)))"
proof -
  have ne: "messageIDs \<noteq> []" using assms(3) by auto
  obtain ns where run: "run_tx (tx_map (\<lambda>(k, m). ensureCloudflareTempMessageID canon (newid k) inboxID m) (enumerate 0 messageIDs)) flt c = (Inr ns, c')"
    and ids: "ids = map_of (rev (zip messageIDs ns))"
    using assms(2) ne by (auto simp: EnsureMessageIDs_def split: prod.splits sum.splits)
  obtain k where "tx_map (\<lambda>(k, m). ensureCloudflareTempMessageID canon (newid k) inboxID m) (enumerate 0 messageIDs) flt (1, c) = (Inr ns, k, c')"
    using run_tx_Inr [OF run] by blast
  note all = ensure_all [OF assms(1) this]
  have w: "compat_wf c'" using all by (simp add: ids_grow_def)
  obtain n where n: "ids messageID = Some n" "(messageID, n) \<in> set (zip messageIDs ns)"
  proof -
    have "messageID \<in> fst ` set (rev (zip messageIDs ns))" using assms(3) all by (simp add: set_map [symmetric] del: set_map)
    then obtain n where "ids messageID = Some n" unfolding ids by (metis map_of_eq_None_iff option.exhaust)
    then show ?thesis using that map_of_SomeD [of "rev (zip messageIDs ns)" messageID n] by (simp add: ids)
  qed
  obtain i m where im: "canon inboxID = Some i" "canon messageID = Some m" and row: "\<lparr>fm_id = n, fm_inbox = i, fm_message = m\<rparr> \<in> set (cm_message_ids c')"
    using all n(2) by auto
  have "0 < n" using message_id_row [OF w row] by auto
  then show ?thesis using all n(1) im FindMessageID_later [where canon = canon, OF w row im(1)] FindMessageID_row [OF w row] by auto
qed

text \<open>
  An Inbox identifier is positive and stable: under any interleaving with other sessions that keep the
  tables well formed, the identifier \<^verbatim>\<open>EnsureInboxID\<close> returns is the one recorded for that Inbox and for
  no other, and every later undisturbed call returns it again and changes nothing.
\<close>

theorem cf_inbox_id_stable:
  assumes "compat_wf c" and "other_keeps env" and "EnsureInboxID canon env inboxID c = (Inr n, c')"
  shows "compat_wf c' \<and> 0 < n \<and>
    (\<exists>i. canon inboxID = Some i \<and> inbox_id_of i c' = Some n \<and> (\<forall>j. inbox_id_of j c' = Some n \<longrightarrow> j = i)) \<and>
    (ie_flt env' 0 = NoFault \<and> ie_other env' 0 c' = c' \<longrightarrow> EnsureInboxID canon env' inboxID c' = (Inr n, c'))"
proof -
  note s = EnsureInboxID_sound [OF assms]
  then have w: "compat_wf c'" by simp
  obtain i where i: "canon inboxID = Some i" "inbox_id_of i c' = Some n" using s by auto
  have row: "\<lparr>fi_id = n, fi_inbox = i\<rparr> \<in> set (cm_inbox_ids c')" using i(2) inbox_id_row [OF w] by simp
  have "0 < n" using row w by (auto simp: compat_wf_def wf_inbox_ids_def list_all_iff)
  moreover have "j = i" if "inbox_id_of j c' = Some n" for j
  proof -
    have "\<lparr>fi_id = n, fi_inbox = j\<rparr> \<in> set (cm_inbox_ids c')" using that inbox_id_row [OF w] by simp
    moreover have "inj_on fi_id (set (cm_inbox_ids c'))" using w by (simp add: compat_wf_def wf_inbox_ids_def distinct_map)
    ultimately have "\<lparr>fi_id = n, fi_inbox = j\<rparr> = \<lparr>fi_id = n, fi_inbox = i\<rparr>" using inj_onD [of fi_id "set (cm_inbox_ids c')" "\<lparr>fi_id = n, fi_inbox = j\<rparr>" "\<lparr>fi_id = n, fi_inbox = i\<rparr>"] row by simp
    then show ?thesis by simp
  qed
  moreover have "EnsureInboxID canon env' inboxID c' = (Inr n, c')" if "ie_flt env' 0 = NoFault" "ie_other env' 0 c' = c'"
    using that i by (simp add: EnsureInboxID_def run_stmt_def with_uuid_def query_def)
  ultimately show ?thesis using w i by blast
qed

section \<open>Token refresh\<close>

text \<open>
  \<^verbatim>\<open>RefreshToken\<close> exchanges a token only for its own Inbox: if the given address is not the address of the Inbox
  the token stands for, nothing changes; if it succeeds, the address is that Inbox's, the old token is
  rejected from then on and the new one stands for the same Inbox until the same expiry.
\<close>

theorem yyds_refresh_own_token:
  assumes "cap_good canon (cm_db c)" and "\<And>j. cap_env_ok canon (rf_rotate_env env j)"
    and "rf_auth_env env = cap_quiet" and "rf_env env = cap_quiet" and "rf_now env = rf_auth_now env"
    and "RefreshToken sha256 canon env plaintext address (cm_db c) c = (r, c')" and "ctx' \<noteq> NilCtx"
  shows "(\<forall>p inbox. Authenticate sha256 (pg_cap_repo canon) (rf_ctx env) plaintext [ScopeInboxRead] (rf_auth_now env) cap_quiet (cm_db c) = Inr p \<and>
      service_Get canon (rf_get_now env) (pc_inbox p) (rf_get_flt env) (rf_get_db env) = Inr inbox \<and>
      fold_ascii (trim_space address) \<noteq> fold_ascii (in_address inbox) \<longrightarrow> r = Inl ErrAddressMismatch \<and> c' = c) \<and>
    (\<forall>iss inbox. r = Inr (iss, inbox) \<longrightarrow>
      fold_ascii (trim_space address) = fold_ascii (in_address inbox) \<and>
      (\<exists>p. Authenticate sha256 (pg_cap_repo canon) (rf_ctx env) plaintext [ScopeInboxRead] (rf_auth_now env) cap_quiet (cm_db c) = Inr p \<and>
        canon (pc_inbox p) = Some (in_id inbox) \<and>
        (\<forall>req t. Authenticate sha256 (pg_cap_repo canon) ctx' plaintext req t cap_quiet (cm_db c') = Inl ErrUnauthenticated) \<and>
        (\<forall>later < pc_expires p.
          (\<exists>p'. Authenticate sha256 (pg_cap_repo canon) ctx' (is_plaintext iss) [ScopeInboxRead] later cap_quiet (cm_db c') = Inr p' \<and>
             pc_inbox p' = pc_inbox p \<and> pc_expires p' = pc_expires p))))"
proof (intro conjI allI impI)
  fix p inbox
  assume "Authenticate sha256 (pg_cap_repo canon) (rf_ctx env) plaintext [ScopeInboxRead] (rf_auth_now env) cap_quiet (cm_db c) = Inr p \<and>
      service_Get canon (rf_get_now env) (pc_inbox p) (rf_get_flt env) (rf_get_db env) = Inr inbox \<and>
      fold_ascii (trim_space address) \<noteq> fold_ascii (in_address inbox)"
  then show "r = Inl ErrAddressMismatch" "c' = c" using assms(3,6) by (auto simp: RefreshToken_def)
next
  fix iss inbox
  assume r: "r = Inr (iss, inbox)"
  then obtain p where p: "Authenticate sha256 (pg_cap_repo canon) (rf_ctx env) plaintext [ScopeInboxRead] (rf_auth_now env) cap_quiet (cm_db c) = Inr p"
    and get: "service_Get canon (rf_get_now env) (pc_inbox p) (rf_get_flt env) (rf_get_db env) = Inr inbox"
    and fold: "fold_ascii (trim_space address) = fold_ascii (in_address inbox)"
    and rot: "on_db (Rotate sha256 (pg_cap_repo canon) (rf_ctx env) plaintext (rf_auth_now env) cap_quiet (rf_random env) (rf_clock env) (rf_rotate_env env)) c = (Inr iss, c')"
    using assms(3-6) by (auto simp: RefreshToken_def split: sum.splits if_splits prod.splits)
  have rot': "Rotate sha256 (pg_cap_repo canon) (rf_ctx env) plaintext (rf_auth_now env) cap_quiet (rf_random env) (rf_clock env) (rf_rotate_env env) (cm_db c) =
      (Inr iss, cm_db c')" using rot by (auto simp: on_db_def split: prod.splits)
  have "canon (pc_inbox p) = Some (in_id inbox)"
    using get by (auto simp: service_Get_def GetInbox_def run_stmt_def with_uuid_def query_def live_inbox_def inbox_of_def
        split: prod.splits sum.splits fault.splits option.splits dest!: find_SomeD)
  then show "fold_ascii (trim_space address) = fold_ascii (in_address inbox)"
    "\<exists>p. Authenticate sha256 (pg_cap_repo canon) (rf_ctx env) plaintext [ScopeInboxRead] (rf_auth_now env) cap_quiet (cm_db c) = Inr p \<and>
        canon (pc_inbox p) = Some (in_id inbox) \<and>
        (\<forall>req t. Authenticate sha256 (pg_cap_repo canon) ctx' plaintext req t cap_quiet (cm_db c') = Inl ErrUnauthenticated) \<and>
        (\<forall>later < pc_expires p.
          (\<exists>p'. Authenticate sha256 (pg_cap_repo canon) ctx' (is_plaintext iss) [ScopeInboxRead] later cap_quiet (cm_db c') = Inr p' \<and>
             pc_inbox p' = pc_inbox p \<and> pc_expires p' = pc_expires p))"
    using fold p pg.rotated_lifecycle [OF assms(1,2) rot' p assms(7)] lt_ex [of "pc_expires p"] by blast+
qed

section \<open>Creating an address\<close>

lemma issue_loop_tables:
  "issue_loop sha256 (pg_cap_repo canon) nc rnd env i n d = (r, d') \<Longrightarrow> messages d' = messages d \<and> mail_contents d' = mail_contents d"
proof (induction n arbitrary: i d)
  case (Suc n)
  have cap: "messages d1 = messages d0 \<and> mail_contents d1 = mail_contents d0" if "CreateCapability canon c0 e0 d0 = (q, d1)" for c0 e0 d0 q d1
    using that by (auto simp: CreateCapability_def run_stmt_def sql_create_capability_def sql_insert_capability_def
      split: sum.splits fault.splits option.splits prod.splits if_splits)
  show ?case using Suc.prems cap Suc.IH by (auto simp: pg_cap_repo_def split: sum.splits prod.splits if_splits)
qed simp

lemma Issue_tables:
  "Issue sha256 canon (pg_cap_repo canon) ctx u scopes e now rnd env d = (r, d') \<Longrightarrow> messages d' = messages d \<and> mail_contents d' = mail_contents d"
  by (auto simp: Issue_def split: if_splits sum.splits dest: issue_loop_tables)

lemma EnsureInboxID_db:
  assumes "EnsureInboxID canon env inboxID c = (r, c')" and "\<And>k x. ie_other env k x = x"
  shows "cm_db c' = cm_db c"
proof -
  have ins: "cm_db c2 = cm_db c1" if "run_stmt f (with_uuid canon u (sql_insert_inbox_id n)) flt c1 = (q, c2)" for f u n flt c1 q c2
    using that by (auto simp: run_stmt_def with_uuid_def sql_insert_inbox_id_def split: fault.splits option.splits if_splits sum.splits)
  show ?thesis
    using assms unfolding EnsureInboxID_def
    by (auto split: prod.splits sum.splits option.splits dest!: uuid_query ins)
qed

text \<open>What a successful \<^verbatim>\<open>Create\<close> leaves behind.\<close>

lemma Create_adds_row:
  assumes "cap_good canon d" and "create_env_ok canon env" and "Create sha256 canon mb env rq d = (Inr created, d1)"
  shows "\<exists>new. inboxes d1 = inboxes d @ [new] \<and> messages d1 = messages d \<and> mail_contents d1 = mail_contents d \<and> cap_good canon d1 \<and>
    ci_inbox created = inbox_of new \<and> canon (ib_id new) = Some (ib_id new) \<and> ib_id new \<notin> inbox_keys_of d \<and> ib_status new = ''active''"
proof -
  have nf: "\<forall>j. fault_error (ce_fault env j) \<noteq> Some ErrAddressConflict" and cn: "\<And>j. canon (ce_newid env j) = Some (ce_newid env j)"
    and ce: "\<And>j. cap_env_ok canon (ce_issue_env env j)" using assms(2) by (auto simp: create_env_ok_def)
  obtain l dmn lifetime j d0 where row: "ci_inbox created = inbox_of (new_inbox_row (ce_newid env j) (l @ ''@'' @ dmn) (ce_now env + lifetime) (ce_now env))"
    and ins: "sql_insert_inbox (ce_newid env j) \<lparr>ni_address = l @ ''@'' @ dmn, ni_expires = ce_now env + lifetime, ni_created = ce_now env\<rparr> d = Inr (ci_inbox created, d0)"
    and d0: "d0 = d\<lparr>inboxes := inboxes d @ [new_inbox_row (ce_newid env j) (l @ ''@'' @ dmn) (ce_now env + lifetime) (ce_now env)]\<rparr>"
    and issue: "Issue sha256 canon (pg_cap_repo canon) (ce_ctx env) (in_id (ci_inbox created)) 31 (ce_now env + lifetime) (ce_issue_now env)
      (ce_issue_random env) (ce_issue_env env) d0 = (Inr (ci_capability created), d1)"
    using Create_Inr [OF assms(3) nf] by metis
  have "cap_good canon d1"
    using pg.issued_authenticates [OF cap_good_new_inbox [OF assms(1) ins] ce issue, of "Ctx None" "ce_now env + lifetime - 1" "[]"] by simp
  moreover have "ce_newid env j \<notin> inbox_keys_of d" using ins by (auto simp: sql_insert_inbox_def split: if_splits)
  ultimately show ?thesis
    using Issue_frame [OF issue] Issue_tables [OF issue] d0 row cn
    by (intro exI [of _ "new_inbox_row (ce_newid env j) (l @ ''@'' @ dmn) (ce_now env + lifetime) (ce_now env)"])
      (simp add: new_inbox_row_def)
qed

lemma Delete_undoes_Create:
  assumes "db_wf d" and "contents_referenced d" and "db_wf d1" and "inboxes d1 = inboxes d @ [new]" and "messages d1 = messages d"
    and "mail_contents d1 = mail_contents d" and "canon (ib_id new) = Some (ib_id new)" and "ib_id new \<notin> inbox_keys_of d"
    and "service_Delete canon now clock (ib_id new) flt d1 = (Inr u, d3)"
  shows "inboxes d3 = inboxes d \<and> messages d3 = messages d"
proof -
  obtain os where del: "DeleteInbox canon now clock (ib_id new) flt d1 = (Inr os, d3)"
    using assms(9) by (auto simp: service_Delete_def split: prod.splits sum.splits)
  have "contents_referenced d1" using assms(2,5,6) by (simp add: contents_referenced_def)
  from DeleteInbox_effect [OF assms(3) this del] assms(7) obtain os where "purged {ib_id new} os d1 d3" by fastforce
  moreover have "\<forall>m \<in> set (messages d). ms_inbox m \<in> inbox_keys_of d" using assms(1) by (simp add: db_wf_def wf_messages_def list_all_iff)
  then have "filter (\<lambda>m. ms_inbox m \<noteq> ib_id new) (messages d) = messages d" using assms(8) by (intro filter_True) metis
  moreover have "filter (\<lambda>b. ib_id b \<noteq> ib_id new) (inboxes d) = inboxes d" using assms(8) by (intro filter_True) (metis image_eqI)
  ultimately show ?thesis using assms(4,5) by (auto simp: purged_def)
qed

lemma service_Get_new:
  assumes "inboxes d1 = inboxes d @ [new]" and "ib_id new \<notin> inbox_keys_of d" and "canon (ib_id new) = Some (ib_id new)"
    and "ib_status new = ''active''" and "later < ib_expires new"
  shows "service_Get canon later (ib_id new) NoFault d1 = Inr (inbox_of new)"
proof -
  have "b \<in> set (inboxes d) \<Longrightarrow> ib_id b \<noteq> ib_id new" for b using assms(2) by (metis image_eqI)
  then show ?thesis using assms(1,3-5)
  by (auto simp: service_Get_def GetInbox_def run_stmt_def with_uuid_def query_def live_inbox_def find_append inbox_live_def
      split: option.splits dest!: find_SomeD)
qed

text \<open>
  \<^verbatim>\<open>CreateAddress\<close> creates all or nothing: an address it returns is that of a usable Inbox whose identifier is
  recorded; if the identifier cannot be recorded, the Inbox is deleted again, and unless that deletion fails as well
  the Inboxes and messages are what they were before.
\<close>

theorem cf_create_all_or_nothing:
  assumes "compat_wf c" and "cap_good canon (cm_db c)" and "contents_referenced (cm_db c)" and "create_env_ok canon (fe_create env)"
    and "\<And>k x. ie_other (fe_ids env) k x = x"
    and "on_db (Create sha256 canon mb (fe_create env) \<lparr>cq_domain = domain, cq_local = normalizeAddressName name, cq_lifetime = 0\<rparr>) c = (Inr created, c1)"
    and "trim_space name = [] \<or> normalizeAddressName name \<noteq> []"
    and "CreateAddress sha256 canon mb env name domain c = (r, c')"
  shows "(\<forall>a. r = Inr a \<longrightarrow> ad_inbox a = ci_inbox created \<and> ad_capability a = ci_capability created \<and> compat_wf c' \<and>
      inbox_id_of (in_id (ad_inbox a)) c' = Some (ad_id a) \<and> 0 < ad_id a \<and>
      (\<forall>later < in_expires (ad_inbox a). service_Get canon later (in_id (ad_inbox a)) NoFault (cm_db c') = Inr (ad_inbox a))) \<and>
    (\<forall>e. r = Inl [e] \<longrightarrow> inboxes (cm_db c') = inboxes (cm_db c) \<and> messages (cm_db c') = messages (cm_db c))"
proof -
  obtain d1 where create: "Create sha256 canon mb (fe_create env) \<lparr>cq_domain = domain, cq_local = normalizeAddressName name, cq_lifetime = 0\<rparr> (cm_db c) = (Inr created, d1)"
    and c1: "c1 = cascade d1 c" using assms(6) by (auto simp: on_db_def split: prod.splits)
  obtain new where d1: "inboxes d1 = inboxes (cm_db c) @ [new]" "messages d1 = messages (cm_db c)" "mail_contents d1 = mail_contents (cm_db c)"
    and g1: "cap_good canon d1" and new: "ci_inbox created = inbox_of new" "canon (ib_id new) = Some (ib_id new)" "ib_id new \<notin> inbox_keys_of (cm_db c)" "ib_status new = ''active''"
    using Create_adds_row [OF assms(2,4) create] by blast
  have id: "in_id (ci_inbox created) = ib_id new" using new(1) by (simp add: inbox_of_def)
  have w: "db_wf (cm_db c)" "db_wf d1" using assms(2) g1 by (simp_all add: cap_good_def)
  have w1: "compat_wf c1" unfolding c1
    using d1(2) w by (intro cascade_wf [OF assms(1)]) (auto simp: messages_stay_def db_wf_def wf_messages_def distinct_map inj_on_def)
  obtain q c2 where ens: "EnsureInboxID canon (fe_ids env) (ib_id new) c1 = (q, c2)" by fastforce
  have c2: "cm_db c2 = d1" using EnsureInboxID_db [OF ens assms(5)] c1 by simp
  have "other_keeps (fe_ids env)" using assms(5) by (simp add: other_keeps_def)
  note sound = EnsureInboxID_sound [OF w1 this ens]
  show ?thesis
  proof (cases q)
    case (Inr n)
    then have r: "r = Inr \<lparr>ad_inbox = ci_inbox created, ad_capability = ci_capability created, ad_id = n\<rparr>" "c' = c2"
      using assms(6,7,8) ens id by (auto simp: CreateAddress_def)
    have idn: "inbox_id_of (ib_id new) c2 = Some n" "compat_wf c2" using sound Inr new(2) by auto
    then have "0 < n" using inbox_id_row [OF idn(2)] by (auto simp: compat_wf_def wf_inbox_ids_def list_all_iff)
    then show ?thesis using r idn id new(1) c2 service_Get_new [of d1 "cm_db c" new canon, OF d1(1) new(3,2,4)] by (auto simp: inbox_of_def)
  next
    case (Inl e)
    obtain z d3 where del: "service_Delete canon (fe_delete_now env) (fe_delete_clock env) (ib_id new) (fe_delete_flt env) d1 = (z, d3)" by fastforce
    then have r: "r = (case z of Inl x \<Rightarrow> Inl [e, x] | Inr _ \<Rightarrow> Inl [e])" "cm_db c' = d3"
      using assms(6,7,8) ens id Inl c2 by (auto simp: CreateAddress_def on_db_def split: sum.splits)
    then show ?thesis using Delete_undoes_Create [where canon = canon, OF w(1) assms(3) w(2) d1 new(2,3)] del by (cases z) auto
  qed
qed

section \<open>Concrete instances\<close>

definition sample_id_env :: id_env where
  "sample_id_env = \<lparr>ie_newid = 7, ie_flt = (\<lambda>_. NoFault), ie_other = (\<lambda>_ c. c)\<rparr>"

definition compat_of :: "db \<Rightarrow> compat_db" where
  "compat_of d = \<lparr>cm_db = d, cm_credentials = [], cm_inbox_ids = [], cm_message_ids = []\<rparr>"

lemma compat_of_wf: "db_wf d \<Longrightarrow> compat_wf (compat_of d)"
  by (simp add: compat_wf_def compat_of_def wf_credentials_def wf_inbox_ids_def wf_message_ids_def)

lemma sample_id_env_keeps: "other_keeps sample_id_env"
  by (simp add: other_keeps_def sample_id_env_def)

theorem cf_inbox_id_stable_witness:
  "\<exists>c'. EnsureInboxID cap_canon sample_id_env ''i1'' (compat_of sample_created_db) = (Inr 7, c') \<and>
     EnsureInboxID cap_canon sample_id_env ''i1'' c' = (Inr 7, c')"
proof -
  obtain c' where c': "EnsureInboxID cap_canon sample_id_env ''i1'' (compat_of sample_created_db) = (Inr 7, c')"
    by (simp add: EnsureInboxID_def sample_id_env_def run_stmt_def with_uuid_def query_def inbox_id_of_def compat_of_def cap_canon_def
        sql_insert_inbox_id_def sample_created_db_def new_inbox_row_def)
  then show ?thesis
    using cf_inbox_id_stable [OF compat_of_wf [OF cap_good_wf [OF sample_created_db_good]] sample_id_env_keeps c', of sample_id_env]
    by (simp add: sample_id_env_def)
qed

lemma sample_mail_messages: "map (\<lambda>m. (ms_id m, ms_inbox m)) (messages sample_mail_db) = [([], ''i1'')]" "inbox_keys_of sample_mail_db = {''i1''}"
  by (simp_all add: sample_mail_db_def delivered_def delivery_rows_def sample_delivery_def sample_canon_def sample_newid_def sample_db_def empty_db_def)

theorem cf_message_ids_stable_witness:
  "\<exists>ids c'. EnsureMessageIDs Some (\<lambda>_. 7) ''i1'' [[]] (\<lambda>_. NoFault) (compat_of sample_mail_db) = (Inr ids, c') \<and> ids [] = Some 7 \<and>
     FindMessageID Some ''i1'' 7 NoFault c' = Inr [] \<and> FindMessageID Some ''i2'' 7 NoFault c' = Inl ErrMessageIDNotFound"
proof -
  obtain ids c' where e: "EnsureMessageIDs Some (\<lambda>_. 7) ''i1'' [[]] (\<lambda>_. NoFault) (compat_of sample_mail_db) = (Inr ids, c')" "ids [] = Some 7"
    using sample_mail_messages
    by (auto simp: EnsureMessageIDs_def run_tx_def ensureCloudflareTempMessageID_def tx_bind_def tx_return_def with_uuids_def with_uuid_def query_def
        message_id_of_def compat_of_def sql_insert_message_id_def list_ex_iff map_eq_Cons_conv)
  from cf_message_ids_stable [OF compat_of_wf [OF sample_mail_db_wf] e(1), of "[]"] e show ?thesis by auto
qed

definition sample_refresh_env :: "db \<Rightarrow> refresh_env" where
  "sample_refresh_env d = \<lparr>rf_ctx = Ctx None, rf_auth_now = 20, rf_auth_env = cap_quiet, rf_get_now = 20, rf_get_flt = NoFault, rf_get_db = d,
     rf_now = 20, rf_env = cap_quiet, rf_random = (\<lambda>_. replicate 44 CHR ''y''), rf_clock = (\<lambda>_. 20), rf_rotate_env = (\<lambda>_. cap_sample_env ''c2'')\<rparr>"

definition sample_refresh :: "issued_capability \<Rightarrow> db \<Rightarrow> (issued_capability \<times> inbox) result \<times> compat_db" where
  "sample_refresh iss d = RefreshToken cap_sha cap_canon (sample_refresh_env d) (is_plaintext iss) ''ABC@b'' d (compat_of d)"

lemma sample_refresh_Inr:
  "(case sample_owner_issue of (Inr iss, d) \<Rightarrow> \<not> isl (fst (sample_refresh iss d)) | _ \<Rightarrow> False)"
  by code_simp

theorem yyds_refresh_own_token_witness:
  "\<exists>iss d new inbox c'. sample_owner_issue = (Inr iss, d) \<and> sample_refresh iss d = (Inr (new, inbox), c') \<and>
     Authenticate cap_sha (pg_cap_repo cap_canon) (Ctx None) (is_plaintext iss) [] 20 cap_quiet (cm_db c') = Inl ErrUnauthenticated"
proof -
  obtain iss d where i: "sample_owner_issue = (Inr iss, d)" using sample_owner_issue_Inr by blast
  obtain new inbox c' where r: "sample_refresh iss d = (Inr (new, inbox), c')"
    using sample_refresh_Inr not_isl_pair [of "sample_refresh iss d"] unfolding i by auto
  have e: "cap_env_ok cap_canon (rf_rotate_env (sample_refresh_env d) j)" for j
    using cap_sample_env_ok [of "''c2''"] by (simp add: sample_refresh_env_def)
  have "RefreshToken cap_sha cap_canon (sample_refresh_env d) (is_plaintext iss) ''ABC@b'' (cm_db (compat_of d)) (compat_of d) = (Inr (new, inbox), c')"
    using r by (simp add: sample_refresh_def compat_of_def)
  note own = yyds_refresh_own_token [OF _ e _ _ _ this, of "Ctx None"]
  have good: "cap_good cap_canon (cm_db (compat_of d))" using sample_owner_good [OF i] by (simp add: compat_of_def)
  have "Authenticate cap_sha (pg_cap_repo cap_canon) (Ctx None) (is_plaintext iss) [] 20 cap_quiet (cm_db c') = Inl ErrUnauthenticated"
    using own good by (auto simp: sample_refresh_env_def)
  with i r show ?thesis by blast
qed

definition sample_cf_env :: cf_create_env where
  "sample_cf_env = \<lparr>fe_create = sample_create_env, fe_ids = sample_id_env, fe_delete_now = 12, fe_delete_clock = 12, fe_delete_flt = (\<lambda>_. NoFault)\<rparr>"

theorem cf_create_all_or_nothing_witness:
  "\<exists>a c'. CreateAddress cap_sha cap_canon sample_service sample_cf_env ''abc'' [] empty_compat = (Inr a, c') \<and>
     inbox_id_of (in_id (ad_inbox a)) c' = Some (ad_id a) \<and> 0 < ad_id a"
proof -
  have name: "normalizeAddressName ''abc'' = ''abc''" by code_simp
  obtain created d where created: "sample_created = (Inr created, d)" using sample_created_Inr by blast
  then have create: "on_db (Create cap_sha cap_canon sample_service (fe_create sample_cf_env) \<lparr>cq_domain = [], cq_local = normalizeAddressName ''abc'', cq_lifetime = 0\<rparr>) empty_compat =
      (Inr created, cascade d empty_compat)" by (simp add: on_db_def name sample_cf_env_def sample_created_def empty_compat_def)
  have good: "cap_good cap_canon (cm_db empty_compat)" "create_env_ok cap_canon (fe_create sample_cf_env)" "contents_referenced (cm_db empty_compat)"
    using cap_sample_env_ok[of "''c1''"] db_wf_empty
    by (auto simp: cap_good_def empty_compat_def empty_db_def cap_canon_def create_env_ok_def sample_create_env_def sample_cf_env_def contents_referenced_def split: if_splits)
  obtain r c' where r: "CreateAddress cap_sha cap_canon sample_service sample_cf_env ''abc'' [] empty_compat = (r, c')" by fastforce
  have nf: "\<forall>j. fault_error (ce_fault sample_create_env j) \<noteq> Some ErrAddressConflict" by (simp add: sample_create_env_def)
  have "''i1'' \<in> inbox_keys_of d \<and> in_id (ci_inbox created) = ''i1''"
    by (rule Create_Inr [OF created [unfolded sample_created_def] nf])
      (auto simp: sample_create_env_def inbox_of_def new_inbox_row_def dest!: Issue_frame)
  then obtain a where "r = Inr a" using r create name
    by (auto simp: CreateAddress_def EnsureInboxID_def sample_cf_env_def sample_id_env_def run_stmt_def with_uuid_def query_def inbox_id_of_def
        sql_insert_inbox_id_def cascade_def empty_compat_def cap_canon_def)
  then show ?thesis
    using cf_create_all_or_nothing [OF compat_wf_empty good(1,3,2) _ create _ r] r name by (auto simp: sample_cf_env_def sample_id_env_def)
qed

end
