(* ===== verification/Create_Quota.thy ===== *)
theory Create_Quota
  imports Mailbox_Repository
begin

text \<open>
  \<^verbatim>\<open>internal/abuse/create_quota.go\<close> and \<^verbatim>\<open>internal/postgres/create_quota_repository.go\<close>: the daily quota of
  Inbox creations per client address. \<open>sha256\<close> is the hash, \<open>parse_ip\<close> is \<^verbatim>\<open>net.ParseIP\<close> with
  its 16-byte result.
\<close>

unbundle bit_operations_syntax

section \<open>Identities\<close>

definition createIdentityDomain :: bytes where
  "createIdentityDomain = ''mailwisp:create-quota:v1'' @ [CHR 0x00]"

definition normalizedIPBytes :: "bytes \<Rightarrow> bytes" where
  "normalizedIPBytes ip =
     (if length ip = 16 \<and> take 10 ip = replicate 10 (CHR 0x00) \<and> take 2 (drop 10 ip) = [CHR 0xFF, CHR 0xFF] then drop 12 ip else ip)"

definition xor_byte :: "nat \<Rightarrow> char \<Rightarrow> char" where
  "xor_byte k c = char_of (unat ((word_of_nat k :: 8 word) XOR word_of_nat (of_char c)))"

text \<open>\<^verbatim>\<open>hmac.New(sha256.New, key)\<close> for a key of at most one block.\<close>

definition hmac_sha256 :: "(bytes \<Rightarrow> bytes) \<Rightarrow> bytes \<Rightarrow> bytes \<Rightarrow> bytes" where
  "hmac_sha256 sha256 key text' =
     (let block = key @ replicate (64 - length key) (CHR 0x00) in
      sha256 (map (xor_byte 92) block @ sha256 (map (xor_byte 54) block @ text')))"

section \<open>The counter\<close>

definition day :: duration where "day = 24 * 3600 * 1000000000"

definition staleCreateQuotaCleanupBatch :: nat where "staleCreateQuotaCleanupBatch = 100"

text \<open>The rows the clean-up deletes; \<open>locked\<close> are rows other transactions hold.\<close>

definition stale_quotas :: "(bytes \<times> int) set \<Rightarrow> int \<Rightarrow> db \<Rightarrow> (bytes \<times> int) list" where
  "stale_quotas locked date d =
     take staleCreateQuotaCleanupBatch (map (\<lambda>q. (qt_digest q, qt_bucket q))
       (sort_key (\<lambda>q. (qt_bucket q, qt_digest q))
         (filter (\<lambda>q. qt_bucket q < date - 2 \<and> (qt_digest q, qt_bucket q) \<notin> locked) (create_quotas d))))"

definition sql_cleanup_quotas :: "(bytes \<times> int) set \<Rightarrow> int \<Rightarrow> unit stmt" where
  "sql_cleanup_quotas locked date d =
     Inr ((), d\<lparr>create_quotas := filter (\<lambda>q. (qt_digest q, qt_bucket q) \<notin> set (stale_quotas locked date d)) (create_quotas d)\<rparr>)"

text \<open>\<^verbatim>\<open>INSERT ... ON CONFLICT DO UPDATE ... WHERE used < limit RETURNING used\<close>.\<close>

definition sql_consume_quota :: "time \<Rightarrow> bytes \<Rightarrow> int \<Rightarrow> int \<Rightarrow> int option stmt" where
  "sql_consume_quota now digest date limit d =
     (case find (\<lambda>q. (qt_digest q, qt_bucket q) = (digest, date)) (create_quotas d) of
        None \<Rightarrow> Inr (Some 1, d\<lparr>create_quotas := create_quotas d @ [\<lparr>qt_digest = digest, qt_bucket = date, qt_used = 1, qt_updated = now\<rparr>]\<rparr>)
      | Some q \<Rightarrow>
          if qt_used q < limit
          then Inr (Some (qt_used q + 1), d\<lparr>create_quotas := map (\<lambda>r. if (qt_digest r, qt_bucket r) = (digest, date)
                 then r\<lparr>qt_used := qt_used r + 1, qt_updated := now\<rparr> else r) (create_quotas d)\<rparr>)
          else Inr (None, d))"

definition consume_tx :: "(bytes \<times> int) set \<Rightarrow> time \<Rightarrow> bytes \<Rightarrow> int \<Rightarrow> int \<Rightarrow> int tx" where
  "consume_tx locked now digest date limit =
     tx_bind (stmt sql_wrap (sql_cleanup_quotas locked date)) (\<lambda>_.
     tx_bind (stmt sql_wrap (sql_consume_quota now digest date limit)) (\<lambda>used.
       case used of None \<Rightarrow> tx_fail ErrDailyCreateQuotaExceeded | Some n \<Rightarrow> tx_return n))"

definition ConsumeInboxCreate :: "(bytes \<times> int) set \<Rightarrow> time \<Rightarrow> bytes \<Rightarrow> time \<Rightarrow> int \<Rightarrow> (nat \<Rightarrow> fault) \<Rightarrow> db \<Rightarrow> (int \<times> go_error option) \<times> db" where
  "ConsumeInboxCreate locked now digest bucket limit flt d =
     (if bucket mod day \<noteq> 0 \<or> limit \<le> 0 then ((0, Some (OtherError ''create quota request is invalid'')), d)
      else case run_tx (consume_tx locked now digest (bucket div day) limit) flt d of
          (Inr used, d') \<Rightarrow> ((used, None), d')
        | (Inl e, d') \<Rightarrow> ((if e = ErrDailyCreateQuotaExceeded then limit else 0, Some e), d'))"

section \<open>The service\<close>

record quota_service =
  qs_key :: bytes
  qs_dailyLimit :: int

record decision =
  dc_limit :: int
  dc_remaining :: int
  dc_reset :: time

definition NewQuotaService :: "bool \<Rightarrow> bytes \<Rightarrow> int \<Rightarrow> quota_service result" where
  "NewQuotaService has_repository key dailyLimit =
     (if \<not> has_repository then Inl (OtherError ''create quota repository is required'')
      else if length key \<noteq> 32 then Inl (OtherError ''create quota HMAC key must contain exactly 32 bytes'')
      else if dailyLimit \<le> 0 \<or> dailyLimit > 1000000 then Inl (OtherError ''create quota daily limit must be between 1 and 1000000'')
      else Inr \<lparr>qs_key = key, qs_dailyLimit = dailyLimit\<rparr>)"

definition identity_digest :: "(bytes \<Rightarrow> bytes) \<Rightarrow> quota_service \<Rightarrow> bytes \<Rightarrow> bytes" where
  "identity_digest sha256 sv ip = hmac_sha256 sha256 (qs_key sv) (createIdentityDomain @ normalizedIPBytes ip)"

record quota_call =
  qc_ctx :: ctx
  qc_address :: string
  qc_now :: time
  qc_db_now :: time
  qc_locked :: "(bytes \<times> int) set"
  qc_fault :: "nat \<Rightarrow> fault"

definition Consume :: "(bytes \<Rightarrow> bytes) \<Rightarrow> (string \<Rightarrow> bytes option) \<Rightarrow> quota_service \<Rightarrow> quota_call \<Rightarrow> db \<Rightarrow> (decision option \<times> go_error option) \<times> db" where
  "Consume sha256 parse_ip sv c d =
     (if qc_ctx c = NilCtx then ((None, Some (OtherError ''create quota context is required'')), d)
      else case ctx_err (qc_ctx c) of
          Some e \<Rightarrow> ((None, Some e), d)
        | None \<Rightarrow>
            (case parse_ip (qc_address c) of
               None \<Rightarrow> ((None, Some ErrInvalidClientAddress), d)
             | Some ip \<Rightarrow>
                 let bucket = qc_now c - qc_now c mod day in
                 (case ConsumeInboxCreate (qc_locked c) (qc_db_now c) (identity_digest sha256 sv ip) bucket (qs_dailyLimit sv) (qc_fault c) d of
                    ((used, err), d') \<Rightarrow>
                      ((Some \<lparr>dc_limit = qs_dailyLimit sv, dc_remaining = max 0 (qs_dailyLimit sv - used), dc_reset = bucket + day\<rparr>, err), d'))))"

section \<open>What the counter guarantees\<close>

definition used_of :: "db \<Rightarrow> bytes \<times> int \<Rightarrow> int" where
  "used_of d k = (case find (\<lambda>q. (qt_digest q, qt_bucket q) = k) (create_quotas d) of None \<Rightarrow> 0 | Some q \<Rightarrow> qt_used q)"

lemma find_filter: "(\<And>x. P x \<Longrightarrow> Q x) \<Longrightarrow> find P (filter Q xs) = find P xs"
  by (induction xs) auto

lemma find_map_same: "(\<And>x. P (f x) = P x) \<Longrightarrow> find P (map f xs) = map_option f (find P xs)"
  by (induction xs) auto

lemma find_snoc: "find P (xs @ [y]) = (case find P xs of None \<Rightarrow> if P y then Some y else None | Some x \<Rightarrow> Some x)"
  by (induction xs) simp_all

lemma stale_quotas_old: "(g, b) \<in> set (stale_quotas locked date d) \<Longrightarrow> b < date - 2"
  unfolding stale_quotas_def by (drule in_set_takeD) auto

lemma quota_cleanup_keeps:
  assumes "sql_cleanup_quotas locked date d = Inr (u, d')" and "date - 2 \<le> b"
  shows "used_of d' (g, b) = used_of d (g, b)"
proof -
  have "(g, b) \<notin> set (stale_quotas locked date d)" using stale_quotas_old assms(2) by fastforce
  then have "find (\<lambda>q. (qt_digest q, qt_bucket q) = (g, b)) (create_quotas d') = find (\<lambda>q. (qt_digest q, qt_bucket q) = (g, b)) (create_quotas d)"
    using assms(1) unfolding sql_cleanup_quotas_def by (auto intro!: find_filter)
  then show ?thesis by (simp add: used_of_def)
qed

lemma consume_used:
  assumes "sql_consume_quota now g b limit d = Inr (used, d')" and "0 < limit"
  shows "case used of
      None \<Rightarrow> d' = d \<and> limit \<le> used_of d (g, b)
    | Some n \<Rightarrow> used_of d (g, b) < limit \<and> n = used_of d (g, b) + 1 \<and>
        used_of d' = (used_of d)((g, b) := n)"
proof (cases "find (\<lambda>q. (qt_digest q, qt_bucket q) = (g, b)) (create_quotas d)")
  case None
  have "find (\<lambda>q. (qt_digest q, qt_bucket q) = k) (create_quotas d @ [\<lparr>qt_digest = g, qt_bucket = b, qt_used = 1, qt_updated = now\<rparr>]) =
      (if k = (g, b) then Some \<lparr>qt_digest = g, qt_bucket = b, qt_used = 1, qt_updated = now\<rparr>
       else find (\<lambda>q. (qt_digest q, qt_bucket q) = k) (create_quotas d))" for k
    using None by (auto simp: find_snoc split: option.splits)
  then show ?thesis using assms None by (auto simp: sql_consume_quota_def used_of_def fun_eq_iff)
next
  case (Some q)
  show ?thesis
  proof (cases "qt_used q < limit")
    case True
    let ?f = "\<lambda>r. if (qt_digest r, qt_bucket r) = (g, b) then r\<lparr>qt_used := qt_used r + 1, qt_updated := now\<rparr> else r"
    have "find (\<lambda>q. (qt_digest q, qt_bucket q) = k) (map ?f (create_quotas d)) = map_option ?f (find (\<lambda>q. (qt_digest q, qt_bucket q) = k) (create_quotas d))" for k
      by (rule find_map_same) auto
    moreover have "d' = d\<lparr>create_quotas := map ?f (create_quotas d)\<rparr>" "used = Some (qt_used q + 1)"
      using assms(1) Some True by (auto simp: sql_consume_quota_def)
    ultimately show ?thesis using Some True
      by (auto simp: used_of_def fun_eq_iff split: option.splits dest: find_SomeD)
  next
    case False
    then show ?thesis using assms Some by (auto simp: sql_consume_quota_def used_of_def)
  qed
qed

lemma consume_tx_Inr:
  assumes "consume_tx locked now g b limit flt (n, d) = (Inr used, n', d')" and "0 < limit"
  shows "used_of d (g, b) < limit \<and> used = used_of d (g, b) + 1 \<and> used_of d' (g, b) = used \<and>
    (\<forall>g' b'. (g', b') \<noteq> (g, b) \<longrightarrow> b - 2 \<le> b' \<longrightarrow> used_of d' (g', b') = used_of d (g', b'))"
proof -
  obtain d1 where c: "sql_cleanup_quotas locked b d = Inr ((), d1)" "sql_consume_quota now g b limit d1 = Inr (Some used, d')"
    using assms(1) by (auto simp: consume_tx_def tx_simps simp del: stmt.simps split: option.splits)
  have same: "used_of d1 (g', b') = used_of d (g', b')" if "b - 2 \<le> b'" for g' b' using quota_cleanup_keeps[OF c(1) that] .
  then show ?thesis using consume_used[OF c(2) assms(2)] by auto
qed

lemma consume_tx_run:
  assumes "0 < limit"
  shows "if used_of d (g, b) < limit then \<exists>n d'. consume_tx locked now g b limit (\<lambda>_. NoFault) (1, d) = (Inr (used_of d (g, b) + 1), n, d')
    else \<exists>s. consume_tx locked now g b limit (\<lambda>_. NoFault) (1, d) = (Inl ErrDailyCreateQuotaExceeded, s)"
proof -
  obtain d1 where c: "sql_cleanup_quotas locked b d = Inr ((), d1)" by (simp add: sql_cleanup_quotas_def)
  have same: "used_of d1 (g, b) = used_of d (g, b)" by (rule quota_cleanup_keeps[OF c]) simp
  have "\<exists>x d2. sql_consume_quota now g b limit d1 = Inr (x, d2)" by (auto simp: sql_consume_quota_def split: option.splits)
  then obtain x d2 where x: "sql_consume_quota now g b limit d1 = Inr (x, d2)" by blast
  show ?thesis using consume_used[OF x assms] same c x
    by (cases x) (auto simp: consume_tx_def tx_bind_def tx_return_def tx_fail_def)
qed

text \<open>The calls of one identity on one day that are admitted in a sequence of calls.\<close>

definition quota_key :: "(bytes \<Rightarrow> bytes) \<Rightarrow> (string \<Rightarrow> bytes option) \<Rightarrow> quota_service \<Rightarrow> quota_call \<Rightarrow> (bytes \<times> int) option" where
  "quota_key sha256 parse_ip sv c = map_option (\<lambda>ip. (identity_digest sha256 sv ip, qc_now c div day)) (parse_ip (qc_address c))"

fun admitted :: "(bytes \<Rightarrow> bytes) \<Rightarrow> (string \<Rightarrow> bytes option) \<Rightarrow> quota_service \<Rightarrow> bytes \<times> int \<Rightarrow> quota_call list \<Rightarrow> db \<Rightarrow> nat" where
  "admitted sha256 parse_ip sv k [] d = 0"
| "admitted sha256 parse_ip sv k (c # cs) d =
     (case Consume sha256 parse_ip sv c d of
        ((_, err), d') \<Rightarrow> (if err = None \<and> quota_key sha256 parse_ip sv c = Some k then 1 else 0) + admitted sha256 parse_ip sv k cs d')"

lemma bucket_day: "(t - t mod day) mod day = 0" "(t - t mod day) div day = t div day"
  by (simp_all add: minus_mod_eq_mult_div)

lemma Consume_effect:
  assumes "0 < qs_dailyLimit sv" and "Consume sha256 parse_ip sv c d = ((dec, err), d')"
    and "qc_now c div day \<le> snd k + 2"
  shows "if quota_key sha256 parse_ip sv c = Some k
     then used_of d' k = used_of d k \<and> err \<noteq> None \<or> used_of d' k = used_of d k + 1 \<and> used_of d k < qs_dailyLimit sv
     else used_of d' k = used_of d k"
proof (cases "\<exists>ip. qc_ctx c \<noteq> NilCtx \<and> ctx_err (qc_ctx c) = None \<and> parse_ip (qc_address c) = Some ip")
  case False
  then have "d' = d \<and> (\<exists>e. err = Some e)" using assms(2) 
    by (cases "qc_ctx c = NilCtx"; cases "ctx_err (qc_ctx c)"; cases "parse_ip (qc_address c)") (simp_all add: Consume_def, (metis fst_conv snd_conv)+)
  then show ?thesis by simp
next
  case True
  then obtain ip where ip: "qc_ctx c \<noteq> NilCtx" "ctx_err (qc_ctx c) = None" "parse_ip (qc_address c) = Some ip" by blast
  let ?g = "identity_digest sha256 sv ip" and ?b = "qc_now c div day" and ?limit = "qs_dailyLimit sv"
  have key: "quota_key sha256 parse_ip sv c = Some (?g, ?b)" using ip by (simp add: quota_key_def)
  obtain r where r: "run_tx (consume_tx (qc_locked c) (qc_db_now c) ?g ?b ?limit) (qc_fault c) d = (r, d')"
    and err: "err = None \<longleftrightarrow> (\<exists>u. r = Inr u)"
    using assms(1,2) ip by (auto simp: Consume_def ConsumeInboxCreate_def Let_def bucket_day split: prod.splits sum.splits)
  from r show ?thesis
  proof (cases rule: run_tx_cases)
    case Unchanged
    then show ?thesis using err by auto
  next
    case (Done used n)
    note eff = consume_tx_Inr[OF Done(1) assms(1)]
    show ?thesis using eff key assms(3) by (cases k) auto
  qed
qed

lemma admitted_bound:
  assumes "0 < qs_dailyLimit sv" and "\<forall>c \<in> set cs. qc_now c div day \<le> snd k + 2"
  shows "int (admitted sha256 parse_ip sv k cs d) \<le> max 0 (qs_dailyLimit sv - used_of d k)"
  using assms(2)
proof (induction cs arbitrary: d)
  case (Cons c cs)
  obtain dec err d' where c: "Consume sha256 parse_ip sv c d = ((dec, err), d')" by (metis prod.exhaust)
  have "if quota_key sha256 parse_ip sv c = Some k
     then used_of d' k = used_of d k \<and> err \<noteq> None \<or> used_of d' k = used_of d k + 1 \<and> used_of d k < qs_dailyLimit sv
     else used_of d' k = used_of d k"
    using Consume_effect[OF assms(1) c, of k] Cons.prems by simp
  then show ?case using Cons.IH[of d'] Cons.prems c by (auto split: if_splits)
qed simp

section \<open>Properties\<close>

text \<open>
  The daily quota holds: in any sequence of calls, under any failures and whatever other clients do, one client address
  has at most \<^verbatim>\<open>dailyLimit\<close> creations admitted on one day, less those already counted; only calls whose
  clock is more than two days ahead could erase the counter. An undisturbed call is admitted exactly while the counter
  is below the limit, and then counts one; otherwise it is refused with
  \<^verbatim>\<open>ErrDailyCreateQuotaExceeded\<close> and changes nothing.
\<close>

theorem daily_quota_holds:
  assumes "NewQuotaService True key dailyLimit = Inr sv" and "\<forall>c \<in> set calls. qc_now c div day \<le> snd k + 2"
    and "qc_ctx c = Ctx None" and "qc_fault c = (\<lambda>_. NoFault)" and "quota_key sha256 parse_ip sv c = Some k'"
    and "Consume sha256 parse_ip sv c d = ((dec, err), d')"
  shows "int (admitted sha256 parse_ip sv k calls d) \<le> max 0 (dailyLimit - used_of d k) \<and>
    (if used_of d k' < dailyLimit then err = None \<and> used_of d' k' = used_of d k' + 1
     else err = Some ErrDailyCreateQuotaExceeded \<and> d' = d)"
proof -
  have lim: "qs_dailyLimit sv = dailyLimit" "0 < dailyLimit" using assms(1) by (auto simp: NewQuotaService_def split: if_splits)
  obtain ip where ip: "parse_ip (qc_address c) = Some ip" "k' = (identity_digest sha256 sv ip, qc_now c div day)"
    using assms(5) by (auto simp: quota_key_def)
  let ?tx = "consume_tx (qc_locked c) (qc_db_now c) (identity_digest sha256 sv ip) (qc_now c div day) dailyLimit"
  have run: "(case run_tx ?tx (\<lambda>_. NoFault) d of (Inr _, d') \<Rightarrow> (None, d') | (Inl e, d') \<Rightarrow> (Some e, d')) = (err, d')"
    using assms(3,4,6) ip lim by (auto simp: Consume_def ConsumeInboxCreate_def Let_def bucket_day split: prod.splits sum.splits)
  have "if used_of d k' < dailyLimit then err = None \<and> used_of d' k' = used_of d k' + 1
     else err = Some ErrDailyCreateQuotaExceeded \<and> d' = d"
  proof (cases "used_of d k' < dailyLimit")
    case True
    then obtain n d'' where tx: "?tx (\<lambda>_. NoFault) (1, d) = (Inr (used_of d k' + 1), n, d'')"
      using consume_tx_run[OF lim(2), of d "fst k'" "snd k'" "qc_locked c" "qc_db_now c"] ip(2) by auto
    then have "err = None" "d' = d''" using run by (simp_all add: run_tx_def)
    then show ?thesis using True consume_tx_Inr[OF tx lim(2)] ip(2) by simp
  next
    case False
    then obtain s where "?tx (\<lambda>_. NoFault) (1, d) = (Inl ErrDailyCreateQuotaExceeded, s)"
      using consume_tx_run[OF lim(2), of d "fst k'" "snd k'" "qc_locked c" "qc_db_now c"] ip(2) by auto
    then show ?thesis using False run by (simp add: run_tx_def)
  qed
  then show ?thesis using admitted_bound[of sv calls k sha256 parse_ip d] lim assms(2) by simp
qed

section \<open>Concrete instances\<close>

definition sample_quota_call :: quota_call where
  "sample_quota_call = \<lparr>qc_ctx = Ctx None, qc_address = ''::1'', qc_now = 5, qc_db_now = 5, qc_locked = {}, qc_fault = (\<lambda>_. NoFault)\<rparr>"

theorem daily_quota_holds_witness:
  "int (admitted id (\<lambda>s. Some s) \<lparr>qs_key = replicate 32 CHR ''k'', qs_dailyLimit = 1\<rparr>
     (identity_digest id \<lparr>qs_key = replicate 32 CHR ''k'', qs_dailyLimit = 1\<rparr> ''::1'', 0) [sample_quota_call, sample_quota_call] empty_db) \<le> 1"
proof -
  let ?sv = "\<lparr>qs_key = replicate 32 CHR ''k'', qs_dailyLimit = 1\<rparr>" and ?k = "(identity_digest id \<lparr>qs_key = replicate 32 CHR ''k'', qs_dailyLimit = 1\<rparr> ''::1'', 0 :: int)"
  have k: "quota_key id (\<lambda>s. Some s) ?sv sample_quota_call = Some ?k"
    by (simp add: quota_key_def sample_quota_call_def day_def)
  obtain dec err d' where c: "Consume id (\<lambda>s. Some s) ?sv sample_quota_call empty_db = ((dec, err), d')" by (metis prod.exhaust)
  show ?thesis
    using daily_quota_holds[of "replicate 32 CHR ''k''" 1 ?sv "[sample_quota_call, sample_quota_call]" ?k, OF _ _ _ _ k c]
    by (simp add: NewQuotaService_def sample_quota_call_def used_of_def empty_db_def day_def)
qed

end
