(* ===== verification/Http_Api.thy ===== *)
theory Http_Api
  imports Message_Cursor Create_Quota Net_Addr Wisp_Config
begin

text \<open>
  \<^verbatim>\<open>internal/httpapi/server.go\<close>: the canonical HTTP API. A handler maps a request, the answers of its
  environment and the tables to a response and the tables.

  A request is what \<^verbatim>\<open>net/http\<close> hands to a handler: the method, headers, query and path values, the
  session cookie, and for the two handlers that read a body what \<^verbatim>\<open>encoding/json\<close> makes of it. The
  decision of the in-memory rate limiter, which computes in floating point, is part of the environment
  (\<open>he_allow\<close>), as are clocks, randomness, database faults and the number of downloads in progress.
\<close>

section \<open>Requests and responses\<close>

text \<open>
  The body of a request after two calls of \<^verbatim>\<open>Decode\<close>: both find the end, the first fails, one value
  and nothing after it, or a value with something after it.
\<close>

datatype 'a json_body = JsonEmpty | JsonInvalid | JsonOne 'a | JsonTrailing 'a

record create_input =
  cin_domain :: string
  cin_ttl_seconds :: int

record http_request =
  rq_method :: string
  rq_remote :: string
  rq_header :: "string \<Rightarrow> string"
  rq_cookie :: "string option"
  rq_query :: "string \<Rightarrow> string"
  rq_path :: "string \<Rightarrow> string"
  rq_create :: "create_input json_body"
  rq_seen :: "bool option json_body"

datatype session_cookie = SetSession string int time | ClearSession

datatype response_body =
    NoBody
  | ErrorBody string string string
  | StatusBody string
  | InboxBody inbox
  | CreatedBody created_inbox "string list"
  | SessionBody inbox time string
  | MessagesBody "message_summary list" string
  | MessageBody message_detail
  | StreamBody bytes

record response =
  rp_status :: int
  rp_headers :: "(string \<times> string) list"
  rp_cookie :: "session_cookie option"
  rp_body :: response_body

text \<open>The libraries the handlers call, as parameters.\<close>

record http_libs =
  hl_sha256 :: "bytes \<Rightarrow> bytes"
  hl_canon :: "string \<Rightarrow> string option"
  hl_uuid :: uuid_lib
  hl_version :: "bytes \<Rightarrow> nat"
  hl_part :: "bytes \<Rightarrow> string \<Rightarrow> bytes result"
  hl_media_type_ok :: "string \<Rightarrow> bool"
  hl_disposition :: "string \<Rightarrow> string"

record http_server =
  hs_ready :: bool
  hs_readiness :: bool
  hs_mailbox :: "mailbox_service option"
  hs_authenticator :: bool
  hs_sessions :: "(aead \<times> duration) option"
  hs_quota :: "quota_service option"
  hs_trusted :: "ipnet list"
  hs_heavy_slots :: int

text \<open>
  \<open>he_now\<close> is the transaction time of PostgreSQL, \<open>he_clock\<close> its \<^verbatim>\<open>clock_timestamp()\<close>, \<open>he_wall\<close> the
  time the process reads; \<open>he_db2\<close> is the state of the tables a second statement of a read sees.
\<close>

record http_env =
  he_request_id :: string
  he_ctx :: ctx
  he_allow :: bool
  he_ready :: "go_error option"
  he_heavy :: int
  he_wall :: time
  he_now :: time
  he_clock :: time
  he_auth_env :: cap_env
  he_random :: bytes
  he_create :: create_env
  he_quota_locked :: "(bytes \<times> int) set"
  he_quota_fault :: "nat \<Rightarrow> fault"
  he_flt :: fault
  he_flt2 :: fault
  he_txflt :: "nat \<Rightarrow> fault"
  he_db2 :: db
  he_store :: store
  he_sflt :: "store_op \<Rightarrow> go_error option"

section \<open>Construction\<close>

definition trusted_networks :: "string list \<Rightarrow> ipnet list" where
  "trusted_networks cidrs = List.map_filter ParseCIDR cidrs"

definition NewHttpServer :: "http_config \<Rightarrow> http_server" where
  "NewHttpServer cfg =
     \<lparr>hs_ready = False, hs_readiness = False, hs_mailbox = None, hs_authenticator = False, hs_sessions = None, hs_quota = None,
      hs_trusted = trusted_networks (hc_TrustedProxyCIDRs cfg),
      hs_heavy_slots = (if hc_HeavyReadConcurrency cfg \<le> 0 then 4 else hc_HeavyReadConcurrency cfg)\<rparr>"

definition SetReadinessChecker :: "bool \<Rightarrow> http_server \<Rightarrow> http_server" where
  "SetReadinessChecker checker s = s\<lparr>hs_readiness := checker\<rparr>"

definition SetMailboxService :: "mailbox_service \<Rightarrow> bool \<Rightarrow> http_server \<Rightarrow> http_server" where
  "SetMailboxService service authenticator s = s\<lparr>hs_mailbox := Some service, hs_authenticator := authenticator\<rparr>"

definition SetCreateQuota :: "quota_service \<Rightarrow> http_server \<Rightarrow> http_server" where
  "SetCreateQuota quota s = s\<lparr>hs_quota := Some quota\<rparr>"

definition SetBrowserSessions :: "aead \<times> duration \<Rightarrow> http_server \<Rightarrow> http_server" where
  "SetBrowserSessions manager s = s\<lparr>hs_sessions := Some manager\<rparr>"

definition SetReady :: "bool \<Rightarrow> http_server \<Rightarrow> http_server" where
  "SetReady ready s = s\<lparr>hs_ready := ready\<rparr>"

section \<open>Writing responses\<close>

definition json_headers :: "(string \<times> string) list" where
  "json_headers = [(''Content-Type'', ''application/json; charset=utf-8''), (''Cache-Control'', ''no-store'')]"

definition writeJSON :: "int \<Rightarrow> response_body \<Rightarrow> response" where
  "writeJSON status body = \<lparr>rp_status = status, rp_headers = json_headers, rp_cookie = None, rp_body = body\<rparr>"

definition writeError :: "http_env \<Rightarrow> int \<Rightarrow> string \<Rightarrow> string \<Rightarrow> response" where
  "writeError env status code msg = writeJSON status (ErrorBody code msg (he_request_id env))"

definition writeNoContent :: response where
  "writeNoContent = \<lparr>rp_status = 204, rp_headers = [], rp_cookie = None, rp_body = NoBody\<rparr>"

definition add_headers :: "(string \<times> string) list \<Rightarrow> response \<Rightarrow> response" where
  "add_headers hs r = r\<lparr>rp_headers := hs @ rp_headers r\<rparr>"

definition with_cookie :: "session_cookie \<Rightarrow> response \<Rightarrow> response" where
  "with_cookie c r = r\<lparr>rp_cookie := Some c\<rparr>"

definition writeMappedError :: "http_env \<Rightarrow> go_error \<Rightarrow> response" where
  "writeMappedError env e =
     (if e = ErrUnauthenticated then writeError env 401 ''unauthenticated'' ''a MailWisp capability is invalid or expired''
      else if e = ErrForbidden then writeError env 403 ''forbidden'' ''the capability scope does not allow this action''
      else if e = ErrCSRF then writeError env 403 ''csrf_failed'' ''the browser CSRF proof is missing or invalid''
      else if e = ErrBrowserSessionDisabled then writeError env 501 ''not_configured'' ''browser sessions are not configured''
      else if e = MailboxErrInboxNotFound \<or> e = ErrMessageNotFound
        then writeError env 404 ''not_found'' ''the requested resource was not found''
      else if e = ErrInvalidDomain \<or> e = ErrInvalidLifetime \<or> e = ErrInvalidLocalPart
        then writeError env 400 ''invalid_request'' ''the Inbox creation request is invalid''
      else if e = ErrAddressConflict
        then writeError env 503 ''address_unavailable'' ''a unique Inbox address could not be allocated''
      else writeError env 500 ''internal_error'' ''internal server error'')"

text \<open>\<^verbatim>\<open>max(1, int(time.Until(t).Seconds()))\<close>\<close>

definition seconds_until :: "time \<Rightarrow> time \<Rightarrow> int" where
  "seconds_until now t = max 1 ((t - now) div second_ns)"

definition setSessionCookie :: "http_env \<Rightarrow> browser_session \<Rightarrow> response \<Rightarrow> response" where
  "setSessionCookie env session = with_cookie (SetSession (bs_cookie session) (seconds_until (he_wall env) (bs_expires session)) (bs_expires session))"

definition clearSessionCookie :: "response \<Rightarrow> response" where
  "clearSessionCookie = with_cookie ClearSession"

section \<open>Authentication\<close>

definition authenticateBearer :: "http_libs \<Rightarrow> http_env \<Rightarrow> http_request \<Rightarrow> scope list \<Rightarrow> db \<Rightarrow> principal result" where
  "authenticateBearer L env rq scopes d =
     (case cut (rq_header rq ''Authorization'') CHR '' '' of (scheme, rest, found) \<Rightarrow>
        let plaintext = trim_space rest in
        if \<not> found \<or> \<not> equal_fold_ascii scheme ''Bearer'' \<or> plaintext = [] then Inl ErrUnauthenticated
        else Authenticate (hl_sha256 L) (pg_cap_repo (hl_canon L)) (he_ctx env) plaintext scopes (he_wall env) (he_auth_env env) d)"

definition session_required :: "http_env \<Rightarrow> response" where
  "session_required env = writeError env 401 ''unauthenticated'' ''a MailWisp capability or browser session is required''"

text \<open>Both return the response to write instead of the principal when the caller is turned away.\<close>

definition requireBrowserPrincipal :: "http_libs \<Rightarrow> http_server \<Rightarrow> http_env \<Rightarrow> http_request \<Rightarrow> bool \<Rightarrow> scope list \<Rightarrow> response + principal" where
  "requireBrowserPrincipal L s env rq requireCSRF scopes =
     (case hs_mailbox s of None \<Rightarrow> Inl (session_required env) | Some _ \<Rightarrow>
      case hs_sessions s of None \<Rightarrow> Inl (session_required env) | Some (A, lifetime) \<Rightarrow>
      case rq_cookie rq of None \<Rightarrow> Inl (session_required env) | Some cookie \<Rightarrow>
        if cookie = [] then Inl (session_required env)
        else case session_Authenticate (hl_sha256 L) A (hl_uuid L) (he_ctx env) cookie (rq_header rq ''X-MailWisp-CSRF'') requireCSRF scopes (he_wall env) of
            Inl e \<Rightarrow> Inl (writeMappedError env e)
          | Inr p \<Rightarrow> Inr p)"

definition requirePrincipal :: "http_libs \<Rightarrow> http_server \<Rightarrow> http_env \<Rightarrow> http_request \<Rightarrow> scope list \<Rightarrow> db \<Rightarrow> response + principal" where
  "requirePrincipal L s env rq scopes d =
     (if hs_mailbox s = None \<or> \<not> hs_authenticator s then Inl (writeError env 501 ''not_configured'' ''Inbox API is not configured'')
      else if trim_space (rq_header rq ''Authorization'') \<noteq> [] then
        (case authenticateBearer L env rq scopes d of Inl e \<Rightarrow> Inl (writeMappedError env e) | Inr p \<Rightarrow> Inr p)
      else requireBrowserPrincipal L s env rq (rq_method rq \<notin> {''GET'', ''HEAD'', ''OPTIONS''}) scopes)"

definition parseMessageID :: "http_libs \<Rightarrow> string \<Rightarrow> string option" where
  "parseMessageID L raw = (if ul_parse (hl_uuid L) raw = None then None else Some raw)"

section \<open>Client address\<close>

fun forwarded_client :: "ipnet list \<Rightarrow> bytes \<Rightarrow> string \<Rightarrow> string option" where
  "forwarded_client [] ip header = None"
| "forwarded_client (n # ns) ip header =
     (let forwarded = trim_space (hd (split_on CHR '','' header)) in
      if Contains n ip \<and> ParseIP forwarded \<noteq> None then Some forwarded else forwarded_client ns ip header)"

definition clientIP :: "http_server \<Rightarrow> http_request \<Rightarrow> string" where
  "clientIP s rq =
     (let remote = (case SplitHostPort (rq_remote rq) of None \<Rightarrow> rq_remote rq | Some (host, _) \<Rightarrow> host) in
      case ParseIP remote of
        None \<Rightarrow> remote
      | Some ip \<Rightarrow> (case forwarded_client (hs_trusted s) ip (rq_header rq ''X-Forwarded-For'') of None \<Rightarrow> remote | Some f \<Rightarrow> f))"

section \<open>Creation\<close>

definition quota_call_of :: "http_server \<Rightarrow> http_env \<Rightarrow> http_request \<Rightarrow> quota_call" where
  "quota_call_of s env rq =
     \<lparr>qc_ctx = he_ctx env, qc_address = clientIP s rq, qc_now = he_wall env, qc_db_now = he_now env,
      qc_locked = he_quota_locked env, qc_fault = he_quota_fault env\<rparr>"

definition consumeCreateQuota :: "http_libs \<Rightarrow> http_server \<Rightarrow> http_env \<Rightarrow> http_request \<Rightarrow> db \<Rightarrow> (decision option \<times> go_error option) \<times> db" where
  "consumeCreateQuota L s env rq d =
     (case hs_quota s of
        None \<Rightarrow> ((None, Some (OtherError ''persistent Inbox create quota is not configured'')), d)
      | Some q \<Rightarrow> Consume (hl_sha256 L) ParseIP q (quota_call_of s env rq) d)"

definition setCreateQuotaHeaders :: "http_env \<Rightarrow> decision option \<Rightarrow> go_error option \<Rightarrow> (string \<times> string) list" where
  "setCreateQuotaHeaders env dec err =
     (case dec of
        None \<Rightarrow> []
      | Some x \<Rightarrow>
          if dc_limit x \<le> 0 \<or> is_zero_time (dc_reset x) then []
          else let resetSeconds = format_int (seconds_until (he_wall env) (dc_reset x)) in
            [(''RateLimit-Limit'', format_int (dc_limit x)), (''RateLimit-Remaining'', format_int (max 0 (dc_remaining x))),
             (''RateLimit-Reset'', resetSeconds)] @
            (if err = Some ErrDailyCreateQuotaExceeded then [(''Retry-After'', resetSeconds)] else []))"

definition handleCreateInbox :: "http_libs \<Rightarrow> http_server \<Rightarrow> http_env \<Rightarrow> http_request \<Rightarrow> db \<Rightarrow> response \<times> db" where
  "handleCreateInbox L s env rq d =
     (case hs_mailbox s of
        None \<Rightarrow> (writeError env 501 ''not_configured'' ''Inbox API is not configured'', d)
      | Some mb \<Rightarrow>
          if \<not> he_allow env then (writeError env 429 ''rate_limited'' ''too many Inbox creation requests'', d)
          else case rq_create rq of
              JsonInvalid \<Rightarrow> (writeError env 400 ''invalid_request'' ''request body is invalid'', d)
            | JsonTrailing _ \<Rightarrow> (writeError env 400 ''invalid_request'' ''request body must contain one JSON object'', d)
            | body \<Rightarrow>
                let input = (case body of JsonOne v \<Rightarrow> v | _ \<Rightarrow> \<lparr>cin_domain = [], cin_ttl_seconds = 0\<rparr>);
                    ttl = cin_ttl_seconds input in
                if ttl \<noteq> 0 \<and> (ttl < 0 \<or> ttl > 365 * 24 * 3600)
                then (writeError env 400 ''invalid_lifetime'' ''ttl_seconds is invalid'', d)
                else case consumeCreateQuota L s env rq d of
                    ((dec, err), d1) \<Rightarrow>
                      let answer = add_headers (setCreateQuotaHeaders env dec err) in
                      if err = Some ErrDailyCreateQuotaExceeded
                        then (answer (writeError env 429 ''daily_quota_exceeded'' ''daily Inbox creation quota exceeded''), d1)
                      else if err \<noteq> None
                        then (answer (writeError env 500 ''internal_error'' ''persistent Inbox admission failed''), d1)
                      else case Create (hl_sha256 L) (hl_canon L) mb (he_create env)
                              \<lparr>cq_domain = cin_domain input, cq_local = [], cq_lifetime = ttl * second_ns\<rparr> d1 of
                          (Inl e, d2) \<Rightarrow> (answer (writeMappedError env e), d2)
                        | (Inr created, d2) \<Rightarrow>
                            (answer (writeJSON 201 (CreatedBody created (scope_names (is_scopes (ci_capability created))))), d2))"

section \<open>Inbox and session handlers\<close>

definition handleLive :: response where
  "handleLive = writeJSON 200 (StatusBody ''ok'')"

definition handleReady :: "http_server \<Rightarrow> http_env \<Rightarrow> response" where
  "handleReady s env =
     (if \<not> hs_ready s then writeError env 503 ''service_unavailable'' ''service is not ready''
      else if hs_readiness s \<and> he_ready env \<noteq> None then writeError env 503 ''service_unavailable'' ''service dependency is unavailable''
      else writeJSON 200 (StatusBody ''ready''))"

definition handleGetInbox :: "http_libs \<Rightarrow> http_server \<Rightarrow> http_env \<Rightarrow> http_request \<Rightarrow> db \<Rightarrow> response" where
  "handleGetInbox L s env rq d =
     (case requirePrincipal L s env rq [ScopeInboxRead] d of
        Inl r \<Rightarrow> r
      | Inr p \<Rightarrow>
          (case service_Get (hl_canon L) (he_now env) (pc_inbox p) (he_flt env) d of
             Inl e \<Rightarrow> writeMappedError env e
           | Inr inbox \<Rightarrow> writeJSON 200 (InboxBody inbox)))"

definition handleCreateSession :: "http_libs \<Rightarrow> http_server \<Rightarrow> http_env \<Rightarrow> http_request \<Rightarrow> db \<Rightarrow> response" where
  "handleCreateSession L s env rq d =
     (case hs_sessions s of
        None \<Rightarrow> writeError env 501 ''not_configured'' ''browser sessions are not configured''
      | Some (A, lifetime) \<Rightarrow>
          if hs_mailbox s = None \<or> \<not> hs_authenticator s
          then writeError env 501 ''not_configured'' ''browser sessions are not configured''
          else case authenticateBearer L env rq [] d of
              Inl e \<Rightarrow> writeMappedError env e
            | Inr p \<Rightarrow>
                (case session_Issue (hl_sha256 L) A (hl_uuid L) lifetime (he_ctx env) p (he_wall env) (he_random env) of
                   Inl e \<Rightarrow> writeMappedError env e
                 | Inr session \<Rightarrow>
                     (case service_Get (hl_canon L) (he_now env) (pc_inbox p) (he_flt env) d of
                        Inl e \<Rightarrow> writeMappedError env e
                      | Inr inbox \<Rightarrow>
                          setSessionCookie env session (writeJSON 201 (SessionBody inbox (bs_expires session) (bs_csrf session))))))"

definition handleGetSession :: "http_libs \<Rightarrow> http_server \<Rightarrow> http_env \<Rightarrow> http_request \<Rightarrow> db \<Rightarrow> response" where
  "handleGetSession L s env rq d =
     (case requireBrowserPrincipal L s env rq False [ScopeInboxRead] of
        Inl r \<Rightarrow> r
      | Inr p \<Rightarrow>
          (case service_Get (hl_canon L) (he_now env) (pc_inbox p) (he_flt env) d of
             Inl e \<Rightarrow> writeMappedError env e
           | Inr inbox \<Rightarrow>
               (case hs_sessions s of
                  None \<Rightarrow> session_required env
                | Some (A, lifetime) \<Rightarrow>
                    (case session_Issue (hl_sha256 L) A (hl_uuid L) lifetime (he_ctx env) p (he_wall env) (he_random env) of
                       Inl e \<Rightarrow> writeMappedError env e
                     | Inr rotated \<Rightarrow>
                         setSessionCookie env rotated (writeJSON 200 (SessionBody inbox (bs_expires rotated) (bs_csrf rotated)))))))"

definition handleDeleteSession :: "http_libs \<Rightarrow> http_server \<Rightarrow> http_env \<Rightarrow> http_request \<Rightarrow> response" where
  "handleDeleteSession L s env rq =
     (case requireBrowserPrincipal L s env rq True [ScopeInboxRead] of
        Inl r \<Rightarrow> r
      | Inr _ \<Rightarrow> clearSessionCookie writeNoContent)"

definition handleDeleteInbox :: "http_libs \<Rightarrow> http_server \<Rightarrow> http_env \<Rightarrow> http_request \<Rightarrow> db \<Rightarrow> response \<times> db" where
  "handleDeleteInbox L s env rq d =
     (case requirePrincipal L s env rq [ScopeInboxDelete] d of
        Inl r \<Rightarrow> (r, d)
      | Inr p \<Rightarrow>
          (case service_Delete (hl_canon L) (he_now env) (he_clock env) (pc_inbox p) (he_txflt env) d of
             (Inl e, d') \<Rightarrow> (writeMappedError env e, d')
           | (Inr _, d') \<Rightarrow> (clearSessionCookie writeNoContent, d')))"

section \<open>Message handlers\<close>

definition handleListMessages :: "http_libs \<Rightarrow> http_server \<Rightarrow> http_env \<Rightarrow> http_request \<Rightarrow> db \<Rightarrow> response" where
  "handleListMessages L s env rq d =
     (case requirePrincipal L s env rq [ScopeMessageRead] d of
        Inl r \<Rightarrow> r
      | Inr p \<Rightarrow>
          let raw = rq_query rq ''limit'' in
          (case (if raw = [] then Some 50 else case parse_int64 raw of None \<Rightarrow> None | Some n \<Rightarrow> if n < 1 \<or> n > 100 then None else Some n) of
             None \<Rightarrow> writeError env 400 ''invalid_pagination'' ''limit must be between 1 and 100''
           | Some limit \<Rightarrow>
               (case decodeMessageCursor (hl_uuid L) (hl_version L) (rq_query rq ''cursor'') of
                  Inl _ \<Rightarrow> writeError env 400 ''invalid_pagination'' ''cursor is invalid''
                | Inr cursor \<Rightarrow>
                    (case service_ListMessages (hl_canon L) (he_now env) (pc_inbox p) \<lparr>cpg_limit = limit, cpg_before = cursor\<rparr>
                            (he_flt env) d (he_flt2 env) (he_db2 env) of
                       Inl e \<Rightarrow> writeMappedError env e
                     | Inr page \<Rightarrow>
                         (case cmp_next page of
                            None \<Rightarrow> writeJSON 200 (MessagesBody (cmp_items page) [])
                          | Some c \<Rightarrow>
                              (case encodeMessageCursor (hl_uuid L) (hl_version L) c of
                                 Inl _ \<Rightarrow> writeError env 500 ''internal_error'' ''message page is unavailable''
                               | Inr nextCursor \<Rightarrow> writeJSON 200 (MessagesBody (cmp_items page) nextCursor)))))))"

definition handleGetMessage :: "http_libs \<Rightarrow> http_server \<Rightarrow> http_env \<Rightarrow> http_request \<Rightarrow> db \<Rightarrow> response" where
  "handleGetMessage L s env rq d =
     (case requirePrincipal L s env rq [ScopeMessageRead] d of
        Inl r \<Rightarrow> r
      | Inr p \<Rightarrow>
          (case parseMessageID L (rq_path rq ''id'') of
             None \<Rightarrow> writeMappedError env ErrMessageNotFound
           | Some messageID \<Rightarrow>
               (case GetMessage (hl_canon L) (he_now env) (pc_inbox p) messageID (he_flt env) d of
                  Inl e \<Rightarrow> writeMappedError env e
                | Inr detail \<Rightarrow> writeJSON 200 (MessageBody detail))))"

definition handleUpdateMessage :: "http_libs \<Rightarrow> http_server \<Rightarrow> http_env \<Rightarrow> http_request \<Rightarrow> db \<Rightarrow> response \<times> db" where
  "handleUpdateMessage L s env rq d =
     (case requirePrincipal L s env rq [ScopeMessageUpdate] d of
        Inl r \<Rightarrow> (r, d)
      | Inr p \<Rightarrow>
          (case parseMessageID L (rq_path rq ''id'') of
             None \<Rightarrow> (writeMappedError env ErrMessageNotFound, d)
           | Some messageID \<Rightarrow>
               (case rq_seen rq of
                  JsonTrailing (Some True) \<Rightarrow> (writeError env 400 ''invalid_request'' ''request body must contain one JSON object'', d)
                | JsonOne (Some True) \<Rightarrow>
                    (case service_MarkMessageSeen (hl_canon L) (he_now env) (he_wall env) (pc_inbox p) messageID (he_flt env) d of
                       (Inl e, d') \<Rightarrow> (writeMappedError env e, d')
                     | (Inr _, d') \<Rightarrow> (writeNoContent, d'))
                | _ \<Rightarrow> (writeError env 400 ''invalid_request'' ''seen must be true'', d))))"

definition handleDeleteMessage :: "http_libs \<Rightarrow> http_server \<Rightarrow> http_env \<Rightarrow> http_request \<Rightarrow> db \<Rightarrow> response \<times> db" where
  "handleDeleteMessage L s env rq d =
     (case requirePrincipal L s env rq [ScopeMessageDelete] d of
        Inl r \<Rightarrow> (r, d)
      | Inr p \<Rightarrow>
          (case parseMessageID L (rq_path rq ''id'') of
             None \<Rightarrow> (writeMappedError env ErrMessageNotFound, d)
           | Some messageID \<Rightarrow>
               (case service_DeleteMessage (hl_canon L) (he_now env) (he_clock env) (pc_inbox p) messageID (he_txflt env) d of
                  (Inl e, d') \<Rightarrow> (writeMappedError env e, d')
                | (Inr _, d') \<Rightarrow> (writeNoContent, d'))))"

section \<open>Downloads\<close>

text \<open>A download takes one of a fixed number of slots for its duration, or is refused at once.\<close>

definition beginHeavyRead :: "http_server \<Rightarrow> http_env \<Rightarrow> response option" where
  "beginHeavyRead s env =
     (if he_heavy env < hs_heavy_slots s then None
      else Some (add_headers [(''Retry-After'', ''1'')]
             (writeError env 503 ''service_busy'' ''message download capacity is busy'')))"

definition stream_headers :: "http_libs \<Rightarrow> string \<Rightarrow> string \<Rightarrow> int \<Rightarrow> (string \<times> string) list" where
  "stream_headers L contentType fileName size' =
     [(''Cache-Control'', ''no-store''), (''X-Content-Type-Options'', ''nosniff''), (''Content-Type'', contentType)] @
     (if hl_disposition L fileName \<noteq> [] then [(''Content-Disposition'', hl_disposition L fileName)] else []) @
     (if size' \<ge> 0 then [(''Content-Length'', format_int size')] else [])"

definition handleGetSource :: "http_libs \<Rightarrow> http_server \<Rightarrow> http_env \<Rightarrow> http_request \<Rightarrow> db \<Rightarrow> response" where
  "handleGetSource L s env rq d =
     (case requirePrincipal L s env rq [ScopeMessageRead] d of
        Inl r \<Rightarrow> r
      | Inr p \<Rightarrow>
          (case parseMessageID L (rq_path rq ''id'') of
             None \<Rightarrow> writeMappedError env ErrMessageNotFound
           | Some messageID \<Rightarrow>
               (case beginHeavyRead s env of
                  Some busy \<Rightarrow> busy
                | None \<Rightarrow>
                    (case service_OpenSource (hl_canon L) (he_now env) (he_ctx env) (he_sflt env) (he_store env) (pc_inbox p) messageID (he_flt env) d of
                       Inl e \<Rightarrow> writeMappedError env e
                     | Inr (content, size') \<Rightarrow>
                         \<lparr>rp_status = 200, rp_headers = stream_headers L ''message/rfc822'' (messageID @ ''.eml'') size',
                          rp_cookie = None, rp_body = StreamBody content\<rparr>))))"

definition handleGetAttachment :: "http_libs \<Rightarrow> http_server \<Rightarrow> http_env \<Rightarrow> http_request \<Rightarrow> db \<Rightarrow> response" where
  "handleGetAttachment L s env rq d =
     (case hs_mailbox s of
        None \<Rightarrow> writeError env 501 ''not_configured'' ''Inbox API is not configured''
      | Some mb \<Rightarrow>
     (case requirePrincipal L s env rq [ScopeMessageRead] d of
        Inl r \<Rightarrow> r
      | Inr p \<Rightarrow>
          (case parseMessageID L (rq_path rq ''id'') of
             None \<Rightarrow> writeMappedError env ErrMessageNotFound
           | Some messageID \<Rightarrow>
               (case beginHeavyRead s env of
                  Some busy \<Rightarrow> busy
                | None \<Rightarrow>
                    (case service_OpenAttachment mb (hl_part L) (hl_canon L) (he_now env) (he_ctx env) (he_sflt env) (he_store env)
                            (pc_inbox p) messageID (rq_path rq ''part'') (he_flt env) (he_flt2 env) d of
                       Inl e \<Rightarrow> writeMappedError env e
                     | Inr source \<Rightarrow>
                         let contentType = (if hl_media_type_ok L (as_content_type source) then as_content_type source
                                            else ''application/octet-stream'') in
                         \<lparr>rp_status = 200, rp_headers = stream_headers L contentType (as_file_name source) (as_size source),
                          rp_cookie = None, rp_body = StreamBody (as_stream source)\<rparr>)))))"

section \<open>Routes\<close>

text \<open>The canonical routes of \<^verbatim>\<open>NewServer\<close>; the matching of paths is that of \<^verbatim>\<open>http.ServeMux\<close>.\<close>

datatype route =
    Livez | Readyz
  | PostInboxes | PostSession | ReadSession | DeleteSession
  | ReadInbox | DropInbox | ReadMessages | ReadMessage | PatchMessage | DropMessage | ReadSource | ReadAttachment

fun route_method :: "route \<Rightarrow> string" where
  "route_method PostInboxes = ''POST''"
| "route_method PostSession = ''POST''"
| "route_method DeleteSession = ''DELETE''"
| "route_method DropInbox = ''DELETE''"
| "route_method DropMessage = ''DELETE''"
| "route_method PatchMessage = ''PATCH''"
| "route_method _ = ''GET''"

fun serve :: "http_libs \<Rightarrow> http_server \<Rightarrow> http_env \<Rightarrow> route \<Rightarrow> http_request \<Rightarrow> db \<Rightarrow> response \<times> db" where
  "serve L s env Livez rq d = (handleLive, d)"
| "serve L s env Readyz rq d = (handleReady s env, d)"
| "serve L s env PostInboxes rq d = handleCreateInbox L s env rq d"
| "serve L s env PostSession rq d = (handleCreateSession L s env rq d, d)"
| "serve L s env ReadSession rq d = (handleGetSession L s env rq d, d)"
| "serve L s env DeleteSession rq d = (handleDeleteSession L s env rq, d)"
| "serve L s env ReadInbox rq d = (handleGetInbox L s env rq d, d)"
| "serve L s env DropInbox rq d = handleDeleteInbox L s env rq d"
| "serve L s env ReadMessages rq d = (handleListMessages L s env rq d, d)"
| "serve L s env ReadMessage rq d = (handleGetMessage L s env rq d, d)"
| "serve L s env PatchMessage rq d = handleUpdateMessage L s env rq d"
| "serve L s env DropMessage rq d = handleDeleteMessage L s env rq d"
| "serve L s env ReadSource rq d = (handleGetSource L s env rq d, d)"
| "serve L s env ReadAttachment rq d = (handleGetAttachment L s env rq d, d)"

end
