(* ===== verification/Http_Security.thy ===== *)
theory Http_Security
  imports Http_Api
begin

text \<open>
  What the HTTP API guarantees to its clients: who may change or read what, and that a created Inbox is
  always counted against the daily limit of the client address.
\<close>

section \<open>Credentials\<close>

text \<open>
  The bearer token of a request: its \<^verbatim>\<open>Authorization\<close> header is the scheme \<^verbatim>\<open>Bearer\<close> in any case, a blank, and
  the token, white space around which does not count.
\<close>

definition bearer_token :: "http_request \<Rightarrow> string \<Rightarrow> bool" where
  "bearer_token rq token \<longleftrightarrow> token \<noteq> [] \<and> (\<exists>scheme rest. rq_header rq ''Authorization'' = scheme @ '' '' @ rest \<and>
     CHR '' '' \<notin> set scheme \<and> equal_fold_ascii scheme ''Bearer'' \<and> token = trim_space rest)"

text \<open>
  What a request can prove its principal with: the capability it sends as bearer token, or its session cookie, for
  which \<open>csrf\<close> says whether the CSRF proof is checked.
\<close>

definition bearer_proof :: "http_libs \<Rightarrow> http_env \<Rightarrow> http_request \<Rightarrow> scope list \<Rightarrow> db \<Rightarrow> principal \<Rightarrow> bool" where
  "bearer_proof L env rq scopes d p \<longleftrightarrow> (\<exists>token. bearer_token rq token \<and>
     Authenticate (hl_sha256 L) (pg_cap_repo (hl_canon L)) (he_ctx env) token scopes (he_wall env) (he_auth_env env) d = Inr p)"

definition cookie_proof :: "http_libs \<Rightarrow> http_server \<Rightarrow> http_env \<Rightarrow> http_request \<Rightarrow> bool \<Rightarrow> scope list \<Rightarrow> principal \<Rightarrow> bool" where
  "cookie_proof L s env rq csrf scopes p \<longleftrightarrow> (\<exists>A lifetime cookie. hs_sessions s = Some (A, lifetime) \<and> rq_cookie rq = Some cookie \<and>
     session_Authenticate (hl_sha256 L) A (hl_uuid L) (he_ctx env) cookie (rq_header rq ''X-MailWisp-CSRF'') csrf scopes (he_wall env) = Inr p)"

text \<open>A cookie counts only in a request without an \<^verbatim>\<open>Authorization\<close> header.\<close>

definition credential :: "http_libs \<Rightarrow> http_server \<Rightarrow> http_env \<Rightarrow> http_request \<Rightarrow> bool \<Rightarrow> scope \<Rightarrow> db \<Rightarrow> principal \<Rightarrow> bool" where
  "credential L s env rq csrf sc d p \<longleftrightarrow>
     (if trim_space (rq_header rq ''Authorization'') \<noteq> [] then bearer_proof L env rq [sc] d p else cookie_proof L s env rq csrf [sc] p)"

lemma cut_Some:
  assumes "cut s b = (x, y, True)"
  shows "s = x @ b # y" and "b \<notin> set x"
proof -
  have "b \<in> set s" using assms cut_not_found [of b s] by (cases "b \<in> set s") auto
  then obtain u v where "s = u @ b # v" "b \<notin> set u" using split_list_first by metis
  then show "s = x @ b # y" "b \<notin> set x" using assms cut_found [of b u v] by auto
qed

lemma authenticateBearer_Inr:
  assumes "authenticateBearer L env rq scopes d = Inr p"
  shows "bearer_proof L env rq scopes d p"
proof -
  obtain scheme rest found where c: "cut (rq_header rq ''Authorization'') CHR '' '' = (scheme, rest, found)" by (metis prod.exhaust)
  then have a: "found" "equal_fold_ascii scheme ''Bearer''" "trim_space rest \<noteq> []"
    "Authenticate (hl_sha256 L) (pg_cap_repo (hl_canon L)) (he_ctx env) (trim_space rest) scopes (he_wall env) (he_auth_env env) d = Inr p"
    using assms by (simp_all add: authenticateBearer_def Let_def split: if_splits)
  then have "rq_header rq ''Authorization'' = scheme @ '' '' @ rest" "CHR '' '' \<notin> set scheme" using cut_Some [of _ _ scheme rest] c by simp_all
  then have "bearer_token rq (trim_space rest)" using a(2,3) unfolding bearer_token_def by blast
  then show ?thesis using a(4) unfolding bearer_proof_def by blast
qed

lemma requireBrowserPrincipal_Inr:
  "requireBrowserPrincipal L s env rq csrf scopes = Inr p \<Longrightarrow> cookie_proof L s env rq csrf scopes p"
  by (auto simp: requireBrowserPrincipal_def cookie_proof_def split: option.splits if_splits prod.splits sum.splits)

lemma requirePrincipal_credential:
  assumes "requirePrincipal L s env rq [sc] d = Inr p"
  shows "credential L s env rq (rq_method rq \<notin> {''GET'', ''HEAD'', ''OPTIONS''}) sc d p"
  using assms authenticateBearer_Inr [of L env rq "[sc]" d p] requireBrowserPrincipal_Inr [of L s env rq _ "[sc]" p]
  by (auto simp: requirePrincipal_def credential_def split: if_splits sum.splits)

section \<open>Changes\<close>

text \<open>\<open>spares i d d'\<close>: the Inboxes, messages and contents of every Inbox but \<open>i\<close> are as they were.\<close>

definition spares :: "string \<Rightarrow> db \<Rightarrow> db \<Rightarrow> bool" where
  "spares i d d' \<longleftrightarrow>
     filter (\<lambda>r. ib_id r \<noteq> i) (inboxes d') = filter (\<lambda>r. ib_id r \<noteq> i) (inboxes d) \<and>
     filter (\<lambda>m. ms_inbox m \<noteq> i) (messages d') = filter (\<lambda>m. ms_inbox m \<noteq> i) (messages d) \<and>
     (\<forall>m \<in> set (messages d). ms_inbox m \<noteq> i \<longrightarrow> find_content d' (ms_content m) = find_content d (ms_content m))"

lemma find_kept: "k \<notin> K \<Longrightarrow> find (\<lambda>r. mc_key r = k) (filter (\<lambda>c. mc_key c \<notin> K) cs) = find (\<lambda>r. mc_key r = k) cs"
  by (rule find_filter) simp

lemma purged_spares:
  assumes "purged {i} os d d'"
  shows "spares i d d'"
proof -
  have "find_content d' (ms_content m) = find_content d (ms_content m)" if m: "m \<in> set (messages d)" "ms_inbox m \<noteq> i" for m
  proof -
    have "ms_content m \<notin> cr_key ` set os" using assms m by (auto simp: purged_def ref_of_def)
    moreover have "mail_contents d' = filter (\<lambda>c. mc_key c \<notin> cr_key ` set os) (mail_contents d)" using assms by (simp add: purged_def)
    ultimately show ?thesis by (simp add: find_content_def find_kept)
  qed
  then show ?thesis using assms by (simp add: spares_def purged_def)
qed

lemma message_removed_spares:
  assumes "db_wf d" "message_removed m orphan d d'" "m \<in> set (messages d)"
  shows "spares (ms_inbox m) d d'"
proof -
  have same: "x = m" if "x \<in> set (messages d)" "ms_id x = ms_id m" for x
    using assms(1,3) that by (auto simp: db_wf_def wf_messages_def distinct_map inj_on_def)
  have "find_content d' (ms_content x) = find_content d (ms_content x)"
    if x: "x \<in> set (messages d)" "ms_inbox x \<noteq> ms_inbox m" for x
  proof (cases orphan)
    case None
    then show ?thesis using assms(2) by (simp add: message_removed_def find_content_def)
  next
    case (Some r)
    have "x \<in> set (messages d')" using assms(2) x same by (auto simp: message_removed_def)
    then have "ms_content x \<noteq> cr_key r" using assms(2) Some by (auto simp: message_removed_def)
    then show ?thesis using assms(2) Some by (auto simp: message_removed_def find_content_def intro!: find_filter)
  qed
  moreover have "filter (\<lambda>x. ms_inbox x \<noteq> ms_inbox m) (filter (\<lambda>x. ms_id x \<noteq> ms_id m) (messages d)) = filter (\<lambda>x. ms_inbox x \<noteq> ms_inbox m) (messages d)"
    using same by (auto simp: filter_filter intro!: filter_cong)
  ultimately show ?thesis using assms(2) by (simp add: spares_def message_removed_def)
qed

lemma MarkMessageSeen_effect:
  assumes "MarkMessageSeen canon now inboxID messageID seenAt flt d = (r, d')"
  shows "d' = d \<or> (\<exists>i mid n. canon inboxID = Some i \<and> canon messageID = Some mid \<and> sql_mark_seen now i mid seenAt d = Inr (n, d'))"
  using assms
  by (auto simp: MarkMessageSeen_def run_stmt_def with_uuids_def with_uuid_def split: prod.splits sum.splits fault.splits option.splits if_splits)

lemma mark_seen_spares:
  assumes "contents_referenced d" "sql_mark_seen now i mid t d = Inr (n, d')"
  shows "spares i d d' \<and> contents_referenced d'"
proof -
  obtain hit where d': "d' = d\<lparr>messages := map (\<lambda>m. if hit m then seen_update t m else m) (messages d)\<rparr>"
    and hit: "\<forall>m. hit m \<longrightarrow> ms_inbox m = i"
    using sql_mark_seen_effect [OF assms(2)] by auto
  have "filter (\<lambda>m. ms_inbox m \<noteq> i) (map (\<lambda>m. if hit m then seen_update t m else m) ms) = filter (\<lambda>m. ms_inbox m \<noteq> i) ms" for ms
    using hit by (induction ms) auto
  moreover have "list_ex (\<lambda>m. ms_content m = k) (map (\<lambda>m. if hit m then seen_update t m else m) ms) = list_ex (\<lambda>m. ms_content m = k) ms" for k ms
    by (induction ms) auto
  then have "contents_referenced d'" using assms(1) by (simp add: d' contents_referenced_def)
  ultimately show ?thesis by (simp add: d' spares_def find_content_def)
qed

text \<open>The scope a route demands.\<close>

fun route_scope :: "route \<Rightarrow> scope" where
  "route_scope DropInbox = ScopeInboxDelete"
| "route_scope PatchMessage = ScopeMessageUpdate"
| "route_scope DropMessage = ScopeMessageDelete"
| "route_scope ReadMessages = ScopeMessageRead"
| "route_scope ReadMessage = ScopeMessageRead"
| "route_scope ReadSource = ScopeMessageRead"
| "route_scope ReadAttachment = ScopeMessageRead"
| "route_scope _ = ScopeInboxRead"

text \<open>A change that only concerns the Inbox with the text identifier \<open>u\<close>, and keeps the invariants.\<close>

definition inbox_change :: "(string \<Rightarrow> string option) \<Rightarrow> string \<Rightarrow> db \<Rightarrow> db \<Rightarrow> bool" where
  "inbox_change canon u d d' \<longleftrightarrow> (\<exists>i. canon u = Some i \<and> spares i d d') \<and> db_wf d' \<and> contents_referenced d'"

lemma service_Delete_change:
  assumes "db_wf d" "contents_referenced d" "service_Delete canon now clock u flt d = (r, d')" "d' \<noteq> d"
  shows "inbox_change canon u d d'"
proof -
  obtain q where del: "DeleteInbox canon now clock u flt d = (q, d')"
    using assms(3) by (auto simp: service_Delete_def split: prod.splits sum.splits)
  from DeleteInbox_effect [OF assms(1,2) del] assms(4) show ?thesis
    using purged_spares by (auto simp: inbox_change_def)
qed

lemma service_DeleteMessage_change:
  assumes "db_wf d" "contents_referenced d" "service_DeleteMessage canon now clock u messageID flt d = (r, d')" "d' \<noteq> d"
  shows "inbox_change canon u d d'"
proof -
  obtain q where del: "DeleteMessage canon now clock u messageID flt d = (q, d')"
    using assms(3) by (auto simp: service_DeleteMessage_def split: prod.splits sum.splits)
  from DeleteMessage_effect [OF assms(1,2) del] assms(4) obtain i mid m c orphan where
    e: "canon u = Some i" "owned_message now i mid d = Some (m, c)" "message_removed m orphan d d'"
      "db_wf d'" "contents_referenced d'" by blast
  have "m \<in> set (messages d)" "ms_inbox m = i" using owned_message_props [OF e(2)] by auto
  then show ?thesis using message_removed_spares [OF assms(1) e(3)] e by (auto simp: inbox_change_def)
qed

lemma service_MarkMessageSeen_change:
  assumes "db_wf d" "contents_referenced d" "service_MarkMessageSeen canon now t u messageID flt d = (r, d')" "d' \<noteq> d"
  shows "inbox_change canon u d d'"
proof -
  obtain q where seen: "MarkMessageSeen canon now u messageID t flt d = (q, d')"
    using assms(3) by (auto simp: service_MarkMessageSeen_def split: prod.splits sum.splits)
  from MarkMessageSeen_effect [OF seen] assms(4) obtain i mid n where
    e: "canon u = Some i" "sql_mark_seen now i mid t d = Inr (n, d')" by blast
  then show ?thesis using mark_seen_spares [OF assms(2) e(2)] sql_mark_seen_wf [OF assms(1) e(2)] by (auto simp: inbox_change_def)
qed

lemmas service_changes = service_Delete_change service_DeleteMessage_change service_MarkMessageSeen_change

lemma handleDeleteInbox_change:
  assumes "db_wf d" "contents_referenced d" "handleDeleteInbox L s env rq d = (resp, d')" "d' \<noteq> d"
  shows "\<exists>p. requirePrincipal L s env rq [ScopeInboxDelete] d = Inr p \<and> inbox_change (hl_canon L) (pc_inbox p) d d'"
  using assms by (auto simp: handleDeleteInbox_def split: sum.splits prod.splits dest: service_changes)

lemma handleDeleteMessage_change:
  assumes "db_wf d" "contents_referenced d" "handleDeleteMessage L s env rq d = (resp, d')" "d' \<noteq> d"
  shows "\<exists>p. requirePrincipal L s env rq [ScopeMessageDelete] d = Inr p \<and> inbox_change (hl_canon L) (pc_inbox p) d d'"
  using assms by (auto simp: handleDeleteMessage_def split: sum.splits prod.splits option.splits dest: service_changes)

lemma handleUpdateMessage_change:
  assumes "db_wf d" "contents_referenced d" "handleUpdateMessage L s env rq d = (resp, d')" "d' \<noteq> d"
  shows "\<exists>p. requirePrincipal L s env rq [ScopeMessageUpdate] d = Inr p \<and> inbox_change (hl_canon L) (pc_inbox p) d d'"
  using assms
  by (auto simp: handleUpdateMessage_def split: sum.splits prod.splits option.splits json_body.splits bool.splits dest: service_changes)

text \<open>
  C9. A request other than a creation changes the tables only with a credential for the scope of its route, that is,
  the token in its \<^verbatim>\<open>Authorization\<close> header authenticates or, without that header, its cookie does with the CSRF proof, and then only what belongs to the Inbox of the
  credential: the Inboxes, messages and contents of all others stay as they are, and the
  invariants of the tables are kept.
\<close>

theorem http_changes_own_inbox:
  assumes "db_wf d" and "contents_referenced d" and "serve L s env r rq d = (resp, d')"
    and "rq_method rq = route_method r" and "r \<noteq> PostInboxes" and "d' \<noteq> d"
  shows "\<exists>p i. credential L s env rq True (route_scope r) d p \<and> hl_canon L (pc_inbox p) = Some i \<and>
    spares i d d' \<and> db_wf d' \<and> contents_referenced d'"
proof -
  have unsafe: "r \<in> {DropInbox, DropMessage, PatchMessage}" using assms(3,5,6) by (cases r) auto
  then have m: "rq_method rq \<notin> {''GET'', ''HEAD'', ''OPTIONS''}" using assms(4) by auto
  have "\<exists>p. requirePrincipal L s env rq [route_scope r] d = Inr p \<and> inbox_change (hl_canon L) (pc_inbox p) d d'"
    using unsafe assms(1,2,3,6) handleDeleteInbox_change handleDeleteMessage_change handleUpdateMessage_change by auto
  then show ?thesis using requirePrincipal_credential [of L s env rq "route_scope r" d] m by (auto simp: inbox_change_def)
qed

section \<open>Disclosure\<close>

text \<open>
  What a response shows of the tables belongs to Inbox \<open>i\<close>, which is live: the Inbox itself (alone or with a session),
  messages of it, or bytes of the stored content of one of its messages.
\<close>

fun reveals :: "http_libs \<Rightarrow> http_env \<Rightarrow> string \<Rightarrow> db \<Rightarrow> response_body \<Rightarrow> bool" where
  "reveals L env i d (InboxBody b) = (\<exists>r \<in> set (inboxes d). ib_id r = i \<and> inbox_live (he_now env) r \<and> b = inbox_of r)"
| "reveals L env i d (SessionBody b expires csrf) = (\<exists>r \<in> set (inboxes d). ib_id r = i \<and> inbox_live (he_now env) r \<and> b = inbox_of r)"
| "reveals L env i d (MessagesBody items next) =
     (\<forall>x \<in> set items. (\<exists>r \<in> set (inboxes (he_db2 env)). ib_id r = i \<and> inbox_live (he_now env) r) \<and> (\<exists>m \<in> set (messages (he_db2 env)). ms_inbox m = i \<and> (\<exists>c. find_content (he_db2 env) (ms_content m) = Some c \<and> x = summary_of (he_db2 env) m c)))"
| "reveals L env i d (MessageBody x) =
     (\<exists>mid m c. owned_message (he_now env) i mid d = Some (m, c) \<and> x = detail_of d m c)"
| "reveals L env i d (StreamBody b) =
     (\<exists>mid m c raw. owned_message (he_now env) i mid d = Some (m, c) \<and> OpenRaw (he_ctx env) (he_sflt env) (ref_of c) (he_store env) = Inr raw \<and>
        (b = raw \<or> (\<exists>part. hl_part L raw part = Inr b)))"
| "reveals L env i d _ = False"

lemma GetMessage_Inr:
  "GetMessage canon now inboxID messageID flt d = Inr x \<Longrightarrow>
     \<exists>i mid m c. canon inboxID = Some i \<and> owned_message now i mid d = Some (m, c) \<and> x = detail_of d m c"
  by (auto simp: GetMessage_def run_stmt_def with_uuids_def with_uuid_def query_def
      split: prod.splits sum.splits fault.splits option.splits)

lemma GetMessageContent_Inr:
  "GetMessageContent canon now inboxID messageID flt d = Inr ref \<Longrightarrow>
     \<exists>i mid m c. canon inboxID = Some i \<and> owned_message now i mid d = Some (m, c) \<and> ref = ref_of c"
  by (auto simp: GetMessageContent_def run_stmt_def with_uuids_def with_uuid_def query_def
      split: prod.splits sum.splits fault.splits option.splits)

lemma GetInbox_Inr:
  "GetInbox canon now inboxID flt d = Inr b \<Longrightarrow>
     \<exists>i r. canon inboxID = Some i \<and> r \<in> set (inboxes d) \<and> ib_id r = i \<and> inbox_live now r \<and> b = inbox_of r"
  by (auto simp: GetInbox_def run_stmt_def with_uuid_def query_def live_inbox_def
      split: prod.splits sum.splits fault.splits option.splits dest!: find_SomeD)

lemma page_rows_own:
  "x \<in> set (page_rows now i p d) \<Longrightarrow> (\<exists>r \<in> set (inboxes d). ib_id r = i \<and> inbox_live now r) \<and>
     (\<exists>m \<in> set (messages d). ms_inbox m = i \<and> (\<exists>c. find_content d (ms_content m) = Some c \<and> x = summary_of d m c))"
proof
  assume x: "x \<in> set (page_rows now i p d)"
  then have "live_inbox now i d \<noteq> None"
    by (auto simp: page_rows_def list_rows_def map_filter_def newest_first_def dest!: in_set_takeD in_set_dropD split: if_splits)
  then show "\<exists>r \<in> set (inboxes d). ib_id r = i \<and> inbox_live now r" by (auto simp: live_inbox_def dest!: find_SomeD)
  show "\<exists>m \<in> set (messages d). ms_inbox m = i \<and> (\<exists>c. find_content d (ms_content m) = Some c \<and> x = summary_of d m c)"
    using x by (auto simp: page_rows_def list_rows_def map_filter_def dest!: in_set_takeD in_set_dropD split: if_splits) blast
qed

lemma service_ListMessages_own:
  assumes "service_ListMessages canon now inboxID request flt1 d1 flt2 d2 = Inr page"
  shows "\<exists>i. canon inboxID = Some i \<and> (\<forall>x \<in> set (cmp_items page). (\<exists>r \<in> set (inboxes d2). ib_id r = i \<and> inbox_live now r) \<and>
     (\<exists>m \<in> set (messages d2). ms_inbox m = i \<and> (\<exists>c. find_content d2 (ms_content m) = Some c \<and> x = summary_of d2 m c)))"
proof -
  obtain p q where list: "ListMessages canon now inboxID q flt1 d1 flt2 d2 = Inr p" and items: "set (cmp_items page) \<subseteq> set (mp_items p)"
    using assms by (auto simp: service_ListMessages_def Let_def split: if_splits sum.splits) (metis set_take_subset)+
  have "\<exists>i q'. canon inboxID = Some i \<and> mp_items p = page_rows now i q' d2"
    using list by (auto simp: ListMessages_def run_stmt_def with_uuid_def query_def split: if_splits prod.splits sum.splits fault.splits option.splits)
  then obtain i q' where i: "canon inboxID = Some i" and rows: "mp_items p = page_rows now i q' d2" by blast
  then show ?thesis using items page_rows_own [of _ now i q' d2] by (intro exI [of _ i]) auto
qed

lemma service_OpenSource_own:
  assumes "service_OpenSource canon now ctx sflt s inboxID messageID flt d = Inr (b, n)"
  shows "\<exists>i mid m c. canon inboxID = Some i \<and> owned_message now i mid d = Some (m, c) \<and> OpenRaw ctx sflt (ref_of c) s = Inr b"
proof -
  obtain ref where "GetMessageContent canon now inboxID messageID flt d = Inr ref" "OpenRaw ctx sflt ref s = Inr b"
    using assms by (auto simp: service_OpenSource_def split: sum.splits)
  then show ?thesis using GetMessageContent_Inr by blast
qed

lemma service_OpenAttachment_own:
  assumes "service_OpenAttachment sv open_part canon now ctx sflt s inboxID messageID path flt1 flt2 d = Inr a"
  shows "\<exists>i mid m c raw part. canon inboxID = Some i \<and> owned_message now i mid d = Some (m, c) \<and>
    OpenRaw ctx sflt (ref_of c) s = Inr raw \<and> open_part raw part = Inr (as_stream a)"
proof -
  obtain ref raw part where "GetMessageContent canon now inboxID messageID flt2 d = Inr ref" "OpenRaw ctx sflt ref s = Inr raw"
    "open_part raw part = Inr (as_stream a)"
    using assms by (auto simp: service_OpenAttachment_def split: if_splits sum.splits option.splits)
  then show ?thesis using GetMessageContent_Inr by blast
qed

definition disclosing :: "response_body \<Rightarrow> bool" where
  "disclosing b \<longleftrightarrow> (case b of InboxBody _ \<Rightarrow> True | SessionBody _ _ _ \<Rightarrow> True | CreatedBody _ _ \<Rightarrow> True | MessagesBody _ _ \<Rightarrow> True | MessageBody _ \<Rightarrow> True | StreamBody _ \<Rightarrow> True | _ \<Rightarrow> False)"

lemma not_disclosing [simp]:
  "\<not> disclosing (rp_body (writeError env c k m))" "\<not> disclosing (rp_body (writeMappedError env e))" "\<not> disclosing (rp_body (session_required env))"
  "\<not> disclosing (rp_body (add_headers hs (writeError env c k m)))"
  by (simp_all add: disclosing_def writeError_def writeMappedError_def session_required_def writeJSON_def add_headers_def)

lemma requirePrincipal_error: "requirePrincipal L s env rq scopes d = Inl r \<Longrightarrow> \<not> disclosing (rp_body r)"
  by (auto simp: requirePrincipal_def requireBrowserPrincipal_def split: if_splits sum.splits option.splits prod.splits)

lemma beginHeavyRead_error: "beginHeavyRead s env = Some r \<Longrightarrow> \<not> disclosing (rp_body r)"
  by (auto simp: beginHeavyRead_def split: if_splits)

lemmas no_disclosure = requirePrincipal_error beginHeavyRead_error

lemma rp_body_writeJSON [simp]: "rp_body (writeJSON n b) = b"
  by (simp add: writeJSON_def)

lemma handleGetInbox_reveals:
  assumes "disclosing (rp_body (handleGetInbox L s env rq d))"
  shows "\<exists>p i. requirePrincipal L s env rq [ScopeInboxRead] d = Inr p \<and> hl_canon L (pc_inbox p) = Some i \<and>
    reveals L env i d (rp_body (handleGetInbox L s env rq d))"
proof -
  obtain p b where p: "requirePrincipal L s env rq [ScopeInboxRead] d = Inr p"
    and b: "GetInbox (hl_canon L) (he_now env) (pc_inbox p) (he_flt env) d = Inr b"
    using assms by (auto simp: handleGetInbox_def service_Get_def dest: no_disclosure split: sum.splits)
  then have "handleGetInbox L s env rq d = writeJSON 200 (InboxBody b)" by (simp add: handleGetInbox_def service_Get_def)
  then show ?thesis using p GetInbox_Inr [OF b] by auto
qed

lemma handleListMessages_reveals:
  assumes "disclosing (rp_body (handleListMessages L s env rq d))"
  shows "\<exists>p i. requirePrincipal L s env rq [ScopeMessageRead] d = Inr p \<and> hl_canon L (pc_inbox p) = Some i \<and>
    reveals L env i d (rp_body (handleListMessages L s env rq d))"
proof -
  obtain p request page nextCursor where p: "requirePrincipal L s env rq [ScopeMessageRead] d = Inr p"
    and page: "service_ListMessages (hl_canon L) (he_now env) (pc_inbox p) request (he_flt env) d (he_flt2 env) (he_db2 env) = Inr page"
    and r: "rp_body (handleListMessages L s env rq d) = MessagesBody (cmp_items page) nextCursor"
    using assms by (auto simp: handleListMessages_def Let_def dest: no_disclosure split: sum.splits if_splits option.splits)
  show ?thesis using p r service_ListMessages_own [OF page] by auto
qed

lemma handleGetMessage_reveals:
  assumes "disclosing (rp_body (handleGetMessage L s env rq d))"
  shows "\<exists>p i. requirePrincipal L s env rq [ScopeMessageRead] d = Inr p \<and> hl_canon L (pc_inbox p) = Some i \<and>
    reveals L env i d (rp_body (handleGetMessage L s env rq d))"
proof -
  obtain p mid x where p: "requirePrincipal L s env rq [ScopeMessageRead] d = Inr p"
    and x: "GetMessage (hl_canon L) (he_now env) (pc_inbox p) mid (he_flt env) d = Inr x"
    and r: "rp_body (handleGetMessage L s env rq d) = MessageBody x"
    using assms by (auto simp: handleGetMessage_def dest: no_disclosure split: sum.splits option.splits)
  show ?thesis using p r GetMessage_Inr [OF x] by auto
qed

lemma handleGetSource_reveals:
  assumes "disclosing (rp_body (handleGetSource L s env rq d))"
  shows "\<exists>p i. requirePrincipal L s env rq [ScopeMessageRead] d = Inr p \<and> hl_canon L (pc_inbox p) = Some i \<and>
    reveals L env i d (rp_body (handleGetSource L s env rq d))"
proof -
  obtain p mid b n where p: "requirePrincipal L s env rq [ScopeMessageRead] d = Inr p"
    and b: "service_OpenSource (hl_canon L) (he_now env) (he_ctx env) (he_sflt env) (he_store env) (pc_inbox p) mid (he_flt env) d = Inr (b, n)"
    and r: "rp_body (handleGetSource L s env rq d) = StreamBody b"
    using assms by (auto simp: handleGetSource_def dest: no_disclosure split: sum.splits option.splits prod.splits)
  show ?thesis using p r service_OpenSource_own [OF b] by (auto; blast)
qed

lemma handleGetAttachment_reveals:
  assumes "disclosing (rp_body (handleGetAttachment L s env rq d))"
  shows "\<exists>p i. requirePrincipal L s env rq [ScopeMessageRead] d = Inr p \<and> hl_canon L (pc_inbox p) = Some i \<and>
    reveals L env i d (rp_body (handleGetAttachment L s env rq d))"
proof -
  obtain p mb mid path a where p: "requirePrincipal L s env rq [ScopeMessageRead] d = Inr p"
    and a: "service_OpenAttachment mb (hl_part L) (hl_canon L) (he_now env) (he_ctx env) (he_sflt env) (he_store env)
      (pc_inbox p) mid path (he_flt env) (he_flt2 env) d = Inr a"
    and r: "rp_body (handleGetAttachment L s env rq d) = StreamBody (as_stream a)"
    using assms by (auto simp: handleGetAttachment_def Let_def dest: no_disclosure split: sum.splits option.splits)
  show ?thesis using p r service_OpenAttachment_own [OF a] by (auto; blast)
qed

text \<open>The session routes: one takes a bearer token of any scope, the other only a cookie.\<close>

lemma setSessionCookie_body [simp]: "rp_body (setSessionCookie env session r) = rp_body r" "rp_body (clearSessionCookie r) = rp_body r"
  by (simp_all add: setSessionCookie_def clearSessionCookie_def with_cookie_def)

lemma requireBrowserPrincipal_error: "requireBrowserPrincipal L s env rq csrf scopes = Inl r \<Longrightarrow> \<not> disclosing (rp_body r)"
  by (auto simp: requireBrowserPrincipal_def split: if_splits sum.splits option.splits prod.splits)

lemma handleCreateSession_reveals:
  assumes "disclosing (rp_body (handleCreateSession L s env rq d))"
  shows "\<exists>p i. bearer_proof L env rq [] d p \<and> hl_canon L (pc_inbox p) = Some i \<and> reveals L env i d (rp_body (handleCreateSession L s env rq d))"
proof -
  obtain p b e c where p: "authenticateBearer L env rq [] d = Inr p"
    and b: "GetInbox (hl_canon L) (he_now env) (pc_inbox p) (he_flt env) d = Inr b"
    and r: "rp_body (handleCreateSession L s env rq d) = SessionBody b e c"
    using assms by (auto simp: handleCreateSession_def service_Get_def split: sum.splits option.splits prod.splits if_splits)
  show ?thesis using authenticateBearer_Inr [OF p] r GetInbox_Inr [OF b] by auto
qed

lemma handleGetSession_reveals:
  assumes "disclosing (rp_body (handleGetSession L s env rq d))"
  shows "\<exists>p i. cookie_proof L s env rq False [ScopeInboxRead] p \<and> hl_canon L (pc_inbox p) = Some i \<and>
    reveals L env i d (rp_body (handleGetSession L s env rq d))"
proof -
  obtain p b e c where p: "requireBrowserPrincipal L s env rq False [ScopeInboxRead] = Inr p"
    and b: "GetInbox (hl_canon L) (he_now env) (pc_inbox p) (he_flt env) d = Inr b"
    and r: "rp_body (handleGetSession L s env rq d) = SessionBody b e c"
    using assms by (auto simp: handleGetSession_def service_Get_def dest: requireBrowserPrincipal_error split: sum.splits option.splits prod.splits if_splits)
  show ?thesis using requireBrowserPrincipal_Inr [OF p] r GetInbox_Inr [OF b] by auto
qed

lemma silent_handlers:
  "\<not> disclosing (rp_body handleLive)" "\<not> disclosing (rp_body (handleReady s env))" "\<not> disclosing (rp_body (handleDeleteSession L s env rq))"
  "\<not> disclosing (rp_body (fst (handleDeleteInbox L s env rq d)))" "\<not> disclosing (rp_body (fst (handleDeleteMessage L s env rq d)))"
  "\<not> disclosing (rp_body (fst (handleUpdateMessage L s env rq d)))"
  by (auto simp: handleLive_def handleReady_def handleDeleteSession_def handleDeleteInbox_def handleDeleteMessage_def handleUpdateMessage_def
      dest: no_disclosure requireBrowserPrincipal_error split: sum.splits prod.splits option.splits json_body.splits bool.splits if_splits)
    (simp_all add: disclosing_def writeNoContent_def)

definition reading_proof :: "http_libs \<Rightarrow> http_server \<Rightarrow> http_env \<Rightarrow> route \<Rightarrow> http_request \<Rightarrow> db \<Rightarrow> principal \<Rightarrow> bool" where
  "reading_proof L s env r rq d p \<longleftrightarrow>
     (if r = PostSession then bearer_proof L env rq [] d p
      else if r = ReadSession then cookie_proof L s env rq False [ScopeInboxRead] p
      else credential L s env rq False (route_scope r) d p)"

text \<open>
  C11. A response of any route but the creation of an Inbox (which shows the Inbox it has just created) shows an Inbox, messages or stored bytes
  only to a request that proves its principal: with the token in its \<^verbatim>\<open>Authorization\<close> header or, without that header, its cookie, for the scope
  of the route; with a token of any scope where a session is opened; with a cookie for reading the Inbox where a session is read.
  What it shows is then of the live Inbox of that principal only, and nothing is changed.
\<close>

theorem http_reads_own_inbox:
  assumes "r \<noteq> PostInboxes" and "serve L s env r rq d = (resp, d')" and "disclosing (rp_body resp)" and "rq_method rq = route_method r"
  shows "d' = d \<and> (\<exists>p i. reading_proof L s env r rq d p \<and> hl_canon L (pc_inbox p) = Some i \<and> reveals L env i d (rp_body resp))"
proof -
  have "r \<notin> {Livez, Readyz, DeleteSession, DropInbox, DropMessage, PatchMessage}"
    using assms(2,3) silent_handlers by auto (metis fst_conv)+
  with assms(1) consider "r = PostSession" | "r = ReadSession" | "r \<in> {ReadInbox, ReadMessages, ReadMessage, ReadSource, ReadAttachment}" by (cases r) auto
  then show ?thesis
  proof cases
    case 3
    then have m: "rq_method rq = ''GET''" using assms(4) by auto
    have "d' = d \<and> (\<exists>p i. requirePrincipal L s env rq [route_scope r] d = Inr p \<and> hl_canon L (pc_inbox p) = Some i \<and> reveals L env i d (rp_body resp))"
      using 3 assms(2,3) handleGetInbox_reveals handleListMessages_reveals handleGetMessage_reveals handleGetSource_reveals handleGetAttachment_reveals
      by auto
    then show ?thesis using requirePrincipal_credential [of L s env rq "route_scope r" d] m 3 by (auto simp: reading_proof_def)
  qed (use assms(2,3) handleCreateSession_reveals handleGetSession_reveals in \<open>auto simp: reading_proof_def\<close>)
qed

section \<open>The creation counter\<close>

text \<open>No operation but the quota itself touches the counters.\<close>

interpretation quotas: db_invariant "\<lambda>d. create_quotas d = Q" for Q .

lemma quotas_stmts:
  "quotas.keeps Q (stmt f (sql_delete_inboxes ids))" "quotas.keeps Q (stmt f (sql_delete_unreferenced k))"
  "quotas.keeps Q (enqueueContentDeletion now clock ref)" "quotas.keeps Q (stmt f (with_uuid canon u (\<lambda>i. query (g i))))"
  "quotas.keeps Q (stmt f (with_uuids canon u v (\<lambda>i m. query (h i m))))" "quotas.keeps Q (stmt f (with_uuid canon u sql_delete_message))"
  unfolding enqueueContentDeletion_def
  by (rule quotas.keeps_stmt; auto simp: sql_delete_inboxes_def sql_delete_unreferenced_def sql_enqueue_deletion_def with_uuids_def with_uuid_def
      query_def sql_delete_message_def Let_def split: if_splits option.splits)+

lemmas quotas_rules = quotas.keeps_bind quotas.keeps_return quotas.keeps_fail quotas_stmts

lemma orphan_loop_quotas: "quotas.keeps Q (orphan_loop now clock refs)"
  by (induction refs) (auto intro!: quotas_rules)

lemma DeleteInbox_quotas: "DeleteInbox canon now clock inboxID flt d = (r, d') \<Longrightarrow> create_quotas d' = create_quotas d"
  unfolding DeleteInbox_def DeleteInbox_tx_def
  by (rule quotas.run_tx_keeps [OF _ refl]) (auto intro!: quotas_rules orphan_loop_quotas split: option.split)

lemma DeleteMessage_quotas: "DeleteMessage canon now clock inboxID messageID flt d = (r, d') \<Longrightarrow> create_quotas d' = create_quotas d"
  unfolding DeleteMessage_def DeleteMessage_tx_def
  by (rule quotas.run_tx_keeps [OF _ refl]) (auto intro!: quotas_rules split: option.split prod.split)

lemma MarkMessageSeen_quotas: "MarkMessageSeen canon now inboxID messageID t flt d = (r, d') \<Longrightarrow> create_quotas d' = create_quotas d"
  by (drule MarkMessageSeen_effect) (auto simp: sql_mark_seen_def Let_def)

lemma create_loop_quotas: "create_loop env l domain e i n d = (r, d') \<Longrightarrow> create_quotas d' = create_quotas d"
proof (induction env l domain e i n d rule: create_loop.induct)
  case (2 env l domain e i n d)
  show ?case
  proof (cases "if l = [] then generateLocalPart (ce_random env i) else Inr l")
    case (Inl err)
    then show ?thesis using "2.prems" by simp
  next
    case (Inr cand)
    obtain q d1 where q: "CreateInbox (ce_newid env i) \<lparr>ni_address = cand @ ''@'' @ domain, ni_expires = e, ni_created = ce_now env\<rparr> (ce_fault env i) d = (q, d1)"
      by fastforce
    then have "create_quotas d1 = create_quotas d"
      by (auto simp: CreateInbox_def run_stmt_def sql_insert_inbox_def Let_def split: fault.splits sum.splits if_splits)
    then show ?thesis using "2.prems" "2.IH" [OF Inr q [symmetric]] Inr q by (auto split: sum.splits if_splits)
  qed
qed simp

lemma issue_loop_quotas: "issue_loop sha256 (pg_cap_repo canon) c rnd env i n d = (r, d') \<Longrightarrow> create_quotas d' = create_quotas d"
proof (induction n arbitrary: i d)
  case (Suc n)
  have cap: "create_quotas d1 = create_quotas d0" if "CreateCapability canon c0 e0 d0 = (q, d1)" for c0 e0 d0 q d1
    using that by (auto simp: CreateCapability_def run_stmt_def sql_create_capability_def sql_insert_capability_def
      split: sum.splits fault.splits option.splits prod.splits if_splits)
  show ?case using Suc.prems cap Suc.IH
    by (auto simp: pg_cap_repo_def split: sum.splits prod.splits if_splits)
qed simp

lemma Issue_quotas: "Issue sha256 canon (pg_cap_repo canon) ctx u scopes e now rnd env d = (r, d') \<Longrightarrow> create_quotas d' = create_quotas d"
  by (auto simp: Issue_def split: if_splits sum.splits dest: issue_loop_quotas)

lemma rotate_tx_quotas: "quotas.keeps Q (rotate_tx canon newid cur rp t)"
  unfolding rotate_tx_def cast_uuid_def
  by (auto intro!: quotas_rules quotas.keeps_stmt split: option.splits sum.splits prod.splits if_splits simp: sql_revoke_current_def sql_insert_capability_def query_def)

lemma rotate_loop_quotas: "rotate_loop sha256 (pg_cap_repo canon) cur rnd clock env i n d = (r, d') \<Longrightarrow> create_quotas d' = create_quotas d"
proof (induction n arbitrary: i d)
  case (Suc n)
  have cap: "create_quotas d1 = create_quotas d0" if "RotateCapability canon c0 rp t e0 d0 = (q, d1)" for c0 rp t e0 d0 q d1
    using that quotas.run_tx_keeps [OF rotate_tx_quotas refl] by (auto simp: RotateCapability_def split: sum.splits if_splits)
  show ?case using Suc.prems cap Suc.IH
    by (auto simp: pg_cap_repo_def split: sum.splits prod.splits if_splits)
qed simp

lemma Rotate_quotas: "Rotate sha256 (pg_cap_repo canon) ctx u now e0 rnd clock env d = (r, d') \<Longrightarrow> create_quotas d' = create_quotas d"
  by (auto simp: Rotate_def split: sum.splits dest: rotate_loop_quotas)

lemma Create_quotas:
  assumes "Create sha256 canon sv env request d = (r, d')"
  shows "create_quotas d' = create_quotas d"
proof -
  let ?domain = "if to_lower (trim_space (cq_domain request)) = [] then hd (sv_domains sv) else to_lower (trim_space (cq_domain request))"
    and ?life = "if cq_lifetime request = 0 then sv_default_ttl sv else cq_lifetime request" and ?l = "to_lower (trim_space (cq_local request))"
  obtain a d1 where loop: "create_loop env ?l ?domain (ce_now env + ?life) 0 (if ?l \<noteq> [] then 1 else maxAddressGenerationAttempts) d = (a, d1)"
    by fastforce
  note q = create_loop_quotas [OF loop]
  show ?thesis
  proof (cases a)
    case (Inl e)
    then have "d' = d \<or> d' = d1" using assms loop unfolding Create_def Let_def by (auto split: if_split_asm)
    then show ?thesis using q by auto
  next
    case (Inr inbox)
    obtain b d2 where iss: "Issue sha256 canon (pg_cap_repo canon) (ce_ctx env) (in_id inbox) 31 (ce_now env + ?life) (ce_issue_now env)
        (ce_issue_random env) (ce_issue_env env) d1 = (b, d2)" by fastforce
    obtain c d3 where del: "DeleteInbox canon (ce_delete_now env) (ce_delete_clock env) (in_id inbox) (ce_delete_fault env) d2 = (c, d3)" by fastforce
    have "d' = d \<or> d' = d2 \<or> d' = d3"
      using assms loop Inr iss del unfolding Create_def Let_def owner_scopes(1) by (auto split: if_split_asm sum.split_asm)
    then show ?thesis using q Issue_quotas [OF iss] DeleteInbox_quotas [OF del] by auto
  qed
qed

section \<open>Counting creations\<close>

text \<open>
  The address of a direct client: the peer of the connection, in none of the trusted proxy networks, its
  address as \<^verbatim>\<open>normalizedIPBytes\<close> writes it (an IPv4-mapped address counts as the IPv4 address).
\<close>

definition direct_peer :: "http_server \<Rightarrow> http_request \<Rightarrow> bytes option" where
  "direct_peer s rq =
     (case SplitHostPort (rq_remote rq) of
        None \<Rightarrow> None
      | Some (host, _) \<Rightarrow>
          (case ParseIP host of
             None \<Rightarrow> None
           | Some ip \<Rightarrow> if list_ex (\<lambda>n. Contains n ip) (hs_trusted s) then None else Some (normalizedIPBytes ip)))"

lemma forwarded_untrusted: "\<not> list_ex (\<lambda>n. Contains n ip) ns \<Longrightarrow> forwarded_client ns ip header = None"
  by (induction ns) (auto simp: Let_def)

lemma direct_peer_key:
  assumes "direct_peer s rq = Some addr"
  shows "quota_key sha256 ParseIP q (quota_call_of s env rq) =
    Some (hmac_sha256 sha256 (qs_key q) (createIdentityDomain @ addr), he_wall env div day)"
proof -
  obtain host port ip where h: "SplitHostPort (rq_remote rq) = Some (host, port)" "ParseIP host = Some ip"
    "\<not> list_ex (\<lambda>n. Contains n ip) (hs_trusted s)" "addr = normalizedIPBytes ip"
    using assms by (auto simp: direct_peer_def split: option.splits prod.splits if_splits)
  then have "clientIP s rq = host" by (simp add: clientIP_def forwarded_untrusted)
  then show ?thesis using h by (simp add: quota_key_def quota_call_of_def identity_digest_def)
qed

lemma rp_status_simps [simp]:
  "rp_status (writeJSON n b) = n" "rp_status (writeError env n k m) = n" "rp_status (add_headers hs r) = rp_status r"
  by (simp_all add: writeJSON_def writeError_def add_headers_def)

lemma writeMappedError_status: "rp_status (writeMappedError env e) \<noteq> 201"
  by (simp add: writeMappedError_def)

lemma handleCreateInbox_counts:
  assumes "hs_quota s = Some q" and "handleCreateInbox L s env rq d = (resp, d')"
  shows "create_quotas d' = create_quotas d \<and> rp_status resp \<noteq> 201 \<or>
    (\<exists>dec err d1. Consume (hl_sha256 L) ParseIP q (quota_call_of s env rq) d = ((dec, err), d1) \<and>
       create_quotas d' = create_quotas d1 \<and> (rp_status resp = 201 \<longrightarrow> err = None))"
proof (cases "create_quotas d' = create_quotas d \<and> rp_status resp \<noteq> 201")
  case False
  obtain dec err d1 where c: "Consume (hl_sha256 L) ParseIP q (quota_call_of s env rq) d = ((dec, err), d1)"
    by (metis prod.exhaust)
  have "create_quotas d' = create_quotas d1 \<and> (rp_status resp = 201 \<longrightarrow> err = None)"
    using assms False c unfolding handleCreateInbox_def consumeCreateQuota_def Let_def
    by (auto simp: writeMappedError_status split: option.splits if_splits json_body.splits prod.splits sum.splits dest: Create_quotas)
  then show ?thesis using c by blast
qed simp

lemma handleDelete_quotas:
  "handleDeleteInbox L s env rq d = (resp, d') \<Longrightarrow> create_quotas d' = create_quotas d"
  "handleDeleteMessage L s env rq d = (resp, d') \<Longrightarrow> create_quotas d' = create_quotas d"
  by (auto simp: handleDeleteInbox_def service_Delete_def handleDeleteMessage_def service_DeleteMessage_def
      split: sum.splits prod.splits option.splits dest: DeleteInbox_quotas DeleteMessage_quotas)

lemma handleUpdateMessage_quotas:
  "handleUpdateMessage L s env rq d = (resp, d') \<Longrightarrow> create_quotas d' = create_quotas d"
  by (auto simp: handleUpdateMessage_def service_MarkMessageSeen_def
      split: sum.splits prod.splits option.splits json_body.splits bool.splits dest: MarkMessageSeen_quotas)

lemma serve_quotas:
  assumes "r \<noteq> PostInboxes" and "serve L s env r rq d = (resp, d')"
  shows "create_quotas d' = create_quotas d"
  using assms by (cases r) (auto dest: handleDelete_quotas handleUpdateMessage_quotas)

lemma used_of_quotas: "create_quotas d' = create_quotas d \<Longrightarrow> used_of d' k = used_of d k"
  by (simp add: used_of_def)

lemma serve_used:
  fixes addr :: bytes
  assumes "hs_quota s = Some q" and "0 < qs_dailyLimit q" and "he_wall env div day \<le> date + 2"
    and "serve L s env r rq d = (resp, d')"
  defines "k \<equiv> (hmac_sha256 (hl_sha256 L) (qs_key q) (createIdentityDomain @ addr), date)"
  shows "if r = PostInboxes \<and> rp_status resp = 201 \<and> direct_peer s rq = Some addr \<and> he_wall env div day = date
    then used_of d' k = used_of d k + 1 \<and> used_of d k < qs_dailyLimit q else used_of d k \<le> used_of d' k"
proof (cases "create_quotas d' = create_quotas d \<and> \<not> (r = PostInboxes \<and> rp_status resp = 201)")
  case True
  then show ?thesis using used_of_quotas [of d' d k] by auto
next
  case False
  have post: "r = PostInboxes" using False serve_quotas [OF _ assms(4)] by blast
  then obtain dec err d1 where c: "Consume (hl_sha256 L) ParseIP q (quota_call_of s env rq) d = ((dec, err), d1)"
    "create_quotas d' = create_quotas d1" "rp_status resp = 201 \<longrightarrow> err = None"
    using False handleCreateInbox_counts [OF assms(1), of L env rq d resp d'] assms(4) by auto
  have wall: "qc_now (quota_call_of s env rq) div day \<le> snd k + 2" using assms(3) by (simp add: k_def quota_call_of_def)
  have key: "direct_peer s rq = Some addr \<Longrightarrow> he_wall env div day = date \<Longrightarrow> quota_key (hl_sha256 L) ParseIP q (quota_call_of s env rq) = Some k"
    using direct_peer_key [of s rq addr "hl_sha256 L" q env] by (simp add: k_def)
  show ?thesis
    using Consume_effect [OF assms(2) c(1) wall] key c(3) used_of_quotas [OF c(2), of k] by (auto split: if_splits)
qed

section \<open>Concrete requests\<close>

definition sample_libs :: http_libs where
  "sample_libs = \<lparr>hl_sha256 = cap_sha, hl_canon = cap_canon, hl_uuid = sample_uuid_lib, hl_version = (\<lambda>_. 7),
     hl_part = (\<lambda>raw _. Inr raw), hl_media_type_ok = (\<lambda>_. True), hl_disposition = (\<lambda>_. [])\<rparr>"

definition sample_quota :: quota_service where
  "sample_quota = \<lparr>qs_key = replicate 32 CHR ''k'', qs_dailyLimit = 1\<rparr>"

definition sample_http_server :: http_server where
  "sample_http_server = \<lparr>hs_ready = True, hs_readiness = False, hs_mailbox = Some sample_service, hs_authenticator = True,
     hs_sessions = None, hs_quota = Some sample_quota, hs_trusted = [], hs_heavy_slots = 4\<rparr>"

definition sample_http_env :: http_env where
  "sample_http_env = \<lparr>he_request_id = ''r'', he_ctx = Ctx None, he_allow = True, he_ready = None, he_heavy = 0,
     he_wall = 20, he_now = 20, he_clock = 20, he_auth_env = cap_quiet, he_random = [], he_create = sample_create_env,
     he_quota_locked = {}, he_quota_fault = (\<lambda>_. NoFault), he_flt = NoFault, he_flt2 = NoFault, he_txflt = (\<lambda>_. NoFault),
     he_db2 = empty_db, he_store = sample_store, he_sflt = (\<lambda>_. None)\<rparr>"

definition sample_request :: "route \<Rightarrow> string \<Rightarrow> http_request" where
  "sample_request r token = \<lparr>rq_method = route_method r, rq_remote = ''9.9.9.9:1'',
     rq_header = (\<lambda>h. if h = ''Authorization'' then ''Bearer '' @ token else []), rq_cookie = None,
     rq_query = (\<lambda>_. []), rq_path = (\<lambda>_. []), rq_create = JsonEmpty, rq_seen = JsonEmpty\<rparr>"

definition sample_serve :: "route \<Rightarrow> (db \<times> response \<times> db) option" where
  "sample_serve r = (case sample_owner_issue of
       (Inr iss, d) \<Rightarrow> Some (d, serve sample_libs sample_http_server sample_http_env r (sample_request r (is_plaintext iss)) d)
     | _ \<Rightarrow> None)"

lemma sample_drop_evaluates:
  "(case sample_serve DropInbox of Some (d, resp, d') \<Rightarrow> inboxes d \<noteq> [] \<and> mail_contents d = [] \<and> inboxes d' = [] | None \<Rightarrow> False)"
  by code_simp

lemma sample_read_evaluates:
  "(case sample_serve ReadInbox of Some (d, resp, d') \<Rightarrow> disclosing (rp_body resp) | None \<Rightarrow> False)"
  by code_simp

lemma sample_simps: "rq_method (sample_request r token) = route_method r" "hl_canon sample_libs = cap_canon"
  by (simp_all add: sample_request_def sample_libs_def)

theorem http_changes_own_inbox_witness:
  "\<exists>iss d p i resp d'. sample_owner_issue = (Inr iss, d) \<and>
     serve sample_libs sample_http_server sample_http_env DropInbox (sample_request DropInbox (is_plaintext iss)) d = (resp, d') \<and> d' \<noteq> d \<and>
     credential sample_libs sample_http_server sample_http_env (sample_request DropInbox (is_plaintext iss)) True ScopeInboxDelete d p \<and>
     cap_canon (pc_inbox p) = Some i \<and> spares i d d'"
proof -
  obtain iss d where i: "sample_owner_issue = (Inr iss, d)" using sample_owner_issue_Inr by blast
  obtain resp d' where sv: "serve sample_libs sample_http_server sample_http_env DropInbox (sample_request DropInbox (is_plaintext iss)) d = (resp, d')"
    by fastforce
  have ev: "inboxes d \<noteq> []" "mail_contents d = []" "inboxes d' = []"
    using sample_drop_evaluates sv by (simp_all add: sample_serve_def i)
  then have r: "contents_referenced d" "d' \<noteq> d" by (auto simp: contents_referenced_def)
  obtain p i where "credential sample_libs sample_http_server sample_http_env (sample_request DropInbox (is_plaintext iss)) True ScopeInboxDelete d p"
    "cap_canon (pc_inbox p) = Some i" "spares i d d'"
    using http_changes_own_inbox [OF sample_owner_good [OF i, THEN cap_good_wf] r(1) sv _ _ r(2)] by (auto simp: sample_simps)
  with i sv r(2) show ?thesis by blast
qed

theorem http_reads_own_inbox_witness:
  "\<exists>iss d p i resp. sample_owner_issue = (Inr iss, d) \<and>
     serve sample_libs sample_http_server sample_http_env ReadInbox (sample_request ReadInbox (is_plaintext iss)) d = (resp, d) \<and>
     reading_proof sample_libs sample_http_server sample_http_env ReadInbox (sample_request ReadInbox (is_plaintext iss)) d p \<and>
     cap_canon (pc_inbox p) = Some i \<and> reveals sample_libs sample_http_env i d (rp_body resp)"
proof -
  obtain iss d where i: "sample_owner_issue = (Inr iss, d)" using sample_owner_issue_Inr by blast
  obtain resp where sv: "serve sample_libs sample_http_server sample_http_env ReadInbox (sample_request ReadInbox (is_plaintext iss)) d = (resp, d)"
    by simp
  have r: "disclosing (rp_body resp)" using sample_read_evaluates sv by (auto simp: sample_serve_def i)
  obtain p i where "reading_proof sample_libs sample_http_server sample_http_env ReadInbox (sample_request ReadInbox (is_plaintext iss)) d p"
    "cap_canon (pc_inbox p) = Some i" "reveals sample_libs sample_http_env i d (rp_body resp)"
    using http_reads_own_inbox [OF _ sv r] by (auto simp: sample_simps)
  with i sv show ?thesis by blast
qed

end
