(* ===== verification/Compat_Http.thy ===== *)
theory Compat_Http
  imports Compat_Services Http_Security
begin

text \<open>
  The HTTP side of the compatibility adapters: \<^verbatim>\<open>internal/httpapi/duckmail.go\<close>, \<^verbatim>\<open>yyds.go\<close> and
  \<^verbatim>\<open>cloudflare_temp.go\<close>. A handler maps a request, its environment and the tables to a response and the
  tables.

  The reads of a request are numbered: read \<open>k\<close> sees the tables \<open>xe_db k\<close> and meets the fault \<open>xe_flt k\<close>.
  Bodies are kept as the values that are encoded; error texts that are not ASCII are left out, their codes
  kept, and the size of an encoded body is a parameter.
\<close>

section \<open>Requests and responses\<close>

record duck_address =
  dd_name :: string
  dd_address :: string

record duck_attachment =
  dt_id :: string
  dt_filename :: string
  dt_content_type :: string
  dt_disposition :: string
  dt_size :: int

record duck_message =
  dm_id :: string
  dm_msgid :: string
  dm_account :: string
  dm_from :: duck_address
  dm_to :: "duck_address list"
  dm_subject :: string
  dm_text :: string
  dm_html :: "string list"
  dm_seen :: bool
  dm_has_attachments :: bool
  dm_size :: int
  dm_download :: string
  dm_attachments :: "duck_attachment list"
  dm_created :: time

record yyds_message =
  ym_id :: string
  ym_inbox :: string
  ym_from :: duck_address
  ym_to :: "duck_address list"
  ym_subject :: string
  ym_seen :: bool
  ym_size :: int
  ym_has_attachments :: bool
  ym_created :: time

record yyds_attachment =
  yt_attachment :: attachment
  yt_download :: string

record yyds_detail = yyds_message +
  yd_message_id :: string
  yd_intro :: string
  yd_text :: string
  yd_html :: "string list"
  yd_cc :: "string list"
  yd_attachments :: "yyds_attachment list"

record cf_raw_mail =
  rm_id :: int
  rm_message_id :: string
  rm_source :: string
  rm_address :: string
  rm_raw :: bytes
  rm_created :: string

record cf_parsed_mail =
  pm_id :: int
  pm_message_id :: string
  pm_source :: string
  pm_address :: string
  pm_created :: string
  pm_sender :: string
  pm_subject :: string
  pm_text :: string
  pm_html :: string
  pm_attachments :: "duck_attachment list"

datatype compat_body =
    XNothing | XNull | XStream bytes
  | DuckError string string
  | DuckDomains "string list" int nat nat
  | DuckAccount inbox
  | DuckToken string string
  | DuckMessages "duck_message list" int nat nat
  | DuckMessage duck_message
  | DuckSeen
  | DuckSource string bytes
  | YydsError string
  | YydsDomains "string list"
  | YydsAccount inbox string
  | YydsToken inbox string
  | YydsMessages "yyds_message list" nat nat
  | YydsMessage yyds_detail
  | YydsSeen string
  | YydsSource string bytes
  | CfText string
  | CfOpenSettings "string list"
  | CfUserOpenSettings
  | CfAddress string string int
  | CfSettings string
  | CfRawMails "cf_raw_mail list" nat
  | CfRawMail cf_raw_mail
  | CfParsedMails "cf_parsed_mail list" nat
  | CfParsedMail cf_parsed_mail
  | CfSuccess

record compat_response =
  xr_status :: int
  xr_headers :: "(string \<times> string) list"
  xr_body :: compat_body

record yyds_create_input =
  yc_names :: yyds_request
  yc_wildcard :: string
  yc_subdomain :: string
  yc_label :: string

record cf_create_input =
  fc_name :: string
  fc_domain :: string
  fc_random :: bool

record compat_request =
  xq_http :: http_request
  xq_url :: string
  xq_account :: "account_request json_body"
  xq_login :: "(string \<times> string) json_body"
  xq_yyds :: "yyds_create_input json_body"
  xq_refresh :: "string json_body"
  xq_patch :: "(bool option \<times> bool option) json_body"
  xq_cf :: "cf_create_input json_body"

record compat_server =
  cs_http :: http_server
  cs_duck :: "duck_service option"
  cs_yyds :: "yyds_service option"
  cs_cf :: "cf_service option"
  cs_legacy :: bool

record compat_env =
  xe_http :: http_env
  xe_flt :: "nat \<Rightarrow> fault"
  xe_db :: "nat \<Rightarrow> db"
  xe_duck :: duck_env
  xe_refresh :: refresh_env
  xe_cf :: cf_create_env
  xe_newid :: "nat \<Rightarrow> int"
  xe_cf_heavy :: int

record compat_libs =
  xl_http :: http_libs
  xl_idkey :: argon2
  xl_json_size :: "compat_body \<Rightarrow> int"

definition compat_json :: "int \<Rightarrow> compat_body \<Rightarrow> compat_response" where
  "compat_json status body = \<lparr>xr_status = status, xr_headers = json_headers, xr_body = body\<rparr>"

definition compat_headers :: "(string \<times> string) list \<Rightarrow> compat_response \<Rightarrow> compat_response" where
  "compat_headers hs r = r\<lparr>xr_headers := hs @ xr_headers r\<rparr>"

definition compat_no_content :: compat_response where
  "compat_no_content = \<lparr>xr_status = 204, xr_headers = [], xr_body = XNothing\<rparr>"

text \<open>What \<^verbatim>\<open>net/http\<close> sends when a handler returns without writing anything.\<close>

definition compat_silent :: compat_response where
  "compat_silent = \<lparr>xr_status = 200, xr_headers = [], xr_body = XNothing\<rparr>"

section \<open>The mailbox as the adapters see it\<close>

definition read_Get :: "compat_libs \<Rightarrow> compat_env \<Rightarrow> nat \<Rightarrow> string \<Rightarrow> inbox result" where
  "read_Get X xe k inboxID = service_Get (hl_canon (xl_http X)) (he_now (xe_http xe)) inboxID (xe_flt xe k) (xe_db xe k)"

definition read_Page :: "compat_libs \<Rightarrow> compat_env \<Rightarrow> nat \<Rightarrow> string \<Rightarrow> int \<Rightarrow> int \<Rightarrow> message_page result" where
  "read_Page X xe k inboxID limit offset =
     service_ListMessagePage (hl_canon (xl_http X)) (he_now (xe_http xe)) inboxID limit offset (xe_flt xe k) (xe_db xe k) (xe_flt xe (Suc k)) (xe_db xe (Suc k))"

definition read_Message :: "compat_libs \<Rightarrow> compat_env \<Rightarrow> nat \<Rightarrow> string \<Rightarrow> string \<Rightarrow> message_detail result" where
  "read_Message X xe k inboxID messageID = GetMessage (hl_canon (xl_http X)) (he_now (xe_http xe)) inboxID messageID (xe_flt xe k) (xe_db xe k)"

definition read_Source :: "compat_libs \<Rightarrow> compat_env \<Rightarrow> nat \<Rightarrow> string \<Rightarrow> string \<Rightarrow> (bytes \<times> int) result" where
  "read_Source X xe k inboxID messageID =
     (let env = xe_http xe in
      service_OpenSource (hl_canon (xl_http X)) (he_now env) (he_ctx env) (he_sflt env) (he_store env) inboxID messageID (xe_flt xe k) (xe_db xe k))"

definition mailbox_Delete :: "compat_libs \<Rightarrow> compat_env \<Rightarrow> string \<Rightarrow> compat_db \<Rightarrow> unit result \<times> compat_db" where
  "mailbox_Delete X xe inboxID =
     (let env = xe_http xe in on_db (service_Delete (hl_canon (xl_http X)) (he_now env) (he_clock env) inboxID (he_txflt env)))"

definition mailbox_DeleteMessage :: "compat_libs \<Rightarrow> compat_env \<Rightarrow> string \<Rightarrow> string \<Rightarrow> compat_db \<Rightarrow> unit result \<times> compat_db" where
  "mailbox_DeleteMessage X xe inboxID messageID =
     (let env = xe_http xe in on_db (service_DeleteMessage (hl_canon (xl_http X)) (he_now env) (he_clock env) inboxID messageID (he_txflt env)))"

definition mailbox_MarkSeen :: "compat_libs \<Rightarrow> compat_env \<Rightarrow> string \<Rightarrow> string \<Rightarrow> compat_db \<Rightarrow> unit result \<times> compat_db" where
  "mailbox_MarkSeen X xe inboxID messageID =
     (let env = xe_http xe in on_db (service_MarkMessageSeen (hl_canon (xl_http X)) (he_now env) (he_wall env) inboxID messageID (he_flt env)))"

definition compat_quota :: "compat_libs \<Rightarrow> compat_server \<Rightarrow> compat_env \<Rightarrow> compat_request \<Rightarrow> compat_db \<Rightarrow>
    (decision option \<times> go_error option) \<times> compat_db" where
  "compat_quota X s xe q = on_db (consumeCreateQuota (xl_http X) (cs_http s) (xe_http xe) (xq_http q))"

text \<open>
  The bearer of a request: \<open>Inl False\<close> if there is none, \<open>Inl True\<close> if no authenticator is configured, otherwise
  what the authenticator says.
\<close>

definition bearer_text :: "http_request \<Rightarrow> string option" where
  "bearer_text rq =
     (case cut (rq_header rq ''Authorization'') CHR '' '' of (scheme, rest, found) \<Rightarrow>
        if \<not> found \<or> \<not> equal_fold_ascii scheme ''Bearer'' \<or> trim_space rest = [] then None else Some (trim_space rest))"

definition compat_auth :: "compat_libs \<Rightarrow> compat_env \<Rightarrow> string \<Rightarrow> scope list \<Rightarrow> compat_db \<Rightarrow> principal result" where
  "compat_auth X xe plaintext scopes c =
     (let L = xl_http X; env = xe_http xe in
      Authenticate (hl_sha256 L) (pg_cap_repo (hl_canon L)) (he_ctx env) plaintext scopes (he_wall env) (he_auth_env env) (cm_db c))"

section \<open>DuckMail\<close>

definition writeDuckError :: "int \<Rightarrow> string \<Rightarrow> string \<Rightarrow> compat_response" where
  "writeDuckError status errorType msg = compat_json status (DuckError errorType msg)"

definition writeDuckMappedError :: "go_error \<Rightarrow> compat_response" where
  "writeDuckMappedError e =
     (if e = ErrInvalidAccount then writeDuckError 422 ''Unprocessable Entity'' ''invalid DuckMail account''
      else if e = ErrPermanentUnsupported then writeDuckError 422 ''Unprocessable Entity'' ''permanent DuckMail accounts are unsupported''
      else if e = ErrAccountConflict then writeDuckError 409 ''Conflict'' ''Email address already exists''
      else if e = ErrLoginFailed \<or> e = ErrUnauthenticated then writeDuckError 401 ''Unauthorized'' ''Invalid address, password, or token''
      else if e = ErrForbidden then writeDuckError 403 ''Forbidden'' ''Token scope does not allow this action''
      else if e = MailboxErrInboxNotFound \<or> e = ErrMessageNotFound then writeDuckError 404 ''Not Found'' ''Resource not found''
      else writeDuckError 500 ''Internal Server Error'' ''Internal server error'')"

definition duckMailEnabled :: "compat_server \<Rightarrow> compat_response + duck_service" where
  "duckMailEnabled s =
     (case cs_duck s of None \<Rightarrow> Inl (writeDuckError 404 ''Not Found'' ''DuckMail compatibility is disabled'') | Some sv \<Rightarrow> Inr sv)"

definition duckPrincipal :: "compat_libs \<Rightarrow> compat_server \<Rightarrow> compat_env \<Rightarrow> compat_request \<Rightarrow> scope list \<Rightarrow> compat_db \<Rightarrow> compat_response + principal" where
  "duckPrincipal X s xe q scopes c =
     (case duckMailEnabled s of
        Inl r \<Rightarrow> Inl r
      | Inr _ \<Rightarrow>
          if \<not> hs_authenticator (cs_http s) then Inl compat_silent
          else (case bearer_text (xq_http q) of
              None \<Rightarrow> Inl (writeDuckError 401 ''Unauthorized'' ''A Bearer token is required'')
            | Some plaintext \<Rightarrow>
                (case compat_auth X xe plaintext scopes c of Inl e \<Rightarrow> Inl (writeDuckMappedError e) | Inr p \<Rightarrow> Inr p)))"

definition duckMessagePrincipal :: "compat_libs \<Rightarrow> compat_server \<Rightarrow> compat_env \<Rightarrow> compat_request \<Rightarrow> scope \<Rightarrow> compat_db \<Rightarrow>
    compat_response + principal \<times> string" where
  "duckMessagePrincipal X s xe q sc c =
     (case duckPrincipal X s xe q [sc] c of
        Inl r \<Rightarrow> Inl r
      | Inr p \<Rightarrow>
          (case parseMessageID (xl_http X) (rq_path (xq_http q) ''id'') of
             None \<Rightarrow> Inl (writeDuckError 404 ''Not Found'' ''Message not found'')
           | Some messageID \<Rightarrow> Inr (p, messageID)))"

definition decodeDuckJSON :: "'a json_body \<Rightarrow> compat_response + 'a" where
  "decodeDuckJSON body =
     (case body of
        JsonOne v \<Rightarrow> Inr v
      | JsonTrailing _ \<Rightarrow> Inl (writeDuckError 400 ''Bad Request'' ''Request body must contain one JSON object'')
      | _ \<Rightarrow> Inl (writeDuckError 400 ''Bad Request'' ''Request body is invalid''))"

definition duckPage :: "compat_request \<Rightarrow> compat_response + int" where
  "duckPage q =
     (let raw = rq_query (xq_http q) ''page'' in
      if raw = [] then Inr 1
      else case parse_int64 raw of
          None \<Rightarrow> Inl (writeDuckError 400 ''Bad Request'' ''page must be a positive integer'')
        | Some n \<Rightarrow> if n < 1 \<or> n > 10000 then Inl (writeDuckError 400 ''Bad Request'' ''page must be a positive integer'') else Inr n)"

definition presentDuckFrom :: "address list \<Rightarrow> string \<Rightarrow> duck_address" where
  "presentDuckFrom addresses fallback =
     (case addresses of [] \<Rightarrow> \<lparr>dd_name = [], dd_address = fallback\<rparr> | a # _ \<Rightarrow> \<lparr>dd_name = addr_name a, dd_address = addr_address a\<rparr>)"

definition presentDuckAddresses :: "address list \<Rightarrow> string \<Rightarrow> duck_address list" where
  "presentDuckAddresses addresses fallback =
     (if addresses = [] then [\<lparr>dd_name = [], dd_address = fallback\<rparr>]
      else map (\<lambda>a. \<lparr>dd_name = addr_name a, dd_address = addr_address a\<rparr>) addresses)"

definition presentDuckSummary :: "message_summary \<Rightarrow> inbox \<Rightarrow> duck_message" where
  "presentDuckSummary x inbox =
     \<lparr>dm_id = su_id x, dm_msgid = su_id x, dm_account = in_id inbox, dm_from = \<lparr>dd_name = [], dd_address = su_sender x\<rparr>,
      dm_to = [\<lparr>dd_name = [], dd_address = in_address inbox\<rparr>], dm_subject = su_subject x, dm_text = [], dm_html = [],
      dm_seen = su_seen x, dm_has_attachments = su_has_attachments x, dm_size = su_size x,
      dm_download = ''/compat/duckmail/sources/'' @ su_id x, dm_attachments = [], dm_created = su_received x\<rparr>"

definition presentDuckDetail :: "message_detail \<Rightarrow> inbox \<Rightarrow> duck_message" where
  "presentDuckDetail x inbox =
     (presentDuckSummary (message_summary.truncate x) inbox)
       \<lparr>dm_msgid := de_message_id x, dm_text := de_text x, dm_html := (if de_html x = [] then [] else [de_html x]),
        dm_from := presentDuckFrom (de_from x) (su_sender x), dm_to := presentDuckAddresses (de_to x) (in_address inbox),
        dm_attachments := map (\<lambda>a. \<lparr>dt_id = att_part_path a, dt_filename = att_file_name a, dt_content_type = att_content_type a,
          dt_disposition = att_disposition a, dt_size = att_size a\<rparr>) (de_attachments x)\<rparr>"

text \<open>The number of the last page \<^verbatim>\<open>writeDuckHydra\<close> shows.\<close>

definition duck_last_page :: "nat \<Rightarrow> nat" where
  "duck_last_page n = max 1 ((n + 29) div 30)"

definition handleDuckMailDomains :: "compat_server \<Rightarrow> compat_request \<Rightarrow> compat_response" where
  "handleDuckMailDomains s q =
     (case duckMailEnabled s of
        Inl r \<Rightarrow> r
      | Inr sv \<Rightarrow> (case duckPage q of Inl r \<Rightarrow> r | Inr n \<Rightarrow> compat_json 200 (DuckDomains (ds_domains sv) n (length (ds_domains sv)) (duck_last_page (length (ds_domains sv))))))"

definition handleDuckMailCreateAccount :: "compat_libs \<Rightarrow> compat_server \<Rightarrow> compat_env \<Rightarrow> compat_request \<Rightarrow> compat_db \<Rightarrow> compat_response \<times> compat_db" where
  "handleDuckMailCreateAccount X s xe q c =
     (case duckMailEnabled s of
        Inl r \<Rightarrow> (r, c)
      | Inr sv \<Rightarrow>
          if \<not> he_allow (xe_http xe) then (writeDuckError 429 ''Too Many Requests'' ''Too many account requests'', c)
          else (case decodeDuckJSON (xq_account q) of
              Inl r \<Rightarrow> (r, c)
            | Inr request \<Rightarrow>
                (case compat_quota X s xe q c of
                   ((dec, err), c1) \<Rightarrow>
                     let answer = compat_headers (setCreateQuotaHeaders (xe_http xe) dec err) in
                     if err = Some ErrDailyCreateQuotaExceeded
                       then (answer (writeDuckError 429 ''Too Many Requests'' ''Daily account quota exceeded''), c1)
                     else if err \<noteq> None
                       then (answer (writeDuckError 500 ''Internal Server Error'' ''Persistent account admission failed''), c1)
                     else (case duck_CreateAccount (xl_idkey X) sv (xe_duck xe) request c1 of
                         (Inl e, c2) \<Rightarrow> (answer (writeDuckMappedError e), c2)
                       | (Inr inbox, c2) \<Rightarrow> (answer (compat_json 201 (DuckAccount inbox)), c2)))))"

definition handleDuckMailToken :: "compat_libs \<Rightarrow> compat_server \<Rightarrow> compat_env \<Rightarrow> compat_request \<Rightarrow> compat_db \<Rightarrow> compat_response \<times> compat_db" where
  "handleDuckMailToken X s xe q c =
     (case duckMailEnabled s of
        Inl r \<Rightarrow> (r, c)
      | Inr sv \<Rightarrow>
          if \<not> he_allow (xe_http xe) then (writeDuckError 429 ''Too Many Requests'' ''Too many login requests'', c)
          else (case decodeDuckJSON (xq_login q) of
              Inl r \<Rightarrow> (r, c)
            | Inr (address, password) \<Rightarrow>
                (case duck_Login (xl_idkey X) (hl_sha256 (xl_http X)) (hl_canon (xl_http X)) sv (xe_duck xe) address password c of
                   (Inl e, c1) \<Rightarrow> (writeDuckMappedError e, c1)
                 | (Inr issued, c1) \<Rightarrow> (compat_json 200 (DuckToken (is_inbox issued) (is_plaintext issued)), c1))))"

definition handleDuckMailMe :: "compat_libs \<Rightarrow> compat_server \<Rightarrow> compat_env \<Rightarrow> compat_request \<Rightarrow> compat_db \<Rightarrow> compat_response" where
  "handleDuckMailMe X s xe q c =
     (case duckPrincipal X s xe q [ScopeInboxRead] c of
        Inl r \<Rightarrow> r
      | Inr p \<Rightarrow> (case read_Get X xe 0 (pc_inbox p) of Inl e \<Rightarrow> writeDuckMappedError e | Inr inbox \<Rightarrow> compat_json 200 (DuckAccount inbox)))"

definition handleDuckMailDeleteAccount :: "compat_libs \<Rightarrow> compat_server \<Rightarrow> compat_env \<Rightarrow> compat_request \<Rightarrow> compat_db \<Rightarrow> compat_response \<times> compat_db" where
  "handleDuckMailDeleteAccount X s xe q c =
     (case duckPrincipal X s xe q [ScopeInboxDelete] c of
        Inl r \<Rightarrow> (r, c)
      | Inr p \<Rightarrow>
          if rq_path (xq_http q) ''id'' \<noteq> pc_inbox p then (writeDuckError 403 ''Forbidden'' ''You can only delete your own account'', c)
          else (case mailbox_Delete X xe (pc_inbox p) c of
              (Inl e, c1) \<Rightarrow> (writeDuckMappedError e, c1)
            | (Inr _, c1) \<Rightarrow> (compat_no_content, c1)))"

definition handleDuckMailMessages :: "compat_libs \<Rightarrow> compat_server \<Rightarrow> compat_env \<Rightarrow> compat_request \<Rightarrow> compat_db \<Rightarrow> compat_response" where
  "handleDuckMailMessages X s xe q c =
     (case duckPrincipal X s xe q [ScopeMessageRead] c of
        Inl r \<Rightarrow> r
      | Inr p \<Rightarrow>
     (case duckPage q of
        Inl r \<Rightarrow> r
      | Inr n \<Rightarrow>
     (case read_Get X xe 0 (pc_inbox p) of
        Inl e \<Rightarrow> writeDuckMappedError e
      | Inr inbox \<Rightarrow>
     (case read_Page X xe 1 (pc_inbox p) 30 ((n - 1) * 30) of
        Inl e \<Rightarrow> writeDuckMappedError e
      | Inr result \<Rightarrow> compat_json 200 (DuckMessages (map (\<lambda>x. presentDuckSummary x inbox) (mp_items result)) n (mp_total result) (duck_last_page (mp_total result)))))))"

definition handleDuckMailMessage :: "compat_libs \<Rightarrow> compat_server \<Rightarrow> compat_env \<Rightarrow> compat_request \<Rightarrow> compat_db \<Rightarrow> compat_response" where
  "handleDuckMailMessage X s xe q c =
     (case duckMessagePrincipal X s xe q ScopeMessageRead c of
        Inl r \<Rightarrow> r
      | Inr (p, messageID) \<Rightarrow>
     (case read_Message X xe 0 (pc_inbox p) messageID of
        Inl e \<Rightarrow> writeDuckMappedError e
      | Inr detail \<Rightarrow>
     (case read_Get X xe 1 (pc_inbox p) of
        Inl e \<Rightarrow> writeDuckMappedError e
      | Inr inbox \<Rightarrow> compat_json 200 (DuckMessage (presentDuckDetail detail inbox)))))"

definition handleDuckMailSeen :: "compat_libs \<Rightarrow> compat_server \<Rightarrow> compat_env \<Rightarrow> compat_request \<Rightarrow> compat_db \<Rightarrow> compat_response \<times> compat_db" where
  "handleDuckMailSeen X s xe q c =
     (case duckMessagePrincipal X s xe q ScopeMessageUpdate c of
        Inl r \<Rightarrow> (r, c)
      | Inr (p, messageID) \<Rightarrow>
          (case mailbox_MarkSeen X xe (pc_inbox p) messageID c of
             (Inl e, c1) \<Rightarrow> (writeDuckMappedError e, c1)
           | (Inr _, c1) \<Rightarrow> (compat_json 200 DuckSeen, c1)))"

definition handleDuckMailDeleteMessage :: "compat_libs \<Rightarrow> compat_server \<Rightarrow> compat_env \<Rightarrow> compat_request \<Rightarrow> compat_db \<Rightarrow> compat_response \<times> compat_db" where
  "handleDuckMailDeleteMessage X s xe q c =
     (case duckMessagePrincipal X s xe q ScopeMessageDelete c of
        Inl r \<Rightarrow> (r, c)
      | Inr (p, messageID) \<Rightarrow>
          (case mailbox_DeleteMessage X xe (pc_inbox p) messageID c of
             (Inl e, c1) \<Rightarrow> (writeDuckMappedError e, c1)
           | (Inr _, c1) \<Rightarrow> (compat_no_content, c1)))"

text \<open>\<^verbatim>\<open>io.ReadAll(io.LimitReader(r, size + 1))\<close>\<close>

definition read_all_limited :: "int \<Rightarrow> bytes \<Rightarrow> bytes" where
  "read_all_limited size' content = take (nat (size' + 1)) content"

definition handleDuckMailSource :: "compat_libs \<Rightarrow> compat_server \<Rightarrow> compat_env \<Rightarrow> compat_request \<Rightarrow> compat_db \<Rightarrow> compat_response" where
  "handleDuckMailSource X s xe q c =
     (case duckMessagePrincipal X s xe q ScopeMessageRead c of
        Inl r \<Rightarrow> r
      | Inr (p, messageID) \<Rightarrow>
          (case read_Source X xe 0 (pc_inbox p) messageID of
             Inl e \<Rightarrow> writeDuckMappedError e
           | Inr (content, size') \<Rightarrow>
               let data = read_all_limited size' content in
               if int (length data) \<noteq> size' then writeDuckError 500 ''Internal Server Error'' ''Raw message source is unavailable''
               else compat_json 200 (DuckSource messageID data)))"

section \<open>YYDS\<close>

definition writeYYDS :: "int \<Rightarrow> compat_body \<Rightarrow> compat_response" where
  "writeYYDS status body = compat_json status body"

definition writeYYDSError :: "int \<Rightarrow> string \<Rightarrow> compat_response" where
  "writeYYDSError status code = compat_json status (YydsError code)"

definition writeYYDSMappedError :: "go_error \<Rightarrow> compat_response" where
  "writeYYDSMappedError e =
     (if e = ErrUnauthenticated \<or> e = ErrAddressMismatch then writeYYDSError 401 ''token_invalid_or_expired''
      else if e = ErrForbidden then writeYYDSError 403 ''permission_denied''
      else if e = ErrInvalidRequest \<or> e = ErrInvalidDomain \<or> e = ErrInvalidLifetime \<or> e = ErrInvalidLocalPart
        then writeYYDSError 400 ''address_invalid_or_missing''
      else if e = ErrAddressConflict then writeYYDSError 409 ''address_already_in_use''
      else if e = MailboxErrInboxNotFound then writeYYDSError 404 ''account_not_found''
      else if e = ErrMessageNotFound then writeYYDSError 404 ''message_not_found''
      else writeYYDSError 500 ''request_failed'')"

definition yydsEnabled :: "compat_server \<Rightarrow> compat_response + yyds_service" where
  "yydsEnabled s = (case cs_yyds s of None \<Rightarrow> Inl (writeYYDSError 404 ''request_failed'') | Some sv \<Rightarrow> Inr sv)"

definition yydsBearer :: "compat_request \<Rightarrow> compat_response + string" where
  "yydsBearer q = (case bearer_text (xq_http q) of None \<Rightarrow> Inl (writeYYDSError 401 ''temp_token_required'') | Some t \<Rightarrow> Inr t)"

definition yydsPrincipal :: "compat_libs \<Rightarrow> compat_server \<Rightarrow> compat_env \<Rightarrow> compat_request \<Rightarrow> scope list \<Rightarrow> compat_db \<Rightarrow> compat_response + principal" where
  "yydsPrincipal X s xe q scopes c =
     (case yydsEnabled s of
        Inl r \<Rightarrow> Inl r
      | Inr _ \<Rightarrow>
          if \<not> hs_authenticator (cs_http s) then Inl compat_silent
          else (case yydsBearer q of
              Inl r \<Rightarrow> Inl r
            | Inr plaintext \<Rightarrow>
                (case compat_auth X xe plaintext scopes c of Inl e \<Rightarrow> Inl (writeYYDSMappedError e) | Inr p \<Rightarrow> Inr p)))"

definition yydsMessagePrincipal :: "compat_libs \<Rightarrow> compat_server \<Rightarrow> compat_env \<Rightarrow> compat_request \<Rightarrow> scope \<Rightarrow> compat_db \<Rightarrow>
    compat_response + principal \<times> string" where
  "yydsMessagePrincipal X s xe q sc c =
     (case yydsPrincipal X s xe q [sc] c of
        Inl r \<Rightarrow> Inl r
      | Inr p \<Rightarrow>
          (case parseMessageID (xl_http X) (rq_path (xq_http q) ''id'') of
             None \<Rightarrow> Inl (writeYYDSError 404 ''message_not_found'')
           | Some messageID \<Rightarrow> Inr (p, messageID)))"

text \<open>An optional body may be empty; \<open>fallback\<close> is the zero value the target then keeps.\<close>

definition decodeYYDSJSON :: "'a option \<Rightarrow> 'a json_body \<Rightarrow> compat_response + 'a" where
  "decodeYYDSJSON fallback body =
     (case body of
        JsonOne v \<Rightarrow> Inr v
      | JsonEmpty \<Rightarrow> (case fallback of Some v \<Rightarrow> Inr v | None \<Rightarrow> Inl (writeYYDSError 400 ''request_body_read_failed''))
      | _ \<Rightarrow> Inl (writeYYDSError 400 ''request_body_read_failed''))"

definition yydsPage :: "compat_request \<Rightarrow> compat_response + int \<times> int" where
  "yydsPage q =
     (let rawLimit = rq_query (xq_http q) ''limit''; rawOffset = rq_query (xq_http q) ''offset'' in
      case (if rawLimit = [] then Some 50 else case parse_int64 rawLimit of None \<Rightarrow> None | Some n \<Rightarrow> if n < 1 \<or> n > 200 then None else Some n) of
        None \<Rightarrow> Inl (writeYYDSError 400 ''request_failed'')
      | Some limit \<Rightarrow>
          (case (if rawOffset = [] then Some 0 else case parse_int64 rawOffset of None \<Rightarrow> None | Some n \<Rightarrow> if n < 0 \<or> n > 100000 then None else Some n) of
             None \<Rightarrow> Inl (writeYYDSError 400 ''request_failed'')
           | Some offset \<Rightarrow> Inr (limit, offset)))"

definition presentYYDSSummary :: "message_summary \<Rightarrow> inbox \<Rightarrow> yyds_message" where
  "presentYYDSSummary x inbox =
     \<lparr>ym_id = su_id x, ym_inbox = in_id inbox, ym_from = \<lparr>dd_name = [], dd_address = su_sender x\<rparr>,
      ym_to = [\<lparr>dd_name = [], dd_address = in_address inbox\<rparr>], ym_subject = su_subject x, ym_seen = su_seen x, ym_size = su_size x,
      ym_has_attachments = su_has_attachments x, ym_created = su_received x\<rparr>"

definition presentYYDSDetail :: "message_detail \<Rightarrow> inbox \<Rightarrow> yyds_detail" where
  "presentYYDSDetail x inbox =
     yyds_message.extend
       ((presentYYDSSummary (message_summary.truncate x) inbox)
          \<lparr>ym_from := presentDuckFrom (de_from x) (su_sender x), ym_to := presentDuckAddresses (de_to x) (in_address inbox)\<rparr>)
       (yyds_detail.fields (de_message_id x) (su_preview x) (de_text x) (if de_html x = [] then [] else [de_html x])
          (map addr_address (de_cc x))
          (map (\<lambda>a. \<lparr>yt_attachment = a, yt_download = ''/compat/yyds/v1/messages/'' @ su_id x @ ''/attachments/'' @ att_part_path a\<rparr>)
             (de_attachments x)))"

definition handleYYDSDomains :: "compat_server \<Rightarrow> compat_response" where
  "handleYYDSDomains s = (case yydsEnabled s of Inl r \<Rightarrow> r | Inr sv \<Rightarrow> writeYYDS 200 (YydsDomains (ys_domains sv)))"

definition handleYYDSCreateAccount :: "compat_libs \<Rightarrow> compat_server \<Rightarrow> mailbox_service \<Rightarrow> compat_env \<Rightarrow> compat_request \<Rightarrow> compat_db \<Rightarrow> compat_response \<times> compat_db" where
  "handleYYDSCreateAccount X s mb xe q c =
     (case yydsEnabled s of
        Inl r \<Rightarrow> (r, c)
      | Inr sv \<Rightarrow>
          if \<not> he_allow (xe_http xe) then (writeYYDSError 429 ''rate_limit_slow_down'', c)
          else (case decodeYYDSJSON (Some \<lparr>yc_names = \<lparr>yr_address = [], yr_local = [], yr_domain = []\<rparr>, yc_wildcard = [], yc_subdomain = [], yc_label = []\<rparr>) (xq_yyds q) of
              Inl r \<Rightarrow> (r, c)
            | Inr request \<Rightarrow>
                if yc_wildcard request \<noteq> [] \<or> yc_subdomain request \<noteq> [] \<or> yc_label request \<noteq> []
                then (writeYYDSError 400 ''wildcard_rule_unavailable'', c)
                else (case compat_quota X s xe q c of
                   ((dec, err), c1) \<Rightarrow>
                     let answer = compat_headers (setCreateQuotaHeaders (xe_http xe) dec err) in
                     if err = Some ErrDailyCreateQuotaExceeded then (answer (writeYYDSError 429 ''daily_quota_exceeded''), c1)
                     else if err \<noteq> None then (answer (writeYYDSError 500 ''internal_error''), c1)
                     else (case yyds_CreateAccount (hl_sha256 (xl_http X)) (hl_canon (xl_http X)) mb (he_create (xe_http xe)) (yc_names request) c1 of
                         (Inl e, c2) \<Rightarrow> (answer (writeYYDSMappedError e), c2)
                       | (Inr created, c2) \<Rightarrow> (answer (writeYYDS 201 (YydsAccount (ci_inbox created) (is_plaintext (ci_capability created)))), c2)))))"

definition handleYYDSRefreshToken :: "compat_libs \<Rightarrow> compat_server \<Rightarrow> compat_env \<Rightarrow> compat_request \<Rightarrow> compat_db \<Rightarrow> compat_response \<times> compat_db" where
  "handleYYDSRefreshToken X s xe q c =
     (case yydsEnabled s of
        Inl r \<Rightarrow> (r, c)
      | Inr _ \<Rightarrow>
     (case yydsBearer q of
        Inl r \<Rightarrow> (r, c)
      | Inr plaintext \<Rightarrow>
     (case decodeYYDSJSON None (xq_refresh q) of
        Inl r \<Rightarrow> (r, c)
      | Inr address \<Rightarrow>
          if trim_space address = [] then (writeYYDSError 400 ''address_required'', c)
          else (case RefreshToken (hl_sha256 (xl_http X)) (hl_canon (xl_http X)) (xe_refresh xe) plaintext address (cm_db c) c of
              (Inl e, c1) \<Rightarrow> (writeYYDSMappedError e, c1)
            | (Inr (rotated, inbox), c1) \<Rightarrow> (writeYYDS 200 (YydsToken inbox (is_plaintext rotated)), c1)))))"

definition handleYYDSAccountMe :: "compat_libs \<Rightarrow> compat_server \<Rightarrow> compat_env \<Rightarrow> compat_request \<Rightarrow> compat_db \<Rightarrow> compat_response" where
  "handleYYDSAccountMe X s xe q c =
     (case yydsPrincipal X s xe q [ScopeInboxRead] c of
        Inl r \<Rightarrow> r
      | Inr p \<Rightarrow> (case read_Get X xe 0 (pc_inbox p) of Inl e \<Rightarrow> writeYYDSMappedError e | Inr inbox \<Rightarrow> writeYYDS 200 (YydsAccount inbox [])))"

definition handleYYDSAccount :: "compat_libs \<Rightarrow> compat_server \<Rightarrow> compat_env \<Rightarrow> compat_request \<Rightarrow> compat_db \<Rightarrow> compat_response \<times> compat_db" where
  "handleYYDSAccount X s xe q c =
     (let required = (if rq_method (xq_http q) = ''DELETE'' then ScopeInboxDelete else ScopeInboxRead) in
      case yydsPrincipal X s xe q [required] c of
        Inl r \<Rightarrow> (r, c)
      | Inr p \<Rightarrow>
          if rq_path (xq_http q) ''id'' \<noteq> pc_inbox p then (writeYYDSError 404 ''account_not_found'', c)
          else if rq_method (xq_http q) = ''DELETE'' then
            (case mailbox_Delete X xe (pc_inbox p) c of
               (Inl e, c1) \<Rightarrow> (writeYYDSMappedError e, c1)
             | (Inr _, c1) \<Rightarrow> (compat_no_content, c1))
          else (case read_Get X xe 0 (pc_inbox p) of
              Inl e \<Rightarrow> (writeYYDSMappedError e, c)
            | Inr inbox \<Rightarrow> (writeYYDS 200 (YydsAccount inbox []), c)))"

definition handleYYDSMessages :: "compat_libs \<Rightarrow> compat_server \<Rightarrow> compat_env \<Rightarrow> compat_request \<Rightarrow> compat_db \<Rightarrow> compat_response" where
  "handleYYDSMessages X s xe q c =
     (case yydsPrincipal X s xe q [ScopeMessageRead] c of
        Inl r \<Rightarrow> r
      | Inr p \<Rightarrow>
     (case yydsPage q of
        Inl r \<Rightarrow> r
      | Inr (limit, offset) \<Rightarrow>
     (case read_Get X xe 0 (pc_inbox p) of
        Inl e \<Rightarrow> writeYYDSMappedError e
      | Inr inbox \<Rightarrow>
     (case read_Page X xe 1 (pc_inbox p) limit offset of
        Inl e \<Rightarrow> writeYYDSMappedError e
      | Inr result \<Rightarrow> writeYYDS 200 (YydsMessages (map (\<lambda>x. presentYYDSSummary x inbox) (mp_items result)) (mp_total result) (mp_unread result))))))"

definition handleYYDSMessage :: "compat_libs \<Rightarrow> compat_server \<Rightarrow> compat_env \<Rightarrow> compat_request \<Rightarrow> compat_db \<Rightarrow> compat_response \<times> compat_db" where
  "handleYYDSMessage X s xe q c =
     (let mth = rq_method (xq_http q);
          required = (if mth = ''PATCH'' then ScopeMessageUpdate else if mth = ''DELETE'' then ScopeMessageDelete else ScopeMessageRead) in
      case yydsMessagePrincipal X s xe q required c of
        Inl r \<Rightarrow> (r, c)
      | Inr (p, messageID) \<Rightarrow>
          if mth = ''GET'' then
            (case read_Message X xe 0 (pc_inbox p) messageID of
               Inl e \<Rightarrow> (writeYYDSMappedError e, c)
             | Inr detail \<Rightarrow>
                 (case read_Get X xe 1 (pc_inbox p) of
                    Inl e \<Rightarrow> (writeYYDSMappedError e, c)
                  | Inr inbox \<Rightarrow> (writeYYDS 200 (YydsMessage (presentYYDSDetail detail inbox)), c)))
          else if mth = ''PATCH'' then
            (case decodeYYDSJSON (Some (None, None)) (xq_patch q) of
               Inl r \<Rightarrow> (r, c)
             | Inr (seen, starred) \<Rightarrow>
                 if starred \<noteq> None \<or> seen = Some False then (writeYYDSError 403 ''permission_denied'', c)
                 else (case mailbox_MarkSeen X xe (pc_inbox p) messageID c of
                     (Inl e, c1) \<Rightarrow> (writeYYDSMappedError e, c1)
                   | (Inr _, c1) \<Rightarrow> (writeYYDS 200 (YydsSeen messageID), c1)))
          else if mth = ''DELETE'' then
            (case mailbox_DeleteMessage X xe (pc_inbox p) messageID c of
               (Inl e, c1) \<Rightarrow> (writeYYDSMappedError e, c1)
             | (Inr _, c1) \<Rightarrow> (compat_no_content, c1))
          else (compat_silent, c))"

definition handleYYDSSource :: "compat_libs \<Rightarrow> compat_server \<Rightarrow> compat_env \<Rightarrow> compat_request \<Rightarrow> compat_db \<Rightarrow> compat_response" where
  "handleYYDSSource X s xe q c =
     (case yydsMessagePrincipal X s xe q ScopeMessageRead c of
        Inl r \<Rightarrow> r
      | Inr (p, messageID) \<Rightarrow>
          (case read_Source X xe 0 (pc_inbox p) messageID of
             Inl e \<Rightarrow> writeYYDSMappedError e
           | Inr (content, size') \<Rightarrow>
               let data = read_all_limited size' content in
               if int (length data) \<noteq> size' then writeYYDSError 500 ''message_source_read_failed''
               else writeYYDS 200 (YydsSource messageID data)))"

definition handleYYDSAttachment :: "compat_libs \<Rightarrow> compat_server \<Rightarrow> mailbox_service \<Rightarrow> compat_env \<Rightarrow> compat_request \<Rightarrow> compat_db \<Rightarrow> compat_response" where
  "handleYYDSAttachment X s mb xe q c =
     (case yydsMessagePrincipal X s xe q ScopeMessageRead c of
        Inl r \<Rightarrow> r
      | Inr (p, messageID) \<Rightarrow>
          (let L = xl_http X; env = xe_http xe in
           case service_OpenAttachment mb (hl_part L) (hl_canon L) (he_now env) (he_ctx env) (he_sflt env) (he_store env)
                  (pc_inbox p) messageID (rq_path (xq_http q) ''part'') (xe_flt xe 0) (xe_flt xe 1) (xe_db xe 0) of
             Inl e \<Rightarrow> writeYYDSMappedError e
           | Inr source \<Rightarrow>
               let contentType = (if hl_media_type_ok L (as_content_type source) then as_content_type source else ''application/octet-stream'') in
               \<lparr>xr_status = 200, xr_headers = stream_headers L contentType (as_file_name source) (as_size source), xr_body = XStream (as_stream source)\<rparr>))"

section \<open>Cloudflare Temp Email\<close>

definition cloudflareTempMaxPageItems :: int where "cloudflareTempMaxPageItems = 20"
definition cloudflareTempMaxPayloadBytes :: int where "cloudflareTempMaxPayloadBytes = 32 * 2 ^ 20"

definition errCloudflareTempPayloadTooLarge :: go_error where
  "errCloudflareTempPayloadTooLarge = OtherError ''Cloudflare Temp Email response payload is too large''"

definition writeCloudflareTempText :: "int \<Rightarrow> string \<Rightarrow> compat_response" where
  "writeCloudflareTempText status txt =
     \<lparr>xr_status = status, xr_headers = [(''Content-Type'', ''text/plain; charset=utf-8''), (''Cache-Control'', ''no-store'')], xr_body = CfText txt\<rparr>"

text \<open>\<^verbatim>\<open>errors.Is\<close> finds any of the joined errors.\<close>

definition writeCloudflareTempMappedErrors :: "go_error list \<Rightarrow> compat_response" where
  "writeCloudflareTempMappedErrors es =
     (if ErrUnauthenticated \<in> set es \<or> ErrForbidden \<in> set es then writeCloudflareTempText 401 ''Invalid address credential''
      else if ErrInvalidAddressName \<in> set es \<or> ErrInvalidDomain \<in> set es \<or> ErrInvalidLocalPart \<in> set es
        then writeCloudflareTempText 400 ''Failed to create address''
      else if ErrAddressConflict \<in> set es then writeCloudflareTempText 400 ''Address already exists''
      else if errCloudflareTempPayloadTooLarge \<in> set es
        then writeCloudflareTempText 413 ''Mail response exceeds the MailWisp compatibility limit''
      else if MailboxErrInboxNotFound \<in> set es then writeCloudflareTempText 400 ''Invalid address''
      else if ErrMessageNotFound \<in> set es then compat_json 200 XNull
      else writeCloudflareTempText 500 ''Internal server error'')"

abbreviation writeCloudflareTempMappedError :: "go_error \<Rightarrow> compat_response" where
  "writeCloudflareTempMappedError e \<equiv> writeCloudflareTempMappedErrors [e]"

definition writeCloudflareTempBoundedJSON :: "compat_libs \<Rightarrow> int \<Rightarrow> compat_body \<Rightarrow> compat_response" where
  "writeCloudflareTempBoundedJSON X status body =
     (if xl_json_size X body > cloudflareTempMaxPayloadBytes
      then writeCloudflareTempText 413 ''Mail response exceeds the MailWisp compatibility limit''
      else \<lparr>xr_status = status, xr_headers = json_headers @ [(''Content-Length'', format_int (xl_json_size X body))], xr_body = body\<rparr>)"

text \<open>\<^verbatim>\<open>http.NotFound\<close>\<close>

definition compat_not_found :: compat_response where
  "compat_not_found = \<lparr>xr_status = 404, xr_headers = [(''Content-Type'', ''text/plain; charset=utf-8''), (''X-Content-Type-Options'', ''nosniff'')],
     xr_body = CfText (''404 page not found'' @ [CHR 10])\<rparr>"

definition cloudflareTempEnabled :: "compat_server \<Rightarrow> compat_request \<Rightarrow> compat_response + cf_service" where
  "cloudflareTempEnabled s q =
     (let legacyPath = (\<not> has_prefix (xq_url q) ''/compat/cloudflare-temp/'') in
      case cs_cf s of
        None \<Rightarrow> Inl compat_not_found
      | Some sv \<Rightarrow> if legacyPath \<and> \<not> cs_legacy s then Inl compat_not_found else Inr sv)"

definition cloudflareTempPrincipal :: "compat_libs \<Rightarrow> compat_server \<Rightarrow> compat_env \<Rightarrow> compat_request \<Rightarrow> scope list \<Rightarrow> compat_db \<Rightarrow> compat_response + principal" where
  "cloudflareTempPrincipal X s xe q scopes c =
     (case cloudflareTempEnabled s q of
        Inl r \<Rightarrow> Inl r
      | Inr _ \<Rightarrow>
          (case bearer_text (xq_http q) of
             None \<Rightarrow> Inl (writeCloudflareTempText 401 ''Invalid address credential'')
           | Some plaintext \<Rightarrow>
               if \<not> hs_authenticator (cs_http s) then Inl (writeCloudflareTempText 401 ''Invalid address credential'')
               else (case compat_auth X xe plaintext scopes c of Inl e \<Rightarrow> Inl (writeCloudflareTempMappedError e) | Inr p \<Rightarrow> Inr p)))"

definition beginCloudflareTempHeavyRequest :: "compat_env \<Rightarrow> compat_response option" where
  "beginCloudflareTempHeavyRequest xe =
     (if xe_cf_heavy xe < 2 then None
      else Some (compat_headers [(''Retry-After'', ''1'')]
             (writeCloudflareTempText 503 ''Cloudflare Temp Email compatibility worker is busy'')))"

definition decodeCloudflareTempJSON :: "'a option \<Rightarrow> 'a json_body \<Rightarrow> compat_response + 'a" where
  "decodeCloudflareTempJSON fallback body =
     (case body of
        JsonOne v \<Rightarrow> Inr v
      | JsonEmpty \<Rightarrow> (case fallback of Some v \<Rightarrow> Inr v | None \<Rightarrow> Inl (writeCloudflareTempText 400 ''Invalid JSON body''))
      | _ \<Rightarrow> Inl (writeCloudflareTempText 400 ''Invalid JSON body''))"

definition cloudflareTempPage :: "compat_request \<Rightarrow> compat_response + int \<times> int" where
  "cloudflareTempPage q =
     (case parse_int64 (rq_query (xq_http q) ''limit'') of
        None \<Rightarrow> Inl (writeCloudflareTempText 400 ''Invalid limit'')
      | Some limit \<Rightarrow>
          if limit < 1 \<or> limit > cloudflareTempMaxPageItems then Inl (writeCloudflareTempText 400 ''Invalid limit'')
          else (case parse_int64 (rq_query (xq_http q) ''offset'') of
              None \<Rightarrow> Inl (writeCloudflareTempText 400 ''Invalid offset'')
            | Some offset \<Rightarrow>
                if offset < 0 \<or> offset > 100000 then Inl (writeCloudflareTempText 400 ''Invalid offset'') else Inr (limit, offset)))"

text \<open>\<^verbatim>\<open>Format("2006-01-02 15:04:05")\<close> of a UTC time: the civil date of a day count, and the time of day.\<close>

definition civil_date :: "int \<Rightarrow> int \<times> int \<times> int" where
  "civil_date days =
     (let z = days + 719468; era = z div 146097; doe = z mod 146097;
          yoe = (doe - doe div 1460 + doe div 36524 - doe div 146096) div 365;
          doy = doe - (365 * yoe + yoe div 4 - yoe div 100); mp = (5 * doy + 2) div 153;
          d = doy - (153 * mp + 2) div 5 + 1; m = (if mp < 10 then mp + 3 else mp - 9) in
      (yoe + era * 400 + (if m \<le> 2 then 1 else 0), m, d))"

definition pad_int :: "nat \<Rightarrow> int \<Rightarrow> string" where
  "pad_int w v = replicate (w - length (format_int v)) CHR ''0'' @ format_int v"

definition cloudflareTempTime :: "time \<Rightarrow> string" where
  "cloudflareTempTime t =
     (let secs = t div second_ns; (y, m, d) = civil_date (secs div 86400); sod = secs mod 86400 in
      pad_int 4 y @ ''-'' @ pad_int 2 m @ ''-'' @ pad_int 2 d @ '' '' @
      pad_int 2 (sod div 3600) @ '':'' @ pad_int 2 (sod mod 3600 div 60) @ '':'' @ pad_int 2 (sod mod 60))"

definition presentCloudflareTempRawMail :: "int \<Rightarrow> message_detail \<Rightarrow> string \<Rightarrow> bytes \<Rightarrow> cf_raw_mail" where
  "presentCloudflareTempRawMail compatibilityID x address raw =
     \<lparr>rm_id = compatibilityID, rm_message_id = de_message_id x, rm_source = su_sender x, rm_address = address, rm_raw = raw,
      rm_created = cloudflareTempTime (su_received x)\<rparr>"

definition cloudflareTempSender :: "message_detail \<Rightarrow> string" where
  "cloudflareTempSender x =
     (case de_from x of
        [] \<Rightarrow> su_sender x
      | a # _ \<Rightarrow> if addr_name a = [] then addr_address a else addr_name a @ '' <'' @ addr_address a @ ''>'')"

definition presentCloudflareTempParsedMail :: "int \<Rightarrow> message_detail \<Rightarrow> string \<Rightarrow> cf_parsed_mail" where
  "presentCloudflareTempParsedMail compatibilityID x address =
     \<lparr>pm_id = compatibilityID, pm_message_id = de_message_id x, pm_source = su_sender x, pm_address = address,
      pm_created = cloudflareTempTime (su_received x), pm_sender = cloudflareTempSender x, pm_subject = su_subject x,
      pm_text = de_text x, pm_html = de_html x,
      pm_attachments = map (\<lambda>a. \<lparr>dt_id = [], dt_filename = att_file_name a, dt_content_type = att_content_type a,
        dt_disposition = att_disposition a, dt_size = att_size a\<rparr>) (de_attachments x)\<rparr>"

definition parsed_payload :: "cf_parsed_mail \<Rightarrow> int" where
  "parsed_payload m = int (length (pm_text m) + length (pm_html m) + length (pm_subject m) + length (pm_sender m))"

definition cloudflareTempMessageID :: "compat_libs \<Rightarrow> compat_env \<Rightarrow> compat_request \<Rightarrow> string \<Rightarrow> compat_db \<Rightarrow> (int \<times> string) option result" where
  "cloudflareTempMessageID X xe q inboxID c =
     (case parse_int64 (rq_path (xq_http q) ''id'') of
        None \<Rightarrow> Inr None
      | Some n \<Rightarrow>
          if n \<le> 0 then Inr None
          else (case FindMessageID (hl_canon (xl_http X)) inboxID n (he_flt (xe_http xe)) c of
              Inl e \<Rightarrow> if e = ErrMessageIDNotFound then Inr None else Inl e
            | Inr messageID \<Rightarrow> Inr (Some (n, messageID))))"

text \<open>The raw message and the new number of payload bytes.\<close>

definition readCloudflareTempRaw :: "compat_libs \<Rightarrow> compat_env \<Rightarrow> nat \<Rightarrow> string \<Rightarrow> string \<Rightarrow> int \<Rightarrow> (bytes \<times> int) result" where
  "readCloudflareTempRaw X xe k inboxID messageID payload =
     (case read_Source X xe k inboxID messageID of
        Inl e \<Rightarrow> Inl e
      | Inr (content, size') \<Rightarrow>
          if size' < 0 \<or> size' > cloudflareTempMaxPayloadBytes - payload then Inl errCloudflareTempPayloadTooLarge
          else let data = read_all_limited size' content in
            if int (length data) \<noteq> size' then Inl (OtherError ''Cloudflare Temp Email Raw MIME size mismatch'')
            else Inr (data, payload + int (length data)))"

definition cloudflareTempMessagePage :: "compat_libs \<Rightarrow> compat_env \<Rightarrow> string \<Rightarrow> int \<Rightarrow> int \<Rightarrow> compat_db \<Rightarrow>
    (compat_response + inbox \<times> message_page \<times> (string \<rightharpoonup> int)) \<times> compat_db" where
  "cloudflareTempMessagePage X xe inboxID limit offset c =
     (case read_Get X xe 0 inboxID of
        Inl e \<Rightarrow> (Inl (writeCloudflareTempMappedError e), c)
      | Inr inbox \<Rightarrow>
     (case read_Page X xe 1 inboxID limit offset of
        Inl e \<Rightarrow> (Inl (writeCloudflareTempMappedError e), c)
      | Inr result \<Rightarrow>
     (case EnsureMessageIDs (hl_canon (xl_http X)) (xe_newid xe) inboxID (map su_id (mp_items result)) (he_txflt (xe_http xe)) c of
        (Inl e, c1) \<Rightarrow> (Inl (writeCloudflareTempMappedError e), c1)
      | (Inr ids, c1) \<Rightarrow> (Inr (inbox, result, ids), c1))))"

text \<open>The loops over a page; a Go map yields 0 for a missing key.\<close>

fun raw_mails :: "compat_libs \<Rightarrow> compat_env \<Rightarrow> nat \<Rightarrow> string \<Rightarrow> inbox \<Rightarrow> (string \<rightharpoonup> int) \<Rightarrow> int \<Rightarrow> message_summary list \<Rightarrow> cf_raw_mail list result" where
  "raw_mails X xe k inboxID inbox ids payload [] = Inr []"
| "raw_mails X xe k inboxID inbox ids payload (x # xs) =
     (case read_Message X xe k inboxID (su_id x) of
        Inl e \<Rightarrow> Inl e
      | Inr detail \<Rightarrow>
     (case readCloudflareTempRaw X xe (Suc k) inboxID (su_id x) payload of
        Inl e \<Rightarrow> Inl e
      | Inr (raw, payload') \<Rightarrow>
     (case raw_mails X xe (k + 2) inboxID inbox ids payload' xs of
        Inl e \<Rightarrow> Inl e
      | Inr mails \<Rightarrow>
          Inr (presentCloudflareTempRawMail (case ids (su_id x) of None \<Rightarrow> 0 | Some n \<Rightarrow> n) detail (in_address inbox) raw # mails))))"

fun parsed_mails :: "compat_libs \<Rightarrow> compat_env \<Rightarrow> nat \<Rightarrow> string \<Rightarrow> inbox \<Rightarrow> (string \<rightharpoonup> int) \<Rightarrow> int \<Rightarrow> message_summary list \<Rightarrow> cf_parsed_mail list result" where
  "parsed_mails X xe k inboxID inbox ids payload [] = Inr []"
| "parsed_mails X xe k inboxID inbox ids payload (x # xs) =
     (case read_Message X xe k inboxID (su_id x) of
        Inl e \<Rightarrow> Inl e
      | Inr detail \<Rightarrow>
          let parsed = presentCloudflareTempParsedMail (case ids (su_id x) of None \<Rightarrow> 0 | Some n \<Rightarrow> n) detail (in_address inbox);
              payload' = payload + parsed_payload parsed in
          if payload' > cloudflareTempMaxPayloadBytes then Inl errCloudflareTempPayloadTooLarge
          else (case parsed_mails X xe (Suc k) inboxID inbox ids payload' xs of
              Inl e \<Rightarrow> Inl e
            | Inr mails \<Rightarrow> Inr (parsed # mails)))"

definition handleCloudflareTempOpenSettings :: "compat_server \<Rightarrow> compat_request \<Rightarrow> compat_response" where
  "handleCloudflareTempOpenSettings s q =
     (case cloudflareTempEnabled s q of Inl r \<Rightarrow> r | Inr sv \<Rightarrow> compat_json 200 (CfOpenSettings (fs_domains sv)))"

definition handleCloudflareTempUserOpenSettings :: "compat_server \<Rightarrow> compat_request \<Rightarrow> compat_response" where
  "handleCloudflareTempUserOpenSettings s q =
     (case cloudflareTempEnabled s q of Inl r \<Rightarrow> r | Inr _ \<Rightarrow> compat_json 200 CfUserOpenSettings)"

definition handleCloudflareTempCreateAddress :: "compat_libs \<Rightarrow> compat_server \<Rightarrow> mailbox_service \<Rightarrow> compat_env \<Rightarrow> compat_request \<Rightarrow> compat_db \<Rightarrow> compat_response \<times> compat_db" where
  "handleCloudflareTempCreateAddress X s mb xe q c =
     (case cloudflareTempEnabled s q of
        Inl r \<Rightarrow> (r, c)
      | Inr _ \<Rightarrow>
          if \<not> he_allow (xe_http xe) then (writeCloudflareTempText 429 ''Rate limit exceeded'', c)
          else (case decodeCloudflareTempJSON (Some \<lparr>fc_name = [], fc_domain = [], fc_random = False\<rparr>) (xq_cf q) of
              Inl r \<Rightarrow> (r, c)
            | Inr request \<Rightarrow>
                if fc_random request then (writeCloudflareTempText 400 ''Random subdomain is not supported'', c)
                else (case compat_quota X s xe q c of
                   ((dec, err), c1) \<Rightarrow>
                     let answer = compat_headers (setCreateQuotaHeaders (xe_http xe) dec err) in
                     if err = Some ErrDailyCreateQuotaExceeded then (answer (writeCloudflareTempText 429 ''Daily address quota exceeded''), c1)
                     else if err \<noteq> None then (answer (writeCloudflareTempText 500 ''Persistent address admission failed''), c1)
                     else (case CreateAddress (hl_sha256 (xl_http X)) (hl_canon (xl_http X)) mb (xe_cf xe) (fc_name request) (fc_domain request) c1 of
                         (Inl es, c2) \<Rightarrow> (answer (writeCloudflareTempMappedErrors es), c2)
                       | (Inr a, c2) \<Rightarrow>
                           (answer (compat_json 200 (CfAddress (is_plaintext (ad_capability a)) (in_address (ad_inbox a)) (ad_id a))), c2)))))"

definition handleCloudflareTempSettings :: "compat_libs \<Rightarrow> compat_server \<Rightarrow> compat_env \<Rightarrow> compat_request \<Rightarrow> compat_db \<Rightarrow> compat_response" where
  "handleCloudflareTempSettings X s xe q c =
     (case cloudflareTempPrincipal X s xe q [ScopeInboxRead] c of
        Inl r \<Rightarrow> r
      | Inr p \<Rightarrow>
          (case read_Get X xe 0 (pc_inbox p) of
             Inl e \<Rightarrow> writeCloudflareTempMappedError e
           | Inr inbox \<Rightarrow> compat_json 200 (CfSettings (in_address inbox))))"

definition handleCloudflareTempRawMails :: "compat_libs \<Rightarrow> compat_server \<Rightarrow> compat_env \<Rightarrow> compat_request \<Rightarrow> compat_db \<Rightarrow> compat_response \<times> compat_db" where
  "handleCloudflareTempRawMails X s xe q c =
     (case cloudflareTempPrincipal X s xe q [ScopeMessageRead] c of
        Inl r \<Rightarrow> (r, c)
      | Inr p \<Rightarrow>
     (case beginCloudflareTempHeavyRequest xe of
        Some busy \<Rightarrow> (busy, c)
      | None \<Rightarrow>
     (case cloudflareTempPage q of
        Inl r \<Rightarrow> (r, c)
      | Inr (limit, offset) \<Rightarrow>
     (case cloudflareTempMessagePage X xe (pc_inbox p) limit offset c of
        (Inl r, c1) \<Rightarrow> (r, c1)
      | (Inr (inbox, result, ids), c1) \<Rightarrow>
     (case raw_mails X xe 3 (pc_inbox p) inbox ids 0 (mp_items result) of
        Inl e \<Rightarrow> (writeCloudflareTempMappedError e, c1)
      | Inr results \<Rightarrow>
          (writeCloudflareTempBoundedJSON X 200 (CfRawMails results (if offset = 0 then mp_total result else 0)), c1))))))"

definition handleCloudflareTempParsedMails :: "compat_libs \<Rightarrow> compat_server \<Rightarrow> compat_env \<Rightarrow> compat_request \<Rightarrow> compat_db \<Rightarrow> compat_response \<times> compat_db" where
  "handleCloudflareTempParsedMails X s xe q c =
     (case cloudflareTempPrincipal X s xe q [ScopeMessageRead] c of
        Inl r \<Rightarrow> (r, c)
      | Inr p \<Rightarrow>
     (case beginCloudflareTempHeavyRequest xe of
        Some busy \<Rightarrow> (busy, c)
      | None \<Rightarrow>
     (case cloudflareTempPage q of
        Inl r \<Rightarrow> (r, c)
      | Inr (limit, offset) \<Rightarrow>
     (case cloudflareTempMessagePage X xe (pc_inbox p) limit offset c of
        (Inl r, c1) \<Rightarrow> (r, c1)
      | (Inr (inbox, result, ids), c1) \<Rightarrow>
     (case parsed_mails X xe 3 (pc_inbox p) inbox ids 0 (mp_items result) of
        Inl e \<Rightarrow> (writeCloudflareTempMappedError e, c1)
      | Inr results \<Rightarrow>
          (writeCloudflareTempBoundedJSON X 200 (CfParsedMails results (if offset = 0 then mp_total result else 0)), c1))))))"

definition handleCloudflareTempRawMail :: "compat_libs \<Rightarrow> compat_server \<Rightarrow> compat_env \<Rightarrow> compat_request \<Rightarrow> compat_db \<Rightarrow> compat_response" where
  "handleCloudflareTempRawMail X s xe q c =
     (case cloudflareTempPrincipal X s xe q [ScopeMessageRead] c of
        Inl r \<Rightarrow> r
      | Inr p \<Rightarrow>
     (case beginCloudflareTempHeavyRequest xe of
        Some busy \<Rightarrow> busy
      | None \<Rightarrow>
     (case cloudflareTempMessageID X xe q (pc_inbox p) c of
        Inl e \<Rightarrow> writeCloudflareTempMappedError e
      | Inr None \<Rightarrow> compat_json 200 XNull
      | Inr (Some (n, messageID)) \<Rightarrow>
     (case read_Get X xe 0 (pc_inbox p) of
        Inl e \<Rightarrow> writeCloudflareTempMappedError e
      | Inr inbox \<Rightarrow>
     (case read_Message X xe 1 (pc_inbox p) messageID of
        Inl e \<Rightarrow> if e = ErrMessageNotFound then compat_json 200 XNull else writeCloudflareTempMappedError e
      | Inr detail \<Rightarrow>
     (case readCloudflareTempRaw X xe 2 (pc_inbox p) messageID 0 of
        Inl e \<Rightarrow> writeCloudflareTempMappedError e
      | Inr (raw, _) \<Rightarrow>
          writeCloudflareTempBoundedJSON X 200 (CfRawMail (presentCloudflareTempRawMail n detail (in_address inbox) raw))))))))"

definition handleCloudflareTempParsedMail :: "compat_libs \<Rightarrow> compat_server \<Rightarrow> compat_env \<Rightarrow> compat_request \<Rightarrow> compat_db \<Rightarrow> compat_response" where
  "handleCloudflareTempParsedMail X s xe q c =
     (case cloudflareTempPrincipal X s xe q [ScopeMessageRead] c of
        Inl r \<Rightarrow> r
      | Inr p \<Rightarrow>
     (case beginCloudflareTempHeavyRequest xe of
        Some busy \<Rightarrow> busy
      | None \<Rightarrow>
     (case cloudflareTempMessageID X xe q (pc_inbox p) c of
        Inl e \<Rightarrow> writeCloudflareTempMappedError e
      | Inr None \<Rightarrow> compat_json 200 XNull
      | Inr (Some (n, messageID)) \<Rightarrow>
     (case read_Get X xe 0 (pc_inbox p) of
        Inl e \<Rightarrow> writeCloudflareTempMappedError e
      | Inr inbox \<Rightarrow>
     (case read_Message X xe 1 (pc_inbox p) messageID of
        Inl e \<Rightarrow> if e = ErrMessageNotFound then compat_json 200 XNull else writeCloudflareTempMappedError e
      | Inr detail \<Rightarrow>
          let parsed = presentCloudflareTempParsedMail n detail (in_address inbox) in
          if parsed_payload parsed > cloudflareTempMaxPayloadBytes then writeCloudflareTempMappedError errCloudflareTempPayloadTooLarge
          else writeCloudflareTempBoundedJSON X 200 (CfParsedMail parsed))))))"

definition handleCloudflareTempDeleteMail :: "compat_libs \<Rightarrow> compat_server \<Rightarrow> compat_env \<Rightarrow> compat_request \<Rightarrow> compat_db \<Rightarrow> compat_response \<times> compat_db" where
  "handleCloudflareTempDeleteMail X s xe q c =
     (case cloudflareTempPrincipal X s xe q [ScopeMessageDelete] c of
        Inl r \<Rightarrow> (r, c)
      | Inr p \<Rightarrow>
     (case cloudflareTempMessageID X xe q (pc_inbox p) c of
        Inl e \<Rightarrow> (writeCloudflareTempMappedError e, c)
      | Inr None \<Rightarrow> (compat_json 200 CfSuccess, c)
      | Inr (Some (_, messageID)) \<Rightarrow>
          (case mailbox_DeleteMessage X xe (pc_inbox p) messageID c of
             (Inl e, c1) \<Rightarrow> if e \<noteq> ErrMessageNotFound then (writeCloudflareTempMappedError e, c1) else (compat_json 200 CfSuccess, c1)
           | (Inr _, c1) \<Rightarrow> (compat_json 200 CfSuccess, c1))))"

definition handleCloudflareTempDeleteAddress :: "compat_libs \<Rightarrow> compat_server \<Rightarrow> compat_env \<Rightarrow> compat_request \<Rightarrow> compat_db \<Rightarrow> compat_response \<times> compat_db" where
  "handleCloudflareTempDeleteAddress X s xe q c =
     (case cloudflareTempPrincipal X s xe q [ScopeInboxDelete] c of
        Inl r \<Rightarrow> (r, c)
      | Inr p \<Rightarrow>
          (case mailbox_Delete X xe (pc_inbox p) c of
             (Inl e, c1) \<Rightarrow> (writeCloudflareTempMappedError e, c1)
           | (Inr _, c1) \<Rightarrow> (compat_json 200 CfSuccess, c1)))"

section \<open>Routes\<close>

datatype compat_route =
    DuckDomainsRoute | DuckCreate | DuckTokenRoute | DuckMe | DuckDelete | DuckList | DuckRead | DuckPatch | DuckDrop | DuckRaw
  | YydsDomainsRoute | YydsCreate | YydsRefresh | YydsMe | YydsAccountRoute | YydsList | YydsMessageRoute | YydsRaw | YydsPart
  | CfOpen | CfUserOpen | CfCreate | CfSettingsRoute | CfRawList | CfRaw | CfParsedList | CfParsed | CfDrop | CfDelete

fun compat_serve :: "compat_libs \<Rightarrow> compat_server \<Rightarrow> mailbox_service \<Rightarrow> compat_env \<Rightarrow> compat_route \<Rightarrow> compat_request \<Rightarrow> compat_db \<Rightarrow> compat_response \<times> compat_db" where
  "compat_serve X s mb xe DuckDomainsRoute q c = (handleDuckMailDomains s q, c)"
| "compat_serve X s mb xe DuckCreate q c = handleDuckMailCreateAccount X s xe q c"
| "compat_serve X s mb xe DuckTokenRoute q c = handleDuckMailToken X s xe q c"
| "compat_serve X s mb xe DuckMe q c = (handleDuckMailMe X s xe q c, c)"
| "compat_serve X s mb xe DuckDelete q c = handleDuckMailDeleteAccount X s xe q c"
| "compat_serve X s mb xe DuckList q c = (handleDuckMailMessages X s xe q c, c)"
| "compat_serve X s mb xe DuckRead q c = (handleDuckMailMessage X s xe q c, c)"
| "compat_serve X s mb xe DuckPatch q c = handleDuckMailSeen X s xe q c"
| "compat_serve X s mb xe DuckDrop q c = handleDuckMailDeleteMessage X s xe q c"
| "compat_serve X s mb xe DuckRaw q c = (handleDuckMailSource X s xe q c, c)"
| "compat_serve X s mb xe YydsDomainsRoute q c = (handleYYDSDomains s, c)"
| "compat_serve X s mb xe YydsCreate q c = handleYYDSCreateAccount X s mb xe q c"
| "compat_serve X s mb xe YydsRefresh q c = handleYYDSRefreshToken X s xe q c"
| "compat_serve X s mb xe YydsMe q c = (handleYYDSAccountMe X s xe q c, c)"
| "compat_serve X s mb xe YydsAccountRoute q c = handleYYDSAccount X s xe q c"
| "compat_serve X s mb xe YydsList q c = (handleYYDSMessages X s xe q c, c)"
| "compat_serve X s mb xe YydsMessageRoute q c = handleYYDSMessage X s xe q c"
| "compat_serve X s mb xe YydsRaw q c = (handleYYDSSource X s xe q c, c)"
| "compat_serve X s mb xe YydsPart q c = (handleYYDSAttachment X s mb xe q c, c)"
| "compat_serve X s mb xe CfOpen q c = (handleCloudflareTempOpenSettings s q, c)"
| "compat_serve X s mb xe CfUserOpen q c = (handleCloudflareTempUserOpenSettings s q, c)"
| "compat_serve X s mb xe CfCreate q c = handleCloudflareTempCreateAddress X s mb xe q c"
| "compat_serve X s mb xe CfSettingsRoute q c = (handleCloudflareTempSettings X s xe q c, c)"
| "compat_serve X s mb xe CfRawList q c = handleCloudflareTempRawMails X s xe q c"
| "compat_serve X s mb xe CfRaw q c = (handleCloudflareTempRawMail X s xe q c, c)"
| "compat_serve X s mb xe CfParsedList q c = handleCloudflareTempParsedMails X s xe q c"
| "compat_serve X s mb xe CfParsed q c = (handleCloudflareTempParsedMail X s xe q c, c)"
| "compat_serve X s mb xe CfDrop q c = handleCloudflareTempDeleteMail X s xe q c"
| "compat_serve X s mb xe CfDelete q c = handleCloudflareTempDeleteAddress X s xe q c"

end
