(* ===== verification/Compat_Security.thy ===== *)
theory Compat_Security
  imports Compat_Http
begin

text \<open>
  What the compatibility adapters guarantee over HTTP: a request changes only what belongs to the Inbox of
  its credential, and all ways to create an Inbox share one daily limit per client address.
\<close>

section \<open>Changes\<close>

text \<open>The rows of every Inbox but \<open>i\<close> are as they were, in the tables of the adapters as well.\<close>

definition compat_spares :: "string \<Rightarrow> compat_db \<Rightarrow> compat_db \<Rightarrow> bool" where
  "compat_spares i c c' \<longleftrightarrow>
     spares i (cm_db c) (cm_db c') \<and>
     filter (\<lambda>r. cd_inbox r \<noteq> i) (cm_credentials c') = filter (\<lambda>r. cd_inbox r \<noteq> i) (cm_credentials c) \<and>
     filter (\<lambda>r. fi_inbox r \<noteq> i) (cm_inbox_ids c') = filter (\<lambda>r. fi_inbox r \<noteq> i) (cm_inbox_ids c) \<and>
     filter (\<lambda>r. fm_inbox r \<noteq> i) (cm_message_ids c') = filter (\<lambda>r. fm_inbox r \<noteq> i) (cm_message_ids c)"

definition compat_change :: "compat_libs \<Rightarrow> string \<Rightarrow> compat_db \<Rightarrow> compat_db \<Rightarrow> bool" where
  "compat_change X u c c' \<longleftrightarrow>
     c' = c \<or> (\<exists>i. hl_canon (xl_http X) u = Some i \<and> compat_spares i c c') \<and> compat_wf c' \<and> contents_referenced (cm_db c')"

lemma compat_change_refl [simp]: "compat_change X u c c"
  by (simp add: compat_change_def)

lemma spares_inbox: "spares i d d' \<Longrightarrow> j \<noteq> i \<Longrightarrow> j \<in> inbox_keys_of d \<Longrightarrow> j \<in> inbox_keys_of d'"
proof -
  assume "spares i d d'" and j: "j \<noteq> i" "j \<in> inbox_keys_of d"
  then have "set (filter (\<lambda>r. ib_id r \<noteq> i) (inboxes d')) = set (filter (\<lambda>r. ib_id r \<noteq> i) (inboxes d))" by (simp add: spares_def)
  with j show ?thesis by auto
qed

lemma spares_message: "spares i d d' \<Longrightarrow> ms_inbox m \<noteq> i \<Longrightarrow> m \<in> set (messages d) \<longleftrightarrow> m \<in> set (messages d')"
proof -
  assume "spares i d d'" and m: "ms_inbox m \<noteq> i"
  then have "set (filter (\<lambda>r. ms_inbox r \<noteq> i) (messages d')) = set (filter (\<lambda>r. ms_inbox r \<noteq> i) (messages d))" by (simp add: spares_def)
  with m show ?thesis by auto
qed

lemma spares_stay:
  assumes "db_wf d" and "db_wf d'" and "spares i d d'"
  shows "messages_stay d d'"
  unfolding messages_stay_def
proof (intro ballI impI)
  fix m m' assume m: "m \<in> set (messages d)" "m' \<in> set (messages d')" "ms_id m' = ms_id m"
  have inj: "inj_on ms_id (set (messages d))" "inj_on ms_id (set (messages d'))"
    using assms(1,2) by (simp_all add: db_wf_def wf_messages_def distinct_map)
  show "ms_inbox m' = ms_inbox m"
    using m inj spares_message [OF assms(3), of m] spares_message [OF assms(3), of m']
    by (cases "ms_inbox m = i"; cases "ms_inbox m' = i") (auto dest: inj_onD)
qed

lemma cascade_spares:
  assumes "compat_wf c" and "db_wf d'" and "spares i (cm_db c) d'"
  shows "compat_wf (cascade d' c) \<and> compat_spares i c (cascade d' c)"
proof -
  have w: "db_wf (cm_db c)" using assms(1) by (simp add: compat_wf_def)
  have cd: "cd_inbox r \<in> inbox_keys_of d'" if "r \<in> set (cm_credentials c)" "cd_inbox r \<noteq> i" for r
    using that assms(1) spares_inbox [OF assms(3)] by (auto simp: compat_wf_def wf_credentials_def list_all_iff)
  have fi: "fi_inbox r \<in> inbox_keys_of d'" if "r \<in> set (cm_inbox_ids c)" "fi_inbox r \<noteq> i" for r
    using that assms(1) spares_inbox [OF assms(3)] by (auto simp: compat_wf_def wf_inbox_ids_def list_all_iff)
  have fm: "fm_inbox r \<in> inbox_keys_of d' \<and> fm_message r \<in> message_keys_of d'" if r: "r \<in> set (cm_message_ids c)" "fm_inbox r \<noteq> i" for r
  proof -
    obtain m where m: "m \<in> set (messages (cm_db c))" "ms_id m = fm_message r" "ms_inbox m = fm_inbox r" "fm_inbox r \<in> inbox_keys_of (cm_db c)"
      using message_id_row [OF assms(1) r(1)] by metis
    then have "m \<in> set (messages d')" using spares_message [OF assms(3), of m] r(2) by simp
    then show ?thesis using m(2) spares_inbox [OF assms(3) r(2) m(4)] by (metis imageI)
  qed
  have "compat_spares i c (cascade d' c)"
    unfolding compat_spares_def cascade_def using assms(3) cd fi fm by (auto intro!: filter_cong)
  then show ?thesis using cascade_wf [OF assms(1,2) spares_stay [OF w assms(2,3)]] by simp
qed

lemma on_db_change:
  assumes "compat_wf c" and "contents_referenced (cm_db c)" and "on_db f c = (r, c')"
    and "\<And>r d'. f (cm_db c) = (r, d') \<Longrightarrow> d' \<noteq> cm_db c \<Longrightarrow> inbox_change (hl_canon (xl_http X)) u (cm_db c) d'"
  shows "compat_change X u c c'"
proof -
  obtain d' where d': "f (cm_db c) = (r, d')" "c' = cascade d' c" using assms(3) by (auto simp: on_db_def split: prod.splits)
  show ?thesis
  proof (cases "d' = cm_db c")
    case True
    then show ?thesis using d' cascade_keeps [OF assms(1), of d'] by simp
  next
    case False
    then show ?thesis using assms(4) [OF d'(1)] cascade_spares [OF assms(1)] d'(2) by (auto simp: inbox_change_def compat_change_def)
  qed
qed

lemma mailbox_changes:
  assumes "compat_wf c" and "contents_referenced (cm_db c)"
  shows "mailbox_Delete X xe u c = (r, c') \<Longrightarrow> compat_change X u c c'"
    and "mailbox_DeleteMessage X xe u mid c = (r, c') \<Longrightarrow> compat_change X u c c'"
    and "mailbox_MarkSeen X xe u mid c = (r, c') \<Longrightarrow> compat_change X u c c'"
proof -
  have w: "db_wf (cm_db c)" using assms(1) by (simp add: compat_wf_def)
  note change = service_changes [OF w assms(2)]
  show "mailbox_Delete X xe u c = (r, c') \<Longrightarrow> compat_change X u c c'"
    unfolding mailbox_Delete_def Let_def by (rule on_db_change [OF assms]) (auto intro: change)
  show "mailbox_DeleteMessage X xe u mid c = (r, c') \<Longrightarrow> compat_change X u c c'"
    unfolding mailbox_DeleteMessage_def Let_def by (rule on_db_change [OF assms]) (auto intro: change)
  show "mailbox_MarkSeen X xe u mid c = (r, c') \<Longrightarrow> compat_change X u c c'"
    unfolding mailbox_MarkSeen_def Let_def by (rule on_db_change [OF assms]) (auto intro: change)
qed

section \<open>Assigning identifiers\<close>

text \<open>\<open>own_ids i c c'\<close>: only message identifiers of Inbox \<open>i\<close> were assigned.\<close>

definition own_ids :: "string \<Rightarrow> compat_db \<Rightarrow> compat_db \<Rightarrow> bool" where
  "own_ids i c c' \<longleftrightarrow>
     compat_wf c' \<and> cm_db c' = cm_db c \<and> cm_credentials c' = cm_credentials c \<and> cm_inbox_ids c' = cm_inbox_ids c \<and>
     filter (\<lambda>r. fm_inbox r \<noteq> i) (cm_message_ids c') = filter (\<lambda>r. fm_inbox r \<noteq> i) (cm_message_ids c)"

interpretation ids: db_invariant "own_ids i c" for i c .

lemma ids_insert:
  assumes "own_ids i c x" and "sql_insert_message_id newid i m x = Inr (r, x')"
  shows "own_ids i c x'"
proof -
  have "compat_wf x'" using sql_insert_message_id_grows [OF _ assms(2)] assms(1) by (simp add: own_ids_def ids_grow_def)
  moreover have "cm_db x' = cm_db x \<and> cm_credentials x' = cm_credentials x \<and> cm_inbox_ids x' = cm_inbox_ids x \<and>
    filter (\<lambda>r. fm_inbox r \<noteq> i) (cm_message_ids x') = filter (\<lambda>r. fm_inbox r \<noteq> i) (cm_message_ids x)"
    using assms(2) by (auto simp: sql_insert_message_id_def split: if_splits)
  ultimately show ?thesis using assms(1) by (simp add: own_ids_def)
qed

lemma ensure_keeps:
  assumes "canon inboxID = Some i"
  shows "ids.keeps i c (ensureCloudflareTempMessageID canon newid inboxID messageID)"
proof -
  have q: "ids.keeps i c (stmt f (with_uuids canon inboxID messageID (\<lambda>i m. query (message_id_of i m))))" for f
    by (rule ids.keeps_stmt) (auto simp: with_uuids_Inr query_def)
  have ins: "ids.keeps i c (stmt f (with_uuids canon inboxID messageID (sql_insert_message_id newid)))" for f
    by (rule ids.keeps_stmt) (auto simp: with_uuids_Inr assms intro: ids_insert)
  show ?thesis unfolding ensureCloudflareTempMessageID_def
    by (auto intro!: ids.keeps_bind ids.keeps_return ids.keeps_fail q ins split: option.split)
qed

lemma ensure_uuid:
  "ensureCloudflareTempMessageID canon newid inboxID messageID flt s = (Inr n, s') \<Longrightarrow> canon inboxID \<noteq> None"
  unfolding ensureCloudflareTempMessageID_def tx_bind_Inr by (auto dest!: stmt_uuids)

lemma EnsureMessageIDs_own:
  assumes "compat_wf c" and "EnsureMessageIDs canon newid inboxID mids flt c = (r, c')"
  shows "c' = c \<or> (\<exists>i. canon inboxID = Some i \<and> own_ids i c c')"
proof (cases "canon inboxID")
  case None
  have "c' = c" if "run_tx (tx_map (\<lambda>(k, m). ensureCloudflareTempMessageID canon (newid k) inboxID m) (enumerate 0 mids)) flt c = (q, c')"
    and ne: "mids \<noteq> []" for q
    using that(1)
  proof (cases rule: run_tx_cases)
    case (Done x n)
    obtain mid mids' where "mids = mid # mids'" using ne by (cases mids) auto
    then show ?thesis using Done(1) None by (auto simp: tx_bind_Inr dest!: ensure_uuid)
  qed simp
  then show ?thesis using assms(2) by (auto simp: EnsureMessageIDs_def split: prod.splits sum.splits if_splits)
next
  case (Some i)
  have same: "own_ids i c c" using assms(1) by (simp add: own_ids_def)
  have "ids.keeps i c (tx_map (\<lambda>(k, m). ensureCloudflareTempMessageID canon (newid k) inboxID m) (enumerate 0 mids))"
    by (rule ids.keeps_map) (auto intro: ensure_keeps [of canon inboxID i, OF Some])
  from ids.run_tx_keeps [OF this same, of flt] show ?thesis
    using assms(2) Some same by (auto simp: EnsureMessageIDs_def split: prod.splits sum.splits if_splits)
qed

lemma own_ids_change:
  assumes "contents_referenced (cm_db c)" and "hl_canon (xl_http X) u = Some i" and "own_ids i c c'"
  shows "compat_change X u c c'"
  using assms by (auto simp: compat_change_def own_ids_def compat_spares_def spares_def)

lemma EnsureMessageIDs_change:
  assumes "compat_wf c" and "contents_referenced (cm_db c)" and "EnsureMessageIDs (hl_canon (xl_http X)) newid u mids flt c = (r, c')"
  shows "compat_change X u c c'"
  using EnsureMessageIDs_own [OF assms(1,3)] own_ids_change [OF assms(2)] by auto

section \<open>Credentials\<close>

text \<open>A request carries a bearer that authenticates for a scope.\<close>

definition bearer_credential :: "compat_libs \<Rightarrow> compat_env \<Rightarrow> compat_request \<Rightarrow> scope \<Rightarrow> compat_db \<Rightarrow> principal \<Rightarrow> bool" where
  "bearer_credential X xe q sc c p \<longleftrightarrow> (\<exists>plaintext. bearer_text (xq_http q) = Some plaintext \<and> compat_auth X xe plaintext [sc] c = Inr p)"

lemma duckPrincipal_credential: "duckPrincipal X s xe q [sc] c = Inr p \<Longrightarrow> bearer_credential X xe q sc c p"
  by (auto simp: duckPrincipal_def bearer_credential_def split: sum.splits option.splits if_splits)

lemma yydsPrincipal_credential: "yydsPrincipal X s xe q [sc] c = Inr p \<Longrightarrow> bearer_credential X xe q sc c p"
  by (auto simp: yydsPrincipal_def yydsBearer_def bearer_credential_def split: sum.splits option.splits if_splits)

lemma cloudflareTempPrincipal_credential: "cloudflareTempPrincipal X s xe q [sc] c = Inr p \<Longrightarrow> bearer_credential X xe q sc c p"
  by (auto simp: cloudflareTempPrincipal_def bearer_credential_def split: sum.splits option.splits if_splits)

lemma duckMessagePrincipal_credential: "duckMessagePrincipal X s xe q sc c = Inr (p, mid) \<Longrightarrow> bearer_credential X xe q sc c p"
  by (auto simp: duckMessagePrincipal_def split: sum.splits option.splits dest: duckPrincipal_credential)

lemma yydsMessagePrincipal_credential: "yydsMessagePrincipal X s xe q sc c = Inr (p, mid) \<Longrightarrow> bearer_credential X xe q sc c p"
  by (auto simp: yydsMessagePrincipal_def split: sum.splits option.splits dest: yydsPrincipal_credential)

lemmas principal_credentials = duckPrincipal_credential yydsPrincipal_credential cloudflareTempPrincipal_credential
  duckMessagePrincipal_credential yydsMessagePrincipal_credential

text \<open>The scope a route demands.\<close>

fun compat_scope :: "compat_route \<Rightarrow> string \<Rightarrow> scope" where
  "compat_scope DuckDelete _ = ScopeInboxDelete"
| "compat_scope DuckPatch _ = ScopeMessageUpdate"
| "compat_scope DuckDrop _ = ScopeMessageDelete"
| "compat_scope YydsAccountRoute mth = (if mth = ''DELETE'' then ScopeInboxDelete else ScopeInboxRead)"
| "compat_scope YydsMessageRoute mth = (if mth = ''PATCH'' then ScopeMessageUpdate else if mth = ''DELETE'' then ScopeMessageDelete else ScopeMessageRead)"
| "compat_scope CfDrop _ = ScopeMessageDelete"
| "compat_scope CfDelete _ = ScopeInboxDelete"
| "compat_scope r _ = (if r \<in> {DuckMe, YydsMe, CfSettingsRoute} then ScopeInboxRead else ScopeMessageRead)"

section \<open>A request changes its own Inbox\<close>

definition own_request :: "compat_libs \<Rightarrow> compat_env \<Rightarrow> compat_request \<Rightarrow> scope \<Rightarrow> compat_db \<Rightarrow> compat_db \<Rightarrow> bool" where
  "own_request X xe q sc c c' \<longleftrightarrow> c' = c \<or> (\<exists>p. bearer_credential X xe q sc c p \<and> compat_change X (pc_inbox p) c c')"

lemma own_request_same [simp]: "own_request X xe q sc c c"
  by (simp add: own_request_def)

lemma own_requestI: "bearer_credential X xe q sc c p \<Longrightarrow> compat_change X (pc_inbox p) c c' \<Longrightarrow> own_request X xe q sc c c'"
  by (auto simp: own_request_def)

lemma duck_own:
  assumes "compat_wf c" and "contents_referenced (cm_db c)"
  shows "handleDuckMailDeleteAccount X s xe q c = (r, c') \<Longrightarrow> own_request X xe q ScopeInboxDelete c c'"
    and "handleDuckMailSeen X s xe q c = (r, c') \<Longrightarrow> own_request X xe q ScopeMessageUpdate c c'"
    and "handleDuckMailDeleteMessage X s xe q c = (r, c') \<Longrightarrow> own_request X xe q ScopeMessageDelete c c'"
  unfolding handleDuckMailDeleteAccount_def handleDuckMailSeen_def handleDuckMailDeleteMessage_def
  by (auto split: sum.splits prod.splits if_splits intro: own_requestI dest: principal_credentials mailbox_changes [OF assms])

lemma yyds_own:
  assumes "compat_wf c" and "contents_referenced (cm_db c)"
  shows "handleYYDSAccount X s xe q c = (r, c') \<Longrightarrow> own_request X xe q (compat_scope YydsAccountRoute (rq_method (xq_http q))) c c'"
    and "handleYYDSMessage X s xe q c = (r, c') \<Longrightarrow> own_request X xe q (compat_scope YydsMessageRoute (rq_method (xq_http q))) c c'"
  unfolding handleYYDSAccount_def handleYYDSMessage_def Let_def
  by (auto split: sum.splits prod.splits if_splits intro: own_requestI dest: principal_credentials mailbox_changes [OF assms])

lemma cf_own:
  assumes "compat_wf c" and "contents_referenced (cm_db c)"
  shows "handleCloudflareTempDeleteMail X s xe q c = (r, c') \<Longrightarrow> own_request X xe q ScopeMessageDelete c c'"
    and "handleCloudflareTempDeleteAddress X s xe q c = (r, c') \<Longrightarrow> own_request X xe q ScopeInboxDelete c c'"
  unfolding handleCloudflareTempDeleteMail_def handleCloudflareTempDeleteAddress_def
  by (auto split: sum.splits prod.splits option.splits if_splits intro: own_requestI dest: principal_credentials mailbox_changes [OF assms])

lemma cf_page_change:
  assumes "compat_wf c" and "contents_referenced (cm_db c)" and "cloudflareTempMessagePage X xe u limit offset c = (r, c')"
  shows "compat_change X u c c'"
  using assms(3) unfolding cloudflareTempMessagePage_def
  by (auto split: sum.splits prod.splits dest: EnsureMessageIDs_change [OF assms(1,2)])

lemma cf_list_own:
  assumes "compat_wf c" and "contents_referenced (cm_db c)"
  shows "handleCloudflareTempRawMails X s xe q c = (r, c') \<Longrightarrow> own_request X xe q ScopeMessageRead c c'"
    and "handleCloudflareTempParsedMails X s xe q c = (r, c') \<Longrightarrow> own_request X xe q ScopeMessageRead c c'"
  unfolding handleCloudflareTempRawMails_def handleCloudflareTempParsedMails_def
  by (auto split: sum.splits prod.splits option.splits intro: own_requestI dest: principal_credentials cf_page_change [OF assms])

lemmas compat_own = duck_own yyds_own cf_own cf_list_own

text \<open>
  C10. A request to a compatibility adapter that neither creates an account nor exchanges a credential changes the tables
  only with a bearer that authenticates for the scope of its route, and then only what belongs to the Inbox of that
  bearer: the Inboxes, messages, contents, passwords and identifiers of all others stay as they are, and the
  invariants of the tables are kept.
\<close>

theorem compat_changes_own_inbox:
  assumes "compat_wf c" and "contents_referenced (cm_db c)" and "compat_serve X s mb xe r q c = (resp, c')"
    and "r \<notin> {DuckCreate, DuckTokenRoute, YydsCreate, YydsRefresh, CfCreate}" and "c' \<noteq> c"
  shows "\<exists>plaintext p i. bearer_text (xq_http q) = Some plaintext \<and>
    compat_auth X xe plaintext [compat_scope r (rq_method (xq_http q))] c = Inr p \<and>
    hl_canon (xl_http X) (pc_inbox p) = Some i \<and> compat_spares i c c' \<and> compat_wf c' \<and> contents_referenced (cm_db c')"
proof -
  have "own_request X xe q (compat_scope r (rq_method (xq_http q))) c c'"
    using assms(3-5) compat_own [OF assms(1,2)] by (cases r) auto
  then show ?thesis using assms(5) by (auto simp: own_request_def bearer_credential_def compat_change_def)
qed

section \<open>One daily limit for all ways to create\<close>

text \<open>Nothing but the quota itself touches the counters, in the transactions of the adapters as well.\<close>

interpretation cquotas: db_invariant "\<lambda>c. create_quotas (cm_db c) = Q" for Q .

lemma cquotas_ids:
  "cquotas.keeps Q (ensureCloudflareTempMessageID canon newid inboxID messageID)"
proof -
  have q: "cquotas.keeps Q (stmt f (with_uuids canon inboxID messageID (\<lambda>i m. query (message_id_of i m))))" for f
    by (rule cquotas.keeps_stmt) (auto simp: with_uuids_Inr query_def)
  have ins: "cquotas.keeps Q (stmt f (with_uuids canon inboxID messageID (sql_insert_message_id newid)))" for f
    by (rule cquotas.keeps_stmt) (auto simp: with_uuids_Inr sql_insert_message_id_def split: if_splits)
  show ?thesis unfolding ensureCloudflareTempMessageID_def
    by (auto intro!: cquotas.keeps_bind cquotas.keeps_return cquotas.keeps_fail q ins split: option.split)
qed

lemma EnsureMessageIDs_quotas:
  assumes "EnsureMessageIDs canon newid inboxID mids flt c = (r, c')"
  shows "create_quotas (cm_db c') = create_quotas (cm_db c)"
proof -
  have "cquotas.keeps Q (tx_map (\<lambda>(k, m). ensureCloudflareTempMessageID canon (newid k) inboxID m) (enumerate 0 mids))" for Q
    by (rule cquotas.keeps_map) (auto intro: cquotas_ids)
  from cquotas.run_tx_keeps [OF this refl, of flt c] show ?thesis
    using assms by (auto simp: EnsureMessageIDs_def split: prod.splits sum.splits if_splits)
qed

lemma repo_CreateAccount_quotas:
  assumes "repo_CreateAccount newid a flt c = (r, c')"
  shows "create_quotas (cm_db c') = create_quotas (cm_db c)"
proof -
  have "cquotas.keeps Q (create_account_tx newid a)" for Q
    unfolding create_account_tx_def
    by (intro cquotas.keeps_bind cquotas.keeps_return cquotas.keeps_stmt)
      (auto simp: lift_stmt_def sql_insert_inbox_def sql_insert_credential_def Let_def split: sum.splits if_splits)
  from cquotas.run_tx_keeps [OF this refl] show ?thesis using assms unfolding repo_CreateAccount_def by blast
qed

lemma duck_CreateAccount_quotas:
  "duck_CreateAccount idkey sv env rq c = (r, c') \<Longrightarrow> create_quotas (cm_db c') = create_quotas (cm_db c)"
  by (auto simp: duck_CreateAccount_def split: if_splits option.splits sum.splits dest: repo_CreateAccount_quotas)

lemma on_db_quotas:
  assumes "on_db f c = (r, c')" and "\<And>r d'. f (cm_db c) = (r, d') \<Longrightarrow> create_quotas d' = create_quotas (cm_db c)"
  shows "create_quotas (cm_db c') = create_quotas (cm_db c)"
  using assms by (auto simp: on_db_def split: prod.splits)

lemma duck_Login_quotas:
  "duck_Login idkey sha256 canon sv env address password c = (r, c') \<Longrightarrow> create_quotas (cm_db c') = create_quotas (cm_db c)"
  by (auto simp: duck_Login_def Let_def split: if_splits sum.splits dest!: on_db_quotas intro: Issue_quotas)

lemma yyds_CreateAccount_quotas:
  "yyds_CreateAccount sha256 canon mb env rq c = (r, c') \<Longrightarrow> create_quotas (cm_db c') = create_quotas (cm_db c)"
  by (auto simp: yyds_CreateAccount_def split: sum.splits dest!: on_db_quotas intro: Create_quotas)

lemma RefreshToken_quotas:
  "RefreshToken sha256 canon env plaintext address d c = (r, c') \<Longrightarrow> create_quotas (cm_db c') = create_quotas (cm_db c)"
  by (auto simp: RefreshToken_def split: if_splits sum.splits prod.splits dest!: on_db_quotas intro: Rotate_quotas)

lemma service_quotas:
  "service_Delete canon now clock u flt d = (r, d') \<Longrightarrow> create_quotas d' = create_quotas d"
  "service_DeleteMessage canon now clock u mid flt d = (r, d') \<Longrightarrow> create_quotas d' = create_quotas d"
  "service_MarkMessageSeen canon now t u mid sflt d = (r, d') \<Longrightarrow> create_quotas d' = create_quotas d"
  by (auto simp: service_Delete_def service_DeleteMessage_def service_MarkMessageSeen_def split: prod.splits sum.splits
      dest: DeleteInbox_quotas DeleteMessage_quotas MarkMessageSeen_quotas)

lemma mailbox_quotas:
  "mailbox_Delete X xe u c = (r, c') \<Longrightarrow> create_quotas (cm_db c') = create_quotas (cm_db c)"
  "mailbox_DeleteMessage X xe u mid c = (r, c') \<Longrightarrow> create_quotas (cm_db c') = create_quotas (cm_db c)"
  "mailbox_MarkSeen X xe u mid c = (r, c') \<Longrightarrow> create_quotas (cm_db c') = create_quotas (cm_db c)"
  unfolding mailbox_Delete_def mailbox_DeleteMessage_def mailbox_MarkSeen_def Let_def
  by (auto elim!: on_db_quotas intro: service_quotas)

lemma cf_page_quotas:
  "cloudflareTempMessagePage X xe u limit offset c = (r, c') \<Longrightarrow> create_quotas (cm_db c') = create_quotas (cm_db c)"
  unfolding cloudflareTempMessagePage_def by (auto split: sum.splits prod.splits dest: EnsureMessageIDs_quotas)

lemma duck_quotas:
  "handleDuckMailToken X s xe q c = (r, c') \<Longrightarrow> create_quotas (cm_db c') = create_quotas (cm_db c)"
  "handleDuckMailDeleteAccount X s xe q c = (r, c') \<Longrightarrow> create_quotas (cm_db c') = create_quotas (cm_db c)"
  "handleDuckMailSeen X s xe q c = (r, c') \<Longrightarrow> create_quotas (cm_db c') = create_quotas (cm_db c)"
  "handleDuckMailDeleteMessage X s xe q c = (r, c') \<Longrightarrow> create_quotas (cm_db c') = create_quotas (cm_db c)"
  unfolding handleDuckMailToken_def handleDuckMailDeleteAccount_def handleDuckMailSeen_def handleDuckMailDeleteMessage_def
  by (auto split: sum.splits prod.splits if_splits dest: mailbox_quotas duck_Login_quotas)

lemma yyds_quotas:
  "handleYYDSRefreshToken X s xe q c = (r, c') \<Longrightarrow> create_quotas (cm_db c') = create_quotas (cm_db c)"
  "handleYYDSAccount X s xe q c = (r, c') \<Longrightarrow> create_quotas (cm_db c') = create_quotas (cm_db c)"
  "handleYYDSMessage X s xe q c = (r, c') \<Longrightarrow> create_quotas (cm_db c') = create_quotas (cm_db c)"
  unfolding handleYYDSRefreshToken_def handleYYDSAccount_def handleYYDSMessage_def Let_def
  by (auto split: sum.splits prod.splits if_splits dest: mailbox_quotas RefreshToken_quotas)

lemma cf_quotas:
  "handleCloudflareTempRawMails X s xe q c = (r, c') \<Longrightarrow> create_quotas (cm_db c') = create_quotas (cm_db c)"
  "handleCloudflareTempParsedMails X s xe q c = (r, c') \<Longrightarrow> create_quotas (cm_db c') = create_quotas (cm_db c)"
  "handleCloudflareTempDeleteMail X s xe q c = (r, c') \<Longrightarrow> create_quotas (cm_db c') = create_quotas (cm_db c)"
  "handleCloudflareTempDeleteAddress X s xe q c = (r, c') \<Longrightarrow> create_quotas (cm_db c') = create_quotas (cm_db c)"
  unfolding handleCloudflareTempRawMails_def handleCloudflareTempParsedMails_def handleCloudflareTempDeleteMail_def handleCloudflareTempDeleteAddress_def
  by (auto split: sum.splits prod.splits option.splits if_splits dest: mailbox_quotas cf_page_quotas)

lemma compat_serve_quotas:
  assumes "r \<notin> {DuckCreate, YydsCreate, CfCreate}" and "compat_serve X s mb xe r q c = (resp, c')"
  shows "create_quotas (cm_db c') = create_quotas (cm_db c)"
  using assms by (cases r) (auto dest: duck_quotas yyds_quotas cf_quotas)

text \<open>
  An answer to a creation that says an Inbox was created, and what counts as such over all routes.
\<close>

datatype web_request = Canonical route http_request | Compat compat_route compat_request
datatype web_response = CanonicalResponse response | CompatResponse compat_response

definition web_serve :: "compat_libs \<Rightarrow> compat_server \<Rightarrow> mailbox_service \<Rightarrow> compat_env \<Rightarrow> web_request \<Rightarrow> compat_db \<Rightarrow> web_response \<times> compat_db" where
  "web_serve X s mb xe w c =
     (case w of
        Canonical r rq \<Rightarrow> (case on_db (serve (xl_http X) (cs_http s) (xe_http xe) r rq) c of (resp, c') \<Rightarrow> (CanonicalResponse resp, c'))
      | Compat r q \<Rightarrow> (case compat_serve X s mb xe r q c of (resp, c') \<Rightarrow> (CompatResponse resp, c')))"

fun web_http :: "web_request \<Rightarrow> http_request" where
  "web_http (Canonical r rq) = rq"
| "web_http (Compat r q) = xq_http q"

fun web_created :: "web_request \<Rightarrow> web_response \<Rightarrow> bool" where
  "web_created (Canonical r rq) (CanonicalResponse resp) = (r = PostInboxes \<and> rp_status resp = 201)"
| "web_created (Compat r q) (CompatResponse resp) =
     (r \<in> {DuckCreate, YydsCreate} \<and> xr_status resp = 201 \<or> r = CfCreate \<and> (\<exists>jwt address n. xr_body resp = CfAddress jwt address n))"
| "web_created _ _ = False"

text \<open>The Inboxes a run of requests creates for the direct clients with one address on one day.\<close>

fun web_created_for :: "compat_libs \<Rightarrow> compat_server \<Rightarrow> mailbox_service \<Rightarrow> bytes \<Rightarrow> int \<Rightarrow> (compat_env \<times> web_request) list \<Rightarrow> compat_db \<Rightarrow> nat" where
  "web_created_for X s mb addr date [] c = 0"
| "web_created_for X s mb addr date ((xe, w) # calls) c =
     (case web_serve X s mb xe w c of
        (resp, c') \<Rightarrow>
          (if web_created w resp \<and> direct_peer (cs_http s) (web_http w) = Some addr \<and> he_wall (xe_http xe) div day = date then 1 else 0) +
          web_created_for X s mb addr date calls c')"

lemma xr_simps [simp]:
  "xr_status (compat_json n b) = n" "xr_body (compat_json n b) = b" "xr_status (compat_headers hs r) = xr_status r"
  "xr_body (compat_headers hs r) = xr_body r" "xr_status (writeDuckError n k m) = n" "xr_status (writeYYDSError n k) = n"
  "xr_status (writeYYDS n b) = n" "xr_body (writeCloudflareTempText n m) = CfText m" "xr_body compat_not_found = CfText (''404 page not found'' @ [CHR 10])"
  by (simp_all add: compat_json_def compat_headers_def writeDuckError_def writeYYDSError_def writeYYDS_def writeCloudflareTempText_def compat_not_found_def)

lemma mapped_error_simps [simp]:
  "xr_status (writeDuckMappedError e) \<noteq> 201" "xr_status (writeYYDSMappedError e) \<noteq> 201"
  "xr_body (writeCloudflareTempMappedErrors es) \<noteq> CfAddress jwt address n"
  by (auto simp: writeDuckMappedError_def writeYYDSMappedError_def writeCloudflareTempMappedErrors_def)

lemma enabled_errors:
  "duckMailEnabled s = Inl r \<Longrightarrow> xr_status r \<noteq> 201" "yydsEnabled s = Inl r \<Longrightarrow> xr_status r \<noteq> 201"
  "cloudflareTempEnabled s q = Inl r \<Longrightarrow> xr_body r \<noteq> CfAddress jwt address n"
  by (auto simp: duckMailEnabled_def yydsEnabled_def cloudflareTempEnabled_def Let_def split: option.splits if_splits)

lemma decode_errors:
  "decodeDuckJSON body = Inl r \<Longrightarrow> xr_status r \<noteq> 201" "decodeYYDSJSON fb body = Inl r \<Longrightarrow> xr_status r \<noteq> 201"
  "decodeCloudflareTempJSON fb body = Inl r \<Longrightarrow> xr_body r \<noteq> CfAddress jwt address n"
  by (auto simp: decodeDuckJSON_def decodeYYDSJSON_def decodeCloudflareTempJSON_def split: json_body.splits option.splits)

lemma compat_quota_Consume:
  assumes "hs_quota (cs_http s) = Some qs"
  shows "\<exists>dec err d1. compat_quota X s xe q c = ((dec, err), cascade d1 c) \<and>
    Consume (hl_sha256 (xl_http X)) ParseIP qs (quota_call_of (cs_http s) (xe_http xe) (xq_http q)) (cm_db c) = ((dec, err), d1)"
  using assms by (auto simp: compat_quota_def on_db_def consumeCreateQuota_def split: prod.splits)

text \<open>
  \<open>counted\<close>: the request did not create an Inbox and left the counters alone, or it consumed quota first, was admitted
  if it created one, and did not lower the counter \<open>k\<close> afterwards.
\<close>

definition counted :: "compat_libs \<Rightarrow> compat_server \<Rightarrow> quota_service \<Rightarrow> compat_env \<Rightarrow> http_request \<Rightarrow> bytes \<times> int \<Rightarrow> bool \<Rightarrow> compat_db \<Rightarrow> compat_db \<Rightarrow> bool" where
  "counted X s qs xe rq k created c c' \<longleftrightarrow>
     create_quotas (cm_db c') = create_quotas (cm_db c) \<and> \<not> created \<or>
     (\<exists>dec err d1. Consume (hl_sha256 (xl_http X)) ParseIP qs (quota_call_of (cs_http s) (xe_http xe) rq) (cm_db c) = ((dec, err), d1) \<and>
        used_of d1 k \<le> used_of (cm_db c') k \<and> (created \<longrightarrow> err = None))"

lemma used_le: "create_quotas d' = create_quotas d \<Longrightarrow> used_of d k \<le> used_of d' k"
  by (simp add: used_of_def)

lemma counted_none: "create_quotas (cm_db c') = create_quotas (cm_db c) \<Longrightarrow> \<not> created \<Longrightarrow> counted X s qs xe rq k created c c'"
  by (simp add: counted_def)

lemma duck_counted:
  assumes "hs_quota (cs_http s) = Some qs" and "handleDuckMailCreateAccount X s xe q c = (r, c')"
  shows "counted X s qs xe (xq_http q) k (xr_status r = 201) c c'"
proof -
  obtain dec err d1 where q: "compat_quota X s xe q c = ((dec, err), cascade d1 c)"
    "Consume (hl_sha256 (xl_http X)) ParseIP qs (quota_call_of (cs_http s) (xe_http xe) (xq_http q)) (cm_db c) = ((dec, err), d1)"
    using compat_quota_Consume [OF assms(1)] by metis
  have "c' = c \<and> xr_status r \<noteq> 201 \<or> used_of d1 k \<le> used_of (cm_db c') k \<and> (xr_status r = 201 \<longrightarrow> err = None)"
    using assms(2) q(1) unfolding handleDuckMailCreateAccount_def Let_def
    by (auto split: sum.splits if_splits prod.splits dest: enabled_errors decode_errors dest!: duck_CreateAccount_quotas intro: used_le)
  then show ?thesis using q(2) by (auto simp: counted_def)
qed

lemma yyds_counted:
  assumes "hs_quota (cs_http s) = Some qs" and "handleYYDSCreateAccount X s mb xe q c = (r, c')"
  shows "counted X s qs xe (xq_http q) k (xr_status r = 201) c c'"
proof -
  obtain dec err d1 where q: "compat_quota X s xe q c = ((dec, err), cascade d1 c)"
    "Consume (hl_sha256 (xl_http X)) ParseIP qs (quota_call_of (cs_http s) (xe_http xe) (xq_http q)) (cm_db c) = ((dec, err), d1)"
    using compat_quota_Consume [OF assms(1)] by metis
  have "c' = c \<and> xr_status r \<noteq> 201 \<or> used_of d1 k \<le> used_of (cm_db c') k \<and> (xr_status r = 201 \<longrightarrow> err = None)"
    using assms(2) q(1) unfolding handleYYDSCreateAccount_def Let_def
    by (auto split: sum.splits if_splits prod.splits dest: enabled_errors decode_errors dest!: yyds_CreateAccount_quotas intro: used_le)
  then show ?thesis using q(2) by (auto simp: counted_def)
qed

text \<open>Other sessions, between the statements of \<^verbatim>\<open>CreateAddress\<close>, may only raise the counter.\<close>

definition others_count :: "compat_env \<Rightarrow> bytes \<times> int \<Rightarrow> bool" where
  "others_count xe k \<longleftrightarrow> (\<forall>j x. used_of (cm_db x) k \<le> used_of (cm_db (ie_other (fe_ids (xe_cf xe)) j x)) k)"

lemma EnsureInboxID_used:
  assumes "EnsureInboxID canon env inboxID c = (r, c')" and "\<And>j x. used_of (cm_db x) k \<le> used_of (cm_db (ie_other env j x)) k"
  shows "used_of (cm_db c) k \<le> used_of (cm_db c') k"
proof -
  have ins: "cm_db c2 = cm_db c1" if "run_stmt f (with_uuid canon u (sql_insert_inbox_id n)) flt c1 = (q, c2)" for f u n flt c1 q c2
    using that by (auto simp: run_stmt_def with_uuid_def sql_insert_inbox_id_def split: fault.splits option.splits if_splits sum.splits)
  note step = assms(2)
  have two: "used_of (cm_db c) k \<le> used_of (cm_db y) k" if "cm_db y = cm_db (ie_other env (Suc 0) (ie_other env 0 c))" for y
    using order_trans [OF step step] that by simp
  have three: "used_of (cm_db c) k \<le> used_of (cm_db (ie_other env 2 y)) k" if "cm_db y = cm_db (ie_other env (Suc 0) (ie_other env 0 c))" for y
    using order_trans [OF two [OF that] step] .
  show ?thesis
    using assms(1) unfolding EnsureInboxID_def
    by (auto split: prod.splits sum.splits option.splits dest!: uuid_query ins intro: step two three)
qed

lemma CreateAddress_used:
  assumes "CreateAddress sha256 canon mb env name domain c = (r, c')"
    and "\<And>j x. used_of (cm_db x) k \<le> used_of (cm_db (ie_other (fe_ids env) j x)) k"
  shows "used_of (cm_db c) k \<le> used_of (cm_db c') k"
proof -
  have create: "used_of (cm_db x) k \<le> used_of (cm_db y) k" if "on_db (Create sha256 canon mb e rq) x = (z, y)" for x y z e rq
    using on_db_quotas [OF that] Create_quotas by (auto intro: used_le)
  have delete: "used_of (cm_db x) k \<le> used_of (cm_db y) k" if "on_db (service_Delete canon now clock u flt) x = (z, y)" for x y z now clock u flt
    using on_db_quotas [OF that] service_quotas by (auto intro: used_le)
  show ?thesis
    using assms(1) unfolding CreateAddress_def Let_def
    by (auto split: if_splits prod.splits sum.splits dest!: create delete dest: EnsureInboxID_used [OF _ assms(2)] intro: order_trans)
qed

lemma cf_counted:
  assumes "hs_quota (cs_http s) = Some qs" and "handleCloudflareTempCreateAddress X s mb xe q c = (r, c')" and "others_count xe k"
  shows "counted X s qs xe (xq_http q) k (\<exists>jwt address n. xr_body r = CfAddress jwt address n) c c'"
proof -
  obtain dec err d1 where q: "compat_quota X s xe q c = ((dec, err), cascade d1 c)"
    "Consume (hl_sha256 (xl_http X)) ParseIP qs (quota_call_of (cs_http s) (xe_http xe) (xq_http q)) (cm_db c) = ((dec, err), d1)"
    using compat_quota_Consume [OF assms(1)] by metis
  note create = CreateAddress_used [where env = "xe_cf xe" and k = k]
  have "c' = c \<and> \<not> (\<exists>jwt address n. xr_body r = CfAddress jwt address n) \<or>
      used_of d1 k \<le> used_of (cm_db c') k \<and> ((\<exists>jwt address n. xr_body r = CfAddress jwt address n) \<longrightarrow> err = None)"
    using assms(2) q(1) assms(3) unfolding handleCloudflareTempCreateAddress_def Let_def others_count_def
    by (auto split: sum.splits if_splits prod.splits dest: enabled_errors decode_errors dest!: create)
  then show ?thesis using q(2) by (auto simp: counted_def)
qed

lemma counted_used:
  fixes addr :: bytes and X :: compat_libs
  assumes "0 < qs_dailyLimit qs" and "he_wall (xe_http xe) div day \<le> date + 2"
  defines "k \<equiv> (hmac_sha256 (hl_sha256 (xl_http X)) (qs_key qs) (createIdentityDomain @ addr), date)"
  assumes "counted X s qs xe rq k created c c'"
  shows "if created \<and> direct_peer (cs_http s) rq = Some addr \<and> he_wall (xe_http xe) div day = date
    then used_of (cm_db c) k + 1 \<le> used_of (cm_db c') k \<and> used_of (cm_db c) k < qs_dailyLimit qs
    else used_of (cm_db c) k \<le> used_of (cm_db c') k"
proof (cases "create_quotas (cm_db c') = create_quotas (cm_db c) \<and> \<not> created")
  case True
  then show ?thesis using used_le by simp
next
  case False
  then obtain dec err d1 where q: "Consume (hl_sha256 (xl_http X)) ParseIP qs (quota_call_of (cs_http s) (xe_http xe) rq) (cm_db c) = ((dec, err), d1)"
    "used_of d1 k \<le> used_of (cm_db c') k" "created \<longrightarrow> err = None"
    using assms(4) by (auto simp: counted_def)
  have wall: "qc_now (quota_call_of (cs_http s) (xe_http xe) rq) div day \<le> snd k + 2" using assms(2) by (simp add: k_def quota_call_of_def)
  have key: "direct_peer (cs_http s) rq = Some addr \<Longrightarrow> he_wall (xe_http xe) div day = date \<Longrightarrow>
      quota_key (hl_sha256 (xl_http X)) ParseIP qs (quota_call_of (cs_http s) (xe_http xe) rq) = Some k"
    using direct_peer_key [of "cs_http s" rq addr "hl_sha256 (xl_http X)" qs "xe_http xe"] by (simp add: k_def)
  show ?thesis using Consume_effect [OF assms(1) q(1) wall] key q(2,3) by (auto split: if_splits)
qed

lemma compat_serve_counted:
  assumes "hs_quota (cs_http s) = Some qs" and "others_count xe k" and "compat_serve X s mb xe r q c = (resp, c')"
  shows "counted X s qs xe (xq_http q) k (web_created (Compat r q) (CompatResponse resp)) c c'"
proof (cases "r \<in> {DuckCreate, YydsCreate, CfCreate}")
  case True
  then show ?thesis
    using assms(3) duck_counted [OF assms(1), of X xe q c resp c' k] yyds_counted [OF assms(1), of X mb xe q c resp c' k]
      cf_counted [OF assms(1) _ assms(2), of X mb q c resp c'] by auto
next
  case False
  then show ?thesis using compat_serve_quotas [OF _ assms(3)] by (auto intro: counted_none)
qed

lemma web_serve_used:
  fixes addr :: bytes and X :: compat_libs
  assumes "hs_quota (cs_http s) = Some qs" and "0 < qs_dailyLimit qs" and "he_wall (xe_http xe) div day \<le> date + 2"
    and "web_serve X s mb xe w c = (resp, c')"
  defines "k \<equiv> (hmac_sha256 (hl_sha256 (xl_http X)) (qs_key qs) (createIdentityDomain @ addr), date)"
  assumes "others_count xe k"
  shows "if web_created w resp \<and> direct_peer (cs_http s) (web_http w) = Some addr \<and> he_wall (xe_http xe) div day = date
    then used_of (cm_db c) k + 1 \<le> used_of (cm_db c') k \<and> used_of (cm_db c) k < qs_dailyLimit qs
    else used_of (cm_db c) k \<le> used_of (cm_db c') k"
proof (cases w)
  case (Canonical r rq)
  obtain x d' where sv: "serve (xl_http X) (cs_http s) (xe_http xe) r rq (cm_db c) = (x, d')" by fastforce
  then have "resp = CanonicalResponse x" "cm_db c' = d'" using assms(4) Canonical by (auto simp: web_serve_def on_db_def)
  then show ?thesis using serve_used [OF assms(1-3) sv, of addr] Canonical by (auto simp: k_def split: if_splits)
next
  case (Compat r q)
  obtain x where sv: "compat_serve X s mb xe r q c = (x, c')" and x: "resp = CompatResponse x"
    using assms(4) Compat by (auto simp: web_serve_def split: prod.splits)
  note compat_serve_counted [OF assms(1) assms(6) sv]
  from counted_used [OF assms(2,3) this [unfolded k_def]] show ?thesis using Compat x by (simp add: k_def)
qed

text \<open>
  C8. One limit for all ways in: over any run of requests of any clients to the HTTP API and to the three compatibility
  adapters, under any failures, the direct clients with one address get at most as many Inboxes on one day as the daily
  limit leaves, whatever forwarding headers they send. The clocks of the calls may be at most two days past that day,
  and other sessions only raise the counter.
\<close>

theorem web_daily_limit:
  assumes "NewQuotaService True key dailyLimit = Inr qs" and "hs_quota (cs_http s) = Some qs"
    and "\<forall>(xe, w) \<in> set calls. he_wall (xe_http xe) div day \<le> date + 2 \<and>
      others_count xe (hmac_sha256 (hl_sha256 (xl_http X)) key (createIdentityDomain @ addr), date)"
  shows "int (web_created_for X s mb addr date calls c) \<le>
    max 0 (dailyLimit - used_of (cm_db c) (hmac_sha256 (hl_sha256 (xl_http X)) key (createIdentityDomain @ addr), date))"
proof -
  have q: "qs_dailyLimit qs = dailyLimit" "qs_key qs = key" "0 < qs_dailyLimit qs"
    using assms(1) by (auto simp: NewQuotaService_def split: if_splits)
  show ?thesis using assms(3)
  proof (induction calls arbitrary: c)
    case (Cons call calls)
    obtain xe w where call: "call = (xe, w)" by (cases call) auto
    obtain resp c' where sv: "web_serve X s mb xe w c = (resp, c')" by fastforce
    have "he_wall (xe_http xe) div day \<le> date + 2"
      and "others_count xe (hmac_sha256 (hl_sha256 (xl_http X)) (qs_key qs) (createIdentityDomain @ addr), date)" using Cons.prems call q by auto
    from web_serve_used [OF assms(2) q(3) this(1) sv this(2)] Cons.IH [of c'] Cons.prems q show ?case
      by (auto simp: call sv split: if_splits)
  qed simp
qed

section \<open>Concrete requests\<close>

definition sample_compat_libs :: compat_libs where
  "sample_compat_libs = \<lparr>xl_http = sample_libs, xl_idkey = sample_idkey, xl_json_size = (\<lambda>_. 0)\<rparr>"

definition sample_compat_server :: compat_server where
  "sample_compat_server = \<lparr>cs_http = sample_http_server, cs_duck = Some sample_duck, cs_yyds = Some \<lparr>ys_domains = [''b'']\<rparr>,
     cs_cf = Some \<lparr>fs_domains = [''b'']\<rparr>, cs_legacy = False\<rparr>"

definition sample_compat_env :: compat_env where
  "sample_compat_env = \<lparr>xe_http = sample_http_env, xe_flt = (\<lambda>_. NoFault), xe_db = (\<lambda>_. empty_db), xe_duck = sample_duck_env,
     xe_refresh = sample_refresh_env empty_db, xe_cf = sample_cf_env, xe_newid = int, xe_cf_heavy = 0\<rparr>"

definition sample_compat_request :: "string \<Rightarrow> compat_request" where
  "sample_compat_request token = \<lparr>xq_http = sample_request DropInbox token, xq_url = ''/compat/cloudflare-temp/api/delete_address'',
     xq_account = JsonEmpty, xq_login = JsonEmpty, xq_yyds = JsonEmpty, xq_refresh = JsonEmpty, xq_patch = JsonEmpty, xq_cf = JsonEmpty\<rparr>"

definition sample_compat_serve :: "issued_capability \<Rightarrow> db \<Rightarrow> compat_response \<times> compat_db" where
  "sample_compat_serve iss d =
     compat_serve sample_compat_libs sample_compat_server sample_service sample_compat_env CfDelete (sample_compat_request (is_plaintext iss)) (compat_of d)"

lemma sample_compat_evaluates:
  "(case sample_owner_issue of (Inr iss, d) \<Rightarrow> inboxes d \<noteq> [] \<and> mail_contents d = [] \<and> inboxes (cm_db (snd (sample_compat_serve iss d))) = [] | _ \<Rightarrow> False)"
  by code_simp

lemma sample_bearer:
  assumes "sample_owner_issue = (Inr iss, d)"
  shows "bearer_text (xq_http (sample_compat_request (is_plaintext iss))) = Some (is_plaintext iss)"
proof -
  have "(case sample_owner_issue of (Inr iss, d) \<Rightarrow> bearer_text (xq_http (sample_compat_request (is_plaintext iss))) = Some (is_plaintext iss) | _ \<Rightarrow> True)"
    by code_simp
  then show ?thesis unfolding assms by simp
qed

theorem compat_changes_own_inbox_witness:
  "\<exists>iss d resp c' p i. sample_owner_issue = (Inr iss, d) \<and> sample_compat_serve iss d = (resp, c') \<and> c' \<noteq> compat_of d \<and>
     compat_auth sample_compat_libs sample_compat_env (is_plaintext iss) [ScopeInboxDelete] (compat_of d) = Inr p \<and>
     cap_canon (pc_inbox p) = Some i \<and> compat_spares i (compat_of d) c'"
proof -
  obtain iss d where i: "sample_owner_issue = (Inr iss, d)" using sample_owner_issue_Inr by blast
  obtain resp c' where sv: "sample_compat_serve iss d = (resp, c')" by fastforce
  have ev: "inboxes d \<noteq> []" "mail_contents d = []" "inboxes (cm_db c') = []"
    using sample_compat_evaluates sv by (simp_all add: i)
  then have r: "contents_referenced (cm_db (compat_of d))" "c' \<noteq> compat_of d" by (auto simp: contents_referenced_def compat_of_def)
  have w: "compat_wf (compat_of d)" using sample_owner_good [OF i] by (simp add: compat_of_wf cap_good_wf)
  have m: "rq_method (xq_http (sample_compat_request t)) = ''DELETE''" for t by (simp add: sample_compat_request_def sample_request_def)
  obtain t p j where a: "bearer_text (xq_http (sample_compat_request (is_plaintext iss))) = Some t"
    "compat_auth sample_compat_libs sample_compat_env t [ScopeInboxDelete] (compat_of d) = Inr p"
    "cap_canon (pc_inbox p) = Some j" "compat_spares j (compat_of d) c'"
    using compat_changes_own_inbox [OF w r(1) sv [unfolded sample_compat_serve_def] _ r(2)]
    by (auto simp: sample_compat_libs_def sample_libs_def)
  have "t = is_plaintext iss" using a(1) sample_bearer i by simp
  with i sv r(2) a show ?thesis by blast
qed

theorem web_daily_limit_witness:
  "int (web_created_for sample_compat_libs sample_compat_server sample_service [CHR 9, CHR 9, CHR 9, CHR 9] 0
     (replicate 2 (sample_compat_env, Canonical PostInboxes (sample_request PostInboxes [])) @
      replicate 2 (sample_compat_env, Compat CfCreate (sample_compat_request []))) empty_compat) \<le> 1"
  using web_daily_limit [of "replicate 32 CHR ''k''" 1 sample_quota sample_compat_server
      "replicate 2 (sample_compat_env, Canonical PostInboxes (sample_request PostInboxes [])) @
       replicate 2 (sample_compat_env, Compat CfCreate (sample_compat_request []))" 0 sample_compat_libs "[CHR 9, CHR 9, CHR 9, CHR 9]"
      sample_service empty_compat]
  by (simp add: NewQuotaService_def sample_quota_def sample_compat_server_def sample_http_server_def sample_compat_env_def sample_http_env_def
      others_count_def sample_cf_env_def sample_id_env_def used_of_def empty_compat_def empty_db_def day_def)

end
