(* ===== verification/Content_Reconcile.thy ===== *)
theory Content_Reconcile
  imports Retention
begin

text \<open>
  \<^verbatim>\<open>contentstore/reconcile.go\<close> with \<^verbatim>\<open>postgres/content_catalog.go\<close>: the maintenance scan that compares the
  content rows with the stored objects, in bounded batches, and removes objects without a row if asked to.

  The scan runs under the maintenance lease, so the tables do not change meanwhile. What \<^verbatim>\<open>filepath.WalkDir\<close> reports is an
  input: the entries below the objects root in order, each with its type and size and the errors met there. \<open>walk_shows\<close>
  says when that input is what it reports of a given object directory.
\<close>

section \<open>The catalog\<close>

definition row_ref :: "content_row \<Rightarrow> content_ref" where
  "row_ref c = \<lparr>cr_key = mc_key c, cr_size = mc_size c\<rparr>"

definition catalog_page :: "string \<Rightarrow> nat \<Rightarrow> db \<Rightarrow> content_ref list" where
  "catalog_page after n d = map row_ref (take n (sort_key mc_key (filter (\<lambda>c. after < mc_key c) (mail_contents d))))"

fun visit_all :: "('r \<Rightarrow> 's \<Rightarrow> go_error option \<times> 's) \<Rightarrow> 'r list \<Rightarrow> 's \<Rightarrow> go_error option \<times> 's" where
  "visit_all visit [] st = (None, st)"
| "visit_all visit (r # rs) st = (case visit r st of (Some e, st') \<Rightarrow> (Some e, st') | (None, st') \<Rightarrow> visit_all visit rs st')"

lemma filter_after_shrinks:
  assumes "page = catalog_page after n d" and "page \<noteq> []"
  shows "length (filter (\<lambda>c. cr_key (last page) < mc_key c) (mail_contents d)) < length (filter (\<lambda>c. after < mc_key c) (mail_contents d))"
proof -
  let ?s = "sort_key mc_key (filter (\<lambda>c. after < mc_key c) (mail_contents d))"
  have "last (take n ?s) \<in> set ?s" using assms by (metis catalog_page_def in_set_takeD last_in_set list.map_disc_iff)
  moreover have "cr_key (last page) = mc_key (last (take n ?s))" using assms by (auto simp: catalog_page_def last_map row_ref_def)
  ultimately obtain c where c: "c \<in> set (mail_contents d)" "after < mc_key c" "cr_key (last page) = mc_key c" by auto
  have sub: "filter (\<lambda>x. mc_key c < mc_key x) (mail_contents d) = filter (\<lambda>x. mc_key c < mc_key x) (filter (\<lambda>x. after < mc_key x) (mail_contents d))"
    using c(2) by (auto intro!: filter_cong)
  have "c \<in> set (filter (\<lambda>x. after < mc_key x) (mail_contents d))" using c by simp
  then have "length (filter (\<lambda>x. mc_key c < mc_key x) (filter (\<lambda>x. after < mc_key x) (mail_contents d))) < length (filter (\<lambda>x. after < mc_key x) (mail_contents d))"
    by (intro length_filter_less [of c]) auto
  then show ?thesis unfolding c(3) sub .
qed

text \<open>The loop over the pages; the page is not empty when it is full, since \<open>n\<close> is positive.\<close>

function walk_pages :: "nat \<Rightarrow> (nat \<Rightarrow> fault) \<Rightarrow> (content_ref \<Rightarrow> 's \<Rightarrow> go_error option \<times> 's) \<Rightarrow> db \<Rightarrow> nat \<Rightarrow> string \<Rightarrow> 's \<Rightarrow> go_error option \<times> 's" where
  "walk_pages n flt visit d k after st =
     (case fst (run_stmt sql_wrap (query (catalog_page after n)) (flt k) d) of
        Inl e \<Rightarrow> (Some e, st)
      | Inr page \<Rightarrow>
          (case visit_all visit page st of
             (Some e, st') \<Rightarrow> (Some e, st')
           | (None, st') \<Rightarrow> if length page < n \<or> page = [] then (None, st') else walk_pages n flt visit d (Suc k) (cr_key (last page)) st'))"
  by pat_completeness auto
termination
proof (relation "measure (\<lambda>(n, flt, visit, d, k, after, st). length (filter (\<lambda>c. after < mc_key c) (mail_contents d)))", goal_cases)
  case (2 n flt visit d k after st page)
  then have "page = catalog_page after n d" by (auto simp: run_stmt_def query_def split: fault.splits)
  then show ?case using filter_after_shrinks [of page after n d] 2 by auto
qed simp

declare walk_pages.simps [simp del]

definition WalkContentRefs :: "int \<Rightarrow> (nat \<Rightarrow> fault) \<Rightarrow> (content_ref \<Rightarrow> 's \<Rightarrow> go_error option \<times> 's) option \<Rightarrow> db \<Rightarrow> 's \<Rightarrow> go_error option \<times> 's" where
  "WalkContentRefs batchSize flt visit d st =
     (if batchSize \<le> 0 \<or> batchSize > 10000 then (Some (OtherError ''content catalog batch size must be between 1 and 10000''), st)
      else case visit of
          None \<Rightarrow> (Some (OtherError ''content catalog visitor is required''), st)
        | Some f \<Rightarrow> walk_pages (nat batchSize) flt f d 0 [] st)"

definition ExistingContentKeys :: "string list \<Rightarrow> fault \<Rightarrow> db \<Rightarrow> string set result" where
  "ExistingContentKeys keys flt d =
     (if keys = [] then Inr {}
      else if length keys > 10000 then Inl (OtherError ''content key batch must not exceed 10000'')
      else fst (run_stmt sql_wrap (query (\<lambda>d. set (filter (\<lambda>k. k \<in> set keys) (map mc_key (mail_contents d))))) flt d))"

section \<open>The scan\<close>

datatype finding_kind = FindingMissing | FindingCorrupt | FindingOrphan

record finding =
  fd_kind :: finding_kind
  fd_content :: content_ref
  fd_repaired :: bool

text \<open>The summary, the objects of the current batch, the findings emitted, and the store.\<close>

record scan =
  sn_databaseRefs :: int
  sn_storedObjects :: int
  sn_missing :: int
  sn_corrupt :: int
  sn_orphans :: int
  sn_repaired :: int
  sn_batch :: "content_ref list"
  sn_findings :: "finding list"
  sn_store :: store

definition Unresolved :: "scan \<Rightarrow> int" where
  "Unresolved st = sn_missing st + sn_corrupt st + sn_orphans st - sn_repaired st"

record walk_entry =
  we_walkErr :: "go_error option"
  we_ctx :: "go_error option"
  we_parts :: "string list"
  we_dir :: bool
  we_regular :: bool
  we_info :: "int result"

record scan_env =
  sx_verify :: "string \<Rightarrow> store_env"
  sx_delete :: "string \<Rightarrow> store_env"
  sx_emit :: "finding \<Rightarrow> go_error option"
  sx_pages :: "nat \<Rightarrow> fault"
  sx_keys :: "string list \<Rightarrow> fault"
  sx_entries :: "walk_entry list"

definition validDigestPrefix :: "string \<Rightarrow> bool" where
  "validDigestPrefix v \<longleftrightarrow> length v = 2 \<and> to_lower v = v \<and> list_all (\<lambda>c. in_range CHR ''0'' CHR ''9'' c \<or> in_range CHR ''a'' CHR ''f'' c) v"

text \<open>The callback of \<^verbatim>\<open>walkObjects\<close> on one entry: an error, nothing to visit, or an object.\<close>

definition object_of :: "walk_entry \<Rightarrow> content_ref option result" where
  "object_of x =
     (case we_walkErr x of
        Some e \<Rightarrow> Inl e
      | None \<Rightarrow>
          (case we_ctx x of
             Some e \<Rightarrow> Inl e
           | None \<Rightarrow>
               if we_parts x = [] then Inr None
               else if we_dir x then
                 if length (we_parts x) > 2 \<or> \<not> validDigestPrefix (last (we_parts x)) then Inl (OtherError ''invalid content object directory'') else Inr None
               else if \<not> we_regular x then Inl (OtherError ''content object is not a regular file'')
               else (case we_parts x of
                       [a, b, digest] \<Rightarrow>
                         if length digest \<noteq> digestHexLength \<or> a \<noteq> take 2 digest \<or> b \<noteq> take 2 (drop 2 digest)
                         then Inl (OtherError ''non-canonical content object path'')
                         else (case relativePathForKey (''sha256/'' @ digest) of
                                 Inl e \<Rightarrow> Inl e
                               | Inr _ \<Rightarrow> (case we_info x of Inl e \<Rightarrow> Inl e | Inr n \<Rightarrow> Inr (Some \<lparr>cr_key = ''sha256/'' @ digest, cr_size = n\<rparr>)))
                     | _ \<Rightarrow> Inl (OtherError ''invalid content object path''))))"

definition emit :: "scan_env \<Rightarrow> finding \<Rightarrow> scan \<Rightarrow> go_error option \<times> scan" where
  "emit env f st = (sx_emit env f, st\<lparr>sn_findings := sn_findings st @ [f]\<rparr>)"

definition verify_ref :: "(bytes \<Rightarrow> bytes) \<Rightarrow> scan_env \<Rightarrow> content_ref \<Rightarrow> scan \<Rightarrow> go_error option \<times> scan" where
  "verify_ref sha256 env ref st =
     (let st1 = st\<lparr>sn_databaseRefs := sn_databaseRefs st + 1\<rparr> in
      case Verify sha256 (sx_verify env (cr_key ref)) ref (sn_store st1) of
        Inr _ \<Rightarrow> (None, st1)
      | Inl e \<Rightarrow>
          if e = ErrNotExist then emit env \<lparr>fd_kind = FindingMissing, fd_content = ref, fd_repaired = False\<rparr> (st1\<lparr>sn_missing := sn_missing st1 + 1\<rparr>)
          else if e = ErrContentCorrupt then emit env \<lparr>fd_kind = FindingCorrupt, fd_content = ref, fd_repaired = False\<rparr> (st1\<lparr>sn_corrupt := sn_corrupt st1 + 1\<rparr>)
          else (Some e, st1))"

definition flush_object :: "scan_env \<Rightarrow> bool \<Rightarrow> string set \<Rightarrow> content_ref \<Rightarrow> scan \<Rightarrow> go_error option \<times> scan" where
  "flush_object env repair existing ref st =
     (if cr_key ref \<in> existing then (None, st)
      else
        let st1 = st\<lparr>sn_orphans := sn_orphans st + 1\<rparr> in
        if repair then
          (case Delete (sx_delete env (cr_key ref)) ref (sn_store st1) of
             (Inl e, s) \<Rightarrow> (Some e, st1\<lparr>sn_store := s\<rparr>)
           | (Inr _, s) \<Rightarrow> emit env \<lparr>fd_kind = FindingOrphan, fd_content = ref, fd_repaired = True\<rparr> (st1\<lparr>sn_store := s, sn_repaired := sn_repaired st1 + 1\<rparr>))
        else emit env \<lparr>fd_kind = FindingOrphan, fd_content = ref, fd_repaired = False\<rparr> st1)"

definition flush :: "scan_env \<Rightarrow> bool \<Rightarrow> db \<Rightarrow> scan \<Rightarrow> go_error option \<times> scan" where
  "flush env repair d st =
     (if sn_batch st = [] then (None, st)
      else let keys = map cr_key (sn_batch st) in
        case ExistingContentKeys keys (sx_keys env keys) d of
          Inl e \<Rightarrow> (Some e, st)
        | Inr existing \<Rightarrow>
            (case visit_all (flush_object env repair existing) (sn_batch st) st of
               (Some e, st') \<Rightarrow> (Some e, st')
             | (None, st') \<Rightarrow> (None, st'\<lparr>sn_batch := []\<rparr>)))"

definition visit_entry :: "scan_env \<Rightarrow> int \<Rightarrow> bool \<Rightarrow> db \<Rightarrow> walk_entry \<Rightarrow> scan \<Rightarrow> go_error option \<times> scan" where
  "visit_entry env batchSize repair d x st =
     (case object_of x of
        Inl e \<Rightarrow> (Some e, st)
      | Inr None \<Rightarrow> (None, st)
      | Inr (Some ref) \<Rightarrow>
          let st1 = st\<lparr>sn_storedObjects := sn_storedObjects st + 1, sn_batch := sn_batch st @ [ref]\<rparr> in
          if int (length (sn_batch st1)) = batchSize then flush env repair d st1 else (None, st1))"

definition new_scan :: "store \<Rightarrow> scan" where
  "new_scan s = \<lparr>sn_databaseRefs = 0, sn_storedObjects = 0, sn_missing = 0, sn_corrupt = 0, sn_orphans = 0, sn_repaired = 0,
     sn_batch = [], sn_findings = [], sn_store = s\<rparr>"

definition Reconcile :: "(bytes \<Rightarrow> bytes) \<Rightarrow> bool \<Rightarrow> int \<Rightarrow> bool \<Rightarrow> scan_env \<Rightarrow> db \<Rightarrow> store \<Rightarrow> go_error option \<times> scan" where
  "Reconcile sha256 hasCatalog batchSize repair env d s =
     (if \<not> hasCatalog then (Some (OtherError ''content catalog is required''), new_scan s)
      else if batchSize \<le> 0 \<or> batchSize > 10000 then (Some (OtherError ''reconcile batch size must be between 1 and 10000''), new_scan s)
      else case WalkContentRefs batchSize (sx_pages env) (Some (verify_ref sha256 env)) d (new_scan s) of
          (Some e, st) \<Rightarrow> (Some e, st)
        | (None, st) \<Rightarrow>
            (case visit_all (visit_entry env batchSize repair d) (sx_entries env) st of
               (Some e, st') \<Rightarrow> (Some e, st')
             | (None, st') \<Rightarrow> flush env repair d st'))"

section \<open>The catalog is walked completely\<close>

definition rows_after :: "string \<Rightarrow> db \<Rightarrow> content_row list" where
  "rows_after after d = sort_key mc_key (filter (\<lambda>c. after < mc_key c) (mail_contents d))"

lemma visit_all_append:
  "visit_all visit (xs @ ys) st = (case visit_all visit xs st of (Some e, st') \<Rightarrow> (Some e, st') | (None, st') \<Rightarrow> visit_all visit ys st')"
  by (induction xs arbitrary: st) (auto split: prod.splits option.splits)

lemma strictly_sorted_rest:
  assumes "sorted_wrt (<) (map f S)" and "0 < n" and "n \<le> length S"
  shows "filter (\<lambda>c. f (last (take n S)) < (f c :: 'k :: linorder)) S = drop n S"
proof -
  have last: "last (take n S) = S ! (n - 1)" using assms(2,3) by (subst last_conv_nth) auto
  have less: "i < j \<Longrightarrow> j < length S \<Longrightarrow> f (S ! i) < f (S ! j)" for i j using assms(1) by (simp add: sorted_wrt_iff_nth_less)
  have "filter (\<lambda>c. f (last (take n S)) < f c) (take n S) = []"
  proof -
    have "\<not> f (S ! (n - 1)) < f (S ! i)" if "i < n" for i
    proof (cases "i = n - 1")
      case False
      then have "i < n - 1" "n - 1 < length S" using that assms(2,3) by linarith+
      from less [OF this] show ?thesis by simp
    qed simp
    then show ?thesis unfolding last filter_empty_conv using assms(3) by (auto simp: in_set_conv_nth)
  qed
  moreover have "filter (\<lambda>c. f (last (take n S)) < f c) (drop n S) = drop n S"
    unfolding last filter_id_conv using less assms(2,3) by (auto simp: in_set_conv_nth)
  ultimately show ?thesis by (metis append_take_drop_id filter_append append_Nil)
qed

lemma rows_after_page:
  assumes "distinct (map mc_key (mail_contents d))" and "0 < n" and "n \<le> length (rows_after after d)"
  shows "rows_after (mc_key (last (take n (rows_after after d)))) d = drop n (rows_after after d)"
proof -
  let ?S = "rows_after after d" and ?k = "mc_key (last (take n (rows_after after d)))"
  have "distinct (map mc_key ?S)" using assms(1) by (auto simp: rows_after_def distinct_map inj_on_def)
  moreover have "sorted (map mc_key ?S)" by (simp add: rows_after_def)
  ultimately have strict: "sorted_wrt (<) (map mc_key ?S)" by (simp add: strict_sorted_iff)
  have "last (take n ?S) \<in> set ?S" using assms(2,3) by (metis in_set_takeD last_in_set length_greater_0_conv length_take min.absorb2)
  then have "after < ?k" by (auto simp: rows_after_def)
  then have "filter (\<lambda>c. ?k < mc_key c) (mail_contents d) = filter (\<lambda>c. ?k < mc_key c) (filter (\<lambda>c. after < mc_key c) (mail_contents d))"
    by (auto intro!: filter_cong)
  then have "rows_after ?k d = filter (\<lambda>c. ?k < mc_key c) ?S" unfolding rows_after_def filter_sort by simp
  also have "\<dots> = drop n ?S" by (rule strictly_sorted_rest [OF strict assms(2,3)])
  finally show ?thesis .
qed

lemma walk_pages_outcome:
  assumes "distinct (map mc_key (mail_contents d))" and "0 < n"
  shows "walk_pages n flt visit d k after st = visit_all visit (map row_ref (rows_after after d)) st \<or>
    (\<exists>j e st'. flt j \<noteq> NoFault \<and> walk_pages n flt visit d k after st = (Some e, st'))"
  using assms
proof (induction n flt visit d k after st rule: walk_pages.induct)
  case (1 n flt visit d k after st)
  show ?case
  proof (cases "fst (run_stmt sql_wrap (query (catalog_page after n)) (flt k) d)")
    case (Inl e)
    moreover have "flt k \<noteq> NoFault" using Inl by (auto simp: run_stmt_def query_def)
    ultimately show ?thesis by (subst (2) walk_pages.simps) auto
  next
    case (Inr page)
    then have page: "page = map row_ref (take n (rows_after after d))" by (auto simp: run_stmt_def query_def catalog_page_def rows_after_def split: fault.splits)
    obtain err st' where visit: "visit_all visit page st = (err, st')" by fastforce
    show ?thesis
    proof (cases err)
      case (Some e)
      have "visit_all visit (page @ map row_ref (drop n (rows_after after d))) st = (Some e, st')" unfolding visit_all_append visit Some by simp
      then have "visit_all visit (map row_ref (rows_after after d)) st = (Some e, st')" unfolding page by (metis append_take_drop_id map_append)
      then show ?thesis using Inr visit Some by (subst walk_pages.simps) simp
    next
      case None
      have step: "walk_pages n flt visit d k after st =
          (if length page < n \<or> page = [] then (None, st') else walk_pages n flt visit d (Suc k) (cr_key (last page)) st')"
        using Inr visit None by (subst walk_pages.simps) simp
      show ?thesis
      proof (cases "length page < n \<or> page = []")
        case True
        then have "length (rows_after after d) \<le> n" using page 1(3) by auto
        then have "page = map row_ref (rows_after after d)" using page by simp
        then show ?thesis using step True visit None by simp
      next
        case False
        then have n: "n \<le> length (rows_after after d)" using page by auto
        have key: "cr_key (last page) = mc_key (last (take n (rows_after after d)))" using page False by (simp add: last_map row_ref_def)
        have rest: "rows_after (cr_key (last page)) d = drop n (rows_after after d)" unfolding key by (rule rows_after_page [OF 1(2,3) n])
        have "visit_all visit (map row_ref (rows_after after d)) st = visit_all visit (page @ map row_ref (drop n (rows_after after d))) st"
          unfolding page by (metis append_take_drop_id map_append)
        also have "\<dots> = visit_all visit (map row_ref (rows_after (cr_key (last page)) d)) st'" unfolding visit_all_append visit None rest by simp
        finally show ?thesis using 1(1) [OF Inr visit [symmetric] None False 1(2,3)] step False by simp
      qed
    qed
  qed
qed

section \<open>The scan keeps mail\<close>

lemma visit_all_keeps:
  assumes "\<And>r st err st'. r \<in> set rs \<Longrightarrow> visit r st = (err, st') \<Longrightarrow> P st \<Longrightarrow> P st'"
  shows "visit_all visit rs st = (err, st') \<Longrightarrow> P st \<Longrightarrow> P st'"
  using assms
proof (induction rs arbitrary: st)
  case (Cons r rs)
  obtain e1 st1 where v: "visit r st = (e1, st1)" by fastforce
  have "P st1" by (rule Cons.prems(3) [OF _ v Cons.prems(2)]) simp
  then show ?case using Cons.prems(1) v Cons.IH [of st1] Cons.prems(3) by (cases e1) auto
qed simp

lemma walk_pages_keeps:
  assumes "\<And>r st err st'. visit r st = (err, st') \<Longrightarrow> P st \<Longrightarrow> P st'"
  shows "walk_pages n flt visit d k after st = (err, st') \<Longrightarrow> P st \<Longrightarrow> P st'"
  using assms
proof (induction n flt visit d k after st rule: walk_pages.induct)
  case (1 n flt visit d k after st)
  show ?case
  proof (cases "fst (run_stmt sql_wrap (query (catalog_page after n)) (flt k) d)")
    case (Inl e)
    then show ?thesis using 1(2,3) by (simp add: walk_pages.simps [of n flt visit d k after st])
  next
    case (Inr page)
    obtain e1 st1 where v: "visit_all visit page st = (e1, st1)" by fastforce
    have p1: "P st1" by (rule visit_all_keeps [where P = P, OF _ v 1(3)]) (rule 1(4))
    show ?thesis
    proof (cases "e1 = None \<and> \<not> (length page < n \<or> page = [])")
      case True
      then have "walk_pages n flt visit d (Suc k) (cr_key (last page)) st1 = (err, st')" using 1(2) Inr v by (simp add: walk_pages.simps [of n flt visit d k after st])
      then show ?thesis using 1(1) [OF Inr v [symmetric]] True p1 1(4) by blast
    next
      case False
      then show ?thesis using 1(2) p1 Inr v by (auto simp: walk_pages.simps [of n flt visit d k after st] split: option.splits if_splits)
    qed
  qed
qed

lemma verify_ref_store: "verify_ref sha256 env ref st = (err, st') \<Longrightarrow> sn_store st' = sn_store st \<and> sn_batch st' = sn_batch st"
  by (auto simp: verify_ref_def emit_def Let_def split: sum.splits if_splits)

lemma ExistingContentKeys_Inr:
  "ExistingContentKeys keys flt d = Inr existing \<Longrightarrow> existing = set keys \<inter> mc_key ` set (mail_contents d)"
  by (auto simp: ExistingContentKeys_def run_stmt_def query_def split: if_splits fault.splits)

lemma delete_unreferenced_keeps:
  assumes "mail_state_ok sha256 s d" and "Delete env ref s = (r, s')" and "cr_key ref \<notin> mc_key ` set (mail_contents d)"
  shows "mail_state_ok sha256 s' d"
proof -
  note k = deleteLocked_keeps [OF assms(2) [unfolded Delete_def]]
  have "durable_ref sha256 s' (mc_key c) (mc_size c)" if "c \<in> set (mail_contents d)" for c
  proof -
    have "durable_ref sha256 s (mc_key c) (mc_size c)" using assms(1) that by (auto simp: mail_state_ok_def mail_ok_def contents_stored_def)
    moreover have "mc_key c \<noteq> cr_key ref" using that assms(3) by (metis imageI)
    ultimately show ?thesis using k(6) by (auto simp: durable_ref_def)
  qed
  then show ?thesis using assms(1) k(1) by (auto simp: mail_state_ok_def mail_ok_def contents_stored_def)
qed

lemma flush_object_keeps:
  assumes "flush_object env repair existing ref st = (err, st')" and "cr_key ref \<in> existing \<or> cr_key ref \<notin> mc_key ` set (mail_contents d)"
    and "mail_state_ok sha256 (sn_store st) d"
  shows "mail_state_ok sha256 (sn_store st') d"
proof (cases "cr_key ref \<in> existing \<or> \<not> repair")
  case True
  then show ?thesis using assms(1,3) by (auto simp: flush_object_def emit_def Let_def split: if_splits)
next
  case False
  obtain r s where del: "Delete (sx_delete env (cr_key ref)) ref (sn_store st) = (r, s)" by fastforce
  have "sn_store st' = s" using assms(1) False del by (auto simp: flush_object_def emit_def Let_def split: sum.splits)
  then show ?thesis using delete_unreferenced_keeps [OF assms(3) del] assms(2) False by blast
qed

lemma flush_keeps:
  assumes "flush env repair d st = (err, st')" and "mail_state_ok sha256 (sn_store st) d"
  shows "mail_state_ok sha256 (sn_store st') d"
proof (cases "sn_batch st = []")
  case False
  let ?keys = "map cr_key (sn_batch st)"
  show ?thesis
  proof (cases "ExistingContentKeys ?keys (sx_keys env ?keys) d")
    case (Inr existing)
    obtain e1 st1 where v: "visit_all (flush_object env repair existing) (sn_batch st) st = (e1, st1)" by fastforce
    have "cr_key r \<in> existing \<or> cr_key r \<notin> mc_key ` set (mail_contents d)" if "r \<in> set (sn_batch st)" for r
      using ExistingContentKeys_Inr [OF Inr] that by auto
    then have "mail_state_ok sha256 (sn_store st1) d"
      using visit_all_keeps [where P = "\<lambda>st. mail_state_ok sha256 (sn_store st) d", OF _ v assms(2)] flush_object_keeps by blast
    then show ?thesis using assms(1) False Inr v by (auto simp: flush_def Let_def split: option.splits)
  qed (use assms False in \<open>auto simp: flush_def Let_def\<close>)
qed (use assms in \<open>simp add: flush_def\<close>)

lemma visit_entry_keeps:
  assumes "visit_entry env batchSize repair d x st = (err, st')" and "mail_state_ok sha256 (sn_store st) d"
  shows "mail_state_ok sha256 (sn_store st') d"
proof (cases "object_of x")
  case (Inr o')
  show ?thesis
  proof (cases o')
    case (Some ref)
    let ?st = "st\<lparr>sn_storedObjects := sn_storedObjects st + 1, sn_batch := sn_batch st @ [ref]\<rparr>"
    show ?thesis using assms Inr Some flush_keeps [of env repair d ?st err st' sha256] by (auto simp: visit_entry_def Let_def split: if_splits)
  qed (use assms Inr in \<open>simp add: visit_entry_def\<close>)
qed (use assms in \<open>simp add: visit_entry_def\<close>)

text \<open>
  C19. The maintenance scan never touches mail: whatever fails and wherever it stops, with or without the removal of orphans, every
  content row still has its object, durably and with the digest and size of the row, and the tables are as they were.
\<close>

theorem Reconcile_keeps_mail:
  assumes "mail_state_ok sha256 s d" and "Reconcile sha256 hasCatalog batchSize repair env d s = (err, st)"
  shows "mail_state_ok sha256 (sn_store st) d"
proof (cases "\<not> hasCatalog \<or> batchSize \<le> 0 \<or> batchSize > 10000")
  case True
  then show ?thesis using assms by (auto simp: Reconcile_def new_scan_def split: if_splits)
next
  case False
  let ?P = "\<lambda>st. mail_state_ok sha256 (sn_store st) d"
  obtain e1 st1 where w: "walk_pages (nat batchSize) (sx_pages env) (verify_ref sha256 env) d 0 [] (new_scan s) = (e1, st1)" by fastforce
  have "?P (new_scan s)" using assms(1) by (simp add: new_scan_def)
  then have p1: "?P st1" using walk_pages_keeps [where P = ?P, OF _ w] verify_ref_store by metis
  obtain e2 st2 where v: "visit_all (visit_entry env batchSize repair d) (sx_entries env) st1 = (e2, st2)" by fastforce
  have p2: "?P st2" using visit_all_keeps [where P = ?P, OF _ v p1] visit_entry_keeps by blast
  show ?thesis using assms(2) False w v p1 p2 flush_keeps [of env repair d st2 err st sha256]
    by (auto simp: Reconcile_def WalkContentRefs_def split: option.splits)
qed

section \<open>The scan is exact\<close>

definition row_finding :: "(bytes \<Rightarrow> bytes) \<Rightarrow> store \<Rightarrow> content_row \<Rightarrow> finding list" where
  "row_finding sha256 s c =
     (case st_objects s (object_path (mc_key c)) of
        None \<Rightarrow> [\<lparr>fd_kind = FindingMissing, fd_content = row_ref c, fd_repaired = False\<rparr>]
      | Some b \<Rightarrow> if int (length b) = mc_size c \<and> object_key sha256 b = mc_key c then []
                  else [\<lparr>fd_kind = FindingCorrupt, fd_content = row_ref c, fd_repaired = False\<rparr>])"

definition orphan_finding :: "bool \<Rightarrow> content_ref \<Rightarrow> finding" where
  "orphan_finding repair ref = \<lparr>fd_kind = FindingOrphan, fd_content = ref, fd_repaired = repair\<rparr>"

abbreviation of_kind :: "finding_kind \<Rightarrow> finding list \<Rightarrow> finding list" where
  "of_kind k fs \<equiv> filter (\<lambda>f. fd_kind f = k) fs"

definition quiet_scan :: "scan_env \<Rightarrow> bool" where
  "quiet_scan env \<longleftrightarrow> (\<forall>k. sv_flt (sx_verify env k) = (\<lambda>_. None) \<and> sv_cancel (sx_verify env k) = None \<and> sv_flt (sx_delete env k) = (\<lambda>_. None))"

lemma content_row_key: "content_row_ok c \<Longrightarrow> key_valid (mc_key c) \<and> 0 \<le> mc_size c"
  by (simp add: content_row_ok_def)

lemma row_verify_quiet:
  assumes "quiet_scan env" and "content_row_ok c"
  shows "Verify sha256 (sx_verify env (mc_key c)) (row_ref c) s =
    (case row_finding sha256 s c of [] \<Rightarrow> Inr () | f # _ \<Rightarrow> Inl (if fd_kind f = FindingMissing then ErrNotExist else ErrContentCorrupt))"
  using assms content_row_key [OF assms(2)]
  by (auto simp: Verify_def OpenContent_def quiet_scan_def row_ref_def row_finding_def relativePathForKey_valid split: option.split)

lemma verify_ref_quiet:
  assumes "quiet_scan env" and "content_row_ok c" and "verify_ref sha256 env (row_ref c) st = (None, st')"
  shows "st' = st\<lparr>sn_databaseRefs := sn_databaseRefs st + 1, sn_missing := sn_missing st + int (length (of_kind FindingMissing (row_finding sha256 (sn_store st) c))),
     sn_corrupt := sn_corrupt st + int (length (of_kind FindingCorrupt (row_finding sha256 (sn_store st) c))), sn_findings := sn_findings st @ row_finding sha256 (sn_store st) c\<rparr>"
  using assms(3) row_verify_quiet [OF assms(1,2), of sha256 "sn_store st"]
  by (cases "st_objects (sn_store st) (object_path (mc_key c))") (auto simp: verify_ref_def row_finding_def emit_def row_ref_def Let_def split: if_splits)

lemma verify_all_quiet:
  assumes "quiet_scan env" and "list_all content_row_ok cs"
  shows "visit_all (verify_ref sha256 env) (map row_ref cs) st = (None, st') \<Longrightarrow>
    (let fs = concat (map (row_finding sha256 (sn_store st)) cs) in
     st' = st\<lparr>sn_databaseRefs := sn_databaseRefs st + int (length cs), sn_missing := sn_missing st + int (length (of_kind FindingMissing fs)),
       sn_corrupt := sn_corrupt st + int (length (of_kind FindingCorrupt fs)), sn_findings := sn_findings st @ fs\<rparr>)"
  using assms(2)
proof (induction cs arbitrary: st)
  case (Cons c cs)
  obtain st1 where v: "verify_ref sha256 env (row_ref c) st = (None, st1)" and rest: "visit_all (verify_ref sha256 env) (map row_ref cs) st1 = (None, st')"
    using Cons.prems(1) by (auto split: prod.splits option.splits)
  have store: "sn_store st1 = sn_store st" using verify_ref_store [OF v] by simp
  show ?case using Cons.IH [OF rest] verify_ref_quiet [OF assms(1) _ v] Cons.prems(2) store by (simp add: Let_def algebra_simps)
qed (simp add: Let_def)

text \<open>
  What becomes of an object, and the state when the current batch has been flushed: an abstraction on which each entry
  acts alone, whatever the size of the batches.
\<close>

definition settle :: "scan_env \<Rightarrow> bool \<Rightarrow> db \<Rightarrow> content_ref \<Rightarrow> scan \<Rightarrow> scan" where
  "settle env repair d ref st =
     (if cr_key ref \<in> mc_key ` set (mail_contents d) then st
      else st\<lparr>sn_orphans := sn_orphans st + 1, sn_repaired := sn_repaired st + (if repair then 1 else 0),
        sn_findings := sn_findings st @ [orphan_finding repair ref],
        sn_store := (if repair then snd (Delete (sx_delete env (cr_key ref)) ref (sn_store st)) else sn_store st)\<rparr>)"

definition settled :: "scan_env \<Rightarrow> bool \<Rightarrow> db \<Rightarrow> scan \<Rightarrow> scan" where
  "settled env repair d st = (fold (settle env repair d) (sn_batch st) st)\<lparr>sn_batch := []\<rparr>"

lemma settle_batch: "settle env repair d ref (st\<lparr>sn_batch := b\<rparr>) = (settle env repair d ref st)\<lparr>sn_batch := b\<rparr>"
  "settle env repair d ref (st\<lparr>sn_storedObjects := n\<rparr>) = (settle env repair d ref st)\<lparr>sn_storedObjects := n\<rparr>"
  "sn_batch (settle env repair d ref st) = sn_batch st" "sn_storedObjects (settle env repair d ref st) = sn_storedObjects st"
  by (simp_all add: settle_def)

lemma fold_settle_batch:
  "fold (settle env repair d) rs (st\<lparr>sn_batch := b\<rparr>) = (fold (settle env repair d) rs st)\<lparr>sn_batch := b\<rparr>"
  "fold (settle env repair d) rs (st\<lparr>sn_storedObjects := n\<rparr>) = (fold (settle env repair d) rs st)\<lparr>sn_storedObjects := n\<rparr>"
  "sn_batch (fold (settle env repair d) rs st) = sn_batch st" "sn_storedObjects (fold (settle env repair d) rs st) = sn_storedObjects st"
  by (induction rs arbitrary: st) (simp_all add: settle_batch)

lemma flush_object_settles:
  assumes "flush_object env repair existing ref st = (None, st')" and "cr_key ref \<in> existing \<longleftrightarrow> cr_key ref \<in> mc_key ` set (mail_contents d)"
  shows "st' = settle env repair d ref st"
  using assms by (auto simp: flush_object_def settle_def emit_def orphan_finding_def Let_def split: if_splits prod.splits sum.splits)

lemma flush_settles:
  assumes "flush env repair d st = (None, st')"
  shows "st' = settled env repair d st"
proof (cases "sn_batch st = []")
  case False
  let ?keys = "map cr_key (sn_batch st)"
  obtain existing st1 where ex: "ExistingContentKeys ?keys (sx_keys env ?keys) d = Inr existing"
    and v: "visit_all (flush_object env repair existing) (sn_batch st) st = (None, st1)" and st': "st' = st1\<lparr>sn_batch := []\<rparr>"
    using assms False by (auto simp: flush_def Let_def split: sum.splits prod.splits option.splits)
  have "visit_all (flush_object env repair existing) rs st = (None, u) \<Longrightarrow> set rs \<subseteq> set (sn_batch st0) \<Longrightarrow> existing = set (map cr_key (sn_batch st0)) \<inter> mc_key ` set (mail_contents d)
      \<Longrightarrow> u = fold (settle env repair d) rs st" for rs st u st0
  proof (induction rs arbitrary: st)
    case (Cons r rs)
    obtain st2 where "flush_object env repair existing r st = (None, st2)" "visit_all (flush_object env repair existing) rs st2 = (None, u)"
      using Cons.prems(1) by (auto split: prod.splits option.splits)
    then show ?case using Cons.IH Cons.prems(2,3) flush_object_settles [of env repair existing r st st2 d] by auto
  qed simp
  from this [OF v subset_refl ExistingContentKeys_Inr [OF ex]] show ?thesis unfolding st' settled_def by simp
qed (use assms in \<open>simp add: flush_def settled_def\<close>)

definition objects_in :: "walk_entry list \<Rightarrow> content_ref list" where
  "objects_in xs = List.map_filter (\<lambda>x. case object_of x of Inr o' \<Rightarrow> o' | Inl _ \<Rightarrow> None) xs"

lemma settled_add:
  "settled env repair d (st\<lparr>sn_storedObjects := n, sn_batch := sn_batch st @ [ref]\<rparr>) = (settle env repair d ref (settled env repair d st))\<lparr>sn_storedObjects := n\<rparr>"
  by (simp add: settled_def fold_settle_batch settle_batch)

lemma settled_idem: "settled env repair d (settled env repair d st) = settled env repair d st"
  by (simp add: settled_def)

lemma settled_stored: "sn_storedObjects (settled env repair d st) = sn_storedObjects st"
  by (simp add: settled_def fold_settle_batch)

lemma visit_entry_settles:
  assumes "visit_entry env batchSize repair d x st = (None, st')"
  shows "settled env repair d st' = (case object_of x of
      Inr (Some ref) \<Rightarrow> (settle env repair d ref (settled env repair d st))\<lparr>sn_storedObjects := sn_storedObjects st + 1\<rparr>
    | _ \<Rightarrow> settled env repair d st)"
proof (cases "object_of x")
  case (Inr o')
  show ?thesis
  proof (cases o')
    case (Some ref)
    let ?st = "st\<lparr>sn_storedObjects := sn_storedObjects st + 1, sn_batch := sn_batch st @ [ref]\<rparr>"
    have "settled env repair d st' = settled env repair d ?st"
      using assms Inr Some flush_settles [of env repair d ?st st'] by (auto simp: visit_entry_def Let_def settled_idem split: if_splits)
    then show ?thesis using Inr Some by (simp add: settled_add)
  qed (use assms Inr in \<open>simp add: visit_entry_def\<close>)
qed (use assms in \<open>simp add: visit_entry_def\<close>)

lemma visit_entries_settle:
  "visit_all (visit_entry env batchSize repair d) xs st = (None, st') \<Longrightarrow>
     settled env repair d st' = (fold (settle env repair d) (objects_in xs) (settled env repair d st))\<lparr>sn_storedObjects := sn_storedObjects st + int (length (objects_in xs))\<rparr>"
proof (induction xs arbitrary: st)
  case (Cons x xs)
  obtain st1 where v: "visit_entry env batchSize repair d x st = (None, st1)" and rest: "visit_all (visit_entry env batchSize repair d) xs st1 = (None, st')"
    using Cons.prems by (auto split: prod.splits option.splits)
  note x = visit_entry_settles [OF v]
  have n: "sn_storedObjects st1 = sn_storedObjects (settled env repair d st1)" by (simp add: settled_stored)
  show ?case
  proof (cases "case object_of x of Inr o' \<Rightarrow> o' | Inl _ \<Rightarrow> None")
    case None
    then have "settled env repair d st1 = settled env repair d st" using x by (auto split: sum.splits)
    then show ?thesis using Cons.IH [OF rest] None n by (simp add: objects_in_def map_filter_simps settled_stored)
  next
    case (Some ref)
    then have "settled env repair d st1 = (settle env repair d ref (settled env repair d st))\<lparr>sn_storedObjects := sn_storedObjects st + 1\<rparr>"
      using x by (auto split: sum.splits)
    then show ?thesis using Cons.IH [OF rest] Some n by (simp add: objects_in_def map_filter_simps fold_settle_batch)
  qed
qed (simp add: objects_in_def map_filter_simps settled_def fold_settle_batch)

lemma objects_in_valid: "ref \<in> set (objects_in xs) \<Longrightarrow> key_valid (cr_key ref)"
  by (induction xs) (auto simp: objects_in_def map_filter_simps object_of_def relativePathForKey_Inr split: sum.splits option.splits if_splits list.splits)

lemma Delete_quiet:
  assumes "sv_flt env = (\<lambda>_. None)" and "key_valid (cr_key ref)"
  shows "st_objects (snd (Delete env ref s)) = (st_objects s)(object_path (cr_key ref) := None)"
  using assms by (auto simp: Delete_def deleteLocked_def relativePathForKey_valid sync_objects_def Let_def split: option.split)

abbreviation orphans :: "db \<Rightarrow> content_ref list \<Rightarrow> content_ref list" where
  "orphans d refs \<equiv> filter (\<lambda>r. cr_key r \<notin> mc_key ` set (mail_contents d)) refs"

lemma fold_settle:
  "sn_orphans (fold (settle env repair d) rs st) = sn_orphans st + int (length (orphans d rs))"
  "sn_repaired (fold (settle env repair d) rs st) = sn_repaired st + (if repair then int (length (orphans d rs)) else 0)"
  "sn_findings (fold (settle env repair d) rs st) = sn_findings st @ map (orphan_finding repair) (orphans d rs)"
  "sn_missing (fold (settle env repair d) rs st) = sn_missing st" "sn_corrupt (fold (settle env repair d) rs st) = sn_corrupt st"
  "sn_databaseRefs (fold (settle env repair d) rs st) = sn_databaseRefs st"
  by (induction rs arbitrary: st) (auto simp: settle_def)

lemma fold_settle_store:
  assumes "quiet_scan env" and "\<And>r. r \<in> set rs \<Longrightarrow> key_valid (cr_key r)"
  shows "st_objects (sn_store (fold (settle env repair d) rs st)) =
    (\<lambda>p. if repair \<and> p \<in> (\<lambda>r. object_path (cr_key r)) ` set (orphans d rs) then None else st_objects (sn_store st) p)"
  using assms(2)
proof (induction rs arbitrary: st)
  case (Cons r rs)
  have "st_objects (sn_store (settle env repair d r st)) =
      (if repair \<and> cr_key r \<notin> mc_key ` set (mail_contents d) then (st_objects (sn_store st))(object_path (cr_key r) := None) else st_objects (sn_store st))"
    using Delete_quiet [of "sx_delete env (cr_key r)" r "sn_store st"] assms(1) Cons.prems by (simp add: settle_def quiet_scan_def)
  then show ?case using Cons by (auto simp: fun_eq_iff)
qed (simp add: fun_eq_iff)

lemma rows_from_start:
  assumes "db_wf d"
  shows "rows_after [] d = sort_key mc_key (mail_contents d)"
proof -
  have "[] < mc_key c" if "c \<in> set (mail_contents d)" for c
    using that assms content_row_key [of c] by (cases "mc_key c") (auto simp: db_wf_def wf_contents_def list_all_iff key_valid_def has_prefix_def)
  then have "filter (\<lambda>c. [] < mc_key c) (mail_contents d) = mail_contents d" by (simp add: filter_id_conv)
  then show ?thesis by (simp add: rows_after_def)
qed

section \<open>What the walk reports of a directory of objects\<close>

text \<open>
  \<^verbatim>\<open>filepath.WalkDir\<close> over an object directory that holds the objects \<open>objs\<close>, under their canonical names, and nothing else: it reports
  no error, each object once, as a regular file with the components of its path and its size, in an order of its own, and the root and
  the directories of the two prefixes.
\<close>

definition file_entry :: "string \<Rightarrow> bytes \<Rightarrow> walk_entry" where
  "file_entry p b = \<lparr>we_walkErr = None, we_ctx = None, we_parts = split_on CHR ''/'' p, we_dir = False, we_regular = True,
     we_info = Inr (int (length b))\<rparr>"

definition directory_entry :: "walk_entry \<Rightarrow> bool" where
  "directory_entry x \<longleftrightarrow> we_dir x \<and> we_walkErr x = None \<and> we_ctx x = None \<and>
     (we_parts x = [] \<or> length (we_parts x) \<le> 2 \<and> validDigestPrefix (last (we_parts x)))"

definition walk_shows :: "(string \<Rightarrow> bytes option) \<Rightarrow> walk_entry list \<Rightarrow> bool" where
  "walk_shows objs xs \<longleftrightarrow>
     (\<forall>p. objs p \<noteq> None \<longrightarrow> (\<exists>key. key_valid key \<and> p = object_path key)) \<and>
     list_all directory_entry (filter we_dir xs) \<and>
     (\<exists>ps. distinct ps \<and> set ps = {p. objs p \<noteq> None} \<and> filter (\<lambda>x. \<not> we_dir x) xs = map (\<lambda>p. file_entry p (the (objs p))) ps)"

text \<open>The references of the objects in a directory, and those among them that no row has.\<close>

definition stored_refs :: "(string \<Rightarrow> bytes option) \<Rightarrow> content_ref set" where
  "stored_refs objs = {\<lparr>cr_key = key, cr_size = int (length b)\<rparr> | key b. key_valid key \<and> objs (object_path key) = Some b}"

definition unreferenced :: "(string \<Rightarrow> bytes option) \<Rightarrow> db \<Rightarrow> content_ref set" where
  "unreferenced objs d = {r \<in> stored_refs objs. cr_key r \<notin> mc_key ` set (mail_contents d)}"

lemma object_path_split:
  assumes "key_valid key"
  shows "split_on CHR ''/'' (object_path key) = [take 2 (drop 7 key), take 2 (drop 9 key), drop 7 key]"
proof -
  have "CHR ''/'' \<notin> set (drop 7 key)" using assms by (auto simp: key_valid_def list_all_iff lower_hex_char_def in_range_def)
  then have n: "CHR ''/'' \<notin> set (take 2 (drop 7 key))" "CHR ''/'' \<notin> set (take 2 (drop 9 key))" "CHR ''/'' \<notin> set (drop 7 key)"
    using in_set_takeD [of _ 2 "drop 7 key"] in_set_takeD [of _ 2 "drop 9 key"] in_set_dropD [of _ 2 "drop 7 key"] by auto
  have "drop 2 (drop 7 key) = drop 9 key" by simp
  then show ?thesis using split_on_append [OF n(1), of "take 2 (drop 9 key) @ CHR ''/'' # drop 7 key"] split_on_append [OF n(2), of "drop 7 key"] split_on_none [OF n(3)]
    by (simp add: object_path_def Let_def)
qed

lemma object_of_file:
  assumes "key_valid key"
  shows "object_of (file_entry (object_path key) b) = Inr (Some \<lparr>cr_key = key, cr_size = int (length b)\<rparr>)"
proof -
  obtain dg where k: "key = ''sha256/'' @ dg" "length dg = 64" using assms by (auto simp: key_valid_def has_prefix_iff)
  then have d: "drop 7 key = dg" "take 2 (drop 9 key) = take 2 (drop 2 dg)" by simp_all
  have r: "relativePathForKey (''sha256/'' @ dg) = Inr (object_path key)" using relativePathForKey_valid [OF assms] k(1) by simp
  have parts: "split_on CHR ''/'' (object_path key) = [take 2 dg, take 2 (drop 2 dg), dg]" using object_path_split [OF assms] unfolding d .
  have "length dg = digestHexLength" using k(2) by (simp add: digestHexLength_def digestBytes_def)
  then show ?thesis unfolding object_of_def file_entry_def parts using r k(1) by simp
qed

lemma object_of_directory: "directory_entry x \<Longrightarrow> object_of x = Inr None"
  by (auto simp: directory_entry_def object_of_def)

lemma objects_in_files:
  "list_all directory_entry (filter we_dir xs) \<Longrightarrow> objects_in xs = objects_in (filter (\<lambda>x. \<not> we_dir x) xs)"
  by (induction xs) (auto simp: objects_in_def map_filter_simps object_of_directory split: option.split)

text \<open>The objects the scan visits are exactly those of the directory, each once.\<close>

lemma walk_objects:
  assumes "walk_shows objs xs"
  shows "list_all (\<lambda>x. is_ok (object_of x)) xs" and "distinct (map cr_key (objects_in xs))" and "set (objects_in xs) = stored_refs objs"
    and "(\<lambda>r. object_path (cr_key r)) ` set (objects_in xs) = {p. objs p \<noteq> None}"
proof -
  from assms obtain ps where ps: "distinct ps" "set ps = {p. objs p \<noteq> None}" "filter (\<lambda>x. \<not> we_dir x) xs = map (\<lambda>p. file_entry p (the (objs p))) ps"
    and dirs: "list_all directory_entry (filter we_dir xs)" and names: "\<And>p. objs p \<noteq> None \<Longrightarrow> \<exists>key. key_valid key \<and> p = object_path key"
    unfolding walk_shows_def by blast
  have "\<forall>p \<in> set ps. \<exists>key. key_valid key \<and> p = object_path key" using names ps(2) by simp
  then obtain kf where kf: "\<And>p. p \<in> set ps \<Longrightarrow> key_valid (kf p) \<and> p = object_path (kf p)" by metis
  let ?ref = "\<lambda>p. \<lparr>cr_key = kf p, cr_size = int (length (the (objs p)))\<rparr>"
  have entry: "object_of (file_entry p (the (objs p))) = Inr (Some (?ref p))" if "p \<in> set ps" for p
    using object_of_file [of "kf p" "the (objs p)"] kf [OF that] by simp
  have "objects_in (map (\<lambda>p. file_entry p (the (objs p))) qs) = map ?ref qs" if "set qs \<subseteq> set ps" for qs
    using that by (induction qs) (auto simp: objects_in_def map_filter_simps entry)
  then have objs: "objects_in xs = map ?ref ps" using objects_in_files [OF dirs] ps(3) by simp
  show "list_all (\<lambda>x. is_ok (object_of x)) xs" unfolding list_all_iff
  proof
    fix x assume x: "x \<in> set xs"
    show "is_ok (object_of x)"
    proof (cases "we_dir x")
      case True
      then show ?thesis using x dirs by (simp add: list_all_iff object_of_directory)
    next
      case False
      then have "x \<in> set (map (\<lambda>p. file_entry p (the (objs p))) ps)" using x ps(3) [symmetric] by simp
      then show ?thesis using entry by auto
    qed
  qed
  have "inj_on kf (set ps)" using kf by (metis inj_onI)
  then show "distinct (map cr_key (objects_in xs))" using ps(1) unfolding objs by (simp add: comp_def distinct_map)
  show path: "(\<lambda>r. object_path (cr_key r)) ` set (objects_in xs) = {p. objs p \<noteq> None}" using kf ps(2) unfolding objs by (auto simp: image_image image_iff)
  show "set (objects_in xs) = stored_refs objs"
  proof
    show "set (objects_in xs) \<subseteq> stored_refs objs" using kf ps(2) unfolding objs stored_refs_def by force
    show "stored_refs objs \<subseteq> set (objects_in xs)"
    proof
      fix r assume "r \<in> stored_refs objs"
      then obtain key b where r: "r = \<lparr>cr_key = key, cr_size = int (length b)\<rparr>" "key_valid key" "objs (object_path key) = Some b" by (auto simp: stored_refs_def)
      then have p: "object_path key \<in> set ps" using ps(2) by simp
      then have "kf (object_path key) = key" using kf [OF p] object_path_inj r(2) by metis
      then have "r = ?ref (object_path key)" using r by simp
      then show "r \<in> set (objects_in xs)" using p unfolding objs by auto
    qed
  qed
qed

section \<open>The scan completes\<close>

text \<open>Nothing fails: no statement, no file operation, no emission.\<close>

definition calm_scan :: "scan_env \<Rightarrow> bool" where
  "calm_scan env \<longleftrightarrow> quiet_scan env \<and> (\<forall>f. sx_emit env f = None) \<and> (\<forall>k. sx_pages env k = NoFault) \<and> (\<forall>ks. sx_keys env ks = NoFault)"

lemma visit_all_calm: "(\<And>r st. r \<in> set rs \<Longrightarrow> fst (visit r st) = None) \<Longrightarrow> fst (visit_all visit rs st) = None"
proof (induction rs arbitrary: st)
  case (Cons r rs)
  have "fst (visit r st) = None" using Cons.prems by simp
  then show ?case using Cons by (cases "visit r st") auto
qed simp

lemma verify_ref_calm:
  assumes "calm_scan env" and "content_row_ok c"
  shows "fst (verify_ref sha256 env (row_ref c) st) = None"
  using row_verify_quiet [of env c sha256 "sn_store st"] assms
  by (auto simp: calm_scan_def verify_ref_def emit_def row_ref_def Let_def split: list.splits)

lemma flush_object_calm:
  assumes "calm_scan env" and "key_valid (cr_key ref)"
  shows "fst (flush_object env repair existing ref st) = None"
  using assms
  by (auto simp: calm_scan_def quiet_scan_def flush_object_def emit_def Delete_def deleteLocked_def relativePathForKey_valid Let_def split: option.split)

lemma flush_calm:
  assumes "calm_scan env" and "list_all (\<lambda>r. key_valid (cr_key r)) (sn_batch st)" and "length (sn_batch st) \<le> 10000"
  shows "\<exists>st'. flush env repair d st = (None, st') \<and> sn_batch st' = []"
proof (cases "sn_batch st = []")
  case False
  let ?keys = "map cr_key (sn_batch st)"
  obtain existing where "ExistingContentKeys ?keys (sx_keys env ?keys) d = Inr existing"
    using assms(1,3) False by (simp add: calm_scan_def ExistingContentKeys_def run_stmt_def query_def)
  moreover obtain st1 where "visit_all (flush_object env repair existing) (sn_batch st) st = (None, st1)"
    using visit_all_calm [of "sn_batch st" "flush_object env repair existing" st] flush_object_calm [OF assms(1)] assms(2)
    by (cases "visit_all (flush_object env repair existing) (sn_batch st) st") (auto simp: list_all_iff)
  ultimately show ?thesis using False by (simp add: flush_def Let_def)
qed (simp add: flush_def)

lemma visit_entries_calm:
  assumes "calm_scan env" and "0 < batchSize" and "batchSize \<le> 10000"
  shows "list_all (\<lambda>x. is_ok (object_of x)) xs \<Longrightarrow> list_all (\<lambda>r. key_valid (cr_key r)) (sn_batch st) \<Longrightarrow> int (length (sn_batch st)) < batchSize \<Longrightarrow>
    \<exists>st'. visit_all (visit_entry env batchSize repair d) xs st = (None, st') \<and> list_all (\<lambda>r. key_valid (cr_key r)) (sn_batch st') \<and> int (length (sn_batch st')) < batchSize"
proof (induction xs arbitrary: st)
  case (Cons x xs)
  obtain o' where o': "object_of x = Inr o'" using Cons.prems(1) by (cases "object_of x") auto
  have "\<exists>st1. visit_entry env batchSize repair d x st = (None, st1) \<and> list_all (\<lambda>r. key_valid (cr_key r)) (sn_batch st1) \<and> int (length (sn_batch st1)) < batchSize"
  proof (cases o')
    case (Some ref)
    let ?st = "st\<lparr>sn_storedObjects := sn_storedObjects st + 1, sn_batch := sn_batch st @ [ref]\<rparr>"
    have valid: "list_all (\<lambda>r. key_valid (cr_key r)) (sn_batch ?st)" using Cons.prems(2) objects_in_valid [of ref "[x]"] o' Some by (simp add: objects_in_def map_filter_simps)
    show ?thesis
    proof (cases "int (length (sn_batch ?st)) = batchSize")
      case True
      then show ?thesis using flush_calm [OF assms(1) valid] assms(2,3) o' Some by (fastforce simp: visit_entry_def Let_def)
    next
      case False
      then show ?thesis using valid Cons.prems(3) o' Some by (simp add: visit_entry_def Let_def)
    qed
  qed (use Cons.prems o' in \<open>simp add: visit_entry_def\<close>)
  then show ?case using Cons.IH Cons.prems(1) by fastforce
qed simp

lemma Reconcile_calm:
  assumes d: "db_wf d" and env: "calm_scan env" and walk: "walk_shows objs (sx_entries env)" and b: "0 < batchSize" "batchSize \<le> 10000"
  shows "\<exists>st. Reconcile sha256 True batchSize repair env d s = (None, st)"
proof -
  have dist: "distinct (map mc_key (mail_contents d))" and ok: "list_all content_row_ok (mail_contents d)" using d by (auto simp: db_wf_def wf_contents_def)
  have n: "0 < nat batchSize" using b(1) by simp
  have "walk_pages (nat batchSize) (sx_pages env) (verify_ref sha256 env) d 0 [] (new_scan s) = visit_all (verify_ref sha256 env) (map row_ref (rows_after [] d)) (new_scan s)"
    using walk_pages_outcome [OF dist n, of "sx_pages env" "verify_ref sha256 env" 0 "[]" "new_scan s"] env by (auto simp: calm_scan_def)
  moreover have "fst (visit_all (verify_ref sha256 env) (map row_ref (rows_after [] d)) (new_scan s)) = None"
    by (rule visit_all_calm) (use verify_ref_calm [OF env] ok in \<open>auto simp: rows_after_def list_all_iff\<close>)
  ultimately obtain st1 where w: "walk_pages (nat batchSize) (sx_pages env) (verify_ref sha256 env) d 0 [] (new_scan s) = (None, st1)" by (metis prod.collapse)
  have "sn_batch st1 = []" using walk_pages_keeps [where P = "\<lambda>st. sn_batch st = []", OF _ w] verify_ref_store by (fastforce simp: new_scan_def)
  then obtain st2 where v: "visit_all (visit_entry env batchSize repair d) (sx_entries env) st1 = (None, st2)"
    and st2: "list_all (\<lambda>r. key_valid (cr_key r)) (sn_batch st2)" "int (length (sn_batch st2)) < batchSize"
    using visit_entries_calm [OF env b walk_objects(1) [OF walk], of st1 repair d] b(1) by auto
  obtain st3 where "flush env repair d st2 = (None, st3)" using flush_calm [OF env st2(1)] st2(2) b(2) by fastforce
  then show ?thesis using w v b by (simp add: Reconcile_def WalkContentRefs_def)
qed

lemma row_finding_kinds:
  "length (concat (map (row_finding sha256 s) cs)) = length (of_kind FindingMissing (concat (map (row_finding sha256 s) cs))) + length (of_kind FindingCorrupt (concat (map (row_finding sha256 s) cs)))"
  by (induction cs) (auto simp: row_finding_def split: option.split)

lemma Reconcile_settled:
  assumes d: "db_wf d" and run: "Reconcile sha256 hasCatalog batchSize repair env d s = (None, st)"
  obtains st1 st2 where "visit_all (verify_ref sha256 env) (map row_ref (sort_key mc_key (mail_contents d))) (new_scan s) = (None, st1)"
    and "visit_all (visit_entry env batchSize repair d) (sx_entries env) st1 = (None, st2)" and "st = settled env repair d st2"
proof -
  have b: "0 < batchSize" "batchSize \<le> 10000" using run by (auto simp: Reconcile_def split: if_splits)
  have dist: "distinct (map mc_key (mail_contents d))" using d by (simp add: db_wf_def wf_contents_def)
  obtain st1 st2 where w: "walk_pages (nat batchSize) (sx_pages env) (verify_ref sha256 env) d 0 [] (new_scan s) = (None, st1)"
    and v: "visit_all (visit_entry env batchSize repair d) (sx_entries env) st1 = (None, st2)" and f: "flush env repair d st2 = (None, st)"
    using run b by (auto simp: Reconcile_def WalkContentRefs_def split: if_splits prod.splits option.splits)
  have "0 < nat batchSize" using b(1) by simp
  from walk_pages_outcome [OF dist this, of "sx_pages env" "verify_ref sha256 env" 0 "[]" "new_scan s"] w
  have "visit_all (verify_ref sha256 env) (map row_ref (rows_after [] d)) (new_scan s) = (None, st1)" by auto
  then show ?thesis using that v flush_settles [OF f] rows_from_start [OF d] by simp
qed

lemma Reconcile_findings:
  assumes d: "db_wf d" and quiet: "quiet_scan env" and run: "Reconcile sha256 hasCatalog batchSize repair env d s = (None, st)"
  defines "fs \<equiv> concat (map (row_finding sha256 s) (sort_key mc_key (mail_contents d)))" and "os \<equiv> orphans d (objects_in (sx_entries env))"
  shows "sn_findings st = fs @ map (orphan_finding repair) os \<and> sn_databaseRefs st = int (length (mail_contents d)) \<and>
     sn_storedObjects st = int (length (objects_in (sx_entries env))) \<and> Unresolved st = int (length fs) + (if repair then 0 else int (length os)) \<and>
     st_objects (sn_store st) = (\<lambda>p. if repair \<and> p \<in> (\<lambda>r. object_path (cr_key r)) ` set os then None else st_objects s p)"
  using d run
proof (cases rule: Reconcile_settled)
  case (1 st1 st2)
  have "list_all content_row_ok (sort_key mc_key (mail_contents d))" using d by (simp add: db_wf_def wf_contents_def list_all_iff)
  from verify_all_quiet [OF quiet this 1(1)]
  have st1: "st1 = (new_scan s)\<lparr>sn_databaseRefs := int (length (mail_contents d)), sn_missing := int (length (of_kind FindingMissing fs)),
      sn_corrupt := int (length (of_kind FindingCorrupt fs)), sn_findings := fs\<rparr>" by (simp add: fs_def new_scan_def Let_def)
  then have "settled env repair d st1 = st1" by (simp add: settled_def new_scan_def)
  with visit_entries_settle [OF 1(2)] 1(3)
  have st: "st = (fold (settle env repair d) (objects_in (sx_entries env)) st1)\<lparr>sn_storedObjects := int (length (objects_in (sx_entries env)))\<rparr>" by (simp add: st1 new_scan_def)
  have store1: "sn_store st1 = s" by (simp add: st1 new_scan_def)
  have "st_objects (sn_store st) = (\<lambda>p. if repair \<and> p \<in> (\<lambda>r. object_path (cr_key r)) ` set os then None else st_objects s p)"
    using fold_settle_store [of env "objects_in (sx_entries env)" repair d st1, OF quiet objects_in_valid [of _ "sx_entries env"]] unfolding store1 by (simp add: st os_def)
  moreover have "length (of_kind FindingMissing fs) + length (of_kind FindingCorrupt fs) = length fs"
    using row_finding_kinds [of sha256 s "sort_key mc_key (mail_contents d)"] by (simp add: fs_def)
  ultimately show ?thesis by (auto simp: st fold_settle Unresolved_def st1 new_scan_def os_def)
qed

text \<open>
  The catalog is read completely, page by page: with any page size from 1 to 10000, walking the content rows calls the visitor on every
  row exactly once, in the order of the keys, and stops at its first error, as if all rows had been read at once.
\<close>

theorem catalog_walk_complete:
  assumes "db_wf d" and "0 < batchSize" and "batchSize \<le> 10000" and "\<forall>k. flt k = NoFault"
  shows "WalkContentRefs batchSize flt (Some visit) d st = visit_all visit (map row_ref (sort_key mc_key (mail_contents d))) st"
proof -
  have dist: "distinct (map mc_key (mail_contents d))" using assms(1) by (simp add: db_wf_def wf_contents_def)
  have "0 < nat batchSize" using assms(2) by simp
  from walk_pages_outcome [OF dist this, of flt visit 0 "[]" st] show ?thesis
    using assms(2-4) rows_from_start [OF assms(1)] by (auto simp: WalkContentRefs_def)
qed

lemma orphans_unreferenced:
  assumes "walk_shows objs xs"
  shows "distinct (orphans d (objects_in xs))" and "set (orphans d (objects_in xs)) = unreferenced objs d"
  using walk_objects [OF assms] by (auto simp: unreferenced_def distinct_map)

text \<open>Nothing is unresolved exactly if every row has its object and no orphan remains.\<close>

definition row_stored :: "(bytes \<Rightarrow> bytes) \<Rightarrow> (string \<Rightarrow> bytes option) \<Rightarrow> content_row \<Rightarrow> bool" where
  "row_stored sha256 objs c \<longleftrightarrow> (\<exists>b. objs (object_path (mc_key c)) = Some b \<and> int (length b) = mc_size c \<and> object_key sha256 b = mc_key c)"

lemma Unresolved_iff:
  assumes "db_wf d" and "calm_scan env" and "walk_shows (st_objects s) (sx_entries env)" and "Reconcile sha256 True batchSize repair env d s = (None, st)"
  shows "Unresolved st = 0 \<longleftrightarrow> (\<forall>c \<in> set (mail_contents d). row_stored sha256 (st_objects s) c) \<and> (repair \<or> unreferenced (st_objects s) d = {})"
    and "0 \<le> Unresolved st"
proof -
  have quiet: "quiet_scan env" using assms(2) by (simp add: calm_scan_def)
  note f = Reconcile_findings [OF assms(1) quiet assms(4)]
  let ?fs = "concat (map (row_finding sha256 s) (sort_key mc_key (mail_contents d)))" and ?os = "orphans d (objects_in (sx_entries env))"
  have none: "row_finding sha256 s c = [] \<longleftrightarrow> row_stored sha256 (st_objects s) c" for c
    by (auto simp: row_finding_def row_stored_def split: option.splits)
  have rows: "?fs = [] \<longleftrightarrow> (\<forall>c \<in> set (mail_contents d). row_stored sha256 (st_objects s) c)" unfolding concat_eq_Nil_conv by (simp add: none)
  have os: "?os = [] \<longleftrightarrow> unreferenced (st_objects s) d = {}" using orphans_unreferenced(2) [OF assms(3), of d] by (metis set_empty)
  have "Unresolved st = int (length ?fs) + (if repair then 0 else int (length ?os))" using f by simp
  moreover have "int m + (if repair then 0 else int n) = 0 \<longleftrightarrow> m = 0 \<and> (repair \<or> n = 0)" for m n by auto
  ultimately show "Unresolved st = 0 \<longleftrightarrow> (\<forall>c \<in> set (mail_contents d). row_stored sha256 (st_objects s) c) \<and> (repair \<or> unreferenced (st_objects s) d = {})"
    "0 \<le> Unresolved st" unfolding rows [symmetric] os [symmetric] by (simp_all only: length_0_conv split: if_splits) (simp_all)
qed

text \<open>
  C18. The maintenance scan completes and is exact: when nothing fails and the walk reports the directory of the store, which holds objects under
  canonical names only, it reports a missing object for exactly the rows whose object does not exist, a corrupt one for exactly those whose
  object has another size or digest, and an orphan, once, for exactly the objects in the store without a row, in this order and independently of the
  batch size; its counts agree with them; with repair exactly the orphans are removed and no other object changes; and it counts nothing as
  unresolved exactly if every row has its object and no orphan remains.
\<close>

theorem Reconcile_exact:
  assumes "db_wf d" and "calm_scan env" and "walk_shows (st_objects s) (sx_entries env)" and "0 < batchSize" and "batchSize \<le> 10000"
  shows "\<exists>st os. Reconcile sha256 True batchSize repair env d s = (None, st) \<and> distinct os \<and> set os = unreferenced (st_objects s) d \<and>
    (let fs = concat (map (row_finding sha256 s) (sort_key mc_key (mail_contents d))) in
     sn_findings st = fs @ map (orphan_finding repair) os \<and> sn_databaseRefs st = int (length (mail_contents d)) \<and>
     sn_storedObjects st = int (card {p. st_objects s p \<noteq> None}) \<and> Unresolved st = int (length fs) + (if repair then 0 else int (length os)) \<and>
     st_objects (sn_store st) = (\<lambda>p. if repair \<and> p \<in> (\<lambda>r. object_path (cr_key r)) ` unreferenced (st_objects s) d then None else st_objects s p) \<and>
     (Unresolved st = 0 \<longleftrightarrow> (\<forall>c \<in> set (mail_contents d). row_stored sha256 (st_objects s) c) \<and> (repair \<or> unreferenced (st_objects s) d = {})))"
proof -
  obtain st where run: "Reconcile sha256 True batchSize repair env d s = (None, st)" using Reconcile_calm [OF assms] by blast
  have quiet: "quiet_scan env" using assms(2) by (simp add: calm_scan_def)
  note f = Reconcile_findings [OF assms(1) quiet run] and w = walk_objects [OF assms(3)] and o = orphans_unreferenced [OF assms(3), of d]
  have "inj_on (\<lambda>r. object_path (cr_key r)) (set (objects_in (sx_entries env)))"
  proof (rule inj_onI)
    fix q r assume q: "q \<in> set (objects_in (sx_entries env))" and r: "r \<in> set (objects_in (sx_entries env))" and eq: "object_path (cr_key q) = object_path (cr_key r)"
    then have "cr_key q = cr_key r" using object_path_inj objects_in_valid by blast
    then show "q = r" using w(2) q r by (auto simp: distinct_map inj_on_def)
  qed
  then have "card {p. st_objects s p \<noteq> None} = length (objects_in (sx_entries env))"
    using w(2,4) by (metis card_image distinct_card distinct_map)
  then show ?thesis using run f o Unresolved_iff [OF assms(1-3) run] unfolding Let_def
    by (intro exI [of _ st] exI [of _ "orphans d (objects_in (sx_entries env))"]) simp
qed

section \<open>A concrete scan\<close>

text \<open>A store with one object that no row refers to.\<close>

definition stray_store :: store where
  "stray_store = sample_store\<lparr>st_objects := [object_path (object_key sample_sha ''abc'') \<mapsto> ''abc''], st_durable := [object_path (object_key sample_sha ''abc'') \<mapsto> ''abc'']\<rparr>"

definition stray_entry :: walk_entry where
  "stray_entry = file_entry (object_path (object_key sample_sha ''abc'')) ''abc''"

definition stray_env :: scan_env where
  "stray_env = \<lparr>sx_verify = (\<lambda>k. sample_senv ''1''), sx_delete = (\<lambda>k. sample_senv ''1''), sx_emit = (\<lambda>f. None), sx_pages = (\<lambda>k. NoFault),
     sx_keys = (\<lambda>ks. NoFault), sx_entries = [stray_entry]\<rparr>"

lemma stray_object: "object_of stray_entry = Inr (Some \<lparr>cr_key = object_key sample_sha ''abc'', cr_size = 3\<rparr>)"
  using object_of_file [OF object_key_valid [of sample_sha "''abc''"], of "''abc''"] by (simp add: stray_entry_def)

lemma stray_calm: "calm_scan stray_env"
  by (simp add: calm_scan_def quiet_scan_def stray_env_def sample_senv_def)

lemma stray_walk: "walk_shows (st_objects stray_store) (sx_entries stray_env)"
proof -
  have "key_valid (object_key sample_sha ''abc'')" by (rule object_key_valid) simp
  then show ?thesis unfolding walk_shows_def
    by (auto simp: stray_store_def stray_env_def stray_entry_def file_entry_def intro!: exI [of _ "[object_path (object_key sample_sha ''abc'')]"])
qed

lemma stray_ok: "mail_state_ok sample_sha stray_store sample_db"
  using sample_db_wf object_key_valid [of sample_sha "''abc''"]
  by (simp add: mail_state_ok_def mail_ok_def contents_stored_def store_ok_def stray_store_def sample_store_def sample_db_def empty_db_def contents_referenced_def)

definition listed_db :: db where
  "listed_db = empty_db\<lparr>mail_contents := [new_content_row 20 sample_key 5]\<rparr>"

theorem catalog_walk_complete_witness:
  "WalkContentRefs 1 (\<lambda>k. NoFault) (Some (\<lambda>r st. (None, st @ [cr_size r]))) listed_db [] = (None, [5])"
proof -
  have "content_row_ok (new_content_row 20 sample_key 5)" using sample_key_valid by (intro new_content_row_ok) simp_all
  then have "db_wf listed_db" by (simp add: db_wf_def wf_tables listed_db_def empty_db_def List.map_filter_simps)
  from catalog_walk_complete [OF this, of 1 "\<lambda>k. NoFault" "\<lambda>r st. (None, st @ [cr_size r])" "[]"]
  show ?thesis by (simp add: listed_db_def row_ref_def new_content_row_def)
qed

lemma stray_unreferenced: "unreferenced (st_objects stray_store) sample_db = {\<lparr>cr_key = object_key sample_sha ''abc'', cr_size = 3\<rparr>}"
  using walk_objects(3) [OF stray_walk]
  by (auto simp: unreferenced_def stray_env_def objects_in_def map_filter_simps stray_object sample_db_def empty_db_def)

theorem Reconcile_exact_witness:
  "\<exists>st. Reconcile sample_sha True 512 True stray_env sample_db stray_store = (None, st) \<and> Unresolved st = 0 \<and>
     sn_findings st = [orphan_finding True \<lparr>cr_key = object_key sample_sha ''abc'', cr_size = 3\<rparr>] \<and>
     st_objects (sn_store st) (object_path (object_key sample_sha ''abc'')) = None"
proof -
  obtain st os where r: "Reconcile sample_sha True 512 True stray_env sample_db stray_store = (None, st)" "distinct os"
    "set os = {\<lparr>cr_key = object_key sample_sha ''abc'', cr_size = 3\<rparr>}" "sn_findings st = map (orphan_finding True) os" "Unresolved st = 0"
    "st_objects (sn_store st) (object_path (object_key sample_sha ''abc'')) = None"
    using Reconcile_exact [OF sample_db_wf stray_calm stray_walk, of 512 sample_sha True] unfolding stray_unreferenced by (auto simp: Let_def sample_db_def empty_db_def)
  have "length os = 1" using r(2,3) by (metis card.empty card_insert_if distinct_card empty_iff finite.emptyI One_nat_def)
  then have "os = [\<lparr>cr_key = object_key sample_sha ''abc'', cr_size = 3\<rparr>]" using r(3) by (cases os) auto
  with r show ?thesis by auto
qed

theorem Reconcile_keeps_mail_witness:
  "mail_state_ok sample_sha (sn_store (snd (Reconcile sample_sha True 512 True stray_env sample_db stray_store))) sample_db"
  by (rule Reconcile_keeps_mail [OF stray_ok prod.collapse [symmetric]])

end
