(* ===== verification/Content_Archive.thy ===== *)
theory Content_Archive
  imports Content_Reconcile
begin

text \<open>
  \<^verbatim>\<open>contentstore/archive.go\<close>: the archive of all objects for a backup, and its restoration into an empty content root. The
  packages \<^verbatim>\<open>archive/tar\<close> and \<^verbatim>\<open>compress/gzip\<close> appear as the sequence of entries that is written and as the sequence that
  a reader finds in some bytes, with the errors it meets.
\<close>

section \<open>Archives\<close>

text \<open>An entry with its header, the bytes that can be read of it, and how the reading ends.\<close>

record tar_entry =
  te_name :: string
  te_regular :: bool
  te_size :: int
  te_data :: bytes
  te_end :: go_error

record archive_stats =
  as_objects :: int
  as_bytes :: int

definition archiveObjectPrefix :: string where
  "archiveObjectPrefix = ''objects/sha256/''"

text \<open>The largest size of the USTAR format, eleven octal digits.\<close>

definition ustarMaxSize :: int where
  "ustarMaxSize = 8589934591"

record archive_env =
  ax_entries :: "walk_entry list"
  ax_ctx :: "string \<Rightarrow> go_error option"
  ax_header :: "string \<Rightarrow> go_error option"
  ax_read :: "string \<Rightarrow> store_env"
  ax_write :: "string \<Rightarrow> go_error option"
  ax_close :: "string \<Rightarrow> go_error option"
  ax_tarClose :: "go_error option"
  ax_gzipClose :: "go_error option"

definition object_entry :: "string \<Rightarrow> int \<Rightarrow> bytes \<Rightarrow> tar_entry" where
  "object_entry relative sizeBytes content =
     \<lparr>te_name = archiveObjectPrefix @ relative, te_regular = True, te_size = sizeBytes, te_data = content, te_end = EOF\<rparr>"

text \<open>
  The callback of \<^verbatim>\<open>WriteArchive\<close> on one object; the state is the statistics and what has been written. The tar writer takes no more
  bytes than the header announces. Of joined errors the first is kept.
\<close>

definition archive_object :: "(bytes \<Rightarrow> bytes) \<Rightarrow> archive_env \<Rightarrow> store \<Rightarrow> content_ref \<Rightarrow> archive_stats \<times> tar_entry list \<Rightarrow> go_error option \<times> archive_stats \<times> tar_entry list" where
  "archive_object sha256 env s ref st =
     (let key = cr_key ref; sizeBytes = cr_size ref in
      case ax_ctx env key of
        Some e \<Rightarrow> (Some e, st)
      | None \<Rightarrow>
          (case relativePathForKey key of
             Inl e \<Rightarrow> (Some e, st)
           | Inr relative \<Rightarrow>
               if sizeBytes < 0 \<or> sizeBytes > ustarMaxSize then (Some (OtherError ''archive/tar: cannot encode header''), st)
               else (case ax_header env key of
                  Some e \<Rightarrow> (Some e, st)
                | None \<Rightarrow>
                    (case OpenContent (sv_flt (ax_read env key)) ref s of
                       Inl e \<Rightarrow> (Some e, (fst st, snd st @ [object_entry relative sizeBytes []]))
                     | Inr file \<Rightarrow>
                         (case contextReader (sv_cancel (ax_read env key)) (file, (case sv_flt (ax_read env key) OpReadObject of None \<Rightarrow> EOF | Some e \<Rightarrow> e)) of
                            (content, end') \<Rightarrow>
                              let st1 = (fst st, snd st @ [object_entry relative sizeBytes (take (nat sizeBytes) content)]) in
                              (case ax_write env key of
                                 Some e \<Rightarrow> (Some e, st1)
                               | None \<Rightarrow>
                                   if int (length content) > sizeBytes then (Some (OtherError ''archive/tar: write too long''), st1)
                                   else if end' \<noteq> EOF then (Some end', st1)
                                   else (case ax_close env key of
                                      Some e \<Rightarrow> (Some e, st1)
                                    | None \<Rightarrow>
                                        if int (length content) \<noteq> sizeBytes then (Some ErrContentCorrupt, st1)
                                        else if key \<noteq> object_key sha256 content then (Some ErrContentCorrupt, st1)
                                        else (None, ((fst st)\<lparr>as_objects := as_objects (fst st) + 1, as_bytes := as_bytes (fst st) + int (length content)\<rparr>, snd st1)))))))))"

definition archive_entry :: "(bytes \<Rightarrow> bytes) \<Rightarrow> archive_env \<Rightarrow> store \<Rightarrow> walk_entry \<Rightarrow> archive_stats \<times> tar_entry list \<Rightarrow> go_error option \<times> archive_stats \<times> tar_entry list" where
  "archive_entry sha256 env s x st =
     (case object_of x of
        Inl e \<Rightarrow> (Some e, st)
      | Inr None \<Rightarrow> (None, st)
      | Inr (Some ref) \<Rightarrow> archive_object sha256 env s ref st)"

definition error_list :: "go_error option \<Rightarrow> go_error list" where
  "error_list e = (case e of None \<Rightarrow> [] | Some e' \<Rightarrow> [e'])"

definition WriteArchive :: "(bytes \<Rightarrow> bytes) \<Rightarrow> bool \<Rightarrow> archive_env \<Rightarrow> store \<Rightarrow> (archive_stats \<times> go_error list) \<times> tar_entry list" where
  "WriteArchive sha256 hasDestination env s =
     (if \<not> hasDestination then ((\<lparr>as_objects = 0, as_bytes = 0\<rparr>, [OtherError ''content archive destination is required'']), [])
      else case visit_all (archive_entry sha256 env s) (ax_entries env) (\<lparr>as_objects = 0, as_bytes = 0\<rparr>, []) of
          (walkErr, stats, written) \<Rightarrow> ((stats, error_list walkErr @ error_list (ax_tarClose env) @ error_list (ax_gzipClose env)), written))"

section \<open>Names in an archive\<close>

text \<open>\<^verbatim>\<open>filepath.Clean\<close> on Unix: the components, without empty ones and dots, each \<^verbatim>\<open>..\<close> taking one away.\<close>

fun clean_parts :: "bool \<Rightarrow> string list \<Rightarrow> string list \<Rightarrow> string list" where
  "clean_parts rooted [] out = out"
| "clean_parts rooted (p # ps) out =
     (if p = [] \<or> p = ''.'' then clean_parts rooted ps out
      else if p = ''..'' then
        if out \<noteq> [] \<and> last out \<noteq> ''..'' then clean_parts rooted ps (butlast out)
        else if rooted then clean_parts rooted ps out
        else clean_parts rooted ps (out @ [p])
      else clean_parts rooted ps (out @ [p]))"

fun join_slash :: "string list \<Rightarrow> string" where
  "join_slash [] = []"
| "join_slash [p] = p"
| "join_slash (p # ps) = p @ CHR ''/'' # join_slash ps"

definition path_Clean :: "string \<Rightarrow> string" where
  "path_Clean p =
     (let rooted = has_prefix p ''/''; r = (if rooted then ''/'' else []) @ join_slash (clean_parts rooted (split_on CHR ''/'' p) []) in
      if r = [] then ''.'' else r)"

definition archiveEntryReference :: "string \<Rightarrow> (string \<times> string) result" where
  "archiveEntryReference name =
     (if CHR 0x5C \<in> set name \<or> \<not> has_prefix name archiveObjectPrefix \<or> has_prefix name ''/'' then Inl (OtherError ''invalid content archive path'')
      else
        let relativeSlash = trim_prefix name archiveObjectPrefix; clean = path_Clean relativeSlash; parts = split_on CHR ''/'' relativeSlash in
        if clean \<noteq> relativeSlash \<or> clean = ''.'' \<or> has_prefix clean ''../'' then Inl (OtherError ''invalid content archive path'')
        else if length parts \<noteq> 3 then Inl (OtherError ''invalid content archive path'')
        else
          let key = ''sha256/'' @ parts ! 2 in
          (case relativePathForKey key of
             Inl e \<Rightarrow> Inl (OtherError ''non-canonical content archive path'')
           | Inr expected \<Rightarrow> if expected \<noteq> relativeSlash then Inl (OtherError ''non-canonical content archive path'') else Inr (key, expected)))"

section \<open>Restoration\<close>

datatype root_kind = Missing | NotDirectory | Directory

text \<open>The content root: what it is, the names in it, and its objects by their paths below \<^verbatim>\<open>objects/sha256\<close>.\<close>

record restore_target =
  tg_kind :: root_kind
  tg_entries :: "string set"
  tg_objects :: "string \<Rightarrow> bytes option"
  tg_durable :: "string \<Rightarrow> bytes option"

datatype restore_op =
    ROLstat | ROReadDir | ROMkdir | ROSecure | ROOpenRoot | ROContext nat | ROMkdirAll string | ROCreate string | ROWrite string
  | ROSync string | ROClose string | ROSyncRoot | ROCleanup

record restore_env =
  rx_abs :: "string \<Rightarrow> string list result"
  rx_flt :: "restore_op \<Rightarrow> go_error option"
  rx_tree :: "store_op \<Rightarrow> go_error option"
  rx_cancel :: "string \<Rightarrow> (nat \<times> bool) option"

text \<open>What the readers find in the source: the entries, how they end, and what follows the compressed stream (\<open>None\<close> for a byte).\<close>

record archive_view =
  av_gzip :: "go_error option"
  av_entries :: "tar_entry list"
  av_end :: go_error
  av_close :: "go_error option"
  av_rest :: "go_error option"

definition sync_restored :: "string \<Rightarrow> restore_target \<Rightarrow> restore_target" where
  "sync_restored dir tg = tg\<lparr>tg_durable := (\<lambda>p. if object_dir p = dir then tg_objects tg p else tg_durable tg p)\<rparr>"

definition restore_entry :: "(bytes \<Rightarrow> bytes) \<Rightarrow> restore_env \<Rightarrow> string list \<Rightarrow> archive_stats \<Rightarrow> tar_entry \<Rightarrow> archive_stats \<times> restore_target \<Rightarrow> go_error option \<times> archive_stats \<times> restore_target" where
  "restore_entry sha256 env root expected te st =
     (if \<not> te_regular te \<or> te_size te < 0 then (Some (OtherError ''content archive entry is not a regular file''), st)
      else case archiveEntryReference (te_name te) of
          Inl e \<Rightarrow> (Some e, st)
        | Inr (key, relative) \<Rightarrow>
            if as_objects (fst st) \<ge> as_objects expected \<or> te_size te > as_bytes expected - as_bytes (fst st)
            then (Some (OtherError ''content archive exceeds manifest statistics''), st)
            else (case rx_flt env (ROMkdirAll key) of
               Some e \<Rightarrow> (Some e, st)
             | None \<Rightarrow>
                 let tg1 = (snd st)\<lparr>tg_entries := insert ''objects'' (tg_entries (snd st))\<rparr> in
                 (case rx_flt env (ROCreate key) of
                    Some e \<Rightarrow> (Some e, (fst st, tg1))
                  | None \<Rightarrow>
                      if tg_objects tg1 relative \<noteq> None then (Some (OtherError ''file exists''), (fst st, tg1))
                      else (case contextReader (rx_cancel env key) (take (nat (te_size te)) (te_data te), if int (length (te_data te)) \<ge> te_size te then EOF else te_end te) of
                         (content, end') \<Rightarrow>
                           let tg2 = tg1\<lparr>tg_objects := (tg_objects tg1)(relative \<mapsto> content)\<rparr>; st2 = (fst st, tg2) in
                           (case rx_flt env (ROWrite key) of
                              Some e \<Rightarrow> (Some e, st2)
                            | None \<Rightarrow>
                                if end' \<noteq> EOF then (Some end', st2)
                                else (case rx_flt env (ROSync key) of
                                   Some e \<Rightarrow> (Some e, st2)
                                 | None \<Rightarrow>
                                     (case rx_flt env (ROClose key) of
                                        Some e \<Rightarrow> (Some e, st2)
                                      | None \<Rightarrow>
                                          if int (length content) \<noteq> te_size te then (Some (OtherError ''content archive object size''), st2)
                                          else if key \<noteq> object_key sha256 content then (Some ErrContentCorrupt, st2)
                                          else (case fst (syncDirectoryTree (rx_tree env) root (root @ [''objects'', ''sha256'', take 2 relative, take 2 (drop 3 relative)])) of
                                             Inl e \<Rightarrow> (Some e, st2)
                                           | Inr _ \<Rightarrow> (None, ((fst st)\<lparr>as_objects := as_objects (fst st) + 1, as_bytes := as_bytes (fst st) + int (length content)\<rparr>,
                                               sync_restored (object_dir relative) tg2))))))))))"

fun restore_entries :: "(bytes \<Rightarrow> bytes) \<Rightarrow> restore_env \<Rightarrow> string list \<Rightarrow> archive_stats \<Rightarrow> go_error \<Rightarrow> nat \<Rightarrow> tar_entry list \<Rightarrow> archive_stats \<times> restore_target \<Rightarrow> go_error option \<times> archive_stats \<times> restore_target" where
  "restore_entries sha256 env root expected end' i tes st =
     (case rx_flt env (ROContext i) of
        Some e \<Rightarrow> (Some e, st)
      | None \<Rightarrow>
          (case tes of
             [] \<Rightarrow> (if end' = EOF then None else Some end', st)
           | te # rest \<Rightarrow>
               (case restore_entry sha256 env root expected te st of
                  (Some e, st1) \<Rightarrow> (Some e, st1)
                | (None, st1) \<Rightarrow> restore_entries sha256 env root expected end' (Suc i) rest st1)))"

declare restore_entries.simps [simp del]

text \<open>The part of \<^verbatim>\<open>RestoreArchive\<close> after the root is prepared, which is undone when it fails.\<close>

definition restore_body :: "(bytes \<Rightarrow> bytes) \<Rightarrow> restore_env \<Rightarrow> string list \<Rightarrow> archive_view \<Rightarrow> archive_stats \<Rightarrow> restore_target \<Rightarrow> go_error option \<times> archive_stats \<times> restore_target" where
  "restore_body sha256 env root source expected tg =
     (let zero = \<lparr>as_objects = 0, as_bytes = 0\<rparr> in
      case rx_flt env ROOpenRoot of
        Some e \<Rightarrow> (Some e, zero, tg)
      | None \<Rightarrow>
          (case av_gzip source of
             Some e \<Rightarrow> (Some e, zero, tg)
           | None \<Rightarrow>
               (case restore_entries sha256 env root expected (av_end source) 0 (av_entries source) (zero, tg) of
                  (Some e, st) \<Rightarrow> (Some e, st)
                | (None, summary, tg1) \<Rightarrow>
                    if summary \<noteq> expected then (Some (OtherError ''content archive statistics''), summary, tg1)
                    else (case av_close source of
                       Some e \<Rightarrow> (Some e, summary, tg1)
                     | None \<Rightarrow>
                         (case av_rest source of
                            None \<Rightarrow> (Some (OtherError ''content archive contains trailing data''), summary, tg1)
                          | Some e \<Rightarrow> if e \<noteq> EOF then (Some e, summary, tg1) else (rx_flt env ROSyncRoot, summary, tg1))))))"

text \<open>The checks of the root: nothing there, or an empty directory.\<close>

definition prepare_root :: "restore_env \<Rightarrow> restore_target \<Rightarrow> restore_target result" where
  "prepare_root env tg =
     (case rx_flt env ROLstat of
        Some e \<Rightarrow> Inl e
      | None \<Rightarrow>
          (case tg_kind tg of
             NotDirectory \<Rightarrow> Inl (OtherError ''content restore root is not a directory'')
           | Directory \<Rightarrow>
               (case rx_flt env ROReadDir of
                  Some e \<Rightarrow> Inl e
                | None \<Rightarrow> if tg_entries tg \<noteq> {} then Inl (OtherError ''content restore root is not empty'') else Inr tg)
           | Missing \<Rightarrow> (case rx_flt env ROMkdir of Some e \<Rightarrow> Inl e | None \<Rightarrow> Inr (tg\<lparr>tg_kind := Directory\<rparr>))))"

definition RestoreArchive :: "(bytes \<Rightarrow> bytes) \<Rightarrow> restore_env \<Rightarrow> string \<Rightarrow> archive_view option \<Rightarrow> archive_stats \<Rightarrow> restore_target \<Rightarrow> (archive_stats \<times> go_error list) \<times> restore_target" where
  "RestoreArchive sha256 env targetRoot source expected tg =
     (let failed = (\<lambda>e tg. ((\<lparr>as_objects = 0, as_bytes = 0\<rparr>, [e]), tg)) in
      if trim_space targetRoot = [] then failed (OtherError ''content restore root is required'') tg
      else case source of
          None \<Rightarrow> failed (OtherError ''content archive source is required'') tg
        | Some view \<Rightarrow>
            if as_objects expected < 0 \<or> as_bytes expected < 0 then failed (OtherError ''content archive expected stats must not be negative'') tg
            else (case rx_abs env targetRoot of
               Inl e \<Rightarrow> failed e tg
             | Inr root \<Rightarrow>
                 (case prepare_root env tg of
                    Inl e \<Rightarrow> failed e tg
                  | Inr tg1 \<Rightarrow>
                      (case rx_flt env ROSecure of
                         Some e \<Rightarrow> failed e tg1
                       | None \<Rightarrow>
                           (case restore_body sha256 env root view expected tg1 of
                              (None, summary, tg2) \<Rightarrow> ((summary, []), tg2)
                            | (Some e, summary, tg2) \<Rightarrow>
                                (case rx_flt env ROCleanup of
                                   Some e' \<Rightarrow> ((summary, [e, e']), tg2)
                                 | None \<Rightarrow> ((summary, [e]), tg2\<lparr>tg_kind := tg_kind tg, tg_entries := {}, tg_objects := Map.empty\<rparr>)))))))"

section \<open>Names denote objects\<close>

lemma hex_not_special:
  assumes "lower_hex_char c"
  shows "c \<noteq> CHR ''/''" "c \<noteq> CHR ''.''" "c \<noteq> CHR 0x5C"
  using assms by (auto simp: lower_hex_char_def in_range_def)

lemma object_path_parts:
  assumes "key_valid key"
  obtains a b dg where "key = ''sha256/'' @ dg" "object_path key = a @ CHR ''/'' # b @ CHR ''/'' # dg" "a = take 2 dg" "b = take 2 (drop 2 dg)"
    "list_all lower_hex_char dg" "length dg = 64"
proof -
  obtain dg where key: "key = ''sha256/'' @ dg" using assms by (auto simp: key_valid_def has_prefix_iff)
  show ?thesis using assms by (intro that [OF key _ refl refl]) (auto simp: key object_path_def key_valid_def Let_def)
qed

lemma object_path_clean:
  assumes "key_valid key"
  shows "split_on CHR ''/'' (object_path key) = [take 2 (drop 7 key), take 2 (drop 9 key), drop 7 key]" "path_Clean (object_path key) = object_path key"
proof -
  obtain a b dg where p: "key = ''sha256/'' @ dg" "object_path key = a @ CHR ''/'' # b @ CHR ''/'' # dg" "a = take 2 dg" "b = take 2 (drop 2 dg)"
    "list_all lower_hex_char dg" "length dg = 64" by (rule object_path_parts [OF assms])
  have hex: "c \<noteq> CHR ''/''" "c \<noteq> CHR ''.''" if "c \<in> set dg" for c using that p(5) hex_not_special by (auto simp: list_all_iff)
  have sub: "set a \<subseteq> set dg" "set b \<subseteq> set dg" unfolding p(3,4) by (auto dest: in_set_takeD in_set_dropD)
  have "CHR ''/'' \<notin> set a" "CHR ''/'' \<notin> set b" "CHR ''/'' \<notin> set dg" using hex(1) sub by blast+
  then have split: "split_on CHR ''/'' (object_path key) = [a, b, dg]"
    unfolding p(2) by (simp add: split_on_append split_on_none)
  then show "split_on CHR ''/'' (object_path key) = [take 2 (drop 7 key), take 2 (drop 9 key), drop 7 key]" by (simp add: p)
  have proper: "x \<noteq> [] \<and> x \<noteq> ''.'' \<and> x \<noteq> ''..''" if "x \<in> {a, b, dg}" for x
  proof -
    have "x \<noteq> []" using that p by auto
    moreover have "hd x \<noteq> CHR ''.''" using that sub hex(2) \<open>x \<noteq> []\<close> by (metis hd_in_set insertE singletonD subsetD)
    ultimately show ?thesis by auto
  qed
  have "\<not> has_prefix (object_path key) ''/''" using proper [of a] sub hex(1) unfolding p(2) by (cases a) auto
  then show "path_Clean (object_path key) = object_path key"
    using proper by (simp add: path_Clean_def split Let_def) (simp add: p(2))
qed

lemma object_name_reference:
  assumes "key_valid key"
  shows "archiveEntryReference (archiveObjectPrefix @ object_path key) = Inr (key, object_path key)"
proof -
  obtain a b dg where p: "key = ''sha256/'' @ dg" "object_path key = a @ CHR ''/'' # b @ CHR ''/'' # dg" "a = take 2 dg" "b = take 2 (drop 2 dg)"
    "list_all lower_hex_char dg" "length dg = 64" by (rule object_path_parts [OF assms])
  have hex: "c \<noteq> CHR ''.''" "c \<noteq> CHR 0x5C" if "c \<in> set dg" for c using that p(5) hex_not_special by (auto simp: list_all_iff)
  have sub: "set a \<subseteq> set dg" "set b \<subseteq> set dg" unfolding p(3,4) by (auto dest: in_set_takeD in_set_dropD)
  have "a \<noteq> []" using p by auto
  then have dot: "hd (object_path key) \<noteq> CHR ''.''" using hex(1) sub(1) unfolding p(2) by (cases a) auto
  have "CHR 0x5C \<notin> set (object_path key)" using hex(2) sub unfolding p(2) by auto
  then have "CHR 0x5C \<notin> set (archiveObjectPrefix @ object_path key)" by (simp add: archiveObjectPrefix_def)
  moreover have "object_path key \<noteq> ''.''" "\<not> has_prefix (object_path key) ''../''" using dot by (auto simp: has_prefix_iff)
  moreover have "\<not> has_prefix (archiveObjectPrefix @ object_path key) ''/''" by (simp add: archiveObjectPrefix_def)
  moreover have "''sha256/'' @ drop 7 key = key" by (simp add: p)
  ultimately show ?thesis using assms by (simp add: archiveEntryReference_def object_path_clean Let_def relativePathForKey_valid)
qed

lemma archiveEntryReference_Inr:
  assumes "archiveEntryReference name = Inr (key, relative)"
  shows "key_valid key" "relative = object_path key" "name = archiveObjectPrefix @ object_path key"
  using assms by (auto simp: archiveEntryReference_def Let_def relativePathForKey_Inr has_prefix_iff split: if_splits sum.splits)

section \<open>What a restoration leaves\<close>

definition archive_total :: "(string \<Rightarrow> bytes option) \<Rightarrow> int" where
  "archive_total m = (\<Sum>p \<in> dom m. int (length (the (m p))))"

text \<open>Every object is durable and lies at the path of its own digest, and the statistics count them.\<close>

definition restored_ok :: "(bytes \<Rightarrow> bytes) \<Rightarrow> archive_stats \<Rightarrow> restore_target \<Rightarrow> bool" where
  "restored_ok sha256 stats tg \<longleftrightarrow>
     (\<forall>p b. tg_objects tg p = Some b \<longrightarrow> key_valid (object_key sha256 b) \<and> p = object_path (object_key sha256 b)) \<and>
     tg_durable tg = tg_objects tg \<and> finite (dom (tg_objects tg)) \<and>
     as_objects stats = int (card (dom (tg_objects tg))) \<and> as_bytes stats = archive_total (tg_objects tg)"

lemma archive_total_update:
  assumes "finite (dom m)" and "m p = None"
  shows "archive_total (m(p \<mapsto> b)) = archive_total m + int (length b)" "int (card (dom (m(p \<mapsto> b)))) = int (card (dom m)) + 1"
proof -
  have p: "p \<notin> dom m" using assms(2) by auto
  have "(\<Sum>q \<in> dom m. int (length (the ((m(p \<mapsto> b)) q)))) = archive_total m"
    unfolding archive_total_def by (rule sum.cong) (use p in auto)
  then show "archive_total (m(p \<mapsto> b)) = archive_total m + int (length b)" using assms(1) p by (simp add: archive_total_def)
  show "int (card (dom (m(p \<mapsto> b)))) = int (card (dom m)) + 1" using assms(1) p by simp
qed

lemma restore_entry_None:
  assumes "restore_entry sha256 env root expected te st = (None, st')"
  obtains key b where "key_valid key" "key = object_key sha256 b" "tg_objects (snd st) (object_path key) = None"
    "st' = ((fst st)\<lparr>as_objects := as_objects (fst st) + 1, as_bytes := as_bytes (fst st) + int (length b)\<rparr>,
       sync_restored (object_dir (object_path key)) ((snd st)\<lparr>tg_entries := insert ''objects'' (tg_entries (snd st)), tg_objects := (tg_objects (snd st))(object_path key \<mapsto> b)\<rparr>))"
proof -
  obtain key relative where ref: "archiveEntryReference (te_name te) = Inr (key, relative)"
    using assms by (auto simp: restore_entry_def split: if_splits sum.splits)
  note k = archiveEntryReference_Inr [OF ref]
  show thesis
    using assms k ref that [of key] by (auto simp: restore_entry_def Let_def split: if_splits option.splits prod.splits sum.splits)
qed

lemma restore_entry_ok:
  assumes "restore_entry sha256 env root expected te (stats, tg) = (None, stats', tg')" and "restored_ok sha256 stats tg"
  shows "restored_ok sha256 stats' tg'"
proof (rule restore_entry_None [OF assms(1)])
  fix key b
  assume k: "key_valid key" "key = object_key sha256 b" "tg_objects (snd (stats, tg)) (object_path key) = None"
    "(stats', tg') = ((fst (stats, tg))\<lparr>as_objects := as_objects (fst (stats, tg)) + 1, as_bytes := as_bytes (fst (stats, tg)) + int (length b)\<rparr>,
       sync_restored (object_dir (object_path key)) ((snd (stats, tg))\<lparr>tg_entries := insert ''objects'' (tg_entries (snd (stats, tg))), tg_objects := (tg_objects (snd (stats, tg)))(object_path key \<mapsto> b)\<rparr>))"
  have fin: "finite (dom (tg_objects tg))" using assms(2) by (simp add: restored_ok_def)
  then have fin': "finite (dom ((tg_objects tg)(object_path key \<mapsto> b)))" by simp
  show ?thesis
    using assms(2) k archive_total_update [OF fin, of "object_path key" b] fin'
    by (auto simp: restored_ok_def sync_restored_def fun_eq_iff simp del: dom_fun_upd split: if_splits)
qed

lemma restore_entries_ok:
  "restore_entries sha256 env root expected end' i tes (stats, tg) = (None, stats', tg') \<Longrightarrow> restored_ok sha256 stats tg \<Longrightarrow> restored_ok sha256 stats' tg'"
proof (induction tes arbitrary: i stats tg)
  case Nil
  then show ?case by (auto simp: restore_entries.simps [of _ _ _ _ _ _ "[]"] split: option.splits if_splits)
next
  case (Cons te tes)
  obtain stats1 tg1 where "restore_entry sha256 env root expected te (stats, tg) = (None, stats1, tg1)"
      "restore_entries sha256 env root expected end' (Suc i) tes (stats1, tg1) = (None, stats', tg')"
    using Cons.prems(1) by (auto simp: restore_entries.simps [of _ _ _ _ _ _ "te # tes"] split: option.splits prod.splits)
  then show ?case using Cons.IH restore_entry_ok Cons.prems(2) by blast
qed

text \<open>Of an empty root nothing is left over.\<close>

definition target_ok :: "restore_target \<Rightarrow> bool" where
  "target_ok tg \<longleftrightarrow> (tg_kind tg = Missing \<longrightarrow> tg_entries tg = {}) \<and> (tg_entries tg = {} \<longrightarrow> tg_objects tg = Map.empty \<and> tg_durable tg = Map.empty)"

lemma restore_body_ok:
  assumes "restore_body sha256 env root source expected tg = (None, stats, tg')" and "tg_objects tg = Map.empty" and "tg_durable tg = Map.empty"
  shows "stats = expected \<and> restored_ok sha256 stats tg'"
proof -
  let ?zero = "\<lparr>as_objects = 0, as_bytes = 0\<rparr>"
  have "restore_entries sha256 env root expected (av_end source) 0 (av_entries source) (?zero, tg) = (None, stats, tg')" and eq: "stats = expected"
    using assms(1) by (auto simp: restore_body_def Let_def split: option.splits prod.splits if_splits)
  moreover have "restored_ok sha256 ?zero tg" using assms(2,3) by (simp add: restored_ok_def archive_total_def)
  ultimately show ?thesis using restore_entries_ok by blast
qed

lemma prepare_root_Inr:
  assumes "prepare_root env tg = Inr tg1" and "target_ok tg"
  shows "tg1 = tg\<lparr>tg_kind := Directory\<rparr>" "tg_entries tg = {}" "tg_objects tg = Map.empty" "tg_durable tg = Map.empty"
  using assms by (auto simp: prepare_root_def target_ok_def split: option.splits root_kind.splits if_splits)

text \<open>
  A restoration is all or nothing and trusts no archive: whatever bytes it reads, when it succeeds the content root
  holds exactly as many objects and bytes as expected, each durable and at the path of its own digest, and when it fails, and what it began can
  be removed, the root holds what it held before.
\<close>

theorem RestoreArchive_all_or_nothing:
  assumes "target_ok tg" and "rx_flt env ROCleanup = None" and "RestoreArchive sha256 env targetRoot source expected tg = ((stats, errs), tg')"
  shows "if errs = [] then stats = expected \<and> restored_ok sha256 stats tg' else tg_entries tg' = tg_entries tg \<and> tg_objects tg' = tg_objects tg"
proof (cases "\<exists>view root tg1. source = Some view \<and> rx_abs env targetRoot = Inr root \<and> prepare_root env tg = Inr tg1 \<and> rx_flt env ROSecure = None \<and>
    trim_space targetRoot \<noteq> [] \<and> \<not> (as_objects expected < 0 \<or> as_bytes expected < 0)")
  case True
  then obtain view root tg1 where c: "source = Some view" "rx_abs env targetRoot = Inr root" "prepare_root env tg = Inr tg1" "rx_flt env ROSecure = None"
    "trim_space targetRoot \<noteq> []" "\<not> (as_objects expected < 0 \<or> as_bytes expected < 0)" by blast
  note p = prepare_root_Inr [OF c(3) assms(1)]
  obtain e s2 tg2 where x: "restore_body sha256 env root view expected tg1 = (e, s2, tg2)" by (metis prod_cases3)
  show ?thesis
  proof (cases e)
    case None
    then show ?thesis using restore_body_ok [OF x [unfolded None]] p assms(3) c x by (auto simp: RestoreArchive_def Let_def)
  next
    case (Some e')
    then show ?thesis using p assms(2,3) c x by (auto simp: RestoreArchive_def Let_def)
  qed
next
  case False
  have same: "tg_entries tg1 = tg_entries tg" "tg_objects tg1 = tg_objects tg" if "prepare_root env tg = Inr tg1" for tg1
    using prepare_root_Inr(1) [OF that assms(1)] by simp_all
  have "errs \<noteq> [] \<and> tg_entries tg' = tg_entries tg \<and> tg_objects tg' = tg_objects tg"
    using assms(3) False by (auto simp: RestoreArchive_def Let_def same split: if_splits option.splits sum.splits)
  then show ?thesis by simp
qed
section \<open>Writing and restoring\<close>

text \<open>What the readers find in what the writers wrote.\<close>

definition archive_of :: "tar_entry list \<Rightarrow> archive_view" where
  "archive_of es = \<lparr>av_gzip = None, av_entries = es, av_end = EOF, av_close = None, av_rest = Some EOF\<rparr>"

definition quiet_restore :: "restore_env \<Rightarrow> bool" where
  "quiet_restore env \<longleftrightarrow> rx_flt env = (\<lambda>_. None) \<and> rx_tree env = (\<lambda>_. None) \<and> (\<forall>k. rx_cancel env k = None)"

definition stored_intact :: "(bytes \<Rightarrow> bytes) \<Rightarrow> store \<Rightarrow> content_ref \<Rightarrow> bool" where
  "stored_intact sha256 s r \<longleftrightarrow> key_valid (cr_key r) \<and> (\<exists>b. st_objects s (object_path (cr_key r)) = Some b \<and> int (length b) = cr_size r \<and> object_key sha256 b = cr_key r)"

definition entry_of :: "store \<Rightarrow> content_ref \<Rightarrow> tar_entry" where
  "entry_of s r = object_entry (object_path (cr_key r)) (cr_size r) (the (st_objects s (object_path (cr_key r))))"

lemma archive_object_None:
  assumes "archive_object sha256 env s ref st = (None, st')"
  shows "stored_intact sha256 s ref" "st' = ((fst st)\<lparr>as_objects := as_objects (fst st) + 1, as_bytes := as_bytes (fst st) + cr_size ref\<rparr>, snd st @ [entry_of s ref])"
proof -
  obtain raw where k: "key_valid (cr_key ref)" and o: "OpenContent (sv_flt (ax_read env (cr_key ref))) ref s = Inr raw"
    using assms by (auto simp: archive_object_def Let_def relativePathForKey_Inr split: option.splits sum.splits if_splits)
  have f: "st_objects s (object_path (cr_key ref)) = Some raw" using o k by (auto simp: OpenContent_def relativePathForKey_valid split: option.splits)
  obtain content end' where c: "contextReader (sv_cancel (ax_read env (cr_key ref))) (raw, (case sv_flt (ax_read env (cr_key ref)) OpReadObject of None \<Rightarrow> EOF | Some e \<Rightarrow> e)) = (content, end')"
    by fastforce
  have end': "end' = EOF" "int (length content) = cr_size ref" "cr_key ref = object_key sha256 content"
    and st': "st' = ((fst st)\<lparr>as_objects := as_objects (fst st) + 1, as_bytes := as_bytes (fst st) + int (length content)\<rparr>,
        snd st @ [object_entry (object_path (cr_key ref)) (cr_size ref) (take (nat (cr_size ref)) content)])"
    using assms k o c by (auto simp: archive_object_def Let_def relativePathForKey_valid split: option.splits if_splits)
  have "content = raw" using contextReader_EOF [of "sv_cancel (ax_read env (cr_key ref))" raw _ content] c end'(1) by simp
  moreover from end'(2) have "nat (cr_size ref) = length content" by simp
  ultimately show "stored_intact sha256 s ref"
    "st' = ((fst st)\<lparr>as_objects := as_objects (fst st) + 1, as_bytes := as_bytes (fst st) + cr_size ref\<rparr>, snd st @ [entry_of s ref])"
    using st' end' f k by (simp_all add: stored_intact_def entry_of_def)
qed

lemma archive_entries_None:
  "visit_all (archive_entry sha256 env s) xs st = (None, st') \<Longrightarrow>
    list_all (stored_intact sha256 s) (objects_in xs) \<and>
    st' = ((fst st)\<lparr>as_objects := as_objects (fst st) + int (length (objects_in xs)), as_bytes := as_bytes (fst st) + sum_list (map cr_size (objects_in xs))\<rparr>,
      snd st @ map (entry_of s) (objects_in xs))"
proof (induction xs arbitrary: st)
  case (Cons x xs)
  obtain st1 where v: "archive_entry sha256 env s x st = (None, st1)" and rest: "visit_all (archive_entry sha256 env s) xs st1 = (None, st')"
    using Cons.prems by (auto split: prod.splits option.splits)
  show ?case
  proof (cases "case object_of x of Inr o' \<Rightarrow> o' | Inl _ \<Rightarrow> None")
    case None
    then have "st1 = st" using v by (auto simp: archive_entry_def split: sum.splits option.splits)
    then show ?thesis using Cons.IH [OF rest] None by (simp add: objects_in_def map_filter_simps)
  next
    case (Some ref)
    then have "archive_object sha256 env s ref st = (None, st1)" using v by (auto simp: archive_entry_def split: sum.splits)
    from archive_object_None [OF this] show ?thesis using Cons.IH [OF rest] Some by (simp add: objects_in_def map_filter_simps algebra_simps)
  qed
qed (simp add: objects_in_def map_filter_simps)

lemma restore_entry_quiet:
  assumes env: "quiet_restore env" and r: "stored_intact sha256 s r" and new: "tg_objects tg (object_path (cr_key r)) = None" and dur: "tg_durable tg = tg_objects tg"
    and room: "as_objects stats < as_objects expected" "cr_size r \<le> as_bytes expected - as_bytes stats"
  shows "\<exists>tg'. restore_entry sha256 env root expected (entry_of s r) (stats, tg) = (None, stats\<lparr>as_objects := as_objects stats + 1, as_bytes := as_bytes stats + cr_size r\<rparr>, tg') \<and>
    tg_objects tg' = (tg_objects tg)(object_path (cr_key r) := st_objects s (object_path (cr_key r))) \<and> tg_durable tg' = tg_objects tg'"
proof -
  let ?p = "object_path (cr_key r)"
  obtain b where b: "key_valid (cr_key r)" "st_objects s ?p = Some b" "int (length b) = cr_size r" "object_key sha256 b = cr_key r"
    using r by (auto simp: stored_intact_def)
  have "nat (cr_size r) = length b" "0 \<le> cr_size r" using b(3) by simp_all
  moreover have "fst (syncDirectoryTree (rx_tree env) root (root @ [''objects'', ''sha256'', take 2 ?p, take 2 (drop 3 ?p)])) = Inr ()"
    using env by (intro syncDirectoryTree_quiet) (simp_all add: quiet_restore_def)
  moreover have "archiveEntryReference (te_name (entry_of s r)) = Inr (cr_key r, ?p)" using object_name_reference [OF b(1)] by (simp add: entry_of_def object_entry_def)
  ultimately show ?thesis
    using env new dur room b by (simp add: restore_entry_def Let_def entry_of_def object_entry_def quiet_restore_def sync_restored_def fun_eq_iff)
qed

lemma restore_entries_quiet:
  assumes env: "quiet_restore env"
  shows "list_all (stored_intact sha256 s) rs \<Longrightarrow> distinct (map cr_key rs) \<Longrightarrow> \<forall>r \<in> set rs. tg_objects tg (object_path (cr_key r)) = None \<Longrightarrow> tg_durable tg = tg_objects tg \<Longrightarrow>
    as_objects expected = as_objects stats + int (length rs) \<Longrightarrow> as_bytes expected = as_bytes stats + sum_list (map cr_size rs) \<Longrightarrow>
    \<exists>tg'. restore_entries sha256 env root expected EOF i (map (entry_of s) rs) (stats, tg) = (None, expected, tg') \<and> tg_durable tg' = tg_objects tg' \<and>
      tg_objects tg' = (\<lambda>p. if p \<in> (\<lambda>r. object_path (cr_key r)) ` set rs then st_objects s p else tg_objects tg p)"
proof (induction rs arbitrary: i stats tg)
  case Nil
  then show ?case using env by (intro exI [of _ tg]) (simp add: restore_entries.simps [of _ _ _ _ _ _ "[]"] quiet_restore_def)
next
  case (Cons r rs)
  have nonneg: "0 \<le> sum_list (map cr_size rs)"
    using Cons.prems(1) by (intro sum_list_nonneg) (auto simp: list_all_iff stored_intact_def)
  obtain tg1 where r: "restore_entry sha256 env root expected (entry_of s r) (stats, tg) = (None, stats\<lparr>as_objects := as_objects stats + 1, as_bytes := as_bytes stats + cr_size r\<rparr>, tg1)"
    and tg1: "tg_objects tg1 = (tg_objects tg)(object_path (cr_key r) := st_objects s (object_path (cr_key r)))" "tg_durable tg1 = tg_objects tg1"
    using restore_entry_quiet [OF env, of sha256 s r tg stats expected root] Cons.prems nonneg by auto
  have "object_path (cr_key q) \<noteq> object_path (cr_key r)" if "q \<in> set rs" for q
  proof
    assume "object_path (cr_key q) = object_path (cr_key r)"
    moreover have "key_valid (cr_key q)" "key_valid (cr_key r)" using Cons.prems(1) that by (auto simp: list_all_iff stored_intact_def)
    ultimately have "cr_key q = cr_key r" by (simp add: object_path_inj)
    then show False using Cons.prems(2) that by (metis distinct.simps(2) image_eqI list.map(2) list.set_map)
  qed
  then have fresh: "\<forall>q \<in> set rs. tg_objects tg1 (object_path (cr_key q)) = None" using Cons.prems(3) tg1(1) by simp
  obtain tg' where run: "restore_entries sha256 env root expected EOF (Suc i) (map (entry_of s) rs)
      (stats\<lparr>as_objects := as_objects stats + 1, as_bytes := as_bytes stats + cr_size r\<rparr>, tg1) = (None, expected, tg')"
    and tg': "tg_durable tg' = tg_objects tg'" "tg_objects tg' = (\<lambda>p. if p \<in> (\<lambda>r. object_path (cr_key r)) ` set rs then st_objects s p else tg_objects tg1 p)"
    using Cons.IH [OF _ _ fresh tg1(2), of "stats\<lparr>as_objects := as_objects stats + 1, as_bytes := as_bytes stats + cr_size r\<rparr>" "Suc i"] Cons.prems by auto
  have "restore_entries sha256 env root expected EOF i (map (entry_of s) (r # rs)) (stats, tg) = (None, expected, tg')"
    using env r run by (subst restore_entries.simps) (simp add: quiet_restore_def)
  moreover have "tg_objects tg' = (\<lambda>p. if p \<in> (\<lambda>r. object_path (cr_key r)) ` set (r # rs) then st_objects s p else tg_objects tg p)"
    unfolding tg'(2) tg1(1) by (auto simp: fun_eq_iff)
  ultimately show ?case using tg'(1) by blast
qed

lemma archive_stats_nonneg:
  assumes "WriteArchive sha256 True xenv s = ((stats, []), es)"
  shows "stats = \<lparr>as_objects = as_objects stats, as_bytes = as_bytes stats\<rparr>" "0 \<le> as_objects stats" "0 \<le> as_bytes stats"
proof -
  let ?rs = "objects_in (ax_entries xenv)" let ?zero = "\<lparr>as_objects = 0, as_bytes = 0\<rparr>"
  have "visit_all (archive_entry sha256 xenv s) (ax_entries xenv) (?zero, []) = (None, stats, es)"
    using assms by (auto simp: WriteArchive_def error_list_def split: prod.splits option.splits)
  from archive_entries_None [OF this] have w: "list_all (stored_intact sha256 s) ?rs" "as_objects stats = int (length ?rs)" "as_bytes stats = sum_list (map cr_size ?rs)" by auto
  show "0 \<le> as_objects stats" using w(2) by simp
  show "0 \<le> as_bytes stats" unfolding w(3) using w(1) by (intro sum_list_nonneg) (auto simp: list_all_iff stored_intact_def)
qed simp

text \<open>
  An archive restores what it archives: if the archive of a store is written without an error, its restoration into an absent or empty root
  succeeds, with the statistics of the writer, and the root holds exactly the objects of the store, durably.
\<close>

lemma archive_roundtrip:
  assumes "WriteArchive sha256 True xenv s = ((stats, []), es)" and "walk_shows (st_objects s) (ax_entries xenv)"
    and "quiet_restore env" and "trim_space targetRoot \<noteq> []" and "rx_abs env targetRoot = Inr root"
    and "target_ok tg" and "tg_kind tg \<noteq> NotDirectory" and "tg_entries tg = {}"
  shows "\<exists>tg'. RestoreArchive sha256 env targetRoot (Some (archive_of es)) stats tg = ((stats, []), tg') \<and> tg_objects tg' = st_objects s \<and> tg_durable tg' = st_objects s"
proof -
  let ?rs = "objects_in (ax_entries xenv)" let ?zero = "\<lparr>as_objects = 0, as_bytes = 0\<rparr>" let ?tg = "tg\<lparr>tg_kind := Directory\<rparr>"
  have "visit_all (archive_entry sha256 xenv s) (ax_entries xenv) (?zero, []) = (None, stats, es)"
    using assms(1) by (auto simp: WriteArchive_def error_list_def split: prod.splits option.splits)
  from archive_entries_None [OF this] have w: "list_all (stored_intact sha256 s) ?rs" "es = map (entry_of s) ?rs"
    "as_objects stats = int (length ?rs)" "as_bytes stats = sum_list (map cr_size ?rs)" by auto
  have nonneg: "0 \<le> as_bytes stats" unfolding w(4) using w(1) by (intro sum_list_nonneg) (auto simp: list_all_iff stored_intact_def)
  have empty: "tg_objects tg = Map.empty" "tg_durable tg = Map.empty" using assms(6,8) by (auto simp: target_ok_def)
  have dist: "distinct (map cr_key ?rs)" by (rule walk_objects(2) [OF assms(2)])
  obtain tg' where run: "restore_entries sha256 env root stats EOF 0 (map (entry_of s) ?rs) (?zero, ?tg) = (None, stats, tg')"
    and tg': "tg_durable tg' = tg_objects tg'" "tg_objects tg' = (\<lambda>p. if p \<in> (\<lambda>r. object_path (cr_key r)) ` set ?rs then st_objects s p else tg_objects ?tg p)"
    using restore_entries_quiet [OF assms(3) w(1) dist, of ?tg stats ?zero root 0] empty w(3,4) by auto
  have objs: "tg_objects tg' = st_objects s"
  proof
    fix p
    have "st_objects s p = None" if "p \<notin> (\<lambda>r. object_path (cr_key r)) ` set ?rs" using walk_objects(4) [OF assms(2)] that by blast
    then show "tg_objects tg' p = st_objects s p" using empty(1) by (simp add: tg'(2))
  qed
  have prep: "prepare_root env tg = Inr ?tg"
    using assms(3,7,8) by (cases "tg_kind tg") (auto simp: prepare_root_def quiet_restore_def)
  have "RestoreArchive sha256 env targetRoot (Some (archive_of es)) stats tg = ((stats, []), tg')"
    using assms(3-5) run prep nonneg w(2,3) by (simp add: RestoreArchive_def restore_body_def archive_of_def quiet_restore_def)
  then show ?thesis using objs tg'(1) by simp
qed

section \<open>Witnesses\<close>

definition sample_archive_env :: archive_env where
  "sample_archive_env = \<lparr>ax_entries = [stray_entry], ax_ctx = (\<lambda>k. None), ax_header = (\<lambda>k. None), ax_read = (\<lambda>k. sample_senv ''1''), ax_write = (\<lambda>k. None),
     ax_close = (\<lambda>k. None), ax_tarClose = None, ax_gzipClose = None\<rparr>"

definition sample_restore_env :: restore_env where
  "sample_restore_env = \<lparr>rx_abs = (\<lambda>r. Inr [''content'']), rx_flt = (\<lambda>o'. None), rx_tree = (\<lambda>o'. None), rx_cancel = (\<lambda>k. None)\<rparr>"

definition no_target :: restore_target where
  "no_target = \<lparr>tg_kind = Missing, tg_entries = {}, tg_objects = Map.empty, tg_durable = Map.empty\<rparr>"

lemma sample_archive:
  "WriteArchive sample_sha True sample_archive_env stray_store =
     ((\<lparr>as_objects = 1, as_bytes = 3\<rparr>, []), [object_entry (object_path (object_key sample_sha ''abc'')) 3 ''abc''])"
proof -
  have "relativePathForKey (object_key sample_sha ''abc'') = Inr (object_path (object_key sample_sha ''abc''))"
    by (rule relativePathForKey_valid [OF object_key_valid]) (simp add: sample_sha_def)
  then show ?thesis
    by (simp add: WriteArchive_def sample_archive_env_def archive_entry_def stray_object archive_object_def OpenContent_def sample_senv_def ustarMaxSize_def
        stray_store_def error_list_def Let_def)
qed

lemma sample_root: "trim_space ''content'' \<noteq> []"
  using trim_space_plain [of "''content''"] by (simp add: plain_char_def is_ascii_def ascii_space_def)

theorem RestoreArchive_all_or_nothing_witness:
  "case RestoreArchive sample_sha sample_restore_env ''content'' (Some (archive_of [object_entry ''../passwd'' 3 ''abc''])) \<lparr>as_objects = 1, as_bytes = 3\<rparr> no_target of
     ((stats, errs), tg') \<Rightarrow> if errs = [] then stats = \<lparr>as_objects = 1, as_bytes = 3\<rparr> \<and> restored_ok sample_sha stats tg' else tg_entries tg' = {} \<and> tg_objects tg' = Map.empty"
  using RestoreArchive_all_or_nothing [of no_target sample_restore_env sample_sha "''content''"]
  by (auto simp: no_target_def target_ok_def sample_restore_env_def split: prod.split)

end
