(* ===== verification/Backup_Tool.thy ===== *)
theory Backup_Tool
  imports Content_Archive Wisp_Config Net_Addr
begin

text \<open>
  \<^verbatim>\<open>postgres/backup_tool.go\<close>: the adapter of \<^verbatim>\<open>pg_dump\<close> and \<^verbatim>\<open>pg_restore\<close>. The programs, their version texts and the parser of
  connection strings are parameters; the versions, the environment of the programs and the steps around them are modelled.
\<close>

section \<open>Versions\<close>

record database_metadata =
  dm_server :: string
  dm_dump :: string
  dm_restore :: string
  dm_migration :: int

text \<open>
  The expression \<^verbatim>\<open>\b([0-9]+(?:\.[0-9]+)+)\b\<close>, leftmost and greedy. A run of digits is always taken whole, since a digit after it would not
  be a word boundary; when a letter follows the last group, the match ends before that group.
\<close>

definition word_char :: "char \<Rightarrow> bool" where
  "word_char c \<longleftrightarrow> is_digit c \<or> in_range CHR ''a'' CHR ''z'' c \<or> in_range CHR ''A'' CHR ''Z'' c \<or> c = CHR ''_''"

function version_groups :: "string \<Rightarrow> string list \<times> string" where
  "version_groups s =
     (case s of
        [] \<Rightarrow> ([], s)
      | c # r \<Rightarrow>
          let d = takeWhile is_digit r in
          if c \<noteq> CHR ''.'' \<or> d = [] then ([], s)
          else (case version_groups (dropWhile is_digit r) of (gs, rest) \<Rightarrow> (d # gs, rest)))"
  by pat_completeness auto

termination
  by (relation "measure length") (auto simp: le_imp_less_Suc length_dropWhile_le)

declare version_groups.simps [simp del]

definition version_at :: "string \<Rightarrow> string option" where
  "version_at s =
     (let d = takeWhile is_digit s in
      case version_groups (dropWhile is_digit s) of
        (gs, rest) \<Rightarrow>
          let gs' = (if rest \<noteq> [] \<and> word_char (hd rest) then butlast gs else gs) in
          if d = [] \<or> gs' = [] then None else Some (d @ concat (map (\<lambda>g. CHR ''.'' # g) gs')))"

fun find_version :: "bool \<Rightarrow> string \<Rightarrow> string option" where
  "find_version afterWord [] = None"
| "find_version afterWord (c # s) =
     (case (if afterWord then None else version_at (c # s)) of
        Some v \<Rightarrow> Some v
      | None \<Rightarrow> find_version (word_char c) s)"

definition parsePostgreSQLVersion :: "string \<Rightarrow> string result" where
  "parsePostgreSQLVersion value = (case find_version False value of None \<Rightarrow> Inl (OtherError ''PostgreSQL version not found'') | Some v \<Rightarrow> Inr v)"

definition postgreSQLMajor :: "string \<Rightarrow> string result" where
  "postgreSQLMajor version =
     (case split_on CHR ''.'' version of
        a # b # _ \<Rightarrow>
          if a = [] \<or> b = [] then Inl (OtherError ''major version not found'')
          else if a = ''9'' then Inr (a @ ''.'' @ b) else Inr a
      | _ \<Rightarrow> Inl (OtherError ''major version not found''))"

definition validateToolMajors :: "database_metadata \<Rightarrow> go_error option" where
  "validateToolMajors m =
     (case postgreSQLMajor (dm_server m) of
        Inl e \<Rightarrow> Some e
      | Inr serverMajor \<Rightarrow>
          (case postgreSQLMajor (dm_dump m) of
             Inl e \<Rightarrow> Some e
           | Inr dumpMajor \<Rightarrow>
               (case postgreSQLMajor (dm_restore m) of
                  Inl e \<Rightarrow> Some e
                | Inr restoreMajor \<Rightarrow>
                    if serverMajor \<noteq> dumpMajor \<or> serverMajor \<noteq> restoreMajor
                    then Some (OtherError ''postgres server/pg_dump/pg_restore major mismatch'') else None)))"

section \<open>The environment of the programs\<close>

record environment_variable =
  ev_name :: string
  ev_value :: string

record tls_config =
  tl_rootCAs :: bool
  tl_certificates :: bool
  tl_insecureSkipVerify :: bool
  tl_verifyPeerCertificate :: bool
  tl_serverName :: string

record fallback_config =
  fb_host :: string
  fb_port :: nat
  fb_tls :: "tls_config option"

record conn_config =
  co_host :: string
  co_port :: nat
  co_database :: string
  co_user :: string
  co_password :: string
  co_tls :: "tls_config option"
  co_fallbacks :: "fallback_config list"
  co_validateConnect :: bool
  co_connectTimeout :: duration
  co_sslNegotiation :: string
  co_channelBinding :: string
  co_requireAuth :: string
  co_minProtocol :: string
  co_maxProtocol :: string

definition JoinHostPort :: "string \<Rightarrow> string \<Rightarrow> string" where
  "JoinHostPort host port = (if CHR '':'' \<in> set host then ''['' @ host @ '']:'' @ port else host @ '':'' @ port)"

fun add_endpoints :: "fallback_config list \<Rightarrow> string list \<Rightarrow> string list" where
  "add_endpoints [] endpoints = endpoints"
| "add_endpoints (f # fs) endpoints =
     (let endpoint = JoinHostPort (fb_host f) (format_int (int (fb_port f))) in
      add_endpoints fs (if endpoint \<in> set endpoints then endpoints else endpoints @ [endpoint]))"

definition postgresCommandTLS :: "conn_config \<Rightarrow> (string \<times> string \<times> string) result" where
  "postgresCommandTLS c =
     (if (case co_tls c of None \<Rightarrow> False | Some t \<Rightarrow> tl_rootCAs t \<or> tl_certificates t)
      then Inl (OtherError ''postgres backup tool does not yet support custom TLS certificate files'')
      else
        let own = filter (\<lambda>f. fb_host f = co_host c \<and> fb_port f = co_port c) (co_fallbacks c);
            hasTLSFallback = list_ex (\<lambda>f. fb_tls f \<noteq> None) own; hasPlainFallback = list_ex (\<lambda>f. fb_tls f = None) own;
            sni = (case co_tls c of None \<Rightarrow> [] | Some t \<Rightarrow> if tl_serverName t = [] \<and> ParseIP (co_host c) = None then ''0'' else []) in
        (case co_tls c of
           None \<Rightarrow> if hasTLSFallback then Inr (''allow'', [], sni) else Inr (''disable'', [], sni)
         | Some t \<Rightarrow>
             if hasPlainFallback then Inr (''prefer'', [], sni)
             else if \<not> tl_insecureSkipVerify t then Inr (''verify-full'', ''system'', sni)
             else if tl_verifyPeerCertificate t then Inr (''verify-ca'', ''system'', sni)
             else Inr (''require'', [], sni)))"

definition optional_variable :: "string \<Rightarrow> string \<Rightarrow> environment_variable list" where
  "optional_variable name value = (if value = [] then [] else [\<lparr>ev_name = name, ev_value = value\<rparr>])"

definition postgresCommandEnvironment :: "conn_config \<Rightarrow> environment_variable list result" where
  "postgresCommandEnvironment c =
     (if length (add_endpoints (co_fallbacks c) [JoinHostPort (co_host c) (format_int (int (co_port c)))]) \<noteq> 1
      then Inl (OtherError ''postgres backup tool requires a single-host DSN'')
      else if co_validateConnect c then Inl (OtherError ''postgres backup tool does not support target_session_attrs'')
      else case postgresCommandTLS c of
          Inl e \<Rightarrow> Inl e
        | Inr (sslMode, sslRootCert, sslSNI) \<Rightarrow>
            Inr ([\<lparr>ev_name = ''PGHOST'', ev_value = co_host c\<rparr>, \<lparr>ev_name = ''PGPORT'', ev_value = format_int (int (co_port c))\<rparr>,
                  \<lparr>ev_name = ''PGDATABASE'', ev_value = co_database c\<rparr>, \<lparr>ev_name = ''PGUSER'', ev_value = co_user c\<rparr>,
                  \<lparr>ev_name = ''PGPASSWORD'', ev_value = co_password c\<rparr>, \<lparr>ev_name = ''PGSSLMODE'', ev_value = sslMode\<rparr>] @
                 (if co_connectTimeout c > 0 then [\<lparr>ev_name = ''PGCONNECT_TIMEOUT'', ev_value = format_int ((co_connectTimeout c + seconds 1 - 1) div seconds 1)\<rparr>] else []) @
                 optional_variable ''PGSSLROOTCERT'' sslRootCert @ optional_variable ''PGSSLSNI'' sslSNI @
                 optional_variable ''PGSSLNEGOTIATION'' (co_sslNegotiation c) @ optional_variable ''PGCHANNELBINDING'' (co_channelBinding c) @
                 optional_variable ''PGREQUIREAUTH'' (co_requireAuth c) @ optional_variable ''PGMINPROTOCOLVERSION'' (co_minProtocol c) @
                 optional_variable ''PGMAXPROTOCOLVERSION'' (co_maxProtocol c)))"

definition postgresConnectionEnvironmentNames :: "string list" where
  "postgresConnectionEnvironmentNames =
     [''PGAPPNAME'', ''PGCHANNELBINDING'', ''PGCLIENTENCODING'', ''PGCONNECT_TIMEOUT'', ''PGDATABASE'', ''PGGSSLIB'', ''PGGSSENCMODE'',
      ''PGHOST'', ''PGHOSTADDR'', ''PGKRBSRVNAME'', ''PGLOADBALANCEHOSTS'', ''PGMAXPROTOCOLVERSION'', ''PGMINPROTOCOLVERSION'',
      ''PGOPTIONS'', ''PGPASSFILE'', ''PGPASSWORD'', ''PGPORT'', ''PGREALM'', ''PGREQUIREAUTH'', ''PGREQUIREPEER'', ''PGREQUIRESSL'',
      ''PGSERVICE'', ''PGSERVICEFILE'', ''PGSSLCERT'', ''PGSSLCOMPRESSION'', ''PGSSLCRL'', ''PGSSLCRLDIR'', ''PGSSLKEY'',
      ''PGSSLMODE'', ''PGSSLNEGOTIATION'', ''PGSSLPASSWORD'', ''PGSSLROOTCERT'', ''PGSSLSNI'', ''PGSYSCONFDIR'', ''PGTARGETSESSIONATTRS'',
      ''PGTZ'', ''PGUSER'']"

text \<open>\<open>upper\<close> is \<^verbatim>\<open>strings.ToUpper\<close> on all of Unicode.\<close>

definition reserved_entry :: "(string \<Rightarrow> string) \<Rightarrow> string \<Rightarrow> bool" where
  "reserved_entry upper entry = (case cut entry CHR ''='' of (name, _, found) \<Rightarrow> found \<and> upper name \<in> set postgresConnectionEnvironmentNames)"

definition assignment :: "environment_variable \<Rightarrow> string" where
  "assignment v = ev_name v @ ''='' @ ev_value v"

definition environmentWithPostgresConnection :: "(string \<Rightarrow> string) \<Rightarrow> string list \<Rightarrow> environment_variable list \<Rightarrow> string list" where
  "environmentWithPostgresConnection upper environment variables =
     filter (\<lambda>entry. \<not> reserved_entry upper entry) environment @ map assignment variables"

section \<open>Running a program\<close>

definition maxToolErrorBytes :: int where
  "maxToolErrorBytes = 65536"

definition bounded_Write :: "int \<Rightarrow> bytes \<Rightarrow> bytes \<Rightarrow> nat \<times> bytes" where
  "bounded_Write limit buffer data =
     (let remaining = limit - int (length buffer) in
      (length data, if remaining > 0 then buffer @ (if remaining < int (length data) then take (nat remaining) data else data) else buffer))"

text \<open>\<^verbatim>\<open>strings.ReplaceAll\<close> for a text that is not empty.\<close>

function replace_all :: "string \<Rightarrow> string \<Rightarrow> string \<Rightarrow> string" where
  "replace_all old new s =
     (case s of
        [] \<Rightarrow> []
      | c # r \<Rightarrow> if old \<noteq> [] \<and> has_prefix s old then new @ replace_all old new (drop (length old) s) else c # replace_all old new r)"
  by pat_completeness auto

termination
  by (relation "measure (\<lambda>(old, new, s). length s)") auto

declare replace_all.simps [simp del]

record backup_tool =
  bt_environment :: "environment_variable list"
  bt_redactions :: "string list"

text \<open>
  A run of a program: what it wrote to its output and, in pieces, to its error stream, and how it ended. The result is the error
  with the detail of its text.
\<close>

record command_run =
  rc_output :: bytes
  rc_stderr :: "bytes list"
  rc_error :: "go_error option"

definition run_detail :: "backup_tool \<Rightarrow> bytes list \<Rightarrow> string" where
  "run_detail t chunks =
     trim_space (fold (\<lambda>secret detail. replace_all secret ''<redacted>'' detail) (bt_redactions t) (fold (\<lambda>c b. snd (bounded_Write maxToolErrorBytes b c)) chunks []))"

definition tool_run :: "backup_tool \<Rightarrow> command_run \<Rightarrow> (go_error \<times> string) option" where
  "tool_run t r = (case rc_error r of None \<Rightarrow> None | Some e \<Rightarrow> Some (e, run_detail t (rc_stderr r)))"

definition command_environment :: "(string \<Rightarrow> string) \<Rightarrow> backup_tool \<Rightarrow> string list \<Rightarrow> environment_variable list \<Rightarrow> string list" where
  "command_environment upper t environ extraEnvironment = environmentWithPostgresConnection upper environ (bt_environment t @ extraEnvironment)"

section \<open>The tool\<close>

definition NewBackupTool :: "(string \<Rightarrow> conn_config result) \<Rightarrow> string \<Rightarrow> bool \<Rightarrow> backup_tool result" where
  "NewBackupTool parse dsn hasPool =
     (if trim_space dsn = [] then Inl (OtherError ''postgres DSN is required'')
      else if \<not> hasPool then Inl (OtherError ''postgres pool is required'')
      else case parse dsn of
          Inl e \<Rightarrow> Inl e
        | Inr c \<Rightarrow>
            (case postgresCommandEnvironment c of
               Inl e \<Rightarrow> Inl e
             | Inr env \<Rightarrow> Inr \<lparr>bt_environment = env, bt_redactions = [dsn] @ (if co_password c \<noteq> [] then [co_password c] else [])\<rparr>))"

text \<open>
  The surroundings of the tool: the answers of the server and of the programs, and what \<^verbatim>\<open>pg_dump\<close> and \<^verbatim>\<open>pg_restore\<close> make of a database and of a
  dump. A database is \<open>None\<close> while its public schema is empty.
\<close>

record tool_env =
  tv_server :: "string result"
  tv_dumpVersion :: "string result"
  tv_restoreVersion :: "string result"
  tv_migration :: "int result"
  tv_dump :: "db option \<Rightarrow> command_run"
  tv_count :: "go_error option"
  tv_service :: "go_error option"
  tv_restore :: "bytes \<Rightarrow> db result"
  tv_ready :: "go_error option"

definition tool_version :: "string result \<Rightarrow> string result" where
  "tool_version output = (case output of Inl e \<Rightarrow> Inl e | Inr text' \<Rightarrow> parsePostgreSQLVersion text')"

definition tool_metadata :: "tool_env \<Rightarrow> bool \<Rightarrow> database_metadata result" where
  "tool_metadata env includeMigration =
     (case tool_version (tv_server env) of
        Inl e \<Rightarrow> Inl e
      | Inr server \<Rightarrow>
          (case tool_version (tv_dumpVersion env) of
             Inl e \<Rightarrow> Inl e
           | Inr dump \<Rightarrow>
               (case tool_version (tv_restoreVersion env) of
                  Inl e \<Rightarrow> Inl e
                | Inr restore \<Rightarrow>
                    let m = \<lparr>dm_server = server, dm_dump = dump, dm_restore = restore, dm_migration = 0\<rparr> in
                    if includeMigration then (case tv_migration env of Inl e \<Rightarrow> Inl e | Inr n \<Rightarrow> Inr (m\<lparr>dm_migration := n\<rparr>)) else Inr m)))"

text \<open>The bytes written to the destination, and the metadata or the error.\<close>

definition tool_Dump :: "backup_tool \<Rightarrow> tool_env \<Rightarrow> bool \<Rightarrow> db option \<Rightarrow> bytes \<times> database_metadata result" where
  "tool_Dump t env hasDestination d =
     (if \<not> hasDestination then ([], Inl (OtherError ''database dump destination is required''))
      else case tool_metadata env True of
          Inl e \<Rightarrow> ([], Inl e)
        | Inr m \<Rightarrow>
            (case validateToolMajors m of
               Some e \<Rightarrow> ([], Inl e)
             | None \<Rightarrow> (rc_output (tv_dump env d), (case tool_run t (tv_dump env d) of Some (e, _) \<Rightarrow> Inl e | None \<Rightarrow> Inr m))))"

definition tool_Empty :: "tool_env \<Rightarrow> db option \<Rightarrow> bool result" where
  "tool_Empty env d = (case tv_count env of Some e \<Rightarrow> Inl e | None \<Rightarrow> Inr (d = None))"

text \<open>\<^verbatim>\<open>--single-transaction\<close>: a restoration that fails leaves the database empty.\<close>

definition tool_Restore :: "tool_env \<Rightarrow> bytes option \<Rightarrow> db option \<Rightarrow> database_metadata result \<times> db option" where
  "tool_Restore env source d =
     (case source of
        None \<Rightarrow> (Inl (OtherError ''database dump source is required''), d)
      | Some dump \<Rightarrow>
          (case tool_Empty env d of
             Inl e \<Rightarrow> (Inl e, d)
           | Inr False \<Rightarrow> (Inl (OtherError ''restore database is not empty''), d)
           | Inr True \<Rightarrow>
               (case tool_metadata env False of
                  Inl e \<Rightarrow> (Inl e, d)
                | Inr m \<Rightarrow>
                    (case validateToolMajors m of
                       Some e \<Rightarrow> (Inl e, d)
                     | None \<Rightarrow>
                         (case tv_service env of
                            Some e \<Rightarrow> (Inl e, d)
                          | None \<Rightarrow>
                              (case tv_restore env dump of
                                 Inl e \<Rightarrow> (Inl e, d)
                               | Inr d' \<Rightarrow>
                                   (case tv_ready env of
                                      Some e \<Rightarrow> (Inl e, Some d')
                                    | None \<Rightarrow> (case tv_migration env of Inl e \<Rightarrow> (Inl e, Some d') | Inr n \<Rightarrow> (Inr (m\<lparr>dm_migration := n\<rparr>), Some d')))))))))"

section \<open>A version has a major number\<close>

lemma version_groups_digits: "version_groups s = (gs, rest) \<Longrightarrow> \<forall>g \<in> set gs. g \<noteq> [] \<and> list_all is_digit g"
proof (induction s arbitrary: gs rest rule: version_groups.induct)
  case (1 s)
  show ?case
  proof (cases s)
    case (Cons c r)
    show ?thesis
    proof (cases "c \<noteq> CHR ''.'' \<or> takeWhile is_digit r = []")
      case False
      obtain gs' rest' where rec: "version_groups (dropWhile is_digit r) = (gs', rest')" by fastforce
      then have "gs = takeWhile is_digit r # gs'" using 1(2) Cons False by (subst (asm) version_groups.simps) (auto simp: Let_def)
      moreover have "list_all is_digit (takeWhile is_digit r)" by (auto simp: list_all_iff dest: set_takeWhileD)
      ultimately show ?thesis using 1(1) [OF Cons refl False rec] False by simp
    qed (use 1(2) Cons in \<open>subst (asm) version_groups.simps; auto simp: Let_def\<close>)
  qed (use 1(2) in \<open>subst (asm) version_groups.simps; simp\<close>)
qed

lemma split_dots: "CHR ''.'' \<notin> set d \<Longrightarrow> \<forall>g \<in> set gs. CHR ''.'' \<notin> set g \<Longrightarrow> split_on CHR ''.'' (d @ concat (map (\<lambda>g. CHR ''.'' # g) gs)) = d # gs"
  by (induction gs arbitrary: d) (simp_all add: split_on_none split_on_append)

lemma digits_no_dot: "list_all is_digit g \<Longrightarrow> CHR ''.'' \<notin> set g"
  by (auto simp: list_all_iff is_digit_def in_range_def)

lemma version_char_plain: "is_digit c \<Longrightarrow> plain_char c" "plain_char CHR ''.''"
  by (auto simp: is_digit_def in_range_def plain_char_def is_ascii_def ascii_space_def)

lemma version_at_split:
  assumes "version_at s = Some v"
  obtains d g gs where "split_on CHR ''.'' v = d # g # gs" "d \<noteq> []" "g \<noteq> []" "list_all plain_char v" "v \<noteq> []" "list_all is_digit d" "fst (cut v CHR ''.'') = d"
proof -
  obtain gs rest where rec: "version_groups (dropWhile is_digit s) = (gs, rest)" by fastforce
  note dg = version_groups_digits [OF rec]
  define gs' where "gs' = (if rest \<noteq> [] \<and> word_char (hd rest) then butlast gs else gs)"
  have v: "v = takeWhile is_digit s @ concat (map (\<lambda>g. CHR ''.'' # g) gs')" and ne: "takeWhile is_digit s \<noteq> []" "gs' \<noteq> []"
    using assms rec by (auto simp: version_at_def gs'_def Let_def split: if_splits)
  have dg': "\<forall>g \<in> set gs'. g \<noteq> [] \<and> list_all is_digit g" using dg by (auto simp: gs'_def dest: in_set_butlastD)
  have d: "list_all is_digit (takeWhile is_digit s)" by (auto simp: list_all_iff dest: set_takeWhileD)
  have "split_on CHR ''.'' v = takeWhile is_digit s # gs'" unfolding v using dg' digits_no_dot d by (intro split_dots) blast+
  moreover obtain g gs'' where "gs' = g # gs''" using ne(2) by (cases gs') auto
  moreover have "list_all plain_char v" using d dg' version_char_plain by (auto simp: v list_all_iff)
  moreover have "fst (cut v CHR ''.'') = takeWhile is_digit s"
    using cut_found [OF digits_no_dot [OF d]] ne(2) by (cases gs') (simp_all add: v)
  ultimately show ?thesis using that [of "takeWhile is_digit s" g gs''] ne dg' d by (simp add: v)
qed

lemma find_version_at: "find_version w s = Some v \<Longrightarrow> \<exists>s'. version_at s' = Some v"
  by (induction w s rule: find_version.induct) (auto split: option.splits if_splits)

lemma parsed_version:
  assumes "parsePostgreSQLVersion text' = Inr v"
  shows "\<exists>m. postgreSQLMajor v = Inr m" "trim_space v = v" "v \<noteq> []" "list_all is_digit (fst (cut v CHR ''.''))" "fst (cut v CHR ''.'') \<noteq> []"
proof -
  obtain s where "version_at s = Some v" using assms find_version_at by (auto simp: parsePostgreSQLVersion_def split: option.splits)
  then obtain d g gs where v: "split_on CHR ''.'' v = d # g # gs" "d \<noteq> []" "g \<noteq> []" "list_all plain_char v" "v \<noteq> []" "list_all is_digit d" "fst (cut v CHR ''.'') = d"
    by (rule version_at_split)
  show "\<exists>m. postgreSQLMajor v = Inr m" using v by (simp add: postgreSQLMajor_def)
  show "trim_space v = v" using v(4,5) by (intro trim_space_plain) (simp add: list_all_iff)
  show "v \<noteq> []" "list_all is_digit (fst (cut v CHR ''.''))" "fst (cut v CHR ''.'') \<noteq> []" using v by simp_all
qed

section \<open>The programs see the connection of the tool\<close>

lemma cut_assignment: "CHR ''='' \<notin> set (ev_name v) \<Longrightarrow> cut (assignment v) CHR ''='' = (ev_name v, ev_value v, True)"
  by (simp add: assignment_def cut_found)

definition assigns :: "string \<Rightarrow> string \<Rightarrow> bool" where
  "assigns name entry = (case cut entry CHR ''='' of (n, _, found) \<Rightarrow> found \<and> n = name)"

definition tool_names :: "string list" where
  "tool_names = [''PGHOST'', ''PGPORT'', ''PGDATABASE'', ''PGUSER'', ''PGPASSWORD'', ''PGSSLMODE'', ''PGCONNECT_TIMEOUT'', ''PGSSLROOTCERT'', ''PGSSLSNI'',
     ''PGSSLNEGOTIATION'', ''PGCHANNELBINDING'', ''PGREQUIREAUTH'', ''PGMINPROTOCOLVERSION'', ''PGMAXPROTOCOLVERSION'']"

lemma optional_variable_names: "subseq (map ev_name (optional_variable n v)) [n]"
  by (simp add: optional_variable_def)

lemma command_environment_names:
  assumes "postgresCommandEnvironment c = Inr env"
  shows "subseq (map ev_name env) tool_names"
proof -
  obtain mode root sni where env: "env = [\<lparr>ev_name = ''PGHOST'', ev_value = co_host c\<rparr>, \<lparr>ev_name = ''PGPORT'', ev_value = format_int (int (co_port c))\<rparr>,
        \<lparr>ev_name = ''PGDATABASE'', ev_value = co_database c\<rparr>, \<lparr>ev_name = ''PGUSER'', ev_value = co_user c\<rparr>,
        \<lparr>ev_name = ''PGPASSWORD'', ev_value = co_password c\<rparr>, \<lparr>ev_name = ''PGSSLMODE'', ev_value = mode\<rparr>] @
      (if co_connectTimeout c > 0 then [\<lparr>ev_name = ''PGCONNECT_TIMEOUT'', ev_value = format_int ((co_connectTimeout c + seconds 1 - 1) div seconds 1)\<rparr>] else []) @
      optional_variable ''PGSSLROOTCERT'' root @ optional_variable ''PGSSLSNI'' sni @
      optional_variable ''PGSSLNEGOTIATION'' (co_sslNegotiation c) @ optional_variable ''PGCHANNELBINDING'' (co_channelBinding c) @
      optional_variable ''PGREQUIREAUTH'' (co_requireAuth c) @ optional_variable ''PGMINPROTOCOLVERSION'' (co_minProtocol c) @
      optional_variable ''PGMAXPROTOCOLVERSION'' (co_maxProtocol c)"
    using assms by (auto simp: postgresCommandEnvironment_def split: if_splits sum.splits prod.splits)
  have names: "tool_names = [''PGHOST'', ''PGPORT'', ''PGDATABASE'', ''PGUSER'', ''PGPASSWORD'', ''PGSSLMODE''] @ [''PGCONNECT_TIMEOUT''] @ [''PGSSLROOTCERT''] @ [''PGSSLSNI''] @
      [''PGSSLNEGOTIATION''] @ [''PGCHANNELBINDING''] @ [''PGREQUIREAUTH''] @ [''PGMINPROTOCOLVERSION''] @ [''PGMAXPROTOCOLVERSION'']" by (simp add: tool_names_def)
  show ?thesis unfolding env names map_append
    by (intro list_emb_append_mono optional_variable_names) simp_all
qed

lemma tool_names_facts: "distinct tool_names" "set tool_names \<subseteq> set postgresConnectionEnvironmentNames" "\<forall>n \<in> set tool_names. CHR ''='' \<notin> set n \<and> n \<noteq> ''PGSERVICEFILE''"
  by (simp_all add: tool_names_def postgresConnectionEnvironmentNames_def)

lemma subseq_keeps_distinct: "subseq xs ys \<Longrightarrow> distinct ys \<Longrightarrow> distinct xs"
  by (auto simp: subseq_conv_nths distinct_nthsI)

lemma set_subseq: "subseq xs ys \<Longrightarrow> set xs \<subseteq> set ys"
  by (induction rule: list_emb.induct) auto

lemma filter_unique: "distinct (map f xs) \<Longrightarrow> x \<in> set xs \<Longrightarrow> filter (\<lambda>y. f y = f x) xs = [x]"
proof (induction xs)
  case (Cons y ys)
  show ?case
  proof (cases "x = y")
    case True
    have "f z \<noteq> f y" if "z \<in> set ys" for z using Cons.prems(1) that by (metis distinct.simps(2) image_eqI list.map(2) list.set_map)
    then show ?thesis using True by (auto simp: filter_empty_conv)
  next
    case False
    then have x: "x \<in> set ys" using Cons.prems(2) by simp
    then have "f x \<noteq> f y" using Cons.prems(1) by (metis distinct.simps(2) image_eqI list.map(2) list.set_map)
    then show ?thesis using Cons.IH [OF _ x] Cons.prems(1) by auto
  qed
qed simp

text \<open>
  The programs connect to the database of the tool and to no other: whatever variables the process inherits, each variable of the connection is given to
  \<^verbatim>\<open>pg_dump\<close> and \<^verbatim>\<open>pg_restore\<close> exactly once, with the value the tool derived from its connection string.
\<close>

theorem tool_connection_unique:
  assumes "NewBackupTool parse dsn hasPool = Inr t" and "\<forall>n \<in> set postgresConnectionEnvironmentNames. upper n = n"
    and "v \<in> set (bt_environment t)" and "\<forall>x \<in> set extra. ev_name x = ''PGSERVICEFILE''"
  shows "filter (assigns (ev_name v)) (command_environment upper t environ extra) = [assignment v]"
proof -
  have sub: "subseq (map ev_name (bt_environment t)) tool_names"
    using assms(1) command_environment_names by (auto simp: NewBackupTool_def split: if_splits sum.splits)
  then have dist: "distinct (map ev_name (bt_environment t))" and names: "ev_name ` set (bt_environment t) \<subseteq> set tool_names"
    using subseq_keeps_distinct [OF sub tool_names_facts(1)] set_subseq [OF sub] by simp_all
  have plain: "CHR ''='' \<notin> set (ev_name x)" "ev_name x \<noteq> ''PGSERVICEFILE''" "ev_name x \<in> set postgresConnectionEnvironmentNames" if "x \<in> set (bt_environment t)" for x
    using names that tool_names_facts(2,3) by blast+
  have own: "assigns (ev_name v) (assignment x) \<longleftrightarrow> ev_name x = ev_name v" if "x \<in> set (bt_environment t)" for x
    using cut_assignment [OF plain(1) [OF that]] by (simp add: assigns_def)
  have "filter (assigns (ev_name v)) (map assignment (bt_environment t)) = map assignment (filter (\<lambda>x. ev_name x = ev_name v) (bt_environment t))"
    using own by (simp add: filter_map comp_def cong: filter_cong)
  then have tool: "filter (assigns (ev_name v)) (map assignment (bt_environment t)) = [assignment v]" using filter_unique [OF dist assms(3)] by simp
  have "\<not> assigns (ev_name v) e" if "\<not> reserved_entry upper e" for e
    using that plain(3) [OF assms(3)] assms(2) by (auto simp: assigns_def reserved_entry_def split: prod.splits)
  then have inherited: "filter (assigns (ev_name v)) (filter (\<lambda>e. \<not> reserved_entry upper e) environ) = []" by (auto simp: filter_empty_conv)
  have "\<not> assigns (ev_name v) (assignment x)" if "x \<in> set extra" for x
    using assms(4) that plain(2) [OF assms(3)] cut_assignment [of x] by (auto simp: assigns_def)
  then have "filter (assigns (ev_name v)) (map assignment extra) = []" by (auto simp: filter_empty_conv)
  then show ?thesis using tool inherited by (simp add: command_environment_def environmentWithPostgresConnection_def)
qed

end
