(* ===== verification/Mime_Parser.thy ===== *)
theory Mime_Parser
  imports Parse_Table
begin

text \<open>
  \<^verbatim>\<open>internal/mail/parser.go\<close> and \<^verbatim>\<open>attachment.go\<close>: what is kept of a message, under the limits of the
  parser, and how one part of it is opened again.

  Reading MIME itself is the package \<^verbatim>\<open>go-message\<close>, which is not part of the repository. What it hands to the
  code is the input here: the root entity, the visits \<^verbatim>\<open>Walk\<close> makes (path, entity, decoding error) and the error
  the walk ends with, and how many raw bytes were read. The theorems hold for all of them. \<^verbatim>\<open>strings.ToLower\<close> on
  texts outside ASCII and the address and date parsers of \<^verbatim>\<open>net/mail\<close> are parameters as well.
\<close>

section \<open>Input\<close>

text \<open>
  A decoded body: the bytes still to come, the error after them, the sizes at which the reader hands them out,
  and whether the error comes with the last bytes or after them.
\<close>

record body =
  bd_rest :: bytes
  bd_end :: go_error
  bd_caps :: "nat list"
  bd_joined :: bool

definition body_read :: "nat \<Rightarrow> body \<Rightarrow> (bytes \<times> go_error option) \<times> body" where
  "body_read n b =
     (if n = 0 then (([], None), b)
      else let k = (case bd_caps b of [] \<Rightarrow> n | c # _ \<Rightarrow> min n (max 1 c)); rest = drop k (bd_rest b) in
        ((take k (bd_rest b), if rest = [] \<and> (bd_joined b \<or> bd_rest b = []) then Some (bd_end b) else None),
         b\<lparr>bd_rest := rest, bd_caps := tl (bd_caps b)\<rparr>))"

text \<open>
  A header: the raw fields in order, \<^verbatim>\<open>Get\<close>, the decoded subject and fields by name (with a flag for a decoding error),
  and the parsed content type and disposition (value, parameters, flag for an error).
\<close>

record mime_header =
  mh_raw :: "bytes result list"
  mh_get :: "string \<Rightarrow> string"
  mh_subject :: "string \<times> bool"
  mh_by_key :: "string \<Rightarrow> (string \<times> bool) list"
  mh_type :: "string \<times> (string \<rightharpoonup> string) \<times> bool"
  mh_disposition :: "string \<times> (string \<rightharpoonup> string) \<times> bool"

datatype decode_error = UnknownCharset | UnknownEncoding | DecodeFailed go_error

record mime_entity =
  me_header :: mime_header
  me_body :: "body option"

record mime_visit =
  mv_path :: "nat list"
  mv_entity :: mime_entity
  mv_error :: "decode_error option"
  mv_ctx :: "nat \<Rightarrow> go_error option"

record mime_source =
  sc_root :: "mime_entity option"
  sc_read_error :: "decode_error option"
  sc_root_read :: int
  sc_visits :: "mime_visit list"
  sc_walk_error :: "go_error option"
  sc_read :: int
  sc_ctx :: "go_error option"

record mime_libs =
  ml_lower :: "string \<Rightarrow> string"
  ml_addresses :: "string \<Rightarrow> (string \<times> string) list option"
  ml_date :: "string \<Rightarrow> time option"

fun decode_err :: "decode_error \<Rightarrow> go_error" where
  "decode_err (DecodeFailed e) = e"
| "decode_err UnknownCharset = OtherError ''unknown charset''"
| "decode_err UnknownEncoding = OtherError ''unknown encoding''"

section \<open>The state of a parse\<close>

record parse_state =
  ps_result :: parsed_message
  ps_parts :: int
  ps_headerBytes :: int
  ps_headers :: int
  ps_decodedBytes :: int
  ps_warningsTruncated :: bool

definition new_parse_state :: parse_state where
  "new_parse_state = \<lparr>ps_result = empty_parsed, ps_parts = 0, ps_headerBytes = 0, ps_headers = 0, ps_decodedBytes = 0, ps_warningsTruncated = False\<rparr>"

abbreviation result_update :: "(parsed_message \<Rightarrow> parsed_message) \<Rightarrow> parse_state \<Rightarrow> parse_state" where
  "result_update f s \<equiv> s\<lparr>ps_result := f (ps_result s)\<rparr>"

text \<open>With validated limits the list is not empty when it is full.\<close>

definition warn :: "limits \<Rightarrow> warning_code \<Rightarrow> string \<Rightarrow> string \<Rightarrow> parse_state \<Rightarrow> parse_state" where
  "warn l code partPath detail s =
     (let ws = p_warnings (ps_result s); w = \<lparr>warn_code = code, warn_part = partPath, warn_detail = truncateUTF8 detail 256\<rparr> in
      if int (length ws) < MaxWarnings l then result_update (\<lambda>r. r\<lparr>p_warnings := ws @ [w]\<rparr>) s
      else if ps_warningsTruncated s then s
      else result_update (\<lambda>r. r\<lparr>p_warnings := ws[length ws - 1 := \<lparr>warn_code = WarningListTruncated, warn_part = ''0'',
          warn_detail = ''Additional parser warnings were omitted''\<rparr>]\<rparr>) (s\<lparr>ps_warningsTruncated := True\<rparr>))"

definition clean_address :: "string \<times> string \<Rightarrow> address" where
  "clean_address a = \<lparr>addr_name = truncateUTF8 (cleanHeaderValue (fst a)) 320, addr_address = truncateUTF8 (cleanHeaderValue (snd a)) 320\<rparr>"

text \<open>The inner loop of \<^verbatim>\<open>readAddressHeader\<close>; the flag says that the limit ended it.\<close>

fun add_addresses :: "limits \<Rightarrow> string \<Rightarrow> (string \<times> string) list \<Rightarrow> address list \<Rightarrow> parse_state \<Rightarrow> address list \<times> bool \<times> parse_state" where
  "add_addresses l key [] acc s = (acc, False, s)"
| "add_addresses l key (a # as) acc s =
     (if int (length acc) \<ge> MaxAddresses l then (acc, True, warn l WarningInvalidAddress ''0'' (key @ '' address list exceeded its limit'') s)
      else add_addresses l key as (acc @ [clean_address a]) s)"

fun address_fields :: "mime_libs \<Rightarrow> limits \<Rightarrow> string \<Rightarrow> (string \<times> bool) list \<Rightarrow> address list \<Rightarrow> parse_state \<Rightarrow> address list \<times> parse_state" where
  "address_fields M l key [] acc s = (acc, s)"
| "address_fields M l key ((decoded, bad) # fs) acc s =
     (let s1 = (if bad then warn l WarningInvalidAddress ''0'' (key @ '' charset could not be decoded'') s else s) in
      case ml_addresses M decoded of
        None \<Rightarrow> address_fields M l key fs acc (warn l WarningInvalidAddress ''0'' (key @ '' address list could not be parsed'') s1)
      | Some parsed \<Rightarrow>
          (case add_addresses l key parsed acc s1 of
             (acc', True, s2) \<Rightarrow> (acc', s2)
           | (acc', False, s2) \<Rightarrow> address_fields M l key fs acc' s2))"

definition readAddressHeader :: "mime_libs \<Rightarrow> limits \<Rightarrow> mime_header \<Rightarrow> string \<Rightarrow> parse_state \<Rightarrow> address list \<times> parse_state" where
  "readAddressHeader M l h key s = address_fields M l key (mh_by_key h key) [] s"

definition readRootMetadata :: "mime_libs \<Rightarrow> limits \<Rightarrow> mime_header \<Rightarrow> parse_state \<Rightarrow> parse_state" where
  "readRootMetadata M l h s =
     (let s1 = (if snd (mh_subject h) then warn l WarningInvalidSubject ''0'' ''Subject charset could not be decoded'' s else s);
          s2 = result_update (\<lambda>r. r\<lparr>p_subject := truncateUTF8 (cleanHeaderValue (fst (mh_subject h))) (MaxSubjectBytes l),
                 p_message_id := truncateUTF8 (cleanHeaderValue (mh_get h ''Message-ID'')) (MaxSubjectBytes l)\<rparr>) s1;
          (from', s3) = readAddressHeader M l h ''From'' s2; s4 = result_update (\<lambda>r. r\<lparr>p_from := from'\<rparr>) s3;
          (to', s5) = readAddressHeader M l h ''To'' s4; s6 = result_update (\<lambda>r. r\<lparr>p_to := to'\<rparr>) s5;
          (cc', s7) = readAddressHeader M l h ''Cc'' s6; s8 = result_update (\<lambda>r. r\<lparr>p_cc := cc'\<rparr>) s7;
          rawDate = trim_space (mh_get h ''Date'') in
      if rawDate = [] then s8
      else case ml_date M rawDate of
          None \<Rightarrow> warn l WarningInvalidDate ''0'' ''Date header could not be parsed'' s8
        | Some d \<Rightarrow> result_update (\<lambda>r. r\<lparr>p_date := Some d\<rparr>) s8)"

fun raw_fields :: "limits \<Rightarrow> bytes result list \<Rightarrow> int \<Rightarrow> int result" where
  "raw_fields l [] partBytes = Inr partBytes"
| "raw_fields l (Inl e # fs) partBytes = Inl e"
| "raw_fields l (Inr raw # fs) partBytes =
     (let n = partBytes + int (length raw) in if n > MaxHeaderBytes l then Inl ErrHeaderTooLarge else raw_fields l fs n)"

definition inspectHeader :: "limits \<Rightarrow> mime_header \<Rightarrow> parse_state \<Rightarrow> go_error option \<times> parse_state" where
  "inspectHeader l h s =
     (let s1 = s\<lparr>ps_headers := ps_headers s + int (length (mh_raw h))\<rparr> in
      if ps_headers s1 > MaxHeaders l then (Some ErrTooManyHeaders, s1)
      else case raw_fields l (mh_raw h) 0 of
          Inl e \<Rightarrow> (Some e, s1)
        | Inr partBytes \<Rightarrow>
            let s2 = s1\<lparr>ps_headerBytes := ps_headerBytes s1 + partBytes\<rparr> in
            if ps_headerBytes s2 > MaxTotalHeaderBytes l then (Some ErrHeaderTooLarge, s2) else (None, s2))"

definition recoverDecodeError :: "limits \<Rightarrow> decode_error option \<Rightarrow> string \<Rightarrow> parse_state \<Rightarrow> go_error option \<times> parse_state" where
  "recoverDecodeError l err partPath s =
     (case err of
        None \<Rightarrow> (None, s)
      | Some UnknownCharset \<Rightarrow> (None, warn l WarningUnknownCharset partPath ''Part uses an unsupported charset'' s)
      | Some UnknownEncoding \<Rightarrow> (None, warn l WarningUnknownTransferEncoding partPath ''Part uses an unsupported transfer encoding'' s)
      | Some (DecodeFailed e) \<Rightarrow> (Some e, s))"

definition fallbackMediaType :: "mime_libs \<Rightarrow> string \<Rightarrow> string" where
  "fallbackMediaType M v =
     (let mediaType = ml_lower M (trim_space (fst (cut v CHR '';''))) in
      if mediaType = [] then ''application/octet-stream'' else mediaType)"

lemma body_read_shrinks:
  "body_read n b = ((chunk, None), b') \<Longrightarrow> 0 < n \<Longrightarrow> length (bd_rest b') < length (bd_rest b)"
  by (auto simp: body_read_def Let_def split: if_splits list.splits)

text \<open>
  The loop of \<^verbatim>\<open>consumeLeaf\<close> over a buffer of 32 KiB: the preview, the size and whether it was truncated, and the
  new number of decoded bytes.
\<close>

function leaf_loop :: "limits \<Rightarrow> int \<Rightarrow> (nat \<Rightarrow> go_error option) \<Rightarrow> nat \<Rightarrow> bytes \<Rightarrow> int \<Rightarrow> int \<Rightarrow> body \<Rightarrow> (bytes \<times> int \<times> bool) result \<times> int" where
  "leaf_loop l captureLimit ctxerr i preview partBytes decoded b =
     (case ctxerr i of
        Some e \<Rightarrow> (Inl e, decoded)
      | None \<Rightarrow>
          (case body_read 32768 b of
             ((chunk, err), b') \<Rightarrow>
               let partBytes' = partBytes + int (length chunk); decoded' = decoded + int (length chunk) in
               if chunk \<noteq> [] \<and> partBytes' > MaxPartBytes l then (Inl ErrPartTooLarge, decoded')
               else if chunk \<noteq> [] \<and> decoded' > MaxDecodedBytes l then (Inl ErrDecodedContentTooLarge, decoded')
               else
                 let remaining = captureLimit - int (length preview);
                     preview' = (if chunk \<noteq> [] \<and> remaining > 0 then preview @ take (nat remaining) chunk else preview) in
                 (case err of
                    Some e \<Rightarrow> if e = EOF then (Inr (preview', partBytes', partBytes' > captureLimit), decoded') else (Inl e, decoded')
                  | None \<Rightarrow> leaf_loop l captureLimit ctxerr (Suc i) preview' partBytes' decoded' b')))"
  by pat_completeness auto
termination
  by (relation "measure (\<lambda>(l, captureLimit, ctxerr, i, preview, partBytes, decoded, b). length (bd_rest b))")
    (auto dest: body_read_shrinks [OF sym])

declare leaf_loop.simps [simp del]

definition consumeLeaf :: "limits \<Rightarrow> (nat \<Rightarrow> go_error option) \<Rightarrow> body option \<Rightarrow> int \<Rightarrow> parse_state \<Rightarrow> (bytes \<times> int \<times> bool) result \<times> parse_state" where
  "consumeLeaf l ctxerr source captureLimit s =
     (case source of
        None \<Rightarrow> (Inr ([], 0, False), s)
      | Some b \<Rightarrow>
          (case leaf_loop l (max 0 captureLimit) ctxerr 0 [] 0 (ps_decodedBytes s) b of
             (r, decoded) \<Rightarrow> (r, s\<lparr>ps_decodedBytes := decoded\<rparr>)))"

section \<open>Parts\<close>

definition param :: "(string \<rightharpoonup> string) \<Rightarrow> string \<Rightarrow> string" where
  "param ps key = (case ps key of None \<Rightarrow> [] | Some v \<Rightarrow> v)"

text \<open>What \<^verbatim>\<open>consumeEntity\<close> makes of the header of a part: media type, disposition, file name, and the warnings.\<close>

definition media_type :: "mime_libs \<Rightarrow> mime_header \<Rightarrow> string" where
  "media_type M h =
     (case mh_type h of (mediaType, _, typeErr) \<Rightarrow>
        ml_lower M (trim_space (if typeErr then fallbackMediaType M (mh_get h ''Content-Type'') else mediaType)))"

definition disposition_of :: "mime_libs \<Rightarrow> mime_header \<Rightarrow> string" where
  "disposition_of M h =
     (let rawDisposition = mh_get h ''Content-Disposition'' in
      ml_lower M (trim_space
        (if rawDisposition = [] then []
         else case mh_disposition h of (disposition, _, dispositionErr) \<Rightarrow>
           if dispositionErr then fallbackMediaType M rawDisposition else disposition)))"

definition filename_of :: "mime_header \<Rightarrow> string" where
  "filename_of h =
     (let filename = (if mh_get h ''Content-Disposition'' = [] then [] else param (fst (snd (mh_disposition h))) ''filename'') in
      if filename = [] then param (fst (snd (mh_type h))) ''name'' else filename)"

definition is_text_body :: "string \<Rightarrow> string \<Rightarrow> string \<Rightarrow> bool" where
  "is_text_body mediaType disposition filename \<longleftrightarrow>
     (mediaType = ''text/plain'' \<or> mediaType = ''text/html'') \<and> disposition \<noteq> ''attachment'' \<and> filename = []"

definition keep_text :: "limits \<Rightarrow> string \<Rightarrow> string \<Rightarrow> bytes \<Rightarrow> bool \<Rightarrow> parse_state \<Rightarrow> parse_state" where
  "keep_text l mediaType partPath preview truncated s =
     (let v = normalizeBodyText preview in
      if mediaType = ''text/plain'' then
        let s1 = result_update (\<lambda>r. r\<lparr>p_text := appendPreview (p_text r) v (MaxTextBytes l)\<rparr>) s in
        if truncated then warn l WarningTextTruncated partPath ''Text preview exceeded its storage limit'' s1 else s1
      else
        let s1 = result_update (\<lambda>r. r\<lparr>p_html := appendPreview (p_html r) v (MaxHTMLBytes l)\<rparr>) s in
        if truncated then warn l WarningHTMLTruncated partPath ''HTML source exceeded its storage limit'' s1 else s1)"

definition keep_attachment :: "limits \<Rightarrow> mime_header \<Rightarrow> string \<Rightarrow> string \<Rightarrow> string \<Rightarrow> string \<Rightarrow> int \<Rightarrow> parse_state \<Rightarrow> parse_state" where
  "keep_attachment l h partPath mediaType disposition filename sizeBytes s =
     (case normalizeFilename filename (MaxFilenameBytes l) of
        (safe, normalized) \<Rightarrow>
          let s1 = (if normalized then warn l WarningFilenameNormalized partPath ''Attachment filename required normalization'' s else s) in
          result_update (\<lambda>r. r\<lparr>p_attachments := p_attachments r @
            [\<lparr>att_part_path = partPath, att_file_name = (if safe = [] then ''attachment'' else safe), att_content_type = mediaType,
              att_disposition = (if disposition = [] then ''attachment'' else disposition),
              att_content_id = truncateUTF8 (cleanHeaderValue (trim_set {CHR ''<'', CHR ''>''} (mh_get h ''Content-ID''))) (MaxSubjectBytes l),
              att_size = sizeBytes\<rparr>]\<rparr>) s1)"

definition consumeEntity :: "mime_libs \<Rightarrow> limits \<Rightarrow> (nat \<Rightarrow> go_error option) \<Rightarrow> mime_entity \<Rightarrow> string \<Rightarrow> parse_state \<Rightarrow> go_error option \<times> parse_state" where
  "consumeEntity M l ctxerr entity partPath s =
     (let h = me_header entity; mediaType = media_type M h;
          s1 = (if snd (snd (mh_type h)) then warn l WarningMalformedContentType partPath ''Content-Type could not be parsed'' s else s) in
      if has_prefix mediaType ''multipart/'' then (None, s1)
      else
        let s2 = (if mh_get h ''Content-Disposition'' \<noteq> [] \<and> snd (snd (mh_disposition h))
                  then warn l WarningMalformedDisposition partPath ''Content-Disposition could not be parsed'' s1 else s1);
            disposition = disposition_of M h; filename = filename_of h; isTextBody = is_text_body mediaType disposition filename;
            captureLimit = (if \<not> isTextBody then 0
                            else if mediaType = ''text/plain'' then remainingPreviewBytes (p_text (ps_result s2)) (MaxTextBytes l)
                            else remainingPreviewBytes (p_html (ps_result s2)) (MaxHTMLBytes l)) in
        case consumeLeaf l ctxerr (me_body entity) captureLimit s2 of
          (Inl e, s3) \<Rightarrow> (Some e, s3)
        | (Inr (preview, sizeBytes, truncated), s3) \<Rightarrow>
            (None, if isTextBody then keep_text l mediaType partPath preview truncated s3
                   else keep_attachment l h partPath mediaType disposition filename sizeBytes s3))"

fun join_dots :: "string list \<Rightarrow> string" where
  "join_dots [] = []"
| "join_dots [p] = p"
| "join_dots (p # q # ps) = p @ CHR ''.'' # join_dots (q # ps)"

definition formatPartPath :: "nat list \<Rightarrow> string" where
  "formatPartPath path = (if path = [] then ''0'' else join_dots (map (\<lambda>v. nat_digits (v + 1)) path))"

section \<open>A message\<close>

definition visit_part :: "mime_libs \<Rightarrow> limits \<Rightarrow> mime_visit \<Rightarrow> parse_state \<Rightarrow> go_error option \<times> parse_state" where
  "visit_part M l v s =
     (let partPath = formatPartPath (mv_path v) in
      if int (length (mv_path v)) > MaxDepth l then (Some ErrNestingTooDeep, s)
      else
        let s1 = s\<lparr>ps_parts := ps_parts s + 1\<rparr> in
        if ps_parts s1 > MaxParts l then (Some ErrTooManyParts, s1)
        else case inspectHeader l (me_header (mv_entity v)) s1 of
            (Some e, s2) \<Rightarrow> (Some e, s2)
          | (None, s2) \<Rightarrow>
              (case recoverDecodeError l (mv_error v) partPath s2 of
                 (Some e, s3) \<Rightarrow> (Some e, s3)
               | (None, s3) \<Rightarrow> consumeEntity M l (mv_ctx v) (mv_entity v) partPath s3))"

fun walk :: "mime_libs \<Rightarrow> limits \<Rightarrow> go_error option \<Rightarrow> mime_visit list \<Rightarrow> parse_state \<Rightarrow> go_error option \<times> parse_state" where
  "walk M l after [] s = (after, s)"
| "walk M l after (v # vs) s =
     (case visit_part M l v s of
        (Some e, s') \<Rightarrow> (Some e, s')
      | (None, s') \<Rightarrow> walk M l after vs s')"

text \<open>The texts of the named errors do not contain the phrase.\<close>

definition isHeaderLimitError :: "decode_error option \<Rightarrow> bool" where
  "isHeaderLimitError err =
     (case err of Some (DecodeFailed (OtherError text)) \<Rightarrow> contains_str text ''header exceeds maximum size'' | _ \<Rightarrow> False)"

definition NewParser :: "limits \<Rightarrow> limits result" where
  "NewParser l = (case limits_validate l of Inl e \<Rightarrow> Inl e | Inr _ \<Rightarrow> Inr l)"

definition Parse :: "mime_libs \<Rightarrow> limits \<Rightarrow> ctx \<Rightarrow> mime_source option \<Rightarrow> parsed_message result" where
  "Parse M l ctx source =
     (case (ctx, source) of
        (NilCtx, _) \<Rightarrow> Inl (OtherError ''mail parser context is required'')
      | (_, None) \<Rightarrow> Inl (OtherError ''mail parser source is required'')
      | (Ctx (Some e), _) \<Rightarrow> Inl e
      | (Ctx None, Some src) \<Rightarrow>
          (case sc_root src of
             None \<Rightarrow>
               if sc_root_read src > MaxRawBytes l then Inl ErrMessageTooLarge
               else if isHeaderLimitError (sc_read_error src) then Inl ErrHeaderTooLarge
               else (case sc_read_error src of
                       Some e \<Rightarrow> Inl (decode_err e)
                     | None \<Rightarrow> Inl (OtherError ''read MIME root: empty entity''))
           | Some root \<Rightarrow>
               (case recoverDecodeError l (sc_read_error src) ''0'' new_parse_state of
                  (Some e, _) \<Rightarrow> Inl e
                | (None, s1) \<Rightarrow>
                    (case walk M l (sc_walk_error src) (sc_visits src) (readRootMetadata M l (me_header root) s1) of
                       (walkErr, s2) \<Rightarrow>
                         if sc_read src > MaxRawBytes l then Inl ErrMessageTooLarge
                         else (case sc_ctx src of
                                 Some e \<Rightarrow> Inl e
                               | None \<Rightarrow> (case walkErr of Some e \<Rightarrow> Inl e | None \<Rightarrow> Inr (ps_result s2)))))))"

section \<open>What is kept stays within the limits\<close>

definition kept :: "int \<Rightarrow> string \<Rightarrow> bool" where
  "kept n t \<longleftrightarrow> storable t \<and> int (length t) \<le> n"

definition addresses_ok :: "limits \<Rightarrow> address list \<Rightarrow> bool" where
  "addresses_ok l as \<longleftrightarrow> int (length as) \<le> MaxAddresses l \<and> list_all (\<lambda>a. kept 320 (addr_name a) \<and> kept 320 (addr_address a)) as"

definition attachment_ok :: "limits \<Rightarrow> attachment \<Rightarrow> bool" where
  "attachment_ok l a \<longleftrightarrow> filename_ok (att_file_name a) \<and> att_file_name a \<noteq> [] \<and> int (length (att_file_name a)) \<le> max 10 (MaxFilenameBytes l) \<and>
     kept (MaxSubjectBytes l) (att_content_id a) \<and> 0 \<le> att_size a \<and> att_size a \<le> MaxPartBytes l"

definition warnings_ok :: "limits \<Rightarrow> warning list \<Rightarrow> bool" where
  "warnings_ok l ws \<longleftrightarrow> int (length ws) \<le> MaxWarnings l \<and> list_all (\<lambda>w. length (warn_detail w) \<le> 256) ws"

definition message_ok :: "limits \<Rightarrow> parsed_message \<Rightarrow> bool" where
  "message_ok l r \<longleftrightarrow> kept (MaxSubjectBytes l) (p_subject r) \<and> kept (MaxSubjectBytes l) (p_message_id r) \<and>
     addresses_ok l (p_from r) \<and> addresses_ok l (p_to r) \<and> addresses_ok l (p_cc r) \<and>
     kept (MaxTextBytes l) (p_text r) \<and> kept (MaxHTMLBytes l) (p_html r) \<and>
     list_all (attachment_ok l) (p_attachments r) \<and> warnings_ok l (p_warnings r)"

abbreviation total_size :: "parse_state \<Rightarrow> int" where
  "total_size s \<equiv> sum_list (map att_size (p_attachments (ps_result s)))"

definition parse_inv :: "limits \<Rightarrow> int \<Rightarrow> parse_state \<Rightarrow> bool" where
  "parse_inv l slack s \<longleftrightarrow> message_ok l (ps_result s) \<and>
     int (length (p_attachments (ps_result s))) + slack \<le> ps_parts s \<and> ps_parts s \<le> MaxParts l \<and>
     total_size s \<le> ps_decodedBytes s \<and> ps_decodedBytes s \<le> MaxDecodedBytes l"

lemma kept_clean: "0 < n \<Longrightarrow> kept n (truncateUTF8 (cleanHeaderValue v) n)"
  by (simp add: kept_def truncate_length storable_truncate clean_storable)

lemma kept_preview: "0 < n \<Longrightarrow> kept n existing \<Longrightarrow> kept n (appendPreview existing (normalizeBodyText v) n)"
  by (simp add: kept_def append_preview_length append_preview_storable body_storable)

lemma warn_detail_length: "length (truncateUTF8 detail 256) \<le> 256"
  using truncate_length [of 256 detail] by simp

lemma warn_frame:
  obtains ws t where "warn l code path detail s = s\<lparr>ps_result := (ps_result s)\<lparr>p_warnings := ws\<rparr>, ps_warningsTruncated := t\<rparr>"
    and "warnings_ok l (p_warnings (ps_result s)) \<Longrightarrow> warnings_ok l ws"
proof -
  let ?s = "warn l code path detail s" and ?ws = "p_warnings (ps_result s)"
  have "?s = s\<lparr>ps_result := (ps_result s)\<lparr>p_warnings := p_warnings (ps_result ?s)\<rparr>, ps_warningsTruncated := ps_warningsTruncated ?s\<rparr>"
    by (simp add: warn_def Let_def)
  moreover have "warnings_ok l (p_warnings (ps_result ?s))" if ok: "warnings_ok l ?ws"
  proof (cases "int (length ?ws) < MaxWarnings l")
    case True
    then show ?thesis using ok warn_detail_length [of detail] by (simp add: warn_def Let_def warnings_ok_def)
  next
    case False
    have "list_all P (xs[k := y])" if "list_all P xs" and "P y" for P xs k and y :: warning
      using that by (auto simp: list_all_iff dest: set_update_subset_insert [THEN subsetD])
    then show ?thesis using ok False by (simp add: warn_def Let_def warnings_ok_def)
  qed
  ultimately show ?thesis by (rule that)
qed

lemma warn_inv [simp]: "parse_inv l k s \<Longrightarrow> parse_inv l k (warn l code path detail s)"
  by (rule warn_frame [of l code path detail s]) (simp add: parse_inv_def message_ok_def)

lemma warn_keeps [simp]:
  "ps_parts (warn l code path detail s) = ps_parts s" "ps_decodedBytes (warn l code path detail s) = ps_decodedBytes s"
  "p_text (ps_result (warn l code path detail s)) = p_text (ps_result s)" "p_html (ps_result (warn l code path detail s)) = p_html (ps_result s)"
  "p_attachments (ps_result (warn l code path detail s)) = p_attachments (ps_result s)"
  by (simp_all add: warn_def Let_def)

text \<open>Reading addresses changes a state by warnings only, and what it returns is clean.\<close>

lemma add_addresses_keeps:
  assumes "\<And>s code path detail. P s \<Longrightarrow> P (warn l code path detail s)"
  shows "add_addresses l key as acc s = (acc', full, s') \<Longrightarrow> P s \<Longrightarrow> P s' \<and> (addresses_ok l acc \<longrightarrow> addresses_ok l acc')"
proof (induction as arbitrary: acc)
  case (Cons a as)
  show ?case
  proof (cases "int (length acc) \<ge> MaxAddresses l")
    case True
    then show ?thesis using Cons.prems assms by auto
  next
    case False
    then have "addresses_ok l acc \<longrightarrow> addresses_ok l (acc @ [clean_address a])"
      by (simp add: addresses_ok_def clean_address_def kept_clean)
    then show ?thesis using Cons False by simp
  qed
qed auto

lemma address_fields_keeps:
  assumes "\<And>s code path detail. P s \<Longrightarrow> P (warn l code path detail s)"
  shows "address_fields M l key fs acc s = (acc', s') \<Longrightarrow> P s \<Longrightarrow> P s' \<and> (addresses_ok l acc \<longrightarrow> addresses_ok l acc')"
  using assms
proof (induction M l key fs acc s rule: address_fields.induct)
  case (2 M l key decoded bad fs acc s)
  let ?s = "if bad then warn l WarningInvalidAddress ''0'' (key @ '' charset could not be decoded'') s else s"
  have s: "P ?s" using 2(4,5) by simp
  show ?case
  proof (cases "ml_addresses M decoded")
    case None
    then show ?thesis using 2(1) [OF refl None] 2(3,5) s by simp
  next
    case (Some parsed)
    obtain acc1 full s1 where add: "add_addresses l key parsed acc ?s = (acc1, full, s1)" by (metis prod_cases3)
    have keeps: "P s1 \<and> (addresses_ok l acc \<longrightarrow> addresses_ok l acc1)" by (rule add_addresses_keeps [where P = P, OF _ add s]) (rule 2(5))
    show ?thesis
    proof (cases full)
      case True
      then show ?thesis using 2(3) Some add keeps by (simp add: Let_def)
    next
      case False
      then show ?thesis using 2(2) [OF refl Some add [symmetric] refl] 2(3,5) Some add keeps by (simp add: Let_def)
    qed
  qed
qed simp

lemma readAddressHeader_keeps:
  assumes "\<And>s code path detail. P s \<Longrightarrow> P (warn l code path detail s)" and "readAddressHeader M l h key s = (as, s')" and "P s"
  shows "P s' \<and> (0 < MaxAddresses l \<longrightarrow> addresses_ok l as)"
  using address_fields_keeps [of P l M key "mh_by_key h key" "[]" s as s', OF assms(1)] assms(2,3) by (simp add: readAddressHeader_def addresses_ok_def)

lemma readAddressHeader_inv:
  assumes "0 < MaxAddresses l" and "parse_inv l k s" and "readAddressHeader M l h key s = (as, s')"
  shows "addresses_ok l as \<and> parse_inv l k s'"
  using readAddressHeader_keeps [of "parse_inv l k", OF warn_inv assms(3,2)] assms(1) by simp

lemma parse_inv_update:
  assumes "parse_inv l k s" and "message_ok l (ps_result s) \<Longrightarrow> message_ok l (f (ps_result s))"
    and "p_attachments (f (ps_result s)) = p_attachments (ps_result s)"
  shows "parse_inv l k (result_update f s)"
  using assms by (simp add: parse_inv_def)

lemma readRootMetadata_inv:
  assumes l: "limits_validate l = Inr ()" and s: "parse_inv l k s"
  shows "parse_inv l k (readRootMetadata M l h s)"
proof -
  have pos: "0 < MaxAddresses l" "0 < MaxSubjectBytes l" using l by (auto simp: limits_validate_ok)
  define s1 where "s1 = (if snd (mh_subject h) then warn l WarningInvalidSubject ''0'' ''Subject charset could not be decoded'' s else s)"
  define s2 where "s2 = result_update (\<lambda>r. r\<lparr>p_subject := truncateUTF8 (cleanHeaderValue (fst (mh_subject h))) (MaxSubjectBytes l),
                 p_message_id := truncateUTF8 (cleanHeaderValue (mh_get h ''Message-ID'')) (MaxSubjectBytes l)\<rparr>) s1"
  obtain from' s3 where f: "readAddressHeader M l h ''From'' s2 = (from', s3)" by fastforce
  define s4 where "s4 = result_update (\<lambda>r. r\<lparr>p_from := from'\<rparr>) s3"
  obtain to' s5 where t: "readAddressHeader M l h ''To'' s4 = (to', s5)" by fastforce
  define s6 where "s6 = result_update (\<lambda>r. r\<lparr>p_to := to'\<rparr>) s5"
  obtain cc' s7 where c: "readAddressHeader M l h ''Cc'' s6 = (cc', s7)" by fastforce
  define s8 where "s8 = result_update (\<lambda>r. r\<lparr>p_cc := cc'\<rparr>) s7"
  have "parse_inv l k s1" using s by (simp add: s1_def)
  then have "parse_inv l k s2" unfolding s2_def using pos(2) by (rule_tac parse_inv_update) (auto simp: message_ok_def kept_clean)
  from readAddressHeader_inv [OF pos(1) this f] have "parse_inv l k s4" unfolding s4_def by (auto intro!: parse_inv_update simp: message_ok_def)
  from readAddressHeader_inv [OF pos(1) this t] have "parse_inv l k s6" unfolding s6_def by (auto intro!: parse_inv_update simp: message_ok_def)
  from readAddressHeader_inv [OF pos(1) this c] have "parse_inv l k s8" unfolding s8_def by (auto intro!: parse_inv_update simp: message_ok_def)
  then have date: "parse_inv l k (result_update (\<lambda>r. r\<lparr>p_date := Some d\<rparr>) s8)" "parse_inv l k s8" for d
    by (auto intro!: parse_inv_update simp: message_ok_def)
  have "readRootMetadata M l h s =
      (if trim_space (mh_get h ''Date'') = [] then s8
       else case ml_date M (trim_space (mh_get h ''Date'')) of
           None \<Rightarrow> warn l WarningInvalidDate ''0'' ''Date header could not be parsed'' s8
         | Some d \<Rightarrow> result_update (\<lambda>r. r\<lparr>p_date := Some d\<rparr>) s8)"
    unfolding readRootMetadata_def Let_def s1_def [symmetric] s2_def [symmetric] f t c s4_def [symmetric] s6_def [symmetric] s8_def [symmetric] prod.case ..
  then show ?thesis using date by (simp split: option.split)
qed

lemma inspectHeader_inv: "inspectHeader l h s = (err, s') \<Longrightarrow> parse_inv l k s \<Longrightarrow> parse_inv l k s'"
  by (auto simp: inspectHeader_def parse_inv_def Let_def split: if_splits sum.splits)

lemma recoverDecodeError_inv: "recoverDecodeError l e path s = (err, s') \<Longrightarrow> parse_inv l k s \<Longrightarrow> parse_inv l k s'"
  by (auto simp: recoverDecodeError_def split: option.splits decode_error.splits)

text \<open>What \<^verbatim>\<open>consumeLeaf\<close> returns is the size of the body and a prefix of it, and the body ended with \<^verbatim>\<open>io.EOF\<close>.\<close>

lemma body_read_parts:
  "body_read 32768 b = ((chunk, err), b') \<Longrightarrow> bd_rest b = chunk @ bd_rest b' \<and> bd_end b' = bd_end b \<and>
     (\<forall>e. err = Some e \<longrightarrow> e = bd_end b \<and> bd_rest b' = [])"
  by (auto simp: body_read_def Let_def split: if_splits list.splits)

lemma leaf_loop_result:
  assumes "leaf_loop l cap ctxerr i pre part dec b = (Inr (preview, n, truncated), dec')"
    and "int (length pre) \<le> cap"
  shows "n = part + int (length (bd_rest b)) \<and> dec' = dec + int (length (bd_rest b)) \<and> bd_end b = EOF \<and>
     preview = pre @ take (nat (cap - int (length pre))) (bd_rest b) \<and> truncated = (n > cap) \<and>
     (part \<le> MaxPartBytes l \<longrightarrow> n \<le> MaxPartBytes l) \<and> (dec \<le> MaxDecodedBytes l \<longrightarrow> dec' \<le> MaxDecodedBytes l)"
  using assms
proof (induction l cap ctxerr i pre part dec b rule: leaf_loop.induct)
  case (1 l cap ctxerr i pre part dec b)
  have ctx: "ctxerr i = None" using 1(2) by (simp add: leaf_loop.simps [of l cap ctxerr i] split: option.splits)
  obtain chunk err b' where rd: "body_read 32768 b = ((chunk, err), b')" by (metis surj_pair)
  note parts = body_read_parts [OF rd]
  let ?part = "part + int (length chunk)" and ?dec = "dec + int (length chunk)"
  let ?pre = "if chunk \<noteq> [] \<and> cap - int (length pre) > 0 then pre @ take (nat (cap - int (length pre))) chunk else pre"
  have run: "leaf_loop l cap ctxerr i pre part dec b =
      (if chunk \<noteq> [] \<and> ?part > MaxPartBytes l then (Inl ErrPartTooLarge, ?dec)
       else if chunk \<noteq> [] \<and> ?dec > MaxDecodedBytes l then (Inl ErrDecodedContentTooLarge, ?dec)
       else case err of
           Some e \<Rightarrow> if e = EOF then (Inr (?pre, ?part, ?part > cap), ?dec) else (Inl e, ?dec)
         | None \<Rightarrow> leaf_loop l cap ctxerr (Suc i) ?pre ?part ?dec b')"
    using ctx rd by (simp add: leaf_loop.simps [of l cap ctxerr i] Let_def)
  then have ok: "chunk = [] \<or> ?part \<le> MaxPartBytes l \<and> ?dec \<le> MaxDecodedBytes l" using 1(2) by (auto split: if_splits)
  have pre: "?pre = pre @ take (nat (cap - int (length pre))) chunk" using 1(3) by auto
  have len: "int (length ?pre) \<le> cap" using 1(3) by auto
  show ?case
  proof (cases err)
    case None
    have "leaf_loop l cap ctxerr (Suc i) ?pre ?part ?dec b' = (Inr (preview, n, truncated), dec')" using run ok None 1(2) by (auto split: if_splits)
    moreover have "\<not> (chunk \<noteq> [] \<and> ?part > MaxPartBytes l)" "\<not> (chunk \<noteq> [] \<and> ?dec > MaxDecodedBytes l)" using ok by auto
    ultimately have IH: "n = ?part + int (length (bd_rest b')) \<and> dec' = ?dec + int (length (bd_rest b')) \<and> bd_end b' = EOF \<and>
        preview = ?pre @ take (nat (cap - int (length ?pre))) (bd_rest b') \<and> truncated = (n > cap) \<and>
        (?part \<le> MaxPartBytes l \<longrightarrow> n \<le> MaxPartBytes l) \<and> (?dec \<le> MaxDecodedBytes l \<longrightarrow> dec' \<le> MaxDecodedBytes l)"
      using 1(1) [OF ctx rd [symmetric] refl refl refl _ _ refl refl None _ len] by blast
    have rest: "nat (cap - int (length (pre @ take (nat (cap - int (length pre))) chunk))) = nat (cap - int (length pre)) - length chunk"
      using 1(3) by (simp add: min_def) linarith
    have "preview = pre @ take (nat (cap - int (length pre))) (chunk @ bd_rest b')"
      using IH rest unfolding pre by simp
    then show ?thesis using IH ok parts by auto
  next
    case (Some e)
    then have "e = EOF \<and> preview = ?pre \<and> n = ?part \<and> truncated = (?part > cap) \<and> dec' = ?dec" using run ok 1(2) by (auto split: if_splits)
    then show ?thesis using parts Some pre ok by auto
  qed
qed

lemma consumeLeaf_result:
  assumes "consumeLeaf l ctxerr source cap s = (Inr (preview, n, truncated), s')"
    and "0 < MaxPartBytes l" and "ps_decodedBytes s \<le> MaxDecodedBytes l"
  shows "s' = s\<lparr>ps_decodedBytes := ps_decodedBytes s + n\<rparr> \<and> 0 \<le> n \<and> n \<le> MaxPartBytes l \<and> ps_decodedBytes s + n \<le> MaxDecodedBytes l \<and>
     (\<forall>b. source = Some b \<longrightarrow> n = int (length (bd_rest b)) \<and> bd_end b = EOF)"
proof (cases source)
  case None
  then show ?thesis using assms by (simp add: consumeLeaf_def)
next
  case (Some b)
  obtain r dec where run: "leaf_loop l (max 0 cap) ctxerr 0 [] 0 (ps_decodedBytes s) b = (r, dec)" by fastforce
  then have r: "r = Inr (preview, n, truncated)" "s' = s\<lparr>ps_decodedBytes := dec\<rparr>" using assms(1) Some by (auto simp: consumeLeaf_def)
  have "leaf_loop l (max 0 cap) ctxerr 0 [] 0 (ps_decodedBytes s) b = (Inr (preview, n, truncated), dec)" using run r by simp
  from leaf_loop_result [OF this] show ?thesis using assms(2,3) Some r by simp
qed

lemma leaf_inv: "parse_inv l k s \<Longrightarrow> 0 \<le> n \<Longrightarrow> ps_decodedBytes s + n \<le> MaxDecodedBytes l \<Longrightarrow> parse_inv l k (s\<lparr>ps_decodedBytes := ps_decodedBytes s + n\<rparr>)"
  by (simp add: parse_inv_def)

lemma keep_text_inv:
  assumes l: "limits_validate l = Inr ()" and s: "parse_inv l k s"
  shows "parse_inv l k (keep_text l mediaType path preview truncated s)"
proof -
  have pos: "0 < MaxTextBytes l" "0 < MaxHTMLBytes l" using l by (auto simp: limits_validate_ok)
  have "parse_inv l k (result_update (\<lambda>r. r\<lparr>p_text := appendPreview (p_text r) (normalizeBodyText preview) (MaxTextBytes l)\<rparr>) s)"
    using s pos by (auto intro!: parse_inv_update simp: message_ok_def kept_preview)
  moreover have "parse_inv l k (result_update (\<lambda>r. r\<lparr>p_html := appendPreview (p_html r) (normalizeBodyText preview) (MaxHTMLBytes l)\<rparr>) s)"
    using s pos by (auto intro!: parse_inv_update simp: message_ok_def kept_preview)
  ultimately show ?thesis by (simp add: keep_text_def Let_def)
qed

lemma default_filename_ok: "filename_ok ''attachment''"
proof -
  have "list_all is_ascii ''attachment''" by (simp add: is_ascii_def)
  then have "ValidString ''attachment''" by (rule ValidString_ascii)
  moreover have "runes ''attachment'' = map (\<lambda>c. [c]) ''attachment''" by (simp add: is_ascii_def)
  ultimately show ?thesis by (simp add: filename_ok_def storable_def is_control_def)
qed

lemma keep_attachment_inv:
  assumes l: "limits_validate l = Inr ()" and s: "parse_inv l 1 (s\<lparr>ps_decodedBytes := dec\<rparr>)"
    and n: "0 \<le> n" "n \<le> MaxPartBytes l" and dec: "dec + n = ps_decodedBytes s" "ps_decodedBytes s \<le> MaxDecodedBytes l"
  shows "parse_inv l 0 (keep_attachment l h path mediaType disposition filename n s)"
proof -
  have pos: "0 < MaxFilenameBytes l" "0 < MaxSubjectBytes l" using l by (auto simp: limits_validate_ok)
  obtain safe normalized where name: "normalizeFilename filename (MaxFilenameBytes l) = (safe, normalized)" by fastforce
  define s1 where "s1 = (if normalized then warn l WarningFilenameNormalized path ''Attachment filename required normalization'' s else s)"
  define a where "a = \<lparr>att_part_path = path, att_file_name = (if safe = [] then ''attachment'' else safe), att_content_type = mediaType,
      att_disposition = (if disposition = [] then ''attachment'' else disposition),
      att_content_id = truncateUTF8 (cleanHeaderValue (trim_set {CHR ''<'', CHR ''>''} (mh_get h ''Content-ID''))) (MaxSubjectBytes l), att_size = n\<rparr>"
  have a: "attachment_ok l a"
    using normalizeFilename_ok [OF pos(1) name] n default_filename_ok kept_clean [OF pos(2)] by (auto simp: a_def attachment_ok_def)
  have "parse_inv l 1 (s1\<lparr>ps_decodedBytes := dec\<rparr>)"
  proof (cases normalized)
    case True
    have "warn l c p t s\<lparr>ps_decodedBytes := dec\<rparr> = warn l c p t (s\<lparr>ps_decodedBytes := dec\<rparr>)" for c p t by (simp add: warn_def Let_def)
    then show ?thesis using s True by (simp add: s1_def)
  qed (use s in \<open>simp add: s1_def\<close>)
  moreover have "ps_decodedBytes s1 = ps_decodedBytes s" by (simp add: s1_def)
  ultimately have "parse_inv l 0 (result_update (\<lambda>r. r\<lparr>p_attachments := p_attachments r @ [a]\<rparr>) s1)"
    using a dec by (simp add: parse_inv_def message_ok_def a_def)
  moreover have "keep_attachment l h path mediaType disposition filename n s = result_update (\<lambda>r. r\<lparr>p_attachments := p_attachments r @ [a]\<rparr>) s1"
    by (simp add: keep_attachment_def name s1_def a_def Let_def)
  ultimately show ?thesis by simp
qed

lemma parse_inv_slack: "parse_inv l 1 s \<Longrightarrow> parse_inv l 0 s"
  by (simp add: parse_inv_def)

lemma consumeEntity_inv:
  assumes l: "limits_validate l = Inr ()" and s: "parse_inv l 1 s" and run: "consumeEntity M l ctxerr entity path s = (None, s')"
  shows "parse_inv l 0 s'"
proof -
  let ?h = "me_header entity"
  define s1 where "s1 = (if snd (snd (mh_type ?h)) then warn l WarningMalformedContentType path ''Content-Type could not be parsed'' s else s)"
  define s2 where "s2 = (if mh_get ?h ''Content-Disposition'' \<noteq> [] \<and> snd (snd (mh_disposition ?h))
      then warn l WarningMalformedDisposition path ''Content-Disposition could not be parsed'' s1 else s1)"
  have inv: "parse_inv l 1 s1" "parse_inv l 1 s2" using s by (simp_all add: s1_def s2_def)
  show ?thesis
  proof (cases "has_prefix (media_type M ?h) ''multipart/''")
    case True
    then show ?thesis using run inv(1) parse_inv_slack by (simp add: consumeEntity_def s1_def)
  next
    case False
    then obtain cap preview n truncated s3 where leaf: "consumeLeaf l ctxerr (me_body entity) cap s2 = (Inr (preview, n, truncated), s3)"
      and s': "s' = (if is_text_body (media_type M ?h) (disposition_of M ?h) (filename_of ?h) then keep_text l (media_type M ?h) path preview truncated s3
        else keep_attachment l ?h path (media_type M ?h) (disposition_of M ?h) (filename_of ?h) n s3)"
      using run unfolding consumeEntity_def Let_def s1_def [symmetric] s2_def [symmetric] by (auto split: prod.splits sum.splits)
    have "0 < MaxPartBytes l" "ps_decodedBytes s2 \<le> MaxDecodedBytes l" using l inv(2) by (auto simp: limits_validate_ok parse_inv_def)
    note r = consumeLeaf_result [OF leaf this]
    have s3: "parse_inv l 1 s3" using leaf_inv [OF inv(2), of n] r by simp
    have "parse_inv l 1 (s3\<lparr>ps_decodedBytes := ps_decodedBytes s2\<rparr>)" "ps_decodedBytes s2 + n = ps_decodedBytes s3"
      "ps_decodedBytes s3 \<le> MaxDecodedBytes l" "0 \<le> n" "n \<le> MaxPartBytes l" using r inv(2) by simp_all
    then have "parse_inv l 0 (keep_attachment l ?h path mt disp name n s3)" for mt disp name
      using keep_attachment_inv [OF l] by blast
    then show ?thesis using s' keep_text_inv [OF l s3] parse_inv_slack by simp
  qed
qed

lemma visit_part_inv:
  assumes l: "limits_validate l = Inr ()" and s: "parse_inv l 0 s" and run: "visit_part M l v s = (None, s')"
  shows "parse_inv l 0 s'"
proof -
  let ?s = "s\<lparr>ps_parts := ps_parts s + 1\<rparr>"
  have ok: "\<not> ps_parts ?s > MaxParts l" using run by (auto simp: visit_part_def Let_def split: if_splits)
  then have "parse_inv l 1 ?s" using s by (simp add: parse_inv_def)
  then show ?thesis
    using run ok inspectHeader_inv [of l _ ?s] recoverDecodeError_inv consumeEntity_inv [OF l]
    by (auto simp: visit_part_def Let_def split: if_splits prod.splits option.splits; blast)
qed

lemma walk_inv:
  assumes l: "limits_validate l = Inr ()"
  shows "parse_inv l 0 s \<Longrightarrow> walk M l after vs s = (None, s') \<Longrightarrow> parse_inv l 0 s'"
proof (induction vs arbitrary: s)
  case (Cons v vs)
  then obtain s1 where "visit_part M l v s = (None, s1)" "walk M l after vs s1 = (None, s')" by (auto split: prod.splits option.splits)
  then show ?case using visit_part_inv [OF l Cons.prems(1)] Cons.IH by blast
qed simp

lemma new_parse_state_inv: "limits_validate l = Inr () \<Longrightarrow> parse_inv l 0 new_parse_state"
  by (simp add: limits_validate_ok parse_inv_def message_ok_def new_parse_state_def empty_parsed_def kept_def addresses_ok_def warnings_ok_def)

lemma Parse_state:
  assumes "Parse M l ctx source = Inr r"
  obtains src root s1 s2 where "source = Some src" "ctx = Ctx None" "sc_root src = Some root" "recoverDecodeError l (sc_read_error src) ''0'' new_parse_state = (None, s1)"
    "walk M l (sc_walk_error src) (sc_visits src) (readRootMetadata M l (me_header root) s1) = (None, s2)" "sc_read src \<le> MaxRawBytes l" "r = ps_result s2"
  using assms by (fastforce simp: Parse_def split: ctx.splits option.splits if_splits prod.splits)

lemma Parse_inv:
  assumes l: "limits_validate l = Inr ()" and run: "Parse M l ctx source = Inr r"
  obtains s where "parse_inv l 0 s" and "r = ps_result s"
  using run
proof (cases rule: Parse_state)
  case (1 src root s1 s2)
  have "parse_inv l 0 s1" using recoverDecodeError_inv [OF 1(4)] new_parse_state_inv [OF l] by blast
  then have "parse_inv l 0 s2" using walk_inv [OF l readRootMetadata_inv [OF l] 1(5)] by blast
  then show ?thesis using that 1(7) by blast
qed

section \<open>Which messages are accepted\<close>

definition recoverable :: "decode_error option \<Rightarrow> bool" where
  "recoverable err = (case err of Some (DecodeFailed e) \<Rightarrow> False | _ \<Rightarrow> True)"

definition header_size :: "bytes result list \<Rightarrow> int" where
  "header_size fs = sum_list (map (\<lambda>f. case f of Inl e \<Rightarrow> 0 | Inr raw \<Rightarrow> int (length raw)) fs)"

definition leaf_body :: "mime_libs \<Rightarrow> mime_entity \<Rightarrow> body option" where
  "leaf_body M entity = (if has_prefix (media_type M (me_header entity)) ''multipart/'' then None else me_body entity)"

definition leaf_size :: "mime_libs \<Rightarrow> mime_entity \<Rightarrow> int" where
  "leaf_size M entity = (case leaf_body M entity of None \<Rightarrow> 0 | Some b \<Rightarrow> int (length (bd_rest b)))"

definition part_fits :: "mime_libs \<Rightarrow> limits \<Rightarrow> mime_visit \<Rightarrow> bool" where
  "part_fits M l v \<longleftrightarrow> int (length (mv_path v)) \<le> MaxDepth l \<and> list_all is_ok (mh_raw (me_header (mv_entity v))) \<and>
     header_size (mh_raw (me_header (mv_entity v))) \<le> MaxHeaderBytes l \<and> recoverable (mv_error v) \<and>
     leaf_size M (mv_entity v) \<le> MaxPartBytes l \<and> (case leaf_body M (mv_entity v) of None \<Rightarrow> True | Some b \<Rightarrow> bd_end b = EOF)"

definition message_fits :: "mime_libs \<Rightarrow> limits \<Rightarrow> mime_source \<Rightarrow> bool" where
  "message_fits M l src \<longleftrightarrow> sc_root src \<noteq> None \<and> recoverable (sc_read_error src) \<and> sc_read src \<le> MaxRawBytes l \<and>
     sc_walk_error src = None \<and> list_all (part_fits M l) (sc_visits src) \<and> int (length (sc_visits src)) \<le> MaxParts l \<and>
     sum_list (map (\<lambda>v. int (length (mh_raw (me_header (mv_entity v))))) (sc_visits src)) \<le> MaxHeaders l \<and>
     sum_list (map (\<lambda>v. header_size (mh_raw (me_header (mv_entity v)))) (sc_visits src)) \<le> MaxTotalHeaderBytes l \<and>
     sum_list (map (\<lambda>v. leaf_size M (mv_entity v)) (sc_visits src)) \<le> MaxDecodedBytes l"

lemma sizes_nonneg [simp]: "0 \<le> header_size fs" "0 \<le> leaf_size M entity"
  by (auto simp: header_size_def leaf_size_def intro!: sum_list_nonneg split: sum.splits option.splits)

lemma raw_fields_iff:
  "n \<le> MaxHeaderBytes l \<Longrightarrow> raw_fields l fs n = Inr m \<longleftrightarrow> list_all is_ok fs \<and> m = n + header_size fs \<and> m \<le> MaxHeaderBytes l"
proof (induction l fs n rule: raw_fields.induct)
  case (3 l raw fs n)
  then show ?case using sizes_nonneg(1) [of fs] by (auto simp: Let_def header_size_def)
qed (auto simp: header_size_def)

lemma inspectHeader_iff:
  assumes "0 < MaxHeaderBytes l"
  shows "inspectHeader l h s = (None, s') \<longleftrightarrow> list_all is_ok (mh_raw h) \<and> header_size (mh_raw h) \<le> MaxHeaderBytes l \<and>
     ps_headers s + int (length (mh_raw h)) \<le> MaxHeaders l \<and> ps_headerBytes s + header_size (mh_raw h) \<le> MaxTotalHeaderBytes l \<and>
     s' = s\<lparr>ps_headers := ps_headers s + int (length (mh_raw h)), ps_headerBytes := ps_headerBytes s + header_size (mh_raw h)\<rparr>"
proof (cases "raw_fields l (mh_raw h) 0")
  case (Inl e)
  then show ?thesis using raw_fields_iff [of 0 l "mh_raw h" "header_size (mh_raw h)"] assms by (auto simp: inspectHeader_def Let_def split: if_splits)
next
  case (Inr m)
  then have "m = header_size (mh_raw h)" "list_all is_ok (mh_raw h)" "m \<le> MaxHeaderBytes l" using raw_fields_iff [of 0 l "mh_raw h" m] assms by auto
  then show ?thesis using Inr by (auto simp: inspectHeader_def Let_def split: if_splits)
qed

lemma recoverDecodeError_iff: "fst (recoverDecodeError l e path s) = None \<longleftrightarrow> recoverable e"
  by (auto simp: recoverDecodeError_def recoverable_def split: option.splits decode_error.splits)

lemma leaf_loop_accepts:
  assumes "\<And>i. ctxerr i = None" and "bd_end b = EOF" and "part + int (length (bd_rest b)) \<le> MaxPartBytes l" and "dec + int (length (bd_rest b)) \<le> MaxDecodedBytes l"
  shows "\<exists>x dec'. leaf_loop l cap ctxerr i pre part dec b = (Inr x, dec')"
  using assms
proof (induction l cap ctxerr i pre part dec b rule: leaf_loop.induct)
  case (1 l cap ctxerr i pre part dec b)
  obtain chunk err b' where rd: "body_read 32768 b = ((chunk, err), b')" by (metis surj_pair)
  note parts = body_read_parts [OF rd]
  have ok: "\<not> (chunk \<noteq> [] \<and> part + int (length chunk) > MaxPartBytes l)" "\<not> (chunk \<noteq> [] \<and> dec + int (length chunk) > MaxDecodedBytes l)"
    using 1(4,5) parts by auto
  let ?pre = "if chunk \<noteq> [] \<and> cap - int (length pre) > 0 then pre @ take (nat (cap - int (length pre))) chunk else pre"
  have run: "leaf_loop l cap ctxerr i pre part dec b =
      (case err of
         Some e \<Rightarrow> if e = EOF then (Inr (?pre, part + int (length chunk), part + int (length chunk) > cap), dec + int (length chunk)) else (Inl e, dec + int (length chunk))
       | None \<Rightarrow> leaf_loop l cap ctxerr (Suc i) ?pre (part + int (length chunk)) (dec + int (length chunk)) b')"
    using 1(2) [of i] rd ok by (cases "chunk = []"; cases err) (simp_all add: leaf_loop.simps [of l cap ctxerr i] Let_def)
  show ?case
  proof (cases err)
    case None
    have "bd_end b' = EOF" "part + int (length chunk) + int (length (bd_rest b')) \<le> MaxPartBytes l"
      "dec + int (length chunk) + int (length (bd_rest b')) \<le> MaxDecodedBytes l" using 1(3,4,5) parts by auto
    from 1(1) [OF 1(2) rd [symmetric] refl refl refl ok refl refl None 1(2) this]
    show ?thesis using run None by simp
  next
    case (Some e)
    then show ?thesis using run parts 1(3) by simp
  qed
qed

lemma consumeLeaf_iff:
  assumes "\<And>i. ctxerr i = None" and "0 < MaxPartBytes l" and "ps_decodedBytes s \<le> MaxDecodedBytes l"
  shows "(\<exists>x s'. consumeLeaf l ctxerr source cap s = (Inr x, s')) \<longleftrightarrow>
     (case source of None \<Rightarrow> True | Some b \<Rightarrow> bd_end b = EOF \<and> int (length (bd_rest b)) \<le> MaxPartBytes l \<and>
        ps_decodedBytes s + int (length (bd_rest b)) \<le> MaxDecodedBytes l)"
proof (cases source)
  case (Some b)
  show ?thesis
  proof
    assume "\<exists>x s'. consumeLeaf l ctxerr source cap s = (Inr x, s')"
    then obtain preview n truncated s' where "consumeLeaf l ctxerr source cap s = (Inr (preview, n, truncated), s')" by (metis prod_cases3)
    from consumeLeaf_result [OF this assms(2,3)] show "case source of None \<Rightarrow> True | Some b \<Rightarrow> bd_end b = EOF \<and> int (length (bd_rest b)) \<le> MaxPartBytes l \<and>
        ps_decodedBytes s + int (length (bd_rest b)) \<le> MaxDecodedBytes l" using Some by simp
  next
    assume "case source of None \<Rightarrow> True | Some b \<Rightarrow> bd_end b = EOF \<and> int (length (bd_rest b)) \<le> MaxPartBytes l \<and>
        ps_decodedBytes s + int (length (bd_rest b)) \<le> MaxDecodedBytes l"
    then obtain x dec where "leaf_loop l (max 0 cap) ctxerr 0 [] 0 (ps_decodedBytes s) b = (Inr x, dec)"
      using leaf_loop_accepts [of ctxerr b 0 l "ps_decodedBytes s" "max 0 cap" 0 "[]", OF assms(1)] Some by auto
    then show "\<exists>x s'. consumeLeaf l ctxerr source cap s = (Inr x, s')" using Some by (cases x) (simp add: consumeLeaf_def)
  qed
qed (auto simp: consumeLeaf_def)

definition counters :: "parse_state \<Rightarrow> int \<times> int \<times> int \<times> int" where
  "counters s = (ps_parts s, ps_headers s, ps_headerBytes s, ps_decodedBytes s)"

lemma counters_warn [simp]: "counters (warn l code path detail s) = counters s"
  by (simp add: warn_def Let_def counters_def)

lemma counters_result [simp]: "counters (s\<lparr>ps_result := r\<rparr>) = counters s"
  by (simp add: counters_def)

lemma counters_readAddressHeader: "readAddressHeader M l h key s = (as, s') \<Longrightarrow> counters s' = counters s"
  using readAddressHeader_keeps [of "\<lambda>t. counters t = counters s" l M h key s] by simp

lemma counters_readRootMetadata [simp]: "counters (readRootMetadata M l h s) = counters s"
  by (auto simp: readRootMetadata_def Let_def split: prod.splits option.splits dest!: counters_readAddressHeader)

lemma counters_recover: "recoverDecodeError l e path s = (err, s') \<Longrightarrow> counters s' = counters s"
  by (auto simp: recoverDecodeError_def split: option.splits decode_error.splits)

lemma counters_keep [simp]:
  "counters (keep_text l mediaType path preview truncated s) = counters s"
  "counters (keep_attachment l h path mediaType disposition filename n s) = counters s"
  by (simp_all add: keep_text_def keep_attachment_def Let_def split: prod.split)

lemma counters_decoded: "counters s = counters t \<Longrightarrow> ps_decodedBytes s = ps_decodedBytes t"
  by (simp add: counters_def)

lemma consumeEntity_leaf:
  obtains s2 cap k where "counters s2 = counters s" "\<And>x s. counters (k x s) = counters s"
    and "consumeEntity M l ctxerr entity path s =
      (if has_prefix (media_type M (me_header entity)) ''multipart/'' then (None, s2)
       else case consumeLeaf l ctxerr (me_body entity) cap s2 of (Inl e, s3) \<Rightarrow> (Some e, s3) | (Inr x, s3) \<Rightarrow> (None, k x s3))"
proof -
  let ?h = "me_header entity" let ?mt = "media_type M ?h" let ?disp = "disposition_of M ?h" let ?name = "filename_of ?h"
  define s1 where "s1 = (if snd (snd (mh_type ?h)) then warn l WarningMalformedContentType path ''Content-Type could not be parsed'' s else s)"
  define s2 where "s2 = (if mh_get ?h ''Content-Disposition'' \<noteq> [] \<and> snd (snd (mh_disposition ?h))
      then warn l WarningMalformedDisposition path ''Content-Disposition could not be parsed'' s1 else s1)"
  define k where "k = (\<lambda>(preview, n, truncated) s3. if is_text_body ?mt ?disp ?name then keep_text l ?mt path preview truncated s3
      else keep_attachment l ?h path ?mt ?disp ?name n s3)"
  define cap where "cap = (if \<not> is_text_body ?mt ?disp ?name then 0
      else if ?mt = ''text/plain'' then remainingPreviewBytes (p_text (ps_result s2)) (MaxTextBytes l)
      else remainingPreviewBytes (p_html (ps_result s2)) (MaxHTMLBytes l))"
  have "consumeEntity M l ctxerr entity path s =
      (if has_prefix ?mt ''multipart/'' then (None, if has_prefix ?mt ''multipart/'' then s1 else s2)
       else case consumeLeaf l ctxerr (me_body entity) cap (if has_prefix ?mt ''multipart/'' then s1 else s2) of
           (Inl e, s3) \<Rightarrow> (Some e, s3) | (Inr x, s3) \<Rightarrow> (None, k x s3))"
    unfolding consumeEntity_def Let_def s1_def [symmetric] s2_def [symmetric] cap_def [symmetric]
    by (auto simp: k_def split: prod.split sum.split)
  then show ?thesis by (rule that [rotated 2]) (auto simp: s1_def s2_def k_def split: prod.split)
qed

lemma consumeEntity_iff:
  assumes "\<And>i. ctxerr i = None" and "0 < MaxPartBytes l" and "ps_decodedBytes s \<le> MaxDecodedBytes l"
  shows "fst (consumeEntity M l ctxerr entity path s) = None \<longleftrightarrow>
     leaf_size M entity \<le> MaxPartBytes l \<and> ps_decodedBytes s + leaf_size M entity \<le> MaxDecodedBytes l \<and>
     (case leaf_body M entity of None \<Rightarrow> True | Some b \<Rightarrow> bd_end b = EOF)"
proof -
  obtain s2 cap k where c: "counters s2 = counters s" "\<And>x s. counters (k x s) = counters s" and eq: "consumeEntity M l ctxerr entity path s =
      (if has_prefix (media_type M (me_header entity)) ''multipart/'' then (None, s2)
       else case consumeLeaf l ctxerr (me_body entity) cap s2 of (Inl e, s3) \<Rightarrow> (Some e, s3) | (Inr x, s3) \<Rightarrow> (None, k x s3))"
    by (rule consumeEntity_leaf [of s M l ctxerr entity path]) (rule that)
  have d: "ps_decodedBytes s2 = ps_decodedBytes s" using c(1) by (simp add: counters_def)
  have "fst (case consumeLeaf l ctxerr (me_body entity) cap s2 of (Inl e, s3) \<Rightarrow> (Some e, s3) | (Inr x, s3) \<Rightarrow> (None, k x s3)) = None \<longleftrightarrow>
      (\<exists>x s'. consumeLeaf l ctxerr (me_body entity) cap s2 = (Inr x, s'))" by (auto split: prod.splits sum.splits)
  also have "\<dots> \<longleftrightarrow> (case me_body entity of None \<Rightarrow> True | Some b \<Rightarrow> bd_end b = EOF \<and> int (length (bd_rest b)) \<le> MaxPartBytes l \<and>
        ps_decodedBytes s2 + int (length (bd_rest b)) \<le> MaxDecodedBytes l)" by (rule consumeLeaf_iff) (use assms d in auto)
  finally show ?thesis using assms(2,3) by (auto simp: eq d leaf_size_def leaf_body_def split: option.splits)
qed

lemma consumeEntity_counters:
  assumes "consumeEntity M l ctxerr entity path s = (None, s')" and "0 < MaxPartBytes l" and "ps_decodedBytes s \<le> MaxDecodedBytes l"
  shows "counters s' = (ps_parts s, ps_headers s, ps_headerBytes s, ps_decodedBytes s + leaf_size M entity)"
proof -
  obtain s2 cap k where c: "counters s2 = counters s" "\<And>x s. counters (k x s) = counters s" and eq: "consumeEntity M l ctxerr entity path s =
      (if has_prefix (media_type M (me_header entity)) ''multipart/'' then (None, s2)
       else case consumeLeaf l ctxerr (me_body entity) cap s2 of (Inl e, s3) \<Rightarrow> (Some e, s3) | (Inr x, s3) \<Rightarrow> (None, k x s3))"
    by (rule consumeEntity_leaf [of s M l ctxerr entity path]) (rule that)
  have d: "ps_decodedBytes s2 \<le> MaxDecodedBytes l" using assms(3) counters_decoded [OF c(1)] by simp
  show ?thesis
  proof (cases "has_prefix (media_type M (me_header entity)) ''multipart/''")
    case True
    then show ?thesis using assms(1) eq c(1) by (simp add: counters_def leaf_size_def leaf_body_def)
  next
    case False
    then obtain preview n truncated s3 where leaf: "consumeLeaf l ctxerr (me_body entity) cap s2 = (Inr (preview, n, truncated), s3)"
      and s': "counters s' = counters s3" using assms(1) eq c(2) by (auto split: prod.splits sum.splits)
    note r = consumeLeaf_result [OF leaf assms(2) d]
    have "n = leaf_size M entity" using r leaf False by (auto simp: leaf_size_def leaf_body_def consumeLeaf_def split: option.splits)
    then show ?thesis using s' r c(1) by (simp add: counters_def)
  qed
qed

text \<open>The counters after a part, and when they are within the limits.\<close>

definition count_part :: "mime_libs \<Rightarrow> mime_visit \<Rightarrow> int \<times> int \<times> int \<times> int \<Rightarrow> int \<times> int \<times> int \<times> int" where
  "count_part M v c = (case c of (parts, headers, headerBytes, decoded) \<Rightarrow>
     (parts + 1, headers + int (length (mh_raw (me_header (mv_entity v)))), headerBytes + header_size (mh_raw (me_header (mv_entity v))),
      decoded + leaf_size M (mv_entity v)))"

definition within :: "limits \<Rightarrow> int \<times> int \<times> int \<times> int \<Rightarrow> bool" where
  "within l c \<longleftrightarrow> (case c of (parts, headers, headerBytes, decoded) \<Rightarrow>
     parts \<le> MaxParts l \<and> headers \<le> MaxHeaders l \<and> headerBytes \<le> MaxTotalHeaderBytes l \<and> decoded \<le> MaxDecodedBytes l)"

lemma visit_part_outcome:
  assumes l: "limits_validate l = Inr ()" and ctx: "\<And>i. mv_ctx v i = None" and s: "within l (counters s)"
  shows "fst (visit_part M l v s) = None \<longleftrightarrow> part_fits M l v \<and> within l (count_part M v (counters s))"
    and "visit_part M l v s = (None, s') \<Longrightarrow> counters s' = count_part M v (counters s)"
proof -
  let ?s = "s\<lparr>ps_parts := ps_parts s + 1\<rparr>" and ?h = "me_header (mv_entity v)" and ?path = "formatPartPath (mv_path v)"
  let ?s2 = "?s\<lparr>ps_headers := ps_headers ?s + int (length (mh_raw ?h)), ps_headerBytes := ps_headerBytes ?s + header_size (mh_raw ?h)\<rparr>"
  have pos: "0 < MaxHeaderBytes l" "0 < MaxPartBytes l" using l by (auto simp: limits_validate_ok)
  obtain e2 s2 where insp: "inspectHeader l ?h ?s = (e2, s2)" by fastforce
  obtain e3 s3 where reco: "recoverDecodeError l (mv_error v) ?path s2 = (e3, s3)" by fastforce
  have run: "visit_part M l v s = (if int (length (mv_path v)) > MaxDepth l then (Some ErrNestingTooDeep, s)
      else if ps_parts s + 1 > MaxParts l then (Some ErrTooManyParts, ?s)
      else if e2 \<noteq> None then (e2, s2) else if e3 \<noteq> None then (e3, s3) else consumeEntity M l (mv_ctx v) (mv_entity v) ?path s3)"
    using insp reco by (auto simp: visit_part_def Let_def)
  have e2: "e2 = None \<longleftrightarrow> list_all is_ok (mh_raw ?h) \<and> header_size (mh_raw ?h) \<le> MaxHeaderBytes l \<and>
      ps_headers s + int (length (mh_raw ?h)) \<le> MaxHeaders l \<and> ps_headerBytes s + header_size (mh_raw ?h) \<le> MaxTotalHeaderBytes l"
    and s2: "e2 = None \<Longrightarrow> s2 = ?s2"
    using inspectHeader_iff [OF pos(1), of ?h ?s s2] inspectHeader_iff [OF pos(1), of ?h ?s ?s2] insp by auto
  have e3: "e3 = None \<longleftrightarrow> recoverable (mv_error v)" using recoverDecodeError_iff [of l "mv_error v" ?path s2] reco by simp
  have s3: "counters s3 = (ps_parts s + 1, ps_headers s + int (length (mh_raw ?h)), ps_headerBytes s + header_size (mh_raw ?h), ps_decodedBytes s)"
    if "e2 = None" using counters_recover [OF reco] s2 [OF that] by (simp add: counters_def)
  have d: "ps_decodedBytes s3 = ps_decodedBytes s" "ps_decodedBytes s3 \<le> MaxDecodedBytes l" if "e2 = None"
    using s3 [OF that] s by (auto simp: counters_def within_def)
  note entity = consumeEntity_iff [where ctxerr = "mv_ctx v" and s = s3 and M = M and entity = "mv_entity v" and path = ?path, OF ctx pos(2) d(2)]
  show "fst (visit_part M l v s) = None \<longleftrightarrow> part_fits M l v \<and> within l (count_part M v (counters s))"
    using e2 e3 entity d(1) by (auto simp: run part_fits_def within_def count_part_def counters_def)
  show "counters s' = count_part M v (counters s)" if "visit_part M l v s = (None, s')"
  proof -
    have "e2 = None" "consumeEntity M l (mv_ctx v) (mv_entity v) ?path s3 = (None, s')" using that by (auto simp: run split: if_splits)
    then show ?thesis using consumeEntity_counters [OF _ pos(2) d(2)] s3 by (auto simp: counters_def count_part_def)
  qed
qed

lemma count_part_monotone: "within l (count_part M v c) \<Longrightarrow> within l c"
proof -
  have "0 \<le> header_size (mh_raw (me_header (mv_entity v)))" "0 \<le> leaf_size M (mv_entity v)" by (rule sizes_nonneg)+
  then show "within l (count_part M v c) \<Longrightarrow> within l c"
    unfolding within_def count_part_def by (cases c) (simp del: sizes_nonneg)
qed

lemma count_parts_monotone: "within l (fold (count_part M) vs c) \<Longrightarrow> within l c"
proof (induction vs arbitrary: c)
  case (Cons v vs)
  then show ?case using count_part_monotone [of l M v c] by simp
qed simp

lemma walk_iff:
  assumes l: "limits_validate l = Inr ()"
  shows "within l (counters s) \<Longrightarrow> (\<And>v i. v \<in> set vs \<Longrightarrow> mv_ctx v i = None) \<Longrightarrow>
    fst (walk M l after vs s) = None \<longleftrightarrow> after = None \<and> list_all (part_fits M l) vs \<and> within l (fold (count_part M) vs (counters s))"
proof (induction vs arbitrary: s)
  case (Cons v vs)
  obtain err s' where run: "visit_part M l v s = (err, s')" by fastforce
  have ctx: "\<And>i. mv_ctx v i = None" using Cons.prems(2) by simp
  note out = visit_part_outcome [where M = M, OF l ctx Cons.prems(1)]
  show ?case
  proof (cases err)
    case None
    then have c: "counters s' = count_part M v (counters s)" and fits: "part_fits M l v" "within l (counters s')" using out run by auto
    show ?thesis using Cons.IH [OF fits(2)] Cons.prems(2) run None fits(1) c by simp
  next
    case (Some e)
    then have "\<not> (part_fits M l v \<and> within l (count_part M v (counters s)))" using out(1) run by simp
    then show ?thesis using run Some by (auto dest: count_parts_monotone)
  qed
qed simp

lemma fold_count_part:
  "fold (count_part M) vs (a, b, c, d) =
     (a + int (length vs), b + sum_list (map (\<lambda>v. int (length (mh_raw (me_header (mv_entity v))))) vs),
      c + sum_list (map (\<lambda>v. header_size (mh_raw (me_header (mv_entity v)))) vs), d + sum_list (map (\<lambda>v. leaf_size M (mv_entity v)) vs))"
  by (induction vs arbitrary: a b c d) (simp_all add: count_part_def)

lemma Parse_iff:
  assumes l: "limits_validate l = Inr ()" and ctx: "\<And>v i. v \<in> set (sc_visits src) \<Longrightarrow> mv_ctx v i = None" "sc_ctx src = None"
  shows "(\<exists>r. Parse M l (Ctx None) (Some src) = Inr r) \<longleftrightarrow> message_fits M l src"
proof (cases "sc_root src")
  case (Some root)
  obtain e1 s1 where reco: "recoverDecodeError l (sc_read_error src) ''0'' new_parse_state = (e1, s1)" by fastforce
  have e1: "e1 = None \<longleftrightarrow> recoverable (sc_read_error src)" using recoverDecodeError_iff [of l "sc_read_error src" "''0''" new_parse_state] reco by simp
  let ?s = "readRootMetadata M l (me_header root) s1"
  have "counters new_parse_state = (0, 0, 0, 0)" by (simp add: counters_def new_parse_state_def)
  then have c: "counters ?s = (0, 0, 0, 0)" using counters_recover [OF reco] by simp
  have w: "within l (counters ?s)" using l unfolding c by (auto simp: within_def limits_validate_ok)
  obtain e2 s2 where run: "walk M l (sc_walk_error src) (sc_visits src) ?s = (e2, s2)" by fastforce
  have "e2 = None \<longleftrightarrow> sc_walk_error src = None \<and> list_all (part_fits M l) (sc_visits src) \<and> within l (fold (count_part M) (sc_visits src) (0, 0, 0, 0))"
    using walk_iff [where vs = "sc_visits src" and M = M and after = "sc_walk_error src", OF l w ctx(1)] run c by simp
  moreover have "(\<exists>r. Parse M l (Ctx None) (Some src) = Inr r) \<longleftrightarrow> e1 = None \<and> sc_read src \<le> MaxRawBytes l \<and> e2 = None"
    using Some reco run ctx(2) by (auto simp: Parse_def split: option.split)
  ultimately show ?thesis using e1 Some by (auto simp: message_fits_def fold_count_part within_def)
qed (auto simp: Parse_def message_fits_def split: option.split)

section \<open>Limits and table\<close>

text \<open>
  C14. A message is parsed exactly if it is within the limits: as long as the work is not cancelled, a constructed parser returns a result if and
  only if the MIME library found a root and reported no error beyond an unknown charset or encoding, the raw message, the nesting of each part,
  each header and all headers, the number of fields and of parts, each decoded part and all of them are within their limits, and each body
  ended properly.
\<close>

theorem parser_accepts_within_limits:
  assumes "NewParser l = Inr p" and "\<forall>v \<in> set (sc_visits src). \<forall>i. mv_ctx v i = None" and "sc_ctx src = None"
  shows "(\<exists>r. Parse M p (Ctx None) (Some src) = Inr r) \<longleftrightarrow> message_fits M p src"
proof (rule Parse_iff)
  show "limits_validate p = Inr ()" using assms(1) by (auto simp: NewParser_def split: sum.splits)
qed (use assms in auto)

text \<open>
  C13. Whatever a message contains and whatever the MIME library makes of it, what a constructed parser returns is within its limits: the
  texts, the addresses and the content ids are valid UTF-8 without NUL and within their sizes, the file names are not empty, are free of path
  separators and control characters and are neither \<^verbatim>\<open>.\<close> nor \<^verbatim>\<open>..\<close>, there are at most as many addresses, attachments and warnings as
  allowed, no attachment is larger than a part may be, and all of them together are not larger than the decoded content may be.
\<close>

theorem parsed_message_within_limits:
  assumes "NewParser l = Inr p" and "Parse M p ctx source = Inr r"
  shows "message_ok p r \<and> int (length (p_attachments r)) \<le> MaxParts p \<and> sum_list (map att_size (p_attachments r)) \<le> MaxDecodedBytes p"
proof -
  have "limits_validate p = Inr ()" using assms(1) by (auto simp: NewParser_def split: sum.splits)
  from Parse_inv [OF this assms(2)] obtain s where "parse_inv p 0 s" "r = ps_result s" .
  then show ?thesis by (simp add: parse_inv_def)
qed

text \<open>
  C12. With the limits of the running program (\<^verbatim>\<open>DefaultLimits\<close> with the size of a raw message from the configuration), table
  \<^verbatim>\<open>mail_content_parses\<close> takes a parsed message exactly if the JSON texts of its addresses, attachments and warnings are within the sizes
  of their columns and no string in them contains a NUL: every other constraint of the table, on the encoding and size of the four text columns, the
  revision and the number of elements of the five arrays, holds of whatever the parser returns. The parser does not bound the JSON texts
  themselves.
\<close>

theorem parsed_message_fits_table:
  assumes "0 < n" and "Parse M (DefaultLimits\<lparr>MaxRawBytes := n\<rparr>) ctx source = Inr r"
  shows "parse_row_ok \<lparr>pr_key = k, pr_revision = ParserRevision, pr_parsed = r, pr_parsed_at = t\<rparr> \<longleftrightarrow>
    json_fits r \<and> list_all (\<lambda>s. CHR 0x00 \<notin> set s) (json_strings r)"
proof -
  have "limits_validate (DefaultLimits\<lparr>MaxRawBytes := n\<rparr>) = Inr ()" using assms(1) by (simp add: limits_validate_ok DefaultLimits_def)
  from Parse_inv [OF this assms(2)] obtain s where "parse_inv (DefaultLimits\<lparr>MaxRawBytes := n\<rparr>) 0 s" "r = ps_result s" .
  then have m: "message_ok (DefaultLimits\<lparr>MaxRawBytes := n\<rparr>) r" "length (p_attachments r) \<le> 100" by (auto simp: parse_inv_def DefaultLimits_def)
  then have "encodable r \<longleftrightarrow> list_all (\<lambda>s. CHR 0x00 \<notin> set s) (json_strings r)" by (simp add: message_ok_def kept_def encodable_def)
  moreover have "parse_checks \<lparr>pr_key = k, pr_revision = ParserRevision, pr_parsed = r, pr_parsed_at = t\<rparr> \<longleftrightarrow> json_fits r"
    using m by (simp add: parse_checks_def message_ok_def kept_def addresses_ok_def warnings_ok_def DefaultLimits_def ParserRevision_def)
  ultimately show ?thesis by (auto simp: parse_row_ok_def)
qed

text \<open>A message with a text and an attachment, read by a parser with the default limits.\<close>

definition sample_header :: "string \<Rightarrow> string \<Rightarrow> mime_header" where
  "sample_header mediaType name =
     \<lparr>mh_raw = [Inr ''Subject: hi''], mh_get = (\<lambda>k. []), mh_subject = (''hi'', False), mh_by_key = (\<lambda>k. []),
      mh_type = (mediaType, if name = [] then Map.empty else [''name'' \<mapsto> name], False), mh_disposition = ([], Map.empty, False)\<rparr>"

definition sample_visit :: "nat list \<Rightarrow> string \<Rightarrow> string \<Rightarrow> string \<Rightarrow> mime_visit" where
  "sample_visit path mediaType name content =
     \<lparr>mv_path = path, mv_entity = \<lparr>me_header = sample_header mediaType name,
        me_body = Some \<lparr>bd_rest = content, bd_end = EOF, bd_caps = [2], bd_joined = False\<rparr>\<rparr>, mv_error = None, mv_ctx = (\<lambda>i. None)\<rparr>"

definition sample_mime :: mime_source where
  "sample_mime =
     \<lparr>sc_root = Some \<lparr>me_header = sample_header ''multipart/mixed'' [], me_body = None\<rparr>, sc_read_error = None, sc_root_read = 100,
      sc_visits = [sample_visit [] ''multipart/mixed'' [] [], sample_visit [0] ''text/plain'' [] ''hello'',
        sample_visit [1] ''image/png'' ''a/b.png'' ''PNG''],
      sc_walk_error = None, sc_read = 400, sc_ctx = None\<rparr>"

definition sample_mime_libs :: mime_libs where
  "sample_mime_libs = \<lparr>ml_lower = (\<lambda>s. s), ml_addresses = (\<lambda>s. None), ml_date = (\<lambda>s. None)\<rparr>"

lemma sample_text:
  "trim_space ''multipart/mixed'' = ''multipart/mixed''" "trim_space ''text/plain'' = ''text/plain''" "trim_space ''image/png'' = ''image/png''"
  by (rule trim_space_plain; simp add: plain_char_def is_ascii_def ascii_space_def)+

lemma sample_fits: "message_fits sample_mime_libs DefaultLimits sample_mime"
  by (simp add: message_fits_def part_fits_def sample_mime_def sample_visit_def sample_header_def sample_mime_libs_def DefaultLimits_def recoverable_def
      header_size_def leaf_size_def leaf_body_def media_type_def sample_text has_prefix_def)

lemma sample_parsed:
  obtains r where "Parse sample_mime_libs DefaultLimits (Ctx None) (Some sample_mime) = Inr r"
proof -
  have "mv_ctx v i = None" if "v \<in> set (sc_visits sample_mime)" for v i using that by (auto simp: sample_mime_def sample_visit_def)
  moreover have "sc_ctx sample_mime = None" by (simp add: sample_mime_def)
  ultimately show ?thesis using Parse_iff [of DefaultLimits sample_mime sample_mime_libs] sample_fits default_limits_valid that by blast
qed

theorem parser_accepts_within_limits_witness:
  "NewParser DefaultLimits = Inr DefaultLimits \<and> (\<exists>r. Parse sample_mime_libs DefaultLimits (Ctx None) (Some sample_mime) = Inr r)"
proof -
  have p: "NewParser DefaultLimits = Inr DefaultLimits" by (simp add: NewParser_def default_limits_valid)
  show ?thesis using parser_accepts_within_limits [OF p, of sample_mime sample_mime_libs] sample_fits p by (simp add: sample_mime_def sample_visit_def)
qed

theorem parsed_message_within_limits_witness:
  "\<exists>r. Parse sample_mime_libs DefaultLimits (Ctx None) (Some sample_mime) = Inr r \<and> message_ok DefaultLimits r"
proof -
  obtain r where r: "Parse sample_mime_libs DefaultLimits (Ctx None) (Some sample_mime) = Inr r" by (rule sample_parsed)
  have "NewParser DefaultLimits = Inr DefaultLimits" by (simp add: NewParser_def default_limits_valid)
  from parsed_message_within_limits [OF this r] show ?thesis using r by blast
qed

theorem parsed_message_fits_table_witness:
  "\<exists>r. Parse sample_mime_libs DefaultLimits (Ctx None) (Some sample_mime) = Inr r \<and>
     (parse_row_ok \<lparr>pr_key = ''k'', pr_revision = ParserRevision, pr_parsed = r, pr_parsed_at = 5\<rparr> \<longleftrightarrow>
        json_fits r \<and> list_all (\<lambda>s. CHR 0x00 \<notin> set s) (json_strings r))"
proof -
  obtain r where r: "Parse sample_mime_libs DefaultLimits (Ctx None) (Some sample_mime) = Inr r" by (rule sample_parsed)
  have l: "DefaultLimits\<lparr>MaxRawBytes := 26214400\<rparr> = DefaultLimits" by (simp add: DefaultLimits_def)
  from parsed_message_fits_table [of 26214400 sample_mime_libs "Ctx None" "Some sample_mime" r "''k''" 5] r show ?thesis
    unfolding l by (intro exI [of _ r]) simp
qed

end
