(* ===== verification/Mime_Attachment.thy ===== *)
theory Mime_Attachment
  imports Mime_Parser
begin

text \<open>
  \<^verbatim>\<open>internal/mail/attachment.go\<close>: one part of a stored message is found by its path and read through a bounded reader.
  The theorems relate it to what the parser lists: which parts are listed, that their paths name one part each, and which of
  them can be read again.
\<close>

section \<open>Opening a part\<close>

text \<open>How the walk over the parts ends: without a match, with an error, or with the body of the part.\<close>

datatype located = NotLocated | LocateFailed go_error | Located "body option"

fun locate :: "mime_libs \<Rightarrow> string \<Rightarrow> mime_visit list \<Rightarrow> located" where
  "locate M partPath [] = NotLocated"
| "locate M partPath (v # vs) =
     (if formatPartPath (mv_path v) \<noteq> partPath then locate M partPath vs
      else case mv_error v of
          Some (DecodeFailed e) \<Rightarrow> LocateFailed e
        | _ \<Rightarrow>
            (case mh_type (me_header (mv_entity v)) of (mediaType, _, typeErr) \<Rightarrow>
               if typeErr \<or> has_prefix (ml_lower M (trim_space mediaType)) ''multipart/''
               then LocateFailed (OtherError ''attachment part is not a leaf MIME entity'')
               else Located (me_body (mv_entity v))))"

record attachment_reader =
  ar_source :: body
  ar_rawClosed :: bool
  ar_maxBytes :: int
  ar_read :: int
  ar_closed :: bool

text \<open>The result, and whether the raw source was closed.\<close>

definition OpenAttachment :: "mime_libs \<Rightarrow> limits \<Rightarrow> ctx \<Rightarrow> mime_source option \<Rightarrow> string \<Rightarrow> attachment_reader result \<times> bool" where
  "OpenAttachment M l ctx source partPath0 =
     (case (ctx, source) of
        (NilCtx, _) \<Rightarrow> (Inl (OtherError ''attachment context is required''), False)
      | (_, None) \<Rightarrow> (Inl (OtherError ''attachment source is required''), False)
      | (Ctx _, Some src) \<Rightarrow>
          let partPath = trim_space partPath0 in
          if partPath = [] then (Inl (OtherError ''attachment part path is required''), True)
          else case sc_root src of
              None \<Rightarrow> (Inl (case sc_read_error src of Some e \<Rightarrow> decode_err e | None \<Rightarrow> OtherError ''read MIME root''), True)
            | Some _ \<Rightarrow>
                (case locate M partPath (sc_visits src) of
                   LocateFailed e \<Rightarrow> (Inl e, True)
                 | NotLocated \<Rightarrow> (case sc_walk_error src of Some e \<Rightarrow> (Inl e, True) | None \<Rightarrow> (Inl (OtherError ''attachment part not found''), True))
                 | Located None \<Rightarrow> (Inl (OtherError ''attachment part not found''), True)
                 | Located (Some b) \<Rightarrow>
                     (Inr \<lparr>ar_source = b, ar_rawClosed = False, ar_maxBytes = MaxPartBytes l, ar_read = 0, ar_closed = False\<rparr>, False)))"

definition attachment_Read :: "go_error option \<Rightarrow> nat \<Rightarrow> attachment_reader \<Rightarrow> (bytes \<times> go_error option) \<times> attachment_reader" where
  "attachment_Read ctxerr n r =
     (if ar_closed r then (([], Some ErrClosedPipe), r)
      else case ctxerr of
          Some e \<Rightarrow> (([], Some e), r)
        | None \<Rightarrow>
            if n = 0 then (([], None), r)
            else if ar_read r \<ge> ar_maxBytes r then
              (case body_read 1 (ar_source r) of
                 ((probe, err), b) \<Rightarrow> if probe \<noteq> [] then (([], Some ErrPartTooLarge), r\<lparr>ar_source := b\<rparr>) else (([], err), r\<lparr>ar_source := b\<rparr>))
            else
              (case body_read (min n (nat (ar_maxBytes r - ar_read r))) (ar_source r) of
                 ((chunk, err), b) \<Rightarrow> ((chunk, err), r\<lparr>ar_source := b, ar_read := ar_read r + int (length chunk)\<rparr>)))"

definition attachment_Close :: "go_error option \<Rightarrow> attachment_reader \<Rightarrow> go_error option \<times> attachment_reader" where
  "attachment_Close closeErr r = (if ar_closed r then (None, r) else (closeErr, r\<lparr>ar_closed := True, ar_rawClosed := True\<rparr>))"

text \<open>A caller that reads with a buffer of \<open>n\<close> bytes until an error.\<close>

lemma attachment_Read_shrinks:
  "attachment_Read None n r = ((chunk, None), r') \<Longrightarrow> 0 < n \<Longrightarrow> length (bd_rest (ar_source r')) < length (bd_rest (ar_source r))"
  by (auto simp: attachment_Read_def split: if_splits prod.splits dest!: body_read_shrinks)

function read_all :: "nat \<Rightarrow> attachment_reader \<Rightarrow> bytes \<times> go_error option" where
  "read_all n r =
     (if n = 0 then ([], None)
      else case attachment_Read None n r of
          ((chunk, Some e), r') \<Rightarrow> (chunk, Some e)
        | ((chunk, None), r') \<Rightarrow> (case read_all n r' of (rest, e) \<Rightarrow> (chunk @ rest, e)))"
  by pat_completeness auto
termination
  by (relation "measure (\<lambda>(n, r). length (bd_rest (ar_source r)))") (auto dest: attachment_Read_shrinks [OF sym])

declare read_all.simps [simp del]

section \<open>Reading a part\<close>

lemma body_read_split:
  "body_read k b = ((chunk, err), b') \<Longrightarrow> 0 < k \<Longrightarrow> bd_rest b = chunk @ bd_rest b' \<and> length chunk \<le> k \<and> bd_end b' = bd_end b \<and>
     (chunk = [] \<longleftrightarrow> bd_rest b = []) \<and> (err = None \<or> err = Some (bd_end b) \<and> bd_rest b' = []) \<and> (bd_rest b = [] \<longrightarrow> err \<noteq> None)"
  by (auto simp: body_read_def Let_def split: if_splits list.splits)

lemma read_all_bounded:
  assumes "\<not> ar_closed r" and "0 < n" and "ar_read r \<le> ar_maxBytes r"
  shows "read_all n r = (let left = nat (ar_maxBytes r - ar_read r); content = bd_rest (ar_source r) in
     if length content \<le> left then (content, Some (bd_end (ar_source r))) else (take left content, Some ErrPartTooLarge))"
  using assms
proof (induction n r rule: read_all.induct)
  case (1 n r)
  let ?b = "ar_source r" and ?left = "nat (ar_maxBytes r - ar_read r)"
  show ?case
  proof (cases "ar_read r \<ge> ar_maxBytes r")
    case True
    obtain chunk err b' where rd: "body_read 1 ?b = ((chunk, err), b')" by (metis surj_pair)
    have parts: "chunk = [] \<longleftrightarrow> bd_rest ?b = []" "bd_rest ?b = [] \<longrightarrow> err = Some (bd_end ?b)" using body_read_split [OF rd zero_less_one] by blast+
    have "attachment_Read None n r = (if chunk \<noteq> [] then (([], Some ErrPartTooLarge), r\<lparr>ar_source := b'\<rparr>) else (([], err), r\<lparr>ar_source := b'\<rparr>))"
      using 1(2,3) True rd by (simp add: attachment_Read_def)
    then have "read_all n r = (if chunk \<noteq> [] then ([], Some ErrPartTooLarge) else ([], Some (bd_end ?b)))"
      using 1(3) parts by (subst read_all.simps) (cases "chunk = []"; simp)
    then show ?thesis using parts(1) True by (cases "chunk = []") (auto simp: Let_def)
  next
    case False
    obtain chunk err b' where rd: "body_read (min n ?left) ?b = ((chunk, err), b')" by (metis surj_pair)
    have parts: "bd_rest ?b = chunk @ bd_rest b'" "length chunk \<le> ?left" "bd_end b' = bd_end ?b" "err = None \<or> err = Some (bd_end ?b) \<and> bd_rest b' = []"
      using body_read_split [OF rd] 1(3) False by auto
    let ?r = "r\<lparr>ar_source := b', ar_read := ar_read r + int (length chunk)\<rparr>"
    have read: "attachment_Read None n r = ((chunk, err), ?r)" using 1(2,3) False rd by (simp add: attachment_Read_def)
    show ?thesis
    proof (cases err)
      case None
      have left: "nat (ar_maxBytes ?r - ar_read ?r) = ?left - length chunk" "ar_read ?r \<le> ar_maxBytes ?r" using parts(2) False by auto
      have "read_all n ?r = (let left = nat (ar_maxBytes ?r - ar_read ?r); content = bd_rest (ar_source ?r) in
          if length content \<le> left then (content, Some (bd_end (ar_source ?r))) else (take left content, Some ErrPartTooLarge))"
        by (rule 1(1) [OF _ read [symmetric] refl None]) (use 1(2,3) left(2) in auto)
      then show ?thesis using read None 1(3) parts left(1) by (auto simp: read_all.simps [of n r] Let_def)
    next
      case (Some e)
      then show ?thesis using read 1(3) parts by (auto simp: read_all.simps [of n r] Let_def)
    qed
  qed
qed

section \<open>Paths\<close>

lemma split_on_join: "(\<And>p. p \<in> set ps \<Longrightarrow> CHR ''.'' \<notin> set p) \<Longrightarrow> ps \<noteq> [] \<Longrightarrow> split_on CHR ''.'' (join_dots ps) = ps"
proof (induction ps rule: join_dots.induct)
  case (2 p)
  then show ?case by (simp add: split_on_none)
next
  case (3 p q ps)
  then show ?case by (simp add: split_on_append)
qed simp

lemma nat_digits_no_dot: "CHR ''.'' \<notin> set (nat_digits n)"
  using nat_digits_are_digits [of n] by (auto simp: list_all_iff is_digit_def in_range_def)

lemma nat_digits_eq: "nat_digits m = nat_digits n \<Longrightarrow> m = n"
  by (metis digits_value_nat_digits option.inject)

lemma path_split: "path \<noteq> [] \<Longrightarrow> split_on CHR ''.'' (formatPartPath path) = map (\<lambda>v. nat_digits (v + 1)) path"
  unfolding formatPartPath_def using nat_digits_no_dot by (simp del: nat_digits.simps) (rule split_on_join; auto simp del: nat_digits.simps)

lemma nat_digits_zero: "nat_digits 0 = ''0''"
  by code_simp

lemma formatPartPath_root: "formatPartPath path = ''0'' \<longleftrightarrow> path = []"
proof
  show "path = []" if zero: "formatPartPath path = ''0''"
  proof (rule ccontr)
    assume ne: "path \<noteq> []"
    have "map (\<lambda>v. nat_digits (v + 1)) path = [nat_digits 0]" using path_split [OF ne] zero by (simp add: nat_digits_zero del: nat_digits.simps)
    then show False using nat_digits_eq by (cases path) (auto simp del: nat_digits.simps)
  qed
qed (simp add: formatPartPath_def)

lemma formatPartPath_inject: "formatPartPath p = formatPartPath q \<longleftrightarrow> p = q"
proof
  assume eq: "formatPartPath p = formatPartPath q"
  show "p = q"
  proof (cases "p = [] \<or> q = []")
    case True
    then show ?thesis using eq formatPartPath_root formatPartPath_def by metis
  next
    case False
    then have "map (\<lambda>v. nat_digits (v + 1)) p = map (\<lambda>v. nat_digits (v + 1)) q" using path_split eq by metis
    moreover have "inj (\<lambda>v. nat_digits (v + 1))" using nat_digits_eq by (auto simp: inj_def simp del: nat_digits.simps)
    ultimately show ?thesis by (simp add: inj_map_eq_map del: nat_digits.simps)
  qed
qed simp

lemma decimal_plain: "is_digit c \<Longrightarrow> plain_char c"
  by (auto simp: is_digit_def in_range_def plain_char_def is_ascii_def ascii_space_def)

lemma join_dots_set: "set (join_dots ps) \<subseteq> {CHR ''.''} \<union> \<Union> (set ` set ps)"
  by (induction ps rule: join_dots.induct) auto

lemma join_dots_nonempty: "ps \<noteq> [] \<Longrightarrow> hd ps \<noteq> [] \<Longrightarrow> join_dots ps \<noteq> []"
  by (cases ps rule: join_dots.cases) auto

lemma formatPartPath_plain: "formatPartPath path \<noteq> [] \<and> trim_space (formatPartPath path) = formatPartPath path"
proof -
  have dot: "plain_char CHR ''.''" "plain_char CHR ''0''" by (simp_all add: plain_char_def is_ascii_def ascii_space_def)
  have digits: "c \<in> set (nat_digits n) \<Longrightarrow> plain_char c" for c n using nat_digits_are_digits [of n] decimal_plain by (auto simp: list_all_iff)
  have ne: "formatPartPath path \<noteq> []"
    unfolding formatPartPath_def using join_dots_nonempty [of "map (\<lambda>v. nat_digits (v + 1)) path"] by (cases path) auto
  have "plain_char c" if "c \<in> set (formatPartPath path)" for c
    using that join_dots_set [of "map (\<lambda>v. nat_digits (v + 1)) path"] dot digits unfolding formatPartPath_def by (fastforce split: if_splits simp del: nat_digits.simps)
  then have "plain_char (hd (formatPartPath path)) \<and> plain_char (last (formatPartPath path))" using ne by simp
  then show ?thesis using trim_space_plain ne by blast
qed

section \<open>The parts that are listed\<close>

definition is_attachment :: "mime_libs \<Rightarrow> mime_visit \<Rightarrow> bool" where
  "is_attachment M v \<longleftrightarrow> (let h = me_header (mv_entity v); mediaType = media_type M h in
     \<not> has_prefix mediaType ''multipart/'' \<and> \<not> is_text_body mediaType (disposition_of M h) (filename_of h))"

definition entry :: "mime_libs \<Rightarrow> mime_visit \<Rightarrow> string \<times> string \<times> int" where
  "entry M v = (formatPartPath (mv_path v), media_type M (me_header (mv_entity v)), leaf_size M (mv_entity v))"

definition listed :: "parse_state \<Rightarrow> (string \<times> string \<times> int) list" where
  "listed s = map (\<lambda>a. (att_part_path a, att_content_type a, att_size a)) (p_attachments (ps_result s))"

lemma listed_warn [simp]: "listed (warn l code path detail s) = listed s"
  by (simp add: listed_def)

lemma listed_recover: "recoverDecodeError l e path s = (err, s') \<Longrightarrow> listed s' = listed s"
  by (auto simp: recoverDecodeError_def split: option.splits decode_error.splits)

lemma listed_inspect: "inspectHeader l h s = (err, s') \<Longrightarrow> listed s' = listed s"
  by (auto simp: inspectHeader_def listed_def Let_def split: if_splits sum.splits)

lemma listed_readAddressHeader: "readAddressHeader M l h key s = (as, s') \<Longrightarrow> listed s' = listed s"
  using readAddressHeader_keeps [of "\<lambda>t. listed t = listed s" l M h key s] by simp

lemma listed_update: "p_attachments r = p_attachments (ps_result s) \<Longrightarrow> listed (s\<lparr>ps_result := r\<rparr>) = listed s"
  by (simp add: listed_def)

lemma listed_readRootMetadata: "listed (readRootMetadata M l h s) = listed s"
  by (auto simp: readRootMetadata_def Let_def listed_update split: prod.splits option.splits dest!: listed_readAddressHeader)

lemma listed_keep_text: "listed (keep_text l mediaType path preview truncated s) = listed s"
  by (simp add: keep_text_def Let_def listed_update)

lemma listed_keep_attachment: "listed (keep_attachment l h path mediaType disposition filename n s) = listed s @ [(path, mediaType, n)]"
  by (simp add: keep_attachment_def Let_def listed_def split: prod.split)

lemma listed_entity:
  assumes "consumeEntity M l ctxerr (mv_entity v) (formatPartPath (mv_path v)) s = (None, s')" and "0 < MaxPartBytes l" and "ps_decodedBytes s \<le> MaxDecodedBytes l"
  shows "listed s' = listed s @ (if is_attachment M v then [entry M v] else [])"
proof -
  let ?h = "me_header (mv_entity v)" and ?path = "formatPartPath (mv_path v)"
  define s1 where "s1 = (if snd (snd (mh_type ?h)) then warn l WarningMalformedContentType ?path ''Content-Type could not be parsed'' s else s)"
  define s2 where "s2 = (if mh_get ?h ''Content-Disposition'' \<noteq> [] \<and> snd (snd (mh_disposition ?h))
      then warn l WarningMalformedDisposition ?path ''Content-Disposition could not be parsed'' s1 else s1)"
  have same: "listed s1 = listed s" "listed s2 = listed s" "ps_decodedBytes s2 = ps_decodedBytes s" by (simp_all add: s1_def s2_def)
  show ?thesis
  proof (cases "has_prefix (media_type M ?h) ''multipart/''")
    case True
    then show ?thesis using assms(1) same by (simp add: consumeEntity_def s1_def is_attachment_def)
  next
    case False
    then obtain cap preview n truncated s3 where leaf: "consumeLeaf l ctxerr (me_body (mv_entity v)) cap s2 = (Inr (preview, n, truncated), s3)"
      and s': "s' = (if is_text_body (media_type M ?h) (disposition_of M ?h) (filename_of ?h) then keep_text l (media_type M ?h) ?path preview truncated s3
        else keep_attachment l ?h ?path (media_type M ?h) (disposition_of M ?h) (filename_of ?h) n s3)"
      using assms(1) unfolding consumeEntity_def Let_def s1_def [symmetric] s2_def [symmetric] by (auto split: prod.splits sum.splits)
    note r = consumeLeaf_result [OF leaf assms(2)]
    have "n = leaf_size M (mv_entity v)"
      using r leaf False assms(3) same(3) by (auto simp: leaf_size_def leaf_body_def consumeLeaf_def split: option.splits)
    moreover have "listed s3 = listed s" using r same assms(3) by (simp add: listed_def)
    ultimately show ?thesis using False by (simp add: s' listed_keep_text listed_keep_attachment is_attachment_def entry_def)
  qed
qed

lemma listed_visit:
  assumes l: "limits_validate l = Inr ()" and s: "parse_inv l 0 s" and run: "visit_part M l v s = (None, s')"
  shows "listed s' = listed s @ (if is_attachment M v then [entry M v] else [])"
proof -
  let ?s = "s\<lparr>ps_parts := ps_parts s + 1\<rparr>"
  have ok: "\<not> ps_parts ?s > MaxParts l" using run by (auto simp: visit_part_def Let_def split: if_splits)
  then have inv: "parse_inv l 1 ?s" using s by (simp add: parse_inv_def)
  obtain s2 s3 where insp: "inspectHeader l (me_header (mv_entity v)) ?s = (None, s2)"
    and reco: "recoverDecodeError l (mv_error v) (formatPartPath (mv_path v)) s2 = (None, s3)"
    and rest: "consumeEntity M l (mv_ctx v) (mv_entity v) (formatPartPath (mv_path v)) s3 = (None, s')"
    using run by (auto simp: visit_part_def Let_def split: if_splits prod.splits option.splits)
  have "parse_inv l 1 s3" using recoverDecodeError_inv [OF reco inspectHeader_inv [OF insp inv]] .
  moreover have "listed s3 = listed s" using listed_recover [OF reco] listed_inspect [OF insp] by (simp add: listed_def)
  ultimately show ?thesis using listed_entity [OF rest] l by (simp add: limits_validate_ok parse_inv_def)
qed

lemma listed_walk:
  assumes l: "limits_validate l = Inr ()"
  shows "parse_inv l 0 s \<Longrightarrow> walk M l after vs s = (None, s') \<Longrightarrow> listed s' = listed s @ map (entry M) (filter (is_attachment M) vs)"
proof (induction vs arbitrary: s)
  case (Cons v vs)
  then obtain s1 where v: "visit_part M l v s = (None, s1)" "walk M l after vs s1 = (None, s')" by (auto split: prod.splits option.splits)
  then show ?case using Cons.IH [OF visit_part_inv [OF l Cons.prems(1) v(1)] v(2)] listed_visit [OF l Cons.prems(1) v(1)] by simp
qed simp

lemma Parse_lists:
  assumes l: "limits_validate l = Inr ()" and run: "Parse M l ctx (Some src) = Inr r"
  shows "map (\<lambda>a. (att_part_path a, att_content_type a, att_size a)) (p_attachments r) = map (entry M) (filter (is_attachment M) (sc_visits src))"
  using run
proof (cases rule: Parse_state)
  case (1 src' root s1 s2)
  have s1: "parse_inv l 0 s1" using recoverDecodeError_inv [OF 1(4)] new_parse_state_inv [OF l] by blast
  have "listed new_parse_state = []" by (simp add: listed_def new_parse_state_def empty_parsed_def)
  then have "listed (readRootMetadata M l (me_header root) s1) = []" using listed_recover [OF 1(4)] listed_readRootMetadata by simp
  then show ?thesis using listed_walk [OF l readRootMetadata_inv [OF l s1] 1(5)] 1(1,7) by (simp add: listed_def)
qed

lemma visit_sound:
  assumes l: "limits_validate l = Inr ()" and s: "parse_inv l 0 s" and run: "visit_part M l v s = (None, s')"
  shows "recoverable (mv_error v) \<and> (\<forall>b. leaf_body M (mv_entity v) = Some b \<longrightarrow> bd_end b = EOF)"
proof -
  let ?s = "s\<lparr>ps_parts := ps_parts s + 1\<rparr>" and ?path = "formatPartPath (mv_path v)"
  have ok: "\<not> ps_parts ?s > MaxParts l" using run by (auto simp: visit_part_def Let_def split: if_splits)
  then have inv: "parse_inv l 1 ?s" using s by (simp add: parse_inv_def)
  obtain s2 s3 where insp: "inspectHeader l (me_header (mv_entity v)) ?s = (None, s2)"
    and reco: "recoverDecodeError l (mv_error v) ?path s2 = (None, s3)"
    and rest: "consumeEntity M l (mv_ctx v) (mv_entity v) ?path s3 = (None, s')"
    using run by (auto simp: visit_part_def Let_def split: if_splits prod.splits option.splits)
  have s3: "parse_inv l 1 s3" using recoverDecodeError_inv [OF reco inspectHeader_inv [OF insp inv]] .
  obtain t cap k where c: "counters t = counters s3" and eq: "consumeEntity M l (mv_ctx v) (mv_entity v) ?path s3 =
      (if has_prefix (media_type M (me_header (mv_entity v))) ''multipart/'' then (None, t)
       else case consumeLeaf l (mv_ctx v) (me_body (mv_entity v)) cap t of (Inl e, u) \<Rightarrow> (Some e, u) | (Inr x, u) \<Rightarrow> (None, k x u))"
    by (rule consumeEntity_leaf [of s3 M l "mv_ctx v" "mv_entity v" ?path])
  have pos: "0 < MaxPartBytes l" "ps_decodedBytes t \<le> MaxDecodedBytes l" using l s3 counters_decoded [OF c] by (auto simp: limits_validate_ok parse_inv_def)
  have "bd_end b = EOF" if b: "leaf_body M (mv_entity v) = Some b" for b
  proof -
    have leaf: "\<not> has_prefix (media_type M (me_header (mv_entity v))) ''multipart/''" "me_body (mv_entity v) = Some b" using b by (auto simp: leaf_body_def split: if_splits)
    then obtain preview n truncated u where "consumeLeaf l (mv_ctx v) (me_body (mv_entity v)) cap t = (Inr (preview, n, truncated), u)"
      using rest eq by (auto split: prod.splits sum.splits)
    from consumeLeaf_result [OF this pos] leaf(2) show ?thesis by blast
  qed
  then show ?thesis using recoverDecodeError_iff [of l "mv_error v" ?path s2] reco by simp
qed

lemma walk_sound:
  assumes l: "limits_validate l = Inr ()"
  shows "parse_inv l 0 s \<Longrightarrow> walk M l after vs s = (None, s') \<Longrightarrow> v \<in> set vs \<Longrightarrow>
    recoverable (mv_error v) \<and> (\<forall>b. leaf_body M (mv_entity v) = Some b \<longrightarrow> bd_end b = EOF)"
proof (induction vs arbitrary: s)
  case (Cons w vs)
  then obtain s1 where w: "visit_part M l w s = (None, s1)" "walk M l after vs s1 = (None, s')" by (auto split: prod.splits option.splits)
  then show ?case using Cons.IH [OF visit_part_inv [OF l Cons.prems(1) w(1)] w(2)] visit_sound [OF l Cons.prems(1) w(1)] Cons.prems(3) by auto
qed simp

lemma Parse_sound:
  assumes l: "limits_validate l = Inr ()" and run: "Parse M l ctx (Some src) = Inr r" and v: "v \<in> set (sc_visits src)"
  shows "sc_root src \<noteq> None \<and> recoverable (mv_error v) \<and> (\<forall>b. leaf_body M (mv_entity v) = Some b \<longrightarrow> bd_end b = EOF)"
  using run
proof (cases rule: Parse_state)
  case (1 src' root s1 s2)
  have s1: "parse_inv l 0 s1" using recoverDecodeError_inv [OF 1(4)] new_parse_state_inv [OF l] by blast
  then show ?thesis using walk_sound [OF l readRootMetadata_inv [OF l s1] 1(5)] 1(1,3) v by simp
qed

lemma locate_part:
  assumes "distinct (map mv_path vs)" and "v \<in> set vs" and "recoverable (mv_error v)"
  shows "locate M (formatPartPath (mv_path v)) vs =
    (case mh_type (me_header (mv_entity v)) of (mediaType, _, typeErr) \<Rightarrow>
       if typeErr \<or> has_prefix (ml_lower M (trim_space mediaType)) ''multipart/''
       then LocateFailed (OtherError ''attachment part is not a leaf MIME entity'') else Located (me_body (mv_entity v)))"
  using assms
proof (induction vs)
  case (Cons w vs)
  show ?case
  proof (cases "mv_path w = mv_path v")
    case True
    then have "w = v" using Cons.prems(1,2) by (auto simp: image_iff)
    then show ?thesis using Cons.prems(3) by (auto simp: recoverable_def split: option.splits decode_error.splits)
  next
    case False
    then show ?thesis using Cons by (auto simp: formatPartPath_inject)
  qed
qed simp

lemma OpenAttachment_part:
  assumes "sc_root src \<noteq> None"
  shows "OpenAttachment M l (Ctx e) (Some src) (formatPartPath path) =
    (case locate M (formatPartPath path) (sc_visits src) of
       LocateFailed e \<Rightarrow> (Inl e, True)
     | NotLocated \<Rightarrow> (case sc_walk_error src of Some e \<Rightarrow> (Inl e, True) | None \<Rightarrow> (Inl (OtherError ''attachment part not found''), True))
     | Located None \<Rightarrow> (Inl (OtherError ''attachment part not found''), True)
     | Located (Some b) \<Rightarrow> (Inr \<lparr>ar_source = b, ar_rawClosed = False, ar_maxBytes = MaxPartBytes l, ar_read = 0, ar_closed = False\<rparr>, False))"
  using assms formatPartPath_plain [of path] by (auto simp: OpenAttachment_def)

lemma listed_attachment_opens:
  assumes l: "limits_validate p = Inr ()" and run: "Parse M p ctx (Some src) = Inr r" and paths: "distinct (map mv_path (sc_visits src))"
    and v: "v \<in> set (sc_visits src)" "is_attachment M v" and b: "me_body (mv_entity v) = Some b" and type: "mh_type (me_header (mv_entity v)) = (mt, ps, False)"
    and n: "0 < n" and fits: "leaf_size M (mv_entity v) \<le> MaxPartBytes p"
  shows "\<exists>rd. OpenAttachment M p (Ctx e) (Some src) (formatPartPath (mv_path v)) = (Inr rd, False) \<and> read_all n rd = (bd_rest b, Some EOF) \<and>
     leaf_size M (mv_entity v) = int (length (bd_rest b))"
proof -
  let ?rd = "\<lparr>ar_source = b, ar_rawClosed = False, ar_maxBytes = MaxPartBytes p, ar_read = 0, ar_closed = False\<rparr>"
  have leaf: "\<not> has_prefix (media_type M (me_header (mv_entity v))) ''multipart/''" using v(2) by (simp add: is_attachment_def Let_def)
  then have body: "leaf_body M (mv_entity v) = Some b" "leaf_size M (mv_entity v) = int (length (bd_rest b))" using b by (simp_all add: leaf_body_def leaf_size_def)
  note sound = Parse_sound [OF l run v(1)]
  have "OpenAttachment M p (Ctx e) (Some src) (formatPartPath (mv_path v)) = (Inr ?rd, False)"
    using OpenAttachment_part [of src M p e "mv_path v"] locate_part [OF paths v(1), of M] sound leaf type b by (simp add: media_type_def)
  moreover have "read_all n ?rd = (bd_rest b, Some EOF)" using read_all_bounded [of ?rd n] n sound body fits by (simp add: Let_def)
  ultimately show ?thesis using body(2) by blast
qed

section \<open>Properties\<close>

text \<open>
  C15. The parser lists exactly the parts that are neither containers nor text bodies, in the order of the message, each with its path, media
  type and decoded size; and the bytes of a listed attachment can be read again: if the parts of the message have different paths, a body
  and a well-formed content type, then opening the path of a listed attachment succeeds, and a caller that reads with a buffer of any size
  gets all bytes of the part, as many as listed, followed by \<^verbatim>\<open>io.EOF\<close>.
\<close>

theorem attachments_reopen:
  assumes "NewParser l = Inr p" and run: "Parse M p (Ctx None) (Some src) = Inr r" and paths: "distinct (map mv_path (sc_visits src))"
    and parts: "\<forall>v \<in> set (sc_visits src). me_body (mv_entity v) \<noteq> None \<and> \<not> snd (snd (mh_type (me_header (mv_entity v))))"
    and n: "0 < n"
  shows "map (\<lambda>a. (att_part_path a, att_content_type a, att_size a)) (p_attachments r) = map (entry M) (filter (is_attachment M) (sc_visits src)) \<and>
    (\<forall>a \<in> set (p_attachments r). \<exists>v \<in> set (sc_visits src). \<exists>b rd. formatPartPath (mv_path v) = att_part_path a \<and> me_body (mv_entity v) = Some b \<and>
      OpenAttachment M p (Ctx None) (Some src) (att_part_path a) = (Inr rd, False) \<and> read_all n rd = (bd_rest b, Some EOF) \<and> att_size a = int (length (bd_rest b)))"
    (is "?lists \<and> (\<forall>a \<in> _. ?opens a)")
proof -
  have l: "limits_validate p = Inr ()" using assms(1) by (auto simp: NewParser_def split: sum.splits)
  obtain s where inv: "parse_inv p 0 s" "r = ps_result s" by (rule Parse_inv [OF l run])
  note lists = Parse_lists [OF l run]
  have "?opens a" if a: "a \<in> set (p_attachments r)" for a
  proof -
    have "(att_part_path a, att_content_type a, att_size a) \<in> set (map (entry M) (filter (is_attachment M) (sc_visits src)))" unfolding lists [symmetric] using a by simp
    then obtain v where v: "v \<in> set (sc_visits src)" "is_attachment M v" "att_part_path a = formatPartPath (mv_path v)" "att_size a = leaf_size M (mv_entity v)"
      by (auto simp: entry_def)
    obtain b mt ps where b: "me_body (mv_entity v) = Some b" "mh_type (me_header (mv_entity v)) = (mt, ps, False)"
      using v(1) parts by (cases "mh_type (me_header (mv_entity v))") fastforce
    have "leaf_size M (mv_entity v) \<le> MaxPartBytes p" using inv a v(4) by (auto simp: parse_inv_def message_ok_def list_all_iff attachment_ok_def)
    from listed_attachment_opens [OF l run paths v(1,2) b n this, of None] show ?thesis using v b(1) by metis
  qed
  then show ?thesis using lists by blast
qed

text \<open>
  C40. An attachment with a malformed content type is listed but cannot be opened: of every message that is parsed and whose parts have different
  paths, a part with a malformed content type whose fallback type makes it an attachment (neither a container nor a text body) is listed with its path and
  decoded size, and \<^verbatim>\<open>OpenAttachment\<close> on that path always answers that the part is not a leaf. The comment on \<^verbatim>\<open>Attachment\<close> says that the bytes remain
  recoverable by the path.
\<close>

theorem malformed_attachment_lost:
  assumes "NewParser l = Inr p" and run: "Parse M p (Ctx None) (Some src) = Inr r" and paths: "distinct (map mv_path (sc_visits src))"
    and v: "v \<in> set (sc_visits src)" "is_attachment M v" and malformed: "snd (snd (mh_type (me_header (mv_entity v))))"
  shows "(\<exists>a \<in> set (p_attachments r). att_part_path a = formatPartPath (mv_path v) \<and> att_size a = leaf_size M (mv_entity v)) \<and>
    OpenAttachment M p (Ctx e) (Some src) (formatPartPath (mv_path v)) = (Inl (OtherError ''attachment part is not a leaf MIME entity''), True)"
proof -
  have l: "limits_validate p = Inr ()" using assms(1) by (auto simp: NewParser_def split: sum.splits)
  note sound = Parse_sound [OF l run v(1)]
  have "entry M v \<in> set (map (\<lambda>a. (att_part_path a, att_content_type a, att_size a)) (p_attachments r))"
    unfolding Parse_lists [OF l run] using v by simp
  then have "\<exists>a \<in> set (p_attachments r). att_part_path a = formatPartPath (mv_path v) \<and> att_size a = leaf_size M (mv_entity v)"
    by (auto simp: entry_def)
  moreover have "locate M (formatPartPath (mv_path v)) (sc_visits src) = LocateFailed (OtherError ''attachment part is not a leaf MIME entity'')"
    using locate_part [OF paths v(1), of M] sound malformed by (cases "mh_type (me_header (mv_entity v))") simp
  ultimately show ?thesis using OpenAttachment_part [of src M p e "mv_path v"] sound by simp
qed

definition malformed_mime :: mime_source where
  "malformed_mime =
     (let h = (sample_header ''x'' [])\<lparr>mh_type := ([], Map.empty, True)\<rparr>;
          entity = \<lparr>me_header = h, me_body = Some \<lparr>bd_rest = ''PNG'', bd_end = EOF, bd_caps = [], bd_joined = False\<rparr>\<rparr> in
      \<lparr>sc_root = Some entity, sc_read_error = None, sc_root_read = 40,
       sc_visits = [\<lparr>mv_path = [], mv_entity = entity, mv_error = None, mv_ctx = (\<lambda>i. None)\<rparr>],
       sc_walk_error = None, sc_read = 43, sc_ctx = None\<rparr>)"

lemma malformed_media:
  "media_type sample_mime_libs ((sample_header ''x'' [])\<lparr>mh_type := ([], Map.empty, True)\<rparr>) = ''application/octet-stream''"
proof -
  have "trim_space [] = []" "trim_space ''application/octet-stream'' = ''application/octet-stream''"
    by (rule trim_space_plain; simp add: plain_char_def is_ascii_def ascii_space_def)+
  then show ?thesis by (simp add: media_type_def sample_header_def sample_mime_libs_def fallbackMediaType_def cut_def)
qed

theorem malformed_attachment_lost_witness:
  "\<exists>r. Parse sample_mime_libs DefaultLimits (Ctx None) (Some malformed_mime) = Inr r \<and> (\<exists>a \<in> set (p_attachments r). att_part_path a = ''0'' \<and> att_size a = 3) \<and>
     OpenAttachment sample_mime_libs DefaultLimits (Ctx None) (Some malformed_mime) ''0'' = (Inl (OtherError ''attachment part is not a leaf MIME entity''), True)"
proof -
  let ?v = "hd (sc_visits malformed_mime)"
  have ctx: "mv_ctx v i = None" if "v \<in> set (sc_visits malformed_mime)" for v i using that by (simp add: malformed_mime_def Let_def)
  have "message_fits sample_mime_libs DefaultLimits malformed_mime"
    using malformed_media by (simp add: message_fits_def part_fits_def malformed_mime_def Let_def DefaultLimits_def recoverable_def header_size_def leaf_size_def leaf_body_def has_prefix_def)
      (simp add: sample_header_def)
  then obtain r where r: "Parse sample_mime_libs DefaultLimits (Ctx None) (Some malformed_mime) = Inr r"
    using Parse_iff [OF default_limits_valid, of malformed_mime sample_mime_libs] ctx by (auto simp: malformed_mime_def Let_def)
  have p: "NewParser DefaultLimits = Inr DefaultLimits" by (simp add: NewParser_def default_limits_valid)
  have v: "distinct (map mv_path (sc_visits malformed_mime))" "?v \<in> set (sc_visits malformed_mime)" "snd (snd (mh_type (me_header (mv_entity ?v))))"
    "formatPartPath (mv_path ?v) = ''0''" by (simp_all add: malformed_mime_def Let_def formatPartPath_def)
  have a: "is_attachment sample_mime_libs ?v" "leaf_size sample_mime_libs (mv_entity ?v) = 3"
    using malformed_media by (simp_all add: malformed_mime_def Let_def is_attachment_def is_text_body_def has_prefix_def leaf_size_def leaf_body_def)
  show ?thesis using malformed_attachment_lost [OF p r v(1,2) a(1) v(3), of None] r unfolding v(4) a(2) by blast
qed

theorem attachments_reopen_witness:
  "\<exists>r. Parse sample_mime_libs DefaultLimits (Ctx None) (Some sample_mime) = Inr r \<and>
     map (\<lambda>a. (att_part_path a, att_content_type a, att_size a)) (p_attachments r) = [(''2'', ''image/png'', 3)]"
proof -
  obtain r where r: "Parse sample_mime_libs DefaultLimits (Ctx None) (Some sample_mime) = Inr r" by (rule sample_parsed)
  have p: "NewParser DefaultLimits = Inr DefaultLimits" by (simp add: NewParser_def default_limits_valid)
  have d: "distinct (map mv_path (sc_visits sample_mime))" by (simp add: sample_mime_def sample_visit_def)
  have b: "\<forall>v \<in> set (sc_visits sample_mime). me_body (mv_entity v) \<noteq> None \<and> \<not> snd (snd (mh_type (me_header (mv_entity v))))"
    by (simp add: sample_mime_def sample_visit_def sample_header_def)
  have two: "formatPartPath [1] = ''2''" by code_simp
  have "map (entry sample_mime_libs) (filter (is_attachment sample_mime_libs) (sc_visits sample_mime)) = [(''2'', ''image/png'', 3)]"
    using two by (simp add: sample_mime_def sample_visit_def sample_header_def sample_mime_libs_def is_attachment_def entry_def is_text_body_def media_type_def
        sample_text has_prefix_def leaf_size_def leaf_body_def disposition_of_def filename_of_def param_def trim_space_plain)
  then show ?thesis using attachments_reopen [OF p r d b, of 1] r by simp
qed

text \<open>A message of five parts whose media types have 60002 bytes each, within every limit of the parser.\<close>

definition long_type :: string where
  "long_type = replicate 60000 CHR ''a'' @ ''/b''"

definition long_visit :: "nat \<Rightarrow> mime_visit" where
  "long_visit i = \<lparr>mv_path = [i],
     mv_entity = \<lparr>me_header = (sample_header long_type [])\<lparr>mh_raw := [Inr (''Content-Type: '' @ long_type)]\<rparr>,
       me_body = Some \<lparr>bd_rest = ''x'', bd_end = EOF, bd_caps = [], bd_joined = False\<rparr>\<rparr>, mv_error = None, mv_ctx = (\<lambda>i. None)\<rparr>"

definition long_mime :: mime_source where
  "long_mime = \<lparr>sc_root = Some \<lparr>me_header = sample_header ''multipart/mixed'' [], me_body = None\<rparr>, sc_read_error = None, sc_root_read = 100,
     sc_visits = map long_visit [0, 1, 2, 3, 4], sc_walk_error = None, sc_read = 320000, sc_ctx = None\<rparr>"

lemma long_type_facts:
  "length long_type = 60002" "\<exists>t. long_type = CHR ''a'' # t" "trim_space long_type = long_type"
proof -
  show hd: "\<exists>t. long_type = CHR ''a'' # t" unfolding long_type_def using replicate_Suc [of 59999 "CHR ''a''"] by simp
  have "long_type = [] \<or> plain_char (hd long_type) \<and> plain_char (last long_type)"
    using hd by (auto simp: long_type_def plain_char_def is_ascii_def ascii_space_def)
  then show "trim_space long_type = long_type" by (rule trim_space_plain)
qed (simp add: long_type_def)

lemma long_visit_media: "media_type sample_mime_libs (me_header (mv_entity (long_visit i))) = long_type"
  by (simp add: media_type_def long_visit_def sample_header_def sample_mime_libs_def long_type_facts(3))

lemma long_not_text: "\<not> has_prefix long_type ''multipart/''" "long_type \<noteq> ''text/plain''" "long_type \<noteq> ''text/html''"
proof -
  obtain t where t: "long_type = CHR ''a'' # t" using long_type_facts(2) by blast
  show "\<not> has_prefix long_type ''multipart/''" "long_type \<noteq> ''text/plain''" "long_type \<noteq> ''text/html''" unfolding t by (simp_all add: has_prefix_def)
qed

lemma long_fits: "message_fits sample_mime_libs DefaultLimits long_mime"
  by (simp add: message_fits_def part_fits_def long_mime_def DefaultLimits_def recoverable_def header_size_def leaf_size_def leaf_body_def
      long_visit_media long_not_text) (simp add: long_visit_def long_type_facts(1))

text \<open>
  The media type of an attachment is neither cut nor cleaned: there is a message within all limits of the parser whose attachments have
  media types of more than 262144 bytes together. The parser returns it without a warning, and the table refuses it: its
  constraint bounds the JSON text of the attachments, which contains the media types, by 262144 bytes.
\<close>

theorem content_types_exceed_table:
  "\<exists>r. Parse sample_mime_libs DefaultLimits (Ctx None) (Some long_mime) = Inr r \<and> length (p_attachments r) = 5 \<and>
     (\<forall>row. pr_parsed row = r \<longrightarrow> \<not> parse_row_ok row)"
proof -
  have "mv_ctx v i = None" if "v \<in> set (sc_visits long_mime)" for v i using that by (auto simp: long_mime_def long_visit_def)
  moreover have "sc_ctx long_mime = None" by (simp add: long_mime_def)
  ultimately obtain r where r: "Parse sample_mime_libs DefaultLimits (Ctx None) (Some long_mime) = Inr r"
    using Parse_iff [OF default_limits_valid, of long_mime sample_mime_libs] long_fits by blast
  have "filter (is_attachment sample_mime_libs) (sc_visits long_mime) = map long_visit [0, 1, 2, 3, 4]"
    by (simp add: long_mime_def is_attachment_def is_text_body_def long_visit_media long_not_text)
  then have "map (\<lambda>(p, c, n). length c) (map (\<lambda>a. (att_part_path a, att_content_type a, att_size a)) (p_attachments r)) = [60002, 60002, 60002, 60002, 60002]"
    unfolding Parse_lists [OF default_limits_valid r] by (simp add: entry_def long_visit_media long_type_facts(1))
  then have m: "map (\<lambda>a. length (att_content_type a)) (p_attachments r) = [60002, 60002, 60002, 60002, 60002]" by (simp add: comp_def)
  from arg_cong [OF m, of length] have "length (p_attachments r) = 5" by simp
  moreover from arg_cong [OF m, of sum_list] have "sum_list (map (\<lambda>a. length (att_content_type a)) (p_attachments r)) = 300010" by simp
  moreover have "262144 < length (json_array (map attachment_json (p_attachments r)))"
    using attachments_json_length [of "p_attachments r"] calculation(2) by linarith
  ultimately show ?thesis using r by (auto simp: parse_row_ok_def parse_checks_def json_fits_def Let_def)
qed

end
