(* ===== verification/App_Composition.thy ===== *)
theory App_Composition
  imports Compat_Http Parser_Worker Retention Mime_Attachment
begin

text \<open>
  \<^verbatim>\<open>internal/app/app.go\<close> with \<^verbatim>\<open>app/postgres.go\<close> and \<^verbatim>\<open>postgres/pool.go\<close>: how the process is composed from a
  configuration, and how it runs and shuts down. The connection pool, the file system, the AEAD and the password hash are
  parameters, as in the components.
\<close>

section \<open>The pool\<close>

record pool_options =
  pl_DSN :: string
  pl_MinConnections :: int
  pl_MaxConnections :: int
  pl_ConnectTimeout :: duration
  pl_HealthCheckPeriod :: duration
  pl_MaxConnectionIdle :: duration

text \<open>\<open>parse\<close> and \<open>create\<close> are the errors of \<^verbatim>\<open>pgxpool.ParseConfig\<close> and \<^verbatim>\<open>pgxpool.NewWithConfig\<close>.\<close>

definition OpenPool :: "(string \<Rightarrow> go_error option) \<Rightarrow> go_error option \<Rightarrow> pool_options \<Rightarrow> pool_options result" where
  "OpenPool parse create o' =
     (if pl_DSN o' = [] then Inl (OtherError ''postgres DSN is required'')
      else if pl_MaxConnections o' \<le> 0 \<or> pl_MinConnections o' < 0 \<or> pl_MinConnections o' > pl_MaxConnections o'
        then Inl (OtherError ''invalid postgres connection bounds'')
      else if pl_ConnectTimeout o' \<le> 0 \<or> pl_HealthCheckPeriod o' \<le> 0 \<or> pl_MaxConnectionIdle o' \<le> 0
        then Inl (OtherError ''postgres pool durations must be positive'')
      else case parse (pl_DSN o') of Some e \<Rightarrow> Inl e | None \<Rightarrow> (case create of Some e \<Rightarrow> Inl e | None \<Rightarrow> Inr o'))"

definition openPostgresPool :: "(string \<Rightarrow> go_error option) \<Rightarrow> go_error option \<Rightarrow> postgres_config \<Rightarrow> pool_options result" where
  "openPostgresPool parse create cfg =
     OpenPool parse create \<lparr>pl_DSN = dc_DSN cfg, pl_MinConnections = dc_MinConnections cfg, pl_MaxConnections = dc_MaxConnections cfg,
       pl_ConnectTimeout = dc_ConnectTimeout cfg, pl_HealthCheckPeriod = seconds 30, pl_MaxConnectionIdle = minutes 5\<rparr>"

section \<open>Composition\<close>

record app_env =
  ap_parse :: "string \<Rightarrow> go_error option"
  ap_create :: "go_error option"
  ap_abspath :: "string \<Rightarrow> string list result"
  ap_flt :: "store_op \<Rightarrow> go_error option"
  ap_objects :: "string \<Rightarrow> bytes option"
  ap_staged :: "stage_entry list"
  ap_aead :: "bytes \<Rightarrow> aead result"
  ap_idkey :: argon2
  ap_random :: bytes

record app =
  app_config :: config
  app_http :: compat_server
  app_lmtp :: options
  app_pool :: pool_options
  app_repository :: delivery_limits
  app_parserWorker :: parser_options
  app_retention :: "retention_options option"
  app_mailbox :: mailbox_service
  app_parser :: limits
  app_store :: store

definition and_then :: "'a result \<Rightarrow> ('a \<Rightarrow> 'b result) \<Rightarrow> 'b result" where
  "and_then r f = (case r of Inl e \<Rightarrow> Inl e | Inr x \<Rightarrow> f x)"

definition lmtp_options :: "lmtp_config \<Rightarrow> options" where
  "lmtp_options c =
     \<lparr>op_hostname = lc_Hostname c, op_maxMessage = lc_MaxMessageBytes c, op_maxCommand = lc_MaxCommandBytes c,
      op_maxDataLine = lc_MaxDataLineBytes c, op_maxRecipients = lc_MaxRecipients c, op_maxSessions = lc_MaxSessions c,
      op_sessionTimeout = lc_SessionTimeout c, op_deliveryTimeout = lc_DeliveryTimeout c\<rparr>"

definition worker_options :: "parser_config \<Rightarrow> parser_options" where
  "worker_options c =
     \<lparr>po_Workers = pc_Workers c, po_PollInterval = pc_PollInterval c, po_ParseTimeout = pc_ParseTimeout c,
      po_LeaseDuration = pc_LeaseDuration c, po_MaxAttempts = pc_MaxAttempts c, po_RetryBase = pc_RetryBase c, po_RetryMax = pc_RetryMax c\<rparr>"

text \<open>The optional parts: the retention job, the browser sessions and the adapters.\<close>

definition new_retention :: "cleanup_config \<Rightarrow> retention_options option result" where
  "new_retention k =
     (if kc_Interval k > 0
      then and_then (NewRetention True True True \<lparr>rn_batchSize = kc_BatchSize k, rn_interval = kc_Interval k, rn_timeout = kc_Timeout k\<rparr>) (\<lambda>r. Inr (Some r))
      else Inr None)"

definition with_sessions :: "app_env \<Rightarrow> browser_config \<Rightarrow> http_server \<Rightarrow> http_server result" where
  "with_sessions env b s =
     (if length (bc_Key b) \<noteq> 0 then and_then (NewBrowserSessionManager (ap_aead env) (bc_Key b) (bc_Lifetime b)) (\<lambda>m. Inr (SetBrowserSessions m s)) else Inr s)"

definition with_duck :: "app_env \<Rightarrow> config \<Rightarrow> compat_server \<Rightarrow> compat_server result" where
  "with_duck env c s =
     (if cc_DuckMailEnabled (cfg_Compatibility c)
      then and_then (NewDuckService (ap_idkey env) (ap_random env) True True True
          \<lparr>dk_PublicDomains = ic_PublicDomains (cfg_Inbox c), dk_DefaultTTL = ic_DefaultTTL (cfg_Inbox c), dk_MaxTTL = ic_MaxTTL (cfg_Inbox c)\<rparr>)
        (\<lambda>sv. Inr (s\<lparr>cs_duck := Some sv\<rparr>))
      else Inr s)"

definition with_yyds :: "config \<Rightarrow> compat_server \<Rightarrow> compat_server result" where
  "with_yyds c s =
     (if cc_YYDSEnabled (cfg_Compatibility c)
      then and_then (NewYYDSService True True (ic_PublicDomains (cfg_Inbox c))) (\<lambda>sv. Inr (s\<lparr>cs_yyds := Some sv\<rparr>)) else Inr s)"

definition with_cloudflare :: "config \<Rightarrow> compat_server \<Rightarrow> compat_server result" where
  "with_cloudflare c s =
     (if cc_CloudflareTempEnabled (cfg_Compatibility c)
      then and_then (NewCloudflareTempService True True (ic_PublicDomains (cfg_Inbox c)))
        (\<lambda>sv. Inr (s\<lparr>cs_cf := Some sv, cs_legacy := cc_CloudflareLegacyPathsEnabled (cfg_Compatibility c)\<rparr>))
      else Inr s)"

text \<open>Everything after the pool is open.\<close>

definition compose :: "app_env \<Rightarrow> config \<Rightarrow> pool_options \<Rightarrow> app result" where
  "compose env c pool =
     and_then (Open (ap_abspath env) (ap_flt env) (nc_Root (cfg_Content c))
         \<lparr>so_maxBytes = nc_MaxBytes (cfg_Content c), so_minFreeBytes = nc_MinFreeBytes (cfg_Content c)\<rparr> (ap_objects env) (ap_staged env)) (\<lambda>store.
     and_then (NewDeliveryRepositoryWithLimits True \<lparr>li_messages = ic_MaxMessages (cfg_Inbox c), li_storage = ic_MaxStorageBytes (cfg_Inbox c)\<rparr>) (\<lambda>repository.
     and_then (NewReceiver True True) (\<lambda>_.
     and_then (NewQuotaService True (qc_HMACKey (cfg_CreateQuota c)) (qc_DailyLimit (cfg_CreateQuota c))) (\<lambda>createQuota.
     and_then (NewParser (DefaultLimits\<lparr>MaxRawBytes := lc_MaxMessageBytes (cfg_LMTP c)\<rparr>)) (\<lambda>parser.
     and_then (NewMailboxService True True True \<lparr>mo_PublicDomains = ic_PublicDomains (cfg_Inbox c), mo_DefaultTTL = ic_DefaultTTL (cfg_Inbox c),
         mo_MaxTTL = ic_MaxTTL (cfg_Inbox c), mo_has_parser = True\<rparr>) (\<lambda>mailboxService.
     and_then (NewParserWorker True True True True (worker_options (cfg_Parser c))) (\<lambda>parserWorker.
     and_then (new_retention (cfg_Cleanup c)) (\<lambda>retention.
     and_then (NewServer (lmtp_options (cfg_LMTP c)) True True True) (\<lambda>lmtpServer.
     let httpServer = SetCreateQuota createQuota (SetMailboxService mailboxService True (SetReadinessChecker True (NewHttpServer (cfg_HTTP c)))) in
     and_then (with_sessions env (cfg_BrowserSession c) httpServer) (\<lambda>http1.
     and_then (with_duck env c \<lparr>cs_http = http1, cs_duck = None, cs_yyds = None, cs_cf = None, cs_legacy = False\<rparr>) (\<lambda>http2.
     and_then (with_yyds c http2) (\<lambda>http3.
     and_then (with_cloudflare c http3) (\<lambda>http4.
       Inr \<lparr>app_config = c, app_http = http4, app_lmtp = lmtpServer, app_pool = pool, app_repository = repository,
            app_parserWorker = parserWorker, app_retention = retention, app_mailbox = mailboxService, app_parser = parser, app_store = store\<rparr>)))))))))))))"

text \<open>The application, and whether the pool is left open; the deferred function closes it unless the composition succeeded.\<close>

definition app_New :: "app_env \<Rightarrow> config \<Rightarrow> bool \<Rightarrow> app result \<times> bool" where
  "app_New env c hasLogger =
     (if \<not> hasLogger then (Inl (OtherError ''logger is required''), False)
      else case openPostgresPool (ap_parse env) (ap_create env) (cfg_Postgres c) of
          Inl e \<Rightarrow> (Inl e, False)
        | Inr pool \<Rightarrow> (case compose env c pool of Inl e \<Rightarrow> (Inl e, False) | Inr a \<Rightarrow> (Inr a, True)))"

lemma and_then_simps [simp]: "and_then (Inl e) f = Inl e" "and_then (Inr x) f = f x"
  by (simp_all add: and_then_def)

lemma and_then_Inr: "and_then r f = Inr y \<longleftrightarrow> (\<exists>x. r = Inr x \<and> f x = Inr y)"
  by (cases r) auto

section \<open>A validated configuration\<close>

lemma split_on_chars: "c \<in> set s \<Longrightarrow> c = b \<or> (\<exists>t \<in> set (split_on b s). c \<in> set t)"
proof (induction s)
  case (Cons a s)
  obtain t ts where t: "split_on b s = t # ts" using split_on_nonempty [of b s] by (cases "split_on b s") auto
  show ?case using Cons t by auto
qed simp

lemma domain_char_plain: "domain_char c \<or> c = CHR ''.'' \<Longrightarrow> plain_char c \<and> lower_char c = c"
  by (auto simp: domain_char_def in_range_def plain_char_def is_ascii_def ascii_space_def lower_char_def)

lemma validDomain_normal:
  assumes "validDomain d"
  shows "to_lower (trim_space d) = d" "d \<noteq> []"
proof -
  show ne: "d \<noteq> []" using assms by (auto simp: validDomain_def)
  have ok: "plain_char c \<and> lower_char c = c" if "c \<in> set d" for c
    using split_on_chars [OF that, of "CHR ''.''"] assms domain_char_plain by (auto simp: validDomain_def valid_label_def list_all_iff)
  then have "trim_space d = d" using ne by (intro trim_space_plain) simp
  moreover have "to_lower d = d" using ok by (intro to_lower_plain) (auto simp: list_all_iff plain_char_def)
  ultimately show "to_lower (trim_space d) = d" by simp
qed

lemma valid_domains_accepted:
  assumes "list_all validDomain ds" and "distinct ds"
  shows "set ds \<inter> set acc = {} \<Longrightarrow> public_domains acc ds = Inr (acc @ ds)" "set ds \<inter> set acc = {} \<Longrightarrow> distinct_domains acc ds = Inr (acc @ ds)"
    "nonempty_domains ds = Some ds" "map (\<lambda>d. to_lower (trim_space d)) ds = ds"
  using assms by (induction ds arbitrary: acc) (auto simp: validDomain_normal Let_def)

lemma Open_quiet:
  assumes "trim_space root \<noteq> []" and "0 < so_maxBytes o'" and "0 \<le> so_minFreeBytes o'" and "abspath root = Inr p"
  shows "\<exists>s. Open abspath (\<lambda>_. None) root o' objs entries = Inr s \<and> st_maxBytes s = so_maxBytes o' \<and> st_minFreeBytes s = so_minFreeBytes o'"
  using assms by (simp add: Open_def Let_def syncDirectoryTree_quiet stagingRoot_def objectsRoot_def)

text \<open>
  The environment lets every step that depends on it succeed: the AEAD takes the session key, if one is configured.
\<close>

definition env_works :: "app_env \<Rightarrow> config \<Rightarrow> bool" where
  "env_works env c \<longleftrightarrow> ap_parse env (dc_DSN (cfg_Postgres c)) = None \<and> ap_create env = None \<and> is_ok (ap_abspath env (nc_Root (cfg_Content c))) \<and>
     ap_flt env = (\<lambda>_. None) \<and> (bc_Key (cfg_BrowserSession c) \<noteq> [] \<longrightarrow> is_ok (ap_aead env (bc_Key (cfg_BrowserSession c)))) \<and> passwordSaltBytes \<le> length (ap_random env)"

lemma is_ok_Inr: "is_ok r \<longleftrightarrow> (\<exists>x. r = Inr x)"
  by (cases r) auto

lemma pool_opens:
  assumes "Validate c = []" and "env_works env c"
  shows "\<exists>p. openPostgresPool (ap_parse env) (ap_create env) (cfg_Postgres c) = Inr p"
proof -
  have "dc_DSN (cfg_Postgres c) \<noteq> []" using assms(1) by (auto simp: Validate_parts validate_postgres_def reject_def split: if_splits)
  then show ?thesis using assms by (auto simp: openPostgresPool_def OpenPool_def env_works_def Validate_parts validate_postgres_def reject_def split: if_splits)
qed

lemma validated_parts:
  assumes "Validate c = []"
  shows "\<exists>r. NewDeliveryRepositoryWithLimits True \<lparr>li_messages = ic_MaxMessages (cfg_Inbox c), li_storage = ic_MaxStorageBytes (cfg_Inbox c)\<rparr> = Inr r"
    "\<exists>p. NewParser (DefaultLimits\<lparr>MaxRawBytes := lc_MaxMessageBytes (cfg_LMTP c)\<rparr>) = Inr p"
    "\<exists>w. NewParserWorker True True True True (worker_options (cfg_Parser c)) = Inr w"
    "\<exists>r. new_retention (cfg_Cleanup c) = Inr r"
    "\<exists>s. NewServer (lmtp_options (cfg_LMTP c)) True True True = Inr s"
proof -
  have v: "validate_inbox (cfg_LMTP c) (cfg_Inbox c) = []" "validate_lmtp (cfg_LMTP c) = []" "validate_parser (cfg_Parser c) = []"
    "validate_cleanup (cfg_ShutdownTimeout c) (cfg_Cleanup c) = []" using assms by (auto simp: Validate_parts)
  have lmtp: "0 < lc_MaxMessageBytes (cfg_LMTP c)" using v(2) by (simp add: validate_lmtp_def reject_Nil)
  show "\<exists>r. NewDeliveryRepositoryWithLimits True \<lparr>li_messages = ic_MaxMessages (cfg_Inbox c), li_storage = ic_MaxStorageBytes (cfg_Inbox c)\<rparr> = Inr r"
    using v(1) lmtp by (simp add: NewDeliveryRepositoryWithLimits_def validate_inbox_def reject_Nil)
  show "\<exists>p. NewParser (DefaultLimits\<lparr>MaxRawBytes := lc_MaxMessageBytes (cfg_LMTP c)\<rparr>) = Inr p"
  proof -
    have "limits_validate (DefaultLimits\<lparr>MaxRawBytes := lc_MaxMessageBytes (cfg_LMTP c)\<rparr>) = Inr ()" using lmtp by (simp add: limits_validate_ok DefaultLimits_def)
    then show ?thesis by (simp add: NewParser_def)
  qed
  show "\<exists>w. NewParserWorker True True True True (worker_options (cfg_Parser c)) = Inr w"
    using v(3) by (simp add: NewParserWorker_def worker_options_def validate_parser_def reject_Nil)
  show "\<exists>r. new_retention (cfg_Cleanup c) = Inr r"
    using v(4) by (auto simp: new_retention_def NewRetention_def NewRetentionSweeper_def validate_cleanup_def reject_Nil)
  show "\<exists>s. NewServer (lmtp_options (cfg_LMTP c)) True True True = Inr s"
    using v(2) by (simp add: NewServer_def lmtp_options_def validate_lmtp_def reject_Nil)
qed

lemma validated_domains:
  assumes "Validate c = []"
  shows "list_all validDomain (ic_PublicDomains (cfg_Inbox c))" "distinct (ic_PublicDomains (cfg_Inbox c))" "ic_PublicDomains (cfg_Inbox c) \<noteq> []"
    "0 < ic_DefaultTTL (cfg_Inbox c)" "ic_DefaultTTL (cfg_Inbox c) \<le> ic_MaxTTL (cfg_Inbox c)"
proof -
  have "validate_inbox (cfg_LMTP c) (cfg_Inbox c) = []" using assms by (simp add: Validate_parts)
  then show "list_all validDomain (ic_PublicDomains (cfg_Inbox c))" "distinct (ic_PublicDomains (cfg_Inbox c))" "ic_PublicDomains (cfg_Inbox c) \<noteq> []"
    "0 < ic_DefaultTTL (cfg_Inbox c)" "ic_DefaultTTL (cfg_Inbox c) \<le> ic_MaxTTL (cfg_Inbox c)"
    by (simp_all add: validate_inbox_def reject_Nil domain_errors_Nil)
qed

lemma validated_services:
  assumes v: "Validate c = []" and env: "env_works env c"
  shows "NewMailboxService True True True \<lparr>mo_PublicDomains = ic_PublicDomains (cfg_Inbox c), mo_DefaultTTL = ic_DefaultTTL (cfg_Inbox c),
      mo_MaxTTL = ic_MaxTTL (cfg_Inbox c), mo_has_parser = True\<rparr> = Inr \<lparr>sv_domains = ic_PublicDomains (cfg_Inbox c),
      sv_default_ttl = ic_DefaultTTL (cfg_Inbox c), sv_max_ttl = ic_MaxTTL (cfg_Inbox c), sv_has_parser = True\<rparr>"
    "\<exists>t. with_sessions env (cfg_BrowserSession c) s = Inr t"
    "\<exists>t. with_duck env c u = Inr t" "\<exists>t. with_yyds c u = Inr t" "\<exists>t. with_cloudflare c u = Inr t"
proof -
  note d = validated_domains [OF v]
  have accepted: "public_domains [] (ic_PublicDomains (cfg_Inbox c)) = Inr (ic_PublicDomains (cfg_Inbox c))"
    "distinct_domains [] (ic_PublicDomains (cfg_Inbox c)) = Inr (ic_PublicDomains (cfg_Inbox c))"
    "nonempty_domains (ic_PublicDomains (cfg_Inbox c)) = Some (ic_PublicDomains (cfg_Inbox c))"
    using valid_domains_accepted(1-3) [OF d(1,2)] by simp_all
  have access: "validate_access (cfg_CreateQuota c) (cfg_Compatibility c) (cfg_BrowserSession c) = []" using v by (simp add: Validate_parts)
  show "NewMailboxService True True True \<lparr>mo_PublicDomains = ic_PublicDomains (cfg_Inbox c), mo_DefaultTTL = ic_DefaultTTL (cfg_Inbox c),
      mo_MaxTTL = ic_MaxTTL (cfg_Inbox c), mo_has_parser = True\<rparr> = Inr \<lparr>sv_domains = ic_PublicDomains (cfg_Inbox c),
      sv_default_ttl = ic_DefaultTTL (cfg_Inbox c), sv_max_ttl = ic_MaxTTL (cfg_Inbox c), sv_has_parser = True\<rparr>"
    using accepted(1) d(3-5) by (simp add: NewMailboxService_def)
  show "\<exists>t. with_sessions env (cfg_BrowserSession c) s = Inr t"
    using access env by (auto simp: with_sessions_def NewBrowserSessionManager_def validate_access_def reject_Nil env_works_def is_ok_Inr second_ns_def)
  show "\<exists>t. with_duck env c u = Inr t"
    using d(3-5) env by (auto simp: with_duck_def NewDuckService_def hashPassword_def read_full_def env_works_def Let_def)
  show "\<exists>t. with_yyds c u = Inr t" using d(3) accepted(3) by (simp add: with_yyds_def NewYYDSService_def)
  show "\<exists>t. with_cloudflare c u = Inr t" using d(3) accepted(2) by (simp add: with_cloudflare_def NewCloudflareTempService_def)
qed

lemma compose_outcome:
  assumes v: "Validate c = []" and env: "env_works env c"
  shows "(if length (qc_HMACKey (cfg_CreateQuota c)) = 32 then \<exists>a. compose env c pool = Inr a
     else compose env c pool = Inl (OtherError ''create quota HMAC key must contain exactly 32 bytes''))"
proof -
  let ?root = "nc_Root (cfg_Content c)" and ?o = "\<lparr>so_maxBytes = nc_MaxBytes (cfg_Content c), so_minFreeBytes = nc_MinFreeBytes (cfg_Content c)\<rparr>"
  have content: "trim_space ?root \<noteq> []" "0 < so_maxBytes ?o" "0 \<le> so_minFreeBytes ?o"
    using v by (auto simp: Validate_parts validate_content_def validate_lmtp_def reject_Nil)
  obtain p where p: "ap_abspath env ?root = Inr p" using env by (auto simp: env_works_def is_ok_Inr)
  obtain store where store: "Open (ap_abspath env) (ap_flt env) ?root ?o (ap_objects env) (ap_staged env) = Inr store"
    using Open_quiet [where abspath = "ap_abspath env", OF content p] env by (auto simp: env_works_def)
  have limit: "0 < qc_DailyLimit (cfg_CreateQuota c)" "qc_DailyLimit (cfg_CreateQuota c) \<le> 1000000"
    using v by (auto simp: Validate_parts validate_access_def reject_Nil)
  obtain r p' w t l where parts: "NewDeliveryRepositoryWithLimits True \<lparr>li_messages = ic_MaxMessages (cfg_Inbox c), li_storage = ic_MaxStorageBytes (cfg_Inbox c)\<rparr> = Inr r"
    "NewParser (DefaultLimits\<lparr>MaxRawBytes := lc_MaxMessageBytes (cfg_LMTP c)\<rparr>) = Inr p'"
    "NewParserWorker True True True True (worker_options (cfg_Parser c)) = Inr w" "new_retention (cfg_Cleanup c) = Inr t"
    "NewServer (lmtp_options (cfg_LMTP c)) True True True = Inr l" using validated_parts [OF v] by blast
  note services = validated_services [OF v env]
  show ?thesis
  proof (cases "length (qc_HMACKey (cfg_CreateQuota c)) = 32")
    case True
    have later: "\<exists>a. and_then (with_sessions env (cfg_BrowserSession c) s) (\<lambda>h1. and_then (with_duck env c (f h1)) (\<lambda>h2.
        and_then (with_yyds c h2) (\<lambda>h3. and_then (with_cloudflare c h3) (\<lambda>h4. Inr (g h4))))) = Inr a" for s f and g :: "compat_server \<Rightarrow> app"
      using services(2-5) by (fastforce simp: and_then_Inr)
    have "\<exists>a. compose env c pool = Inr a"
      unfolding compose_def store parts services(1) and_then_simps NewReceiver_def NewQuotaService_def Let_def
      using True limit later by simp
    then show ?thesis using True by simp
  next
    case False
    then show ?thesis unfolding compose_def store parts by (simp add: NewReceiver_def NewQuotaService_def)
  qed
qed

section \<open>Properties of the composition\<close>

text \<open>
  C23. A configuration that validates composes exactly if it has a key for the creation quota: if connection pool, content directory and
  random source work and the AEAD takes the configured session key (without one there are no sessions and no AEAD is made), the application is created when the key has 32 bytes; without a key, which validation accepts, it is refused,
  and no pool is left open.
\<close>

theorem validated_configuration_composes:
  assumes "Validate c = []" and "env_works env c"
  shows "(if length (qc_HMACKey (cfg_CreateQuota c)) = 32 then \<exists>a. app_New env c True = (Inr a, True)
     else qc_HMACKey (cfg_CreateQuota c) = [] \<and> app_New env c True = (Inl (OtherError ''create quota HMAC key must contain exactly 32 bytes''), False))"
proof -
  obtain p where p: "openPostgresPool (ap_parse env) (ap_create env) (cfg_Postgres c) = Inr p" using pool_opens [OF assms] by blast
  have "length (qc_HMACKey (cfg_CreateQuota c)) = 32 \<or> qc_HMACKey (cfg_CreateQuota c) = []"
    using assms(1) by (auto simp: Validate_parts validate_access_def reject_Nil)
  then show ?thesis using compose_outcome [OF assms, of p] p by (auto simp: app_New_def split: if_splits)
qed

lemma Open_limits: "Open abspath flt root o' objs entries = Inr s \<Longrightarrow> st_maxBytes s = so_maxBytes o' \<and> st_minFreeBytes s = so_minFreeBytes o'"
  by (auto simp: Open_def Let_def split: if_splits sum.splits)

lemma NewMailboxService_domains:
  "NewMailboxService True True True o' = Inr sv \<Longrightarrow> list_all validDomain (mo_PublicDomains o') \<Longrightarrow> distinct (mo_PublicDomains o') \<Longrightarrow> sv_domains sv = mo_PublicDomains o'"
  using valid_domains_accepted(1) [of "mo_PublicDomains o'" "[]"] by (auto simp: NewMailboxService_def split: if_splits)

lemma optional_parts:
  "with_sessions env b s = Inr t \<Longrightarrow> hs_quota t = hs_quota s \<and> hs_mailbox t = hs_mailbox s \<and> hs_ready t = hs_ready s \<and> (hs_sessions s = None \<longrightarrow> (hs_sessions t = None \<longleftrightarrow> bc_Key b = []))"
  "with_duck env c u = Inr w \<Longrightarrow> cs_http w = cs_http u \<and> cs_yyds w = cs_yyds u \<and> cs_cf w = cs_cf u \<and> (cs_duck u = None \<longrightarrow> (cs_duck w \<noteq> None \<longleftrightarrow> cc_DuckMailEnabled (cfg_Compatibility c)))"
  "with_yyds c u = Inr w \<Longrightarrow> cs_http w = cs_http u \<and> cs_duck w = cs_duck u \<and> cs_cf w = cs_cf u \<and> (cs_yyds u = None \<longrightarrow> (cs_yyds w \<noteq> None \<longleftrightarrow> cc_YYDSEnabled (cfg_Compatibility c)))"
  "with_cloudflare c u = Inr w \<Longrightarrow> cs_http w = cs_http u \<and> cs_duck w = cs_duck u \<and> cs_yyds w = cs_yyds u \<and> (cs_cf u = None \<longrightarrow> (cs_cf w \<noteq> None \<longleftrightarrow> cc_CloudflareTempEnabled (cfg_Compatibility c)))"
  by (auto simp: with_sessions_def with_duck_def with_yyds_def with_cloudflare_def and_then_Inr SetBrowserSessions_def split: if_splits)

lemma compose_parts:
  assumes "compose env c pool = Inr a"
  obtains quota server where
    "st_maxBytes (app_store a) = nc_MaxBytes (cfg_Content c)" "st_minFreeBytes (app_store a) = nc_MinFreeBytes (cfg_Content c)"
    "app_repository a = \<lparr>li_messages = ic_MaxMessages (cfg_Inbox c), li_storage = ic_MaxStorageBytes (cfg_Inbox c)\<rparr>"
    "app_parser a = DefaultLimits\<lparr>MaxRawBytes := lc_MaxMessageBytes (cfg_LMTP c)\<rparr>" "limits_validate (app_parser a) = Inr ()"
    "NewMailboxService True True True \<lparr>mo_PublicDomains = ic_PublicDomains (cfg_Inbox c), mo_DefaultTTL = ic_DefaultTTL (cfg_Inbox c),
       mo_MaxTTL = ic_MaxTTL (cfg_Inbox c), mo_has_parser = True\<rparr> = Inr (app_mailbox a)"
    "app_parserWorker a = worker_options (cfg_Parser c)" "new_retention (cfg_Cleanup c) = Inr (app_retention a)"
    "app_lmtp a = lmtp_options (cfg_LMTP c)" "NewServer (lmtp_options (cfg_LMTP c)) True True True = Inr (app_lmtp a)"
    "with_sessions env (cfg_BrowserSession c) (SetCreateQuota quota (SetMailboxService (app_mailbox a) True (SetReadinessChecker True (NewHttpServer (cfg_HTTP c))))) = Inr server"
    "cs_http (app_http a) = server" "cs_duck (app_http a) \<noteq> None \<longleftrightarrow> cc_DuckMailEnabled (cfg_Compatibility c)"
    "cs_yyds (app_http a) \<noteq> None \<longleftrightarrow> cc_YYDSEnabled (cfg_Compatibility c)" "cs_cf (app_http a) \<noteq> None \<longleftrightarrow> cc_CloudflareTempEnabled (cfg_Compatibility c)"
proof -
  obtain store repository quota parser mb worker ret lm h1 h2 h3 h4 where
    store: "Open (ap_abspath env) (ap_flt env) (nc_Root (cfg_Content c)) \<lparr>so_maxBytes = nc_MaxBytes (cfg_Content c), so_minFreeBytes = nc_MinFreeBytes (cfg_Content c)\<rparr> (ap_objects env) (ap_staged env) = Inr store"
    and rep: "NewDeliveryRepositoryWithLimits True \<lparr>li_messages = ic_MaxMessages (cfg_Inbox c), li_storage = ic_MaxStorageBytes (cfg_Inbox c)\<rparr> = Inr repository"
    and par: "NewParser (DefaultLimits\<lparr>MaxRawBytes := lc_MaxMessageBytes (cfg_LMTP c)\<rparr>) = Inr parser"
    and mb: "NewMailboxService True True True \<lparr>mo_PublicDomains = ic_PublicDomains (cfg_Inbox c), mo_DefaultTTL = ic_DefaultTTL (cfg_Inbox c),
       mo_MaxTTL = ic_MaxTTL (cfg_Inbox c), mo_has_parser = True\<rparr> = Inr mb"
    and wk: "NewParserWorker True True True True (worker_options (cfg_Parser c)) = Inr worker" and ret: "new_retention (cfg_Cleanup c) = Inr ret"
    and lm: "NewServer (lmtp_options (cfg_LMTP c)) True True True = Inr lm"
    and h1: "with_sessions env (cfg_BrowserSession c) (SetCreateQuota quota (SetMailboxService mb True (SetReadinessChecker True (NewHttpServer (cfg_HTTP c))))) = Inr h1"
    and h2: "with_duck env c \<lparr>cs_http = h1, cs_duck = None, cs_yyds = None, cs_cf = None, cs_legacy = False\<rparr> = Inr h2"
    and h3: "with_yyds c h2 = Inr h3" and h4: "with_cloudflare c h3 = Inr h4"
    and a: "a = \<lparr>app_config = c, app_http = h4, app_lmtp = lm, app_pool = pool, app_repository = repository, app_parserWorker = worker,
      app_retention = ret, app_mailbox = mb, app_parser = parser, app_store = store\<rparr>"
    using assms unfolding compose_def and_then_Inr Let_def by blast
  have h: "cs_http h4 = h1" "cs_duck h4 = cs_duck h2" "cs_yyds h4 = cs_yyds h3" "cs_yyds h2 = None" "cs_cf h3 = None"
    using optional_parts(2) [OF h2] optional_parts(3) [OF h3] optional_parts(4) [OF h4] by simp_all
  show ?thesis
  proof (rule that [of quota h1])
    show "limits_validate (app_parser a) = Inr ()" "app_parser a = DefaultLimits\<lparr>MaxRawBytes := lc_MaxMessageBytes (cfg_LMTP c)\<rparr>" using par a by (auto simp: NewParser_def split: sum.splits)
    show "app_repository a = \<lparr>li_messages = ic_MaxMessages (cfg_Inbox c), li_storage = ic_MaxStorageBytes (cfg_Inbox c)\<rparr>" using rep a by (auto simp: NewDeliveryRepositoryWithLimits_def split: if_splits)
    show "app_parserWorker a = worker_options (cfg_Parser c)" using wk a by (auto simp: NewParserWorker_def split: if_splits)
    show "app_lmtp a = lmtp_options (cfg_LMTP c)" using lm a by (auto simp: NewServer_def split: if_splits)
  qed (use Open_limits [OF store] mb ret lm h1 h a optional_parts(2) [OF h2] optional_parts(3) [OF h3] optional_parts(4) [OF h4] in auto)
qed

text \<open>
  The limits of a running process fit together. Of an application composed from a validated configuration: the options of the LMTP
  server are admissible, and a message it accepts is not larger than what the content store takes as one object, what the parser reads, what an
  empty inbox may hold and what the disk keeps free; the lease of the parser worker is longer than its timeout; all ways in offer the
  same domains; the quota and the mailbox service are those of the HTTP server, which is not ready yet; sessions, adapters and the
  retention job are present exactly if they are configured.
\<close>

theorem composed_limits_fit:
  assumes "Validate c = []" and "app_New env c True = (Inr a, True)"
  shows "options_ok (app_lmtp a) \<and> op_maxMessage (app_lmtp a) \<le> st_maxBytes (app_store a) \<and> op_maxMessage (app_lmtp a) \<le> MaxRawBytes (app_parser a) \<and>
     op_maxMessage (app_lmtp a) \<le> li_storage (app_repository a) \<and> op_maxMessage (app_lmtp a) \<le> st_minFreeBytes (app_store a) \<and> 0 < li_messages (app_repository a) \<and>
     po_ParseTimeout (app_parserWorker a) < po_LeaseDuration (app_parserWorker a) \<and> sv_domains (app_mailbox a) = ic_PublicDomains (cfg_Inbox c) \<and>
     hs_mailbox (cs_http (app_http a)) = Some (app_mailbox a) \<and> hs_quota (cs_http (app_http a)) \<noteq> None \<and> \<not> hs_ready (cs_http (app_http a)) \<and>
     (hs_sessions (cs_http (app_http a)) = None \<longleftrightarrow> bc_Key (cfg_BrowserSession c) = []) \<and>
     (cs_duck (app_http a) = None \<longleftrightarrow> \<not> cc_DuckMailEnabled (cfg_Compatibility c)) \<and> (cs_yyds (app_http a) = None \<longleftrightarrow> \<not> cc_YYDSEnabled (cfg_Compatibility c)) \<and>
     (cs_cf (app_http a) = None \<longleftrightarrow> \<not> cc_CloudflareTempEnabled (cfg_Compatibility c)) \<and> (app_retention a = None \<longleftrightarrow> kc_Interval (cfg_Cleanup c) = 0)"
proof -
  obtain pool where "compose env c pool = Inr a" using assms(2) by (auto simp: app_New_def split: sum.splits)
  then show ?thesis
  proof (cases rule: compose_parts)
    case (1 quota server)
    have v: "validate_inbox (cfg_LMTP c) (cfg_Inbox c) = []" "validate_lmtp (cfg_LMTP c) = []" "validate_content (cfg_LMTP c) (cfg_Content c) = []"
      "validate_parser (cfg_Parser c) = []" "validate_cleanup (cfg_ShutdownTimeout c) (cfg_Cleanup c) = []" using assms(1) by (auto simp: Validate_parts)
    have "options_ok (app_lmtp a)" using v(2) 1(9) by (simp add: options_ok_def lmtp_options_def validate_lmtp_def reject_Nil)
    moreover have "op_maxMessage (app_lmtp a) \<le> st_maxBytes (app_store a)" "op_maxMessage (app_lmtp a) \<le> st_minFreeBytes (app_store a)"
      using v(3) 1(1,2,9) by (simp_all add: lmtp_options_def validate_content_def reject_Nil)
    moreover have "op_maxMessage (app_lmtp a) \<le> MaxRawBytes (app_parser a)" using 1(4,9) by (simp add: lmtp_options_def)
    moreover have "op_maxMessage (app_lmtp a) \<le> li_storage (app_repository a)" "0 < li_messages (app_repository a)"
      using v(1) 1(3,9) by (simp_all add: lmtp_options_def validate_inbox_def reject_Nil)
    moreover have "po_ParseTimeout (app_parserWorker a) < po_LeaseDuration (app_parserWorker a)" using v(4) 1(7) by (simp add: worker_options_def validate_parser_def reject_Nil)
    moreover have "sv_domains (app_mailbox a) = ic_PublicDomains (cfg_Inbox c)" using NewMailboxService_domains [OF 1(6)] validated_domains [OF assms(1)] by simp
    moreover have "app_retention a = None \<longleftrightarrow> kc_Interval (cfg_Cleanup c) = 0"
      using v(5) 1(8) by (auto simp: new_retention_def and_then_Inr validate_cleanup_def reject_Nil split: if_splits; metis)
    moreover have "cs_duck (app_http a) = None \<longleftrightarrow> \<not> cc_DuckMailEnabled (cfg_Compatibility c)" "cs_yyds (app_http a) = None \<longleftrightarrow> \<not> cc_YYDSEnabled (cfg_Compatibility c)"
      "cs_cf (app_http a) = None \<longleftrightarrow> \<not> cc_CloudflareTempEnabled (cfg_Compatibility c)" using 1(13-15) by blast+
    ultimately show ?thesis using 1(12) optional_parts(1) [OF 1(11)] by (simp add: SetCreateQuota_def SetMailboxService_def SetReadinessChecker_def NewHttpServer_def)
  qed
qed

section \<open>Running\<close>

text \<open>\<^verbatim>\<open>wakingReceiver.Receive\<close>: the result, the new state, and whether the parser worker is woken.\<close>

definition wakingReceiver_Receive where
  "wakingReceiver_Receive sha256 canon lim ctx sender recipients raw env w =
     (case Receive sha256 canon lim ctx sender recipients raw env w of (r, w') \<Rightarrow> ((r, w'), is_ok r))"

type_synonym service_result = "string \<times> go_error option"

text \<open>The errors \<^verbatim>\<open>Run\<close> joins; the empty list is \<^verbatim>\<open>nil\<close>.\<close>

datatype run_error =
    NotReady go_error
  | NoLease go_error
  | NoListener go_error
  | StoppedUnexpectedly string
  | ServiceFailed string go_error
  | HTTPShutdownFailed go_error
  | FailedDuringShutdown string go_error
  | ShutdownDeadline
  | LeaseNotReleased go_error

definition unexpectedServiceError :: "service_result \<Rightarrow> run_error" where
  "unexpectedServiceError r = (case snd r of None \<Rightarrow> StoppedUnexpectedly (fst r) | Some e \<Rightarrow> ServiceFailed (fst r) e)"

definition stoppedServiceError :: "service_result \<Rightarrow> run_error list" where
  "stoppedServiceError r =
     (case snd r of
        None \<Rightarrow> []
      | Some e \<Rightarrow> if fst r = ''http'' \<and> e = ErrServerClosed then [] else [FailedDuringShutdown (fst r) e])"

text \<open>
  What happens around \<^verbatim>\<open>Run\<close>: the errors of the start, the first event (the cancellation, or the result of a service and
  whether the context was done when it was read), the error of the shutdown of the HTTP server, the results that arrive before the shutdown
  deadline, and the error of releasing the lease.
\<close>

datatype first_event = Cancelled | FirstResult service_result bool

record run_env =
  ru_ready :: "go_error option"
  ru_lease :: "go_error option"
  ru_listen :: "go_error option"
  ru_first :: first_event
  ru_shutdown :: "go_error option"
  ru_results :: "service_result list"
  ru_release :: "go_error option"

fun collect :: "nat \<Rightarrow> service_result list \<Rightarrow> run_error list \<Rightarrow> run_error list" where
  "collect 0 rs errs = errs"
| "collect (Suc n) [] errs = errs @ [ShutdownDeadline]"
| "collect (Suc n) (r # rs) errs = collect n rs (errs @ stoppedServiceError r)"

definition await_services :: "nat \<Rightarrow> run_env \<Rightarrow> run_error list" where
  "await_services serviceCount env =
     (let (runError, received) =
            (case ru_first env of
               Cancelled \<Rightarrow> ([], 0)
             | FirstResult r done \<Rightarrow> (if done then ([], 1) else ([unexpectedServiceError r], 1)));
          runError2 = runError @ (case ru_shutdown env of None \<Rightarrow> [] | Some e \<Rightarrow> [HTTPShutdownFailed e]) in
      collect (serviceCount - received) (ru_results env) runError2)"

text \<open>The joined errors, and whether the lease was acquired and then released.\<close>

definition Run :: "app \<Rightarrow> run_env \<Rightarrow> run_error list" where
  "Run a env =
     (case ru_ready env of
        Some e \<Rightarrow> [NotReady e]
      | None \<Rightarrow>
          (case ru_lease env of
             Some e \<Rightarrow> [NoLease e]
           | None \<Rightarrow>
               (case ru_listen env of
                  Some e \<Rightarrow> [NoListener e]
                | None \<Rightarrow> await_services (if app_retention a \<noteq> None then 4 else 3) env) @
               (case ru_release env of None \<Rightarrow> [] | Some e \<Rightarrow> [LeaseNotReleased e])))"

lemma collect_nil:
  "collect n rs errs = [] \<longleftrightarrow> errs = [] \<and> n \<le> length rs \<and> (\<forall>r \<in> set (take n rs). stoppedServiceError r = [])"
proof (induction n rs errs rule: collect.induct)
  case (3 n r rs errs)
  then show ?case by auto
qed auto

text \<open>
  C24. \<^verbatim>\<open>Run\<close> reports success exactly after an orderly shutdown: the start succeeded, the shutdown was requested, the HTTP server shut down
  without an error, each service that was waited for stopped before the deadline and without an error other than the one a closed HTTP
  server reports, and the lease was released. A service whose result is read first while no shutdown has been requested makes it
  fail, with or without an error; a result that is read first when the shutdown has been requested is counted as stopped and not looked at,
  so an error in it is lost.
\<close>

theorem Run_succeeds_iff_orderly:
  "Run a env = [] \<longleftrightarrow> ru_ready env = None \<and> ru_lease env = None \<and> ru_listen env = None \<and> ru_shutdown env = None \<and> ru_release env = None \<and>
     (let services = (if app_retention a = None then 3 else 4);
          awaited = (case ru_first env of Cancelled \<Rightarrow> services | FirstResult r done \<Rightarrow> services - 1) in
      (case ru_first env of Cancelled \<Rightarrow> True | FirstResult r done \<Rightarrow> done) \<and> awaited \<le> length (ru_results env) \<and>
      (\<forall>r \<in> set (take awaited (ru_results env)). snd r = None \<or> r = (''http'', Some ErrServerClosed)))"
proof -
  have stopped: "stoppedServiceError r = [] \<longleftrightarrow> snd r = None \<or> r = (''http'', Some ErrServerClosed)" for r
    by (cases r) (auto simp: stoppedServiceError_def split: option.splits)
  show ?thesis
    by (auto simp: Run_def await_services_def Let_def collect_nil stopped split: option.split first_event.split)
qed

text \<open>
  An error of a service can be lost at shutdown: when the context is done and the result of a service is read first, \<^verbatim>\<open>Run\<close> counts the
  result without looking at it, and returns no error although the service failed; read one event later, the same result is reported.
\<close>

theorem shutdown_loses_service_error:
  "let failed = (''parser'', Some (OtherError ''queue failed'')); others = [(''http'', Some ErrServerClosed), (''lmtp'', None)];
       env = \<lparr>ru_ready = None, ru_lease = None, ru_listen = None, ru_first = FirstResult failed True, ru_shutdown = None,
         ru_results = others, ru_release = None\<rparr> in
   await_services 3 env = [] \<and>
   await_services 3 (env\<lparr>ru_first := Cancelled, ru_results := failed # others\<rparr>) = [FailedDuringShutdown ''parser'' (OtherError ''queue failed'')]"
  by (simp add: await_services_def stoppedServiceError_def numeral_eq_Suc)

section \<open>Witnesses\<close>

definition keyed_config :: config where
  "keyed_config = (default_config sample_dsn)\<lparr>cfg_CreateQuota := \<lparr>qc_DailyLimit = 100, qc_HMACKey = replicate 32 CHR ''k''\<rparr>,
     cfg_BrowserSession := \<lparr>bc_Key = replicate 32 CHR ''s'', bc_Lifetime = hours 12\<rparr>\<rparr>"

definition working_env :: app_env where
  "working_env = \<lparr>ap_parse = (\<lambda>_. None), ap_create = None, ap_abspath = (\<lambda>r. Inr [r]), ap_flt = (\<lambda>_. None), ap_objects = Map.empty, ap_staged = [],
     ap_aead = (\<lambda>k. if length k \<in> {16, 24, 32} then Inr sample_aead else Inl (OtherError ''crypto/aes: invalid key size'')), ap_idkey = (\<lambda>p s t m n k. replicate k CHR ''h''), ap_random = replicate 16 CHR ''r''\<rparr>"

lemma keyed_config_valid: "Validate keyed_config = []"
  using default_config_valid [OF sample_dsn_given] by (simp add: Validate_parts keyed_config_def validate_access_def reject_Nil)

lemma working_env_works: "env_works working_env keyed_config"
  by (simp add: env_works_def working_env_def keyed_config_def passwordSaltBytes_def)

lemma keyed_key: "length (qc_HMACKey (cfg_CreateQuota keyed_config)) = 32"
  by (simp add: keyed_config_def)

lemma keyed_app: obtains a where "app_New working_env keyed_config True = (Inr a, True)"
proof -
  obtain pool where p: "openPostgresPool (ap_parse working_env) (ap_create working_env) (cfg_Postgres keyed_config) = Inr pool"
    using pool_opens [OF keyed_config_valid working_env_works] by blast
  obtain a where "compose working_env keyed_config pool = Inr a" using compose_outcome [OF keyed_config_valid working_env_works, of pool] keyed_key by auto
  then show ?thesis using p that by (simp add: app_New_def)
qed

theorem validated_configuration_composes_witness:
  "Validate keyed_config = [] \<and> (\<exists>a. app_New working_env keyed_config True = (Inr a, True))"
  using validated_configuration_composes [OF keyed_config_valid working_env_works] keyed_config_valid keyed_key by simp

theorem composed_limits_fit_witness:
  "\<exists>a. app_New working_env keyed_config True = (Inr a, True) \<and> op_maxMessage (app_lmtp a) \<le> st_maxBytes (app_store a)"
proof -
  obtain a where a: "app_New working_env keyed_config True = (Inr a, True)" by (rule keyed_app)
  then show ?thesis using composed_limits_fit [OF keyed_config_valid a] by blast
qed

text \<open>A run that ends with an orderly shutdown, whether or not there is a retention job.\<close>

definition orderly_run :: run_env where
  "orderly_run = \<lparr>ru_ready = None, ru_lease = None, ru_listen = None, ru_first = Cancelled, ru_shutdown = None,
     ru_results = [(''http'', Some ErrServerClosed), (''lmtp'', None), (''parser'', None), (''retention'', None)], ru_release = None\<rparr>"

theorem Run_succeeds_iff_orderly_witness: "\<exists>a. app_New working_env keyed_config True = (Inr a, True) \<and> Run a orderly_run = []"
proof -
  obtain a where a: "app_New working_env keyed_config True = (Inr a, True)" by (rule keyed_app)
  have "Run a orderly_run = []" unfolding Run_succeeds_iff_orderly [of a orderly_run] by (auto simp: orderly_run_def Let_def)
  then show ?thesis using a by blast
qed

end
