(* ===== verification/Maintenance_Lease.thy ===== *)
theory Maintenance_Lease
  imports App_Composition Content_Reconcile
begin

text \<open>
  \<^verbatim>\<open>postgres/maintenance_lease.go\<close> and the commands that run under the lease, \<^verbatim>\<open>app/cleanup.go\<close> and
  \<^verbatim>\<open>app/reconcile.go\<close>. A lease is a PostgreSQL session that holds one advisory lock; the lock belongs to the session and
  goes with it.
\<close>

section \<open>The lease\<close>

type_synonym session_id = nat

record lock_state =
  lk_sessions :: "session_id set"
  lk_holder :: "session_id option"

text \<open>\<^verbatim>\<open>pg_try_advisory_lock\<close>, \<^verbatim>\<open>pg_advisory_unlock\<close> and the end of a session.\<close>

definition try_lock :: "session_id \<Rightarrow> lock_state \<Rightarrow> bool \<times> lock_state" where
  "try_lock s lk = (if lk_holder lk = None \<or> lk_holder lk = Some s then (True, lk\<lparr>lk_holder := Some s\<rparr>) else (False, lk))"

definition unlock :: "session_id \<Rightarrow> lock_state \<Rightarrow> bool \<times> lock_state" where
  "unlock s lk = (if lk_holder lk = Some s then (True, lk\<lparr>lk_holder := None\<rparr>) else (False, lk))"

definition close_session :: "session_id \<Rightarrow> lock_state \<Rightarrow> lock_state" where
  "close_session s lk = lk\<lparr>lk_sessions := lk_sessions lk - {s}, lk_holder := (if lk_holder lk = Some s then None else lk_holder lk)\<rparr>"

record lease_env =
  le_connect :: "go_error option"
  le_session :: session_id
  le_query :: fault

text \<open>
  \<^verbatim>\<open>AcquireServiceLease\<close> and \<^verbatim>\<open>TryAcquireMaintenanceLease\<close> differ in the texts of their errors only. A query whose answer is
  lost may have taken the lock; the session is closed then.
\<close>

definition acquire_lease :: "string \<Rightarrow> lease_env \<Rightarrow> lock_state \<Rightarrow> session_id result \<times> lock_state" where
  "acquire_lease dsn env lk =
     (if trim_space dsn = [] then (Inl (OtherError ''postgres DSN is required''), lk)
      else case le_connect env of
          Some e \<Rightarrow> (Inl e, lk)
        | None \<Rightarrow>
            let s = le_session env; lk1 = lk\<lparr>lk_sessions := insert s (lk_sessions lk)\<rparr> in
            (case le_query env of
               Fail e \<Rightarrow> (Inl e, close_session s lk1)
             | LostAck e \<Rightarrow> (Inl e, close_session s (snd (try_lock s lk1)))
             | NoFault \<Rightarrow> (case try_lock s lk1 of
                   (True, lk2) \<Rightarrow> (Inr s, lk2)
                 | (False, lk2) \<Rightarrow> (Inl ErrServiceActive, close_session s lk2))))"

definition AcquireServiceLease :: "string \<Rightarrow> lease_env \<Rightarrow> lock_state \<Rightarrow> session_id result \<times> lock_state" where
  "AcquireServiceLease = acquire_lease"

definition TryAcquireMaintenanceLease :: "string \<Rightarrow> lease_env \<Rightarrow> lock_state \<Rightarrow> session_id result \<times> lock_state" where
  "TryAcquireMaintenanceLease = acquire_lease"

text \<open>
  \<open>conn\<close> is the connection of the lease, absent after a first release; the errors are those of the query and of the close. A close that
  reports an error still closes the network connection in pgx, and PostgreSQL ends the session of a closed connection and frees its locks;
  the model does so at once, where the server may take a moment to notice. Until then the lock is still held, and others are refused it.
\<close>

definition lease_Release :: "session_id option \<Rightarrow> fault \<Rightarrow> go_error option \<Rightarrow> lock_state \<Rightarrow> go_error list \<times> lock_state" where
  "lease_Release conn flt closeErr lk =
     (case conn of
        None \<Rightarrow> ([], lk)
      | Some s \<Rightarrow>
          let closed = (case closeErr of None \<Rightarrow> [] | Some e \<Rightarrow> [e]) in
          (case flt of
             Fail e \<Rightarrow> (e # closed, close_session s lk)
           | LostAck e \<Rightarrow> (e # closed, close_session s (snd (unlock s lk)))
           | NoFault \<Rightarrow> (case unlock s lk of
                 (True, lk1) \<Rightarrow> (closed, close_session s lk1)
               | (False, lk1) \<Rightarrow> (OtherError ''maintenance lease was not held by this session'' # closed, close_session s lk1))))"

section \<open>Commands under the lease\<close>

record maintenance_env =
  mx_app :: app_env
  mx_ready :: "go_error option"
  mx_lease :: lease_env
  mx_release :: fault
  mx_close :: "go_error option"
  mx_scan :: scan_env
  mx_sweep :: sweep_env

text \<open>
  The common frame: logger, pool, readiness, lease, then the work on the opened store, and the release whatever the work
  returned. The result is the joined errors, the result of the work if it ran, and the lock.
\<close>

definition under_lease :: "maintenance_env \<Rightarrow> config \<Rightarrow> bool \<Rightarrow> int \<Rightarrow> (store \<Rightarrow> go_error list \<times> 'a) \<Rightarrow> lock_state \<Rightarrow> go_error list \<times> 'a option \<times> lock_state" where
  "under_lease env c hasLogger minFree work lk =
     (if \<not> hasLogger then ([OtherError ''logger is required''], None, lk)
      else case openPostgresPool (ap_parse (mx_app env)) (ap_create (mx_app env)) (cfg_Postgres c) of
          Inl e \<Rightarrow> ([e], None, lk)
        | Inr _ \<Rightarrow>
            (case mx_ready env of
               Some e \<Rightarrow> ([e], None, lk)
             | None \<Rightarrow>
                 (case TryAcquireMaintenanceLease (dc_DSN (cfg_Postgres c)) (mx_lease env) lk of
                    (Inl e, lk1) \<Rightarrow> ([e], None, lk1)
                  | (Inr s, lk1) \<Rightarrow>
                      let (errs, r) = (case Open (ap_abspath (mx_app env)) (ap_flt (mx_app env)) (nc_Root (cfg_Content c))
                              \<lparr>so_maxBytes = nc_MaxBytes (cfg_Content c), so_minFreeBytes = minFree\<rparr> (ap_objects (mx_app env)) (ap_staged (mx_app env)) of
                            Inl e \<Rightarrow> ([e], None)
                          | Inr store \<Rightarrow> (case work store of (es, x) \<Rightarrow> (es, Some x)));
                          (rel, lk2) = lease_Release (Some s) (mx_release env) (mx_close env) lk1 in
                      (errs @ rel, r, lk2))))"

definition CleanupExpired :: "maintenance_env \<Rightarrow> config \<Rightarrow> bool \<Rightarrow> db \<Rightarrow> lock_state \<Rightarrow> go_error list \<times> (retention_summary \<times> store \<times> db) option \<times> lock_state" where
  "CleanupExpired env c hasLogger d =
     under_lease env c hasLogger (nc_MinFreeBytes (cfg_Content c))
       (\<lambda>store. case NewRetentionSweeper True True True (kc_BatchSize (cfg_Cleanup c)) of
          Inl e \<Rightarrow> ([e], (\<lparr>rs_inboxes = 0, rs_content = 0, rs_pending = 0\<rparr>, store, d))
        | Inr opts \<Rightarrow> (case Sweep (mx_sweep env) (rn_batchSize opts) (store, d) of ((summary, errs), s', d') \<Rightarrow> (errs, (summary, s', d'))))"

definition DefaultReconcileBatchSize :: int where
  "DefaultReconcileBatchSize = 512"

definition ReconcileContent :: "(bytes \<Rightarrow> bytes) \<Rightarrow> maintenance_env \<Rightarrow> config \<Rightarrow> bool \<Rightarrow> bool \<Rightarrow> db \<Rightarrow> lock_state \<Rightarrow> go_error list \<times> scan option \<times> lock_state" where
  "ReconcileContent sha256 env c hasLogger repairOrphans d =
     under_lease env c hasLogger 0
       (\<lambda>store. case Reconcile sha256 True DefaultReconcileBatchSize repairOrphans ((mx_scan env)\<lparr>sx_emit := (\<lambda>f. None)\<rparr>) d store of
          (Some e, st) \<Rightarrow> ([e], st)
        | (None, st) \<Rightarrow> (if Unresolved st > 0 then [ErrInconsistentContent] else [], st))"

section \<open>Exclusion\<close>

text \<open>
  Processes that take and give back leases, each over a new session; \<open>Drop\<close> is a connection that PostgreSQL loses while
  its process runs on. \<open>ex_leases\<close> are the processes that believe they hold the lease, with their sessions.
\<close>

record exclusion =
  ex_lock :: lock_state
  ex_leases :: "string \<rightharpoonup> session_id"

datatype lease_event = Acquire string | Released string | Drop session_id

inductive lease_step :: "exclusion \<Rightarrow> lease_event \<Rightarrow> exclusion \<Rightarrow> bool" where
  acquired: "\<lbrakk>ex_leases x p = None; le_session env \<notin> lk_sessions (ex_lock x); acquire_lease dsn env (ex_lock x) = (Inr s, lk)\<rbrakk>
    \<Longrightarrow> lease_step x (Acquire p) (x\<lparr>ex_lock := lk, ex_leases := (ex_leases x)(p \<mapsto> s)\<rparr>)"
| refused: "\<lbrakk>ex_leases x p = None; le_session env \<notin> lk_sessions (ex_lock x); acquire_lease dsn env (ex_lock x) = (Inl e, lk)\<rbrakk>
    \<Longrightarrow> lease_step x (Acquire p) (x\<lparr>ex_lock := lk\<rparr>)"
| released: "\<lbrakk>ex_leases x p = Some s; lease_Release (Some s) flt closeErr (ex_lock x) = (errs, lk)\<rbrakk>
    \<Longrightarrow> lease_step x (Released p) (x\<lparr>ex_lock := lk, ex_leases := (ex_leases x)(p := None)\<rparr>)"
| dropped: "s \<in> lk_sessions (ex_lock x) \<Longrightarrow> lease_step x (Drop s) (x\<lparr>ex_lock := close_session s (ex_lock x)\<rparr>)"

inductive lease_run :: "exclusion \<Rightarrow> lease_event list \<Rightarrow> exclusion \<Rightarrow> bool" where
  lease_start: "lease_run x [] x"
| lease_more: "\<lbrakk>lease_run x evs y; lease_step y ev z\<rbrakk> \<Longrightarrow> lease_run x (evs @ [ev]) z"

definition no_leases :: exclusion where
  "no_leases = \<lparr>ex_lock = \<lparr>lk_sessions = {}, lk_holder = None\<rparr>, ex_leases = Map.empty\<rparr>"

definition lease_inv :: "exclusion \<Rightarrow> bool" where
  "lease_inv x \<longleftrightarrow> (\<forall>s. lk_holder (ex_lock x) = Some s \<longrightarrow> s \<in> lk_sessions (ex_lock x)) \<and>
     (\<forall>p s. ex_leases x p = Some s \<longrightarrow> lk_holder (ex_lock x) = Some s) \<and>
     (\<forall>p q. ex_leases x p \<noteq> None \<longrightarrow> ex_leases x q \<noteq> None \<longrightarrow> p = q)"

lemma acquire_lease_cases:
  assumes "acquire_lease dsn env lk = (r, lk')" and "le_session env \<notin> lk_sessions lk" and "\<And>s. lk_holder lk = Some s \<Longrightarrow> s \<in> lk_sessions lk"
  shows "(r = Inr (le_session env) \<and> lk_holder lk = None \<and> lk_holder lk' = Some (le_session env) \<and> lk_sessions lk' = insert (le_session env) (lk_sessions lk)) \<or>
    (\<exists>e. r = Inl e \<and> lk_holder lk' = lk_holder lk \<and> lk_sessions lk' = lk_sessions lk)"
  using assms by (auto simp: acquire_lease_def try_lock_def close_session_def Let_def split: if_splits option.splits fault.splits)

lemma lease_Release_closes:
  "lease_Release (Some s) flt closeErr lk = (errs, lk') \<Longrightarrow> lk_sessions lk' = lk_sessions lk - {s} \<and> lk_holder lk' = (if lk_holder lk = Some s then None else lk_holder lk)"
  by (auto simp: lease_Release_def unlock_def close_session_def Let_def split: fault.splits if_splits)

lemma lease_step_inv:
  assumes "lease_step x ev y" and "\<forall>s. ev \<noteq> Drop s" and "lease_inv x"
  shows "lease_inv y"
  using assms(1)
proof (cases rule: lease_step.cases)
  case (acquired p env dsn s lk)
  have "s = le_session env \<and> lk_holder (ex_lock x) = None \<and> lk_holder lk = Some s \<and> lk_sessions lk = insert s (lk_sessions (ex_lock x))"
    using acquire_lease_cases [OF acquired(5,4)] assms(3) by (auto simp: lease_inv_def)
  moreover from this have "ex_leases x q = None" for q using assms(3) by (cases "ex_leases x q") (auto simp: lease_inv_def)
  ultimately show ?thesis using acquired(2) by (auto simp: lease_inv_def)
next
  case (refused p env dsn e lk)
  have "lk_holder lk = lk_holder (ex_lock x) \<and> lk_sessions lk = lk_sessions (ex_lock x)"
    using acquire_lease_cases [OF refused(5,4)] assms(3) by (auto simp: lease_inv_def)
  then show ?thesis using refused(2) assms(3) by (auto simp: lease_inv_def)
next
  case (released p s flt closeErr errs lk)
  have "ex_leases x q = None" if "q \<noteq> p" for q using assms(3) released(3) that by (cases "ex_leases x q") (auto simp: lease_inv_def)
  then show ?thesis using lease_Release_closes [OF released(4)] released(2) assms(3) by (auto simp: lease_inv_def)
next
  case (dropped s)
  then show ?thesis using assms(2) by simp
qed

text \<open>
  C20. At most one process has the lease: in every run of acquisitions and releases in which no connection of a lease is lost, whatever
  fails, two processes never hold the lease at the same time, so that serving and maintenance exclude each other.
\<close>

theorem lease_exclusive:
  assumes "lease_run no_leases evs x" and "\<forall>s. Drop s \<notin> set evs" and "ex_leases x p \<noteq> None" and "ex_leases x q \<noteq> None"
  shows "p = q"
proof -
  have "lease_run y evs x \<Longrightarrow> y = no_leases \<Longrightarrow> \<forall>s. Drop s \<notin> set evs \<Longrightarrow> lease_inv x" for y
  proof (induction rule: lease_run.induct)
    case (lease_more x evs y ev z)
    then show ?case using lease_step_inv [of y ev z] by auto
  qed (simp add: lease_inv_def no_leases_def)
  then have "lease_inv x" using assms(1,2) by blast
  then show ?thesis using assms(3,4) unfolding lease_inv_def by blast
qed

text \<open>
  The lease does not last as long as the process: after PostgreSQL loses the connection of the serving process, a maintenance process
  acquires the lease while the serving process still runs under its own, which nothing checks again. The comment on
  \<^verbatim>\<open>AcquireServiceLease\<close> says that the lease is held for the complete serve lifetime.
\<close>

theorem lost_session_breaks_exclusion:
  "\<exists>x. lease_run no_leases [Acquire ''serve'', Drop 1, Acquire ''maintenance''] x \<and> ex_leases x ''serve'' = Some 1 \<and> ex_leases x ''maintenance'' = Some 2"
proof -
  let ?env = "\<lambda>s. \<lparr>le_connect = None, le_session = s, le_query = NoFault\<rparr>"
  have dsn: "trim_space ''d'' \<noteq> []" using trim_space_plain [of "''d''"] by (simp add: plain_char_def is_ascii_def ascii_space_def)
  define x1 where "x1 = \<lparr>ex_lock = \<lparr>lk_sessions = {1}, lk_holder = Some 1\<rparr>, ex_leases = [''serve'' \<mapsto> 1]\<rparr>"
  define x2 where "x2 = x1\<lparr>ex_lock := \<lparr>lk_sessions = {}, lk_holder = None\<rparr>\<rparr>"
  define x3 where "x3 = x2\<lparr>ex_lock := \<lparr>lk_sessions = {2}, lk_holder = Some 2\<rparr>, ex_leases := (ex_leases x2)(''maintenance'' \<mapsto> 2)\<rparr>"
  have "lease_step no_leases (Acquire ''serve'') x1"
    using lease_step.acquired [of no_leases "''serve''" "?env 1" "''d''" 1 "\<lparr>lk_sessions = {1}, lk_holder = Some 1\<rparr>"] dsn
    by (simp add: no_leases_def x1_def acquire_lease_def try_lock_def)
  moreover have "lease_step x1 (Drop 1) x2" using lease_step.dropped [of 1 x1] by (simp add: x1_def x2_def close_session_def)
  moreover have "lease_step x2 (Acquire ''maintenance'') x3"
    using lease_step.acquired [of x2 "''maintenance''" "?env 2" "''d''" 2 "\<lparr>lk_sessions = {2}, lk_holder = Some 2\<rparr>"] dsn
    by (simp add: x1_def x2_def x3_def acquire_lease_def try_lock_def)
  ultimately have "lease_run no_leases ((([] @ [Acquire ''serve'']) @ [Drop 1]) @ [Acquire ''maintenance'']) x3" by (meson lease_run.intros)
  then show ?thesis by (auto simp: x1_def x2_def x3_def)
qed

section \<open>The commands\<close>

definition lock_ok :: "lock_state \<Rightarrow> bool" where
  "lock_ok lk \<longleftrightarrow> (\<forall>s. lk_holder lk = Some s \<longrightarrow> s \<in> lk_sessions lk)"

lemma under_lease_frame:
  assumes "lock_ok lk" and "le_session (mx_lease env) \<notin> lk_sessions lk" and "under_lease env c hasLogger minFree work lk = (errs, r, lk')"
  shows "lk' = lk \<and> (lk_holder lk \<noteq> None \<longrightarrow> errs \<noteq> [] \<and> r = None)"
proof (cases "\<exists>s lk1. TryAcquireMaintenanceLease (dc_DSN (cfg_Postgres c)) (mx_lease env) lk = (Inr s, lk1)")
  case True
  then obtain s lk1 where acq: "acquire_lease (dc_DSN (cfg_Postgres c)) (mx_lease env) lk = (Inr s, lk1)" by (auto simp: TryAcquireMaintenanceLease_def)
  have s: "s = le_session (mx_lease env)" "lk_holder lk = None" "lk_holder lk1 = Some s" "lk_sessions lk1 = insert s (lk_sessions lk)"
    using acquire_lease_cases [OF acq assms(2)] assms(1) by (auto simp: lock_ok_def)
  have restored: "lk2 = lk" if "lease_Release (Some s) flt closeErr lk1 = (es, lk2)" for flt closeErr es lk2
    using lease_Release_closes [OF that] s assms(2) by (intro lock_state.equality) auto
  show ?thesis
    using assms(3) acq s(2) restored by (auto simp: under_lease_def TryAcquireMaintenanceLease_def Let_def split: if_splits sum.splits option.splits prod.splits)
next
  case False
  have same: "lk1 = lk" if "acquire_lease (dc_DSN (cfg_Postgres c)) (mx_lease env) lk = (Inl e, lk1)" for e lk1
    using acquire_lease_cases [OF that assms(2)] assms(1) by (intro lock_state.equality) (auto simp: lock_ok_def)
  show ?thesis
    using assms(3) False same by (auto simp: under_lease_def TryAcquireMaintenanceLease_def split: if_splits sum.splits option.splits prod.splits)
qed

lemma under_lease_case:
  assumes "lock_ok lk" and "le_session (mx_lease env) \<notin> lk_sessions lk"
  shows "case under_lease env c hasLogger minFree work lk of (errs, r, lk') \<Rightarrow> lk' = lk \<and> (lk_holder lk \<noteq> None \<longrightarrow> errs \<noteq> [] \<and> r = None)"
  using under_lease_frame [OF assms, of c hasLogger minFree work] by (cases "under_lease env c hasLogger minFree work lk") auto

text \<open>
  C21. Maintenance needs the lease and gives it back: while another session holds the lock, the clean-up and the scan end with an error
  before they open the store, and change neither a table nor an object; and in every case, also when the work fails, the lock is as before
  when they return.
\<close>

theorem maintenance_needs_lease:
  assumes "lock_ok lk" and "le_session (mx_lease env) \<notin> lk_sessions lk"
  shows "(case CleanupExpired env c hasLogger d lk of (errs, r, lk') \<Rightarrow> lk' = lk \<and> (lk_holder lk \<noteq> None \<longrightarrow> errs \<noteq> [] \<and> r = None)) \<and>
    (case ReconcileContent sha256 env c hasLogger repairOrphans d lk of (errs, r, lk') \<Rightarrow> lk' = lk \<and> (lk_holder lk \<noteq> None \<longrightarrow> errs \<noteq> [] \<and> r = None))"
  unfolding CleanupExpired_def ReconcileContent_def by (intro conjI under_lease_case assms)

lemma Open_objects: "Open abspath flt root o' objs entries = Inr s \<Longrightarrow> st_objects s = objs"
  by (auto simp: Open_def Let_def split: if_splits sum.splits)

text \<open>Nothing around the command fails, and the lock is free.\<close>

definition command_works :: "maintenance_env \<Rightarrow> config \<Rightarrow> lock_state \<Rightarrow> bool" where
  "command_works env c lk \<longleftrightarrow> env_works (mx_app env) c \<and> mx_ready env = None \<and> le_connect (mx_lease env) = None \<and> le_query (mx_lease env) = NoFault \<and>
     le_session (mx_lease env) \<notin> lk_sessions lk \<and> lk_holder lk = None \<and> mx_release env = NoFault \<and> mx_close env = None"

lemma under_lease_works:
  assumes v: "Validate c = []" and env: "command_works env c lk" and m: "0 \<le> minFree"
  obtains store where "st_objects store = ap_objects (mx_app env)"
    and "under_lease env c True minFree work lk = (fst (work store), Some (snd (work store)), lk)"
proof -
  obtain p where p: "openPostgresPool (ap_parse (mx_app env)) (ap_create (mx_app env)) (cfg_Postgres c) = Inr p"
    using pool_opens [OF v, of "mx_app env"] env by (auto simp: command_works_def)
  have dsn: "trim_space (dc_DSN (cfg_Postgres c)) \<noteq> []" using v by (auto simp: Validate_parts validate_postgres_def reject_Nil)
  let ?s = "le_session (mx_lease env)" let ?lk = "lk\<lparr>lk_sessions := insert ?s (lk_sessions lk), lk_holder := Some ?s\<rparr>"
  have acq: "TryAcquireMaintenanceLease (dc_DSN (cfg_Postgres c)) (mx_lease env) lk = (Inr ?s, ?lk)"
    using dsn env by (simp add: TryAcquireMaintenanceLease_def acquire_lease_def try_lock_def command_works_def Let_def)
  have rel: "lease_Release (Some ?s) (mx_release env) (mx_close env) ?lk = ([], lk)"
    using env by (simp add: lease_Release_def unlock_def close_session_def command_works_def)
  let ?root = "nc_Root (cfg_Content c)" let ?o = "\<lparr>so_maxBytes = nc_MaxBytes (cfg_Content c), so_minFreeBytes = minFree\<rparr>"
  have content: "trim_space ?root \<noteq> []" "0 < so_maxBytes ?o" "0 \<le> so_minFreeBytes ?o"
    using v m by (auto simp: Validate_parts validate_content_def validate_lmtp_def reject_Nil)
  obtain q where q: "ap_abspath (mx_app env) ?root = Inr q" using env by (auto simp: command_works_def env_works_def is_ok_Inr)
  obtain store where store: "Open (ap_abspath (mx_app env)) (ap_flt (mx_app env)) ?root ?o (ap_objects (mx_app env)) (ap_staged (mx_app env)) = Inr store"
    using Open_quiet [where abspath = "ap_abspath (mx_app env)", OF content q] env by (auto simp: command_works_def env_works_def)
  show ?thesis
  proof (rule that)
    show "st_objects store = ap_objects (mx_app env)" by (rule Open_objects [OF store])
    show "under_lease env c True minFree work lk = (fst (work store), Some (snd (work store)), lk)"
      using p acq rel store env by (simp add: under_lease_def Let_def command_works_def split: prod.split)
  qed
qed

text \<open>
  C22. The command \<^verbatim>\<open>reconcile\<close> tells the truth about the store it opened: with a validated configuration, nothing failing around it and a
  walk of the objects directory that shows the objects there, it reports success exactly if every content row has an object of its size and
  digest in the store and, unless it repairs, no object of the store is without a row; otherwise it reports inconsistent content. The lock is as before.
\<close>

theorem ReconcileContent_verdict:
  assumes "Validate c = []" and "command_works env c lk" and "db_wf d" and "calm_scan ((mx_scan env)\<lparr>sx_emit := (\<lambda>f. None)\<rparr>)"
    and "walk_shows (ap_objects (mx_app env)) (sx_entries (mx_scan env))"
  shows "\<exists>st. ReconcileContent sha256 env c True repairOrphans d lk =
    ((if (\<forall>c \<in> set (mail_contents d). row_stored sha256 (ap_objects (mx_app env)) c) \<and> (repairOrphans \<or> unreferenced (ap_objects (mx_app env)) d = {})
      then [] else [ErrInconsistentContent]), Some st, lk)"
proof -
  let ?scan = "(mx_scan env)\<lparr>sx_emit := (\<lambda>f. None)\<rparr>"
  let ?work = "\<lambda>store. case Reconcile sha256 True DefaultReconcileBatchSize repairOrphans ?scan d store of
      (Some e, st) \<Rightarrow> ([e], st) | (None, st) \<Rightarrow> (if Unresolved st > 0 then [ErrInconsistentContent] else [], st)"
  obtain store where store: "st_objects store = ap_objects (mx_app env)" and run: "under_lease env c True 0 ?work lk = (fst (?work store), Some (snd (?work store)), lk)"
    by (rule under_lease_works [OF assms(1,2), of 0 ?work]) simp_all
  have walk: "walk_shows (st_objects store) (sx_entries ?scan)" using assms(5) by (simp add: store)
  obtain st where st: "Reconcile sha256 True DefaultReconcileBatchSize repairOrphans ?scan d store = (None, st)"
    using Reconcile_calm [OF assms(3,4) walk, of DefaultReconcileBatchSize sha256 repairOrphans store] by (auto simp: DefaultReconcileBatchSize_def)
  have "0 \<le> Unresolved st" using Reconcile_findings [OF assms(3) _ st] assms(4) by (simp add: calm_scan_def)
  then have "Unresolved st > 0 \<longleftrightarrow> Unresolved st \<noteq> 0" by linarith
  then have verdict: "(if Unresolved st > 0 then [ErrInconsistentContent] else []) =
      (if (\<forall>c \<in> set (mail_contents d). row_stored sha256 (ap_objects (mx_app env)) c) \<and> (repairOrphans \<or> unreferenced (ap_objects (mx_app env)) d = {})
       then [] else [ErrInconsistentContent])"
    using Unresolved_iff [OF assms(3,4) walk st] unfolding store by (simp only: if_not_P not_not) argo
  show ?thesis unfolding ReconcileContent_def run st by (simp only: fst_conv snd_conv prod.case option.case verdict) blast
qed

section \<open>Witnesses\<close>

definition free_lock :: lock_state where
  "free_lock = \<lparr>lk_sessions = {}, lk_holder = None\<rparr>"

definition command_env :: maintenance_env where
  "command_env = \<lparr>mx_app = working_env\<lparr>ap_objects := st_objects stray_store\<rparr>, mx_ready = None, mx_lease = \<lparr>le_connect = None, le_session = 1, le_query = NoFault\<rparr>,
     mx_release = NoFault, mx_close = None, mx_scan = stray_env, mx_sweep = sample_sweep_env (\<lambda>_. None)\<rparr>"

lemma command_env_works: "command_works command_env keyed_config free_lock"
  using working_env_works by (simp add: command_works_def command_env_def free_lock_def env_works_def)

theorem lease_exclusive_witness:
  "\<exists>x. lease_run no_leases [Acquire ''serve''] x \<and> ex_leases x ''serve'' = Some 1 \<and> (\<forall>q. ex_leases x q \<noteq> None \<longrightarrow> ''serve'' = q)"
proof -
  let ?env = "\<lparr>le_connect = None, le_session = 1, le_query = NoFault\<rparr>" let ?lk = "\<lparr>lk_sessions = {1}, lk_holder = Some 1\<rparr>"
  let ?x = "\<lparr>ex_lock = ?lk, ex_leases = [''serve'' \<mapsto> 1]\<rparr>"
  have "trim_space ''d'' \<noteq> []" using trim_space_plain [of "''d''"] by (simp add: plain_char_def is_ascii_def ascii_space_def)
  then have "lease_step no_leases (Acquire ''serve'') ?x"
    using lease_step.acquired [of no_leases "''serve''" ?env "''d''" 1 ?lk] by (simp add: no_leases_def acquire_lease_def try_lock_def)
  then have "lease_run no_leases ([] @ [Acquire ''serve'']) ?x" by (rule lease_run.lease_more [OF lease_run.lease_start])
  then have run: "lease_run no_leases [Acquire ''serve''] ?x" by (simp only: append_Nil)
  have held: "ex_leases ?x ''serve'' = Some 1" by simp
  then have some: "ex_leases ?x ''serve'' \<noteq> None" by (simp only: option.distinct(2) not_False_eq_True)
  have nodrop: "\<forall>s. Drop s \<notin> set [Acquire ''serve'']" by simp
  have "''serve'' = q" if "ex_leases ?x q \<noteq> None" for q by (rule lease_exclusive [OF run nodrop some that])
  with run held show ?thesis by blast
qed

theorem maintenance_needs_lease_witness:
  "case ReconcileContent sample_sha command_env keyed_config True True sample_db \<lparr>lk_sessions = {7}, lk_holder = Some 7\<rparr> of
     (errs, r, lk') \<Rightarrow> lk' = \<lparr>lk_sessions = {7}, lk_holder = Some 7\<rparr> \<and> errs \<noteq> [] \<and> r = None"
  using maintenance_needs_lease [of "\<lparr>lk_sessions = {7}, lk_holder = Some 7\<rparr>" command_env keyed_config True sample_db sample_sha True]
  by (simp add: lock_ok_def command_env_def split: prod.splits)

theorem ReconcileContent_verdict_witness:
  "\<exists>st. ReconcileContent sample_sha command_env keyed_config True False sample_db free_lock = ([ErrInconsistentContent], Some st, free_lock)"
proof -
  have "calm_scan ((mx_scan command_env)\<lparr>sx_emit := (\<lambda>f. None)\<rparr>)"
    using stray_calm by (simp add: calm_scan_def quiet_scan_def command_env_def)
  moreover have "walk_shows (ap_objects (mx_app command_env)) (sx_entries (mx_scan command_env))" using stray_walk by (simp add: command_env_def)
  moreover have "unreferenced (ap_objects (mx_app command_env)) sample_db \<noteq> {}" by (simp add: command_env_def stray_unreferenced)
  ultimately show ?thesis
    using ReconcileContent_verdict [OF keyed_config_valid command_env_works sample_db_wf, of sample_sha False] by simp
qed

end
