(* ===== verification/Backup_Bundle.thy ===== *)
theory Backup_Bundle
  imports Backup_Tool Maintenance_Lease
begin

text \<open>
  \<^verbatim>\<open>backup/bundle.go\<close> and \<^verbatim>\<open>backup/restore.go\<close>: a backup is a directory of three files, a dump, an archive of the objects and a manifest with
  their sizes and digests. It is written beside its destination and published by one rename; it is verified before a restoration
  changes anything. The text of the manifest and the bytes of the archive are made and read by the JSON, tar and gzip packages, which are parameters.
\<close>

section \<open>The manifest\<close>

record component_manifest =
  part_file :: string
  part_sha256 :: string
  part_size :: int

record manifest =
  mf_format :: string
  mf_version :: int
  mf_createdAt :: time
  mf_offset :: int
  mf_postgres :: database_metadata
  mf_database :: component_manifest
  mf_content :: component_manifest
  mf_objects :: int
  mf_bytes :: int

definition formatName :: string where
  "formatName = ''mailwisp-backup''"

definition formatVersion :: int where
  "formatVersion = 1"

definition manifestFileName :: string where
  "manifestFileName = ''manifest.json''"

definition databaseFileName :: string where
  "databaseFileName = ''database.dump''"

definition contentFileName :: string where
  "contentFileName = ''content.tar.gz''"

definition maxManifestBytes :: int where
  "maxManifestBytes = 1048576"


definition validateComponent :: "component_manifest \<Rightarrow> string \<Rightarrow> go_error option" where
  "validateComponent c expectedFile =
     (if part_file c \<noteq> expectedFile \<or> part_size c < 0 \<or> length (part_sha256 c) \<noteq> 64 \<or> to_lower (part_sha256 c) \<noteq> part_sha256 c
      then Some (OtherError ''backup component metadata is invalid'')
      else case hex_decode (part_sha256 c) of
          None \<Rightarrow> Some (OtherError ''backup component digest is invalid'')
        | Some decoded \<Rightarrow> if length decoded \<noteq> 32 then Some (OtherError ''backup component digest is invalid'') else None)"

definition validateManifest :: "manifest \<Rightarrow> go_error option" where
  "validateManifest m =
     (if mf_format m \<noteq> formatName \<or> mf_version m \<noteq> formatVersion then Some (OtherError ''unsupported backup manifest format or version'')
      else if is_zero_time (mf_createdAt m) \<or> mf_offset m \<noteq> 0 then Some (OtherError ''backup manifest creation time must be UTC'')
      else if trim_space (dm_server (mf_postgres m)) = [] \<or> trim_space (dm_dump (mf_postgres m)) = [] \<or> trim_space (dm_restore (mf_postgres m)) = [] \<or> dm_migration (mf_postgres m) < 0
        then Some (OtherError ''backup manifest PostgreSQL metadata is invalid'')
      else case validateComponent (mf_database m) databaseFileName of
          Some e \<Rightarrow> Some e
        | None \<Rightarrow>
            (case validateComponent (mf_content m) contentFileName of
               Some e \<Rightarrow> Some e
             | None \<Rightarrow> if mf_objects m < 0 \<or> mf_bytes m < 0 then Some (OtherError ''backup manifest content statistics are invalid'') else None))"

text \<open>The JSON encoder, the strict decoder, whether a second value follows, and the archive packages.\<close>

record bundle_codec =
  bc_encode :: "manifest \<Rightarrow> bytes result"
  bc_decode :: "bytes \<Rightarrow> manifest result"
  bc_trailing :: "bytes \<Rightarrow> bool"
  bc_pack :: "tar_entry list \<Rightarrow> bytes"
  bc_open :: "bytes \<Rightarrow> archive_view"

section \<open>Files\<close>

datatype node = FileNode bytes | DirNode | LinkNode | OtherNode

type_synonym directory = "(string \<times> node) list"

datatype fs_entry = FsDir directory | FsOther

type_synonym bundle_fs = "string list \<Rightarrow> fs_entry option"

datatype backup_op =
    BOLstat | BOStatParent | BORandom | BOMkdir | BOOpenRoot | BOCreate string | BOWrite string | BOSync string | BOClose string | BOCloseRoot
  | BOSyncPartial | BORename | BOSyncParent | BORenameBack | BORemove | BOStat string | BOOpen string | BOStatOpened string | BORead string | BOSeek string
  | BOReadDir | BOCloseDir

record backup_env =
  bv_abs :: "string \<Rightarrow> string list result"
  bv_flt :: "backup_op \<Rightarrow> go_error option"
  bv_parentDir :: bool
  bv_random :: bytes
  bv_same :: "string \<Rightarrow> bool"
  bv_cancel :: "string \<Rightarrow> (nat \<times> bool) option"

definition partialPath :: "backup_env \<Rightarrow> string list \<Rightarrow> string list result" where
  "partialPath env destination =
     (case bv_flt env BORandom of
        Some e \<Rightarrow> Inl e
      | None \<Rightarrow> Inr (butlast destination @ [''.'' @ (if destination = [] then ''/'' else last destination) @ ''.partial-'' @ hex_encode (bv_random env)]))"

section \<open>Creation\<close>

text \<open>
  \<^verbatim>\<open>writeDatabase\<close> and \<^verbatim>\<open>writeContent\<close>: the file with what was written to it, and its entry of the manifest. The hashing writer sees the bytes
  that reach the file.
\<close>

definition write_component :: "(bytes \<Rightarrow> bytes) \<Rightarrow> backup_env \<Rightarrow> string \<Rightarrow> bytes \<Rightarrow> go_error list \<Rightarrow> directory \<Rightarrow> (go_error list + component_manifest) \<times> directory" where
  "write_component sha256 env name written errs dir =
     (case bv_flt env (BOCreate name) of
        Some e \<Rightarrow> (Inl [e], dir)
      | None \<Rightarrow>
          let dir1 = dir @ [(name, FileNode written)]; all = errs @ error_list (bv_flt env (BOSync name)) @ error_list (bv_flt env (BOClose name)) in
          if all \<noteq> [] then (Inl all, dir1)
          else (Inr \<lparr>part_file = name, part_sha256 = hex_encode (sha256 written), part_size = int (length written)\<rparr>, dir1))"

definition writeManifest :: "bundle_codec \<Rightarrow> backup_env \<Rightarrow> manifest \<Rightarrow> directory \<Rightarrow> go_error list \<times> directory" where
  "writeManifest codec env m dir =
     (case bc_encode codec m of
        Inl e \<Rightarrow> ([e], dir)
      | Inr encoded \<Rightarrow>
          (case bv_flt env (BOCreate manifestFileName) of
             Some e \<Rightarrow> ([e], dir)
           | None \<Rightarrow>
               (error_list (bv_flt env (BOWrite manifestFileName)) @ error_list (bv_flt env (BOSync manifestFileName)) @ error_list (bv_flt env (BOClose manifestFileName)),
                dir @ [(manifestFileName, FileNode (encoded @ [CHR 0x0A]))])))"

text \<open>The files of the partial directory, in their order; \<open>dump\<close> and \<open>content\<close> are what the dumper and the archiver wrote, with their outcomes.\<close>

definition write_bundle :: "bundle_codec \<Rightarrow> (bytes \<Rightarrow> bytes) \<Rightarrow> backup_env \<Rightarrow> time \<Rightarrow> bytes \<times> database_metadata result \<Rightarrow> (archive_stats \<times> go_error list) \<times> bytes \<Rightarrow>
    (go_error list + manifest) \<times> directory" where
  "write_bundle codec sha256 env createdAt dump content =
     (case write_component sha256 env databaseFileName (fst dump) (case snd dump of Inl e \<Rightarrow> [e] | Inr _ \<Rightarrow> []) [] of
        (Inl errs, dir) \<Rightarrow> (Inl errs, dir)
      | (Inr databaseComponent, dir) \<Rightarrow>
          (case write_component sha256 env contentFileName (snd content) (snd (fst content)) dir of
             (Inl errs, dir1) \<Rightarrow> (Inl errs, dir1)
           | (Inr contentComponent, dir1) \<Rightarrow>
               (case snd dump of
                  Inl e \<Rightarrow> (Inl [e], dir1)
                | Inr metadata \<Rightarrow>
                    let m = \<lparr>mf_format = formatName, mf_version = formatVersion, mf_createdAt = createdAt, mf_offset = 0, mf_postgres = metadata,
                             mf_database = databaseComponent, mf_content = contentComponent, mf_objects = as_objects (fst (fst content)), mf_bytes = as_bytes (fst (fst content))\<rparr> in
                    (case writeManifest codec env m dir1 of
                       (errs, dir2) \<Rightarrow>
                         let all = errs @ error_list (bv_flt env BOCloseRoot) in
                         if all \<noteq> [] then (Inl all, dir2) else (Inr m, dir2)))))"

definition remove_partial :: "backup_env \<Rightarrow> string list \<Rightarrow> bundle_fs \<Rightarrow> bundle_fs" where
  "remove_partial env partial fs = (if bv_flt env BORemove = None then fs(partial := None) else fs)"

text \<open>After the partial directory exists: write it, sync it, rename it, and sync the parent; a failure takes back the rename and removes the directory.\<close>

definition publish :: "bundle_codec \<Rightarrow> (bytes \<Rightarrow> bytes) \<Rightarrow> backup_env \<Rightarrow> string list \<Rightarrow> string list \<Rightarrow> time \<Rightarrow> bytes \<times> database_metadata result \<Rightarrow> (archive_stats \<times> go_error list) \<times> bytes \<Rightarrow> bundle_fs \<Rightarrow>
    (go_error list + manifest) \<times> bundle_fs" where
  "publish codec sha256 env partial destination createdAt dump content fs =
     (case bv_flt env BOOpenRoot of
        Some e \<Rightarrow> (Inl [e], remove_partial env partial fs)
      | None \<Rightarrow>
          (case write_bundle codec sha256 env createdAt dump content of
             (Inl errs, dir) \<Rightarrow> (Inl errs, remove_partial env partial (fs(partial \<mapsto> FsDir dir)))
           | (Inr m, dir) \<Rightarrow>
               (case bv_flt env BOSyncPartial of
                  Some e \<Rightarrow> (Inl [e], remove_partial env partial (fs(partial \<mapsto> FsDir dir)))
                | None \<Rightarrow>
                    (case bv_flt env BORename of
                       Some e \<Rightarrow> (Inl [e], remove_partial env partial (fs(partial \<mapsto> FsDir dir)))
                     | None \<Rightarrow>
                         let fs1 = fs(partial := None, destination \<mapsto> FsDir dir) in
                         (case bv_flt env BOSyncParent of
                            None \<Rightarrow> (Inr m, fs1)
                          | Some e \<Rightarrow>
                              (Inl [e], remove_partial env partial (if bv_flt env BORenameBack = None then fs1(destination := None, partial \<mapsto> FsDir dir) else fs1)))))))"

definition bundle_Create :: "bundle_codec \<Rightarrow> (bytes \<Rightarrow> bytes) \<Rightarrow> backup_env \<Rightarrow> string \<Rightarrow> time \<Rightarrow> (bytes \<times> database_metadata result) option \<Rightarrow> ((archive_stats \<times> go_error list) \<times> bytes) option \<Rightarrow> bundle_fs \<Rightarrow>
    (go_error list + manifest) \<times> bundle_fs" where
  "bundle_Create codec sha256 env destination createdAt database content fs =
     (case database of
        None \<Rightarrow> (Inl [OtherError ''database dumper is required''], fs)
      | Some dump \<Rightarrow>
          (case content of
             None \<Rightarrow> (Inl [OtherError ''content archiver is required''], fs)
           | Some archive \<Rightarrow>
               if trim_space destination = [] then (Inl [OtherError ''backup destination is required''], fs)
               else if is_zero_time createdAt then (Inl [OtherError ''backup creation time is required''], fs)
               else (case bv_abs env destination of
                  Inl e \<Rightarrow> (Inl [e], fs)
                | Inr absolute \<Rightarrow>
                    (case bv_flt env BOLstat of
                       Some e \<Rightarrow> (Inl [e], fs)
                     | None \<Rightarrow>
                         if fs absolute \<noteq> None then (Inl [OtherError ''backup destination already exists''], fs)
                         else (case bv_flt env BOStatParent of
                            Some e \<Rightarrow> (Inl [e], fs)
                          | None \<Rightarrow>
                              if \<not> bv_parentDir env then (Inl [OtherError ''backup parent path is not a directory''], fs)
                              else (case partialPath env absolute of
                                 Inl e \<Rightarrow> (Inl [e], fs)
                               | Inr partial \<Rightarrow>
                                   (case bv_flt env BOMkdir of
                                      Some e \<Rightarrow> (Inl [e], fs)
                                    | None \<Rightarrow>
                                        if fs partial \<noteq> None then (Inl [OtherError ''file exists''], fs)
                                        else publish codec sha256 env partial absolute createdAt dump archive (fs(partial \<mapsto> FsDir [])))))))))"

section \<open>Verification\<close>

definition readManifest :: "bundle_codec \<Rightarrow> backup_env \<Rightarrow> directory \<Rightarrow> manifest result" where
  "readManifest codec env dir =
     (case bv_flt env (BOStat manifestFileName) of
        Some e \<Rightarrow> Inl e
      | None \<Rightarrow>
          (case map_of dir manifestFileName of
             None \<Rightarrow> Inl ErrNotExist
           | Some (FileNode text') \<Rightarrow>
               if int (length text') > maxManifestBytes then Inl (OtherError ''backup manifest is not a bounded regular file'')
               else (case bv_flt env (BOOpen manifestFileName) of
                  Some e \<Rightarrow> Inl e
                | None \<Rightarrow>
                    (case bv_flt env (BORead manifestFileName) of
                       Some e \<Rightarrow> Inl e
                     | None \<Rightarrow>
                         (case bc_decode codec text' of
                            Inl e \<Rightarrow> Inl e
                          | Inr m \<Rightarrow> if bc_trailing codec text' then Inl (OtherError ''backup manifest contains trailing data'') else Inr m)))
           | Some _ \<Rightarrow> Inl (OtherError ''backup manifest is not a bounded regular file'')))"

text \<open>The verified bytes of a component.\<close>

definition openVerifiedComponent :: "(bytes \<Rightarrow> bytes) \<Rightarrow> backup_env \<Rightarrow> directory \<Rightarrow> component_manifest \<Rightarrow> bytes result" where
  "openVerifiedComponent sha256 env dir c =
     (let name = part_file c in
      case bv_flt env (BOStat name) of
        Some e \<Rightarrow> Inl e
      | None \<Rightarrow>
          (case map_of dir name of
             None \<Rightarrow> Inl ErrNotExist
           | Some (FileNode content) \<Rightarrow>
               (case bv_flt env (BOOpen name) of
                  Some e \<Rightarrow> Inl e
                | None \<Rightarrow>
                    (case bv_flt env (BOStatOpened name) of
                       Some e \<Rightarrow> Inl e
                     | None \<Rightarrow>
                         if \<not> bv_same env name then Inl (OtherError ''backup component changed while opening'')
                         else (case contextReader (bv_cancel env name) (content, (case bv_flt env (BORead name) of None \<Rightarrow> EOF | Some e \<Rightarrow> e)) of
                            (read, end') \<Rightarrow>
                              if end' \<noteq> EOF then Inl end'
                              else if int (length read) \<noteq> part_size c \<or> hex_encode (sha256 read) \<noteq> part_sha256 c then Inl (OtherError ''backup component size or digest mismatch'')
                              else (case bv_flt env (BOSeek name) of Some e \<Rightarrow> Inl e | None \<Rightarrow> Inr content))))
           | Some _ \<Rightarrow> Inl (OtherError ''backup component is not a regular file'')))"

definition verifyComponent :: "(bytes \<Rightarrow> bytes) \<Rightarrow> backup_env \<Rightarrow> directory \<Rightarrow> component_manifest \<Rightarrow> go_error option" where
  "verifyComponent sha256 env dir c =
     (case openVerifiedComponent sha256 env dir c of Inl e \<Rightarrow> Some e | Inr _ \<Rightarrow> bv_flt env (BOClose (part_file c)))"

definition plain_node :: "node \<Rightarrow> bool" where
  "plain_node n \<longleftrightarrow> n \<noteq> DirNode \<and> n \<noteq> LinkNode"

text \<open>The open bundle and its manifest.\<close>

definition openVerifiedBundle :: "bundle_codec \<Rightarrow> (bytes \<Rightarrow> bytes) \<Rightarrow> backup_env \<Rightarrow> string \<Rightarrow> bundle_fs \<Rightarrow> (directory \<times> manifest) result" where
  "openVerifiedBundle codec sha256 env bundleRoot fs =
     (case bv_abs env bundleRoot of
        Inl e \<Rightarrow> Inl e
      | Inr root \<Rightarrow>
          (case bv_flt env BOLstat of
             Some e \<Rightarrow> Inl e
           | None \<Rightarrow>
               (case fs root of
                  None \<Rightarrow> Inl ErrNotExist
                | Some FsOther \<Rightarrow> Inl (OtherError ''backup bundle root must be a real directory'')
                | Some (FsDir dir) \<Rightarrow>
                    (case bv_flt env BOOpenRoot of
                       Some e \<Rightarrow> Inl e
                     | None \<Rightarrow>
                         (case bv_flt env (BOStat ''.'') of
                            Some e \<Rightarrow> Inl e
                          | None \<Rightarrow>
                              if \<not> bv_same env ''.'' then Inl (OtherError ''backup bundle root changed while opening'')
                              else (case bv_flt env (BOOpen ''.'') of
                                 Some e \<Rightarrow> Inl e
                               | None \<Rightarrow>
                                   (case bv_flt env BOReadDir of
                                      Some e \<Rightarrow> Inl e
                                    | None \<Rightarrow>
                                        (case bv_flt env BOCloseDir of
                                           Some e \<Rightarrow> Inl e
                                         | None \<Rightarrow>
                                             if length dir \<noteq> 3 then Inl (OtherError ''backup bundle entries'')
                                             else if \<not> list_all (\<lambda>(n, k). n \<in> {manifestFileName, databaseFileName, contentFileName} \<and> plain_node k) dir
                                               then Inl (OtherError ''unexpected backup bundle entry'')
                                             else (case readManifest codec env dir of
                                                Inl e \<Rightarrow> Inl e
                                              | Inr m \<Rightarrow>
                                                  (case validateManifest m of
                                                     Some e \<Rightarrow> Inl e
                                                   | None \<Rightarrow>
                                                       (case verifyComponent sha256 env dir (mf_database m) of
                                                          Some e \<Rightarrow> Inl e
                                                        | None \<Rightarrow>
                                                            (case verifyComponent sha256 env dir (mf_content m) of
                                                               Some e \<Rightarrow> Inl e
                                                             | None \<Rightarrow> Inr (dir, m)))))))))))))"

definition bundle_Verify :: "bundle_codec \<Rightarrow> (bytes \<Rightarrow> bytes) \<Rightarrow> backup_env \<Rightarrow> string \<Rightarrow> bundle_fs \<Rightarrow> manifest result" where
  "bundle_Verify codec sha256 env bundleRoot fs =
     (case openVerifiedBundle codec sha256 env bundleRoot fs of
        Inl e \<Rightarrow> Inl e
      | Inr (dir, m) \<Rightarrow> (case bv_flt env BOCloseRoot of Some e \<Rightarrow> Inl e | None \<Rightarrow> Inr m))"

section \<open>Publication\<close>

lemma partial_differs: "partialPath env d = Inr p \<Longrightarrow> p \<noteq> d"
proof
  assume "partialPath env d = Inr p" "p = d"
  then have "d = butlast d @ [''.'' @ (if d = [] then ''/'' else last d) @ ''.partial-'' @ hex_encode (bv_random env)]"
    by (auto simp: partialPath_def split: option.splits)
  then obtain x where d: "d = butlast d @ [x]" "x = ''.'' @ (if d = [] then ''/'' else last d) @ ''.partial-'' @ hex_encode (bv_random env)" by blast
  then have "d \<noteq> []" "last d = x" by (metis append_is_Nil_conv list.distinct(1), metis last_snoc)
  then have "length x = length (''.'' @ x @ ''.partial-'' @ hex_encode (bv_random env))" using d(2) by presburger
  then show False by simp
qed

definition component_of :: "(bytes \<Rightarrow> bytes) \<Rightarrow> string \<Rightarrow> bytes \<Rightarrow> component_manifest" where
  "component_of sha256 name b = \<lparr>part_file = name, part_sha256 = hex_encode (sha256 b), part_size = int (length b)\<rparr>"

lemma write_component_Inr:
  "write_component sha256 env name written errs dir = (Inr c, dir') \<Longrightarrow> errs = [] \<and> c = component_of sha256 name written \<and> dir' = dir @ [(name, FileNode written)]"
  by (auto simp: write_component_def component_of_def Let_def split: option.splits if_splits)

lemma write_bundle_Inr:
  assumes "write_bundle codec sha256 env createdAt dump content = (Inr m, dir)"
  obtains metadata encoded where "snd dump = Inr metadata" "snd (fst content) = []" "bc_encode codec m = Inr encoded"
    "m = \<lparr>mf_format = formatName, mf_version = formatVersion, mf_createdAt = createdAt, mf_offset = 0, mf_postgres = metadata,
       mf_database = component_of sha256 databaseFileName (fst dump), mf_content = component_of sha256 contentFileName (snd content),
       mf_objects = as_objects (fst (fst content)), mf_bytes = as_bytes (fst (fst content))\<rparr>"
    "dir = [(databaseFileName, FileNode (fst dump)), (contentFileName, FileNode (snd content)), (manifestFileName, FileNode (encoded @ [CHR 0x0A]))]"
proof -
  obtain c1 dir1 where w1: "write_component sha256 env databaseFileName (fst dump) (case snd dump of Inl e \<Rightarrow> [e] | Inr _ \<Rightarrow> []) [] = (Inr c1, dir1)"
    using assms by (auto simp: write_bundle_def split: prod.splits sum.splits)
  note c1 = write_component_Inr [OF w1]
  obtain c2 dir2 where w2: "write_component sha256 env contentFileName (snd content) (snd (fst content)) dir1 = (Inr c2, dir2)"
    using assms w1 by (auto simp: write_bundle_def split: prod.splits sum.splits)
  note c2 = write_component_Inr [OF w2]
  obtain metadata where md: "snd dump = Inr metadata" using c1 by (cases "snd dump") auto
  let ?m = "\<lparr>mf_format = formatName, mf_version = formatVersion, mf_createdAt = createdAt, mf_offset = 0, mf_postgres = metadata,
       mf_database = c1, mf_content = c2, mf_objects = as_objects (fst (fst content)), mf_bytes = as_bytes (fst (fst content))\<rparr>"
  have "writeManifest codec env ?m dir2 = ([], dir)" "m = ?m"
    using assms w1 w2 md by (auto simp: write_bundle_def Let_def split: prod.splits if_splits)
  then obtain encoded where "bc_encode codec m = Inr encoded" "dir = dir2 @ [(manifestFileName, FileNode (encoded @ [CHR 0x0A]))]"
    by (auto simp: writeManifest_def split: sum.splits option.splits)
  then show ?thesis using that [OF md] c1 c2 \<open>m = ?m\<close> by simp
qed

lemma publish_outcome:
  assumes "publish codec sha256 env partial destination createdAt dump content (fs(partial \<mapsto> FsDir [])) = (r, fs')" and "fs partial = None" and "fs destination = None" and "partial \<noteq> destination"
    and "bv_flt env BORenameBack = None"
  shows "case r of
      Inl errs \<Rightarrow> errs \<noteq> [] \<and> (\<forall>p. p \<noteq> partial \<longrightarrow> fs' p = fs p)
    | Inr m \<Rightarrow> (\<exists>dir. write_bundle codec sha256 env createdAt dump content = (Inr m, dir) \<and> fs' = fs(destination \<mapsto> FsDir dir))"
proof -
  obtain w dir where w: "write_bundle codec sha256 env createdAt dump content = (w, dir)" by fastforce
  have ne: "errs \<noteq> []" if "w = Inl errs" for errs
    using w that by (auto simp: write_bundle_def write_component_def Let_def split: prod.splits sum.splits option.splits if_splits)
  let ?failed = "\<lambda>errs fs'. errs \<noteq> [] \<and> (\<forall>p. p \<noteq> partial \<longrightarrow> fs' p = fs p)"
  have gone: "?failed errs (remove_partial env partial (fs(partial \<mapsto> FsDir dir)))" if "errs \<noteq> []" for errs dir using that by (simp add: remove_partial_def)
  consider (noroot) e where "bv_flt env BOOpenRoot = Some e" | (nowrite) errs where "bv_flt env BOOpenRoot = None" "w = Inl errs"
    | (nosync) m e where "bv_flt env BOOpenRoot = None" "w = Inr m" "bv_flt env BOSyncPartial = Some e"
    | (norename) m e where "bv_flt env BOOpenRoot = None" "w = Inr m" "bv_flt env BOSyncPartial = None" "bv_flt env BORename = Some e"
    | (noparent) m e where "bv_flt env BOOpenRoot = None" "w = Inr m" "bv_flt env BOSyncPartial = None" "bv_flt env BORename = None" "bv_flt env BOSyncParent = Some e"
    | (published) m where "bv_flt env BOOpenRoot = None" "w = Inr m" "bv_flt env BOSyncPartial = None" "bv_flt env BORename = None" "bv_flt env BOSyncParent = None"
    by (cases w; cases "bv_flt env BOOpenRoot"; cases "bv_flt env BOSyncPartial"; cases "bv_flt env BORename"; cases "bv_flt env BOSyncParent") auto
  then show ?thesis
  proof cases
    case noroot
    then show ?thesis using assms(1) gone [of "[e]" "[]"] by (auto simp: publish_def)
  next
    case nowrite
    then show ?thesis using assms(1) w gone [of errs dir] ne by (auto simp: publish_def)
  next
    case nosync
    then show ?thesis using assms(1) w gone [of "[e]" dir] by (auto simp: publish_def)
  next
    case norename
    then show ?thesis using assms(1) w gone [of "[e]" dir] by (auto simp: publish_def)
  next
    case noparent
    then show ?thesis using assms w by (auto simp: publish_def remove_partial_def Let_def split: if_splits)
  next
    case published
    have "fs(partial := None) = fs" using assms(2) by (rule fun_upd_idem)
    then show ?thesis using published assms w by (auto simp: publish_def Let_def)
  qed
qed

text \<open>
  A backup appears whole or not at all: when the creation fails, nothing is at the destination that was not there before, and nothing else has changed but the
  directory for partial results; when it succeeds, the destination is new and is a directory of the dump, the archive and the manifest, and nothing else has changed.
\<close>

theorem bundle_Create_all_or_nothing:
  assumes "bundle_Create codec sha256 env destination createdAt database content fs = (r, fs')" and "bv_abs env destination = Inr d" and "bv_flt env BORenameBack = None"
  shows "case r of
      Inl errs \<Rightarrow> errs \<noteq> [] \<and> fs' d = fs d \<and> (\<forall>p. partialPath env d \<noteq> Inr p \<longrightarrow> fs' p = fs p)
    | Inr m \<Rightarrow> fs d = None \<and> (\<exists>dir. fs' = fs(d \<mapsto> FsDir dir) \<and> map fst dir = [databaseFileName, contentFileName, manifestFileName])"
proof (cases "\<exists>dump archive partial. database = Some dump \<and> content = Some archive \<and> partialPath env d = Inr partial \<and> fs d = None \<and> fs partial = None \<and>
    publish codec sha256 env partial d createdAt dump archive (fs(partial \<mapsto> FsDir [])) = (r, fs')")
  case True
  then obtain dump archive partial where p: "partialPath env d = Inr partial" "fs d = None" "fs partial = None"
    and run: "publish codec sha256 env partial d createdAt dump archive (fs(partial \<mapsto> FsDir [])) = (r, fs')" by blast
  note d = partial_differs [OF p(1)]
  show ?thesis
  proof (cases r)
    case (Inl errs)
    then show ?thesis using publish_outcome [OF run p(3,2) d assms(3)] p(1) d by auto
  next
    case (Inr m)
    then obtain dir where dir: "write_bundle codec sha256 env createdAt dump archive = (Inr m, dir)" "fs' = fs(d \<mapsto> FsDir dir)"
      using publish_outcome [OF run p(3,2) d assms(3)] by auto
    have "map fst dir = [databaseFileName, contentFileName, manifestFileName]" by (rule write_bundle_Inr [OF dir(1)]) simp
    then show ?thesis using Inr p(2) dir(2) by auto
  qed
next
  case False
  then have "fs' = fs \<and> (\<exists>errs. r = Inl errs \<and> errs \<noteq> [])"
    using assms(1,2) unfolding bundle_Create_def by (auto split: option.splits sum.splits if_splits)
  then show ?thesis by auto
qed

section \<open>Verification of what was created\<close>

lemma validate_component_of:
  assumes "length (sha256 b) = 32"
  shows "validateComponent (component_of sha256 name b) name = None"
proof -
  have "to_lower (hex_encode (sha256 b)) = hex_encode (sha256 b)" using digest_format_iff [of "hex_encode (sha256 b)"] assms by simp
  then show ?thesis using assms by (simp add: validateComponent_def component_of_def)
qed

definition quiet_backup :: "backup_env \<Rightarrow> bool" where
  "quiet_backup env \<longleftrightarrow> bv_flt env = (\<lambda>_. None) \<and> (\<forall>n. bv_same env n) \<and> (\<forall>n. bv_cancel env n = None)"

lemma open_component_of:
  assumes "quiet_backup env" and "map_of dir name = Some (FileNode b)"
  shows "openVerifiedComponent sha256 env dir (component_of sha256 name b) = Inr b"
  using assms by (simp add: openVerifiedComponent_def component_of_def quiet_backup_def Let_def)

definition metadata_ok :: "database_metadata \<Rightarrow> bool" where
  "metadata_ok m \<longleftrightarrow> trim_space (dm_server m) \<noteq> [] \<and> trim_space (dm_dump m) \<noteq> [] \<and> trim_space (dm_restore m) \<noteq> [] \<and> 0 \<le> dm_migration m"

text \<open>The decoder reads back what the encoder wrote, and nothing follows it.\<close>

definition manifest_codec :: "bundle_codec \<Rightarrow> manifest \<Rightarrow> bool" where
  "manifest_codec codec m \<longleftrightarrow> (\<forall>b. bc_encode codec m = Inr b \<longrightarrow> bc_decode codec (b @ [CHR 0x0A]) = Inr m \<and> \<not> bc_trailing codec (b @ [CHR 0x0A]))"

lemma created_bundle_opens:
  assumes w: "write_bundle codec sha256 env0 createdAt dump content = (Inr m, dir)" and codec: "manifest_codec codec m" and env: "quiet_backup env"
    and abs: "bv_abs env root = Inr r" and fs: "fs r = Some (FsDir dir)" and sha: "\<And>b. length (sha256 b) = 32" and time: "\<not> is_zero_time createdAt"
    and meta: "metadata_ok (mf_postgres m)" and stats: "0 \<le> mf_objects m" "0 \<le> mf_bytes m" and small: "\<And>b. bc_encode codec m = Inr b \<Longrightarrow> int (length b) < maxManifestBytes"
  shows "openVerifiedBundle codec sha256 env root fs = Inr (dir, m)"
proof (rule write_bundle_Inr [OF w])
  fix metadata encoded
  assume b: "snd dump = Inr metadata" "snd (fst content) = []" "bc_encode codec m = Inr encoded"
    "m = \<lparr>mf_format = formatName, mf_version = formatVersion, mf_createdAt = createdAt, mf_offset = 0, mf_postgres = metadata,
       mf_database = component_of sha256 databaseFileName (fst dump), mf_content = component_of sha256 contentFileName (snd content),
       mf_objects = as_objects (fst (fst content)), mf_bytes = as_bytes (fst (fst content))\<rparr>"
    "dir = [(databaseFileName, FileNode (fst dump)), (contentFileName, FileNode (snd content)), (manifestFileName, FileNode (encoded @ [CHR 0x0A]))]"
  have names: "databaseFileName \<noteq> contentFileName" "databaseFileName \<noteq> manifestFileName" "contentFileName \<noteq> manifestFileName"
    by (simp_all add: databaseFileName_def contentFileName_def manifestFileName_def)
  have look: "map_of dir databaseFileName = Some (FileNode (fst dump))" "map_of dir contentFileName = Some (FileNode (snd content))" "map_of dir manifestFileName = Some (FileNode (encoded @ [CHR 0x0A]))"
    using names by (simp_all add: b(5))
  have "readManifest codec env dir = Inr m"
    using look(3) env small [OF b(3)] codec b(3) by (simp add: readManifest_def quiet_backup_def manifest_codec_def)
  moreover have "validateManifest m = None"
    using time meta stats validate_component_of [of sha256, OF sha] by (simp add: b(4) validateManifest_def metadata_ok_def)
  moreover have "verifyComponent sha256 env dir (mf_database m) = None" "verifyComponent sha256 env dir (mf_content m) = None"
    using open_component_of [OF env look(1)] open_component_of [OF env look(2)] env by (simp_all add: b(4) verifyComponent_def quiet_backup_def)
  moreover have "length dir = 3" "list_all (\<lambda>(n, k). n \<in> {manifestFileName, databaseFileName, contentFileName} \<and> plain_node k) dir" by (simp_all add: b(5) plain_node_def)
  ultimately show ?thesis using abs fs env by (simp add: openVerifiedBundle_def quiet_backup_def)
qed

section \<open>What a verified bundle holds\<close>

definition holds_component :: "(bytes \<Rightarrow> bytes) \<Rightarrow> directory \<Rightarrow> string \<Rightarrow> component_manifest \<Rightarrow> bool" where
  "holds_component sha256 dir name c \<longleftrightarrow> (\<exists>b. map_of dir name = Some (FileNode b) \<and> c = component_of sha256 name b)"

lemma openVerifiedComponent_Inr:
  assumes "openVerifiedComponent sha256 env dir c = Inr b"
  shows "map_of dir (part_file c) = Some (FileNode b)" "c = component_of sha256 (part_file c) b"
proof -
  obtain content where f: "map_of dir (part_file c) = Some (FileNode content)"
    using assms by (auto simp: openVerifiedComponent_def Let_def split: option.splits node.splits)
  obtain r e where c: "contextReader (bv_cancel env (part_file c)) (content, (case bv_flt env (BORead (part_file c)) of None \<Rightarrow> EOF | Some e \<Rightarrow> e)) = (r, e)" by fastforce
  have r: "e = EOF" "int (length r) = part_size c" "hex_encode (sha256 r) = part_sha256 c" "b = content"
    using assms f c by (auto simp: openVerifiedComponent_def Let_def split: option.splits if_splits)
  have "r = content" using contextReader_EOF [of "bv_cancel env (part_file c)" content _ r] c r(1) by simp
  then show "map_of dir (part_file c) = Some (FileNode b)" "c = component_of sha256 (part_file c) b" using f r by (simp_all add: component_of_def)
qed

lemma validateManifest_files: "validateManifest m = None \<Longrightarrow> part_file (mf_database m) = databaseFileName \<and> part_file (mf_content m) = contentFileName"
  by (auto simp: validateManifest_def validateComponent_def split: if_splits option.splits)

lemma openVerifiedBundle_Inr:
  assumes "openVerifiedBundle codec sha256 env root fs = Inr (dir, m)"
  obtains r where "bv_abs env root = Inr r" "fs r = Some (FsDir dir)" "validateManifest m = None"
    "holds_component sha256 dir databaseFileName (mf_database m)" "holds_component sha256 dir contentFileName (mf_content m)"
proof -
  obtain r where r: "bv_abs env root = Inr r" using assms by (cases "bv_abs env root") (auto simp: openVerifiedBundle_def)
  obtain dir' where dir: "fs r = Some (FsDir dir')"
    using assms r by (auto simp: openVerifiedBundle_def split: option.splits fs_entry.splits)
  have rest: "dir' = dir" "validateManifest m = None" "verifyComponent sha256 env dir (mf_database m) = None" "verifyComponent sha256 env dir (mf_content m) = None"
    using assms r dir unfolding openVerifiedBundle_def by (simp_all split: option.splits if_splits sum.splits)
  note files = validateManifest_files [OF rest(2)]
  have holds: "holds_component sha256 dir (part_file c) c" if "verifyComponent sha256 env dir c = None" for c
  proof -
    obtain b where "openVerifiedComponent sha256 env dir c = Inr b" using \<open>verifyComponent sha256 env dir c = None\<close> by (auto simp: verifyComponent_def split: sum.splits)
    from openVerifiedComponent_Inr [OF this] show ?thesis by (auto simp: holds_component_def)
  qed
  show ?thesis using that [OF r] dir rest holds [OF rest(3)] holds [OF rest(4)] files by simp
qed

section \<open>Restoration of a bundle\<close>

definition majorVersion :: "string \<Rightarrow> string" where
  "majorVersion version =
     (let v = trim_space version in
      if v = [] then []
      else let v1 = fst (cut v CHR ''.'') in if list_all is_digit v1 then v1 else [])"

definition validateRestoredMetadata :: "manifest \<Rightarrow> database_metadata \<Rightarrow> go_error option" where
  "validateRestoredMetadata m restored =
     (let p = mf_postgres m in
      if majorVersion (dm_server p) = [] \<or> majorVersion (dm_server p) \<noteq> majorVersion (dm_server restored) then Some (OtherError ''restored PostgreSQL server major does not match backup'')
      else if majorVersion (dm_dump p) \<noteq> majorVersion (dm_dump restored) \<or> majorVersion (dm_restore p) \<noteq> majorVersion (dm_restore restored)
        then Some (OtherError ''restored PostgreSQL tool major does not match backup'')
      else if dm_migration restored \<noteq> dm_migration p then Some (OtherError ''restored migration version does not match backup'') else None)"

datatype install_op = IOLstat | IOReadDir | IOStatParent | IORename | IOSyncParent | IORenameBack | IORemove

record install_env =
  iv_bundle :: backup_env
  iv_flt :: "install_op \<Rightarrow> go_error option"
  iv_restore :: restore_env
  iv_tool :: tool_env
  iv_store :: "store_op \<Rightarrow> go_error option"
  iv_scan :: scan_env

text \<open>The database, the content root, and the directory beside it in which content is staged when the root does not exist.\<close>

record restored =
  re_db :: "db option"
  re_content :: restore_target
  re_staging :: restore_target

definition path_string :: "string list \<Rightarrow> string" where
  "path_string p = CHR ''/'' # join_slash p"

definition missing_root :: restore_target where
  "missing_root = \<lparr>tg_kind = Missing, tg_entries = {}, tg_objects = Map.empty, tg_durable = Map.empty\<rparr>"

text \<open>The content part: directly into an empty directory, or staged beside an absent one and renamed.\<close>

definition install_content :: "(bytes \<Rightarrow> bytes) \<Rightarrow> install_env \<Rightarrow> string list \<Rightarrow> archive_view \<Rightarrow> archive_stats \<Rightarrow> restored \<Rightarrow> go_error list \<times> restored" where
  "install_content sha256 env root view expected re =
     (if tg_kind (re_content re) \<noteq> Missing
      then (case RestoreArchive sha256 (iv_restore env) (path_string root) (Some view) expected (re_content re) of ((_, errs), tg) \<Rightarrow> (errs, re\<lparr>re_content := tg\<rparr>))
      else (case partialPath (iv_bundle env) root of
         Inl e \<Rightarrow> ([e], re)
       | Inr stagingRoot' \<Rightarrow>
           (case RestoreArchive sha256 (iv_restore env) (path_string stagingRoot') (Some view) expected (re_staging re) of
              ((_, errs), tg) \<Rightarrow>
                if errs \<noteq> [] then (errs, re\<lparr>re_staging := tg\<rparr>)
                else
                  let removed = (\<lambda>re. if iv_flt env IORemove = None then re\<lparr>re_staging := missing_root\<rparr> else re) in
                  (case iv_flt env IORename of
                     Some e \<Rightarrow> ([e], removed (re\<lparr>re_staging := tg\<rparr>))
                   | None \<Rightarrow>
                       (case iv_flt env IOSyncParent of
                          Some e \<Rightarrow>
                            ([e], removed (if iv_flt env IORenameBack = None then re\<lparr>re_content := missing_root, re_staging := tg\<rparr> else re\<lparr>re_content := tg, re_staging := missing_root\<rparr>))
                        | None \<Rightarrow> ([], re\<lparr>re_content := tg, re_staging := missing_root\<rparr>))))))"

definition prove_consistent :: "(bytes \<Rightarrow> bytes) \<Rightarrow> install_env \<Rightarrow> string list \<Rightarrow> db \<Rightarrow> restore_target \<Rightarrow> go_error list" where
  "prove_consistent sha256 env root d tg =
     (case Open (\<lambda>_. Inr root) (iv_store env) (path_string root) \<lparr>so_maxBytes = 1, so_minFreeBytes = 0\<rparr> (tg_objects tg) [] of
        Inl e \<Rightarrow> [e]
      | Inr store \<Rightarrow>
          (case Reconcile sha256 True DefaultReconcileBatchSize False ((iv_scan env)\<lparr>sx_emit := (\<lambda>f. None)\<rparr>) d store of
             (Some e, st) \<Rightarrow> [e]
           | (None, st) \<Rightarrow> if Unresolved st \<noteq> 0 then [ErrInconsistentContent] else []))"

definition bundle_Restore :: "bundle_codec \<Rightarrow> (bytes \<Rightarrow> bytes) \<Rightarrow> install_env \<Rightarrow> string \<Rightarrow> string \<Rightarrow> bool \<Rightarrow> bundle_fs \<Rightarrow> restored \<Rightarrow> (go_error list + manifest) \<times> restored" where
  "bundle_Restore codec sha256 env bundleRoot targetContentRoot hasDatabase fs re =
     (if \<not> hasDatabase then (Inl [OtherError ''database restorer is required''], re)
      else case openVerifiedBundle codec sha256 (iv_bundle env) bundleRoot fs of
          Inl e \<Rightarrow> (Inl [e], re)
        | Inr (dir, m) \<Rightarrow>
            (case openVerifiedComponent sha256 (iv_bundle env) dir (mf_content m) of
               Inl e \<Rightarrow> (Inl [e], re)
             | Inr contentArchive \<Rightarrow>
                 (case openVerifiedComponent sha256 (iv_bundle env) dir (mf_database m) of
                    Inl e \<Rightarrow> (Inl [e], re)
                  | Inr databaseDump \<Rightarrow>
                      (case tool_Empty (iv_tool env) (re_db re) of
                         Inl e \<Rightarrow> (Inl [e], re)
                       | Inr False \<Rightarrow> (Inl [OtherError ''restore database is not empty''], re)
                       | Inr True \<Rightarrow>
                           if trim_space targetContentRoot = [] then (Inl [OtherError ''restore content root is required''], re)
                           else (case bv_abs (iv_bundle env) targetContentRoot of
                              Inl e \<Rightarrow> (Inl [e], re)
                            | Inr root \<Rightarrow>
                                (case iv_flt env IOLstat of
                                   Some e \<Rightarrow> (Inl [e], re)
                                 | None \<Rightarrow>
                                     if tg_kind (re_content re) = NotDirectory then (Inl [OtherError ''restore content root is not a directory''], re)
                                     else if tg_kind (re_content re) = Directory \<and> iv_flt env IOReadDir \<noteq> None then (Inl (error_list (iv_flt env IOReadDir)), re)
                                     else if tg_kind (re_content re) = Directory \<and> tg_entries (re_content re) \<noteq> {} then (Inl [OtherError ''restore content root is not empty''], re)
                                     else (case iv_flt env IOStatParent of
                                        Some e \<Rightarrow> (Inl [e], re)
                                      | None \<Rightarrow>
                                          if \<not> bv_parentDir (iv_bundle env) then (Inl [OtherError ''restore content parent is not a directory''], re)
                                          else (case install_content sha256 env root (bc_open codec contentArchive) \<lparr>as_objects = mf_objects m, as_bytes = mf_bytes m\<rparr> re of
                                             (errs, re1) \<Rightarrow>
                                               if errs \<noteq> [] then (Inl errs, re1)
                                               else (case tool_Restore (iv_tool env) (Some databaseDump) (re_db re1) of
                                                  (Inl e, d) \<Rightarrow> (Inl [e], re1\<lparr>re_db := d\<rparr>)
                                                | (Inr metadata, d) \<Rightarrow>
                                                    let re2 = re1\<lparr>re_db := d\<rparr> in
                                                    (case validateRestoredMetadata m metadata of
                                                       Some e \<Rightarrow> (Inl [e], re2)
                                                     | None \<Rightarrow>
                                                         (case d of
                                                            None \<Rightarrow> (Inl [OtherError ''restored database''], re2)
                                                          | Some d' \<Rightarrow>
                                                              (case prove_consistent sha256 env root d' (re_content re2) of
                                                                 [] \<Rightarrow> (Inr m, re2)
                                                               | errs \<Rightarrow> (Inl errs, re2)))))))))))))"

section \<open>Nothing is changed before the bundle is verified\<close>

text \<open>
  A restoration changes nothing unless the bundle is intact and the targets are empty: if the database, the content root or the staging directory is different
  afterwards, then the bundle holds the dump and the archive with the sizes and digests of its manifest, the database was empty, and the root was absent or an empty directory.
\<close>

theorem bundle_Restore_guarded:
  assumes "bundle_Restore codec sha256 env bundleRoot targetContentRoot hasDatabase fs re = (r, re')" and "re' \<noteq> re"
  shows "\<exists>dir m p. bv_abs (iv_bundle env) bundleRoot = Inr p \<and> fs p = Some (FsDir dir) \<and> validateManifest m = None \<and>
      holds_component sha256 dir databaseFileName (mf_database m) \<and> holds_component sha256 dir contentFileName (mf_content m) \<and>
      re_db re = None \<and> tg_kind (re_content re) \<noteq> NotDirectory \<and> (tg_kind (re_content re) = Directory \<longrightarrow> tg_entries (re_content re) = {})"
proof -
  obtain dir m where o: "openVerifiedBundle codec sha256 (iv_bundle env) bundleRoot fs = Inr (dir, m)"
    using assms by (auto simp: bundle_Restore_def split: if_splits sum.splits)
  obtain p where p: "bv_abs (iv_bundle env) bundleRoot = Inr p" "fs p = Some (FsDir dir)" "validateManifest m = None"
    "holds_component sha256 dir databaseFileName (mf_database m)" "holds_component sha256 dir contentFileName (mf_content m)" by (rule openVerifiedBundle_Inr [OF o])
  have open': "hasDatabase" using assms by (auto simp: bundle_Restore_def split: if_splits)
  obtain a where a: "openVerifiedComponent sha256 (iv_bundle env) dir (mf_content m) = Inr a"
    using assms o by (cases "openVerifiedComponent sha256 (iv_bundle env) dir (mf_content m)") (auto simp: bundle_Restore_def split: if_splits)
  obtain b where b: "openVerifiedComponent sha256 (iv_bundle env) dir (mf_database m) = Inr b"
    using assms o a by (cases "openVerifiedComponent sha256 (iv_bundle env) dir (mf_database m)") (auto simp: bundle_Restore_def split: if_splits)
  have e: "tool_Empty (iv_tool env) (re_db re) = Inr True"
    using assms o a b by (auto simp: bundle_Restore_def split: if_splits sum.splits bool.splits)
  then have "re_db re = None" by (auto simp: tool_Empty_def split: option.splits)
  moreover obtain root where root: "trim_space targetContentRoot \<noteq> []" "bv_abs (iv_bundle env) targetContentRoot = Inr root"
    using assms open' o a b e by (cases "bv_abs (iv_bundle env) targetContentRoot") (auto simp: bundle_Restore_def split: if_splits)
  moreover have "tg_kind (re_content re) \<noteq> NotDirectory \<and> (tg_kind (re_content re) = Directory \<longrightarrow> tg_entries (re_content re) = {})"
    using assms open' o a b e root by (auto simp: bundle_Restore_def split: if_splits option.splits)
  ultimately show ?thesis using p by blast
qed

section \<open>A backup restores everything\<close>

lemma trim_right_plain_hd: "s \<noteq> [] \<Longrightarrow> plain_char (hd s) \<Longrightarrow> trim_right_space s \<noteq> []"
proof (induction s rule: trim_right_space.induct)
  case (1 s)
  let ?k = "last_space_len s"
  show ?case
  proof (cases "?k = 0")
    case True
    then show ?thesis using 1(2) by (subst trim_right_space.simps) simp
  next
    case False
    have zero: "space_len s = 0" using 1(2,3) by (cases s) (simp_all add: space_len_plain del: space_len.simps(2))
    have "?k < length s"
    proof (cases "length s")
      case (Suc n)
      have "\<not> ascii_space (last s)" if "n = 0" using that Suc 1(3) by (cases s) (auto simp: plain_char_def)
      then show ?thesis using Suc zero by (cases "n = 1"; cases "n = 2") (auto simp: last_space_len_def)
    qed (use 1(2) in simp)
    then have "take (length s - ?k) s \<noteq> []" "hd (take (length s - ?k) s) = hd s" using 1(2) by auto
    then show ?thesis using 1(1) [OF False] 1(3) False by (subst trim_right_space.simps) simp
  qed
qed

lemma path_string_nonblank: "trim_space (path_string p) \<noteq> []"
proof -
  have "plain_char (hd (path_string p))" by (simp add: path_string_def plain_char_def is_ascii_def ascii_space_def)
  then show ?thesis using trim_left_plain [of "path_string p"] trim_right_plain_hd [of "path_string p"] by (simp add: trim_space_def path_string_def)
qed

text \<open>Every row has its object, with the size and digest of the row, and every object has a row.\<close>

definition consistent :: "(bytes \<Rightarrow> bytes) \<Rightarrow> db \<Rightarrow> (string \<Rightarrow> bytes option) \<Rightarrow> bool" where
  "consistent sha256 d objs \<longleftrightarrow> (\<forall>c \<in> set (mail_contents d). row_stored sha256 objs c) \<and> unreferenced objs d = {}"

lemma consistent_content_proved:
  assumes d: "db_wf d" and c: "consistent sha256 d (tg_objects tg)" and flt: "iv_store env = (\<lambda>_. None)"
    and scan: "calm_scan ((iv_scan env)\<lparr>sx_emit := (\<lambda>f. None)\<rparr>)" and w: "walk_shows (tg_objects tg) (sx_entries (iv_scan env))"
  shows "prove_consistent sha256 env root d tg = []"
proof -
  let ?scan = "(iv_scan env)\<lparr>sx_emit := (\<lambda>f. None)\<rparr>"
  obtain store where store: "Open (\<lambda>_. Inr root) (iv_store env) (path_string root) \<lparr>so_maxBytes = 1, so_minFreeBytes = 0\<rparr> (tg_objects tg) [] = Inr store"
    using Open_quiet [of "path_string root" "\<lparr>so_maxBytes = 1, so_minFreeBytes = 0\<rparr>" "\<lambda>_. Inr root" root "tg_objects tg" "[]"] path_string_nonblank flt by auto
  have objs: "st_objects store = tg_objects tg" by (rule Open_objects [OF store])
  have walk: "walk_shows (st_objects store) (sx_entries ?scan)" using w by (simp add: objs)
  obtain st where st: "Reconcile sha256 True DefaultReconcileBatchSize False ?scan d store = (None, st)"
    using Reconcile_calm [OF d scan walk, of DefaultReconcileBatchSize sha256 False store] by (auto simp: DefaultReconcileBatchSize_def)
  have "Unresolved st = 0" using Unresolved_iff [OF d scan walk st] c by (simp add: consistent_def objs)
  then show ?thesis using store st by (simp add: prove_consistent_def)
qed

lemma tool_Dump_Inr:
  assumes "snd (tool_Dump t env hasDestination d) = Inr m"
  shows "tool_metadata env True = Inr m" "fst (tool_Dump t env hasDestination d) = rc_output (tv_dump env d)" "validateToolMajors m = None"
  using assms by (auto simp: tool_Dump_def split: if_splits sum.splits option.splits prod.splits)

lemma tool_metadata_Inr:
  assumes "tool_metadata env True = Inr m"
  obtains texts where "tool_version (tv_server env) = Inr (dm_server m)" "tool_version (tv_dumpVersion env) = Inr (dm_dump m)" "tool_version (tv_restoreVersion env) = Inr (dm_restore m)"
    "tv_migration env = Inr (dm_migration m)" "tool_metadata env False = Inr (m\<lparr>dm_migration := 0\<rparr>)"
  using assms by (auto simp: tool_metadata_def Let_def split: sum.splits)

lemma tool_version_Inr:
  assumes "tool_version x = Inr v"
  shows "trim_space v \<noteq> []" "majorVersion v \<noteq> []"
proof -
  obtain text' where "parsePostgreSQLVersion text' = Inr v" using assms by (auto simp: tool_version_def split: sum.splits)
  note v = parsed_version [OF this]
  show "trim_space v \<noteq> []" "majorVersion v \<noteq> []" using v by (simp_all add: majorVersion_def Let_def)
qed

text \<open>The tool of the restoration works, runs the same versions, and makes of the dump the database that was dumped.\<close>

definition tool_restores :: "tool_env \<Rightarrow> tool_env \<Rightarrow> db \<Rightarrow> bool" where
  "tool_restores env renv d \<longleftrightarrow> tv_count renv = None \<and> tv_service renv = None \<and> tv_ready renv = None \<and>
     tv_server renv = tv_server env \<and> tv_dumpVersion renv = tv_dumpVersion env \<and> tv_restoreVersion renv = tv_restoreVersion env \<and> tv_migration renv = tv_migration env \<and>
     tv_restore renv (rc_output (tv_dump env (Some d))) = Inr d"

lemma tool_roundtrip:
  assumes "snd (tool_Dump t env True (Some d)) = Inr m" and "tool_restores env renv d"
  shows "tool_Restore renv (Some (fst (tool_Dump t env True (Some d)))) None = (Inr m, Some d)"
proof -
  note dump = tool_Dump_Inr [OF assms(1)]
  from dump(1) have md: "tv_migration env = Inr (dm_migration m)" "tool_metadata env False = Inr (m\<lparr>dm_migration := 0\<rparr>)" by (rule tool_metadata_Inr; blast)+
  have "tv_server renv = tv_server env" "tv_dumpVersion renv = tv_dumpVersion env" "tv_restoreVersion renv = tv_restoreVersion env" "tv_migration renv = tv_migration env"
    using assms(2) by (simp_all add: tool_restores_def)
  then have "tool_metadata renv False = tool_metadata env False" by (simp only: tool_metadata_def)
  moreover have "validateToolMajors (m\<lparr>dm_migration := 0\<rparr>) = None" using dump(3) by (auto simp: validateToolMajors_def split: sum.splits if_splits)
  ultimately show ?thesis using assms(2) dump(2) md by (simp add: tool_Restore_def tool_Empty_def tool_restores_def)
qed

lemma same_metadata_valid:
  assumes "tool_metadata env True = Inr (mf_postgres m)"
  shows "validateRestoredMetadata m (mf_postgres m) = None"
proof -
  from assms have "tool_version (tv_server env) = Inr (dm_server (mf_postgres m))" by (rule tool_metadata_Inr)
  from tool_version_Inr(2) [OF this] show ?thesis by (simp add: validateRestoredMetadata_def Let_def)
qed

lemma tool_metadata_valid:
  assumes "tool_metadata env True = Inr m" and "0 \<le> dm_migration m"
  shows "metadata_ok m"
  using assms(1)
proof (rule tool_metadata_Inr)
  assume "tool_version (tv_server env) = Inr (dm_server m)" "tool_version (tv_dumpVersion env) = Inr (dm_dump m)" "tool_version (tv_restoreVersion env) = Inr (dm_restore m)"
  then show ?thesis using tool_version_Inr(1) assms(2) by (simp add: metadata_ok_def)
qed

lemma publish_Inr:
  "publish codec sha256 env partial destination createdAt dump content fs = (Inr m, fs') \<Longrightarrow>
    \<exists>dir. write_bundle codec sha256 env createdAt dump content = (Inr m, dir) \<and> fs' destination = Some (FsDir dir)"
  by (auto simp: publish_def Let_def split: option.splits prod.splits sum.splits)

lemma bundle_Create_Inr:
  assumes "bundle_Create codec sha256 env destination createdAt (Some dump) (Some content) fs = (Inr m, fs')"
  obtains p dir where "bv_abs env destination = Inr p" "\<not> is_zero_time createdAt" "write_bundle codec sha256 env createdAt dump content = (Inr m, dir)" "fs' p = Some (FsDir dir)"
proof -
  obtain p partial where p: "bv_abs env destination = Inr p" "\<not> is_zero_time createdAt"
    and run: "publish codec sha256 env partial p createdAt dump content (fs(partial \<mapsto> FsDir [])) = (Inr m, fs')"
    using assms by (auto simp: bundle_Create_def split: option.splits sum.splits if_splits)
  then show ?thesis using that publish_Inr [OF run] by blast
qed

lemma content_installed:
  assumes w: "WriteArchive sha256 True xenv s = ((stats, []), es)" and l: "walk_shows (st_objects s) (ax_entries xenv)" and env: "quiet_restore (iv_restore env)" "iv_flt env = (\<lambda>_. None)" "bv_flt (iv_bundle env) = (\<lambda>_. None)"
    and abs: "\<And>p. is_ok (rx_abs (iv_restore env) (path_string p))" and tg: "target_ok (re_content re)" "tg_kind (re_content re) \<noteq> NotDirectory" "tg_entries (re_content re) = {}" "re_staging re = missing_root"
  shows "\<exists>tg. install_content sha256 env root (archive_of es) stats re = ([], re\<lparr>re_content := tg, re_staging := missing_root\<rparr>) \<and> tg_objects tg = st_objects s \<and> tg_durable tg = st_objects s"
proof (cases "tg_kind (re_content re) = Missing")
  case False
  obtain q where q: "rx_abs (iv_restore env) (path_string root) = Inr q" using abs [of root] by (auto simp: is_ok_Inr)
  obtain tg' where "RestoreArchive sha256 (iv_restore env) (path_string root) (Some (archive_of es)) stats (re_content re) = ((stats, []), tg')"
      "tg_objects tg' = st_objects s" "tg_durable tg' = st_objects s"
    using archive_roundtrip [OF w l env(1) path_string_nonblank q tg(1-3)] by blast
  moreover have "re\<lparr>re_content := tg', re_staging := missing_root\<rparr> = re\<lparr>re_content := tg'\<rparr>" using tg(4) by (cases re) simp
  ultimately show ?thesis using False by (intro exI [of _ tg']) (simp add: install_content_def)
next
  case True
  obtain staging where st: "partialPath (iv_bundle env) root = Inr staging" using env(3) by (simp add: partialPath_def)
  obtain q where q: "rx_abs (iv_restore env) (path_string staging) = Inr q" using abs [of staging] by (auto simp: is_ok_Inr)
  have "target_ok missing_root" "tg_kind missing_root \<noteq> NotDirectory" "tg_entries missing_root = {}" by (simp_all add: missing_root_def target_ok_def)
  from archive_roundtrip [OF w l env(1) path_string_nonblank q this]
  obtain tg' where "RestoreArchive sha256 (iv_restore env) (path_string staging) (Some (archive_of es)) stats missing_root = ((stats, []), tg')"
      "tg_objects tg' = st_objects s" "tg_durable tg' = st_objects s" by blast
  then show ?thesis using True st tg(4) env(2) by (auto simp: install_content_def Let_def)
qed

definition archived :: "bundle_codec \<Rightarrow> (archive_stats \<times> go_error list) \<times> tar_entry list \<Rightarrow> (archive_stats \<times> go_error list) \<times> bytes" where
  "archived codec w = (fst w, bc_pack codec (snd w))"

text \<open>
  The documented behaviour of the packages: the manifest decodes to what was encoded and is not longer than a manifest may be, an archive reads back as the entries written, and a digest
  has 32 bytes.
\<close>

definition codec_ok :: "bundle_codec \<Rightarrow> (bytes \<Rightarrow> bytes) \<Rightarrow> manifest \<Rightarrow> tar_entry list \<Rightarrow> bool" where
  "codec_ok codec sha256 m es \<longleftrightarrow> manifest_codec codec m \<and> bc_open codec (bc_pack codec es) = archive_of es \<and>
     (\<forall>b. bc_encode codec m = Inr b \<longrightarrow> int (length b) < maxManifestBytes) \<and> (\<forall>b. length (sha256 b) = 32)"

text \<open>Nothing fails around the restoration, and the walk over the restored objects finds only what is there.\<close>

definition restore_works :: "install_env \<Rightarrow> tool_env \<Rightarrow> db \<Rightarrow> (string \<Rightarrow> bytes option) \<Rightarrow> bool" where
  "restore_works env tenv d objs \<longleftrightarrow> quiet_backup (iv_bundle env) \<and> bv_parentDir (iv_bundle env) \<and> iv_flt env = (\<lambda>_. None) \<and> quiet_restore (iv_restore env) \<and>
     (\<forall>p. is_ok (rx_abs (iv_restore env) (path_string p))) \<and> iv_store env = (\<lambda>_. None) \<and> calm_scan ((iv_scan env)\<lparr>sx_emit := (\<lambda>f. None)\<rparr>) \<and> walk_shows objs (sx_entries (iv_scan env)) \<and>
     tool_restores tenv (iv_tool env) d"

definition restore_ready :: "restored \<Rightarrow> bool" where
  "restore_ready re \<longleftrightarrow> re_db re = None \<and> target_ok (re_content re) \<and> tg_kind (re_content re) \<noteq> NotDirectory \<and> tg_entries (re_content re) = {} \<and> re_staging re = missing_root"

lemma bundle_roundtrip:
  assumes "bundle_Create codec sha256 cenv destination createdAt (Some (tool_Dump t tenv True (Some d))) (Some (archived codec (WriteArchive sha256 True xenv s))) fs = (Inr m, fs')"
    and "walk_shows (st_objects s) (ax_entries xenv)" and "consistent sha256 d (st_objects s)" and "db_wf d" and "0 \<le> dm_migration (mf_postgres m)"
    and "codec_ok codec sha256 m (snd (WriteArchive sha256 True xenv s))" and "restore_works env tenv d (st_objects s)" and "restore_ready re"
    and "bv_abs (iv_bundle env) destination = bv_abs cenv destination" and "trim_space targetRoot \<noteq> []" and "bv_abs (iv_bundle env) targetRoot = Inr root"
  shows "\<exists>re'. bundle_Restore codec sha256 env destination targetRoot True fs' re = (Inr m, re') \<and> re_db re' = Some d \<and>
      tg_objects (re_content re') = st_objects s \<and> tg_durable (re_content re') = st_objects s"
proof (rule bundle_Create_Inr [OF assms(1)])
  fix p dir
  assume c: "bv_abs cenv destination = Inr p" "\<not> is_zero_time createdAt"
    "write_bundle codec sha256 cenv createdAt (tool_Dump t tenv True (Some d)) (archived codec (WriteArchive sha256 True xenv s)) = (Inr m, dir)" "fs' p = Some (FsDir dir)"
  note codec = assms(6) [unfolded codec_ok_def] and env = assms(7) [unfolded restore_works_def] and re = assms(8) [unfolded restore_ready_def]
  show ?thesis
  proof (rule write_bundle_Inr [OF c(3)])
    fix metadata encoded
    assume b: "snd (tool_Dump t tenv True (Some d)) = Inr metadata" "snd (fst (archived codec (WriteArchive sha256 True xenv s))) = []" "bc_encode codec m = Inr encoded"
      "m = \<lparr>mf_format = formatName, mf_version = formatVersion, mf_createdAt = createdAt, mf_offset = 0, mf_postgres = metadata,
         mf_database = component_of sha256 databaseFileName (fst (tool_Dump t tenv True (Some d))), mf_content = component_of sha256 contentFileName (snd (archived codec (WriteArchive sha256 True xenv s))),
         mf_objects = as_objects (fst (fst (archived codec (WriteArchive sha256 True xenv s)))), mf_bytes = as_bytes (fst (fst (archived codec (WriteArchive sha256 True xenv s))))\<rparr>"
      "dir = [(databaseFileName, FileNode (fst (tool_Dump t tenv True (Some d)))), (contentFileName, FileNode (snd (archived codec (WriteArchive sha256 True xenv s)))),
         (manifestFileName, FileNode (encoded @ [CHR 0x0A]))]"
    obtain stats es where w: "WriteArchive sha256 True xenv s = ((stats, []), es)" using b(2) by (cases "WriteArchive sha256 True xenv s") (auto simp: archived_def)
    have stats: "\<lparr>as_objects = mf_objects m, as_bytes = mf_bytes m\<rparr> = stats" "0 \<le> mf_objects m" "0 \<le> mf_bytes m"
      using archive_stats_nonneg [OF w] by (simp_all add: b(4) archived_def w)
    have md: "tool_metadata tenv True = Inr (mf_postgres m)" using tool_Dump_Inr(1) [OF b(1)] by (simp add: b(4))
    have opened: "openVerifiedBundle codec sha256 (iv_bundle env) destination fs' = Inr (dir, m)"
      using codec env by (intro created_bundle_opens [OF c(3), where r = p]) (simp_all add: assms(5,9) c tool_metadata_valid [OF md] stats)
    have names: "contentFileName \<noteq> databaseFileName" by (simp add: databaseFileName_def contentFileName_def)
    have comps: "openVerifiedComponent sha256 (iv_bundle env) dir (mf_content m) = Inr (bc_pack codec es)"
      "openVerifiedComponent sha256 (iv_bundle env) dir (mf_database m) = Inr (fst (tool_Dump t tenv True (Some d)))"
      using open_component_of [of "iv_bundle env" dir contentFileName "bc_pack codec es" sha256] open_component_of [of "iv_bundle env" dir databaseFileName "fst (tool_Dump t tenv True (Some d))" sha256] env names
      by (simp_all add: b(4,5) archived_def w)
    obtain tg where inst: "install_content sha256 env root (archive_of es) stats re = ([], re\<lparr>re_content := tg, re_staging := missing_root\<rparr>)"
      and tg: "tg_objects tg = st_objects s" "tg_durable tg = st_objects s"
      using content_installed [OF w assms(2), of env re root] env re by (auto simp: quiet_backup_def)
    have tool: "tool_Restore (iv_tool env) (Some (fst (tool_Dump t tenv True (Some d)))) None = (Inr (mf_postgres m), Some d)"
      using tool_roundtrip [OF b(1)] env by (simp add: b(4))
    have proved: "prove_consistent sha256 env root d tg = []"
      using assms(3,4) env tg by (intro consistent_content_proved) simp_all
    have "bundle_Restore codec sha256 env destination targetRoot True fs' re = (Inr m, re\<lparr>re_content := tg, re_staging := missing_root, re_db := Some d\<rparr>)"
      using opened comps re assms(10,11) env inst stats(1) tool proved same_metadata_valid [OF md] codec w
      by (simp add: bundle_Restore_def tool_Empty_def tool_restores_def)
    then show ?thesis using tg by simp
  qed
qed


section \<open>Witnesses\<close>

definition backup_db :: db where
  "backup_db = empty_db\<lparr>mail_contents := [new_content_row 20 (object_key sample_sha ''abc'') 3]\<rparr>"

definition sample_tool :: backup_tool where
  "sample_tool = \<lparr>bt_environment = [], bt_redactions = []\<rparr>"

definition sample_tool_env :: tool_env where
  "sample_tool_env = \<lparr>tv_server = Inr ''17.2'', tv_dumpVersion = Inr ''17.2'', tv_restoreVersion = Inr ''17.2'', tv_migration = Inr 8,
     tv_dump = (\<lambda>d. \<lparr>rc_output = ''dump'', rc_stderr = [], rc_error = None\<rparr>), tv_count = None, tv_service = None, tv_restore = (\<lambda>b. Inr backup_db), tv_ready = None\<rparr>"

definition sample_manifest :: manifest where
  "sample_manifest = \<lparr>mf_format = formatName, mf_version = formatVersion, mf_createdAt = 7, mf_offset = 0,
     mf_postgres = \<lparr>dm_server = ''17.2'', dm_dump = ''17.2'', dm_restore = ''17.2'', dm_migration = 8\<rparr>,
     mf_database = component_of sample_sha databaseFileName ''dump'', mf_content = component_of sample_sha contentFileName ''archive'', mf_objects = 1, mf_bytes = 3\<rparr>"

definition sample_codec :: bundle_codec where
  "sample_codec = \<lparr>bc_encode = (\<lambda>m. if m = sample_manifest then Inr ''m'' else Inl EOF), bc_decode = (\<lambda>b. Inr sample_manifest), bc_trailing = (\<lambda>b. False),
     bc_pack = (\<lambda>es. ''archive''), bc_open = (\<lambda>b. archive_of [object_entry (object_path (object_key sample_sha ''abc'')) 3 ''abc''])\<rparr>"

definition sample_backup_env :: backup_env where
  "sample_backup_env = \<lparr>bv_abs = (\<lambda>s. Inr [s]), bv_flt = (\<lambda>o'. None), bv_parentDir = True, bv_random = ''12345678'', bv_same = (\<lambda>n. True), bv_cancel = (\<lambda>n. None)\<rparr>"

definition sample_install_env :: install_env where
  "sample_install_env = \<lparr>iv_bundle = sample_backup_env, iv_flt = (\<lambda>o'. None), iv_restore = sample_restore_env, iv_tool = sample_tool_env,
     iv_store = (\<lambda>o'. None), iv_scan = stray_env\<rparr>"

lemma sample_version: "parsePostgreSQLVersion ''17.2'' = Inr ''17.2''" "postgreSQLMajor ''17.2'' = Inr ''17''"
  by code_simp+

lemma sample_dump: "tool_Dump sample_tool sample_tool_env True (Some backup_db) = (''dump'', Inr (mf_postgres sample_manifest))"
  by (simp add: tool_Dump_def tool_metadata_def tool_version_def sample_tool_env_def sample_version validateToolMajors_def tool_run_def sample_manifest_def)

lemma sample_archived: "archived sample_codec (WriteArchive sample_sha True sample_archive_env stray_store) = ((\<lparr>as_objects = 1, as_bytes = 3\<rparr>, []), ''archive'')"
  by (simp add: archived_def sample_archive sample_codec_def)

lemma backup_db_facts: "db_wf backup_db" "consistent sample_sha backup_db (st_objects stray_store)"
proof -
  have "content_row_ok (new_content_row 20 (object_key sample_sha ''abc'') 3)" by (intro new_content_row_ok object_key_valid) simp_all
  then show "db_wf backup_db" by (simp add: db_wf_def wf_tables backup_db_def empty_db_def List.map_filter_simps)
  have "unreferenced (st_objects stray_store) backup_db = {}"
    using stray_unreferenced by (auto simp: unreferenced_def backup_db_def new_content_row_def sample_db_def empty_db_def)
  then show "consistent sample_sha backup_db (st_objects stray_store)" by (simp add: consistent_def row_stored_def backup_db_def stray_store_def new_content_row_def)
qed

lemma sample_created:
  "\<exists>fs'. bundle_Create sample_codec sample_sha sample_backup_env ''b'' 7 (Some (tool_Dump sample_tool sample_tool_env True (Some backup_db)))
     (Some (archived sample_codec (WriteArchive sample_sha True sample_archive_env stray_store))) (\<lambda>p. None) = (Inr sample_manifest, fs')"
proof -
  have blank: "trim_space ''b'' \<noteq> []" using trim_space_plain [of "''b''"] by (simp add: plain_char_def is_ascii_def ascii_space_def)
  have m: "\<lparr>mf_format = formatName, mf_version = formatVersion, mf_createdAt = 7, mf_offset = 0, mf_postgres = mf_postgres sample_manifest,
      mf_database = component_of sample_sha databaseFileName ''dump'', mf_content = component_of sample_sha contentFileName ''archive'', mf_objects = 1, mf_bytes = 3\<rparr> = sample_manifest"
    by (simp add: sample_manifest_def)
  have "\<exists>dir. write_bundle sample_codec sample_sha sample_backup_env 7 (''dump'', Inr (mf_postgres sample_manifest)) ((\<lparr>as_objects = 1, as_bytes = 3\<rparr>, []), ''archive'') = (Inr sample_manifest, dir)"
    using m by (simp add: write_bundle_def write_component_def sample_backup_env_def error_list_def Let_def component_of_def writeManifest_def sample_codec_def)
  then show ?thesis using blank
    by (auto simp: bundle_Create_def sample_dump sample_archived sample_backup_env_def is_zero_time_def zero_time_def partialPath_def publish_def)
qed

lemma sample_restore_works: "restore_works sample_install_env sample_tool_env backup_db (st_objects stray_store)"
proof -
  have "calm_scan (stray_env\<lparr>sx_emit := (\<lambda>f. None)\<rparr>)" using stray_calm by (simp add: calm_scan_def quiet_scan_def)
  then show ?thesis using stray_walk
    by (simp add: restore_works_def sample_install_env_def quiet_backup_def sample_backup_env_def quiet_restore_def sample_restore_env_def tool_restores_def sample_tool_env_def)
qed

definition fresh_targets :: restored where
  "fresh_targets = \<lparr>re_db = None, re_content = missing_root, re_staging = missing_root\<rparr>"


theorem bundle_Create_all_or_nothing_witness:
  "case bundle_Create sample_codec sample_sha sample_backup_env ''b'' 7 None None (\<lambda>p. None) of
     (r, fs') \<Rightarrow> (case r of Inl errs \<Rightarrow> errs \<noteq> [] \<and> fs' [''b''] = None | Inr m \<Rightarrow> \<exists>dir. fs' = [[''b''] \<mapsto> FsDir dir])"
proof -
  obtain r fs' where run: "bundle_Create sample_codec sample_sha sample_backup_env ''b'' 7 None None (\<lambda>p. None) = (r, fs')" by fastforce
  have "bv_abs sample_backup_env ''b'' = Inr [''b'']" "bv_flt sample_backup_env BORenameBack = None" by (simp_all add: sample_backup_env_def)
  from bundle_Create_all_or_nothing [OF run this] show ?thesis unfolding run by (auto split: sum.splits)
qed

lemma sample_restored:
  "\<exists>fs' re'. bundle_Restore sample_codec sample_sha sample_install_env ''b'' ''content'' True fs' fresh_targets = (Inr sample_manifest, re') \<and> re_db re' = Some backup_db \<and>
      tg_objects (re_content re') = st_objects stray_store \<and> tg_durable (re_content re') = st_objects stray_store"
proof -
  obtain fs' where created: "bundle_Create sample_codec sample_sha sample_backup_env ''b'' 7 (Some (tool_Dump sample_tool sample_tool_env True (Some backup_db)))
     (Some (archived sample_codec (WriteArchive sample_sha True sample_archive_env stray_store))) (\<lambda>p. None) = (Inr sample_manifest, fs')" using sample_created by blast
  have lists: "walk_shows (st_objects stray_store) (ax_entries sample_archive_env)" using stray_walk by (simp add: sample_archive_env_def stray_env_def)
  have mig: "0 \<le> dm_migration (mf_postgres sample_manifest)" by (simp add: sample_manifest_def)
  have codec: "codec_ok sample_codec sample_sha sample_manifest (snd (WriteArchive sample_sha True sample_archive_env stray_store))"
    by (simp add: codec_ok_def manifest_codec_def sample_codec_def maxManifestBytes_def sample_archive)
  have ready: "restore_ready fresh_targets" by (simp add: restore_ready_def fresh_targets_def missing_root_def target_ok_def)
  have paths: "bv_abs (iv_bundle sample_install_env) ''b'' = bv_abs sample_backup_env ''b''" "bv_abs (iv_bundle sample_install_env) ''content'' = Inr [''content'']"
    by (simp_all add: sample_install_env_def sample_backup_env_def)
  show ?thesis
    using bundle_roundtrip [OF created lists backup_db_facts(2,1) mig codec sample_restore_works ready paths(1) sample_root paths(2)] by blast
qed

theorem bundle_Restore_guarded_witness:
  "\<exists>fs re'. bundle_Restore sample_codec sample_sha sample_install_env ''b'' ''content'' True fs fresh_targets = (Inr sample_manifest, re') \<and>
     (\<exists>dir (m :: manifest) p. bv_abs (iv_bundle sample_install_env) ''b'' = Inr p \<and> fs p = Some (FsDir dir) \<and> holds_component sample_sha dir databaseFileName (mf_database m) \<and>
        holds_component sample_sha dir contentFileName (mf_content m))"
proof -
  obtain fs re' where run: "bundle_Restore sample_codec sample_sha sample_install_env ''b'' ''content'' True fs fresh_targets = (Inr sample_manifest, re')" and d: "re_db re' = Some backup_db"
    using sample_restored by blast
  have "re' \<noteq> fresh_targets" using d by (auto simp: fresh_targets_def)
  from bundle_Restore_guarded [OF run this] obtain dir p and m :: manifest where g: "bv_abs (iv_bundle sample_install_env) ''b'' = Inr p" "fs p = Some (FsDir dir)"
      "holds_component sample_sha dir databaseFileName (mf_database m)" "holds_component sample_sha dir contentFileName (mf_content m)" by blast
  show ?thesis by (rule exI [of _ fs], rule exI [of _ re'], rule conjI [OF run], rule exI [of _ dir], rule exI [of _ m], rule exI [of _ p]) (intro conjI g)
qed

end
