(* ===== verification/Spec2Isabelle.thy ===== *)
theory Spec2Isabelle
  imports Content_Lifecycle Parser_Worker Message_Cursor Compat_Security Backup_Bundle
begin

text \<open>
  Verification of MailWisp, a server for short-lived mail inboxes (Go, under \<^verbatim>\<open>src/\<close>).

  \<^bold>\<open>The program.\<close> Mail arrives over LMTP (\<^verbatim>\<open>internal/lmtp\<close>). A session resolves each recipient to an
  Inbox, reads the message, and hands it to the receiver (\<^verbatim>\<open>internal/message\<close>), which first writes the
  raw bytes to a content-addressed store (\<^verbatim>\<open>internal/contentstore\<close>) and then commits one row per
  recipient to PostgreSQL (\<^verbatim>\<open>internal/postgres\<close>); only then the session answers 250. Background jobs
  (\<^verbatim>\<open>internal/jobs\<close>) parse stored content (\<^verbatim>\<open>internal/mail\<close>) under leases and delete expired Inboxes and the
  objects nothing refers to. Clients create an Inbox and get a bearer capability for it (\<^verbatim>\<open>internal/auth\<close>,
  \<^verbatim>\<open>internal/mailbox\<close>), limited by a daily quota per address (\<^verbatim>\<open>internal/abuse\<close>), and read and delete mail over
  HTTP (\<^verbatim>\<open>internal/httpapi\<close>), with the capability, with a browser session, or in the dialect of one of three other
  services (\<^verbatim>\<open>internal/duckmail\<close>, \<^verbatim>\<open>internal/yyds\<close>, \<^verbatim>\<open>internal/cloudflaretemp\<close>). The process is composed from its
  configuration (\<^verbatim>\<open>internal/config\<close>, \<^verbatim>\<open>internal/app\<close>); maintenance commands run while it does not, under one
  exclusive lease; a backup is a bundle of a database dump and an archive of the objects (\<^verbatim>\<open>internal/backup\<close>).

  \<^bold>\<open>Conventions.\<close> A Go string or byte slice is a character list, times and durations are nanoseconds,
  an error is a value of \<open>go_error\<close>, a fallible function returns \<open>'a result\<close>, and a function that
  changes state returns the new state. Integers are unbounded where the code's bounds keep them in
  range and wrap explicitly where they may not (\<open>wrap64\<close>, the word types of scopes and encodings). Calls of the
  operating system, of the database driver and of the clock take their answers from an environment
  argument, so every theorem holds for every schedule of failures.

  \<^bold>\<open>Theories.\<close>
  \<^item> \<open>Wisp_Prelude\<close>, \<open>Wisp_Codec\<close>, \<open>Net_Addr\<close>: the packages \<^verbatim>\<open>strings\<close>, \<^verbatim>\<open>errors\<close>, \<^verbatim>\<open>strconv\<close>, \<^verbatim>\<open>encoding/hex\<close>,
    \<^verbatim>\<open>base64\<close>, \<^verbatim>\<open>base32\<close>, \<^verbatim>\<open>binary\<close> and \<^verbatim>\<open>net\<close> as far as the code uses them, with their round trips.
  \<^item> \<open>Auth_Token\<close>, \<open>Auth_Scope\<close>, \<open>Capability_Service\<close>, \<open>Browser_Session\<close>: package \<^verbatim>\<open>auth\<close>. The service is
    proved over the locale \<open>capability_store\<close>, the contract of its repository.
  \<^item> \<open>Db_Core\<close>, \<open>Db_Schema\<close>: statements, transactions with faults at every step (a commit may fail with
    or without effect), the tables as row lists and their constraints as the invariant \<open>db_wf\<close>. Transactions run one after the other:
    row locks and the anomalies of READ COMMITTED have no counterpart.
  \<^item> \<open>Parse_Table\<close>: the constraints of \<^verbatim>\<open>mail_content_parses\<close>, with the JSON text that PostgreSQL measures.
  \<^item> \<open>Delivery_Repository\<close>, \<open>Mailbox_Repository\<close>, \<open>Capability_Repository\<close>, \<open>Parse_Queue\<close>, \<open>Create_Quota\<close>:
    package \<^verbatim>\<open>postgres\<close>, one definition per SQL statement and one per transaction. Each operation is
    proved to refine a one-step description (\<open>delivered\<close>, \<open>purged\<close>, \<open>message_removed\<close>, \<open>report\<close>), all or nothing.
    \<open>Capability_Repository\<close> interprets \<open>capability_store\<close>.
  \<^item> \<open>Message_Delivery\<close>, \<open>Lmtp_Reader\<close>, \<open>Lmtp_Session\<close>, \<open>Message_Receiver\<close>: packages \<^verbatim>\<open>message\<close> and \<^verbatim>\<open>lmtp\<close>. The
    session is proved over the locale \<open>lmtp_world\<close>, the contract of resolver and receiver, which
    \<open>Message_Receiver\<close> interprets with the store and the repository.
  \<^item> \<open>Content_Store\<close>: the object store; the state keeps the directory entries that are visible and those that
    survive a crash; syncing a directory moves its entries from the first to the second. The sync of a file itself has no effect in the
    model but may fail: an object that survives has all its bytes.
  \<^item> \<open>Mail_Model\<close>, \<open>Mime_Text\<close>, \<open>Mime_Parser\<close>, \<open>Mime_Attachment\<close>: package \<^verbatim>\<open>mail\<close>: data and limits, the clean-up of texts and
    file names over UTF-8 runes, \<^verbatim>\<open>Parse\<close>, and the reopening of an attachment. The library that reads the MIME structure
    is represented by what it hands to the walk: the parts in order, with headers, decode errors and bodies as streams.
  \<^item> \<open>Parser_Worker\<close>, \<open>Retention\<close>: package \<^verbatim>\<open>jobs\<close>. For the worker a parser is a
    reader program (how many bytes it asks for next, or its result): it is proved for all of them.
  \<^item> \<open>Content_Lifecycle\<close>: store, database, delivery, deletion and retention as one step relation with crashes. Any number of writers
    are under way at once, under the shared lock of the store: each stage of a write (stage, prepare, link, sync) is a step of its own;
    deletions of objects, which take the lock exclusively, and transactions are single steps.
  \<^item> \<open>Content_Reconcile\<close>: the comparison of content rows and objects (\<^verbatim>\<open>reconcile.go\<close>, \<^verbatim>\<open>content_catalog.go\<close>). The entries of
    \<^verbatim>\<open>filepath.WalkDir\<close> are an input of the scan; \<open>walk_shows\<close> says that they are those of a directory of objects.
  \<^item> \<open>Content_Archive\<close>, \<open>Backup_Tool\<close>, \<open>Backup_Bundle\<close>: \<^verbatim>\<open>archive.go\<close>, \<^verbatim>\<open>backup_tool.go\<close> and package \<^verbatim>\<open>backup\<close>: archives of the objects, the
    adapter of \<^verbatim>\<open>pg_dump\<close> and \<^verbatim>\<open>pg_restore\<close>, bundles with their manifest, and the restoration of a bundle.
  \<^item> \<open>Mailbox_Service\<close>, \<open>Message_Cursor\<close>: package \<^verbatim>\<open>mailbox\<close> and the cursor encoding of \<^verbatim>\<open>httpapi\<close>.
  \<^item> \<open>Http_Api\<close>, \<open>Http_Security\<close>: \<^verbatim>\<open>httpapi/server.go\<close>, one definition per handler with requests and responses as
    values and the routing table \<open>serve\<close>; then what a request can change and read, and the daily limit.
  \<^item> \<open>Compat_Tables\<close>, \<open>Duck_Mail\<close>, \<open>Compat_Services\<close>, \<open>Compat_Http\<close>, \<open>Compat_Security\<close>: the three adapters: their tables, password
    accounts, services and repositories, handlers and presenters, and the same guarantees for them.
  \<^item> \<open>Duration_Text\<close>, \<open>Wisp_Config\<close>: the text of durations and package \<^verbatim>\<open>config\<close>: loading from the environment and every rule
    of \<^verbatim>\<open>Validate\<close>.
  \<^item> \<open>App_Composition\<close>, \<open>Maintenance_Lease\<close>: package \<^verbatim>\<open>app\<close>: \<^verbatim>\<open>New\<close> with every constructor in order, \<^verbatim>\<open>Run\<close> with the arrival of
    the services' results, the lease and the two commands under it.
  The interfaces between components are the locales \<open>capability_store\<close>, \<open>lmtp_world\<close> and \<open>db_invariant\<close> (a predicate that
  transactions keep), each interpreted on the model of the component that provides it.

  \<^bold>\<open>What is shown.\<close> Acknowledged mail is stored and committed for every recipient, durably if no other writer of the same content is under way;
  however the stages of concurrent writes, the transactions, deletions, sweeps and crashes follow each other, content that a row refers to is lost
  only in a crash between the link and the sync of its object, and no reconciliation loses any; transactions are atomic and keep the schema and the quotas; a session always ends, within its limits,
  in step with the sender; capabilities authenticate exactly what was issued, and rotation and revocation are final;
  a request over HTTP, native or of an adapter, changes and reveals only the Inbox whose credential it carries in its header or cookie, and all ways
  to create an Inbox share one daily limit; parse outcomes are fenced by their lease and come from verified bytes, and the queue drains as far as the table
  takes the results; the parser accepts exactly the messages within its limits, what it returns satisfies every constraint of the table but
  the sizes of the JSON texts and the absence of NUL in them, which it does not ensure, and the attachments listed with a well-formed type can be read back; pages of messages are complete and without repetition; encodings are inverted by their decoders; a validated
  configuration composes (given the quota key), a run succeeds exactly when nothing fails and everything stops in time;
  one process at a time holds the lease as long as no connection is lost, reconciliation reports exactly the missing and corrupt
  objects of the rows and the objects of the store without a row, and a backup of a consistent system restores all of it.
  Some theorems show behaviour the code does not intend (a truncated message is accepted, a racing writer is acknowledged too early, a page of failing objects stops the sweep, attachments with
  malformed types are lost, long content types do not fit the table and a result that does not fit is
  parsed again for ever, a malformed interval turns the clean-up off, a service's error is dropped at shutdown, a lost
  connection breaks the exclusion); they are the findings of the manifest.

  \<^bold>\<open>Loops and bounds.\<close> Every loop is a terminating function: over its input, over the remaining attempts
  (three for key identifiers, five for addresses), over the database rows still to delete (\<open>sweep_cleanup\<close>), or over
  the path components (\<open>syncDirectoryTree\<close>). \<open>list_walk\<close>, the client loop of the pagination theorem, has
  one unit of fuel per message and one more, and is shown to end before the fuel does. \<open>leaf_loop\<close> and \<open>read_all\<close> end because a body stream is finite, \<open>walk_pages\<close> because each page leaves fewer rows after its key.

  \<^bold>\<open>Parameters.\<close> SHA-256 (as a function, with its length where needed), Argon2, the UUID parser of the
  database driver (\<open>canon\<close>), AES-GCM, random bytes, the MIME library and the parsers of addresses and dates
  (\<open>mime_libs\<close>), the URL parser behind the database password file, the size of an encoded JSON body, the connection pool, the
  directory walk, \<^verbatim>\<open>pg_dump\<close> and \<^verbatim>\<open>pg_restore\<close>, and the JSON, tar and gzip packages of a backup. A hypothesis on a parameter states its documented behaviour and is instantiated in a witness.

  \<^bold>\<open>Not modelled.\<close> The frame of the backup commands (\<^verbatim>\<open>app/backup.go\<close>); migrations and the command line are calls of libraries; metrics and the benchmark have no effect on mail. Of the
  HTTP server the rate limiter, the log and recovery wrappers and the JSON text on the wire are left out; of the
  parser worker and of retention the goroutines and tickers; of the process the readiness flag and the log.
\<close>

end
